(* ===== verification/Csp_Prelude.thy ===== *)
theory Csp_Prelude
  imports Main "HOL-Library.Word" "HOL-Library.Monad_Syntax" "HOL-Library.Multiset"
begin

text \<open>
  Shared vocabulary of the development: the machine integers of \<^verbatim>\<open><stdint.h>\<close>, the byte
  order conversions of \<^verbatim>\<open><endian.h>\<close> on a little-endian host, checked reads and writes of a
  byte array (an access outside the array is undefined behaviour of C and has no result),
  and the two judgements used for operations that thread a state and may have undefined
  behaviour: \<open>returns\<close> (the operation is defined and its result satisfies a
  postcondition) and \<open>if_returns\<close> (the same, for the runs that are defined).
\<close>

unbundle bit_operations_syntax

type_synonym u8 = "8 word"
type_synonym u16 = "16 word"
type_synonym u32 = "32 word"
type_synonym u64 = "64 word"

named_theorems csp_defs \<open>definitions unfolded when a concrete input is evaluated\<close>
named_theorems returns_rules \<open>postconditions of the operations, used as introduction rules\<close>

section \<open>Integers in memory\<close>

text \<open>An integer of \<open>n\<close> bytes is stored with its least significant byte first.\<close>

definition word_to_le :: "nat \<Rightarrow> 'a::len word \<Rightarrow> u8 list" where
  "word_to_le n w = map (\<lambda>i. ucast (drop_bit (8 * i) w)) [0..<n]"

primrec le_to_word :: "u8 list \<Rightarrow> 'a::len word" where
  "le_to_word [] = 0"
| "le_to_word (b # bs) = ucast b OR push_bit 8 (le_to_word bs)"

text \<open>
  \<^verbatim>\<open>htobe16\<close>, \<^verbatim>\<open>htobe32\<close> and \<^verbatim>\<open>htobe64\<close> reverse the bytes; so do their inverses.
\<close>

definition bswap :: "nat \<Rightarrow> 'a::len word \<Rightarrow> 'a word" where
  "bswap n w = le_to_word (rev (word_to_le n w))"

definition htobe16 :: "u16 \<Rightarrow> u16" where "htobe16 w = bswap 2 w"
definition htobe32 :: "u32 \<Rightarrow> u32" where "htobe32 w = bswap 4 w"
definition htobe64 :: "u64 \<Rightarrow> u64" where "htobe64 w = bswap 8 w"
definition be16toh :: "u16 \<Rightarrow> u16" where "be16toh w = bswap 2 w"
definition be32toh :: "u32 \<Rightarrow> u32" where "be32toh w = bswap 4 w"
definition be64toh :: "u64 \<Rightarrow> u64" where "be64toh w = bswap 8 w"

lemma length_word_to_le [simp]: "length (word_to_le n w) = n"
  by (simp add: word_to_le_def)

lemma nth_word_to_le [simp]: "i < n \<Longrightarrow> word_to_le n w ! i = ucast (drop_bit (8 * i) w)"
  by (simp add: word_to_le_def)

lemma bit_le_to_word:
  "bit (le_to_word bs :: 'a::len word) n \<longleftrightarrow>
     n < LENGTH('a) \<and> n div 8 < length bs \<and> bit (bs ! (n div 8)) (n mod 8)"
proof (induction bs arbitrary: n)
  case Nil
  then show ?case by simp
next
  case (Cons b bs)
  show ?case
  proof (cases "n < 8")
    case True
    then show ?thesis by (auto simp: bit_simps)
  next
    case False
    have high: "\<not> bit b n" using False bit_imp_le_length [of b n] by auto
    obtain m where n: "n = 8 + m" using False by (metis le_Suc_ex not_less)
    have d: "(8 + m) div 8 = Suc (m div 8)" by simp
    show ?thesis using high Cons.IH [of m] by (auto simp: n bit_simps d)
  qed
qed

lemma le_to_word_to_le: "le_to_word (word_to_le n w) = take_bit (8 * n) (w :: 'a::len word)"
  by (rule bit_word_eqI) (auto simp: bit_le_to_word bit_simps ac_simps)

lemma le_to_word_to_le_full [simp]:
  "LENGTH('a) \<le> 8 * n \<Longrightarrow> le_to_word (word_to_le n w) = (w :: 'a::len word)"
  by (simp add: le_to_word_to_le take_bit_word_eq_self)

lemma word_to_le_to_word:
  "8 * length bs \<le> LENGTH('a) \<Longrightarrow> word_to_le (length bs) (le_to_word bs :: 'a::len word) = bs"
  by (rule nth_equalityI)
    (auto intro!: bit_word_eqI simp: bit_le_to_word bit_simps dest: bit_imp_le_length)

lemma word_to_le_bswap:
  "8 * n = LENGTH('a) \<Longrightarrow> word_to_le n (bswap n (w :: 'a::len word)) = rev (word_to_le n w)"
  using word_to_le_to_word [of "rev (word_to_le n w)", where 'a = 'a] by (simp add: bswap_def)

lemma bswap_bswap: "8 * n = LENGTH('a) \<Longrightarrow> bswap n (bswap n (w :: 'a::len word)) = w"
  by (subst bswap_def) (simp add: word_to_le_bswap)

lemma bit_bswap:
  "bit (bswap n (w :: 'a::len word)) k \<longleftrightarrow>
     k < LENGTH('a) \<and> k < 8 * n \<and> bit w (8 * (n - 1 - k div 8) + k mod 8)"
  by (auto simp: bswap_def bit_le_to_word rev_nth bit_simps ac_simps)

lemma be_to_he [simp]:
  "be16toh (htobe16 a) = a" "be32toh (htobe32 b) = b" "be64toh (htobe64 c) = c"
  by (simp_all add: be16toh_def htobe16_def be32toh_def htobe32_def be64toh_def htobe64_def
      bswap_bswap)

lemma he_to_be [simp]:
  "htobe16 (be16toh a) = a" "htobe32 (be32toh b) = b" "htobe64 (be64toh c) = c"
  by (simp_all add: be16toh_def htobe16_def be32toh_def htobe32_def be64toh_def htobe64_def
      bswap_bswap)

lemma ucast_u16_u32: "ucast (ucast w :: u32) = (w :: u16)"
  by (rule bit_word_eqI) (auto simp: bit_simps dest: bit_imp_le_length)

lemma unat_of_nat_less [simp]: "n < 2 ^ LENGTH('a) \<Longrightarrow> unat (of_nat n :: 'a::len word) = n"
  by (simp add: unat_of_nat take_bit_nat_eq_self)

lemma unat_ucast_up [simp]:
  "LENGTH('a) \<le> LENGTH('b) \<Longrightarrow> unat (ucast (w :: 'a::len word) :: 'b::len word) = unat w"
  by (simp add: unsigned_ucast_eq take_bit_nat_eq_self less_le_trans [OF unsigned_less])

lemma unat_plus1_less:
  assumes "w < (v :: 'a::len word)"
  shows "unat (w + 1) = Suc (unat w)"
proof -
  have "unat v < 2 ^ LENGTH('a)" by (rule unsigned_less)
  moreover have "unat w < unat v" using assms by (simp add: word_less_nat_alt)
  ultimately have "Suc (unat w) < 2 ^ LENGTH('a)" by linarith
  then show ?thesis by (simp add: unat_word_ariths)
qed

lemma xor_cancel [simp]:
  "a XOR b = a XOR c \<longleftrightarrow> b = (c :: 'a::len word)" "b XOR a = c XOR a \<longleftrightarrow> b = (c :: 'a::len word)"
  by (auto simp: bit_eq_iff bit_simps)

lemma xor_xor_cancel: "a XOR (b XOR a) = (b :: 'a::len word)"
  by (rule bit_word_eqI) (auto simp: bit_simps)

lemma nth_update_at: "j < length xs \<Longrightarrow> xs[i := v] ! j = (if i = j then v else xs ! j)"
  by simp

section \<open>Byte arrays\<close>

text \<open>\<^verbatim>\<open>memcpy\<close> out of and into an array; an access past its end is undefined.\<close>

definition mem_read :: "nat \<Rightarrow> nat \<Rightarrow> u8 list \<Rightarrow> u8 list option" where
  "mem_read off n m = (if off + n \<le> length m then Some (take n (List.drop off m)) else None)"

definition mem_write :: "nat \<Rightarrow> u8 list \<Rightarrow> u8 list \<Rightarrow> u8 list option" where
  "mem_write off bs m =
     (if off + length bs \<le> length m
      then Some (take off m @ bs @ List.drop (off + length bs) m) else None)"

text \<open>The same write where the offset is a constant that is inside the array.\<close>

definition mem_put :: "nat \<Rightarrow> u8 list \<Rightarrow> u8 list \<Rightarrow> u8 list" where
  "mem_put off bs m = take off m @ bs @ List.drop (off + length bs) m"

lemma length_mem_put [simp]: "off + length bs \<le> length m \<Longrightarrow> length (mem_put off bs m) = length m"
  by (simp add: mem_put_def)

lemma mem_write_put: "off + length bs \<le> length m \<Longrightarrow> mem_write off bs m = Some (mem_put off bs m)"
  by (simp add: mem_write_def mem_put_def)

lemma mem_write_length: "mem_write off bs m = Some m' \<Longrightarrow> length m' = length m"
  by (auto simp: mem_write_def split: if_splits)

lemma mem_read_length: "mem_read off n m = Some bs \<Longrightarrow> length bs = n"
  by (auto simp: mem_read_def split: if_splits)

lemma mem_read_put_same:
  "off + length bs \<le> length m \<Longrightarrow> n = length bs \<Longrightarrow> mem_read off n (mem_put off bs m) = Some bs"
  by (simp add: mem_read_def mem_put_def)

lemma take_drop_put_below:
  "off' + n \<le> off \<Longrightarrow> off + length bs \<le> length m \<Longrightarrow>
     take n (List.drop off' (mem_put off bs m)) = take n (List.drop off' m)"
  by (rule nth_equalityI) (auto simp: mem_put_def nth_append)

lemma take_drop_put_above:
  "off + length bs \<le> off' \<Longrightarrow> off + length bs \<le> length m \<Longrightarrow>
     take n (List.drop off' (mem_put off bs m)) = take n (List.drop off' m)"
  by (simp add: mem_put_def)

lemma take_drop_put_same:
  "off + length bs \<le> length m \<Longrightarrow> take (length bs) (List.drop off (mem_put off bs m)) = bs"
  by (simp add: mem_put_def)

section \<open>Operations that thread a state\<close>

text \<open>
  An operation takes the state and gives \<open>Some (r, s)\<close>, its result and the state it leaves,
  or \<open>None\<close> where the C code has undefined behaviour (a null or wild pointer, an
  index outside an array).
\<close>

type_synonym ('r, 's) outcome = "('r \<times> 's) option"

definition returns :: "('r, 's) outcome \<Rightarrow> ('r \<Rightarrow> 's \<Rightarrow> bool) \<Rightarrow> bool" where
  "returns m Q \<longleftrightarrow> (case m of None \<Rightarrow> False | Some (r, s) \<Rightarrow> Q r s)"

definition if_returns :: "('r, 's) outcome \<Rightarrow> ('r \<Rightarrow> 's \<Rightarrow> bool) \<Rightarrow> bool" where
  "if_returns m Q \<longleftrightarrow> (case m of None \<Rightarrow> True | Some (r, s) \<Rightarrow> Q r s)"

lemma returns_simps [simp]:
  "returns (Some (r, s)) Q \<longleftrightarrow> Q r s" "returns None Q \<longleftrightarrow> False"
  "if_returns (Some (r, s)) Q \<longleftrightarrow> Q r s" "if_returns None Q \<longleftrightarrow> True"
  by (simp_all add: returns_def if_returns_def)

lemma returns_bind [simp]:
  "returns (Option.bind m f) Q \<longleftrightarrow> returns m (\<lambda>r s. returns (f (r, s)) Q)"
  by (cases m) (auto simp: returns_def)

lemma if_returns_bind [simp]:
  "if_returns (Option.bind m f) Q \<longleftrightarrow> if_returns m (\<lambda>r s. if_returns (f (r, s)) Q)"
  by (cases m) (auto simp: if_returns_def)

lemma returns_mono: "returns m Q \<Longrightarrow> (\<And>r s. Q r s \<Longrightarrow> R r s) \<Longrightarrow> returns m R"
  by (auto simp: returns_def split: option.splits)

lemma if_returns_mono: "if_returns m Q \<Longrightarrow> (\<And>r s. Q r s \<Longrightarrow> R r s) \<Longrightarrow> if_returns m R"
  by (auto simp: if_returns_def split: option.splits)

lemma returns_imp: "returns m Q \<Longrightarrow> if_returns m Q"
  by (auto simp: returns_def if_returns_def split: option.splits)

lemma returnsE:
  assumes "returns m Q"
  obtains r s where "m = Some (r, s)" "Q r s"
  using assms by (auto simp: returns_def split: option.splits)

lemma if_returnsI: "(\<And>r s. m = Some (r, s) \<Longrightarrow> Q r s) \<Longrightarrow> if_returns m Q"
  by (auto simp: if_returns_def split: option.splits)

lemma if_returnsD: "if_returns m Q \<Longrightarrow> m = Some (r, s) \<Longrightarrow> Q r s"
  by (auto simp: if_returns_def)

lemma bind_Some_iff: "Option.bind m f = Some y \<longleftrightarrow> (\<exists>x. m = Some x \<and> f x = Some y)"
  by (cases m) auto

end
