(* ===== verification/Csp_Queue.thy ===== *)
theory Csp_Queue
  imports Csp_Prelude
begin

text \<open>
  The bounded queue of the POSIX port (\<^verbatim>\<open>src/arch/posix/pthread_queue.c\<close> and the wrappers of
  \<^verbatim>\<open>src/arch/posix/csp_queue.c\<close>): a ring buffer under a mutex, with condition variables to wait
  on. The threads that run while a caller waits are an explicit list of wake-ups, each
  with the value \<^verbatim>\<open>pthread_cond_timedwait\<close> returned and the queue as the other threads left it.
  A wait that never ends is \<open>None\<close>. The locale \<open>bounded_fifo\<close> is the contract the other
  components use; it is interpreted on the ring buffer at the end.
\<close>

section \<open>Model\<close>

definition CSP_QUEUE_OK :: int where [simp, csp_defs]: "CSP_QUEUE_OK = 0"
definition CSP_QUEUE_ERROR :: int where [simp, csp_defs]: "CSP_QUEUE_ERROR = -1"
definition PTHREAD_QUEUE_ERROR :: int where [simp, csp_defs]: "PTHREAD_QUEUE_ERROR = CSP_QUEUE_ERROR"
definition PTHREAD_QUEUE_EMPTY :: int where [simp, csp_defs]: "PTHREAD_QUEUE_EMPTY = CSP_QUEUE_ERROR"
definition PTHREAD_QUEUE_FULL :: int where [simp, csp_defs]: "PTHREAD_QUEUE_FULL = CSP_QUEUE_ERROR"
definition PTHREAD_QUEUE_OK :: int where [simp, csp_defs]: "PTHREAD_QUEUE_OK = CSP_QUEUE_OK"

definition CSP_MAX_TIMEOUT :: u32 where [simp, csp_defs]: "CSP_MAX_TIMEOUT = 0xFFFFFFFF"

text \<open>Values of \<^verbatim>\<open><errno.h>\<close> on Linux.\<close>

definition EINTR :: int where [simp, csp_defs]: "EINTR = 4"
definition ETIMEDOUT :: int where [simp, csp_defs]: "ETIMEDOUT = 110"

record timespec =
  tv_sec :: int
  tv_nsec :: int

text \<open>
  \<open>clk\<close> is what \<^verbatim>\<open>clock_gettime\<close> gives: its return value and the time it stored.
  The products are computed in 32 bits, as in the source.
\<close>

definition get_deadline :: "int \<times> timespec \<Rightarrow> u32 \<Rightarrow> int \<times> timespec" where
  "get_deadline clk timeout_ms =
     (let (ret, ts) = clk in
      if ret < 0 then (ret, ts)
      else
        let sec = timeout_ms div 1000;
            nsec = (timeout_ms - 1000 * sec) * 1000000;
            ts1 = ts\<lparr>tv_sec := tv_sec ts + uint sec\<rparr>;
            ts2 = (if tv_nsec ts1 + uint nsec \<ge> 1000000000
                   then ts1\<lparr>tv_sec := tv_sec ts1 + 1\<rparr> else ts1)
        in (ret, ts2\<lparr>tv_nsec := (tv_nsec ts2 + uint nsec) mod 1000000000\<rparr>))"

text \<open>
  A slot of the memory area holds \<open>None\<close> until it is first written: \<^verbatim>\<open>malloc\<close> does not
  initialise it.
\<close>

record 'a pthread_queue_t =
  buffer :: "'a option list"
  qsize :: nat
  items :: nat
  q_in :: nat
  q_out :: nat

text \<open>The three conditions are the success of the two \<^verbatim>\<open>malloc\<close>s and of the initialisation.\<close>

definition pthread_queue_create ::
  "bool \<Rightarrow> bool \<Rightarrow> bool \<Rightarrow> nat \<Rightarrow> 'a pthread_queue_t option" where
  "pthread_queue_create q_ok buffer_ok init_ok len =
     (if q_ok then
        if buffer_ok then
          (let q = \<lparr>buffer = replicate len None, qsize = len, items = 0, q_in = 0, q_out = 0\<rparr>
           in if \<not> init_ok then None else Some q)
        else None
      else None)"

fun wait_slot_available ::
  "int \<Rightarrow> (int \<times> 'a pthread_queue_t) list \<Rightarrow> 'a pthread_queue_t \<Rightarrow>
     (int, 'a pthread_queue_t) outcome" where
  "wait_slot_available errno wakes queue =
     (if items queue = qsize queue then
        (case wakes of
           [] \<Rightarrow> None
         | (ret, queue') # wakes' \<Rightarrow>
             if ret \<noteq> 0 \<and> errno \<noteq> EINTR then Some (PTHREAD_QUEUE_FULL, queue')
             else wait_slot_available errno wakes' queue')
      else Some (PTHREAD_QUEUE_OK, queue))"

declare wait_slot_available.simps [simp del]

definition pthread_queue_enqueue ::
  "int \<times> timespec \<Rightarrow> int \<Rightarrow> (int \<times> 'a pthread_queue_t) list \<Rightarrow>
     'a pthread_queue_t \<Rightarrow> 'a \<Rightarrow> u32 \<Rightarrow> (int, 'a pthread_queue_t) outcome" where
  "pthread_queue_enqueue clk errno wakes queue value timeout =
     (if timeout \<noteq> CSP_MAX_TIMEOUT \<and> fst (get_deadline clk timeout) \<noteq> 0
      then Some (PTHREAD_QUEUE_ERROR, queue)
      else do {
        (ret, queue) \<leftarrow> wait_slot_available errno wakes queue;
        Some (ret,
          if ret = PTHREAD_QUEUE_OK
          then queue\<lparr>buffer := (buffer queue)[q_in queue := Some value],
                     items := items queue + 1,
                     q_in := (q_in queue + 1) mod qsize queue\<rparr>
          else queue)
      })"

fun wait_item_available ::
  "int \<Rightarrow> (int \<times> 'a pthread_queue_t) list \<Rightarrow> 'a pthread_queue_t \<Rightarrow>
     (int, 'a pthread_queue_t) outcome" where
  "wait_item_available errno wakes queue =
     (if items queue = 0 then
        (case wakes of
           [] \<Rightarrow> None
         | (ret, queue') # wakes' \<Rightarrow>
             if ret \<noteq> 0 \<and> errno \<noteq> EINTR then Some (PTHREAD_QUEUE_EMPTY, queue')
             else wait_item_available errno wakes' queue')
      else Some (PTHREAD_QUEUE_OK, queue))"

declare wait_item_available.simps [simp del]

text \<open>The element copied out is the content of the slot; it is \<open>None\<close> on failure.\<close>

definition pthread_queue_dequeue ::
  "int \<times> timespec \<Rightarrow> int \<Rightarrow> (int \<times> 'a pthread_queue_t) list \<Rightarrow>
     'a pthread_queue_t \<Rightarrow> u32 \<Rightarrow> (int \<times> 'a option, 'a pthread_queue_t) outcome" where
  "pthread_queue_dequeue clk errno wakes queue timeout =
     (if timeout \<noteq> CSP_MAX_TIMEOUT \<and> fst (get_deadline clk timeout) \<noteq> 0
      then Some ((PTHREAD_QUEUE_ERROR, None), queue)
      else do {
        (ret, queue) \<leftarrow> wait_item_available errno wakes queue;
        (if ret = PTHREAD_QUEUE_OK
         then Some ((ret, buffer queue ! q_out queue),
                queue\<lparr>items := items queue - 1, q_out := (q_out queue + 1) mod qsize queue\<rparr>)
         else Some ((ret, None), queue))
      })"

definition pthread_queue_items :: "'a pthread_queue_t \<Rightarrow> nat" where
  "pthread_queue_items queue = items queue"

definition pthread_queue_free :: "'a pthread_queue_t \<Rightarrow> nat" where
  "pthread_queue_free queue = qsize queue - items queue"

text \<open>
  The wrappers of \<^verbatim>\<open>csp_queue.c\<close>, for a caller that no other thread disturbs while it waits:
  a bounded wait ends with one time-out, an unbounded one on a queue that stays as it is
  never ends.
\<close>

definition quiet :: "u32 \<Rightarrow> 'a pthread_queue_t \<Rightarrow> (int \<times> 'a pthread_queue_t) list" where
  "quiet timeout queue = (if timeout = CSP_MAX_TIMEOUT then [] else [(ETIMEDOUT, queue)])"

definition csp_queue_create_static :: "nat \<Rightarrow> 'a pthread_queue_t option" where
  "csp_queue_create_static len = pthread_queue_create True True True len"

definition csp_queue_enqueue ::
  "'a pthread_queue_t \<Rightarrow> 'a \<Rightarrow> u32 \<Rightarrow> (int, 'a pthread_queue_t) outcome" where
  "csp_queue_enqueue handle value timeout =
     pthread_queue_enqueue (0, \<lparr>tv_sec = 0, tv_nsec = 0\<rparr>) 0 (quiet timeout handle) handle value timeout"

definition csp_queue_enqueue_isr ::
  "'a pthread_queue_t \<Rightarrow> 'a \<Rightarrow> (int, 'a pthread_queue_t) outcome" where
  "csp_queue_enqueue_isr handle value = csp_queue_enqueue handle value 0"

definition csp_queue_dequeue ::
  "'a pthread_queue_t \<Rightarrow> u32 \<Rightarrow> (int \<times> 'a option, 'a pthread_queue_t) outcome" where
  "csp_queue_dequeue handle timeout =
     pthread_queue_dequeue (0, \<lparr>tv_sec = 0, tv_nsec = 0\<rparr>) 0 (quiet timeout handle) handle timeout"

definition csp_queue_dequeue_isr ::
  "'a pthread_queue_t \<Rightarrow> (int \<times> 'a option, 'a pthread_queue_t) outcome" where
  "csp_queue_dequeue_isr handle = csp_queue_dequeue handle 0"

definition csp_queue_size :: "'a pthread_queue_t \<Rightarrow> nat" where
  "csp_queue_size handle = pthread_queue_items handle"

definition csp_queue_free :: "'a pthread_queue_t \<Rightarrow> nat" where
  "csp_queue_free handle = pthread_queue_free handle"

section \<open>Invariant and abstraction\<close>

definition queue_wf :: "'a pthread_queue_t \<Rightarrow> bool" where
  "queue_wf q \<longleftrightarrow> 0 < qsize q \<and> length (buffer q) = qsize q \<and> items q \<le> qsize q \<and>
     q_out q < qsize q \<and> q_in q = (q_out q + items q) mod qsize q \<and>
     (\<forall>i < items q. buffer q ! ((q_out q + i) mod qsize q) \<noteq> None)"

text \<open>The elements of the queue, oldest first.\<close>

definition queue_list :: "'a pthread_queue_t \<Rightarrow> 'a list" where
  "queue_list q = map (\<lambda>i. the (buffer q ! ((q_out q + i) mod qsize q))) [0..<items q]"

lemma length_queue_list [simp]: "length (queue_list q) = items q"
  by (simp add: queue_list_def)

lemma queue_list_empty_iff: "queue_list q = [] \<longleftrightarrow> items q = 0"
  by (simp add: queue_list_def)

text \<open>The state of the queue after a successful insertion and after a successful extraction.\<close>

definition queue_push :: "'a \<Rightarrow> 'a pthread_queue_t \<Rightarrow> 'a pthread_queue_t" where
  "queue_push v q = q\<lparr>buffer := (buffer q)[q_in q := Some v],
     items := items q + 1, q_in := (q_in q + 1) mod qsize q\<rparr>"

definition queue_pop :: "'a pthread_queue_t \<Rightarrow> 'a pthread_queue_t" where
  "queue_pop q = q\<lparr>items := items q - 1, q_out := (q_out q + 1) mod qsize q\<rparr>"

lemma queue_push_pop_fields [simp]:
  "qsize (queue_push v q) = qsize q" "items (queue_push v q) = items q + 1"
  "qsize (queue_pop q) = qsize q" "items (queue_pop q) = items q - 1"
  by (simp_all add: queue_push_def queue_pop_def)

text \<open>Two different positions of the ring are different slots.\<close>

lemma ring_slot_inj:
  assumes "i < n" "j < n" "(k + i) mod n = (k + j) mod (n::nat)"
  shows "i = j"
  using assms
proof (induction i j rule: linorder_wlog)
  case (le i j)
  then have "n dvd (k + j) - (k + i)" by (metis add_le_cancel_left mod_eq_dvd_iff_nat)
  then have "n dvd j - i" by simp
  with le show ?case by (metis dvd_imp_le le_antisym less_imp_diff_less linorder_not_less zero_less_diff)
next
  case (sym i j)
  then show ?case by simp
qed

lemma queue_push_wf: "queue_wf q \<Longrightarrow> items q < qsize q \<Longrightarrow> queue_wf (queue_push v q)"
  unfolding queue_wf_def queue_push_def
  by (auto simp: mod_simps nth_list_update less_Suc_eq ac_simps)

lemma queue_push_list:
  assumes "queue_wf q" "items q < qsize q"
  shows "queue_list (queue_push v q) = queue_list q @ [v]"
proof -
  have same: "(buffer q)[q_in q := Some v] ! ((q_out q + i) mod qsize q) =
      buffer q ! ((q_out q + i) mod qsize q)" if "i < items q" for i
    using assms that ring_slot_inj [of i "qsize q" "items q" "q_out q"]
    by (auto simp: queue_wf_def nth_list_update)
  have "(buffer q)[q_in q := Some v] ! ((q_out q + items q) mod qsize q) = Some v"
    using assms by (simp add: queue_wf_def)
  then show ?thesis
    using same by (simp add: queue_list_def queue_push_def)
qed

lemma ring_step: "((k + Suc 0) mod n + i) mod n = (k + Suc i) mod (n::nat)"
  by (metis add_Suc_shift mod_add_left_eq add.commute add_Suc plus_1_eq_Suc One_nat_def)

lemma queue_pop_wf:
  assumes "queue_wf q" "0 < items q"
  shows "queue_wf (queue_pop q)"
proof -
  obtain n where "items q = Suc n" using assms(2) by (cases "items q") auto
  then show ?thesis using assms(1)
    by (auto simp: queue_wf_def queue_pop_def ring_step simp del: add_Suc_right)
qed

lemma queue_pop_list:
  assumes "queue_wf q" "0 < items q"
  shows "queue_list q = the (buffer q ! q_out q) # queue_list (queue_pop q)"
proof -
  obtain n where n: "items q = Suc n" using assms(2) by (cases "items q") auto
  have "[0..<Suc n] = 0 # map Suc [0..<n]" by (simp add: upt_conv_Cons map_Suc_upt del: upt_Suc)
  then show ?thesis using assms
    by (simp add: queue_list_def queue_pop_def ring_step n queue_wf_def comp_def
        del: upt_Suc add_Suc_right)
qed

lemma queue_head_Some: "queue_wf q \<Longrightarrow> 0 < items q \<Longrightarrow> buffer q ! q_out q = Some (hd (queue_list q))"
  using queue_pop_list [of q] by (auto simp: queue_wf_def dest!: spec [of _ 0])

section \<open>What the operations do\<close>

lemma get_deadline_ret [simp]: "fst (get_deadline clk t) = fst clk"
  by (auto simp: get_deadline_def Let_def split: prod.splits)

lemma csp_queue_enqueue_room:
  "items q \<noteq> qsize q \<Longrightarrow> csp_queue_enqueue q v t = Some (CSP_QUEUE_OK, queue_push v q)"
  by (simp add: csp_queue_enqueue_def pthread_queue_enqueue_def wait_slot_available.simps queue_push_def)

lemma csp_queue_enqueue_full:
  "items q = qsize q \<Longrightarrow> t \<noteq> CSP_MAX_TIMEOUT \<Longrightarrow>
     csp_queue_enqueue q v t = Some (CSP_QUEUE_ERROR, q)"
  by (simp add: csp_queue_enqueue_def pthread_queue_enqueue_def wait_slot_available.simps quiet_def)

lemma csp_queue_dequeue_item:
  "items q \<noteq> 0 \<Longrightarrow>
     csp_queue_dequeue q t = Some ((CSP_QUEUE_OK, buffer q ! q_out q), queue_pop q)"
  by (simp add: csp_queue_dequeue_def pthread_queue_dequeue_def wait_item_available.simps queue_pop_def)

lemma csp_queue_dequeue_empty:
  "items q = 0 \<Longrightarrow> t \<noteq> CSP_MAX_TIMEOUT \<Longrightarrow>
     csp_queue_dequeue q t = Some ((CSP_QUEUE_ERROR, None), q)"
  by (simp add: csp_queue_dequeue_def pthread_queue_dequeue_def wait_item_available.simps quiet_def)

lemma queue_create_props:
  assumes "csp_queue_create_static n = Some q" "0 < n"
  shows "queue_wf q" "queue_list q = []" "qsize q = n"
  using assms
  by (auto simp: csp_queue_create_static_def pthread_queue_create_def queue_wf_def queue_list_def)

lemma queue_create_Some: "\<exists>q. csp_queue_create_static n = Some q"
  by (simp add: csp_queue_create_static_def pthread_queue_create_def)

text \<open>The queue that is created.\<close>

definition empty_queue :: "nat \<Rightarrow> 'a pthread_queue_t" where
  [csp_defs]: "empty_queue n = \<lparr>buffer = replicate n None, qsize = n, items = 0, q_in = 0, q_out = 0\<rparr>"

lemma csp_queue_create_static_eq: "csp_queue_create_static n = Some (empty_queue n)"
  by (simp add: csp_queue_create_static_def pthread_queue_create_def empty_queue_def)

lemma empty_queue_props [simp]:
  "queue_list (empty_queue n) = []" "qsize (empty_queue n) = n" "items (empty_queue n) = 0"
  "0 < n \<Longrightarrow> queue_wf (empty_queue n)"
  by (simp_all add: empty_queue_def queue_list_def queue_wf_def)

section \<open>The contract of a bounded queue\<close>

text \<open>
  The operations a client calls with a bounded time-out, the list of elements they act on
  and the capacity. \<open>enq\<close> and \<open>deq\<close> give the C result together with the new queue.
\<close>

locale bounded_fifo =
  fixes enq :: "'q \<Rightarrow> 'a \<Rightarrow> u32 \<Rightarrow> (int, 'q) outcome"
    and deq :: "'q \<Rightarrow> u32 \<Rightarrow> (int \<times> 'a option, 'q) outcome"
    and elems :: "'q \<Rightarrow> 'a list"
    and cap :: "'q \<Rightarrow> nat"
    and inv :: "'q \<Rightarrow> bool"
  assumes enq_room: "inv q \<Longrightarrow> length (elems q) < cap q \<Longrightarrow> t \<noteq> CSP_MAX_TIMEOUT \<Longrightarrow>
      \<exists>q'. enq q v t = Some (CSP_QUEUE_OK, q') \<and> inv q' \<and> cap q' = cap q \<and> elems q' = elems q @ [v]"
    and enq_full: "inv q \<Longrightarrow> length (elems q) = cap q \<Longrightarrow> t \<noteq> CSP_MAX_TIMEOUT \<Longrightarrow>
      enq q v t = Some (CSP_QUEUE_ERROR, q)"
    and deq_item: "inv q \<Longrightarrow> elems q = x # xs \<Longrightarrow>
      \<exists>q'. deq q t = Some ((CSP_QUEUE_OK, Some x), q') \<and> inv q' \<and> cap q' = cap q \<and> elems q' = xs"
    and deq_empty: "inv q \<Longrightarrow> elems q = [] \<Longrightarrow> t \<noteq> CSP_MAX_TIMEOUT \<Longrightarrow>
      deq q t = Some ((CSP_QUEUE_ERROR, None), q)"
    and elems_cap: "inv q \<Longrightarrow> length (elems q) \<le> cap q"
begin

text \<open>Insert a list of elements, in order, and stop at the first refusal.\<close>

primrec enq_all :: "'q \<Rightarrow> 'a list \<Rightarrow> u32 \<Rightarrow> (int, 'q) outcome" where
  "enq_all q [] t = Some (CSP_QUEUE_OK, q)"
| "enq_all q (v # vs) t = do {
     (r, q') \<leftarrow> enq q v t;
     (if r = CSP_QUEUE_OK then enq_all q' vs t else Some (r, q'))
   }"

text \<open>Take \<open>n\<close> elements, in order.\<close>

primrec deq_all :: "'q \<Rightarrow> nat \<Rightarrow> u32 \<Rightarrow> ('a option list, 'q) outcome" where
  "deq_all q 0 t = Some ([], q)"
| "deq_all q (Suc n) t = do {
     ((r, x), q') \<leftarrow> deq q t;
     (xs, q'') \<leftarrow> deq_all q' n t;
     Some (x # xs, q'')
   }"

lemma enq_all_elems:
  "inv q \<Longrightarrow> length (elems q) + length vs \<le> cap q \<Longrightarrow> t \<noteq> CSP_MAX_TIMEOUT \<Longrightarrow>
     \<exists>q'. enq_all q vs t = Some (CSP_QUEUE_OK, q') \<and> inv q' \<and> cap q' = cap q \<and>
       elems q' = elems q @ vs"
proof (induction vs arbitrary: q)
  case Nil
  then show ?case by simp
next
  case (Cons v vs)
  then obtain q1 where q1: "enq q v t = Some (CSP_QUEUE_OK, q1)" "inv q1" "cap q1 = cap q"
      "elems q1 = elems q @ [v]"
    using enq_room [of q t v] by auto
  with Cons.IH [of q1] Cons.prems show ?case by auto
qed

lemma deq_all_elems:
  "inv q \<Longrightarrow> elems q = xs @ ys \<Longrightarrow>
     \<exists>q'. deq_all q (length xs) t = Some (map Some xs, q') \<and> inv q' \<and> cap q' = cap q \<and> elems q' = ys"
proof (induction xs arbitrary: q)
  case Nil
  then show ?case by simp
next
  case (Cons x xs)
  then obtain q1 where "deq q t = Some ((CSP_QUEUE_OK, Some x), q1)" "inv q1" "cap q1 = cap q"
      "elems q1 = xs @ ys"
    using deq_item [of q x "xs @ ys" t] by auto
  with Cons.IH [of q1] show ?case by auto
qed

text \<open>What goes in comes out in the same order.\<close>

lemma fifo_order:
  assumes "inv q" "elems q = []" "length vs \<le> cap q" "t \<noteq> CSP_MAX_TIMEOUT"
  shows "\<exists>q1 q2. enq_all q vs t = Some (CSP_QUEUE_OK, q1) \<and>
    deq_all q1 (length vs) t' = Some (map Some vs, q2) \<and> elems q2 = []"
proof -
  from enq_all_elems [of q vs t] assms obtain q1 where
    "enq_all q vs t = Some (CSP_QUEUE_OK, q1)" "inv q1" "elems q1 = vs" by auto
  with deq_all_elems [of q1 vs "[]" t'] show ?thesis by auto
qed

end

interpretation pq: bounded_fifo csp_queue_enqueue csp_queue_dequeue queue_list qsize queue_wf
proof (unfold_locales, goal_cases)
  case (1 q t v)
  then show ?case by (simp add: csp_queue_enqueue_room queue_push_wf queue_push_list)
next
  case (2 q t v)
  then show ?case by (simp add: csp_queue_enqueue_full)
next
  case (3 q x xs t)
  then have n: "0 < items q" by (metis length_queue_list length_greater_0_conv list.distinct(1))
  have "queue_list (queue_pop q) = xs" using queue_pop_list [OF 3(1) n] 3(2) by simp
  moreover have "buffer q ! q_out q = Some x" using queue_head_Some [OF 3(1) n] 3(2) by simp
  ultimately show ?case using queue_pop_wf [OF 3(1) n] n by (simp add: csp_queue_dequeue_item)
next
  case (4 q t)
  then show ?case by (simp add: csp_queue_dequeue_empty queue_list_empty_iff)
next
  case (5 q)
  then show ?case by (simp add: queue_wf_def)
qed

section \<open>Properties\<close>

lemma wait_slot_available_wf:
  assumes "wait_slot_available errno wakes q = Some (r, q')" "queue_wf q"
    "\<forall>w \<in> set wakes. queue_wf (snd w)"
  shows "queue_wf q' \<and> (r = PTHREAD_QUEUE_OK \<longrightarrow> items q' < qsize q') \<and>
    (r = PTHREAD_QUEUE_OK \<or> r = PTHREAD_QUEUE_FULL) \<and> (q' = q \<or> q' \<in> snd ` set wakes)"
  using assms
proof (induction wakes arbitrary: q)
  case Nil
  then show ?case by (auto simp: wait_slot_available.simps [of _ "[]"] queue_wf_def split: if_splits)
next
  case (Cons w ws)
  then show ?case
    by (cases w) (fastforce simp: wait_slot_available.simps [of _ "_ # _"] queue_wf_def split: if_splits)
qed

lemma wait_item_available_wf:
  assumes "wait_item_available errno wakes q = Some (r, q')" "queue_wf q"
    "\<forall>w \<in> set wakes. queue_wf (snd w)"
  shows "queue_wf q' \<and> (r = PTHREAD_QUEUE_OK \<longrightarrow> 0 < items q') \<and>
    (r = PTHREAD_QUEUE_OK \<or> r = PTHREAD_QUEUE_EMPTY) \<and> (q' = q \<or> q' \<in> snd ` set wakes)"
  using assms
proof (induction wakes arbitrary: q)
  case Nil
  then show ?case by (auto simp: wait_item_available.simps [of _ "[]"] queue_wf_def split: if_splits)
next
  case (Cons w ws)
  then show ?case
    by (cases w) (fastforce simp: wait_item_available.simps [of _ "_ # _"] queue_wf_def split: if_splits)
qed

text \<open>C11: The queue operations with a bounded time-out refine the bounded first-in first-out list: an
  insertion appends to the list or, when the queue is at its capacity, reports an error and
  changes nothing; an extraction gives the oldest element or reports an error on the
  empty queue; the ring-buffer invariant is kept.\<close>

theorem csp_queue_refines_list:
  assumes "queue_wf q" "t \<noteq> CSP_MAX_TIMEOUT"
  shows "(\<exists>q'. csp_queue_enqueue q v t =
      Some (if length (queue_list q) < qsize q then CSP_QUEUE_OK else CSP_QUEUE_ERROR, q') \<and>
      queue_wf q' \<and> qsize q' = qsize q \<and>
      queue_list q' = (if length (queue_list q) < qsize q then queue_list q @ [v] else queue_list q)) \<and>
    (\<exists>q'. csp_queue_dequeue q t =
      Some (case queue_list q of [] \<Rightarrow> (CSP_QUEUE_ERROR, None) | x # _ \<Rightarrow> (CSP_QUEUE_OK, Some x), q') \<and>
      queue_wf q' \<and> qsize q' = qsize q \<and> queue_list q' = tl (queue_list q))"
proof
  show "\<exists>q'. csp_queue_enqueue q v t =
      Some (if length (queue_list q) < qsize q then CSP_QUEUE_OK else CSP_QUEUE_ERROR, q') \<and>
      queue_wf q' \<and> qsize q' = qsize q \<and>
      queue_list q' = (if length (queue_list q) < qsize q then queue_list q @ [v] else queue_list q)"
    using assms pq.enq_room [of q t v] pq.enq_full [of q t v] pq.elems_cap [of q] by fastforce
  show "\<exists>q'. csp_queue_dequeue q t =
      Some (case queue_list q of [] \<Rightarrow> (CSP_QUEUE_ERROR, None) | x # _ \<Rightarrow> (CSP_QUEUE_OK, Some x), q') \<and>
      queue_wf q' \<and> qsize q' = qsize q \<and> queue_list q' = tl (queue_list q)"
    using assms pq.deq_item [of q _ _ t] pq.deq_empty [of q t]
    by (cases "queue_list q") fastforce+
qed

theorem csp_queue_refines_list_witness:
  "\<exists>q'. csp_queue_enqueue \<lparr>buffer = [Some 7, None], qsize = 2, items = 1, q_in = 1, q_out = 0\<rparr> (8::nat) 0
     = Some (CSP_QUEUE_OK, q') \<and> queue_list q' = [7, 8]"
proof -
  let ?q = "\<lparr>buffer = [Some 7, None], qsize = 2, items = 1, q_in = 1, q_out = 0\<rparr> :: nat pthread_queue_t"
  have "queue_wf ?q" "queue_list ?q = [7]" by (simp_all add: queue_wf_def queue_list_def)
  with csp_queue_refines_list [of ?q 0 8] show ?thesis by auto
qed

text \<open>With other threads running while it waits, a reader of a queue that gets an element gets the
  oldest element of the queue as it is at its last wake-up, and leaves the rest in order.\<close>

theorem pthread_queue_dequeue_concurrent:
  assumes "pthread_queue_dequeue clk errno wakes q t = Some ((r, x), q')" "queue_wf q"
    "\<forall>w \<in> set wakes. queue_wf (snd w)"
  shows "queue_wf q' \<and> (if r = PTHREAD_QUEUE_OK
     then \<exists>q0. (q0 = q \<or> q0 \<in> snd ` set wakes) \<and> queue_list q0 = the x # queue_list q' \<and> x \<noteq> None
     else r = PTHREAD_QUEUE_ERROR \<and> x = None)"
proof (cases "t \<noteq> CSP_MAX_TIMEOUT \<and> fst (get_deadline clk t) \<noteq> 0")
  case True
  with assms show ?thesis by (auto simp: pthread_queue_dequeue_def)
next
  case False
  with assms(1) obtain r0 q0 where w: "wait_item_available errno wakes q = Some (r0, q0)"
    and q': "(if r0 = PTHREAD_QUEUE_OK then ((r0, buffer q0 ! q_out q0), queue_pop q0)
             else ((r0, None), q0)) = ((r, x), q')"
    by (auto simp: pthread_queue_dequeue_def bind_Some_iff queue_pop_def split: if_splits)
  note wf = wait_item_available_wf [OF w assms(2,3)]
  show ?thesis
  proof (cases "r0 = PTHREAD_QUEUE_OK")
    case True
    with q' wf have "r = PTHREAD_QUEUE_OK" "x = buffer q0 ! q_out q0" "q' = queue_pop q0" "0 < items q0"
      by auto
    with wf queue_pop_wf [of q0] queue_pop_list [of q0] queue_head_Some [of q0] show ?thesis
      by (auto intro!: exI [of _ q0])
  next
    case False
    with q' wf show ?thesis by auto
  qed
qed

theorem pthread_queue_dequeue_concurrent_witness:
  "let q = \<lparr>buffer = [None], qsize = 1, items = 0, q_in = 0, q_out = 0\<rparr>;
       q1 = \<lparr>buffer = [Some (5::nat)], qsize = 1, items = 1, q_in = 0, q_out = 0\<rparr>;
       q2 = \<lparr>buffer = [Some 5], qsize = 1, items = 0, q_in = 0, q_out = 0\<rparr>
   in pthread_queue_dequeue (0, \<lparr>tv_sec = 0, tv_nsec = 0\<rparr>) 0 [(0, q), (0, q1)] q 10
        = Some ((PTHREAD_QUEUE_OK, Some 5), q2) \<and> queue_wf q2"
proof -
  let ?q = "\<lparr>buffer = [None], qsize = 1, items = 0, q_in = 0, q_out = 0\<rparr> :: nat pthread_queue_t"
  let ?q1 = "\<lparr>buffer = [Some 5], qsize = 1, items = 1, q_in = 0, q_out = 0\<rparr> :: nat pthread_queue_t"
  let ?q2 = "\<lparr>buffer = [Some 5], qsize = 1, items = 0, q_in = 0, q_out = 0\<rparr> :: nat pthread_queue_t"
  have e: "pthread_queue_dequeue (0, \<lparr>tv_sec = 0, tv_nsec = 0\<rparr>) 0 [(0, ?q), (0, ?q1)] ?q 10
      = Some ((PTHREAD_QUEUE_OK, Some 5), ?q2)"
    by (simp add: pthread_queue_dequeue_def wait_item_available.simps get_deadline_def)
  have "queue_wf ?q" "queue_wf ?q1" by (simp_all add: queue_wf_def)
  with pthread_queue_dequeue_concurrent [OF e] e show ?thesis by simp
qed

text \<open>The wait loops test the variable \<open>errno\<close>, which \<^verbatim>\<open>pthread_cond_timedwait\<close> does not set. If
  an earlier call left \<^verbatim>\<open>EINTR\<close> there, no time-out ends the wait on a queue that stays empty:
  however many wake-ups with \<^verbatim>\<open>ETIMEDOUT\<close> come, the reader is still waiting.\<close>

theorem wait_item_available_stale_errno:
  "items q = 0 \<Longrightarrow> pthread_queue_dequeue (0, ts) EINTR (replicate n (ETIMEDOUT, q)) q t = None"
proof -
  assume "items q = 0"
  then have "wait_item_available EINTR (replicate n (ETIMEDOUT, q)) q = None"
    by (induction n) (simp_all add: wait_item_available.simps)
  then show ?thesis by (simp add: pthread_queue_dequeue_def)
qed

theorem wait_item_available_stale_errno_witness:
  "pthread_queue_dequeue (0, \<lparr>tv_sec = 0, tv_nsec = 0\<rparr>) EINTR
     (replicate 3 (ETIMEDOUT, \<lparr>buffer = [None :: nat option], qsize = 1, items = 0, q_in = 0, q_out = 0\<rparr>))
     \<lparr>buffer = [None], qsize = 1, items = 0, q_in = 0, q_out = 0\<rparr> 10 = None"
  by (rule wait_item_available_stale_errno) simp

end
