(* ===== verification/Csp_Types.thy ===== *)
theory Csp_Types
  imports Csp_Queue
begin

text \<open>
  The data of the stack: the constants of \<^verbatim>\<open>include/csp/\<close> and of the build configuration
  (the defaults of \<^verbatim>\<open>wscript\<close>, with RDP, HMAC, promiscuous mode and deduplication enabled, as
  the repository's README builds the library), the structures of \<^verbatim>\<open>csp_types.h\<close>,
  \<^verbatim>\<open>csp_interface.h\<close> and \<^verbatim>\<open>csp_conn.h\<close>, and the record \<open>node\<close> of all the library's
  static variables. A pointer is the index of the object in the array that holds it:
  packets in the buffer pool, interfaces, connections and sockets in their arrays.
\<close>

section \<open>Configuration and constants\<close>

definition CSP_QFIFO_LEN :: nat where [simp, csp_defs]: "CSP_QFIFO_LEN = 15"
definition CSP_PORT_MAX_BIND :: nat where [simp, csp_defs]: "CSP_PORT_MAX_BIND = 16"
definition CSP_CONN_RXQUEUE_LEN :: nat where [simp, csp_defs]: "CSP_CONN_RXQUEUE_LEN = 15"
definition CSP_CONN_MAX :: nat where [simp, csp_defs]: "CSP_CONN_MAX = 8"
definition CSP_BUFFER_SIZE :: nat where [simp, csp_defs]: "CSP_BUFFER_SIZE = 256"
definition CSP_BUFFER_COUNT :: nat where [simp, csp_defs]: "CSP_BUFFER_COUNT = 15"
definition CSP_RDP_MAX_WINDOW :: nat where [simp, csp_defs]: "CSP_RDP_MAX_WINDOW = 5"
definition CSP_RTABLE_SIZE :: nat where [simp, csp_defs]: "CSP_RTABLE_SIZE = 10"
definition CSP_PACKET_PADDING_BYTES :: nat where [simp, csp_defs]: "CSP_PACKET_PADDING_BYTES = 8"
definition CSP_IFLIST_NAME_MAX :: nat where [simp, csp_defs]: "CSP_IFLIST_NAME_MAX = 10"
definition CSP_NO_VIA_ADDRESS :: u16 where [simp, csp_defs]: "CSP_NO_VIA_ADDRESS = 0xFFFF"
definition CSP_ANY :: u8 where [simp, csp_defs]: "CSP_ANY = 255"
definition FIFO_TIMEOUT :: u32 where [simp, csp_defs]: "FIFO_TIMEOUT = 100"

definition CSP_ERR_NONE :: int where [simp, csp_defs]: "CSP_ERR_NONE = 0"
definition CSP_ERR_NOMEM :: int where [simp, csp_defs]: "CSP_ERR_NOMEM = -1"
definition CSP_ERR_INVAL :: int where [simp, csp_defs]: "CSP_ERR_INVAL = -2"
definition CSP_ERR_TIMEDOUT :: int where [simp, csp_defs]: "CSP_ERR_TIMEDOUT = -3"
definition CSP_ERR_USED :: int where [simp, csp_defs]: "CSP_ERR_USED = -4"
definition CSP_ERR_NOTSUP :: int where [simp, csp_defs]: "CSP_ERR_NOTSUP = -5"
definition CSP_ERR_ALREADY :: int where [simp, csp_defs]: "CSP_ERR_ALREADY = -7"
definition CSP_ERR_RESET :: int where [simp, csp_defs]: "CSP_ERR_RESET = -8"
definition CSP_ERR_NOBUFS :: int where [simp, csp_defs]: "CSP_ERR_NOBUFS = -9"
definition CSP_ERR_DRIVER :: int where [simp, csp_defs]: "CSP_ERR_DRIVER = -11"
definition CSP_ERR_AGAIN :: int where [simp, csp_defs]: "CSP_ERR_AGAIN = -12"
definition CSP_ERR_HMAC :: int where [simp, csp_defs]: "CSP_ERR_HMAC = -100"
definition CSP_ERR_CRC32 :: int where [simp, csp_defs]: "CSP_ERR_CRC32 = -102"
definition CSP_ERR_SFP :: int where [simp, csp_defs]: "CSP_ERR_SFP = -103"

definition CSP_DBG_ERR_CORRUPT_BUFFER :: u8 where [simp, csp_defs]: "CSP_DBG_ERR_CORRUPT_BUFFER = 1"
definition CSP_DBG_ERR_MTU_EXCEEDED :: u8 where [simp, csp_defs]: "CSP_DBG_ERR_MTU_EXCEEDED = 2"
definition CSP_DBG_ERR_ALREADY_FREE :: u8 where [simp, csp_defs]: "CSP_DBG_ERR_ALREADY_FREE = 3"
definition CSP_DBG_ERR_REFCOUNT :: u8 where [simp, csp_defs]: "CSP_DBG_ERR_REFCOUNT = 4"
definition CSP_DBG_ERR_INVALID_RTABLE_ENTRY :: u8 where
  [simp, csp_defs]: "CSP_DBG_ERR_INVALID_RTABLE_ENTRY = 6"
definition CSP_DBG_ERR_UNSUPPORTED :: u8 where [simp, csp_defs]: "CSP_DBG_ERR_UNSUPPORTED = 7"
definition CSP_DBG_ERR_INVALID_BIND_PORT :: u8 where
  [simp, csp_defs]: "CSP_DBG_ERR_INVALID_BIND_PORT = 8"
definition CSP_DBG_ERR_PORT_ALREADY_IN_USE :: u8 where
  [simp, csp_defs]: "CSP_DBG_ERR_PORT_ALREADY_IN_USE = 9"
definition CSP_DBG_ERR_ALREADY_CLOSED :: u8 where [simp, csp_defs]: "CSP_DBG_ERR_ALREADY_CLOSED = 10"
definition CSP_DBG_ERR_INVALID_POINTER :: u8 where [simp, csp_defs]: "CSP_DBG_ERR_INVALID_POINTER = 11"
definition CSP_DBG_CAN_ERR_FRAME_LOST :: u8 where [simp, csp_defs]: "CSP_DBG_CAN_ERR_FRAME_LOST = 1"
definition CSP_DBG_CAN_ERR_RX_OVF :: u8 where [simp, csp_defs]: "CSP_DBG_CAN_ERR_RX_OVF = 2"
definition CSP_DBG_CAN_ERR_SHORT_BEGIN :: u8 where [simp, csp_defs]: "CSP_DBG_CAN_ERR_SHORT_BEGIN = 4"
definition CSP_DBG_CAN_ERR_UNKNOWN :: u8 where [simp, csp_defs]: "CSP_DBG_CAN_ERR_UNKNOWN = 6"

definition CSP_FFRAG :: u8 where [simp, csp_defs]: "CSP_FFRAG = 0x10"
definition CSP_FHMAC :: u8 where [simp, csp_defs]: "CSP_FHMAC = 0x08"
definition CSP_FRDP :: u8 where [simp, csp_defs]: "CSP_FRDP = 0x02"
definition CSP_FCRC32 :: u8 where [simp, csp_defs]: "CSP_FCRC32 = 0x01"

definition CSP_SO_NONE :: u32 where [simp, csp_defs]: "CSP_SO_NONE = 0x0000"
definition CSP_SO_RDPREQ :: u32 where [simp, csp_defs]: "CSP_SO_RDPREQ = 0x0001"
definition CSP_SO_HMACREQ :: u32 where [simp, csp_defs]: "CSP_SO_HMACREQ = 0x0004"
definition CSP_SO_CRC32REQ :: u32 where [simp, csp_defs]: "CSP_SO_CRC32REQ = 0x0040"
definition CSP_SO_CRC32PROHIB :: u32 where [simp, csp_defs]: "CSP_SO_CRC32PROHIB = 0x0080"
definition CSP_SO_CONN_LESS :: u32 where [simp, csp_defs]: "CSP_SO_CONN_LESS = 0x0100"
definition CSP_SO_SAME :: u32 where [simp, csp_defs]: "CSP_SO_SAME = 0x8000"
definition CSP_O_RDP :: u32 where [simp, csp_defs]: "CSP_O_RDP = CSP_SO_RDPREQ"
definition CSP_O_HMAC :: u32 where [simp, csp_defs]: "CSP_O_HMAC = CSP_SO_HMACREQ"
definition CSP_O_CRC32 :: u32 where [simp, csp_defs]: "CSP_O_CRC32 = CSP_SO_CRC32REQ"
definition CSP_O_NOCRC32 :: u32 where [simp, csp_defs]: "CSP_O_NOCRC32 = CSP_SO_CRC32PROHIB"
definition CSP_O_SAME :: u32 where [simp, csp_defs]: "CSP_O_SAME = CSP_SO_SAME"
definition CSP_PRIO_HIGH :: u8 where [simp, csp_defs]: "CSP_PRIO_HIGH = 1"
definition CSP_PRIO_NORM :: u8 where [simp, csp_defs]: "CSP_PRIO_NORM = 2"

text \<open>The test \<^verbatim>\<open>flags & mask\<close> as a condition.\<close>

definition has_flag :: "'a::len word \<Rightarrow> 'a word \<Rightarrow> bool" where
  [csp_defs]: "has_flag fl m \<longleftrightarrow> fl AND m \<noteq> 0"

section \<open>Packets\<close>

record csp_id_t =
  pri :: u8
  flags :: u8
  src :: u16
  dst :: u16
  dport :: u8
  sport :: u8

text \<open>
  The members of the two structs of the packet's union are separate fields: the first is used
  only while a packet is with RDP, the second only while it is with an interface, and
  each of them writes its members before it reads them.
  \<open>bytes\<close> is the padding \<^verbatim>\<open>header\<close> followed by \<^verbatim>\<open>data\<close>, which are adjacent in the
  structure; \<open>frame_begin\<close> is an offset in it. \<open>plen\<close> is the member \<^verbatim>\<open>length\<close>,
  \<open>pid\<close> the member \<^verbatim>\<open>id\<close>, \<open>pnext\<close> the member \<^verbatim>\<open>next\<close> and \<open>pconn\<close> the member \<^verbatim>\<open>conn\<close>.
\<close>

record csp_packet_t =
  rdp_quarantine :: u32
  timestamp_tx :: u32
  timestamp_rx :: u32
  pconn :: "nat option"
  rx_count :: u16
  remain :: u16
  cfpid :: u32
  last_used :: u32
  frame_begin :: nat
  frame_length :: u16
  plen :: u16
  pid :: csp_id_t
  pnext :: "nat option"
  bytes :: "u8 list"

definition DATA_OFFSET :: nat where [simp, csp_defs]: "DATA_OFFSET = CSP_PACKET_PADDING_BYTES"
definition PACKET_BYTES :: nat where
  [simp, csp_defs]: "PACKET_BYTES = CSP_PACKET_PADDING_BYTES + CSP_BUFFER_SIZE"

text \<open>A packet of the pool has all its bytes, and its data fits the buffer.\<close>

definition packet_wf :: "csp_packet_t \<Rightarrow> bool" where
  "packet_wf p \<longleftrightarrow> length (bytes p) = PACKET_BYTES \<and> unat (plen p) \<le> CSP_BUFFER_SIZE"

text \<open>A packet of all zeros.\<close>

definition zero_id :: csp_id_t where
  [csp_defs]: "zero_id = \<lparr>pri = 0, flags = 0, src = 0, dst = 0, dport = 0, sport = 0\<rparr>"

definition zero_packet :: csp_packet_t where
  [csp_defs]: "zero_packet = \<lparr>rdp_quarantine = 0, timestamp_tx = 0, timestamp_rx = 0, pconn = None, rx_count = 0,
     remain = 0, cfpid = 0, last_used = 0, frame_begin = 0, frame_length = 0, plen = 0,
     pid = zero_id, pnext = None, bytes = replicate PACKET_BYTES 0\<rparr>"

text \<open>The data of a packet, and the frame of a packet an interface transmits.\<close>

definition pdata :: "csp_packet_t \<Rightarrow> u8 list" where
  "pdata p = take (unat (plen p)) (List.drop DATA_OFFSET (bytes p))"

definition pframe :: "csp_packet_t \<Rightarrow> u8 list" where
  "pframe p = take (unat (frame_length p)) (List.drop (frame_begin p) (bytes p))"

text \<open>\<open>n\<close> bytes of \<^verbatim>\<open>data\<close> from \<open>off\<close>, and a copy into \<^verbatim>\<open>data\<close>.\<close>

definition data_read :: "nat \<Rightarrow> nat \<Rightarrow> csp_packet_t \<Rightarrow> u8 list option" where
  "data_read off n p = mem_read (DATA_OFFSET + off) n (bytes p)"

definition data_write :: "nat \<Rightarrow> u8 list \<Rightarrow> csp_packet_t \<Rightarrow> csp_packet_t option" where
  "data_write off bs p =
     map_option (\<lambda>m. p\<lparr>bytes := m\<rparr>) (mem_write (DATA_OFFSET + off) bs (bytes p))"

record csp_skbf_t =
  refcount :: u32
  skbf_addr :: nat
  skbf_data :: csp_packet_t

section \<open>Interfaces, routes, ports and sockets\<close>

datatype csp_kiss_mode_t =
    KISS_MODE_NOT_STARTED | KISS_MODE_STARTED | KISS_MODE_ESCAPED | KISS_MODE_SKIP_FRAME

record csp_kiss_interface_data_t =
  max_rx_length :: nat
  rx_mode :: csp_kiss_mode_t
  rx_length :: nat
  rx_first :: bool
  rx_packet :: "nat option"

record csp_can_interface_data_t =
  cfp_packet_counter :: u32
  pbufs :: "nat option"

datatype if_data_t =
    No_Data | Kiss_Data csp_kiss_interface_data_t | Can_Data csp_can_interface_data_t

record csp_iface_t =
  if_addr :: u16
  if_netmask :: u16
  if_name :: string
  if_data :: if_data_t
  if_mtu :: u16
  if_tx :: u32
  if_rx :: u32
  if_tx_error :: u32
  if_rx_error :: u32
  if_drop :: u32
  if_autherr :: u32
  if_frame :: u32
  if_txbytes :: u32
  if_rxbytes :: u32
  if_irq :: u32
  if_next :: "nat option"

record csp_route_t =
  r_address :: u16
  r_netmask :: u16
  r_via :: u16
  r_iface :: "nat option"

datatype csp_port_state_t = PORT_CLOSED | PORT_OPEN | PORT_OPEN_CB

text \<open>\<open>p_ptr\<close> is the union of the socket and the callback.\<close>

record csp_port_t =
  p_state :: csp_port_state_t
  p_ptr :: nat

text \<open>A socket's queue holds packets (connection-less mode) or new connections.\<close>

datatype sock_item = Sock_Packet nat | Sock_Conn nat

record csp_socket_t =
  s_rx_queue :: "sock_item pthread_queue_t option"
  s_opts :: u32

section \<open>Connections\<close>

datatype csp_conn_state_t = CONN_CLOSED | CONN_OPEN
datatype csp_conn_type_t = CONN_CLIENT | CONN_SERVER
datatype csp_rdp_state_t = RDP_CLOSED | RDP_SYN_SENT | RDP_SYN_RCVD | RDP_OPEN | RDP_CLOSE_WAIT

definition CSP_RDP_CLOSED_BY_USERSPACE :: u8 where
  [simp, csp_defs]: "CSP_RDP_CLOSED_BY_USERSPACE = 0x01"
definition CSP_RDP_CLOSED_BY_PROTOCOL :: u8 where
  [simp, csp_defs]: "CSP_RDP_CLOSED_BY_PROTOCOL = 0x02"
definition CSP_RDP_CLOSED_BY_TIMEOUT :: u8 where
  [simp, csp_defs]: "CSP_RDP_CLOSED_BY_TIMEOUT = 0x04"
definition CSP_RDP_CLOSED_BY_ALL :: u8 where
  [simp, csp_defs]: "CSP_RDP_CLOSED_BY_ALL =
     (CSP_RDP_CLOSED_BY_USERSPACE OR CSP_RDP_CLOSED_BY_PROTOCOL OR CSP_RDP_CLOSED_BY_TIMEOUT)"

text \<open>\<open>tx_wait\<close> is the value of the binary semaphore.\<close>

record csp_rdp_t =
  rdp_state :: csp_rdp_state_t
  closed_by :: u8
  snd_nxt :: u16
  snd_una :: u16
  snd_iss :: u16
  rcv_cur :: u16
  rcv_irs :: u16
  rcv_lsa :: u16
  window_size :: u32
  conn_timeout :: u32
  packet_timeout :: u32
  delayed_acks :: u32
  ack_timeout :: u32
  ack_delay_count :: u32
  ack_timestamp :: u32
  tx_wait :: nat

text \<open>The receive queue holds packets; a null packet wakes a reader of a closed connection.\<close>

record csp_conn_t =
  c_type :: csp_conn_type_t
  c_state :: csp_conn_state_t
  idin :: csp_id_t
  idout :: csp_id_t
  sport_outgoing :: u8
  rx_queue :: "nat option pthread_queue_t"
  dest_socket :: "nat option"
  timestamp :: u32
  c_opts :: u32
  rdp :: csp_rdp_t

section \<open>The state of a node\<close>

definition CSP_DEDUP_OFF :: u8 where [simp, csp_defs]: "CSP_DEDUP_OFF = 0"
definition CSP_DEDUP_FWD :: u8 where [simp, csp_defs]: "CSP_DEDUP_FWD = 1"
definition CSP_DEDUP_INCOMING :: u8 where [simp, csp_defs]: "CSP_DEDUP_INCOMING = 2"
definition CSP_DEDUP_ALL :: u8 where [simp, csp_defs]: "CSP_DEDUP_ALL = 3"

record csp_conf_t =
  version :: u8
  address :: u16
  hostname :: string
  model :: string
  revision :: string
  conn_dfl_so :: u32
  dedup :: u8

record csp_qfifo_t =
  q_iface :: "nat option"
  q_packet :: "nat option"

text \<open>
  The static variables of the library. \<open>now\<close> is the value of \<^verbatim>\<open>csp_get_ms()\<close>, which does
  not change while one operation runs; \<open>rand_r\<close> is the C library's generator, as a
  function of its seed.
\<close>

record node =
  csp_conf :: csp_conf_t
  csp_dbg_buffer_out :: u8
  csp_dbg_errno :: u8
  csp_dbg_conn_out :: u8
  csp_dbg_conn_ovf :: u8
  csp_dbg_can_errno :: u8
  csp_dbg_inval_reply :: u8
  csp_buffer_pool :: "csp_skbf_t list"
  csp_buffers :: "nat pthread_queue_t"
  ifaces :: "csp_iface_t list"
  interfaces :: "nat option"
  rtable :: "csp_route_t list"
  rtable_inptr :: nat
  ports :: "csp_port_t list"
  sockets :: "csp_socket_t list"
  arr_conn :: "csp_conn_t list"
  csp_conn_last_given :: u8
  qfifo_queue :: "csp_qfifo_t pthread_queue_t"
  csp_promisc_queue :: "nat pthread_queue_t option"
  csp_promisc_enabled :: bool
  csp_dedup_array :: "u32 list"
  csp_dedup_timestamp :: "u32 list"
  csp_dedup_in :: nat
  csp_hmac_key :: "u8 list"
  csp_rdp_window_size :: u32
  csp_rdp_conn_timeout :: u32
  csp_rdp_packet_timeout :: u32
  csp_rdp_delayed_acks :: u32
  csp_rdp_ack_timeout :: u32
  csp_rdp_ack_delay_count :: u32
  csp_rdp_incr :: u8
  rdp_tx_queue :: "nat pthread_queue_t"
  rdp_rx_queue :: "nat pthread_queue_t"
  bif_a :: "nat option"
  bif_b :: "nat option"
  now :: u32
  rand_r :: "u32 \<Rightarrow> u32"

definition zero_conf :: csp_conf_t where
  [csp_defs]: "zero_conf = \<lparr>version = 0, address = 0, hostname = [], model = [], revision = [],
     conn_dfl_so = 0, dedup = 0\<rparr>"

text \<open>A node before initialisation, with the initial values of the variables that have one.\<close>

definition zero_node :: node where
  [csp_defs]: "zero_node = \<lparr>csp_conf = zero_conf, csp_dbg_buffer_out = 0, csp_dbg_errno = 0,
     csp_dbg_conn_out = 0, csp_dbg_conn_ovf = 0, csp_dbg_can_errno = 0, csp_dbg_inval_reply = 0,
     csp_buffer_pool = replicate CSP_BUFFER_COUNT \<lparr>refcount = 0, skbf_addr = 0, skbf_data = zero_packet\<rparr>,
     csp_buffers = empty_queue CSP_BUFFER_COUNT, ifaces = [], interfaces = None,
     rtable = replicate CSP_RTABLE_SIZE \<lparr>r_address = 0, r_netmask = 0, r_via = 0, r_iface = None\<rparr>,
     rtable_inptr = 0, ports = [], sockets = [], arr_conn = [], csp_conn_last_given = 0,
     qfifo_queue = empty_queue CSP_QFIFO_LEN, csp_promisc_queue = None, csp_promisc_enabled = False,
     csp_dedup_array = replicate 16 0, csp_dedup_timestamp = replicate 16 0, csp_dedup_in = 0,
     csp_hmac_key = replicate 16 0, csp_rdp_window_size = 4, csp_rdp_conn_timeout = 10000,
     csp_rdp_packet_timeout = 1000, csp_rdp_delayed_acks = 1, csp_rdp_ack_timeout = 250,
     csp_rdp_ack_delay_count = 2, csp_rdp_incr = 0, rdp_tx_queue = empty_queue (CSP_RDP_MAX_WINDOW * 2),
     rdp_rx_queue = empty_queue (CSP_RDP_MAX_WINDOW * 2),
     bif_a = None, bif_b = None, now = 0, rand_r = (\<lambda>x. x)\<rparr>"

type_synonym 'r csp = "('r, node) outcome"

text \<open>The transmit function of an interface: interface, via address, packet.\<close>

type_synonym nexthop_t = "nat \<Rightarrow> u16 \<Rightarrow> nat \<Rightarrow> node \<Rightarrow> int csp"

definition csp_if_lo :: nat where [simp, csp_defs]: "csp_if_lo = 0"

text \<open>Following a pointer: to a packet, an interface, a connection, a socket.\<close>

definition get_packet :: "nat \<Rightarrow> node \<Rightarrow> csp_packet_t option" where
  "get_packet i s =
     (if i < length (csp_buffer_pool s) then Some (skbf_data (csp_buffer_pool s ! i)) else None)"

definition put_packet :: "nat \<Rightarrow> csp_packet_t \<Rightarrow> node \<Rightarrow> node" where
  "put_packet i p s =
     s\<lparr>csp_buffer_pool := (csp_buffer_pool s)[i := (csp_buffer_pool s ! i)\<lparr>skbf_data := p\<rparr>]\<rparr>"

definition get_iface :: "nat \<Rightarrow> node \<Rightarrow> csp_iface_t option" where
  "get_iface i s = (if i < length (ifaces s) then Some (ifaces s ! i) else None)"

definition put_iface :: "nat \<Rightarrow> csp_iface_t \<Rightarrow> node \<Rightarrow> node" where
  "put_iface i f s = s\<lparr>ifaces := (ifaces s)[i := f]\<rparr>"

definition get_conn :: "nat \<Rightarrow> node \<Rightarrow> csp_conn_t option" where
  "get_conn i s = (if i < length (arr_conn s) then Some (arr_conn s ! i) else None)"

definition put_conn :: "nat \<Rightarrow> csp_conn_t \<Rightarrow> node \<Rightarrow> node" where
  "put_conn i c s = s\<lparr>arr_conn := (arr_conn s)[i := c]\<rparr>"

definition get_socket :: "nat \<Rightarrow> node \<Rightarrow> csp_socket_t option" where
  "get_socket i s = (if i < length (sockets s) then Some (sockets s ! i) else None)"

definition put_socket :: "nat \<Rightarrow> csp_socket_t \<Rightarrow> node \<Rightarrow> node" where
  "put_socket i k s = s\<lparr>sockets := (sockets s)[i := k]\<rparr>"

lemmas access_defs [csp_defs] = get_packet_def put_packet_def get_iface_def put_iface_def
  get_conn_def put_conn_def get_socket_def put_socket_def

end
