(* ===== verification/Csp_Buffer.thy ===== *)
theory Csp_Buffer
  imports Csp_Types
begin

text \<open>
  The packet buffer pool (\<^verbatim>\<open>src/csp_buffer.c\<close>): a fixed array of buffers with reference counts
  and a queue of the free ones. The invariant \<open>pool_inv\<close> says that the buffers outside the
  free queue have one reference each; the locale \<open>buffer_pool\<close> is the contract the rest of the
  stack relies on, and its interpretation is on the model of the C functions.
\<close>

section \<open>Model\<close>

text \<open>The memory of the pool is not initialised: only the self pointer is written.\<close>

primrec csp_buffer_init_loop :: "nat list \<Rightarrow> node \<Rightarrow> unit csp" where
  "csp_buffer_init_loop [] s = Some ((), s)"
| "csp_buffer_init_loop (i # is) s = do {
     let s = s\<lparr>csp_buffer_pool := (csp_buffer_pool s)[i := (csp_buffer_pool s ! i)\<lparr>skbf_addr := i\<rparr>]\<rparr>;
     (_, q) \<leftarrow> csp_queue_enqueue (csp_buffers s) i 0;
     csp_buffer_init_loop is (s\<lparr>csp_buffers := q\<rparr>)
   }"

definition csp_buffer_init :: "node \<Rightarrow> unit csp" where
  "csp_buffer_init s = do {
     q \<leftarrow> csp_queue_create_static CSP_BUFFER_COUNT;
     csp_buffer_init_loop [0..<CSP_BUFFER_COUNT] (s\<lparr>csp_buffers := q\<rparr>)
   }"

definition csp_buffer_get_isr :: "nat \<Rightarrow> node \<Rightarrow> nat option csp" where
  "csp_buffer_get_isr data_size s =
     (if data_size > CSP_BUFFER_SIZE then Some (None, s)
      else do {
        ((_, buf), q) \<leftarrow> csp_queue_dequeue_isr (csp_buffers s);
        let s = s\<lparr>csp_buffers := q\<rparr>;
        (case buf of
           None \<Rightarrow> Some (None, s\<lparr>csp_dbg_buffer_out := csp_dbg_buffer_out s + 1\<rparr>)
         | Some i \<Rightarrow>
             if i \<ge> length (csp_buffer_pool s) then None
             else if i \<noteq> skbf_addr (csp_buffer_pool s ! i)
             then Some (None, s\<lparr>csp_dbg_errno := CSP_DBG_ERR_CORRUPT_BUFFER\<rparr>)
             else Some (Some i,
               s\<lparr>csp_buffer_pool := (csp_buffer_pool s)[i := (csp_buffer_pool s ! i)\<lparr>refcount := 1\<rparr>]\<rparr>))
      })"

definition csp_buffer_get :: "nat \<Rightarrow> node \<Rightarrow> nat option csp" where
  "csp_buffer_get data_size s =
     (if data_size > CSP_BUFFER_SIZE then Some (None, s\<lparr>csp_dbg_errno := CSP_DBG_ERR_MTU_EXCEEDED\<rparr>)
      else do {
        ((_, buf), q) \<leftarrow> csp_queue_dequeue (csp_buffers s) 0;
        let s = s\<lparr>csp_buffers := q\<rparr>;
        (case buf of
           None \<Rightarrow> Some (None, s\<lparr>csp_dbg_buffer_out := csp_dbg_buffer_out s + 1\<rparr>)
         | Some i \<Rightarrow>
             if i \<ge> length (csp_buffer_pool s) then None
             else if i \<noteq> skbf_addr (csp_buffer_pool s ! i)
             then Some (None, s\<lparr>csp_dbg_errno := CSP_DBG_ERR_CORRUPT_BUFFER\<rparr>)
             else Some (Some i,
               s\<lparr>csp_buffer_pool := (csp_buffer_pool s)[i := (csp_buffer_pool s ! i)\<lparr>refcount := 1\<rparr>]\<rparr>))
      })"

text \<open>
  A packet pointer is the index of its buffer, so the alignment test of the source never
  fails on it.
\<close>

definition csp_buffer_free_isr :: "nat option \<Rightarrow> node \<Rightarrow> unit csp" where
  "csp_buffer_free_isr packet s =
     (case packet of
        None \<Rightarrow> Some ((), s)
      | Some i \<Rightarrow>
          if i \<ge> length (csp_buffer_pool s) then None
          else let buf = csp_buffer_pool s ! i in
          if skbf_addr buf \<noteq> i then Some ((), s\<lparr>csp_dbg_errno := CSP_DBG_ERR_CORRUPT_BUFFER\<rparr>)
          else if refcount buf = 0 then Some ((), s\<lparr>csp_dbg_errno := CSP_DBG_ERR_CORRUPT_BUFFER\<rparr>)
          else
            let buf = buf\<lparr>refcount := refcount buf - 1\<rparr>;
                s = s\<lparr>csp_buffer_pool := (csp_buffer_pool s)[i := buf]\<rparr>
            in if refcount buf > 0 then Some ((), s\<lparr>csp_dbg_errno := CSP_DBG_ERR_CORRUPT_BUFFER\<rparr>)
               else do {
                 (_, q) \<leftarrow> csp_queue_enqueue_isr (csp_buffers s) i;
                 Some ((), s\<lparr>csp_buffers := q\<rparr>)
               })"

definition csp_buffer_free :: "nat option \<Rightarrow> node \<Rightarrow> unit csp" where
  "csp_buffer_free packet s =
     (case packet of
        None \<Rightarrow> Some ((), s)
      | Some i \<Rightarrow>
          if i \<ge> length (csp_buffer_pool s) then None
          else let buf = csp_buffer_pool s ! i in
          if skbf_addr buf \<noteq> i then Some ((), s\<lparr>csp_dbg_errno := CSP_DBG_ERR_CORRUPT_BUFFER\<rparr>)
          else if refcount buf = 0 then Some ((), s\<lparr>csp_dbg_errno := CSP_DBG_ERR_ALREADY_FREE\<rparr>)
          else
            let buf = buf\<lparr>refcount := refcount buf - 1\<rparr>;
                s = s\<lparr>csp_buffer_pool := (csp_buffer_pool s)[i := buf]\<rparr>
            in if refcount buf > 0 then Some ((), s\<lparr>csp_dbg_errno := CSP_DBG_ERR_REFCOUNT\<rparr>)
               else do {
                 (_, q) \<leftarrow> csp_queue_enqueue (csp_buffers s) i 0;
                 Some ((), s\<lparr>csp_buffers := q\<rparr>)
               })"

definition csp_buffer_clone :: "nat option \<Rightarrow> node \<Rightarrow> nat option csp" where
  "csp_buffer_clone buf s =
     (case buf of
        None \<Rightarrow> Some (None, s)
      | Some i \<Rightarrow> do {
          packet \<leftarrow> get_packet i s;
          (clone, s) \<leftarrow> csp_buffer_get (unat (plen packet)) s;
          (case clone of
             None \<Rightarrow> Some (None, s)
           | Some c \<Rightarrow> do {
               packet \<leftarrow> get_packet i s;
               Some (clone, put_packet c packet s)
             })
        })"

definition csp_buffer_remaining :: "node \<Rightarrow> nat" where
  "csp_buffer_remaining s = csp_queue_size (csp_buffers s)"

definition csp_buffer_data_size :: nat where
  "csp_buffer_data_size = CSP_BUFFER_SIZE"

section \<open>Invariant\<close>

definition free_list :: "node \<Rightarrow> nat list" where
  "free_list s = queue_list (csp_buffers s)"

definition pool_inv :: "node \<Rightarrow> bool" where
  "pool_inv s \<longleftrightarrow> length (csp_buffer_pool s) = CSP_BUFFER_COUNT \<and>
     queue_wf (csp_buffers s) \<and> qsize (csp_buffers s) = CSP_BUFFER_COUNT \<and>
     distinct (free_list s) \<and> set (free_list s) \<subseteq> {..<CSP_BUFFER_COUNT} \<and>
     (\<forall>i < CSP_BUFFER_COUNT. skbf_addr (csp_buffer_pool s ! i) = i \<and>
        length (bytes (skbf_data (csp_buffer_pool s ! i))) = PACKET_BYTES \<and>
        (i \<notin> set (free_list s) \<longrightarrow> refcount (csp_buffer_pool s ! i) = 1))"

text \<open>A buffer handed out: valid, and not in the free queue.\<close>

definition allocated :: "nat \<Rightarrow> node \<Rightarrow> bool" where
  "allocated i s \<longleftrightarrow> i < CSP_BUFFER_COUNT \<and> i \<notin> set (free_list s)"

lemma free_room:
  assumes "pool_inv s" "allocated i s"
  shows "items (csp_buffers s) < qsize (csp_buffers s)"
proof -
  have "set (free_list s) \<subset> {..<15}" using assms by (auto simp: pool_inv_def allocated_def)
  then have "card (set (free_list s)) < 15" by (metis psubset_card_mono finite_lessThan card_lessThan)
  then have "length (free_list s) < 15" using assms by (simp add: pool_inv_def distinct_card)
  then show ?thesis using assms by (simp add: pool_inv_def free_list_def)
qed

text \<open>The state after a successful allocation and after a release.\<close>

definition take_buffer :: "nat \<Rightarrow> node \<Rightarrow> node" where
  "take_buffer i s = s\<lparr>csp_buffers := queue_pop (csp_buffers s),
     csp_buffer_pool := (csp_buffer_pool s)[i := (csp_buffer_pool s ! i)\<lparr>refcount := 1\<rparr>]\<rparr>"

definition give_buffer :: "nat \<Rightarrow> node \<Rightarrow> node" where
  "give_buffer i s = s\<lparr>csp_buffer_pool := (csp_buffer_pool s)[i := (csp_buffer_pool s ! i)\<lparr>refcount := 0\<rparr>],
     csp_buffers := queue_push i (csp_buffers s)\<rparr>"

lemma csp_buffer_get_eq:
  assumes "pool_inv s" "n \<le> CSP_BUFFER_SIZE"
  shows "csp_buffer_get n s =
    (case free_list s of
       [] \<Rightarrow> Some (None, s\<lparr>csp_dbg_buffer_out := csp_dbg_buffer_out s + 1\<rparr>)
     | i # _ \<Rightarrow> Some (Some i, take_buffer i s))"
proof (cases "free_list s")
  case Nil
  then have "items (csp_buffers s) = 0" by (simp add: free_list_def queue_list_empty_iff)
  then show ?thesis using Nil assms(2) by (simp add: csp_buffer_get_def csp_queue_dequeue_empty)
next
  case (Cons i xs)
  then have n: "0 < items (csp_buffers s)" by (metis free_list_def length_queue_list length_greater_0_conv list.distinct(1))
  have "buffer (csp_buffers s) ! q_out (csp_buffers s) = Some i"
    using queue_head_Some [of "csp_buffers s"] n assms(1) Cons by (simp add: pool_inv_def free_list_def)
  moreover have "i < 15" "skbf_addr (csp_buffer_pool s ! i) = i" "length (csp_buffer_pool s) = 15"
    using assms(1) Cons by (auto simp: pool_inv_def)
  ultimately show ?thesis using n assms(2) Cons
    by (simp add: csp_buffer_get_def csp_queue_dequeue_item take_buffer_def)
qed

lemma csp_buffer_get_large:
  "n > CSP_BUFFER_SIZE \<Longrightarrow> csp_buffer_get n s = Some (None, s\<lparr>csp_dbg_errno := CSP_DBG_ERR_MTU_EXCEEDED\<rparr>)"
  by (simp add: csp_buffer_get_def)

lemma csp_buffer_free_eq:
  assumes "pool_inv s" "allocated i s"
  shows "csp_buffer_free (Some i) s = Some ((), give_buffer i s)"
  using assms free_room [OF assms]
  by (simp add: csp_buffer_free_def csp_queue_enqueue_room give_buffer_def pool_inv_def allocated_def)

lemma csp_buffer_free_null: "csp_buffer_free None s = Some ((), s)"
  by (simp add: csp_buffer_free_def)

lemma take_buffer_inv:
  assumes "pool_inv s" "free_list s = i # xs"
  shows "pool_inv (take_buffer i s)" "free_list (take_buffer i s) = xs" "allocated i (take_buffer i s)"
    "get_packet j (take_buffer i s) = get_packet j s"
proof -
  have n: "0 < items (csp_buffers s)" using assms by (metis free_list_def length_queue_list length_greater_0_conv list.distinct(1))
  show fl: "free_list (take_buffer i s) = xs"
    using queue_pop_list [of "csp_buffers s"] assms n by (simp add: pool_inv_def free_list_def take_buffer_def)
  have "queue_wf (queue_pop (csp_buffers s))" using queue_pop_wf n assms by (auto simp: pool_inv_def)
  then show "pool_inv (take_buffer i s)" using assms fl
    by (auto simp: pool_inv_def take_buffer_def nth_list_update)
  show "allocated i (take_buffer i s)" using assms fl by (auto simp: allocated_def pool_inv_def)
  show "get_packet j (take_buffer i s) = get_packet j s"
    by (cases "i = j") (auto simp: get_packet_def take_buffer_def)
qed

lemma give_buffer_inv:
  assumes "pool_inv s" "allocated i s"
  shows "pool_inv (give_buffer i s)" "free_list (give_buffer i s) = free_list s @ [i]"
    "get_packet j (give_buffer i s) = get_packet j s"
proof -
  note r = free_room [OF assms]
  show fl: "free_list (give_buffer i s) = free_list s @ [i]"
    using queue_push_list [OF _ r] assms by (simp add: pool_inv_def free_list_def give_buffer_def)
  have "queue_wf (queue_push i (csp_buffers s))" using queue_push_wf [OF _ r] assms by (simp add: pool_inv_def)
  then show "pool_inv (give_buffer i s)" using assms fl
    by (auto simp: pool_inv_def give_buffer_def allocated_def nth_list_update)
  show "get_packet j (give_buffer i s) = get_packet j s"
    by (cases "i = j") (auto simp: get_packet_def give_buffer_def)
qed

text \<open>Writing a packet that keeps its size keeps the pool.\<close>

lemma put_packet_inv:
  assumes "pool_inv s" "length (bytes p) = PACKET_BYTES"
  shows "pool_inv (put_packet i p s)" "free_list (put_packet i p s) = free_list s"
proof -
  show "free_list (put_packet i p s) = free_list s" by (simp add: free_list_def put_packet_def)
  then show "pool_inv (put_packet i p s)"
    using assms by (auto simp: pool_inv_def put_packet_def nth_update_at)
qed

lemma get_put_packet:
  "i < length (csp_buffer_pool s) \<Longrightarrow> get_packet j (put_packet i p s) = (if j = i then Some p else get_packet j s)"
  by (auto simp: get_packet_def put_packet_def)

lemma pool_inv_packet:
  assumes "pool_inv s" "i < CSP_BUFFER_COUNT"
  shows "\<exists>p. get_packet i s = Some p \<and> length (bytes p) = PACKET_BYTES"
  using assms by (auto simp: pool_inv_def get_packet_def)

lemma init_loop_eq:
  "queue_wf (csp_buffers s) \<Longrightarrow> items (csp_buffers s) + length is \<le> qsize (csp_buffers s) \<Longrightarrow>
     \<forall>i \<in> set is. i < length (csp_buffer_pool s) \<Longrightarrow>
     \<exists>s'. csp_buffer_init_loop is s = Some ((), s') \<and> queue_wf (csp_buffers s') \<and>
       qsize (csp_buffers s') = qsize (csp_buffers s) \<and> free_list s' = free_list s @ is \<and>
       length (csp_buffer_pool s') = length (csp_buffer_pool s) \<and>
       (\<forall>j < length (csp_buffer_pool s). skbf_data (csp_buffer_pool s' ! j) = skbf_data (csp_buffer_pool s ! j) \<and>
          skbf_addr (csp_buffer_pool s' ! j) = (if j \<in> set is then j else skbf_addr (csp_buffer_pool s ! j)))"
proof (induction "is" arbitrary: s)
  case Nil
  then show ?case by simp
next
  case (Cons i "is")
  let ?s = "s\<lparr>csp_buffer_pool := (csp_buffer_pool s)[i := (csp_buffer_pool s ! i)\<lparr>skbf_addr := i\<rparr>],
    csp_buffers := queue_push i (csp_buffers s)\<rparr>"
  have room: "items (csp_buffers s) < qsize (csp_buffers s)" using Cons.prems by simp
  have "csp_buffer_init_loop (i # is) s = csp_buffer_init_loop is ?s"
    using room by (simp add: csp_queue_enqueue_room)
  moreover have "free_list ?s = free_list s @ [i]"
    using room Cons.prems by (simp add: free_list_def queue_push_list)
  moreover have "skbf_data (csp_buffer_pool ?s ! j) = skbf_data (csp_buffer_pool s ! j) \<and>
      skbf_addr (csp_buffer_pool ?s ! j) = (if j = i then j else skbf_addr (csp_buffer_pool s ! j))"
    if "j < length (csp_buffer_pool s)" for j
    using that by (cases "j = i") auto
  ultimately show ?case
    using Cons.IH [of ?s] Cons.prems room by (auto simp: queue_push_wf)
qed

section \<open>The contract of the pool\<close>

locale buffer_pool =
  fixes get :: "nat \<Rightarrow> 's \<Rightarrow> (nat option, 's) outcome"
    and release :: "nat option \<Rightarrow> 's \<Rightarrow> (unit, 's) outcome"
    and avail :: "'s \<Rightarrow> nat list"
    and held :: "nat \<Rightarrow> 's \<Rightarrow> bool"
    and inv :: "'s \<Rightarrow> bool"
    and maxsize :: nat
  assumes get_item: "inv s \<Longrightarrow> avail s = i # is \<Longrightarrow> n \<le> maxsize \<Longrightarrow>
      \<exists>s'. get n s = Some (Some i, s') \<and> inv s' \<and> avail s' = is \<and> (\<forall>j. held j s' \<longleftrightarrow> held j s \<or> j = i)"
    and get_none: "inv s \<Longrightarrow> avail s = [] \<or> n > maxsize \<Longrightarrow>
      \<exists>s'. get n s = Some (None, s') \<and> inv s' \<and> avail s' = avail s \<and> (\<forall>j. held j s' \<longleftrightarrow> held j s)"
    and release_held: "inv s \<Longrightarrow> held i s \<Longrightarrow>
      \<exists>s'. release (Some i) s = Some ((), s') \<and> inv s' \<and> avail s' = avail s @ [i] \<and>
        (\<forall>j. held j s' \<longleftrightarrow> held j s \<and> j \<noteq> i)"
    and held_avail: "inv s \<Longrightarrow> held i s \<Longrightarrow> i \<notin> set (avail s)"
    and avail_distinct: "inv s \<Longrightarrow> distinct (avail s)"
begin

text \<open>Allocate \<open>k\<close> buffers of \<open>n\<close> bytes, and release a list of buffers.\<close>

primrec get_many :: "nat \<Rightarrow> nat \<Rightarrow> 's \<Rightarrow> (nat list, 's) outcome" where
  "get_many 0 n s = Some ([], s)"
| "get_many (Suc k) n s = do {
     (b, s) \<leftarrow> get n s;
     (case b of
        None \<Rightarrow> Some ([], s)
      | Some i \<Rightarrow> do { (is, s) \<leftarrow> get_many k n s; Some (i # is, s) })
   }"

primrec release_all :: "nat list \<Rightarrow> 's \<Rightarrow> (unit, 's) outcome" where
  "release_all [] s = Some ((), s)"
| "release_all (i # is) s = do { (_, s) \<leftarrow> release (Some i) s; release_all is s }"

lemma get_many_avail:
  "inv s \<Longrightarrow> n \<le> maxsize \<Longrightarrow>
     \<exists>s'. get_many k n s = Some (take k (avail s), s') \<and> inv s' \<and> avail s' = List.drop k (avail s) \<and>
       (\<forall>j. held j s' \<longleftrightarrow> held j s \<or> j \<in> set (take k (avail s)))"
proof (induction k arbitrary: s)
  case 0
  then show ?case by simp
next
  case (Suc k)
  show ?case
  proof (cases "avail s")
    case Nil
    then show ?thesis using get_none [of s n] Suc.prems by auto
  next
    case (Cons i "is")
    from get_item [OF Suc.prems(1) Cons Suc.prems(2)] obtain s1 where
      s1: "get n s = Some (Some i, s1)" "inv s1" "avail s1 = is" "\<forall>j. held j s1 \<longleftrightarrow> held j s \<or> j = i"
      by blast
    from Suc.IH [OF s1(2) Suc.prems(2)] s1 Cons show ?thesis by auto
  qed
qed

lemma release_all_avail:
  "inv s \<Longrightarrow> \<forall>i \<in> set is. held i s \<Longrightarrow> distinct is \<Longrightarrow>
     \<exists>s'. release_all is s = Some ((), s') \<and> inv s' \<and> avail s' = avail s @ is"
proof (induction "is" arbitrary: s)
  case Nil
  then show ?case by simp
next
  case (Cons i "is")
  from release_held [of s i] Cons.prems obtain s1 where
    s1: "release (Some i) s = Some ((), s1)" "inv s1" "avail s1 = avail s @ [i]"
      "\<forall>j. held j s1 \<longleftrightarrow> held j s \<and> j \<noteq> i" by auto
  with Cons.IH [of s1] Cons.prems show ?case by auto
qed

text \<open>Nothing is lost and nothing is handed out twice.\<close>

lemma allocate_release:
  assumes "inv s" "n \<le> maxsize"
  shows "\<exists>is s1 s2. get_many k n s = Some (is, s1) \<and> distinct is \<and> length is = min k (length (avail s)) \<and>
    release_all is s1 = Some ((), s2) \<and> inv s2 \<and> mset (avail s2) = mset (avail s)"
proof -
  from get_many_avail [OF assms, of k] obtain s1 where
    s1: "get_many k n s = Some (take k (avail s), s1)" "inv s1" "avail s1 = List.drop k (avail s)"
      "\<forall>j. held j s1 \<longleftrightarrow> held j s \<or> j \<in> set (take k (avail s))" by blast
  moreover have d: "distinct (take k (avail s))" using avail_distinct [OF assms(1)] by simp
  ultimately obtain s2 where "release_all (take k (avail s)) s1 = Some ((), s2)" "inv s2"
      "avail s2 = List.drop k (avail s) @ take k (avail s)"
    using release_all_avail [of s1 "take k (avail s)"] by auto
  moreover from this have "mset (avail s2) = mset (avail s)"
    by (metis append_take_drop_id mset_append union_commute)
  ultimately show ?thesis using s1 d by (auto simp: min_def)
qed

end

interpretation bp: buffer_pool csp_buffer_get csp_buffer_free free_list allocated pool_inv CSP_BUFFER_SIZE
proof (unfold_locales, goal_cases)
  case (1 s i "is" n)
  then show ?case using take_buffer_inv [of s i "is"]
    by (auto simp: csp_buffer_get_eq allocated_def pool_inv_def)
next
  case (2 s n)
  then show ?case
  proof (cases "n \<le> CSP_BUFFER_SIZE")
    case True
    with 2 show ?thesis by (auto simp: csp_buffer_get_eq free_list_def pool_inv_def allocated_def)
  next
    case False
    with 2 show ?thesis by (auto simp: csp_buffer_get_large free_list_def pool_inv_def allocated_def)
  qed
next
  case (3 s i)
  then show ?case using give_buffer_inv [of s i]
    by (auto simp: csp_buffer_free_eq allocated_def)
next
  case (4 s i)
  then show ?case by (simp add: allocated_def)
next
  case (5 s)
  then show ?case by (simp add: pool_inv_def)
qed

section \<open>Properties\<close>

text \<open>A clone is a fresh buffer with the same content.\<close>

lemma csp_buffer_clone_eq:
  assumes "pool_inv s" "get_packet i s = Some p" "unat (plen p) \<le> CSP_BUFFER_SIZE" "free_list s = c # cs"
  shows "\<exists>s'. csp_buffer_clone (Some i) s = Some (Some c, s') \<and> s' = put_packet c p (take_buffer c s) \<and>
    pool_inv s' \<and> free_list s' = cs \<and> get_packet c s' = Some p \<and>
    (\<forall>j. j \<noteq> c \<longrightarrow> get_packet j s' = get_packet j s)"
proof -
  let ?s = "take_buffer c s"
  note t = take_buffer_inv [OF assms(1,4)]
  have len: "length (bytes p) = PACKET_BYTES"
    using pool_inv_packet [OF assms(1), of i] assms(1,2) by (auto simp: get_packet_def pool_inv_def split: if_splits)
  have c: "c < length (csp_buffer_pool ?s)" using assms(1,4) by (auto simp: pool_inv_def take_buffer_def)
  have "csp_buffer_clone (Some i) s = Some (Some c, put_packet c p ?s)"
    using assms t(4) [of i] by (simp add: csp_buffer_clone_def csp_buffer_get_eq)
  then show ?thesis
    using put_packet_inv [OF t(1) len, of c] get_put_packet [OF c] t by simp
qed

lemma csp_buffer_clone_none:
  assumes "pool_inv s" "get_packet i s = Some p" "unat (plen p) \<le> CSP_BUFFER_SIZE" "free_list s = []"
  shows "csp_buffer_clone (Some i) s = Some (None, s\<lparr>csp_dbg_buffer_out := csp_dbg_buffer_out s + 1\<rparr>)"
  using assms by (simp add: csp_buffer_clone_def csp_buffer_get_eq)

text \<open>Initialisation makes the pool of any memory: all buffers are free, the invariant holds, and
  no packet content is assumed.\<close>

theorem csp_buffer_init_pool:
  assumes "length (csp_buffer_pool s) = CSP_BUFFER_COUNT"
    "\<forall>b \<in> set (csp_buffer_pool s). length (bytes (skbf_data b)) = PACKET_BYTES"
  shows "\<exists>s'. csp_buffer_init s = Some ((), s') \<and> pool_inv s' \<and> free_list s' = [0..<CSP_BUFFER_COUNT] \<and>
    csp_buffer_remaining s' = CSP_BUFFER_COUNT"
proof -
  let ?q = "empty_queue CSP_BUFFER_COUNT :: nat pthread_queue_t"
  from init_loop_eq [of "s\<lparr>csp_buffers := ?q\<rparr>" "[0..<CSP_BUFFER_COUNT]"] assms
  obtain s' where s': "csp_buffer_init_loop [0..<CSP_BUFFER_COUNT] (s\<lparr>csp_buffers := ?q\<rparr>) = Some ((), s')"
    "queue_wf (csp_buffers s')" "qsize (csp_buffers s') = CSP_BUFFER_COUNT"
    "free_list s' = [0..<CSP_BUFFER_COUNT]" "length (csp_buffer_pool s') = CSP_BUFFER_COUNT"
    "\<forall>j < CSP_BUFFER_COUNT. skbf_data (csp_buffer_pool s' ! j) = skbf_data (csp_buffer_pool s ! j) \<and>
       skbf_addr (csp_buffer_pool s' ! j) = j"
    by (auto simp: free_list_def simp del: upt_rec_numeral)
  have "pool_inv s'" using s' assms by (auto simp: pool_inv_def)
  moreover have "csp_buffer_remaining s' = CSP_BUFFER_COUNT"
    using s'(4) by (metis csp_buffer_remaining_def csp_queue_size_def pthread_queue_items_def
        free_list_def length_queue_list length_upt diff_zero)
  ultimately show ?thesis using s' by (simp add: csp_buffer_init_def csp_queue_create_static_eq del: upt_rec_numeral)
qed

theorem csp_buffer_init_pool_witness:
  "\<exists>s'. csp_buffer_init zero_node = Some ((), s') \<and> pool_inv s' \<and> csp_buffer_remaining s' = 15"
  using csp_buffer_init_pool [of zero_node] by (auto simp: zero_node_def zero_packet_def)

text \<open>C12: Allocation and release on a pool that satisfies the invariant: a request that fits gets the
  buffer that was free for the longest time, and fails only when every buffer is in use (or
  the size exceeds the buffer size), changing no buffer; releasing the buffer returns it
  to the pool, and releasing it again is reported and has no other effect.\<close>

theorem csp_buffer_get_free:
  assumes "pool_inv s"
  shows "\<exists>b s1. csp_buffer_get n s = Some (b, s1) \<and> pool_inv s1 \<and>
    (case b of
       None \<Rightarrow> (free_list s = [] \<or> n > CSP_BUFFER_SIZE) \<and> free_list s1 = free_list s
     | Some i \<Rightarrow> n \<le> CSP_BUFFER_SIZE \<and> free_list s = i # free_list s1 \<and> allocated i s1 \<and>
        (\<exists>s2. csp_buffer_free (Some i) s1 = Some ((), s2) \<and> pool_inv s2 \<and>
           free_list s2 = free_list s1 @ [i] \<and>
           csp_buffer_free (Some i) s2 = Some ((), s2\<lparr>csp_dbg_errno := CSP_DBG_ERR_ALREADY_FREE\<rparr>)))"
proof (cases "n \<le> CSP_BUFFER_SIZE \<and> free_list s \<noteq> []")
  case False
  then show ?thesis using bp.get_none [of s n] assms by auto
next
  case True
  then obtain i xs where fl: "free_list s = i # xs" by (cases "free_list s") auto
  let ?s1 = "take_buffer i s" and ?s2 = "give_buffer i (take_buffer i s)"
  note t = take_buffer_inv [OF assms fl]
  note g = give_buffer_inv [OF t(1,3)]
  have "i < 15" "length (csp_buffer_pool ?s1) = 15" "skbf_addr (csp_buffer_pool ?s1 ! i) = i"
    using t(1,3) by (simp_all add: pool_inv_def allocated_def)
  then have "csp_buffer_free (Some i) ?s2 = Some ((), ?s2\<lparr>csp_dbg_errno := CSP_DBG_ERR_ALREADY_FREE\<rparr>)"
    by (simp add: csp_buffer_free_def give_buffer_def Let_def)
  then show ?thesis
    using True fl t g csp_buffer_get_eq [OF assms, of n] csp_buffer_free_eq [OF t(1,3)] by auto
qed

theorem csp_buffer_get_free_witness:
  "let s = zero_node\<lparr>csp_buffer_pool := map (\<lambda>i. \<lparr>refcount = 1, skbf_addr = i, skbf_data = zero_packet\<rparr>) [0..<15]\<rparr>
   in \<exists>s1. csp_buffer_get 10 s = Some (None, s1) \<and> pool_inv s1"
proof -
  let ?s = "zero_node\<lparr>csp_buffer_pool := map (\<lambda>i. \<lparr>refcount = 1, skbf_addr = i, skbf_data = zero_packet\<rparr>) [0..<15]\<rparr>"
  have "free_list ?s = []" by (simp add: free_list_def zero_node_def)
  moreover have "pool_inv ?s"
    unfolding pool_inv_def \<open>free_list ?s = []\<close> by (simp add: zero_node_def zero_packet_def del: upt_rec_numeral)
  ultimately show ?thesis using csp_buffer_get_free [of ?s 10] by (auto simp: Let_def split: option.splits)
qed

text \<open>A clone of a packet is a different buffer of the pool with the same content; the original
  and every other buffer keep theirs. When no buffer is free there is no clone.\<close>

theorem csp_buffer_clone_copy:
  assumes "pool_inv s" "allocated i s" "get_packet i s = Some p" "packet_wf p"
  shows "\<exists>c s'. csp_buffer_clone (Some i) s = Some (c, s') \<and> pool_inv s' \<and>
    (case c of
       None \<Rightarrow> free_list s = [] \<and> free_list s' = []
     | Some j \<Rightarrow> j \<noteq> i \<and> allocated j s' \<and> allocated i s' \<and> free_list s = j # free_list s' \<and>
        get_packet j s' = Some p \<and> (\<forall>k. k \<noteq> j \<longrightarrow> get_packet k s' = get_packet k s))"
proof (cases "free_list s")
  case Nil
  then show ?thesis using csp_buffer_clone_none [OF assms(1,3)] assms
    by (auto simp: packet_wf_def pool_inv_def free_list_def)
next
  case (Cons j js)
  from csp_buffer_clone_eq [OF assms(1,3) _ Cons] assms(4) obtain s' where s':
    "csp_buffer_clone (Some i) s = Some (Some j, s')" "pool_inv s'" "free_list s' = js"
    "get_packet j s' = Some p" "\<forall>k. k \<noteq> j \<longrightarrow> get_packet k s' = get_packet k s" by (auto simp: packet_wf_def)
  then show ?thesis using Cons assms(1,2) by (auto simp: allocated_def pool_inv_def)
qed

theorem csp_buffer_clone_copy_witness:
  "let q = the (csp_queue_create_static 15);
       s = zero_node\<lparr>csp_buffer_pool := map (\<lambda>i. \<lparr>refcount = 1, skbf_addr = i, skbf_data = zero_packet\<rparr>) [0..<15],
                     csp_buffers := queue_push 3 q\<rparr>
   in \<exists>s'. csp_buffer_clone (Some 4) s = Some (Some 3, s') \<and> get_packet 3 s' = Some zero_packet"
proof -
  let ?q = "empty_queue 15 :: nat pthread_queue_t"
  let ?s = "zero_node\<lparr>csp_buffer_pool := map (\<lambda>i. \<lparr>refcount = 1, skbf_addr = i, skbf_data = zero_packet\<rparr>) [0..<15],
      csp_buffers := queue_push 3 ?q\<rparr>"
  have fl: "free_list ?s = [3]" by (simp add: free_list_def queue_push_list)
  have "pool_inv ?s" unfolding pool_inv_def fl
    by (simp add: zero_packet_def queue_push_wf del: upt_rec_numeral)
  moreover have "allocated 4 ?s" by (simp add: allocated_def fl)
  moreover have "get_packet 4 ?s = Some zero_packet" by (simp add: get_packet_def del: upt_rec_numeral)
  moreover have "packet_wf zero_packet" by (simp add: packet_wf_def zero_packet_def)
  ultimately show ?thesis using csp_buffer_clone_copy [of ?s 4 zero_packet] fl
    by (auto simp: Let_def csp_queue_create_static_eq split: option.splits)
qed

end
