(* ===== verification/Csp_Own.thy ===== *)
theory Csp_Own
  imports Csp_Buffer
begin

text \<open>
  Who holds which packet buffer. Every buffer is in exactly one place: in the free queue, in
  one of the queues of the stack, or in the hands of the running operation, an application
  or a driver. \<open>accounts H s\<close> states this for the multiset \<open>H\<close> of buffers that are in hands;
  an operation that takes a packet and keeps, passes on or frees it takes
  \<open>accounts (add_mset p H) s\<close> to \<open>accounts H s'\<close>, and one that loses a packet or frees it
  twice cannot.
\<close>

section \<open>Places that hold packets\<close>

definition qfifo_packets :: "node \<Rightarrow> nat list" where
  "qfifo_packets s = List.map_filter q_packet (queue_list (qfifo_queue s))"

definition promisc_packets :: "node \<Rightarrow> nat list" where
  "promisc_packets s = (case csp_promisc_queue s of None \<Rightarrow> [] | Some q \<Rightarrow> queue_list q)"

definition conn_packets :: "csp_conn_t \<Rightarrow> nat list" where
  "conn_packets c = List.map_filter (\<lambda>x. x) (queue_list (rx_queue c))"

definition item_packet :: "sock_item \<Rightarrow> nat option" where
  "item_packet x = (case x of Sock_Packet p \<Rightarrow> Some p | Sock_Conn _ \<Rightarrow> None)"

definition sock_packets :: "csp_socket_t \<Rightarrow> nat list" where
  "sock_packets k = (case s_rx_queue k of None \<Rightarrow> [] | Some q \<Rightarrow> List.map_filter item_packet (queue_list q))"

definition rdp_packets :: "node \<Rightarrow> nat list" where
  "rdp_packets s = queue_list (rdp_tx_queue s) @ queue_list (rdp_rx_queue s)"

definition queued :: "node \<Rightarrow> nat multiset" where
  "queued s = mset (qfifo_packets s) + mset (promisc_packets s) +
     mset (concat (map conn_packets (arr_conn s))) + mset (concat (map sock_packets (sockets s))) +
     mset (rdp_packets s)"

text \<open>The queues are well formed.\<close>

definition queues_inv :: "node \<Rightarrow> bool" where
  "queues_inv s \<longleftrightarrow> queue_wf (qfifo_queue s) \<and>
     (case csp_promisc_queue s of None \<Rightarrow> True | Some q \<Rightarrow> queue_wf q) \<and>
     (\<forall>c \<in> set (arr_conn s). queue_wf (rx_queue c)) \<and>
     (\<forall>k \<in> set (sockets s). case s_rx_queue k of None \<Rightarrow> True | Some q \<Rightarrow> queue_wf q) \<and>
     queue_wf (rdp_tx_queue s) \<and> queue_wf (rdp_rx_queue s)"

definition accounts :: "nat multiset \<Rightarrow> node \<Rightarrow> bool" where
  "accounts H s \<longleftrightarrow> pool_inv s \<and> queues_inv s \<and>
     mset (free_list s) + queued s + H = mset_set {..<CSP_BUFFER_COUNT}"

section \<open>Allocation and release\<close>

lemma accounts_held:
  assumes "accounts (add_mset p H) s"
  shows "allocated p s" "p < CSP_BUFFER_COUNT" "p \<notin># H" "pool_inv s"
proof -
  have e: "mset (free_list s) + queued s + add_mset p H = mset_set {..<CSP_BUFFER_COUNT}"
    using assms by (simp add: accounts_def)
  then have "p \<in># mset_set {..<CSP_BUFFER_COUNT}" by (metis union_iff add_mset_add_single multi_member_last union_mset_add_mset_right)
  then show p: "p < CSP_BUFFER_COUNT" by simp
  have one: "count (mset (free_list s) + queued s + add_mset p H) p = 1" unfolding e using p by simp
  have "count (mset (free_list s)) p = 0" using one by simp
  then have "p \<notin> set (free_list s)" by (simp add: count_eq_zero_iff)
  with p show "allocated p s" by (simp add: allocated_def)
  show "p \<notin># H" using one by (simp add: not_in_iff)
  show "pool_inv s" using assms by (simp add: accounts_def)
qed

text \<open>Changes of the pool that touch no other queue.\<close>

lemma queued_pool [simp]:
  "queued (s\<lparr>csp_buffer_pool := b\<rparr>) = queued s" "queued (s\<lparr>csp_buffers := q\<rparr>) = queued s"
  "queues_inv (s\<lparr>csp_buffer_pool := b\<rparr>) = queues_inv s" "queues_inv (s\<lparr>csp_buffers := q\<rparr>) = queues_inv s"
  by (simp_all add: queued_def queues_inv_def qfifo_packets_def promisc_packets_def rdp_packets_def)

lemma accounts_take:
  assumes "accounts H s" "free_list s = i # is"
  shows "accounts (add_mset i H) (take_buffer i s)"
proof -
  have "pool_inv s" using assms by (simp add: accounts_def)
  note t = take_buffer_inv [OF this assms(2)]
  have "queued (take_buffer i s) = queued s" "queues_inv (take_buffer i s) = queues_inv s"
    by (simp_all add: take_buffer_def)
  then show ?thesis using assms t by (simp add: accounts_def)
qed

lemma accounts_give:
  assumes "accounts (add_mset i H) s"
  shows "accounts H (give_buffer i s)"
proof -
  note h = accounts_held [OF assms]
  note g = give_buffer_inv [OF h(4,1)]
  have "queued (give_buffer i s) = queued s" "queues_inv (give_buffer i s) = queues_inv s"
    by (simp_all add: give_buffer_def)
  then show ?thesis using assms g by (simp add: accounts_def)
qed

lemma accounts_free:
  assumes "accounts (add_mset i H) s"
  shows "csp_buffer_free (Some i) s = Some ((), give_buffer i s)" "accounts H (give_buffer i s)"
  using csp_buffer_free_eq accounts_held [OF assms] accounts_give [OF assms] by auto

lemma accounts_packet:
  assumes "accounts (add_mset p H) s"
  shows "\<exists>x. get_packet p s = Some x \<and> length (bytes x) = PACKET_BYTES"
  using pool_inv_packet accounts_held [OF assms] by blast

lemma accounts_put:
  assumes "accounts H s" "length (bytes x) = PACKET_BYTES"
  shows "accounts H (put_packet p x s)"
proof -
  have "queued (put_packet p x s) = queued s" "queues_inv (put_packet p x s) = queues_inv s"
    by (simp_all add: put_packet_def)
  then show ?thesis using assms put_packet_inv [of s x p] by (simp add: accounts_def)
qed

text \<open>Fields that hold no packets.\<close>

lemma free_list_frame [simp]:
  "free_list (s\<lparr>csp_dbg_errno := e\<rparr>) = free_list s" "free_list (s\<lparr>csp_dbg_buffer_out := e\<rparr>) = free_list s"
  "free_list (s\<lparr>csp_dbg_conn_ovf := e\<rparr>) = free_list s" "free_list (s\<lparr>csp_dbg_conn_out := e\<rparr>) = free_list s"
  "free_list (s\<lparr>csp_dbg_inval_reply := e\<rparr>) = free_list s" "free_list (s\<lparr>csp_dbg_can_errno := e\<rparr>) = free_list s"
  "free_list (put_iface i f s) = free_list s" "free_list (s\<lparr>ifaces := fs\<rparr>) = free_list s"
  "free_list (s\<lparr>csp_dedup_array := da\<rparr>) = free_list s" "free_list (s\<lparr>csp_dedup_timestamp := dt\<rparr>) = free_list s"
  "free_list (s\<lparr>csp_dedup_in := di\<rparr>) = free_list s" "free_list (s\<lparr>csp_conn_last_given := lg\<rparr>) = free_list s"
  "free_list (s\<lparr>qfifo_queue := qf\<rparr>) = free_list s" "free_list (s\<lparr>csp_promisc_queue := pq\<rparr>) = free_list s"
  "free_list (s\<lparr>arr_conn := cs\<rparr>) = free_list s" "free_list (s\<lparr>sockets := ks\<rparr>) = free_list s"
  by (simp_all add: free_list_def put_iface_def)

lemma pool_inv_frame [simp]:
  "pool_inv (s\<lparr>csp_dbg_errno := e\<rparr>) = pool_inv s" "pool_inv (s\<lparr>csp_dbg_buffer_out := e\<rparr>) = pool_inv s"
  "pool_inv (s\<lparr>csp_dbg_conn_ovf := e\<rparr>) = pool_inv s" "pool_inv (s\<lparr>csp_dbg_conn_out := e\<rparr>) = pool_inv s"
  "pool_inv (s\<lparr>csp_dbg_inval_reply := e\<rparr>) = pool_inv s" "pool_inv (s\<lparr>csp_dbg_can_errno := e\<rparr>) = pool_inv s"
  "pool_inv (put_iface i f s) = pool_inv s" "pool_inv (s\<lparr>ifaces := fs\<rparr>) = pool_inv s"
  "pool_inv (s\<lparr>csp_dedup_array := da\<rparr>) = pool_inv s" "pool_inv (s\<lparr>csp_dedup_timestamp := dt\<rparr>) = pool_inv s"
  "pool_inv (s\<lparr>csp_dedup_in := di\<rparr>) = pool_inv s" "pool_inv (s\<lparr>csp_conn_last_given := lg\<rparr>) = pool_inv s"
  "pool_inv (s\<lparr>qfifo_queue := qf\<rparr>) = pool_inv s" "pool_inv (s\<lparr>csp_promisc_queue := pq\<rparr>) = pool_inv s"
  "pool_inv (s\<lparr>arr_conn := cs\<rparr>) = pool_inv s" "pool_inv (s\<lparr>sockets := ks\<rparr>) = pool_inv s"
  by (simp_all add: pool_inv_def put_iface_def)

lemma accounts_frame [simp]:
  "accounts H (s\<lparr>csp_dbg_errno := e\<rparr>) = accounts H s" "accounts H (s\<lparr>csp_dbg_buffer_out := e\<rparr>) = accounts H s"
  "accounts H (s\<lparr>csp_dbg_conn_ovf := e\<rparr>) = accounts H s" "accounts H (s\<lparr>csp_dbg_conn_out := e\<rparr>) = accounts H s"
  "accounts H (s\<lparr>csp_dbg_inval_reply := e\<rparr>) = accounts H s" "accounts H (s\<lparr>csp_dbg_can_errno := e\<rparr>) = accounts H s"
  "accounts H (put_iface i f s) = accounts H s" "accounts H (s\<lparr>ifaces := fs\<rparr>) = accounts H s"
  "accounts H (s\<lparr>csp_dedup_array := da\<rparr>) = accounts H s" "accounts H (s\<lparr>csp_dedup_timestamp := dt\<rparr>) = accounts H s"
  "accounts H (s\<lparr>csp_dedup_in := di\<rparr>) = accounts H s" "accounts H (s\<lparr>csp_conn_last_given := lg\<rparr>) = accounts H s"
  by (simp_all add: accounts_def queued_def queues_inv_def qfifo_packets_def promisc_packets_def
      rdp_packets_def put_iface_def)

section \<open>The environment of the traffic\<close>

text \<open>
  The part of the state that handling packets reads but does not change: the configuration, the
  addresses and links of the interfaces, the routing table, the ports, and the sizes of the
  tables.
\<close>

definition iface_key :: "csp_iface_t \<Rightarrow> u16 \<times> u16 \<times> u16 \<times> nat option \<times> string" where
  "iface_key f = (if_addr f, if_netmask f, if_mtu f, if_next f, if_name f)"

definition sock_key :: "csp_socket_t \<Rightarrow> u32 \<times> bool" where
  "sock_key k = (s_opts k, s_rx_queue k = None)"

definition env where
  "env s = (csp_conf s, interfaces s, map iface_key (ifaces s), rtable s, rtable_inptr s, ports s,
     map sock_key (sockets s), length (arr_conn s), length (csp_dedup_array s), length (csp_dedup_timestamp s),
     csp_dedup_in s < length (csp_dedup_array s), csp_hmac_key s = [])"

lemma env_frame [simp]:
  "env (s\<lparr>csp_dbg_errno := e\<rparr>) = env s" "env (s\<lparr>csp_dbg_buffer_out := e\<rparr>) = env s"
  "env (s\<lparr>csp_dbg_conn_ovf := e\<rparr>) = env s" "env (s\<lparr>csp_dbg_conn_out := e\<rparr>) = env s"
  "env (s\<lparr>csp_dbg_inval_reply := e\<rparr>) = env s" "env (s\<lparr>csp_dbg_can_errno := e\<rparr>) = env s"
  "env (s\<lparr>csp_conn_last_given := lg\<rparr>) = env s" "env (s\<lparr>csp_buffers := fl\<rparr>) = env s"
  "env (s\<lparr>csp_buffer_pool := bp\<rparr>) = env s" "env (s\<lparr>qfifo_queue := qf\<rparr>) = env s"
  "env (s\<lparr>csp_promisc_queue := pq\<rparr>) = env s" "env (put_packet i p s) = env s"
  "env (take_buffer i s) = env s" "env (give_buffer i s) = env s" "env (put_conn i c s) = env s"
  by (simp_all add: env_def put_packet_def take_buffer_def give_buffer_def put_conn_def)

lemma env_put_iface:
  assumes "i < length (ifaces s)" "iface_key f = iface_key (ifaces s ! i)"
  shows "env (put_iface i f s) = env s"
proof -
  have "map iface_key ((ifaces s)[i := f]) = map iface_key (ifaces s)"
    using assms by (simp add: map_update list_update_same_conv)
  then show ?thesis by (simp add: env_def put_iface_def)
qed

lemma env_lengths:
  assumes "env s' = env s"
  shows "length (ifaces s') = length (ifaces s)" "length (sockets s') = length (sockets s)"
    "length (arr_conn s') = length (arr_conn s)" "csp_conf s' = csp_conf s" "ports s' = ports s"
    "rtable s' = rtable s" "rtable_inptr s' = rtable_inptr s" "interfaces s' = interfaces s"
  using assms by (auto simp: env_def dest: map_eq_imp_length_eq)

lemma env_iface:
  assumes "env s' = env s" "i < length (ifaces s)"
  shows "iface_key (ifaces s' ! i) = iface_key (ifaces s ! i)"
  using assms nth_map [of i "ifaces s" iface_key] nth_map [of i "ifaces s'" iface_key] env_lengths(1) [OF assms(1)]
  by (simp add: env_def)

lemma env_sock:
  assumes "env s' = env s" "i < length (sockets s)"
  shows "sock_key (sockets s' ! i) = sock_key (sockets s ! i)"
  using assms nth_map [of i "sockets s" sock_key] nth_map [of i "sockets s'" sock_key] env_lengths(2) [OF assms(1)]
  by (simp add: env_def)

text \<open>Packets are in the pool, and nothing else is.\<close>

lemma get_packet_frame [simp]:
  "get_packet p (s\<lparr>csp_dbg_errno := e\<rparr>) = get_packet p s" "get_packet p (s\<lparr>csp_dbg_buffer_out := e\<rparr>) = get_packet p s"
  "get_packet p (s\<lparr>csp_dbg_conn_ovf := e\<rparr>) = get_packet p s" "get_packet p (s\<lparr>csp_dbg_conn_out := e\<rparr>) = get_packet p s"
  "get_packet p (s\<lparr>csp_dbg_inval_reply := e\<rparr>) = get_packet p s" "get_packet p (s\<lparr>csp_dbg_can_errno := e\<rparr>) = get_packet p s"
  "get_packet p (put_iface i f s) = get_packet p s" "get_packet p (s\<lparr>ifaces := fs\<rparr>) = get_packet p s"
  "get_packet p (s\<lparr>csp_dedup_array := da\<rparr>) = get_packet p s" "get_packet p (s\<lparr>csp_dedup_timestamp := dt\<rparr>) = get_packet p s"
  "get_packet p (s\<lparr>csp_dedup_in := di\<rparr>) = get_packet p s" "get_packet p (s\<lparr>csp_conn_last_given := lg\<rparr>) = get_packet p s"
  "get_packet p (s\<lparr>qfifo_queue := qf\<rparr>) = get_packet p s" "get_packet p (s\<lparr>csp_promisc_queue := pq\<rparr>) = get_packet p s"
  "get_packet p (put_conn i c s) = get_packet p s" "get_packet p (put_socket i k s) = get_packet p s"
  "get_packet p (s\<lparr>csp_buffers := fl\<rparr>) = get_packet p s" "get_packet p (s\<lparr>now := t\<rparr>) = get_packet p s"
  by (simp_all add: get_packet_def put_iface_def put_conn_def put_socket_def)

lemma put_packet_fields [simp]:
  "csp_conf (put_packet i p s) = csp_conf s" "ifaces (put_packet i p s) = ifaces s"
  "csp_dedup_array (put_packet i p s) = csp_dedup_array s" "csp_dedup_timestamp (put_packet i p s) = csp_dedup_timestamp s"
  "csp_dedup_in (put_packet i p s) = csp_dedup_in s" "now (put_packet i p s) = now s"
  "arr_conn (put_packet i p s) = arr_conn s" "sockets (put_packet i p s) = sockets s"
  "ports (put_packet i p s) = ports s" "csp_hmac_key (put_packet i p s) = csp_hmac_key s"
  "csp_promisc_queue (put_packet i p s) = csp_promisc_queue s" "qfifo_queue (put_packet i p s) = qfifo_queue s"
  "length (csp_buffer_pool (put_packet i p s)) = length (csp_buffer_pool s)"
  by (simp_all add: put_packet_def)

text \<open>The content of the packets in hands does not change.\<close>

definition keeps :: "nat multiset \<Rightarrow> node \<Rightarrow> node \<Rightarrow> bool" where
  "keeps M s s' \<longleftrightarrow> (\<forall>q. q \<in># M \<longrightarrow> get_packet q s' = get_packet q s)"

lemma keeps_refl [simp]: "keeps M s s"
  by (simp add: keeps_def)

lemma keeps_trans: "keeps M s s' \<Longrightarrow> keeps M s' s'' \<Longrightarrow> keeps M s s''"
  by (simp add: keeps_def)

lemma keeps_sub: "keeps M s s' \<Longrightarrow> N \<subseteq># M \<Longrightarrow> keeps N s s'"
  by (auto simp: keeps_def dest: mset_subset_eqD)

lemma keeps_all: "(\<And>q. get_packet q s' = get_packet q s) \<Longrightarrow> keeps M s s'"
  by (simp add: keeps_def)

lemma keeps_put:
  assumes "accounts (add_mset p H) s"
  shows "keeps H s (put_packet p x s)"
proof -
  have "p < length (csp_buffer_pool s)"
    using accounts_held(2,4) [OF assms] by (simp add: pool_inv_def)
  then show ?thesis using accounts_held(3) [OF assms] by (auto simp: keeps_def get_put_packet)
qed

lemma get_packet_give [simp]: "get_packet q (give_buffer j s) = get_packet q s"
  by (cases "j = q") (auto simp: get_packet_def give_buffer_def)

section \<open>Clones\<close>

lemma accounts_clone:
  assumes "accounts (add_mset p H) s" "get_packet p s = Some x" "unat (plen x) \<le> CSP_BUFFER_SIZE"
  shows "\<exists>c s'. csp_buffer_clone (Some p) s = Some (c, s') \<and> get_packet p s' = Some x \<and> env s' = env s \<and>
    csp_promisc_queue s' = csp_promisc_queue s \<and> arr_conn s' = arr_conn s \<and> sockets s' = sockets s \<and>
    keeps (add_mset p H) s s' \<and>
    (case c of None \<Rightarrow> accounts (add_mset p H) s'
     | Some j \<Rightarrow> accounts (add_mset j (add_mset p H)) s' \<and> get_packet j s' = Some x)"
proof (cases "free_list s")
  case Nil
  then show ?thesis using csp_buffer_clone_none [OF accounts_held(4) [OF assms(1)] assms(2,3)] assms
    by (auto simp: get_packet_def keeps_def split: if_splits)
next
  case (Cons j js)
  have len: "length (bytes x) = PACKET_BYTES" using accounts_packet [OF assms(1)] assms(2) by auto
  from csp_buffer_clone_eq [OF accounts_held(4) [OF assms(1)] assms(2,3) Cons] obtain s' where s':
    "csp_buffer_clone (Some p) s = Some (Some j, s')" "s' = put_packet j x (take_buffer j s)"
    "get_packet j s' = Some x" "\<forall>k. k \<noteq> j \<longrightarrow> get_packet k s' = get_packet k s" by auto
  have "accounts (add_mset j (add_mset p H)) s'"
    using accounts_put [OF accounts_take [OF assms(1) Cons] len] s'(2) by simp
  moreover have "j \<noteq> p" using accounts_held(1) [OF assms(1)] Cons by (auto simp: allocated_def)
  moreover have "csp_promisc_queue s' = csp_promisc_queue s" "arr_conn s' = arr_conn s" "sockets s' = sockets s"
    by (simp_all add: s'(2) put_packet_def take_buffer_def)
  moreover have "keeps (add_mset p H) s s'"
  proof -
    have "j \<notin># add_mset p H" using accounts_held(3) [OF accounts_take [OF assms(1) Cons]] .
    then show ?thesis using s'(4) by (auto simp: keeps_def)
  qed
  ultimately show ?thesis using s' assms(2) by (intro exI [of _ "Some j"] exI [of _ s']) auto
qed

section \<open>Moving a packet into a queue\<close>

text \<open>The input queue.\<close>

lemma map_filter_append [simp]: "List.map_filter f (xs @ ys) = List.map_filter f xs @ List.map_filter f ys"
  by (simp add: List.map_filter_def)

lemma map_filter_single [simp]: "List.map_filter f [x] = (case f x of None \<Rightarrow> [] | Some y \<Rightarrow> [y])"
  by (simp add: List.map_filter_def split: option.splits)

lemma accounts_qfifo_push:
  assumes "accounts (add_mset p H) s" "items (qfifo_queue s) < qsize (qfifo_queue s)" "q_packet e = Some p"
  shows "accounts H (s\<lparr>qfifo_queue := queue_push e (qfifo_queue s)\<rparr>)"
proof -
  have wf: "queue_wf (qfifo_queue s)" using assms(1) by (simp add: accounts_def queues_inv_def)
  show ?thesis using assms queue_push_wf [OF wf assms(2), of e] queue_push_list [OF wf assms(2), of e]
    by (simp add: accounts_def queues_inv_def queued_def qfifo_packets_def promisc_packets_def rdp_packets_def
        cong: option.case_cong)
qed

lemma accounts_qfifo_pop:
  assumes "accounts H s" "queue_list (qfifo_queue s) = e # es"
  shows "accounts (case q_packet e of None \<Rightarrow> H | Some p \<Rightarrow> add_mset p H)
    (s\<lparr>qfifo_queue := queue_pop (qfifo_queue s)\<rparr>)"
proof -
  have wf: "queue_wf (qfifo_queue s)" using assms(1) by (simp add: accounts_def queues_inv_def)
  have n: "0 < items (qfifo_queue s)" using assms(2) by (metis length_queue_list length_greater_0_conv list.distinct(1))
  have "queue_list (queue_pop (qfifo_queue s)) = es" using queue_pop_list [OF wf n] assms(2) by simp
  then show ?thesis using assms queue_pop_wf [OF wf n]
    by (auto simp: accounts_def queues_inv_def queued_def qfifo_packets_def promisc_packets_def rdp_packets_def
        List.map_filter_def split: option.splits)
qed

text \<open>The promiscuous queue.\<close>

lemma accounts_promisc_push:
  assumes "accounts (add_mset p H) s" "csp_promisc_queue s = Some q" "items q < qsize q"
  shows "accounts H (s\<lparr>csp_promisc_queue := Some (queue_push p q)\<rparr>)"
proof -
  have wf: "queue_wf q" using assms(1,2) by (simp add: accounts_def queues_inv_def)
  show ?thesis using assms queue_push_wf [OF wf assms(3), of p] queue_push_list [OF wf assms(3), of p]
    by (simp add: accounts_def queues_inv_def queued_def qfifo_packets_def promisc_packets_def rdp_packets_def)
qed

text \<open>A place in an array: a connection or a socket.\<close>

lemma mset_concat_update:
  assumes "i < length xs"
  shows "mset (concat (map f (xs[i := y]))) + mset (f (xs ! i)) = mset (concat (map f xs)) + mset (f y)"
  using assms
proof (induction xs arbitrary: i)
  case Nil
  then show ?case by simp
next
  case (Cons x xs)
  then show ?case by (cases i) (simp_all add: ac_simps)
qed

lemma accounts_put_conn:
  assumes "accounts H s" "i < length (arr_conn s)" "queue_wf (rx_queue c)"
    "mset (conn_packets c) + K' = mset (conn_packets (arr_conn s ! i)) + K" "H = H0 + K" 
  shows "accounts (H0 + K') (put_conn i c s)"
proof -
  let ?m = "mset (concat (map conn_packets (arr_conn s)))"
  let ?m' = "mset (concat (map conn_packets ((arr_conn s)[i := c])))"
  have e: "?m' + mset (conn_packets (arr_conn s ! i)) = ?m + mset (conn_packets c)"
    by (rule mset_concat_update [OF assms(2)])
  then have "?m' + K' + mset (conn_packets (arr_conn s ! i)) = ?m + (mset (conn_packets c) + K')"
    by (metis add.assoc add.commute)
  also have "\<dots> = ?m + K + mset (conn_packets (arr_conn s ! i))" using assms(4) by (simp add: ac_simps)
  finally have k: "?m' + K' = ?m + K" by simp
  have "queues_inv (put_conn i c s)"
    using assms(1,2,3) by (auto simp: accounts_def queues_inv_def put_conn_def dest!: set_update_subset_insert [THEN subsetD])
  moreover have "queued (put_conn i c s) + K' = queued s + K"
  proof -
    have "queued (put_conn i c s) + K' = mset (qfifo_packets s) + mset (promisc_packets s) + (?m' + K') +
        mset (concat (map sock_packets (sockets s))) + mset (rdp_packets s)"
      by (simp add: queued_def put_conn_def qfifo_packets_def promisc_packets_def rdp_packets_def ac_simps)
    also have "\<dots> = queued s + K" by (simp only: k) (simp add: queued_def ac_simps)
    finally show ?thesis .
  qed
  moreover have "pool_inv (put_conn i c s)" "free_list (put_conn i c s) = free_list s"
    using assms(1) by (simp_all add: accounts_def put_conn_def)
  ultimately show ?thesis using assms(1,5) by (simp add: accounts_def) (metis add.assoc add.commute)
qed

lemma accounts_put_socket:
  assumes "accounts H s" "i < length (sockets s)" "case s_rx_queue k of None \<Rightarrow> True | Some q \<Rightarrow> queue_wf q"
    "mset (sock_packets k) + K' = mset (sock_packets (sockets s ! i)) + K" "H = H0 + K"
  shows "accounts (H0 + K') (put_socket i k s)"
proof -
  let ?m = "mset (concat (map sock_packets (sockets s)))"
  let ?m' = "mset (concat (map sock_packets ((sockets s)[i := k])))"
  have e: "?m' + mset (sock_packets (sockets s ! i)) = ?m + mset (sock_packets k)"
    by (rule mset_concat_update [OF assms(2)])
  then have "?m' + K' + mset (sock_packets (sockets s ! i)) = ?m + (mset (sock_packets k) + K')"
    by (metis add.assoc add.commute)
  also have "\<dots> = ?m + K + mset (sock_packets (sockets s ! i))" using assms(4) by (simp add: ac_simps)
  finally have k: "?m' + K' = ?m + K" by simp
  have "queues_inv (put_socket i k s)"
    using assms(1,2,3) by (auto simp: accounts_def queues_inv_def put_socket_def dest!: set_update_subset_insert [THEN subsetD])
  moreover have "queued (put_socket i k s) + K' = queued s + K"
  proof -
    have "queued (put_socket i k s) + K' = mset (qfifo_packets s) + mset (promisc_packets s) +
        mset (concat (map conn_packets (arr_conn s))) + (?m' + K') + mset (rdp_packets s)"
      by (simp add: queued_def put_socket_def qfifo_packets_def promisc_packets_def rdp_packets_def ac_simps)
    also have "\<dots> = queued s + K" by (simp only: k) (simp add: queued_def ac_simps)
    finally show ?thesis .
  qed
  moreover have "pool_inv (put_socket i k s)" "free_list (put_socket i k s) = free_list s"
    using assms(1) by (simp_all add: accounts_def put_socket_def)
  ultimately show ?thesis using assms(1,5) by (simp add: accounts_def) (metis add.assoc add.commute)
qed

section \<open>What sending leaves alone\<close>

text \<open>
  The part of the state that neither allocating and releasing buffers nor handing packets to interfaces changes:
  connections, sockets, the queues of RDP, the clock and the settings.
\<close>

definition send_frame where
  "send_frame s = (arr_conn s, sockets s, ports s, csp_conf s, csp_conn_last_given s, rdp_tx_queue s, rdp_rx_queue s,
     now s, rand_r s, [csp_rdp_window_size s, csp_rdp_conn_timeout s, csp_rdp_packet_timeout s, csp_rdp_delayed_acks s,
     csp_rdp_ack_timeout s, csp_rdp_ack_delay_count s])"

lemma send_frame_simps [simp]:
  "send_frame (s\<lparr>csp_dbg_errno := e\<rparr>) = send_frame s" "send_frame (s\<lparr>csp_dbg_buffer_out := e\<rparr>) = send_frame s"
  "send_frame (s\<lparr>csp_dbg_conn_ovf := e\<rparr>) = send_frame s" "send_frame (s\<lparr>csp_dbg_conn_out := e\<rparr>) = send_frame s"
  "send_frame (s\<lparr>csp_dbg_inval_reply := e\<rparr>) = send_frame s" "send_frame (s\<lparr>csp_dbg_can_errno := e\<rparr>) = send_frame s"
  "send_frame (s\<lparr>csp_buffers := fl\<rparr>) = send_frame s" "send_frame (s\<lparr>csp_buffer_pool := bp\<rparr>) = send_frame s"
  "send_frame (s\<lparr>qfifo_queue := qf\<rparr>) = send_frame s" "send_frame (s\<lparr>csp_promisc_queue := pq\<rparr>) = send_frame s"
  "send_frame (s\<lparr>csp_rdp_incr := ri\<rparr>) = send_frame s"
  "send_frame (put_packet p x s) = send_frame s" "send_frame (put_iface i f s) = send_frame s"
  "send_frame (take_buffer p s) = send_frame s" "send_frame (give_buffer p s) = send_frame s"
  by (simp_all add: send_frame_def put_packet_def put_iface_def take_buffer_def give_buffer_def)

lemma send_frame_fields:
  assumes "send_frame s' = send_frame s"
  shows "arr_conn s' = arr_conn s" "sockets s' = sockets s" "ports s' = ports s" "csp_conf s' = csp_conf s"
    "csp_conn_last_given s' = csp_conn_last_given s" "rdp_tx_queue s' = rdp_tx_queue s" "rdp_rx_queue s' = rdp_rx_queue s"
    "now s' = now s" "rand_r s' = rand_r s"
  using assms by (simp_all add: send_frame_def)

lemma buffer_get_frame: "csp_buffer_get n s = Some (b, s') \<Longrightarrow> send_frame s' = send_frame s"
  unfolding csp_buffer_get_def Let_def
  by (split if_split_asm) (fastforce simp: bind_Some_iff split: option.split_asm if_split_asm)+

lemma buffer_free_frame: "csp_buffer_free b s = Some (u, s') \<Longrightarrow> send_frame s' = send_frame s"
  unfolding csp_buffer_free_def Let_def
  by (cases b) (fastforce simp: bind_Some_iff split: if_split_asm)+

lemma buffer_clone_frame: "csp_buffer_clone b s = Some (c, s') \<Longrightarrow> send_frame s' = send_frame s"
  unfolding csp_buffer_clone_def
  by (cases b) (fastforce simp: bind_Some_iff split: option.split_asm dest: buffer_get_frame)+

end
