(* ===== verification/Csp_Id.thy ===== *)
theory Csp_Id
  imports Csp_Types
begin

text \<open>
  The CSP header (\<^verbatim>\<open>src/csp_id.c\<close>): packing of the identifier in front of the data and
  parsing of a received frame, for the 4-byte header of CSP 1.x and the 6-byte header of
  CSP 2.x, and the address arithmetic. The locale \<open>header_codec\<close> states what an interface
  relies on, for either version; \<open>id1\<close> and \<open>id2\<close> interpret it.
\<close>

section \<open>Model\<close>

definition CSP_ID1_HEADER_SIZE :: nat where [simp, csp_defs]: "CSP_ID1_HEADER_SIZE = 4"
definition CSP_ID1_HOST_SIZE :: u32 where [simp, csp_defs]: "CSP_ID1_HOST_SIZE = 5"
definition CSP_ID2_HEADER_SIZE :: nat where [simp, csp_defs]: "CSP_ID2_HEADER_SIZE = 6"
definition CSP_ID2_HOST_SIZE :: u32 where [simp, csp_defs]: "CSP_ID2_HOST_SIZE = 14"
definition CSP_ID2_PORT_SIZE :: u32 where [simp, csp_defs]: "CSP_ID2_PORT_SIZE = 6"

definition csp_id1_pack :: "csp_id_t \<Rightarrow> u32" where
  "csp_id1_pack i =
     push_bit 30 (ucast (pri i)) OR push_bit 20 (ucast (dst i)) OR push_bit 25 (ucast (src i)) OR
     push_bit 14 (ucast (dport i)) OR push_bit 8 (ucast (sport i)) OR push_bit 0 (ucast (flags i))"

definition csp_id1_prepend :: "csp_packet_t \<Rightarrow> csp_packet_t" where
  "csp_id1_prepend packet =
     (let id1 = htobe32 (csp_id1_pack (pid packet));
          packet = packet\<lparr>frame_begin := DATA_OFFSET - CSP_ID1_HEADER_SIZE,
                          frame_length := plen packet + of_nat CSP_ID1_HEADER_SIZE\<rparr>
      in packet\<lparr>bytes := mem_put (frame_begin packet) (word_to_le CSP_ID1_HEADER_SIZE id1) (bytes packet)\<rparr>)"

definition csp_id1_unpack :: "u32 \<Rightarrow> csp_id_t" where
  "csp_id1_unpack id1 =
     \<lparr>pri = ucast (drop_bit 30 id1 AND 0x3), flags = ucast (drop_bit 0 id1 AND 0xFF),
      src = ucast (drop_bit 25 id1 AND 0x1F), dst = ucast (drop_bit 20 id1 AND 0x1F),
      dport = ucast (drop_bit 14 id1 AND 0x3F), sport = ucast (drop_bit 8 id1 AND 0x3F)\<rparr>"

definition csp_id1_strip :: "csp_packet_t \<Rightarrow> (int, csp_packet_t) outcome" where
  "csp_id1_strip packet =
     (if unat (frame_length packet) < CSP_ID1_HEADER_SIZE then Some (-1, packet)
      else do {
        bs \<leftarrow> mem_read (frame_begin packet) CSP_ID1_HEADER_SIZE (bytes packet);
        let id1 = be32toh (le_to_word bs);
        let packet = packet\<lparr>plen := frame_length packet - of_nat CSP_ID1_HEADER_SIZE\<rparr>;
        Some (0, packet\<lparr>pid := csp_id1_unpack id1\<rparr>)
      })"

definition csp_id1_setup_rx :: "csp_packet_t \<Rightarrow> csp_packet_t" where
  "csp_id1_setup_rx packet =
     packet\<lparr>frame_begin := DATA_OFFSET - CSP_ID1_HEADER_SIZE, frame_length := 0\<rparr>"

definition csp_id2_pack :: "csp_id_t \<Rightarrow> u64" where
  "csp_id2_pack i =
     push_bit 46 (ucast (pri i)) OR push_bit 32 (ucast (dst i)) OR push_bit 18 (ucast (src i)) OR
     push_bit 12 (ucast (dport i)) OR push_bit 6 (ucast (sport i)) OR push_bit 0 (ucast (flags i))"

definition csp_id2_prepend :: "csp_packet_t \<Rightarrow> csp_packet_t" where
  "csp_id2_prepend packet =
     (let id2 = htobe64 (push_bit 16 (csp_id2_pack (pid packet)));
          packet = packet\<lparr>frame_begin := DATA_OFFSET - CSP_ID2_HEADER_SIZE,
                          frame_length := plen packet + of_nat CSP_ID2_HEADER_SIZE\<rparr>
      in packet\<lparr>bytes := mem_put (frame_begin packet) (word_to_le CSP_ID2_HEADER_SIZE id2) (bytes packet)\<rparr>)"

definition csp_id2_unpack :: "u64 \<Rightarrow> csp_id_t" where
  "csp_id2_unpack id2 =
     \<lparr>pri = ucast (drop_bit 46 id2 AND 0x3), flags = ucast (drop_bit 0 id2 AND 0x3F),
      src = ucast (drop_bit 18 id2 AND 0x3FFF), dst = ucast (drop_bit 32 id2 AND 0x3FFF),
      dport = ucast (drop_bit 12 id2 AND 0x3F), sport = ucast (drop_bit 6 id2 AND 0x3F)\<rparr>"

text \<open>The six bytes are copied to the low end of a zeroed 64-bit variable.\<close>

definition csp_id2_strip :: "csp_packet_t \<Rightarrow> (int, csp_packet_t) outcome" where
  "csp_id2_strip packet =
     (if unat (frame_length packet) < CSP_ID2_HEADER_SIZE then Some (-1, packet)
      else do {
        bs \<leftarrow> mem_read (frame_begin packet) CSP_ID2_HEADER_SIZE (bytes packet);
        let packet = packet\<lparr>plen := frame_length packet - of_nat CSP_ID2_HEADER_SIZE\<rparr>;
        let id2 = drop_bit 16 (be64toh (le_to_word bs));
        Some (0, packet\<lparr>pid := csp_id2_unpack id2\<rparr>)
      })"

definition csp_id2_setup_rx :: "csp_packet_t \<Rightarrow> csp_packet_t" where
  "csp_id2_setup_rx packet =
     packet\<lparr>frame_begin := DATA_OFFSET - CSP_ID2_HEADER_SIZE, frame_length := 0\<rparr>"

text \<open>Dispatch on the version of the configuration.\<close>

definition csp_id_prepend :: "csp_conf_t \<Rightarrow> csp_packet_t \<Rightarrow> csp_packet_t" where
  "csp_id_prepend conf packet =
     (if version conf = 2 then csp_id2_prepend packet else csp_id1_prepend packet)"

definition csp_id_strip :: "csp_conf_t \<Rightarrow> csp_packet_t \<Rightarrow> (int, csp_packet_t) outcome" where
  "csp_id_strip conf packet =
     (if version conf = 2 then csp_id2_strip packet else csp_id1_strip packet)"

definition csp_id_setup_rx :: "csp_conf_t \<Rightarrow> csp_packet_t \<Rightarrow> nat \<times> csp_packet_t" where
  "csp_id_setup_rx conf packet =
     (if version conf = 2 then (CSP_ID2_HEADER_SIZE, csp_id2_setup_rx packet)
      else (CSP_ID1_HEADER_SIZE, csp_id1_setup_rx packet))"

definition csp_id_get_host_bits :: "csp_conf_t \<Rightarrow> u32" where
  "csp_id_get_host_bits conf =
     (if version conf = 2 then CSP_ID2_HOST_SIZE else CSP_ID1_HOST_SIZE)"

text \<open>\<^verbatim>\<open>1 << n\<close> in the type \<^verbatim>\<open>int\<close>: undefined when the result does not fit.\<close>

definition shift_one :: "u32 \<Rightarrow> u32 option" where
  "shift_one n = (if n < 31 then Some (push_bit (unat n) 1) else None)"

definition csp_id_get_max_nodeid :: "csp_conf_t \<Rightarrow> u32" where
  "csp_id_get_max_nodeid conf =
     (if version conf = 2 then push_bit (unat CSP_ID2_HOST_SIZE) 1 - 1
      else push_bit (unat CSP_ID1_HOST_SIZE) 1 - 1)"

definition csp_id_get_max_port :: u32 where
  "csp_id_get_max_port = push_bit (unat CSP_ID2_PORT_SIZE) 1 - 1"

definition csp_id_is_broadcast :: "csp_conf_t \<Rightarrow> u16 \<Rightarrow> u16 \<Rightarrow> bool option" where
  "csp_id_is_broadcast conf addr netmask = do {
     one \<leftarrow> shift_one (csp_id_get_host_bits conf - ucast netmask);
     let hostmask = (ucast (one - 1) :: u16);
     Some (addr AND hostmask = hostmask)
   }"

section \<open>Packing and unpacking\<close>

text \<open>The identifiers whose fields fit the fields of the header.\<close>

definition id1_fits :: "csp_id_t \<Rightarrow> bool" where
  "id1_fits i \<longleftrightarrow> pri i < 4 \<and> src i < 32 \<and> dst i < 32 \<and> dport i < 64 \<and> sport i < 64"

definition id2_fits :: "csp_id_t \<Rightarrow> bool" where
  "id2_fits i \<longleftrightarrow> pri i < 4 \<and> flags i < 64 \<and> src i < 0x4000 \<and> dst i < 0x4000 \<and>
     dport i < 64 \<and> sport i < 64"

lemma less_power_bits: "w < 2 ^ k \<Longrightarrow> bit (w :: 'a::len word) n \<Longrightarrow> n < k"
proof (rule ccontr)
  assume "w < 2 ^ k" "bit w n" "\<not> n < k"
  then have "take_bit k w = w" by (metis less_mask_eq take_bit_eq_mask and.commute)
  with \<open>bit w n\<close> \<open>\<not> n < k\<close> show False by (metis bit_take_bit_iff)
qed

lemma id1_unpack_pack:
  assumes "id1_fits i"
  shows "csp_id1_unpack (csp_id1_pack i) = i"
proof -
  have pri: "\<And>n. bit (pri i) n \<Longrightarrow> n < 2" and
    src: "\<And>n. bit (src i) n \<Longrightarrow> n < 5" and dst: "\<And>n. bit (dst i) n \<Longrightarrow> n < 5" and
    dport: "\<And>n. bit (dport i) n \<Longrightarrow> n < 6" and sport: "\<And>n. bit (sport i) n \<Longrightarrow> n < 6"
    using assms by (auto simp: id1_fits_def intro: less_power_bits)
  have flags: "\<And>n. bit (flags i) n \<Longrightarrow> n < 8" using bit_imp_le_length by fastforce
  note facts = pri src dst dport sport flags
  have masks: "(0x3 :: u32) = Bit_Operations.mask 2" "(0xFF :: u32) = Bit_Operations.mask 8" "(0x1F :: u32) = Bit_Operations.mask 5"
    "(0x3F :: u32) = Bit_Operations.mask 6" by (simp_all add: mask_numeral)
  show ?thesis
    unfolding csp_id1_unpack_def csp_id1_pack_def masks
    by (rule csp_id_t.equality; simp; rule bit_word_eqI)
      (auto simp: bit_simps dest: facts)
qed

lemma id2_unpack_pack:
  assumes "id2_fits i"
  shows "csp_id2_unpack (csp_id2_pack i) = i" "bit (csp_id2_pack i) n \<Longrightarrow> n < 48"
proof -
  have pri: "\<And>n. bit (pri i) n \<Longrightarrow> n < 2" and
    src: "\<And>n. bit (src i) n \<Longrightarrow> n < 14" and dst: "\<And>n. bit (dst i) n \<Longrightarrow> n < 14" and
    dport: "\<And>n. bit (dport i) n \<Longrightarrow> n < 6" and sport: "\<And>n. bit (sport i) n \<Longrightarrow> n < 6" and
    flags: "\<And>n. bit (flags i) n \<Longrightarrow> n < 6"
    using assms by (auto simp: id2_fits_def intro: less_power_bits)
  note facts = pri src dst dport sport flags
  have masks: "(0x3 :: u64) = Bit_Operations.mask 2" "(0x3F :: u64) = Bit_Operations.mask 6"
    "(0x3FFF :: u64) = Bit_Operations.mask 14"
    by (simp_all add: mask_numeral)
  show "csp_id2_unpack (csp_id2_pack i) = i"
    unfolding csp_id2_unpack_def csp_id2_pack_def masks
    by (rule csp_id_t.equality; simp; rule bit_word_eqI)
      (auto simp: bit_simps dest: facts)
  show "n < 48" if "bit (csp_id2_pack i) n"
    using that unfolding csp_id2_pack_def by (auto simp: bit_simps dest: facts)
qed

text \<open>The parsed word of a frame is the word that was packed.\<close>

lemma id1_parse: "be32toh (le_to_word (word_to_le 4 (htobe32 w))) = w"
  by simp

lemma id2_parse:
  assumes "\<And>n. bit w n \<Longrightarrow> n < 48"
  shows "drop_bit 16 (be64toh (le_to_word (word_to_le 6 (htobe64 (push_bit 16 w))))) = w"
proof -
  have low: "n < 48" if "16 \<le> 8 * (7 - n div 8) + n mod 8" for n :: nat
  proof (rule ccontr)
    assume "\<not> n < 48"
    then have "48 div 8 \<le> n div 8" by (intro div_le_mono) simp
    moreover have "n mod 8 < 8" by simp
    ultimately show False using that by simp
  qed
  have "take_bit 48 (htobe64 (push_bit 16 w)) = htobe64 (push_bit 16 w)"
    by (rule bit_word_eqI) (auto simp: htobe64_def bit_bswap bit_simps intro: low)
  then show ?thesis
    by (intro bit_word_eqI) (auto simp: le_to_word_to_le bit_simps dest: assms)
qed

section \<open>The contract of a header format\<close>

text \<open>
  \<open>load_frame n fr q\<close> is a packet \<open>q\<close> into which an interface has received the frame
  \<open>fr\<close>, with room for a header of \<open>n\<close> bytes in front of the data.
\<close>

definition load_frame :: "nat \<Rightarrow> u8 list \<Rightarrow> csp_packet_t \<Rightarrow> csp_packet_t" where
  "load_frame n fr q = q\<lparr>frame_begin := DATA_OFFSET - n, frame_length := of_nat (length fr),
     bytes := mem_put (DATA_OFFSET - n) fr (bytes q)\<rparr>"

locale header_codec =
  fixes prepend :: "csp_packet_t \<Rightarrow> csp_packet_t"
    and strip :: "csp_packet_t \<Rightarrow> (int, csp_packet_t) outcome"
    and fits :: "csp_id_t \<Rightarrow> bool"
    and hsize :: nat
  assumes hsize_le: "hsize \<le> CSP_PACKET_PADDING_BYTES"
    and prepend_frame: "packet_wf p \<Longrightarrow> \<exists>h. length h = hsize \<and>
      prepend p = p\<lparr>frame_begin := DATA_OFFSET - hsize, frame_length := plen p + of_nat hsize,
        bytes := mem_put (DATA_OFFSET - hsize) h (bytes p)\<rparr>"
    and strip_short: "unat (frame_length p) < hsize \<Longrightarrow> strip p = Some (-1, p)"
    and strip_frame: "packet_wf p \<Longrightarrow> fits (pid p) \<Longrightarrow> length (bytes q) = PACKET_BYTES \<Longrightarrow>
      frame_begin q = DATA_OFFSET - hsize \<Longrightarrow>
      take hsize (List.drop (DATA_OFFSET - hsize) (bytes q)) =
        take hsize (List.drop (DATA_OFFSET - hsize) (bytes (prepend p))) \<Longrightarrow>
      hsize \<le> unat (frame_length q) \<Longrightarrow>
      strip q = Some (0, q\<lparr>plen := frame_length q - of_nat hsize, pid := pid p\<rparr>)"
begin

lemma prepend_fields:
  assumes "packet_wf p"
  shows "pid (prepend p) = pid p" "plen (prepend p) = plen p"
    "frame_begin (prepend p) = DATA_OFFSET - hsize" "frame_length (prepend p) = plen p + of_nat hsize"
    "length (bytes (prepend p)) = PACKET_BYTES" "packet_wf (prepend p)"
  using prepend_frame [OF assms] assms hsize_le by (auto simp: packet_wf_def)

lemma prepend_data:
  assumes "packet_wf p"
  shows "List.drop DATA_OFFSET (bytes (prepend p)) = List.drop DATA_OFFSET (bytes p)"
    "pdata (prepend p) = pdata p"
proof -
  obtain h where h: "length h = hsize" "prepend p = p\<lparr>frame_begin := DATA_OFFSET - hsize,
      frame_length := plen p + of_nat hsize, bytes := mem_put (DATA_OFFSET - hsize) h (bytes p)\<rparr>"
    using prepend_frame [OF assms] by auto
  then show "List.drop DATA_OFFSET (bytes (prepend p)) = List.drop DATA_OFFSET (bytes p)"
    using hsize_le assms by (simp add: mem_put_def packet_wf_def)
  then show "pdata (prepend p) = pdata p"
    using prepend_fields [OF assms] by (simp add: pdata_def)
qed

lemma frame_length_nat:
  assumes "packet_wf p"
  shows "unat (frame_length (prepend p)) = unat (plen p) + hsize"
proof -
  have "hsize < 2 ^ 16" using hsize_le by simp
  then have "unat (of_nat hsize :: u16) = hsize" by simp
  then show ?thesis using assms hsize_le
    by (simp add: prepend_fields packet_wf_def unat_word_ariths)
qed

text \<open>The frame is the header followed by the data.\<close>

lemma pframe_prepend:
  assumes "packet_wf p"
  shows "pframe (prepend p) = take hsize (List.drop (DATA_OFFSET - hsize) (bytes (prepend p))) @ pdata p"
proof -
  have d: "List.drop hsize (List.drop (DATA_OFFSET - hsize) (bytes (prepend p))) =
      List.drop DATA_OFFSET (bytes p)"
    using hsize_le prepend_data(1) [OF assms] by simp
  show ?thesis
    using prepend_fields(3) [OF assms] frame_length_nat [OF assms] d
    by (simp add: pframe_def pdata_def add.commute take_add)
qed

text \<open>A transmitted frame, received into any packet, gives the identifier and the data back.\<close>

lemma receive_transmitted:
  assumes p: "packet_wf p" "fits (pid p)" and q: "length (bytes q) = PACKET_BYTES"
  defines "r \<equiv> load_frame hsize (pframe (prepend p)) q"
  shows "\<exists>r'. strip r = Some (0, r') \<and> pid r' = pid p \<and> plen r' = plen p \<and> pdata r' = pdata p \<and>
    packet_wf r'"
proof -
  let ?f = "pframe (prepend p)"
  have h: "length (take hsize (List.drop (DATA_OFFSET - hsize) (bytes (prepend p)))) = hsize"
    using hsize_le prepend_fields(5) [OF p(1)] by simp
  have data: "length (pdata p) = unat (plen p)"
    using p by (simp add: pdata_def packet_wf_def)
  have len: "length ?f = hsize + unat (plen p)"
    using h data by (simp add: pframe_prepend [OF p(1)])
  have fits: "DATA_OFFSET - hsize + length ?f \<le> length (bytes q)"
    using p hsize_le q len by (simp add: packet_wf_def)
  have lr: "length (bytes r) = PACKET_BYTES" "frame_begin r = DATA_OFFSET - hsize"
    using fits q by (simp_all add: r_def load_frame_def)
  have "hsize + unat (plen p) < 2 ^ 16" using hsize_le p(1) by (simp add: packet_wf_def)
  then have fl: "unat (frame_length r) = hsize + unat (plen p)" and
    fl': "frame_length r - of_nat hsize = plen p"
    by (simp_all add: r_def load_frame_def len del: of_nat_add) simp
  have hd: "take hsize (List.drop (DATA_OFFSET - hsize) (bytes r)) =
      take hsize (List.drop (DATA_OFFSET - hsize) (bytes (prepend p)))"
    using fits q h by (simp add: r_def load_frame_def mem_put_def pframe_prepend [OF p(1)])
  have dr: "take (unat (plen p)) (List.drop DATA_OFFSET (bytes r)) = pdata p"
  proof -
    have "List.drop DATA_OFFSET (bytes r) =
        List.drop hsize (List.drop (DATA_OFFSET - hsize) (bytes r))" using hsize_le by simp
    also have "List.drop (DATA_OFFSET - hsize) (bytes r) =
        ?f @ List.drop (DATA_OFFSET - hsize + length ?f) (bytes q)"
      using fits by (simp add: r_def load_frame_def mem_put_def)
    finally show ?thesis using h data by (simp add: pframe_prepend [OF p(1)])
  qed
  have "strip r = Some (0, r\<lparr>plen := frame_length r - of_nat hsize, pid := pid p\<rparr>)"
    by (rule strip_frame [OF p lr hd]) (simp add: fl)
  then show ?thesis using p(1) lr dr by (auto simp: fl' pdata_def packet_wf_def)
qed

end

interpretation id1: header_codec csp_id1_prepend csp_id1_strip id1_fits CSP_ID1_HEADER_SIZE
proof (unfold_locales, goal_cases)
  case 1
  show ?case by simp
next
  case (2 p)
  show ?case
    by (rule exI [of _ "word_to_le 4 (htobe32 (csp_id1_pack (pid p)))"])
      (simp add: csp_id1_prepend_def Let_def)
next
  case (3 p)
  then show ?case by (simp add: csp_id1_strip_def)
next
  case (4 p q)
  let ?w = "word_to_le 4 (htobe32 (csp_id1_pack (pid p)))"
  have "take 4 (List.drop 4 (bytes (csp_id1_prepend p))) = ?w"
    using 4(1) by (simp add: csp_id1_prepend_def mem_put_def Let_def packet_wf_def)
  then have "mem_read 4 4 (bytes q) = Some ?w"
    using 4 by (simp add: mem_read_def)
  then show ?case using 4 by (simp add: csp_id1_strip_def id1_unpack_pack)
qed

interpretation id2: header_codec csp_id2_prepend csp_id2_strip id2_fits CSP_ID2_HEADER_SIZE
proof (unfold_locales, goal_cases)
  case 1
  show ?case by simp
next
  case (2 p)
  show ?case
    by (rule exI [of _ "word_to_le 6 (htobe64 (push_bit 16 (csp_id2_pack (pid p))))"])
      (simp add: csp_id2_prepend_def Let_def)
next
  case (3 p)
  then show ?case by (simp add: csp_id2_strip_def)
next
  case (4 p q)
  let ?w = "word_to_le 6 (htobe64 (push_bit 16 (csp_id2_pack (pid p))))"
  have "take 6 (List.drop 2 (bytes (csp_id2_prepend p))) = ?w"
    using 4(1) by (simp add: csp_id2_prepend_def mem_put_def Let_def packet_wf_def)
  then have "mem_read 2 6 (bytes q) = Some ?w"
    using 4 by (simp add: mem_read_def)
  moreover note id2_parse [of "csp_id2_pack (pid p)"] id2_unpack_pack [OF 4(2)]
  ultimately show ?case using 4 by (simp add: csp_id2_strip_def)
qed

section \<open>Properties\<close>

text \<open>The identifiers that fit the header of the configured version, and the header's size.\<close>

definition id_fits :: "csp_conf_t \<Rightarrow> csp_id_t \<Rightarrow> bool" where
  "id_fits conf i \<longleftrightarrow> (if version conf = 2 then id2_fits i else id1_fits i)"

definition id_header_size :: "csp_conf_t \<Rightarrow> nat" where
  "id_header_size conf = (if version conf = 2 then CSP_ID2_HEADER_SIZE else CSP_ID1_HEADER_SIZE)"

lemma csp_id_setup_rx_eq:
  "csp_id_setup_rx conf p =
     (id_header_size conf, p\<lparr>frame_begin := DATA_OFFSET - id_header_size conf, frame_length := 0\<rparr>)"
  by (simp add: csp_id_setup_rx_def id_header_size_def csp_id1_setup_rx_def csp_id2_setup_rx_def)

interpretation id: header_codec "csp_id_prepend conf" "csp_id_strip conf" "id_fits conf" "id_header_size conf"
  for conf
proof (cases "version conf = 2")
  case True
  then have "csp_id_prepend conf = csp_id2_prepend" "csp_id_strip conf = csp_id2_strip"
    "id_fits conf = id2_fits" "id_header_size conf = CSP_ID2_HEADER_SIZE"
    by (auto simp: csp_id_prepend_def csp_id_strip_def id_fits_def id_header_size_def fun_eq_iff)
  then show "header_codec (csp_id_prepend conf) (csp_id_strip conf) (id_fits conf) (id_header_size conf)"
    by (simp only: id2.header_codec_axioms)
next
  case False
  then have "csp_id_prepend conf = csp_id1_prepend" "csp_id_strip conf = csp_id1_strip"
    "id_fits conf = id1_fits" "id_header_size conf = CSP_ID1_HEADER_SIZE"
    by (auto simp: csp_id_prepend_def csp_id_strip_def id_fits_def id_header_size_def fun_eq_iff)
  then show "header_codec (csp_id_prepend conf) (csp_id_strip conf) (id_fits conf) (id_header_size conf)"
    by (simp only: id1.header_codec_axioms)
qed

text \<open>C13: For both header versions: the frame that \<^verbatim>\<open>csp_id_prepend\<close> builds, received into any other
  packet prepared by \<^verbatim>\<open>csp_id_setup_rx\<close>, is parsed by \<^verbatim>\<open>csp_id_strip\<close> into the same
  identifier, length and data.\<close>

theorem csp_id_roundtrip:
  assumes "packet_wf p" "id_fits conf (pid p)" "length (bytes q) = PACKET_BYTES"
  shows "\<exists>r. csp_id_strip conf
      (load_frame (fst (csp_id_setup_rx conf q)) (pframe (csp_id_prepend conf p)) q) = Some (0, r) \<and>
    pid r = pid p \<and> plen r = plen p \<and> pdata r = pdata p \<and> packet_wf r"
  using id.receive_transmitted [of p conf q] assms by (simp add: csp_id_setup_rx_eq)

theorem csp_id_roundtrip_witness:
  "let p = zero_packet\<lparr>plen := 3, pid := \<lparr>pri = 2, flags = 1, src = 1000, dst = 77, dport = 10, sport = 40\<rparr>\<rparr>;
       conf = zero_conf\<lparr>version := 2\<rparr>
   in \<exists>r. csp_id_strip conf (load_frame 6 (pframe (csp_id_prepend conf p)) zero_packet) = Some (0, r) \<and>
        src (pid r) = 1000 \<and> plen r = 3"
proof -
  let ?p = "zero_packet\<lparr>plen := 3, pid := \<lparr>pri = 2, flags = 1, src = 1000, dst = 77, dport = 10, sport = 40\<rparr>\<rparr>"
  let ?c = "zero_conf\<lparr>version := 2\<rparr>"
  have "packet_wf ?p" "id_fits ?c (pid ?p)" "length (bytes zero_packet) = PACKET_BYTES"
    by (simp_all add: packet_wf_def zero_packet_def zero_conf_def id_fits_def id2_fits_def)
  from csp_id_roundtrip [OF this] show ?thesis
    by (auto simp: csp_id_setup_rx_eq id_header_size_def zero_conf_def)
qed

lemma and_mask_all_ones:
  assumes "n \<le> LENGTH('a)"
  shows "w AND Bit_Operations.mask n = Bit_Operations.mask n \<longleftrightarrow> (\<forall>i < n. bit (w :: 'a::len word) i)"
proof -
  have "w AND Bit_Operations.mask n = Bit_Operations.mask n \<longleftrightarrow>
      (\<forall>i. i < LENGTH('a) \<longrightarrow> i < n \<longrightarrow> bit w i)"
    by (auto simp: bit_eq_iff bit_simps)
  then show ?thesis using assms by (metis order_less_le_trans)
qed

lemma shift_one_hostmask:
  fixes netmask :: u16
  assumes "unat netmask \<le> unat (csp_id_get_host_bits conf)"
  shows "\<exists>one. shift_one (csp_id_get_host_bits conf - ucast netmask) = Some one \<and>
    (ucast (one - 1) :: u16) = Bit_Operations.mask (unat (csp_id_get_host_bits conf) - unat netmask)"
proof -
  let ?b = "csp_id_get_host_bits conf" and ?n = "unat (csp_id_get_host_bits conf) - unat netmask"
  have b: "unat ?b \<le> 14" by (simp add: csp_id_get_host_bits_def)
  have "(ucast netmask :: u32) \<le> ?b" using assms by (simp add: word_le_nat_alt)
  then have u: "unat (?b - ucast netmask) = ?n" by (simp add: unat_sub)
  moreover have "?b - ucast netmask < 31" using u b by (simp add: word_less_nat_alt)
  moreover have "(ucast (push_bit ?n 1 - 1 :: u32) :: u16) = Bit_Operations.mask ?n"
    by (rule bit_word_eqI) (auto simp: bit_simps simp flip: mask_eq_exp_minus_1 push_bit_eq_mult)
  ultimately show ?thesis by (simp add: shift_one_def)
qed

text \<open>An address is a broadcast address of a subnet exactly when its host part (the bits below
  the netmask) is all ones.\<close>

theorem csp_id_is_broadcast_iff:
  assumes "unat netmask \<le> unat (csp_id_get_host_bits conf)"
  shows "csp_id_is_broadcast conf addr netmask =
    Some (\<forall>i < unat (csp_id_get_host_bits conf) - unat netmask. bit addr i)"
proof -
  have "unat (csp_id_get_host_bits conf) - unat netmask \<le> LENGTH(16)"
    by (rule le_trans [OF diff_le_self]) (simp add: csp_id_get_host_bits_def)
  from and_mask_all_ones [OF this, of addr] shift_one_hostmask [OF assms] show ?thesis
    by (auto simp: csp_id_is_broadcast_def)
qed

theorem csp_id_is_broadcast_iff_witness:
  "csp_id_is_broadcast (zero_conf\<lparr>version := 2\<rparr>) 7 11 = Some True \<and>
   csp_id_is_broadcast (zero_conf\<lparr>version := 2\<rparr>) 6 11 = Some False"
proof -
  let ?c = "zero_conf\<lparr>version := 2\<rparr>"
  have b: "csp_id_get_host_bits ?c = 14" by (simp add: csp_id_get_host_bits_def)
  have "\<forall>i < 3. bit (7 :: u16) i" "\<not> (\<forall>i < 3. bit (6 :: u16) i)"
    by (auto simp: less_Suc_eq numeral_3_eq_3 bit_numeral_rec)
  with csp_id_is_broadcast_iff [of 11 ?c 7] csp_id_is_broadcast_iff [of 11 ?c 6] b
  show ?thesis by simp
qed

end
