(* ===== verification/Csp_Crc32.thy ===== *)
theory Csp_Crc32
  imports Csp_Id
begin

text \<open>
  The CRC-32C checksum of packets (\<^verbatim>\<open>src/csp_crc32.c\<close>): the table-driven computation, its
  equivalence with the bit-serial definition of the polynomial, the errors it detects, and
  the append and verify operations. The locale \<open>packet_trailer\<close> is the contract of a
  check value appended to the data of a packet; \<open>crc\<close> interprets it here and \<open>hmac\<close>
  in theory \<open>Csp_Hmac\<close>.
\<close>

section \<open>Model\<close>

definition crc_tab :: "u32 list" where
  "crc_tab = [
    0x00000000, 0xF26B8303, 0xE13B70F7, 0x1350F3F4, 0xC79A971F, 0x35F1141C, 0x26A1E7E8, 0xD4CA64EB,
    0x8AD958CF, 0x78B2DBCC, 0x6BE22838, 0x9989AB3B, 0x4D43CFD0, 0xBF284CD3, 0xAC78BF27, 0x5E133C24,
    0x105EC76F, 0xE235446C, 0xF165B798, 0x030E349B, 0xD7C45070, 0x25AFD373, 0x36FF2087, 0xC494A384,
    0x9A879FA0, 0x68EC1CA3, 0x7BBCEF57, 0x89D76C54, 0x5D1D08BF, 0xAF768BBC, 0xBC267848, 0x4E4DFB4B,
    0x20BD8EDE, 0xD2D60DDD, 0xC186FE29, 0x33ED7D2A, 0xE72719C1, 0x154C9AC2, 0x061C6936, 0xF477EA35,
    0xAA64D611, 0x580F5512, 0x4B5FA6E6, 0xB93425E5, 0x6DFE410E, 0x9F95C20D, 0x8CC531F9, 0x7EAEB2FA,
    0x30E349B1, 0xC288CAB2, 0xD1D83946, 0x23B3BA45, 0xF779DEAE, 0x05125DAD, 0x1642AE59, 0xE4292D5A,
    0xBA3A117E, 0x4851927D, 0x5B016189, 0xA96AE28A, 0x7DA08661, 0x8FCB0562, 0x9C9BF696, 0x6EF07595,
    0x417B1DBC, 0xB3109EBF, 0xA0406D4B, 0x522BEE48, 0x86E18AA3, 0x748A09A0, 0x67DAFA54, 0x95B17957,
    0xCBA24573, 0x39C9C670, 0x2A993584, 0xD8F2B687, 0x0C38D26C, 0xFE53516F, 0xED03A29B, 0x1F682198,
    0x5125DAD3, 0xA34E59D0, 0xB01EAA24, 0x42752927, 0x96BF4DCC, 0x64D4CECF, 0x77843D3B, 0x85EFBE38,
    0xDBFC821C, 0x2997011F, 0x3AC7F2EB, 0xC8AC71E8, 0x1C661503, 0xEE0D9600, 0xFD5D65F4, 0x0F36E6F7,
    0x61C69362, 0x93AD1061, 0x80FDE395, 0x72966096, 0xA65C047D, 0x5437877E, 0x4767748A, 0xB50CF789,
    0xEB1FCBAD, 0x197448AE, 0x0A24BB5A, 0xF84F3859, 0x2C855CB2, 0xDEEEDFB1, 0xCDBE2C45, 0x3FD5AF46,
    0x7198540D, 0x83F3D70E, 0x90A324FA, 0x62C8A7F9, 0xB602C312, 0x44694011, 0x5739B3E5, 0xA55230E6,
    0xFB410CC2, 0x092A8FC1, 0x1A7A7C35, 0xE811FF36, 0x3CDB9BDD, 0xCEB018DE, 0xDDE0EB2A, 0x2F8B6829,
    0x82F63B78, 0x709DB87B, 0x63CD4B8F, 0x91A6C88C, 0x456CAC67, 0xB7072F64, 0xA457DC90, 0x563C5F93,
    0x082F63B7, 0xFA44E0B4, 0xE9141340, 0x1B7F9043, 0xCFB5F4A8, 0x3DDE77AB, 0x2E8E845F, 0xDCE5075C,
    0x92A8FC17, 0x60C37F14, 0x73938CE0, 0x81F80FE3, 0x55326B08, 0xA759E80B, 0xB4091BFF, 0x466298FC,
    0x1871A4D8, 0xEA1A27DB, 0xF94AD42F, 0x0B21572C, 0xDFEB33C7, 0x2D80B0C4, 0x3ED04330, 0xCCBBC033,
    0xA24BB5A6, 0x502036A5, 0x4370C551, 0xB11B4652, 0x65D122B9, 0x97BAA1BA, 0x84EA524E, 0x7681D14D,
    0x2892ED69, 0xDAF96E6A, 0xC9A99D9E, 0x3BC21E9D, 0xEF087A76, 0x1D63F975, 0x0E330A81, 0xFC588982,
    0xB21572C9, 0x407EF1CA, 0x532E023E, 0xA145813D, 0x758FE5D6, 0x87E466D5, 0x94B49521, 0x66DF1622,
    0x38CC2A06, 0xCAA7A905, 0xD9F75AF1, 0x2B9CD9F2, 0xFF56BD19, 0x0D3D3E1A, 0x1E6DCDEE, 0xEC064EED,
    0xC38D26C4, 0x31E6A5C7, 0x22B65633, 0xD0DDD530, 0x0417B1DB, 0xF67C32D8, 0xE52CC12C, 0x1747422F,
    0x49547E0B, 0xBB3FFD08, 0xA86F0EFC, 0x5A048DFF, 0x8ECEE914, 0x7CA56A17, 0x6FF599E3, 0x9D9E1AE0,
    0xD3D3E1AB, 0x21B862A8, 0x32E8915C, 0xC083125F, 0x144976B4, 0xE622F5B7, 0xF5720643, 0x07198540,
    0x590AB964, 0xAB613A67, 0xB831C993, 0x4A5A4A90, 0x9E902E7B, 0x6CFBAD78, 0x7FAB5E8C, 0x8DC0DD8F,
    0xE330A81A, 0x115B2B19, 0x020BD8ED, 0xF0605BEE, 0x24AA3F05, 0xD6C1BC06, 0xC5914FF2, 0x37FACCF1,
    0x69E9F0D5, 0x9B8273D6, 0x88D28022, 0x7AB90321, 0xAE7367CA, 0x5C18E4C9, 0x4F48173D, 0xBD23943E,
    0xF36E6F75, 0x0105EC76, 0x12551F82, 0xE03E9C81, 0x34F4F86A, 0xC69F7B69, 0xD5CF889D, 0x27A40B9E,
    0x79B737BA, 0x8BDCB4B9, 0x988C474D, 0x6AE7C44E, 0xBE2DA0A5, 0x4C4623A6, 0x5F16D052, 0xAD7D5351]"

text \<open>One step of the loop, and the loop over the bytes of a memory area.\<close>

definition crc_step :: "u32 \<Rightarrow> u8 \<Rightarrow> u32" where
  "crc_step crc b = crc_tab ! unat ((crc XOR ucast b) AND 0xFF) XOR drop_bit 8 crc"

definition csp_crc32_memory :: "u8 list \<Rightarrow> u32" where
  "csp_crc32_memory bs = foldl crc_step 0xFFFFFFFF bs XOR 0xFFFFFFFF"

text \<open>
  \<open>csp_21\<close> is the compile-time switch \<^verbatim>\<open>CSP_21\<close>, which is not defined in the
  library's build.
\<close>

definition csp_crc32_append :: "bool \<Rightarrow> csp_conf_t \<Rightarrow> csp_packet_t \<Rightarrow> (int, csp_packet_t) outcome" where
  "csp_crc32_append csp_21 conf packet =
     (if unat (plen packet) + 4 > CSP_BUFFER_SIZE then Some (CSP_ERR_NOMEM, packet)
      else do {
        let packet = (if csp_21 then csp_id_prepend conf packet else packet);
        bs \<leftarrow> (if csp_21 then mem_read (frame_begin packet) (unat (frame_length packet)) (bytes packet)
              else data_read 0 (unat (plen packet)) packet);
        let crc = htobe32 (csp_crc32_memory bs);
        packet \<leftarrow> data_write (unat (plen packet)) (word_to_le 4 crc) packet;
        Some (CSP_ERR_NONE, packet\<lparr>plen := plen packet + 4\<rparr>)
      })"

definition csp_crc32_verify :: "csp_conf_t \<Rightarrow> csp_packet_t \<Rightarrow> (int, csp_packet_t) outcome" where
  "csp_crc32_verify conf packet =
     (if unat (plen packet) < 4 then Some (CSP_ERR_CRC32, packet)
      else do {
        let packet = csp_id_prepend conf packet;
        fr \<leftarrow> mem_read (frame_begin packet) (unat (frame_length packet)) (bytes packet);
        let crc = htobe32 (csp_crc32_memory fr);
        stored \<leftarrow> data_read (unat (plen packet) - 4) 4 packet;
        (if stored \<noteq> word_to_le 4 crc
         then do {
           bs \<leftarrow> data_read 0 (unat (plen packet) - 4) packet;
           let crc = htobe32 (csp_crc32_memory bs);
           (if stored \<noteq> word_to_le 4 crc then Some (CSP_ERR_CRC32, packet)
            else Some (CSP_ERR_NONE, packet\<lparr>plen := plen packet - 4\<rparr>))
         }
         else Some (CSP_ERR_NONE, packet\<lparr>plen := plen packet - 4\<rparr>))
      })"

section \<open>The table is the polynomial\<close>

text \<open>
  The reference: the reflected Castagnoli polynomial, one bit at a time.
\<close>

definition crc_bit :: "u32 \<Rightarrow> u32" where
  "crc_bit c = (if bit c 0 then drop_bit 1 c XOR 0x82F63B78 else drop_bit 1 c)"

definition crc_ref_step :: "u32 \<Rightarrow> u8 \<Rightarrow> u32" where
  "crc_ref_step c b = (crc_bit ^^ 8) (c XOR ucast b)"

definition crc32c_ref :: "u8 list \<Rightarrow> u32" where
  "crc32c_ref bs = foldl crc_ref_step 0xFFFFFFFF bs XOR 0xFFFFFFFF"

lemma crc_bit_xor: "crc_bit (x XOR y) = crc_bit x XOR crc_bit y"
  by (rule bit_word_eqI) (auto simp: crc_bit_def bit_simps)

lemma crc_bits_xor: "(crc_bit ^^ n) (x XOR y) = (crc_bit ^^ n) x XOR (crc_bit ^^ n) y"
  by (induction n) (simp_all add: crc_bit_xor)

text \<open>Bits that only move down do not meet the polynomial.\<close>

lemma crc_bits_shift:
  "n \<le> 32 \<Longrightarrow> take_bit n x = 0 \<Longrightarrow> (crc_bit ^^ n) x = drop_bit n x"
proof (induction n)
  case 0
  then show ?case by simp
next
  case (Suc n)
  have low: "\<not> bit x k" if "k < Suc n" for k
    using Suc.prems(2) that by (metis bit_take_bit_iff bit_0_eq bot_apply bot_bool_def)
  then have "take_bit n x = 0" by (intro bit_word_eqI) (auto simp: bit_simps)
  with Suc have IH: "(crc_bit ^^ n) x = drop_bit n x" by simp
  have "\<not> bit (drop_bit n x) 0" using low by (simp add: bit_simps)
  then have "crc_bit (drop_bit n x) = drop_bit (Suc n) x"
    by (simp add: crc_bit_def drop_bit_drop_bit)
  then show ?case by (simp add: IH)
qed

text \<open>
  The table is determined by its entries for single bits: each of its halves is the
  other one with the entry of the top bit added.
\<close>

definition crc_byte :: "nat \<Rightarrow> u32" where
  "crc_byte i = (crc_bit ^^ 8) (of_nat i)"

lemma crc_byte_double:
  assumes "k < 32"
  shows "map crc_byte [0..<2 ^ Suc k] =
    map crc_byte [0..<2 ^ k] @ map (\<lambda>x. crc_byte (2 ^ k) XOR x) (map crc_byte [0..<2 ^ k])"
proof -
  have "crc_byte (2 ^ k + i) = crc_byte (2 ^ k) XOR crc_byte i" if "i < 2 ^ k" for i
  proof -
    have "\<not> bit i k" using that by (simp add: bit_iff_odd)
    then have "\<not> bit (of_nat i :: u32) k" by (simp add: bit_simps)
    then have "(2 ^ k :: u32) + of_nat i = 2 ^ k XOR of_nat i"
      by (intro disjunctive_add_eq_xor bit_word_eqI) (auto simp: bit_simps)
    then show ?thesis by (simp add: crc_byte_def crc_bits_xor)
  qed
  moreover have "[0..<2 ^ Suc k] = [0..<2 ^ k] @ map (\<lambda>i. 2 ^ k + i) [0..<2 ^ k]"
    using upt_add_eq_append [of 0 "2 ^ k" "2 ^ k"] map_add_upt [of "2 ^ k" "2 ^ k"]
    by (simp add: mult_2 add.commute)
  ultimately show ?thesis by (simp add: comp_def)
qed

lemma funpow_8: "(f ^^ 8) x = f (f (f (f (f (f (f (f x)))))))"
  by (simp add: eval_nat_numeral)

lemma crc_byte_powers:
  "crc_byte 0 = 0" "crc_byte (Suc 0) = 0xF26B8303" "crc_byte 2 = 0xE13B70F7" "crc_byte 4 = 0xC79A971F"
  "crc_byte 8 = 0x8AD958CF" "crc_byte 16 = 0x105EC76F" "crc_byte 32 = 0x20BD8EDE"
  "crc_byte 64 = 0x417B1DBC" "crc_byte 128 = 0x82F63B78"
  by (simp_all add: crc_byte_def funpow_8 crc_bit_def)

fun xor_double :: "u32 list \<Rightarrow> u32 list \<Rightarrow> u32 list" where
  "xor_double ts [] = ts"
| "xor_double ts (b # bs) = xor_double (ts @ map (\<lambda>x. b XOR x) ts) bs"

lemma crc_byte_upto:
  "k + n \<le> 32 \<Longrightarrow>
     map crc_byte [0..<2 ^ (k + n)] =
       xor_double (map crc_byte [0..<2 ^ k]) (map (\<lambda>j. crc_byte (2 ^ j)) [k..<k + n])"
proof (induction n arbitrary: k)
  case 0
  then show ?case by simp
next
  case (Suc n)
  have "[k..<k + Suc n] = k # [Suc k..<Suc k + n]" by (simp add: upt_conv_Cons)
  with Suc.IH [of "Suc k"] Suc.prems show ?case
    by (simp add: crc_byte_double [of k] del: power_Suc map_map)
qed

lemma crc_tab_byte: "crc_tab = map crc_byte [0..<256]"
  using crc_byte_upto [of 0 8]
  by (simp add: upt_rec [of _ 8] crc_byte_powers crc_tab_def)

text \<open>A table step is eight steps of the polynomial.\<close>

lemma crc_step_ref: "crc_step c b = crc_ref_step c b"
proof -
  let ?x = "c XOR ucast b" and ?lo = "(c XOR ucast b) AND 0xFF"
  have m: "(0xFF :: u32) = Bit_Operations.mask 8" by (simp add: mask_numeral)
  have lt: "unat ?lo < 256"
    using and_mask_less' [of 8 "c XOR ucast b"] by (simp add: m word_less_nat_alt)
  have hi: "take_bit 8 (?x XOR ?lo) = 0"
    unfolding m by (rule bit_word_eqI) (auto simp: bit_simps)
  have dr: "drop_bit 8 (?x XOR ?lo) = drop_bit 8 c"
    unfolding m by (rule bit_word_eqI) (auto simp: bit_simps dest: bit_imp_le_length)
  have "crc_ref_step c b = (crc_bit ^^ 8) (?lo XOR (?x XOR ?lo))"
    by (simp only: crc_ref_step_def xor_xor_cancel)
  also have "\<dots> = (crc_bit ^^ 8) ?lo XOR drop_bit 8 c"
    using crc_bits_shift [OF _ hi] dr by (simp add: crc_bits_xor)
  also have "(crc_bit ^^ 8) ?lo = crc_tab ! unat ?lo"
    using lt by (simp add: crc_tab_byte crc_byte_def)
  finally show ?thesis by (simp add: crc_step_def)
qed

lemma csp_crc32_memory_ref: "csp_crc32_memory = crc32c_ref"
  by (rule ext) (simp add: csp_crc32_memory_def crc32c_ref_def crc_step_ref [abs_def])

section \<open>Errors the checksum detects\<close>

text \<open>The polynomial step loses no information: its constant term is the top bit.\<close>

lemma crc_bit_inj: "crc_bit x = crc_bit y \<Longrightarrow> x = y"
proof -
  assume e: "crc_bit x = crc_bit y"
  have top: "bit (crc_bit z) 31 \<longleftrightarrow> bit z 0" for z
    by (auto simp: crc_bit_def bit_simps dest: bit_imp_le_length)
  with e have z: "bit x 0 \<longleftrightarrow> bit y 0" by metis
  with e have "drop_bit 1 x = drop_bit 1 y" by (auto simp: crc_bit_def split: if_splits)
  then have "bit x (Suc n) \<longleftrightarrow> bit y (Suc n)" for n by (metis bit_drop_bit_eq comp_apply plus_1_eq_Suc)
  with z show "x = y" by (intro bit_word_eqI) (metis not0_implies_Suc)
qed

lemma crc_bits_inj: "(crc_bit ^^ n) x = (crc_bit ^^ n) y \<Longrightarrow> x = y"
  by (induction n) (auto dest: crc_bit_inj)

lemma crc_ref_step_inj: "crc_ref_step c b = crc_ref_step d b \<Longrightarrow> c = d"
  by (auto simp: crc_ref_step_def dest!: crc_bits_inj)

lemma crc_foldl_inj: "foldl crc_ref_step c bs = foldl crc_ref_step d bs \<Longrightarrow> c = d"
  by (induction bs arbitrary: c d) (auto dest: crc_ref_step_inj)

text \<open>Up to four bytes are absorbed as one word.\<close>

lemma crc_absorb:
  "length bs \<le> 4 \<Longrightarrow>
     foldl crc_ref_step c bs = (crc_bit ^^ (8 * length bs)) (c XOR le_to_word bs)"
proof (induction bs arbitrary: c)
  case Nil
  then show ?case by simp
next
  case (Cons b bs)
  let ?w = "le_to_word bs :: u32"
  have room: "bit ?w n \<Longrightarrow> n < 24" for n
    using Cons.prems by (auto simp: bit_le_to_word)
  have "take_bit 8 (push_bit 8 ?w) = 0" by (rule bit_word_eqI) (auto simp: bit_simps)
  then have "(crc_bit ^^ 8) (push_bit 8 ?w) = drop_bit 8 (push_bit 8 ?w)"
    by (intro crc_bits_shift) simp_all
  also have "\<dots> = ?w" by (rule bit_word_eqI) (auto simp: bit_simps dest: room)
  finally have shift: "(crc_bit ^^ 8) (push_bit 8 ?w) = ?w" .
  have disj: "(ucast b OR push_bit 8 ?w :: u32) = ucast b XOR push_bit 8 ?w"
    by (rule bit_word_eqI) (auto simp: bit_simps dest: bit_imp_le_length)
  have len: "8 * length (b # bs) = 8 * length bs + 8" by simp
  have "foldl crc_ref_step c (b # bs) =
      (crc_bit ^^ (8 * length bs)) ((crc_bit ^^ 8) (c XOR ucast b) XOR ?w)"
    using Cons by (simp add: crc_ref_step_def [of c b])
  also have "\<dots> = (crc_bit ^^ (8 * length bs)) ((crc_bit ^^ 8) (c XOR (ucast b XOR push_bit 8 ?w)))"
    using shift by (simp add: crc_bits_xor xor.assoc)
  also have "\<dots> = (crc_bit ^^ (8 * length (b # bs))) (c XOR le_to_word (b # bs))"
    by (simp only: disj le_to_word.simps funpow_add comp_apply len)
  finally show ?case .
qed

lemma le_to_word_inj:
  "length as = length bs \<Longrightarrow> 8 * length bs \<le> LENGTH('a) \<Longrightarrow>
     (le_to_word as :: 'a::len word) = le_to_word bs \<Longrightarrow> as = bs"
  by (metis word_to_le_to_word)

lemma crc_burst:
  assumes "length as = length bs" "length bs \<le> 4" "as \<noteq> bs"
  shows "crc32c_ref (xs @ as @ ys) \<noteq> crc32c_ref (xs @ bs @ ys)"
proof
  let ?c = "foldl crc_ref_step 0xFFFFFFFF xs"
  assume "crc32c_ref (xs @ as @ ys) = crc32c_ref (xs @ bs @ ys)"
  then have "foldl crc_ref_step (foldl crc_ref_step ?c as) ys =
      foldl crc_ref_step (foldl crc_ref_step ?c bs) ys"
    by (simp add: crc32c_ref_def)
  then have "foldl crc_ref_step ?c as = foldl crc_ref_step ?c bs" by (rule crc_foldl_inj)
  then have "?c XOR le_to_word as = ?c XOR le_to_word bs"
    using assms by (auto simp: crc_absorb dest: crc_bits_inj)
  then have "(le_to_word as :: u32) = le_to_word bs" by simp
  with le_to_word_inj [of as bs, where 'a = 32] assms show False by simp
qed

section \<open>The contract of a check value behind the data\<close>

text \<open>
  \<open>app\<close> computes a check value of \<open>n\<close> bytes over the data and stores it behind the data;
  \<open>ver\<close> compares and removes it.
\<close>

locale packet_trailer =
  fixes app :: "csp_packet_t \<Rightarrow> (int, csp_packet_t) outcome"
    and ver :: "csp_packet_t \<Rightarrow> (int, csp_packet_t) outcome"
    and tag :: "u8 list \<Rightarrow> u8 list"
    and n :: nat
  assumes app_full: "unat (plen p) + n > CSP_BUFFER_SIZE \<Longrightarrow> app p = Some (CSP_ERR_NOMEM, p)"
    and app_room: "packet_wf p \<Longrightarrow> unat (plen p) + n \<le> CSP_BUFFER_SIZE \<Longrightarrow>
      \<exists>p'. app p = Some (CSP_ERR_NONE, p') \<and> packet_wf p' \<and> pid p' = pid p \<and>
        pdata p' = pdata p @ tag (pdata p)"
    and ver_good: "packet_wf p \<Longrightarrow> pdata p = d @ tag d \<Longrightarrow>
      \<exists>p'. ver p = Some (CSP_ERR_NONE, p') \<and> packet_wf p' \<and> pid p' = pid p \<and> pdata p' = d"
    and ver_returns: "packet_wf p \<Longrightarrow>
      \<exists>r p'. ver p = Some (r, p') \<and> packet_wf p' \<and> pid p' = pid p \<and>
        (r \<noteq> CSP_ERR_NONE \<longrightarrow> r < 0 \<and> pdata p' = pdata p)"
    and length_tag: "length (tag d) = n"
begin

lemma ver_app:
  assumes "packet_wf p" "unat (plen p) + n \<le> CSP_BUFFER_SIZE"
  shows "\<exists>p1 p2. app p = Some (CSP_ERR_NONE, p1) \<and> ver p1 = Some (CSP_ERR_NONE, p2) \<and>
    packet_wf p2 \<and> pid p2 = pid p \<and> pdata p2 = pdata p"
proof -
  from app_room [OF assms] obtain p1 where p1: "app p = Some (CSP_ERR_NONE, p1)" "packet_wf p1"
    "pid p1 = pid p" "pdata p1 = pdata p @ tag (pdata p)" by blast
  from ver_good [OF p1(2,4)] p1 show ?thesis by auto
qed

lemma app_returns: "packet_wf p \<Longrightarrow> \<exists>r p'. app p = Some (r, p') \<and> packet_wf p' \<and> pid p' = pid p"
  using app_full [of p] app_room [of p] by (cases "unat (plen p) + n > CSP_BUFFER_SIZE") auto

end

text \<open>Storing a check value behind the data of a packet.\<close>

lemma length_pdata: "packet_wf p \<Longrightarrow> length (pdata p) = unat (plen p)"
  by (simp add: pdata_def packet_wf_def)

lemma data_read_pdata: "packet_wf p \<Longrightarrow> data_read 0 (unat (plen p)) p = Some (pdata p)"
  by (simp add: data_read_def mem_read_def pdata_def packet_wf_def)

lemma data_write_trailer:
  assumes "packet_wf p" "length t = n" "unat (plen p) + n \<le> CSP_BUFFER_SIZE"
  shows "\<exists>p'. data_write (unat (plen p)) t p = Some p' \<and> packet_wf (p'\<lparr>plen := plen p + of_nat n\<rparr>) \<and>
    pid p' = pid p \<and> plen p' = plen p \<and> pdata (p'\<lparr>plen := plen p + of_nat n\<rparr>) = pdata p @ t"
proof -
  have n: "unat (plen p + of_nat n) = unat (plen p) + n"
    using assms by (simp add: unat_word_ariths unat_of_nat)
  have a: "DATA_OFFSET + unat (plen p) + length t \<le> length (bytes p)"
    using assms by (simp add: packet_wf_def)
  let ?p = "p\<lparr>bytes := mem_put (DATA_OFFSET + unat (plen p)) t (bytes p)\<rparr>"
  have "data_write (unat (plen p)) t p = Some ?p"
    using a by (simp add: data_write_def mem_write_put)
  moreover have "pdata (?p\<lparr>plen := plen p + of_nat n\<rparr>) = pdata p @ t"
    using assms a by (simp add: pdata_def n mem_put_def drop_take)
  ultimately show ?thesis
    using assms a n by (auto simp: packet_wf_def)
qed

lemma csp_id_prepend_wf:
  assumes "packet_wf p"
  shows "packet_wf (csp_id_prepend conf p)" "pid (csp_id_prepend conf p) = pid p"
    "plen (csp_id_prepend conf p) = plen p" "pdata (csp_id_prepend conf p) = pdata p"
    "\<exists>fr. mem_read (frame_begin (csp_id_prepend conf p)) (unat (frame_length (csp_id_prepend conf p)))
       (bytes (csp_id_prepend conf p)) = Some fr"
  using id1.prepend_fields [OF assms] id2.prepend_fields [OF assms] id1.prepend_data [OF assms]
    id2.prepend_data [OF assms] id1.frame_length_nat [OF assms] id2.frame_length_nat [OF assms] assms
  by (auto simp: csp_id_prepend_def mem_read_def packet_wf_def)

lemma data_read_trailer:
  assumes "packet_wf p" "n \<le> unat (plen p)"
  shows "data_read (unat (plen p) - n) n p = Some (List.drop (unat (plen p) - n) (pdata p))"
    "data_read 0 (unat (plen p) - n) p = Some (take (unat (plen p) - n) (pdata p))"
proof -
  obtain m where m: "unat (plen p) = m + n" using assms(2) by (metis add.commute le_Suc_ex)
  have "length (bytes p) = 264" "m + n \<le> 256" using assms(1) m by (simp_all add: packet_wf_def)
  then show "data_read (unat (plen p) - n) n p = Some (List.drop (unat (plen p) - n) (pdata p))"
    "data_read 0 (unat (plen p) - n) p = Some (take (unat (plen p) - n) (pdata p))"
    by (simp_all add: data_read_def mem_read_def pdata_def m drop_take add.commute)
qed

lemma plen_shorten:
  assumes "packet_wf p" "n \<le> unat (plen p)"
  shows "packet_wf (p\<lparr>plen := plen p - of_nat n\<rparr>)"
    "pdata (p\<lparr>plen := plen p - of_nat n\<rparr>) = take (unat (plen p) - n) (pdata p)"
proof -
  have n: "n < 2 ^ 16" using assms by (simp add: packet_wf_def)
  then have "of_nat n \<le> plen p" using assms(2) by (simp add: word_le_nat_alt)
  then have u: "unat (plen p - of_nat n) = unat (plen p) - n"
    using n by (simp add: unat_sub)
  show "packet_wf (p\<lparr>plen := plen p - of_nat n\<rparr>)" using assms u by (auto simp: packet_wf_def)
  show "pdata (p\<lparr>plen := plen p - of_nat n\<rparr>) = take (unat (plen p) - n) (pdata p)"
    using u by (simp add: pdata_def min_def)
qed

text \<open>The check value of the data alone.\<close>

definition crc_tag :: "u8 list \<Rightarrow> u8 list" where
  "crc_tag d = word_to_le 4 (htobe32 (csp_crc32_memory d))"

lemma length_crc_tag [simp]: "length (crc_tag d) = 4"
  by (simp add: crc_tag_def)

lemma csp_crc32_append_room:
  assumes "packet_wf p" "unat (plen p) + 4 \<le> CSP_BUFFER_SIZE"
  shows "\<exists>p'. csp_crc32_append False conf p = Some (CSP_ERR_NONE, p') \<and> packet_wf p' \<and>
    pid p' = pid p \<and> pdata p' = pdata p @ crc_tag (pdata p)"
  using data_write_trailer [OF assms(1) length_crc_tag [of "pdata p"] assms(2)]
    data_read_pdata [OF assms(1)] assms
  by (auto simp: csp_crc32_append_def crc_tag_def Let_def)

lemma csp_crc32_verify_cases:
  assumes "packet_wf p" "4 \<le> unat (plen p)"
  defines "d \<equiv> take (unat (plen p) - 4) (pdata p)" and "t \<equiv> List.drop (unat (plen p) - 4) (pdata p)"
  shows "\<exists>p'. packet_wf p' \<and> pid p' = pid p \<and>
    (csp_crc32_verify conf p = Some (CSP_ERR_NONE, p') \<and> pdata p' = d \<or>
     csp_crc32_verify conf p = Some (CSP_ERR_CRC32, p') \<and> pdata p' = pdata p \<and> t \<noteq> crc_tag d)"
proof -
  let ?q = "csp_id_prepend conf p"
  note q = csp_id_prepend_wf [OF assms(1), of conf]
  have n: "4 \<le> unat (plen ?q)" using q(3) assms(2) by simp
  obtain fr where fr: "mem_read (frame_begin ?q) (unat (frame_length ?q)) (bytes ?q) = Some fr"
    using q(5) by blast
  have wf: "packet_wf (?q\<lparr>plen := plen p - 4\<rparr>)" "pdata (?q\<lparr>plen := plen p - 4\<rparr>) = d"
    using plen_shorten [OF q(1) n] q by (simp_all add: d_def)
  note rd = data_read_trailer [OF q(1) n, unfolded q(3,4), folded d_def t_def]
  show ?thesis
    using assms(2) fr rd q wf
    by (auto simp: csp_crc32_verify_def Let_def crc_tag_def intro: exI [of _ ?q]
        exI [of _ "?q\<lparr>plen := plen p - 4\<rparr>"])
qed

interpretation crc: packet_trailer "csp_crc32_append False conf" "csp_crc32_verify conf" crc_tag 4
  for conf
proof (unfold_locales, goal_cases)
  case (1 p)
  then show ?case by (simp add: csp_crc32_append_def)
next
  case (2 p)
  then show ?case using csp_crc32_append_room [of p conf] by simp
next
  case (3 p d)
  then have "unat (plen p) = length d + 4" using length_pdata [OF 3(1)] by simp
  with csp_crc32_verify_cases [OF 3(1), of conf] 3 show ?case by auto
next
  case (4 p)
  then show ?case using csp_crc32_verify_cases [of p conf]
    by (cases "unat (plen p) < 4") (auto simp: csp_crc32_verify_def)
next
  case (5 d)
  then show ?case by simp
qed

section \<open>Properties\<close>

text \<open>C16: The table-driven checksum is CRC-32C: the reflected polynomial 0x82F63B78 applied bit by bit,
  with initial value and final complement of all ones.\<close>

theorem csp_crc32_memory_is_crc32c: "csp_crc32_memory bs = crc32c_ref bs"
  by (simp add: csp_crc32_memory_ref)

text \<open>C31: Two byte sequences that differ only in a burst of at most four adjacent bytes never
  have the same checksum.\<close>

theorem csp_crc32_detects_burst:
  assumes "length as = length bs" "length bs \<le> 4" "as \<noteq> bs"
  shows "csp_crc32_memory (xs @ as @ ys) \<noteq> csp_crc32_memory (xs @ bs @ ys)"
  using crc_burst [OF assms] by (simp add: csp_crc32_memory_ref)

theorem csp_crc32_detects_burst_witness:
  "csp_crc32_memory ([1, 2] @ [3, 4, 5] @ [6]) \<noteq> csp_crc32_memory ([1, 2] @ [3, 0, 9] @ [6])"
  by (rule csp_crc32_detects_burst) simp_all

text \<open>A checksum appended to a packet with room for it is accepted by the receiver's check, which
  gives the packet back with its identifier and data unchanged; a packet without room is
  left as it is and reported.\<close>

theorem csp_crc32_append_verify:
  assumes "packet_wf p"
  shows "if unat (plen p) + 4 \<le> CSP_BUFFER_SIZE
    then \<exists>p1 p2. csp_crc32_append False conf p = Some (CSP_ERR_NONE, p1) \<and>
      csp_crc32_verify conf p1 = Some (CSP_ERR_NONE, p2) \<and>
      packet_wf p2 \<and> pid p2 = pid p \<and> pdata p2 = pdata p
    else csp_crc32_append False conf p = Some (CSP_ERR_NOMEM, p)"
  using crc.ver_app [OF assms, of conf] crc.app_full [of p conf] by auto

theorem csp_crc32_append_verify_witness:
  "\<exists>p1 p2. csp_crc32_append False zero_conf (zero_packet\<lparr>plen := 5\<rparr>) = Some (CSP_ERR_NONE, p1) \<and>
     csp_crc32_verify zero_conf p1 = Some (CSP_ERR_NONE, p2) \<and> pdata p2 = replicate 5 0"
proof -
  let ?p = "zero_packet\<lparr>plen := 5\<rparr>"
  have "packet_wf ?p" "pdata ?p = replicate 5 0"
    by (simp_all add: packet_wf_def zero_packet_def pdata_def)
  with csp_crc32_append_verify [of ?p zero_conf] show ?thesis by (auto simp: zero_packet_def)
qed

end
