(* ===== verification/Csp_Input.thy ===== *)
theory Csp_Input
  imports Csp_Own Csp_Crc32
begin

text \<open>
  What happens to a packet on its way into the router: the input queue (\<^verbatim>\<open>src/csp_qfifo.c\<close>), the
  promiscuous queue (\<^verbatim>\<open>src/csp_promisc.c\<close>), the detection of duplicates
  (\<^verbatim>\<open>src/csp_dedup.c\<close>) and the loopback interface (\<^verbatim>\<open>src/interfaces/csp_if_lo.c\<close>). The locale
  \<open>nexthop_contract\<close> is the contract of an interface's transmit function, interpreted
  on the loopback interface.
\<close>

section \<open>Model\<close>

definition csp_qfifo_init :: "node \<Rightarrow> unit csp" where
  "csp_qfifo_init s = do {
     q \<leftarrow> csp_queue_create_static CSP_QFIFO_LEN;
     Some ((), s\<lparr>qfifo_queue := q\<rparr>)
   }"

text \<open>The second component of the result is what was stored in the caller's variable.\<close>

definition csp_qfifo_read :: "node \<Rightarrow> (int \<times> csp_qfifo_t option) csp" where
  "csp_qfifo_read s = do {
     ((r, e), q) \<leftarrow> csp_queue_dequeue (qfifo_queue s) FIFO_TIMEOUT;
     let s = s\<lparr>qfifo_queue := q\<rparr>;
     Some (if r \<noteq> CSP_QUEUE_OK then (CSP_ERR_TIMEDOUT, e) else (CSP_ERR_NONE, e), s)
   }"

text \<open>\<open>isr\<close> is true when the caller passes a pointer in the last parameter.\<close>

definition csp_qfifo_write :: "nat option \<Rightarrow> nat option \<Rightarrow> bool \<Rightarrow> node \<Rightarrow> unit csp" where
  "csp_qfifo_write packet iface isr s =
     (if packet = None then Some ((), s\<lparr>csp_dbg_errno := CSP_DBG_ERR_INVALID_POINTER\<rparr>)
      else case iface of
        None \<Rightarrow>
          (let s = s\<lparr>csp_dbg_errno := CSP_DBG_ERR_INVALID_POINTER\<rparr>
           in if \<not> isr then csp_buffer_free packet s else csp_buffer_free_isr packet s)
      | Some i \<Rightarrow> do {
          let queue_element = \<lparr>q_iface = iface, q_packet = packet\<rparr>;
          (result, q) \<leftarrow>
            (if \<not> isr then csp_queue_enqueue (qfifo_queue s) queue_element 1
             else csp_queue_enqueue_isr (qfifo_queue s) queue_element);
          let s = s\<lparr>qfifo_queue := q\<rparr>;
          (if result \<noteq> CSP_QUEUE_OK then do {
             let s = s\<lparr>csp_dbg_conn_ovf := csp_dbg_conn_ovf s + 1\<rparr>;
             f \<leftarrow> get_iface i s;
             let s = put_iface i (f\<lparr>if_drop := if_drop f + 1\<rparr>) s;
             (if \<not> isr then csp_buffer_free packet s else csp_buffer_free_isr packet s)
           }
           else Some ((), s))
        })"

definition csp_qfifo_wake_up :: "node \<Rightarrow> unit csp" where
  "csp_qfifo_wake_up s = do {
     (_, q) \<leftarrow> csp_queue_enqueue (qfifo_queue s) \<lparr>q_iface = None, q_packet = None\<rparr> 0;
     Some ((), s\<lparr>qfifo_queue := q\<rparr>)
   }"

definition csp_promisc_enable :: "nat \<Rightarrow> node \<Rightarrow> int csp" where
  "csp_promisc_enable queue_size s =
     (if csp_promisc_queue s \<noteq> None then Some (CSP_ERR_NONE, s\<lparr>csp_promisc_enabled := True\<rparr>)
      else
        let s = s\<lparr>csp_promisc_queue := csp_queue_create_static CSP_CONN_RXQUEUE_LEN\<rparr>
        in if csp_promisc_queue s = None then Some (CSP_ERR_INVAL, s)
           else Some (CSP_ERR_NONE, s\<lparr>csp_promisc_enabled := True\<rparr>))"

definition csp_promisc_disable :: "node \<Rightarrow> unit csp" where
  "csp_promisc_disable s = Some ((), s\<lparr>csp_promisc_enabled := False\<rparr>)"

definition csp_promisc_read :: "u32 \<Rightarrow> node \<Rightarrow> nat option csp" where
  "csp_promisc_read timeout s =
     (case csp_promisc_queue s of
        None \<Rightarrow> Some (None, s)
      | Some q \<Rightarrow> do {
          ((_, packet), q) \<leftarrow> csp_queue_dequeue q timeout;
          Some (packet, s\<lparr>csp_promisc_queue := Some q\<rparr>)
        })"

definition csp_promisc_add :: "nat \<Rightarrow> node \<Rightarrow> unit csp" where
  "csp_promisc_add packet s =
     (if \<not> csp_promisc_enabled s then Some ((), s)
      else if csp_promisc_queue s \<noteq> None then do {
        (packet_copy, s) \<leftarrow> csp_buffer_clone (Some packet) s;
        (case packet_copy of
           None \<Rightarrow> Some ((), s)
         | Some c \<Rightarrow> do {
             q \<leftarrow> csp_promisc_queue s;
             (r, q) \<leftarrow> csp_queue_enqueue q c 0;
             let s = s\<lparr>csp_promisc_queue := Some q\<rparr>;
             (if r \<noteq> CSP_QUEUE_OK
              then csp_buffer_free packet_copy (s\<lparr>csp_dbg_conn_ovf := csp_dbg_conn_ovf s + 1\<rparr>)
              else Some ((), s))
           })
      }
      else Some ((), s))"

definition CSP_DEDUP_COUNT :: nat where [simp, csp_defs]: "CSP_DEDUP_COUNT = 16"
definition CSP_DEDUP_WINDOW_MS :: u32 where [simp, csp_defs]: "CSP_DEDUP_WINDOW_MS = 100"

text \<open>The test of the loop for one index.\<close>

definition dedup_match :: "u32 \<Rightarrow> node \<Rightarrow> nat \<Rightarrow> bool" where
  "dedup_match crc s i \<longleftrightarrow> crc = csp_dedup_array s ! i \<and> now s < csp_dedup_timestamp s ! i + CSP_DEDUP_WINDOW_MS"

definition csp_dedup_is_duplicate :: "nat \<Rightarrow> node \<Rightarrow> bool csp" where
  "csp_dedup_is_duplicate packet s = do {
     p \<leftarrow> get_packet packet s;
     let p = csp_id_prepend (csp_conf s) p;
     let s = put_packet packet p s;
     fr \<leftarrow> mem_read (frame_begin p) (unat (frame_length p)) (bytes p);
     let crc = csp_crc32_memory fr;
     (if \<exists>i \<in> set [0..<CSP_DEDUP_COUNT]. dedup_match crc s i then Some (True, s)
      else Some (False,
        s\<lparr>csp_dedup_array := (csp_dedup_array s)[csp_dedup_in s := crc],
          csp_dedup_timestamp := (csp_dedup_timestamp s)[csp_dedup_in s := now s],
          csp_dedup_in := (csp_dedup_in s + 1) mod CSP_DEDUP_COUNT\<rparr>))
   }"

definition csp_lo_tx :: nexthop_t where
  "csp_lo_tx iface via packet s = do {
     (_, s) \<leftarrow> csp_qfifo_write (Some packet) (Some csp_if_lo) False s;
     Some (CSP_ERR_NONE, s)
   }"

section \<open>Buffers are accounted for\<close>

lemma env_qfifo_drop:
  assumes "get_iface i s = Some f"
  shows "env (put_iface i (f\<lparr>if_drop := d\<rparr>) s) = env s"
  using assms by (intro env_put_iface) (auto simp: get_iface_def iface_key_def split: if_splits)

lemma accounts_qfifo_write:
  assumes "accounts (add_mset p H) s" "i < length (ifaces s)"
  shows "\<exists>s'. csp_qfifo_write (Some p) (Some i) False s = Some ((), s') \<and> env s' = env s \<and> accounts H s' \<and>
    keeps H s s'"
proof -
  let ?e = "\<lparr>q_iface = Some i, q_packet = Some p\<rparr>"
  have wf: "queue_wf (qfifo_queue s)" using assms(1) by (simp add: accounts_def queues_inv_def)
  show ?thesis
  proof (cases "items (qfifo_queue s) = qsize (qfifo_queue s)")
    case False
    then have "items (qfifo_queue s) < qsize (qfifo_queue s)" using wf by (simp add: queue_wf_def)
    with accounts_qfifo_push [OF assms(1) this, of ?e] False show ?thesis
      by (simp add: csp_qfifo_write_def csp_queue_enqueue_room keeps_def)
  next
    case True
    let ?f = "ifaces s ! i"
    let ?s = "put_iface i (?f\<lparr>if_drop := if_drop ?f + 1\<rparr>) (s\<lparr>csp_dbg_conn_ovf := csp_dbg_conn_ovf s + 1\<rparr>)"
    have "accounts (add_mset p H) ?s" using assms(1) by simp
    note f = accounts_free [OF this]
    have "csp_qfifo_write (Some p) (Some i) False s = csp_buffer_free (Some p) ?s"
      using True assms(2) by (simp add: csp_qfifo_write_def csp_queue_enqueue_full get_iface_def)
    then show ?thesis using f assms(2)
      by (simp add: env_put_iface iface_key_def keeps_def)
  qed
qed

lemma accounts_promisc_add:
  assumes "accounts (add_mset p H) s" "get_packet p s = Some x" "unat (plen x) \<le> CSP_BUFFER_SIZE"
  shows "\<exists>s'. csp_promisc_add p s = Some ((), s') \<and> env s' = env s \<and> accounts (add_mset p H) s' \<and>
    get_packet p s' = Some x \<and> keeps (add_mset p H) s s'"
proof (cases "csp_promisc_enabled s \<and> csp_promisc_queue s \<noteq> None")
  case False
  then show ?thesis using assms by (auto simp: csp_promisc_add_def)
next
  case True
  from accounts_clone [OF assms] obtain c s1 where s1: "csp_buffer_clone (Some p) s = Some (c, s1)"
    "get_packet p s1 = Some x" "env s1 = env s" "csp_promisc_queue s1 = csp_promisc_queue s"
    "keeps (add_mset p H) s s1"
    "case c of None \<Rightarrow> accounts (add_mset p H) s1
     | Some j \<Rightarrow> accounts (add_mset j (add_mset p H)) s1 \<and> get_packet j s1 = Some x" by blast
  show ?thesis
  proof (cases c)
    case None
    then show ?thesis using True s1 by (simp add: csp_promisc_add_def)
  next
    case (Some j)
    then have a: "accounts (add_mset j (add_mset p H)) s1" using s1 by simp
    from s1(4) True obtain q where q: "csp_promisc_queue s1 = Some q" "csp_promisc_queue s = Some q" by auto
    have wf: "queue_wf q" using a q by (simp add: accounts_def queues_inv_def)
    show ?thesis
    proof (cases "items q = qsize q")
      case False
      then have "items q < qsize q" using wf by (simp add: queue_wf_def)
      with accounts_promisc_push [OF a q(1) this] True s1(1-3,5) Some q False show ?thesis
        by (simp add: csp_promisc_add_def csp_queue_enqueue_room keeps_def)
    next
      case full: True
      let ?s = "s1\<lparr>csp_promisc_queue := Some q, csp_dbg_conn_ovf := csp_dbg_conn_ovf s1 + 1\<rparr>"
      have "s1\<lparr>csp_promisc_queue := Some q\<rparr> = s1" using q by (cases s1) simp
      then have "accounts (add_mset j (add_mset p H)) ?s" using a by simp
      note f = accounts_free [OF this]
      have e: "csp_promisc_add p s = csp_buffer_free (Some j) ?s"
        using full True s1(1) Some q by (simp add: csp_promisc_add_def csp_queue_enqueue_full)
      show ?thesis using f s1(1-3,5) e by (simp add: keeps_def)
    qed
  qed
qed

lemma qfifo_write_frame: "csp_qfifo_write p i isr s = Some (u, s') \<Longrightarrow> \<not> isr \<Longrightarrow> send_frame s' = send_frame s"
  by (auto simp: csp_qfifo_write_def bind_Some_iff Let_def split: if_splits option.splits dest!: buffer_free_frame)

lemma promisc_add_frame: "csp_promisc_add p s = Some (u, s') \<Longrightarrow> send_frame s' = send_frame s"
  by (auto simp: csp_promisc_add_def bind_Some_iff Let_def split: if_splits option.splits
      dest!: buffer_free_frame buffer_clone_frame)

section \<open>The contract of a transmit function\<close>

text \<open>
  A transmit function that reports success has taken the packet over; one that reports an
  error has left it to its caller (\<^verbatim>\<open>doc/basic.md\<close>). It does not write to packets it was not given,
  and it does not touch connections, sockets and settings.
\<close>

locale nexthop_frame =
  fixes nexthop :: nexthop_t
  assumes nexthop_frame: "nexthop i via p s = Some (r, s') \<Longrightarrow> send_frame s' = send_frame s"

locale nexthop_contract = nexthop_frame nexthop for nexthop :: nexthop_t +
  assumes nexthop_accounts: "accounts (add_mset p H) s \<Longrightarrow> i < length (ifaces s) \<Longrightarrow>
      \<exists>r s'. nexthop i via p s = Some (r, s') \<and> env s' = env s \<and> keeps H s s' \<and>
        accounts (if r = CSP_ERR_NONE then H else add_mset p H) s'"

interpretation lo: nexthop_contract csp_lo_tx
proof (unfold_locales, goal_cases)
  case (1 i via p s r s')
  then show ?case by (auto simp: csp_lo_tx_def bind_Some_iff dest!: qfifo_write_frame)
next
  case (2 p H s i via)
  then have "csp_if_lo < length (ifaces s)" by auto
  from accounts_qfifo_write [OF 2(1) this] show ?case by (auto simp: csp_lo_tx_def)
qed

section \<open>Duplicates\<close>

lemma csp_dedup_eq:
  assumes "get_packet p s = Some x" "packet_wf x" "p < length (csp_buffer_pool s)"
  defines "y \<equiv> csp_id_prepend (csp_conf s) x"
  shows "csp_dedup_is_duplicate p s =
    Some (if \<exists>i < CSP_DEDUP_COUNT. dedup_match (csp_crc32_memory (pframe y)) s i then (True, put_packet p y s)
          else (False, (put_packet p y s)
            \<lparr>csp_dedup_array := (csp_dedup_array s)[csp_dedup_in s := csp_crc32_memory (pframe y)],
             csp_dedup_timestamp := (csp_dedup_timestamp s)[csp_dedup_in s := now s],
             csp_dedup_in := (csp_dedup_in s + 1) mod CSP_DEDUP_COUNT\<rparr>))"
proof -
  from csp_id_prepend_wf(5) [OF assms(2), of "csp_conf s"]
  have "mem_read (frame_begin y) (unat (frame_length y)) (bytes y) = Some (pframe y)"
    by (auto simp: y_def mem_read_def pframe_def split: if_splits)
  moreover have "dedup_match c (put_packet p y s) i = dedup_match c s i" for c i
    by (simp add: dedup_match_def)
  moreover have "(\<exists>i \<in> set [0..<CSP_DEDUP_COUNT]. P i) \<longleftrightarrow> (\<exists>i < CSP_DEDUP_COUNT. P i)" for P by auto
  ultimately show ?thesis using assms(1)
    by (simp only: csp_dedup_is_duplicate_def y_def [symmetric] Let_def bind.bind_lunit put_packet_fields split: if_split) simp
qed

lemma accounts_dedup:
  assumes "accounts (add_mset p H) s" "get_packet p s = Some x" "packet_wf x"
    "length (csp_dedup_array s) = CSP_DEDUP_COUNT" "csp_dedup_in s < CSP_DEDUP_COUNT"
  shows "\<exists>r s' y. csp_dedup_is_duplicate p s = Some (r, s') \<and> accounts (add_mset p H) s' \<and> env s' = env s \<and>
    get_packet p s' = Some y \<and> packet_wf y \<and> pid y = pid x \<and> pdata y = pdata x"
proof -
  let ?y = "csp_id_prepend (csp_conf s) x"
  note y = csp_id_prepend_wf [OF assms(3), of "csp_conf s"]
  have p: "p < length (csp_buffer_pool s)" using assms(2) by (auto simp: get_packet_def split: if_splits)
  have a: "accounts (add_mset p H) (put_packet p ?y s)"
    using accounts_put [OF assms(1)] y(1) by (simp add: packet_wf_def)
  have g: "get_packet p (put_packet p ?y s) = Some ?y" using get_put_packet [OF p] by simp
  show ?thesis
  proof (cases "\<exists>i < CSP_DEDUP_COUNT. dedup_match (csp_crc32_memory (pframe ?y)) s i")
    case True
    then show ?thesis using csp_dedup_eq [OF assms(2,3) p] a g y by auto
  next
    case False
    let ?s = "(put_packet p ?y s)
            \<lparr>csp_dedup_array := (csp_dedup_array s)[csp_dedup_in s := csp_crc32_memory (pframe ?y)],
             csp_dedup_timestamp := (csp_dedup_timestamp s)[csp_dedup_in s := now s],
             csp_dedup_in := (csp_dedup_in s + 1) mod CSP_DEDUP_COUNT\<rparr>"
    have "env ?s = env s" using assms(4,5) by (simp add: env_def put_packet_def)
    moreover have "get_packet p ?s = Some ?y" using g by simp
    moreover have "csp_dedup_is_duplicate p s = Some (False, ?s)"
      unfolding csp_dedup_eq [OF assms(2,3) p] using False by (simp only: if_False)
    ultimately show ?thesis using a y by (intro exI [of _ False] exI [of _ ?s] exI [of _ ?y]) simp
  qed
qed

section \<open>Properties\<close>

text \<open>Handing a packet to the stack is fire and forget: whatever the state of the input queue,
  afterwards the packet is either in the queue or back in the pool of free buffers (and counted as
  dropped), never both and never lost; the packets held elsewhere stay where they are.\<close>

theorem csp_qfifo_write_conserves:
  assumes "accounts (add_mset p H) s" "i < length (ifaces s)"
  shows "\<exists>s'. csp_qfifo_write (Some p) (Some i) False s = Some ((), s') \<and> accounts H s' \<and> env s' = env s"
  using accounts_qfifo_write [OF assms] by blast

text \<open>A node with all buffers in hands, and nothing queued.\<close>

definition held_node :: node where
  "held_node = zero_node\<lparr>csp_buffer_pool := map (\<lambda>i. \<lparr>refcount = 1, skbf_addr = i, skbf_data = zero_packet\<rparr>) [0..<15],
     ifaces := [\<lparr>if_addr = 1, if_netmask = 0, if_name = ''LOOP'', if_data = No_Data, if_mtu = 0, if_tx = 0,
       if_rx = 0, if_tx_error = 0, if_rx_error = 0, if_drop = 0, if_autherr = 0, if_frame = 0, if_txbytes = 0,
       if_rxbytes = 0, if_irq = 0, if_next = None\<rparr>]\<rparr>"

lemma held_node_accounts: "accounts (mset_set {..<CSP_BUFFER_COUNT}) held_node"
proof -
  have fl: "free_list held_node = []" by (simp add: held_node_def free_list_def zero_node_def)
  have "pool_inv held_node" unfolding pool_inv_def fl
    by (simp add: held_node_def zero_node_def zero_packet_def del: upt_rec_numeral)
  moreover have "queued held_node = {#}" "queues_inv held_node"
    by (simp_all add: queued_def queues_inv_def held_node_def zero_node_def qfifo_packets_def promisc_packets_def
        rdp_packets_def List.map_filter_def)
  ultimately show ?thesis by (simp add: accounts_def fl)
qed

lemma held_node_held: "accounts (add_mset 3 (mset_set ({..<15} - {3}))) held_node" "0 < length (ifaces held_node)"
  using held_node_accounts mset_set.remove [of "{..<15 :: nat}" 3] by (simp_all add: held_node_def)

theorem csp_qfifo_write_conserves_witness:
  "\<exists>s'. csp_qfifo_write (Some 3) (Some 0) False held_node = Some ((), s') \<and> accounts (mset_set ({..<15} - {3})) s'"
  using csp_qfifo_write_conserves [OF held_node_held] by blast

text \<open>
  What happens between two packets: \<open>dedup_run s k t\<close> leads from \<open>s\<close> to \<open>t\<close> by any number of packets of which \<open>k\<close> were accepted,
  and by anything that leaves the list of accepted packets alone.
\<close>

inductive dedup_run :: "node \<Rightarrow> nat \<Rightarrow> node \<Rightarrow> bool" for s where
  start: "dedup_run s 0 s"
| elsewhere: "dedup_run s k t \<Longrightarrow> csp_dedup_array t' = csp_dedup_array t \<Longrightarrow> csp_dedup_timestamp t' = csp_dedup_timestamp t \<Longrightarrow>
    csp_dedup_in t' = csp_dedup_in t \<Longrightarrow> dedup_run s k t'"
| copied: "dedup_run s k t \<Longrightarrow> csp_dedup_is_duplicate q t = Some (True, t') \<Longrightarrow> dedup_run s k t'"
| accepted: "dedup_run s k t \<Longrightarrow> csp_dedup_is_duplicate q t = Some (False, t') \<Longrightarrow> dedup_run s (Suc k) t'"

lemma dedup_copied:
  "csp_dedup_is_duplicate q t = Some (True, t') \<Longrightarrow> csp_dedup_array t' = csp_dedup_array t \<and>
     csp_dedup_timestamp t' = csp_dedup_timestamp t \<and> csp_dedup_in t' = csp_dedup_in t"
  by (auto simp: csp_dedup_is_duplicate_def bind_Some_iff Let_def split: if_splits)

lemma dedup_accepted:
  "csp_dedup_is_duplicate q t = Some (False, t') \<Longrightarrow> \<exists>c. csp_dedup_array t' = (csp_dedup_array t)[csp_dedup_in t := c] \<and>
     csp_dedup_timestamp t' = (csp_dedup_timestamp t)[csp_dedup_in t := now t] \<and> csp_dedup_in t' = (csp_dedup_in t + 1) mod CSP_DEDUP_COUNT"
  by (auto simp: csp_dedup_is_duplicate_def bind_Some_iff Let_def split: if_splits)

lemma ring_distance:
  assumes "j = (i + 1 + k) mod n" "i < n" "Suc k < n"
  shows "j \<noteq> i" "(j + 1) mod n = (i + 1 + Suc k) mod (n :: nat)"
proof -
  show "(j + 1) mod n = (i + 1 + Suc k) mod n" by (simp add: assms(1) mod_simps)
  show "j \<noteq> i"
  proof (cases "i + 1 + k < n")
    case False
    then have "j = i + 1 + k - n" using assms by (simp add: mod_if)
    then show ?thesis using False assms(3) by linarith
  qed (use assms(1) in simp)
qed

text \<open>An entry of the list stays until as many packets were accepted as the list has places.\<close>

lemma dedup_run_keeps:
  assumes "dedup_run s1 k s2" "k < CSP_DEDUP_COUNT" "i < CSP_DEDUP_COUNT" "csp_dedup_in s1 = (i + 1) mod CSP_DEDUP_COUNT"
  shows "csp_dedup_in s2 = (i + 1 + k) mod CSP_DEDUP_COUNT \<and> csp_dedup_array s2 ! i = csp_dedup_array s1 ! i \<and>
    csp_dedup_timestamp s2 ! i = csp_dedup_timestamp s1 ! i"
  using assms(1,2)
proof (induction rule: dedup_run.induct)
  case start
  then show ?case using assms(4) by simp
next
  case (elsewhere k t t')
  then show ?case by simp
next
  case (copied k t q t')
  then show ?case using dedup_copied [OF copied.hyps(2)] by simp
next
  case (accepted k t q t')
  have "k < CSP_DEDUP_COUNT" using accepted.prems by simp
  note ih = accepted.IH [OF this]
  note r = ring_distance [of "csp_dedup_in t" i k CSP_DEDUP_COUNT, OF _ assms(3) accepted.prems]
  show ?case using dedup_accepted [OF accepted.hyps(2)] ih r by auto
qed

text \<open>C38: A packet that was accepted is recognised as a duplicate when a packet with the same header and data arrives less than
  100 ms later, unless 16 other packets were accepted in between, which is the size of the list, or the time-stamp
  wraps around. What else the node does in between makes no difference.\<close>

theorem csp_dedup_detects:
  assumes "get_packet p s = Some x" "packet_wf x" "csp_dedup_is_duplicate p s = Some (False, s1)"
    "csp_dedup_in s < CSP_DEDUP_COUNT" "length (csp_dedup_array s) = CSP_DEDUP_COUNT" "length (csp_dedup_timestamp s) = CSP_DEDUP_COUNT"
    "dedup_run s1 k s2" "k < CSP_DEDUP_COUNT"
    "get_packet p' s2 = Some x'" "packet_wf x'"
    "pframe (csp_id_prepend (csp_conf s2) x') = pframe (csp_id_prepend (csp_conf s) x)"
    "unat (now s2) < unat (now s) + 100" "unat (now s) + 100 < 2 ^ 32"
  shows "\<exists>s3. csp_dedup_is_duplicate p' s2 = Some (True, s3)"
proof -
  let ?c = "csp_crc32_memory (pframe (csp_id_prepend (csp_conf s) x))" and ?i = "csp_dedup_in s"
  have p: "p < length (csp_buffer_pool s)" "p' < length (csp_buffer_pool s2)"
    using assms(1,9) by (auto simp: get_packet_def split: if_splits)
  have s1: "csp_dedup_array s1 ! ?i = ?c" "csp_dedup_timestamp s1 ! ?i = now s" "csp_dedup_in s1 = (?i + 1) mod CSP_DEDUP_COUNT"
    using csp_dedup_eq [OF assms(1,2) p(1)] assms(3-6) by (auto split: if_splits)
  have "csp_dedup_array s2 ! ?i = ?c" "csp_dedup_timestamp s2 ! ?i = now s"
    using dedup_run_keeps [OF assms(7,8,4) s1(3)] s1(1,2) by simp_all
  moreover have "now s2 < now s + 100" using assms(12,13) by (simp add: word_less_nat_alt unat_word_ariths)
  ultimately have "dedup_match ?c s2 ?i" by (simp add: dedup_match_def)
  then show ?thesis using csp_dedup_eq [OF assms(9,10) p(2)] assms(4,11) by auto
qed

theorem csp_dedup_detects_witness:
  "let s = held_node\<lparr>now := 5000\<rparr>
   in \<exists>s1. csp_dedup_is_duplicate 3 s = Some (False, s1) \<and>
        (\<exists>s3. csp_dedup_is_duplicate 4 (s1\<lparr>now := 5050\<rparr>) = Some (True, s3))"
proof -
  let ?s = "held_node\<lparr>now := 5000\<rparr>"
  have x: "get_packet 3 ?s = Some zero_packet" "get_packet 4 ?s = Some zero_packet" "packet_wf zero_packet"
    by (simp_all add: get_packet_def held_node_def packet_wf_def zero_packet_def)
  have p: "3 < length (csp_buffer_pool ?s)" by (simp add: held_node_def)
  have no: "\<not> (\<exists>i < CSP_DEDUP_COUNT. dedup_match c ?s i)" for c
    by (simp add: dedup_match_def held_node_def zero_node_def)
  let ?s1 = "(put_packet 3 (csp_id_prepend (csp_conf ?s) zero_packet) ?s)
      \<lparr>csp_dedup_array := (csp_dedup_array ?s)[csp_dedup_in ?s :=
         csp_crc32_memory (pframe (csp_id_prepend (csp_conf ?s) zero_packet))],
       csp_dedup_timestamp := (csp_dedup_timestamp ?s)[csp_dedup_in ?s := now ?s],
       csp_dedup_in := (csp_dedup_in ?s + 1) mod CSP_DEDUP_COUNT\<rparr>"
  let ?s2 = "?s1\<lparr>now := 5050\<rparr>"
  have e: "csp_dedup_is_duplicate 3 ?s = Some (False, ?s1)"
    unfolding csp_dedup_eq [OF x(1,3) p] using no by (simp only: if_False)
  have "get_packet 4 ?s2 = Some zero_packet" using x(2) p get_put_packet [OF p] by simp
  moreover have "dedup_run ?s1 0 ?s2" by (rule dedup_run.elsewhere [OF dedup_run.start]) simp_all
  ultimately have "\<exists>s3. csp_dedup_is_duplicate 4 ?s2 = Some (True, s3)"
    by (intro csp_dedup_detects [OF x(1,3) e, of 0 ?s2 4 zero_packet]) (simp_all add: x(3) held_node_def zero_node_def)
  then show ?thesis using e by (simp only: Let_def) blast
qed

text \<open>The loopback interface keeps the contract of a transmit function: it reports success and the
  packet is then in the input queue or dropped back into the pool.\<close>

theorem csp_lo_tx_contract:
  assumes "accounts (add_mset p H) s" "i < length (ifaces s)"
  shows "\<exists>s'. csp_lo_tx i via p s = Some (CSP_ERR_NONE, s') \<and> accounts H s' \<and> env s' = env s"
  using lo.nexthop_accounts [OF assms, of via] by (auto simp: csp_lo_tx_def bind_Some_iff)

theorem csp_lo_tx_contract_witness:
  "\<exists>s'. csp_lo_tx 0 CSP_NO_VIA_ADDRESS 3 held_node = Some (CSP_ERR_NONE, s') \<and> accounts (mset_set ({..<15} - {3})) s'"
  using csp_lo_tx_contract [OF held_node_held] by blast

end
