(* ===== verification/Csp_Conn_Table.thy ===== *)
theory Csp_Conn_Table
  imports Csp_Input
begin

text \<open>
  The table of connections: the part of \<^verbatim>\<open>src/csp_conn.c\<close> that does not call RDP, the binary semaphore of
  \<^verbatim>\<open>src/arch/posix/csp_semaphore.c\<close> that each connection has, and \<^verbatim>\<open>csp_rdp_init\<close>. The invariant
  \<open>conn_inv\<close> says that outgoing connections have source ports of their own, so that an answer finds
  the connection it is for.
\<close>

section \<open>Model\<close>

text \<open>A change of one connection, and of its RDP state.\<close>

definition upd_conn :: "nat \<Rightarrow> (csp_conn_t \<Rightarrow> csp_conn_t) \<Rightarrow> node \<Rightarrow> node option" where
  "upd_conn conn f s = do { c \<leftarrow> get_conn conn s; Some (put_conn conn (f c) s) }"

definition upd_rdp :: "nat \<Rightarrow> (csp_rdp_t \<Rightarrow> csp_rdp_t) \<Rightarrow> node \<Rightarrow> node option" where
  "upd_rdp conn f s = upd_conn conn (\<lambda>c. c\<lparr>rdp := f (rdp c)\<rparr>) s"

subsection \<open>The semaphore\<close>

definition CSP_SEMAPHORE_OK :: int where [simp, csp_defs]: "CSP_SEMAPHORE_OK = 0"
definition CSP_SEMAPHORE_ERROR :: int where [simp, csp_defs]: "CSP_SEMAPHORE_ERROR = -1"

definition csp_bin_sem_init :: "csp_rdp_t \<Rightarrow> csp_rdp_t" where
  "csp_bin_sem_init r = r\<lparr>tx_wait := 1\<rparr>"

text \<open>
  \<open>others\<close> is what the other tasks do to the node while the caller is blocked. A wait without a
  time limit on a semaphore that nobody posts does not return. The clock does not fail.
\<close>

definition csp_bin_sem_wait :: "(node \<Rightarrow> node) \<Rightarrow> nat \<Rightarrow> u32 \<Rightarrow> node \<Rightarrow> int csp" where
  "csp_bin_sem_wait others conn timeout s = do {
     c \<leftarrow> get_conn conn s;
     (if tx_wait (rdp c) > 0 then do {
        s \<leftarrow> upd_rdp conn (\<lambda>r. r\<lparr>tx_wait := tx_wait r - 1\<rparr>) s;
        Some (CSP_SEMAPHORE_OK, s)
      }
      else do {
        let s = others s;
        c \<leftarrow> get_conn conn s;
        (if tx_wait (rdp c) > 0 then do {
           s \<leftarrow> upd_rdp conn (\<lambda>r. r\<lparr>tx_wait := tx_wait r - 1\<rparr>) s;
           Some (CSP_SEMAPHORE_OK, s)
         }
         else if timeout = CSP_MAX_TIMEOUT then None
         else Some (CSP_SEMAPHORE_ERROR, s))
      })
   }"

definition csp_bin_sem_post :: "nat \<Rightarrow> node \<Rightarrow> int csp" where
  "csp_bin_sem_post conn s = do {
     c \<leftarrow> get_conn conn s;
     (if tx_wait (rdp c) > 0 then Some (CSP_SEMAPHORE_OK, s)
      else do {
        s \<leftarrow> upd_rdp conn (\<lambda>r. r\<lparr>tx_wait := tx_wait r + 1\<rparr>) s;
        Some (CSP_SEMAPHORE_OK, s)
      })
   }"

subsection \<open>Connections\<close>

text \<open>The packet is a null pointer when a reader is to be woken.\<close>

definition csp_conn_enqueue_packet :: "nat option \<Rightarrow> nat option \<Rightarrow> node \<Rightarrow> int csp" where
  "csp_conn_enqueue_packet conn packet s =
     (case conn of
        None \<Rightarrow> Some (CSP_ERR_INVAL, s)
      | Some n \<Rightarrow> do {
          c \<leftarrow> get_conn n s;
          (r, q) \<leftarrow> csp_queue_enqueue (rx_queue c) packet 0;
          let s = put_conn n (c\<lparr>rx_queue := q\<rparr>) s;
          (if r \<noteq> CSP_QUEUE_OK
           then Some (CSP_ERR_NOMEM, s\<lparr>csp_dbg_conn_ovf := csp_dbg_conn_ovf s + 1\<rparr>)
           else Some (CSP_ERR_NONE, s))
        })"

definition csp_rdp_init :: "nat \<Rightarrow> node \<Rightarrow> unit csp" where
  "csp_rdp_init conn s = do {
     s \<leftarrow> upd_rdp conn (\<lambda>r. csp_bin_sem_init (r\<lparr>rdp_state := RDP_CLOSED, closed_by := 0,
       conn_timeout := csp_rdp_conn_timeout s, packet_timeout := csp_rdp_packet_timeout s\<rparr>)) s;
     Some ((), s)
   }"

primrec csp_conn_init_loop :: "nat list \<Rightarrow> node \<Rightarrow> unit csp" where
  "csp_conn_init_loop [] s = Some ((), s)"
| "csp_conn_init_loop (i # is) s = do {
     q \<leftarrow> csp_queue_create_static CSP_CONN_RXQUEUE_LEN;
     s \<leftarrow> upd_conn i (\<lambda>c. c\<lparr>sport_outgoing := of_nat (CSP_PORT_MAX_BIND + 1 + i), c_state := CONN_CLOSED,
       idin := (idin c)\<lparr>flags := 0\<rparr>, rx_queue := q\<rparr>) s;
     (_, s) \<leftarrow> csp_rdp_init i s;
     csp_conn_init_loop is s
   }"

definition csp_conn_init :: "node \<Rightarrow> unit csp" where
  "csp_conn_init s = csp_conn_init_loop [0..<CSP_CONN_MAX] s"

text \<open>The argument is an \<^verbatim>\<open>unsigned int\<close>.\<close>

definition csp_conn_find_dport :: "u32 \<Rightarrow> node \<Rightarrow> nat option" where
  "csp_conn_find_dport port s =
     find (\<lambda>i. ucast (dport (idin (arr_conn s ! i))) = port \<and> c_state (arr_conn s ! i) = CONN_OPEN \<and>
               c_type (arr_conn s ! i) = CONN_CLIENT) [0..<CSP_CONN_MAX]"

definition existing_match :: "csp_id_t \<Rightarrow> csp_conn_t \<Rightarrow> bool" where
  "existing_match ident c \<longleftrightarrow> c_state c = CONN_OPEN \<and>
     (if c_type c = CONN_CLIENT then dport (idin c) = dport ident
      else dport (idin c) = dport ident \<and> sport (idin c) = sport ident \<and> src (idin c) = src ident)"

definition csp_conn_find_existing :: "csp_id_t \<Rightarrow> node \<Rightarrow> nat option" where
  "csp_conn_find_existing ident s = find (\<lambda>i. existing_match ident (arr_conn s ! i)) [0..<CSP_CONN_MAX]"

partial_function (option) csp_conn_flush_loop :: "nat \<Rightarrow> node \<Rightarrow> unit csp" where
  "csp_conn_flush_loop conn s = do {
     c \<leftarrow> get_conn conn s;
     r \<leftarrow> csp_queue_dequeue (rx_queue c) 0;
     let s = put_conn conn (c\<lparr>rx_queue := snd r\<rparr>) s;
     (if fst (fst r) = CSP_QUEUE_OK then do {
        packet \<leftarrow> snd (fst r);
        r \<leftarrow> (if packet \<noteq> None then csp_buffer_free packet s else Some ((), s));
        csp_conn_flush_loop conn (snd r)
      }
      else Some ((), s))
   }"

definition csp_conn_flush_rx_queue :: "nat \<Rightarrow> node \<Rightarrow> int csp" where
  "csp_conn_flush_rx_queue conn s = do {
     (_, s) \<leftarrow> csp_conn_flush_loop conn s;
     Some (CSP_ERR_NONE, s)
   }"

text \<open>The search for a free connection: \<open>i\<close> is the last one looked at.\<close>

primrec csp_conn_allocate_loop :: "nat list \<Rightarrow> nat \<Rightarrow> node \<Rightarrow> nat option csp" where
  "csp_conn_allocate_loop [] i s = Some (None, s)"
| "csp_conn_allocate_loop (_ # js) i s = do {
     let i = (i + 1) mod CSP_CONN_MAX;
     c \<leftarrow> get_conn i s;
     (if c_state c = CONN_CLOSED
      then Some (Some i, (put_conn i (c\<lparr>c_state := CONN_OPEN\<rparr>) s)\<lparr>csp_conn_last_given := of_nat i\<rparr>)
      else csp_conn_allocate_loop js i s)
   }"

definition csp_conn_allocate :: "csp_conn_type_t \<Rightarrow> node \<Rightarrow> nat option csp" where
  "csp_conn_allocate type s = do {
     (conn, s) \<leftarrow> csp_conn_allocate_loop [0..<CSP_CONN_MAX] (unat (csp_conn_last_given s)) s;
     (case conn of
        None \<Rightarrow> Some (None, s\<lparr>csp_dbg_conn_out := csp_dbg_conn_out s + 1\<rparr>)
      | Some n \<Rightarrow> do {
          s \<leftarrow> upd_conn n (\<lambda>c. c\<lparr>timestamp := 0, c_type := type, idin := (idin c)\<lparr>flags := 0\<rparr>,
                 idout := (idout c)\<lparr>flags := 0\<rparr>\<rparr>) s;
          Some (Some n, s)
        })
   }"

definition csp_conn_new :: "csp_id_t \<Rightarrow> csp_id_t \<Rightarrow> csp_conn_type_t \<Rightarrow> node \<Rightarrow> nat option csp" where
  "csp_conn_new idi ido type s = do {
     (conn, s) \<leftarrow> csp_conn_allocate type s;
     (case conn of
        None \<Rightarrow> Some (None, s)
      | Some n \<Rightarrow> do {
          s \<leftarrow> upd_conn n (\<lambda>c. c\<lparr>idin := idi, idout := ido, timestamp := now s\<rparr>) s;
          (_, s) \<leftarrow> csp_conn_flush_rx_queue n s;
          Some (Some n, s)
        })
   }"

text \<open>What an application asks of a connection.\<close>

definition csp_conn_dport :: "nat \<Rightarrow> node \<Rightarrow> int option" where
  "csp_conn_dport conn s = do { c \<leftarrow> get_conn conn s; Some (uint (dport (idin c))) }"
definition csp_conn_sport :: "nat \<Rightarrow> node \<Rightarrow> int option" where
  "csp_conn_sport conn s = do { c \<leftarrow> get_conn conn s; Some (uint (sport (idin c))) }"
definition csp_conn_dst :: "nat \<Rightarrow> node \<Rightarrow> int option" where
  "csp_conn_dst conn s = do { c \<leftarrow> get_conn conn s; Some (uint (dst (idin c))) }"
definition csp_conn_src :: "nat \<Rightarrow> node \<Rightarrow> int option" where
  "csp_conn_src conn s = do { c \<leftarrow> get_conn conn s; Some (uint (src (idin c))) }"
definition csp_conn_flags :: "nat \<Rightarrow> node \<Rightarrow> int option" where
  "csp_conn_flags conn s = do { c \<leftarrow> get_conn conn s; Some (uint (flags (idin c))) }"
definition csp_conn_pri_faqas :: "nat \<Rightarrow> node \<Rightarrow> int option" where
  "csp_conn_pri_faqas conn s = do { c \<leftarrow> get_conn conn s; Some (uint (pri (idout c))) }"
definition csp_conn_pri_out_faqas :: "nat \<Rightarrow> node \<Rightarrow> int option" where
  "csp_conn_pri_out_faqas conn s = do { c \<leftarrow> get_conn conn s; Some (uint (pri (idout c))) }"
definition csp_conn_dport_out :: "nat \<Rightarrow> node \<Rightarrow> int option" where
  "csp_conn_dport_out conn s = do { c \<leftarrow> get_conn conn s; Some (uint (dport (idout c))) }"
definition csp_conn_sport_out :: "nat \<Rightarrow> node \<Rightarrow> int option" where
  "csp_conn_sport_out conn s = do { c \<leftarrow> get_conn conn s; Some (uint (sport (idout c))) }"
definition csp_conn_dst_out :: "nat \<Rightarrow> node \<Rightarrow> int option" where
  "csp_conn_dst_out conn s = do { c \<leftarrow> get_conn conn s; Some (uint (dst (idout c))) }"
definition csp_conn_src_out :: "nat \<Rightarrow> node \<Rightarrow> int option" where
  "csp_conn_src_out conn s = do { c \<leftarrow> get_conn conn s; Some (uint (src (idout c))) }"
definition csp_conn_flags_out :: "nat \<Rightarrow> node \<Rightarrow> int option" where
  "csp_conn_flags_out conn s = do { c \<leftarrow> get_conn conn s; Some (uint (flags (idout c))) }"

text \<open>The array, with its size.\<close>

definition csp_conn_get_array :: "node \<Rightarrow> nat \<times> csp_conn_t list" where
  "csp_conn_get_array s = (CSP_CONN_MAX, arr_conn s)"

section \<open>Changing connections\<close>

lemma upd_conn_eq: "n < length (arr_conn s) \<Longrightarrow> upd_conn n f s = Some (put_conn n (f (arr_conn s ! n)) s)"
  by (simp add: upd_conn_def get_conn_def)

lemma upd_rdp_eq:
  "n < length (arr_conn s) \<Longrightarrow>
     upd_rdp n f s = Some (put_conn n ((arr_conn s ! n)\<lparr>rdp := f (rdp (arr_conn s ! n))\<rparr>) s)"
  by (simp add: upd_rdp_def upd_conn_eq)

lemma arr_conn_frame [simp]:
  "arr_conn (put_conn n c s) = (arr_conn s)[n := c]" "arr_conn (give_buffer p s) = arr_conn s"
  "arr_conn (take_buffer p s) = arr_conn s" "arr_conn (put_iface i f s) = arr_conn s"
  "now (put_conn n c s) = now s" "now (give_buffer p s) = now s"
  "sockets (put_conn n c s) = sockets s" "sockets (give_buffer p s) = sockets s"
  by (simp_all add: put_conn_def give_buffer_def take_buffer_def put_iface_def)

lemma get_conn_eq: "n < length (arr_conn s) \<Longrightarrow> get_conn n s = Some (arr_conn s ! n)"
  by (simp add: get_conn_def)

lemma put_conn_twice [simp]: "put_conn n c (put_conn n d s) = put_conn n c s"
  by (simp add: put_conn_def)

text \<open>A connection whose queue stays as it is.\<close>

lemma accounts_conn_same:
  assumes "accounts H s" "n < length (arr_conn s)" "rx_queue c = rx_queue (arr_conn s ! n)"
  shows "accounts H (put_conn n c s)"
proof -
  have "queue_wf (rx_queue (arr_conn s ! n))" using assms(1,2) by (simp add: accounts_def queues_inv_def)
  then show ?thesis
    using accounts_put_conn [OF assms(1,2), of c "{#}" "{#}" H] assms(3) by (simp add: conn_packets_def)
qed

lemma conn_queue_wf: "accounts H s \<Longrightarrow> n < length (arr_conn s) \<Longrightarrow> queue_wf (rx_queue (arr_conn s ! n))"
  by (simp add: accounts_def queues_inv_def)

definition held_with :: "nat option \<Rightarrow> nat multiset \<Rightarrow> nat multiset" where
  "held_with e H = (case e of None \<Rightarrow> H | Some p \<Rightarrow> add_mset p H)"

lemma held_with_simps [simp]: "held_with None H = H" "held_with (Some p) H = add_mset p H"
  by (simp_all add: held_with_def)

lemma map_filter_Cons [simp]:
  "List.map_filter f (x # xs) = (case f x of None \<Rightarrow> List.map_filter f xs | Some y \<Rightarrow> y # List.map_filter f xs)"
  by (simp add: List.map_filter_def split: option.splits)

lemma map_filter_Nil [simp]: "List.map_filter f [] = []"
  by (simp add: List.map_filter_def)

lemma accounts_conn_pop:
  assumes "accounts H s" "n < length (arr_conn s)" "queue_list (rx_queue (arr_conn s ! n)) = e # es"
  shows "accounts (held_with e H) (put_conn n ((arr_conn s ! n)\<lparr>rx_queue := queue_pop (rx_queue (arr_conn s ! n))\<rparr>) s)"
proof -
  let ?q = "rx_queue (arr_conn s ! n)"
  have i: "0 < items ?q" using assms(3) by (metis length_queue_list length_greater_0_conv list.distinct(1))
  note wf = conn_queue_wf [OF assms(1,2)]
  have l: "queue_list (queue_pop ?q) = es" using queue_pop_list [OF wf i] assms(3) by simp
  have "mset (conn_packets ((arr_conn s ! n)\<lparr>rx_queue := queue_pop ?q\<rparr>)) + held_with e {#} =
      mset (conn_packets (arr_conn s ! n)) + {#}"
    using assms(3) l by (cases e) (simp_all add: conn_packets_def)
  then have "accounts (H + held_with e {#}) (put_conn n ((arr_conn s ! n)\<lparr>rx_queue := queue_pop ?q\<rparr>) s)"
    using accounts_put_conn [OF assms(1,2), of _ "held_with e {#}" "{#}" H] queue_pop_wf [OF wf i] by simp
  then show ?thesis by (cases e) simp_all
qed

lemma accounts_conn_push:
  assumes "accounts (held_with e H) s" "n < length (arr_conn s)"
    "items (rx_queue (arr_conn s ! n)) < qsize (rx_queue (arr_conn s ! n))"
  shows "accounts H (put_conn n ((arr_conn s ! n)\<lparr>rx_queue := queue_push e (rx_queue (arr_conn s ! n))\<rparr>) s)"
proof -
  let ?q = "rx_queue (arr_conn s ! n)"
  note wf = conn_queue_wf [OF assms(1,2)]
  have "mset (conn_packets ((arr_conn s ! n)\<lparr>rx_queue := queue_push e ?q\<rparr>)) + {#} =
      mset (conn_packets (arr_conn s ! n)) + held_with e {#}"
    using queue_push_list [OF wf assms(3), of e] by (cases e) (simp_all add: conn_packets_def)
  then have "accounts (H + {#}) (put_conn n ((arr_conn s ! n)\<lparr>rx_queue := queue_push e ?q\<rparr>) s)"
    using accounts_put_conn [OF assms(1,2), of _ "{#}" "held_with e {#}" H]
      queue_push_wf [OF wf assms(3)] by (cases e) simp_all
  then show ?thesis by simp
qed

section \<open>Delivery to a connection\<close>

lemma accounts_conn_enqueue:
  assumes "accounts (held_with e H) s" "n < length (arr_conn s)"
  shows "\<exists>r s'. csp_conn_enqueue_packet (Some n) e s = Some (r, s') \<and> env s' = env s \<and>
    (\<forall>q. get_packet q s' = get_packet q s) \<and> sockets s' = sockets s \<and>
    (if items (rx_queue (arr_conn s ! n)) < qsize (rx_queue (arr_conn s ! n))
     then r = CSP_ERR_NONE \<and> accounts H s' \<and>
       arr_conn s' = (arr_conn s)[n := (arr_conn s ! n)\<lparr>rx_queue := queue_push e (rx_queue (arr_conn s ! n))\<rparr>]
     else r = CSP_ERR_NOMEM \<and> accounts (held_with e H) s' \<and> arr_conn s' = arr_conn s)"
proof (cases "items (rx_queue (arr_conn s ! n)) = qsize (rx_queue (arr_conn s ! n))")
  case True
  have s: "put_conn n (arr_conn s ! n) s = s" using assms(2) by (simp add: put_conn_def)
  show ?thesis using True assms s
    by (simp add: csp_conn_enqueue_packet_def get_conn_eq csp_queue_enqueue_full)
next
  case False
  then have "items (rx_queue (arr_conn s ! n)) < qsize (rx_queue (arr_conn s ! n))"
    using conn_queue_wf [OF assms] by (simp add: queue_wf_def)
  with accounts_conn_push [OF assms this] False assms(2) show ?thesis
    by (simp add: csp_conn_enqueue_packet_def get_conn_eq csp_queue_enqueue_room)
qed

lemma accounts_flush_loop:
  assumes "accounts H s" "n < length (arr_conn s)"
  shows "\<exists>s' q. csp_conn_flush_loop n s = Some ((), s') \<and> accounts H s' \<and> env s' = env s \<and>
    (\<forall>k. get_packet k s' = get_packet k s) \<and> now s' = now s \<and> sockets s' = sockets s \<and>
    arr_conn s' = (arr_conn s)[n := (arr_conn s ! n)\<lparr>rx_queue := q\<rparr>] \<and> queue_list q = [] \<and> queue_wf q \<and>
    qsize q = qsize (rx_queue (arr_conn s ! n))"
  using assms
proof (induction "items (rx_queue (arr_conn s ! n))" arbitrary: s)
  case 0
  let ?q = "rx_queue (arr_conn s ! n)"
  have "put_conn n (arr_conn s ! n) s = s" using 0(3) by (simp add: put_conn_def)
  then have "csp_conn_flush_loop n s = Some ((), s)" using 0
    by (subst csp_conn_flush_loop.simps) (simp add: get_conn_eq csp_queue_dequeue_empty)
  then show ?case using 0 conn_queue_wf [OF 0(2,3)] by (intro exI [of _ s] exI [of _ ?q]) (simp add: queue_list_def)
next
  case (Suc m)
  let ?q = "rx_queue (arr_conn s ! n)" and ?c = "arr_conn s ! n"
  have i: "0 < items ?q" "items ?q \<noteq> 0" using Suc(2) by simp_all
  note wf = conn_queue_wf [OF Suc(3,4)]
  obtain e es where e: "queue_list ?q = e # es" using queue_pop_list [OF wf i(1)] by blast
  let ?s1 = "put_conn n (?c\<lparr>rx_queue := queue_pop ?q\<rparr>) s"
  have a: "accounts (held_with e H) ?s1" by (rule accounts_conn_pop [OF Suc(3,4) e])
  obtain s2 where s2: "(if e \<noteq> None then csp_buffer_free e ?s1 else Some ((), ?s1)) = Some ((), s2)" "accounts H s2"
    "env s2 = env s" "\<forall>k. get_packet k s2 = get_packet k s" "arr_conn s2 = arr_conn ?s1" "now s2 = now s" "sockets s2 = sockets s"
    using a accounts_free(1,2) [of _ H ?s1] by (cases e) auto
  have l: "csp_conn_flush_loop n s = csp_conn_flush_loop n s2"
    using i queue_head_Some [OF wf i(1)] e s2(1) Suc(4)
    by (subst csp_conn_flush_loop.simps) (cases e, simp_all add: get_conn_eq csp_queue_dequeue_item Let_def)
  have q2: "rx_queue (arr_conn s2 ! n) = queue_pop ?q" "n < length (arr_conn s2)" using s2(5) Suc(4) by simp_all
  then have "m = items (rx_queue (arr_conn s2 ! n))" using Suc(2) by simp
  from Suc(1) [OF this s2(2) q2(2)] show ?case using s2 l Suc(4) q2 by auto
qed

lemma accounts_flush:
  assumes "accounts H s" "n < length (arr_conn s)"
  shows "\<exists>s' q. csp_conn_flush_rx_queue n s = Some (CSP_ERR_NONE, s') \<and> accounts H s' \<and> env s' = env s \<and>
    (\<forall>k. get_packet k s' = get_packet k s) \<and> now s' = now s \<and> sockets s' = sockets s \<and>
    arr_conn s' = (arr_conn s)[n := (arr_conn s ! n)\<lparr>rx_queue := q\<rparr>] \<and> queue_list q = [] \<and> queue_wf q \<and>
    qsize q = qsize (rx_queue (arr_conn s ! n))"
  using accounts_flush_loop [OF assms] by (auto simp: csp_conn_flush_rx_queue_def)

section \<open>Allocation\<close>

text \<open>The connections in the order of the search, and the search.\<close>

definition search_order :: "nat \<Rightarrow> nat \<Rightarrow> nat list" where
  "search_order i k = map (\<lambda>j. (i + 1 + j) mod CSP_CONN_MAX) [0..<k]"

lemma search_order_Suc: "search_order i (Suc k) = (i + 1) mod CSP_CONN_MAX # search_order ((i + 1) mod CSP_CONN_MAX) k"
proof -
  have u: "[0..<Suc k] = 0 # map Suc [0..<k]" by (metis map_Suc_upt upt_conv_Cons zero_less_Suc)
  have "(i + 1 + Suc j) mod n = ((i + 1) mod n + 1 + j) mod n" for j n
    using mod_add_left_eq [of "i + 1" n "1 + j"] by (simp add: ac_simps)
  then show ?thesis unfolding search_order_def u by (simp only: list.map map_map o_def Nat.add_0_right)
qed

lemma set_search_order: "set (search_order i CSP_CONN_MAX) = {..<CSP_CONN_MAX}"
proof -
  have "\<exists>j < k. n = (i + 1 + j) mod k" if "n < k" for n k :: nat
  proof (intro exI conjI)
    let ?j = "(n + k * (i + 1) - (i + 1)) mod k"
    show "?j < k" using that by simp
    have "i + 1 \<le> n + k * (i + 1)" using that by (cases k) simp_all
    then have "(i + 1 + ?j) mod k = (n + k * (i + 1)) mod k" by (simp only: mod_add_right_eq le_add_diff_inverse)
    then show "n = (i + 1 + ?j) mod k" using that by (simp only: mod_mult_self2 mod_less)
  qed
  then have "{..<CSP_CONN_MAX} \<subseteq> set (search_order i CSP_CONN_MAX)" by (fastforce simp: search_order_def)
  moreover have "set (search_order i CSP_CONN_MAX) \<subseteq> {..<CSP_CONN_MAX}" by (auto simp: search_order_def)
  ultimately show ?thesis by (rule antisym [rotated])
qed

definition is_closed :: "node \<Rightarrow> nat \<Rightarrow> bool" where
  "is_closed s i \<longleftrightarrow> c_state (arr_conn s ! i) = CONN_CLOSED"

lemma allocate_loop_eq:
  assumes "length (arr_conn s) = CSP_CONN_MAX"
  shows "csp_conn_allocate_loop js i s =
    Some (case find (is_closed s) (search_order i (length js)) of
       None \<Rightarrow> (None, s)
     | Some n \<Rightarrow> (Some n, (put_conn n ((arr_conn s ! n)\<lparr>c_state := CONN_OPEN\<rparr>) s)\<lparr>csp_conn_last_given := of_nat n\<rparr>))"
proof (induction js arbitrary: i)
  case Nil
  then show ?case by (simp add: search_order_def)
next
  case (Cons j js)
  have "(i + 1) mod 8 < length (arr_conn s)" using assms by simp
  then show ?case by (simp add: search_order_Suc Cons is_closed_def get_conn_eq Let_def)
qed

text \<open>The next connection that is handed out.\<close>

definition next_conn :: "node \<Rightarrow> nat option" where
  "next_conn s = find (is_closed s) (search_order (unat (csp_conn_last_given s)) CSP_CONN_MAX)"

lemma next_conn_Some: "next_conn s = Some n \<Longrightarrow> n < CSP_CONN_MAX \<and> c_state (arr_conn s ! n) = CONN_CLOSED"
proof -
  assume "next_conn s = Some n"
  then have "n \<in> set (search_order (unat (csp_conn_last_given s)) CSP_CONN_MAX)" "is_closed s n"
    by (auto simp: next_conn_def find_Some_iff)
  then show ?thesis unfolding set_search_order by (simp add: is_closed_def)
qed

lemma next_conn_None: "next_conn s = None \<longleftrightarrow> (\<forall>i < CSP_CONN_MAX. c_state (arr_conn s ! i) = CONN_OPEN)"
proof -
  have "next_conn s = None \<longleftrightarrow> (\<forall>i \<in> set (search_order (unat (csp_conn_last_given s)) CSP_CONN_MAX). \<not> is_closed s i)"
    by (auto simp: next_conn_def find_None_iff)
  moreover have "\<not> is_closed s i \<longleftrightarrow> c_state (arr_conn s ! i) = CONN_OPEN" for i
    by (cases "c_state (arr_conn s ! i)") (simp_all add: is_closed_def)
  ultimately show ?thesis unfolding set_search_order by (simp only: lessThan_iff Ball_def)
qed

text \<open>A connection as it is when it is handed out.\<close>

definition fresh_conn :: "csp_id_t \<Rightarrow> csp_id_t \<Rightarrow> csp_conn_type_t \<Rightarrow> u32 \<Rightarrow> csp_conn_t \<Rightarrow> csp_conn_t" where
  "fresh_conn idi ido type t c = c\<lparr>c_state := CONN_OPEN, c_type := type, idin := idi, idout := ido, timestamp := t\<rparr>"

lemma fresh_conn_simps [simp]:
  "c_state (fresh_conn idi ido type t c) = CONN_OPEN" "c_type (fresh_conn idi ido type t c) = type"
  "idin (fresh_conn idi ido type t c) = idi" "idout (fresh_conn idi ido type t c) = ido"
  "sport_outgoing (fresh_conn idi ido type t c) = sport_outgoing c" "rx_queue (fresh_conn idi ido type t c) = rx_queue c"
  "dest_socket (fresh_conn idi ido type t c) = dest_socket c"
  by (simp_all add: fresh_conn_def)

lemma accounts_conn_new:
  assumes "accounts H s" "length (arr_conn s) = CSP_CONN_MAX"
  shows "\<exists>s' q. csp_conn_new idi ido type s = Some (next_conn s, s') \<and> accounts H s' \<and> env s' = env s \<and>
    (\<forall>k. get_packet k s' = get_packet k s) \<and> sockets s' = sockets s \<and>
    (case next_conn s of
       None \<Rightarrow> arr_conn s' = arr_conn s
     | Some n \<Rightarrow> queue_list q = [] \<and> queue_wf q \<and> qsize q = qsize (rx_queue (arr_conn s ! n)) \<and>
         arr_conn s' = (arr_conn s)[n := (fresh_conn idi ido type (now s) (arr_conn s ! n))\<lparr>rx_queue := q\<rparr>])"
proof (cases "next_conn s")
  case None
  then show ?thesis using assms(1)
    by (simp add: csp_conn_new_def csp_conn_allocate_def allocate_loop_eq [OF assms(2)] next_conn_def)
next
  case (Some n)
  then have n: "n < length (arr_conn s)" using next_conn_Some [OF Some] assms(2) by simp
  let ?c = "arr_conn s ! n"
  let ?s1 = "(put_conn n (?c\<lparr>c_state := CONN_OPEN\<rparr>) s)\<lparr>csp_conn_last_given := of_nat n\<rparr>"
  let ?f = "(fresh_conn idi ido type (now s) ?c)"
  let ?s2 = "put_conn n ?f ?s1"
  have lg: "put_conn n c (s'\<lparr>csp_conn_last_given := l\<rparr>) = (put_conn n c s')\<lparr>csp_conn_last_given := l\<rparr>" for c s' l
    by (simp add: put_conn_def)
  have "accounts H (put_conn n ?f s)" by (rule accounts_conn_same [OF assms(1) n]) simp
  then have a: "accounts H ?s2" by (simp add: lg)
  obtain s' q where s': "csp_conn_flush_rx_queue n ?s2 = Some (CSP_ERR_NONE, s')" "accounts H s'" "env s' = env ?s2"
    "\<forall>k. get_packet k s' = get_packet k ?s2" "sockets s' = sockets ?s2"
    "arr_conn s' = (arr_conn ?s2)[n := (arr_conn ?s2 ! n)\<lparr>rx_queue := q\<rparr>]" "queue_list q = []" "queue_wf q"
    "qsize q = qsize (rx_queue (arr_conn ?s2 ! n))"
    using accounts_flush [OF a, of n] n by auto
  have "csp_conn_allocate type s = Some (Some n, put_conn n (?c\<lparr>c_state := CONN_OPEN, timestamp := 0, c_type := type,
      idin := (idin ?c)\<lparr>flags := 0\<rparr>, idout := (idout ?c)\<lparr>flags := 0\<rparr>\<rparr>) ?s1)"
    using Some n by (simp add: csp_conn_allocate_def allocate_loop_eq [OF assms(2)] next_conn_def [symmetric] upd_conn_eq)
      (simp add: next_conn_def upd_conn_eq)
  then have "csp_conn_new idi ido type s = do { (_, s) \<leftarrow> csp_conn_flush_rx_queue n ?s2; Some (Some n, s) }"
    using n by (simp add: csp_conn_new_def upd_conn_eq fresh_conn_def)
  then show ?thesis using s' n Some by (intro exI [of _ s'] exI [of _ q]) simp
qed

section \<open>Identification of connections\<close>

text \<open>
  Outgoing connections are identified by their source port; incoming ones by the ports and the
  address of the sender, on ports that can be bound.
\<close>

definition server_key :: "csp_id_t \<Rightarrow> u8 \<times> u8 \<times> u16" where
  "server_key i = (dport i, sport i, src i)"

definition conn_inv :: "node \<Rightarrow> bool" where
  "conn_inv s \<longleftrightarrow> length (arr_conn s) = CSP_CONN_MAX \<and>
     (\<forall>i < CSP_CONN_MAX. sport_outgoing (arr_conn s ! i) = of_nat (CSP_PORT_MAX_BIND + 1 + i)) \<and>
     (\<forall>i < CSP_CONN_MAX. c_state (arr_conn s ! i) = CONN_OPEN \<longrightarrow>
        (if c_type (arr_conn s ! i) = CONN_CLIENT then dport (idin (arr_conn s ! i)) = sport_outgoing (arr_conn s ! i)
         else unat (dport (idin (arr_conn s ! i))) \<le> CSP_PORT_MAX_BIND)) \<and>
     (\<forall>i < CSP_CONN_MAX. \<forall>j < CSP_CONN_MAX. c_state (arr_conn s ! i) = CONN_OPEN \<longrightarrow> c_state (arr_conn s ! j) = CONN_OPEN \<longrightarrow>
        c_type (arr_conn s ! i) = CONN_SERVER \<longrightarrow> c_type (arr_conn s ! j) = CONN_SERVER \<longrightarrow>
        server_key (idin (arr_conn s ! i)) = server_key (idin (arr_conn s ! j)) \<longrightarrow> i = j)"

lemma conn_inv_cong: "arr_conn s' = arr_conn s \<Longrightarrow> conn_inv s' = conn_inv s"
  by (simp only: conn_inv_def)

lemma outgoing_port_inj:
  assumes "i < CSP_CONN_MAX" "j < CSP_CONN_MAX" "(of_nat (CSP_PORT_MAX_BIND + 1 + i) :: u8) = of_nat (CSP_PORT_MAX_BIND + 1 + j)"
  shows "i = j"
proof -
  have "unat (of_nat (CSP_PORT_MAX_BIND + 1 + i) :: u8) = unat (of_nat (CSP_PORT_MAX_BIND + 1 + j) :: u8)" by (simp only: assms(3))
  then show ?thesis using assms(1,2) by (simp del: of_nat_add of_nat_Suc add: unat_of_nat_less)
qed

lemma outgoing_port_high: "i < CSP_CONN_MAX \<Longrightarrow> CSP_PORT_MAX_BIND < unat (of_nat (CSP_PORT_MAX_BIND + 1 + i) :: u8)"
  by (simp del: of_nat_add of_nat_Suc)

lemma existing_match_unique:
  assumes "conn_inv s" "i < CSP_CONN_MAX" "j < CSP_CONN_MAX" "existing_match ident (arr_conn s ! i)" "existing_match ident (arr_conn s ! j)"
  shows "i = j"
proof -
  have o: "c_state (arr_conn s ! i) = CONN_OPEN" "c_state (arr_conn s ! j) = CONN_OPEN"
    using assms(4,5) by (simp_all add: existing_match_def)
  have d: "dport (idin (arr_conn s ! i)) = dport (idin (arr_conn s ! j))"
    using assms(4,5) by (auto simp: existing_match_def split: if_splits)
  have p: "if c_type (arr_conn s ! k) = CONN_CLIENT then dport (idin (arr_conn s ! k)) = of_nat (CSP_PORT_MAX_BIND + 1 + k)
      else unat (dport (idin (arr_conn s ! k))) \<le> CSP_PORT_MAX_BIND" if "k = i \<or> k = j" for k
    using assms(1-3) that o by (auto simp: conn_inv_def)
  show ?thesis
  proof (cases "c_type (arr_conn s ! i)"; cases "c_type (arr_conn s ! j)")
    assume "c_type (arr_conn s ! i) = CONN_CLIENT" "c_type (arr_conn s ! j) = CONN_CLIENT"
    then show ?thesis using outgoing_port_inj [OF assms(2,3)] d p [of i] p [of j] by simp
  next
    assume "c_type (arr_conn s ! i) = CONN_CLIENT" "c_type (arr_conn s ! j) = CONN_SERVER"
    then show ?thesis using outgoing_port_high [OF assms(2)] d p [of i] p [of j] by simp
  next
    assume "c_type (arr_conn s ! i) = CONN_SERVER" "c_type (arr_conn s ! j) = CONN_CLIENT"
    then show ?thesis using outgoing_port_high [OF assms(3)] d p [of i] p [of j] by simp
  next
    assume t: "c_type (arr_conn s ! i) = CONN_SERVER" "c_type (arr_conn s ! j) = CONN_SERVER"
    then have "server_key (idin (arr_conn s ! i)) = server_key (idin (arr_conn s ! j))"
      using assms(4,5) by (simp add: existing_match_def server_key_def)
    then show ?thesis using assms(1-3) o t by (simp add: conn_inv_def)
  qed
qed

lemma find_existing_iff:
  assumes "conn_inv s" "i < CSP_CONN_MAX"
  shows "csp_conn_find_existing ident s = Some i \<longleftrightarrow> existing_match ident (arr_conn s ! i)"
proof
  assume "csp_conn_find_existing ident s = Some i"
  then show "existing_match ident (arr_conn s ! i)" by (auto simp: csp_conn_find_existing_def find_Some_iff)
next
  assume m: "existing_match ident (arr_conn s ! i)"
  then have "csp_conn_find_existing ident s \<noteq> None" using assms(2) by (auto simp: csp_conn_find_existing_def find_None_iff)
  then obtain j where "csp_conn_find_existing ident s = Some j" by blast
  moreover from this have "j < CSP_CONN_MAX" "existing_match ident (arr_conn s ! j)"
    by (auto simp: csp_conn_find_existing_def find_Some_iff nth_append simp del: upt_rec_numeral)
  ultimately show "csp_conn_find_existing ident s = Some i" using existing_match_unique [OF assms _ m] by blast
qed

lemma find_existing_None:
  "csp_conn_find_existing ident s = None \<longleftrightarrow> (\<forall>i < CSP_CONN_MAX. \<not> existing_match ident (arr_conn s ! i))"
  by (auto simp: csp_conn_find_existing_def find_None_iff)

lemma find_existing_Some:
  assumes "csp_conn_find_existing ident s = Some i"
  shows "i < CSP_CONN_MAX" "existing_match ident (arr_conn s ! i)"
  using assms by (auto simp: csp_conn_find_existing_def find_Some_iff simp del: upt_rec_numeral)

text \<open>A new incoming connection.\<close>

lemma conn_inv_new_server:
  assumes "conn_inv s" "csp_conn_find_existing idi s = None" "unat (dport idi) \<le> CSP_PORT_MAX_BIND"
    "n < CSP_CONN_MAX" "arr_conn s' = (arr_conn s)[n := c]"
    "c_state c = CONN_OPEN" "c_type c = CONN_SERVER" "idin c = idi" "sport_outgoing c = sport_outgoing (arr_conn s ! n)"
  shows "conn_inv s' \<and> csp_conn_find_existing idi s' = Some n"
proof -
  have len: "length (arr_conn s) = CSP_CONN_MAX" using assms(1) by (simp add: conn_inv_def)
  have at: "arr_conn s' ! i = (if i = n then c else arr_conn s ! i)" if "i < CSP_CONN_MAX" for i
    using assms(5) len that by (auto simp: nth_update_at)
  have new: "server_key (idin (arr_conn s ! i)) \<noteq> server_key idi"
    if "i < CSP_CONN_MAX" "c_state (arr_conn s ! i) = CONN_OPEN" "c_type (arr_conn s ! i) = CONN_SERVER" for i
    using assms(2) that unfolding find_existing_None by (auto simp: existing_match_def server_key_def)
  have c1: "length (arr_conn s') = CSP_CONN_MAX" using assms(5) len by simp
  have c2: "sport_outgoing (arr_conn s' ! i) = of_nat (CSP_PORT_MAX_BIND + 1 + i)" if "i < CSP_CONN_MAX" for i
    using assms(1,4,9) at [OF that] that by (simp add: conn_inv_def)
  have c3: "if c_type (arr_conn s' ! i) = CONN_CLIENT then dport (idin (arr_conn s' ! i)) = sport_outgoing (arr_conn s' ! i)
      else unat (dport (idin (arr_conn s' ! i))) \<le> CSP_PORT_MAX_BIND"
    if "i < CSP_CONN_MAX" "c_state (arr_conn s' ! i) = CONN_OPEN" for i
    using assms(1,3,7,8) at [OF that(1)] that by (auto simp: conn_inv_def split: if_splits)
  have c4: "i = j" if "i < CSP_CONN_MAX" "j < CSP_CONN_MAX" "c_state (arr_conn s' ! i) = CONN_OPEN" "c_state (arr_conn s' ! j) = CONN_OPEN"
      "c_type (arr_conn s' ! i) = CONN_SERVER" "c_type (arr_conn s' ! j) = CONN_SERVER"
      "server_key (idin (arr_conn s' ! i)) = server_key (idin (arr_conn s' ! j))" for i j
  proof (cases "i = n"; cases "j = n")
    assume "i \<noteq> n" "j \<noteq> n"
    then show ?thesis using that assms(1) at [OF that(1)] at [OF that(2)] unfolding conn_inv_def by metis
  qed (use that new [of i] new [of j] at [OF that(1)] at [OF that(2)] assms(8) in auto)
  have inv: "conn_inv s'" unfolding conn_inv_def using c1 c2 c3 c4 by blast
  have "existing_match idi (arr_conn s' ! n)" using at [OF assms(4)] assms(6-8) by (simp add: existing_match_def)
  then show ?thesis using inv find_existing_iff [OF inv assms(4)] by simp
qed

text \<open>A new connection of a client.\<close>

lemma conn_inv_new_client:
  assumes "conn_inv s" "n < CSP_CONN_MAX" "arr_conn s' = (arr_conn s)[n := c]" "c_type c = CONN_CLIENT"
    "dport (idin c) = sport_outgoing (arr_conn s ! n)" "sport_outgoing c = sport_outgoing (arr_conn s ! n)"
  shows "conn_inv s'"
proof -
  have len: "length (arr_conn s) = CSP_CONN_MAX" using assms(1) by (simp add: conn_inv_def)
  have at: "arr_conn s' ! i = (if i = n then c else arr_conn s ! i)" if "i < CSP_CONN_MAX" for i
    using assms(3) len that by (auto simp: nth_update_at)
  have c1: "length (arr_conn s') = CSP_CONN_MAX" using assms(3) len by simp
  have c2: "sport_outgoing (arr_conn s' ! i) = of_nat (CSP_PORT_MAX_BIND + 1 + i)" if "i < CSP_CONN_MAX" for i
    using assms(1,2,6) at [OF that] that by (simp add: conn_inv_def)
  have c3: "if c_type (arr_conn s' ! i) = CONN_CLIENT then dport (idin (arr_conn s' ! i)) = sport_outgoing (arr_conn s' ! i)
      else unat (dport (idin (arr_conn s' ! i))) \<le> CSP_PORT_MAX_BIND"
    if "i < CSP_CONN_MAX" "c_state (arr_conn s' ! i) = CONN_OPEN" for i
    using assms(1,4-6) at [OF that(1)] that by (auto simp: conn_inv_def split: if_splits)
  have c4: "i = j" if "i < CSP_CONN_MAX" "j < CSP_CONN_MAX" "c_state (arr_conn s' ! i) = CONN_OPEN" "c_state (arr_conn s' ! j) = CONN_OPEN"
      "c_type (arr_conn s' ! i) = CONN_SERVER" "c_type (arr_conn s' ! j) = CONN_SERVER"
      "server_key (idin (arr_conn s' ! i)) = server_key (idin (arr_conn s' ! j))" for i j
  proof -
    have "i \<noteq> n" "j \<noteq> n" using that at assms(4) by auto
    then show ?thesis using that assms(1) at [OF that(1)] at [OF that(2)] unfolding conn_inv_def by metis
  qed
  show ?thesis unfolding conn_inv_def using c1 c2 c3 c4 by blast
qed

section \<open>Initialisation\<close>

lemma conn_init_loop:
  assumes "\<forall>i \<in> set is. i < length (arr_conn s)" "distinct is"
  shows "\<exists>s'. csp_conn_init_loop is s = Some ((), s') \<and> length (arr_conn s') = length (arr_conn s) \<and>
    (\<forall>i < length (arr_conn s). i \<notin> set is \<longrightarrow> arr_conn s' ! i = arr_conn s ! i) \<and>
    (\<forall>i \<in> set is. sport_outgoing (arr_conn s' ! i) = of_nat (CSP_PORT_MAX_BIND + 1 + i) \<and>
       c_state (arr_conn s' ! i) = CONN_CLOSED \<and> rx_queue (arr_conn s' ! i) = empty_queue CSP_CONN_RXQUEUE_LEN \<and>
       rdp_state (rdp (arr_conn s' ! i)) = RDP_CLOSED \<and> tx_wait (rdp (arr_conn s' ! i)) = 1)"
  using assms
proof (induction "is" arbitrary: s)
  case Nil
  then show ?case by simp
next
  case (Cons i js)
  let ?c = "arr_conn s ! i"
  let ?d = "?c\<lparr>sport_outgoing := of_nat (CSP_PORT_MAX_BIND + 1 + i), c_state := CONN_CLOSED,
       idin := (idin ?c)\<lparr>flags := 0\<rparr>, rx_queue := empty_queue CSP_CONN_RXQUEUE_LEN\<rparr>"
  let ?r = "csp_bin_sem_init ((rdp ?c)\<lparr>rdp_state := RDP_CLOSED, closed_by := 0,
       conn_timeout := csp_rdp_conn_timeout s, packet_timeout := csp_rdp_packet_timeout s\<rparr>)"
  let ?s = "put_conn i (?d\<lparr>rdp := ?r\<rparr>) s"
  have i: "i < length (arr_conn s)" using Cons(2) by simp
  have f: "csp_rdp_conn_timeout (put_conn i c s) = csp_rdp_conn_timeout s"
    "csp_rdp_packet_timeout (put_conn i c s) = csp_rdp_packet_timeout s" for c by (simp_all add: put_conn_def)
  have e: "csp_conn_init_loop (i # js) s = csp_conn_init_loop js ?s"
    using i by (simp add: csp_queue_create_static_eq upd_conn_eq csp_rdp_init_def upd_rdp_eq f)
  have "\<forall>j \<in> set js. j < length (arr_conn ?s)" "distinct js" using Cons(2,3) by simp_all
  from Cons(1) [OF this] obtain s' where s': "csp_conn_init_loop js ?s = Some ((), s')"
    "length (arr_conn s') = length (arr_conn s)" "\<forall>j < length (arr_conn s). j \<notin> set js \<longrightarrow> arr_conn s' ! j = arr_conn ?s ! j"
    "\<forall>j \<in> set js. sport_outgoing (arr_conn s' ! j) = of_nat (CSP_PORT_MAX_BIND + 1 + j) \<and>
       c_state (arr_conn s' ! j) = CONN_CLOSED \<and> rx_queue (arr_conn s' ! j) = empty_queue CSP_CONN_RXQUEUE_LEN \<and>
       rdp_state (rdp (arr_conn s' ! j)) = RDP_CLOSED \<and> tx_wait (rdp (arr_conn s' ! j)) = 1" by auto
  have "arr_conn s' ! i = ?d\<lparr>rdp := ?r\<rparr>" using s'(3) i Cons(3) by simp
  then show ?case using e s' i Cons(3) by (intro exI [of _ s']) (auto simp: csp_bin_sem_init_def)
qed

lemma conn_init_inv:
  assumes "length (arr_conn s) = CSP_CONN_MAX"
  shows "\<exists>s'. csp_conn_init s = Some ((), s') \<and> conn_inv s' \<and>
    (\<forall>i < CSP_CONN_MAX. c_state (arr_conn s' ! i) = CONN_CLOSED \<and> rdp_state (rdp (arr_conn s' ! i)) = RDP_CLOSED \<and>
       queue_wf (rx_queue (arr_conn s' ! i)) \<and> queue_list (rx_queue (arr_conn s' ! i)) = [])"
proof -
  have "\<forall>i \<in> set [0..<CSP_CONN_MAX]. i < length (arr_conn s)" using assms by auto
  from conn_init_loop [OF this distinct_upt] obtain s' where s': "csp_conn_init s = Some ((), s')"
    "length (arr_conn s') = CSP_CONN_MAX"
    "\<forall>i \<in> set [0..<CSP_CONN_MAX]. sport_outgoing (arr_conn s' ! i) = of_nat (CSP_PORT_MAX_BIND + 1 + i) \<and>
       c_state (arr_conn s' ! i) = CONN_CLOSED \<and> rx_queue (arr_conn s' ! i) = empty_queue CSP_CONN_RXQUEUE_LEN \<and>
       rdp_state (rdp (arr_conn s' ! i)) = RDP_CLOSED \<and> tx_wait (rdp (arr_conn s' ! i)) = 1"
    using assms unfolding csp_conn_init_def by auto
  have p: "sport_outgoing (arr_conn s' ! i) = of_nat (CSP_PORT_MAX_BIND + 1 + i)" "c_state (arr_conn s' ! i) = CONN_CLOSED"
    "rx_queue (arr_conn s' ! i) = empty_queue CSP_CONN_RXQUEUE_LEN" "rdp_state (rdp (arr_conn s' ! i)) = RDP_CLOSED"
    if "i < CSP_CONN_MAX" for i using s'(3) that by (simp_all del: upt_rec_numeral CSP_CONN_MAX_def)
  have "conn_inv s'" unfolding conn_inv_def using s'(2) p(1,2) by (simp only: csp_conn_state_t.distinct) simp
  then show ?thesis using s'(1) p by (auto simp: empty_queue_props)
qed

section \<open>Properties\<close>

text \<open>Initialising the connection table gives every connection a source port of its own, and leaves all of them
  closed with an empty receive queue.\<close>

theorem csp_conn_init_inv:
  assumes "length (arr_conn s) = CSP_CONN_MAX"
  shows "\<exists>s'. csp_conn_init s = Some ((), s') \<and> conn_inv s' \<and>
    (\<forall>i < CSP_CONN_MAX. c_state (arr_conn s' ! i) = CONN_CLOSED \<and> rdp_state (rdp (arr_conn s' ! i)) = RDP_CLOSED \<and>
       queue_wf (rx_queue (arr_conn s' ! i)) \<and> queue_list (rx_queue (arr_conn s' ! i)) = [])"
  using assms by (rule conn_init_inv)

text \<open>An identifier belongs to at most one connection: the search by identifier finds a connection exactly when it is
  that connection's peer and ports that the identifier names.\<close>

theorem csp_conn_find_existing_unique:
  assumes "conn_inv s" "i < CSP_CONN_MAX"
  shows "csp_conn_find_existing ident s = Some i \<longleftrightarrow> existing_match ident (arr_conn s ! i)"
  using assms by (rule find_existing_iff)

text \<open>C14: A new incoming connection takes a closed entry of the table (the next one in round-robin order) with an empty
  queue, keeps the identifiers of all connections distinct and is then found by its identifier; only when
  all connections are open there is none. No buffer is lost on the way.\<close>

theorem csp_conn_new_server:
  assumes "conn_inv s" "accounts H s" "csp_conn_find_existing ident s = None" "unat (dport ident) \<le> CSP_PORT_MAX_BIND"
  shows "\<exists>r s'. csp_conn_new ident ido CONN_SERVER s = Some (r, s') \<and> accounts H s' \<and> conn_inv s' \<and>
    (case r of
       None \<Rightarrow> \<forall>i < CSP_CONN_MAX. c_state (arr_conn s ! i) = CONN_OPEN
     | Some n \<Rightarrow> n < CSP_CONN_MAX \<and> c_state (arr_conn s ! n) = CONN_CLOSED \<and> csp_conn_find_existing ident s' = Some n \<and>
         queue_list (rx_queue (arr_conn s' ! n)) = [])"
proof -
  have len: "length (arr_conn s) = CSP_CONN_MAX" using assms(1) by (simp add: conn_inv_def)
  from accounts_conn_new [OF assms(2) len, of ident ido CONN_SERVER] obtain s' q where s':
    "csp_conn_new ident ido CONN_SERVER s = Some (next_conn s, s')" "accounts H s'"
    "case next_conn s of
       None \<Rightarrow> arr_conn s' = arr_conn s
     | Some n \<Rightarrow> queue_list q = [] \<and> queue_wf q \<and> qsize q = qsize (rx_queue (arr_conn s ! n)) \<and>
         arr_conn s' = (arr_conn s)[n := (fresh_conn ident ido CONN_SERVER (now s) (arr_conn s ! n))\<lparr>rx_queue := q\<rparr>]"
    by blast
  show ?thesis
  proof (cases "next_conn s")
    case None
    then have "conn_inv s'" using s'(3) assms(1) conn_inv_cong [of s' s] by simp
    then show ?thesis using s' None next_conn_None [of s] by simp
  next
    case (Some n)
    have q: "queue_list q = []"
      "arr_conn s' = (arr_conn s)[n := (fresh_conn ident ido CONN_SERVER (now s) (arr_conn s ! n))\<lparr>rx_queue := q\<rparr>]"
      using s'(3) Some by simp_all
    note n = next_conn_Some [OF Some]
    have "conn_inv s' \<and> csp_conn_find_existing ident s' = Some n"
      by (rule conn_inv_new_server [OF assms(1,3,4) conjunct1 [OF n] q(2)]) simp_all
    then show ?thesis using s'(1,2) Some n q len by (intro exI [of _ "Some n"] exI [of _ s']) simp
  qed
qed

text \<open>A node with a connection table, all of it closed.\<close>

definition zero_rdp :: csp_rdp_t where
  [csp_defs]: "zero_rdp = \<lparr>rdp_state = RDP_CLOSED, closed_by = 0, snd_nxt = 0, snd_una = 0, snd_iss = 0, rcv_cur = 0, rcv_irs = 0,
     rcv_lsa = 0, window_size = 0, conn_timeout = 0, packet_timeout = 0, delayed_acks = 0, ack_timeout = 0,
     ack_delay_count = 0, ack_timestamp = 0, tx_wait = 1\<rparr>"

definition zero_conn :: csp_conn_t where
  [csp_defs]: "zero_conn = \<lparr>c_type = CONN_CLIENT, c_state = CONN_CLOSED, idin = zero_id, idout = zero_id,
     sport_outgoing = 0, rx_queue = empty_queue CSP_CONN_RXQUEUE_LEN, dest_socket = None, timestamp = 0, c_opts = 0,
     rdp = zero_rdp\<rparr>"

definition ready_node :: node where
  "ready_node = held_node\<lparr>arr_conn := map (\<lambda>i. zero_conn\<lparr>sport_outgoing := of_nat (CSP_PORT_MAX_BIND + 1 + i)\<rparr>) [0..<CSP_CONN_MAX]\<rparr>"

lemma ready_node_inv: "conn_inv ready_node"
  by (simp add: conn_inv_def ready_node_def zero_conn_def del: upt_rec_numeral)

lemma ready_node_accounts: "accounts (mset_set {..<CSP_BUFFER_COUNT}) ready_node"
proof -
  have a: "accounts (mset_set {..<CSP_BUFFER_COUNT}) held_node" by (rule held_node_accounts)
  have "concat (map conn_packets (arr_conn ready_node)) = []" "arr_conn held_node = []"
    by (simp_all add: ready_node_def held_node_def zero_node_def zero_conn_def conn_packets_def del: upt_rec_numeral)
  then have "queued ready_node = queued held_node"
    by (simp add: queued_def) (simp add: ready_node_def qfifo_packets_def promisc_packets_def rdp_packets_def)
  moreover have "queues_inv ready_node"
    using a by (simp add: accounts_def queues_inv_def ready_node_def zero_conn_def)
  moreover have "pool_inv ready_node" "free_list ready_node = free_list held_node"
    using a by (simp_all add: accounts_def ready_node_def)
  ultimately show ?thesis using a by (simp add: accounts_def)
qed

theorem csp_conn_init_inv_witness:
  "\<exists>s'. csp_conn_init ready_node = Some ((), s') \<and> conn_inv s'"
  using csp_conn_init_inv [of ready_node] by (auto simp: ready_node_def)

definition server_node :: node where
  "server_node = put_conn 2 ((arr_conn ready_node ! 2)\<lparr>c_state := CONN_OPEN, c_type := CONN_SERVER,
     idin := zero_id\<lparr>src := 7, dport := 10, sport := 40\<rparr>\<rparr>) ready_node"

lemma server_node_inv: "conn_inv server_node" "csp_conn_find_existing (zero_id\<lparr>src := 8, dport := 10, sport := 40\<rparr>) server_node = None"
  "accounts (mset_set {..<CSP_BUFFER_COUNT}) server_node"
proof -
  show "accounts (mset_set {..<CSP_BUFFER_COUNT}) server_node" unfolding server_node_def
    by (rule accounts_conn_same [OF ready_node_accounts]) (simp_all add: ready_node_def)
  have at: "arr_conn server_node ! i = (if i = 2 then (arr_conn ready_node ! 2)\<lparr>c_state := CONN_OPEN, c_type := CONN_SERVER,
     idin := zero_id\<lparr>src := 7, dport := 10, sport := 40\<rparr>\<rparr> else arr_conn ready_node ! i)" if "i < 8" for i
    using that by (simp add: server_node_def ready_node_def nth_update_at del: upt_rec_numeral)
  have cl: "c_state (arr_conn ready_node ! i) = CONN_CLOSED" if "i < 8" for i
    using that by (simp add: ready_node_def zero_conn_def del: upt_rec_numeral)
  show "csp_conn_find_existing (zero_id\<lparr>src := 8, dport := 10, sport := 40\<rparr>) server_node = None"
    unfolding find_existing_None by (auto simp: at cl existing_match_def zero_id_def)
  have none: "csp_conn_find_existing (zero_id\<lparr>src := 7, dport := 10, sport := 40\<rparr>) ready_node = None"
    unfolding find_existing_None by (auto simp: cl existing_match_def)
  have "conn_inv server_node \<and> csp_conn_find_existing (zero_id\<lparr>src := 7, dport := 10, sport := 40\<rparr>) server_node = Some 2"
    by (rule conn_inv_new_server [OF ready_node_inv none, where n = 2 and c = "arr_conn server_node ! 2"])
      (simp_all add: at, simp add: server_node_def ready_node_def del: upt_rec_numeral)
  then show "conn_inv server_node" by simp
qed

theorem csp_conn_find_existing_unique_witness:
  "csp_conn_find_existing (zero_id\<lparr>src := 7, dport := 10, sport := 40\<rparr>) server_node = Some 2"
  using csp_conn_find_existing_unique [OF server_node_inv(1), of 2 "zero_id\<lparr>src := 7, dport := 10, sport := 40\<rparr>"]
  by (simp add: existing_match_def server_node_def ready_node_def del: upt_rec_numeral)

theorem csp_conn_new_server_witness:
  "\<exists>r s'. csp_conn_new (zero_id\<lparr>src := 8, dport := 10, sport := 40\<rparr>) zero_id CONN_SERVER server_node = Some (r, s') \<and> conn_inv s'"
  using csp_conn_new_server [OF server_node_inv(1,3,2), of zero_id] by auto

end
