(* ===== verification/Csp_Sha1.thy ===== *)
theory Csp_Sha1
  imports Csp_Prelude
begin

text \<open>
  SHA-1 (\<^verbatim>\<open>src/crypto/csp_sha1.c\<close>): the compression function with its unrolled rounds, the
  incremental interface with its block buffer, and the proof that the digest computed through
  it is the digest of the standard's definition on the padded message.
\<close>

section \<open>Model\<close>

definition CSP_SHA1_BLOCKSIZE :: nat where [simp]: "CSP_SHA1_BLOCKSIZE = 64"
definition CSP_SHA1_DIGESTSIZE :: nat where [simp]: "CSP_SHA1_DIGESTSIZE = 20"

record csp_sha1_state_t =
  sha_length :: u64
  sha_state :: "u32 list"
  curlen :: u32
  sha_buf :: "u8 list"

definition ROL :: "u32 \<Rightarrow> nat \<Rightarrow> u32" where
  "ROL x y = push_bit y x OR drop_bit (32 - y) x"

definition STORE32H :: "u32 \<Rightarrow> u8 list" where
  "STORE32H x = [ucast (drop_bit 24 x AND 0xFF), ucast (drop_bit 16 x AND 0xFF),
                 ucast (drop_bit 8 x AND 0xFF), ucast (drop_bit 0 x AND 0xFF)]"

definition LOAD32H :: "u8 list \<Rightarrow> nat \<Rightarrow> u32" where
  "LOAD32H y k = push_bit 24 (ucast (y ! k AND 0xFF)) OR push_bit 16 (ucast (y ! (k + 1) AND 0xFF)) OR
     push_bit 8 (ucast (y ! (k + 2) AND 0xFF)) OR push_bit 0 (ucast (y ! (k + 3) AND 0xFF))"

definition STORE64H :: "u64 \<Rightarrow> u8 list" where
  "STORE64H x = [ucast (drop_bit 56 x AND 0xFF), ucast (drop_bit 48 x AND 0xFF),
                 ucast (drop_bit 40 x AND 0xFF), ucast (drop_bit 32 x AND 0xFF),
                 ucast (drop_bit 24 x AND 0xFF), ucast (drop_bit 16 x AND 0xFF),
                 ucast (drop_bit 8 x AND 0xFF), ucast (drop_bit 0 x AND 0xFF)]"

definition F0 :: "u32 \<Rightarrow> u32 \<Rightarrow> u32 \<Rightarrow> u32" where "F0 x y z = z XOR (x AND (y XOR z))"
definition F1 :: "u32 \<Rightarrow> u32 \<Rightarrow> u32 \<Rightarrow> u32" where "F1 x y z = x XOR y XOR z"
definition F2 :: "u32 \<Rightarrow> u32 \<Rightarrow> u32 \<Rightarrow> u32" where "F2 x y z = (x AND y) OR (z AND (x OR y))"
definition F3 :: "u32 \<Rightarrow> u32 \<Rightarrow> u32 \<Rightarrow> u32" where "F3 x y z = x XOR y XOR z"

text \<open>
  The macros \<^verbatim>\<open>FF_0\<close> to \<^verbatim>\<open>FF_3\<close> differ in the function and the constant; they assign the
  variables passed for \<^verbatim>\<open>e\<close> and \<^verbatim>\<open>b\<close>, given here as the result.
\<close>

definition FF :: "(u32 \<Rightarrow> u32 \<Rightarrow> u32 \<Rightarrow> u32) \<Rightarrow> u32 \<Rightarrow> u32 list \<Rightarrow>
    u32 \<Rightarrow> u32 \<Rightarrow> u32 \<Rightarrow> u32 \<Rightarrow> u32 \<Rightarrow> nat \<Rightarrow> u32 \<times> u32" where
  "FF f k W a b c d e i = (ROL a 5 + f b c d + e + W ! i + k, ROL b 30)"

text \<open>The body of one of the four round loops, and the loop from \<open>i\<close> up to its bound.\<close>

definition round_body :: "(u32 \<Rightarrow> u32 \<Rightarrow> u32 \<Rightarrow> u32) \<Rightarrow> u32 \<Rightarrow> u32 list \<Rightarrow> nat \<Rightarrow>
    u32 \<times> u32 \<times> u32 \<times> u32 \<times> u32 \<Rightarrow> u32 \<times> u32 \<times> u32 \<times> u32 \<times> u32" where
  "round_body f k W i = (\<lambda>(a, b, c, d, e).
     let (e, b) = FF f k W a b c d e i;
         (d, a) = FF f k W e a b c d (i + 1);
         (c, e) = FF f k W d e a b c (i + 2);
         (b, d) = FF f k W c d e a b (i + 3);
         (a, c) = FF f k W b c d e a (i + 4)
     in (a, b, c, d, e))"

function round_loop :: "(u32 \<Rightarrow> u32 \<Rightarrow> u32 \<Rightarrow> u32) \<Rightarrow> u32 \<Rightarrow> u32 list \<Rightarrow> nat \<Rightarrow> nat \<Rightarrow>
    u32 \<times> u32 \<times> u32 \<times> u32 \<times> u32 \<Rightarrow> u32 \<times> u32 \<times> u32 \<times> u32 \<times> u32" where
  "round_loop f k W lim i v =
     (if i < lim then round_loop f k W lim (i + 5) (round_body f k W i v) else v)"
  by auto
termination by (relation "measure (\<lambda>(f, k, W, lim, i, v). lim - i)") auto

declare round_loop.simps [simp del]

definition csp_sha1_expand :: "u32 list \<Rightarrow> u32 list" where
  "csp_sha1_expand W0 =
     foldl (\<lambda>W i. W @ [ROL (W ! (i - 3) XOR W ! (i - 8) XOR W ! (i - 14) XOR W ! (i - 16)) 1])
       W0 [16..<80]"

definition csp_sha1_compress :: "u32 list \<Rightarrow> u8 list \<Rightarrow> u32 list" where
  "csp_sha1_compress st buf =
     (let W = csp_sha1_expand (map (\<lambda>i. LOAD32H buf (4 * i)) [0..<16]);
          v = (st ! 0, st ! 1, st ! 2, st ! 3, st ! 4);
          v = round_loop F0 0x5a827999 W 20 0 v;
          v = round_loop F1 0x6ed9eba1 W 40 20 v;
          v = round_loop F2 0x8f1bbcdc W 60 40 v;
          (a, b, c, d, e) = round_loop F3 0xca62c1d6 W 80 60 v
      in [st ! 0 + a, st ! 1 + b, st ! 2 + c, st ! 3 + d, st ! 4 + e])"

text \<open>The buffer is not initialised.\<close>

definition csp_sha1_init :: "csp_sha1_state_t \<Rightarrow> csp_sha1_state_t" where
  "csp_sha1_init sha1 =
     sha1\<lparr>sha_state := [0x67452301, 0xefcdab89, 0x98badcfe, 0x10325476, 0xc3d2e1f0],
          curlen := 0, sha_length := 0\<rparr>"

text \<open>
  The loop over the input; it does not end, or writes outside the buffer, on a state whose
  buffer is already full.
\<close>

partial_function (option) csp_sha1_process ::
  "csp_sha1_state_t \<Rightarrow> u8 list \<Rightarrow> csp_sha1_state_t option" where
  "csp_sha1_process sha1 inp =
     (if length inp > 0 then
        if curlen sha1 = 0 \<and> length inp \<ge> CSP_SHA1_BLOCKSIZE then
          csp_sha1_process
            (sha1\<lparr>sha_state := csp_sha1_compress (sha_state sha1) (take CSP_SHA1_BLOCKSIZE inp),
                  sha_length := sha_length sha1 + of_nat (CSP_SHA1_BLOCKSIZE * 8)\<rparr>)
            (List.drop CSP_SHA1_BLOCKSIZE inp)
        else do {
          let n = min (length inp) (unat (of_nat CSP_SHA1_BLOCKSIZE - curlen sha1));
          b \<leftarrow> mem_write (unat (curlen sha1)) (take n inp) (sha_buf sha1);
          let sha1 = sha1\<lparr>sha_buf := b, curlen := curlen sha1 + of_nat n\<rparr>;
          (if curlen sha1 = of_nat CSP_SHA1_BLOCKSIZE then
             csp_sha1_process
               (sha1\<lparr>sha_state := csp_sha1_compress (sha_state sha1) (sha_buf sha1),
                     sha_length := sha_length sha1 + of_nat (CSP_SHA1_BLOCKSIZE * 8),
                     curlen := 0\<rparr>)
               (List.drop n inp)
           else csp_sha1_process sha1 (List.drop n inp))
        }
      else Some sha1)"

function sha1_zero_fill :: "u32 \<Rightarrow> csp_sha1_state_t \<Rightarrow> csp_sha1_state_t" where
  "sha1_zero_fill lim sha1 =
     (if curlen sha1 < lim
      then sha1_zero_fill lim (sha1\<lparr>sha_buf := (sha_buf sha1)[unat (curlen sha1) := 0],
                                    curlen := curlen sha1 + 1\<rparr>)
      else sha1)"
  by auto
termination
proof (relation "measure (\<lambda>(lim, s). unat lim - unat (curlen s))", goal_cases)
  case (2 lim sha1)
  then show ?case using unat_plus1_less [of "curlen sha1" lim] by (simp add: word_less_nat_alt)
qed simp

declare sha1_zero_fill.simps [simp del]

definition csp_sha1_done :: "csp_sha1_state_t \<Rightarrow> (u8 list \<times> csp_sha1_state_t) option" where
  "csp_sha1_done sha1 = do {
     let sha1 = sha1\<lparr>sha_length := sha_length sha1 + ucast (curlen sha1 * 8)\<rparr>;
     b \<leftarrow> mem_write (unat (curlen sha1)) [0x80] (sha_buf sha1);
     let sha1 = sha1\<lparr>sha_buf := b, curlen := curlen sha1 + 1\<rparr>;
     let sha1 =
       (if curlen sha1 > 56 then
          (let sha1 = sha1_zero_fill 64 sha1
           in sha1\<lparr>sha_state := csp_sha1_compress (sha_state sha1) (sha_buf sha1), curlen := 0\<rparr>)
        else sha1);
     let sha1 = sha1_zero_fill 56 sha1;
     let sha1 = sha1\<lparr>sha_buf := mem_put 56 (STORE64H (sha_length sha1)) (sha_buf sha1)\<rparr>;
     let sha1 = sha1\<lparr>sha_state := csp_sha1_compress (sha_state sha1) (sha_buf sha1)\<rparr>;
     Some (concat (map (\<lambda>i. STORE32H (sha_state sha1 ! i)) [0..<5]), sha1)
   }"

text \<open>\<open>md\<close> is the content of the local variable before it is initialised.\<close>

definition csp_sha1_memory :: "csp_sha1_state_t \<Rightarrow> u8 list \<Rightarrow> u8 list option" where
  "csp_sha1_memory md msg = do {
     md \<leftarrow> csp_sha1_process (csp_sha1_init md) msg;
     (hash, _) \<leftarrow> csp_sha1_done md;
     Some hash
   }"

section \<open>The standard's definition\<close>

text \<open>
  FIPS 180: logical functions and constants by round, one step per round, the message schedule
  and the padding.
\<close>

definition sha_f :: "nat \<Rightarrow> u32 \<Rightarrow> u32 \<Rightarrow> u32 \<Rightarrow> u32" where
  "sha_f t x y z =
     (if t < 20 then (x AND y) OR (NOT x AND z)
      else if t < 40 then x XOR y XOR z
      else if t < 60 then (x AND y) OR (x AND z) OR (y AND z)
      else x XOR y XOR z)"

definition sha_K :: "nat \<Rightarrow> u32" where
  "sha_K t = (if t < 20 then 0x5a827999 else if t < 40 then 0x6ed9eba1
     else if t < 60 then 0x8f1bbcdc else 0xca62c1d6)"

definition sha_step :: "u32 list \<Rightarrow> u32 \<times> u32 \<times> u32 \<times> u32 \<times> u32 \<Rightarrow> nat \<Rightarrow>
    u32 \<times> u32 \<times> u32 \<times> u32 \<times> u32" where
  "sha_step W = (\<lambda>(a, b, c, d, e) t.
     (word_rotl 5 a + sha_f t b c d + e + sha_K t + W ! t, a, word_rotl 30 b, c, d))"

definition sha_schedule :: "u8 list \<Rightarrow> u32 list" where
  "sha_schedule block =
     foldl (\<lambda>W t. W @ [word_rotl 1 (W ! (t - 3) XOR W ! (t - 8) XOR W ! (t - 14) XOR W ! (t - 16))])
       (map (\<lambda>t. le_to_word (rev (take 4 (List.drop (4 * t) block)))) [0..<16]) [16..<80]"

definition sha_block :: "u32 list \<Rightarrow> u8 list \<Rightarrow> u32 list" where
  "sha_block h block =
     (case foldl (sha_step (sha_schedule block)) (h ! 0, h ! 1, h ! 2, h ! 3, h ! 4) [0..<80] of
        (a, b, c, d, e) \<Rightarrow> [h ! 0 + a, h ! 1 + b, h ! 2 + c, h ! 3 + d, h ! 4 + e])"

fun sha_blocks :: "u32 list \<Rightarrow> u8 list \<Rightarrow> u32 list" where
  "sha_blocks h m =
     (if length m < 64 then h else sha_blocks (sha_block h (take 64 m)) (List.drop 64 m))"

declare sha_blocks.simps [simp del]

definition sha_pad :: "u8 list \<Rightarrow> u8 list" where
  "sha_pad m = m @ [0x80] @ replicate ((119 - length m mod 64) mod 64) 0 @
     rev (word_to_le 8 (of_nat (8 * length m) :: u64))"

definition sha_iv :: "u32 list" where
  "sha_iv = [0x67452301, 0xefcdab89, 0x98badcfe, 0x10325476, 0xc3d2e1f0]"

definition sha1_ref :: "u8 list \<Rightarrow> u8 list" where
  "sha1_ref m = concat (map (\<lambda>w. rev (word_to_le 4 w)) (sha_blocks sha_iv (sha_pad m)))"

section \<open>The compression function\<close>

lemma ROL_rotl: "0 < n \<Longrightarrow> n < 32 \<Longrightarrow> ROL x n = word_rotl n x"
  by (rule bit_word_eqI)
    (auto simp: ROL_def bit_simps mod_if not_less dest: bit_imp_le_length; metis add.commute)

lemma mask_FF: "(0xFF :: 'a::len word) = Bit_Operations.mask 8"
  by (simp add: mask_numeral)

lemma ucast_and_FF: "(ucast (x AND 0xFF) :: u8) = ucast (x :: 'a::len word)"
  unfolding mask_FF by (rule bit_word_eqI) (auto simp: bit_simps dest: bit_imp_le_length)

lemma STORE32H_be: "STORE32H w = rev (word_to_le 4 w)"
  by (simp add: STORE32H_def ucast_and_FF word_to_le_def eval_nat_numeral)

lemma STORE64H_be: "STORE64H w = rev (word_to_le 8 w)"
  by (simp add: STORE64H_def ucast_and_FF word_to_le_def eval_nat_numeral)

lemma byte_and_FF: "(b :: u8) AND 0xFF = b"
  unfolding mask_FF by (rule bit_word_eqI) (auto simp: bit_simps)

lemma LOAD32H_be:
  assumes "k + 4 \<le> length y"
  shows "LOAD32H y k = le_to_word (rev (take 4 (List.drop k y)))"
proof -
  have "List.drop k y = y ! k # y ! (k + 1) # y ! (k + 2) # y ! (k + 3) # List.drop (k + 4) y"
    using assms by (simp add: Cons_nth_drop_Suc eval_nat_numeral)
  then have "rev (take 4 (List.drop k y)) = [y ! (k + 3), y ! (k + 2), y ! (k + 1), y ! k]" by simp
  then show ?thesis
    unfolding LOAD32H_def byte_and_FF
    by (intro bit_word_eqI) (auto simp: bit_simps dest: bit_imp_le_length)
qed

lemma F_sha_f:
  "t < 20 \<Longrightarrow> F0 x y z = sha_f t x y z" "20 \<le> t \<Longrightarrow> t < 40 \<Longrightarrow> F1 x y z = sha_f t x y z"
  "40 \<le> t \<Longrightarrow> t < 60 \<Longrightarrow> F2 x y z = sha_f t x y z" "60 \<le> t \<Longrightarrow> F3 x y z = sha_f t x y z"
  by (auto simp: F0_def F1_def F2_def F3_def sha_f_def bit_simps intro!: bit_word_eqI)

lemma round_body_steps:
  assumes "\<And>t x y z. i \<le> t \<Longrightarrow> t < i + 5 \<Longrightarrow> f x y z = sha_f t x y z" "\<And>t. i \<le> t \<Longrightarrow> t < i + 5 \<Longrightarrow> k = sha_K t"
  shows "round_body f k W i v = foldl (sha_step W) v [i..<i + 5]"
proof -
  obtain a b c d e where v: "v = (a, b, c, d, e)" by (cases v) auto
  have u: "[i..<i + 5] = [i, i + 1, i + 2, i + 3, i + 4]" by (simp add: upt_conv_Cons)
  have fs: "f x y z = sha_f i x y z" "f x y z = sha_f (i + 1) x y z" "f x y z = sha_f (i + 2) x y z"
    "f x y z = sha_f (i + 3) x y z" "f x y z = sha_f (i + 4) x y z" for x y z
    by (rule assms(1); simp)+
  have ks: "sha_K i = k" "sha_K (i + 1) = k" "sha_K (i + 2) = k" "sha_K (i + 3) = k" "sha_K (i + 4) = k"
    by (rule assms(2) [symmetric]; simp)+
  show ?thesis
    unfolding v u
    by (simp only: round_body_def sha_step_def FF_def ROL_rotl ks fs(1) [symmetric] fs(2) [symmetric]
        fs(3) [symmetric] fs(4) [symmetric] fs(5) [symmetric] foldl.simps case_prod_conv Let_def)
      (simp add: ROL_rotl ac_simps)
qed

lemma round_loop_steps:
  assumes "\<And>t x y z. lo \<le> t \<Longrightarrow> t < lo + 5 * n \<Longrightarrow> f x y z = sha_f t x y z"
    "\<And>t. lo \<le> t \<Longrightarrow> t < lo + 5 * n \<Longrightarrow> k = sha_K t"
  shows "round_loop f k W (lo + 5 * n) lo v = foldl (sha_step W) v [lo..<lo + 5 * n]"
  using assms
proof (induction n arbitrary: lo v)
  case 0
  then show ?case by (simp add: round_loop.simps)
next
  case (Suc n)
  have e: "lo + 5 * Suc n = (lo + 5) + 5 * n" by simp
  have u: "[lo..<lo + 5 * Suc n] = [lo..<lo + 5] @ [lo + 5..<(lo + 5) + 5 * n]"
    unfolding e using upt_add_eq_append [of lo "lo + 5" "5 * n"] by simp
  have "round_loop f k W (lo + 5 * Suc n) lo v =
      round_loop f k W ((lo + 5) + 5 * n) (lo + 5) (round_body f k W lo v)"
    by (subst round_loop.simps) (simp add: add.assoc)
  also have "\<dots> = foldl (sha_step W) (round_body f k W lo v) [lo + 5..<(lo + 5) + 5 * n]"
    by (rule Suc.IH) (rule Suc.prems; simp)+
  also have "round_body f k W lo v = foldl (sha_step W) v [lo..<lo + 5]"
    by (rule round_body_steps) (rule Suc.prems; simp)+
  finally show ?case unfolding u by simp
qed

lemma schedule_eq:
  assumes "length buf = 64"
  shows "csp_sha1_expand (map (\<lambda>i. LOAD32H buf (4 * i)) [0..<16]) = sha_schedule buf"
proof -
  have "map (\<lambda>i. LOAD32H buf (4 * i)) [0..<16] =
      map (\<lambda>t. le_to_word (rev (take 4 (List.drop (4 * t) buf)))) [0..<16]"
    using assms by (intro map_cong refl LOAD32H_be) simp
  then show ?thesis by (simp only: csp_sha1_expand_def sha_schedule_def ROL_rotl)
qed

lemma csp_sha1_compress_block:
  assumes "length buf = 64"
  shows "csp_sha1_compress st buf = sha_block st buf"
proof -
  let ?W = "sha_schedule buf"
  have "round_loop F0 0x5a827999 ?W 20 0 v = foldl (sha_step ?W) v [0..<20]" for v
    using round_loop_steps [of 0 4 F0 "0x5a827999" ?W v] by (simp add: F_sha_f sha_K_def)
  moreover have "round_loop F1 0x6ed9eba1 ?W 40 20 v = foldl (sha_step ?W) v [20..<40]" for v
    using round_loop_steps [of 20 4 F1 "0x6ed9eba1" ?W v] by (simp add: F_sha_f sha_K_def)
  moreover have "round_loop F2 0x8f1bbcdc ?W 60 40 v = foldl (sha_step ?W) v [40..<60]" for v
    using round_loop_steps [of 40 4 F2 "0x8f1bbcdc" ?W v] by (simp add: F_sha_f sha_K_def)
  moreover have "round_loop F3 0xca62c1d6 ?W 80 60 v = foldl (sha_step ?W) v [60..<80]" for v
    using round_loop_steps [of 60 4 F3 "0xca62c1d6" ?W v] by (simp add: F_sha_f sha_K_def)
  moreover have "[0..<80] = [0..<20] @ [20..<40] @ [40..<60] @ [60..<80::nat]"
    using upt_add_eq_append [of 0 20 60] upt_add_eq_append [of 20 40 40] upt_add_eq_append [of 40 60 20]
    by simp
  ultimately show ?thesis
    by (simp only: csp_sha1_compress_def sha_block_def schedule_eq [OF assms] Let_def foldl_append)
qed

section \<open>The incremental interface\<close>

text \<open>
  \<open>sha_inv m s\<close>: the state \<open>s\<close> has absorbed the message \<open>m\<close>. The whole blocks of
  \<open>m\<close> are compressed and the rest waits in the buffer.
\<close>

definition sha_inv :: "u8 list \<Rightarrow> csp_sha1_state_t \<Rightarrow> bool" where
  "sha_inv m s \<longleftrightarrow> length (sha_buf s) = 64 \<and> unat (curlen s) = length m mod 64 \<and>
     take (length m mod 64) (sha_buf s) = List.drop (64 * (length m div 64)) m \<and>
     sha_length s = of_nat (512 * (length m div 64)) \<and>
     sha_state s = sha_blocks sha_iv (take (64 * (length m div 64)) m)"

lemma sha_blocks_append:
  "length m = 64 * n \<Longrightarrow> sha_blocks h (m @ x) = sha_blocks (sha_blocks h m) x"
proof (induction n arbitrary: h m)
  case 0
  then show ?case by (simp add: sha_blocks.simps [of h "[]"])
next
  case (Suc n)
  then show ?case by (simp add: sha_blocks.simps [of h])
qed

lemma sha_blocks_one: "length b = 64 \<Longrightarrow> sha_blocks h b = sha_block h b"
  by (simp add: sha_blocks.simps)

lemma sha_blocks_snoc:
  "length m = 64 * n \<Longrightarrow> length b = 64 \<Longrightarrow> sha_blocks h (m @ b) = sha_block (sha_blocks h m) b"
  by (simp add: sha_blocks_append sha_blocks_one)

lemma sha_inv_init: "length (sha_buf s) = 64 \<Longrightarrow> sha_inv [] (csp_sha1_init s)"
  by (simp add: sha_inv_def csp_sha1_init_def sha_blocks.simps sha_iv_def)

text \<open>A whole block that goes straight to the compression function.\<close>

lemma sha_inv_direct:
  assumes "sha_inv m s" "curlen s = 0" "length b = 64"
  shows "sha_inv (m @ b) (s\<lparr>sha_state := csp_sha1_compress (sha_state s) b,
    sha_length := sha_length s + of_nat (64 * 8)\<rparr>)"
proof -
  have "64 * (length m div 64) = length m"
    using assms by (simp add: sha_inv_def minus_mod_eq_mult_div [symmetric])
  then obtain k where k: "length m = 64 * k" by metis
  show ?thesis using assms k
    by (simp add: sha_inv_def csp_sha1_compress_block sha_blocks_snoc)
qed

text \<open>Bytes added to the buffer, without and with filling it.\<close>

lemma sha_inv_iff:
  assumes "length m = 64 * k + r" "r < 64"
  shows "sha_inv m s \<longleftrightarrow> length (sha_buf s) = 64 \<and> unat (curlen s) = r \<and>
     take r (sha_buf s) = List.drop (64 * k) m \<and> sha_length s = of_nat (512 * k) \<and>
     sha_state s = sha_blocks sha_iv (take (64 * k) m)"
proof -
  have "length m div 64 = k" "length m mod 64 = r" using assms by simp_all
  then show ?thesis by (simp only: sha_inv_def)
qed

lemma sha_inv_buffer:
  assumes "sha_inv m s" "unat (curlen s) + length x < 64"
  shows "sha_inv (m @ x) (s\<lparr>sha_buf := mem_put (unat (curlen s)) x (sha_buf s),
    curlen := curlen s + of_nat (length x)\<rparr>)"
proof -
  obtain k r where m: "length m = 64 * k + r" "r < 64" by (metis mult_div_mod_eq mod_less_divisor zero_less_numeral)
  note inv = sha_inv_iff [OF m, THEN iffD1, OF assms(1)]
  have r: "r + length x < 64" using inv assms(2) by simp
  have "unat (curlen s + of_nat (length x)) = r + length x"
    using inv r by (simp add: unat_word_ariths unat_of_nat)
  moreover have "length (m @ x) = 64 * k + (r + length x)" using m by simp
  ultimately show ?thesis using inv m r
    by (subst sha_inv_iff [of _ k "r + length x"]) (simp_all add: mem_put_def)
qed

lemma sha_inv_fill:
  assumes "sha_inv m s" "unat (curlen s) + length x = 64"
  shows "sha_inv (m @ x) (s\<lparr>sha_buf := mem_put (unat (curlen s)) x (sha_buf s),
    sha_state := csp_sha1_compress (sha_state s) (mem_put (unat (curlen s)) x (sha_buf s)),
    sha_length := sha_length s + of_nat (64 * 8), curlen := 0\<rparr>)"
proof -
  obtain k r where m: "length m = 64 * k + r" "r < 64" by (metis mult_div_mod_eq mod_less_divisor zero_less_numeral)
  note inv = sha_inv_iff [OF m, THEN iffD1, OF assms(1)]
  have r: "r + length x = 64" using inv assms(2) by simp
  have b: "mem_put r x (sha_buf s) = List.drop (64 * k) m @ x"
    using inv r by (simp add: mem_put_def)
  have l: "length (List.drop (64 * k) m @ x) = 64" "length (take (64 * k) m) = 64 * k"
    using m r by simp_all
  have "sha_block (sha_state s) (List.drop (64 * k) m @ x) =
      sha_blocks sha_iv (take (64 * k) m @ (List.drop (64 * k) m @ x))"
    using inv sha_blocks_snoc [OF l(2) l(1)] by simp
  also have "take (64 * k) m @ (List.drop (64 * k) m @ x) = m @ x" by simp
  finally have st: "sha_block (sha_state s) (List.drop (64 * k) m @ x) = sha_blocks sha_iv (m @ x)" .
  have len: "length (m @ x) = 64 * Suc k + 0" using m r by simp
  show ?thesis using inv b r m l(1) st len
    by (subst sha_inv_iff [OF len]) (simp_all add: csp_sha1_compress_block)
qed

lemma csp_sha1_process_inv:
  "sha_inv m s \<Longrightarrow> \<exists>s'. csp_sha1_process s inp = Some s' \<and> sha_inv (m @ inp) s'"
proof (induction "length inp" arbitrary: m s inp rule: less_induct)
  case less
  have c: "unat (curlen s) < 64" "length (sha_buf s) = 64" using less.prems by (simp_all add: sha_inv_def)
  consider (none) "inp = []" | (direct) "inp \<noteq> []" "curlen s = 0" "64 \<le> length inp"
    | (part) "inp \<noteq> []" "\<not> (curlen s = 0 \<and> 64 \<le> length inp)" by blast
  then show ?case
  proof cases
    case none
    then show ?thesis using less.prems by (simp add: csp_sha1_process.simps)
  next
    case direct
    then show ?thesis
      using less.hyps [of "List.drop 64 inp", OF _ sha_inv_direct [OF less.prems direct(2), of "take 64 inp"]]
      by (subst csp_sha1_process.simps) simp
  next
    case part
    define n where "n = min (length inp) (64 - unat (curlen s))"
    have n: "0 < n" "n \<le> length inp" "unat (curlen s) + n \<le> 64" using part c by (auto simp: n_def)
    have sub: "unat (64 - curlen s) = 64 - unat (curlen s)"
      using c by (simp add: unat_sub word_le_nat_alt)
    have w: "mem_write (unat (curlen s)) (take n inp) (sha_buf s) =
        Some (mem_put (unat (curlen s)) (take n inp) (sha_buf s))"
      using n c by (simp add: mem_write_put)
    have cu: "unat (curlen s + of_nat n) = unat (curlen s) + n"
      using n by (simp add: unat_word_ariths unat_of_nat)
    have full: "curlen s + of_nat n = 64 \<longleftrightarrow> unat (curlen s) + n = 64"
      by (simp add: word_unat_eq_iff cu)
    have app: "(m @ take n inp) @ List.drop n inp = m @ inp" by simp
    have step: "csp_sha1_process s inp =
       (if unat (curlen s) + n = 64 then csp_sha1_process
          (s\<lparr>sha_buf := mem_put (unat (curlen s)) (take n inp) (sha_buf s),
             sha_state := csp_sha1_compress (sha_state s) (mem_put (unat (curlen s)) (take n inp) (sha_buf s)),
             sha_length := sha_length s + of_nat (64 * 8), curlen := 0\<rparr>) (List.drop n inp)
        else csp_sha1_process (s\<lparr>sha_buf := mem_put (unat (curlen s)) (take n inp) (sha_buf s),
             curlen := curlen s + of_nat n\<rparr>) (List.drop n inp))"
      using part w full by (subst csp_sha1_process.simps) (auto simp: sub n_def [symmetric] Let_def)
    show ?thesis
    proof (cases "unat (curlen s) + n = 64")
      case True
      with less.hyps [of "List.drop n inp", OF _ sha_inv_fill [OF less.prems, of "take n inp"]] n
      show ?thesis by (simp add: step)
    next
      case False
      with less.hyps [of "List.drop n inp", OF _ sha_inv_buffer [OF less.prems, of "take n inp"]] n
      show ?thesis by (simp add: step)
    qed
  qed
qed

lemma sha1_zero_fill_eq:
  assumes "unat (curlen s) \<le> unat lim" "unat lim \<le> length (sha_buf s)"
  shows "sha1_zero_fill lim s = s\<lparr>sha_buf := take (unat (curlen s)) (sha_buf s) @
     replicate (unat lim - unat (curlen s)) 0 @ List.drop (unat lim) (sha_buf s), curlen := lim\<rparr>"
  using assms
proof (induction lim s rule: sha1_zero_fill.induct)
  case (1 lim s)
  show ?case
  proof (cases "curlen s < lim")
    case False
    with 1 have "curlen s = lim" by (simp add: word_less_nat_alt word_unat_eq_iff)
    then show ?thesis by (auto simp: sha1_zero_fill.simps)
  next
    case True
    let ?c = "unat (curlen s)"
    have c: "unat (curlen s + 1) = Suc ?c" "?c < unat lim" using True unat_plus1_less [of "curlen s" lim]
      by (simp_all add: word_less_nat_alt)
    have "take (Suc ?c) ((sha_buf s)[?c := 0]) = take ?c (sha_buf s) @ [0]"
      using c 1 by (simp add: take_Suc_conv_app_nth)
    moreover have "unat lim - ?c = Suc (unat lim - Suc ?c)" using c by simp
    ultimately show ?thesis using 1 True c
      by (simp add: sha1_zero_fill.simps [of lim s] del: replicate_Suc) simp
  qed
qed

lemma sha_blocks_length: "length h = 5 \<Longrightarrow> length (sha_blocks h m) = 5"
proof (induction h m rule: sha_blocks.induct)
  case (1 h m)
  then show ?case by (subst sha_blocks.simps) (simp add: sha_block_def split: prod.splits)
qed

lemma digest_map:
  assumes "length h = 5"
  shows "concat (map (\<lambda>i. STORE32H (h ! i)) [0..<5]) = concat (map (\<lambda>w. rev (word_to_le 4 w)) h)"
proof -
  have "map (\<lambda>i. STORE32H (h ! i)) [0..<length h] = map STORE32H h" by (rule nth_equalityI) auto
  then show ?thesis using assms by (simp add: STORE32H_be [abs_def])
qed

lemma sha1_last_block:
  assumes "length (sha_buf q) = 64" "unat (curlen q) \<le> 56" "length L = 8"
  shows "mem_put 56 L (sha_buf (sha1_zero_fill 56 q)) =
    take (unat (curlen q)) (sha_buf q) @ replicate (56 - unat (curlen q)) 0 @ L"
    "sha_state (sha1_zero_fill 56 q) = sha_state q" "sha_length (sha1_zero_fill 56 q) = sha_length q"
  using assms by (simp_all add: sha1_zero_fill_eq mem_put_def)

lemma sha1_full_block:
  assumes "length (sha_buf q) = 64" "unat (curlen q) \<le> 64"
  shows "sha_buf (sha1_zero_fill 64 q) = take (unat (curlen q)) (sha_buf q) @ replicate (64 - unat (curlen q)) 0"
    "sha_state (sha1_zero_fill 64 q) = sha_state q" "sha_length (sha1_zero_fill 64 q) = sha_length q"
  using assms by (simp_all add: sha1_zero_fill_eq)

text \<open>The final blocks: the rest of the message, the padding and the length.\<close>

lemma csp_sha1_done_ref:
  assumes "sha_inv m s"
  shows "\<exists>s'. csp_sha1_done s = Some (sha1_ref m, s') \<and> length (sha_buf s') = 64"
proof -
  obtain k r where m: "length m = 64 * k + r" "r < 64" by (metis mult_div_mod_eq mod_less_divisor zero_less_numeral)
  note inv = sha_inv_iff [OF m, THEN iffD1, OF assms]
  define t where "t = List.drop (64 * k) m"
  define h where "h = take (64 * k) m"
  define L where "L = STORE64H (of_nat (8 * length m))"
  have th: "length t = r" "m = h @ t" "length h = 64 * k" using m by (simp_all add: t_def h_def)
  have L: "length L = 8" by (simp add: L_def STORE64H_be)
  have cl: "unat (curlen s * 8) = r * 8" "unat (curlen s + 1) = Suc r"
    using inv m by (simp_all add: unat_word_ariths)
  have "sha_length s + ucast (curlen s * 8) = of_nat (8 * length m)"
  proof -
    have "ucast (curlen s * 8) = (of_nat (unat (curlen s * 8)) :: u64)" by simp
    then show ?thesis using inv m(1) cl(1) by (simp add: algebra_simps)
  qed
  note len = this
  have buf: "mem_write r [0x80] (sha_buf s) = Some (t @ [0x80] @ List.drop (Suc r) (sha_buf s))"
    using inv m by (simp add: mem_write_def t_def)
  have gt: "curlen s + 1 > 56 \<longleftrightarrow> 56 \<le> r" using cl by (simp add: word_less_nat_alt) linarith
  have pad: "sha_pad m = h @ t @ [0x80] @ replicate ((119 - r) mod 64) 0 @ L"
    using m th by (simp add: sha_pad_def L_def STORE64H_be)
  let ?s = "s\<lparr>sha_length := of_nat (8 * length m), sha_buf := t @ [0x80] @ List.drop (Suc r) (sha_buf s),
      curlen := curlen s + 1\<rparr>"
  have start: "csp_sha1_done s =
     (let q = (if 56 \<le> r then (let q = sha1_zero_fill 64 ?s
                in q\<lparr>sha_state := csp_sha1_compress (sha_state q) (sha_buf q), curlen := 0\<rparr>) else ?s);
          q = sha1_zero_fill 56 q;
          q = q\<lparr>sha_buf := mem_put 56 (STORE64H (sha_length q)) (sha_buf q)\<rparr>;
          q = q\<lparr>sha_state := csp_sha1_compress (sha_state q) (sha_buf q)\<rparr>
      in Some (concat (map (\<lambda>i. STORE32H (sha_state q ! i)) [0..<5]), q))"
    by (simp add: csp_sha1_done_def conjunct1 [OF conjunct2 [OF inv]] buf len gt Let_def del: One_nat_def)
  have dig_eq: "concat (map (\<lambda>i. STORE32H (sha_blocks sha_iv (sha_pad m) ! i)) [0..<5]) = sha1_ref m"
    using digest_map [OF sha_blocks_length] by (simp add: sha1_ref_def sha_iv_def)
  show ?thesis
  proof (cases "56 \<le> r")
    case True
    let ?b1 = "t @ [0x80] @ replicate (63 - r) 0" and ?b2 = "replicate 56 0 @ L"
    have l: "length ?b1 = 64" "length ?b2 = 64" using True m th L by simp_all
    have "sha_pad m = (h @ ?b1) @ ?b2"
    proof -
      have e: "(119 - r) mod 64 = (63 - r) + 56" using True m by simp
      show ?thesis unfolding pad e by (simp add: replicate_add)
    qed
    moreover have "sha_blocks sha_iv ((h @ ?b1) @ ?b2) = sha_block (sha_block (sha_blocks sha_iv h) ?b1) ?b2"
      using th l by (simp add: sha_blocks_snoc [of "h @ _" "Suc k"] sha_blocks_snoc [of h k] del: append_assoc)
    ultimately have dig: "sha_blocks sha_iv (sha_pad m) = sha_block (sha_block (sha_state s) ?b1) ?b2"
      using inv by (simp add: h_def)
    have fb: "sha_buf (sha1_zero_fill 64 ?s) = ?b1" "sha_state (sha1_zero_fill 64 ?s) = sha_state s"
      "sha_length (sha1_zero_fill 64 ?s) = of_nat (8 * length m)"
      using sha1_full_block [of ?s] inv th cl m by simp_all
    let ?q = "(sha1_zero_fill 64 ?s)\<lparr>sha_state := sha_block (sha_state s) ?b1, curlen := 0\<rparr>"
    have "mem_put 56 L (sha_buf (sha1_zero_fill 56 ?q)) = ?b2"
      "sha_state (sha1_zero_fill 56 ?q) = sha_block (sha_state s) ?b1"
      "sha_length (sha1_zero_fill 56 ?q) = of_nat (8 * length m)"
      using sha1_last_block [of ?q L] L fb l(1) by simp_all
    moreover have "concat (map (\<lambda>i. STORE32H (csp_sha1_compress
        (sha_block (sha_state s) ?b1) ?b2 ! i)) [0..<5]) = sha1_ref m"
      by (simp only: csp_sha1_compress_block [OF l(2)] dig [symmetric] dig_eq)
    ultimately show ?thesis
      using True l(2) unfolding start
      by (simp only: if_True Let_def fb csp_sha1_compress_block [OF l(1)] L_def [symmetric]) simp
  next
    case False
    let ?b = "t @ [0x80] @ replicate (55 - r) 0 @ L"
    have l: "length ?b = 64" using False m th L by simp
    have "(119 - r) mod 64 = 55 - r" using False by (simp add: mod_if)
    then have "sha_pad m = h @ ?b" by (simp add: pad)
    moreover have "sha_blocks sha_iv (h @ ?b) = sha_block (sha_blocks sha_iv h) ?b"
      using th l by (intro sha_blocks_snoc)
    ultimately have dig: "sha_blocks sha_iv (sha_pad m) = sha_block (sha_state s) ?b"
      using inv by (simp add: h_def)
    have "mem_put 56 L (sha_buf (sha1_zero_fill 56 ?s)) = ?b"
      "sha_state (sha1_zero_fill 56 ?s) = sha_state s"
      "sha_length (sha1_zero_fill 56 ?s) = of_nat (8 * length m)"
      using sha1_last_block [of ?s L] False L inv th cl by simp_all
    moreover have "concat (map (\<lambda>i. STORE32H (csp_sha1_compress (sha_state s) ?b ! i)) [0..<5]) =
        sha1_ref m"
      by (simp only: csp_sha1_compress_block [OF l] dig [symmetric] dig_eq)
    ultimately show ?thesis
      using False l unfolding start by (simp only: if_False Let_def L_def [symmetric]) simp
  qed
qed

lemma csp_sha1_memory_ref:
  assumes "length (sha_buf md) = 64"
  shows "csp_sha1_memory md msg = Some (sha1_ref msg)"
proof -
  obtain s where s: "csp_sha1_process (csp_sha1_init md) msg = Some s" "sha_inv ([] @ msg) s"
    using csp_sha1_process_inv [OF sha_inv_init [OF assms], of msg] by blast
  from csp_sha1_done_ref [OF s(2)] s(1) show ?thesis by (auto simp: csp_sha1_memory_def)
qed

text \<open>The digest is 20 bytes long.\<close>

lemma length_sha1_ref: "length (sha1_ref m) = 20"
proof -
  have "length (concat (map (\<lambda>w. rev (word_to_le 4 w)) ws)) = 4 * length ws" for ws :: "u32 list"
    by (induction ws) simp_all
  then show ?thesis using sha_blocks_length [of sha_iv "sha_pad m"] by (simp add: sha1_ref_def sha_iv_def)
qed

section \<open>Properties\<close>

text \<open>A message given to the hash in pieces.\<close>

primrec sha1_pieces :: "csp_sha1_state_t \<Rightarrow> u8 list list \<Rightarrow> csp_sha1_state_t option" where
  "sha1_pieces s [] = Some s"
| "sha1_pieces s (c # cs) = do { s \<leftarrow> csp_sha1_process s c; sha1_pieces s cs }"

lemma sha1_pieces_inv:
  "sha_inv m s \<Longrightarrow> \<exists>s'. sha1_pieces s cs = Some s' \<and> sha_inv (m @ concat cs) s'"
proof (induction cs arbitrary: m s)
  case Nil
  then show ?case by simp
next
  case (Cons c cs)
  from csp_sha1_process_inv [OF Cons.prems, of c] obtain s1 where
    "csp_sha1_process s c = Some s1" "sha_inv (m @ c) s1" by blast
  with Cons.IH [of "m @ c" s1] show ?case by auto
qed

text \<open>C17: The incremental interface computes SHA-1: however the message is cut into pieces, and whatever
  the uninitialised block buffer holds, initialising the state, processing the pieces and
  finishing gives the digest that the standard defines for the whole message.\<close>

theorem csp_sha1_is_sha1:
  assumes "length (sha_buf md) = CSP_SHA1_BLOCKSIZE"
  shows "\<exists>s s'. sha1_pieces (csp_sha1_init md) cs = Some s \<and> csp_sha1_done s = Some (sha1_ref (concat cs), s')"
proof -
  have "sha_inv [] (csp_sha1_init md)" using assms by (simp add: sha_inv_init)
  from sha1_pieces_inv [OF this, of cs] csp_sha1_done_ref show ?thesis by fastforce
qed

theorem csp_sha1_is_sha1_witness:
  "\<exists>s s'. sha1_pieces (csp_sha1_init \<lparr>sha_length = 7, sha_state = [], curlen = 99, sha_buf = replicate 64 1\<rparr>)
     [[0x61], [0x62, 0x63]] = Some s \<and> csp_sha1_done s = Some (sha1_ref [0x61, 0x62, 0x63], s')"
  using csp_sha1_is_sha1 [of "\<lparr>sha_length = 7, sha_state = [], curlen = 99, sha_buf = replicate 64 1\<rparr>"
      "[[0x61], [0x62, 0x63]]"] by simp

end
