(* ===== verification/Csp_Hmac.thy ===== *)
theory Csp_Hmac
  imports Csp_Crc32 Csp_Sha1
begin

text \<open>
  The message authentication code of packets (\<^verbatim>\<open>src/crypto/csp_hmac.c\<close>): HMAC-SHA1 cut to four
  bytes. It is proved equal to the definition of RFC 2104 over the reference SHA-1, and the
  append and verify operations interpret the contract \<open>packet_trailer\<close>.
\<close>

section \<open>Model\<close>

definition HMAC_KEY_LENGTH :: nat where [simp]: "HMAC_KEY_LENGTH = 16"
definition CSP_HMAC_LENGTH :: nat where [simp]: "CSP_HMAC_LENGTH = 4"

record hmac_state =
  md :: csp_sha1_state_t
  hkey :: "u8 list"

text \<open>
  The local variable of type \<^verbatim>\<open>hmac_state\<close>. It is not initialised in C; zeros stand for its
  content, on which no result depends (theory \<open>Csp_Sha1\<close>).
\<close>

definition local_sha1 :: csp_sha1_state_t where
  "local_sha1 = \<lparr>sha_length = 0, sha_state = replicate 5 0, curlen = 0, sha_buf = replicate 64 0\<rparr>"

definition local_hmac :: hmac_state where
  "local_hmac = \<lparr>md = local_sha1, hkey = replicate 64 0\<rparr>"

definition csp_hmac_init :: "hmac_state \<Rightarrow> u8 list option \<Rightarrow> (int, hmac_state) outcome" where
  "csp_hmac_init hmac key =
     (case key of
        None \<Rightarrow> Some (CSP_ERR_INVAL, hmac)
      | Some key \<Rightarrow>
        if length key < 1 then Some (CSP_ERR_INVAL, hmac)
        else do {
          hmac \<leftarrow>
            (if length key > CSP_SHA1_BLOCKSIZE then do {
               h \<leftarrow> csp_sha1_memory local_sha1 key;
               Some (hmac\<lparr>hkey := h @ replicate (CSP_SHA1_BLOCKSIZE - CSP_SHA1_DIGESTSIZE) 0\<rparr>)
             }
             else Some (hmac\<lparr>hkey := key @ replicate (CSP_SHA1_BLOCKSIZE - length key) 0\<rparr>));
          let buf = map (\<lambda>b. b XOR 0x36) (hkey hmac);
          m \<leftarrow> csp_sha1_process (csp_sha1_init (md hmac)) buf;
          Some (CSP_ERR_NONE, hmac\<lparr>md := m\<rparr>)
        })"

definition csp_hmac_process :: "hmac_state \<Rightarrow> u8 list option \<Rightarrow> (int, hmac_state) outcome" where
  "csp_hmac_process hmac inp =
     (case inp of
        None \<Rightarrow> Some (CSP_ERR_INVAL, hmac)
      | Some inp \<Rightarrow> do {
          m \<leftarrow> csp_sha1_process (md hmac) inp;
          Some (CSP_ERR_NONE, hmac\<lparr>md := m\<rparr>)
        })"

text \<open>The second component of the result is what is copied to the output.\<close>

definition csp_hmac_done :: "hmac_state \<Rightarrow> (int \<times> u8 list, hmac_state) outcome" where
  "csp_hmac_done hmac = do {
     (isha, m) \<leftarrow> csp_sha1_done (md hmac);
     let buf = map (\<lambda>b. b XOR 0x5C) (hkey hmac);
     m \<leftarrow> csp_sha1_process (csp_sha1_init m) buf;
     m \<leftarrow> csp_sha1_process m isha;
     (h, m) \<leftarrow> csp_sha1_done m;
     Some ((CSP_ERR_NONE, take CSP_SHA1_DIGESTSIZE h), hmac\<lparr>md := m\<rparr>)
   }"

text \<open>The output is written only on success.\<close>

definition csp_hmac_memory :: "u8 list option \<Rightarrow> u8 list option \<Rightarrow> (int \<times> u8 list option) option" where
  "csp_hmac_memory key dat =
     (if key = None \<or> dat = None then Some (CSP_ERR_INVAL, None)
      else do {
        (r, state) \<leftarrow> csp_hmac_init local_hmac key;
        (if r \<noteq> 0 then Some (CSP_ERR_INVAL, None)
         else do {
           (r, state) \<leftarrow> csp_hmac_process state dat;
           (if r \<noteq> 0 then Some (CSP_ERR_INVAL, None)
            else do {
              ((r, hmac), state) \<leftarrow> csp_hmac_done state;
              (if r \<noteq> 0 then Some (CSP_ERR_INVAL, None) else Some (CSP_ERR_NONE, Some hmac))
            })
         })
      })"

definition csp_hmac_set_key :: "u8 list \<Rightarrow> node \<Rightarrow> int csp" where
  "csp_hmac_set_key key s = do {
     hash \<leftarrow> csp_sha1_memory local_sha1 key;
     Some (CSP_ERR_NONE, s\<lparr>csp_hmac_key := take HMAC_KEY_LENGTH hash\<rparr>)
   }"

text \<open>
  \<open>key\<close> is the static variable \<^verbatim>\<open>csp_hmac_key\<close>. The local array of the digest has no defined
  content when \<^verbatim>\<open>csp_hmac_memory\<close> fails, and using it then is undefined.
\<close>

definition csp_hmac_append :: "u8 list \<Rightarrow> csp_packet_t \<Rightarrow> bool \<Rightarrow> (int, csp_packet_t) outcome" where
  "csp_hmac_append key packet include_header =
     (if unat (plen packet) + CSP_HMAC_LENGTH > CSP_BUFFER_SIZE then Some (CSP_ERR_NOMEM, packet)
      else if include_header then do {
        bs \<leftarrow> mem_read (frame_begin packet) (unat (frame_length packet)) (bytes packet);
        (_, h) \<leftarrow> csp_hmac_memory (Some key) (Some bs);
        hmac \<leftarrow> h;
        m \<leftarrow> mem_write (frame_begin packet + unat (frame_length packet)) (take CSP_HMAC_LENGTH hmac) (bytes packet);
        Some (CSP_ERR_NONE, packet\<lparr>bytes := m, frame_length := frame_length packet + of_nat CSP_HMAC_LENGTH\<rparr>)
      }
      else do {
        bs \<leftarrow> data_read 0 (unat (plen packet)) packet;
        (_, h) \<leftarrow> csp_hmac_memory (Some key) (Some bs);
        hmac \<leftarrow> h;
        packet \<leftarrow> data_write (unat (plen packet)) (take CSP_HMAC_LENGTH hmac) packet;
        Some (CSP_ERR_NONE, packet\<lparr>plen := plen packet + of_nat CSP_HMAC_LENGTH\<rparr>)
      })"

definition csp_hmac_verify :: "u8 list \<Rightarrow> csp_packet_t \<Rightarrow> bool \<Rightarrow> (int, csp_packet_t) outcome" where
  "csp_hmac_verify key packet include_header =
     (if unat (plen packet) < CSP_HMAC_LENGTH then Some (CSP_ERR_HMAC, packet)
      else if include_header then
        (if unat (frame_length packet) < CSP_HMAC_LENGTH then None
         else do {
           bs \<leftarrow> mem_read (frame_begin packet) (unat (frame_length packet) - CSP_HMAC_LENGTH) (bytes packet);
           (_, h) \<leftarrow> csp_hmac_memory (Some key) (Some bs);
           hmac \<leftarrow> h;
           stored \<leftarrow> mem_read (frame_begin packet + unat (frame_length packet) - CSP_HMAC_LENGTH)
              CSP_HMAC_LENGTH (bytes packet);
           (if stored \<noteq> take CSP_HMAC_LENGTH hmac then Some (CSP_ERR_HMAC, packet)
            else Some (CSP_ERR_NONE,
              packet\<lparr>frame_length := frame_length packet - of_nat CSP_HMAC_LENGTH\<rparr>))
         })
      else do {
        bs \<leftarrow> data_read 0 (unat (plen packet) - CSP_HMAC_LENGTH) packet;
        (_, h) \<leftarrow> csp_hmac_memory (Some key) (Some bs);
        hmac \<leftarrow> h;
        stored \<leftarrow> data_read (unat (plen packet) - CSP_HMAC_LENGTH) CSP_HMAC_LENGTH packet;
        (if stored \<noteq> take CSP_HMAC_LENGTH hmac then Some (CSP_ERR_HMAC, packet)
         else Some (CSP_ERR_NONE, packet\<lparr>plen := plen packet - of_nat CSP_HMAC_LENGTH\<rparr>))
      })"

section \<open>RFC 2104\<close>

definition hmac_block_key :: "u8 list \<Rightarrow> u8 list" where
  "hmac_block_key key =
     (let k = (if length key > 64 then sha1_ref key else key) in k @ replicate (64 - length k) 0)"

definition hmac_ref :: "u8 list \<Rightarrow> u8 list \<Rightarrow> u8 list" where
  "hmac_ref key m =
     (let k = hmac_block_key key
      in sha1_ref (map (\<lambda>b. b XOR 0x5C) k @ sha1_ref (map (\<lambda>b. b XOR 0x36) k @ m)))"

lemma length_hmac_block_key [simp]: "length (hmac_block_key key) = 64"
  by (simp add: hmac_block_key_def length_sha1_ref)

lemma sha_inv_buf: "sha_inv m s \<Longrightarrow> length (sha_buf s) = 64"
  by (simp add: sha_inv_def)

lemma csp_hmac_init_ref:
  assumes "key \<noteq> []" "length (sha_buf (md h)) = 64"
  shows "\<exists>h'. csp_hmac_init h (Some key) = Some (CSP_ERR_NONE, h') \<and> hkey h' = hmac_block_key key \<and>
    sha_inv (map (\<lambda>b. b XOR 0x36) (hmac_block_key key)) (md h')"
proof -
  let ?k = "map (\<lambda>b. b XOR 0x36) (hmac_block_key key)"
  obtain m where "csp_sha1_process (csp_sha1_init (md h)) ?k = Some m" "sha_inv ?k m"
    using csp_sha1_process_inv [OF sha_inv_init [OF assms(2)], of ?k] by auto
  moreover have "csp_sha1_memory local_sha1 key = Some (sha1_ref key)"
    by (rule csp_sha1_memory_ref) (simp add: local_sha1_def)
  moreover have "key @ replicate (64 - length key) 0 = hmac_block_key key" if "\<not> 64 < length key"
    using that by (simp add: hmac_block_key_def)
  moreover have "sha1_ref key @ replicate 44 0 = hmac_block_key key" if "64 < length key"
    using that by (simp add: hmac_block_key_def length_sha1_ref)
  ultimately show ?thesis using assms(1)
    by (cases "64 < length key") (simp_all add: csp_hmac_init_def Suc_le_eq)
qed

lemma csp_hmac_done_ref:
  assumes "sha_inv x (md h)"
  shows "\<exists>h'. csp_hmac_done h =
    Some ((CSP_ERR_NONE, sha1_ref (map (\<lambda>b. b XOR 0x5C) (hkey h) @ sha1_ref x)), h')"
proof -
  let ?k = "map (\<lambda>b. b XOR 0x5C) (hkey h)"
  obtain m1 where m1: "csp_sha1_done (md h) = Some (sha1_ref x, m1)" "length (sha_buf m1) = 64"
    using csp_sha1_done_ref [OF assms] by blast
  obtain m2 where m2: "csp_sha1_process (csp_sha1_init m1) ?k = Some m2" "sha_inv ?k m2"
    using csp_sha1_process_inv [OF sha_inv_init [OF m1(2)], of ?k] by auto
  obtain m3 where m3: "csp_sha1_process m2 (sha1_ref x) = Some m3" "sha_inv (?k @ sha1_ref x) m3"
    using csp_sha1_process_inv [OF m2(2)] by blast
  obtain m4 where m4: "csp_sha1_done m3 = Some (sha1_ref (?k @ sha1_ref x), m4)"
    using csp_sha1_done_ref [OF m3(2)] by blast
  show ?thesis by (simp add: csp_hmac_done_def m1 m2 m3 m4 length_sha1_ref)
qed

lemma csp_hmac_memory_ref:
  assumes "key \<noteq> []"
  shows "csp_hmac_memory (Some key) (Some m) = Some (CSP_ERR_NONE, Some (hmac_ref key m))"
proof -
  obtain h1 where h1: "csp_hmac_init local_hmac (Some key) = Some (CSP_ERR_NONE, h1)"
    "hkey h1 = hmac_block_key key" "sha_inv (map (\<lambda>b. b XOR 0x36) (hmac_block_key key)) (md h1)"
    using csp_hmac_init_ref [OF assms, of local_hmac] by (auto simp: local_hmac_def local_sha1_def)
  obtain m2 where m2: "csp_sha1_process (md h1) m = Some m2"
    "sha_inv (map (\<lambda>b. b XOR 0x36) (hmac_block_key key) @ m) m2"
    using csp_sha1_process_inv [OF h1(3)] by blast
  have i: "sha_inv (map (\<lambda>b. b XOR 0x36) (hmac_block_key key) @ m) (md (h1\<lparr>md := m2\<rparr>))"
    using m2(2) by simp
  from csp_hmac_done_ref [OF i] m2 h1 show ?thesis
    by (auto simp: csp_hmac_memory_def csp_hmac_process_def hmac_ref_def Let_def)
qed

section \<open>Append and verify\<close>

definition hmac_tag :: "u8 list \<Rightarrow> u8 list \<Rightarrow> u8 list" where
  "hmac_tag key d = take 4 (hmac_ref key d)"

lemma length_hmac_tag [simp]: "length (hmac_tag key d) = 4"
  by (simp add: hmac_tag_def hmac_ref_def Let_def length_sha1_ref)

text \<open>
  The static key is an array of 16 bytes. \<open>auth_key\<close> maps every list of bytes to a key
  that is not empty, so that the contract below holds for any argument.
\<close>

definition auth_key :: "u8 list \<Rightarrow> u8 list" where
  "auth_key k = (if k = [] then replicate HMAC_KEY_LENGTH 0 else k)"

lemma auth_key_nonempty [simp]: "auth_key k \<noteq> []" "k \<noteq> [] \<Longrightarrow> auth_key k = k"
  by (simp_all add: auth_key_def)

lemma csp_hmac_verify_cases:
  assumes "packet_wf p" "4 \<le> unat (plen p)" "key \<noteq> []"
  defines "d \<equiv> take (unat (plen p) - 4) (pdata p)" and "t \<equiv> List.drop (unat (plen p) - 4) (pdata p)"
  shows "csp_hmac_verify key p False =
    (if t = hmac_tag key d then Some (CSP_ERR_NONE, p\<lparr>plen := plen p - 4\<rparr>) else Some (CSP_ERR_HMAC, p))"
  using data_read_trailer [OF assms(1,2), folded d_def t_def] assms(2)
  by (simp add: csp_hmac_verify_def csp_hmac_memory_ref [OF assms(3)] hmac_tag_def)

interpretation hmac: packet_trailer "\<lambda>p. csp_hmac_append (auth_key key) p False"
  "\<lambda>p. csp_hmac_verify (auth_key key) p False" "hmac_tag (auth_key key)" 4
  for key
proof (unfold_locales, goal_cases)
  case (1 p)
  then show ?case by (simp add: csp_hmac_append_def)
next
  case (2 p)
  then show ?case
    using data_write_trailer [OF 2(1) length_hmac_tag [of "auth_key key" "pdata p"] 2(2)] data_read_pdata [OF 2(1)]
    by (auto simp: csp_hmac_append_def csp_hmac_memory_ref hmac_tag_def)
next
  case (3 p d)
  then have n: "unat (plen p) = length d + 4" using length_pdata [OF 3(1)] by simp
  with csp_hmac_verify_cases [OF 3(1), of "auth_key key"] plen_shorten [OF 3(1), of 4] 3 show ?case by simp
next
  case (4 p)
  show ?case
  proof (cases "unat (plen p) < 4")
    case True
    then show ?thesis using 4 by (simp add: csp_hmac_verify_def)
  next
    case False
    then show ?thesis using csp_hmac_verify_cases [OF 4, of "auth_key key"] plen_shorten [OF 4, of 4] 4
      by auto
  qed
next
  case (5 d)
  then show ?case by simp
qed

section \<open>Properties\<close>

text \<open>C18: The message authentication code is HMAC-SHA1 of RFC 2104, for every key of at least one byte,
  the keys longer than a block (which are hashed first) included.\<close>

theorem csp_hmac_memory_is_hmac:
  assumes "key \<noteq> []"
  shows "csp_hmac_memory (Some key) (Some m) = Some (CSP_ERR_NONE, Some (hmac_ref key m))"
  using assms by (rule csp_hmac_memory_ref)

theorem csp_hmac_memory_is_hmac_witness:
  "csp_hmac_memory (Some (replicate 70 1)) (Some [1, 2, 3]) =
     Some (CSP_ERR_NONE, Some (hmac_ref (replicate 70 1) [1, 2, 3]))"
  by (rule csp_hmac_memory_is_hmac) simp

text \<open>A packet authenticated by \<^verbatim>\<open>csp_hmac_append\<close> under the node's key is accepted by
  \<^verbatim>\<open>csp_hmac_verify\<close> under the same key and comes back unchanged; a packet whose last four bytes
  are not the code of the bytes before them is rejected and left as it is.\<close>

theorem csp_hmac_append_verify:
  assumes "packet_wf p" "key \<noteq> []"
  shows "(unat (plen p) + 4 \<le> CSP_BUFFER_SIZE \<longrightarrow>
      (\<exists>p1 p2. csp_hmac_append key p False = Some (CSP_ERR_NONE, p1) \<and>
        csp_hmac_verify key p1 False = Some (CSP_ERR_NONE, p2) \<and>
        packet_wf p2 \<and> pid p2 = pid p \<and> pdata p2 = pdata p)) \<and>
    (4 \<le> unat (plen p) \<longrightarrow>
      take 4 (hmac_ref key (take (unat (plen p) - 4) (pdata p))) \<noteq> List.drop (unat (plen p) - 4) (pdata p) \<longrightarrow>
      csp_hmac_verify key p False = Some (CSP_ERR_HMAC, p))"
  using hmac.ver_app [OF assms(1), of key] csp_hmac_verify_cases [OF assms(1), of key] assms(2)
  by (auto simp: hmac_tag_def)

theorem csp_hmac_append_verify_witness:
  "\<exists>p1 p2. csp_hmac_append [1, 2] (zero_packet\<lparr>plen := 5\<rparr>) False = Some (CSP_ERR_NONE, p1) \<and>
     csp_hmac_verify [1, 2] p1 False = Some (CSP_ERR_NONE, p2) \<and> pdata p2 = replicate 5 0"
proof -
  let ?p = "zero_packet\<lparr>plen := 5\<rparr>"
  have "packet_wf ?p" "pdata ?p = replicate 5 0"
    by (simp_all add: packet_wf_def zero_packet_def pdata_def)
  with csp_hmac_append_verify [of ?p "[1, 2]"] show ?thesis by (auto simp: zero_packet_def)
qed

end
