(* ===== verification/Csp_Iflist.thy ===== *)
theory Csp_Iflist
  imports Csp_Id
begin

text \<open>
  The list of interfaces (\<^verbatim>\<open>src/csp_iflist.c\<close>): interfaces linked by their \<^verbatim>\<open>next\<close> pointers, from
  the static variable \<^verbatim>\<open>interfaces\<close>. The searches follow the pointers; on a list that is a
  finite chain they are searches in the list of its elements.
\<close>

section \<open>Model\<close>

text \<open>\<^verbatim>\<open>v << n\<close> in the type \<^verbatim>\<open>int\<close>, for \<open>v\<close> not negative: undefined when the result does not fit.\<close>

definition shift_int :: "u32 \<Rightarrow> u32 \<Rightarrow> u32 option" where
  "shift_int v n = (if n < 32 \<and> unat v * 2 ^ unat n < 2 ^ 31 then Some (push_bit (unat n) v) else None)"

definition subnet_mask :: "csp_conf_t \<Rightarrow> u16 \<Rightarrow> u16 option" where
  "subnet_mask conf netmask = do {
     one \<leftarrow> shift_one (ucast netmask);
     m \<leftarrow> shift_int (one - 1) (csp_id_get_host_bits conf - ucast netmask);
     Some (ucast m)
   }"

definition csp_iflist_is_within_subnet :: "u16 \<Rightarrow> nat option \<Rightarrow> node \<Rightarrow> bool option" where
  "csp_iflist_is_within_subnet addr ifc s =
     (case ifc of
        None \<Rightarrow> Some False
      | Some i \<Rightarrow> do {
          f \<leftarrow> get_iface i s;
          netmask \<leftarrow> subnet_mask (csp_conf s) (if_netmask f);
          let network_a = if_addr f AND netmask;
          let network_b = addr AND netmask;
          Some (network_a = network_b)
        })"

text \<open>
  The loop of the searches: follow the pointers until \<open>P\<close> holds. It never ends on a cyclic
  list.
\<close>

partial_function (option) iface_walk ::
  "(nat \<Rightarrow> bool option) \<Rightarrow> node \<Rightarrow> nat option \<Rightarrow> nat option option" where
  "iface_walk P s ifc =
     (case ifc of
        None \<Rightarrow> Some None
      | Some i \<Rightarrow> do {
          b \<leftarrow> P i;
          (if b then Some (Some i)
           else do { f \<leftarrow> get_iface i s; iface_walk P s (if_next f) })
        })"

definition csp_iflist_get_by_subnet :: "u16 \<Rightarrow> nat option \<Rightarrow> node \<Rightarrow> nat option option" where
  "csp_iflist_get_by_subnet addr ifc s = do {
     start \<leftarrow> (case ifc of
                None \<Rightarrow> Some (interfaces s)
              | Some i \<Rightarrow> do { f \<leftarrow> get_iface i s; Some (if_next f) });
     iface_walk
       (\<lambda>i. do {
          f \<leftarrow> get_iface i s;
          (if if_netmask f = 0 then Some False
           else csp_iflist_is_within_subnet addr (Some i) s)
        }) s start
   }"

definition csp_iflist_get_by_addr :: "u16 \<Rightarrow> node \<Rightarrow> nat option option" where
  "csp_iflist_get_by_addr addr s =
     iface_walk (\<lambda>i. do { f \<leftarrow> get_iface i s; Some (if_addr f = addr) }) s (interfaces s)"

text \<open>\<^verbatim>\<open>strncmp(a, b, CSP_IFLIST_NAME_MAX) == 0\<close>, for strings without a zero character.\<close>

definition same_name :: "string \<Rightarrow> string \<Rightarrow> bool" where
  "same_name a b \<longleftrightarrow> take CSP_IFLIST_NAME_MAX a = take CSP_IFLIST_NAME_MAX b"

definition csp_iflist_get_by_name :: "string \<Rightarrow> node \<Rightarrow> nat option option" where
  "csp_iflist_get_by_name name s =
     iface_walk (\<lambda>i. do { f \<leftarrow> get_iface i s; Some (same_name (if_name f) name) }) s (interfaces s)"

text \<open>The loop of \<^verbatim>\<open>csp_iflist_add\<close>: \<open>Inl\<close> when the interface is already listed, else the last one.\<close>

partial_function (option) csp_iflist_add_loop ::
  "nat \<Rightarrow> node \<Rightarrow> nat option \<Rightarrow> nat option \<Rightarrow> (unit + nat option) option" where
  "csp_iflist_add_loop ifc s prev i =
     (if i = None then Some (Inr prev)
      else do {
        k \<leftarrow> i;
        f \<leftarrow> get_iface ifc s;
        g \<leftarrow> get_iface k s;
        (if k = ifc \<or> same_name (if_name f) (if_name g) then Some (Inl ())
         else csp_iflist_add_loop ifc s (Some k) (if_next g))
      })"

definition csp_iflist_add :: "nat \<Rightarrow> node \<Rightarrow> int csp" where
  "csp_iflist_add ifc s = do {
     f \<leftarrow> get_iface ifc s;
     let s = put_iface ifc (f\<lparr>if_next := None\<rparr>) s;
     (case interfaces s of
        None \<Rightarrow> Some (CSP_ERR_NONE, s\<lparr>interfaces := Some ifc\<rparr>)
      | Some first \<Rightarrow> do {
          r \<leftarrow> csp_iflist_add_loop ifc s None (Some first);
          (case r of
             Inl _ \<Rightarrow> Some (CSP_ERR_ALREADY, s)
           | Inr prev \<Rightarrow> do {
               l \<leftarrow> prev;
               g \<leftarrow> get_iface l s;
               Some (CSP_ERR_NONE, put_iface l (g\<lparr>if_next := Some ifc\<rparr>) s)
             })
        })
   }"

definition csp_iflist_get :: "node \<Rightarrow> nat option" where
  "csp_iflist_get s = interfaces s"

definition csp_bytesize :: "u64 \<Rightarrow> u64 \<times> char" where
  "csp_bytesize n =
     (if n \<ge> 1024 * 1024 then (n div (1024 * 1024), CHR ''M'')
      else if n \<ge> 1024 then (n div 1024, CHR ''K'')
      else (n, CHR ''B''))"

section \<open>Chains\<close>

text \<open>The chain of interfaces that starts at a pointer.\<close>

primrec iface_chain :: "node \<Rightarrow> nat option \<Rightarrow> nat list \<Rightarrow> bool" where
  "iface_chain s p [] \<longleftrightarrow> p = None"
| "iface_chain s p (x # xs) \<longleftrightarrow> p = Some x \<and> x < length (ifaces s) \<and> iface_chain s (if_next (ifaces s ! x)) xs"

definition iflist :: "node \<Rightarrow> nat list \<Rightarrow> bool" where
  "iflist s xs \<longleftrightarrow> iface_chain s (interfaces s) xs"

lemma iface_chain_fun: "iface_chain s p xs \<Longrightarrow> iface_chain s p ys \<Longrightarrow> xs = ys"
proof (induction xs arbitrary: p ys)
  case Nil
  then show ?case by (cases ys) auto
next
  case (Cons x xs)
  then show ?case by (cases ys) auto
qed

text \<open>A chain cannot come back to an element: it would not end.\<close>

lemma iface_chain_suffix:
  "iface_chain s p (xs @ x # ys) \<Longrightarrow> iface_chain s (Some x) (x # ys)"
  by (induction xs arbitrary: p) auto

lemma iface_chain_distinct: "iface_chain s p xs \<Longrightarrow> distinct xs"
proof (rule ccontr)
  assume c: "iface_chain s p xs" and "\<not> distinct xs"
  then obtain a b d x where xs: "xs = a @ [x] @ b @ [x] @ d" by (metis not_distinct_decomp)
  have "iface_chain s (Some x) (x # b @ [x] @ d)" using c xs iface_chain_suffix [of s p a x "b @ [x] @ d"] by simp
  moreover have "iface_chain s (Some x) (x # d)" using c xs iface_chain_suffix [of s p "a @ x # b" x d] by simp
  ultimately have "x # b @ [x] @ d = x # d" by (rule iface_chain_fun)
  then show False by (metis append_assoc append_is_Nil_conv append_self_conv2 list.inject not_Cons_self2)
qed

lemma iface_walk_chain:
  assumes "iface_chain s p xs" "\<And>i. i \<in> set xs \<Longrightarrow> P i = Some (Q i)"
  shows "iface_walk P s p = Some (find Q xs)"
  using assms
proof (induction xs arbitrary: p)
  case Nil
  then show ?case by (simp add: iface_walk.simps)
next
  case (Cons x xs)
  then have IH: "iface_walk P s (if_next (ifaces s ! x)) = Some (find Q xs)" by auto
  show ?case using Cons.prems by (subst iface_walk.simps) (simp add: get_iface_def IH)
qed

lemma iface_chain_member: "iface_chain s p xs \<Longrightarrow> i \<in> set xs \<Longrightarrow> i < length (ifaces s)"
  by (induction xs arbitrary: p) auto

lemma csp_iflist_get_by_addr_find:
  assumes "iflist s xs"
  shows "csp_iflist_get_by_addr addr s = Some (find (\<lambda>i. if_addr (ifaces s ! i) = addr) xs)"
  using assms unfolding iflist_def csp_iflist_get_by_addr_def
  by (intro iface_walk_chain) (auto simp: get_iface_def dest: iface_chain_member)

lemma csp_iflist_get_by_name_find:
  assumes "iflist s xs"
  shows "csp_iflist_get_by_name name s = Some (find (\<lambda>i. same_name (if_name (ifaces s ! i)) name) xs)"
  using assms unfolding iflist_def csp_iflist_get_by_name_def
  by (intro iface_walk_chain) (auto simp: get_iface_def dest: iface_chain_member)

section \<open>Subnets\<close>

text \<open>The interfaces whose netmask is at most the size of an address.\<close>

definition masks_ok :: "node \<Rightarrow> bool" where
  "masks_ok s \<longleftrightarrow> (\<forall>f \<in> set (ifaces s). unat (if_netmask f) \<le> unat (csp_id_get_host_bits (csp_conf s)))"

text \<open>Two addresses agree in the network part of a mask of \<open>n\<close> bits.\<close>

definition same_net :: "csp_conf_t \<Rightarrow> nat \<Rightarrow> u16 \<Rightarrow> u16 \<Rightarrow> bool" where
  "same_net conf n a b \<longleftrightarrow>
     (\<forall>i. unat (csp_id_get_host_bits conf) - n \<le> i \<and> i < unat (csp_id_get_host_bits conf) \<longrightarrow> (bit a i \<longleftrightarrow> bit b i))"

lemma host_bits_le: "unat (csp_id_get_host_bits conf) \<le> 14"
  by (simp add: csp_id_get_host_bits_def)

lemma subnet_mask_eq:
  assumes "unat netmask \<le> unat (csp_id_get_host_bits conf)"
  shows "subnet_mask conf netmask =
    Some (push_bit (unat (csp_id_get_host_bits conf) - unat netmask) (Bit_Operations.mask (unat netmask)))"
proof -
  let ?h = "unat (csp_id_get_host_bits conf)" and ?n = "unat netmask"
  have le: "(ucast netmask :: u32) \<le> csp_id_get_host_bits conf" using assms by (simp add: word_le_nat_alt)
  have k: "unat (csp_id_get_host_bits conf - ucast netmask) = ?h - ?n" using le by (simp add: unat_sub)
  have n14: "?n \<le> 14" "?h \<le> 14" using assms host_bits_le [of conf] by simp_all
  have "uint (Bit_Operations.mask ?n :: u32) < 2 ^ ?n"
    using and_mask_lt_2p [of "Bit_Operations.mask ?n" ?n] by simp
  then have "unat (Bit_Operations.mask ?n :: u32) < 2 ^ ?n" by (metis of_nat_unat of_nat_less_numeral_power_cancel_iff)
  then have "unat (Bit_Operations.mask ?n :: u32) * 2 ^ (?h - ?n) < 2 ^ ?n * 2 ^ (?h - ?n)" by simp
  also have "\<dots> = 2 ^ ?h" using assms by (simp add: power_add [symmetric])
  also have "\<dots> \<le> (2 :: nat) ^ 31" using n14 by (intro power_increasing) simp_all
  finally have fit: "unat (Bit_Operations.mask ?n :: u32) * 2 ^ (?h - ?n) < 2 ^ 31" .
  have "(ucast netmask :: u32) < 31" "csp_id_get_host_bits conf - ucast netmask < 32"
    using n14 k by (simp_all add: word_less_nat_alt)
  moreover have "(ucast (push_bit (?h - ?n) (Bit_Operations.mask ?n :: u32)) :: u16) =
      push_bit (?h - ?n) (Bit_Operations.mask ?n)"
    by (rule bit_word_eqI) (auto simp: bit_simps)
  ultimately show ?thesis using fit
    by (simp add: subnet_mask_def shift_one_def shift_int_def k mask_eq_exp_minus_1)
qed

lemma and_net_mask:
  assumes "n \<le> h" "h \<le> 16"
  shows "(a :: u16) AND push_bit (h - n) (Bit_Operations.mask n) = b AND push_bit (h - n) (Bit_Operations.mask n) \<longleftrightarrow>
    (\<forall>i. h - n \<le> i \<and> i < h \<longrightarrow> (bit a i \<longleftrightarrow> bit b i))" (is "?l \<longleftrightarrow> ?r")
proof
  assume l: ?l
  show ?r
  proof (intro allI impI)
    fix i assume i: "h - n \<le> i \<and> i < h"
    have "bit (a AND push_bit (h - n) (Bit_Operations.mask n)) i = bit (b AND push_bit (h - n) (Bit_Operations.mask n)) i"
      using l by simp
    with i assms show "bit a i \<longleftrightarrow> bit b i" by (auto simp: bit_simps)
  qed
next
  assume ?r
  then show ?l using assms by (intro bit_word_eqI) (auto simp: bit_simps)
qed

lemma csp_iflist_is_within_subnet_iff:
  assumes "masks_ok s" "i < length (ifaces s)"
  shows "csp_iflist_is_within_subnet addr (Some i) s =
    Some (same_net (csp_conf s) (unat (if_netmask (ifaces s ! i))) (if_addr (ifaces s ! i)) addr)"
proof -
  let ?f = "ifaces s ! i"
  have n: "unat (if_netmask ?f) \<le> unat (csp_id_get_host_bits (csp_conf s))"
    using assms by (auto simp: masks_ok_def)
  show ?thesis
    using assms(2) and_net_mask [OF n] host_bits_le [of "csp_conf s"]
    by (simp add: csp_iflist_is_within_subnet_def get_iface_def subnet_mask_eq [OF n] same_net_def)
qed

text \<open>The search by subnet continues after the interface it is given.\<close>

definition in_subnet :: "node \<Rightarrow> u16 \<Rightarrow> nat \<Rightarrow> bool" where
  "in_subnet s addr i \<longleftrightarrow> if_netmask (ifaces s ! i) \<noteq> 0 \<and>
     same_net (csp_conf s) (unat (if_netmask (ifaces s ! i))) (if_addr (ifaces s ! i)) addr"

lemma subnet_walk:
  assumes "masks_ok s" "iface_chain s p xs"
  shows "iface_walk
       (\<lambda>i. do {
          f \<leftarrow> get_iface i s;
          (if if_netmask f = 0 then Some False
           else csp_iflist_is_within_subnet addr (Some i) s)
        }) s p = Some (find (in_subnet s addr) xs)"
  using assms
  by (intro iface_walk_chain)
    (auto simp: get_iface_def in_subnet_def csp_iflist_is_within_subnet_iff dest: iface_chain_member)

lemma csp_iflist_get_by_subnet_find:
  assumes "masks_ok s" "iflist s xs"
  shows "csp_iflist_get_by_subnet addr None s = Some (find (in_subnet s addr) xs)"
    "xs = ys @ i # zs \<Longrightarrow> csp_iflist_get_by_subnet addr (Some i) s = Some (find (in_subnet s addr) zs)"
proof -
  show "csp_iflist_get_by_subnet addr None s = Some (find (in_subnet s addr) xs)"
    using subnet_walk [OF assms(1)] assms(2) by (simp add: csp_iflist_get_by_subnet_def iflist_def)
  assume "xs = ys @ i # zs"
  then have "iface_chain s (Some i) (i # zs)" using assms(2) iface_chain_suffix by (simp add: iflist_def)
  then show "csp_iflist_get_by_subnet addr (Some i) s = Some (find (in_subnet s addr) zs)"
    using subnet_walk [OF assms(1)] by (simp add: csp_iflist_get_by_subnet_def get_iface_def)
qed

section \<open>Adding an interface\<close>

lemma iface_chain_put:
  "x \<notin> set xs \<Longrightarrow> iface_chain (put_iface x f s) p xs \<longleftrightarrow> iface_chain s p xs"
  by (induction xs arbitrary: p) (auto simp: put_iface_def)

lemma interfaces_put [simp]: "interfaces (put_iface x f s) = interfaces s"
  "length (ifaces (put_iface x f s)) = length (ifaces s)"
  by (simp_all add: put_iface_def)

lemma nth_ifaces_put: "i < length (ifaces s) \<Longrightarrow> ifaces (put_iface x f s) ! i = (if i = x then f else ifaces s ! i)"
  by (auto simp: put_iface_def)

text \<open>The loop over a chain: the first match, or the last element.\<close>

lemma add_loop_chain:
  assumes "iface_chain s p xs" "ifc < length (ifaces s)"
  shows "csp_iflist_add_loop ifc s prev p =
    Some (if \<exists>x \<in> set xs. x = ifc \<or> same_name (if_name (ifaces s ! ifc)) (if_name (ifaces s ! x))
          then Inl () else Inr (if xs = [] then prev else Some (last xs)))"
  using assms(1)
proof (induction xs arbitrary: p prev)
  case Nil
  then show ?case by (simp add: csp_iflist_add_loop.simps)
next
  case (Cons x xs)
  then show ?case using assms(2)
    by (subst csp_iflist_add_loop.simps) (auto simp: get_iface_def)
qed

lemma iface_chain_append:
  assumes "iface_chain s p xs" "xs \<noteq> []" "y < length (ifaces s)" "y \<notin> set xs" "if_next (ifaces s ! y) = None"
  shows "iface_chain (put_iface (last xs) ((ifaces s ! last xs)\<lparr>if_next := Some y\<rparr>) s) p (xs @ [y])"
  using assms iface_chain_distinct [OF assms(1)]
proof (induction xs arbitrary: p)
  case Nil
  then show ?case by simp
next
  case (Cons x xs)
  then show ?case
    by (cases "xs = []") (auto simp: nth_ifaces_put)
qed

lemma csp_iflist_add_new:
  assumes "iflist s xs" "ifc < length (ifaces s)" "ifc \<notin> set xs"
    "\<forall>x \<in> set xs. \<not> same_name (if_name (ifaces s ! ifc)) (if_name (ifaces s ! x))"
  shows "\<exists>s'. csp_iflist_add ifc s = Some (CSP_ERR_NONE, s') \<and> iflist s' (xs @ [ifc])"
proof (cases xs)
  case Nil
  then show ?thesis using assms
    by (simp add: csp_iflist_add_def iflist_def get_iface_def put_iface_def)
next
  case (Cons x ys)
  let ?s = "put_iface ifc ((ifaces s ! ifc)\<lparr>if_next := None\<rparr>) s"
  have c: "iface_chain ?s (interfaces s) xs" using assms by (simp add: iface_chain_put iflist_def)
  have x: "interfaces s = Some x" using assms(1) Cons by (simp add: iflist_def)
  have ne: "(xs = []) = False" using Cons by simp
  have mem: "\<And>i. i \<in> set xs \<Longrightarrow> i < length (ifaces s)" using assms(1) iface_chain_member by (auto simp: iflist_def)
  have names: "\<not> (\<exists>y \<in> set xs. y = ifc \<or> same_name (if_name (ifaces ?s ! ifc)) (if_name (ifaces ?s ! y)))"
    using assms mem by (auto simp: nth_ifaces_put)
  have "csp_iflist_add_loop ifc ?s None (interfaces s) = Some (Inr (Some (last xs)))"
    by (subst add_loop_chain [OF c]) (simp_all only: interfaces_put assms(2) names if_False ne)
  moreover have "last xs < length (ifaces s)" using mem Cons by simp
  moreover have "iface_chain (put_iface (last xs) ((ifaces ?s ! last xs)\<lparr>if_next := Some ifc\<rparr>) ?s) (interfaces s) (xs @ [ifc])"
    by (rule iface_chain_append [OF c]) (use assms Cons in \<open>auto simp: nth_ifaces_put\<close>)
  ultimately show ?thesis using x assms(2)
    by (simp add: csp_iflist_add_def get_iface_def iflist_def Let_def)
qed

lemma csp_iflist_add_duplicate:
  assumes "iflist s xs" "ifc < length (ifaces s)" "ifc \<notin> set xs" "x \<in> set xs"
    "same_name (if_name (ifaces s ! ifc)) (if_name (ifaces s ! x))"
  shows "\<exists>s'. csp_iflist_add ifc s = Some (CSP_ERR_ALREADY, s') \<and> iflist s' xs"
proof -
  let ?s = "put_iface ifc ((ifaces s ! ifc)\<lparr>if_next := None\<rparr>) s"
  have c: "iface_chain ?s (interfaces s) xs" using assms by (simp add: iface_chain_put iflist_def)
  obtain y ys where xs: "xs = y # ys" using assms(4) by (cases xs) auto
  then have y: "interfaces s = Some y" using assms(1) by (simp add: iflist_def)
  have "x < length (ifaces s)" using assms(1,4) iface_chain_member by (auto simp: iflist_def)
  then have "\<exists>y \<in> set xs. y = ifc \<or> same_name (if_name (ifaces ?s ! ifc)) (if_name (ifaces ?s ! y))"
    using assms by (intro bexI [of _ x]) (auto simp: nth_ifaces_put)
  then have "csp_iflist_add_loop ifc ?s None (interfaces s) = Some (Inl ())"
    by (subst add_loop_chain [OF c]) (simp_all only: interfaces_put assms(2) if_True)
  then show ?thesis using y assms(2) c
    by (simp add: csp_iflist_add_def get_iface_def iflist_def Let_def)
qed

text \<open>An interface that is already in the list loses its successors.\<close>

lemma iface_chain_cut:
  "iface_chain s p (xs @ x # ys) \<Longrightarrow> x \<notin> set xs \<Longrightarrow> if_next f = None \<Longrightarrow>
     iface_chain (put_iface x f s) p (xs @ [x])"
  by (induction xs arbitrary: p) (auto simp: nth_ifaces_put)

lemma csp_iflist_add_again:
  assumes "iflist s (xs @ ifc # ys)"
  shows "\<exists>s'. csp_iflist_add ifc s = Some (CSP_ERR_ALREADY, s') \<and> iflist s' (xs @ [ifc])"
proof -
  let ?s = "put_iface ifc ((ifaces s ! ifc)\<lparr>if_next := None\<rparr>) s"
  have d: "ifc \<notin> set xs" using iface_chain_distinct assms by (fastforce simp: iflist_def)
  have m: "ifc < length (ifaces s)" using assms iface_chain_member by (fastforce simp: iflist_def)
  have c: "iface_chain ?s (interfaces s) (xs @ [ifc])"
    using assms d iface_chain_cut [of s "interfaces s" xs ifc ys] by (simp add: iflist_def)
  obtain y where y: "interfaces s = Some y" using assms by (cases xs) (auto simp: iflist_def)
  have "csp_iflist_add_loop ifc ?s None (interfaces s) = Some (Inl ())"
    by (subst add_loop_chain [OF c]) (simp_all add: m)
  then show ?thesis using y m c
    by (simp add: csp_iflist_add_def get_iface_def iflist_def Let_def)
qed

section \<open>Properties\<close>

text \<open>Adding an interface that is not in the list appends it, unless an interface with the same name
  is listed, which is reported and leaves the list as it is.\<close>

theorem csp_iflist_add_list:
  assumes "iflist s xs" "ifc < length (ifaces s)" "ifc \<notin> set xs"
  shows "\<exists>s'. if \<exists>x \<in> set xs. same_name (if_name (ifaces s ! ifc)) (if_name (ifaces s ! x))
    then csp_iflist_add ifc s = Some (CSP_ERR_ALREADY, s') \<and> iflist s' xs
    else csp_iflist_add ifc s = Some (CSP_ERR_NONE, s') \<and> iflist s' (xs @ [ifc])"
  using csp_iflist_add_new [OF assms] csp_iflist_add_duplicate [OF assms] by (auto split: if_split)

text \<open>An interface with nothing set, for examples.\<close>

definition zero_iface :: csp_iface_t where
  [csp_defs]: "zero_iface = \<lparr>if_addr = 0, if_netmask = 0, if_name = [], if_data = No_Data, if_mtu = 0, if_tx = 0,
     if_rx = 0, if_tx_error = 0, if_rx_error = 0, if_drop = 0, if_autherr = 0, if_frame = 0, if_txbytes = 0,
     if_rxbytes = 0, if_irq = 0, if_next = None\<rparr>"

theorem csp_iflist_add_list_witness:
  "let s = zero_node\<lparr>ifaces := [zero_iface\<lparr>if_name := ''LOOP''\<rparr>, zero_iface\<lparr>if_name := ''CAN''\<rparr>],
                     interfaces := Some 0\<rparr>
   in \<exists>s'. csp_iflist_add 1 s = Some (CSP_ERR_NONE, s') \<and> iflist s' [0, 1]"
proof -
  let ?s = "zero_node\<lparr>ifaces := [zero_iface\<lparr>if_name := ''LOOP''\<rparr>, zero_iface\<lparr>if_name := ''CAN''\<rparr>],
      interfaces := Some 0\<rparr>"
  have "iflist ?s [0]" by (simp add: iflist_def zero_iface_def)
  from csp_iflist_add_list [OF this, of 1] show ?thesis by (simp add: same_name_def)
qed

text \<open>Adding an interface that is already in the list is reported, but the list has then lost every
  interface that was behind it: \<^verbatim>\<open>next\<close> is cleared before the search.\<close>

theorem csp_iflist_add_again_truncates:
  assumes "iflist s (xs @ ifc # ys)"
  shows "\<exists>s'. csp_iflist_add ifc s = Some (CSP_ERR_ALREADY, s') \<and> iflist s' (xs @ [ifc])"
  using assms by (rule csp_iflist_add_again)

theorem csp_iflist_add_again_truncates_witness:
  "let s = zero_node\<lparr>ifaces := [zero_iface\<lparr>if_name := ''LOOP'', if_next := Some 1\<rparr>, zero_iface\<lparr>if_name := ''CAN''\<rparr>],
                     interfaces := Some 0\<rparr>
   in iflist s [0, 1] \<and> (\<exists>s'. csp_iflist_add 0 s = Some (CSP_ERR_ALREADY, s') \<and> iflist s' [0])"
proof -
  let ?s = "zero_node\<lparr>ifaces := [zero_iface\<lparr>if_name := ''LOOP'', if_next := Some 1\<rparr>, zero_iface\<lparr>if_name := ''CAN''\<rparr>],
      interfaces := Some 0\<rparr>"
  have "iflist ?s ([] @ 0 # [1])" by (simp add: iflist_def zero_iface_def)
  from csp_iflist_add_again_truncates [OF this] this show ?thesis by simp
qed

text \<open>The search by subnet, started without an interface or after one of the list, finds the first
  following interface with a netmask whose network contains the address.\<close>

theorem csp_iflist_get_by_subnet_first:
  assumes "masks_ok s" "iflist s xs"
  shows "csp_iflist_get_by_subnet addr None s = Some (find (in_subnet s addr) xs) \<and>
    (\<forall>ys i zs. xs = ys @ i # zs \<longrightarrow>
       csp_iflist_get_by_subnet addr (Some i) s = Some (find (in_subnet s addr) zs))"
  using csp_iflist_get_by_subnet_find [OF assms] by blast

theorem csp_iflist_get_by_subnet_first_witness:
  "let s = zero_node\<lparr>csp_conf := zero_conf\<lparr>version := 2\<rparr>,
        ifaces := [zero_iface\<lparr>if_next := Some 1\<rparr>, zero_iface\<lparr>if_addr := 5, if_netmask := 14\<rparr>], interfaces := Some 0\<rparr>
   in csp_iflist_get_by_subnet 5 None s = Some (Some 1) \<and> csp_iflist_get_by_subnet 5 (Some 1) s = Some None"
proof -
  let ?s = "zero_node\<lparr>csp_conf := zero_conf\<lparr>version := 2\<rparr>,
        ifaces := [zero_iface\<lparr>if_next := Some 1\<rparr>, zero_iface\<lparr>if_addr := 5, if_netmask := 14\<rparr>], interfaces := Some 0\<rparr>"
  have "masks_ok ?s" by (simp add: masks_ok_def zero_iface_def csp_id_get_host_bits_def)
  moreover have "iflist ?s [0, 1]" by (simp add: iflist_def zero_iface_def)
  moreover have "find (in_subnet ?s 5) [0, 1] = Some 1" by (simp add: in_subnet_def zero_iface_def same_net_def)
  ultimately show ?thesis using csp_iflist_get_by_subnet_first [of ?s "[0, 1]" 5]
    by (auto simp: Let_def dest: spec [of _ "[0]"])
qed

end
