(* ===== verification/Csp_Rtable.thy ===== *)
theory Csp_Rtable
  imports Csp_Iflist
begin

text \<open>
  The routing table (\<^verbatim>\<open>src/csp_rtable_cidr.c\<close>): routes with a netmask, searched for the
  longest matching prefix. The locale \<open>route_lookup\<close> is the contract of a lookup; it is
  interpreted on the search of the code.
\<close>

section \<open>Model\<close>

text \<open>
  The table is an array of \<^verbatim>\<open>CSP_RTABLE_SIZE\<close> entries; an access outside it is undefined.
\<close>

definition rtable_at :: "nat \<Rightarrow> node \<Rightarrow> csp_route_t option" where
  "rtable_at i s = (if i < length (rtable s) then Some (rtable s ! i) else None)"

primrec csp_rtable_find_exact_loop :: "nat list \<Rightarrow> u16 \<Rightarrow> u16 \<Rightarrow> node \<Rightarrow> nat option option" where
  "csp_rtable_find_exact_loop [] addr netmask s = Some None"
| "csp_rtable_find_exact_loop (i # is) addr netmask s = do {
     r \<leftarrow> rtable_at i s;
     (if r_address r = addr \<and> r_netmask r = netmask then Some (Some i)
      else csp_rtable_find_exact_loop is addr netmask s)
   }"

definition csp_rtable_find_exact :: "u16 \<Rightarrow> u16 \<Rightarrow> node \<Rightarrow> nat option option" where
  "csp_rtable_find_exact addr netmask s =
     csp_rtable_find_exact_loop [0..<rtable_inptr s] addr netmask s"

text \<open>One iteration of the search: \<open>best\<close> is the best result so far, with its mask.\<close>

definition csp_rtable_find_route_step ::
  "u16 \<Rightarrow> node \<Rightarrow> nat \<Rightarrow> nat option \<times> u16 \<Rightarrow> (nat option \<times> u16) option" where
  "csp_rtable_find_route_step addr s i best = do {
     r \<leftarrow> rtable_at i s;
     one \<leftarrow> shift_one (csp_id_get_host_bits (csp_conf s) - ucast (r_netmask r));
     let hostbits = (ucast (one - 1) :: u16);
     let netbits = NOT hostbits;
     let net_a = r_address r AND netbits;
     let net_b = addr AND netbits;
     Some (if net_a = net_b \<and> r_netmask r \<ge> snd best then (Some i, r_netmask r) else best)
   }"

primrec csp_rtable_find_route_loop ::
  "nat list \<Rightarrow> u16 \<Rightarrow> node \<Rightarrow> nat option \<times> u16 \<Rightarrow> (nat option \<times> u16) option" where
  "csp_rtable_find_route_loop [] addr s best = Some best"
| "csp_rtable_find_route_loop (i # is) addr s best = do {
     best \<leftarrow> csp_rtable_find_route_step addr s i best;
     csp_rtable_find_route_loop is addr s best
   }"

definition csp_rtable_find_route :: "u16 \<Rightarrow> node \<Rightarrow> nat option option" where
  "csp_rtable_find_route addr s = do {
     (best_result, _) \<leftarrow> csp_rtable_find_route_loop [0..<rtable_inptr s] addr s (None, 0);
     Some best_result
   }"

definition csp_rtable_set_internal :: "u16 \<Rightarrow> u16 \<Rightarrow> nat option \<Rightarrow> u16 \<Rightarrow> node \<Rightarrow> int csp" where
  "csp_rtable_set_internal addr netmask ifc via s = do {
     found \<leftarrow> csp_rtable_find_exact addr netmask s;
     let (entry, s) =
       (case found of
          Some i \<Rightarrow> (i, s)
        | None \<Rightarrow>
            (let i = rtable_inptr s;
                 s = s\<lparr>rtable_inptr := rtable_inptr s + 1\<rparr>
             in (i, if rtable_inptr s = CSP_RTABLE_SIZE then s\<lparr>rtable_inptr := CSP_RTABLE_SIZE\<rparr> else s)));
     _ \<leftarrow> rtable_at entry s;
     Some (CSP_ERR_NONE,
       s\<lparr>rtable := (rtable s)[entry := \<lparr>r_address = addr, r_netmask = netmask, r_via = via, r_iface = ifc\<rparr>]\<rparr>)
   }"

definition csp_rtable_free :: "node \<Rightarrow> node" where
  "csp_rtable_free s =
     s\<lparr>rtable := replicate CSP_RTABLE_SIZE \<lparr>r_address = 0, r_netmask = 0, r_via = 0, r_iface = None\<rparr>\<rparr>"

definition csp_rtable_clear :: "node \<Rightarrow> node" where
  "csp_rtable_clear s = csp_rtable_free s"

definition csp_rtable_set :: "u16 \<Rightarrow> int \<Rightarrow> nat option \<Rightarrow> u16 \<Rightarrow> node \<Rightarrow> int csp" where
  "csp_rtable_set addr netmask ifc via s =
     (let host_bits = uint (csp_id_get_host_bits (csp_conf s));
          netmask = (if netmask < 0 \<or> netmask > host_bits then host_bits else netmask)
      in if ifc = None \<or> netmask > host_bits
         then Some (CSP_ERR_INVAL, s\<lparr>csp_dbg_errno := CSP_DBG_ERR_INVALID_RTABLE_ENTRY\<rparr>)
         else csp_rtable_set_internal addr (word_of_int netmask) ifc via s)"

text \<open>The result of the iterator is not used; the iterator has a context of its own.\<close>

primrec csp_rtable_iterate_loop ::
  "('c \<Rightarrow> csp_route_t \<Rightarrow> (bool \<times> 'c) option) \<Rightarrow> nat list \<Rightarrow> node \<Rightarrow> 'c \<Rightarrow> 'c option" where
  "csp_rtable_iterate_loop iter [] s ctx = Some ctx"
| "csp_rtable_iterate_loop iter (i # is) s ctx = do {
     r \<leftarrow> rtable_at i s;
     (_, ctx) \<leftarrow> iter ctx r;
     csp_rtable_iterate_loop iter is s ctx
   }"

definition csp_rtable_iterate ::
  "('c \<Rightarrow> csp_route_t \<Rightarrow> (bool \<times> 'c) option) \<Rightarrow> node \<Rightarrow> 'c \<Rightarrow> 'c option" where
  "csp_rtable_iterate iter s ctx = csp_rtable_iterate_loop iter [0..<rtable_inptr s] s ctx"

section \<open>Invariant\<close>

definition routes :: "node \<Rightarrow> csp_route_t list" where
  "routes s = take (rtable_inptr s) (rtable s)"

definition rtable_inv :: "node \<Rightarrow> bool" where
  "rtable_inv s \<longleftrightarrow> length (rtable s) = CSP_RTABLE_SIZE \<and> rtable_inptr s \<le> CSP_RTABLE_SIZE \<and>
     (\<forall>r \<in> set (routes s). unat (r_netmask r) \<le> unat (csp_id_get_host_bits (csp_conf s))) \<and>
     distinct (map (\<lambda>r. (r_address r, r_netmask r)) (routes s))"

text \<open>A route matches an address when they agree in all the bits above the host part.\<close>

definition route_matches :: "csp_conf_t \<Rightarrow> u16 \<Rightarrow> csp_route_t \<Rightarrow> bool" where
  "route_matches conf addr r \<longleftrightarrow>
     (\<forall>i. unat (csp_id_get_host_bits conf) - unat (r_netmask r) \<le> i \<longrightarrow> (bit (r_address r) i \<longleftrightarrow> bit addr i))"

lemma net_bits_match:
  assumes "k \<le> 16"
  shows "a AND NOT (Bit_Operations.mask k) = b AND NOT (Bit_Operations.mask k) \<longleftrightarrow>
    (\<forall>i. k \<le> i \<longrightarrow> (bit (a :: u16) i \<longleftrightarrow> bit b i))" (is "?l \<longleftrightarrow> ?r")
proof
  assume l: ?l
  show ?r
  proof (intro allI impI)
    fix i assume "k \<le> i"
    moreover have "bit (a AND NOT (Bit_Operations.mask k)) i = bit (b AND NOT (Bit_Operations.mask k)) i" using l by simp
    ultimately show "bit a i \<longleftrightarrow> bit b i" by (auto simp: bit_simps dest: bit_imp_le_length)
  qed
next
  assume ?r
  then show ?l by (intro bit_word_eqI) (auto simp: bit_simps)
qed

lemma length_routes: "rtable_inv s \<Longrightarrow> length (routes s) = rtable_inptr s"
  by (simp add: rtable_inv_def routes_def)

lemma find_route_step_eq:
  assumes "rtable_inv s" "i < rtable_inptr s"
  shows "csp_rtable_find_route_step addr s i best =
    Some (if route_matches (csp_conf s) addr (routes s ! i) \<and> snd best \<le> r_netmask (routes s ! i)
          then (Some i, r_netmask (routes s ! i)) else best)"
proof -
  let ?h = "csp_id_get_host_bits (csp_conf s)" and ?r = "rtable s ! i"
  have i: "i < length (rtable s)" "routes s ! i = ?r"
    using assms by (auto simp: rtable_inv_def routes_def)
  have "routes s ! i \<in> set (routes s)" using assms by (simp add: length_routes)
  then have n: "unat (r_netmask ?r) \<le> unat ?h" using assms(1) i by (auto simp: rtable_inv_def)
  have h: "unat ?h \<le> 14" by (rule host_bits_le)
  have "(ucast (r_netmask ?r) :: u32) \<le> ?h" using n by (simp add: word_le_nat_alt)
  then have u: "unat (?h - ucast (r_netmask ?r)) = unat ?h - unat (r_netmask ?r)" by (simp add: unat_sub)
  have lt: "?h - ucast (r_netmask ?r) < 31" using u h by (simp add: word_less_nat_alt)
  let ?k = "unat ?h - unat (r_netmask ?r)"
  have m: "(ucast (2 ^ ?k - 1 :: u32) :: u16) = Bit_Operations.mask ?k"
    by (rule bit_word_eqI) (auto simp: bit_simps simp flip: mask_eq_exp_minus_1)
  have "?k \<le> 16" using h by simp
  then have "r_address ?r AND NOT (Bit_Operations.mask ?k) = addr AND NOT (Bit_Operations.mask ?k) \<longleftrightarrow>
      route_matches (csp_conf s) addr ?r"
    using net_bits_match by (simp add: route_matches_def)
  then show ?thesis
    using i lt by (simp add: csp_rtable_find_route_step_def rtable_at_def shift_one_def u m)
qed

text \<open>The best of the first routes: the last one with the longest matching mask.\<close>

definition best_route :: "csp_conf_t \<Rightarrow> u16 \<Rightarrow> csp_route_t list \<Rightarrow> nat option \<times> u16 \<Rightarrow> bool" where
  "best_route conf addr rs best \<longleftrightarrow>
     (case fst best of
        None \<Rightarrow> snd best = 0 \<and> (\<forall>r \<in> set rs. \<not> route_matches conf addr r)
      | Some i \<Rightarrow> i < length rs \<and> route_matches conf addr (rs ! i) \<and> snd best = r_netmask (rs ! i) \<and>
          (\<forall>j < length rs. route_matches conf addr (rs ! j) \<longrightarrow> r_netmask (rs ! j) \<le> r_netmask (rs ! i) \<and>
             (r_netmask (rs ! j) = r_netmask (rs ! i) \<longrightarrow> j \<le> i)))"

lemma best_route_step:
  assumes "best_route conf addr rs best"
  shows "best_route conf addr (rs @ [r])
    (if route_matches conf addr r \<and> snd best \<le> r_netmask r then (Some (length rs), r_netmask r) else best)"
  using assms
  by (auto simp: best_route_def nth_append less_Suc_eq_le le_less word_gt_0 split: option.splits if_splits)

lemma find_route_loop_best:
  assumes "rtable_inv s" "n \<le> rtable_inptr s"
  shows "\<exists>best. csp_rtable_find_route_loop [0..<n] addr s (None, 0) = Some best \<and>
    best_route (csp_conf s) addr (take n (routes s)) best"
  using assms(2)
proof (induction n)
  case 0
  then show ?case by (simp add: best_route_def)
next
  case (Suc n)
  have app: "csp_rtable_find_route_loop (xs @ ys) addr s b =
      Option.bind (csp_rtable_find_route_loop xs addr s b) (csp_rtable_find_route_loop ys addr s)" for xs ys b
  proof (induction xs arbitrary: b)
    case (Cons x xs)
    then show ?case by (cases "csp_rtable_find_route_step addr s x b") auto
  qed simp
  from Suc obtain best where best: "csp_rtable_find_route_loop [0..<n] addr s (None, 0) = Some best"
    "best_route (csp_conf s) addr (take n (routes s)) best" by auto
  have len: "take (Suc n) (routes s) = take n (routes s) @ [routes s ! n]" "length (take n (routes s)) = n"
    using Suc.prems length_routes [OF assms(1)] by (simp_all add: take_Suc_conv_app_nth)
  have step: "csp_rtable_find_route_step addr s n best =
      Some (if route_matches (csp_conf s) addr (routes s ! n) \<and> snd best \<le> r_netmask (routes s ! n)
            then (Some n, r_netmask (routes s ! n)) else best)" (is "_ = Some ?b")
    using find_route_step_eq [OF assms(1)] Suc.prems by simp
  then have "csp_rtable_find_route_loop [0..<Suc n] addr s (None, 0) = Some ?b"
    using best(1) by (simp add: app)
  moreover have "best_route (csp_conf s) addr (take (Suc n) (routes s)) ?b"
    using best_route_step [OF best(2), of "routes s ! n"] by (simp only: len)
  ultimately show ?case by blast
qed

section \<open>The contract of a lookup\<close>

locale route_lookup =
  fixes find_route :: "u16 \<Rightarrow> 's \<Rightarrow> nat option option"
    and table :: "'s \<Rightarrow> csp_route_t list"
    and matches :: "'s \<Rightarrow> u16 \<Rightarrow> csp_route_t \<Rightarrow> bool"
    and inv :: "'s \<Rightarrow> bool"
  assumes found: "inv s \<Longrightarrow> find_route addr s = Some (Some i) \<Longrightarrow> i < length (table s) \<and> matches s addr (table s ! i) \<and>
      (\<forall>j < length (table s). matches s addr (table s ! j) \<longrightarrow> r_netmask (table s ! j) \<le> r_netmask (table s ! i))"
    and missing: "inv s \<Longrightarrow> find_route addr s = Some None \<longleftrightarrow> (\<forall>r \<in> set (table s). \<not> matches s addr r)"
    and total: "inv s \<Longrightarrow> find_route addr s \<noteq> None"
begin

text \<open>A single matching route with the longest mask is the one that is found.\<close>

lemma find_unique:
  assumes "inv s" "i < length (table s)" "matches s addr (table s ! i)"
    "\<And>j. j < length (table s) \<Longrightarrow> j \<noteq> i \<Longrightarrow> matches s addr (table s ! j) \<Longrightarrow>
      r_netmask (table s ! j) < r_netmask (table s ! i)"
  shows "find_route addr s = Some (Some i)"
proof -
  have "find_route addr s \<noteq> Some None" using missing assms nth_mem by blast
  then obtain k where k: "find_route addr s = Some (Some k)" using total [OF assms(1), of addr]
    by (cases "find_route addr s") auto
  with found [OF assms(1) k] assms have "k = i" by (meson leD)
  with k show ?thesis by simp
qed

end

lemma csp_rtable_find_route_best:
  assumes "rtable_inv s"
  shows "\<exists>b m. csp_rtable_find_route addr s = Some b \<and> best_route (csp_conf s) addr (routes s) (b, m)"
  using find_route_loop_best [OF assms order_refl, of addr] length_routes [OF assms]
  by (auto simp: csp_rtable_find_route_def split: prod.splits)

interpretation rt: route_lookup csp_rtable_find_route routes "\<lambda>s. route_matches (csp_conf s)" rtable_inv
proof (unfold_locales, goal_cases)
  case (1 s addr i)
  then show ?case using csp_rtable_find_route_best [of s addr] by (auto simp: best_route_def)
next
  case (2 s addr)
  from csp_rtable_find_route_best [OF 2, of addr] obtain b m where
    b: "csp_rtable_find_route addr s = Some b" "best_route (csp_conf s) addr (routes s) (b, m)" by blast
  show ?case
  proof (cases b)
    case None
    then show ?thesis using b by (simp add: best_route_def)
  next
    case (Some i)
    then have "routes s ! i \<in> set (routes s)" "route_matches (csp_conf s) addr (routes s ! i)"
      using b by (simp_all add: best_route_def)
    then show ?thesis using b Some by auto
  qed
next
  case (3 s addr)
  then show ?case using csp_rtable_find_route_best [of s addr] by auto
qed

section \<open>Setting a route\<close>

lemma find_exact_loop_eq:
  "\<forall>i \<in> set is. i < length (rtable s) \<Longrightarrow>
     csp_rtable_find_exact_loop is addr netmask s =
       Some (find (\<lambda>i. r_address (rtable s ! i) = addr \<and> r_netmask (rtable s ! i) = netmask) is)"
  by (induction "is") (auto simp: rtable_at_def)

lemma find_upt_Some:
  assumes "find P [0..<n] = Some i"
  shows "i < n" "P i"
  using assms by (auto simp: find_Some_iff)

lemma csp_rtable_find_exact_eq:
  assumes "rtable_inv s"
  shows "csp_rtable_find_exact addr netmask s =
    Some (find (\<lambda>i. r_address (routes s ! i) = addr \<and> r_netmask (routes s ! i) = netmask) [0..<rtable_inptr s])"
proof -
  have "csp_rtable_find_exact addr netmask s =
      Some (find (\<lambda>i. r_address (rtable s ! i) = addr \<and> r_netmask (rtable s ! i) = netmask) [0..<rtable_inptr s])"
    using assms by (auto simp: csp_rtable_find_exact_def rtable_inv_def find_exact_loop_eq)
  also have "\<dots> = Some (find (\<lambda>i. r_address (routes s ! i) = addr \<and> r_netmask (routes s ! i) = netmask) [0..<rtable_inptr s])"
    by (intro arg_cong [of _ _ Some] find_cong) (auto simp: routes_def)
  finally show ?thesis .
qed

text \<open>The routes after an entry is set: replaced in place, or appended.\<close>

definition set_route :: "csp_route_t \<Rightarrow> csp_route_t list \<Rightarrow> csp_route_t list" where
  "set_route r rs =
     (case find (\<lambda>i. r_address (rs ! i) = r_address r \<and> r_netmask (rs ! i) = r_netmask r) [0..<length rs] of
        Some i \<Rightarrow> rs[i := r]
      | None \<Rightarrow> rs @ [r])"

lemma set_route_mem: "\<exists>i < length (set_route r rs). set_route r rs ! i = r"
proof (cases "find (\<lambda>i. r_address (rs ! i) = r_address r \<and> r_netmask (rs ! i) = r_netmask r) [0..<length rs]")
  case None
  then show ?thesis by (intro exI [of _ "length rs"]) (simp add: set_route_def)
next
  case (Some i)
  then show ?thesis using find_upt_Some(1) [OF Some] by (intro exI [of _ i]) (simp add: set_route_def)
qed

lemma csp_rtable_set_internal_eq:
  fixes a m via :: u16 and ifc :: "nat option"
  assumes "rtable_inv s" "unat m \<le> unat (csp_id_get_host_bits (csp_conf s))"
  defines "r \<equiv> \<lparr>r_address = a, r_netmask = m, r_via = via, r_iface = ifc\<rparr>"
  assumes "length (set_route r (routes s)) \<le> CSP_RTABLE_SIZE"
  shows "\<exists>s'. csp_rtable_set_internal a m ifc via s = Some (CSP_ERR_NONE, s') \<and>
    routes s' = set_route r (routes s) \<and> rtable_inv s' \<and> csp_conf s' = csp_conf s"
proof (cases "find (\<lambda>i. r_address (routes s ! i) = a \<and> r_netmask (routes s ! i) = m) [0..<rtable_inptr s]")
  case (Some i)
  let ?s = "s\<lparr>rtable := (rtable s)[i := r]\<rparr>"
  note f = find_upt_Some [OF Some]
  have len: "i < length (rtable s)" using f(1) assms(1) by (simp add: rtable_inv_def)
  have e: "csp_rtable_set_internal a m ifc via s = Some (CSP_ERR_NONE, ?s)"
    using Some len csp_rtable_find_exact_eq [OF assms(1)]
    by (simp add: csp_rtable_set_internal_def rtable_at_def r_def)
  have rs: "routes ?s = (routes s)[i := r]" "routes ?s = set_route r (routes s)"
    using f(1) Some length_routes [OF assms(1)] by (simp_all add: routes_def take_update_swap set_route_def r_def)
  have "map (\<lambda>r. (r_address r, r_netmask r)) ((routes s)[i := r]) = map (\<lambda>r. (r_address r, r_netmask r)) (routes s)"
    using f length_routes [OF assms(1)] by (simp add: map_update r_def list_update_same_conv)
  then have "rtable_inv ?s" using assms(1,2) rs(1) set_update_subset_insert [of "routes s" i r]
    by (auto simp: rtable_inv_def r_def)
  then show ?thesis using e rs(2) by auto
next
  case None
  let ?s = "s\<lparr>rtable := (rtable s)[rtable_inptr s := r], rtable_inptr := Suc (rtable_inptr s)\<rparr>"
  have sr: "set_route r (routes s) = routes s @ [r]"
    using None length_routes [OF assms(1)] by (simp add: set_route_def r_def)
  have n: "rtable_inptr s < length (rtable s)" "rtable_inptr s < 10"
    using assms(4) sr length_routes [OF assms(1)] assms(1) by (simp_all add: rtable_inv_def)
  have e: "csp_rtable_set_internal a m ifc via s = Some (CSP_ERR_NONE, ?s)"
    using None n csp_rtable_find_exact_eq [OF assms(1)]
    by (simp add: csp_rtable_set_internal_def rtable_at_def r_def Let_def)
  have rs: "routes ?s = routes s @ [r]" using n(1) by (simp add: routes_def take_Suc_conv_app_nth)
  have "(a, m) \<notin> set (map (\<lambda>r. (r_address r, r_netmask r)) (routes s))"
    using None length_routes [OF assms(1)] by (auto simp: find_None_iff in_set_conv_nth)
  then have "rtable_inv ?s" using assms(1,2) rs n by (auto simp: rtable_inv_def r_def)
  then show ?thesis using e rs sr by auto
qed

lemma rtable_set_internal_frame:
  assumes "csp_rtable_set_internal a m ifc via s = Some (e, s')"
  shows "\<exists>n t. s' = s\<lparr>rtable_inptr := n, rtable := t\<rparr>"
proof -
  have "s\<lparr>rtable := t\<rparr> = s\<lparr>rtable_inptr := rtable_inptr s, rtable := t\<rparr>" for t by (cases s) simp
  then have "\<exists>n t'. s\<lparr>rtable := t\<rparr> = s\<lparr>rtable_inptr := n, rtable := t'\<rparr>" for t by blast
  then show ?thesis using assms
    by (auto simp: csp_rtable_set_internal_def bind_Some_iff Let_def split: option.splits if_splits)
qed

lemma iface_chain_rtable [simp]: "iface_chain (s\<lparr>rtable_inptr := n, rtable := t\<rparr>) p xs = iface_chain s p xs"
  by (induction xs arbitrary: p) auto

section \<open>Properties\<close>

text \<open>C5: The route found for an address is a longest-prefix match: it matches the address, no matching
  route has a longer mask, among those of the same mask it is the last one, and the lookup
  gives nothing exactly when no route matches. The lookup has no undefined behaviour.\<close>

theorem csp_rtable_find_route_longest_prefix:
  assumes "rtable_inv s"
  shows "\<exists>b. csp_rtable_find_route addr s = Some b \<and>
    (case b of
       None \<Rightarrow> \<forall>r \<in> set (routes s). \<not> route_matches (csp_conf s) addr r
     | Some i \<Rightarrow> i < length (routes s) \<and> route_matches (csp_conf s) addr (routes s ! i) \<and>
        (\<forall>j < length (routes s). route_matches (csp_conf s) addr (routes s ! j) \<longrightarrow>
           r_netmask (routes s ! j) < r_netmask (routes s ! i) \<or>
           r_netmask (routes s ! j) = r_netmask (routes s ! i) \<and> j \<le> i))"
  using csp_rtable_find_route_best [OF assms, of addr]
  by (fastforce simp: best_route_def split: option.splits)

text \<open>Routes of the example: 8/11 (addresses 8 to 15) and 0/0 (all addresses).\<close>

definition example_routes :: node where
  "example_routes = zero_node\<lparr>csp_conf := zero_conf\<lparr>version := 2\<rparr>, rtable_inptr := 2,
     rtable := [\<lparr>r_address = 8, r_netmask = 11, r_via = 0xFFFF, r_iface = Some 1\<rparr>,
                \<lparr>r_address = 0, r_netmask = 0, r_via = 0xFFFF, r_iface = Some 2\<rparr>] @
               replicate 8 \<lparr>r_address = 0, r_netmask = 0, r_via = 0, r_iface = None\<rparr>\<rparr>"

lemma example_routes_inv: "rtable_inv example_routes" "routes example_routes =
   [\<lparr>r_address = 8, r_netmask = 11, r_via = 0xFFFF, r_iface = Some 1\<rparr>,
    \<lparr>r_address = 0, r_netmask = 0, r_via = 0xFFFF, r_iface = Some 2\<rparr>]"
  by (simp_all add: rtable_inv_def routes_def example_routes_def csp_id_get_host_bits_def)

theorem csp_rtable_find_route_longest_prefix_witness:
  "csp_rtable_find_route 9 example_routes \<noteq> Some None"
proof -
  have "bit (0 :: u16) i = bit (9 :: u16) i" if "14 \<le> i" for i
    using that bit_imp_le_length [of "9 :: u16" i]
    by (auto simp: bit_numeral_rec less_Suc_eq eval_nat_numeral)
  then have "route_matches (csp_conf example_routes) 9
      \<lparr>r_address = 0, r_netmask = 0, r_via = 0xFFFF, r_iface = Some 2\<rparr>"
    by (simp add: route_matches_def example_routes_def csp_id_get_host_bits_def)
  then show ?thesis
    using csp_rtable_find_route_longest_prefix [OF example_routes_inv(1), of 9]
    by (auto simp: example_routes_inv(2))
qed

text \<open>Setting a route keeps the table's invariant; the entry with the same address and mask is
  replaced, or the route is appended while there is room; the netmask -1, or one too large,
  means a route to one host, and that host's lookup then gives exactly this route.\<close>

theorem csp_rtable_set_host_route:
  assumes "rtable_inv s" "rtable_inptr s < CSP_RTABLE_SIZE" "netmask < 0 \<or> netmask > 14"
  shows "\<exists>s' i. csp_rtable_set addr netmask (Some ifc) via s = Some (CSP_ERR_NONE, s') \<and> rtable_inv s' \<and>
    csp_rtable_find_route addr s' = Some (Some i) \<and>
    routes s' ! i = \<lparr>r_address = addr, r_netmask = ucast (csp_id_get_host_bits (csp_conf s)), r_via = via,
      r_iface = Some ifc\<rparr>"
proof -
  let ?h = "csp_id_get_host_bits (csp_conf s)"
  let ?r = "\<lparr>r_address = addr, r_netmask = ucast ?h, r_via = via, r_iface = Some ifc\<rparr>"
  have h: "?h = 14 \<or> ?h = 5" by (simp add: csp_id_get_host_bits_def)
  have e: "csp_rtable_set addr netmask (Some ifc) via s = csp_rtable_set_internal addr (ucast ?h) (Some ifc) via s"
    using assms(3) h by (auto simp: csp_rtable_set_def Let_def)
  have "length (set_route ?r (routes s)) \<le> CSP_RTABLE_SIZE"
    using assms(2) length_routes [OF assms(1)] by (simp add: set_route_def split: option.splits)
  moreover have "unat (ucast ?h :: u16) \<le> unat ?h" using h by auto
  ultimately obtain s' where s': "csp_rtable_set_internal addr (ucast ?h) (Some ifc) via s = Some (CSP_ERR_NONE, s')"
    "routes s' = set_route ?r (routes s)" "rtable_inv s'" "csp_conf s' = csp_conf s"
    using csp_rtable_set_internal_eq [OF assms(1), of "ucast ?h" addr via "Some ifc"] by auto
  obtain i where i: "i < length (routes s')" "routes s' ! i = ?r"
    using s'(2) set_route_mem [of ?r "routes s"] by auto
  have exact: "j = i" if "j < length (routes s')" "r_address (routes s' ! j) = addr" "r_netmask (routes s' ! j) = ucast ?h" for j
    using s'(3) i that nth_eq_iff_index_eq [of "map (\<lambda>r. (r_address r, r_netmask r)) (routes s')" j i]
    by (auto simp: rtable_inv_def)
  have masks: "r_netmask (routes s' ! j) \<le> ucast ?h" if "j < length (routes s')" for j
    using s'(3,4) nth_mem [OF that] h by (auto simp: rtable_inv_def word_le_nat_alt)
  have full: "r_address r = addr" if "route_matches (csp_conf s) addr r" "r_netmask r = ucast ?h" for r
    using that h by (intro bit_word_eqI) (auto simp: route_matches_def)
  have "csp_rtable_find_route addr s' = Some (Some i)"
  proof (rule rt.find_unique [OF s'(3) i(1)])
    show "route_matches (csp_conf s') addr (routes s' ! i)" using i(2) by (simp add: route_matches_def)
    fix j assume j: "j < length (routes s')" "j \<noteq> i" "route_matches (csp_conf s') addr (routes s' ! j)"
    have "r_netmask (routes s' ! j) \<noteq> ucast ?h" using exact [OF j(1)] full [of "routes s' ! j"] j s'(4) by auto
    then show "r_netmask (routes s' ! j) < r_netmask (routes s' ! i)" using masks [OF j(1)] i(2) by simp
  qed
  then show ?thesis using e s' i by auto
qed

theorem csp_rtable_set_host_route_witness:
  "\<exists>s' i. csp_rtable_set 9 (-1) (Some 3) 0xFFFF example_routes = Some (CSP_ERR_NONE, s') \<and>
     csp_rtable_find_route 9 s' = Some (Some i) \<and> r_iface (routes s' ! i) = Some 3"
  using csp_rtable_set_host_route [OF example_routes_inv(1), of "-1" 9 3 "0xFFFF"]
  by (auto simp: example_routes_def)

text \<open>The guard against a full table has no effect: setting an eleventh route writes
  outside the array.\<close>

theorem csp_rtable_set_overflow:
  assumes "rtable_inv s" "rtable_inptr s = CSP_RTABLE_SIZE"
    "\<forall>r \<in> set (routes s). r_address r \<noteq> addr \<or> r_netmask r \<noteq> ucast (csp_id_get_host_bits (csp_conf s))"
  shows "csp_rtable_set addr (-1) (Some ifc) via s = None"
proof -
  let ?h = "csp_id_get_host_bits (csp_conf s)"
  have e: "csp_rtable_set addr (-1) (Some ifc) via s = csp_rtable_set_internal addr (ucast ?h) (Some ifc) via s"
    by (auto simp: csp_rtable_set_def Let_def)
  have "find (\<lambda>i. r_address (routes s ! i) = addr \<and> r_netmask (routes s ! i) = ucast ?h) [0..<rtable_inptr s] = None"
    using assms length_routes [OF assms(1)] by (auto simp: find_None_iff all_set_conv_all_nth)
  moreover have "length (rtable s) = 10" using assms(1) by (simp add: rtable_inv_def)
  ultimately show ?thesis
    using csp_rtable_find_exact_eq [OF assms(1)] assms(2)
    by (simp add: e csp_rtable_set_internal_def rtable_at_def Let_def)
qed

theorem csp_rtable_set_overflow_witness:
  "csp_rtable_set 99 (-1) (Some 1) 0xFFFF (zero_node\<lparr>csp_conf := zero_conf\<lparr>version := 2\<rparr>, rtable_inptr := 10,
     rtable := map (\<lambda>i. \<lparr>r_address = of_nat i, r_netmask = 14, r_via = 0xFFFF, r_iface = Some 1\<rparr>) [0..<10]\<rparr>) = None"
  by (rule csp_rtable_set_overflow)
    (simp_all add: rtable_inv_def routes_def csp_id_get_host_bits_def zero_node_def zero_conf_def upt_rec)

text \<open>Clearing the table does not reset the number of entries: after a clear, the lookup of any
  address that fits the header gives the last of the zeroed entries, whose interface is a null pointer.\<close>

theorem csp_rtable_clear_null_route:
  assumes "rtable_inv s" "0 < rtable_inptr s" "unat addr < 2 ^ unat (csp_id_get_host_bits (csp_conf s))"
  shows "csp_rtable_find_route addr (csp_rtable_clear s) = Some (Some (rtable_inptr s - 1)) \<and>
    r_iface (rtable (csp_rtable_clear s) ! (rtable_inptr s - 1)) = None"
proof -
  let ?z = "\<lparr>r_address = 0, r_netmask = 0, r_via = 0, r_iface = None\<rparr>" and ?s = "csp_rtable_clear s"
  let ?h = "unat (csp_id_get_host_bits (csp_conf s))"
  have n: "rtable_inptr s \<le> 10" using assms(1) by (simp add: rtable_inv_def)
  have z: "rtable ?s = replicate 10 ?z" "csp_conf ?s = csp_conf s" "rtable_inptr ?s = rtable_inptr s"
    by (simp_all add: csp_rtable_clear_def csp_rtable_free_def)
  have "csp_id_get_host_bits (csp_conf s) = 14 \<or> csp_id_get_host_bits (csp_conf s) = 5"
    by (simp add: csp_id_get_host_bits_def)
  then have "addr < 2 ^ ?h" using assms(3) by (auto simp: word_less_nat_alt)
  then have "bit addr i \<Longrightarrow> i < ?h" for i by (rule less_power_bits)
  then have hi: "bit (0 :: u16) i = bit addr i" if "?h \<le> i" for i using that by fastforce
  have step: "csp_rtable_find_route_step addr ?s i (b, 0) = Some (Some i, 0)" if "i < 10" for i b
  proof -
    have "?h \<le> 16" using host_bits_le [of "csp_conf s"] by simp
    then have "addr AND NOT (Bit_Operations.mask ?h) = 0"
      using hi net_bits_match [of ?h 0 addr] by simp
    moreover have "(ucast (2 ^ ?h - 1 :: u32) :: u16) = Bit_Operations.mask ?h"
      by (rule bit_word_eqI) (auto simp: bit_simps simp flip: mask_eq_exp_minus_1)
    moreover have "csp_id_get_host_bits (csp_conf s) < 31"
      using host_bits_le [of "csp_conf s"] by (simp add: word_less_nat_alt)
    ultimately show ?thesis using that
      by (simp add: csp_rtable_find_route_step_def rtable_at_def z shift_one_def)
  qed
  have "csp_rtable_find_route_loop is addr ?s (b, 0) = Some (if is = [] then b else Some (last is), 0)"
    if "\<forall>i \<in> set is. i < 10" for "is" b
    using that by (induction "is" arbitrary: b) (auto simp: step)
  from this [of "[0..<rtable_inptr s]" None] n assms(2) show ?thesis
    by (simp add: csp_rtable_find_route_def z last_upt)
qed

theorem csp_rtable_clear_null_route_witness:
  "csp_rtable_find_route 9 (csp_rtable_clear example_routes) = Some (Some 1)"
  using csp_rtable_clear_null_route [OF example_routes_inv(1), of 9]
  by (simp add: example_routes_def csp_id_get_host_bits_def)

end
