(* ===== verification/Csp_Send.thy ===== *)
theory Csp_Send
  imports Csp_Conn_Table Csp_Hmac Csp_Rtable
begin

text \<open>
  Sending a packet (the lower half of \<^verbatim>\<open>src/csp_io.c\<close>): the choice of the outgoing interfaces, by
  subnet or by the routing table, and the transmission on one interface with the promiscuous
  copy, the authentication code, the checksum and the counters. \<open>nexthop\<close> is the transmit
  function of the interfaces.
\<close>

section \<open>Model\<close>

text \<open>The label \<^verbatim>\<open>tx_err\<close>.\<close>

definition csp_send_tx_err :: "nat \<Rightarrow> nat \<Rightarrow> node \<Rightarrow> unit csp" where
  "csp_send_tx_err packet iface s = do {
     (_, s) \<leftarrow> csp_buffer_free (Some packet) s;
     f \<leftarrow> get_iface iface s;
     Some ((), put_iface iface (f\<lparr>if_tx_error := if_tx_error f + 1\<rparr>) s)
   }"

text \<open>The part for packets of this node: true when it ends at \<^verbatim>\<open>tx_err\<close>.\<close>

definition csp_send_protect :: "csp_id_t \<Rightarrow> nat \<Rightarrow> node \<Rightarrow> bool csp" where
  "csp_send_protect ido packet s = do {
     p \<leftarrow> get_packet packet s;
     (r, p) \<leftarrow> (if has_flag (flags ido) CSP_FHMAC then csp_hmac_append (csp_hmac_key s) p False
               else Some (CSP_ERR_NONE, p));
     (if r \<noteq> CSP_ERR_NONE then Some (True, put_packet packet p s)
      else do {
        (r, p) \<leftarrow> (if has_flag (flags ido) CSP_FCRC32 then csp_crc32_append False (csp_conf s) p
                  else Some (CSP_ERR_NONE, p));
        Some (r \<noteq> CSP_ERR_NONE, put_packet packet p s)
      })
   }"

definition csp_send_direct_iface ::
  "nexthop_t \<Rightarrow> csp_id_t \<Rightarrow> nat \<Rightarrow> nat option \<Rightarrow> u16 \<Rightarrow> bool \<Rightarrow> node \<Rightarrow> unit csp" where
  "csp_send_direct_iface nexthop ido packet iface via from_me s = do {
     p \<leftarrow> get_packet packet s;
     let s = put_packet packet (p\<lparr>pid := ido\<rparr>) s;
     (_, s) \<leftarrow> (if from_me \<and> iface \<noteq> Some csp_if_lo then csp_promisc_add packet s else Some ((), s));
     i \<leftarrow> iface;
     (err, s) \<leftarrow> (if from_me then csp_send_protect ido packet s else Some (False, s));
     (if err then csp_send_tx_err packet i s
      else do {
        p \<leftarrow> get_packet packet s;
        let n = plen p;
        f \<leftarrow> get_iface i s;
        let mtu = if_mtu f;
        (if mtu > 0 \<and> n > mtu then csp_send_tx_err packet i s
         else do {
           (r, s) \<leftarrow> nexthop i via packet s;
           (if r \<noteq> CSP_ERR_NONE then csp_send_tx_err packet i s
            else do {
              f \<leftarrow> get_iface i s;
              Some ((), put_iface i (f\<lparr>if_tx := if_tx f + 1, if_txbytes := if_txbytes f + ucast n\<rparr>) s)
            })
         })
      })
   }"

text \<open>
  The loop over the interfaces of the destination's subnet. A copy that could not be allocated
  is a null pointer, which the next call follows.
\<close>

partial_function (option) csp_send_direct_loop ::
  "nexthop_t \<Rightarrow> csp_id_t \<Rightarrow> nat \<Rightarrow> nat option \<Rightarrow> bool \<Rightarrow> nat option \<Rightarrow> bool \<Rightarrow> node \<Rightarrow> (csp_id_t \<times> bool) csp" where
  "csp_send_direct_loop nexthop ido packet routed_from from_me iface local_found s = do {
     iface \<leftarrow> csp_iflist_get_by_subnet (dst ido) iface s;
     (if iface = None then Some ((ido, local_found), s)
      else do {
        i \<leftarrow> iface;
        (if iface = routed_from
         then csp_send_direct_loop nexthop ido packet routed_from from_me iface local_found s
         else do {
           f \<leftarrow> get_iface i s;
           w \<leftarrow> csp_iflist_is_within_subnet (if_addr f) routed_from s;
           (if w
            then csp_send_direct_loop nexthop ido packet routed_from from_me iface local_found s
            else do {
              r \<leftarrow> csp_buffer_clone (Some packet) s;
              c \<leftarrow> fst r;
              r \<leftarrow> csp_send_direct_iface nexthop (ido\<lparr>src := if_addr f\<rparr>) c iface CSP_NO_VIA_ADDRESS from_me (snd r);
              csp_send_direct_loop nexthop (ido\<lparr>src := if_addr f\<rparr>) packet routed_from from_me iface True (snd r)
            })
         })
      })
   }"

definition csp_send_direct :: "nexthop_t \<Rightarrow> csp_id_t \<Rightarrow> nat \<Rightarrow> nat option \<Rightarrow> node \<Rightarrow> unit csp" where
  "csp_send_direct nexthop ido packet routed_from s = do {
     let from_me = (routed_from = None);
     ((ido, local_found), s) \<leftarrow> csp_send_direct_loop nexthop ido packet routed_from from_me None False s;
     (if local_found then csp_buffer_free (Some packet) s
      else do {
        route \<leftarrow> csp_rtable_find_route (dst ido) s;
        (case route of
           Some k \<Rightarrow> do {
             r \<leftarrow> rtable_at k s;
             csp_send_direct_iface nexthop ido packet (r_iface r) (r_via r) from_me s
           }
         | None \<Rightarrow> csp_buffer_free (Some packet) s)
      })
   }"

section \<open>The environment\<close>

text \<open>
  What sending relies on: the interfaces are a finite list with valid masks, the routing
  table is valid and its interfaces exist, and there is an authentication key.
\<close>

definition env_inv :: "node \<Rightarrow> bool" where
  "env_inv s \<longleftrightarrow> (\<exists>xs. iflist s xs) \<and> masks_ok s \<and> rtable_inv s \<and> 0 < length (ifaces s) \<and>
     (\<forall>r \<in> set (routes s). \<exists>i. r_iface r = Some i \<and> i < length (ifaces s)) \<and>
     length (ports s) = CSP_PORT_MAX_BIND + 2 \<and> length (arr_conn s) = CSP_CONN_MAX \<and>
     (\<forall>e \<in> set (ports s). p_state e = PORT_OPEN \<longrightarrow>
        p_ptr e < length (sockets s) \<and> s_rx_queue (sockets s ! p_ptr e) \<noteq> None) \<and>
     length (csp_dedup_array s) = CSP_DEDUP_COUNT \<and> csp_dedup_in s < CSP_DEDUP_COUNT \<and> csp_hmac_key s \<noteq> []"

lemma iface_chain_env:
  assumes "env s' = env s"
  shows "iface_chain s' p xs = iface_chain s p xs"
proof (induction xs arbitrary: p)
  case Nil
  show ?case by simp
next
  case (Cons x xs)
  have "if_next (ifaces s' ! x) = if_next (ifaces s ! x)" if "x < length (ifaces s)"
    using env_iface [OF assms that] by (simp add: iface_key_def)
  then show ?case by (simp add: Cons.IH env_lengths(1) [OF assms] cong: conj_cong)
qed

lemma masks_ok_env:
  assumes "env s' = env s"
  shows "masks_ok s' = masks_ok s"
proof -
  have "if_netmask (ifaces s' ! i) = if_netmask (ifaces s ! i)" if "i < length (ifaces s)" for i
    using env_iface [OF assms that] by (simp add: iface_key_def)
  then show ?thesis using env_lengths(1,4) [OF assms] by (auto simp: masks_ok_def all_set_conv_all_nth)
qed

lemma env_inv_env:
  assumes "env s' = env s" "env_inv s"
  shows "env_inv s'"
proof -
  note l = env_lengths [OF assms(1)]
  have dd: "length (csp_dedup_array s') = length (csp_dedup_array s)"
    "csp_dedup_in s' < length (csp_dedup_array s') \<longleftrightarrow> csp_dedup_in s < length (csp_dedup_array s)"
    "csp_hmac_key s' = [] \<longleftrightarrow> csp_hmac_key s = []"
    using assms(1) unfolding env_def prod.inject by blast+
  have socks: "s_rx_queue (sockets s' ! k) = None \<longleftrightarrow> s_rx_queue (sockets s ! k) = None" if "k < length (sockets s)" for k
    using env_sock [OF assms(1) that] by (simp add: sock_key_def)
  have "rtable_inv s' = rtable_inv s" "routes s' = routes s" using l by (simp_all add: rtable_inv_def routes_def)
  moreover have "(\<exists>xs. iflist s' xs) = (\<exists>xs. iflist s xs)"
    using iface_chain_env [OF assms(1)] l(8) by (simp add: iflist_def)
  ultimately show ?thesis using assms(2) masks_ok_env [OF assms(1)] l dd socks
    unfolding env_inv_def by (metis (no_types, lifting))
qed

section \<open>Buffers are accounted for\<close>

text \<open>A counter of an interface.\<close>

lemma env_put_counter:
  assumes "get_iface i s = Some f" "iface_key g = iface_key f"
  shows "env (put_iface i g s) = env s"
  using assms by (intro env_put_iface) (auto simp: get_iface_def split: if_splits)

lemma accounts_tx_err:
  assumes "accounts (add_mset p H) s" "i < length (ifaces s)"
  shows "\<exists>s'. csp_send_tx_err p i s = Some ((), s') \<and> accounts H s' \<and> env s' = env s \<and> keeps H s s'"
proof -
  note f = accounts_free [OF assms(1)]
  let ?s = "give_buffer p s"
  have l: "i < length (ifaces ?s)" using assms(2) by (simp add: give_buffer_def)
  then have g: "get_iface i ?s = Some (ifaces ?s ! i)" by (simp add: get_iface_def)
  show ?thesis using f g env_put_counter [OF g]
    by (simp add: csp_send_tx_err_def iface_key_def keeps_def)
qed

lemma accounts_send_protect:
  assumes "accounts (add_mset p H) s" "get_packet p s = Some x" "packet_wf x" "csp_hmac_key s \<noteq> []"
  shows "\<exists>r s' y. csp_send_protect ido p s = Some (r, s') \<and> accounts (add_mset p H) s' \<and> env s' = env s \<and>
    get_packet p s' = Some y \<and> packet_wf y \<and> keeps H s s'"
proof -
  let ?key = "csp_hmac_key s"
  have p: "p < length (csp_buffer_pool s)" using assms(2) by (auto simp: get_packet_def split: if_splits)
  have put: "accounts (add_mset p H) (put_packet p y s) \<and> get_packet p (put_packet p y s) = Some y \<and>
      keeps H s (put_packet p y s)" if "packet_wf y" for y
    using accounts_put [OF assms(1)] get_put_packet [OF p] keeps_put [OF assms(1)] that by (simp add: packet_wf_def)
  obtain r1 y1 where 1: "(if has_flag (flags ido) CSP_FHMAC then csp_hmac_append ?key x False else Some (CSP_ERR_NONE, x)) =
      Some (r1, y1)" "packet_wf y1"
    using hmac.app_returns [OF assms(3), of ?key] assms(3,4) by (cases "has_flag (flags ido) CSP_FHMAC") auto
  obtain r2 y2 where 2: "(if has_flag (flags ido) CSP_FCRC32 then csp_crc32_append False (csp_conf s) y1 else Some (CSP_ERR_NONE, y1)) =
      Some (r2, y2)" "packet_wf y2"
    using crc.app_returns [OF 1(2), of "csp_conf s"] 1(2) by (cases "has_flag (flags ido) CSP_FCRC32") auto
  have e: "csp_send_protect ido p s = Some (if r1 \<noteq> CSP_ERR_NONE then (True, put_packet p y1 s)
      else (r2 \<noteq> CSP_ERR_NONE, put_packet p y2 s))"
    by (simp only: csp_send_protect_def assms(2) bind.bind_lunit 1(1) 2(1) case_prod_conv split: if_split) simp
  show ?thesis unfolding e using put [OF 1(2)] put [OF 2(2)] 1(2) 2(2)
    by (cases "r1 = CSP_ERR_NONE") auto
qed

text \<open>Sending does not touch connections, sockets and settings.\<close>

lemma tx_err_frame: "csp_send_tx_err p i s = Some (u, s') \<Longrightarrow> send_frame s' = send_frame s"
  by (auto simp: csp_send_tx_err_def bind_Some_iff dest!: buffer_free_frame)

lemma send_protect_frame: "csp_send_protect ido p s = Some (r, s') \<Longrightarrow> send_frame s' = send_frame s"
  by (auto simp: csp_send_protect_def bind_Some_iff split: if_splits)

context nexthop_frame
begin

lemma send_iface_frame:
  assumes "csp_send_direct_iface nexthop ido p iface via from_me s = Some (u, s')"
  shows "send_frame s' = send_frame s"
proof -
  from assms obtain x i err s1 s2 where 1: "get_packet p s = Some x" "iface = Some i"
    "(if from_me \<and> iface \<noteq> Some csp_if_lo then csp_promisc_add p (put_packet p (x\<lparr>pid := ido\<rparr>) s)
      else Some ((), put_packet p (x\<lparr>pid := ido\<rparr>) s)) = Some ((), s1)"
    "(if from_me then csp_send_protect ido p s1 else Some (False, s1)) = Some (err, s2)"
    by (auto simp: csp_send_direct_iface_def bind_Some_iff Let_def)
  have f: "send_frame s2 = send_frame s"
    using 1(3,4) by (auto split: if_splits dest!: promisc_add_frame send_protect_frame)
  show ?thesis
  proof (cases err)
    case True
    then show ?thesis using assms 1 f by (auto simp: csp_send_direct_iface_def Let_def dest!: tx_err_frame)
  next
    case False
    then show ?thesis using assms 1 f
      by (auto simp: csp_send_direct_iface_def Let_def bind_Some_iff split: if_splits dest!: tx_err_frame nexthop_frame)
  qed
qed

lemma send_loop_frame:
  assumes "csp_send_direct_loop nh ido p routed_from from_me iface lf s = Some y"
  shows "nh = nexthop \<longrightarrow> send_frame (snd y) = send_frame s"
proof (rule csp_send_direct_loop.raw_induct [OF _ assms], intro impI, goal_cases)
  case (1 loop nh ido p routed_from from_me iface lf s y)
  have step: "send_frame s2 = send_frame s" if "csp_buffer_clone (Some p) s = Some (c, s1)"
    "csp_send_direct_iface nexthop ido' k iface' via from_me s1 = Some (u, s2)" for c s1 s2 ido' k iface' via u
    using buffer_clone_frame [OF that(1)] send_iface_frame [OF that(2)] by simp
  show ?case using 1(2,3) step
    by (auto simp: bind_Some_iff split: if_splits dest!: 1(1) [rule_format])
qed

lemma send_direct_frame:
  assumes "csp_send_direct nexthop ido p routed_from s = Some (u, s')"
  shows "send_frame s' = send_frame s"
proof -
  from assms obtain ido' lf s1 where l: "csp_send_direct_loop nexthop ido p routed_from (routed_from = None) None False s = Some ((ido', lf), s1)"
    by (auto simp: csp_send_direct_def bind_Some_iff Let_def)
  then have "send_frame s1 = send_frame s" using send_loop_frame by fastforce
  then show ?thesis using assms l
    by (auto simp: csp_send_direct_def bind_Some_iff Let_def split: if_splits option.splits dest!: buffer_free_frame send_iface_frame)
qed

end

context nexthop_contract
begin

lemma accounts_send_iface:
  assumes "accounts (add_mset p H) s" "get_packet p s = Some x" "packet_wf x" "i < length (ifaces s)" "csp_hmac_key s \<noteq> []"
  shows "\<exists>s'. csp_send_direct_iface nexthop ido p (Some i) via from_me s = Some ((), s') \<and> accounts H s' \<and> env s' = env s \<and> keeps H s s'"
proof -
  let ?x = "x\<lparr>pid := ido\<rparr>" and ?s = "put_packet p (x\<lparr>pid := ido\<rparr>) s"
  have p: "p < length (csp_buffer_pool s)" using assms(2) by (auto simp: get_packet_def split: if_splits)
  have wf: "packet_wf ?x" using assms(3) by (simp add: packet_wf_def)
  have a: "accounts (add_mset p H) ?s" using accounts_put [OF assms(1)] wf by (simp add: packet_wf_def)
  have g: "get_packet p ?s = Some ?x" using get_put_packet [OF p] by simp
  obtain s1 where s1: "(if from_me \<and> Some i \<noteq> Some csp_if_lo then csp_promisc_add p ?s else Some ((), ?s)) = Some ((), s1)"
    "env s1 = env ?s" "accounts (add_mset p H) s1" "get_packet p s1 = Some ?x" "keeps H ?s s1"
  proof (cases "from_me \<and> Some i \<noteq> Some csp_if_lo")
    case True
    obtain s' where "csp_promisc_add p ?s = Some ((), s')" "env s' = env ?s" "accounts (add_mset p H) s'"
      "get_packet p s' = Some ?x" "keeps (add_mset p H) ?s s'"
      using accounts_promisc_add [OF a g] wf by (auto simp: packet_wf_def)
    then show ?thesis using True that [of s'] keeps_sub [of "add_mset p H" ?s s' H] by simp
  next
    case False
    then show ?thesis using that [of ?s] a g by (simp only: if_False) simp
  qed
  have k: "csp_hmac_key s1 \<noteq> []" using s1(2) assms(5) by (simp add: env_def)
  obtain err s2 y where s2: "(if from_me then csp_send_protect ido p s1 else Some (False, s1)) = Some (err, s2)"
    "accounts (add_mset p H) s2" "env s2 = env s1" "get_packet p s2 = Some y" "packet_wf y" "keeps H s1 s2"
  proof (cases from_me)
    case True
    then show ?thesis using accounts_send_protect [OF s1(3,4) wf k, of ido] that by (simp only: if_True) blast
  next
    case False
    show ?thesis by (rule that [of False s1 ?x]) (simp_all only: False if_False s1(3,4) wf keeps_refl)
  qed
  have i2: "i < length (ifaces s2)" using env_lengths(1) [OF s2(3)] env_lengths(1) [OF s1(2)] assms(4) by simp
  have en: "env s2 = env s" using s2(3) s1(2) by simp
  have kp: "keeps H s s2"
    using keeps_put [OF assms(1), of ?x] s1(5) s2(6) by (simp add: keeps_def)
  have gi: "get_iface i s2 = Some (ifaces s2 ! i)" using i2 by (simp add: get_iface_def)
  obtain s3 where s3: "csp_send_tx_err p i s2 = Some ((), s3)" "accounts H s3" "env s3 = env s2" "keeps H s2 s3"
    using accounts_tx_err [OF s2(2) i2] by blast
  obtain r s4 where s4: "nexthop i via p s2 = Some (r, s4)" "env s4 = env s2" "keeps H s2 s4"
    "accounts (if r = CSP_ERR_NONE then H else add_mset p H) s4"
    using nexthop_accounts [OF s2(2) i2, of via] by blast
  have i4: "i < length (ifaces s4)" using env_lengths(1) [OF s4(2)] i2 by simp
  have g4: "get_iface i s4 = Some (ifaces s4 ! i)" using i4 by (simp add: get_iface_def)
  let ?f = "ifaces s4 ! i"
  let ?s5 = "put_iface i (?f\<lparr>if_tx := if_tx ?f + 1, if_txbytes := if_txbytes ?f + ucast (plen y)\<rparr>) s4"
  have e5: "env ?s5 = env s4" by (rule env_put_counter [OF g4]) (simp add: iface_key_def)
  have start: "csp_send_direct_iface nexthop ido p (Some i) via from_me s =
     (if err then csp_send_tx_err p i s2
      else if if_mtu (ifaces s2 ! i) > 0 \<and> plen y > if_mtu (ifaces s2 ! i) then csp_send_tx_err p i s2
      else if r \<noteq> CSP_ERR_NONE then csp_send_tx_err p i s4 else Some ((), ?s5))"
    unfolding csp_send_direct_iface_def
    by (simp only: assms(2) Let_def bind.bind_lunit s1(1) s2(1) s2(4) gi s4(1) g4 case_prod_conv if_cancel split: if_split)
  show ?thesis
  proof (cases "r = CSP_ERR_NONE")
    case True
    moreover have "keeps H s ?s5" using kp s4(3) by (simp add: keeps_def)
    ultimately show ?thesis using s3 s4 e5 en keeps_trans [OF kp s3(4)] unfolding start by auto
  next
    case False
    then obtain s5 where s5: "csp_send_tx_err p i s4 = Some ((), s5)" "accounts H s5" "env s5 = env s4" "keeps H s4 s5"
      using accounts_tx_err [of p H s4 i] s4(4) i4 by auto
    have "keeps H s s5" using kp s4(3) s5(4) by (simp add: keeps_def)
    then show ?thesis using s3 s4 s5 en False keeps_trans [OF kp s3(4)] unfolding start by auto
  qed
qed


text \<open>The loop keeps the original packet and hands out the copies.\<close>

lemma accounts_send_loop:
  assumes "csp_send_direct_loop nh ido p routed_from from_me iface lf s = Some y"
  shows "nh = nexthop \<longrightarrow> accounts (add_mset p H) s \<longrightarrow> get_packet p s = Some x \<longrightarrow> packet_wf x \<longrightarrow> env_inv s \<longrightarrow>
    accounts (add_mset p H) (snd y) \<and> env (snd y) = env s \<and> keeps (add_mset p H) s (snd y)"
proof (rule csp_send_direct_loop.raw_induct [OF _ assms], intro impI, goal_cases)
  case (1 loop nh ido p routed_from from_me iface lf s y)
  from 1(2) obtain ifc where ifc: "csp_iflist_get_by_subnet (dst ido) iface s = Some ifc" by (auto simp: bind_Some_iff)
  show ?case
  proof (cases ifc)
    case None
    then show ?thesis using 1(2,4) ifc by auto
  next
    case (Some i)
    show ?thesis
    proof (cases "ifc = routed_from")
      case True
      then have "loop nh ido p routed_from from_me ifc lf s = Some y" using 1(2) ifc Some by (cases routed_from) auto
      then show ?thesis using 1(1,3-7) by blast
    next
      case False
      from 1(2) ifc Some False obtain f w where f: "get_iface i s = Some f"
        and w: "csp_iflist_is_within_subnet (if_addr f) routed_from s = Some w" by (auto simp: bind_Some_iff)
      show ?thesis
      proof (cases w)
        case True
        then have "loop nh ido p routed_from from_me ifc lf s = Some y" using 1(2) ifc Some False f w by simp
        then show ?thesis using 1(1,3-7) by blast
      next
        case nw: False
        have len: "unat (plen x) \<le> CSP_BUFFER_SIZE" using 1(6) by (simp add: packet_wf_def)
        obtain c s1 where c: "csp_buffer_clone (Some p) s = Some (c, s1)" "get_packet p s1 = Some x"
          "env s1 = env s" "keeps (add_mset p H) s s1"
          "case c of None \<Rightarrow> accounts (add_mset p H) s1
           | Some j \<Rightarrow> accounts (add_mset j (add_mset p H)) s1 \<and> get_packet j s1 = Some x"
          using accounts_clone [OF 1(4,5) len] by blast
        from 1(2) ifc Some False f w nw c(1) obtain j where j: "c = Some j" by (cases c) simp_all
        have e1: "env_inv s1" by (rule env_inv_env [OF c(3) 1(7)])
        have i1: "i < length (ifaces s1)" using f env_lengths(1) [OF c(3)] by (simp add: get_iface_def split: if_splits)
        have k1: "csp_hmac_key s1 \<noteq> []" using e1 by (simp add: env_inv_def)
        obtain s2 where s2: "csp_send_direct_iface nexthop (ido\<lparr>src := if_addr f\<rparr>) j (Some i) CSP_NO_VIA_ADDRESS from_me s1 = Some ((), s2)"
          "accounts (add_mset p H) s2" "env s2 = env s1" "keeps (add_mset p H) s1 s2"
          using accounts_send_iface [of j "add_mset p H" s1 x i "ido\<lparr>src := if_addr f\<rparr>" CSP_NO_VIA_ADDRESS from_me] c(5) j 1(6) i1 k1 by auto
        have g2: "get_packet p s2 = Some x" using s2(4) c(2) by (simp add: keeps_def)
        have l: "loop nh (ido\<lparr>src := if_addr f\<rparr>) p routed_from from_me ifc True s2 = Some y"
          using 1(2,3) ifc Some False f w nw c(1) j s2(1) by simp
        have "env (snd y) = env s2" "accounts (add_mset p H) (snd y)" "keeps (add_mset p H) s2 (snd y)"
          using 1(1) [OF l] 1(3,6) s2(2) g2 env_inv_env [OF s2(3) e1] by blast+
        then show ?thesis using c(3,4) s2(3,4) by (auto intro: keeps_trans)
      qed
    qed
  qed
qed

lemma accounts_send_routed:
  assumes "accounts (add_mset p H) s" "get_packet p s = Some x" "packet_wf x" "env_inv s"
  shows "\<exists>s'. (do {
        route \<leftarrow> csp_rtable_find_route (dst ido) s;
        (case route of
           Some k \<Rightarrow> do {
             r \<leftarrow> rtable_at k s;
             csp_send_direct_iface nexthop ido p (r_iface r) (r_via r) from_me s
           }
         | None \<Rightarrow> csp_buffer_free (Some p) s)
      }) = Some ((), s') \<and> accounts H s' \<and> env s' = env s \<and> keeps H s s'"
proof -
  have inv: "rtable_inv s" "csp_hmac_key s \<noteq> []" using assms(4) by (simp_all add: env_inv_def)
  obtain b m where b: "csp_rtable_find_route (dst ido) s = Some b" "best_route (csp_conf s) (dst ido) (routes s) (b, m)"
    using csp_rtable_find_route_best [OF inv(1)] by blast
  show ?thesis
  proof (cases b)
    case None
    then show ?thesis using b accounts_free [OF assms(1)] by (simp add: keeps_def)
  next
    case (Some k)
    then have k: "k < length (routes s)" using b(2) by (simp add: best_route_def)
    then have k': "rtable_at k s = Some (routes s ! k)" using length_routes [OF inv(1)]
      by (auto simp: rtable_at_def routes_def)
    obtain i where i: "r_iface (routes s ! k) = Some i" "i < length (ifaces s)"
      using assms(4) k by (metis env_inv_def nth_mem)
    show ?thesis using accounts_send_iface [OF assms(1-3) i(2) inv(2), of ido "r_via (routes s ! k)" from_me]
      by (simp add: b(1) Some k' i(1))
  qed
qed

lemma accounts_send_direct:
  assumes "csp_send_direct nexthop ido p routed_from s = Some (u, s')" "accounts (add_mset p H) s"
    "get_packet p s = Some x" "packet_wf x" "env_inv s"
  shows "accounts H s' \<and> env s' = env s \<and> keeps H s s'"
proof -
  from assms(1) obtain ido' lf s1 where l: "csp_send_direct_loop nexthop ido p routed_from (routed_from = None) None False s = Some ((ido', lf), s1)"
    by (auto simp: csp_send_direct_def bind_Some_iff Let_def)
  from accounts_send_loop [OF l, of H x] assms(2-5)
  have a: "accounts (add_mset p H) s1" "env s1 = env s" "keeps (add_mset p H) s s1" by simp_all
  have k: "keeps H s s1" using keeps_sub [OF a(3)] by simp
  have g: "get_packet p s1 = Some x" using a(3) assms(3) by (simp add: keeps_def)
  note e = env_inv_env [OF a(2) assms(5)]
  show ?thesis
  proof (cases lf)
    case True
    then show ?thesis using assms(1) l accounts_free [OF a(1)] a(2) k by (auto simp: csp_send_direct_def keeps_def)
  next
    case False
    then show ?thesis using accounts_send_routed [OF a(1) g assms(4) e, of ido' "routed_from = None"] assms(1) l a(2) keeps_trans [OF k]
      by (auto simp: csp_send_direct_def)
  qed
qed

text \<open>No copies are made when no other interface is on the destination's network.\<close>

lemma accounts_send_direct_routed:
  assumes "accounts (add_mset p H) s" "get_packet p s = Some x" "packet_wf x" "env_inv s"
    "iflist s xs" "\<forall>i \<in> set xs. \<not> in_subnet s (dst ido) i"
  shows "\<exists>s'. csp_send_direct nexthop ido p routed_from s = Some ((), s') \<and> accounts H s' \<and> env s' = env s \<and> keeps H s s'"
proof -
  have "csp_iflist_get_by_subnet (dst ido) None s = Some None"
    using csp_iflist_get_by_subnet_find(1) [OF _ assms(5)] assms(4,6) by (auto simp: env_inv_def find_None_iff)
  then have "csp_send_direct_loop nexthop ido p routed_from fm None False s = Some ((ido, False), s)" for fm
    by (subst csp_send_direct_loop.simps) simp
  then show ?thesis using accounts_send_routed [OF assms(1-4), of ido "routed_from = None"] by (simp add: csp_send_direct_def)
qed

end

section \<open>Properties\<close>

text \<open>C3: Sending takes the packet over: whatever interfaces the packet leaves on, and whether they report
  success or not, afterwards the packet and all its copies are queued, with a driver or free again,
  and nothing the caller or other parts of the stack hold has been touched. The hypothesis on the
  transmit function is its documented contract.\<close>

theorem csp_send_direct_conserves:
  assumes "nexthop_contract nh" "env_inv s" "accounts (add_mset p H) s" "get_packet p s = Some x" "packet_wf x"
    "csp_send_direct nh ido p routed_from s = Some (u, s')"
  shows "accounts H s' \<and> env s' = env s \<and> keeps H s s'"
  using nexthop_contract.accounts_send_direct [OF assms(1,6,3-5,2)] .

text \<open>C36: When the destination is on no directly attached network, sending always ends, with the packet on the interface
  of its route or dropped when there is none.\<close>

theorem csp_send_direct_routed:
  assumes "nexthop_contract nh" "env_inv s" "accounts (add_mset p H) s" "get_packet p s = Some x" "packet_wf x"
    "iflist s xs" "\<forall>i \<in> set xs. \<not> in_subnet s (dst ido) i"
  shows "\<exists>s'. csp_send_direct nh ido p routed_from s = Some ((), s') \<and> accounts H s' \<and> env s' = env s"
  using nexthop_contract.accounts_send_direct_routed [OF assms(1,3-5,2,6,7)] by blast

text \<open>A node with one more interface, all buffers in hands, and open ports.\<close>

definition busy_node :: node where
  "busy_node = ready_node\<lparr>csp_conf := zero_conf\<lparr>version := 2\<rparr>,
     ifaces := [zero_iface\<lparr>if_name := ''LOOP'', if_next := Some 1\<rparr>, zero_iface\<lparr>if_name := ''CAN'', if_addr := 4, if_netmask := 8\<rparr>],
     interfaces := Some 0, ports := replicate 18 \<lparr>p_state = PORT_CLOSED, p_ptr = 0\<rparr>,
     rtable := [\<lparr>r_address = 0, r_netmask = 0, r_via = 0xFFFF, r_iface = Some 0\<rparr>] @
               replicate 9 \<lparr>r_address = 0, r_netmask = 0, r_via = 0, r_iface = None\<rparr>, rtable_inptr := 1\<rparr>"

lemma busy_node_iflist: "iflist busy_node [0, 1]"
  by (simp add: iflist_def busy_node_def zero_iface_def)

lemma busy_node_env: "env_inv busy_node"
proof -
  have "\<exists>xs. iflist busy_node xs" using busy_node_iflist by blast
  moreover have "rtable_inv busy_node" by (simp add: rtable_inv_def routes_def busy_node_def)
  ultimately show ?thesis
    by (simp add: env_inv_def masks_ok_def busy_node_def zero_iface_def csp_id_get_host_bits_def routes_def
        ready_node_def held_node_def zero_node_def)
qed

lemma busy_node_held: "accounts (add_mset 3 (mset_set ({..<15} - {3}))) busy_node" "get_packet 3 busy_node = Some zero_packet"
proof -
  have "add_mset 3 (mset_set ({..<15} - {3 :: nat})) = mset_set {..<CSP_BUFFER_COUNT}"
    using mset_set.remove [of "{..<15 :: nat}" 3] by simp
  moreover have "queued busy_node = queued ready_node" "queues_inv busy_node = queues_inv ready_node"
    "pool_inv busy_node = pool_inv ready_node" "free_list busy_node = free_list ready_node"
    by (simp_all add: queued_def queues_inv_def busy_node_def qfifo_packets_def promisc_packets_def rdp_packets_def
        pool_inv_def free_list_def)
  ultimately show "accounts (add_mset 3 (mset_set ({..<15} - {3}))) busy_node"
    using ready_node_accounts by (simp only: accounts_def)
  show "get_packet 3 busy_node = Some zero_packet" by (simp add: get_packet_def busy_node_def ready_node_def held_node_def)
qed

lemma zero_packet_wf: "packet_wf zero_packet"
  by (simp add: packet_wf_def zero_packet_def)

lemma busy_node_far: "\<forall>i \<in> set [0, 1]. \<not> in_subnet busy_node (dst (zero_id\<lparr>dst := 9000\<rparr>)) i"
proof -
  have "\<exists>i. 6 \<le> i \<and> i < 14 \<and> bit (4 :: u16) i \<noteq> bit (9000 :: u16) i" by (rule exI [of _ 13]) simp
  then show ?thesis
    by (auto simp: in_subnet_def busy_node_def zero_iface_def same_net_def csp_id_get_host_bits_def)
qed

theorem csp_send_direct_routed_witness:
  "\<exists>s'. csp_send_direct csp_lo_tx (zero_id\<lparr>dst := 9000\<rparr>) 3 None busy_node = Some ((), s') \<and>
     accounts (mset_set ({..<15} - {3})) s'"
  using csp_send_direct_routed [OF lo.nexthop_contract_axioms busy_node_env busy_node_held zero_packet_wf
      busy_node_iflist busy_node_far] by blast

theorem csp_send_direct_conserves_witness:
  "\<exists>s'. csp_send_direct csp_lo_tx (zero_id\<lparr>dst := 9000\<rparr>) 3 None busy_node = Some ((), s') \<and>
     accounts (mset_set ({..<15} - {3})) s' \<and> keeps (mset_set ({..<15} - {3})) busy_node s'"
proof -
  obtain s' where s': "csp_send_direct csp_lo_tx (zero_id\<lparr>dst := 9000\<rparr>) 3 None busy_node = Some ((), s')"
    using lo.accounts_send_direct_routed [OF busy_node_held zero_packet_wf busy_node_env busy_node_iflist busy_node_far]
    by blast
  from csp_send_direct_conserves [OF lo.nexthop_contract_axioms busy_node_env busy_node_held zero_packet_wf s']
  show ?thesis using s' by blast
qed

text \<open>With no free buffer, sending to a directly attached network follows the null pointer that the
  failed copy returned: the code does not check it, and has no defined behaviour there.\<close>

theorem csp_send_direct_null_clone:
  assumes "env_inv s" "iflist s xs" "find (in_subnet s (dst ido)) xs = Some i" "pool_inv s" "free_list s = []"
    "get_packet p s = Some x" "packet_wf x"
  shows "csp_send_direct nh ido p None s = None"
proof -
  have m: "masks_ok s" using assms(1) by (simp add: env_inv_def)
  have i: "i < length (ifaces s)"
    using assms(2,3) iface_chain_member by (auto simp: iflist_def find_Some_iff)
  have g: "csp_iflist_get_by_subnet (dst ido) None s = Some (Some i)"
    using csp_iflist_get_by_subnet_find(1) [OF m assms(2)] assms(3) by simp
  have c: "csp_buffer_clone (Some p) s = Some (None, s\<lparr>csp_dbg_buffer_out := csp_dbg_buffer_out s + 1\<rparr>)"
    using csp_buffer_clone_none [OF assms(4,6) _ assms(5)] assms(7) by (simp add: packet_wf_def)
  have "csp_send_direct_loop nh ido p None True None False s = None"
    using g c i by (subst csp_send_direct_loop.simps) (simp add: get_iface_def csp_iflist_is_within_subnet_def)
  then show ?thesis by (simp add: csp_send_direct_def)
qed

theorem csp_send_direct_null_clone_witness:
  "csp_send_direct csp_lo_tx (zero_id\<lparr>dst := 5\<rparr>) 3 None busy_node = None"
proof (rule csp_send_direct_null_clone [OF busy_node_env busy_node_iflist _ _ _ busy_node_held(2) zero_packet_wf])
  have "\<forall>i < 14. 6 \<le> i \<longrightarrow> bit (4 :: u16) i = bit (5 :: u16) i"
    by (auto simp: bit_numeral_rec numeral_eq_Suc bit_1_iff split: nat.splits)
  then show "find (in_subnet busy_node (dst (zero_id\<lparr>dst := 5\<rparr>))) [0, 1] = Some 1"
    by (simp add: in_subnet_def busy_node_def zero_iface_def same_net_def csp_id_get_host_bits_def)
  show "pool_inv busy_node" using busy_node_held(1) by (simp add: accounts_def)
  show "free_list busy_node = []" by (simp add: free_list_def busy_node_def ready_node_def held_node_def zero_node_def)
qed

end
