(* ===== verification/Csp_Rdp_Queue.thy ===== *)
theory Csp_Rdp_Queue
  imports Csp_Conn_Table
begin

text \<open>
  The two queues of RDP (\<^verbatim>\<open>src/csp_rdp_queue.c\<close>): packets sent and not acknowledged, and packets received out of
  sequence. All connections share them; a packet carries the connection it belongs to. The locale
  \<open>packet_queue\<close> is what the two have in common.
\<close>

section \<open>Model\<close>

definition csp_rdp_queue_init :: "node \<Rightarrow> unit csp" where
  "csp_rdp_queue_init s = do {
     t \<leftarrow> csp_queue_create_static (CSP_RDP_MAX_WINDOW * 2);
     r \<leftarrow> csp_queue_create_static (CSP_RDP_MAX_WINDOW * 2);
     Some ((), s\<lparr>rdp_tx_queue := t, rdp_rx_queue := r\<rparr>)
   }"

text \<open>The two loops of \<^verbatim>\<open>csp_rdp_queue_flush\<close>; no null pointers are in the queues.\<close>

partial_function (option) csp_rdp_queue_flush_tx :: "nat option \<Rightarrow> node \<Rightarrow> unit csp" where
  "csp_rdp_queue_flush_tx conn s = do {
     r \<leftarrow> csp_queue_dequeue (rdp_tx_queue s) 0;
     let s = s\<lparr>rdp_tx_queue := snd r\<rparr>;
     (if fst (fst r) = CSP_QUEUE_OK then do {
        packet \<leftarrow> snd (fst r);
        x \<leftarrow> get_packet packet s;
        r \<leftarrow> (if conn = None \<or> conn = pconn x then csp_buffer_free (Some packet) s else Some ((), s));
        csp_rdp_queue_flush_tx conn (snd r)
      }
      else Some ((), s))
   }"

partial_function (option) csp_rdp_queue_flush_rx :: "nat option \<Rightarrow> node \<Rightarrow> unit csp" where
  "csp_rdp_queue_flush_rx conn s = do {
     r \<leftarrow> csp_queue_dequeue (rdp_rx_queue s) 0;
     let s = s\<lparr>rdp_rx_queue := snd r\<rparr>;
     (if fst (fst r) = CSP_QUEUE_OK then do {
        packet \<leftarrow> snd (fst r);
        x \<leftarrow> get_packet packet s;
        r \<leftarrow> (if conn = None \<or> conn = pconn x then csp_buffer_free (Some packet) s else Some ((), s));
        csp_rdp_queue_flush_rx conn (snd r)
      }
      else Some ((), s))
   }"

definition csp_rdp_queue_flush :: "nat option \<Rightarrow> node \<Rightarrow> unit csp" where
  "csp_rdp_queue_flush conn s = do {
     (_, s) \<leftarrow> csp_rdp_queue_flush_tx conn s;
     csp_rdp_queue_flush_rx conn s
   }"

definition csp_rdp_queue_tx_size :: "node \<Rightarrow> nat" where
  "csp_rdp_queue_tx_size s = csp_queue_size (rdp_tx_queue s)"

definition csp_rdp_queue_tx_add :: "nat \<Rightarrow> nat \<Rightarrow> node \<Rightarrow> unit csp" where
  "csp_rdp_queue_tx_add conn packet s = do {
     x \<leftarrow> get_packet packet s;
     let s = put_packet packet (x\<lparr>pconn := Some conn\<rparr>) s;
     (r, q) \<leftarrow> csp_queue_enqueue (rdp_tx_queue s) packet 0;
     let s = s\<lparr>rdp_tx_queue := q\<rparr>;
     (if r \<noteq> CSP_QUEUE_OK then csp_buffer_free (Some packet) s else Some ((), s))
   }"

text \<open>The loop of \<^verbatim>\<open>csp_rdp_queue_tx_get\<close>, with \<^verbatim>\<open>size\<close> iterations.\<close>

primrec csp_rdp_queue_tx_get_loop :: "nat \<Rightarrow> nat \<Rightarrow> node \<Rightarrow> nat option csp" where
  "csp_rdp_queue_tx_get_loop 0 conn s = Some (None, s)"
| "csp_rdp_queue_tx_get_loop (Suc k) conn s = do {
     ((r, e), q) \<leftarrow> csp_queue_dequeue (rdp_tx_queue s) 0;
     let s = s\<lparr>rdp_tx_queue := q\<rparr>;
     (if r \<noteq> CSP_QUEUE_OK then Some (None, s)
      else do {
        packet \<leftarrow> e;
        x \<leftarrow> get_packet packet s;
        (if pconn x = Some conn then Some (Some packet, s)
         else do {
           (_, s) \<leftarrow> csp_rdp_queue_tx_add conn packet s;
           csp_rdp_queue_tx_get_loop k conn s
         })
      })
   }"

definition csp_rdp_queue_tx_get :: "nat \<Rightarrow> node \<Rightarrow> nat option csp" where
  "csp_rdp_queue_tx_get conn s = csp_rdp_queue_tx_get_loop (csp_queue_size (rdp_tx_queue s)) conn s"

definition csp_rdp_queue_rx_size :: "node \<Rightarrow> nat" where
  "csp_rdp_queue_rx_size s = csp_queue_size (rdp_rx_queue s)"

definition csp_rdp_queue_rx_add :: "nat \<Rightarrow> nat \<Rightarrow> node \<Rightarrow> unit csp" where
  "csp_rdp_queue_rx_add conn packet s = do {
     x \<leftarrow> get_packet packet s;
     let s = put_packet packet (x\<lparr>pconn := Some conn\<rparr>) s;
     (r, q) \<leftarrow> csp_queue_enqueue (rdp_rx_queue s) packet 0;
     let s = s\<lparr>rdp_rx_queue := q\<rparr>;
     (if r \<noteq> CSP_QUEUE_OK then csp_buffer_free (Some packet) s else Some ((), s))
   }"

primrec csp_rdp_queue_rx_get_loop :: "nat \<Rightarrow> nat \<Rightarrow> node \<Rightarrow> nat option csp" where
  "csp_rdp_queue_rx_get_loop 0 conn s = Some (None, s)"
| "csp_rdp_queue_rx_get_loop (Suc k) conn s = do {
     ((r, e), q) \<leftarrow> csp_queue_dequeue (rdp_rx_queue s) 0;
     let s = s\<lparr>rdp_rx_queue := q\<rparr>;
     (if r \<noteq> CSP_QUEUE_OK then Some (None, s)
      else do {
        packet \<leftarrow> e;
        x \<leftarrow> get_packet packet s;
        (if pconn x = Some conn then Some (Some packet, s)
         else do {
           (_, s) \<leftarrow> csp_rdp_queue_rx_add conn packet s;
           csp_rdp_queue_rx_get_loop k conn s
         })
      })
   }"

definition csp_rdp_queue_rx_get :: "nat \<Rightarrow> node \<Rightarrow> nat option csp" where
  "csp_rdp_queue_rx_get conn s = csp_rdp_queue_rx_get_loop (csp_queue_size (rdp_rx_queue s)) conn s"

section \<open>The two queues as one\<close>

text \<open>The connection a packet belongs to.\<close>

definition owner :: "node \<Rightarrow> nat \<Rightarrow> nat option" where
  "owner s p = (case get_packet p s of None \<Rightarrow> None | Some x \<Rightarrow> pconn x)"

text \<open>What the queue operations leave alone.\<close>

definition rdp_frame where
  "rdp_frame s = (env s, arr_conn s, sockets s, now s)"

lemma rdp_frame_simps [simp]:
  "rdp_frame (put_packet p x s) = rdp_frame s" "rdp_frame (give_buffer p s) = rdp_frame s"
  by (simp_all add: rdp_frame_def)

text \<open>Some packets have been given to another connection.\<close>

definition relabelled :: "nat \<Rightarrow> node \<Rightarrow> node \<Rightarrow> bool" where
  "relabelled n s s' \<longleftrightarrow> (\<forall>q. get_packet q s' = get_packet q s \<or>
     (\<exists>x. get_packet q s = Some x \<and> get_packet q s' = Some (x\<lparr>pconn := Some n\<rparr>)))"

lemma relabelled_trans:
  assumes "relabelled n s s'" "relabelled n s' s''"
  shows "relabelled n s s''"
  unfolding relabelled_def
proof
  fix q
  from assms have "get_packet q s' = get_packet q s \<or> (\<exists>x. get_packet q s = Some x \<and> get_packet q s' = Some (x\<lparr>pconn := Some n\<rparr>))"
    "get_packet q s'' = get_packet q s' \<or> (\<exists>x. get_packet q s' = Some x \<and> get_packet q s'' = Some (x\<lparr>pconn := Some n\<rparr>))"
    by (simp_all add: relabelled_def)
  then show "get_packet q s'' = get_packet q s \<or> (\<exists>x. get_packet q s = Some x \<and> get_packet q s'' = Some (x\<lparr>pconn := Some n\<rparr>))"
    by (elim disjE exE conjE) (metis, metis, metis, fastforce)
qed

lemma relabelled_owner: "relabelled n s s' \<Longrightarrow> owner s p = Some n \<Longrightarrow> owner s' p = Some n"
  unfolding relabelled_def owner_def
  by (drule spec [of _ p]) (auto split: option.splits)

locale packet_queue =
  fixes que oth :: "node \<Rightarrow> nat pthread_queue_t" and set_que :: "nat pthread_queue_t \<Rightarrow> node \<Rightarrow> node"
    and add :: "nat \<Rightarrow> nat \<Rightarrow> node \<Rightarrow> unit csp" and get_loop :: "nat \<Rightarrow> nat \<Rightarrow> node \<Rightarrow> nat option csp"
    and flush :: "nat option \<Rightarrow> node \<Rightarrow> unit csp"
  assumes que_set [simp]: "que (set_que q s) = q"
    and que_pool [simp]: "que (put_packet p x s) = que s" "que (give_buffer p s) = que s"
    and oth_frame [simp]: "oth (set_que q s) = oth s" "oth (put_packet p x s) = oth s" "oth (give_buffer p s) = oth s"
    and set_frame [simp]: "get_packet p (set_que q s) = get_packet p s" "rdp_frame (set_que q s) = rdp_frame s"
    and wf: "accounts H s \<Longrightarrow> queue_wf (que s)"
    and dist: "accounts H s \<Longrightarrow> distinct (queue_list (que s))"
    and accounts_set: "accounts H s \<Longrightarrow> queue_wf q \<Longrightarrow> mset (queue_list q) + K' = mset (queue_list (que s)) + K \<Longrightarrow>
      H = H' + K \<Longrightarrow> accounts (H' + K') (set_que q s)"
    and add_eq: "add conn packet s = do {
        x \<leftarrow> get_packet packet s;
        let s = put_packet packet (x\<lparr>pconn := Some conn\<rparr>) s;
        (r, q) \<leftarrow> csp_queue_enqueue (que s) packet 0;
        let s = set_que q s;
        (if r \<noteq> CSP_QUEUE_OK then csp_buffer_free (Some packet) s else Some ((), s))
      }"
    and loop_0: "get_loop 0 conn s = Some (None, s)"
    and loop_Suc: "get_loop (Suc k) conn s = do {
        ((r, e), q) \<leftarrow> csp_queue_dequeue (que s) 0;
        let s = set_que q s;
        (if r \<noteq> CSP_QUEUE_OK then Some (None, s)
         else do {
           packet \<leftarrow> e;
           x \<leftarrow> get_packet packet s;
           (if pconn x = Some conn then Some (Some packet, s)
            else do { (_, s) \<leftarrow> add conn packet s; get_loop k conn s })
         })
      }"
    and flush_eq: "flush connp s = do {
        r \<leftarrow> csp_queue_dequeue (que s) 0;
        let s = set_que (snd r) s;
        (if fst (fst r) = CSP_QUEUE_OK then do {
           packet \<leftarrow> snd (fst r);
           x \<leftarrow> get_packet packet s;
           r \<leftarrow> (if connp = None \<or> connp = pconn x then csp_buffer_free (Some packet) s else Some ((), s));
           flush connp (snd r)
         }
         else Some ((), s))
      }"
begin

text \<open>Inserting a packet.\<close>

lemma add_room:
  assumes "accounts (add_mset p H) s" "get_packet p s = Some x" "items (que s) < qsize (que s)"
  shows "\<exists>s'. add n p s = Some ((), s') \<and> accounts H s' \<and> rdp_frame s' = rdp_frame s \<and>
    oth s' = oth s \<and> que s' = queue_push p (que s) \<and>
    (\<forall>k. get_packet k s' = (if k = p then Some (x\<lparr>pconn := Some n\<rparr>) else get_packet k s))"
proof -
  let ?s = "put_packet p (x\<lparr>pconn := Some n\<rparr>) s"
  have p: "p < length (csp_buffer_pool s)" using assms(2) by (auto simp: get_packet_def split: if_splits)
  have "length (bytes x) = PACKET_BYTES" using accounts_packet [OF assms(1)] assms(2) by auto
  then have a: "accounts (add_mset p H) ?s" using accounts_put [OF assms(1)] by simp
  have "accounts (H + {#}) (set_que (queue_push p (que s)) ?s)"
    using accounts_set [OF a queue_push_wf [OF wf [OF assms(1)] assms(3)], where K' = "{#}" and K = "{#p#}"]
      queue_push_list [OF wf [OF assms(1)] assms(3), of p] by simp
  then show ?thesis using assms(2,3) by (auto simp: add_eq csp_queue_enqueue_room get_put_packet [OF p] Let_def)
qed

lemma add_full:
  assumes "accounts (add_mset p H) s" "get_packet p s = Some x" "items (que s) = qsize (que s)"
  shows "\<exists>s'. add n p s = Some ((), s') \<and> accounts H s' \<and> rdp_frame s' = rdp_frame s \<and> oth s' = oth s \<and> que s' = que s \<and> keeps H s s'"
proof -
  let ?s = "put_packet p (x\<lparr>pconn := Some n\<rparr>) s"
  have "length (bytes x) = PACKET_BYTES" using accounts_packet [OF assms(1)] assms(2) by auto
  then have a: "accounts (add_mset p H) ?s" using accounts_put [OF assms(1)] by simp
  then have "accounts (add_mset p H + {#}) (set_que (que s) ?s)"
    using accounts_set [OF a, of "que s" "{#}" "{#}"] wf [OF a] by simp
  then have b: "accounts (add_mset p H) (set_que (que s) ?s)" by simp
  note f = accounts_free [OF b]
  have "keeps H s ?s" by (rule keeps_put [OF assms(1)])
  then show ?thesis using assms(2,3) f by (simp add: add_eq csp_queue_enqueue_full Let_def keeps_def)
qed

lemma accounts_add:
  assumes "accounts (add_mset p H) s" "get_packet p s = Some x"
  shows "\<exists>s'. add n p s = Some ((), s') \<and> accounts H s' \<and> rdp_frame s' = rdp_frame s \<and> oth s' = oth s \<and> keeps H s s'"
proof (cases "items (que s) = qsize (que s)")
  case True
  then show ?thesis using add_full [OF assms True] by blast
next
  case False
  then have "items (que s) < qsize (que s)" using wf [OF assms(1)] by (simp add: queue_wf_def)
  from add_room [OF assms this, of n] show ?thesis using accounts_held(3) [OF assms(1)] by (auto simp: keeps_def)
qed

text \<open>Taking the first packet of the queue.\<close>

lemma accounts_pop:
  assumes "accounts H s" "queue_list (que s) = p # ps"
  shows "csp_queue_dequeue (que s) 0 = Some ((CSP_QUEUE_OK, Some p), queue_pop (que s))"
    "accounts (add_mset p H) (set_que (queue_pop (que s)) s)" "queue_list (queue_pop (que s)) = ps"
    "items (queue_pop (que s)) < qsize (que s)"
proof -
  have i: "0 < items (que s)" using assms(2) by (metis length_queue_list length_greater_0_conv list.distinct(1))
  show l: "queue_list (queue_pop (que s)) = ps" using queue_pop_list [OF wf [OF assms(1)] i] assms(2) by simp
  show "csp_queue_dequeue (que s) 0 = Some ((CSP_QUEUE_OK, Some p), queue_pop (que s))"
    using i queue_head_Some [OF wf [OF assms(1)] i] assms(2) by (simp add: csp_queue_dequeue_item)
  have "accounts (H + {#p#}) (set_que (queue_pop (que s)) s)"
    using accounts_set [OF assms(1) queue_pop_wf [OF wf [OF assms(1)] i], where K' = "{#p#}" and K = "{#}"] assms(2) l by simp
  then show "accounts (add_mset p H) (set_que (queue_pop (que s)) s)" by simp
  have "items (que s) \<le> qsize (que s)" using wf [OF assms(1)] by (simp add: queue_wf_def)
  then show "items (queue_pop (que s)) < qsize (que s)" using i by simp
qed

lemma accounts_empty:
  assumes "accounts H s" "queue_list (que s) = []"
  shows "csp_queue_dequeue (que s) 0 = Some ((CSP_QUEUE_ERROR, None), que s)" "accounts H (set_que (que s) s)"
proof -
  show "csp_queue_dequeue (que s) 0 = Some ((CSP_QUEUE_ERROR, None), que s)"
    using assms(2) by (simp add: csp_queue_dequeue_empty queue_list_empty_iff)
  have "accounts (H + {#}) (set_que (que s) s)"
    using accounts_set [OF assms(1) wf [OF assms(1)], where K' = "{#}" and K = "{#}"] by simp
  then show "accounts H (set_que (que s) s)" by simp
qed

text \<open>
  The search: the first \<open>k\<close> packets are looked at; those that belong to other connections go to the end of
  the queue and belong to this connection from then on.
\<close>

lemma get_loop_spec:
  assumes "accounts H s" "k \<le> length (queue_list (que s))"
  shows "\<exists>r s'. get_loop k n s = Some (r, s') \<and> accounts (held_with r H) s' \<and> rdp_frame s' = rdp_frame s \<and> oth s' = oth s \<and> keeps H s s' \<and>
    r = find (\<lambda>p. owner s p = Some n) (take k (queue_list (que s))) \<and> relabelled n s s' \<and>
    (r = None \<longrightarrow> queue_list (que s') = List.drop k (queue_list (que s)) @ take k (queue_list (que s)) \<and>
       (\<forall>p \<in> set (take k (queue_list (que s))). owner s' p = Some n))"
  using assms
proof (induction k arbitrary: s)
  case 0
  then show ?case by (simp add: loop_0 relabelled_def)
next
  case (Suc k)
  then obtain p ps where l: "queue_list (que s) = p # ps" by (cases "queue_list (que s)") auto
  note pop = accounts_pop [OF Suc(2) l]
  let ?s = "set_que (queue_pop (que s)) s"
  obtain x where x: "get_packet p s = Some x" using accounts_packet [OF pop(2)] by auto
  show ?case
  proof (cases "pconn x = Some n")
    case True
    then have "get_loop (Suc k) n s = Some (Some p, ?s)" using pop(1) x by (simp add: loop_Suc)
    then show ?thesis using pop(2) l x True by (simp add: owner_def keeps_def relabelled_def)
  next
    case False
    have "get_packet p ?s = Some x" "items (que ?s) < qsize (que ?s)" using x pop(4) by simp_all
    from add_room [OF pop(2) this, of n] obtain s1 where s1: "add n p ?s = Some ((), s1)" "accounts H s1"
      "rdp_frame s1 = rdp_frame s" "oth s1 = oth s" "que s1 = queue_push p (queue_pop (que s))"
      "\<forall>k. get_packet k s1 = (if k = p then Some (x\<lparr>pconn := Some n\<rparr>) else get_packet k s)" by auto
    have i: "0 < items (que s)" using l by (metis length_queue_list length_greater_0_conv list.distinct(1))
    have l1: "queue_list (que s1) = ps @ [p]"
      using queue_push_list [OF queue_pop_wf [OF wf [OF Suc(2)] i]] pop(3,4) s1(5) by simp
    have e: "get_loop (Suc k) n s = get_loop k n s1" using pop(1) x False s1(1) by (simp add: loop_Suc)
    have k: "k \<le> length (queue_list (que s1))" "k \<le> length ps" using Suc(3) l l1 by simp_all
    have rl: "relabelled n s s1" using s1(6) x by (auto simp: relabelled_def)
    have o1: "owner s1 p = Some n" using s1(6) by (simp add: owner_def)
    have ks: "keeps H s s1" using s1(6) accounts_held(3) [OF pop(2)] by (auto simp: keeps_def)
    have "p \<notin> set ps" using dist [OF Suc(2)] l by simp
    then have "find (\<lambda>p. owner s1 p = Some n) (take k ps) = find (\<lambda>p. owner s p = Some n) (take k ps)"
      using s1(6) by (intro find_cong refl) (auto simp: owner_def dest: in_set_takeD)
    moreover have "owner s p \<noteq> Some n" using x False by (simp add: owner_def)
    ultimately have fd: "find (\<lambda>p. owner s1 p = Some n) (take k (queue_list (que s1))) =
        find (\<lambda>p. owner s p = Some n) (take (Suc k) (queue_list (que s)))" using l l1 k(2) by simp
    obtain r s' where s': "get_loop k n s1 = Some (r, s')" "accounts (held_with r H) s'" "rdp_frame s' = rdp_frame s1 \<and> oth s' = oth s1"
      "keeps H s1 s'" "r = find (\<lambda>p. owner s1 p = Some n) (take k (queue_list (que s1)))" "relabelled n s1 s'"
      "r = None \<longrightarrow> queue_list (que s') = List.drop k (queue_list (que s1)) @ take k (queue_list (que s1)) \<and>
         (\<forall>p \<in> set (take k (queue_list (que s1))). owner s' p = Some n)"
      using Suc(1) [OF s1(2) k(1)] by auto
    show ?thesis
      using e s'(1-3) s1(3,4) keeps_trans [OF ks s'(4)] s'(5) fd relabelled_trans [OF rl s'(6)] s'(7) l l1 k(2)
        relabelled_owner [OF s'(6) o1]
      by (intro exI [of _ r] exI [of _ s']) simp
  qed
qed

lemma get_spec:
  assumes "accounts H s"
  shows "\<exists>r s'. get_loop (csp_queue_size (que s)) n s = Some (r, s') \<and> accounts (held_with r H) s' \<and>
    rdp_frame s' = rdp_frame s \<and> oth s' = oth s \<and> keeps H s s' \<and> relabelled n s s' \<and>
    r = find (\<lambda>p. owner s p = Some n) (queue_list (que s)) \<and>
    (r = None \<longrightarrow> queue_list (que s') = queue_list (que s) \<and> (\<forall>p \<in> set (queue_list (que s)). owner s' p = Some n))"
  using get_loop_spec [OF assms order_refl, of n] by (simp add: csp_queue_size_def pthread_queue_items_def)

text \<open>Emptying the queue: the packets of other connections are taken out and not freed.\<close>

definition foreign :: "nat option \<Rightarrow> node \<Rightarrow> nat list" where
  "foreign connp s = filter (\<lambda>p. connp \<noteq> None \<and> connp \<noteq> owner s p) (queue_list (que s))"

lemma flush_spec:
  assumes "accounts H s"
  shows "\<exists>s'. flush connp s = Some ((), s') \<and> accounts (H + mset (foreign connp s)) s' \<and> rdp_frame s' = rdp_frame s \<and> oth s' = oth s \<and>
    (\<forall>q. get_packet q s' = get_packet q s) \<and> queue_list (que s') = []"
  using assms
proof (induction "queue_list (que s)" arbitrary: H s)
  case Nil
  note e = accounts_empty [OF Nil(2) Nil(1) [symmetric]]
  have "flush connp s = Some ((), set_que (que s) s)" using e(1) by (subst flush_eq) simp
  then show ?case using e(2) Nil by (simp add: foreign_def flip: Nil(1))
next
  case (Cons p ps)
  note pop = accounts_pop [OF Cons(3) Cons(2) [symmetric]]
  let ?s = "set_que (queue_pop (que s)) s"
  obtain x where x: "get_packet p s = Some x" using accounts_packet [OF pop(2)] by auto
  let ?own = "connp = None \<or> connp = pconn x"
  let ?s1 = "if ?own then give_buffer p ?s else ?s" and ?H = "if ?own then H else add_mset p H"
  have a: "accounts ?H ?s1" using pop(2) accounts_free(2) [OF pop(2)] by simp
  have e: "flush connp s = flush connp ?s1"
    using pop(1) x accounts_free(1) [OF pop(2)] by (subst flush_eq) auto
  have q1: "queue_list (que ?s1) = ps" "\<forall>q. get_packet q ?s1 = get_packet q s" "rdp_frame ?s1 = rdp_frame s" "oth ?s1 = oth s"
    using pop(3) by simp_all
  from Cons(1) [OF q1(1) [symmetric] a] obtain s' where s': "flush connp ?s1 = Some ((), s')"
    "accounts (?H + mset (foreign connp ?s1)) s'" "rdp_frame s' = rdp_frame ?s1 \<and> oth s' = oth ?s1" "\<forall>q. get_packet q s' = get_packet q ?s1"
    "queue_list (que s') = []" by blast
  have "?H + mset (foreign connp ?s1) = H + mset (foreign connp s)"
    using q1 x by (simp add: foreign_def owner_def flip: Cons(2))
  then show ?case using e s' q1 by (intro exI [of _ s']) simp
qed

end

section \<open>The transmit and the receive queue\<close>

lemma rdp_queue_accounts:
  assumes "accounts H s" "queue_wf t" "queue_wf r"
    "mset (queue_list t) + mset (queue_list r) + K' = mset (rdp_packets s) + K" "H = H' + K"
  shows "accounts (H' + K') (s\<lparr>rdp_tx_queue := t, rdp_rx_queue := r\<rparr>)"
proof -
  let ?s = "s\<lparr>rdp_tx_queue := t, rdp_rx_queue := r\<rparr>"
  let ?m = "mset (qfifo_packets s) + mset (promisc_packets s) + mset (concat (map conn_packets (arr_conn s))) +
    mset (concat (map sock_packets (sockets s)))"
  have q: "queued ?s = ?m + (mset (queue_list t) + mset (queue_list r))" "queued s = ?m + mset (rdp_packets s)"
    by (simp_all add: queued_def qfifo_packets_def promisc_packets_def rdp_packets_def)
  have "mset (free_list ?s) + queued ?s + (H' + K') = mset (free_list s) + ?m + H' + (mset (queue_list t) + mset (queue_list r) + K')"
    by (simp add: q(1) free_list_def ac_simps)
  also have "\<dots> = mset (free_list s) + queued s + H" unfolding assms(4,5) q(2) by (simp add: ac_simps)
  finally have m: "mset (free_list ?s) + queued ?s + (H' + K') = mset (free_list s) + queued s + H" .
  have "pool_inv ?s" "queues_inv ?s"
    using assms(1-3) by (simp_all add: accounts_def queues_inv_def pool_inv_def free_list_def)
  then show ?thesis using assms(1) m by (simp only: accounts_def)
qed

lemma rdp_queue_distinct:
  assumes "accounts H s"
  shows "distinct (rdp_packets s)"
proof -
  have e: "mset (free_list s) + queued s + H = mset_set {..<CSP_BUFFER_COUNT}" using assms by (simp add: accounts_def)
  have "count (mset (rdp_packets s)) x \<le> count (mset (free_list s) + queued s + H) x" for x
    by (simp add: queued_def)
  then have c: "count (mset (rdp_packets s)) x \<le> count (mset_set {..<CSP_BUFFER_COUNT}) x" for x unfolding e .
  have "count (mset_set {..<CSP_BUFFER_COUNT}) x \<le> 1" for x by (simp add: count_mset_set')
  then have one: "count (mset (rdp_packets s)) x \<le> 1" for x by (rule order_trans [OF c])
  have "count (mset (rdp_packets s)) x = (if x \<in> set (rdp_packets s) then 1 else 0)" for x
    using one [of x] by (simp add: le_Suc_eq count_eq_zero_iff split: if_splits)
  then show ?thesis by (simp add: distinct_count_atmost_1)
qed

lemma rdp_frame_queues [simp]:
  "rdp_frame (s\<lparr>rdp_tx_queue := t\<rparr>) = rdp_frame s" "rdp_frame (s\<lparr>rdp_rx_queue := t\<rparr>) = rdp_frame s"
  "get_packet p (s\<lparr>rdp_tx_queue := t\<rparr>) = get_packet p s" "get_packet p (s\<lparr>rdp_rx_queue := t\<rparr>) = get_packet p s"
  by (simp_all add: rdp_frame_def env_def get_packet_def)

interpretation tx: packet_queue rdp_tx_queue rdp_rx_queue "\<lambda>q s. s\<lparr>rdp_tx_queue := q\<rparr>" csp_rdp_queue_tx_add
  csp_rdp_queue_tx_get_loop csp_rdp_queue_flush_tx
proof (unfold_locales, goal_cases)
  case (10 H s)
  then show ?case using rdp_queue_distinct by (fastforce simp: rdp_packets_def)
next
  case (11 H s q K' K H')
  then show ?case using rdp_queue_accounts [of H s q "rdp_rx_queue s" K' K H']
    by (simp add: rdp_packets_def accounts_def queues_inv_def)
next
  case (12 conn packet s)
  show ?case by (rule csp_rdp_queue_tx_add_def)
next
  case (15 connp s)
  show ?case by (subst csp_rdp_queue_flush_tx.simps) simp
qed (simp_all add: put_packet_def give_buffer_def accounts_def queues_inv_def)

interpretation rx: packet_queue rdp_rx_queue rdp_tx_queue "\<lambda>q s. s\<lparr>rdp_rx_queue := q\<rparr>" csp_rdp_queue_rx_add
  csp_rdp_queue_rx_get_loop csp_rdp_queue_flush_rx
proof (unfold_locales, goal_cases)
  case (10 H s)
  then show ?case using rdp_queue_distinct by (fastforce simp: rdp_packets_def)
next
  case (11 H s q K' K H')
  then show ?case using rdp_queue_accounts [of H s "rdp_tx_queue s" q K' K H']
    by (simp add: rdp_packets_def accounts_def queues_inv_def ac_simps)
next
  case (12 conn packet s)
  show ?case by (rule csp_rdp_queue_rx_add_def)
next
  case (15 connp s)
  show ?case by (subst csp_rdp_queue_flush_rx.simps) simp
qed (simp_all add: put_packet_def give_buffer_def accounts_def queues_inv_def)

section \<open>Properties\<close>

text \<open>The queues are shared by all connections, and a search for the packets of one connection that has none takes
  over the packets of all the others: afterwards every packet in the queue belongs to the connection that
  searched.\<close>

theorem csp_rdp_queue_tx_get_relabels:
  assumes "accounts H s" "\<forall>p \<in> set (queue_list (rdp_tx_queue s)). owner s p \<noteq> Some n"
  shows "\<exists>s'. csp_rdp_queue_tx_get n s = Some (None, s') \<and> queue_list (rdp_tx_queue s') = queue_list (rdp_tx_queue s) \<and>
    (\<forall>p \<in> set (queue_list (rdp_tx_queue s)). owner s' p = Some n)"
proof -
  have "find (\<lambda>p. owner s p = Some n) (queue_list (rdp_tx_queue s)) = None" using assms(2) by (simp add: find_None_iff)
  then show ?thesis using tx.get_spec [OF assms(1), of n] by (auto simp: csp_rdp_queue_tx_get_def)
qed

theorem csp_rdp_queue_tx_get_relabels_witness:
  "\<exists>s s'. csp_rdp_queue_tx_add 1 3 ready_node = Some ((), s) \<and> csp_rdp_queue_tx_get 0 s = Some (None, s') \<and> owner s' 3 = Some 0"
proof -
  have "add_mset 3 (mset_set ({..<15} - {3 :: nat})) = mset_set {..<CSP_BUFFER_COUNT}"
    using mset_set.remove [of "{..<15 :: nat}" 3] by simp
  then have a: "accounts (add_mset 3 (mset_set ({..<15} - {3}))) ready_node" using ready_node_accounts by simp
  have g: "get_packet 3 ready_node = Some zero_packet" "rdp_tx_queue ready_node = empty_queue (CSP_RDP_MAX_WINDOW * 2)"
    by (simp_all add: ready_node_def held_node_def zero_node_def get_packet_def)
  have "items (rdp_tx_queue ready_node) < qsize (rdp_tx_queue ready_node)" using g by simp
  from tx.add_room [OF a g(1) this, of 1] obtain s where s: "csp_rdp_queue_tx_add 1 3 ready_node = Some ((), s)"
    "accounts (mset_set ({..<15} - {3})) s" "rdp_tx_queue s = queue_push 3 (rdp_tx_queue ready_node)"
    "get_packet 3 s = Some (zero_packet\<lparr>pconn := Some 1\<rparr>)" by auto
  have l: "queue_list (rdp_tx_queue s) = [3]" using s(3) g(2) queue_push_list [of "empty_queue (CSP_RDP_MAX_WINDOW * 2)" 3] by simp
  then have "\<forall>p \<in> set (queue_list (rdp_tx_queue s)). owner s p \<noteq> Some 0" using s(4) by (simp add: owner_def)
  from csp_rdp_queue_tx_get_relabels [OF s(2) this] show ?thesis using s(1) l by auto
qed

text \<open>Flushing the queues for one connection empties them; the packets of the other connections are neither in a
  queue nor free afterwards, they are lost. A flush for no particular connection loses nothing.\<close>

theorem csp_rdp_queue_flush_loses:
  assumes "accounts H s"
  shows "\<exists>s'. csp_rdp_queue_flush conn s = Some ((), s') \<and> queue_list (rdp_tx_queue s') = [] \<and> queue_list (rdp_rx_queue s') = [] \<and>
    accounts (H + mset (filter (\<lambda>p. conn \<noteq> None \<and> conn \<noteq> owner s p) (rdp_packets s))) s'"
proof -
  obtain s1 where s1: "csp_rdp_queue_flush_tx conn s = Some ((), s1)" "accounts (H + mset (tx.foreign conn s)) s1"
    "rdp_rx_queue s1 = rdp_rx_queue s" "\<forall>q. get_packet q s1 = get_packet q s" "queue_list (rdp_tx_queue s1) = []"
    using tx.flush_spec [OF assms, of conn] by auto
  obtain s2 where s2: "csp_rdp_queue_flush_rx conn s1 = Some ((), s2)" "accounts (H + mset (tx.foreign conn s) + mset (rx.foreign conn s1)) s2"
    "rdp_tx_queue s2 = rdp_tx_queue s1" "queue_list (rdp_rx_queue s2) = []"
    using rx.flush_spec [OF s1(2), of conn] by auto
  have "rx.foreign conn s1 = rx.foreign conn s" using s1(3,4) by (simp add: rx.foreign_def owner_def)
  then show ?thesis using s1 s2
    by (intro exI [of _ s2]) (simp add: csp_rdp_queue_flush_def rdp_packets_def tx.foreign_def rx.foreign_def ac_simps)
qed

theorem csp_rdp_queue_flush_loses_witness:
  "\<exists>s'. csp_rdp_queue_flush None ready_node = Some ((), s') \<and> accounts (mset_set {..<CSP_BUFFER_COUNT}) s'"
  using csp_rdp_queue_flush_loses [OF ready_node_accounts, of None] by auto

end
