(* ===== verification/Csp_Rdp_Base.thy ===== *)
theory Csp_Rdp_Base
  imports Csp_Send Csp_Rdp_Queue
begin

text \<open>
  The lower half of RDP (\<^verbatim>\<open>src/csp_rdp.c\<close>): headers, the arithmetic of sequence numbers and times, control messages,
  the handling of the two queues, acknowledgements and the end of a connection, with
  \<^verbatim>\<open>csp_conn_close\<close> and \<^verbatim>\<open>csp_close\<close> of \<^verbatim>\<open>src/csp_conn.c\<close>. Every function that sends has the transmit
  function of the interfaces as its first parameter.
\<close>

section \<open>Headers\<close>

definition RDP_SYN :: u8 where [simp, csp_defs]: "RDP_SYN = 0x08"
definition RDP_ACK :: u8 where [simp, csp_defs]: "RDP_ACK = 0x04"
definition RDP_EAK :: u8 where [simp, csp_defs]: "RDP_EAK = 0x02"
definition RDP_RST :: u8 where [simp, csp_defs]: "RDP_RST = 0x01"

text \<open>The packed structure of the five last bytes of a packet, with the numbers as they are in memory.\<close>

record rdp_header_t =
  h_flags :: u8
  h_seq_nr :: u16
  h_ack_nr :: u16

definition RDP_HEADER_SIZE :: nat where [simp, csp_defs]: "RDP_HEADER_SIZE = 5"

text \<open>The header at an offset of the packet's bytes.\<close>

definition header_get :: "nat \<Rightarrow> csp_packet_t \<Rightarrow> rdp_header_t option" where
  "header_get off p = do {
     h \<leftarrow> mem_read off RDP_HEADER_SIZE (bytes p);
     Some \<lparr>h_flags = h ! 0, h_seq_nr = le_to_word [h ! 1, h ! 2], h_ack_nr = le_to_word [h ! 3, h ! 4]\<rparr>
   }"

definition header_bytes :: "rdp_header_t \<Rightarrow> u8 list" where
  "header_bytes h = [h_flags h] @ word_to_le 2 (h_seq_nr h) @ word_to_le 2 (h_ack_nr h)"

definition header_put :: "nat \<Rightarrow> rdp_header_t \<Rightarrow> csp_packet_t \<Rightarrow> csp_packet_t option" where
  "header_put off h p = do { m \<leftarrow> mem_write off (header_bytes h) (bytes p); Some (p\<lparr>bytes := m\<rparr>) }"

text \<open>The result of \<^verbatim>\<open>csp_rdp_header_add\<close> is the offset of the header, or none.\<close>

definition csp_rdp_header_add :: "csp_packet_t \<Rightarrow> (nat option \<times> csp_packet_t) option" where
  "csp_rdp_header_add p =
     (if unat (plen p) + RDP_HEADER_SIZE > csp_buffer_data_size then Some (None, p)
      else do {
        let header = DATA_OFFSET + unat (plen p);
        let p = p\<lparr>plen := plen p + of_nat RDP_HEADER_SIZE\<rparr>;
        p \<leftarrow> header_put header \<lparr>h_flags = 0, h_seq_nr = 0, h_ack_nr = 0\<rparr> p;
        Some (Some header, p)
      })"

text \<open>
  The header of a packet. For a packet shorter than a header the address is in the padding before the data.
\<close>

definition csp_rdp_header_ref :: "csp_packet_t \<Rightarrow> nat" where
  "csp_rdp_header_ref p = DATA_OFFSET + unat (plen p) - RDP_HEADER_SIZE"

definition csp_rdp_header_remove :: "csp_packet_t \<Rightarrow> nat \<times> csp_packet_t" where
  "csp_rdp_header_remove p = (csp_rdp_header_ref p, p\<lparr>plen := plen p - of_nat RDP_HEADER_SIZE\<rparr>)"

section \<open>Sequence numbers and times\<close>

definition csp_rdp_seq_between :: "u16 \<Rightarrow> u16 \<Rightarrow> u16 \<Rightarrow> bool" where
  "csp_rdp_seq_between seq start end \<longleftrightarrow> end - start \<ge> seq - start"

definition csp_rdp_seq_before :: "u16 \<Rightarrow> u16 \<Rightarrow> bool" where
  "csp_rdp_seq_before seq cmp \<longleftrightarrow> sint (seq - cmp) < 0"

definition csp_rdp_seq_after :: "u16 \<Rightarrow> u16 \<Rightarrow> bool" where
  "csp_rdp_seq_after seq cmp = csp_rdp_seq_before cmp seq"

definition csp_rdp_time_before :: "u32 \<Rightarrow> u32 \<Rightarrow> bool" where
  "csp_rdp_time_before time cmp \<longleftrightarrow> sint (time - cmp) < 0"

definition csp_rdp_time_after :: "u32 \<Rightarrow> u32 \<Rightarrow> bool" where
  "csp_rdp_time_after time cmp = csp_rdp_time_before cmp time"

section \<open>Control messages\<close>

text \<open>The first part of \<^verbatim>\<open>csp_rdp_send_cmp\<close>: a new packet when none was given.\<close>

definition csp_rdp_cmp_packet :: "nat option \<Rightarrow> node \<Rightarrow> nat option csp" where
  "csp_rdp_cmp_packet packet s =
     (if packet \<noteq> None then Some (packet, s)
      else do {
        (b, s) \<leftarrow> csp_buffer_get 20 s;
        (case b of
           None \<Rightarrow> Some (None, s)
         | Some p \<Rightarrow> do {
             x \<leftarrow> get_packet p s;
             Some (Some p, put_packet p (x\<lparr>plen := 0\<rparr>) s)
           })
      })"

definition csp_rdp_send_cmp :: "nexthop_t \<Rightarrow> nat \<Rightarrow> nat option \<Rightarrow> u8 \<Rightarrow> u16 \<Rightarrow> u16 \<Rightarrow> node \<Rightarrow> int csp" where
  "csp_rdp_send_cmp nexthop conn packet fl seq_nr ack_nr s = do {
     (packet, s) \<leftarrow> csp_rdp_cmp_packet packet s;
     (case packet of
        None \<Rightarrow> Some (CSP_ERR_NOMEM, s)
      | Some p \<Rightarrow> do {
          x \<leftarrow> get_packet p s;
          (header, x) \<leftarrow> csp_rdp_header_add x;
          (case header of
             None \<Rightarrow> do {
               (_, s) \<leftarrow> csp_buffer_free (Some p) s;
               Some (CSP_ERR_NOMEM, s)
             }
           | Some off \<Rightarrow> do {
               x \<leftarrow> header_put off \<lparr>h_flags = push_bit 4 (csp_rdp_incr s) OR fl,
                 h_seq_nr = htobe16 seq_nr, h_ack_nr = htobe16 ack_nr\<rparr> x;
               let s = (put_packet p x s)\<lparr>csp_rdp_incr := csp_rdp_incr s + 1\<rparr>;
               (copied, s) \<leftarrow>
                 (if has_flag fl RDP_SYN then do {
                    (copy, s) \<leftarrow> csp_buffer_clone (Some p) s;
                    (case copy of
                       None \<Rightarrow> Some (False, s)
                     | Some r \<Rightarrow> do {
                         y \<leftarrow> get_packet r s;
                         (_, s) \<leftarrow> csp_rdp_queue_tx_add conn r (put_packet r (y\<lparr>timestamp_tx := now s\<rparr>) s);
                         Some (True, s)
                       })
                  }
                  else Some (True, s));
               (if \<not> copied then Some (CSP_ERR_NOMEM, s)
                else do {
                  c \<leftarrow> get_conn conn s;
                  let ido = (idout c)\<lparr>pri := (if pri (idout c) < CSP_PRIO_HIGH then pri (idout c) else CSP_PRIO_HIGH)\<rparr>;
                  (_, s) \<leftarrow> csp_send_direct nexthop ido p None s;
                  s \<leftarrow> (if has_flag fl RDP_ACK
                        then upd_rdp conn (\<lambda>r. r\<lparr>rcv_lsa := ack_nr, ack_timestamp := now s\<rparr>) s
                        else Some s);
                  Some (CSP_ERR_NONE, s)
                })
             })
        })
   }"

text \<open>The loop over the receive queue; \<open>e\<close> is the packet that is filled, with \<open>space\<close> bytes left.\<close>

primrec csp_rdp_send_eack_loop :: "nat \<Rightarrow> nat \<Rightarrow> nat \<Rightarrow> u32 \<Rightarrow> node \<Rightarrow> unit csp" where
  "csp_rdp_send_eack_loop 0 conn e space s = Some ((), s)"
| "csp_rdp_send_eack_loop (Suc k) conn e space s = do {
     (packet, s) \<leftarrow> csp_rdp_queue_rx_get conn s;
     (case packet of
        None \<Rightarrow> Some ((), s)
      | Some p \<Rightarrow> do {
          x \<leftarrow> get_packet p s;
          h \<leftarrow> header_get (csp_rdp_header_ref x) x;
          (space, s) \<leftarrow>
            (if space \<ge> 2 then do {
               y \<leftarrow> get_packet e s;
               y \<leftarrow> data_write (2 * (unat (plen y) div 2)) (word_to_le 2 (htobe16 (h_seq_nr h))) y;
               Some (space - 2, put_packet e (y\<lparr>plen := plen y + 2\<rparr>) s)
             }
             else Some (space, s));
          (_, s) \<leftarrow> csp_rdp_queue_rx_add conn p s;
          csp_rdp_send_eack_loop k conn e space s
        })
   }"

definition csp_rdp_send_eack :: "nexthop_t \<Rightarrow> nat \<Rightarrow> node \<Rightarrow> int csp" where
  "csp_rdp_send_eack nexthop conn s = do {
     (b, s) \<leftarrow> csp_buffer_get 100 s;
     (case b of
        None \<Rightarrow> Some (CSP_ERR_NOMEM, s)
      | Some e \<Rightarrow> do {
          x \<leftarrow> get_packet e s;
          let s = put_packet e (x\<lparr>plen := 0\<rparr>) s;
          (_, s) \<leftarrow> csp_rdp_send_eack_loop (csp_rdp_queue_rx_size s) conn e (100 - of_nat RDP_HEADER_SIZE) s;
          c \<leftarrow> get_conn conn s;
          csp_rdp_send_cmp nexthop conn (Some e) (RDP_ACK OR RDP_EAK) (snd_nxt (rdp c)) (rcv_cur (rdp c)) s
        })
   }"

definition syn_options :: "node \<Rightarrow> u8 list" where
  "syn_options s = concat (map (\<lambda>w. word_to_le 4 (htobe32 w))
     [csp_rdp_window_size s, csp_rdp_conn_timeout s, csp_rdp_packet_timeout s, csp_rdp_delayed_acks s,
      csp_rdp_ack_timeout s, csp_rdp_ack_delay_count s])"

definition csp_rdp_send_syn :: "nexthop_t \<Rightarrow> nat \<Rightarrow> node \<Rightarrow> int csp" where
  "csp_rdp_send_syn nexthop conn s = do {
     (b, s) \<leftarrow> csp_buffer_get 100 s;
     (case b of
        None \<Rightarrow> Some (CSP_ERR_NOMEM, s)
      | Some p \<Rightarrow> do {
          x \<leftarrow> get_packet p s;
          x \<leftarrow> data_write 0 (syn_options s) x;
          let s = put_packet p (x\<lparr>plen := 24\<rparr>) s;
          c \<leftarrow> get_conn conn s;
          csp_rdp_send_cmp nexthop conn (Some p) RDP_SYN (snd_iss (rdp c)) 0 s
        })
   }"

section \<open>Receiving\<close>

definition csp_rdp_receive_data :: "nat \<Rightarrow> nat \<Rightarrow> node \<Rightarrow> int csp" where
  "csp_rdp_receive_data conn packet s = do {
     x \<leftarrow> get_packet packet s;
     let s = put_packet packet (snd (csp_rdp_header_remove x)) s;
     (r, s) \<leftarrow> csp_conn_enqueue_packet (Some conn) (Some packet) s;
     (if r < 0 then Some (CSP_ERR_NOBUFS, s\<lparr>csp_dbg_conn_ovf := csp_dbg_conn_ovf s + 1\<rparr>)
      else Some (CSP_ERR_NONE, s))
   }"

text \<open>
  The loop of \<^verbatim>\<open>csp_rdp_rx_queue_flush\<close>: true when it goes back to \<^verbatim>\<open>front\<close>.
\<close>

primrec csp_rdp_rx_flush_loop :: "nat \<Rightarrow> nat \<Rightarrow> node \<Rightarrow> bool csp" where
  "csp_rdp_rx_flush_loop 0 conn s = Some (False, s)"
| "csp_rdp_rx_flush_loop (Suc k) conn s = do {
     c \<leftarrow> get_conn conn s;
     (if csp_queue_free (rx_queue c) \<le> 2 then Some (False, s)
      else do {
        (packet, s) \<leftarrow> csp_rdp_queue_rx_get conn s;
        (case packet of
           None \<Rightarrow> Some (False, s)
         | Some p \<Rightarrow> do {
             x \<leftarrow> get_packet p s;
             h \<leftarrow> header_get (csp_rdp_header_ref x) x;
             (if h_seq_nr h = rcv_cur (rdp c) + 1 then do {
                (r, s) \<leftarrow> csp_rdp_receive_data conn p s;
                (_, s) \<leftarrow> (if r \<noteq> CSP_ERR_NONE then csp_buffer_free (Some p) s else Some ((), s));
                s \<leftarrow> upd_rdp conn (\<lambda>r. r\<lparr>rcv_cur := rcv_cur r + 1\<rparr>) s;
                Some (True, s)
              }
              else do {
                (_, s) \<leftarrow> csp_rdp_queue_rx_add conn p s;
                csp_rdp_rx_flush_loop k conn s
              })
           })
      })
   }"

partial_function (option) csp_rdp_rx_queue_flush :: "nat \<Rightarrow> node \<Rightarrow> unit csp" where
  "csp_rdp_rx_queue_flush conn s = do {
     r \<leftarrow> csp_rdp_rx_flush_loop (csp_rdp_queue_rx_size s) conn s;
     (if fst r then csp_rdp_rx_queue_flush conn (snd r) else Some ((), snd r))
   }"

primrec csp_rdp_seq_in_rx_loop :: "nat \<Rightarrow> nat \<Rightarrow> u16 \<Rightarrow> node \<Rightarrow> bool csp" where
  "csp_rdp_seq_in_rx_loop 0 conn seq_nr s = Some (False, s)"
| "csp_rdp_seq_in_rx_loop (Suc k) conn seq_nr s = do {
     (packet, s) \<leftarrow> csp_rdp_queue_rx_get conn s;
     (case packet of
        None \<Rightarrow> Some (False, s)
      | Some p \<Rightarrow> do {
          (_, s) \<leftarrow> csp_rdp_queue_rx_add conn p s;
          x \<leftarrow> get_packet p s;
          h \<leftarrow> header_get (csp_rdp_header_ref x) x;
          (if h_seq_nr h = seq_nr then Some (True, s) else csp_rdp_seq_in_rx_loop k conn seq_nr s)
        })
   }"

definition csp_rdp_seq_in_rx_queue :: "nat \<Rightarrow> u16 \<Rightarrow> node \<Rightarrow> bool csp" where
  "csp_rdp_seq_in_rx_queue conn seq_nr s = csp_rdp_seq_in_rx_loop (csp_rdp_queue_rx_size s) conn seq_nr s"

definition csp_rdp_rx_queue_add :: "nat \<Rightarrow> nat \<Rightarrow> u16 \<Rightarrow> node \<Rightarrow> int csp" where
  "csp_rdp_rx_queue_add conn packet seq_nr s = do {
     (dup, s) \<leftarrow> csp_rdp_seq_in_rx_queue conn seq_nr s;
     (if dup then Some (-1, s)
      else do {
        (_, s) \<leftarrow> csp_rdp_queue_rx_add conn packet s;
        Some (0, s)
      })
   }"

text \<open>
  One packet of the transmit queue against the numbers of an extended acknowledgement: whether it is among
  them, and its time-stamps.
\<close>

primrec eack_compare :: "u8 list list \<Rightarrow> u16 \<Rightarrow> u32 \<Rightarrow> u32 \<Rightarrow> csp_packet_t \<Rightarrow> bool \<times> csp_packet_t" where
  "eack_compare [] seq_nr time_now timeout x = (False, x)"
| "eack_compare (b # bs) seq_nr time_now timeout x =
     (let nr = be16toh (le_to_word b);
          x = (if nr > be16toh seq_nr \<and> csp_rdp_time_after time_now (rdp_quarantine x)
               then x\<lparr>timestamp_tx := time_now - timeout - 1, rdp_quarantine := time_now + timeout div 2\<rparr> else x);
          (m, x) = eack_compare bs seq_nr time_now timeout x
      in (nr = be16toh seq_nr \<or> m, x))"

definition eack_numbers :: "csp_packet_t \<Rightarrow> u8 list list option" where
  "eack_numbers e =
     those (map (\<lambda>j. data_read (2 * j) 2 e) [0..<(unat (plen e) - RDP_HEADER_SIZE) div 2])"

primrec csp_rdp_flush_eack_loop :: "nat \<Rightarrow> nat \<Rightarrow> nat \<Rightarrow> node \<Rightarrow> unit csp" where
  "csp_rdp_flush_eack_loop 0 conn e s = Some ((), s)"
| "csp_rdp_flush_eack_loop (Suc k) conn e s = do {
     (packet, s) \<leftarrow> csp_rdp_queue_tx_get conn s;
     (case packet of
        None \<Rightarrow> Some ((), s)
      | Some p \<Rightarrow> do {
          x \<leftarrow> get_packet p s;
          h \<leftarrow> header_get (csp_rdp_header_ref x) x;
          y \<leftarrow> get_packet e s;
          nrs \<leftarrow> eack_numbers y;
          c \<leftarrow> get_conn conn s;
          let (match, x) = eack_compare nrs (h_seq_nr h) (now s) (packet_timeout (rdp c)) x;
          let s = put_packet p x s;
          (_, s) \<leftarrow> (if \<not> match then csp_rdp_queue_tx_add conn p s else csp_buffer_free (Some p) s);
          csp_rdp_flush_eack_loop k conn e s
        })
   }"

definition csp_rdp_flush_eack :: "nat \<Rightarrow> nat \<Rightarrow> node \<Rightarrow> unit csp" where
  "csp_rdp_flush_eack conn eack_packet s = csp_rdp_flush_eack_loop (csp_rdp_queue_tx_size s) conn eack_packet s"

section \<open>Acknowledgements\<close>

definition csp_rdp_should_ack :: "csp_conn_t \<Rightarrow> node \<Rightarrow> bool" where
  "csp_rdp_should_ack c s =
     (if delayed_acks (rdp c) = 0 then True
      else if csp_rdp_time_after (now s) (ack_timestamp (rdp c) + ack_timeout (rdp c)) then True
      else if csp_rdp_seq_after (rcv_cur (rdp c)) (ucast (ucast (rcv_lsa (rdp c)) + ack_delay_count (rdp c))) then True
      else False)"

text \<open>\<^verbatim>\<open>2 * (int32_t)window_size\<close> is undefined when it does not fit.\<close>

definition csp_rdp_check_ack :: "nexthop_t \<Rightarrow> nat \<Rightarrow> node \<Rightarrow> int csp" where
  "csp_rdp_check_ack nexthop conn s = do {
     c \<leftarrow> get_conn conn s;
     let w = 2 * sint (window_size (rdp c));
     (if w < - (2 ^ 31) \<or> w \<ge> 2 ^ 31 then None
      else if int CSP_CONN_RXQUEUE_LEN - int (csp_queue_size (rx_queue c)) \<le> w then Some (CSP_ERR_NONE, s)
      else do {
        (_, s) \<leftarrow> (if csp_rdp_should_ack c s
                  then csp_rdp_send_cmp nexthop conn None RDP_ACK (snd_nxt (rdp c)) (rcv_cur (rdp c)) s
                  else Some (CSP_ERR_NONE, s));
        Some (CSP_ERR_NONE, s)
      })
   }"

definition csp_rdp_is_conn_ready_for_tx :: "csp_conn_t \<Rightarrow> bool" where
  "csp_rdp_is_conn_ready_for_tx c \<longleftrightarrow>
     \<not> csp_rdp_seq_after (snd_nxt (rdp c)) (ucast (ucast (snd_una (rdp c)) + window_size (rdp c) - 1))"

section \<open>Closing\<close>

definition csp_rdp_close_internal :: "nexthop_t \<Rightarrow> nat \<Rightarrow> u8 \<Rightarrow> bool \<Rightarrow> node \<Rightarrow> int csp" where
  "csp_rdp_close_internal nexthop conn closedby send_rst s = do {
     c \<leftarrow> get_conn conn s;
     (if rdp_state (rdp c) = RDP_CLOSED then Some (CSP_ERR_NONE, s)
      else do {
        s \<leftarrow> upd_rdp conn (\<lambda>r. r\<lparr>closed_by := closed_by r OR closedby\<rparr>) s;
        s \<leftarrow> (if rdp_state (rdp c) \<noteq> RDP_CLOSE_WAIT then do {
               s \<leftarrow> upd_conn conn (\<lambda>c. c\<lparr>rdp := (rdp c)\<lparr>rdp_state := RDP_CLOSE_WAIT\<rparr>, timestamp := now s\<rparr>) s;
               (_, s) \<leftarrow> (if send_rst
                         then csp_rdp_send_cmp nexthop conn None (RDP_ACK OR RDP_RST) (snd_nxt (rdp c)) (rcv_cur (rdp c)) s
                         else Some (CSP_ERR_NONE, s));
               (_, s) \<leftarrow> csp_bin_sem_post conn s;
               Some s
             }
             else Some s);
        c \<leftarrow> get_conn conn s;
        (if closed_by (rdp c) \<noteq> CSP_RDP_CLOSED_BY_ALL then Some (CSP_ERR_AGAIN, s)
         else do {
           s \<leftarrow> upd_rdp conn (\<lambda>r. r\<lparr>rdp_state := RDP_CLOSED, closed_by := 0\<rparr>) s;
           Some (CSP_ERR_NONE, s)
         })
      })
   }"

definition csp_rdp_close :: "nexthop_t \<Rightarrow> nat \<Rightarrow> u8 \<Rightarrow> node \<Rightarrow> int csp" where
  "csp_rdp_close nexthop conn closedby s = csp_rdp_close_internal nexthop conn closedby True s"

definition csp_conn_close :: "nexthop_t \<Rightarrow> nat option \<Rightarrow> u8 \<Rightarrow> node \<Rightarrow> int csp" where
  "csp_conn_close nexthop conn closedby s =
     (case conn of
        None \<Rightarrow> Some (CSP_ERR_NONE, s)
      | Some n \<Rightarrow> do {
          c \<leftarrow> get_conn n s;
          (if c_state c = CONN_CLOSED
           then Some (CSP_ERR_NONE, s\<lparr>csp_dbg_errno := CSP_DBG_ERR_ALREADY_CLOSED\<rparr>)
           else do {
             (r, s) \<leftarrow> (if has_flag (flags (idin c)) CSP_FRDP \<or> has_flag (flags (idout c)) CSP_FRDP
                       then csp_rdp_close nexthop n closedby s else Some (CSP_ERR_NONE, s));
             (if r = CSP_ERR_AGAIN then Some (CSP_ERR_NONE, s)
              else do {
                (_, s) \<leftarrow> csp_conn_flush_rx_queue n s;
                c \<leftarrow> get_conn n s;
                (_, s) \<leftarrow> (if has_flag (flags (idin c)) CSP_FRDP then csp_rdp_queue_flush (Some n) s else Some ((), s));
                s \<leftarrow> upd_conn n (\<lambda>c. c\<lparr>c_state := CONN_CLOSED\<rparr>) s;
                Some (CSP_ERR_NONE, s)
              })
           })
        })"

definition csp_close :: "nexthop_t \<Rightarrow> nat option \<Rightarrow> node \<Rightarrow> int csp" where
  "csp_close nexthop conn s = csp_conn_close nexthop conn CSP_RDP_CLOSED_BY_USERSPACE s"

definition csp_rdp_set_opt :: "u32 \<Rightarrow> u32 \<Rightarrow> u32 \<Rightarrow> u32 \<Rightarrow> u32 \<Rightarrow> u32 \<Rightarrow> node \<Rightarrow> node" where
  "csp_rdp_set_opt windowsize conn_timeout_ms packet_timeout_ms delayedacks acktimeout ackdelaycount s =
     s\<lparr>csp_rdp_window_size := windowsize, csp_rdp_conn_timeout := conn_timeout_ms,
       csp_rdp_packet_timeout := packet_timeout_ms, csp_rdp_delayed_acks := delayedacks,
       csp_rdp_ack_timeout := acktimeout, csp_rdp_ack_delay_count := ackdelaycount\<rparr>"

definition csp_rdp_get_opt :: "node \<Rightarrow> u32 \<times> u32 \<times> u32 \<times> u32 \<times> u32 \<times> u32" where
  "csp_rdp_get_opt s = (csp_rdp_window_size s, csp_rdp_conn_timeout s, csp_rdp_packet_timeout s, csp_rdp_delayed_acks s,
     csp_rdp_ack_timeout s, csp_rdp_ack_delay_count s)"

section \<open>Headers and numbers\<close>

lemma header_bytes_length [simp]: "length (header_bytes h) = RDP_HEADER_SIZE"
  by (simp add: header_bytes_def)

lemma header_get_put:
  assumes "off + RDP_HEADER_SIZE \<le> length (bytes p)"
  shows "header_put off h p = Some (p\<lparr>bytes := mem_put off (header_bytes h) (bytes p)\<rparr>)"
    "header_get off (p\<lparr>bytes := mem_put off (header_bytes h) (bytes p)\<rparr>) = Some h"
proof -
  show "header_put off h p = Some (p\<lparr>bytes := mem_put off (header_bytes h) (bytes p)\<rparr>)"
    using assms by (simp add: header_put_def mem_write_put)
  have r: "mem_read off RDP_HEADER_SIZE (mem_put off (header_bytes h) (bytes p)) = Some (header_bytes h)"
    using mem_read_put_same [of off "header_bytes h" "bytes p" RDP_HEADER_SIZE] assms by simp
  have "[header_bytes h ! 1, header_bytes h ! 2] = word_to_le 2 (h_seq_nr h)"
    "[header_bytes h ! 3, header_bytes h ! 4] = word_to_le 2 (h_ack_nr h)" "header_bytes h ! 0 = h_flags h"
    by (simp_all add: header_bytes_def word_to_le_def upt_rec eval_nat_numeral)
  then show "header_get off (p\<lparr>bytes := mem_put off (header_bytes h) (bytes p)\<rparr>) = Some h"
    by (simp del: le_to_word.simps add: header_get_def r [simplified])
qed

lemma header_get_Some: "off + RDP_HEADER_SIZE \<le> length (bytes p) \<Longrightarrow> \<exists>h. header_get off p = Some h"
  by (simp add: header_get_def mem_read_def)

lemma header_ref_bound: "packet_wf p \<Longrightarrow> csp_rdp_header_ref p + RDP_HEADER_SIZE \<le> length (bytes p)"
  by (simp add: csp_rdp_header_ref_def packet_wf_def)

lemma header_add_room:
  assumes "packet_wf p" "unat (plen p) + RDP_HEADER_SIZE \<le> CSP_BUFFER_SIZE"
  shows "\<exists>q. csp_rdp_header_add p = Some (Some (DATA_OFFSET + unat (plen p)), q) \<and> packet_wf q \<and>
    unat (plen q) = unat (plen p) + RDP_HEADER_SIZE \<and> csp_rdp_header_ref q = DATA_OFFSET + unat (plen p) \<and>
    (\<forall>h. take (unat (plen p)) (List.drop DATA_OFFSET (mem_put (DATA_OFFSET + unat (plen p)) (header_bytes h) (bytes q))) = pdata p)"
proof -
  let ?o = "DATA_OFFSET + unat (plen p)" and ?z = "\<lparr>h_flags = 0, h_seq_nr = 0, h_ack_nr = 0\<rparr>"
  let ?q = "p\<lparr>plen := plen p + 5, bytes := mem_put ?o (header_bytes ?z) (bytes p)\<rparr>"
  have l: "?o + RDP_HEADER_SIZE \<le> length (bytes p)" using assms by (simp add: packet_wf_def)
  have u: "unat (plen p + 5) = unat (plen p) + 5" using assms(2) by (simp add: unat_word_ariths)
  have "csp_rdp_header_add p = Some (Some ?o, ?q)"
    using assms(2) l header_get_put(1) [of ?o "p\<lparr>plen := plen p + 5\<rparr>" ?z] by (simp add: csp_rdp_header_add_def csp_buffer_data_size_def Let_def)
  moreover have "packet_wf ?q" using assms u l by (simp add: packet_wf_def)
  moreover have "take (unat (plen p)) (List.drop DATA_OFFSET (mem_put ?o (header_bytes h) (bytes ?q))) = pdata p" for h
    using l take_drop_put_below [of DATA_OFFSET "unat (plen p)" ?o "header_bytes h" "bytes ?q"]
      take_drop_put_below [of DATA_OFFSET "unat (plen p)" ?o "header_bytes ?z" "bytes p"]
    by (simp add: pdata_def)
  ultimately show ?thesis using u by (intro exI [of _ ?q]) (simp add: csp_rdp_header_ref_def)
qed

text \<open>Sequence numbers on the circle.\<close>

lemma seq_between_iff: "csp_rdp_seq_between q a b \<longleftrightarrow> (\<exists>k \<le> unat (b - a). q = a + of_nat k)"
proof
  assume "csp_rdp_seq_between q a b"
  then show "\<exists>k \<le> unat (b - a). q = a + of_nat k"
    by (intro exI [of _ "unat (q - a)"]) (simp add: csp_rdp_seq_between_def word_le_nat_alt)
next
  assume "\<exists>k \<le> unat (b - a). q = a + of_nat k"
  then obtain k where k: "k \<le> unat (b - a)" "q = a + of_nat k" by blast
  have "unat (b - a) < 2 ^ 16" by (rule order_less_le_trans [OF unsigned_less]) simp
  then have "k < 2 ^ 16" using k(1) by simp
  then have "unat (q - a) = k" using k(2) by simp
  then show "csp_rdp_seq_between q a b" using k(1) by (simp add: csp_rdp_seq_between_def word_le_nat_alt)
qed

lemma sint_negative:
  fixes w :: u16
  shows "sint w < 0 \<longleftrightarrow> 2 ^ 15 \<le> unat w"
proof -
  have l: "unat w < 2 ^ 16" by (rule order_less_le_trans [OF unsigned_less]) simp
  have "sint w < 0 \<longleftrightarrow> bit w 15" using bit_last_iff [of w] by simp
  also have "\<dots> \<longleftrightarrow> bit (unat w) 15" by (simp add: bit_unsigned_iff)
  also have "\<dots> \<longleftrightarrow> odd (unat w div 2 ^ 15)" by (rule bit_iff_odd)
  also have "\<dots> \<longleftrightarrow> 2 ^ 15 \<le> unat w"
  proof (cases "unat w < 2 ^ 15")
    case False
    then have "unat w div 2 ^ 15 = 1" using l by (intro div_nat_eqI) simp_all
    then show ?thesis using False by simp
  qed simp
  finally show ?thesis .
qed

lemma seq_before_iff:
  assumes "k < 2 ^ 15"
  shows "csp_rdp_seq_before q (q + of_nat k) \<longleftrightarrow> 0 < k" "\<not> csp_rdp_seq_before (q + of_nat k) q"
proof -
  show "\<not> csp_rdp_seq_before (q + of_nat k) q" using assms by (simp add: csp_rdp_seq_before_def sint_negative)
  show "csp_rdp_seq_before q (q + of_nat k) \<longleftrightarrow> 0 < k"
  proof (cases "k = 0")
    case True
    then show ?thesis by (simp add: csp_rdp_seq_before_def)
  next
    case False
    have "(of_nat (2 ^ 16 - k) :: u16) + of_nat k = of_nat (2 ^ 16)" using assms by (simp only: of_nat_add [symmetric]) simp
    also have "(of_nat (2 ^ 16) :: u16) = 0" by simp
    finally have "- of_nat k = (of_nat (2 ^ 16 - k) :: u16)" by (simp only: neg_eq_iff_add_eq_0 add.commute)
    then have "q - (q + of_nat k) = (of_nat (2 ^ 16 - k) :: u16)" by simp
    moreover have "unat (of_nat (2 ^ 16 - k) :: u16) = 2 ^ 16 - k" using False by (intro unat_of_nat_less) simp
    ultimately have "unat (q - (q + of_nat k)) = 2 ^ 16 - k" by (simp only:)
    then show ?thesis unfolding csp_rdp_seq_before_def sint_negative using False assms by simp
  qed
qed

section \<open>What the operations do to connections\<close>

definition conn_frame where
  "conn_frame s = (arr_conn s, sockets s, now s, rand_r s)"

lemma conn_frame_simps [simp]:
  "conn_frame (s\<lparr>csp_dbg_errno := e\<rparr>) = conn_frame s" "conn_frame (s\<lparr>csp_dbg_conn_ovf := e\<rparr>) = conn_frame s"
  "conn_frame (s\<lparr>rdp_tx_queue := q\<rparr>) = conn_frame s" "conn_frame (s\<lparr>rdp_rx_queue := q\<rparr>) = conn_frame s"
  "conn_frame (s\<lparr>csp_rdp_incr := i\<rparr>) = conn_frame s" "conn_frame (put_packet p x s) = conn_frame s"
  by (simp_all add: conn_frame_def put_packet_def)

lemma conn_frame_send: "send_frame s' = send_frame s \<Longrightarrow> conn_frame s' = conn_frame s"
  by (simp add: send_frame_def conn_frame_def)

lemmas buffer_conn_frame = buffer_get_frame [THEN conn_frame_send] buffer_free_frame [THEN conn_frame_send]
  buffer_clone_frame [THEN conn_frame_send]

lemma tx_add_conns: "csp_rdp_queue_tx_add n p s = Some (u, s') \<Longrightarrow> conn_frame s' = conn_frame s"
  by (fastforce simp: csp_rdp_queue_tx_add_def bind_Some_iff Let_def split: if_splits dest: buffer_conn_frame)

lemma rx_add_conns: "csp_rdp_queue_rx_add n p s = Some (u, s') \<Longrightarrow> conn_frame s' = conn_frame s"
  by (fastforce simp: csp_rdp_queue_rx_add_def bind_Some_iff Let_def split: if_splits dest: buffer_conn_frame)

lemma tx_get_loop_conns: "csp_rdp_queue_tx_get_loop k n s = Some (r, s') \<Longrightarrow> conn_frame s' = conn_frame s"
  by (induction k arbitrary: s) (fastforce simp: bind_Some_iff Let_def split: if_splits dest: tx_add_conns)+

lemma rx_get_loop_conns: "csp_rdp_queue_rx_get_loop k n s = Some (r, s') \<Longrightarrow> conn_frame s' = conn_frame s"
  by (induction k arbitrary: s) (fastforce simp: bind_Some_iff Let_def split: if_splits dest: rx_add_conns)+

lemma get_conns:
  "csp_rdp_queue_tx_get n s = Some (r, s') \<Longrightarrow> conn_frame s' = conn_frame s"
  "csp_rdp_queue_rx_get n s = Some (r, s') \<Longrightarrow> conn_frame s' = conn_frame s"
  by (simp_all add: csp_rdp_queue_tx_get_def csp_rdp_queue_rx_get_def tx_get_loop_conns rx_get_loop_conns)

lemma flush_tx_conns: "csp_rdp_queue_flush_tx n s = Some y \<Longrightarrow> conn_frame (snd y) = conn_frame s"
proof (erule csp_rdp_queue_flush_tx.raw_induct [rotated], goal_cases)
  case (1 flush n s y)
  then show ?case by (fastforce simp: bind_Some_iff Let_def split: if_splits dest: buffer_conn_frame 1(1))
qed

lemma flush_rx_conns: "csp_rdp_queue_flush_rx n s = Some y \<Longrightarrow> conn_frame (snd y) = conn_frame s"
proof (erule csp_rdp_queue_flush_rx.raw_induct [rotated], goal_cases)
  case (1 flush n s y)
  then show ?case by (fastforce simp: bind_Some_iff Let_def split: if_splits dest: buffer_conn_frame 1(1))
qed

lemma flush_conns: "csp_rdp_queue_flush n s = Some (u, s') \<Longrightarrow> conn_frame s' = conn_frame s"
  by (auto simp: csp_rdp_queue_flush_def bind_Some_iff dest!: flush_tx_conns flush_rx_conns)

text \<open>
  The part of a connection that sending control messages and delivering data leaves alone: all but the receive queue, the
  numbers of the last packet received and acknowledged, and the time of the last acknowledgement.
\<close>

definition conn_core :: "csp_conn_t \<Rightarrow> csp_conn_t" where
  "conn_core c = c\<lparr>rx_queue := empty_queue 0, rdp := (rdp c)\<lparr>rcv_cur := 0, rcv_lsa := 0, ack_timestamp := 0\<rparr>\<rparr>"

definition quiet :: "node \<Rightarrow> node \<Rightarrow> bool" where
  "quiet s s' \<longleftrightarrow> map conn_core (arr_conn s') = map conn_core (arr_conn s) \<and> sockets s' = sockets s \<and> now s' = now s"

lemma quiet_refl [simp]: "quiet s s"
  by (simp add: quiet_def)

lemma quiet_trans: "quiet s s' \<Longrightarrow> quiet s' s'' \<Longrightarrow> quiet s s''"
  by (simp add: quiet_def)

lemma quiet_conn_frame: "conn_frame s' = conn_frame s \<Longrightarrow> quiet s s'"
  by (simp add: quiet_def conn_frame_def)

lemma quiet_put:
  assumes "conn_core c = conn_core (arr_conn s ! n)" "n < length (arr_conn s)"
  shows "quiet s (put_conn n c s)"
proof -
  have "map conn_core ((arr_conn s)[n := c]) = map conn_core (arr_conn s)"
    using assms by (simp add: map_update list_update_same_conv)
  then show ?thesis by (simp add: quiet_def)
qed

lemma quiet_upd:
  assumes "upd_rdp n f s = Some s'" "\<And>c. conn_core (c\<lparr>rdp := f (rdp c)\<rparr>) = conn_core c"
  shows "quiet s s'"
  using assms(1) by (auto simp: upd_rdp_def upd_conn_def get_conn_def assms(2) split: if_splits intro!: quiet_put)

lemma quiet_length: "quiet s s' \<Longrightarrow> length (arr_conn s') = length (arr_conn s)"
  unfolding quiet_def by (metis length_map)

lemma quiet_core: "quiet s s' \<Longrightarrow> n < length (arr_conn s) \<Longrightarrow> conn_core (arr_conn s' ! n) = conn_core (arr_conn s ! n)"
  using quiet_length [of s s'] unfolding quiet_def by (metis nth_map)

lemma conn_core_fields:
  assumes "conn_core c = conn_core d"
  shows "rdp_state (rdp c) = rdp_state (rdp d)" "closed_by (rdp c) = closed_by (rdp d)" "dest_socket c = dest_socket d"
    "c_state c = c_state d" "c_type c = c_type d" "idin c = idin d" "idout c = idout d" "timestamp c = timestamp d"
    "snd_nxt (rdp c) = snd_nxt (rdp d)" "snd_una (rdp c) = snd_una (rdp d)" "snd_iss (rdp c) = snd_iss (rdp d)"
    "rcv_irs (rdp c) = rcv_irs (rdp d)" "sport_outgoing c = sport_outgoing d" "tx_wait (rdp c) = tx_wait (rdp d)"
    "window_size (rdp c) = window_size (rdp d)" "c_opts c = c_opts d"
  using assms unfolding conn_core_def
  by (cases c; cases d; cases "rdp c"; cases "rdp d"; simp)+

lemma receive_data_quiet:
  assumes "csp_rdp_receive_data n p s = Some (r, s')"
  shows "quiet s s'"
proof -
  from assms obtain x t e where x: "get_packet p s = Some x"
    "csp_conn_enqueue_packet (Some n) (Some p) (put_packet p (snd (csp_rdp_header_remove x)) s) = Some (e, t)"
    "arr_conn s' = arr_conn t" "sockets s' = sockets t" "now s' = now t"
    by (auto simp: csp_rdp_receive_data_def bind_Some_iff Let_def split: if_splits)
  let ?s = "put_packet p (snd (csp_rdp_header_remove x)) s"
  from x(2) obtain q where q: "n < length (arr_conn ?s)" "conn_frame t = conn_frame (put_conn n ((arr_conn ?s ! n)\<lparr>rx_queue := q\<rparr>) ?s)"
    by (auto simp: csp_conn_enqueue_packet_def bind_Some_iff Let_def get_conn_def split: if_splits)
  have "quiet ?s (put_conn n ((arr_conn ?s ! n)\<lparr>rx_queue := q\<rparr>) ?s)" by (rule quiet_put [OF _ q(1)]) (simp add: conn_core_def)
  then have "quiet ?s t" using q(2) by (auto intro: quiet_trans quiet_conn_frame)
  then show ?thesis using x(3-5) by (simp add: quiet_def)
qed

lemma rx_flush_loop_quiet:
  "csp_rdp_rx_flush_loop k n s = Some (r, s') \<Longrightarrow> quiet s s'"
proof (induction k arbitrary: s)
  case 0
  then show ?case by simp
next
  case (Suc k)
  from Suc(2) obtain c where c: "get_conn n s = Some c" by (auto simp: bind_Some_iff)
  show ?case
  proof (cases "csp_queue_free (rx_queue c) \<le> 2")
    case True
    then show ?thesis using Suc(2) c by simp
  next
    case False
    with Suc(2) c obtain p s1 where p: "csp_rdp_queue_rx_get n s = Some (p, s1)" by (auto simp: bind_Some_iff)
    have q1: "quiet s s1" by (rule quiet_conn_frame [OF get_conns(2) [OF p]])
    show ?thesis
    proof (cases p)
      case None
      then show ?thesis using Suc(2) c False p q1 by simp
    next
      case (Some p)
      with Suc(2) c False p obtain x h where h: "get_packet p s1 = Some x" "header_get (csp_rdp_header_ref x) x = Some h"
        by (auto simp: bind_Some_iff)
      show ?thesis
      proof (cases "h_seq_nr h = rcv_cur (rdp c) + 1")
        case True
        with Suc(2) c False p Some h obtain e s2 s3 where s: "csp_rdp_receive_data n p s1 = Some (e, s2)"
          "(if e \<noteq> CSP_ERR_NONE then csp_buffer_free (Some p) s2 else Some ((), s2)) = Some ((), s3)"
          "upd_rdp n (\<lambda>r. r\<lparr>rcv_cur := rcv_cur r + 1\<rparr>) s3 = Some s'" "r"
          by (auto simp: bind_Some_iff)
        have "quiet s2 s3" using s(2) by (auto split: if_splits dest: buffer_conn_frame intro: quiet_conn_frame)
        moreover have "quiet s3 s'" by (rule quiet_upd [OF s(3)]) (simp add: conn_core_def)
        ultimately show ?thesis using q1 receive_data_quiet [OF s(1)] by (blast intro: quiet_trans)
      next
        case ne: False
        with Suc(2) c False p Some h obtain s2 where s: "csp_rdp_queue_rx_add n p s1 = Some ((), s2)"
          "csp_rdp_rx_flush_loop k n s2 = Some (r, s')" by (auto simp: bind_Some_iff)
        show ?thesis using q1 quiet_conn_frame [OF rx_add_conns [OF s(1)]] Suc(1) [OF s(2)] by (blast intro: quiet_trans)
      qed
    qed
  qed
qed

lemma rx_queue_flush_quiet: "csp_rdp_rx_queue_flush n s = Some y \<Longrightarrow> quiet s (snd y)"
proof (erule csp_rdp_rx_queue_flush.raw_induct [rotated], goal_cases)
  case (1 flush n s y)
  then obtain b t where b: "csp_rdp_rx_flush_loop (csp_rdp_queue_rx_size s) n s = Some (b, t)" by (auto simp: bind_Some_iff)
  show ?case
  proof (cases b)
    case True
    then have "flush n t = Some y" using 1(2) b by simp
    from quiet_trans [OF rx_flush_loop_quiet [OF b] 1(1) [OF this]] show ?thesis .
  next
    case False
    then show ?thesis using 1(2) b rx_flush_loop_quiet [OF b] by auto
  qed
qed

lemma seq_in_rx_conns: "csp_rdp_seq_in_rx_loop k n q s = Some (r, s') \<Longrightarrow> conn_frame s' = conn_frame s"
proof (induction k arbitrary: s)
  case (Suc k)
  from Suc(2) obtain p s1 where p: "csp_rdp_queue_rx_get n s = Some (p, s1)" by (auto simp: bind_Some_iff)
  note f1 = get_conns(2) [OF p]
  show ?case
  proof (cases p)
    case (Some p)
    with Suc(2) p obtain s2 where s2: "csp_rdp_queue_rx_add n p s1 = Some ((), s2)"
      "s' = s2 \<or> csp_rdp_seq_in_rx_loop k n q s2 = Some (r, s')" by (auto simp: bind_Some_iff split: if_splits)
    then show ?thesis using rx_add_conns [OF s2(1)] f1 Suc(1) [of s2] by auto
  qed (use Suc(2) p f1 in simp)
qed simp

lemma rx_queue_add_conns: "csp_rdp_rx_queue_add n p q s = Some (r, s') \<Longrightarrow> conn_frame s' = conn_frame s"
  by (auto simp: csp_rdp_rx_queue_add_def csp_rdp_seq_in_rx_queue_def bind_Some_iff split: if_splits
      dest!: seq_in_rx_conns rx_add_conns)

lemma flush_eack_conns: "csp_rdp_flush_eack_loop k n e s = Some (r, s') \<Longrightarrow> conn_frame s' = conn_frame s"
proof (induction k arbitrary: s)
  case (Suc k)
  from Suc(2) obtain p s1 where p: "csp_rdp_queue_tx_get n s = Some (p, s1)" by (auto simp: bind_Some_iff)
  note f1 = get_conns(1) [OF p]
  show ?case
  proof (cases p)
    case (Some p)
    with Suc(2) p obtain x t s2 match where s2: "(if \<not> match then csp_rdp_queue_tx_add n p (put_packet p x s1)
        else csp_buffer_free (Some p) (put_packet p x s1)) = Some (t, s2)" "csp_rdp_flush_eack_loop k n e s2 = Some (r, s')"
      by (auto simp: bind_Some_iff Let_def case_prod_unfold)
    have "conn_frame s2 = conn_frame s1" using s2(1) by (auto split: if_splits dest!: tx_add_conns buffer_conn_frame)
    then show ?thesis using Suc(1) [OF s2(2)] f1 by simp
  qed (use Suc(2) p f1 in simp)
qed simp

lemma cmp_packet_conns: "csp_rdp_cmp_packet p s = Some (r, s') \<Longrightarrow> conn_frame s' = conn_frame s"
  by (auto simp: csp_rdp_cmp_packet_def bind_Some_iff split: if_splits option.splits dest!: buffer_conn_frame)

text \<open>The copy for the transmit queue.\<close>

lemma cmp_copy_conns:
  assumes "(if has_flag fl RDP_SYN then do {
        (copy, s) \<leftarrow> csp_buffer_clone (Some p) s;
        (case copy of
           None \<Rightarrow> Some (False, s)
         | Some r \<Rightarrow> do {
             y \<leftarrow> get_packet r s;
             (_, s) \<leftarrow> csp_rdp_queue_tx_add conn r (put_packet r (y\<lparr>timestamp_tx := now s\<rparr>) s);
             Some (True, s)
           })
      }
      else Some (True, s)) = Some (b, s')"
  shows "conn_frame s' = conn_frame s"
  using assms by (auto simp: bind_Some_iff split: if_splits option.splits dest!: buffer_conn_frame tx_add_conns)

lemma sem_post_eq:
  "n < length (arr_conn s) \<Longrightarrow> csp_bin_sem_post n s = Some (CSP_SEMAPHORE_OK,
     put_conn n ((arr_conn s ! n)\<lparr>rdp := (rdp (arr_conn s ! n))\<lparr>tx_wait := max 1 (tx_wait (rdp (arr_conn s ! n)))\<rparr>\<rparr>) s)"
proof (cases "tx_wait (rdp (arr_conn s ! n))")
  case (Suc k)
  assume n: "n < length (arr_conn s)"
  have m: "max 1 (tx_wait (rdp (arr_conn s ! n))) = tx_wait (rdp (arr_conn s ! n))" using Suc by simp
  have "put_conn n (arr_conn s ! n) s = s" using n by (simp add: put_conn_def)
  moreover have "0 < tx_wait (rdp (arr_conn s ! n))" using Suc by simp
  ultimately show ?thesis unfolding m using n by (simp add: csp_bin_sem_post_def get_conn_eq)
qed (simp add: csp_bin_sem_post_def get_conn_eq upd_rdp_eq)

definition others_kept :: "nat \<Rightarrow> node \<Rightarrow> node \<Rightarrow> bool" where
  "others_kept n s s' \<longleftrightarrow> length (arr_conn s') = length (arr_conn s) \<and> sockets s' = sockets s \<and> now s' = now s \<and>
     (\<forall>k < length (arr_conn s). k \<noteq> n \<longrightarrow> conn_core (arr_conn s' ! k) = conn_core (arr_conn s ! k))"

lemma others_kept_trans: "others_kept n s s' \<Longrightarrow> others_kept n s' s'' \<Longrightarrow> others_kept n s s''"
  by (simp add: others_kept_def)

lemma others_kept_quiet: "quiet s s' \<Longrightarrow> others_kept n s s'"
  by (simp add: others_kept_def quiet_length quiet_core) (simp add: quiet_def)

lemma others_kept_put: "others_kept n s (put_conn n c s)"
  by (simp add: others_kept_def)

context nexthop_frame
begin

lemma send_direct_conns: "csp_send_direct nexthop ido p rf s = Some (u, s') \<Longrightarrow> conn_frame s' = conn_frame s"
  by (drule send_direct_frame) (rule conn_frame_send)

text \<open>A control message changes nothing but the record of the last acknowledgement.\<close>

lemma send_cmp_conns:
  assumes "csp_rdp_send_cmp nexthop n packet fl seq_nr ack_nr s = Some (r, s')"
  shows "conn_frame s' = conn_frame s \<or>
    (\<exists>t. conn_frame t = conn_frame s \<and> upd_rdp n (\<lambda>r. r\<lparr>rcv_lsa := ack_nr, ack_timestamp := now s\<rparr>) t = Some s')"
proof -
  from assms obtain p s1 where p: "csp_rdp_cmp_packet packet s = Some (p, s1)"
    by (auto simp: csp_rdp_send_cmp_def bind_Some_iff)
  note f1 = cmp_packet_conns [OF p]
  show ?thesis
  proof (cases p)
    case None
    then show ?thesis using assms p f1 by (simp add: csp_rdp_send_cmp_def)
  next
    case (Some p)
    with assms p obtain x hd y where x: "get_packet p s1 = Some x" "csp_rdp_header_add x = Some (hd, y)"
      by (auto simp: csp_rdp_send_cmp_def bind_Some_iff)
    show ?thesis
    proof (cases hd)
      case None
      then show ?thesis using assms p Some x f1
        by (auto simp: csp_rdp_send_cmp_def bind_Some_iff dest!: buffer_conn_frame)
    next
      case off: (Some off)
      with assms p Some x obtain z b s2 where z: "header_put off \<lparr>h_flags = push_bit 4 (csp_rdp_incr s1) OR fl,
           h_seq_nr = htobe16 seq_nr, h_ack_nr = htobe16 ack_nr\<rparr> y = Some z"
        "(if has_flag fl RDP_SYN then do {
            (copy, s) \<leftarrow> csp_buffer_clone (Some p) ((put_packet p z s1)\<lparr>csp_rdp_incr := csp_rdp_incr s1 + 1\<rparr>);
            (case copy of
               None \<Rightarrow> Some (False, s)
             | Some r \<Rightarrow> do {
                 y \<leftarrow> get_packet r s;
                 (_, s) \<leftarrow> csp_rdp_queue_tx_add n r (put_packet r (y\<lparr>timestamp_tx := now s\<rparr>) s);
                 Some (True, s)
               })
          }
          else Some (True, (put_packet p z s1)\<lparr>csp_rdp_incr := csp_rdp_incr s1 + 1\<rparr>)) = Some (b, s2)"
        by (auto simp: csp_rdp_send_cmp_def bind_Some_iff Let_def simp del: RDP_SYN_def)
      have f2: "conn_frame s2 = conn_frame s" using cmp_copy_conns [OF z(2)] f1 by simp
      show ?thesis
      proof (cases b)
        case False
        then have "s' = s2" using assms p Some x off z by (auto simp: csp_rdp_send_cmp_def Let_def simp del: RDP_SYN_def)
        then show ?thesis using f2 by simp
      next
        case True
        with assms p Some x off z obtain ido s3 where s3: "csp_send_direct nexthop ido p None s2 = Some ((), s3)"
          "(if has_flag fl RDP_ACK then upd_rdp n (\<lambda>r. r\<lparr>rcv_lsa := ack_nr, ack_timestamp := now s3\<rparr>) s3 else Some s3) = Some s'"
          by (auto simp: csp_rdp_send_cmp_def bind_Some_iff Let_def simp del: RDP_SYN_def RDP_ACK_def)
        have f3: "conn_frame s3 = conn_frame s" using send_direct_conns [OF s3(1)] f2 by simp
        then have "now s3 = now s" by (simp add: conn_frame_def)
        then show ?thesis using s3(2) f3 by (auto split: if_splits)
      qed
    qed
  qed
qed

lemma send_cmp_quiet:
  assumes "csp_rdp_send_cmp nexthop n packet fl seq_nr ack_nr s = Some (r, s')"
  shows "quiet s s'"
  using send_cmp_conns [OF assms]
proof (elim disjE exE conjE)
  fix t
  assume "conn_frame t = conn_frame s" and u: "upd_rdp n (\<lambda>r. r\<lparr>rcv_lsa := ack_nr, ack_timestamp := now s\<rparr>) t = Some s'"
  moreover have "quiet t s'" by (rule quiet_upd [OF u]) (simp add: conn_core_def)
  ultimately show ?thesis using quiet_conn_frame quiet_trans by blast
qed (rule quiet_conn_frame)

lemma send_eack_loop_conns: "csp_rdp_send_eack_loop k n e sp s = Some (u, s') \<Longrightarrow> conn_frame s' = conn_frame s"
proof (induction k arbitrary: s sp)
  case (Suc k)
  from Suc(2) obtain p s1 where p: "csp_rdp_queue_rx_get n s = Some (p, s1)" by (auto simp: bind_Some_iff)
  note f1 = get_conns(2) [OF p]
  show ?case
  proof (cases p)
    case (Some p)
    with Suc(2) p obtain s2 s3 sp' where s2: "s2 = s1 \<or> (\<exists>y. s2 = put_packet e y s1)" "csp_rdp_queue_rx_add n p s2 = Some ((), s3)"
      "csp_rdp_send_eack_loop k n e sp' s3 = Some (u, s')" by (auto simp: bind_Some_iff split: if_splits)
    have "conn_frame s2 = conn_frame s1" using s2(1) by auto
    then show ?thesis using rx_add_conns [OF s2(2)] f1 Suc(1) [OF s2(3)] by simp
  qed (use Suc(2) p f1 in simp)
qed simp

lemma send_eack_quiet:
  assumes "csp_rdp_send_eack nexthop n s = Some (r, s')"
  shows "quiet s s'"
proof -
  from assms obtain b s1 where b: "csp_buffer_get 100 s = Some (b, s1)" by (auto simp: csp_rdp_send_eack_def bind_Some_iff)
  show ?thesis
  proof (cases b)
    case None
    then show ?thesis using assms b by (auto simp: csp_rdp_send_eack_def dest!: buffer_conn_frame intro: quiet_conn_frame)
  next
    case (Some e)
    with assms b obtain x s2 fl sq ak where s2: "csp_rdp_send_eack_loop (csp_rdp_queue_rx_size (put_packet e x s1)) n e
        (100 - of_nat RDP_HEADER_SIZE) (put_packet e x s1) = Some ((), s2)"
      "csp_rdp_send_cmp nexthop n (Some e) fl sq ak s2 = Some (r, s')"
      by (auto simp: csp_rdp_send_eack_def bind_Some_iff Let_def simp del: RDP_HEADER_SIZE_def)
    have "conn_frame s2 = conn_frame s"
      using send_eack_loop_conns [OF s2(1)] buffer_conn_frame(1) [OF b] by simp
    then show ?thesis using send_cmp_quiet [OF s2(2)] quiet_conn_frame quiet_trans by blast
  qed
qed

lemma check_ack_quiet: "csp_rdp_check_ack nexthop n s = Some (r, s') \<Longrightarrow> quiet s s'"
  by (auto simp: csp_rdp_check_ack_def bind_Some_iff Let_def split: if_splits dest!: send_cmp_quiet)

lemma send_syn_quiet:
  assumes "csp_rdp_send_syn nexthop n s = Some (r, s')"
  shows "quiet s s'"
proof -
  from assms obtain b s1 where b: "csp_buffer_get 100 s = Some (b, s1)" by (auto simp: csp_rdp_send_syn_def bind_Some_iff)
  note f = quiet_conn_frame [OF buffer_conn_frame(1) [OF b]]
  show ?thesis
  proof (cases b)
    case None
    then show ?thesis using assms b f by (simp add: csp_rdp_send_syn_def)
  next
    case (Some p)
    with assms b obtain x fl sq ak where s2: "csp_rdp_send_cmp nexthop n (Some p) fl sq ak (put_packet p x s1) = Some (r, s')"
      by (auto simp: csp_rdp_send_syn_def bind_Some_iff Let_def)
    have "quiet s1 (put_packet p x s1)" by (simp add: quiet_conn_frame)
    then show ?thesis using send_cmp_quiet [OF s2] f quiet_trans by blast
  qed
qed

text \<open>Closing: the connection is closed when the last of the three parties has closed it.\<close>

lemma close_wait_enter:
  assumes "n < length (arr_conn s)" "do {
      s \<leftarrow> upd_conn n (\<lambda>c. c\<lparr>rdp := (rdp c)\<lparr>rdp_state := RDP_CLOSE_WAIT\<rparr>, timestamp := now s\<rparr>) s;
      (_, s) \<leftarrow> (if rst then csp_rdp_send_cmp nexthop n None fl sq ak s else Some (CSP_ERR_NONE, s));
      (_, s) \<leftarrow> csp_bin_sem_post n s;
      Some s
    } = Some s'"
  shows "rdp_state (rdp (arr_conn s' ! n)) = RDP_CLOSE_WAIT \<and> closed_by (rdp (arr_conn s' ! n)) = closed_by (rdp (arr_conn s ! n)) \<and>
    others_kept n s s'"
proof -
  let ?s1 = "put_conn n ((arr_conn s ! n)\<lparr>rdp := (rdp (arr_conn s ! n))\<lparr>rdp_state := RDP_CLOSE_WAIT\<rparr>, timestamp := now s\<rparr>) s"
  from assms obtain r s2 where s2: "(if rst then csp_rdp_send_cmp nexthop n None fl sq ak ?s1 else Some (CSP_ERR_NONE, ?s1)) = Some (r, s2)"
    and p: "do { (_, s) \<leftarrow> csp_bin_sem_post n s2; Some s } = Some s'"
    by (auto simp: upd_conn_eq bind_Some_iff)
  have q: "quiet ?s1 s2" using s2 by (auto split: if_splits dest: send_cmp_quiet)
  have n2: "n < length (arr_conn s2)" using quiet_length [OF q] assms(1) by simp
  have core: "rdp_state (rdp (arr_conn s2 ! n)) = RDP_CLOSE_WAIT" "closed_by (rdp (arr_conn s2 ! n)) = closed_by (rdp (arr_conn s ! n))"
    using conn_core_fields(1,2) [OF quiet_core [OF q, of n]] assms(1) by simp_all
  have "others_kept n s s2" using others_kept_trans [OF others_kept_put others_kept_quiet [OF q]] .
  moreover have "others_kept n s2 s'" using p n2 others_kept_put [of n s2] by (auto simp: sem_post_eq)
  ultimately show ?thesis using p n2 core others_kept_trans by (auto simp: sem_post_eq)
qed

lemma close_internal_spec:
  assumes "n < length (arr_conn s)" "csp_rdp_close_internal nexthop n cb rst s = Some (r, s')"
  shows "others_kept n s s' \<and>
    (if rdp_state (rdp (arr_conn s ! n)) = RDP_CLOSED then r = CSP_ERR_NONE \<and> s' = s
     else if closed_by (rdp (arr_conn s ! n)) OR cb = CSP_RDP_CLOSED_BY_ALL
     then r = CSP_ERR_NONE \<and> rdp_state (rdp (arr_conn s' ! n)) = RDP_CLOSED \<and> closed_by (rdp (arr_conn s' ! n)) = 0
     else r = CSP_ERR_AGAIN \<and> rdp_state (rdp (arr_conn s' ! n)) = RDP_CLOSE_WAIT \<and>
       closed_by (rdp (arr_conn s' ! n)) = (closed_by (rdp (arr_conn s ! n)) OR cb))"
proof (cases "rdp_state (rdp (arr_conn s ! n)) = RDP_CLOSED")
  case True
  then show ?thesis using assms by (simp add: csp_rdp_close_internal_def get_conn_eq others_kept_def)
next
  case False
  let ?c = "arr_conn s ! n"
  let ?s1 = "put_conn n (?c\<lparr>rdp := (rdp ?c)\<lparr>closed_by := closed_by (rdp ?c) OR cb\<rparr>\<rparr>) s"
  from assms False obtain s2 where s2: "(if rdp_state (rdp ?c) \<noteq> RDP_CLOSE_WAIT then do {
      s \<leftarrow> upd_conn n (\<lambda>c. c\<lparr>rdp := (rdp c)\<lparr>rdp_state := RDP_CLOSE_WAIT\<rparr>, timestamp := now ?s1\<rparr>) ?s1;
      (_, s) \<leftarrow> (if rst then csp_rdp_send_cmp nexthop n None (RDP_ACK OR RDP_RST) (snd_nxt (rdp ?c)) (rcv_cur (rdp ?c)) s
                else Some (CSP_ERR_NONE, s));
      (_, s) \<leftarrow> csp_bin_sem_post n s;
      Some s
    } else Some ?s1) = Some s2"
    and e: "do {
        c \<leftarrow> get_conn n s2;
        (if closed_by (rdp c) \<noteq> CSP_RDP_CLOSED_BY_ALL then Some (CSP_ERR_AGAIN, s2)
         else do {
           s \<leftarrow> upd_rdp n (\<lambda>r. r\<lparr>rdp_state := RDP_CLOSED, closed_by := 0\<rparr>) s2;
           Some (CSP_ERR_NONE, s)
         }) } = Some (r, s')"
    by (auto simp: csp_rdp_close_internal_def get_conn_eq upd_rdp_eq bind_Some_iff simp del: CSP_RDP_CLOSED_BY_ALL_def
        RDP_ACK_def RDP_RST_def)
  have n1: "n < length (arr_conn ?s1)" using assms(1) by simp
  have w: "rdp_state (rdp (arr_conn s2 ! n)) = RDP_CLOSE_WAIT \<and> closed_by (rdp (arr_conn s2 ! n)) = (closed_by (rdp ?c) OR cb) \<and>
      others_kept n ?s1 s2"
  proof (cases "rdp_state (rdp ?c) = RDP_CLOSE_WAIT")
    case True
    then show ?thesis using s2 assms(1) by (auto simp: others_kept_def)
  next
    case op: False
    then show ?thesis using close_wait_enter [OF n1, of rst "RDP_ACK OR RDP_RST" "snd_nxt (rdp ?c)" "rcv_cur (rdp ?c)" s2] s2 assms(1)
      by (simp del: RDP_ACK_def RDP_RST_def)
  qed
  have o: "others_kept n s s2" using others_kept_trans [OF others_kept_put] w by blast
  then have n2: "n < length (arr_conn s2)" using assms(1) by (simp add: others_kept_def)
  show ?thesis
  proof (cases "closed_by (rdp ?c) OR cb = CSP_RDP_CLOSED_BY_ALL")
    case True
    then have "s' = put_conn n ((arr_conn s2 ! n)\<lparr>rdp := (rdp (arr_conn s2 ! n))\<lparr>rdp_state := RDP_CLOSED, closed_by := 0\<rparr>\<rparr>) s2 \<and> r = CSP_ERR_NONE"
      using e w n2 by (simp add: get_conn_eq upd_rdp_eq del: CSP_RDP_CLOSED_BY_ALL_def)
    then show ?thesis using False True n2 others_kept_trans [OF o others_kept_put] by (simp del: CSP_RDP_CLOSED_BY_ALL_def)
  next
    case nall: False
    then have "s' = s2 \<and> r = CSP_ERR_AGAIN" using e w n2 by (simp add: get_conn_eq del: CSP_RDP_CLOSED_BY_ALL_def)
    then show ?thesis using False nall w o by (simp del: CSP_RDP_CLOSED_BY_ALL_def)
  qed
qed

end

section \<open>Properties\<close>

text \<open>C21: The comparisons of sequence numbers are those of the circle of 65536 numbers: a number is between two others when it
  is met on the way up from the first to the second, and of two numbers less than half the circle apart the one
  further up is after the other, across the wrap-around.\<close>

theorem csp_rdp_seq_order:
  "(csp_rdp_seq_between q a b \<longleftrightarrow> (\<exists>k \<le> unat (b - a). q = a + of_nat k)) \<and>
   (k < 2 ^ 15 \<longrightarrow> (csp_rdp_seq_after (q + of_nat k) q \<longleftrightarrow> 0 < k) \<and> \<not> csp_rdp_seq_before (q + of_nat k) q)"
  using seq_between_iff seq_before_iff by (simp add: csp_rdp_seq_after_def)

theorem csp_rdp_seq_order_witness: "csp_rdp_seq_between 2 65530 5 \<and> csp_rdp_seq_after 2 65530"
proof -
  have "\<exists>k \<le> unat (5 - 65530 :: u16). (2 :: u16) = 65530 + of_nat k" by (rule exI [of _ 8]) simp
  then have "csp_rdp_seq_between 2 65530 5" using csp_rdp_seq_order [of 2 65530 5 0] by blast
  moreover have "csp_rdp_seq_after (65530 + of_nat 8) 65530" using csp_rdp_seq_order [of 65530 0 0 8] by simp
  moreover have "(65530 + of_nat 8 :: u16) = 2" by simp
  ultimately show ?thesis by (simp only:)
qed

text \<open>An RDP header appended to a packet is read back as it was written, and removing it gives the
  packet's data back.\<close>

theorem csp_rdp_header_roundtrip:
  assumes "packet_wf p" "unat (plen p) + RDP_HEADER_SIZE \<le> CSP_BUFFER_SIZE"
  shows "\<exists>off q q'. csp_rdp_header_add p = Some (Some off, q) \<and> header_put off h q = Some q' \<and>
    header_get (csp_rdp_header_ref q') q' = Some h \<and> pdata (snd (csp_rdp_header_remove q')) = pdata p"
proof -
  obtain q where q: "csp_rdp_header_add p = Some (Some (DATA_OFFSET + unat (plen p)), q)" "packet_wf q"
    "unat (plen q) = unat (plen p) + RDP_HEADER_SIZE" "csp_rdp_header_ref q = DATA_OFFSET + unat (plen p)"
    "\<And>h. take (unat (plen p)) (List.drop DATA_OFFSET (mem_put (DATA_OFFSET + unat (plen p)) (header_bytes h) (bytes q))) = pdata p"
    using header_add_room [OF assms] by blast
  let ?o = "DATA_OFFSET + unat (plen p)"
  let ?q = "q\<lparr>bytes := mem_put ?o (header_bytes h) (bytes q)\<rparr>"
  have l: "?o + RDP_HEADER_SIZE \<le> length (bytes q)" using header_ref_bound [OF q(2)] q(4) by simp
  have "csp_rdp_header_ref ?q = ?o" using q(4) by (simp add: csp_rdp_header_ref_def)
  moreover have "unat (plen q - 5) = unat (plen p)" using q(3) by (simp add: unat_sub_if' word_le_nat_alt)
  then have "pdata (snd (csp_rdp_header_remove ?q)) = pdata p" using q(5) [of h]
    by (simp add: csp_rdp_header_remove_def pdata_def [of "q\<lparr>bytes := b, plen := l\<rparr>" for b l])
  ultimately show ?thesis using q(1) header_get_put [OF l, of h] by auto
qed

theorem csp_rdp_header_roundtrip_witness:
  "\<exists>off q q'. csp_rdp_header_add zero_packet = Some (Some off, q) \<and>
     header_put off \<lparr>h_flags = 4, h_seq_nr = 17, h_ack_nr = 65535\<rparr> q = Some q' \<and>
     header_get (csp_rdp_header_ref q') q' = Some \<lparr>h_flags = 4, h_seq_nr = 17, h_ack_nr = 65535\<rparr>"
  using csp_rdp_header_roundtrip [OF zero_packet_wf, of "\<lparr>h_flags = 4, h_seq_nr = 17, h_ack_nr = 65535\<rparr>"]
  by (auto simp: zero_packet_def)

text \<open>An RDP connection is closed exactly when the application, the protocol and the time-out have all closed it; until
  then it waits in CLOSE-WAIT and remembers who has closed it. Other connections stay as they are.\<close>

theorem csp_rdp_close_by_all:
  assumes "nexthop_frame nh" "n < length (arr_conn s)" "rdp_state (rdp (arr_conn s ! n)) \<noteq> RDP_CLOSED"
    "csp_rdp_close nh n cb s = Some (r, s')"
  shows "others_kept n s s' \<and>
    (if closed_by (rdp (arr_conn s ! n)) OR cb = CSP_RDP_CLOSED_BY_ALL
     then r = CSP_ERR_NONE \<and> rdp_state (rdp (arr_conn s' ! n)) = RDP_CLOSED \<and> closed_by (rdp (arr_conn s' ! n)) = 0
     else r = CSP_ERR_AGAIN \<and> rdp_state (rdp (arr_conn s' ! n)) = RDP_CLOSE_WAIT \<and>
       closed_by (rdp (arr_conn s' ! n)) = (closed_by (rdp (arr_conn s ! n)) OR cb))"
  using nexthop_frame.close_internal_spec [OF assms(1,2), of cb True r s'] assms(3,4) by (simp add: csp_rdp_close_def)

definition closing_node :: node where
  "closing_node = put_conn 2 ((arr_conn ready_node ! 2)\<lparr>c_state := CONN_OPEN,
     rdp := zero_rdp\<lparr>rdp_state := RDP_CLOSE_WAIT, closed_by := 3\<rparr>\<rparr>) ready_node"

theorem csp_rdp_close_by_all_witness:
  "\<exists>s'. csp_rdp_close csp_lo_tx 2 CSP_RDP_CLOSED_BY_TIMEOUT closing_node = Some (CSP_ERR_NONE, s') \<and>
     rdp_state (rdp (arr_conn s' ! 2)) = RDP_CLOSED"
proof -
  have n: "2 < length (arr_conn closing_node)" by (simp add: closing_node_def ready_node_def)
  then have c: "rdp (arr_conn closing_node ! 2) = zero_rdp\<lparr>rdp_state := RDP_CLOSE_WAIT, closed_by := 3\<rparr>"
    by (simp add: closing_node_def)
  obtain s' where s': "csp_rdp_close csp_lo_tx 2 CSP_RDP_CLOSED_BY_TIMEOUT closing_node = Some (CSP_ERR_NONE, s')"
    using n c by (simp add: csp_rdp_close_def csp_rdp_close_internal_def get_conn_eq upd_rdp_eq)
  from csp_rdp_close_by_all [OF lo.nexthop_frame_axioms n _ s'] show ?thesis using s' c by simp
qed

end
