(* ===== verification/Csp_Rdp.thy ===== *)
theory Csp_Rdp
  imports Csp_Rdp_Base
begin

text \<open>
  The upper half of RDP (\<^verbatim>\<open>src/csp_rdp.c\<close>): the state machine for received packets, the time-outs, active connection and
  sending, and the functions of \<^verbatim>\<open>src/csp_conn.c\<close> that call them. A received packet ends at one of the three
  labels of \<^verbatim>\<open>csp_rdp_new_packet\<close>, which are the constructors of \<open>rdp_exit\<close>.
\<close>

section \<open>Time-outs\<close>

text \<open>
  \<^verbatim>\<open>csp_send_direct\<close> for a packet pointer that may be null: the pointer is followed unless there is neither
  an interface nor a route.
\<close>

definition csp_send_direct_ptr :: "nexthop_t \<Rightarrow> csp_id_t \<Rightarrow> nat option \<Rightarrow> node \<Rightarrow> unit csp" where
  "csp_send_direct_ptr nexthop ido packet s =
     (case packet of
        Some p \<Rightarrow> csp_send_direct nexthop ido p None s
      | None \<Rightarrow> do {
          i \<leftarrow> csp_iflist_get_by_subnet (dst ido) None s;
          r \<leftarrow> csp_rtable_find_route (dst ido) s;
          (if i = None \<and> r = None then csp_buffer_free None s else None)
        })"

primrec csp_rdp_retransmit_loop :: "nat \<Rightarrow> nexthop_t \<Rightarrow> nat \<Rightarrow> node \<Rightarrow> unit csp" where
  "csp_rdp_retransmit_loop 0 nexthop conn s = Some ((), s)"
| "csp_rdp_retransmit_loop (Suc k) nexthop conn s = do {
     (packet, s) \<leftarrow> csp_rdp_queue_tx_get conn s;
     (case packet of
        None \<Rightarrow> Some ((), s)
      | Some p \<Rightarrow> do {
          x \<leftarrow> get_packet p s;
          h \<leftarrow> header_get (csp_rdp_header_ref x) x;
          c \<leftarrow> get_conn conn s;
          (if csp_rdp_seq_before (be16toh (h_seq_nr h)) (snd_una (rdp c)) then do {
             (_, s) \<leftarrow> csp_buffer_free (Some p) s;
             csp_rdp_retransmit_loop k nexthop conn s
           }
           else do {
             (_, s) \<leftarrow>
               (if csp_rdp_time_after (now s) (timestamp_tx x + packet_timeout (rdp c)) then do {
                  x \<leftarrow> header_put (csp_rdp_header_ref x) (h\<lparr>h_ack_nr := htobe16 (rcv_cur (rdp c))\<rparr>) x;
                  let s = put_packet p (x\<lparr>timestamp_tx := now s\<rparr>) s;
                  (new_packet, s) \<leftarrow> csp_buffer_clone (Some p) s;
                  csp_send_direct_ptr nexthop (idout c) new_packet s
                }
                else Some ((), s));
             (_, s) \<leftarrow> csp_rdp_queue_tx_add conn p s;
             csp_rdp_retransmit_loop k nexthop conn s
           })
        })
   }"

definition csp_rdp_check_timeouts :: "nexthop_t \<Rightarrow> nat \<Rightarrow> node \<Rightarrow> unit csp" where
  "csp_rdp_check_timeouts nexthop conn s = do {
     c \<leftarrow> get_conn conn s;
     (if dest_socket c \<noteq> None \<and> csp_rdp_time_after (now s) (timestamp c + conn_timeout (rdp c)) then do {
        (_, s) \<leftarrow> csp_conn_close nexthop (Some conn)
          (CSP_RDP_CLOSED_BY_USERSPACE OR CSP_RDP_CLOSED_BY_PROTOCOL OR CSP_RDP_CLOSED_BY_TIMEOUT) s;
        Some ((), s)
      }
      else if rdp_state (rdp c) = RDP_CLOSE_WAIT then do {
        (_, s) \<leftarrow> (if csp_rdp_time_after (now s) (timestamp c + conn_timeout (rdp c))
                  then csp_conn_close nexthop (Some conn) (CSP_RDP_CLOSED_BY_PROTOCOL OR CSP_RDP_CLOSED_BY_TIMEOUT) s
                  else Some (CSP_ERR_NONE, s));
        Some ((), s)
      }
      else do {
        (_, s) \<leftarrow> csp_rdp_retransmit_loop (csp_rdp_queue_tx_size s) nexthop conn s;
        c \<leftarrow> get_conn conn s;
        s \<leftarrow> (if rdp_state (rdp c) = RDP_OPEN then do {
               (_, s) \<leftarrow> (if delayed_acks (rdp c) \<noteq> 0 then csp_rdp_check_ack nexthop conn s else Some (CSP_ERR_NONE, s));
               c \<leftarrow> get_conn conn s;
               (_, s) \<leftarrow> (if csp_rdp_is_conn_ready_for_tx c then csp_bin_sem_post conn s else Some (CSP_SEMAPHORE_OK, s));
               Some s
             }
             else Some s);
        csp_rdp_rx_queue_flush conn s
      })
   }"

section \<open>Received packets\<close>

datatype rdp_exit = Discard_Close u8 | Discard_Open bool | Accepted_Open

text \<open>
  A packet with the flag \<^verbatim>\<open>RDP_RST\<close>. The comparison with \<^verbatim>\<open>rcv_cur + 1\<close> is one of the type \<^verbatim>\<open>int\<close>, without
  wrap-around. \<^verbatim>\<open>CSP_USE_RDP_FAST_CLOSE\<close> has its default value 1.
\<close>

definition csp_rdp_recv_rst :: "nexthop_t \<Rightarrow> nat \<Rightarrow> rdp_header_t \<Rightarrow> node \<Rightarrow> rdp_exit csp" where
  "csp_rdp_recv_rst nexthop conn h s = do {
     s \<leftarrow> (if has_flag (h_flags h) RDP_ACK then upd_rdp conn (\<lambda>r. r\<lparr>snd_una := h_ack_nr h + 1\<rparr>) s else Some s);
     c \<leftarrow> get_conn conn s;
     (if rdp_state (rdp c) = RDP_CLOSED then Some (Discard_Open (dest_socket c \<noteq> None), s)
      else if rdp_state (rdp c) = RDP_CLOSE_WAIT
      then Some (Discard_Close (if has_flag (h_flags h) RDP_ACK then CSP_RDP_CLOSED_BY_PROTOCOL OR CSP_RDP_CLOSED_BY_TIMEOUT
                                else CSP_RDP_CLOSED_BY_PROTOCOL), s)
      else if unat (h_seq_nr h) = unat (rcv_cur (rdp c)) + 1 then do {
        s \<leftarrow> upd_conn conn (\<lambda>c. c\<lparr>rdp := (rdp c)\<lparr>rdp_state := RDP_CLOSE_WAIT\<rparr>, timestamp := now s\<rparr>) s;
        (_, s) \<leftarrow> csp_rdp_send_cmp nexthop conn None (RDP_ACK OR RDP_RST) (snd_nxt (rdp c)) (rcv_cur (rdp c)) s;
        Some (Discard_Close (CSP_RDP_CLOSED_BY_PROTOCOL OR CSP_RDP_CLOSED_BY_TIMEOUT), s)
      }
      else Some (Discard_Open False, s))
   }"

text \<open>The options of a SYN packet.\<close>

definition syn_option :: "nat \<Rightarrow> csp_packet_t \<Rightarrow> u32 option" where
  "syn_option i p = do { b \<leftarrow> data_read (4 * i) 4 p; Some (be32toh (le_to_word b)) }"

definition csp_rdp_recv_closed :: "nexthop_t \<Rightarrow> nat \<Rightarrow> nat \<Rightarrow> rdp_header_t \<Rightarrow> node \<Rightarrow> rdp_exit csp" where
  "csp_rdp_recv_closed nexthop conn packet h s = do {
     c \<leftarrow> get_conn conn s;
     (if \<not> has_flag (h_flags h) RDP_SYN then do {
        (_, s) \<leftarrow> csp_rdp_send_cmp nexthop conn None RDP_RST (snd_nxt (rdp c)) (rcv_cur (rdp c)) s;
        Some (Discard_Close CSP_RDP_CLOSED_BY_PROTOCOL, s)
      }
      else do {
        x \<leftarrow> get_packet packet s;
        let iss = (ucast (rand_r s (now s)) :: u16);
        o0 \<leftarrow> syn_option 0 x;
        o1 \<leftarrow> syn_option 1 x;
        o2 \<leftarrow> syn_option 2 x;
        o3 \<leftarrow> syn_option 3 x;
        o4 \<leftarrow> syn_option 4 x;
        o5 \<leftarrow> syn_option 5 x;
        s \<leftarrow> upd_rdp conn (\<lambda>r. r\<lparr>snd_iss := iss, snd_nxt := iss + 1, snd_una := iss,
               rcv_cur := h_seq_nr h, rcv_irs := h_seq_nr h, rcv_lsa := h_seq_nr h,
               window_size := o0, conn_timeout := o1, packet_timeout := o2, delayed_acks := o3,
               ack_timeout := o4, ack_delay_count := o5, rdp_state := RDP_SYN_RCVD\<rparr>) s;
        (_, s) \<leftarrow> csp_rdp_send_cmp nexthop conn None (RDP_ACK OR RDP_SYN) iss (h_seq_nr h) s;
        Some (Discard_Open False, s)
      })
   }"

definition csp_rdp_recv_syn_sent :: "nexthop_t \<Rightarrow> nat \<Rightarrow> rdp_header_t \<Rightarrow> node \<Rightarrow> rdp_exit csp" where
  "csp_rdp_recv_syn_sent nexthop conn h s = do {
     c \<leftarrow> get_conn conn s;
     (if has_flag (h_flags h) RDP_SYN \<and> has_flag (h_flags h) RDP_ACK then do {
        s \<leftarrow> upd_rdp conn (\<lambda>r. r\<lparr>rcv_cur := h_seq_nr h, rcv_irs := h_seq_nr h, rcv_lsa := h_seq_nr h - 1,
               snd_una := h_ack_nr h + 1, ack_timestamp := now s, rdp_state := RDP_OPEN\<rparr>) s;
        (_, s) \<leftarrow> csp_rdp_send_cmp nexthop conn None RDP_ACK (snd_nxt (rdp c)) (h_seq_nr h) s;
        (_, s) \<leftarrow> csp_bin_sem_post conn s;
        Some (Discard_Open False, s)
      }
      else if has_flag (h_flags h) RDP_ACK then do {
        (_, s) \<leftarrow> csp_rdp_send_cmp nexthop conn None RDP_RST (snd_nxt (rdp c)) (rcv_cur (rdp c)) s;
        (_, s) \<leftarrow> csp_bin_sem_post conn s;
        Some (Discard_Open False, s)
      }
      else Some (Discard_Close CSP_RDP_CLOSED_BY_PROTOCOL, s))
   }"

text \<open>The acknowledgement numbers that are accepted.\<close>

definition ack_valid :: "csp_rdp_t \<Rightarrow> u16 \<Rightarrow> bool" where
  "ack_valid r ack_nr = csp_rdp_seq_between ack_nr
     (ucast (ucast (snd_una r) - 1 - window_size r * 2)) (snd_nxt r - 1)"

text \<open>The change from SYN-RCVD to OPEN, with the new connection given to its socket; the result is the exit when there is one.\<close>

definition csp_rdp_recv_established :: "nat \<Rightarrow> rdp_header_t \<Rightarrow> node \<Rightarrow> rdp_exit option csp" where
  "csp_rdp_recv_established conn h s = do {
     c \<leftarrow> get_conn conn s;
     (if rdp_state (rdp c) = RDP_SYN_RCVD then
        if h_ack_nr h \<noteq> snd_iss (rdp c) then Some (Some (Discard_Close CSP_RDP_CLOSED_BY_PROTOCOL), s)
        else do {
          s \<leftarrow> upd_rdp conn (\<lambda>r. r\<lparr>rdp_state := RDP_OPEN\<rparr>) s;
          (case dest_socket c of
             None \<Rightarrow> Some (None, s)
           | Some k \<Rightarrow> do {
               sock \<leftarrow> get_socket k s;
               q \<leftarrow> s_rx_queue sock;
               (r, q) \<leftarrow> csp_queue_enqueue q (Sock_Conn conn) 0;
               let s = put_socket k (sock\<lparr>s_rx_queue := Some q\<rparr>) s;
               (if r = CSP_QUEUE_ERROR then Some (Some (Discard_Close CSP_RDP_CLOSED_BY_PROTOCOL), s)
                else do {
                  s \<leftarrow> upd_conn conn (\<lambda>c. c\<lparr>dest_socket := None\<rparr>) s;
                  Some (None, s)
                })
             })
        }
      else Some (None, s))
   }"

text \<open>The data of a packet with valid numbers.\<close>

definition csp_rdp_recv_data :: "nexthop_t \<Rightarrow> nat \<Rightarrow> nat \<Rightarrow> rdp_header_t \<Rightarrow> node \<Rightarrow> rdp_exit csp" where
  "csp_rdp_recv_data nexthop conn packet h s = do {
     s \<leftarrow> upd_rdp conn (\<lambda>r. r\<lparr>snd_una := h_ack_nr h + 1\<rparr>) s;
     x \<leftarrow> get_packet packet s;
     c \<leftarrow> get_conn conn s;
     (if has_flag (h_flags h) RDP_EAK then do {
        (_, s) \<leftarrow> (if unat (plen x) > RDP_HEADER_SIZE then csp_rdp_flush_eack conn packet s else Some ((), s));
        Some (Discard_Open False, s)
      }
      else if unat (plen x) \<le> RDP_HEADER_SIZE then Some (Discard_Open False, s)
      else if h_seq_nr h \<noteq> rcv_cur (rdp c) + 1 then do {
        (r, s) \<leftarrow> csp_rdp_rx_queue_add conn packet (h_seq_nr h) s;
        (if r \<noteq> 0 then do {
           (_, s) \<leftarrow> csp_rdp_check_ack nexthop conn s;
           Some (Discard_Open False, s)
         }
         else do {
           (_, s) \<leftarrow> csp_rdp_send_eack nexthop conn s;
           Some (Accepted_Open, s)
         })
      }
      else do {
        (r, s) \<leftarrow> csp_rdp_receive_data conn packet s;
        (if r \<noteq> CSP_ERR_NONE then Some (Discard_Open False, s)
         else do {
           s \<leftarrow> upd_rdp conn (\<lambda>r. r\<lparr>rcv_cur := h_seq_nr h\<rparr>) s;
           (_, s) \<leftarrow> csp_rdp_check_ack nexthop conn s;
           (_, s) \<leftarrow> csp_rdp_rx_queue_flush conn s;
           Some (Accepted_Open, s)
         })
      })
   }"

definition csp_rdp_recv_open :: "nexthop_t \<Rightarrow> nat \<Rightarrow> nat \<Rightarrow> rdp_header_t \<Rightarrow> node \<Rightarrow> rdp_exit csp" where
  "csp_rdp_recv_open nexthop conn packet h s = do {
     c \<leftarrow> get_conn conn s;
     (if has_flag (h_flags h) RDP_SYN \<or> \<not> has_flag (h_flags h) RDP_ACK then
        if h_seq_nr h \<noteq> rcv_irs (rdp c) then Some (Discard_Close CSP_RDP_CLOSED_BY_PROTOCOL, s)
        else Some (Discard_Open False, s)
      else if \<not> csp_rdp_seq_between (h_seq_nr h) (rcv_cur (rdp c) + 1)
                  (ucast (ucast (rcv_cur (rdp c)) + window_size (rdp c) * 2)) then do {
        (_, s) \<leftarrow> (if rdp_state (rdp c) = RDP_SYN_RCVD
                  then csp_rdp_send_cmp nexthop conn None (RDP_ACK OR RDP_SYN) (snd_iss (rdp c)) (rcv_irs (rdp c)) s
                  else Some (CSP_ERR_NONE, s));
        (_, s) \<leftarrow> (if rdp_state (rdp c) = RDP_OPEN then csp_rdp_send_eack nexthop conn s else Some (CSP_ERR_NONE, s));
        Some (Discard_Open False, s)
      }
      else if \<not> ack_valid (rdp c) (h_ack_nr h) then Some (Discard_Open False, s)
      else do {
        (e, s) \<leftarrow> csp_rdp_recv_established conn h s;
        (case e of
           Some e \<Rightarrow> Some (e, s)
         | None \<Rightarrow> csp_rdp_recv_data nexthop conn packet h s)
      })
   }"

definition csp_rdp_recv_close_wait :: "nexthop_t \<Rightarrow> nat \<Rightarrow> rdp_header_t \<Rightarrow> node \<Rightarrow> rdp_exit csp" where
  "csp_rdp_recv_close_wait nexthop conn h s = do {
     c \<leftarrow> get_conn conn s;
     (if has_flag (h_flags h) RDP_SYN \<or> \<not> has_flag (h_flags h) RDP_ACK then Some (Discard_Open False, s)
      else if \<not> ack_valid (rdp c) (h_ack_nr h) then Some (Discard_Open False, s)
      else do {
        s \<leftarrow> upd_rdp conn (\<lambda>r. r\<lparr>snd_una := h_ack_nr h + 1\<rparr>) s;
        (_, s) \<leftarrow> csp_rdp_send_cmp nexthop conn None (RDP_ACK OR RDP_RST) (snd_nxt (rdp c)) (rcv_cur (rdp c)) s;
        Some (Discard_Open False, s)
      })
   }"

text \<open>The state machine, and what happens at its exits.\<close>

definition csp_rdp_switch :: "nexthop_t \<Rightarrow> nat \<Rightarrow> nat \<Rightarrow> rdp_header_t \<Rightarrow> node \<Rightarrow> rdp_exit csp" where
  "csp_rdp_switch nexthop conn packet h s =
     (if has_flag (h_flags h) RDP_RST then csp_rdp_recv_rst nexthop conn h s
      else do {
        c \<leftarrow> get_conn conn s;
        (case rdp_state (rdp c) of
           RDP_CLOSED \<Rightarrow> csp_rdp_recv_closed nexthop conn packet h s
         | RDP_SYN_SENT \<Rightarrow> csp_rdp_recv_syn_sent nexthop conn h s
         | RDP_SYN_RCVD \<Rightarrow> csp_rdp_recv_open nexthop conn packet h s
         | RDP_OPEN \<Rightarrow> csp_rdp_recv_open nexthop conn packet h s
         | RDP_CLOSE_WAIT \<Rightarrow> csp_rdp_recv_close_wait nexthop conn h s)
      })"

definition csp_rdp_leave :: "nexthop_t \<Rightarrow> nat \<Rightarrow> nat \<Rightarrow> rdp_exit \<Rightarrow> node \<Rightarrow> bool csp" where
  "csp_rdp_leave nexthop conn packet e s =
     (case e of
        Discard_Close closedby \<Rightarrow> do {
          c \<leftarrow> get_conn conn s;
          s \<leftarrow> (if dest_socket c = None then do {
                 (_, s) \<leftarrow> csp_conn_close nexthop (Some conn) closedby s;
                 (_, s) \<leftarrow> csp_conn_enqueue_packet (Some conn) None s;
                 Some s
               }
               else do {
                 (_, s) \<leftarrow> csp_conn_close nexthop (Some conn) (closedby OR CSP_RDP_CLOSED_BY_USERSPACE) s;
                 Some s
               });
          (_, s) \<leftarrow> csp_buffer_free (Some packet) s;
          Some (False, s)
        }
      | Discard_Open close_connection \<Rightarrow> do {
          (_, s) \<leftarrow> csp_buffer_free (Some packet) s;
          Some (close_connection, s)
        }
      | Accepted_Open \<Rightarrow> Some (False, s))"

definition csp_rdp_new_packet :: "nexthop_t \<Rightarrow> nat \<Rightarrow> nat \<Rightarrow> node \<Rightarrow> bool csp" where
  "csp_rdp_new_packet nexthop conn packet s = do {
     x \<leftarrow> get_packet packet s;
     h \<leftarrow> header_get (csp_rdp_header_ref x) x;
     let h = h\<lparr>h_ack_nr := be16toh (h_ack_nr h), h_seq_nr := be16toh (h_seq_nr h)\<rparr>;
     x \<leftarrow> header_put (csp_rdp_header_ref x) h x;
     let s = put_packet packet x s;
     (e, s) \<leftarrow> csp_rdp_switch nexthop conn packet h s;
     csp_rdp_leave nexthop conn packet e s
   }"

section \<open>Connecting and sending\<close>

text \<open>
  One attempt: the state of the connection after the wait for the answer, or \<open>RDP_CLOSED\<close> when the SYN could not be
  sent or nobody posted the semaphore. \<open>others\<close> is what the other tasks do during the wait.
\<close>

definition csp_rdp_connect_attempt :: "nexthop_t \<Rightarrow> (node \<Rightarrow> node) \<Rightarrow> nat \<Rightarrow> node \<Rightarrow> csp_rdp_state_t csp" where
  "csp_rdp_connect_attempt nexthop others conn s = do {
     let iss = (ucast (rand_r s (now s)) :: u16);
     s \<leftarrow> upd_rdp conn (\<lambda>r. r\<lparr>snd_iss := iss, snd_nxt := iss + 1, snd_una := iss\<rparr>) s;
     (_, s) \<leftarrow> csp_bin_sem_wait (\<lambda>s. s) conn 0 s;
     s \<leftarrow> upd_rdp conn (\<lambda>r. r\<lparr>rdp_state := RDP_SYN_SENT\<rparr>) s;
     (r, s) \<leftarrow> csp_rdp_send_syn nexthop conn s;
     (if r \<noteq> CSP_ERR_NONE then Some (RDP_CLOSED, s)
      else do {
        c \<leftarrow> get_conn conn s;
        (result, s) \<leftarrow> csp_bin_sem_wait others conn (conn_timeout (rdp c)) s;
        c \<leftarrow> get_conn conn s;
        Some (if result = CSP_SEMAPHORE_OK then rdp_state (rdp c) else RDP_CLOSED, s)
      })
   }"

text \<open>\<open>retry\<close> is the number of attempts left after this one.\<close>

primrec csp_rdp_connect_loop :: "nat \<Rightarrow> nexthop_t \<Rightarrow> (nat \<Rightarrow> node \<Rightarrow> node) \<Rightarrow> nat \<Rightarrow> node \<Rightarrow> int csp" where
  "csp_rdp_connect_loop 0 nexthop others conn s = do {
     c \<leftarrow> get_conn conn s;
     (if rdp_state (rdp c) = RDP_OPEN then Some (CSP_ERR_ALREADY, s)
      else do {
        (next, s) \<leftarrow> csp_rdp_connect_attempt nexthop (others 0) conn s;
        (if next = RDP_OPEN then Some (CSP_ERR_NONE, s)
         else do {
           (_, s) \<leftarrow> csp_rdp_close_internal nexthop conn CSP_RDP_CLOSED_BY_PROTOCOL False s;
           Some (CSP_ERR_TIMEDOUT, s)
         })
      })
   }"
| "csp_rdp_connect_loop (Suc retry) nexthop others conn s = do {
     c \<leftarrow> get_conn conn s;
     (if rdp_state (rdp c) = RDP_OPEN then Some (CSP_ERR_ALREADY, s)
      else do {
        (next, s) \<leftarrow> csp_rdp_connect_attempt nexthop (others (Suc retry)) conn s;
        (if next = RDP_OPEN then Some (CSP_ERR_NONE, s)
         else if next = RDP_SYN_SENT then do {
           (_, s) \<leftarrow> csp_rdp_queue_flush (Some conn) s;
           csp_rdp_connect_loop retry nexthop others conn s
         }
         else do {
           (_, s) \<leftarrow> csp_rdp_close_internal nexthop conn CSP_RDP_CLOSED_BY_PROTOCOL False s;
           Some (CSP_ERR_TIMEDOUT, s)
         })
      })
   }"

definition csp_rdp_connect :: "nexthop_t \<Rightarrow> (nat \<Rightarrow> node \<Rightarrow> node) \<Rightarrow> nat \<Rightarrow> node \<Rightarrow> int csp" where
  "csp_rdp_connect nexthop others conn s = do {
     s \<leftarrow> upd_rdp conn (\<lambda>r. r\<lparr>window_size := csp_rdp_window_size s, conn_timeout := csp_rdp_conn_timeout s,
            packet_timeout := csp_rdp_packet_timeout s, delayed_acks := csp_rdp_delayed_acks s,
            ack_timeout := csp_rdp_ack_timeout s, ack_delay_count := csp_rdp_ack_delay_count s,
            ack_timestamp := now s\<rparr>) s;
     csp_rdp_connect_loop 1 nexthop others conn s
   }"

text \<open>The loop of \<^verbatim>\<open>csp_rdp_send\<close> that waits for the window; \<open>others k\<close> is what the other tasks do during the wait number \<open>k\<close>.\<close>

partial_function (option) csp_rdp_send_wait :: "(nat \<Rightarrow> node \<Rightarrow> node) \<Rightarrow> nat \<Rightarrow> nat \<Rightarrow> node \<Rightarrow> int csp" where
  "csp_rdp_send_wait others k conn s = do {
     c \<leftarrow> get_conn conn s;
     (if rdp_state (rdp c) = RDP_OPEN \<and> \<not> csp_rdp_is_conn_ready_for_tx c then do {
        r \<leftarrow> csp_bin_sem_wait (others k) conn (conn_timeout (rdp c)) s;
        (if fst r \<noteq> CSP_SEMAPHORE_OK then Some (CSP_ERR_TIMEDOUT, snd r)
         else csp_rdp_send_wait others (Suc k) conn (snd r))
      }
      else Some (CSP_ERR_NONE, s))
   }"

definition csp_rdp_send :: "(nat \<Rightarrow> node \<Rightarrow> node) \<Rightarrow> nat \<Rightarrow> nat \<Rightarrow> node \<Rightarrow> int csp" where
  "csp_rdp_send others conn packet s = do {
     c \<leftarrow> get_conn conn s;
     (if rdp_state (rdp c) \<noteq> RDP_OPEN then Some (CSP_ERR_RESET, s)
      else do {
        (r, s) \<leftarrow> csp_rdp_send_wait others 0 conn s;
        (if r \<noteq> CSP_ERR_NONE then Some (r, s)
         else do {
           c \<leftarrow> get_conn conn s;
           (if rdp_state (rdp c) \<noteq> RDP_OPEN then Some (CSP_ERR_RESET, s)
            else do {
              x \<leftarrow> get_packet packet s;
              (header, x) \<leftarrow> csp_rdp_header_add x;
              (case header of
                 None \<Rightarrow> Some (CSP_ERR_NOMEM, s)
               | Some off \<Rightarrow> do {
                   x \<leftarrow> header_put off \<lparr>h_flags = RDP_ACK, h_seq_nr = htobe16 (snd_nxt (rdp c)),
                     h_ack_nr = htobe16 (rcv_cur (rdp c))\<rparr> x;
                   let s = put_packet packet x s;
                   (copy, s) \<leftarrow> csp_buffer_clone (Some packet) s;
                   (case copy of
                      None \<Rightarrow> Some (CSP_ERR_NOMEM, s)
                    | Some p \<Rightarrow> do {
                        y \<leftarrow> get_packet p s;
                        (_, s) \<leftarrow> csp_rdp_queue_tx_add conn p
                          (put_packet p (y\<lparr>timestamp_tx := now s, rdp_quarantine := 0\<rparr>) s);
                        s \<leftarrow> upd_rdp conn (\<lambda>r. r\<lparr>snd_nxt := snd_nxt r + 1\<rparr>) s;
                        Some (CSP_ERR_NONE, s)
                      })
                 })
            })
         })
      })
   }"

section \<open>The connection layer above\<close>

definition csp_conn_check_timeout :: "nexthop_t \<Rightarrow> nat \<Rightarrow> node \<Rightarrow> unit csp" where
  "csp_conn_check_timeout nexthop i s = do {
     c \<leftarrow> get_conn i s;
     (if c_state c = CONN_OPEN \<and> has_flag (flags (idin c)) CSP_FRDP then csp_rdp_check_timeouts nexthop i s
      else Some ((), s))
   }"

primrec csp_conn_check_timeouts_loop :: "nat list \<Rightarrow> nexthop_t \<Rightarrow> node \<Rightarrow> unit csp" where
  "csp_conn_check_timeouts_loop [] nexthop s = Some ((), s)"
| "csp_conn_check_timeouts_loop (i # is) nexthop s = do {
     (_, s) \<leftarrow> csp_conn_check_timeout nexthop i s;
     csp_conn_check_timeouts_loop is nexthop s
   }"

definition csp_conn_check_timeouts :: "nexthop_t \<Rightarrow> node \<Rightarrow> unit csp" where
  "csp_conn_check_timeouts nexthop s = csp_conn_check_timeouts_loop [0..<CSP_CONN_MAX] nexthop s"

text \<open>
  The ports the identifiers are not given here are written to the connection below; until then their value in C is
  indeterminate, here 0.
\<close>

definition csp_connect ::
  "nexthop_t \<Rightarrow> (nat \<Rightarrow> node \<Rightarrow> node) \<Rightarrow> u8 \<Rightarrow> u16 \<Rightarrow> u8 \<Rightarrow> u32 \<Rightarrow> u32 \<Rightarrow> node \<Rightarrow> nat option csp" where
  "csp_connect nexthop others prio dest port timeout opts s = do {
     let opts = opts OR conn_dfl_so (csp_conf s);
     let opts = (if has_flag opts CSP_O_NOCRC32 then opts AND NOT CSP_O_CRC32 else opts);
     let fl = (if has_flag opts CSP_O_RDP then CSP_FRDP else 0) OR (if has_flag opts CSP_O_HMAC then CSP_FHMAC else 0) OR
              (if has_flag opts CSP_O_CRC32 then CSP_FCRC32 else 0);
     let incoming_id = \<lparr>pri = prio, flags = fl, src = dest, dst = 0, dport = 0, sport = port\<rparr>;
     let outgoing_id = \<lparr>pri = prio, flags = fl, src = 0, dst = dest, dport = port, sport = 0\<rparr>;
     (conn, s) \<leftarrow> csp_conn_new incoming_id outgoing_id CONN_CLIENT s;
     (case conn of
        None \<Rightarrow> Some (None, s)
      | Some n \<Rightarrow> do {
          s \<leftarrow> upd_conn n (\<lambda>c. c\<lparr>idout := (idout c)\<lparr>sport := sport_outgoing c\<rparr>,
                 idin := (idin c)\<lparr>dport := sport_outgoing c\<rparr>, dest_socket := None, c_opts := opts\<rparr>) s;
          (if has_flag fl CSP_FRDP then do {
             (r, s) \<leftarrow> csp_rdp_connect nexthop others n s;
             (if r \<noteq> CSP_ERR_NONE then do {
                (_, s) \<leftarrow> csp_close nexthop (Some n) s;
                Some (None, s)
              }
              else Some (Some n, s))
           }
           else Some (Some n, s))
        })
   }"

section \<open>The state machine\<close>

text \<open>
  The changes of state that a received header allows. The numbers are in host byte order.
\<close>

inductive rdp_step :: "rdp_header_t \<Rightarrow> csp_rdp_t \<Rightarrow> csp_rdp_state_t \<Rightarrow> bool" for h r where
  stay: "rdp_step h r (rdp_state r)"
| reset: "has_flag (h_flags h) RDP_RST \<Longrightarrow> rdp_state r \<in> {RDP_SYN_SENT, RDP_SYN_RCVD, RDP_OPEN} \<Longrightarrow>
    unat (h_seq_nr h) = unat (rcv_cur r) + 1 \<Longrightarrow> rdp_step h r RDP_CLOSE_WAIT"
| passive_open: "\<not> has_flag (h_flags h) RDP_RST \<Longrightarrow> has_flag (h_flags h) RDP_SYN \<Longrightarrow> rdp_state r = RDP_CLOSED \<Longrightarrow>
    rdp_step h r RDP_SYN_RCVD"
| active_open: "\<not> has_flag (h_flags h) RDP_RST \<Longrightarrow> has_flag (h_flags h) RDP_SYN \<Longrightarrow> has_flag (h_flags h) RDP_ACK \<Longrightarrow>
    rdp_state r = RDP_SYN_SENT \<Longrightarrow> rdp_step h r RDP_OPEN"
| established: "\<not> has_flag (h_flags h) RDP_RST \<Longrightarrow> \<not> has_flag (h_flags h) RDP_SYN \<Longrightarrow> has_flag (h_flags h) RDP_ACK \<Longrightarrow>
    rdp_state r = RDP_SYN_RCVD \<Longrightarrow> h_ack_nr h = snd_iss r \<Longrightarrow> rdp_step h r RDP_OPEN"

inductive_simps rdp_step_open: "rdp_step h r RDP_OPEN"
inductive_simps rdp_step_close_wait: "rdp_step h r RDP_CLOSE_WAIT"

text \<open>The state of a connection after an operation.\<close>

definition state_at :: "nat \<Rightarrow> node \<Rightarrow> csp_rdp_state_t" where
  "state_at n s = rdp_state (rdp (arr_conn s ! n))"

lemma quiet_state:
  assumes "quiet s s'" "n < length (arr_conn s)"
  shows "state_at n s' = state_at n s \<and> n < length (arr_conn s')"
  unfolding state_at_def quiet_length [OF assms(1)]
  using conn_core_fields(1) [OF quiet_core [OF assms]] assms(2) by (rule conjI)

lemma conns_state:
  "conn_frame s' = conn_frame s \<Longrightarrow> n < length (arr_conn s) \<Longrightarrow> state_at n s' = state_at n s \<and> n < length (arr_conn s')"
  by (rule quiet_state [OF quiet_conn_frame])

lemma upd_state:
  assumes "upd_rdp n f s = Some s'" "n < length (arr_conn s)"
  shows "state_at n s' = rdp_state (f (rdp (arr_conn s ! n)))" "n < length (arr_conn s')"
  using assms by (auto simp: upd_rdp_eq state_at_def)

lemma post_state:
  assumes "csp_bin_sem_post n s = Some (r, s')" "n < length (arr_conn s)"
  shows "state_at n s' = state_at n s" "n < length (arr_conn s')"
  using assms by (auto simp: sem_post_eq state_at_def)

context nexthop_frame
begin

lemma recv_rst_step:
  assumes "csp_rdp_recv_rst nexthop n h s = Some (e, s')" "n < length (arr_conn s)" "has_flag (h_flags h) RDP_RST"
  shows "rdp_step h (rdp (arr_conn s ! n)) (state_at n s')"
proof -
  let ?r = "rdp (arr_conn s ! n)"
  from assms(1) obtain s1 where s1: "(if has_flag (h_flags h) RDP_ACK then upd_rdp n (\<lambda>r. r\<lparr>snd_una := h_ack_nr h + 1\<rparr>) s
      else Some s) = Some s1" by (auto simp: csp_rdp_recv_rst_def bind_Some_iff)
  have st1: "state_at n s1 = rdp_state ?r" "n < length (arr_conn s1)" "rcv_cur (rdp (arr_conn s1 ! n)) = rcv_cur ?r"
    using s1 assms(2) by (auto simp: upd_rdp_eq state_at_def split: if_splits)
  show ?thesis
  proof (cases "rdp_state ?r = RDP_CLOSED \<or> rdp_state ?r = RDP_CLOSE_WAIT \<or> unat (h_seq_nr h) \<noteq> unat (rcv_cur ?r) + 1")
    case True
    then have "s' = s1" using assms(1) s1 st1
      by (auto simp: csp_rdp_recv_rst_def get_conn_eq state_at_def split: if_splits)
    then show ?thesis using st1(1) rdp_step.stay [of h ?r] by simp
  next
    case False
    then obtain s2 where s2: "csp_rdp_send_cmp nexthop n None (RDP_ACK OR RDP_RST) (snd_nxt (rdp (arr_conn s1 ! n)))
        (rcv_cur (rdp (arr_conn s1 ! n)))
        (put_conn n ((arr_conn s1 ! n)\<lparr>rdp := (rdp (arr_conn s1 ! n))\<lparr>rdp_state := RDP_CLOSE_WAIT\<rparr>, timestamp := now s1\<rparr>) s1) = Some s2"
      "s' = snd s2" using assms(1) s1 st1
      by (auto simp: csp_rdp_recv_rst_def get_conn_eq state_at_def upd_conn_eq bind_Some_iff split: if_splits)
    then have "state_at n s' = RDP_CLOSE_WAIT"
      using quiet_state [OF send_cmp_quiet, of n None "RDP_ACK OR RDP_RST"] st1(2) by (cases s2) (fastforce simp: state_at_def)
    moreover have "rdp_state ?r \<in> {RDP_SYN_SENT, RDP_SYN_RCVD, RDP_OPEN}" using False by (cases "rdp_state ?r") auto
    ultimately show ?thesis using rdp_step.reset [of h ?r] False assms(3) by simp
  qed
qed

lemma recv_closed_step:
  assumes "csp_rdp_recv_closed nexthop n p h s = Some (e, s')" "n < length (arr_conn s)" "state_at n s = RDP_CLOSED"
    "\<not> has_flag (h_flags h) RDP_RST"
  shows "rdp_step h (rdp (arr_conn s ! n)) (state_at n s')"
proof (cases "has_flag (h_flags h) RDP_SYN")
  case False
  then obtain r where "csp_rdp_send_cmp nexthop n None RDP_RST (snd_nxt (rdp (arr_conn s ! n))) (rcv_cur (rdp (arr_conn s ! n))) s = Some (r, s')"
    using assms(1,2) by (auto simp: csp_rdp_recv_closed_def get_conn_eq bind_Some_iff)
  then have "state_at n s' = rdp_state (rdp (arr_conn s ! n))"
    using quiet_state [OF send_cmp_quiet] assms(2) by (fastforce simp: state_at_def)
  then show ?thesis using rdp_step.stay [of h "rdp (arr_conn s ! n)"] by simp
next
  case True
  then obtain f s1 r sq ak where s1: "upd_rdp n f s = Some s1" "\<And>r. rdp_state (f r) = RDP_SYN_RCVD"
    "csp_rdp_send_cmp nexthop n None (RDP_ACK OR RDP_SYN) sq ak s1 = Some (r, s')"
    using assms(1,2) by (auto simp: csp_rdp_recv_closed_def get_conn_eq bind_Some_iff Let_def simp del: RDP_ACK_def RDP_SYN_def)
  have "state_at n s' = RDP_SYN_RCVD"
    using quiet_state [OF send_cmp_quiet [OF s1(3)]] upd_state [OF s1(1) assms(2)] s1(2) by simp
  then show ?thesis using rdp_step.passive_open [of h "rdp (arr_conn s ! n)"] True assms(3,4) by (simp add: state_at_def)
qed

lemma recv_syn_sent_step:
  assumes "csp_rdp_recv_syn_sent nexthop n h s = Some (e, s')" "n < length (arr_conn s)" "state_at n s = RDP_SYN_SENT"
    "\<not> has_flag (h_flags h) RDP_RST"
  shows "rdp_step h (rdp (arr_conn s ! n)) (state_at n s')"
proof (cases "has_flag (h_flags h) RDP_SYN \<and> has_flag (h_flags h) RDP_ACK")
  case True
  then obtain f s1 s2 r1 r2 sq ak where s1: "upd_rdp n f s = Some s1" "\<And>r. rdp_state (f r) = RDP_OPEN"
    "csp_rdp_send_cmp nexthop n None RDP_ACK sq ak s1 = Some (r1, s2)" "csp_bin_sem_post n s2 = Some (r2, s')"
    using assms(1,2) by (auto simp: csp_rdp_recv_syn_sent_def get_conn_eq bind_Some_iff simp del: RDP_ACK_def RDP_SYN_def)
  have "state_at n s2 = RDP_OPEN \<and> n < length (arr_conn s2)"
    using quiet_state [OF send_cmp_quiet [OF s1(3)]] upd_state [OF s1(1) assms(2)] s1(2) by simp
  then show ?thesis using post_state [OF s1(4)] rdp_step.active_open [of h "rdp (arr_conn s ! n)"] True assms(3,4) by (simp add: state_at_def)
next
  case False
  have "state_at n s' = rdp_state (rdp (arr_conn s ! n))"
  proof (cases "has_flag (h_flags h) RDP_ACK")
    case True
    with False obtain s2 r1 r2 sq ak where s1: "csp_rdp_send_cmp nexthop n None RDP_RST sq ak s = Some (r1, s2)"
      "csp_bin_sem_post n s2 = Some (r2, s')"
      using assms(1,2) by (auto simp: csp_rdp_recv_syn_sent_def get_conn_eq bind_Some_iff simp del: RDP_ACK_def RDP_SYN_def)
    show ?thesis using quiet_state [OF send_cmp_quiet [OF s1(1)] assms(2)] post_state [OF s1(2)] by (simp add: state_at_def)
  next
    case nack: False
    then show ?thesis using assms(1,2) False by (simp add: csp_rdp_recv_syn_sent_def get_conn_eq state_at_def)
  qed
  then show ?thesis using rdp_step.stay [of h "rdp (arr_conn s ! n)"] by simp
qed

lemma recv_close_wait_state:
  assumes "csp_rdp_recv_close_wait nexthop n h s = Some (e, s')" "n < length (arr_conn s)"
  shows "state_at n s' = state_at n s"
proof -
  from assms have "s' = s \<or> (\<exists>s1 fl sq ak r. upd_rdp n (\<lambda>r. r\<lparr>snd_una := h_ack_nr h + 1\<rparr>) s = Some s1 \<and>
      csp_rdp_send_cmp nexthop n None fl sq ak s1 = Some (r, s'))"
    by (auto simp: csp_rdp_recv_close_wait_def get_conn_eq bind_Some_iff split: if_splits)
  then show ?thesis
  proof (elim disjE exE conjE)
    fix s1 fl sq ak r
    assume u: "upd_rdp n (\<lambda>r. r\<lparr>snd_una := h_ack_nr h + 1\<rparr>) s = Some s1" "csp_rdp_send_cmp nexthop n None fl sq ak s1 = Some (r, s')"
    show ?thesis using quiet_state [OF send_cmp_quiet [OF u(2)]] upd_state [OF u(1) assms(2)] by (simp add: state_at_def)
  qed simp
qed

lemma recv_established_state:
  assumes "csp_rdp_recv_established n h s = Some (e, s')" "n < length (arr_conn s)"
  shows "n < length (arr_conn s') \<and> (state_at n s' = state_at n s \<or>
    state_at n s = RDP_SYN_RCVD \<and> h_ack_nr h = snd_iss (rdp (arr_conn s ! n)) \<and> state_at n s' = RDP_OPEN)"
proof (cases "rdp_state (rdp (arr_conn s ! n)) = RDP_SYN_RCVD \<and> h_ack_nr h = snd_iss (rdp (arr_conn s ! n))")
  case False
  then show ?thesis using assms by (auto simp: csp_rdp_recv_established_def get_conn_eq split: if_splits)
next
  case True
  let ?c = "(arr_conn s ! n)\<lparr>rdp := (rdp (arr_conn s ! n))\<lparr>rdp_state := RDP_OPEN\<rparr>\<rparr>"
  have "arr_conn s' = (arr_conn s)[n := ?c] \<or> arr_conn s' = (arr_conn s)[n := ?c\<lparr>dest_socket := None\<rparr>]"
    using assms True
    by (auto simp: csp_rdp_recv_established_def get_conn_eq upd_rdp_eq upd_conn_eq bind_Some_iff put_socket_def Let_def
        split: if_splits option.splits)
  then show ?thesis using assms(2) True by (auto simp: state_at_def)
qed

lemma recv_data_state:
  assumes "csp_rdp_recv_data nexthop n p h s = Some (e, s')" "n < length (arr_conn s)"
  shows "state_at n s' = state_at n s"
proof -
  from assms(1) obtain s1 x where s1: "upd_rdp n (\<lambda>r. r\<lparr>snd_una := h_ack_nr h + 1\<rparr>) s = Some s1" "get_packet p s1 = Some x"
    by (auto simp: csp_rdp_recv_data_def bind_Some_iff)
  have st: "state_at n s1 = state_at n s" "n < length (arr_conn s1)" using upd_state [OF s1(1) assms(2)] by (simp_all add: state_at_def)
  let ?c = "arr_conn s1 ! n"
  consider (eak) "has_flag (h_flags h) RDP_EAK" | (short) "\<not> has_flag (h_flags h) RDP_EAK" "unat (plen x) \<le> RDP_HEADER_SIZE"
    | (early) "\<not> has_flag (h_flags h) RDP_EAK" "\<not> unat (plen x) \<le> RDP_HEADER_SIZE" "h_seq_nr h \<noteq> rcv_cur (rdp ?c) + 1"
    | (inorder) "\<not> has_flag (h_flags h) RDP_EAK" "\<not> unat (plen x) \<le> RDP_HEADER_SIZE" "h_seq_nr h = rcv_cur (rdp ?c) + 1" by blast
  then show ?thesis
  proof cases
    case eak
    then have "s' = s1 \<or> csp_rdp_flush_eack n p s1 = Some ((), s')"
      using assms(1) s1 st(2) by (auto simp: csp_rdp_recv_data_def get_conn_eq bind_Some_iff split: if_splits)
    then show ?thesis using st conns_state [OF flush_eack_conns, of "csp_rdp_queue_tx_size s1" n p s1 "()" s'] by (auto simp: csp_rdp_flush_eack_def)
  next
    case short
    then show ?thesis using assms(1) s1 st by (simp add: csp_rdp_recv_data_def get_conn_eq)
  next
    case early
    then obtain r s2 where s2: "csp_rdp_rx_queue_add n p (h_seq_nr h) s1 = Some (r, s2)"
      "(\<exists>r. csp_rdp_check_ack nexthop n s2 = Some (r, s')) \<or> (\<exists>r. csp_rdp_send_eack nexthop n s2 = Some (r, s'))"
      using assms(1) s1 st(2) by (auto simp: csp_rdp_recv_data_def get_conn_eq bind_Some_iff split: if_splits)
    have "quiet s2 s'" using s2(2) check_ack_quiet send_eack_quiet by blast
    then show ?thesis using quiet_state [of s2 s' n] conns_state [OF rx_queue_add_conns [OF s2(1)] st(2)] st by simp
  next
    case inorder
    then obtain r s2 where s2: "csp_rdp_receive_data n p s1 = Some (r, s2)" "s' = s2 \<or> (\<exists>s3 s4 r u.
        upd_rdp n (\<lambda>r. r\<lparr>rcv_cur := h_seq_nr h\<rparr>) s2 = Some s3 \<and> csp_rdp_check_ack nexthop n s3 = Some (r, s4) \<and>
        csp_rdp_rx_queue_flush n s4 = Some (u, s'))"
      using assms(1) s1 st(2) by (auto simp: csp_rdp_recv_data_def get_conn_eq bind_Some_iff split: if_splits)
    note st2 = quiet_state [OF receive_data_quiet [OF s2(1)] st(2)]
    from s2(2) show ?thesis
    proof (elim disjE exE conjE)
      fix s3 s4 r u
      assume a: "upd_rdp n (\<lambda>r. r\<lparr>rcv_cur := h_seq_nr h\<rparr>) s2 = Some s3" "csp_rdp_check_ack nexthop n s3 = Some (r, s4)"
        "csp_rdp_rx_queue_flush n s4 = Some (u, s')"
      have st3: "state_at n s3 = state_at n s2" "n < length (arr_conn s3)" using upd_state [OF a(1)] st2 by (simp_all add: state_at_def)
      have "quiet s3 s'" using quiet_trans [OF check_ack_quiet [OF a(2)] rx_queue_flush_quiet [OF a(3)]] by simp
      then show ?thesis using quiet_state [of s3 s' n] st3 st2 st by simp
    qed (use st st2 in simp)
  qed
qed

lemma recv_open_step:
  assumes "csp_rdp_recv_open nexthop n p h s = Some (e, s')" "n < length (arr_conn s)" "\<not> has_flag (h_flags h) RDP_RST"
  shows "rdp_step h (rdp (arr_conn s ! n)) (state_at n s')"
proof -
  let ?r = "rdp (arr_conn s ! n)"
  have stay: "rdp_step h ?r (state_at n s')" if "state_at n s' = state_at n s" using that rdp_step.stay [of h ?r] by (simp add: state_at_def)
  let ?bad = "has_flag (h_flags h) RDP_SYN \<or> \<not> has_flag (h_flags h) RDP_ACK"
  let ?win = "csp_rdp_seq_between (h_seq_nr h) (rcv_cur ?r + 1) (ucast (ucast (rcv_cur ?r) + window_size ?r * 2))"
  consider (bad) ?bad | (dup) "\<not> ?bad" "\<not> ?win" | (nack) "\<not> ?bad" "?win" "\<not> ack_valid ?r (h_ack_nr h)"
    | (ok) "\<not> ?bad" "?win" "ack_valid ?r (h_ack_nr h)" by blast
  then show ?thesis
  proof cases
    case bad
    then show ?thesis using assms(1,2) stay by (auto simp: csp_rdp_recv_open_def get_conn_eq split: if_splits)
  next
    case dup
    have "quiet s s'"
    proof (cases "rdp_state ?r = RDP_SYN_RCVD")
      case True
      then have "\<exists>r fl sq ak. csp_rdp_send_cmp nexthop n None fl sq ak s = Some (r, s')"
        using dup assms(1,2) by (fastforce simp: csp_rdp_recv_open_def get_conn_eq bind_Some_iff simp del: RDP_ACK_def RDP_SYN_def)
      then show ?thesis using send_cmp_quiet by blast
    next
      case False
      then have "s' = s \<or> (\<exists>r. csp_rdp_send_eack nexthop n s = Some (r, s'))"
        using dup assms(1,2) by (auto simp: csp_rdp_recv_open_def get_conn_eq bind_Some_iff split: if_splits)
      then show ?thesis using send_eack_quiet quiet_refl by blast
    qed
    then show ?thesis using stay quiet_state assms(2) by blast
  next
    case nack
    then show ?thesis using assms(1,2) stay by (simp add: csp_rdp_recv_open_def get_conn_eq)
  next
    case ok
    then obtain x s1 where x: "csp_rdp_recv_established n h s = Some (x, s1)"
      "s' = s1 \<or> csp_rdp_recv_data nexthop n p h s1 = Some (e, s')"
      using assms(1,2) by (auto simp: csp_rdp_recv_open_def get_conn_eq bind_Some_iff split: option.splits)
    note st = recv_established_state [OF x(1) assms(2)]
    then have "state_at n s' = state_at n s1" using x(2) recv_data_state [of n p h s1 e s'] by auto
    then show ?thesis using st stay rdp_step.established [of h ?r] ok assms(3) by (auto simp: state_at_def)
  qed
qed

lemma switch_step:
  assumes "csp_rdp_switch nexthop n p h s = Some (e, s')" "n < length (arr_conn s)"
  shows "rdp_step h (rdp (arr_conn s ! n)) (state_at n s')"
proof (cases "has_flag (h_flags h) RDP_RST")
  case True
  then show ?thesis using assms recv_rst_step by (simp add: csp_rdp_switch_def)
next
  case False
  show ?thesis
  proof (cases "state_at n s")
    case RDP_CLOSED
    then show ?thesis using recv_closed_step [of n p h s e s'] assms False by (simp add: csp_rdp_switch_def get_conn_eq state_at_def)
  next
    case RDP_SYN_SENT
    then show ?thesis using recv_syn_sent_step [of n h s e s'] assms False by (simp add: csp_rdp_switch_def get_conn_eq state_at_def)
  next
    case RDP_SYN_RCVD
    then show ?thesis using recv_open_step [of n p h s e s'] assms False by (simp add: csp_rdp_switch_def get_conn_eq state_at_def)
  next
    case RDP_OPEN
    then show ?thesis using recv_open_step [of n p h s e s'] assms False by (simp add: csp_rdp_switch_def get_conn_eq state_at_def)
  next
    case RDP_CLOSE_WAIT
    then have "state_at n s' = rdp_state (rdp (arr_conn s ! n))"
      using recv_close_wait_state [of n h s e s'] assms False by (simp add: csp_rdp_switch_def get_conn_eq state_at_def)
    then show ?thesis using rdp_step.stay [of h "rdp (arr_conn s ! n)"] by simp
  qed
qed

end

section \<open>The options of a SYN packet\<close>

definition rdp_opts :: "csp_rdp_t \<Rightarrow> u32 \<times> u32 \<times> u32 \<times> u32 \<times> u32 \<times> u32" where
  "rdp_opts r = (window_size r, conn_timeout r, packet_timeout r, delayed_acks r, ack_timeout r, ack_delay_count r)"

lemma conn_core_opts: "conn_core c = conn_core d \<Longrightarrow> rdp_opts (rdp c) = rdp_opts (rdp d)"
  unfolding conn_core_def rdp_opts_def by (cases c; cases d; cases "rdp c"; cases "rdp d"; simp)

lemma length_syn_options [simp]: "length (syn_options a) = 24"
  by (simp add: syn_options_def)

lemma data_read_part:
  assumes "data_read off n x = Some b" "i + k \<le> n"
  shows "data_read (off + i) k x = Some (take k (List.drop i b))"
  using assms by (auto simp: data_read_def mem_read_def drop_take ac_simps min_def split: if_splits)

lemma syn_option_read:
  assumes "data_read 0 24 x = Some (syn_options a)"
  shows "syn_option 0 x = Some (csp_rdp_window_size a)" "syn_option 1 x = Some (csp_rdp_conn_timeout a)"
    "syn_option 2 x = Some (csp_rdp_packet_timeout a)" "syn_option 3 x = Some (csp_rdp_delayed_acks a)"
    "syn_option 4 x = Some (csp_rdp_ack_timeout a)" "syn_option 5 x = Some (csp_rdp_ack_delay_count a)"
proof -
  have r: "data_read (4 * i) 4 x = Some (take 4 (List.drop (4 * i) (syn_options a)))" if "i < 6" for i
    using data_read_part [OF assms, of "4 * i" 4] that by simp
  show "syn_option 0 x = Some (csp_rdp_window_size a)" using r [of 0] by (simp add: syn_option_def syn_options_def)
  show "syn_option 1 x = Some (csp_rdp_conn_timeout a)" using r [of 1] by (simp add: syn_option_def syn_options_def)
  show "syn_option 2 x = Some (csp_rdp_packet_timeout a)" using r [of 2] by (simp add: syn_option_def syn_options_def)
  show "syn_option 3 x = Some (csp_rdp_delayed_acks a)" using r [of 3] by (simp add: syn_option_def syn_options_def)
  show "syn_option 4 x = Some (csp_rdp_ack_timeout a)" using r [of 4] by (simp add: syn_option_def syn_options_def)
  show "syn_option 5 x = Some (csp_rdp_ack_delay_count a)" using r [of 5] by (simp add: syn_option_def syn_options_def)
qed

text \<open>Without a free buffer no control message is sent.\<close>

lemma send_cmp_no_buffer:
  "items (csp_buffers s) = 0 \<Longrightarrow>
     csp_rdp_send_cmp nh n None fl sq ak s = Some (CSP_ERR_NOMEM, s\<lparr>csp_dbg_buffer_out := csp_dbg_buffer_out s + 1\<rparr>)"
  by (simp add: csp_rdp_send_cmp_def csp_rdp_cmp_packet_def csp_buffer_get_def csp_queue_dequeue_empty)

section \<open>Properties\<close>

text \<open>A connection that waits for the acknowledgement of its own initial number.\<close>

definition half_open_node :: node where
  "half_open_node = put_conn 2 ((arr_conn ready_node ! 2)\<lparr>c_state := CONN_OPEN,
     rdp := zero_rdp\<lparr>rdp_state := RDP_SYN_RCVD, snd_iss := 7, snd_nxt := 8, snd_una := 7, window_size := 4\<rparr>\<rparr>) ready_node"

lemma half_open_rdp:
  "2 < length (arr_conn half_open_node)"
  "rdp (arr_conn half_open_node ! 2) = zero_rdp\<lparr>rdp_state := RDP_SYN_RCVD, snd_iss := 7, snd_nxt := 8, snd_una := 7, window_size := 4\<rparr>"
  "dest_socket (arr_conn half_open_node ! 2) = None"
  "\<exists>x. get_packet 0 half_open_node = Some x \<and> plen x = 0"
  by (simp_all add: half_open_node_def ready_node_def zero_conn_def held_node_def zero_node_def zero_packet_def get_packet_def put_conn_def
      del: upt_rec_numeral)

text \<open>A reset in sequence is not recognised when the last number received is 65535: the next number is then 0, but the
  comparison is one of integers without wrap-around. The connection stays open.\<close>

theorem csp_rdp_rst_wrap_missed:
  assumes "n < length (arr_conn s)" "state_at n s = RDP_OPEN" "rcv_cur (rdp (arr_conn s ! n)) = 65535"
    "has_flag (h_flags h) RDP_RST" "h_seq_nr h = rcv_cur (rdp (arr_conn s ! n)) + 1"
  shows "\<exists>s'. csp_rdp_switch nh n p h s = Some (Discard_Open False, s') \<and> state_at n s' = RDP_OPEN"
  using assms by (simp add: csp_rdp_switch_def csp_rdp_recv_rst_def upd_rdp_eq get_conn_eq state_at_def del: RDP_RST_def)

definition wrap_node :: node where
  "wrap_node = put_conn 2 ((arr_conn ready_node ! 2)\<lparr>c_state := CONN_OPEN,
     rdp := zero_rdp\<lparr>rdp_state := RDP_OPEN, rcv_cur := 65535\<rparr>\<rparr>) ready_node"

theorem csp_rdp_rst_wrap_missed_witness:
  "\<exists>s'. csp_rdp_switch csp_lo_tx 2 0 \<lparr>h_flags = RDP_RST, h_seq_nr = 0, h_ack_nr = 0\<rparr> wrap_node = Some (Discard_Open False, s') \<and>
     state_at 2 s' = RDP_OPEN"
proof -
  have n: "2 < length (arr_conn wrap_node)" by (simp add: wrap_node_def ready_node_def)
  have r: "rdp (arr_conn wrap_node ! 2) = zero_rdp\<lparr>rdp_state := RDP_OPEN, rcv_cur := 65535\<rparr>"
    by (simp add: wrap_node_def ready_node_def)
  show ?thesis by (rule csp_rdp_rst_wrap_missed [OF n]) (simp_all add: r state_at_def has_flag_def)
qed

end
