(* ===== verification/Csp_Port.thy ===== *)
theory Csp_Port
  imports Csp_Own
begin

text \<open>
  The table of bound ports (\<^verbatim>\<open>src/csp_port.c\<close>): sockets and callbacks by port number, with a last
  entry for \<^verbatim>\<open>CSP_ANY\<close>.
\<close>

section \<open>Model\<close>

definition port_at :: "nat \<Rightarrow> node \<Rightarrow> csp_port_t option" where
  "port_at i s = (if i < length (ports s) then Some (ports s ! i) else None)"

definition csp_port_get_callback :: "nat \<Rightarrow> node \<Rightarrow> nat option option" where
  "csp_port_get_callback port s =
     (if port > CSP_PORT_MAX_BIND then Some None
      else do {
        e \<leftarrow> port_at port s;
        (if p_state e = PORT_OPEN_CB then Some (Some (p_ptr e))
         else if p_state e = PORT_OPEN then Some None
         else do {
           a \<leftarrow> port_at (CSP_PORT_MAX_BIND + 1) s;
           Some (if p_state a = PORT_OPEN_CB then Some (p_ptr a) else None)
         })
      })"

definition csp_port_get_socket :: "nat \<Rightarrow> node \<Rightarrow> nat option option" where
  "csp_port_get_socket port s =
     (if port > CSP_PORT_MAX_BIND then Some None
      else do {
        e \<leftarrow> port_at port s;
        (if p_state e = PORT_OPEN then Some (Some (p_ptr e))
         else if p_state e = PORT_OPEN_CB then Some None
         else do {
           a \<leftarrow> port_at (CSP_PORT_MAX_BIND + 1) s;
           Some (if p_state a = PORT_OPEN then Some (p_ptr a) else None)
         })
      })"

definition csp_listen :: "nat \<Rightarrow> nat \<Rightarrow> node \<Rightarrow> int csp" where
  "csp_listen socket backlog s = do {
     k \<leftarrow> get_socket socket s;
     Some (CSP_ERR_NONE, put_socket socket (k\<lparr>s_rx_queue := csp_queue_create_static CSP_CONN_RXQUEUE_LEN\<rparr>) s)
   }"

definition csp_bind :: "nat option \<Rightarrow> u8 \<Rightarrow> node \<Rightarrow> int csp" where
  "csp_bind socket port s =
     (case socket of
        None \<Rightarrow> Some (CSP_ERR_INVAL, s)
      | Some k \<Rightarrow>
          if port \<noteq> CSP_ANY \<and> unat port > CSP_PORT_MAX_BIND
          then Some (CSP_ERR_INVAL, s\<lparr>csp_dbg_errno := CSP_DBG_ERR_INVALID_BIND_PORT\<rparr>)
          else do {
            let port = (if port = CSP_ANY then CSP_PORT_MAX_BIND + 1 else unat port);
            e \<leftarrow> port_at port s;
            (if p_state e \<noteq> PORT_CLOSED
             then Some (CSP_ERR_USED, s\<lparr>csp_dbg_errno := CSP_DBG_ERR_PORT_ALREADY_IN_USE\<rparr>)
             else Some (CSP_ERR_NONE, s\<lparr>ports := (ports s)[port := \<lparr>p_state = PORT_OPEN, p_ptr = k\<rparr>]\<rparr>))
          })"

text \<open>The error codes returned here are those of the debug variable, which are positive.\<close>

definition csp_bind_callback :: "nat option \<Rightarrow> u8 \<Rightarrow> node \<Rightarrow> int csp" where
  "csp_bind_callback callback port s =
     (case callback of
        None \<Rightarrow> Some (uint CSP_DBG_ERR_INVALID_POINTER, s\<lparr>csp_dbg_errno := CSP_DBG_ERR_INVALID_POINTER\<rparr>)
      | Some k \<Rightarrow>
          if port \<noteq> CSP_ANY \<and> unat port > CSP_PORT_MAX_BIND
          then Some (uint CSP_DBG_ERR_INVALID_BIND_PORT, s\<lparr>csp_dbg_errno := CSP_DBG_ERR_INVALID_BIND_PORT\<rparr>)
          else do {
            let port = (if port = CSP_ANY then CSP_PORT_MAX_BIND + 1 else unat port);
            e \<leftarrow> port_at port s;
            (if p_state e \<noteq> PORT_CLOSED
             then Some (uint CSP_DBG_ERR_PORT_ALREADY_IN_USE,
               s\<lparr>csp_dbg_errno := CSP_DBG_ERR_PORT_ALREADY_IN_USE\<rparr>)
             else Some (0, s\<lparr>ports := (ports s)[port := \<lparr>p_state = PORT_OPEN_CB, p_ptr = k\<rparr>]\<rparr>))
          })"

section \<open>Lookup\<close>

definition ports_inv :: "node \<Rightarrow> bool" where
  "ports_inv s \<longleftrightarrow> length (ports s) = CSP_PORT_MAX_BIND + 2"

text \<open>The entry that answers for a port: its own when it is bound, else that of \<^verbatim>\<open>CSP_ANY\<close>.\<close>

definition port_entry :: "nat \<Rightarrow> node \<Rightarrow> csp_port_t" where
  "port_entry port s =
     (if p_state (ports s ! port) \<noteq> PORT_CLOSED then ports s ! port else ports s ! (CSP_PORT_MAX_BIND + 1))"

lemma port_lookup:
  assumes "ports_inv s" "port \<le> CSP_PORT_MAX_BIND"
  shows "csp_port_get_socket port s =
      Some (if p_state (port_entry port s) = PORT_OPEN then Some (p_ptr (port_entry port s)) else None)"
    "csp_port_get_callback port s =
      Some (if p_state (port_entry port s) = PORT_OPEN_CB then Some (p_ptr (port_entry port s)) else None)"
  using assms
  by (cases "p_state (ports s ! port)";
      simp add: csp_port_get_socket_def csp_port_get_callback_def port_at_def ports_inv_def port_entry_def)+

section \<open>Properties\<close>

text \<open>Every port number looks up at most one of a socket and a callback: a socket if the entry that
  answers for the port (its own, or else the one bound to all ports) is a socket, a callback if it
  is a callback; ports above the bindable range look up nothing.\<close>

theorem csp_port_lookup:
  assumes "ports_inv s"
  shows "csp_port_get_socket port s =
      Some (if port \<le> CSP_PORT_MAX_BIND \<and> p_state (port_entry port s) = PORT_OPEN
            then Some (p_ptr (port_entry port s)) else None) \<and>
    csp_port_get_callback port s =
      Some (if port \<le> CSP_PORT_MAX_BIND \<and> p_state (port_entry port s) = PORT_OPEN_CB
            then Some (p_ptr (port_entry port s)) else None)"
proof (cases "port \<le> CSP_PORT_MAX_BIND")
  case True
  then show ?thesis using port_lookup [OF assms True] by simp
next
  case False
  then show ?thesis by (simp add: csp_port_get_socket_def csp_port_get_callback_def)
qed

definition closed_ports :: "csp_port_t list" where
  "closed_ports = replicate 18 \<lparr>p_state = PORT_CLOSED, p_ptr = 0\<rparr>"

theorem csp_port_lookup_witness:
  "csp_port_get_socket 5 (zero_node\<lparr>ports := closed_ports[5 := \<lparr>p_state = PORT_OPEN, p_ptr = 3\<rparr>]\<rparr>) = Some (Some 3)"
proof -
  let ?s = "zero_node\<lparr>ports := closed_ports[5 := \<lparr>p_state = PORT_OPEN, p_ptr = 3\<rparr>]\<rparr>"
  have "ports_inv ?s" by (simp add: ports_inv_def closed_ports_def)
  from csp_port_lookup [OF this, of 5] show ?thesis by (simp add: port_entry_def closed_ports_def)
qed

text \<open>A socket bound to a closed port is the one found for it, whatever is bound to all ports; binding
  it a second time is refused and changes nothing but the error variable.\<close>

theorem csp_bind_lookup:
  assumes "ports_inv s" "unat port \<le> CSP_PORT_MAX_BIND" "p_state (ports s ! unat port) = PORT_CLOSED"
  shows "\<exists>s'. csp_bind (Some k) port s = Some (CSP_ERR_NONE, s') \<and> ports_inv s' \<and>
    csp_port_get_socket (unat port) s' = Some (Some k) \<and> csp_port_get_callback (unat port) s' = Some None \<and>
    csp_bind (Some k') port s' = Some (CSP_ERR_USED, s'\<lparr>csp_dbg_errno := CSP_DBG_ERR_PORT_ALREADY_IN_USE\<rparr>)"
proof -
  let ?s = "s\<lparr>ports := (ports s)[unat port := \<lparr>p_state = PORT_OPEN, p_ptr = k\<rparr>]\<rparr>"
  have p: "port \<noteq> 255" using assms(2) by auto
  have i: "ports_inv ?s" using assms(1) by (simp add: ports_inv_def)
  have "csp_bind (Some k) port s = Some (CSP_ERR_NONE, ?s)"
    using assms p by (simp add: csp_bind_def port_at_def ports_inv_def)
  moreover have "csp_bind (Some k') port ?s = Some (CSP_ERR_USED, ?s\<lparr>csp_dbg_errno := CSP_DBG_ERR_PORT_ALREADY_IN_USE\<rparr>)"
    using assms p by (simp add: csp_bind_def port_at_def ports_inv_def)
  moreover have "port_entry (unat port) ?s = \<lparr>p_state = PORT_OPEN, p_ptr = k\<rparr>"
    using assms by (simp add: port_entry_def ports_inv_def)
  ultimately show ?thesis using port_lookup [OF i assms(2)] i by auto
qed

theorem csp_bind_lookup_witness:
  "\<exists>s'. csp_bind (Some 2) 10 (zero_node\<lparr>ports := closed_ports\<rparr>) = Some (CSP_ERR_NONE, s') \<and>
     csp_port_get_socket 10 s' = Some (Some 2)"
  using csp_bind_lookup [of "zero_node\<lparr>ports := closed_ports\<rparr>" 10 2 0]
  by (auto simp: ports_inv_def closed_ports_def)

end
