(* ===== verification/Csp_Io.thy ===== *)
theory Csp_Io
  imports Csp_Rdp Csp_Port
begin

text \<open>
  What applications call (\<^verbatim>\<open>src/csp_io.c\<close>): accepting connections, reading and sending packets on a connection,
  transactions, and connection-less traffic. \<^verbatim>\<open>csp_read\<close> and \<^verbatim>\<open>csp_send\<close> contain a probe of the data-driven
  mutator, which rewrites the identifier of the connection; what the mutator does to its buffer is the parameter
  \<open>probe\<close>. \<open>others\<close> is what the other tasks do while the caller waits.
\<close>

section \<open>Model\<close>

text \<open>A queue of sockets holds connections or packets; reading the one as the other is undefined.\<close>

definition csp_accept :: "(node \<Rightarrow> node) \<Rightarrow> nat option \<Rightarrow> u32 \<Rightarrow> node \<Rightarrow> nat option csp" where
  "csp_accept others sock timeout s =
     (case sock of
        None \<Rightarrow> Some (None, s\<lparr>csp_dbg_errno := CSP_DBG_ERR_INVALID_POINTER\<rparr>)
      | Some k \<Rightarrow> do {
          sk \<leftarrow> get_socket k s;
          (case s_rx_queue sk of
             None \<Rightarrow> Some (None, s\<lparr>csp_dbg_errno := CSP_DBG_ERR_INVALID_POINTER\<rparr>)
           | Some q \<Rightarrow> do {
               let s = (if csp_queue_size q = 0 then others s else s);
               sk \<leftarrow> get_socket k s;
               q \<leftarrow> s_rx_queue sk;
               ((r, item), q) \<leftarrow> csp_queue_dequeue q timeout;
               let s = put_socket k (sk\<lparr>s_rx_queue := Some q\<rparr>) s;
               (if r = CSP_QUEUE_OK
                then (case item of Some (Sock_Conn n) \<Rightarrow> Some (Some n, s) | _ \<Rightarrow> None)
                else Some (None, s))
             })
        })"

text \<open>The buffer of the probes: seven values of the type \<^verbatim>\<open>int\<close>; the first is unused.\<close>

definition damat_buffer :: "csp_id_t \<Rightarrow> u32 list" where
  "damat_buffer i = [0, ucast (pri i), ucast (src i), ucast (dst i), ucast (dport i), ucast (sport i), ucast (flags i)]"

definition damat_id :: "u32 list \<Rightarrow> csp_id_t" where
  "damat_id b = \<lparr>pri = ucast (b ! 1), flags = ucast (b ! 6), src = ucast (b ! 2), dst = ucast (b ! 3),
     dport = ucast (b ! 4), sport = ucast (b ! 5)\<rparr>"

text \<open>The probe follows the pointer to the connection before it is checked.\<close>

definition csp_read :: "(u32 list \<Rightarrow> u32 list) \<Rightarrow> nexthop_t \<Rightarrow> (node \<Rightarrow> node) \<Rightarrow> nat option \<Rightarrow> u32 \<Rightarrow> node \<Rightarrow> nat option csp" where
  "csp_read probe nexthop others conn timeout s = do {
     n \<leftarrow> conn;
     s \<leftarrow> upd_conn n (\<lambda>c. c\<lparr>idin := damat_id (probe (damat_buffer (idin c)))\<rparr>) s;
     c \<leftarrow> get_conn n s;
     (if c_state c \<noteq> CONN_OPEN then Some (None, s)
      else do {
        let timeout = (if timeout \<noteq> 0 \<and> has_flag (flags (idin c)) CSP_FRDP \<and> timeout < conn_timeout (rdp c)
                       then conn_timeout (rdp c) else timeout);
        let s = (if csp_queue_size (rx_queue c) = 0 then others s else s);
        c \<leftarrow> get_conn n s;
        ((r, packet), q) \<leftarrow> csp_queue_dequeue (rx_queue c) timeout;
        let s = put_conn n (c\<lparr>rx_queue := q\<rparr>) s;
        (if r \<noteq> CSP_QUEUE_OK then Some (None, s)
         else do {
           packet \<leftarrow> packet;
           (_, s) \<leftarrow> (if has_flag (flags (idin c)) CSP_FRDP \<and> delayed_acks (rdp c) \<noteq> 0
                     then csp_rdp_check_ack nexthop n s else Some (CSP_ERR_NONE, s));
           Some (packet, s)
         })
      })
   }"

definition csp_id_copy :: "csp_id_t \<Rightarrow> csp_id_t \<Rightarrow> csp_id_t" where
  "csp_id_copy target source = target\<lparr>pri := pri source, dst := dst source, src := src source, dport := dport source,
     sport := sport source, flags := flags source\<rparr>"

definition csp_send :: "(u32 list \<Rightarrow> u32 list) \<Rightarrow> nexthop_t \<Rightarrow> (nat \<Rightarrow> node \<Rightarrow> node) \<Rightarrow> nat option \<Rightarrow> nat option \<Rightarrow> node \<Rightarrow> unit csp" where
  "csp_send probe nexthop others conn packet s = do {
     n \<leftarrow> conn;
     s \<leftarrow> upd_conn n (\<lambda>c. c\<lparr>idout := damat_id (probe (damat_buffer (idout c)))\<rparr>) s;
     (case packet of
        None \<Rightarrow> Some ((), s)
      | Some p \<Rightarrow> do {
          c \<leftarrow> get_conn n s;
          (if c_state c \<noteq> CONN_OPEN then csp_buffer_free packet s
           else do {
             (r, s) \<leftarrow> (if has_flag (flags (idout c)) CSP_FRDP then csp_rdp_send others n p s else Some (CSP_ERR_NONE, s));
             (if r \<noteq> CSP_ERR_NONE then csp_buffer_free packet s
              else do {
                c \<leftarrow> get_conn n s;
                csp_send_direct nexthop (idout c) p None s
              })
           })
        })
   }"

definition csp_send_prio ::
  "(u32 list \<Rightarrow> u32 list) \<Rightarrow> nexthop_t \<Rightarrow> (nat \<Rightarrow> node \<Rightarrow> node) \<Rightarrow> u8 \<Rightarrow> nat option \<Rightarrow> nat option \<Rightarrow> node \<Rightarrow> unit csp" where
  "csp_send_prio probe nexthop others prio conn packet s = do {
     n \<leftarrow> conn;
     s \<leftarrow> upd_conn n (\<lambda>c. c\<lparr>idout := (idout c)\<lparr>pri := prio\<rparr>\<rparr>) s;
     csp_send probe nexthop others conn packet s
   }"

text \<open>A negative length is a large unsigned one.\<close>

definition size_of_int :: "int \<Rightarrow> nat" where
  "size_of_int n = nat (n mod 2 ^ 64)"

text \<open>
  What a transaction is given: the probes of both directions, the transmit function, and the other tasks during the send and
  during the wait for the reply. \<open>outbuf\<close> may be a null pointer; \<open>inbuf\<close> is the memory at the caller's pointer, and the
  result contains what it holds afterwards. A reply that does not fit in it is written past its end, which is
  undefined.
\<close>

record io_env =
  probe_send :: "u32 list \<Rightarrow> u32 list"
  probe_read :: "u32 list \<Rightarrow> u32 list"
  io_nexthop :: nexthop_t
  others_send :: "nat \<Rightarrow> node \<Rightarrow> node"
  others_read :: "node \<Rightarrow> node"
  others_connect :: "nat \<Rightarrow> node \<Rightarrow> node"

definition csp_transaction_persistent ::
  "io_env \<Rightarrow> nat option \<Rightarrow> u32 \<Rightarrow> u8 list option \<Rightarrow> int \<Rightarrow> u8 list \<Rightarrow> int \<Rightarrow> node \<Rightarrow> (int \<times> u8 list) csp" where
  "csp_transaction_persistent io conn timeout outbuf outlen inbuf inlen s = do {
     (b, s) \<leftarrow> csp_buffer_get (size_of_int (if inlen > outlen then inlen else outlen)) s;
     (case b of
        None \<Rightarrow> Some ((0, inbuf), s)
      | Some p \<Rightarrow> do {
          x \<leftarrow> get_packet p s;
          x \<leftarrow> (case outbuf of
                 Some ob \<Rightarrow> (if outlen > 0 then do { d \<leftarrow> mem_read 0 (nat outlen) ob; data_write 0 d x } else Some x)
               | None \<Rightarrow> Some x);
          let s = put_packet p (x\<lparr>plen := word_of_int outlen\<rparr>) s;
          (_, s) \<leftarrow> csp_send (probe_send io) (io_nexthop io) (others_send io) conn (Some p) s;
          (if inlen = 0 then Some ((1, inbuf), s)
           else do {
             (packet, s) \<leftarrow> csp_read (probe_read io) (io_nexthop io) (others_read io) conn timeout s;
             (case packet of
                None \<Rightarrow> Some ((0, inbuf), s)
              | Some r \<Rightarrow> do {
                  y \<leftarrow> get_packet r s;
                  (if inlen \<noteq> - 1 \<and> uint (plen y) \<noteq> inlen then do {
                     (_, s) \<leftarrow> csp_buffer_free (Some r) (s\<lparr>csp_dbg_inval_reply := csp_dbg_inval_reply s + 1\<rparr>);
                     Some ((0, inbuf), s)
                   }
                   else do {
                     d \<leftarrow> data_read 0 (unat (plen y)) y;
                     inbuf \<leftarrow> mem_write 0 d inbuf;
                     (_, s) \<leftarrow> csp_buffer_free (Some r) s;
                     Some ((uint (plen y), inbuf), s)
                   })
                })
           })
        })
   }"

definition csp_transaction_w_opts ::
  "io_env \<Rightarrow> u8 \<Rightarrow> u16 \<Rightarrow> u8 \<Rightarrow> u32 \<Rightarrow> u8 list option \<Rightarrow> int \<Rightarrow> u8 list \<Rightarrow> int \<Rightarrow> u32 \<Rightarrow> node \<Rightarrow> (int \<times> u8 list) csp" where
  "csp_transaction_w_opts io prio dest port timeout outbuf outlen inbuf inlen opts s = do {
     (conn, s) \<leftarrow> csp_connect (io_nexthop io) (others_connect io) prio dest port 0 opts s;
     (case conn of
        None \<Rightarrow> Some ((0, inbuf), s)
      | Some n \<Rightarrow> do {
          (status, s) \<leftarrow> csp_transaction_persistent io conn timeout outbuf outlen inbuf inlen s;
          (_, s) \<leftarrow> csp_close (io_nexthop io) conn s;
          Some (status, s)
        })
   }"

definition csp_recvfrom :: "(node \<Rightarrow> node) \<Rightarrow> nat option \<Rightarrow> u32 \<Rightarrow> node \<Rightarrow> nat option csp" where
  "csp_recvfrom others socket timeout s =
     (case socket of
        None \<Rightarrow> Some (None, s)
      | Some k \<Rightarrow> do {
          sk \<leftarrow> get_socket k s;
          (if \<not> has_flag (s_opts sk) CSP_SO_CONN_LESS then Some (None, s)
           else do {
             q \<leftarrow> s_rx_queue sk;
             let s = (if csp_queue_size q = 0 then others s else s);
             sk \<leftarrow> get_socket k s;
             q \<leftarrow> s_rx_queue sk;
             ((_, item), q) \<leftarrow> csp_queue_dequeue q timeout;
             let s = put_socket k (sk\<lparr>s_rx_queue := Some q\<rparr>) s;
             (case item of
                None \<Rightarrow> Some (None, s)
              | Some (Sock_Packet p) \<Rightarrow> Some (Some p, s)
              | Some (Sock_Conn _) \<Rightarrow> None)
           })
        })"

definition csp_sendto :: "nexthop_t \<Rightarrow> u8 \<Rightarrow> u16 \<Rightarrow> u8 \<Rightarrow> u8 \<Rightarrow> u32 \<Rightarrow> nat \<Rightarrow> node \<Rightarrow> unit csp" where
  "csp_sendto nexthop prio dest dst_port src_port opts packet s = do {
     x \<leftarrow> get_packet packet s;
     let fl = (if \<not> has_flag opts CSP_O_SAME then 0 else flags (pid x));
     (if has_flag opts CSP_O_RDP
      then csp_buffer_free (Some packet)
        ((put_packet packet (x\<lparr>pid := (pid x)\<lparr>flags := fl\<rparr>\<rparr>) s)\<lparr>csp_dbg_errno := CSP_DBG_ERR_UNSUPPORTED\<rparr>)
      else do {
        let fl = (if has_flag opts CSP_O_HMAC then fl OR CSP_FHMAC else fl);
        let fl = (if has_flag opts CSP_O_CRC32 then fl OR CSP_FCRC32 else fl);
        let i = (pid x)\<lparr>flags := fl, dst := dest, dport := dst_port, src := 0, sport := src_port, pri := prio\<rparr>;
        csp_send_direct nexthop i packet None (put_packet packet (x\<lparr>pid := i\<rparr>) s)
      })
   }"

definition csp_sendto_reply :: "nexthop_t \<Rightarrow> nat option \<Rightarrow> nat \<Rightarrow> u32 \<Rightarrow> node \<Rightarrow> unit csp" where
  "csp_sendto_reply nexthop request_packet reply_packet opts s =
     (case request_packet of
        None \<Rightarrow> Some ((), s)
      | Some q \<Rightarrow> do {
          x \<leftarrow> get_packet q s;
          s \<leftarrow> (if has_flag opts CSP_O_SAME then do {
                 y \<leftarrow> get_packet reply_packet s;
                 Some (put_packet reply_packet (y\<lparr>pid := (pid y)\<lparr>flags := flags (pid x)\<rparr>\<rparr>) s)
               }
               else Some s);
          x \<leftarrow> get_packet q s;
          csp_sendto nexthop (pri (pid x)) (src (pid x)) (sport (pid x)) (dport (pid x)) opts reply_packet s
        })"

section \<open>Reading\<close>

lemma damat_id_buffer [simp]: "damat_id (damat_buffer i) = i"
  by (cases i) (simp add: damat_id_def damat_buffer_def unsigned_ucast_eq take_bit_word_eq_self)

text \<open>The identifier the probe leaves.\<close>

definition probed :: "(u32 list \<Rightarrow> u32 list) \<Rightarrow> csp_conn_t \<Rightarrow> csp_conn_t" where
  "probed probe c = c\<lparr>idin := damat_id (probe (damat_buffer (idin c)))\<rparr>"

lemma probed_simps [simp]:
  "rx_queue (probed probe c) = rx_queue c" "c_state (probed probe c) = c_state c" "rdp (probed probe c) = rdp c"
  "idin (probed probe c) = damat_id (probe (damat_buffer (idin c)))" "probed (\<lambda>b. b) c = c"
  by (simp_all add: probed_def)

lemma read_item_eq:
  assumes "accounts H s" "n < length (arr_conn s)" "c_state (arr_conn s ! n) = CONN_OPEN"
    "queue_list (rx_queue (arr_conn s ! n)) = e # es"
    "\<not> has_flag (flags (damat_id (probe (damat_buffer (idin (arr_conn s ! n)))))) CSP_FRDP"
  shows "csp_read probe nh others (Some n) timeout s =
      Some (e, put_conn n ((probed probe (arr_conn s ! n))\<lparr>rx_queue := queue_pop (rx_queue (arr_conn s ! n))\<rparr>) s)"
    "accounts (held_with e H) (put_conn n ((probed probe (arr_conn s ! n))\<lparr>rx_queue := queue_pop (rx_queue (arr_conn s ! n))\<rparr>) s)"
    "queue_list (queue_pop (rx_queue (arr_conn s ! n))) = es"
proof -
  let ?q = "rx_queue (arr_conn s ! n)"
  let ?c = "probed probe (arr_conn s ! n)"
  note wf = conn_queue_wf [OF assms(1,2)]
  have i: "0 < items ?q" using assms(4) by (metis length_queue_list length_greater_0_conv list.distinct(1))
  have b: "buffer ?q ! q_out ?q = Some e" using queue_head_Some [OF wf i] assms(4) by simp
  have a: "accounts H (put_conn n ?c s)" by (rule accounts_conn_same [OF assms(1,2)]) simp
  show "queue_list (queue_pop ?q) = es" using queue_pop_list [OF wf i] assms(4) by simp
  show "csp_read probe nh others (Some n) timeout s = Some (e, put_conn n (?c\<lparr>rx_queue := queue_pop ?q\<rparr>) s)"
    using assms(2,3,5) i b
    by (simp add: csp_read_def upd_conn_eq get_conn_eq probed_def [symmetric] csp_queue_dequeue_item csp_queue_size_def
        pthread_queue_items_def)
  show "accounts (held_with e H) (put_conn n (?c\<lparr>rx_queue := queue_pop ?q\<rparr>) s)"
    using accounts_conn_pop [OF a, of n e es] assms(2,4) by simp
qed

lemma read_item:
  assumes "accounts H s" "n < length (arr_conn s)" "c_state (arr_conn s ! n) = CONN_OPEN"
    "queue_list (rx_queue (arr_conn s ! n)) = e # es"
    "\<not> has_flag (flags (damat_id (probe (damat_buffer (idin (arr_conn s ! n)))))) CSP_FRDP"
  shows "\<exists>s'. csp_read probe nh others (Some n) timeout s = Some (e, s') \<and> accounts (held_with e H) s' \<and>
    queue_list (rx_queue (arr_conn s' ! n)) = es \<and> (\<forall>k. get_packet k s' = get_packet k s)"
  using read_item_eq(1) [OF assms(1-4), of probe nh others timeout] read_item_eq(2,3) [OF assms(1-4), of probe] assms(2,5) by simp

lemma read_empty:
  assumes "n < length (arr_conn s)" "c_state (arr_conn s ! n) = CONN_OPEN" "items (rx_queue (arr_conn s ! n)) = 0"
    "timeout \<noteq> CSP_MAX_TIMEOUT"
    "\<not> has_flag (flags (damat_id (probe (damat_buffer (idin (arr_conn s ! n)))))) CSP_FRDP"
  shows "csp_read probe nh (\<lambda>s. s) (Some n) timeout s = Some (None, put_conn n (probed probe (arr_conn s ! n)) s)"
proof -
  have r: "(probed probe c)\<lparr>rx_queue := rx_queue c\<rparr> = probed probe c" for c by (simp add: probed_def)
  show ?thesis using assms
    by (simp add: r csp_read_def upd_conn_eq get_conn_eq probed_def [symmetric] csp_queue_dequeue_empty csp_queue_size_def
        pthread_queue_items_def)
qed

section \<open>Connection-less traffic\<close>

context nexthop_contract
begin

lemma accounts_sendto:
  assumes "csp_sendto nexthop prio dest dp sp opts p s = Some (u, s')" "accounts (add_mset p H) s" "get_packet p s = Some x"
    "packet_wf x" "env_inv s"
  shows "accounts H s' \<and> env s' = env s \<and> keeps H s s'"
proof -
  have p: "p < length (csp_buffer_pool s)" using assms(3) by (auto simp: get_packet_def split: if_splits)
  have put: "accounts (add_mset p H) (put_packet p (x\<lparr>pid := i\<rparr>) s)" for i
    using accounts_put [OF assms(2)] assms(4) by (simp add: packet_wf_def)
  have k: "keeps H s (put_packet p (x\<lparr>pid := i\<rparr>) s)" for i by (rule keeps_put [OF assms(2)])
  show ?thesis
  proof (cases "has_flag opts CSP_O_RDP")
    case True
    then obtain i where i: "csp_buffer_free (Some p) ((put_packet p (x\<lparr>pid := i\<rparr>) s)\<lparr>csp_dbg_errno := CSP_DBG_ERR_UNSUPPORTED\<rparr>) = Some (u, s')"
      using assms(1,3) by (auto simp: csp_sendto_def Let_def simp del: CSP_O_RDP_def CSP_O_SAME_def)
    have "accounts (add_mset p H) ((put_packet p (x\<lparr>pid := i\<rparr>) s)\<lparr>csp_dbg_errno := CSP_DBG_ERR_UNSUPPORTED\<rparr>)" using put [of i] by simp
    from accounts_free [OF this] show ?thesis using i k [of i] by (auto simp: keeps_def)
  next
    case False
    then obtain i where i: "csp_send_direct nexthop i p None (put_packet p (x\<lparr>pid := i\<rparr>) s) = Some (u, s')"
      using assms(1,3) by (auto simp: csp_sendto_def Let_def simp del: CSP_O_RDP_def CSP_O_SAME_def CSP_O_HMAC_def CSP_O_CRC32_def)
    have e: "env (put_packet p (x\<lparr>pid := i\<rparr>) s) = env s" by simp
    have w: "packet_wf (x\<lparr>pid := i\<rparr>)" using assms(4) by (simp add: packet_wf_def)
    from accounts_send_direct [OF i put _ w env_inv_env [OF e assms(5)]] get_put_packet [OF p] e k [of i] keeps_trans
    show ?thesis by auto
  qed
qed

end

section \<open>Properties\<close>

text \<open>A node with an open connection on which one packet waits.\<close>

definition full_conn_node :: node where
  "full_conn_node = put_conn 2 ((arr_conn ready_node ! 2)\<lparr>c_state := CONN_OPEN, idin := zero_id\<lparr>src := 7, dport := 10, sport := 40\<rparr>,
     rx_queue := queue_push (Some 4) (rx_queue (arr_conn ready_node ! 2))\<rparr>) ready_node"

lemma full_conn_node_fields:
  "accounts (mset_set ({..<15} - {4})) full_conn_node" "2 < length (arr_conn full_conn_node)"
  "c_state (arr_conn full_conn_node ! 2) = CONN_OPEN" "queue_list (rx_queue (arr_conn full_conn_node ! 2)) = [Some 4]"
  "idin (arr_conn full_conn_node ! 2) = zero_id\<lparr>src := 7, dport := 10, sport := 40\<rparr>"
proof -
  let ?c = "(arr_conn ready_node ! 2)\<lparr>c_state := CONN_OPEN, idin := zero_id\<lparr>src := 7, dport := 10, sport := 40\<rparr>\<rparr>"
  have n: "2 < length (arr_conn ready_node)" by (simp add: ready_node_def)
  have q: "rx_queue (arr_conn ready_node ! 2) = empty_queue CSP_CONN_RXQUEUE_LEN" by (simp add: ready_node_def zero_conn_def)
  have "mset_set {..<15 :: nat} = add_mset 4 (mset_set ({..<15} - {4}))" using mset_set.remove [of "{..<15 :: nat}" 4] by simp
  then have a: "accounts (held_with (Some 4) (mset_set ({..<15} - {4}))) (put_conn 2 ?c ready_node)"
    using accounts_conn_same [OF ready_node_accounts n, of ?c] by simp
  have r: "items (rx_queue (arr_conn (put_conn 2 ?c ready_node) ! 2)) < qsize (rx_queue (arr_conn (put_conn 2 ?c ready_node) ! 2))"
    using n q by (simp add: empty_queue_def)
  have n': "2 < length (arr_conn (put_conn 2 ?c ready_node))" using n by simp
  show "accounts (mset_set ({..<15} - {4})) full_conn_node"
    using accounts_conn_push [OF a n' r] n by (simp add: full_conn_node_def)
  show "2 < length (arr_conn full_conn_node)" "c_state (arr_conn full_conn_node ! 2) = CONN_OPEN"
    "idin (arr_conn full_conn_node ! 2) = zero_id\<lparr>src := 7, dport := 10, sport := 40\<rparr>" using n by (simp_all add: full_conn_node_def)
  have "queue_list (queue_push (Some 4) (rx_queue (arr_conn ready_node ! 2))) = queue_list (rx_queue (arr_conn ready_node ! 2)) @ [Some 4]"
    using queue_push_list [OF conn_queue_wf [OF ready_node_accounts n], of "Some 4"] q by (simp add: empty_queue_def)
  then show "queue_list (rx_queue (arr_conn full_conn_node ! 2)) = [Some 4]" using n q by (simp add: full_conn_node_def)
qed

text \<open>Sending without a connection takes the packet over, whatever the options: afterwards it is queued, with a driver or
  free, and everything held elsewhere is untouched.\<close>

theorem csp_sendto_conserves:
  assumes "nexthop_contract nh" "csp_sendto nh prio dest dp sp opts p s = Some (u, s')" "accounts (add_mset p H) s"
    "get_packet p s = Some x" "packet_wf x" "env_inv s"
  shows "accounts H s' \<and> env s' = env s \<and> keeps H s s'"
  using nexthop_contract.accounts_sendto [OF assms] .

theorem csp_sendto_conserves_witness:
  "\<exists>s'. csp_sendto csp_lo_tx 2 5 10 20 CSP_O_RDP 3 busy_node = Some ((), s') \<and> accounts (mset_set ({..<15} - {3})) s'"
proof -
  have "accounts (add_mset 3 (mset_set ({..<15} - {3}))) ((put_packet 3 (zero_packet\<lparr>pid := (pid zero_packet)\<lparr>flags := 0\<rparr>\<rparr>) busy_node)
      \<lparr>csp_dbg_errno := CSP_DBG_ERR_UNSUPPORTED\<rparr>)"
    using accounts_put [OF busy_node_held(1), of "zero_packet\<lparr>pid := (pid zero_packet)\<lparr>flags := 0\<rparr>\<rparr>" 3] zero_packet_wf
    by (simp add: packet_wf_def)
  from accounts_free(1) [OF this]
  obtain s' where s': "csp_sendto csp_lo_tx 2 5 10 20 CSP_O_RDP 3 busy_node = Some ((), s')"
    by (auto simp: csp_sendto_def busy_node_held(2) has_flag_def)
  from csp_sendto_conserves [OF lo.nexthop_contract_axioms s' busy_node_held zero_packet_wf busy_node_env] show ?thesis using s' by blast
qed

end
