(* ===== verification/Csp_Route.thy ===== *)
theory Csp_Route
  imports Csp_Io
begin

text \<open>
  The router (\<^verbatim>\<open>src/csp_route.c\<close>), which takes packets from the input queue and forwards or delivers them, the
  bridge (\<^verbatim>\<open>src/csp_bridge.c\<close>), and initialisation (\<^verbatim>\<open>src/csp_init.c\<close>). The hook for
  incoming packets is the one of the library, which only prints. The callbacks that applications bind to
  ports are the parameter \<open>callback\<close>: the callback's number, the packet.
\<close>

section \<open>Model\<close>

type_synonym callback_t = "nat \<Rightarrow> nat \<Rightarrow> node \<Rightarrow> unit csp"

text \<open>With \<^verbatim>\<open>CSP_USE_HMAC\<close> and \<^verbatim>\<open>CSP_USE_RDP\<close> no option is unsupported.\<close>

definition csp_route_check_options :: "nat \<Rightarrow> nat \<Rightarrow> node \<Rightarrow> int csp" where
  "csp_route_check_options iface packet s = Some (CSP_ERR_NONE, s)"

definition upd_iface :: "nat \<Rightarrow> (csp_iface_t \<Rightarrow> csp_iface_t) \<Rightarrow> node \<Rightarrow> node option" where
  "upd_iface i f s = do { x \<leftarrow> get_iface i s; Some (put_iface i (f x) s) }"

text \<open>The checksum, the authentication code and the check for RDP, in this order.\<close>

definition csp_route_check_crc32 :: "u32 \<Rightarrow> nat \<Rightarrow> nat \<Rightarrow> node \<Rightarrow> int csp" where
  "csp_route_check_crc32 security_opts iface packet s = do {
     x \<leftarrow> get_packet packet s;
     (r, s) \<leftarrow>
       (if has_flag (flags (pid x)) CSP_FCRC32 then do {
          (r, x) \<leftarrow> csp_crc32_verify (csp_conf s) x;
          Some (r = CSP_ERR_NONE, put_packet packet x s)
        }
        else Some (\<not> has_flag security_opts CSP_SO_CRC32REQ, s));
     (if r then Some (CSP_ERR_NONE, s)
      else do {
        s \<leftarrow> upd_iface iface (\<lambda>f. f\<lparr>if_rx_error := if_rx_error f + 1\<rparr>) s;
        Some (CSP_ERR_CRC32, s)
      })
   }"

definition csp_route_check_hmac :: "u32 \<Rightarrow> nat \<Rightarrow> nat \<Rightarrow> node \<Rightarrow> int csp" where
  "csp_route_check_hmac security_opts iface packet s = do {
     x \<leftarrow> get_packet packet s;
     (r, s) \<leftarrow>
       (if has_flag (flags (pid x)) CSP_FHMAC then do {
          (r, x) \<leftarrow> csp_hmac_verify (csp_hmac_key s) x False;
          Some (r = CSP_ERR_NONE, put_packet packet x s)
        }
        else Some (\<not> has_flag security_opts CSP_SO_HMACREQ, s));
     (if r then Some (CSP_ERR_NONE, s)
      else do {
        s \<leftarrow> upd_iface iface (\<lambda>f. f\<lparr>if_autherr := if_autherr f + 1\<rparr>) s;
        Some (CSP_ERR_HMAC, s)
      })
   }"

definition csp_route_check_rdp :: "u32 \<Rightarrow> nat \<Rightarrow> nat \<Rightarrow> node \<Rightarrow> int csp" where
  "csp_route_check_rdp security_opts iface packet s = do {
     x \<leftarrow> get_packet packet s;
     (if \<not> has_flag (flags (pid x)) CSP_FRDP \<and> has_flag security_opts CSP_SO_RDPREQ then do {
        s \<leftarrow> upd_iface iface (\<lambda>f. f\<lparr>if_rx_error := if_rx_error f + 1\<rparr>) s;
        Some (CSP_ERR_INVAL, s)
      }
      else Some (CSP_ERR_NONE, s))
   }"

definition csp_route_security_check :: "u32 \<Rightarrow> nat \<Rightarrow> nat \<Rightarrow> node \<Rightarrow> int csp" where
  "csp_route_security_check security_opts iface packet s = do {
     (r, s) \<leftarrow> csp_route_check_crc32 security_opts iface packet s;
     (if r \<noteq> CSP_ERR_NONE then Some (r, s)
      else do {
        (r, s) \<leftarrow> csp_route_check_hmac security_opts iface packet s;
        (if r \<noteq> CSP_ERR_NONE then Some (r, s)
         else csp_route_check_rdp security_opts iface packet s)
      })
   }"

text \<open>A packet that is discarded.\<close>

definition csp_route_discard :: "nat \<Rightarrow> node \<Rightarrow> int csp" where
  "csp_route_discard packet s = do {
     (_, s) \<leftarrow> csp_buffer_free (Some packet) s;
     Some (CSP_ERR_NONE, s)
   }"

text \<open>The end of \<^verbatim>\<open>csp_route_work\<close>: a packet for a connection.\<close>

definition csp_route_to_conn :: "nexthop_t \<Rightarrow> nat \<Rightarrow> nat \<Rightarrow> node \<Rightarrow> int csp" where
  "csp_route_to_conn nexthop conn packet s = do {
     x \<leftarrow> get_packet packet s;
     (if has_flag (flags (pid x)) CSP_FRDP then do {
        (close_connection, s) \<leftarrow> csp_rdp_new_packet nexthop conn packet s;
        (_, s) \<leftarrow> (if close_connection then csp_close nexthop (Some conn) s else Some (CSP_ERR_NONE, s));
        Some (CSP_ERR_NONE, s)
      }
      else do {
        (r, s) \<leftarrow> csp_conn_enqueue_packet (Some conn) (Some packet) s;
        (if r < 0 then csp_route_discard packet (s\<lparr>csp_dbg_conn_ovf := csp_dbg_conn_ovf s + 1\<rparr>)
         else do {
           c \<leftarrow> get_conn conn s;
           (case dest_socket c of
              None \<Rightarrow> Some (CSP_ERR_NONE, s)
            | Some k \<Rightarrow> do {
                sk \<leftarrow> get_socket k s;
                q \<leftarrow> s_rx_queue sk;
                (r, q) \<leftarrow> csp_queue_enqueue q (Sock_Conn conn) 0;
                let s = put_socket k (sk\<lparr>s_rx_queue := Some q\<rparr>) s;
                (if r \<noteq> CSP_QUEUE_OK then do {
                   (_, s) \<leftarrow> csp_close nexthop (Some conn) (s\<lparr>csp_dbg_conn_ovf := csp_dbg_conn_ovf s + 1\<rparr>);
                   Some (CSP_ERR_NONE, s)
                 }
                 else do {
                   s \<leftarrow> upd_conn conn (\<lambda>c. c\<lparr>dest_socket := None\<rparr>) s;
                   Some (CSP_ERR_NONE, s)
                 })
              })
         })
      })
   }"

definition reply_id :: "csp_id_t \<Rightarrow> csp_id_t" where
  "reply_id i = \<lparr>pri = pri i, flags = flags i, src = dst i, dst = src i, dport = sport i, sport = dport i\<rparr>"

definition csp_route_new_conn :: "nexthop_t \<Rightarrow> nat \<Rightarrow> nat \<Rightarrow> nat option \<Rightarrow> node \<Rightarrow> int csp" where
  "csp_route_new_conn nexthop iface packet socket s =
     (case socket of
        None \<Rightarrow> csp_route_discard packet s
      | Some k \<Rightarrow> do {
          sk \<leftarrow> get_socket k s;
          (r, s) \<leftarrow> csp_route_security_check (s_opts sk) iface packet s;
          (if r < 0 then csp_route_discard packet s
           else do {
             x \<leftarrow> get_packet packet s;
             (conn, s) \<leftarrow> csp_conn_new (pid x) (reply_id (pid x)) CONN_SERVER s;
             (case conn of
                None \<Rightarrow> csp_route_discard packet (s\<lparr>csp_dbg_conn_out := csp_dbg_conn_out s + 1\<rparr>)
              | Some n \<Rightarrow> do {
                  sk \<leftarrow> get_socket k s;
                  s \<leftarrow> upd_conn n (\<lambda>c. c\<lparr>dest_socket := Some k, c_opts := s_opts sk\<rparr>) s;
                  csp_route_to_conn nexthop n packet s
                })
           })
        })"

text \<open>A packet for a socket: connection-less, on an existing or on a new connection.\<close>

definition csp_route_socket :: "nexthop_t \<Rightarrow> nat \<Rightarrow> nat \<Rightarrow> node \<Rightarrow> int csp" where
  "csp_route_socket nexthop iface packet s = do {
     x \<leftarrow> get_packet packet s;
     socket \<leftarrow> csp_port_get_socket (unat (dport (pid x))) s;
     sopts \<leftarrow> (case socket of None \<Rightarrow> Some 0 | Some k \<Rightarrow> do { sk \<leftarrow> get_socket k s; Some (s_opts sk) });
     (if socket \<noteq> None \<and> has_flag sopts CSP_SO_CONN_LESS then do {
        k \<leftarrow> socket;
        (r, s) \<leftarrow> csp_route_security_check sopts iface packet s;
        (if r < 0 then csp_route_discard packet s
         else do {
           sk \<leftarrow> get_socket k s;
           q \<leftarrow> s_rx_queue sk;
           (r, q) \<leftarrow> csp_queue_enqueue q (Sock_Packet packet) 0;
           let s = put_socket k (sk\<lparr>s_rx_queue := Some q\<rparr>) s;
           (if r \<noteq> CSP_QUEUE_OK then csp_route_discard packet (s\<lparr>csp_dbg_conn_ovf := csp_dbg_conn_ovf s + 1\<rparr>)
            else Some (CSP_ERR_NONE, s))
         })
      }
      else (case csp_conn_find_existing (pid x) s of
         None \<Rightarrow> csp_route_new_conn nexthop iface packet socket s
       | Some n \<Rightarrow> do {
           c \<leftarrow> get_conn n s;
           (r, s) \<leftarrow> csp_route_security_check (c_opts c) iface packet s;
           (if r < 0 then csp_route_discard packet s
            else csp_route_to_conn nexthop n packet s)
         }))
   }"

definition csp_route_local :: "nexthop_t \<Rightarrow> callback_t \<Rightarrow> nat \<Rightarrow> nat \<Rightarrow> node \<Rightarrow> int csp" where
  "csp_route_local nexthop callback iface packet s = do {
     (r, s) \<leftarrow> csp_route_check_options iface packet s;
     (if r \<noteq> CSP_ERR_NONE then csp_route_discard packet s
      else do {
        x \<leftarrow> get_packet packet s;
        cb \<leftarrow> csp_port_get_callback (unat (dport (pid x))) s;
        (case cb of
           Some f \<Rightarrow> do {
             (r, s) \<leftarrow> csp_route_security_check CSP_SO_NONE iface packet s;
             (if r < 0 then csp_route_discard packet s
              else do {
                (_, s) \<leftarrow> callback f packet s;
                Some (CSP_ERR_NONE, s)
              })
           }
         | None \<Rightarrow> csp_route_socket nexthop iface packet s)
      })
   }"

text \<open>The packet is for this node.\<close>

definition is_to_me :: "csp_conf_t \<Rightarrow> csp_iface_t \<Rightarrow> csp_packet_t \<Rightarrow> bool option" where
  "is_to_me conf f x = (if if_addr f = dst (pid x) then Some True else csp_id_is_broadcast conf (dst (pid x)) (if_netmask f))"

definition csp_route_packet :: "nexthop_t \<Rightarrow> callback_t \<Rightarrow> nat \<Rightarrow> nat \<Rightarrow> node \<Rightarrow> int csp" where
  "csp_route_packet nexthop callback iface packet s = do {
     (_, s) \<leftarrow> csp_promisc_add packet s;
     x \<leftarrow> get_packet packet s;
     s \<leftarrow> upd_iface iface (\<lambda>f. f\<lparr>if_rx := if_rx f + 1, if_rxbytes := if_rxbytes f + ucast (plen x)\<rparr>) s;
     f \<leftarrow> get_iface iface s;
     to_me \<leftarrow> is_to_me (csp_conf s) f x;
     let d = dedup (csp_conf s);
     (duplicate, s) \<leftarrow>
       (if d = CSP_DEDUP_ALL \<or> to_me \<and> d = CSP_DEDUP_INCOMING \<or> \<not> to_me \<and> d = CSP_DEDUP_FWD
        then csp_dedup_is_duplicate packet s else Some (False, s));
     (if duplicate then do {
        s \<leftarrow> upd_iface iface (\<lambda>f. f\<lparr>if_drop := if_drop f + 1\<rparr>) s;
        csp_route_discard packet s
      }
      else if \<not> to_me then do {
        x \<leftarrow> get_packet packet s;
        (_, s) \<leftarrow> csp_send_direct nexthop (pid x) packet (Some iface) s;
        Some (CSP_ERR_NONE, s)
      }
      else csp_route_local nexthop callback iface packet s)
   }"

definition csp_route_work :: "nexthop_t \<Rightarrow> callback_t \<Rightarrow> node \<Rightarrow> int csp" where
  "csp_route_work nexthop callback s = do {
     (_, s) \<leftarrow> csp_conn_check_timeouts nexthop s;
     ((r, e), s) \<leftarrow> csp_qfifo_read s;
     (if r \<noteq> CSP_ERR_NONE then Some (CSP_ERR_TIMEDOUT, s)
      else do {
        input \<leftarrow> e;
        (case q_packet input of
           None \<Rightarrow> Some (CSP_ERR_TIMEDOUT, s)
         | Some packet \<Rightarrow> do {
             iface \<leftarrow> q_iface input;
             csp_route_packet nexthop callback iface packet s
           })
      })
   }"

text \<open>The bridge.\<close>

definition csp_bridge_set_interfaces :: "nat option \<Rightarrow> nat option \<Rightarrow> node \<Rightarrow> node" where
  "csp_bridge_set_interfaces if_a if_b s = s\<lparr>bif_a := if_a, bif_b := if_b\<rparr>"

definition csp_bridge_work :: "nexthop_t \<Rightarrow> node \<Rightarrow> unit csp" where
  "csp_bridge_work nexthop s = do {
     ((r, e), s) \<leftarrow> csp_qfifo_read s;
     (if r \<noteq> CSP_ERR_NONE then Some ((), s)
      else do {
        input \<leftarrow> e;
        (case q_packet input of
           None \<Rightarrow> Some ((), s)
         | Some packet \<Rightarrow> do {
             (duplicate, s) \<leftarrow> csp_dedup_is_duplicate packet s;
             (if duplicate then csp_buffer_free (Some packet) s
              else do {
                (_, s) \<leftarrow> csp_promisc_add packet s;
                let destif = (if q_iface input = bif_a s then bif_b s else bif_a s);
                x \<leftarrow> get_packet packet s;
                csp_send_direct_iface nexthop (pid x) packet destif CSP_NO_VIA_ADDRESS False s
              })
           })
      })
   }"

text \<open>Initialisation. The loopback interface is interface 0.\<close>

definition csp_conf_init :: csp_conf_t where
  "csp_conf_init = \<lparr>version = 2, address = 0, hostname = '''', model = '''', revision = '''', conn_dfl_so = 0,
     dedup = CSP_DEDUP_OFF\<rparr>"

definition csp_get_address :: "node \<Rightarrow> u16" where
  "csp_get_address s = address (csp_conf s)"

definition csp_init :: "node \<Rightarrow> unit csp" where
  "csp_init s = do {
     (_, s) \<leftarrow> csp_buffer_init s;
     (_, s) \<leftarrow> csp_conn_init s;
     (_, s) \<leftarrow> csp_qfifo_init s;
     (_, s) \<leftarrow> csp_rdp_queue_init s;
     s \<leftarrow> upd_iface csp_if_lo (\<lambda>f. f\<lparr>if_netmask := ucast (csp_id_get_host_bits (csp_conf s))\<rparr>) s;
     (_, s) \<leftarrow> csp_iflist_add csp_if_lo s;
     Some ((), s)
   }"

definition csp_free_resources :: "node \<Rightarrow> node" where
  "csp_free_resources s = csp_rtable_free s"

definition csp_get_conf :: "node \<Rightarrow> csp_conf_t" where
  "csp_get_conf s = csp_conf s"

section \<open>Checks\<close>

text \<open>A packet in the hands of the router.\<close>

definition in_hand :: "nat \<Rightarrow> nat multiset \<Rightarrow> csp_id_t \<Rightarrow> node \<Rightarrow> bool" where
  "in_hand p H i s \<longleftrightarrow> accounts (add_mset p H) s \<and> (\<exists>x. get_packet p s = Some x \<and> packet_wf x \<and> pid x = i)"

text \<open>A check ends, with success or an error, and changes nothing but the packet and the counters of the interface.\<close>

definition checks :: "nat \<Rightarrow> nat multiset \<Rightarrow> csp_id_t \<Rightarrow> node \<Rightarrow> int csp \<Rightarrow> bool" where
  "checks p H i s m \<longleftrightarrow> (\<exists>r s'. m = Some (r, s') \<and> in_hand p H i s' \<and> env s' = env s \<and> arr_conn s' = arr_conn s \<and>
     sockets s' = sockets s \<and> csp_hmac_key s' = csp_hmac_key s \<and> (r = CSP_ERR_NONE \<or> r < 0))"

lemma in_hand_put:
  assumes "in_hand p H i s" "packet_wf y" "pid y = i"
  shows "in_hand p H i (put_packet p y s)"
proof -
  have "p < length (csp_buffer_pool s)" using assms(1) by (auto simp: in_hand_def get_packet_def split: if_splits)
  then show ?thesis using assms accounts_put [of "add_mset p H" s y p] get_put_packet [of p s p y]
    by (auto simp: in_hand_def packet_wf_def)
qed

lemma upd_iface_counter:
  assumes "i < length (ifaces s)" "\<And>f. iface_key (g f) = iface_key f"
  shows "\<exists>s'. upd_iface i g s = Some s' \<and> s' = put_iface i (g (ifaces s ! i)) s \<and> env s' = env s"
  using assms env_put_iface [of i s "g (ifaces s ! i)"] by (auto simp: upd_iface_def get_iface_def)

lemma in_hand_iface [simp]: "in_hand p H i (put_iface k f s) = in_hand p H i s"
  by (simp add: in_hand_def)

lemma put_iface_fields [simp]:
  "sockets (put_iface i f s) = sockets s" "csp_hmac_key (put_iface i f s) = csp_hmac_key s" "csp_conf (put_iface i f s) = csp_conf s"
  by (simp_all add: put_iface_def)

lemma checks_result:
  assumes "in_hand p H i s" "k < length (ifaces s)" "packet_wf y" "pid y = i" "\<And>f. iface_key (g f) = iface_key f" "e < 0"
    "m = (if b then Some (CSP_ERR_NONE, put_packet p y s)
          else do { s \<leftarrow> upd_iface k g (put_packet p y s); Some (e, s) })"
  shows "checks p H i s m"
proof (cases b)
  case True
  then show ?thesis using assms(7) in_hand_put [OF assms(1,3,4)] by (auto simp: checks_def)
next
  case False
  from upd_iface_counter [of k "put_packet p y s" g] assms(2,5) obtain s' where
    "upd_iface k g (put_packet p y s) = Some s'" "s' = put_iface k (g (ifaces (put_packet p y s) ! k)) (put_packet p y s)" "env s' = env s"
    by auto
  then show ?thesis using False assms(6,7) in_hand_put [OF assms(1,3,4)] by (simp add: checks_def)
qed

lemma put_same_packet: "get_packet p s = Some x \<Longrightarrow> put_packet p x s = s"
  by (auto simp: get_packet_def put_packet_def split: if_splits)

lemma checks_crc32:
  assumes "in_hand p H i s" "k < length (ifaces s)"
  shows "checks p H i s (csp_route_check_crc32 opts k p s)"
proof -
  from assms(1) obtain x where x: "get_packet p s = Some x" "packet_wf x" "pid x = i" by (auto simp: in_hand_def)
  let ?g = "\<lambda>f. f\<lparr>if_rx_error := if_rx_error f + 1\<rparr>"
  note res = checks_result [OF assms, of _ ?g CSP_ERR_CRC32]
  show ?thesis
  proof (cases "has_flag (flags (pid x)) CSP_FCRC32")
    case True
    obtain r y where y: "csp_crc32_verify (csp_conf s) x = Some (r, y)" "packet_wf y" "pid y = pid x"
      using crc.ver_returns [OF x(2)] by blast
    show ?thesis by (rule res [OF y(2), where b = "r = CSP_ERR_NONE"]) (use x y True in \<open>simp_all add: csp_route_check_crc32_def iface_key_def\<close>)
  next
    case False
    show ?thesis by (rule res [OF x(2), where b = "\<not> has_flag opts CSP_SO_CRC32REQ"])
        (use x False in \<open>simp_all add: csp_route_check_crc32_def iface_key_def put_same_packet\<close>)
  qed
qed

lemma checks_hmac:
  assumes "in_hand p H i s" "k < length (ifaces s)" "csp_hmac_key s \<noteq> []"
  shows "checks p H i s (csp_route_check_hmac opts k p s)"
proof -
  from assms(1) obtain x where x: "get_packet p s = Some x" "packet_wf x" "pid x = i" by (auto simp: in_hand_def)
  let ?g = "\<lambda>f. f\<lparr>if_autherr := if_autherr f + 1\<rparr>"
  note res = checks_result [OF assms(1,2), of _ ?g CSP_ERR_HMAC]
  show ?thesis
  proof (cases "has_flag (flags (pid x)) CSP_FHMAC")
    case True
    obtain r y where y: "csp_hmac_verify (csp_hmac_key s) x False = Some (r, y)" "packet_wf y" "pid y = pid x"
      using hmac.ver_returns [OF x(2), of "csp_hmac_key s"] assms(3) by auto
    show ?thesis by (rule res [OF y(2), where b = "r = CSP_ERR_NONE"]) (use x y True in \<open>simp_all add: csp_route_check_hmac_def iface_key_def\<close>)
  next
    case False
    show ?thesis by (rule res [OF x(2), where b = "\<not> has_flag opts CSP_SO_HMACREQ"])
        (use x False in \<open>simp_all add: csp_route_check_hmac_def iface_key_def put_same_packet\<close>)
  qed
qed

lemma checks_rdp:
  assumes "in_hand p H i s" "k < length (ifaces s)"
  shows "checks p H i s (csp_route_check_rdp opts k p s)"
proof -
  from assms(1) obtain x where x: "get_packet p s = Some x" "packet_wf x" "pid x = i" by (auto simp: in_hand_def)
  show ?thesis by (rule checks_result [OF assms x(2), of "\<lambda>f. f\<lparr>if_rx_error := if_rx_error f + 1\<rparr>" CSP_ERR_INVAL _
          "\<not> (\<not> has_flag (flags (pid x)) CSP_FRDP \<and> has_flag opts CSP_SO_RDPREQ)"])
      (use x in \<open>simp_all add: csp_route_check_rdp_def iface_key_def put_same_packet\<close>)
qed

lemma checks_bind:
  assumes "checks p H i s m"
    "\<And>s'. in_hand p H i s' \<Longrightarrow> env s' = env s \<Longrightarrow> csp_hmac_key s' = csp_hmac_key s \<Longrightarrow> checks p H i s' (f s')"
  shows "checks p H i s (do { (r, s') \<leftarrow> m; (if r \<noteq> CSP_ERR_NONE then Some (r, s') else f s') })"
  using assms unfolding checks_def by fastforce

lemma security_checks:
  assumes "in_hand p H i s" "k < length (ifaces s)" "csp_hmac_key s \<noteq> []"
  shows "checks p H i s (csp_route_security_check opts k p s)"
  unfolding csp_route_security_check_def
proof (rule checks_bind [OF checks_crc32 [OF assms(1,2)]])
  fix s'
  assume s': "in_hand p H i s'" "env s' = env s" "csp_hmac_key s' = csp_hmac_key s"
  have k: "k < length (ifaces s')" using env_lengths(1) [OF s'(2)] assms(2) by simp
  show "checks p H i s' (do { (r, s) \<leftarrow> csp_route_check_hmac opts k p s';
      (if r \<noteq> CSP_ERR_NONE then Some (r, s) else csp_route_check_rdp opts k p s) })"
  proof (rule checks_bind [OF checks_hmac [OF s'(1) k]])
    show "csp_hmac_key s' \<noteq> []" using s'(3) assms(3) by simp
    fix s''
    assume "in_hand p H i s''" "env s'' = env s'"
    then show "checks p H i s'' (csp_route_check_rdp opts k p s'')" using checks_rdp [of p H i s'' k] env_lengths(1) [of s'' s'] k by simp
  qed
qed

end
