(* ===== verification/Csp_Delivery.thy ===== *)
theory Csp_Delivery
  imports Csp_Route
begin

text \<open>
  Properties of the router: whatever it does with a packet that does not use RDP, the buffer is accounted for and the
  connections stay consistent. The locale \<open>route_client\<close> is what the router needs of its environment: the
  transmit functions and the callbacks of the application.
\<close>

section \<open>Invariant of the connections\<close>

definition plain_conn :: "csp_conn_t \<Rightarrow> bool" where
  "plain_conn c \<longleftrightarrow> (c_state c = CONN_OPEN \<longrightarrow> \<not> has_flag (flags (idin c)) CSP_FRDP \<and> \<not> has_flag (flags (idout c)) CSP_FRDP)"

definition sock_ok :: "node \<Rightarrow> nat option \<Rightarrow> bool" where
  "sock_ok s d \<longleftrightarrow> (case d of None \<Rightarrow> True | Some k \<Rightarrow> k < length (sockets s) \<and> s_rx_queue (sockets s ! k) \<noteq> None)"

definition route_inv :: "node \<Rightarrow> bool" where
  "route_inv s \<longleftrightarrow> conn_inv s \<and> (\<forall>c \<in> set (arr_conn s). plain_conn c \<and> sock_ok s (dest_socket c))"

text \<open>The router is done with the packet.\<close>

definition routed :: "nat multiset \<Rightarrow> node \<Rightarrow> int csp \<Rightarrow> bool" where
  "routed H s m \<longleftrightarrow> (\<exists>s'. m = Some (CSP_ERR_NONE, s') \<and> accounts H s' \<and> env s' = env s \<and> route_inv s')"

lemma routed_env: "routed H s' m \<Longrightarrow> env s' = env s \<Longrightarrow> routed H s m"
  by (simp add: routed_def)

lemma sock_ok_env: "env s' = env s \<Longrightarrow> sock_ok s' d = sock_ok s d"
  using env_lengths(2) [of s' s] env_sock [of s' s]
  by (cases d) (simp_all add: sock_ok_def sock_key_def cong: conj_cong del: not_None_eq)

lemma route_inv_conns:
  assumes "route_inv s" "arr_conn s' = arr_conn s" "env s' = env s"
  shows "route_inv s'"
  using assms(1) conn_inv_cong [OF assms(2)] by (simp add: route_inv_def assms(2) sock_ok_env [OF assms(3)])

text \<open>A change of one connection that keeps its identity or closes it.\<close>

lemma conn_inv_upd:
  assumes "conn_inv s" "n < length (arr_conn s)" "arr_conn s' = (arr_conn s)[n := c]"
    "c_state c = CONN_OPEN \<Longrightarrow> c_state (arr_conn s ! n) = CONN_OPEN \<and> c_type c = c_type (arr_conn s ! n) \<and> idin c = idin (arr_conn s ! n)"
    "sport_outgoing c = sport_outgoing (arr_conn s ! n)"
  shows "conn_inv s'"
proof -
  have at: "arr_conn s' ! i = (if i = n then c else arr_conn s ! i)" if "i < CSP_CONN_MAX" for i
    using that assms(1,3) by (auto simp: conn_inv_def nth_list_update)
  have same: "c_state (arr_conn s' ! i) = CONN_OPEN \<longrightarrow> c_state (arr_conn s ! i) = CONN_OPEN \<and>
      c_type (arr_conn s' ! i) = c_type (arr_conn s ! i) \<and> idin (arr_conn s' ! i) = idin (arr_conn s ! i)"
    "sport_outgoing (arr_conn s' ! i) = sport_outgoing (arr_conn s ! i)" if "i < CSP_CONN_MAX" for i
    using at [OF that] assms(4,5) by auto
  have l: "length (arr_conn s') = CSP_CONN_MAX" using assms(1,3) by (simp add: conn_inv_def)
  have inv: "\<forall>i < CSP_CONN_MAX. sport_outgoing (arr_conn s ! i) = of_nat (CSP_PORT_MAX_BIND + 1 + i)"
    "\<And>i. i < CSP_CONN_MAX \<Longrightarrow> c_state (arr_conn s ! i) = CONN_OPEN \<Longrightarrow>
        (if c_type (arr_conn s ! i) = CONN_CLIENT then dport (idin (arr_conn s ! i)) = sport_outgoing (arr_conn s ! i)
         else unat (dport (idin (arr_conn s ! i))) \<le> CSP_PORT_MAX_BIND)"
    "\<And>i j. i < CSP_CONN_MAX \<Longrightarrow> j < CSP_CONN_MAX \<Longrightarrow> c_state (arr_conn s ! i) = CONN_OPEN \<Longrightarrow> c_state (arr_conn s ! j) = CONN_OPEN \<Longrightarrow>
        c_type (arr_conn s ! i) = CONN_SERVER \<Longrightarrow> c_type (arr_conn s ! j) = CONN_SERVER \<Longrightarrow>
        server_key (idin (arr_conn s ! i)) = server_key (idin (arr_conn s ! j)) \<Longrightarrow> i = j"
    using assms(1) unfolding conn_inv_def by blast+
  show ?thesis unfolding conn_inv_def
  proof (intro conjI allI impI l)
    fix i j
    assume a: "i < CSP_CONN_MAX" "j < CSP_CONN_MAX" "c_state (arr_conn s' ! i) = CONN_OPEN" "c_state (arr_conn s' ! j) = CONN_OPEN"
      "c_type (arr_conn s' ! i) = CONN_SERVER" "c_type (arr_conn s' ! j) = CONN_SERVER"
      "server_key (idin (arr_conn s' ! i)) = server_key (idin (arr_conn s' ! j))"
    show "i = j" by (rule inv(3) [OF a(1,2)]) (use a same(1) [OF a(1)] same(1) [OF a(2)] in simp_all)
  next
    fix i
    assume a: "i < CSP_CONN_MAX" "c_state (arr_conn s' ! i) = CONN_OPEN"
    then show "if c_type (arr_conn s' ! i) = CONN_CLIENT then dport (idin (arr_conn s' ! i)) = sport_outgoing (arr_conn s' ! i)
         else unat (dport (idin (arr_conn s' ! i))) \<le> CSP_PORT_MAX_BIND"
      using inv(2) [of i] same [OF a(1)] by (simp split: if_splits)
  qed (use inv(1) same(2) in simp)
qed

lemma route_inv_set:
  assumes "route_inv s" "conn_inv s'" "env s' = env s" "arr_conn s' = (arr_conn s)[n := c]" "plain_conn c" "sock_ok s (dest_socket c)"
  shows "route_inv s'"
  using assms(1,2,4,5,6) sock_ok_env [OF assms(3)]
  by (auto simp: route_inv_def dest!: set_update_subset_insert [THEN subsetD])

lemma route_inv_upd:
  assumes "route_inv s" "n < length (arr_conn s)" "arr_conn s' = (arr_conn s)[n := c]" "env s' = env s"
    "c_state c = CONN_OPEN \<Longrightarrow> c_state (arr_conn s ! n) = CONN_OPEN \<and> c_type c = c_type (arr_conn s ! n) \<and>
       idin c = idin (arr_conn s ! n) \<and> idout c = idout (arr_conn s ! n)"
    "sport_outgoing c = sport_outgoing (arr_conn s ! n)" "dest_socket c \<in> {None, dest_socket (arr_conn s ! n)}"
  shows "route_inv s'"
proof -
  have "conn_inv s'" using conn_inv_upd [OF _ assms(2,3) _ assms(6)] assms(1,5) by (auto simp: route_inv_def)
  moreover have "plain_conn c \<and> sock_ok s (dest_socket c)"
    using assms(1,2,5,7) nth_mem [OF assms(2)] by (auto simp: route_inv_def plain_conn_def sock_ok_def)
  ultimately show ?thesis using route_inv_set [OF assms(1) _ assms(4,3)] by blast
qed

section \<open>Delivery to a connection\<close>

lemma routed_discard:
  assumes "in_hand p H i s" "route_inv s"
  shows "routed H s (csp_route_discard p s)"
  using accounts_free [of p H s] assms route_inv_conns [OF assms(2), of "give_buffer p s"]
  by (simp add: routed_def csp_route_discard_def in_hand_def)

lemma routed_discard_env:
  assumes "in_hand p H i s'" "route_inv s'" "env s' = env s"
  shows "routed H s (csp_route_discard p s')"
  using routed_env [OF routed_discard [OF assms(1,2)] assms(3)] .

lemma close_plain:
  assumes "accounts H s" "route_inv s" "n < length (arr_conn s)" "c_state (arr_conn s ! n) = CONN_OPEN"
  shows "\<exists>s'. csp_close nh (Some n) s = Some (CSP_ERR_NONE, s') \<and> accounts H s' \<and> env s' = env s \<and> route_inv s'"
proof -
  let ?c = "arr_conn s ! n"
  have p: "\<not> has_flag (flags (idin ?c)) CSP_FRDP" "\<not> has_flag (flags (idout ?c)) CSP_FRDP"
    using assms(2,4) nth_mem [OF assms(3)] by (auto simp: route_inv_def plain_conn_def)
  from accounts_flush [OF assms(1,3)] obtain s1 q where s1: "csp_conn_flush_rx_queue n s = Some (CSP_ERR_NONE, s1)" "accounts H s1"
    "env s1 = env s" "arr_conn s1 = (arr_conn s)[n := ?c\<lparr>rx_queue := q\<rparr>]" by auto
  let ?s = "put_conn n (?c\<lparr>rx_queue := q, c_state := CONN_CLOSED\<rparr>) s1"
  have n: "n < length (arr_conn s1)" "arr_conn s1 ! n = ?c\<lparr>rx_queue := q\<rparr>" using s1(4) assms(3) by simp_all
  have "csp_close nh (Some n) s = Some (CSP_ERR_NONE, ?s)"
    using p s1(1) assms(3,4) n by (simp add: csp_close_def csp_conn_close_def get_conn_eq upd_conn_eq)
  moreover have "accounts H ?s" by (rule accounts_conn_same [OF s1(2) n(1)]) (simp add: n)
  moreover have "route_inv ?s" by (rule route_inv_upd [OF assms(2,3), of _ "?c\<lparr>rx_queue := q, c_state := CONN_CLOSED\<rparr>"]) (simp_all add: s1(3,4))
  ultimately show ?thesis using s1(3) by auto
qed

lemma accounts_socket_conn:
  assumes "accounts H s" "k < length (sockets s)" "s_rx_queue (sockets s ! k) = Some q" "items q \<noteq> qsize q"
  shows "accounts H (put_socket k ((sockets s ! k)\<lparr>s_rx_queue := Some (queue_push (Sock_Conn n) q)\<rparr>) s)"
proof -
  have "case s_rx_queue (sockets s ! k) of None \<Rightarrow> True | Some q \<Rightarrow> queue_wf q"
    using assms(1) nth_mem [OF assms(2)] unfolding accounts_def queues_inv_def by blast
  then have wf: "queue_wf q" using assms(3) by simp
  have r: "items q < qsize q" using wf assms(4) by (simp add: queue_wf_def)
  let ?k = "(sockets s ! k)\<lparr>s_rx_queue := Some (queue_push (Sock_Conn n) q)\<rparr>"
  have "mset (sock_packets ?k) + {#} = mset (sock_packets (sockets s ! k)) + {#}"
    using queue_push_list [OF wf r, of "Sock_Conn n"] assms(3) by (simp add: sock_packets_def item_packet_def)
  from accounts_put_socket [OF assms(1,2) _ this, of H] show ?thesis using queue_push_wf [OF wf r] by simp
qed

lemma env_put_socket:
  assumes "k < length (sockets s)" "sock_key sk = sock_key (sockets s ! k)"
  shows "env (put_socket k sk s) = env s"
proof -
  have "map sock_key ((sockets s)[k := sk]) = map sock_key (sockets s)"
    using assms by (simp add: map_update list_update_same_conv)
  then show ?thesis by (simp add: env_def put_socket_def)
qed

lemma put_socket_fields [simp]: "arr_conn (put_socket k sk s) = arr_conn s" "sockets (put_socket k sk s) = (sockets s)[k := sk]"
  by (simp_all add: put_socket_def)

lemma put_socket_same: "put_socket k (sockets s ! k) s = s"
  by (simp add: put_socket_def)

text \<open>The new connection is given to its socket.\<close>

lemma routed_announce:
  assumes "accounts H s" "route_inv s" "n < length (arr_conn s)" "c_state (arr_conn s ! n) = CONN_OPEN"
    "dest_socket (arr_conn s ! n) = Some k"
  shows "routed H s (do {
      sk \<leftarrow> get_socket k s;
      q \<leftarrow> s_rx_queue sk;
      (r, q) \<leftarrow> csp_queue_enqueue q (Sock_Conn n) 0;
      let s = put_socket k (sk\<lparr>s_rx_queue := Some q\<rparr>) s;
      (if r \<noteq> CSP_QUEUE_OK then do {
         (_, s) \<leftarrow> csp_close nh (Some n) (s\<lparr>csp_dbg_conn_ovf := csp_dbg_conn_ovf s + 1\<rparr>);
         Some (CSP_ERR_NONE, s)
       }
       else do {
         s \<leftarrow> upd_conn n (\<lambda>c. c\<lparr>dest_socket := None\<rparr>) s;
         Some (CSP_ERR_NONE, s)
       }) })" (is "routed H s ?m")
proof -
  have k: "k < length (sockets s)" "s_rx_queue (sockets s ! k) \<noteq> None"
    using assms(2,5) nth_mem [OF assms(3)] by (auto simp: route_inv_def sock_ok_def)
  then obtain q where q: "s_rx_queue (sockets s ! k) = Some q" by auto
  let ?sk = "\<lambda>q. (sockets s ! k)\<lparr>s_rx_queue := Some q\<rparr>"
  show ?thesis
  proof (cases "items q = qsize q")
    case True
    let ?s = "s\<lparr>csp_dbg_conn_ovf := csp_dbg_conn_ovf s + 1\<rparr>"
    have "?sk q = sockets s ! k" using q by (cases "sockets s ! k") simp
    then have "put_socket k (?sk q) s = s" by (simp only: put_socket_same)
    then have "?m = (do { (_, s) \<leftarrow> csp_close nh (Some n) ?s; Some (CSP_ERR_NONE, s) })"
      using True k q by (simp add: get_socket_def csp_queue_enqueue_full)
    moreover have "route_inv ?s" by (rule route_inv_conns [OF assms(2)]) simp_all
    ultimately show ?thesis using close_plain [of H ?s n nh] assms by (auto simp: routed_def)
  next
    case False
    let ?s = "put_socket k (?sk (queue_push (Sock_Conn n) q)) s"
    let ?s' = "put_conn n ((arr_conn s ! n)\<lparr>dest_socket := None\<rparr>) ?s"
    have e: "env ?s = env s" by (rule env_put_socket [OF k(1)]) (use k in \<open>simp add: sock_key_def\<close>)
    have a: "accounts H ?s" by (rule accounts_socket_conn [OF assms(1) k(1) q False])
    have "?m = Some (CSP_ERR_NONE, ?s')"
      using False k q assms(3) by (simp add: get_socket_def csp_queue_enqueue_room upd_conn_eq)
    moreover have "accounts H ?s'" by (rule accounts_conn_same [OF a]) (use assms(3) in simp_all)
    moreover have "route_inv ?s'"
      by (rule route_inv_upd [OF assms(2,3), of _ "(arr_conn s ! n)\<lparr>dest_socket := None\<rparr>"]) (use e assms(4) in simp_all)
    ultimately show ?thesis using e by (simp add: routed_def)
  qed
qed

lemma routed_to_conn:
  assumes "in_hand p H i s" "\<not> has_flag (flags i) CSP_FRDP" "route_inv s" "n < length (arr_conn s)" "c_state (arr_conn s ! n) = CONN_OPEN"
  shows "routed H s (csp_route_to_conn nh n p s)"
proof -
  from assms(1) obtain x where x: "get_packet p s = Some x" "packet_wf x" "pid x = i" "accounts (held_with (Some p) H) s"
    by (auto simp: in_hand_def)
  let ?c = "arr_conn s ! n"
  from accounts_conn_enqueue [OF x(4) assms(4)] obtain r s1 where s1: "csp_conn_enqueue_packet (Some n) (Some p) s = Some (r, s1)"
    "env s1 = env s" "get_packet p s1 = get_packet p s" "sockets s1 = sockets s"
    "if items (rx_queue ?c) < qsize (rx_queue ?c) then r = CSP_ERR_NONE \<and> accounts H s1 \<and>
       arr_conn s1 = (arr_conn s)[n := ?c\<lparr>rx_queue := queue_push (Some p) (rx_queue ?c)\<rparr>]
     else r = CSP_ERR_NOMEM \<and> accounts (held_with (Some p) H) s1 \<and> arr_conn s1 = arr_conn s" by blast
  show ?thesis
  proof (cases "items (rx_queue ?c) < qsize (rx_queue ?c)")
    case False
    let ?s = "s1\<lparr>csp_dbg_conn_ovf := csp_dbg_conn_ovf s1 + 1\<rparr>"
    have "csp_route_to_conn nh n p s = csp_route_discard p ?s"
      using x assms(2) s1 False by (simp add: csp_route_to_conn_def)
    moreover have "route_inv ?s" by (rule route_inv_conns [OF assms(3)]) (use s1 False in simp_all)
    moreover have "in_hand p H i ?s" using s1 False x by (simp add: in_hand_def)
    ultimately show ?thesis using routed_discard_env [of p H i ?s s] s1(2) by simp
  next
    case True
    let ?d = "?c\<lparr>rx_queue := queue_push (Some p) (rx_queue ?c)\<rparr>"
    have a: "accounts H s1" "r = CSP_ERR_NONE" "arr_conn s1 = (arr_conn s)[n := ?d]" using s1(5) True by simp_all
    have inv: "route_inv s1" by (rule route_inv_upd [OF assms(3,4) a(3) s1(2)]) (use assms(5) in simp_all)
    have n: "n < length (arr_conn s1)" "arr_conn s1 ! n = ?d" using a(3) assms(4) by simp_all
    show ?thesis
    proof (cases "dest_socket ?c")
      case None
      then have "csp_route_to_conn nh n p s = Some (CSP_ERR_NONE, s1)"
        using x assms(2) s1(1) a n by (simp add: csp_route_to_conn_def get_conn_eq)
      then show ?thesis using a inv s1(2) by (simp add: routed_def)
    next
      case (Some k)
      have "routed H s1 (csp_route_to_conn nh n p s)"
        using routed_announce [OF a(1) inv n(1), of k nh] x assms(2,5) s1(1) a(2) n Some
        by (simp add: csp_route_to_conn_def get_conn_eq)
      then show ?thesis using routed_env s1(2) by blast
    qed
  qed
qed

section \<open>Delivery to a port\<close>

lemma port_get_socket:
  assumes "env_inv s"
  shows "\<exists>r. csp_port_get_socket d s = Some r \<and> (\<forall>k. r = Some k \<longrightarrow> d \<le> CSP_PORT_MAX_BIND) \<and> sock_ok s r"
proof -
  have l: "length (ports s) = CSP_PORT_MAX_BIND + 2" using assms by (simp add: env_inv_def)
  have ok: "sock_ok s (Some (p_ptr (ports s ! i)))" if "i < length (ports s)" "p_state (ports s ! i) = PORT_OPEN" for i
    using assms that nth_mem [OF that(1)] by (auto simp: env_inv_def sock_ok_def)
  have n: "sock_ok s None" by (simp add: sock_ok_def)
  show ?thesis using l ok [of d] ok [of "CSP_PORT_MAX_BIND + 1"] n
    by (cases "d > CSP_PORT_MAX_BIND") (auto simp: csp_port_get_socket_def port_at_def)
qed

lemma port_get_callback:
  assumes "env_inv s"
  shows "\<exists>r. csp_port_get_callback d s = Some r"
  using assms by (cases "d > CSP_PORT_MAX_BIND") (auto simp: csp_port_get_callback_def port_at_def env_inv_def)

lemma accounts_socket_packet:
  assumes "accounts (add_mset p H) s" "k < length (sockets s)" "s_rx_queue (sockets s ! k) = Some q" "items q \<noteq> qsize q"
  shows "accounts H (put_socket k ((sockets s ! k)\<lparr>s_rx_queue := Some (queue_push (Sock_Packet p) q)\<rparr>) s)"
proof -
  have "case s_rx_queue (sockets s ! k) of None \<Rightarrow> True | Some q \<Rightarrow> queue_wf q"
    using assms(1) nth_mem [OF assms(2)] unfolding accounts_def queues_inv_def by blast
  then have wf: "queue_wf q" using assms(3) by simp
  have r: "items q < qsize q" using wf assms(4) by (simp add: queue_wf_def)
  let ?k = "(sockets s ! k)\<lparr>s_rx_queue := Some (queue_push (Sock_Packet p) q)\<rparr>"
  have "mset (sock_packets ?k) + {#} = mset (sock_packets (sockets s ! k)) + {#p#}"
    using queue_push_list [OF wf r, of "Sock_Packet p"] assms(3) by (simp add: sock_packets_def item_packet_def)
  from accounts_put_socket [OF assms(1,2) _ this, of H] show ?thesis using queue_push_wf [OF wf r] by simp
qed

text \<open>After a check the packet is discarded or handed on.\<close>

lemma routed_checked:
  assumes "checks p H i s m" "route_inv s"
    "\<And>s'. in_hand p H i s' \<Longrightarrow> env s' = env s \<Longrightarrow> arr_conn s' = arr_conn s \<Longrightarrow> sockets s' = sockets s \<Longrightarrow> route_inv s' \<Longrightarrow> routed H s' (f s')"
  shows "routed H s (do { (r, s) \<leftarrow> m; (if r < 0 then csp_route_discard p s else f s) })"
proof -
  from assms(1) obtain r s' where m: "m = Some (r, s')" "in_hand p H i s'" "env s' = env s" "arr_conn s' = arr_conn s"
    "sockets s' = sockets s" by (auto simp: checks_def)
  have inv: "route_inv s'" by (rule route_inv_conns [OF assms(2) m(4,3)])
  have "routed H s' (if r < 0 then csp_route_discard p s' else f s')"
    using assms(3) [OF m(2-5) inv] routed_discard [OF m(2) inv] by simp
  then show ?thesis using m(1,3) routed_env by simp
qed

lemma env_inv_facts:
  assumes "env_inv s" "env s' = env s"
  shows "env_inv s'" "csp_hmac_key s' \<noteq> []" "length (arr_conn s') = CSP_CONN_MAX"
  using env_inv_env [OF assms(2,1)] by (auto simp: env_inv_def)

lemma routed_connless:
  assumes "in_hand p H i s" "route_inv s" "sock_ok s (Some k)"
  shows "routed H s (do {
      sk \<leftarrow> get_socket k s;
      q \<leftarrow> s_rx_queue sk;
      (r, q) \<leftarrow> csp_queue_enqueue q (Sock_Packet p) 0;
      let s = put_socket k (sk\<lparr>s_rx_queue := Some q\<rparr>) s;
      (if r \<noteq> CSP_QUEUE_OK then csp_route_discard p (s\<lparr>csp_dbg_conn_ovf := csp_dbg_conn_ovf s + 1\<rparr>)
       else Some (CSP_ERR_NONE, s)) })" (is "routed H s ?m")
proof -
  from assms(3) obtain q where k: "k < length (sockets s)" "s_rx_queue (sockets s ! k) = Some q" by (auto simp: sock_ok_def)
  let ?sk = "\<lambda>q. (sockets s ! k)\<lparr>s_rx_queue := Some q\<rparr>"
  show ?thesis
  proof (cases "items q = qsize q")
    case True
    let ?s = "s\<lparr>csp_dbg_conn_ovf := csp_dbg_conn_ovf s + 1\<rparr>"
    have "?sk q = sockets s ! k" using k by (cases "sockets s ! k") simp
    then have "put_socket k (?sk q) s = s" by (simp only: put_socket_same)
    then have "?m = csp_route_discard p ?s" using True k by (simp add: get_socket_def csp_queue_enqueue_full)
    moreover have "route_inv ?s" by (rule route_inv_conns [OF assms(2)]) simp_all
    moreover have "in_hand p H i ?s" using assms(1) by (simp add: in_hand_def)
    ultimately show ?thesis using routed_discard_env [of p H i ?s s] by simp
  next
    case False
    let ?s = "put_socket k (?sk (queue_push (Sock_Packet p) q)) s"
    have e: "env ?s = env s" by (rule env_put_socket [OF k(1)]) (use k in \<open>simp add: sock_key_def\<close>)
    have "accounts H ?s" using accounts_socket_packet [OF _ k False] assms(1) by (simp add: in_hand_def)
    moreover have "route_inv ?s" by (rule route_inv_conns [OF assms(2) _ e]) simp
    moreover have "?m = Some (CSP_ERR_NONE, ?s)" using False k by (simp add: get_socket_def csp_queue_enqueue_room)
    ultimately show ?thesis using e by (simp add: routed_def)
  qed
qed

lemma routed_new_conn:
  assumes "in_hand p H i s" "\<not> has_flag (flags i) CSP_FRDP" "env_inv s" "route_inv s" "f < length (ifaces s)"
    "csp_conn_find_existing i s = None" "sock_ok s socket" "\<forall>k. socket = Some k \<longrightarrow> unat (dport i) \<le> CSP_PORT_MAX_BIND"
  shows "routed H s (csp_route_new_conn nh f p socket s)"
proof (cases socket)
  case None
  then show ?thesis using routed_discard [OF assms(1,4)] by (simp add: csp_route_new_conn_def)
next
  case (Some k)
  have k: "k < length (sockets s)" using assms(7) Some by (simp add: sock_ok_def)
  let ?f = "\<lambda>s. do {
      x \<leftarrow> get_packet p s;
      (conn, s) \<leftarrow> csp_conn_new (pid x) (reply_id (pid x)) CONN_SERVER s;
      (case conn of
         None \<Rightarrow> csp_route_discard p (s\<lparr>csp_dbg_conn_out := csp_dbg_conn_out s + 1\<rparr>)
       | Some n \<Rightarrow> do {
           sk \<leftarrow> get_socket k s;
           s \<leftarrow> upd_conn n (\<lambda>c. c\<lparr>dest_socket := Some k, c_opts := s_opts sk\<rparr>) s;
           csp_route_to_conn nh n p s
         }) }"
  have "routed H s (do { (r, s) \<leftarrow> csp_route_security_check (s_opts (sockets s ! k)) f p s;
      (if r < 0 then csp_route_discard p s else ?f s) })"
  proof (rule routed_checked [OF security_checks [OF assms(1,5) env_inv_facts(2) [OF assms(3) refl]] assms(4)])
    fix t
    assume t: "in_hand p H i t" "env t = env s" "arr_conn t = arr_conn s" "sockets t = sockets s" "route_inv t"
    from t(1) obtain x where x: "get_packet p t = Some x" "packet_wf x" "pid x = i" "accounts (add_mset p H) t" by (auto simp: in_hand_def)
    have l: "length (arr_conn t) = CSP_CONN_MAX" using env_inv_facts(3) [OF assms(3) t(2)] .
    from accounts_conn_new [OF x(4) l, of i "reply_id i" CONN_SERVER] obtain t1 q where t1:
      "csp_conn_new i (reply_id i) CONN_SERVER t = Some (next_conn t, t1)" "accounts (add_mset p H) t1" "env t1 = env t"
      "\<forall>k. get_packet k t1 = get_packet k t" "sockets t1 = sockets t"
      "case next_conn t of None \<Rightarrow> arr_conn t1 = arr_conn t
       | Some n \<Rightarrow> queue_list q = [] \<and> queue_wf q \<and> qsize q = qsize (rx_queue (arr_conn t ! n)) \<and>
           arr_conn t1 = (arr_conn t)[n := (fresh_conn i (reply_id i) CONN_SERVER (now t) (arr_conn t ! n))\<lparr>rx_queue := q\<rparr>]"
      by blast
    have hand: "in_hand p H i t1" using t1(2,4) x by (simp add: in_hand_def)
    show "routed H t (?f t)"
    proof (cases "next_conn t")
      case None
      let ?t = "t1\<lparr>csp_dbg_conn_out := csp_dbg_conn_out t1 + 1\<rparr>"
      have "route_inv ?t" by (rule route_inv_conns [OF t(5)]) (use t1 None in simp_all)
      moreover have "in_hand p H i ?t" using hand by (simp add: in_hand_def)
      ultimately show ?thesis using routed_discard_env [of p H i ?t t] t1 None x by simp
    next
      case (Some n)
      let ?c = "(fresh_conn i (reply_id i) CONN_SERVER (now t) (arr_conn t ! n))
        \<lparr>rx_queue := q, dest_socket := Some k, c_opts := s_opts (sockets t ! k)\<rparr>"
      let ?t = "put_conn n ?c t1"
      have n: "n < CSP_CONN_MAX" using next_conn_Some [OF Some] by simp
      have arr: "arr_conn ?t = (arr_conn t)[n := ?c]" "n < length (arr_conn t1)" using t1(6) Some n l by simp_all
      have "csp_conn_find_existing i t = None" using assms(6) t(3) by (simp add: csp_conn_find_existing_def)
      then have ci: "conn_inv ?t"
        using conn_inv_new_server [OF _ _ _ n arr(1)] t(5) assms(8) \<open>socket = Some k\<close> by (simp add: route_inv_def)
      have e: "env ?t = env s" using t1(3) t(2) by simp
      have "plain_conn ?c" using assms(2) by (simp add: plain_conn_def reply_id_def)
      moreover have "sock_ok t (dest_socket ?c)" using sock_ok_env [OF t(2)] assms(7) \<open>socket = Some k\<close> by simp
      moreover have "env ?t = env t" using t1(3) by simp
      ultimately have inv: "route_inv ?t" using route_inv_set [OF t(5) ci _ arr(1)] by blast
      have "rx_queue ?c = rx_queue (arr_conn t1 ! n)" using t1(6) Some n l by simp
      then have "accounts (add_mset p H) ?t" using accounts_conn_same [OF t1(2) arr(2)] by blast
      then have "in_hand p H i ?t" using hand by (simp add: in_hand_def)
      then have "routed H ?t (csp_route_to_conn nh n p ?t)"
        using routed_to_conn [OF _ assms(2) inv, of p H n nh] arr l n by simp
      moreover have "?f t = csp_route_to_conn nh n p ?t"
        using x t1 Some n l k t(4) by (simp add: get_socket_def upd_conn_eq)
      ultimately have "routed H ?t (?f t)" by (simp only:)
      then show ?thesis by (rule routed_env) (simp only: e t(2))
    qed
  qed
  then show ?thesis using Some k by (simp add: csp_route_new_conn_def get_socket_def)
qed

lemma routed_socket:
  assumes "in_hand p H i s" "\<not> has_flag (flags i) CSP_FRDP" "env_inv s" "route_inv s" "f < length (ifaces s)"
  shows "routed H s (csp_route_socket nh f p s)"
proof -
  from assms(1) obtain x where x: "get_packet p s = Some x" "pid x = i" by (auto simp: in_hand_def)
  from port_get_socket [OF assms(3)] obtain r where r: "csp_port_get_socket (unat (dport i)) s = Some r"
    "\<forall>k. r = Some k \<longrightarrow> unat (dport i) \<le> CSP_PORT_MAX_BIND" "sock_ok s r" by blast
  note chk = security_checks [OF assms(1,5) env_inv_facts(2) [OF assms(3) refl]]
  obtain so where so: "(case r of None \<Rightarrow> Some 0 | Some k \<Rightarrow> do { sk \<leftarrow> get_socket k s; Some (s_opts sk) }) = Some so"
    using r(3) by (cases r) (auto simp: sock_ok_def get_socket_def)
  let ?conn = "case csp_conn_find_existing i s of
         None \<Rightarrow> csp_route_new_conn nh f p r s
       | Some n \<Rightarrow> do {
           c \<leftarrow> get_conn n s;
           (r, s) \<leftarrow> csp_route_security_check (c_opts c) f p s;
           (if r < 0 then csp_route_discard p s
            else csp_route_to_conn nh n p s)
         }"
  show ?thesis
  proof (cases "r \<noteq> None \<and> has_flag so CSP_SO_CONN_LESS")
    case True
    then obtain k where k: "r = Some k" by blast
    let ?f = "\<lambda>s. do {
           sk \<leftarrow> get_socket k s;
           q \<leftarrow> s_rx_queue sk;
           (r, q) \<leftarrow> csp_queue_enqueue q (Sock_Packet p) 0;
           let s = put_socket k (sk\<lparr>s_rx_queue := Some q\<rparr>) s;
           (if r \<noteq> CSP_QUEUE_OK then csp_route_discard p (s\<lparr>csp_dbg_conn_ovf := csp_dbg_conn_ovf s + 1\<rparr>)
            else Some (CSP_ERR_NONE, s)) }"
    have "csp_route_socket nh f p s = (do { (r, s) \<leftarrow> csp_route_security_check so f p s;
        (if r < 0 then csp_route_discard p s else ?f s) })"
      using True x r(1) so k by (simp add: csp_route_socket_def del: CSP_SO_CONN_LESS_def CSP_QUEUE_OK_def)
    moreover have "routed H s (do { (r, s) \<leftarrow> csp_route_security_check so f p s;
        (if r < 0 then csp_route_discard p s else ?f s) })"
    proof (rule routed_checked [OF chk assms(4)])
      fix t
      assume t: "in_hand p H i t" "env t = env s" "route_inv t"
      have "sock_ok t (Some k)" using sock_ok_env [OF t(2), of "Some k"] r(3) k by simp
      from routed_connless [OF t(1,3) this] show "routed H t (?f t)" .
    qed
    ultimately show ?thesis by (simp only:)
  next
    case False
    have "csp_route_socket nh f p s = ?conn"
      using False x r(1) so by (auto simp: csp_route_socket_def simp del: CSP_SO_CONN_LESS_def)
    moreover have "routed H s ?conn"
    proof (cases "csp_conn_find_existing i s")
      case None
      then show ?thesis using routed_new_conn [OF assms None r(3,2)] by simp
    next
      case (Some n)
      have n: "n < length (arr_conn s)" "c_state (arr_conn s ! n) = CONN_OPEN"
        using find_existing_Some [OF Some] assms(4) by (simp_all add: existing_match_def route_inv_def conn_inv_def)
      have "routed H s (do { (r, s) \<leftarrow> csp_route_security_check (c_opts (arr_conn s ! n)) f p s;
          (if r < 0 then csp_route_discard p s else csp_route_to_conn nh n p s) })"
      proof (rule routed_checked [OF chk assms(4)])
        fix t
        assume "in_hand p H i t" "arr_conn t = arr_conn s" "route_inv t"
        then show "routed H t (csp_route_to_conn nh n p t)" using routed_to_conn [OF _ assms(2)] n by simp
      qed
      then show ?thesis using Some n by (simp add: get_conn_eq)
    qed
    ultimately show ?thesis by (simp only:)
  qed
qed

section \<open>The contract of the router's environment\<close>

text \<open>A destination that belongs to this node: the address of the interface, or its broadcast address.\<close>

definition for_me :: "node \<Rightarrow> nat \<Rightarrow> csp_id_t \<Rightarrow> bool" where
  "for_me s f i \<longleftrightarrow> if_addr (ifaces s ! f) = dst i \<or>
     (\<forall>b < unat (csp_id_get_host_bits (csp_conf s)) - unat (if_netmask (ifaces s ! f)). bit (dst i) b)"

lemma is_to_me_eq:
  assumes "env_inv s" "f < length (ifaces s)" "pid x = i"
  shows "is_to_me (csp_conf s) (ifaces s ! f) x = Some (for_me s f i)"
  using csp_id_is_broadcast_iff [of "if_netmask (ifaces s ! f)" "csp_conf s" "dst i"] assms nth_mem [OF assms(2)]
  by (simp add: is_to_me_def for_me_def env_inv_def masks_ok_def)

lemma for_me_env: "env s' = env s \<Longrightarrow> f < length (ifaces s) \<Longrightarrow> for_me s' f i = for_me s f i"
  using env_iface [of s' s f] by (simp add: for_me_def iface_key_def) (simp add: env_def)

locale route_client = nexthop_contract nexthop for nexthop :: nexthop_t +
  fixes callback :: callback_t
  assumes callback_takes: "in_hand p H i s \<Longrightarrow> env_inv s \<Longrightarrow> route_inv s \<Longrightarrow>
    \<exists>s'. callback f p s = Some ((), s') \<and> accounts H s' \<and> env s' = env s \<and> route_inv s'"
begin

lemma routed_local:
  assumes "in_hand p H i s" "\<not> has_flag (flags i) CSP_FRDP" "env_inv s" "route_inv s" "f < length (ifaces s)"
  shows "routed H s (csp_route_local nexthop callback f p s)"
proof -
  from assms(1) obtain x where x: "get_packet p s = Some x" "pid x = i" by (auto simp: in_hand_def)
  from port_get_callback [OF assms(3)] obtain r where r: "csp_port_get_callback (unat (dport i)) s = Some r" by blast
  show ?thesis
  proof (cases r)
    case None
    then show ?thesis using routed_socket [OF assms, of nexthop] x r by (simp add: csp_route_local_def csp_route_check_options_def)
  next
    case (Some cb)
    have "routed H s (do { (r, s) \<leftarrow> csp_route_security_check CSP_SO_NONE f p s;
        (if r < 0 then csp_route_discard p s else do { (_, s) \<leftarrow> callback cb p s; Some (CSP_ERR_NONE, s) }) })"
    proof (rule routed_checked [OF security_checks [OF assms(1,5) env_inv_facts(2) [OF assms(3) refl]] assms(4)])
      fix t
      assume t: "in_hand p H i t" "env t = env s" "route_inv t"
      from callback_takes [OF t(1) env_inv_facts(1) [OF assms(3) t(2)] t(3), of cb]
      show "routed H t (do { (_, s) \<leftarrow> callback cb p t; Some (CSP_ERR_NONE, s) })" by (auto simp: routed_def)
    qed
    then show ?thesis using Some x r by (simp add: csp_route_local_def csp_route_check_options_def)
  qed
qed

text \<open>The first half of the router's work: counting and the search for duplicates.\<close>

lemma in_hand_promisc:
  assumes "in_hand p H i s"
  shows "\<exists>s'. csp_promisc_add p s = Some ((), s') \<and> in_hand p H i s' \<and> env s' = env s \<and> arr_conn s' = arr_conn s"
proof -
  from assms obtain x where x: "accounts (add_mset p H) s" "get_packet p s = Some x" "packet_wf x" "pid x = i" by (auto simp: in_hand_def)
  from accounts_promisc_add [OF x(1,2)] x(3) obtain s' where s': "csp_promisc_add p s = Some ((), s')" "env s' = env s"
    "accounts (add_mset p H) s'" "get_packet p s' = Some x" by (auto simp: packet_wf_def)
  then show ?thesis using x send_frame_fields(1) [OF promisc_add_frame [OF s'(1)]] by (auto simp: in_hand_def)
qed

lemma in_hand_dedup:
  assumes "in_hand p H i s" "env_inv s"
  shows "\<exists>r s'. csp_dedup_is_duplicate p s = Some (r, s') \<and> in_hand p H i s' \<and> env s' = env s \<and> arr_conn s' = arr_conn s"
proof -
  from assms obtain x where x: "accounts (add_mset p H) s" "get_packet p s = Some x" "packet_wf x" "pid x = i" by (auto simp: in_hand_def)
  from accounts_dedup [OF x(1-3)] assms(2) obtain r s' y where s': "csp_dedup_is_duplicate p s = Some (r, s')" "accounts (add_mset p H) s'"
    "env s' = env s" "get_packet p s' = Some y" "packet_wf y" "pid y = pid x" by (auto simp: env_inv_def)
  have "arr_conn s' = arr_conn s" using s'(1)
    by (auto simp: csp_dedup_is_duplicate_def bind_Some_iff Let_def split: if_splits)
  then show ?thesis using s' x(4) by (auto simp: in_hand_def)
qed

lemma in_hand_count:
  assumes "in_hand p H i s" "f < length (ifaces s)" "\<And>f. iface_key (g f) = iface_key f"
  shows "\<exists>s'. upd_iface f g s = Some s' \<and> in_hand p H i s' \<and> env s' = env s \<and> arr_conn s' = arr_conn s"
  using upd_iface_counter [OF assms(2), of g] assms(1,3) by auto

text \<open>What is left to do after counting and the search for duplicates.\<close>

lemma route_packet_cases:
  assumes "in_hand p H i s" "env_inv s" "route_inv s" "f < length (ifaces s)"
  shows "\<exists>t. in_hand p H i t \<and> env t = env s \<and> route_inv t \<and>
    (csp_route_packet nexthop callback f p s = csp_route_discard p t \<or>
     csp_route_packet nexthop callback f p s =
       (if for_me s f i then csp_route_local nexthop callback f p t
        else do { (_, s) \<leftarrow> csp_send_direct nexthop i p (Some f) t; Some (CSP_ERR_NONE, s) }))"
proof -
  from in_hand_promisc [OF assms(1)] obtain s1 where s1: "csp_promisc_add p s = Some ((), s1)" "in_hand p H i s1" "env s1 = env s"
    "arr_conn s1 = arr_conn s" by blast
  from s1(2) obtain x where x: "get_packet p s1 = Some x" "packet_wf x" "pid x = i" by (auto simp: in_hand_def)
  let ?g = "\<lambda>f. f\<lparr>if_rx := if_rx f + 1, if_rxbytes := if_rxbytes f + ucast (plen x)\<rparr>"
  have f1: "f < length (ifaces s1)" using env_lengths(1) [OF s1(3)] assms(4) by simp
  from in_hand_count [OF s1(2) f1, of ?g] obtain s2 where s2: "upd_iface f ?g s1 = Some s2" "in_hand p H i s2" "env s2 = env s"
    "arr_conn s2 = arr_conn s" using s1(3,4) by (auto simp: iface_key_def)
  have e2: "env_inv s2" by (rule env_inv_facts(1) [OF assms(2) s2(3)])
  have f2: "f < length (ifaces s2)" using env_lengths(1) [OF s2(3)] assms(4) by simp
  have me: "is_to_me (csp_conf s2) (ifaces s2 ! f) x = Some (for_me s f i)"
    using is_to_me_eq [OF e2 f2 x(3)] for_me_env [OF s2(3) assms(4)] by simp
  let ?d = "dedup (csp_conf s2)"
  let ?search = "?d = CSP_DEDUP_ALL \<or> for_me s f i \<and> ?d = CSP_DEDUP_INCOMING \<or> \<not> for_me s f i \<and> ?d = CSP_DEDUP_FWD"
  obtain dup s3 where s3: "(if ?search then csp_dedup_is_duplicate p s2 else Some (False, s2)) = Some (dup, s3)"
    "in_hand p H i s3" "env s3 = env s" "arr_conn s3 = arr_conn s"
  proof (cases ?search)
    case True
    from in_hand_dedup [OF s2(2) e2] obtain r t where "csp_dedup_is_duplicate p s2 = Some (r, t)" "in_hand p H i t" "env t = env s"
      "arr_conn t = arr_conn s" using s2(3,4) by auto
    with True show thesis by (intro that [of r t]) (simp_all only: if_True)
  next
    case False
    with s2 show thesis by (intro that [of False s2]) (simp_all only: if_False)
  qed
  from s3(2) obtain y where y: "get_packet p s3 = Some y" "pid y = i" by (auto simp: in_hand_def)
  have inv3: "route_inv s3" by (rule route_inv_conns [OF assms(3) s3(4,3)])
  have f3: "f < length (ifaces s3)" using env_lengths(1) [OF s3(3)] assms(4) by simp
  from in_hand_count [OF s3(2) f3, of "\<lambda>f. f\<lparr>if_drop := if_drop f + 1\<rparr>"] obtain s4 where
    s4: "upd_iface f (\<lambda>f. f\<lparr>if_drop := if_drop f + 1\<rparr>) s3 = Some s4" "in_hand p H i s4" "env s4 = env s" "arr_conn s4 = arr_conn s"
    using s3(3,4) by (auto simp: iface_key_def)
  have inv4: "route_inv s4" by (rule route_inv_conns [OF assms(3) s4(4,3)])
  have "csp_route_packet nexthop callback f p s = (if dup then csp_route_discard p s4
      else if \<not> for_me s f i then do { (_, s) \<leftarrow> csp_send_direct nexthop i p (Some f) s3; Some (CSP_ERR_NONE, s) }
      else csp_route_local nexthop callback f p s3)"
    using s1(1) x s2(1) f2 me s3(1) s4(1) y
    by (simp add: csp_route_packet_def get_iface_def Let_def del: CSP_DEDUP_ALL_def CSP_DEDUP_INCOMING_def CSP_DEDUP_FWD_def)
  then show ?thesis using s3 s4 inv3 inv4 by (cases dup) auto
qed

lemma routed_packet_local:
  assumes "in_hand p H i s" "\<not> has_flag (flags i) CSP_FRDP" "env_inv s" "route_inv s" "f < length (ifaces s)" "for_me s f i"
  shows "routed H s (csp_route_packet nexthop callback f p s)"
proof -
  from route_packet_cases [OF assms(1,3,4,5)] assms(6) obtain t where t: "in_hand p H i t" "env t = env s" "route_inv t"
    "csp_route_packet nexthop callback f p s \<in> {csp_route_discard p t, csp_route_local nexthop callback f p t}" by auto
  have "f < length (ifaces t)" using env_lengths(1) [OF t(2)] assms(5) by simp
  from routed_local [OF t(1) assms(2) env_inv_facts(1) [OF assms(3) t(2)] t(3) this] routed_discard [OF t(1,3)] t(4)
  have "routed H t (csp_route_packet nexthop callback f p s)" by auto
  then show ?thesis by (rule routed_env) (rule t(2))
qed

lemma routed_packet:
  assumes "in_hand p H i s" "\<not> has_flag (flags i) CSP_FRDP" "env_inv s" "route_inv s" "f < length (ifaces s)"
    "csp_route_packet nexthop callback f p s = Some (r, s')"
  shows "routed H s (Some (r, s'))"
proof (cases "for_me s f i")
  case True
  then show ?thesis using routed_packet_local [OF assms(1-5)] assms(6) by simp
next
  case False
  with route_packet_cases [OF assms(1,3,4,5)] obtain t where t: "in_hand p H i t" "env t = env s" "route_inv t"
    "csp_route_packet nexthop callback f p s = csp_route_discard p t \<or>
     csp_route_packet nexthop callback f p s = (do { (_, s) \<leftarrow> csp_send_direct nexthop i p (Some f) t; Some (CSP_ERR_NONE, s) })" by auto
  from t(4) have "routed H t (Some (r, s'))"
  proof
    assume "csp_route_packet nexthop callback f p s = csp_route_discard p t"
    then show ?thesis using routed_discard [OF t(1,3)] assms(6) by simp
  next
    assume "csp_route_packet nexthop callback f p s = (do { (_, s) \<leftarrow> csp_send_direct nexthop i p (Some f) t; Some (CSP_ERR_NONE, s) })"
    with assms(6) have "(do { (_, s) \<leftarrow> csp_send_direct nexthop i p (Some f) t; Some (CSP_ERR_NONE, s) }) = Some (r, s')" by simp
    then have d: "csp_send_direct nexthop i p (Some f) t = Some ((), s')" "r = CSP_ERR_NONE" by (auto simp: bind_Some_iff)
    from t(1) obtain x where x: "accounts (add_mset p H) t" "get_packet p t = Some x" "packet_wf x" by (auto simp: in_hand_def)
    from accounts_send_direct [OF d(1) x env_inv_facts(1) [OF assms(3) t(2)]] have a: "accounts H s'" "env s' = env t" by auto
    have "route_inv s'" using route_inv_conns [OF t(3) _ a(2)] send_frame_fields(1) [OF send_direct_frame [OF d(1)]] by simp
    then show ?thesis using a d(2) by (simp add: routed_def)
  qed
  then show ?thesis by (rule routed_env) (rule t(2))
qed

end

text \<open>A callback that drops its packets keeps the contract.\<close>

interpretation drop: route_client csp_lo_tx "\<lambda>f p. csp_buffer_free (Some p)"
proof (unfold_locales, goal_cases)
  case (1 p H i s f)
  then have a: "accounts (add_mset p H) s" by (simp add: in_hand_def)
  have "route_inv (give_buffer p s)" by (rule route_inv_conns [OF 1(3)]) simp_all
  then show ?case using accounts_free [OF a] by simp
qed

section \<open>One round of the router\<close>

lemma no_timeouts:
  assumes "route_inv s"
  shows "csp_conn_check_timeouts nh s = Some ((), s)"
proof -
  have "csp_conn_check_timeouts_loop is nh s = Some ((), s)" if "\<forall>i \<in> set is. i < CSP_CONN_MAX" for "is"
    using that
  proof (induction "is")
    case Nil
    then show ?case by simp
  next
    case (Cons i "is")
    have l: "i < length (arr_conn s)" using assms Cons.prems by (simp add: route_inv_def conn_inv_def)
    have "csp_conn_check_timeout nh i s = Some ((), s)"
      using assms nth_mem [OF l] l by (auto simp: csp_conn_check_timeout_def get_conn_eq route_inv_def plain_conn_def)
    then show ?case using Cons by simp
  qed
  then show ?thesis by (simp add: csp_conn_check_timeouts_def del: upt_rec_numeral)
qed

lemma route_work_head:
  assumes "route_inv s" "accounts H s" "queue_list (qfifo_queue s) = \<lparr>q_iface = Some f, q_packet = Some p\<rparr> # es"
    "get_packet p s = Some x" "packet_wf x"
  shows "\<exists>t. in_hand p H (pid x) t \<and> env t = env s \<and> route_inv t \<and> csp_route_work nh cb s = csp_route_packet nh cb f p t"
proof -
  let ?q = "qfifo_queue s" and ?t = "s\<lparr>qfifo_queue := queue_pop (qfifo_queue s)\<rparr>"
  have wf: "queue_wf ?q" using assms(2) by (simp add: accounts_def queues_inv_def)
  have i: "0 < items ?q" using assms(3) by (metis length_queue_list length_greater_0_conv list.distinct(1))
  have b: "buffer ?q ! q_out ?q = Some \<lparr>q_iface = Some f, q_packet = Some p\<rparr>" using queue_head_Some [OF wf i] assms(3) by simp
  have "accounts (add_mset p H) ?t" using accounts_qfifo_pop [OF assms(2,3)] by simp
  then have "in_hand p H (pid x) ?t" using assms(4,5) by (simp add: in_hand_def)
  moreover have "route_inv ?t" by (rule route_inv_conns [OF assms(1)]) simp_all
  moreover have "csp_route_work nh cb s = csp_route_packet nh cb f p ?t"
    using no_timeouts [OF assms(1)] i b by (simp add: csp_route_work_def csp_qfifo_read_def csp_queue_dequeue_item)
  ultimately show ?thesis by auto
qed

section \<open>Properties\<close>

text \<open>C1: On packets without RDP, and on a node none of whose open connections uses RDP (\<open>route_inv\<close>), the router loses no buffer and uses none
  twice. A round that returns has no error, and whatever becomes of the packet (dropped as a duplicate,
  forwarded, refused by a security check, given to a callback, queued on a socket or on a new or existing
  connection, dropped because a queue or the table of connections is full), afterwards every buffer is free,
  queued or in the hands it was in before, the connections keep distinct identifiers and there is still no open connection with RDP. The
  delivery to RDP (\<^verbatim>\<open>csp_rdp_new_packet\<close>) is excluded: it does lose buffers, for example when a connection is flushed (\<open>csp_rdp_queue_flush_loses\<close>).\<close>

theorem csp_route_work_conserves:
  assumes "route_client nh cb" "env_inv s" "route_inv s" "accounts H s"
    "queue_list (qfifo_queue s) = \<lparr>q_iface = Some f, q_packet = Some p\<rparr> # es" "f < length (ifaces s)"
    "get_packet p s = Some x" "packet_wf x" "\<not> has_flag (flags (pid x)) CSP_FRDP"
    "csp_route_work nh cb s = Some (r, s')"
  shows "r = CSP_ERR_NONE \<and> accounts H s' \<and> env s' = env s \<and> route_inv s'"
proof -
  from route_work_head [OF assms(3,4,5,7,8)] obtain t where t: "in_hand p H (pid x) t" "env t = env s" "route_inv t"
    "csp_route_work nh cb s = csp_route_packet nh cb f p t" by blast
  have "f < length (ifaces t)" using env_lengths(1) [OF t(2)] assms(6) by simp
  moreover have "csp_route_packet nh cb f p t = Some (r, s')" using t(4) assms(10) by simp
  ultimately have "routed H t (Some (r, s'))"
    using route_client.routed_packet [OF assms(1) t(1) assms(9) env_inv_facts(1) [OF assms(2) t(2)] t(3)] by blast
  then show ?thesis using t(2) by (simp add: routed_def)
qed

text \<open>A packet without RDP that is for this node (sent to the address of the interface it came in on, or to the broadcast
  address of that interface) is always dealt with: the router's round ends, and no pointer it follows is
  invalid.\<close>

lemma route_work_local:
  assumes "route_client nh cb" "env_inv s" "route_inv s" "accounts H s"
    "queue_list (qfifo_queue s) = \<lparr>q_iface = Some f, q_packet = Some p\<rparr> # es" "f < length (ifaces s)"
    "get_packet p s = Some x" "packet_wf x" "\<not> has_flag (flags (pid x)) CSP_FRDP" "for_me s f (pid x)"
  shows "\<exists>s'. csp_route_work nh cb s = Some (CSP_ERR_NONE, s') \<and> accounts H s' \<and> env s' = env s \<and> route_inv s'"
proof -
  from route_work_head [OF assms(3,4,5,7,8)] obtain t where t: "in_hand p H (pid x) t" "env t = env s" "route_inv t"
    "csp_route_work nh cb s = csp_route_packet nh cb f p t" by blast
  have "f < length (ifaces t)" using env_lengths(1) [OF t(2)] assms(6) by simp
  from route_client.routed_packet_local [OF assms(1) t(1) assms(9) env_inv_facts(1) [OF assms(2) t(2)] t(3) this]
    for_me_env [OF t(2) assms(6)] assms(10) t(2,4)
  show ?thesis by (auto simp: routed_def)
qed

text \<open>The busy node with one packet for it in the input queue.\<close>

definition input_node :: node where
  "input_node = busy_node\<lparr>qfifo_queue := queue_push \<lparr>q_iface = Some 0, q_packet = Some 3\<rparr> (qfifo_queue busy_node)\<rparr>"

lemma input_node_facts:
  "env_inv input_node" "route_inv input_node" "accounts (mset_set ({..<15} - {3})) input_node"
  "queue_list (qfifo_queue input_node) = [\<lparr>q_iface = Some 0, q_packet = Some 3\<rparr>]" "0 < length (ifaces input_node)"
  "get_packet 3 input_node = Some zero_packet"
proof -
  let ?e = "\<lparr>q_iface = Some 0, q_packet = Some 3\<rparr>"
  have q: "qfifo_queue busy_node = empty_queue CSP_QFIFO_LEN" by (simp add: busy_node_def ready_node_def held_node_def zero_node_def)
  have wf: "queue_wf (qfifo_queue busy_node)" using busy_node_held(1) by (simp add: accounts_def queues_inv_def)
  have r: "items (qfifo_queue busy_node) < qsize (qfifo_queue busy_node)" using q by (simp add: empty_queue_def)
  have e: "env input_node = env busy_node" by (simp add: input_node_def)
  show "env_inv input_node" by (rule env_inv_facts(1) [OF busy_node_env e])
  show "accounts (mset_set ({..<15} - {3})) input_node"
    using accounts_qfifo_push [OF busy_node_held(1) r, of ?e] by (simp add: input_node_def)
  show "queue_list (qfifo_queue input_node) = [?e]" using queue_push_list [OF wf r, of ?e] q by (simp add: input_node_def)
  show "0 < length (ifaces input_node)" by (simp add: input_node_def busy_node_def)
  show "get_packet 3 input_node = Some zero_packet" using busy_node_held(2) by (simp add: input_node_def)
  have a: "arr_conn input_node = arr_conn ready_node" by (simp add: input_node_def busy_node_def)
  have "conn_inv input_node" using conn_inv_cong [OF a] ready_node_inv by simp
  moreover have "c_state c = CONN_CLOSED \<and> dest_socket c = None" if "c \<in> set (arr_conn ready_node)" for c
    using that by (auto simp: ready_node_def zero_conn_def simp del: upt_rec_numeral)
  ultimately show "route_inv input_node" by (simp add: route_inv_def a plain_conn_def sock_ok_def)
qed

lemma input_packet: "\<not> has_flag (flags (pid zero_packet)) CSP_FRDP" "for_me input_node 0 (pid zero_packet)"
  by (simp_all add: zero_packet_def zero_id_def has_flag_def for_me_def input_node_def busy_node_def zero_iface_def)

lemma input_node_returns: "\<exists>r s'. csp_route_work csp_lo_tx (\<lambda>f p. csp_buffer_free (Some p)) input_node = Some (r, s')"
  using route_work_local [OF drop.route_client_axioms input_node_facts(1-6) zero_packet_wf input_packet] by blast

theorem csp_route_work_conserves_witness:
  "\<exists>r s'. csp_route_work csp_lo_tx (\<lambda>f p. csp_buffer_free (Some p)) input_node = Some (r, s') \<and> route_inv s'"
proof -
  obtain r s' where s': "csp_route_work csp_lo_tx (\<lambda>f p. csp_buffer_free (Some p)) input_node = Some (r, s')"
    using input_node_returns by blast
  from csp_route_work_conserves [OF drop.route_client_axioms input_node_facts(1-6) zero_packet_wf input_packet(1) s']
  show ?thesis using s' by blast
qed

end
