(* ===== verification/Csp_Start.thy ===== *)
theory Csp_Start
  imports Csp_Delivery
begin

text \<open>
  The state of a node after \<^verbatim>\<open>csp_init\<close> (\<^verbatim>\<open>src/csp_init.c\<close>): all buffers are free, all connections are closed and have
  their own source ports, and the loopback interface is the only one in the list.
\<close>

lemma buffer_init_frame:
  "csp_buffer_init_loop is s = Some (u, s') \<Longrightarrow> \<exists>b q. s' = s\<lparr>csp_buffer_pool := b, csp_buffers := q\<rparr>"
proof (induction "is" arbitrary: s)
  case Nil
  then have "s' = s\<lparr>csp_buffer_pool := csp_buffer_pool s, csp_buffers := csp_buffers s\<rparr>" by simp
  then show ?case by blast
next
  case (Cons i "is")
  then show ?case by (fastforce simp: bind_Some_iff Let_def)
qed

lemma conn_init_frame: "csp_conn_init_loop is s = Some (u, s') \<Longrightarrow> \<exists>cs. s' = s\<lparr>arr_conn := cs\<rparr>"
proof (induction "is" arbitrary: s)
  case Nil
  then have "s' = s\<lparr>arr_conn := arr_conn s\<rparr>" by simp
  then show ?case by blast
next
  case (Cons i "is")
  then obtain s1 where "csp_conn_init_loop is s1 = Some (u, s')" "\<exists>cs. s1 = s\<lparr>arr_conn := cs\<rparr>"
    by (auto simp: bind_Some_iff upd_conn_def get_conn_def put_conn_def csp_rdp_init_def upd_rdp_def Let_def split: if_splits)
  with Cons.IH show ?case by fastforce
qed

text \<open>Nothing is queued in the promiscuous queue and on sockets.\<close>

definition idle :: "node \<Rightarrow> bool" where
  "idle s \<longleftrightarrow> csp_promisc_queue s = None \<and> (\<forall>k \<in> set (sockets s). s_rx_queue k = None)"

lemma idle_packets: "idle s \<Longrightarrow> concat (map sock_packets (sockets s)) = []"
  by (simp add: idle_def sock_packets_def)

lemma init_accounts:
  assumes "pool_inv s" "free_list s = [0..<CSP_BUFFER_COUNT]" "idle s"
    "\<And>c. c \<in> set (arr_conn s) \<Longrightarrow> queue_wf (rx_queue c) \<and> queue_list (rx_queue c) = []"
    "qfifo_queue s = empty_queue CSP_QFIFO_LEN" "rdp_tx_queue s = empty_queue (CSP_RDP_MAX_WINDOW * 2)"
    "rdp_rx_queue s = empty_queue (CSP_RDP_MAX_WINDOW * 2)"
  shows "accounts {#} s"
proof -
  have "concat (map conn_packets (arr_conn s)) = []" using assms(4) by (simp add: conn_packets_def)
  then have "queued s = {#}" using idle_packets [OF assms(3)] assms(3,5,6,7)
    by (simp add: queued_def qfifo_packets_def promisc_packets_def rdp_packets_def idle_def empty_queue_props)
  moreover have "queues_inv s" using assms(3-7) by (auto simp: queues_inv_def idle_def empty_queue_props)
  moreover have "mset (free_list s) = mset_set {..<CSP_BUFFER_COUNT}"
    unfolding assms(2) by (metis mset_upt atLeast0LessThan)
  ultimately show ?thesis using assms(1) by (simp add: accounts_def)
qed

lemma conn_init_dest: "csp_conn_init_loop is s = Some (u, s') \<Longrightarrow> map dest_socket (arr_conn s') = map dest_socket (arr_conn s)"
proof (induction "is" arbitrary: s)
  case (Cons i "is")
  then have "\<exists>c. csp_conn_init_loop is (s\<lparr>arr_conn := (arr_conn s)[i := c]\<rparr>) = Some (u, s') \<and> i < length (arr_conn s) \<and>
      dest_socket c = dest_socket (arr_conn s ! i)"
    by (auto simp: bind_Some_iff upd_conn_def get_conn_def put_conn_def csp_rdp_init_def upd_rdp_def Let_def split: if_splits)
  then obtain c where s1: "csp_conn_init_loop is (s\<lparr>arr_conn := (arr_conn s)[i := c]\<rparr>) = Some (u, s')" "i < length (arr_conn s)"
    "dest_socket c = dest_socket (arr_conn s ! i)" by blast
  then have "map dest_socket ((arr_conn s)[i := c]) = map dest_socket (arr_conn s)" by (simp add: map_update list_update_same_conv)
  with Cons.IH [OF s1(1)] show ?case by simp
qed simp

text \<open>The node that initialisation leaves, with its buffers and connections.\<close>

definition init_node :: "csp_skbf_t list \<Rightarrow> nat pthread_queue_t \<Rightarrow> csp_conn_t list \<Rightarrow> node \<Rightarrow> node" where
  "init_node b q cs s = (put_iface csp_if_lo ((ifaces s ! csp_if_lo)\<lparr>if_netmask := ucast (csp_id_get_host_bits (csp_conf s)), if_next := None\<rparr>)
     (s\<lparr>csp_buffer_pool := b, csp_buffers := q, arr_conn := cs, qfifo_queue := empty_queue CSP_QFIFO_LEN,
        rdp_tx_queue := empty_queue (CSP_RDP_MAX_WINDOW * 2), rdp_rx_queue := empty_queue (CSP_RDP_MAX_WINDOW * 2)\<rparr>))
     \<lparr>interfaces := Some csp_if_lo\<rparr>"

lemma init_node_simps [simp]:
  "csp_buffer_pool (init_node b q cs s) = b" "csp_buffers (init_node b q cs s) = q" "arr_conn (init_node b q cs s) = cs"
  "free_list (init_node b q cs s) = queue_list q" "sockets (init_node b q cs s) = sockets s" "ports (init_node b q cs s) = ports s"
  "qfifo_queue (init_node b q cs s) = empty_queue CSP_QFIFO_LEN" "csp_conf (init_node b q cs s) = csp_conf s"
  "rtable (init_node b q cs s) = rtable s" "rtable_inptr (init_node b q cs s) = rtable_inptr s"
  "csp_promisc_enabled (init_node b q cs s) = csp_promisc_enabled s" "interfaces (init_node b q cs s) = Some csp_if_lo"
  "ifaces (init_node b q cs s) = (ifaces s)[csp_if_lo := (ifaces s ! csp_if_lo)\<lparr>if_netmask := ucast (csp_id_get_host_bits (csp_conf s)), if_next := None\<rparr>]"
  "csp_dedup_array (init_node b q cs s) = csp_dedup_array s" "csp_dedup_in (init_node b q cs s) = csp_dedup_in s"
  "csp_hmac_key (init_node b q cs s) = csp_hmac_key s"
  by (simp_all add: init_node_def put_iface_def free_list_def)

lemma init_run:
  assumes "length (csp_buffer_pool s) = CSP_BUFFER_COUNT" "\<forall>b \<in> set (csp_buffer_pool s). length (bytes (skbf_data b)) = PACKET_BYTES"
    "length (arr_conn s) = CSP_CONN_MAX" "idle s" "interfaces s = None" "csp_if_lo < length (ifaces s)"
  obtains b q cs where "csp_init s = Some ((), init_node b q cs s)" "accounts {#} (init_node b q cs s)" "conn_inv (init_node b q cs s)"
    "iflist (init_node b q cs s) [csp_if_lo]" "csp_buffer_remaining (init_node b q cs s) = CSP_BUFFER_COUNT"
    "queue_list q = [0..<CSP_BUFFER_COUNT]" "map dest_socket cs = map dest_socket (arr_conn s)"
    "\<forall>c \<in> set cs. c_state c = CONN_CLOSED \<and> rx_queue c = empty_queue CSP_CONN_RXQUEUE_LEN"
proof -
  from csp_buffer_init_pool [OF assms(1,2)] obtain s1 where s1: "csp_buffer_init s = Some ((), s1)" "pool_inv s1"
    "free_list s1 = [0..<CSP_BUFFER_COUNT]" "csp_buffer_remaining s1 = CSP_BUFFER_COUNT" by blast
  have "\<exists>b q. s1 = s\<lparr>csp_buffer_pool := b, csp_buffers := q\<rparr>"
    using s1(1) buffer_init_frame by (fastforce simp: csp_buffer_init_def bind_Some_iff)
  then obtain b q where f1: "s1 = s\<lparr>csp_buffer_pool := b, csp_buffers := q\<rparr>" by blast
  have l1: "length (arr_conn s1) = CSP_CONN_MAX" using assms(3) f1 by simp
  from conn_init_inv [OF this] obtain s2 where s2: "csp_conn_init s1 = Some ((), s2)" "conn_inv s2" by blast
  have loop: "csp_conn_init_loop [0..<CSP_CONN_MAX] s1 = Some ((), s2)" using s2(1) unfolding csp_conn_init_def .
  obtain cs where f2: "s2 = s1\<lparr>arr_conn := cs\<rparr>" using conn_init_frame [OF loop] by blast
  have "\<forall>i \<in> set [0..<CSP_CONN_MAX]. i < length (arr_conn s1)" "distinct [0..<CSP_CONN_MAX]" using l1 by (simp_all del: upt_rec_numeral)
  from conn_init_loop [OF this] loop have each: "\<forall>i < CSP_CONN_MAX. c_state (cs ! i) = CONN_CLOSED \<and> rx_queue (cs ! i) = empty_queue CSP_CONN_RXQUEUE_LEN"
    using f2 by (auto simp del: upt_rec_numeral)
  have len: "length cs = CSP_CONN_MAX" using s2(2) f2 by (simp add: conn_inv_def)
  have cs: "\<forall>c \<in> set cs. c_state c = CONN_CLOSED \<and> rx_queue c = empty_queue CSP_CONN_RXQUEUE_LEN"
    using each len by (auto simp: in_set_conv_nth)
  let ?s = "init_node b q cs s"
  have run: "csp_init s = Some ((), ?s)"
    using s1(1) s2(1) assms(5,6) f1 f2
    by (simp add: csp_init_def csp_qfifo_init_def csp_rdp_queue_init_def csp_queue_create_static_eq upd_iface_def get_iface_def
        csp_iflist_add_def put_iface_def init_node_def)
  have k: "idle ?s" using assms(4) by (simp add: idle_def) (simp add: init_node_def put_iface_def)
  have p: "pool_inv ?s" "free_list ?s = [0..<CSP_BUFFER_COUNT]" "csp_buffer_remaining ?s = CSP_BUFFER_COUNT"
    using s1(2-4) f1 by (simp_all add: pool_inv_def free_list_def csp_buffer_remaining_def del: upt_rec_numeral)
  have "accounts {#} ?s" by (rule init_accounts [OF p(1,2) k]) (use cs in \<open>simp_all add: empty_queue_props\<close>, simp_all add: init_node_def put_iface_def)
  moreover have "conn_inv ?s" using conn_inv_cong [of ?s s2] s2(2) f2 by simp
  moreover have "iflist ?s [csp_if_lo]" using assms(6) by (simp add: iflist_def)
  moreover have "map dest_socket cs = map dest_socket (arr_conn s)" using conn_init_dest [OF loop] f1 f2 by simp
  moreover have "queue_list q = [0..<CSP_BUFFER_COUNT]" using p(2) by (simp del: upt_rec_numeral)
  ultimately show ?thesis using that run p(3) cs by blast
qed

section \<open>Properties\<close>

text \<open>C15: Initialisation of a node whose static memory has its size, with nothing listening yet: it ends with all buffers free
  and accounted for, all connections closed with distinct source ports, and a list of interfaces that holds the
  loopback interface alone.\<close>

theorem csp_init_ready:
  assumes "length (csp_buffer_pool s) = CSP_BUFFER_COUNT" "\<forall>b \<in> set (csp_buffer_pool s). length (bytes (skbf_data b)) = PACKET_BYTES"
    "length (arr_conn s) = CSP_CONN_MAX" "idle s" "interfaces s = None" "csp_if_lo < length (ifaces s)"
  shows "\<exists>s'. csp_init s = Some ((), s') \<and> accounts {#} s' \<and> conn_inv s' \<and> iflist s' [csp_if_lo] \<and>
    csp_buffer_remaining s' = CSP_BUFFER_COUNT \<and> (\<forall>c \<in> set (arr_conn s'). c_state c = CONN_CLOSED)"
  by (rule init_run [OF assms]) (fastforce simp del: CSP_BUFFER_COUNT_def)

definition boot_node :: node where
  "boot_node = zero_node\<lparr>csp_conf := csp_conf_init, arr_conn := replicate CSP_CONN_MAX zero_conn,
     ifaces := [zero_iface\<lparr>if_name := ''LOOP''\<rparr>]\<rparr>"

theorem csp_init_ready_witness:
  "\<exists>s'. csp_init boot_node = Some ((), s') \<and> accounts {#} s' \<and> iflist s' [csp_if_lo]"
  using csp_init_ready [of boot_node] by (auto simp: boot_node_def zero_node_def zero_packet_def idle_def)

end
