(* ===== verification/Csp_Loopback.thy ===== *)
theory Csp_Loopback
  imports Csp_Start
begin

text \<open>
  The way of a packet from an application to another on the same node, by exact states: connecting, sending over the loopback interface
  (\<^verbatim>\<open>src/csp_io.c\<close>, \<^verbatim>\<open>src/interfaces/csp_if_lo.c\<close>), the round of the router that delivers the packet (\<^verbatim>\<open>src/csp_route.c\<close>), accepting the
  connection, reading and closing. The other theories say that these operations lose nothing; the lemmas here say where everything is
  afterwards, so that they compose.
\<close>

section \<open>Plain packets and sockets\<close>

text \<open>A packet without RDP, authentication and checksum, and options that require none of them.\<close>

definition plain_flags :: "u8 \<Rightarrow> bool" where
  "plain_flags fl \<longleftrightarrow> \<not> has_flag fl CSP_FRDP \<and> \<not> has_flag fl CSP_FHMAC \<and> \<not> has_flag fl CSP_FCRC32"

definition plain_opts :: "u32 \<Rightarrow> bool" where
  "plain_opts opts \<longleftrightarrow> \<not> has_flag opts CSP_SO_RDPREQ \<and> \<not> has_flag opts CSP_SO_HMACREQ \<and> \<not> has_flag opts CSP_SO_CRC32REQ"

lemma plain_zero [simp]: "plain_flags 0" "plain_opts 0"
  by (simp_all add: plain_flags_def plain_opts_def has_flag_def)

lemma plain_security_check:
  assumes "get_packet p s = Some x" "plain_flags (flags (pid x))" "plain_opts opts"
  shows "csp_route_security_check opts f p s = Some (CSP_ERR_NONE, s)"
  using assms by (simp add: csp_route_security_check_def csp_route_check_crc32_def csp_route_check_hmac_def csp_route_check_rdp_def
      plain_flags_def plain_opts_def del: CSP_FRDP_def CSP_FHMAC_def CSP_FCRC32_def CSP_SO_RDPREQ_def CSP_SO_HMACREQ_def CSP_SO_CRC32REQ_def)

section \<open>A new connection\<close>

lemma put_conn_same [simp]: "put_conn n (arr_conn s ! n) s = s"
  by (simp add: put_conn_def)

lemma flush_empty:
  assumes "n < length (arr_conn s)" "items (rx_queue (arr_conn s ! n)) = 0"
  shows "csp_conn_flush_rx_queue n s = Some (CSP_ERR_NONE, s)"
proof -
  have "(arr_conn s ! n)\<lparr>rx_queue := rx_queue (arr_conn s ! n)\<rparr> = arr_conn s ! n" by simp
  then show ?thesis using assms
    by (simp add: csp_conn_flush_rx_queue_def csp_conn_flush_loop.simps [of n s] get_conn_eq csp_queue_dequeue_empty)
qed

lemma put_conn_last [simp]: "put_conn n c (s\<lparr>csp_conn_last_given := l\<rparr>) = (put_conn n c s)\<lparr>csp_conn_last_given := l\<rparr>"
  by (simp add: put_conn_def)

lemma conn_new_empty:
  assumes "length (arr_conn s) = CSP_CONN_MAX" "next_conn s = Some n" "items (rx_queue (arr_conn s ! n)) = 0"
  shows "csp_conn_new idi ido type s =
    Some (Some n, (put_conn n (fresh_conn idi ido type (now s) (arr_conn s ! n)) s)\<lparr>csp_conn_last_given := of_nat n\<rparr>)"
proof -
  have n: "n < length (arr_conn s)" using next_conn_Some [OF assms(2)] assms(1) by simp
  let ?s = "(put_conn n (fresh_conn idi ido type (now s) (arr_conn s ! n)) s)\<lparr>csp_conn_last_given := of_nat n\<rparr>"
  have "csp_conn_flush_rx_queue n ?s = Some (CSP_ERR_NONE, ?s)" by (rule flush_empty) (use n assms(3) in simp_all)
  moreover have "csp_conn_allocate type s = Some (Some n, (put_conn n ((arr_conn s ! n)\<lparr>c_state := CONN_OPEN, timestamp := 0, c_type := type,
      idin := (idin (arr_conn s ! n))\<lparr>flags := 0\<rparr>, idout := (idout (arr_conn s ! n))\<lparr>flags := 0\<rparr>\<rparr>) s)\<lparr>csp_conn_last_given := of_nat n\<rparr>)"
    using assms(2) n allocate_loop_eq [OF assms(1), of "[0..<CSP_CONN_MAX]" "unat (csp_conn_last_given s)"]
    by (simp add: csp_conn_allocate_def next_conn_def upd_conn_eq del: upt_rec_numeral)
  ultimately show ?thesis using n by (simp add: csp_conn_new_def upd_conn_eq fresh_conn_def)
qed

text \<open>The client's end of a connection without options.\<close>

definition client_conn :: "u8 \<Rightarrow> u16 \<Rightarrow> u8 \<Rightarrow> u32 \<Rightarrow> csp_conn_t \<Rightarrow> csp_conn_t" where
  "client_conn prio dest port t c = c\<lparr>c_state := CONN_OPEN, c_type := CONN_CLIENT, timestamp := t,
     idout := \<lparr>pri = prio, flags = 0, src = 0, dst = dest, dport = port, sport = sport_outgoing c\<rparr>,
     idin := \<lparr>pri = prio, flags = 0, src = dest, dst = 0, dport = sport_outgoing c, sport = port\<rparr>,
     dest_socket := None, c_opts := 0\<rparr>"

lemma client_conn_simps [simp]:
  "c_state (client_conn prio dest port t c) = CONN_OPEN" "c_type (client_conn prio dest port t c) = CONN_CLIENT"
  "rx_queue (client_conn prio dest port t c) = rx_queue c" "sport_outgoing (client_conn prio dest port t c) = sport_outgoing c"
  "dest_socket (client_conn prio dest port t c) = None"
  "idin (client_conn prio dest port t c) = \<lparr>pri = prio, flags = 0, src = dest, dst = 0, dport = sport_outgoing c, sport = port\<rparr>"
  "idout (client_conn prio dest port t c) = \<lparr>pri = prio, flags = 0, src = 0, dst = dest, dport = port, sport = sport_outgoing c\<rparr>"
  by (simp_all add: client_conn_def)

lemma connect_plain:
  assumes "length (arr_conn s) = CSP_CONN_MAX" "next_conn s = Some n" "items (rx_queue (arr_conn s ! n)) = 0" "conn_dfl_so (csp_conf s) = 0"
  shows "csp_connect nh others prio dest port timeout 0 s =
    Some (Some n, (put_conn n (client_conn prio dest port (now s) (arr_conn s ! n)) s)\<lparr>csp_conn_last_given := of_nat n\<rparr>)"
proof -
  have n: "n < length (arr_conn s)" using next_conn_Some [OF assms(2)] assms(1) by simp
  have z: "has_flag (0 :: u32) m = False" "has_flag (0 :: u8) m' = False" for m m' by (simp_all add: has_flag_def)
  show ?thesis using n assms(4) conn_new_empty [OF assms(1-3)]
    by (simp add: csp_connect_def z upd_conn_eq fresh_conn_def client_conn_def Let_def)
qed

section \<open>Sending over the loopback interface\<close>

lemma lo_tx_room:
  assumes "items (qfifo_queue s) \<noteq> qsize (qfifo_queue s)"
  shows "csp_lo_tx i via p s =
    Some (CSP_ERR_NONE, s\<lparr>qfifo_queue := queue_push \<lparr>q_iface = Some csp_if_lo, q_packet = Some p\<rparr> (qfifo_queue s)\<rparr>)"
  using assms by (simp add: csp_lo_tx_def csp_qfifo_write_def csp_queue_enqueue_room)

lemma send_protect_plain:
  assumes "get_packet p s = Some x" "plain_flags (flags ido)"
  shows "csp_send_protect ido p s = Some (False, s)"
  using assms by (simp add: csp_send_protect_def plain_flags_def put_same_packet del: CSP_FHMAC_def CSP_FCRC32_def)

text \<open>A plain packet that this node sends on the loopback interface is the last of the input queue.\<close>

lemma send_iface_lo:
  assumes "accounts (add_mset p H) s" "get_packet p s = Some x" "plain_flags (flags ido)" "0 < length (ifaces s)"
    "length (bytes x) = PACKET_BYTES" "if_mtu (ifaces s ! 0) = 0" "items (qfifo_queue s) < qsize (qfifo_queue s)"
  shows "\<exists>s'. csp_send_direct_iface csp_lo_tx ido p (Some 0) via True s = Some ((), s') \<and> accounts H s' \<and> env s' = env s \<and>
    qfifo_queue s' = queue_push \<lparr>q_iface = Some 0, q_packet = Some p\<rparr> (qfifo_queue s) \<and>
    (\<forall>q. get_packet q s' = (if q = p then Some (x\<lparr>pid := ido\<rparr>) else get_packet q s)) \<and>
    send_frame s' = send_frame s \<and> csp_promisc_enabled s' = csp_promisc_enabled s \<and> free_list s' = free_list s"
proof -
  let ?x = "x\<lparr>pid := ido\<rparr>" and ?e = "\<lparr>q_iface = Some 0, q_packet = Some p\<rparr>"
  let ?s = "put_packet p ?x s"
  let ?t = "?s\<lparr>qfifo_queue := queue_push ?e (qfifo_queue s)\<rparr>"
  let ?g = "\<lambda>f. f\<lparr>if_tx := if_tx f + 1, if_txbytes := if_txbytes f + ucast (plen x)\<rparr>"
  have p: "p < length (csp_buffer_pool s)" using assms(2) by (auto simp: get_packet_def split: if_splits)
  have a: "accounts (add_mset p H) ?s" using accounts_put [OF assms(1), of ?x p] assms(5) by simp
  have "accounts H ?t" using accounts_qfifo_push [OF a, of ?e] assms(7) by simp
  moreover have "csp_send_direct_iface csp_lo_tx ido p (Some 0) via True s = Some ((), put_iface 0 (?g (ifaces s ! 0)) ?t)"
    using assms(2,4,6,7) get_put_packet [OF p, of p ?x] send_protect_plain [OF _ assms(3), of p ?s ?x]
    by (simp add: csp_send_direct_iface_def lo_tx_room get_iface_def Let_def)
  moreover have "env (put_iface 0 (?g (ifaces s ! 0)) ?t) = env s"
    using env_put_counter [of 0 ?t "ifaces s ! 0" "?g (ifaces s ! 0)"] assms(4) by (simp add: get_iface_def iface_key_def)
  moreover have "qfifo_queue (put_iface 0 (?g (ifaces s ! 0)) ?t) = queue_push ?e (qfifo_queue s)"
    "csp_promisc_enabled (put_iface 0 (?g (ifaces s ! 0)) ?t) = csp_promisc_enabled s"
    by (simp_all add: put_iface_def put_packet_def)
  moreover have "free_list (put_iface 0 (?g (ifaces s ! 0)) ?t) = free_list s" by (simp add: free_list_def put_iface_def put_packet_def)
  ultimately show ?thesis using get_put_packet [OF p] by simp
qed

lemma iflist_env: "env s' = env s \<Longrightarrow> iflist s' xs = iflist s xs"
  using iface_chain_env [of s' s "interfaces s" xs] env_lengths(8) [of s' s] by (simp only: iflist_def)

lemma send_direct_lo:
  assumes "accounts (add_mset p H) s" "get_packet p s = Some x" "packet_wf x" "plain_flags (flags ido)" "masks_ok s" "iflist s [0]"
    "in_subnet s (dst ido) 0" "if_mtu (ifaces s ! 0) = 0" "free_list s = q # fs" "items (qfifo_queue s) < qsize (qfifo_queue s)"
  shows "\<exists>s'. csp_send_direct csp_lo_tx ido p None s = Some ((), s') \<and> accounts H s' \<and> env s' = env s \<and>
    qfifo_queue s' = queue_push \<lparr>q_iface = Some 0, q_packet = Some q\<rparr> (qfifo_queue s) \<and>
    get_packet q s' = Some (x\<lparr>pid := ido\<lparr>src := if_addr (ifaces s ! 0)\<rparr>\<rparr>) \<and>
    send_frame s' = send_frame s \<and> csp_promisc_enabled s' = csp_promisc_enabled s \<and> free_list s' = fs @ [p] \<and>
    (\<forall>r. r \<noteq> q \<longrightarrow> get_packet r s' = get_packet r s)"
proof -
  let ?id = "ido\<lparr>src := if_addr (ifaces s ! 0)\<rparr>" and ?c = "put_packet q x (take_buffer q s)"
  have w: "unat (plen x) \<le> CSP_BUFFER_SIZE" "length (bytes x) = PACKET_BYTES" using assms(3) by (simp_all add: packet_wf_def)
  have len: "0 < length (ifaces s)" using iface_chain_member [of s "interfaces s" "[0]" 0] assms(6) by (simp add: iflist_def)
  have pool: "pool_inv s" "p \<noteq> q" using accounts_held [OF assms(1)] assms(9) by (auto simp: allocated_def)
  have cl: "csp_buffer_clone (Some p) s = Some (Some q, ?c)" "get_packet q ?c = Some x" "get_packet p ?c = Some x"
    "\<And>r. r \<noteq> q \<Longrightarrow> get_packet r ?c = get_packet r s"
    using csp_buffer_clone_eq [OF pool(1) assms(2) w(1) assms(9)] pool(2) assms(2) by auto
  have a: "accounts (add_mset q (add_mset p H)) ?c" by (rule accounts_put [OF accounts_take [OF assms(1,9)] w(2)])
  have fields: "ifaces ?c = ifaces s" "qfifo_queue ?c = qfifo_queue s" "csp_promisc_enabled ?c = csp_promisc_enabled s"
    by (simp_all add: take_buffer_def put_packet_def)
  have "plain_flags (flags ?id)" using assms(4) by simp
  from send_iface_lo [OF a cl(2) this _ w(2), of CSP_NO_VIA_ADDRESS] assms(8,10) len fields
  obtain s1 where s1: "csp_send_direct_iface csp_lo_tx ?id q (Some 0) CSP_NO_VIA_ADDRESS True ?c = Some ((), s1)" "accounts (add_mset p H) s1"
    "env s1 = env s" "qfifo_queue s1 = queue_push \<lparr>q_iface = Some 0, q_packet = Some q\<rparr> (qfifo_queue s)"
    "\<forall>r. get_packet r s1 = (if r = q then Some (x\<lparr>pid := ?id\<rparr>) else get_packet r ?c)"
    "send_frame s1 = send_frame s" "csp_promisc_enabled s1 = csp_promisc_enabled s" "free_list s1 = fs"
    using take_buffer_inv(2) [OF pool(1) assms(9)] by (auto simp: free_list_def put_packet_def)
  have "masks_ok s1" "iflist s1 [0]" using masks_ok_env [OF s1(3)] iflist_env [OF s1(3)] assms(5,6) by simp_all
  then have e: "csp_iflist_get_by_subnet (dst ?id) (Some 0) s1 = Some None"
    using csp_iflist_get_by_subnet_find(2) [of s1 "[0]" "[]" 0 "[]"] by simp
  have b: "csp_iflist_get_by_subnet (dst ido) None s = Some (Some 0)"
    using csp_iflist_get_by_subnet_find(1) [OF assms(5,6), of "dst ido"] assms(7) by simp
  have l1: "csp_send_direct_loop csp_lo_tx ?id p None True (Some 0) True s1 = Some ((?id, True), s1)"
    using e by (simp add: csp_send_direct_loop.simps [of _ _ _ _ _ _ _ s1])
  have "csp_send_direct_loop csp_lo_tx ido p None True None False s = Some ((?id, True), s1)"
    using b len cl(1) s1(1) l1
    by (simp add: csp_send_direct_loop.simps [of _ _ _ _ _ _ _ s] get_iface_def csp_iflist_is_within_subnet_def del: CSP_NO_VIA_ADDRESS_def)
  then have "csp_send_direct csp_lo_tx ido p None s = Some ((), give_buffer p s1)"
    using accounts_free(1) [OF s1(2)] by (simp add: csp_send_direct_def)
  moreover have "csp_promisc_enabled (give_buffer p s1) = csp_promisc_enabled s" "qfifo_queue (give_buffer p s1) = qfifo_queue s1"
    using s1(7) by (simp_all add: give_buffer_def)
  moreover have "free_list (give_buffer p s1) = fs @ [p]" using give_buffer_inv(2) [of s1 p] accounts_held(1,4) [OF s1(2)] s1(8) by simp
  ultimately show ?thesis using accounts_free(2) [OF s1(2)] s1 cl(4) by simp
qed

section \<open>Delivery\<close>

lemma put_conn_socket: "put_socket k sk (put_conn n c s) = put_conn n c (put_socket k sk s)"
  by (simp add: put_socket_def put_conn_def)

lemma to_conn_announced:
  assumes "get_packet p s = Some x" "plain_flags (flags (pid x))" "n < length (arr_conn s)" "dest_socket (arr_conn s ! n) = None"
    "items (rx_queue (arr_conn s ! n)) \<noteq> qsize (rx_queue (arr_conn s ! n))"
  shows "csp_route_to_conn nh n p s =
    Some (CSP_ERR_NONE, put_conn n ((arr_conn s ! n)\<lparr>rx_queue := queue_push (Some p) (rx_queue (arr_conn s ! n))\<rparr>) s)"
  using assms by (simp add: csp_route_to_conn_def plain_flags_def csp_conn_enqueue_packet_def get_conn_eq csp_queue_enqueue_room
      del: CSP_FRDP_def)

lemma to_conn_new:
  assumes "get_packet p s = Some x" "plain_flags (flags (pid x))" "n < length (arr_conn s)" "dest_socket (arr_conn s ! n) = Some k"
    "items (rx_queue (arr_conn s ! n)) \<noteq> qsize (rx_queue (arr_conn s ! n))"
    "k < length (sockets s)" "s_rx_queue (sockets s ! k) = Some b" "items b \<noteq> qsize b"
  shows "csp_route_to_conn nh n p s = Some (CSP_ERR_NONE,
    put_conn n ((arr_conn s ! n)\<lparr>rx_queue := queue_push (Some p) (rx_queue (arr_conn s ! n)), dest_socket := None\<rparr>)
      (put_socket k ((sockets s ! k)\<lparr>s_rx_queue := Some (queue_push (Sock_Conn n) b)\<rparr>) s))"
  using assms by (simp add: csp_route_to_conn_def plain_flags_def csp_conn_enqueue_packet_def get_conn_eq csp_queue_enqueue_room
      get_socket_def upd_conn_eq put_conn_socket del: CSP_FRDP_def)

lemma socket_queue_wf:
  assumes "accounts H s" "k < length (sockets s)" "s_rx_queue (sockets s ! k) = Some b"
  shows "queue_wf b"
proof -
  have "case s_rx_queue (sockets s ! k) of None \<Rightarrow> True | Some q \<Rightarrow> queue_wf q"
    using assms(1) nth_mem [OF assms(2)] unfolding accounts_def queues_inv_def by blast
  then show ?thesis using assms(3) by simp
qed

text \<open>The server's end of a connection.\<close>

definition server_conn :: "csp_id_t \<Rightarrow> nat \<Rightarrow> u32 \<Rightarrow> u32 \<Rightarrow> csp_conn_t \<Rightarrow> csp_conn_t" where
  "server_conn i p opts t c = (fresh_conn i (reply_id i) CONN_SERVER t c)
     \<lparr>c_opts := opts, rx_queue := queue_push (Some p) (rx_queue c), dest_socket := None\<rparr>"

lemma server_conn_simps [simp]:
  "c_state (server_conn i p opts t c) = CONN_OPEN" "c_type (server_conn i p opts t c) = CONN_SERVER"
  "rx_queue (server_conn i p opts t c) = queue_push (Some p) (rx_queue c)"
  "sport_outgoing (server_conn i p opts t c) = sport_outgoing c" "dest_socket (server_conn i p opts t c) = None"
  "idin (server_conn i p opts t c) = i" "idout (server_conn i p opts t c) = reply_id i"
  by (simp_all add: server_conn_def)

lemma route_new_conn_eq:
  assumes "get_packet p s = Some x" "plain_flags (flags (pid x))" "length (arr_conn s) = CSP_CONN_MAX" "next_conn s = Some n"
    "items (rx_queue (arr_conn s ! n)) = 0" "0 < qsize (rx_queue (arr_conn s ! n))"
    "k < length (sockets s)" "s_rx_queue (sockets s ! k) = Some b" "items b \<noteq> qsize b" "plain_opts (s_opts (sockets s ! k))"
  shows "csp_route_new_conn nh f p (Some k) s = Some (CSP_ERR_NONE,
    (put_conn n (server_conn (pid x) p (s_opts (sockets s ! k)) (now s) (arr_conn s ! n))
      (put_socket k ((sockets s ! k)\<lparr>s_rx_queue := Some (queue_push (Sock_Conn n) b)\<rparr>) s))\<lparr>csp_conn_last_given := of_nat n\<rparr>)"
proof -
  have n: "n < length (arr_conn s)" using next_conn_Some [OF assms(4)] assms(3) by simp
  let ?c = "(fresh_conn (pid x) (reply_id (pid x)) CONN_SERVER (now s) (arr_conn s ! n))\<lparr>dest_socket := Some k, c_opts := s_opts (sockets s ! k)\<rparr>"
  let ?t = "(put_conn n ?c s)\<lparr>csp_conn_last_given := of_nat n\<rparr>"
  have "csp_route_new_conn nh f p (Some k) s = csp_route_to_conn nh n p ?t"
    using assms(1,7) n plain_security_check [OF assms(1,2,10)] conn_new_empty [OF assms(3-5)]
    by (simp add: csp_route_new_conn_def get_socket_def upd_conn_eq)
  also have "\<dots> = Some (CSP_ERR_NONE, put_conn n (?c\<lparr>rx_queue := queue_push (Some p) (rx_queue (arr_conn s ! n)), dest_socket := None\<rparr>)
      (put_socket k ((sockets s ! k)\<lparr>s_rx_queue := Some (queue_push (Sock_Conn n) b)\<rparr>) ?t))"
    using to_conn_new [of p ?t x n k b nh] assms n by simp
  finally show ?thesis by (simp add: server_conn_def put_socket_def put_conn_def)
qed

text \<open>The node after the router took a packet from the input queue and counted it.\<close>

definition taken :: "nat \<Rightarrow> csp_packet_t \<Rightarrow> node \<Rightarrow> node" where
  "taken f x s = put_iface f ((ifaces s ! f)\<lparr>if_rx := if_rx (ifaces s ! f) + 1, if_rxbytes := if_rxbytes (ifaces s ! f) + ucast (plen x)\<rparr>)
     (s\<lparr>qfifo_queue := queue_pop (qfifo_queue s)\<rparr>)"

lemma taken_simps [simp]:
  "arr_conn (taken f x s) = arr_conn s" "sockets (taken f x s) = sockets s" "now (taken f x s) = now s"
  "get_packet q (taken f x s) = get_packet q s" "qfifo_queue (taken f x s) = queue_pop (qfifo_queue s)"
  "csp_promisc_enabled (taken f x s) = csp_promisc_enabled s" "csp_conf (taken f x s) = csp_conf s"
  "csp_conn_last_given (taken f x s) = csp_conn_last_given s" "ports (taken f x s) = ports s"
  by (simp_all add: taken_def put_iface_def)

lemma next_conn_taken [simp]: "next_conn (taken f x s) = next_conn s"
  by (simp add: next_conn_def is_closed_def [abs_def])

lemma find_existing_taken [simp]: "csp_conn_find_existing i (taken f x s) = csp_conn_find_existing i s"
  by (simp add: csp_conn_find_existing_def)

lemma env_taken: "f < length (ifaces s) \<Longrightarrow> env (taken f x s) = env s"
  unfolding taken_def by (subst env_put_counter) (simp_all add: get_iface_def iface_key_def)

text \<open>A node whose router neither copies packets to the promiscuous queue nor looks for duplicates, with a listening socket for a port.\<close>

definition quiet_router :: "node \<Rightarrow> bool" where
  "quiet_router s \<longleftrightarrow> \<not> csp_promisc_enabled s \<and> dedup (csp_conf s) = CSP_DEDUP_OFF"

definition listening :: "node \<Rightarrow> u8 \<Rightarrow> nat \<Rightarrow> sock_item pthread_queue_t \<Rightarrow> bool" where
  "listening s port k b \<longleftrightarrow> csp_port_get_callback (unat port) s = Some None \<and> csp_port_get_socket (unat port) s = Some (Some k) \<and>
     k < length (sockets s) \<and> s_rx_queue (sockets s ! k) = Some b \<and>
     plain_opts (s_opts (sockets s ! k)) \<and> \<not> has_flag (s_opts (sockets s ! k)) CSP_SO_CONN_LESS"

lemma route_work_taken:
  assumes "route_inv s" "env_inv s" "accounts H s" "queue_list (qfifo_queue s) = \<lparr>q_iface = Some f, q_packet = Some p\<rparr> # es"
    "f < length (ifaces s)" "get_packet p s = Some x" "for_me s f (pid x)" "quiet_router s"
  shows "csp_route_work nh cb s = csp_route_local nh cb f p (taken f x s)"
proof -
  let ?q = "qfifo_queue s" and ?t = "s\<lparr>qfifo_queue := queue_pop (qfifo_queue s)\<rparr>"
  let ?g = "(ifaces s ! f)\<lparr>if_rx := if_rx (ifaces s ! f) + 1, if_rxbytes := if_rxbytes (ifaces s ! f) + ucast (plen x)\<rparr>"
  have wf: "queue_wf ?q" using assms(3) by (simp add: accounts_def queues_inv_def)
  have i: "0 < items ?q" using assms(4) by (metis length_queue_list length_greater_0_conv list.distinct(1))
  have b: "buffer ?q ! q_out ?q = Some \<lparr>q_iface = Some f, q_packet = Some p\<rparr>" using queue_head_Some [OF wf i] assms(4) by simp
  have e: "env (taken f x s) = env s" by (rule env_taken [OF assms(5)])
  have g: "taken f x s = put_iface f ?g ?t" "get_iface f (taken f x s) = Some ?g" "length (ifaces (taken f x s)) = length (ifaces s)"
    using assms(5) by (simp_all add: taken_def get_iface_def put_iface_def)
  have "is_to_me (csp_conf (taken f x s)) (ifaces (taken f x s) ! f) x = Some (for_me (taken f x s) f (pid x))"
    by (rule is_to_me_eq [OF env_inv_env [OF e assms(2)]]) (use assms(5) g(3) in simp_all)
  moreover have "ifaces (taken f x s) ! f = ?g" using g(2) by (auto simp: get_iface_def split: if_splits)
  ultimately have me: "is_to_me (csp_conf s) ?g x = Some True" using for_me_env [OF e assms(5)] assms(7) by simp
  have "csp_route_work nh cb s = csp_route_packet nh cb f p ?t"
    using no_timeouts [OF assms(1), of nh] b i by (simp add: csp_route_work_def csp_qfifo_read_def csp_queue_dequeue_item)
  also have "\<dots> = csp_route_local nh cb f p (taken f x s)"
    using assms(5,6,8) me g(1) by (simp add: csp_route_packet_def csp_promisc_add_def quiet_router_def upd_iface_def get_iface_def put_iface_def Let_def)
  finally show ?thesis .
qed

lemma route_local_socket:
  assumes "get_packet p s = Some x" "listening s (dport (pid x)) k b"
  shows "csp_route_local nh cb f p s = (case csp_conn_find_existing (pid x) s of
      None \<Rightarrow> csp_route_new_conn nh f p (Some k) s
    | Some n \<Rightarrow> do {
        c \<leftarrow> get_conn n s;
        (r, s) \<leftarrow> csp_route_security_check (c_opts c) f p s;
        (if r < 0 then csp_route_discard p s else csp_route_to_conn nh n p s) })"
  using assms by (simp add: csp_route_local_def csp_route_check_options_def csp_route_socket_def listening_def get_socket_def
      del: CSP_SO_CONN_LESS_def)

lemma listening_taken: "listening (taken f x s) port k b = listening s port k b"
  by (simp add: listening_def csp_port_get_callback_def csp_port_get_socket_def port_at_def)

text \<open>The packet is the first of a new connection, which is announced to the socket, or the last of the connection it belongs to.\<close>

lemma route_work_new:
  assumes "route_inv s" "env_inv s" "accounts H s" "queue_list (qfifo_queue s) = \<lparr>q_iface = Some f, q_packet = Some p\<rparr> # es"
    "f < length (ifaces s)" "get_packet p s = Some x" "for_me s f (pid x)" "quiet_router s" "plain_flags (flags (pid x))"
    "listening s (dport (pid x)) k b" "items b \<noteq> qsize b" "csp_conn_find_existing (pid x) s = None"
    "next_conn s = Some n" "items (rx_queue (arr_conn s ! n)) = 0" "0 < qsize (rx_queue (arr_conn s ! n))"
  shows "csp_route_work nh cb s = Some (CSP_ERR_NONE,
    (put_conn n (server_conn (pid x) p (s_opts (sockets s ! k)) (now s) (arr_conn s ! n))
      (put_socket k ((sockets s ! k)\<lparr>s_rx_queue := Some (queue_push (Sock_Conn n) b)\<rparr>) (taken f x s)))\<lparr>csp_conn_last_given := of_nat n\<rparr>)"
proof -
  have l: "length (arr_conn s) = CSP_CONN_MAX" using assms(2) by (simp add: env_inv_def)
  have k: "k < length (sockets s)" "s_rx_queue (sockets s ! k) = Some b" "plain_opts (s_opts (sockets s ! k))"
    using assms(10) by (simp_all add: listening_def)
  have "csp_route_work nh cb s = csp_route_new_conn nh f p (Some k) (taken f x s)"
    using route_work_taken [OF assms(1-8)] route_local_socket [of p "taken f x s" x k b] assms(6,10,12) by (simp add: listening_taken)
  also have "\<dots> = Some (CSP_ERR_NONE,
    (put_conn n (server_conn (pid x) p (s_opts (sockets s ! k)) (now s) (arr_conn s ! n))
      (put_socket k ((sockets s ! k)\<lparr>s_rx_queue := Some (queue_push (Sock_Conn n) b)\<rparr>) (taken f x s)))\<lparr>csp_conn_last_given := of_nat n\<rparr>)"
    using route_new_conn_eq [of p "taken f x s" x n k b nh f] assms l k by simp
  finally show ?thesis .
qed

lemma route_work_existing:
  assumes "route_inv s" "env_inv s" "accounts H s" "queue_list (qfifo_queue s) = \<lparr>q_iface = Some f, q_packet = Some p\<rparr> # es"
    "f < length (ifaces s)" "get_packet p s = Some x" "for_me s f (pid x)" "quiet_router s" "plain_flags (flags (pid x))"
    "listening s (dport (pid x)) k b" "csp_conn_find_existing (pid x) s = Some n" "plain_opts (c_opts (arr_conn s ! n))"
    "dest_socket (arr_conn s ! n) = None" "items (rx_queue (arr_conn s ! n)) \<noteq> qsize (rx_queue (arr_conn s ! n))"
  shows "csp_route_work nh cb s = Some (CSP_ERR_NONE,
    put_conn n ((arr_conn s ! n)\<lparr>rx_queue := queue_push (Some p) (rx_queue (arr_conn s ! n))\<rparr>) (taken f x s))"
proof -
  have n: "n < length (arr_conn s)" using find_existing_Some(1) [OF assms(11)] assms(2) by (simp add: env_inv_def)
  have "csp_route_work nh cb s = csp_route_to_conn nh n p (taken f x s)"
    using route_work_taken [OF assms(1-8)] route_local_socket [of p "taken f x s" x k b] assms(6,9-12) n
      plain_security_check [of p "taken f x s" x] by (simp add: listening_taken get_conn_eq)
  then show ?thesis using to_conn_announced [of p "taken f x s" x n nh] assms n by simp
qed

section \<open>Properties\<close>

text \<open>C2: The router delivers: a plain packet for a port of this node on which a socket listens becomes the last packet of the
  connection it belongs to, if that has room; if it belongs to none, and a connection is free, it becomes the first packet of
  a new connection, which has the identifier of the packet, answers to its sender, is found for the packets that
  follow, and is the last one announced to the socket. The packet itself is unchanged, and nothing is lost.\<close>

theorem csp_route_work_delivers:
  assumes "route_client nh cb" "env_inv s" "route_inv s" "accounts H s"
    "queue_list (qfifo_queue s) = \<lparr>q_iface = Some f, q_packet = Some p\<rparr> # es" "f < length (ifaces s)"
    "get_packet p s = Some x" "packet_wf x" "for_me s f (pid x)" "quiet_router s" "plain_flags (flags (pid x))"
    "listening s (dport (pid x)) k b"
  shows "(\<forall>n. csp_conn_find_existing (pid x) s = Some n \<and> plain_opts (c_opts (arr_conn s ! n)) \<and> dest_socket (arr_conn s ! n) = None \<and>
        items (rx_queue (arr_conn s ! n)) \<noteq> qsize (rx_queue (arr_conn s ! n)) \<longrightarrow>
      (\<exists>s'. csp_route_work nh cb s = Some (CSP_ERR_NONE, s') \<and> accounts H s' \<and> route_inv s' \<and> get_packet p s' = Some x \<and>
        queue_list (rx_queue (arr_conn s' ! n)) = queue_list (rx_queue (arr_conn s ! n)) @ [Some p])) \<and>
    (\<forall>n. csp_conn_find_existing (pid x) s = None \<and> next_conn s = Some n \<and> items (rx_queue (arr_conn s ! n)) = 0 \<and>
        0 < qsize (rx_queue (arr_conn s ! n)) \<and> items b \<noteq> qsize b \<longrightarrow>
      (\<exists>s' b'. csp_route_work nh cb s = Some (CSP_ERR_NONE, s') \<and> accounts H s' \<and> route_inv s' \<and> get_packet p s' = Some x \<and>
        queue_list (rx_queue (arr_conn s' ! n)) = [Some p] \<and> idin (arr_conn s' ! n) = pid x \<and> idout (arr_conn s' ! n) = reply_id (pid x) \<and>
        csp_conn_find_existing (pid x) s' = Some n \<and>
        s_rx_queue (sockets s' ! k) = Some b' \<and> queue_list b' = queue_list b @ [Sock_Conn n]))"
proof -
  have "\<not> has_flag (flags (pid x)) CSP_FRDP" using assms(11) by (simp add: plain_flags_def)
  from route_work_local [OF assms(1-8) this assms(9)] obtain s' where
    s': "csp_route_work nh cb s = Some (CSP_ERR_NONE, s')" "accounts H s'" "route_inv s'" by blast
  have wf: "queue_wf (rx_queue (arr_conn s ! n))" if "n < length (arr_conn s)" for n by (rule conn_queue_wf [OF assms(4) that])
  have l: "length (arr_conn s) = CSP_CONN_MAX" using assms(2) by (simp add: env_inv_def)
  have old: "get_packet p s' = Some x \<and> queue_list (rx_queue (arr_conn s' ! n)) = queue_list (rx_queue (arr_conn s ! n)) @ [Some p]"
    if "csp_conn_find_existing (pid x) s = Some n" "plain_opts (c_opts (arr_conn s ! n))" "dest_socket (arr_conn s ! n) = None"
      "items (rx_queue (arr_conn s ! n)) \<noteq> qsize (rx_queue (arr_conn s ! n))" for n
  proof -
    have n: "n < length (arr_conn s)" using find_existing_Some(1) [OF that(1)] l by simp
    have i: "items (rx_queue (arr_conn s ! n)) < qsize (rx_queue (arr_conn s ! n))" using wf [OF n] that(4) by (simp add: queue_wf_def)
    show ?thesis using route_work_existing [OF assms(3,2,4-7,9-12) that, of nh cb] s'(1) assms(7) n queue_push_list [OF wf [OF n] i, of "Some p"] by auto
  qed
  have new: "get_packet p s' = Some x \<and> queue_list (rx_queue (arr_conn s' ! n)) = [Some p] \<and> idin (arr_conn s' ! n) = pid x \<and>
      idout (arr_conn s' ! n) = reply_id (pid x) \<and> csp_conn_find_existing (pid x) s' = Some n \<and>
      (\<exists>b'. s_rx_queue (sockets s' ! k) = Some b' \<and> queue_list b' = queue_list b @ [Sock_Conn n])"
    if "csp_conn_find_existing (pid x) s = None" "next_conn s = Some n" "items (rx_queue (arr_conn s ! n)) = 0"
      "0 < qsize (rx_queue (arr_conn s ! n))" "items b \<noteq> qsize b" for n
  proof -
    have n: "n < CSP_CONN_MAX" "n < length (arr_conn s)" using next_conn_Some [OF that(2)] l by simp_all
    have k: "k < length (sockets s)" "s_rx_queue (sockets s ! k) = Some b" using assms(12) by (simp_all add: listening_def)
    have wb: "queue_wf b" "items b < qsize b" using socket_queue_wf [OF assms(4) k] that(5) by (simp_all add: queue_wf_def)
    have "s' = (put_conn n (server_conn (pid x) p (s_opts (sockets s ! k)) (now s) (arr_conn s ! n))
        (put_socket k ((sockets s ! k)\<lparr>s_rx_queue := Some (queue_push (Sock_Conn n) b)\<rparr>) (taken f x s)))\<lparr>csp_conn_last_given := of_nat n\<rparr>"
      using route_work_new [OF assms(3,2,4-7,9-12) that(5,1-4), of nh cb] s'(1) by simp
    then have eq: "arr_conn s' ! n = server_conn (pid x) p (s_opts (sockets s ! k)) (now s) (arr_conn s ! n)"
      "sockets s' ! k = (sockets s ! k)\<lparr>s_rx_queue := Some (queue_push (Sock_Conn n) b)\<rparr>" "get_packet p s' = Some x"
      using assms(7) n k(1) by simp_all
    have "csp_conn_find_existing (pid x) s' = Some n"
      using find_existing_iff [of s' n "pid x"] s'(3) n(1) eq(1) by (simp add: route_inv_def existing_match_def)
    then show ?thesis using eq queue_push_list [OF wb, of "Sock_Conn n"] queue_push_list [OF wf [OF n(2)], of "Some p"] that(3,4)
      by (simp add: queue_list_empty_iff [symmetric])
  qed
  show ?thesis using s' old new by auto
qed

text \<open>The node with a packet in its input queue, and a socket that listens on all ports.\<close>

definition listening_node :: node where
  "listening_node = input_node\<lparr>sockets := [\<lparr>s_rx_queue = Some (empty_queue 10), s_opts = 0\<rparr>],
     ports := (ports input_node)[CSP_PORT_MAX_BIND + 1 := \<lparr>p_state = PORT_OPEN, p_ptr = 0\<rparr>]\<rparr>"

lemma listening_node_facts:
  "env_inv listening_node" "route_inv listening_node" "accounts (mset_set ({..<15} - {3})) listening_node"
  "queue_list (qfifo_queue listening_node) = [\<lparr>q_iface = Some 0, q_packet = Some 3\<rparr>]" "0 < length (ifaces listening_node)"
  "get_packet 3 listening_node = Some zero_packet" "listening listening_node (dport (pid zero_packet)) 0 (empty_queue 10)"
  "for_me listening_node 0 (pid zero_packet)" "quiet_router listening_node"
proof -
  note i = input_node_facts
  have k: "sockets input_node = []" "arr_conn listening_node = arr_conn input_node"
    by (simp_all add: listening_node_def input_node_def busy_node_def ready_node_def held_node_def zero_node_def)
  have eq: "ports input_node = replicate 18 \<lparr>p_state = PORT_CLOSED, p_ptr = 0\<rparr>" by (simp add: input_node_def busy_node_def)
  have "queued listening_node = queued input_node" using k
    by (simp add: queued_def listening_node_def qfifo_packets_def promisc_packets_def rdp_packets_def sock_packets_def)
  moreover have "queues_inv listening_node" using i(3) k by (simp add: accounts_def queues_inv_def listening_node_def)
  moreover have "pool_inv listening_node" "free_list listening_node = free_list input_node" using i(3)
    by (simp_all add: accounts_def pool_inv_def free_list_def listening_node_def)
  ultimately show "accounts (mset_set ({..<15} - {3})) listening_node" using i(3) by (simp add: accounts_def)
  show "queue_list (qfifo_queue listening_node) = [\<lparr>q_iface = Some 0, q_packet = Some 3\<rparr>]" using i(4) by (simp add: listening_node_def)
  show "0 < length (ifaces listening_node)" using i(5) by (simp add: listening_node_def)
  show "get_packet 3 listening_node = Some zero_packet" using i(6) by (simp add: listening_node_def get_packet_def split: if_splits)
  show "listening listening_node (dport (pid zero_packet)) 0 (empty_queue 10)"
    by (simp add: listening_def csp_port_get_callback_def csp_port_get_socket_def port_at_def listening_node_def eq zero_packet_def zero_id_def has_flag_def)
  show "for_me listening_node 0 (pid zero_packet)" using input_packet(2) by (simp add: for_me_def listening_node_def)
  show "quiet_router listening_node"
    by (simp add: quiet_router_def listening_node_def input_node_def busy_node_def ready_node_def held_node_def zero_node_def zero_conf_def)
  have ch: "iface_chain listening_node p xs = iface_chain input_node p xs" for p xs
    by (induction xs arbitrary: p) (simp_all add: listening_node_def)
  show "env_inv listening_node" using i(1) k eq ch
    by (auto simp: env_inv_def iflist_def masks_ok_def rtable_inv_def routes_def listening_node_def in_set_conv_nth nth_list_update)
  show "route_inv listening_node" using i(2) k
    by (auto simp: route_inv_def sock_ok_def conn_inv_def listening_node_def split: option.splits)
qed

theorem csp_route_work_delivers_witness:
  "\<exists>s'. csp_route_work csp_lo_tx (\<lambda>f p. csp_buffer_free (Some p)) listening_node = Some (CSP_ERR_NONE, s') \<and>
     queue_list (rx_queue (arr_conn s' ! 1)) = [Some 3] \<and> csp_conn_find_existing zero_id s' = Some 1"
proof -
  note f = listening_node_facts
  have a: "arr_conn listening_node = map (\<lambda>i. zero_conn\<lparr>sport_outgoing := of_nat (CSP_PORT_MAX_BIND + 1 + i)\<rparr>) [0..<CSP_CONN_MAX]"
    "csp_conn_last_given listening_node = 0"
    by (simp_all add: listening_node_def input_node_def busy_node_def ready_node_def held_node_def zero_node_def del: upt_rec_numeral)
  have closed: "c_state (arr_conn listening_node ! i) = CONN_CLOSED" if "i < CSP_CONN_MAX" for i
    using that by (simp add: a zero_conn_def del: upt_rec_numeral)
  have "next_conn listening_node = Some 1"
    using closed by (simp add: next_conn_def a(2) search_order_def upt_rec is_closed_def)
  moreover have "csp_conn_find_existing (pid zero_packet) listening_node = None"
    using closed by (simp add: find_existing_None existing_match_def)
  moreover have "rx_queue (arr_conn listening_node ! 1) = empty_queue CSP_CONN_RXQUEUE_LEN" by (simp add: a zero_conn_def)
  moreover have "plain_flags (flags (pid zero_packet))" "pid zero_packet = zero_id" by (simp_all add: zero_packet_def zero_id_def)
  ultimately show ?thesis
    using csp_route_work_delivers [OF drop.route_client_axioms f(1-6) zero_packet_wf f(8,9) _ f(7)] by fastforce
qed

end
