(* ===== verification/Csp_Service.thy ===== *)
theory Csp_Service
  imports Csp_Io
begin

text \<open>
  The services every node offers (\<^verbatim>\<open>src/csp_service_handler.c\<close>): the management protocol of \<^verbatim>\<open>include/csp/csp_cmp.h\<close>, ping, free memory,
  reboot, free buffers and uptime. What the handler takes from the system is the parameter \<open>hk\<close>: the hooks of
  \<^verbatim>\<open>include/csp/csp_hooks.h\<close>, the clock, and the memory that peek and poke access.
\<close>

section \<open>Model\<close>

definition CSP_CMP :: u8 where [simp, csp_defs]: "CSP_CMP = 0"
definition CSP_PING :: u8 where [simp, csp_defs]: "CSP_PING = 1"
definition CSP_PS :: u8 where [simp, csp_defs]: "CSP_PS = 2"
definition CSP_MEMFREE :: u8 where [simp, csp_defs]: "CSP_MEMFREE = 3"
definition CSP_REBOOT :: u8 where [simp, csp_defs]: "CSP_REBOOT = 4"
definition CSP_BUF_FREE :: u8 where [simp, csp_defs]: "CSP_BUF_FREE = 5"
definition CSP_UPTIME :: u8 where [simp, csp_defs]: "CSP_UPTIME = 6"
definition CSP_HOSTNAME_LEN :: nat where [simp, csp_defs]: "CSP_HOSTNAME_LEN = 20"
definition CSP_MODEL_LEN :: nat where [simp, csp_defs]: "CSP_MODEL_LEN = 30"
definition CSP_REBOOT_MAGIC :: u32 where [simp, csp_defs]: "CSP_REBOOT_MAGIC = 0x80078007"
definition CSP_REBOOT_SHUTDOWN_MAGIC :: u32 where [simp, csp_defs]: "CSP_REBOOT_SHUTDOWN_MAGIC = 0xD1E5529A"
definition CSP_CMP_REQUEST :: u8 where [simp, csp_defs]: "CSP_CMP_REQUEST = 0x00"
definition CSP_CMP_REPLY :: u8 where [simp, csp_defs]: "CSP_CMP_REPLY = 0xff"
definition CSP_CMP_IDENT :: u8 where [simp, csp_defs]: "CSP_CMP_IDENT = 1"
definition CSP_CMP_ROUTE_SET_V1 :: u8 where [simp, csp_defs]: "CSP_CMP_ROUTE_SET_V1 = 2"
definition CSP_CMP_IF_STATS :: u8 where [simp, csp_defs]: "CSP_CMP_IF_STATS = 3"
definition CSP_CMP_PEEK :: u8 where [simp, csp_defs]: "CSP_CMP_PEEK = 4"
definition CSP_CMP_POKE :: u8 where [simp, csp_defs]: "CSP_CMP_POKE = 5"
definition CSP_CMP_CLOCK :: u8 where [simp, csp_defs]: "CSP_CMP_CLOCK = 6"
definition CSP_CMP_ROUTE_SET_V2 :: u8 where [simp, csp_defs]: "CSP_CMP_ROUTE_SET_V2 = 7"
definition CSP_CMP_IDENT_REV_LEN :: nat where [simp, csp_defs]: "CSP_CMP_IDENT_REV_LEN = 20"
definition CSP_CMP_IDENT_DATE_LEN :: nat where [simp, csp_defs]: "CSP_CMP_IDENT_DATE_LEN = 12"
definition CSP_CMP_IDENT_TIME_LEN :: nat where [simp, csp_defs]: "CSP_CMP_IDENT_TIME_LEN = 9"
definition CSP_CMP_ROUTE_IFACE_LEN :: nat where [simp, csp_defs]: "CSP_CMP_ROUTE_IFACE_LEN = 11"
definition CSP_CMP_PEEK_MAX_LEN :: nat where [simp, csp_defs]: "CSP_CMP_PEEK_MAX_LEN = 200"
definition CSP_CMP_POKE_MAX_LEN :: nat where [simp, csp_defs]: "CSP_CMP_POKE_MAX_LEN = 200"
definition CSP_DBG_ERR_CLOCK_SET_FAIL :: u8 where [simp, csp_defs]: "CSP_DBG_ERR_CLOCK_SET_FAIL = 12"

text \<open>
  The system. A hook may change the node; \<open>ps_hook\<close> is given the packet. \<open>mem_peek\<close> and \<open>mem_poke\<close> are the
  copies out of and into the memory of the system, undefined for addresses that are not mapped. \<open>clock_get\<close> is
  told which time was set just before, if one was.
\<close>

record hooks =
  ps_hook :: "nat \<Rightarrow> node \<Rightarrow> u32 csp"
  memfree_hook :: u32
  reboot_hook :: "node \<Rightarrow> node"
  shutdown_hook :: "node \<Rightarrow> node"
  csp_get_s :: u32
  mem_peek :: "u32 \<Rightarrow> nat \<Rightarrow> u8 list option"
  mem_poke :: "u32 \<Rightarrow> u8 list \<Rightarrow> node \<Rightarrow> node option"
  clock_set_time :: "u32 \<Rightarrow> u32 \<Rightarrow> int"
  clock_get_time :: "(u32 \<times> u32) option \<Rightarrow> u32 \<times> u32"
  build_date :: string
  build_time :: string

definition csp_cmp_set_memcpy ::
  "(u32 \<Rightarrow> nat \<Rightarrow> u8 list option) \<Rightarrow> (u32 \<Rightarrow> u8 list \<Rightarrow> node \<Rightarrow> node option) \<Rightarrow> hooks \<Rightarrow> hooks" where
  "csp_cmp_set_memcpy peek poke hk = hk\<lparr>mem_peek := peek, mem_poke := poke\<rparr>"

text \<open>The hook of the POSIX port (\<^verbatim>\<open>src/arch/posix/csp_system.c\<close>).\<close>

definition csp_ps_hook :: "nat \<Rightarrow> node \<Rightarrow> u32 csp" where
  "csp_ps_hook packet s = Some (0, s)"

text \<open>
  Offsets of the message \<^verbatim>\<open>struct csp_cmp_message\<close> in the data of a packet. The struct is packed, its inner structs
  are not: \<open>route_set_v2\<close> has one byte of padding at its end, \<open>peek\<close> and \<open>poke\<close> have three.
\<close>

definition cmp_size_ident :: nat where [simp, csp_defs]:
  "cmp_size_ident = 2 + CSP_HOSTNAME_LEN + CSP_MODEL_LEN + CSP_CMP_IDENT_REV_LEN + CSP_CMP_IDENT_DATE_LEN + CSP_CMP_IDENT_TIME_LEN"
definition cmp_size_route_set_v1 :: nat where [simp, csp_defs]: "cmp_size_route_set_v1 = 2 + 2 + CSP_CMP_ROUTE_IFACE_LEN"
definition cmp_size_route_set_v2 :: nat where [simp, csp_defs]: "cmp_size_route_set_v2 = 2 + 6 + CSP_CMP_ROUTE_IFACE_LEN + 1"
definition cmp_size_if_stats :: nat where [simp, csp_defs]: "cmp_size_if_stats = 2 + CSP_CMP_ROUTE_IFACE_LEN + 40"
definition cmp_size_peek :: nat where [simp, csp_defs]: "cmp_size_peek = 2 + 5 + CSP_CMP_PEEK_MAX_LEN + 3"
definition cmp_size_clock :: nat where [simp, csp_defs]: "cmp_size_clock = 2 + 8"

definition data_u8 :: "nat \<Rightarrow> csp_packet_t \<Rightarrow> u8 option" where
  "data_u8 off x = map_option hd (data_read off 1 x)"

definition data_be16 :: "nat \<Rightarrow> csp_packet_t \<Rightarrow> u16 option" where
  "data_be16 off x = map_option (\<lambda>bs. be16toh (le_to_word bs)) (data_read off 2 x)"

definition data_be32 :: "nat \<Rightarrow> csp_packet_t \<Rightarrow> u32 option" where
  "data_be32 off x = map_option (\<lambda>bs. be32toh (le_to_word bs)) (data_read off 4 x)"

definition put_be32 :: "nat \<Rightarrow> u32 \<Rightarrow> csp_packet_t \<Rightarrow> csp_packet_t option" where
  "put_be32 off v x = data_write off (word_to_le 4 (htobe32 v)) x"

text \<open>The name of an interface in a message: the characters up to the first zero.\<close>

definition cmp_name :: "nat \<Rightarrow> csp_packet_t \<Rightarrow> string option" where
  "cmp_name off x = map_option (\<lambda>bs. map (\<lambda>b. char_of (unat b)) (takeWhile (\<lambda>b. b \<noteq> 0) bs)) (data_read off CSP_CMP_ROUTE_IFACE_LEN x)"

text \<open>\<^verbatim>\<open>strncpy(dst, src, n)\<close> followed by \<^verbatim>\<open>dst[n - 1] = '\\0'\<close>.\<close>

definition strncpy_end :: "nat \<Rightarrow> string \<Rightarrow> u8 list" where
  "strncpy_end n str = take (n - 1) (map of_char str @ replicate n 0) @ [0]"

definition do_cmp_ident :: "hooks \<Rightarrow> csp_conf_t \<Rightarrow> csp_packet_t \<Rightarrow> (int \<times> csp_packet_t) option" where
  "do_cmp_ident hk conf x = do {
     x \<leftarrow> data_write 52 (strncpy_end CSP_CMP_IDENT_REV_LEN (revision conf)) x;
     x \<leftarrow> data_write 72 (strncpy_end CSP_CMP_IDENT_DATE_LEN (build_date hk)) x;
     x \<leftarrow> data_write 84 (strncpy_end CSP_CMP_IDENT_TIME_LEN (build_time hk)) x;
     x \<leftarrow> data_write 2 (strncpy_end CSP_HOSTNAME_LEN (hostname conf)) x;
     x \<leftarrow> data_write 22 (strncpy_end CSP_MODEL_LEN (model conf)) x;
     Some (CSP_ERR_NONE, x)
   }"

definition do_cmp_route_set_v1 :: "csp_packet_t \<Rightarrow> node \<Rightarrow> int csp" where
  "do_cmp_route_set_v1 x s = do {
     name \<leftarrow> cmp_name 4 x;
     ifc \<leftarrow> csp_iflist_get_by_name name s;
     (if ifc = None then Some (CSP_ERR_INVAL, s)
      else do {
        dest \<leftarrow> data_u8 2 x;
        via \<leftarrow> data_u8 3 x;
        (r, s) \<leftarrow> csp_rtable_set (ucast dest) (uint (csp_id_get_host_bits (csp_conf s))) ifc (ucast via) s;
        Some (if r \<noteq> CSP_ERR_NONE then CSP_ERR_INVAL else CSP_ERR_NONE, s)
      })
   }"

definition do_cmp_route_set_v2 :: "csp_packet_t \<Rightarrow> node \<Rightarrow> int csp" where
  "do_cmp_route_set_v2 x s = do {
     name \<leftarrow> cmp_name 8 x;
     ifc \<leftarrow> csp_iflist_get_by_name name s;
     (if ifc = None then Some (CSP_ERR_INVAL, s)
      else do {
        dest \<leftarrow> data_be16 2 x;
        via \<leftarrow> data_be16 4 x;
        netmask \<leftarrow> data_be16 6 x;
        (r, s) \<leftarrow> csp_rtable_set dest (uint netmask) ifc via s;
        Some (if r \<noteq> CSP_ERR_NONE then CSP_ERR_INVAL else CSP_ERR_NONE, s)
      })
   }"

definition do_cmp_if_stats :: "csp_packet_t \<Rightarrow> node \<Rightarrow> (int \<times> csp_packet_t) option" where
  "do_cmp_if_stats x s = do {
     name \<leftarrow> cmp_name 2 x;
     ifc \<leftarrow> csp_iflist_get_by_name name s;
     (case ifc of
        None \<Rightarrow> Some (CSP_ERR_INVAL, x)
      | Some i \<Rightarrow> do {
          f \<leftarrow> get_iface i s;
          x \<leftarrow> put_be32 13 (if_tx f) x;
          x \<leftarrow> put_be32 17 (if_rx f) x;
          x \<leftarrow> put_be32 21 (if_tx_error f) x;
          x \<leftarrow> put_be32 25 (if_rx_error f) x;
          x \<leftarrow> put_be32 29 (if_drop f) x;
          x \<leftarrow> put_be32 33 (if_autherr f) x;
          x \<leftarrow> put_be32 37 (if_frame f) x;
          x \<leftarrow> put_be32 41 (if_txbytes f) x;
          x \<leftarrow> put_be32 45 (if_rxbytes f) x;
          x \<leftarrow> put_be32 49 (if_irq f) x;
          Some (CSP_ERR_NONE, x)
        })
   }"

text \<open>The address is converted in the message itself.\<close>

definition do_cmp_peek :: "hooks \<Rightarrow> csp_packet_t \<Rightarrow> (int \<times> csp_packet_t) option" where
  "do_cmp_peek hk x = do {
     addr \<leftarrow> data_be32 2 x;
     x \<leftarrow> data_write 2 (word_to_le 4 addr) x;
     len \<leftarrow> data_u8 6 x;
     (if unat len > CSP_CMP_PEEK_MAX_LEN then Some (CSP_ERR_INVAL, x)
      else do {
        bs \<leftarrow> mem_peek hk addr (unat len);
        x \<leftarrow> data_write 7 bs x;
        Some (CSP_ERR_NONE, x)
      })
   }"

definition do_cmp_poke :: "hooks \<Rightarrow> csp_packet_t \<Rightarrow> node \<Rightarrow> ((int \<times> csp_packet_t) \<times> node) option" where
  "do_cmp_poke hk x s = do {
     addr \<leftarrow> data_be32 2 x;
     x \<leftarrow> data_write 2 (word_to_le 4 addr) x;
     len \<leftarrow> data_u8 6 x;
     (if unat len > CSP_CMP_POKE_MAX_LEN then Some ((CSP_ERR_INVAL, x), s)
      else do {
        bs \<leftarrow> data_read 7 (unat len) x;
        s \<leftarrow> mem_poke hk addr bs s;
        Some ((CSP_ERR_NONE, x), s)
      })
   }"

definition do_cmp_clock :: "hooks \<Rightarrow> csp_packet_t \<Rightarrow> node \<Rightarrow> ((int \<times> csp_packet_t) \<times> node) option" where
  "do_cmp_clock hk x s = do {
     sec \<leftarrow> data_be32 2 x;
     nsec \<leftarrow> data_be32 6 x;
     let res = (if sec \<noteq> 0 then clock_set_time hk sec nsec else CSP_ERR_NONE);
     let s = (if res \<noteq> CSP_ERR_NONE then s\<lparr>csp_dbg_errno := CSP_DBG_ERR_CLOCK_SET_FAIL\<rparr> else s);
     let clock = clock_get_time hk (if sec \<noteq> 0 \<and> res = CSP_ERR_NONE then Some (sec, nsec) else None);
     x \<leftarrow> put_be32 2 (fst clock) x;
     x \<leftarrow> put_be32 6 (snd clock) x;
     Some ((res, x), s)
   }"

text \<open>The switch of the handler: the result, the packet and the node.\<close>

definition csp_cmp_switch :: "hooks \<Rightarrow> u8 \<Rightarrow> csp_packet_t \<Rightarrow> node \<Rightarrow> ((int \<times> csp_packet_t) \<times> node) option" where
  "csp_cmp_switch hk code x s =
     (if code = CSP_CMP_IDENT then do {
        (r, x) \<leftarrow> do_cmp_ident hk (csp_conf s) x;
        Some ((r, x\<lparr>plen := of_nat cmp_size_ident\<rparr>), s)
      }
      else if code = CSP_CMP_ROUTE_SET_V1 then do {
        (r, s) \<leftarrow> do_cmp_route_set_v1 x s;
        Some ((r, x\<lparr>plen := of_nat cmp_size_route_set_v1\<rparr>), s)
      }
      else if code = CSP_CMP_ROUTE_SET_V2 then do {
        (r, s) \<leftarrow> do_cmp_route_set_v2 x s;
        Some ((r, x\<lparr>plen := of_nat cmp_size_route_set_v2\<rparr>), s)
      }
      else if code = CSP_CMP_IF_STATS then do {
        (r, x) \<leftarrow> do_cmp_if_stats x s;
        Some ((r, x\<lparr>plen := of_nat cmp_size_if_stats\<rparr>), s)
      }
      else if code = CSP_CMP_PEEK then do { r \<leftarrow> do_cmp_peek hk x; Some (r, s) }
      else if code = CSP_CMP_POKE then do_cmp_poke hk x s
      else if code = CSP_CMP_CLOCK then do_cmp_clock hk x s
      else Some ((CSP_ERR_INVAL, x), s))"

definition csp_cmp_handler :: "hooks \<Rightarrow> nat \<Rightarrow> node \<Rightarrow> int csp" where
  "csp_cmp_handler hk packet s = do {
     x \<leftarrow> get_packet packet s;
     type \<leftarrow> data_u8 0 x;
     (if type \<noteq> CSP_CMP_REQUEST then Some (CSP_ERR_INVAL, s)
      else do {
        code \<leftarrow> data_u8 1 x;
        ((ret, x), s) \<leftarrow> csp_cmp_switch hk code x s;
        x \<leftarrow> data_write 0 [CSP_CMP_REPLY] x;
        Some (ret, put_packet packet x s)
      })
   }"

text \<open>A number as the reply.\<close>

definition reply_u32 :: "u32 \<Rightarrow> nat \<Rightarrow> node \<Rightarrow> node option" where
  "reply_u32 v packet s = do {
     x \<leftarrow> get_packet packet s;
     x \<leftarrow> put_be32 0 v x;
     Some (put_packet packet (x\<lparr>plen := 4\<rparr>) s)
   }"

definition csp_service_handler :: "nexthop_t \<Rightarrow> hooks \<Rightarrow> nat \<Rightarrow> node \<Rightarrow> unit csp" where
  "csp_service_handler nexthop hk packet s = do {
     x \<leftarrow> get_packet packet s;
     let port = dport (pid x);
     let reply = csp_sendto_reply nexthop (Some packet) packet CSP_O_SAME;
     (if port = CSP_CMP then do {
        (r, s) \<leftarrow> csp_cmp_handler hk packet s;
        (if r \<noteq> CSP_ERR_NONE then csp_buffer_free (Some packet) s else reply s)
      }
      else if port = CSP_PING then reply s
      else if port = CSP_PS then do {
        (n, s) \<leftarrow> ps_hook hk packet s;
        y \<leftarrow> get_packet packet s;
        let s = put_packet packet (y\<lparr>plen := ucast n\<rparr>) s;
        (_, s) \<leftarrow> (if (ucast n :: u16) = 0 then csp_buffer_free (Some packet) s else Some ((), s));
        reply s
      }
      else if port = CSP_MEMFREE then do { s \<leftarrow> reply_u32 (memfree_hook hk) packet s; reply s }
      else if port = CSP_REBOOT then do {
        magic_word \<leftarrow> data_be32 0 x;
        let s = (if magic_word = CSP_REBOOT_MAGIC then reboot_hook hk s
                 else if magic_word = CSP_REBOOT_SHUTDOWN_MAGIC then shutdown_hook hk s else s);
        csp_buffer_free (Some packet) s
      }
      else if port = CSP_BUF_FREE then do { s \<leftarrow> reply_u32 (of_nat (csp_buffer_remaining s)) packet s; reply s }
      else if port = CSP_UPTIME then do { s \<leftarrow> reply_u32 (csp_get_s hk) packet s; reply s }
      else csp_buffer_free (Some packet) s)
   }"

section \<open>Messages keep their packet\<close>

text \<open>Writing into the data changes neither the length nor the identifier.\<close>

definition same_frame :: "csp_packet_t \<Rightarrow> csp_packet_t \<Rightarrow> bool" where
  "same_frame x y \<longleftrightarrow> length (bytes y) = length (bytes x) \<and> plen y = plen x \<and> pid y = pid x"

lemma same_frame_refl [simp]: "same_frame x x"
  by (simp add: same_frame_def)

lemma same_frame_write: "data_write off bs x = Some y \<Longrightarrow> same_frame x y"
  by (auto simp: data_write_def same_frame_def dest: mem_write_length)

lemma same_frame_be32: "put_be32 off v x = Some y \<Longrightarrow> same_frame x y"
  by (auto simp: put_be32_def intro: same_frame_write)

lemma same_frame_trans: "same_frame x y \<Longrightarrow> same_frame y z \<Longrightarrow> same_frame x z"
  by (simp add: same_frame_def)

lemma ident_frame: "do_cmp_ident hk conf x = Some (r, y) \<Longrightarrow> same_frame x y"
  unfolding do_cmp_ident_def by (auto simp: bind_Some_iff dest!: same_frame_write) (auto simp: same_frame_def)

lemma if_stats_frame: "do_cmp_if_stats x s = Some (r, y) \<Longrightarrow> same_frame x y"
  unfolding do_cmp_if_stats_def
  by (auto simp: bind_Some_iff dest!: same_frame_be32 split: option.splits) (auto simp: same_frame_def)

lemma peek_frame: "do_cmp_peek hk x = Some (r, y) \<Longrightarrow> same_frame x y"
  unfolding do_cmp_peek_def
  by (auto simp: bind_Some_iff dest!: same_frame_write split: if_splits intro: same_frame_trans)

lemma poke_frame: "do_cmp_poke hk x s = Some ((r, y), s') \<Longrightarrow> same_frame x y \<and> (s' = s \<or> (\<exists>a bs. mem_poke hk a bs s = Some s'))"
  unfolding do_cmp_poke_def
  by (auto simp: bind_Some_iff dest!: same_frame_write split: if_splits)

lemma clock_frame: "do_cmp_clock hk x s = Some ((r, y), s') \<Longrightarrow> same_frame x y \<and> (\<exists>e. s' = s\<lparr>csp_dbg_errno := e\<rparr> \<or> s' = s)"
  unfolding do_cmp_clock_def Let_def
  by (auto simp: bind_Some_iff dest!: same_frame_be32 intro: same_frame_trans split: if_splits)

section \<open>Setting routes\<close>

lemma rtable_set_internal_room:
  assumes "rtable_inv s" "csp_rtable_set_internal a m ifc via s = Some (e, s')"
  shows "length (set_route \<lparr>r_address = a, r_netmask = m, r_via = via, r_iface = ifc\<rparr> (routes s)) \<le> CSP_RTABLE_SIZE"
proof -
  note l = length_routes [OF assms(1)]
  have n: "rtable_inptr s \<le> 10" "length (rtable s) = 10" using assms(1) by (simp_all add: rtable_inv_def)
  show ?thesis
  proof (cases "find (\<lambda>i. r_address (routes s ! i) = a \<and> r_netmask (routes s ! i) = m) [0..<rtable_inptr s]")
    case None
    then have "rtable_inptr s \<noteq> 10" using assms(2) n csp_rtable_find_exact_eq [OF assms(1), of a m]
      by (auto simp: csp_rtable_set_internal_def rtable_at_def Let_def)
    then show ?thesis using None l n by (simp add: set_route_def)
  next
    case (Some i)
    then show ?thesis using l n by (simp add: set_route_def)
  qed
qed

lemma set_route_sub: "set (set_route r rs) \<subseteq> insert r (set rs)"
  using set_update_subset_insert [of rs _ r] by (auto simp: set_route_def split: option.splits dest: subsetD)

text \<open>What an operation may do to the node besides changing the routes: nothing that the accounts of the buffers or the environment see.\<close>

definition harmless :: "node \<Rightarrow> node \<Rightarrow> bool" where
  "harmless s s' \<longleftrightarrow> (\<forall>H. accounts H s \<longrightarrow> accounts H s') \<and> (\<forall>q. get_packet q s' = get_packet q s) \<and> (env_inv s \<longrightarrow> env_inv s')"

lemma harmless_refl [simp]: "harmless s s"
  by (simp add: harmless_def)

lemma harmless_errno [simp]: "harmless s (s\<lparr>csp_dbg_errno := e\<rparr>)"
  using env_inv_env [of "s\<lparr>csp_dbg_errno := e\<rparr>" s] by (simp add: harmless_def)

lemma rtable_set_quiet:
  assumes "csp_rtable_set a n (Some i) via s = Some (e, s')" "env_inv s" "i < length (ifaces s)"
  shows "harmless s s'"
proof -
  let ?h = "uint (csp_id_get_host_bits (csp_conf s))"
  define k where "k = (if n < 0 \<or> n > ?h then ?h else n)"
  let ?m = "word_of_int k :: u16"
  let ?r = "\<lparr>r_address = a, r_netmask = ?m, r_via = via, r_iface = Some i\<rparr>"
  have r: "rtable_inv s" using assms(2) by (simp add: env_inv_def)
  have set: "csp_rtable_set_internal a ?m (Some i) via s = Some (e, s')"
    using assms(1) by (auto simp: csp_rtable_set_def Let_def k_def split: if_splits)
  have "?h \<le> 14" by (simp add: csp_id_get_host_bits_def)
  moreover have "0 \<le> k" "k \<le> ?h" by (auto simp: k_def)
  ultimately have "uint ?m = k" by (simp add: uint_word_of_int take_bit_int_eq_self)
  then have "unat ?m \<le> unat (csp_id_get_host_bits (csp_conf s))" using \<open>k \<le> ?h\<close> by (simp only: unat_eq_nat_uint nat_mono)
  from csp_rtable_set_internal_eq [OF r this rtable_set_internal_room [OF r set]] set
  have s': "routes s' = set_route ?r (routes s)" "rtable_inv s'" by auto
  obtain l t where f: "s' = s\<lparr>rtable_inptr := l, rtable := t\<rparr>" using rtable_set_internal_frame [OF set] by blast
  have "\<forall>r \<in> set (routes s'). \<exists>i. r_iface r = Some i \<and> i < length (ifaces s')"
    using assms(2,3) s'(1) set_route_sub [of ?r "routes s"] f by (auto simp: env_inv_def dest!: subsetD)
  then have "env_inv s'" using assms(2) s'(2) f by (simp add: env_inv_def iflist_def masks_ok_def)
  moreover have "accounts H s' = accounts H s" for H
    by (simp add: f accounts_def pool_inv_def free_list_def queued_def queues_inv_def qfifo_packets_def promisc_packets_def rdp_packets_def)
  ultimately show ?thesis by (simp add: harmless_def f get_packet_def)
qed

lemma name_found:
  assumes "csp_iflist_get_by_name name s = Some (Some i)" "env_inv s"
  shows "i < length (ifaces s)"
proof -
  obtain xs where xs: "iflist s xs" using assms(2) by (auto simp: env_inv_def)
  then have "i \<in> set xs" using assms(1) csp_iflist_get_by_name_find [OF xs, of name] by (auto simp: find_Some_iff)
  then show ?thesis using xs iface_chain_member by (auto simp: iflist_def)
qed

lemma route_set_quiet:
  "do_cmp_route_set_v1 x s = Some (r, s') \<Longrightarrow> env_inv s \<Longrightarrow> harmless s s'"
  "do_cmp_route_set_v2 x s = Some (r, s') \<Longrightarrow> env_inv s \<Longrightarrow> harmless s s'"
  unfolding do_cmp_route_set_v1_def do_cmp_route_set_v2_def
  by (auto simp: bind_Some_iff split: if_splits intro: rtable_set_quiet name_found)

lemma cmp_switch_packet:
  assumes "csp_cmp_switch hk code x s = Some ((r, y), s')" "packet_wf x"
  shows "packet_wf y \<and> pid y = pid x"
proof -
  have wf: "packet_wf z \<and> packet_wf (z\<lparr>plen := 93\<rparr>) \<and> packet_wf (z\<lparr>plen := 15\<rparr>) \<and> packet_wf (z\<lparr>plen := 20\<rparr>) \<and> packet_wf (z\<lparr>plen := 53\<rparr>) \<and> pid z = pid x"
    if "same_frame x z" for z using that assms(2) by (simp add: packet_wf_def same_frame_def)
  show ?thesis using assms(1) wf [of x] unfolding csp_cmp_switch_def
    by (auto simp: bind_Some_iff split: if_splits dest!: ident_frame if_stats_frame peek_frame poke_frame clock_frame dest: wf)
qed

section \<open>Messages stay in their packet\<close>

lemma data_bytes: "off + n \<le> CSP_BUFFER_SIZE \<Longrightarrow> length (bytes x) = PACKET_BYTES \<Longrightarrow> data_read off n x = Some (take n (List.drop (DATA_OFFSET + off) (bytes x)))"
  by (simp add: data_read_def mem_read_def)

lemma data_write_in:
  assumes "length (bytes x) = PACKET_BYTES" "off + length bs \<le> CSP_BUFFER_SIZE"
  shows "\<exists>y. data_write off bs x = Some y \<and> length (bytes y) = PACKET_BYTES"
  using assms by (auto simp: data_write_def mem_write_def)

lemma put_be32_in: "length (bytes x) = PACKET_BYTES \<Longrightarrow> off + 4 \<le> CSP_BUFFER_SIZE \<Longrightarrow> \<exists>y. put_be32 off v x = Some y \<and> length (bytes y) = PACKET_BYTES"
  unfolding put_be32_def by (rule data_write_in) simp_all

lemma length_strncpy_end [simp]: "0 < n \<Longrightarrow> length (strncpy_end n str) = n"
  by (simp add: strncpy_end_def)

lemma data_reads_in:
  assumes "length (bytes x) = PACKET_BYTES"
  shows "off + 1 \<le> CSP_BUFFER_SIZE \<Longrightarrow> \<exists>v. data_u8 off x = Some v" "off + 2 \<le> CSP_BUFFER_SIZE \<Longrightarrow> \<exists>v. data_be16 off x = Some v"
    "off + 4 \<le> CSP_BUFFER_SIZE \<Longrightarrow> \<exists>v. data_be32 off x = Some v" "off + 11 \<le> CSP_BUFFER_SIZE \<Longrightarrow> \<exists>v. cmp_name off x = Some v"
  using assms by (simp_all add: data_u8_def data_be16_def data_be32_def cmp_name_def data_bytes)

lemma ident_returns:
  assumes "length (bytes x) = PACKET_BYTES"
  shows "\<exists>y. do_cmp_ident hk conf x = Some (CSP_ERR_NONE, y)"
proof -
  obtain x1 where x1: "data_write 52 (strncpy_end CSP_CMP_IDENT_REV_LEN (revision conf)) x = Some x1" "length (bytes x1) = PACKET_BYTES"
    using data_write_in [OF assms, of 52 "strncpy_end CSP_CMP_IDENT_REV_LEN (revision conf)"] by auto
  obtain x2 where x2: "data_write 72 (strncpy_end CSP_CMP_IDENT_DATE_LEN (build_date hk)) x1 = Some x2" "length (bytes x2) = PACKET_BYTES"
    using data_write_in [OF x1(2), of 72 "strncpy_end CSP_CMP_IDENT_DATE_LEN (build_date hk)"] by auto
  obtain x3 where x3: "data_write 84 (strncpy_end CSP_CMP_IDENT_TIME_LEN (build_time hk)) x2 = Some x3" "length (bytes x3) = PACKET_BYTES"
    using data_write_in [OF x2(2), of 84 "strncpy_end CSP_CMP_IDENT_TIME_LEN (build_time hk)"] by auto
  obtain x4 where x4: "data_write 2 (strncpy_end CSP_HOSTNAME_LEN (hostname conf)) x3 = Some x4" "length (bytes x4) = PACKET_BYTES"
    using data_write_in [OF x3(2), of 2 "strncpy_end CSP_HOSTNAME_LEN (hostname conf)"] by auto
  obtain x5 where x5: "data_write 22 (strncpy_end CSP_MODEL_LEN (model conf)) x4 = Some x5"
    using data_write_in [OF x4(2), of 22 "strncpy_end CSP_MODEL_LEN (model conf)"] by auto
  show ?thesis using x1(1) x2(1) x3(1) x4(1) x5 by (simp add: do_cmp_ident_def)
qed

lemma if_stats_returns:
  assumes "length (bytes x) = PACKET_BYTES" "env_inv s"
  shows "\<exists>r y. do_cmp_if_stats x s = Some (r, y)"
proof -
  obtain name where name: "cmp_name 2 x = Some name" using data_reads_in(4) [OF assms(1), of 2] by auto
  obtain xs where "iflist s xs" using assms(2) by (auto simp: env_inv_def)
  from csp_iflist_get_by_name_find [OF this, of name] obtain ifc where ifc: "csp_iflist_get_by_name name s = Some ifc" by blast
  show ?thesis
  proof (cases ifc)
    case None
    then show ?thesis using name ifc by (simp add: do_cmp_if_stats_def)
  next
    case (Some i)
    then have i: "i < length (ifaces s)" using name_found [OF _ assms(2), of name i] ifc by simp
    let ?f = "ifaces s ! i"
    note p = put_be32_in
    obtain x1 where x1: "put_be32 13 (if_tx ?f) x = Some x1" "length (bytes x1) = PACKET_BYTES" using p [OF assms(1), of 13] by fastforce
    obtain x2 where x2: "put_be32 17 (if_rx ?f) x1 = Some x2" "length (bytes x2) = PACKET_BYTES" using p [OF x1(2), of 17] by fastforce
    obtain x3 where x3: "put_be32 21 (if_tx_error ?f) x2 = Some x3" "length (bytes x3) = PACKET_BYTES" using p [OF x2(2), of 21] by fastforce
    obtain x4 where x4: "put_be32 25 (if_rx_error ?f) x3 = Some x4" "length (bytes x4) = PACKET_BYTES" using p [OF x3(2), of 25] by fastforce
    obtain x5 where x5: "put_be32 29 (if_drop ?f) x4 = Some x5" "length (bytes x5) = PACKET_BYTES" using p [OF x4(2), of 29] by fastforce
    obtain x6 where x6: "put_be32 33 (if_autherr ?f) x5 = Some x6" "length (bytes x6) = PACKET_BYTES" using p [OF x5(2), of 33] by fastforce
    obtain x7 where x7: "put_be32 37 (if_frame ?f) x6 = Some x7" "length (bytes x7) = PACKET_BYTES" using p [OF x6(2), of 37] by fastforce
    obtain x8 where x8: "put_be32 41 (if_txbytes ?f) x7 = Some x8" "length (bytes x8) = PACKET_BYTES" using p [OF x7(2), of 41] by fastforce
    obtain x9 where x9: "put_be32 45 (if_rxbytes ?f) x8 = Some x9" "length (bytes x9) = PACKET_BYTES" using p [OF x8(2), of 45] by fastforce
    obtain x10 where x10: "put_be32 49 (if_irq ?f) x9 = Some x10" using p [OF x9(2), of 49] by fastforce
    show ?thesis using name ifc Some i x1(1) x2(1) x3(1) x4(1) x5(1) x6(1) x7(1) x8(1) x9(1) x10 by (simp add: do_cmp_if_stats_def get_iface_def)
  qed
qed

lemma rtable_set_returns:
  assumes "rtable_inv s" "length (routes s) < CSP_RTABLE_SIZE"
  shows "\<exists>e s'. csp_rtable_set a n (Some i) via s = Some (e, s')"
proof -
  let ?h = "uint (csp_id_get_host_bits (csp_conf s))"
  define k where "k = (if n < 0 \<or> n > ?h then ?h else n)"
  let ?m = "word_of_int k :: u16"
  have "?h \<le> 14" by (simp add: csp_id_get_host_bits_def)
  moreover have "0 \<le> k" "k \<le> ?h" by (auto simp: k_def)
  ultimately have "uint ?m = k" by (simp add: uint_word_of_int take_bit_int_eq_self)
  then have m: "unat ?m \<le> unat (csp_id_get_host_bits (csp_conf s))" using \<open>k \<le> ?h\<close> by (simp only: unat_eq_nat_uint nat_mono)
  have "length (set_route \<lparr>r_address = a, r_netmask = ?m, r_via = via, r_iface = Some i\<rparr> (routes s)) \<le> CSP_RTABLE_SIZE"
    using assms(2) by (simp add: set_route_def split: option.splits)
  from csp_rtable_set_internal_eq [OF assms(1) m this] obtain s' where
    "csp_rtable_set_internal a ?m (Some i) via s = Some (CSP_ERR_NONE, s')" by blast
  then show ?thesis by (auto simp: csp_rtable_set_def Let_def k_def)
qed

lemma route_set_returns:
  assumes "length (bytes x) = PACKET_BYTES" "env_inv s" "length (routes s) < CSP_RTABLE_SIZE"
  shows "\<exists>r s'. do_cmp_route_set_v1 x s = Some (r, s')" "\<exists>r s'. do_cmp_route_set_v2 x s = Some (r, s')"
proof -
  have rt: "rtable_inv s" using assms(2) by (simp add: env_inv_def)
  obtain xs where l: "iflist s xs" using assms(2) by (auto simp: env_inv_def)
  note found = csp_iflist_get_by_name_find [OF l]
  note set = rtable_set_returns [OF rt assms(3)]
  note d = data_reads_in [OF assms(1)]
  obtain n1 d1 v1 where v1: "cmp_name 4 x = Some n1" "data_u8 2 x = Some d1" "data_u8 3 x = Some v1"
    using d(4) [of 4] d(1) [of 2] d(1) [of 3] by auto
  obtain n2 d2 v2 m2 where v2: "cmp_name 8 x = Some n2" "data_be16 2 x = Some d2" "data_be16 4 x = Some v2" "data_be16 6 x = Some m2"
    using d(4) [of 8] d(2) [of 2] d(2) [of 4] d(2) [of 6] by auto
  show "\<exists>r s'. do_cmp_route_set_v1 x s = Some (r, s')"
  proof (cases "csp_iflist_get_by_name n1 s")
    case (Some ifc)
    show ?thesis
    proof (cases ifc)
      case (Some i)
      obtain e s' where "csp_rtable_set (ucast d1) (uint (csp_id_get_host_bits (csp_conf s))) (Some i) (ucast v1) s = Some (e, s')" using set by blast
      then show ?thesis using v1 Some \<open>csp_iflist_get_by_name n1 s = Some ifc\<close> by (simp add: do_cmp_route_set_v1_def)
    qed (use v1 Some in \<open>simp add: do_cmp_route_set_v1_def\<close>)
  qed (use found in simp)
  show "\<exists>r s'. do_cmp_route_set_v2 x s = Some (r, s')"
  proof (cases "csp_iflist_get_by_name n2 s")
    case (Some ifc)
    show ?thesis
    proof (cases ifc)
      case (Some i)
      obtain e s' where "csp_rtable_set d2 (uint m2) (Some i) v2 s = Some (e, s')" using set by blast
      then show ?thesis using v2 Some \<open>csp_iflist_get_by_name n2 s = Some ifc\<close> by (simp add: do_cmp_route_set_v2_def)
    qed (use v2 Some in \<open>simp add: do_cmp_route_set_v2_def\<close>)
  qed (use found in simp)
qed

text \<open>Peek and poke, for a memory of which any 200 bytes can be copied.\<close>

definition memory_mapped :: "hooks \<Rightarrow> bool" where
  "memory_mapped hk \<longleftrightarrow> (\<forall>a n. n \<le> CSP_CMP_PEEK_MAX_LEN \<longrightarrow> (\<exists>bs. mem_peek hk a n = Some bs \<and> length bs = n)) \<and>
     (\<forall>a bs s. length bs \<le> CSP_CMP_POKE_MAX_LEN \<longrightarrow> (\<exists>s'. mem_poke hk a bs s = Some s'))"

lemma peek_returns:
  assumes "length (bytes x) = PACKET_BYTES" "memory_mapped hk" "data_be32 2 x = Some addr" "data_u8 6 x = Some len"
  shows "\<exists>y. do_cmp_peek hk x = Some (if unat len \<le> CSP_CMP_PEEK_MAX_LEN then CSP_ERR_NONE else CSP_ERR_INVAL, y) \<and>
    (unat len \<le> CSP_CMP_PEEK_MAX_LEN \<longrightarrow> data_read 7 (unat len) y = mem_peek hk addr (unat len))"
proof -
  obtain x1 where x1: "data_write 2 (word_to_le 4 addr) x = Some x1" "length (bytes x1) = PACKET_BYTES"
    using data_write_in [OF assms(1), of 2 "word_to_le 4 addr"] by auto
  have r: "data_u8 6 x1 = Some len"
    using x1(1) assms(1,4) by (auto simp: data_u8_def data_read_def data_write_def mem_read_def mem_write_def)
  show ?thesis
  proof (cases "unat len \<le> CSP_CMP_PEEK_MAX_LEN")
    case True
    then obtain bs where bs: "mem_peek hk addr (unat len) = Some bs" "length bs = unat len" using assms(2) unfolding memory_mapped_def by blast
    have l: "DATA_OFFSET + 7 + length bs \<le> length (bytes x1)" using True bs(2) x1(2) by simp
    let ?y = "x1\<lparr>bytes := mem_put (DATA_OFFSET + 7) bs (bytes x1)\<rparr>"
    have "data_write 7 bs x1 = Some ?y" using mem_write_put [OF l] by (simp add: data_write_def)
    then have "do_cmp_peek hk x = Some (CSP_ERR_NONE, ?y)" using assms(3) x1(1) r bs(1) True by (simp add: do_cmp_peek_def)
    moreover have "data_read 7 (unat len) ?y = Some bs"
      unfolding data_read_def using mem_read_put_same [OF l] bs(2) by simp
    ultimately show ?thesis using bs(1) True by auto
  next
    case False
    then show ?thesis using assms(3) x1(1) r by (simp add: do_cmp_peek_def)
  qed
qed

lemma poke_returns:
  assumes "length (bytes x) = PACKET_BYTES" "memory_mapped hk" "data_be32 2 x = Some addr" "data_u8 6 x = Some len"
  shows "\<exists>y s'. do_cmp_poke hk x s = Some ((if unat len \<le> CSP_CMP_POKE_MAX_LEN then CSP_ERR_NONE else CSP_ERR_INVAL, y), s') \<and>
    (if unat len \<le> CSP_CMP_POKE_MAX_LEN then \<exists>bs. data_read 7 (unat len) x = Some bs \<and> mem_poke hk addr bs s = Some s' else s' = s)"
proof -
  obtain x1 where x1: "data_write 2 (word_to_le 4 addr) x = Some x1" "length (bytes x1) = PACKET_BYTES"
    using data_write_in [OF assms(1), of 2 "word_to_le 4 addr"] by auto
  have r: "data_u8 6 x1 = Some len" "data_read 7 n x1 = data_read 7 n x" for n
    using x1(1) assms(1,4) by (auto simp: data_u8_def data_read_def data_write_def mem_read_def mem_write_def)
  show ?thesis
  proof (cases "unat len \<le> CSP_CMP_POKE_MAX_LEN")
    case True
    then obtain bs where bs: "data_read 7 (unat len) x = Some bs" "length bs = unat len" using data_bytes [of 7 "unat len" x] assms(1) by simp
    moreover obtain s' where "mem_poke hk addr bs s = Some s'"
      using True bs(2) assms(2) unfolding memory_mapped_def CSP_CMP_POKE_MAX_LEN_def by fastforce
    ultimately show ?thesis using True assms(3) x1(1) r by (simp add: do_cmp_poke_def)
  next
    case False
    then show ?thesis using assms(3) x1(1) r by (simp add: do_cmp_poke_def)
  qed
qed

lemma clock_returns:
  assumes "length (bytes x) = PACKET_BYTES"
  shows "\<exists>r y s'. do_cmp_clock hk x s = Some ((r, y), s')"
proof -
  obtain sec nsec where d: "data_be32 2 x = Some sec" "data_be32 6 x = Some nsec" using data_reads_in(3) [OF assms, of 2] data_reads_in(3) [OF assms, of 6] by auto
  define c where "c = clock_get_time hk (if sec \<noteq> 0 \<and> (if sec \<noteq> 0 then clock_set_time hk sec nsec else CSP_ERR_NONE) = CSP_ERR_NONE then Some (sec, nsec) else None)"
  obtain x1 where x1: "put_be32 2 (fst c) x = Some x1" "length (bytes x1) = PACKET_BYTES" using put_be32_in [OF assms, of 2] by fastforce
  obtain x2 where x2: "put_be32 6 (snd c) x1 = Some x2" using put_be32_in [OF x1(2), of 6] by fastforce
  show ?thesis using d x1(1) x2 by (simp add: do_cmp_clock_def Let_def c_def)
qed

section \<open>Buffers are accounted for\<close>

text \<open>
  The contract of the system: its hooks return and leave the stack alone, and a poke writes outside of the memory of the
  stack.
\<close>

locale service_client = nexthop_contract nexthop for nexthop :: nexthop_t +
  fixes hk :: hooks
  assumes poke_outside: "mem_poke hk a bs s = Some s' \<Longrightarrow> s' = s"
    and reboot_outside: "reboot_hook hk s = s" "shutdown_hook hk s = s"
begin

lemma cmp_switch_quiet: "csp_cmp_switch hk code x s = Some ((r, y), s') \<Longrightarrow> env_inv s \<Longrightarrow> harmless s s'"
  unfolding csp_cmp_switch_def
  by (auto simp: bind_Some_iff split: if_splits dest!: poke_frame clock_frame dest: route_set_quiet poke_outside)

lemma cmp_switch_frame:
  assumes "csp_cmp_switch hk code x s = Some ((r, y), s')" "packet_wf x" "env_inv s"
  shows "packet_wf y \<and> pid y = pid x \<and> harmless s s'"
  using cmp_switch_packet [OF assms(1,2)] cmp_switch_quiet [OF assms(1,3)] by simp

lemma cmp_handler_frame:
  assumes "csp_cmp_handler hk p s = Some (r, s')" "accounts (add_mset p H) s" "get_packet p s = Some x" "packet_wf x" "env_inv s"
  shows "accounts (add_mset p H) s' \<and> env_inv s' \<and> keeps H s s' \<and> (\<exists>y. get_packet p s' = Some y \<and> packet_wf y)"
proof (cases "r = CSP_ERR_INVAL \<and> s' = s")
  case True
  then show ?thesis using assms by auto
next
  case False
  then obtain code y s1 z where t: "csp_cmp_switch hk code x s = Some ((r, y), s1)" "data_write 0 [CSP_CMP_REPLY] y = Some z" "s' = put_packet p z s1"
    using assms(1,3) by (auto simp: csp_cmp_handler_def bind_Some_iff split: if_splits)
  note f = cmp_switch_frame [OF t(1) assms(4,5)]
  have z: "packet_wf z" using f same_frame_write [OF t(2)] by (simp add: packet_wf_def same_frame_def)
  have a: "accounts (add_mset p H) s1" using f assms(2) by (simp add: harmless_def)
  have p: "p < length (csp_buffer_pool s1)" using accounts_held(2,4) [OF a] by (simp add: pool_inv_def)
  have "env_inv s1" using f assms(5) by (simp add: harmless_def)
  then have "env_inv s'" using env_inv_env [of s' s1] by (simp add: t(3))
  moreover have "keeps H s s'" using keeps_put [OF a, of z] f by (simp add: t(3) keeps_def harmless_def)
  ultimately show ?thesis using accounts_put [OF a, of z p] z get_put_packet [OF p] by (auto simp: t(3) packet_wf_def)
qed

lemma accounts_reply:
  assumes "csp_sendto_reply nexthop (Some p) p opts s = Some (u, s')" "accounts (add_mset p H) s" "get_packet p s = Some x" "packet_wf x" "env_inv s"
  shows "accounts H s' \<and> env_inv s' \<and> keeps H s s'"
proof -
  have p: "p < length (csp_buffer_pool s)" using assms(3) by (auto simp: get_packet_def split: if_splits)
  have e: "csp_sendto nexthop (pri (pid x)) (src (pid x)) (sport (pid x)) (dport (pid x)) opts p (if has_flag opts CSP_O_SAME then put_packet p x s else s) = Some (u, s')"
    using assms(1,3) get_put_packet [OF p] by (auto simp: csp_sendto_reply_def bind_Some_iff simp del: CSP_O_SAME_def)
  let ?s = "if has_flag opts CSP_O_SAME then put_packet p x s else s"
  have a: "accounts (add_mset p H) ?s" "get_packet p ?s = Some x" "env ?s = env s" "keeps H s ?s"
    using assms(2-4) accounts_put [OF assms(2), of x p] get_put_packet [OF p] keeps_put [OF assms(2), of x] by (simp_all add: packet_wf_def)
  note b = accounts_sendto [OF e a(1,2) assms(4) env_inv_env [OF a(3) assms(5)]]
  have "env s' = env s" using b a(3) by simp
  then show ?thesis using b env_inv_env [OF _ assms(5)] keeps_trans [OF a(4)] by blast
qed

lemma reply_u32_frame:
  assumes "reply_u32 v p s = Some s'" "accounts (add_mset p H) s" "get_packet p s = Some x" "packet_wf x" "env_inv s"
  shows "accounts (add_mset p H) s' \<and> env_inv s' \<and> keeps H s s' \<and> (\<exists>y. get_packet p s' = Some y \<and> packet_wf y)"
proof -
  have p: "p < length (csp_buffer_pool s)" using assms(3) by (auto simp: get_packet_def split: if_splits)
  obtain y where y: "put_be32 0 v x = Some y" "s' = put_packet p (y\<lparr>plen := 4\<rparr>) s"
    using assms(1,3) by (auto simp: reply_u32_def bind_Some_iff)
  have wf: "packet_wf (y\<lparr>plen := 4\<rparr>)" using same_frame_be32 [OF y(1)] assms(4) by (simp add: same_frame_def packet_wf_def)
  then show ?thesis using accounts_put [OF assms(2), of "y\<lparr>plen := 4\<rparr>" p] get_put_packet [OF p] keeps_put [OF assms(2)] env_inv_env [OF _ assms(5), of s']
    by (simp add: y(2) packet_wf_def)
qed

lemma accounts_service_handler:
  assumes "csp_service_handler nexthop hk p s = Some (u, s')" "accounts (add_mset p H) s" "get_packet p s = Some x" "packet_wf x" "env_inv s"
    "dport (pid x) \<noteq> CSP_PS"
  shows "accounts H s' \<and> env_inv s' \<and> keeps H s s'"
proof -
  have free: "accounts H t' \<and> env_inv t' \<and> keeps H s t'"
    if "csp_buffer_free (Some p) t = Some (v, t')" "accounts (add_mset p H) t" "env_inv t" "keeps H s t" for v t t'
    using accounts_free [OF that(2)] that env_inv_env [of t' t, OF _ that(3)] by (auto simp: keeps_def)
  have reply: "accounts H t' \<and> env_inv t' \<and> keeps H s t'"
    if "csp_sendto_reply nexthop (Some p) p CSP_O_SAME t = Some (v, t')"
      "accounts (add_mset p H) t \<and> env_inv t \<and> keeps H s t \<and> (\<exists>y. get_packet p t = Some y \<and> packet_wf y)" for v t t'
    using accounts_reply [OF that(1)] that(2) keeps_trans by blast
  have number: "accounts H t' \<and> env_inv t' \<and> keeps H s t'"
    if "(do { s \<leftarrow> reply_u32 n p s; csp_sendto_reply nexthop (Some p) p CSP_O_SAME s }) = Some (v, t')" for n v t'
    using that reply reply_u32_frame [OF _ assms(2-5), of n] by (auto simp: bind_Some_iff)
  have cmp: "accounts H t' \<and> env_inv t' \<and> keeps H s t'"
    if "(do { (r, s) \<leftarrow> csp_cmp_handler hk p s; if r \<noteq> CSP_ERR_NONE then csp_buffer_free (Some p) s
        else csp_sendto_reply nexthop (Some p) p CSP_O_SAME s }) = Some (v, t')" for v t'
    using that reply free cmp_handler_frame [OF _ assms(2-5)] by (auto simp: bind_Some_iff simp del: CSP_O_SAME_def split: if_splits)
  have hooks: "(if b then reboot_hook hk s else if c then shutdown_hook hk s else s) = s" for b c by (simp add: reboot_outside)
  then have reboot: "accounts H t' \<and> env_inv t' \<and> keeps H s t'"
    if "(do { m \<leftarrow> data_be32 0 x; csp_buffer_free (Some p) (if m = CSP_REBOOT_MAGIC then reboot_hook hk s
        else if m = CSP_REBOOT_SHUTDOWN_MAGIC then shutdown_hook hk s else s) }) = Some (v, t')" for v t'
    using that free [of s v t'] assms(2,5) by (simp only: hooks) (auto simp: bind_Some_iff)
  show ?thesis
    using assms(1,2,3,5,6) reply [of s u s'] assms(4) free [of s u s'] number cmp reboot
    by (auto simp: csp_service_handler_def Let_def simp del: CSP_O_SAME_def CSP_REBOOT_MAGIC_def CSP_REBOOT_SHUTDOWN_MAGIC_def CSP_CMP_def CSP_PING_def CSP_PS_def CSP_MEMFREE_def
        CSP_REBOOT_def CSP_BUF_FREE_def CSP_UPTIME_def split: if_splits option.splits)
qed

end

text \<open>The POSIX port: \<^verbatim>\<open>csp_ps_hook\<close> is the one of the port, the memory that a poke writes is not the node's, and a reboot is a restart
  of the program, after which nothing is left to say.\<close>

definition posix_hooks ::
  "u32 \<Rightarrow> u32 \<Rightarrow> (u32 \<Rightarrow> nat \<Rightarrow> u8 list option) \<Rightarrow> (u32 \<Rightarrow> u32 \<Rightarrow> int) \<Rightarrow> ((u32 \<times> u32) option \<Rightarrow> u32 \<times> u32) \<Rightarrow> string \<Rightarrow> string \<Rightarrow> hooks" where
  "posix_hooks memfree seconds peek set_time get_time date tm =
     \<lparr>ps_hook = csp_ps_hook, memfree_hook = memfree, reboot_hook = (\<lambda>s. s), shutdown_hook = (\<lambda>s. s), csp_get_s = seconds, mem_peek = peek,
      mem_poke = (\<lambda>a bs s. Some s), clock_set_time = set_time, clock_get_time = get_time, build_date = date, build_time = tm\<rparr>"

interpretation posix: service_client csp_lo_tx "posix_hooks memfree seconds peek set_time get_time date tm"
  by unfold_locales (simp_all add: posix_hooks_def)

section \<open>Properties\<close>

text \<open>C10: The service handler takes the packet over: whatever the request (except for the process list), afterwards the packet is a reply that
  was sent or it is free, every buffer is accounted for, the packets held elsewhere are untouched and the
  environment that sending relies on stays valid, also after a route was set by a remote node.\<close>

theorem csp_service_handler_conserves:
  assumes "service_client nh hk" "csp_service_handler nh hk p s = Some (u, s')" "accounts (add_mset p H) s" "get_packet p s = Some x"
    "packet_wf x" "env_inv s" "dport (pid x) \<noteq> CSP_PS"
  shows "accounts H s' \<and> env_inv s' \<and> keeps H s s'"
  using service_client.accounts_service_handler [OF assms] .

definition test_hooks :: hooks where
  "test_hooks = posix_hooks 1000 60 (\<lambda>a n. None) (\<lambda>a b. 0) (\<lambda>t. (0, 0)) ''Jan  1 2024'' ''12:00:00''"

theorem csp_service_handler_conserves_witness:
  "\<exists>s'. csp_service_handler csp_lo_tx test_hooks 3 busy_node = Some ((), s') \<and> accounts (mset_set ({..<15} - {3})) s'"
proof -
  have b: "length (bytes zero_packet) = PACKET_BYTES" "dport (pid zero_packet) = CSP_CMP" by (simp_all add: zero_packet_def zero_id_def)
  have d: "data_u8 0 zero_packet = Some 0" "data_u8 1 zero_packet = Some 0"
    using data_bytes [OF _ b(1), of 0 1] data_bytes [OF _ b(1), of 1 1] by (simp_all add: data_u8_def zero_packet_def)
  obtain z where z: "data_write 0 [CSP_CMP_REPLY] zero_packet = Some z" by (simp add: data_write_def mem_write_def zero_packet_def)
  have "length (bytes z) = PACKET_BYTES" using same_frame_write [OF z] b(1) by (simp add: same_frame_def)
  from accounts_free(1) [OF accounts_put [OF busy_node_held(1) this, of 3]]
  obtain s' where "csp_service_handler csp_lo_tx test_hooks 3 busy_node = Some ((), s')"
    using d z b(2) by (auto simp: csp_service_handler_def csp_cmp_handler_def csp_cmp_switch_def busy_node_held(2))
  then show ?thesis
    using csp_service_handler_conserves [OF posix.service_client_axioms _ busy_node_held zero_packet_wf busy_node_env, of _ _ _ _ _ _ _ "()" s'] b(2)
    unfolding test_hooks_def by auto
qed

text \<open>C37: Whatever a request of the management protocol holds, its handler returns: it reads and writes nothing outside of the packet,
  whose length and identifier stay those of a packet. A peek or poke of more than 200 bytes is refused; a peek of at most 200
  puts the memory at the address of the request behind the header of the message, a poke writes the bytes that stand there to the
  address, and otherwise no memory is written. The memory of the system is mapped at the addresses that requests name,
  and for the requests that set routes the routing table is not full.\<close>

theorem csp_cmp_switch_in_bounds:
  assumes "packet_wf x" "env_inv s" "memory_mapped hk"
    "code \<noteq> CSP_CMP_ROUTE_SET_V1 \<and> code \<noteq> CSP_CMP_ROUTE_SET_V2 \<or> length (routes s) < CSP_RTABLE_SIZE"
    "data_be32 2 x = Some addr" "data_u8 6 x = Some len"
  shows "\<exists>r y s'. csp_cmp_switch hk code x s = Some ((r, y), s') \<and> packet_wf y \<and> pid y = pid x \<and>
    (code = CSP_CMP_PEEK \<or> code = CSP_CMP_POKE \<longrightarrow> (r = CSP_ERR_NONE \<longleftrightarrow> unat len \<le> 200) \<and> plen y = plen x) \<and>
    (code = CSP_CMP_PEEK \<and> unat len \<le> 200 \<longrightarrow> data_read 7 (unat len) y = mem_peek hk addr (unat len)) \<and>
    (code = CSP_CMP_POKE \<and> unat len \<le> 200 \<longrightarrow> (\<exists>bs. data_read 7 (unat len) x = Some bs \<and> mem_poke hk addr bs s = Some s')) \<and>
    (code = CSP_CMP_POKE \<and> 200 < unat len \<longrightarrow> s' = s)"
proof -
  have b: "length (bytes x) = PACKET_BYTES" using assms(1) by (simp add: packet_wf_def)
  obtain y1 where peek: "do_cmp_peek hk x = Some (if unat len \<le> 200 then CSP_ERR_NONE else CSP_ERR_INVAL, y1)"
    "unat len \<le> 200 \<Longrightarrow> data_read 7 (unat len) y1 = mem_peek hk addr (unat len)" using peek_returns [OF b assms(3,5,6)] by auto
  obtain y2 s2 where poke: "do_cmp_poke hk x s = Some ((if unat len \<le> 200 then CSP_ERR_NONE else CSP_ERR_INVAL, y2), s2)"
    "if unat len \<le> 200 then \<exists>bs. data_read 7 (unat len) x = Some bs \<and> mem_poke hk addr bs s = Some s2 else s2 = s"
    using poke_returns [OF b assms(3,5,6), of s] by auto
  note r = ident_returns [OF b, of hk "csp_conf s"] if_stats_returns [OF b assms(2)] clock_returns [OF b, of hk s]
    route_set_returns [OF b assms(2)]
  have "\<exists>r y s'. csp_cmp_switch hk code x s = Some ((r, y), s')"
    using r peek(1) poke(1) assms(4) by (fastforce simp: csp_cmp_switch_def)
  then obtain r y s' where sw: "csp_cmp_switch hk code x s = Some ((r, y), s')" by blast
  have "code = CSP_CMP_PEEK \<Longrightarrow> r = (if unat len \<le> 200 then CSP_ERR_NONE else CSP_ERR_INVAL) \<and> y = y1"
    "code = CSP_CMP_POKE \<Longrightarrow> r = (if unat len \<le> 200 then CSP_ERR_NONE else CSP_ERR_INVAL) \<and> y = y2 \<and> s' = s2"
    using sw peek(1) poke(1) by (auto simp: csp_cmp_switch_def)
  moreover have "plen y1 = plen x" "plen y2 = plen x" using peek_frame [OF peek(1)] poke_frame [OF poke(1)] by (simp_all add: same_frame_def)
  ultimately show ?thesis using sw cmp_switch_packet [OF sw assms(1)] peek(2) poke(2)
    by (intro exI [of _ r] exI [of _ y] exI [of _ s']) (auto split: if_splits)
qed

text \<open>A request to peek at five bytes.\<close>

definition peek_request :: csp_packet_t where
  "peek_request = zero_packet\<lparr>bytes := replicate 8 0 @ [0, 4, 0, 0, 0x10, 0, 5] @ replicate 249 0, plen := 210\<rparr>"

theorem csp_cmp_switch_in_bounds_witness:
  "\<exists>y s'. csp_cmp_switch (test_hooks\<lparr>mem_peek := \<lambda>a n. Some (replicate n (ucast (drop_bit 8 a)))\<rparr>) CSP_CMP_PEEK peek_request busy_node =
     Some ((CSP_ERR_NONE, y), s') \<and> data_read 7 5 y = Some [0x10, 0x10, 0x10, 0x10, 0x10] \<and> packet_wf y"
proof -
  let ?hk = "test_hooks\<lparr>mem_peek := \<lambda>a n. Some (replicate n (ucast (drop_bit 8 a)))\<rparr>"
  have b: "length (bytes peek_request) = PACKET_BYTES" by (simp add: peek_request_def)
  then have wf: "packet_wf peek_request" by (simp add: packet_wf_def peek_request_def)
  have rs: "data_read 2 4 peek_request = Some [0, 0, 0x10, 0]" "data_read 6 1 peek_request = Some [5]"
    using data_bytes [OF _ b, of 2 4] data_bytes [OF _ b, of 6 1] by (simp_all add: peek_request_def)
  have d: "data_be32 2 peek_request = Some 0x1000" "data_u8 6 peek_request = Some 5"
    by (simp_all add: data_u8_def data_be32_def rs [simplified] be32toh_def bswap_def word_to_le_def upt_rec)
  have m: "memory_mapped ?hk" by (simp add: memory_mapped_def test_hooks_def posix_hooks_def)
  have "(ucast (drop_bit 8 (0x1000 :: u32)) :: u8) = 0x10" by simp
  moreover have "replicate (unat (5 :: u8)) (16 :: u8) = [16, 16, 16, 16, 16]" by code_simp
  ultimately have p: "mem_peek ?hk 0x1000 (unat (5 :: u8)) = Some [0x10, 0x10, 0x10, 0x10, 0x10]" by simp
  have c: "CSP_CMP_PEEK \<noteq> CSP_CMP_ROUTE_SET_V1 \<and> CSP_CMP_PEEK \<noteq> CSP_CMP_ROUTE_SET_V2 \<or> length (routes busy_node) < CSP_RTABLE_SIZE" by simp
  from csp_cmp_switch_in_bounds [OF wf busy_node_env m c d] obtain r y s' where
    "csp_cmp_switch ?hk CSP_CMP_PEEK peek_request busy_node = Some ((r, y), s')" "packet_wf y" "r = CSP_ERR_NONE"
    "data_read 7 (unat (5 :: u8)) y = mem_peek ?hk 0x1000 (unat (5 :: u8))" by auto
  then show ?thesis using p by auto
qed

text \<open>A request for the process list whose hook gives nothing, as the hook of the POSIX port does, ends in the use of a freed
  buffer: the packet is freed, and then it is sent as the reply although it is in the free queue.\<close>

theorem csp_service_handler_ps_sends_freed:
  assumes "accounts (add_mset p H) s" "get_packet p s = Some x" "packet_wf x" "dport (pid x) = CSP_PS" "ps_hook hk = csp_ps_hook"
  shows "\<exists>s1. csp_service_handler nh hk p s = csp_sendto_reply nh (Some p) p CSP_O_SAME s1 \<and> p \<in> set (free_list s1) \<and> accounts H s1"
proof -
  let ?s = "put_packet p (x\<lparr>plen := 0\<rparr>) s"
  have a: "accounts (add_mset p H) ?s" using accounts_put [OF assms(1)] assms(3) by (simp add: packet_wf_def)
  note f = accounts_free [OF a]
  have inv: "pool_inv ?s" "allocated p ?s" using accounts_held [OF a] by auto
  have "free_list (give_buffer p ?s) = free_list ?s @ [p]"
    using queue_push_list [of "csp_buffers ?s" p] free_room [OF inv] inv(1) by (simp add: pool_inv_def free_list_def give_buffer_def)
  then have "p \<in> set (free_list (give_buffer p ?s))" by simp
  moreover have "csp_service_handler nh hk p s = csp_sendto_reply nh (Some p) p CSP_O_SAME (give_buffer p ?s)"
    using assms(2,4,5) f(1) by (simp add: csp_service_handler_def csp_ps_hook_def del: CSP_O_SAME_def)
  ultimately show ?thesis using f(2) by blast
qed

theorem csp_service_handler_ps_sends_freed_witness:
  "\<exists>s1. csp_service_handler csp_lo_tx test_hooks 3 (put_packet 3 (zero_packet\<lparr>pid := zero_id\<lparr>dport := CSP_PS\<rparr>\<rparr>) busy_node) =
     csp_sendto_reply csp_lo_tx (Some 3) 3 CSP_O_SAME s1 \<and> 3 \<in> set (free_list s1)"
proof -
  let ?x = "zero_packet\<lparr>pid := zero_id\<lparr>dport := CSP_PS\<rparr>\<rparr>"
  have l: "3 < length (csp_buffer_pool busy_node)" using busy_node_held(2) by (auto simp: get_packet_def split: if_splits)
  have wf: "packet_wf ?x" using zero_packet_wf by (simp add: packet_wf_def)
  have "accounts (add_mset 3 (mset_set ({..<15} - {3}))) (put_packet 3 ?x busy_node)"
    using accounts_put [OF busy_node_held(1), of ?x 3] wf by (simp add: packet_wf_def)
  moreover have "get_packet 3 (put_packet 3 ?x busy_node) = Some ?x" using get_put_packet [OF l] by simp
  ultimately show ?thesis
    using csp_service_handler_ps_sends_freed [of 3 _ _ ?x test_hooks csp_lo_tx] wf by (auto simp: test_hooks_def posix_hooks_def)
qed

text \<open>A remote node sets a route: a request with the name of an interface and a mask that addresses can have enters the route in the
  table (in place of the route for the same network, if there was one), and the request becomes a reply of
  the size of the message.\<close>

theorem csp_cmp_route_set_v2_sets:
  assumes "get_packet p s = Some x" "packet_wf x" "rtable_inv s"
    "data_u8 0 x = Some CSP_CMP_REQUEST" "data_u8 1 x = Some CSP_CMP_ROUTE_SET_V2"
    "cmp_name 8 x = Some name" "csp_iflist_get_by_name name s = Some (Some i)"
    "data_be16 2 x = Some dest" "data_be16 4 x = Some via" "data_be16 6 x = Some m"
    "unat m \<le> unat (csp_id_get_host_bits (csp_conf s))"
    "length (set_route \<lparr>r_address = dest, r_netmask = m, r_via = via, r_iface = Some i\<rparr> (routes s)) \<le> CSP_RTABLE_SIZE"
  shows "\<exists>s' y. csp_cmp_handler hk p s = Some (CSP_ERR_NONE, s') \<and> rtable_inv s' \<and>
    routes s' = set_route \<lparr>r_address = dest, r_netmask = m, r_via = via, r_iface = Some i\<rparr> (routes s) \<and>
    get_packet p s' = Some y \<and> unat (plen y) = cmp_size_route_set_v2 \<and> data_u8 0 y = Some CSP_CMP_REPLY"
proof -
  have p: "p < length (csp_buffer_pool s)" using assms(1) by (auto simp: get_packet_def split: if_splits)
  have "uint m \<le> uint (csp_id_get_host_bits (csp_conf s))" using assms(11) by (simp only: uint_nat of_nat_le_iff)
  then have e: "csp_rtable_set dest (uint m) (Some i) via s = csp_rtable_set_internal dest m (Some i) via s"
    by (auto simp: csp_rtable_set_def Let_def not_less)
  from csp_rtable_set_internal_eq [OF assms(3,11,12)] obtain t where
    t: "csp_rtable_set_internal dest m (Some i) via s = Some (CSP_ERR_NONE, t)" "rtable_inv t"
      "routes t = set_route \<lparr>r_address = dest, r_netmask = m, r_via = via, r_iface = Some i\<rparr> (routes s)" by blast
  have pt: "p < length (csp_buffer_pool t)" using rtable_set_internal_frame [OF t(1)] p by auto
  let ?x = "x\<lparr>plen := 20\<rparr>"
  have w: "length (bytes ?x) = PACKET_BYTES" using assms(2) by (simp add: packet_wf_def)
  obtain z where z: "data_write 0 [CSP_CMP_REPLY] ?x = Some z" using w by (auto simp: data_write_def mem_write_def)
  have "data_u8 0 z = Some CSP_CMP_REPLY" "plen z = 20"
    using z w by (auto simp: data_u8_def data_read_def data_write_def mem_read_def mem_write_def)
  moreover have "csp_cmp_handler hk p s = Some (CSP_ERR_NONE, put_packet p z t)"
    using assms(1,4-10) e t(1) z by (simp add: csp_cmp_handler_def csp_cmp_switch_def do_cmp_route_set_v2_def)
  ultimately show ?thesis using t(2,3) get_put_packet [OF pt] by (simp add: rtable_inv_def routes_def put_packet_def)
qed

definition route_request :: csp_packet_t where
  "route_request = zero_packet\<lparr>bytes := replicate 8 0 @ [0, 7, 0, 5, 0xFF, 0xFF, 0, 14, 67, 65, 78] @ replicate 245 0, plen := 20\<rparr>"

theorem csp_cmp_route_set_v2_sets_witness:
  "\<exists>s'. csp_cmp_handler test_hooks 3 (put_packet 3 route_request busy_node) = Some (CSP_ERR_NONE, s') \<and>
     \<lparr>r_address = 5, r_netmask = 14, r_via = 0xFFFF, r_iface = Some 1\<rparr> \<in> set (routes s')"
proof -
  let ?s = "put_packet 3 route_request busy_node"
  have l: "3 < length (csp_buffer_pool busy_node)" using busy_node_held(2) by (auto simp: get_packet_def split: if_splits)
  have g: "get_packet 3 ?s = Some route_request" using get_put_packet [OF l] by simp
  have b: "length (bytes route_request) = PACKET_BYTES" by (simp add: route_request_def)
  then have wf: "packet_wf route_request" by (simp add: packet_wf_def route_request_def)
  note rd = data_bytes [OF _ b]
  have rs: "data_read 0 1 route_request = Some [0]" "data_read 1 1 route_request = Some [7]" "data_read 2 2 route_request = Some [0, 5]"
    "data_read 4 2 route_request = Some [0xFF, 0xFF]" "data_read 6 2 route_request = Some [0, 14]"
    "data_read 8 11 route_request = Some ([67, 65, 78] @ replicate 8 0)"
    using rd [of 0 1] rd [of 1 1] rd [of 2 2] rd [of 4 2] rd [of 6 2] rd [of 8 11] by (simp_all add: route_request_def)
  have d: "data_u8 0 route_request = Some CSP_CMP_REQUEST" "data_u8 1 route_request = Some CSP_CMP_ROUTE_SET_V2"
    "data_be16 2 route_request = Some 5" "data_be16 4 route_request = Some 0xFFFF" "data_be16 6 route_request = Some 14"
    "cmp_name 8 route_request = Some ''CAN''"
    by (simp_all add: data_u8_def data_be16_def cmp_name_def rs [simplified] be16toh_def bswap_def word_to_le_def upt_rec char_of_def bit_0)
  have e: "env ?s = env busy_node" by simp
  have "iflist ?s [0, 1]" using busy_node_iflist iface_chain_env [OF e] env_lengths(8) [OF e] by (simp add: iflist_def)
  from csp_iflist_get_by_name_find [OF this]
  have n: "csp_iflist_get_by_name ''CAN'' ?s = Some (Some 1)" by (simp add: same_name_def busy_node_def zero_iface_def)
  have r: "rtable_inv ?s" "unat (14 :: u16) \<le> unat (csp_id_get_host_bits (csp_conf ?s))" "length (routes ?s) = 1"
    by (simp_all add: rtable_inv_def routes_def put_packet_def busy_node_def csp_id_get_host_bits_def)
  let ?r = "\<lparr>r_address = 5, r_netmask = 14, r_via = 0xFFFF, r_iface = Some 1\<rparr>"
  have "length (set_route ?r (routes ?s)) \<le> CSP_RTABLE_SIZE" using r(3) by (simp add: set_route_def split: option.splits)
  from csp_cmp_route_set_v2_sets [OF g wf r(1) d(1,2,6) n d(3-5) r(2) this, of test_hooks] obtain s' where
    s': "csp_cmp_handler test_hooks 3 ?s = Some (CSP_ERR_NONE, s')" "routes s' = set_route ?r (routes ?s)" by blast
  then show ?thesis using set_route_mem [of ?r "routes ?s"] by (metis nth_mem)
qed

end
