(* ===== verification/Csp_Client.thy ===== *)
theory Csp_Client
  imports Csp_Service
begin

text \<open>
  What a node asks of the services of another (\<^verbatim>\<open>src/csp_services.c\<close> and the client functions of \<^verbatim>\<open>include/csp/csp_cmp.h\<close>): ping, reboot, the
  process list, free memory and buffers, uptime, and the requests of the management protocol. What the functions
  print is part of their result; \<^verbatim>\<open>csp_memfree\<close>, \<^verbatim>\<open>csp_buf_free\<close> and \<^verbatim>\<open>csp_uptime\<close> do nothing but print the result of the
  function they call.
\<close>

section \<open>Model\<close>

definition csp_transaction :: "io_env \<Rightarrow> u8 \<Rightarrow> u16 \<Rightarrow> u8 \<Rightarrow> u32 \<Rightarrow> u8 list option \<Rightarrow> int \<Rightarrow> u8 list \<Rightarrow> int \<Rightarrow> node \<Rightarrow> (int \<times> u8 list) csp" where
  "csp_transaction io prio dest port timeout outbuf outlen inbuf inlen s =
     csp_transaction_w_opts io prio dest port timeout outbuf outlen inbuf inlen 0 s"

text \<open>The data of a ping of \<open>n\<close> bytes, and the check of the reply, which does not look at the length of the reply.\<close>

definition ping_data :: "nat \<Rightarrow> u8 list" where
  "ping_data n = map of_nat [0..<n]"

definition ping_echoed :: "nat \<Rightarrow> csp_packet_t \<Rightarrow> bool option" where
  "ping_echoed n x = map_option (\<lambda>d. d = ping_data n) (data_read 0 n x)"

definition csp_ping :: "io_env \<Rightarrow> u16 \<Rightarrow> u32 \<Rightarrow> u32 \<Rightarrow> u8 \<Rightarrow> node \<Rightarrow> int csp" where
  "csp_ping io node timeout sz conn_options s = do {
     let start = now s;
     (conn, s) \<leftarrow> csp_connect (io_nexthop io) (others_connect io) CSP_PRIO_NORM node CSP_PING timeout (ucast conn_options) s;
     (if conn = None then Some (-1, s)
      else do {
        (b, s) \<leftarrow> csp_buffer_get (unat sz) s;
        ((status, packet), s) \<leftarrow>
          (case b of
             None \<Rightarrow> Some ((False, None), s)
           | Some p \<Rightarrow> do {
               x \<leftarrow> get_packet p s;
               x \<leftarrow> data_write 0 (ping_data (unat sz)) (x\<lparr>plen := ucast sz\<rparr>);
               (_, s) \<leftarrow> csp_send (probe_send io) (io_nexthop io) (others_send io) conn (Some p) (put_packet p x s);
               (packet, s) \<leftarrow> csp_read (probe_read io) (io_nexthop io) (others_read io) conn timeout s;
               (case packet of
                  None \<Rightarrow> Some ((False, None), s)
                | Some r \<Rightarrow> do {
                    y \<leftarrow> get_packet r s;
                    ok \<leftarrow> ping_echoed (unat sz) y;
                    Some ((ok, packet), s)
                  })
             });
        (_, s) \<leftarrow> csp_buffer_free packet s;
        (_, s) \<leftarrow> csp_close (io_nexthop io) conn s;
        Some (if status then sint (now s - start) else -1, s)
      })
   }"

definition csp_ping_noreply :: "io_env \<Rightarrow> u16 \<Rightarrow> node \<Rightarrow> unit csp" where
  "csp_ping_noreply io node s = do {
     (b, s) \<leftarrow> csp_buffer_get 1 s;
     (case b of
        None \<Rightarrow> Some ((), s)
      | Some p \<Rightarrow> do {
          (conn, s) \<leftarrow> csp_connect (io_nexthop io) (others_connect io) CSP_PRIO_NORM node CSP_PING 0 0 s;
          (if conn = None then csp_buffer_free b s
           else do {
             x \<leftarrow> get_packet p s;
             x \<leftarrow> data_write 0 [0x55] x;
             (_, s) \<leftarrow> csp_send (probe_send io) (io_nexthop io) (others_send io) conn b (put_packet p (x\<lparr>plen := 1\<rparr>) s);
             (_, s) \<leftarrow> csp_close (io_nexthop io) conn s;
             Some ((), s)
           })
        })
   }"

definition csp_reboot :: "io_env \<Rightarrow> u16 \<Rightarrow> node \<Rightarrow> unit csp" where
  "csp_reboot io node s = do {
     (_, s) \<leftarrow> csp_transaction io CSP_PRIO_NORM node CSP_REBOOT 0 (Some (word_to_le 4 (htobe32 CSP_REBOOT_MAGIC))) 4 [] 0 s;
     Some ((), s)
   }"

definition csp_shutdown :: "io_env \<Rightarrow> u16 \<Rightarrow> node \<Rightarrow> unit csp" where
  "csp_shutdown io node s = do {
     (_, s) \<leftarrow> csp_transaction io CSP_PRIO_NORM node CSP_REBOOT 0 (Some (word_to_le 4 (htobe32 CSP_REBOOT_SHUTDOWN_MAGIC))) 4 [] 0 s;
     Some ((), s)
   }"

text \<open>The text of a packet: its data is ended with a zero, which replaces the last byte of a full packet.\<close>

definition ps_end :: "csp_packet_t \<Rightarrow> nat" where
  "ps_end x = (if unat (plen x) < csp_buffer_data_size then unat (plen x) else csp_buffer_data_size - 1)"

definition ps_text :: "csp_packet_t \<Rightarrow> u8 list" where
  "ps_text x = takeWhile (\<lambda>b. b \<noteq> 0) (List.drop DATA_OFFSET (bytes x))"

partial_function (option) csp_ps_loop :: "io_env \<Rightarrow> nat option \<Rightarrow> u32 \<Rightarrow> node \<Rightarrow> (u8 list \<times> node) option" where
  "csp_ps_loop io conn timeout s = do {
     r \<leftarrow> csp_read (probe_read io) (io_nexthop io) (others_read io) conn timeout s;
     (if fst r = None then Some ([], snd r)
      else do {
        p \<leftarrow> fst r;
        x \<leftarrow> get_packet p (snd r);
        x \<leftarrow> data_write (ps_end x) [0] x;
        f \<leftarrow> csp_buffer_free (Some p) (put_packet p x (snd r));
        t \<leftarrow> csp_ps_loop io conn timeout (snd f);
        Some (ps_text x @ fst t, snd t)
      })
   }"

definition csp_ps :: "io_env \<Rightarrow> u16 \<Rightarrow> u32 \<Rightarrow> node \<Rightarrow> u8 list csp" where
  "csp_ps io node timeout s = do {
     (conn, s) \<leftarrow> csp_connect (io_nexthop io) (others_connect io) CSP_PRIO_NORM node CSP_PS 0 0 s;
     (if conn = None then Some ([], s)
      else do {
        (b, s) \<leftarrow> csp_buffer_get 95 s;
        (out, s) \<leftarrow>
          (case b of
             None \<Rightarrow> Some ([], s)
           | Some p \<Rightarrow> do {
               x \<leftarrow> get_packet p s;
               x \<leftarrow> data_write 0 [0x55] x;
               (_, s) \<leftarrow> csp_send (probe_send io) (io_nexthop io) (others_send io) conn b (put_packet p (x\<lparr>plen := 1\<rparr>) s);
               (out, s) \<leftarrow> csp_ps_loop io conn timeout s;
               Some (out @ [13, 10], s)
             });
        (_, s) \<leftarrow> csp_close (io_nexthop io) conn s;
        Some (out, s)
      })
   }"

text \<open>The number in a reply of four bytes; \<open>old\<close> is what the caller's variable held.\<close>

definition service_value :: "int \<Rightarrow> u8 list \<Rightarrow> int \<times> u32" where
  "service_value status buf = (if status = 4 then (CSP_ERR_NONE, be32toh (le_to_word buf)) else (CSP_ERR_TIMEDOUT, 0))"

definition csp_get_memfree :: "io_env \<Rightarrow> u16 \<Rightarrow> u32 \<Rightarrow> u32 \<Rightarrow> node \<Rightarrow> (int \<times> u32) csp" where
  "csp_get_memfree io node timeout old s = do {
     ((status, buf), s) \<leftarrow> csp_transaction io CSP_PRIO_NORM node CSP_MEMFREE timeout None 0 (word_to_le 4 old) 4 s;
     Some (service_value status buf, s)
   }"

definition csp_get_buf_free :: "io_env \<Rightarrow> u16 \<Rightarrow> u32 \<Rightarrow> u32 \<Rightarrow> node \<Rightarrow> (int \<times> u32) csp" where
  "csp_get_buf_free io node timeout old s = do {
     ((status, buf), s) \<leftarrow> csp_transaction io CSP_PRIO_NORM node CSP_BUF_FREE timeout None 0 (word_to_le 4 old) 4 s;
     Some (service_value status buf, s)
   }"

definition csp_get_uptime :: "io_env \<Rightarrow> u16 \<Rightarrow> u32 \<Rightarrow> u32 \<Rightarrow> node \<Rightarrow> (int \<times> u32) csp" where
  "csp_get_uptime io node timeout old s = do {
     ((status, buf), s) \<leftarrow> csp_transaction io CSP_PRIO_NORM node CSP_UPTIME timeout None 0 (word_to_le 4 old) 4 s;
     Some (service_value status buf, s)
   }"

text \<open>A request of the management protocol: \<open>msg\<close> is the caller's message, overwritten by the reply.\<close>

definition csp_cmp :: "io_env \<Rightarrow> u16 \<Rightarrow> u32 \<Rightarrow> u8 \<Rightarrow> int \<Rightarrow> u8 list \<Rightarrow> node \<Rightarrow> (int \<times> u8 list) csp" where
  "csp_cmp io node timeout code msg_size msg s = do {
     msg \<leftarrow> mem_write 0 [CSP_CMP_REQUEST, code] msg;
     ((status, msg), s) \<leftarrow> csp_transaction io CSP_PRIO_NORM node CSP_CMP timeout (Some msg) msg_size msg msg_size s;
     Some ((if status = 0 then CSP_ERR_TIMEDOUT else CSP_ERR_NONE, msg), s)
   }"

definition csp_cmp_ident :: "io_env \<Rightarrow> u16 \<Rightarrow> u32 \<Rightarrow> u8 list \<Rightarrow> node \<Rightarrow> (int \<times> u8 list) csp" where
  "csp_cmp_ident io node timeout = csp_cmp io node timeout CSP_CMP_IDENT (int cmp_size_ident)"
definition csp_cmp_route_set_v1 :: "io_env \<Rightarrow> u16 \<Rightarrow> u32 \<Rightarrow> u8 list \<Rightarrow> node \<Rightarrow> (int \<times> u8 list) csp" where
  "csp_cmp_route_set_v1 io node timeout = csp_cmp io node timeout CSP_CMP_ROUTE_SET_V1 (int cmp_size_route_set_v1)"
definition csp_cmp_if_stats :: "io_env \<Rightarrow> u16 \<Rightarrow> u32 \<Rightarrow> u8 list \<Rightarrow> node \<Rightarrow> (int \<times> u8 list) csp" where
  "csp_cmp_if_stats io node timeout = csp_cmp io node timeout CSP_CMP_IF_STATS (int cmp_size_if_stats)"
definition csp_cmp_clock :: "io_env \<Rightarrow> u16 \<Rightarrow> u32 \<Rightarrow> u8 list \<Rightarrow> node \<Rightarrow> (int \<times> u8 list) csp" where
  "csp_cmp_clock io node timeout = csp_cmp io node timeout CSP_CMP_CLOCK (int cmp_size_clock)"
definition csp_cmp_route_set_v2 :: "io_env \<Rightarrow> u16 \<Rightarrow> u32 \<Rightarrow> u8 list \<Rightarrow> node \<Rightarrow> (int \<times> u8 list) csp" where
  "csp_cmp_route_set_v2 io node timeout = csp_cmp io node timeout CSP_CMP_ROUTE_SET_V2 (int cmp_size_route_set_v2)"

definition csp_cmp_peek :: "io_env \<Rightarrow> u16 \<Rightarrow> u32 \<Rightarrow> u8 list \<Rightarrow> node \<Rightarrow> (int \<times> u8 list) csp" where
  "csp_cmp_peek io node timeout msg s = do {
     len \<leftarrow> mem_read 6 1 msg;
     csp_cmp io node timeout CSP_CMP_PEEK (int (cmp_size_peek - CSP_CMP_PEEK_MAX_LEN + unat (hd len))) msg s
   }"

definition csp_cmp_poke :: "io_env \<Rightarrow> u16 \<Rightarrow> u32 \<Rightarrow> u8 list \<Rightarrow> node \<Rightarrow> (int \<times> u8 list) csp" where
  "csp_cmp_poke io node timeout msg s = do {
     len \<leftarrow> mem_read 6 1 msg;
     csp_cmp io node timeout CSP_CMP_POKE (int (cmp_size_peek - CSP_CMP_POKE_MAX_LEN + unat (hd len))) msg s
   }"

section \<open>Numbers\<close>

lemma service_value_reply:
  assumes "reply_u32 v p s = Some s'" "get_packet p s = Some x" "packet_wf x" "get_packet p s' = Some y"
  shows "service_value (uint (plen y)) (pdata y) = (CSP_ERR_NONE, v)"
proof -
  have p: "p < length (csp_buffer_pool s)" using assms(2) by (auto simp: get_packet_def split: if_splits)
  have "y = (x\<lparr>bytes := mem_put DATA_OFFSET (word_to_le 4 (htobe32 v)) (bytes x), plen := 4\<rparr>)"
    using assms get_put_packet [OF p] by (auto simp: reply_u32_def put_be32_def data_write_def mem_write_put packet_wf_def bind_Some_iff)
  moreover have "take 4 (List.drop DATA_OFFSET (mem_put DATA_OFFSET (word_to_le 4 (htobe32 v)) (bytes x))) = word_to_le 4 (htobe32 v)"
    using take_drop_put_same [of DATA_OFFSET "word_to_le 4 (htobe32 v)" "bytes x"] assms(3) by (simp add: packet_wf_def)
  ultimately show ?thesis by (simp add: service_value_def pdata_def)
qed

section \<open>Reading the process list\<close>

lemma conn_packets_distinct:
  assumes "accounts H s" "n < length (arr_conn s)"
  shows "distinct (conn_packets (arr_conn s ! n))" "\<forall>q \<in> set (conn_packets (arr_conn s ! n)). q < CSP_BUFFER_COUNT"
proof -
  let ?ps = "conn_packets (arr_conn s ! n)" and ?f = "\<lambda>i. conn_packets (arr_conn s ! i)"
  have "arr_conn s = take n (arr_conn s) @ arr_conn s ! n # List.drop (Suc n) (arr_conn s)" using assms(2) by (simp add: id_take_nth_drop)
  then have "concat (map conn_packets (arr_conn s)) =
      concat (map conn_packets (take n (arr_conn s))) @ ?ps @ concat (map conn_packets (List.drop (Suc n) (arr_conn s)))"
    by (metis concat.simps(2) concat_append list.simps(9) map_append)
  then have "mset ?ps \<subseteq># queued s" by (simp add: queued_def add_increasing)
  then have sub: "mset ?ps \<subseteq># mset_set {..<CSP_BUFFER_COUNT}"
    using assms(1) unfolding accounts_def by (metis mset_subset_eq_add_left mset_subset_eq_add_right subset_mset.order_trans)
  have "count (mset_set {..<CSP_BUFFER_COUNT}) q \<le> 1" for q by (simp add: count_mset_set')
  then have "count (mset ?ps) q \<le> 1" for q using le_trans [OF mset_subset_eq_count [OF sub, of q]] by blast
  then show "distinct ?ps" by (metis count_greater_eq_one_iff distinct_count_atmost_1 le_antisym not_in_iff set_mset_mset)
  show "\<forall>q \<in> set ?ps. q < CSP_BUFFER_COUNT" using set_mset_mono [OF sub] by auto
qed

text \<open>The text of the packets in a queue, as the loop shows it.\<close>

definition shown :: "node \<Rightarrow> nat \<Rightarrow> u8 list" where
  "shown s p = (case get_packet p s of None \<Rightarrow> [] | Some x \<Rightarrow> (case data_write (ps_end x) [0] x of None \<Rightarrow> [] | Some y \<Rightarrow> ps_text y))"

definition plain_io :: "io_env \<Rightarrow> bool" where
  "plain_io io \<longleftrightarrow> probe_read io = (\<lambda>b. b) \<and> others_read io = (\<lambda>s. s)"

lemma ps_loop_ends:
  assumes "plain_io io" "accounts H s" "n < length (arr_conn s)" "c_state (arr_conn s ! n) = CONN_OPEN"
    "queue_list (rx_queue (arr_conn s ! n)) = map Some ps" "\<not> has_flag (flags (idin (arr_conn s ! n))) CSP_FRDP" "timeout \<noteq> CSP_MAX_TIMEOUT"
  shows "\<exists>s'. csp_ps_loop io (Some n) timeout s = Some (concat (map (shown s) ps), s') \<and> accounts H s' \<and>
    queue_list (rx_queue (arr_conn s' ! n)) = []"
  using assms(2-6)
proof (induction ps arbitrary: s)
  case Nil
  have io: "probe_read io = (\<lambda>b. b)" "others_read io = (\<lambda>s. s)" using assms(1) by (auto simp: plain_io_def)
  have z: "items (rx_queue (arr_conn s ! n)) = 0" using Nil.prems(4) queue_list_empty_iff by auto
  from read_empty [OF Nil.prems(2,3) z assms(7), of "\<lambda>b. b" "io_nexthop io"] Nil.prems io show ?case
    by (subst csp_ps_loop.simps) (simp add: put_conn_def)
next
  case (Cons p ps)
  have io: "probe_read io = (\<lambda>b. b)" "others_read io = (\<lambda>s. s)" using assms(1) by (auto simp: plain_io_def)
  let ?c = "arr_conn s ! n"
  define s1 where "s1 = put_conn n (?c\<lparr>rx_queue := queue_pop (rx_queue ?c)\<rparr>) s"
  have l: "queue_list (rx_queue ?c) = Some p # map Some ps" using Cons.prems(4) by simp
  note r = read_item_eq(1) [OF Cons.prems(1-3) l, of "\<lambda>b. b" "io_nexthop io" "others_read io" timeout] read_item_eq(2,3) [OF Cons.prems(1-3) l, of "\<lambda>b. b"]
  have r1: "csp_read (\<lambda>b. b) (io_nexthop io) (others_read io) (Some n) timeout s = Some (Some p, s1)" "accounts (add_mset p H) s1"
    "queue_list (rx_queue (arr_conn s1 ! n)) = map Some ps"
    using r Cons.prems(2,5) by (simp_all add: s1_def held_with_def)
  obtain x where x: "get_packet p s1 = Some x" "length (bytes x) = PACKET_BYTES" using accounts_packet [OF r1(2)] by (elim exE conjE)
  have "DATA_OFFSET + ps_end x + length [0 :: u8] \<le> length (bytes x)" using x(2) by (simp add: ps_end_def csp_buffer_data_size_def)
  from mem_write_put [OF this] obtain y where y: "data_write (ps_end x) [0] x = Some y" by (simp only: data_write_def option.map)
  have "length (bytes y) = PACKET_BYTES" using same_frame_write [OF y] x(2) by (simp add: same_frame_def)
  note f = accounts_free [OF accounts_put [OF r1(2) this, of p]]
  define s2 where "s2 = give_buffer p (put_packet p y s1)"
  have p: "p < length (csp_buffer_pool s1)" using x(1) by (auto simp: get_packet_def split: if_splits)
  have "conn_packets ?c = p # ps" by (simp add: conn_packets_def l List.map_filter_def comp_def)
  then have d: "p \<notin> set ps" using conn_packets_distinct(1) [OF Cons.prems(1,2)] by simp
  have "get_packet q s2 = get_packet q s" if "q \<noteq> p" for q using that get_put_packet [OF p] by (simp add: s2_def) (simp add: s1_def)
  then have "shown s2 q = shown s q" if "q \<in> set ps" for q using that d by (cases "q = p") (simp_all add: shown_def)
  then have t: "map (shown s2) ps = map (shown s) ps" by (rule map_cong [OF refl])
  have "shown s p = ps_text y" using x(1) y by (simp add: shown_def s1_def)
  have "accounts H s2" "n < length (arr_conn s2)" "c_state (arr_conn s2 ! n) = CONN_OPEN" "queue_list (rx_queue (arr_conn s2 ! n)) = map Some ps"
    "\<not> has_flag (flags (idin (arr_conn s2 ! n))) CSP_FRDP"
    using f(2) r1(3) Cons.prems(2,3,5) by (simp_all add: s2_def give_buffer_def s1_def put_conn_def)
  from Cons.IH [OF this] obtain s' where s': "csp_ps_loop io (Some n) timeout s2 = Some (concat (map (shown s) ps), s')" "accounts H s'"
    "queue_list (rx_queue (arr_conn s' ! n)) = []" using t by auto
  have "csp_ps_loop io (Some n) timeout s = Some (ps_text y @ concat (map (shown s) ps), s')"
    by (subst csp_ps_loop.simps) (use r1(1) x(1) y f(1) s'(1) io(1) in \<open>simp add: s2_def\<close>)
  then show ?case using s'(2,3) \<open>shown s p = ps_text y\<close> by simp
qed

section \<open>Properties\<close>

text \<open>C30: The client of the process list comes to an end: with the replies that have arrived in its queue and a bounded time-out, it
  shows the text of each packet in the order of arrival, frees every packet, and stops when the queue is empty.\<close>

theorem csp_ps_loop_ends:
  assumes "plain_io io" "accounts H s" "n < length (arr_conn s)" "c_state (arr_conn s ! n) = CONN_OPEN"
    "queue_list (rx_queue (arr_conn s ! n)) = map Some ps" "\<not> has_flag (flags (idin (arr_conn s ! n))) CSP_FRDP" "timeout \<noteq> CSP_MAX_TIMEOUT"
  shows "\<exists>s'. csp_ps_loop io (Some n) timeout s = Some (concat (map (shown s) ps), s') \<and> accounts H s' \<and>
    queue_list (rx_queue (arr_conn s' ! n)) = []"
  using ps_loop_ends [OF assms] .

definition lo_io :: io_env where
  "lo_io = \<lparr>probe_send = (\<lambda>b. b), probe_read = (\<lambda>b. b), io_nexthop = csp_lo_tx, others_send = (\<lambda>n s. s), others_read = (\<lambda>s. s),
     others_connect = (\<lambda>n s. s)\<rparr>"

theorem csp_ps_loop_ends_witness:
  "\<exists>out s'. csp_ps_loop lo_io (Some 2) 100 full_conn_node = Some (out, s') \<and> accounts (mset_set ({..<15} - {4})) s'"
proof -
  have "plain_io lo_io" by (simp add: plain_io_def lo_io_def)
  moreover have "queue_list (rx_queue (arr_conn full_conn_node ! 2)) = map Some [4]" using full_conn_node_fields(4) by simp
  moreover have "\<not> has_flag (flags (idin (arr_conn full_conn_node ! 2))) CSP_FRDP"
    by (simp add: full_conn_node_fields(5) has_flag_def zero_id_def)
  ultimately show ?thesis
    using csp_ps_loop_ends [of lo_io _ full_conn_node 2 "[4]" 100, OF _ full_conn_node_fields(1-3)] by (auto simp: CSP_MAX_TIMEOUT_def)
qed

end
