(* ===== verification/Csp_Hello.thy ===== *)
theory Csp_Hello
  imports Csp_Loopback Csp_Client
begin

text \<open>
  The message that the test programs exchange (\<^verbatim>\<open>src/test_suite\<close>): a client connects to a server on the same node, sends a packet with a
  text and closes the connection; the router delivers the packet; the server accepts a connection and reads packets until
  there are none. Here are the parts that the programs share, and the lemma that a round of the three ends where it began, with the
  packet read by the server.
\<close>

section \<open>Model\<close>

definition MY_SERVER_PORT :: u8 where "MY_SERVER_PORT = 10"

text \<open>A server's socket, bound to all ports.\<close>

definition server_socket :: "nat \<Rightarrow> node \<Rightarrow> nat csp" where
  "server_socket backlog s = do {
     let k = length (sockets s);
     let s = s\<lparr>sockets := sockets s @ [\<lparr>s_rx_queue = None, s_opts = 0\<rparr>]\<rparr>;
     (_, s) \<leftarrow> csp_bind (Some k) CSP_ANY s;
     (_, s) \<leftarrow> csp_listen k backlog s;
     Some (k, s)
   }"

text \<open>
  The loop that reads from a connection. \<open>receive\<close> is what a program does with a packet for its port; it has the connection,
  the packet, the variables of the program and the node. Packets for other ports go to the service handler.
\<close>

definition server_packet ::
  "nexthop_t \<Rightarrow> hooks \<Rightarrow> (nat \<Rightarrow> nat \<Rightarrow> 'g \<Rightarrow> node \<Rightarrow> ('g \<times> node) option) \<Rightarrow> nat \<Rightarrow> nat \<Rightarrow> 'g \<Rightarrow> node \<Rightarrow> ('g \<times> node) option" where
  "server_packet nexthop hk receive conn packet g s = do {
     port \<leftarrow> csp_conn_dport conn s;
     (if port = uint MY_SERVER_PORT then receive conn packet g s
      else do {
        (_, s) \<leftarrow> csp_service_handler nexthop hk packet s;
        Some (g, s)
      })
   }"

partial_function (option) server_read_loop ::
  "io_env \<Rightarrow> hooks \<Rightarrow> (nat \<Rightarrow> nat \<Rightarrow> 'g \<Rightarrow> node \<Rightarrow> ('g \<times> node) option) \<Rightarrow> nat \<Rightarrow> 'g \<Rightarrow> node \<Rightarrow> ('g \<times> node) option" where
  "server_read_loop io hk receive conn g s = do {
     r \<leftarrow> csp_read (probe_read io) (io_nexthop io) (others_read io) (Some conn) 50 s;
     (if fst r = None then Some (g, snd r)
      else do {
        p \<leftarrow> fst r;
        t \<leftarrow> server_packet (io_nexthop io) hk receive conn p g (snd r);
        server_read_loop io hk receive conn (fst t) (snd t)
      })
   }"

text \<open>One turn of the server's loop.\<close>

definition server_turn ::
  "io_env \<Rightarrow> hooks \<Rightarrow> (nat \<Rightarrow> nat \<Rightarrow> 'g \<Rightarrow> node \<Rightarrow> ('g \<times> node) option) \<Rightarrow> nat \<Rightarrow> 'g \<Rightarrow> node \<Rightarrow> ('g \<times> node) option" where
  "server_turn io hk receive sock g s = do {
     (conn, s) \<leftarrow> csp_accept (others_read io) (Some sock) 10000 s;
     (case conn of
        None \<Rightarrow> Some (g, s)
      | Some n \<Rightarrow> do {
          (g, s) \<leftarrow> server_read_loop io hk receive n g s;
          (_, s) \<leftarrow> csp_close (io_nexthop io) (Some n) s;
          Some (g, s)
        })
   }"

text \<open>The text with its counter and length, and sending it; without a buffer nothing is sent.\<close>

definition hello_packet :: "u8 \<Rightarrow> csp_packet_t \<Rightarrow> csp_packet_t option" where
  "hello_packet ch x = do {
     x \<leftarrow> data_write 0 (map of_char ''Hello world '') x;
     x \<leftarrow> data_write 12 [ch] x;
     x \<leftarrow> data_write 13 [0] x;
     let d = List.drop DATA_OFFSET (bytes x);
     Some (x\<lparr>plen := of_nat (length (takeWhile (\<lambda>b. b \<noteq> 0) d) + 1)\<rparr>)
   }"

definition client_hello :: "io_env \<Rightarrow> nat \<Rightarrow> u8 \<Rightarrow> node \<Rightarrow> bool csp" where
  "client_hello io conn ch s = do {
     (b, s) \<leftarrow> csp_buffer_get 100 s;
     (case b of
        None \<Rightarrow> Some (False, s)
      | Some p \<Rightarrow> do {
          x \<leftarrow> get_packet p s;
          x \<leftarrow> hello_packet ch x;
          (_, s) \<leftarrow> csp_send (probe_send io) (io_nexthop io) (others_send io) (Some conn) (Some p) (put_packet p x s);
          Some (True, s)
        })
   }"

section \<open>Exact states\<close>

text \<open>Accepting a connection that waits, and closing one without RDP and without packets.\<close>

lemma accept_waiting:
  assumes "k < length (sockets s)" "s_rx_queue (sockets s ! k) = Some b" "queue_wf b" "queue_list b = Sock_Conn n # es"
  shows "csp_accept others (Some k) timeout s = Some (Some n, put_socket k ((sockets s ! k)\<lparr>s_rx_queue := Some (queue_pop b)\<rparr>) s)"
proof -
  have i: "0 < items b" using assms(4) by (metis length_queue_list length_greater_0_conv list.distinct(1))
  have h: "buffer b ! q_out b = Some (Sock_Conn n)" using queue_head_Some [OF assms(3) i] assms(4) by simp
  show ?thesis using assms(1,2) i h
    by (simp add: csp_accept_def get_socket_def csp_queue_size_def pthread_queue_items_def csp_queue_dequeue_item)
qed

lemma close_empty:
  assumes "n < length (arr_conn s)" "c_state (arr_conn s ! n) = CONN_OPEN" "items (rx_queue (arr_conn s ! n)) = 0"
    "\<not> has_flag (flags (idin (arr_conn s ! n))) CSP_FRDP" "\<not> has_flag (flags (idout (arr_conn s ! n))) CSP_FRDP"
  shows "csp_close nh (Some n) s = Some (CSP_ERR_NONE, put_conn n ((arr_conn s ! n)\<lparr>c_state := CONN_CLOSED\<rparr>) s)"
  using assms by (simp add: csp_close_def csp_conn_close_def get_conn_eq flush_empty upd_conn_eq)

lemma send_open_plain:
  assumes "n < length (arr_conn s)" "c_state (arr_conn s ! n) = CONN_OPEN"
    "i = damat_id (probe (damat_buffer (idout (arr_conn s ! n))))" "\<not> has_flag (flags i) CSP_FRDP"
  shows "csp_send probe nh others (Some n) (Some p) s = csp_send_direct nh i p None (put_conn n ((arr_conn s ! n)\<lparr>idout := i\<rparr>) s)"
  using assms by (simp add: csp_send_def upd_conn_eq get_conn_eq)

section \<open>The text\<close>

lemma hello_text: "map of_char ''Hello world '' = ([72, 101, 108, 108, 111, 32, 119, 111, 114, 108, 100, 32] :: u8 list)"
  by (simp add: of_char_def)

lemma hello_packet_eq:
  assumes "length (bytes x) = PACKET_BYTES"
  shows "\<exists>y. hello_packet ch x = Some y \<and> packet_wf y \<and> pid y = pid x \<and>
    pdata y = map of_char ''Hello world '' @ (if ch = 0 then [0] else [ch, 0])"
proof -
  let ?t = "map of_char ''Hello world '' :: u8 list"
  let ?b = "mem_put 21 [0] (mem_put 20 [ch] (mem_put 8 ?t (bytes x)))"
  have l: "length (bytes x) = 264" using assms by simp
  have b: "?b = take 8 (bytes x) @ ?t @ [ch, 0] @ List.drop 22 (bytes x)"
    using l by (simp add: mem_put_def hello_text)
  let ?n = "length (takeWhile (\<lambda>b. b \<noteq> 0) (List.drop 8 ?b)) + 1"
  have tw: "takeWhile (\<lambda>b. b \<noteq> 0) (List.drop 8 ?b) = ?t @ (if ch = 0 then [] else [ch])"
    unfolding b using l by (simp add: hello_text)
  then have n: "?n = (if ch = 0 then 13 else 14)" by (simp add: hello_text)
  define b where "b = ?b"
  have "hello_packet ch x = Some (x\<lparr>bytes := ?b, plen := of_nat ?n\<rparr>)"
    using l by (simp add: hello_packet_def data_write_def mem_write_put hello_text Let_def)
  then have y: "hello_packet ch x = Some (x\<lparr>bytes := b, plen := of_nat (if ch = 0 then 13 else 14)\<rparr>)" unfolding n b_def .
  have "length b = 264" using l by (simp add: hello_text b_def)
  moreover have "take (if ch = 0 then 13 else 14) (List.drop 8 b) = ?t @ (if ch = 0 then [0] else [ch, 0])"
    unfolding b_def b using l by (simp add: hello_text)
  ultimately show ?thesis unfolding y by (cases "ch = 0") (simp_all add: packet_wf_def pdata_def)
qed

section \<open>The states of a round\<close>

text \<open>
  What does not change: the loopback interface is the only one, it has the address 0 and its network contains it, connections have no
  options by default, and the socket \<open>k\<close> answers for the port.
\<close>

definition static :: "nat \<Rightarrow> node \<Rightarrow> bool" where
  "static k s \<longleftrightarrow> env_inv s \<and> quiet_router s \<and> iflist s [0] \<and> in_subnet s 0 0 \<and> if_addr (ifaces s ! 0) = 0 \<and> if_mtu (ifaces s ! 0) = 0 \<and>
     conn_dfl_so (csp_conf s) = 0 \<and> csp_port_get_callback (unat MY_SERVER_PORT) s = Some None \<and>
     csp_port_get_socket (unat MY_SERVER_PORT) s = Some (Some k) \<and> k < length (sockets s) \<and> s_opts (sockets s ! k) = 0"

lemma iflist_first: "iflist s [0] \<Longrightarrow> 0 < length (ifaces s)"
  using iface_chain_member [of s "interfaces s" "[0]" 0] by (simp add: iflist_def)

lemma static_env:
  assumes "static k s" "env s' = env s" "csp_promisc_enabled s' = csp_promisc_enabled s"
  shows "static k s'"
proof -
  have i: "iflist s [0]" "0 < length (ifaces s)" using assms(1) iflist_first by (simp_all add: static_def)
  have key: "if_addr (ifaces s' ! 0) = if_addr (ifaces s ! 0)" "if_netmask (ifaces s' ! 0) = if_netmask (ifaces s ! 0)"
    "if_mtu (ifaces s' ! 0) = if_mtu (ifaces s ! 0)"
    using env_iface [OF assms(2) i(2)] by (simp_all add: iface_key_def)
  note l = env_lengths [OF assms(2)]
  have "s_opts (sockets s' ! k) = s_opts (sockets s ! k)" if "k < length (sockets s)" using env_sock [OF assms(2) that] by (simp add: sock_key_def)
  moreover have "csp_port_get_callback q s' = csp_port_get_callback q s" "csp_port_get_socket q s' = csp_port_get_socket q s" for q
    using l(5) by (simp_all add: csp_port_get_callback_def csp_port_get_socket_def port_at_def)
  moreover have "in_subnet s' 0 0 = in_subnet s 0 0" using key l(4) by (simp add: in_subnet_def)
  ultimately show ?thesis using assms(1,3) env_inv_env [OF assms(2)] iflist_env [OF assms(2), of "[0]"] key l(2,4)
    by (simp add: static_def quiet_router_def)
qed

definition conn_idle :: "csp_conn_t \<Rightarrow> bool" where
  "conn_idle c \<longleftrightarrow> c_state c = CONN_CLOSED \<and> items (rx_queue c) = 0 \<and> 0 < qsize (rx_queue c)"

definition sock_queue :: "nat \<Rightarrow> sock_item list \<Rightarrow> node \<Rightarrow> bool" where
  "sock_queue k es s \<longleftrightarrow> (\<exists>b. s_rx_queue (sockets s ! k) = Some b \<and> queue_list b = es \<and> 0 < qsize b)"

text \<open>Before and after a round: nothing is on its way. \<open>sent\<close>: the packet is in the input queue. \<open>delivered\<close>: it is in a new connection.\<close>

definition quiet_node :: "nat \<Rightarrow> node \<Rightarrow> bool" where
  "quiet_node k s \<longleftrightarrow> static k s \<and> route_inv s \<and> accounts {#} s \<and> (\<forall>c \<in> set (arr_conn s). conn_idle c) \<and>
     items (qfifo_queue s) = 0 \<and> 0 < qsize (qfifo_queue s) \<and> sock_queue k [] s \<and> 2 \<le> length (free_list s)"

definition sent :: "nat \<Rightarrow> nat \<Rightarrow> csp_packet_t \<Rightarrow> node \<Rightarrow> bool" where
  "sent k p x s \<longleftrightarrow> static k s \<and> route_inv s \<and> accounts {#} s \<and> (\<forall>c \<in> set (arr_conn s). conn_idle c) \<and>
     queue_list (qfifo_queue s) = [\<lparr>q_iface = Some 0, q_packet = Some p\<rparr>] \<and> sock_queue k [] s \<and> 1 \<le> length (free_list s) \<and>
     get_packet p s = Some x \<and> packet_wf x"

definition delivered :: "nat \<Rightarrow> nat \<Rightarrow> nat \<Rightarrow> csp_packet_t \<Rightarrow> node \<Rightarrow> bool" where
  "delivered k m p x s \<longleftrightarrow> static k s \<and> route_inv s \<and> accounts {#} s \<and> m < length (arr_conn s) \<and>
     (\<forall>i < length (arr_conn s). i \<noteq> m \<longrightarrow> conn_idle (arr_conn s ! i)) \<and>
     (let c = arr_conn s ! m in c_state c = CONN_OPEN \<and> idin c = pid x \<and> idout c = reply_id (pid x) \<and>
        queue_list (rx_queue c) = [Some p] \<and> 0 < qsize (rx_queue c)) \<and>
     items (qfifo_queue s) = 0 \<and> 0 < qsize (qfifo_queue s) \<and> sock_queue k [Sock_Conn m] s \<and> 1 \<le> length (free_list s) \<and>
     get_packet p s = Some x"

lemma next_conn_idle:
  assumes "length (arr_conn s) = CSP_CONN_MAX" "\<forall>c \<in> set (arr_conn s). conn_idle c"
  shows "\<exists>n. next_conn s = Some n"
proof (rule ccontr)
  assume "\<nexists>n. next_conn s = Some n"
  then have "next_conn s = None" by simp
  then have "\<not> is_closed s 0" using set_search_order [of "unat (csp_conn_last_given s)"] by (auto simp: next_conn_def find_None_iff)
  then show False using assms nth_mem [of 0 "arr_conn s"] by (auto simp: is_closed_def conn_idle_def)
qed

text \<open>The identifiers of the client's connection.\<close>

definition client_in :: "u8 \<Rightarrow> u8 \<Rightarrow> csp_id_t" where
  "client_in prio port = \<lparr>pri = prio, flags = 0, src = 0, dst = 0, dport = port, sport = MY_SERVER_PORT\<rparr>"

definition client_out :: "u8 \<Rightarrow> u8 \<Rightarrow> csp_id_t" where
  "client_out prio port = \<lparr>pri = prio, flags = 0, src = 0, dst = 0, dport = MY_SERVER_PORT, sport = port\<rparr>"

text \<open>The mutation probe of \<^verbatim>\<open>csp_send\<close> leaves the packet on its way to the port.\<close>

definition probe_out :: "io_env \<Rightarrow> u8 \<Rightarrow> u8 \<Rightarrow> csp_id_t" where
  "probe_out io prio port = damat_id (probe_send io (damat_buffer (client_out prio port)))"

definition arrives :: "io_env \<Rightarrow> u8 \<Rightarrow> u8 \<Rightarrow> bool" where
  "arrives io prio port \<longleftrightarrow> dst (probe_out io prio port) = 0 \<and> dport (probe_out io prio port) = MY_SERVER_PORT \<and>
     plain_flags (flags (probe_out io prio port))"

section \<open>The client\<close>

lemma hello_client:
  assumes "quiet_node k s" "io_nexthop io = csp_lo_tx" "\<And>port. arrives io prio port"
  obtains n s1 s2 s3 p x where
    "csp_connect csp_lo_tx oth prio 0 MY_SERVER_PORT timeout 0 s = Some (Some n, s1)" "n < CSP_CONN_MAX"
    "n < length (arr_conn s1)" "idin (arr_conn s1 ! n) = client_in prio (of_nat (CSP_PORT_MAX_BIND + 1 + n))"
    "idout (arr_conn s1 ! n) = client_out prio (of_nat (CSP_PORT_MAX_BIND + 1 + n))"
    "client_hello io n ch s1 = Some (True, s2)"
    "n < length (arr_conn s2)" "idin (arr_conn s2 ! n) = client_in prio (of_nat (CSP_PORT_MAX_BIND + 1 + n))"
    "csp_close csp_lo_tx (Some n) s2 = Some (CSP_ERR_NONE, s3)" "sent k p x s3"
    "pid x = (probe_out io prio (of_nat (CSP_PORT_MAX_BIND + 1 + n)))\<lparr>src := 0\<rparr>"
    "pdata x = map of_char ''Hello world '' @ (if ch = 0 then [0] else [ch, 0])"
proof -
  have q: "static k s" "route_inv s" "accounts {#} s" "\<forall>c \<in> set (arr_conn s). conn_idle c" "items (qfifo_queue s) = 0"
    "0 < qsize (qfifo_queue s)" "sock_queue k [] s" "2 \<le> length (free_list s)"
    using assms(1) by (simp_all add: quiet_node_def)
  have st: "conn_dfl_so (csp_conf s) = 0" "env_inv s" "iflist s [0]" "in_subnet s 0 0" "if_mtu (ifaces s ! 0) = 0" "if_addr (ifaces s ! 0) = 0"
    using q(1) by (simp_all add: static_def)
  have len: "length (arr_conn s) = CSP_CONN_MAX" using st(2) by (simp add: env_inv_def)
  obtain n where nx: "next_conn s = Some n" using next_conn_idle [OF len q(4)] by blast
  have n: "n < CSP_CONN_MAX" "n < length (arr_conn s)" using next_conn_Some [OF nx] len by simp_all
  let ?c = "arr_conn s ! n" and ?port = "of_nat (CSP_PORT_MAX_BIND + 1 + n) :: u8"
  have c: "conn_idle ?c" "sport_outgoing ?c = ?port" using q(2,4) n by (simp_all add: route_inv_def conn_inv_def)
  let ?cc = "client_conn prio 0 MY_SERVER_PORT (now s) ?c"
  define s1 where "s1 = (put_conn n ?cc s)\<lparr>csp_conn_last_given := of_nat n\<rparr>"
  have connect: "csp_connect csp_lo_tx oth prio 0 MY_SERVER_PORT timeout 0 s = Some (Some n, s1)"
    using connect_plain [OF len nx] c(1) st(1) by (simp add: s1_def conn_idle_def)
  have a1: "arr_conn s1 = (arr_conn s)[n := ?cc]" by (simp add: s1_def put_conn_def)
  have n1: "n < length (arr_conn s1)" "arr_conn s1 ! n = ?cc" using n by (simp_all add: a1)
  have acc1: "accounts {#} s1" using accounts_conn_same [OF q(3) n(2), of ?cc] by (simp add: s1_def)
  have free1: "free_list s1 = free_list s" by (simp add: s1_def free_list_def put_conn_def)
  obtain p q fs where free: "free_list s = p # q # fs" using q(8) by (cases "free_list s"; cases "tl (free_list s)") auto
  have "pool_inv s1" using acc1 by (simp add: accounts_def)
  then have get: "csp_buffer_get 100 s1 = Some (Some p, take_buffer p s1)" and free2: "free_list (take_buffer p s1) = q # fs"
    using csp_buffer_get_eq [of s1 100] take_buffer_inv(2) [of s1 p] free free1 by simp_all
  have acc2: "accounts {#p#} (take_buffer p s1)" using accounts_take [OF acc1] free free1 by simp
  then obtain x0 where x0: "get_packet p (take_buffer p s1) = Some x0" "length (bytes x0) = PACKET_BYTES" using accounts_packet by blast
  then have p: "p < length (csp_buffer_pool (take_buffer p s1))" by (auto simp: get_packet_def split: if_splits)
  from hello_packet_eq [OF x0(2), of ch] obtain y where y: "hello_packet ch x0 = Some y" "packet_wf y"
    "pdata y = map of_char ''Hello world '' @ (if ch = 0 then [0] else [ch, 0])" by blast
  define t where "t = put_packet p y (take_buffer p s1)"
  define i where "i = probe_out io prio ?port"
  have ar: "dst i = 0" "plain_flags (flags i)" using assms(3) by (simp_all add: arrives_def i_def)
  have t: "arr_conn t = arr_conn s1" "env t = env s" "free_list t = q # fs" "qfifo_queue t = qfifo_queue s" "sockets t = sockets s"
    "csp_promisc_enabled t = csp_promisc_enabled s" "ifaces t = ifaces s"
    using free2 by (simp_all add: t_def s1_def take_buffer_def put_packet_def put_conn_def free_list_def env_def)
  have acct: "accounts {#p#} t" using accounts_put [OF acc2] y(2) by (simp add: t_def packet_wf_def)
  have co: "idout ?cc = client_out prio ?port" "idin ?cc = client_in prio ?port" using c(2) by (simp_all add: client_in_def client_out_def)
  define u where "u = put_conn n (?cc\<lparr>idout := i\<rparr>) t"
  have accu: "accounts {#p#} u" using accounts_conn_same [OF acct, of n "?cc\<lparr>idout := i\<rparr>"] n1 t(1) by (simp add: u_def)
  have eu: "env u = env s" using t(2) by (simp add: u_def)
  have u: "free_list u = q # fs" "qfifo_queue u = qfifo_queue s" "sockets u = sockets s" "csp_promisc_enabled u = csp_promisc_enabled s"
    "ifaces u = ifaces s" "arr_conn u = (arr_conn s)[n := ?cc\<lparr>idout := i\<rparr>]"
    using t(3-7) a1 t(1) by (simp_all add: u_def put_conn_def free_list_def)
  have gu: "get_packet p u = Some y" using get_put_packet [OF p, of p y] by (simp add: u_def t_def)
  have su: "static k u" by (rule static_env [OF q(1) eu u(4)])
  have "masks_ok u" "iflist u [0]" "in_subnet u (dst i) 0" "if_mtu (ifaces u ! 0) = 0" using su ar(1) by (simp_all add: static_def env_inv_def)
  from send_direct_lo [OF _ gu y(2) ar(2) this u(1), of "{#}"] accu q(5,6) u(2) obtain s2 where
    s2: "csp_send_direct csp_lo_tx i p None u = Some ((), s2)" "accounts {#} s2" "env s2 = env u"
      "qfifo_queue s2 = queue_push \<lparr>q_iface = Some 0, q_packet = Some q\<rparr> (qfifo_queue u)"
      "get_packet q s2 = Some (y\<lparr>pid := i\<lparr>src := if_addr (ifaces u ! 0)\<rparr>\<rparr>)" "send_frame s2 = send_frame u"
      "csp_promisc_enabled s2 = csp_promisc_enabled u" "free_list s2 = fs @ [p]" by auto
  have "\<not> has_flag (flags i) CSP_FRDP" using ar(2) by (simp add: plain_flags_def)
  then have "csp_send (probe_send io) csp_lo_tx (others_send io) (Some n) (Some p) t = Some ((), s2)"
    using send_open_plain [of n t i "probe_send io" csp_lo_tx "others_send io" p] n1 t(1) co(1) s2(1) by (simp add: u_def i_def probe_out_def)
  then have hello: "client_hello io n ch s1 = Some (True, s2)" using get x0(1) y(1) assms(2) by (simp add: client_hello_def t_def)
  have arr2: "arr_conn s2 = (arr_conn s)[n := ?cc\<lparr>idout := i\<rparr>]" "sockets s2 = sockets s" using send_frame_fields [OF s2(6)] u(3,6) by simp_all
  have n2: "n < length (arr_conn s2)" "arr_conn s2 ! n = ?cc\<lparr>idout := i\<rparr>" using n arr2 by simp_all
  define s3 where "s3 = put_conn n (?cc\<lparr>idout := i, c_state := CONN_CLOSED\<rparr>) s2"
  have close: "csp_close csp_lo_tx (Some n) s2 = Some (CSP_ERR_NONE, s3)"
    using close_empty [of n s2 csp_lo_tx] n2 c(1) co(2) \<open>\<not> has_flag (flags i) CSP_FRDP\<close>
    by (simp add: s3_def conn_idle_def client_in_def has_flag_def)
  let ?d = "?cc\<lparr>idout := i, c_state := CONN_CLOSED\<rparr>"
  have arr3: "arr_conn s3 = (arr_conn s)[n := ?d]" using arr2 by (simp add: s3_def put_conn_def)
  have env3: "env s3 = env s" using s2(3) eu by (simp add: s3_def)
  have "route_inv s3" by (rule route_inv_upd [OF q(2) n(2) arr3 env3]) simp_all
  moreover have "accounts {#} s3" using accounts_conn_same [OF s2(2) n2(1), of ?d] n2(2) by (simp add: s3_def)
  moreover have "conn_idle ?d" using c(1) by (simp add: conn_idle_def client_conn_def)
  then have "\<forall>c \<in> set (arr_conn s3). conn_idle c" using q(4) set_update_subset_insert [of "arr_conn s" n ?d] by (auto simp: arr3)
  moreover have "static k s3" by (rule static_env [OF q(1) env3]) (use s2(7) u(4) in \<open>simp add: s3_def put_conn_def\<close>)
  moreover have "queue_list (qfifo_queue s3) = [\<lparr>q_iface = Some 0, q_packet = Some q\<rparr>]"
  proof -
    have "queue_wf (qfifo_queue s)" using q(3) by (simp add: accounts_def queues_inv_def)
    from queue_push_list [OF this, of "\<lparr>q_iface = Some 0, q_packet = Some q\<rparr>"] show ?thesis
      using q(5,6) s2(4) u(2) queue_list_empty_iff [of "qfifo_queue s"] by (simp add: s3_def put_conn_def)
  qed
  moreover have "sock_queue k [] s3" using q(7) arr2(2) by (simp add: sock_queue_def s3_def put_conn_def)
  moreover have "1 \<le> length (free_list s3)" using s2(8) by (simp add: s3_def free_list_def put_conn_def)
  moreover have "get_packet q s3 = Some (y\<lparr>pid := i\<lparr>src := 0\<rparr>\<rparr>)" using s2(5) st(6) u(5) by (simp add: s3_def)
  moreover have "packet_wf (y\<lparr>pid := i\<lparr>src := 0\<rparr>\<rparr>)" using y(2) by (simp add: packet_wf_def)
  ultimately have "sent k q (y\<lparr>pid := i\<lparr>src := 0\<rparr>\<rparr>) s3" by (simp add: sent_def)
  from that [OF connect n(1) n1(1) _ _ hello n2(1) _ close this] show ?thesis
    using n1(2) n2(2) co y(3) by (simp add: i_def pdata_def)
qed

section \<open>The router\<close>

lemma sent_queue:
  assumes "queue_wf q" "queue_list q = [e]"
  shows "items (queue_pop q) = 0" "qsize (queue_pop q) = qsize q"
proof -
  have i: "0 < items q" using assms(2) by (metis length_queue_list length_greater_0_conv list.distinct(1))
  then have "queue_list (queue_pop q) = []" using queue_pop_list [OF assms(1)] assms(2) by simp
  then show "items (queue_pop q) = 0" by (metis length_queue_list list.size(3))
  show "qsize (queue_pop q) = qsize q" by (simp add: queue_pop_def)
qed

lemma queue_push_empty:
  assumes "queue_wf q" "queue_list q = []" "0 < qsize q"
  shows "queue_list (queue_push e q) = [e]" "qsize (queue_push e q) = qsize q"
  using queue_push_list [of q e] assms queue_list_empty_iff [of q] by (simp_all add: queue_push_def)

lemma hello_router:
  assumes "sent k p x s" "route_client csp_lo_tx cb" "dst (pid x) = 0" "dport (pid x) = MY_SERVER_PORT" "plain_flags (flags (pid x))"
  obtains m s' where "csp_route_work csp_lo_tx cb s = Some (CSP_ERR_NONE, s')" "delivered k m p x s'"
proof -
  have q: "static k s" "route_inv s" "accounts {#} s" "\<forall>c \<in> set (arr_conn s). conn_idle c"
    "queue_list (qfifo_queue s) = [\<lparr>q_iface = Some 0, q_packet = Some p\<rparr>]" "sock_queue k [] s" "1 \<le> length (free_list s)"
    "get_packet p s = Some x" "packet_wf x"
    using assms(1) by (simp_all add: sent_def)
  have st: "env_inv s" "quiet_router s" "0 < length (ifaces s)" "if_addr (ifaces s ! 0) = 0" "k < length (sockets s)" "s_opts (sockets s ! k) = 0"
    using q(1) iflist_first by (simp_all add: static_def)
  have len: "length (arr_conn s) = CSP_CONN_MAX" using st(1) by (simp add: env_inv_def)
  obtain m where nx: "next_conn s = Some m" using next_conn_idle [OF len q(4)] by blast
  have m: "m < length (arr_conn s)" using next_conn_Some [OF nx] len by simp
  have idle: "conn_idle (arr_conn s ! i)" if "i < length (arr_conn s)" for i using q(4) that by simp
  obtain b where b: "s_rx_queue (sockets s ! k) = Some b" "queue_list b = []" "0 < qsize b" using q(6) by (auto simp: sock_queue_def)
  have lis: "listening s (dport (pid x)) k b"
    using q(1) b(1) st(5,6) assms(4) by (simp add: listening_def static_def has_flag_def)
  have me: "for_me s 0 (pid x)" using st(4) assms(3) by (simp add: for_me_def)
  have ex: "csp_conn_find_existing (pid x) s = None"
    unfolding find_existing_None using idle len by (auto simp: existing_match_def conn_idle_def)
  have wb: "queue_wf b" by (rule socket_queue_wf [OF q(3) st(5) b(1)])
  have wq: "queue_wf (qfifo_queue s)" using q(3) by (simp add: accounts_def queues_inv_def)
  have wc: "queue_wf (rx_queue (arr_conn s ! m))" by (rule conn_queue_wf [OF q(3) m])
  have qz: "0 < qsize (qfifo_queue s)"
    using wq q(5) length_queue_list [of "qfifo_queue s"] by (simp add: queue_wf_def)
  have "items b \<noteq> qsize b" using b(2,3) by (simp add: queue_list_empty_iff)
  note eq = route_work_new [OF q(2) st(1) q(3,5) st(3) q(8) me st(2) assms(5) lis this ex nx, of csp_lo_tx cb]
  let ?c = "server_conn (pid x) p (s_opts (sockets s ! k)) (now s) (arr_conn s ! m)"
  let ?s = "(put_conn m ?c (put_socket k ((sockets s ! k)\<lparr>s_rx_queue := Some (queue_push (Sock_Conn m) b)\<rparr>) (taken 0 x s)))
      \<lparr>csp_conn_last_given := of_nat m\<rparr>"
  have work: "csp_route_work csp_lo_tx cb s = Some (CSP_ERR_NONE, ?s)" using eq idle [OF m] by (simp add: conn_idle_def)
  have "\<not> has_flag (flags (pid x)) CSP_FRDP" using assms(5) by (simp add: plain_flags_def)
  from route_work_local [OF assms(2) st(1) q(2,3,5) st(3) q(8,9) this me] work
  have inv: "accounts {#} ?s" "env ?s = env s" "route_inv ?s" by auto
  have pr: "csp_promisc_enabled ?s = csp_promisc_enabled s" "free_list ?s = free_list s"
    by (simp_all add: put_conn_def put_socket_def taken_def put_iface_def free_list_def)
  have "static k ?s" by (rule static_env [OF q(1) inv(2) pr(1)])
  moreover have "\<forall>i < length (arr_conn ?s). i \<noteq> m \<longrightarrow> conn_idle (arr_conn ?s ! i)" using idle by simp
  moreover have "queue_list (rx_queue ?c) = [Some p]" "0 < qsize (rx_queue ?c)"
    using queue_push_empty [OF wc, of "Some p"] idle [OF m] by (simp_all add: conn_idle_def queue_list_empty_iff)
  moreover have "items (qfifo_queue ?s) = 0" "0 < qsize (qfifo_queue ?s)" using sent_queue [OF wq q(5)] qz by (simp_all add: put_conn_def put_socket_def)
  moreover have "sock_queue k [Sock_Conn m] ?s" using queue_push_empty [OF wb b(2,3), of "Sock_Conn m"] b(3) st(5) by (simp add: sock_queue_def put_conn_def put_socket_def)
  ultimately have "delivered k m p x ?s" using inv(1,3) m q(7,8) pr(2) by (simp add: delivered_def)
  from that [OF work this] show ?thesis .
qed

section \<open>The server\<close>

text \<open>What a program does with the packet ends in freeing it.\<close>

definition receives :: "(nat \<Rightarrow> nat \<Rightarrow> 'g \<Rightarrow> node \<Rightarrow> ('g \<times> node) option) \<Rightarrow> nat \<Rightarrow> nat \<Rightarrow> csp_id_t \<Rightarrow> 'g \<Rightarrow> 'g option \<Rightarrow> bool" where
  "receives receive m p i g r \<longleftrightarrow> (\<forall>t. m < length (arr_conn t) \<and> idin (arr_conn t ! m) = i \<and> idout (arr_conn t ! m) = reply_id i \<longrightarrow>
     receive m p g t = (case r of None \<Rightarrow> None | Some g' \<Rightarrow> do { (_, t') \<leftarrow> csp_buffer_free (Some p) t; Some (g', t') }))"

lemma accept_hello:
  assumes "delivered k m p x s"
  obtains b where "csp_accept others (Some k) timeout s = Some (Some m, put_socket k ((sockets s ! k)\<lparr>s_rx_queue := Some b\<rparr>) s)"
    "queue_list b = []" "0 < qsize b" "accounts {#} (put_socket k ((sockets s ! k)\<lparr>s_rx_queue := Some b\<rparr>) s)"
    "env (put_socket k ((sockets s ! k)\<lparr>s_rx_queue := Some b\<rparr>) s) = env s"
proof -
  have q: "accounts {#} s" "k < length (sockets s)" "sock_queue k [Sock_Conn m] s"
    using assms by (simp_all add: delivered_def static_def)
  obtain b where b: "s_rx_queue (sockets s ! k) = Some b" "queue_list b = [Sock_Conn m]" "0 < qsize b"
    using q(3) by (auto simp: sock_queue_def)
  have wb: "queue_wf b" by (rule socket_queue_wf [OF q(1,2) b(1)])
  have i: "0 < items b" using b(2) by (metis length_queue_list length_greater_0_conv list.distinct(1))
  have e: "queue_list (queue_pop b) = []" using queue_pop_list [OF wb i] b(2) by simp
  have w: "queue_wf (queue_pop b)" using queue_pop_wf [OF wb i] .
  let ?k = "(sockets s ! k)\<lparr>s_rx_queue := Some (queue_pop b)\<rparr>"
  have "accounts ({#} + {#}) (put_socket k ?k s)"
    by (rule accounts_put_socket [where K = "{#}" and H = "{#}", OF q(1,2)]) (use w e b(1,2) in \<open>simp_all add: sock_packets_def item_packet_def List.map_filter_simps\<close>)
  moreover have "env (put_socket k ?k s) = env s" by (rule env_put_socket [OF q(2)]) (simp add: sock_key_def b(1))
  moreover have "0 < qsize (queue_pop b)" using b(3) by (simp add: queue_pop_def)
  ultimately show ?thesis using that accept_waiting [OF q(2) b(1) wb b(2)] e by simp
qed

lemma hello_server:
  assumes "delivered k m p x s" "probe_read io = (\<lambda>b. b)" "others_read io = (\<lambda>s. s)" "dport (pid x) = MY_SERVER_PORT"
    "plain_flags (flags (pid x))" "receives receive m p (pid x) g r"
  shows "case r of
      None \<Rightarrow> server_turn io hk receive k g s = None
    | Some g' \<Rightarrow> \<exists>s'. server_turn io hk receive k g s = Some (g', s') \<and> quiet_node k s'"
proof -
  obtain b where b: "csp_accept (others_read io) (Some k) 10000 s = Some (Some m, put_socket k ((sockets s ! k)\<lparr>s_rx_queue := Some b\<rparr>) s)"
    "queue_list b = []" "0 < qsize b" "accounts {#} (put_socket k ((sockets s ! k)\<lparr>s_rx_queue := Some b\<rparr>) s)"
    "env (put_socket k ((sockets s ! k)\<lparr>s_rx_queue := Some b\<rparr>) s) = env s"
    using accept_hello [OF assms(1)] by blast
  define s1 where "s1 = put_socket k ((sockets s ! k)\<lparr>s_rx_queue := Some b\<rparr>) s"
  have q: "static k s" "route_inv s" "m < length (arr_conn s)" "items (qfifo_queue s) = 0" "0 < qsize (qfifo_queue s)" "1 \<le> length (free_list s)"
    using assms(1) by (simp_all add: delivered_def)
  have k: "k < length (sockets s)" using q(1) by (simp add: static_def)
  have f1: "arr_conn s1 = arr_conn s" "sockets s1 = (sockets s)[k := (sockets s ! k)\<lparr>s_rx_queue := Some b\<rparr>]" "free_list s1 = free_list s"
    "csp_promisc_enabled s1 = csp_promisc_enabled s" "qfifo_queue s1 = qfifo_queue s"
    by (simp_all add: s1_def put_socket_def free_list_def)
  let ?c = "arr_conn s ! m"
  have idle: "conn_idle (arr_conn s ! i)" if "i < length (arr_conn s)" "i \<noteq> m" for i using assms(1) that by (simp add: delivered_def)
  have c: "c_state ?c = CONN_OPEN" "idin ?c = pid x" "idout ?c = reply_id (pid x)" "queue_list (rx_queue ?c) = [Some p]" "0 < qsize (rx_queue ?c)"
    using assms(1) by (simp_all add: delivered_def Let_def)
  have m1: "m < length (arr_conn s1)" using q(3) f1(1) by simp
  have nf: "\<not> has_flag (flags (pid x)) CSP_FRDP" using assms(5) by (simp add: plain_flags_def)
  define c' where "c' = ?c\<lparr>rx_queue := queue_pop (rx_queue ?c)\<rparr>"
  define s2 where "s2 = put_conn m c' s1"
  have acc1: "accounts {#} s1" using b(4) by (simp add: s1_def)
  have read: "csp_read (probe_read io) (io_nexthop io) (others_read io) (Some m) 50 s1 = Some (Some p, s2)" "accounts {#p#} s2"
    using read_item_eq(1) [OF acc1 m1, of "Some p" "[]" "\<lambda>b. b" "io_nexthop io" "others_read io" 50]
      read_item_eq(2) [OF acc1 m1, of "Some p" "[]" "\<lambda>b. b"] c nf assms(2) f1(1)
    by (simp_all add: s2_def c'_def)
  have c'2: "arr_conn s2 ! m = c'" "m < length (arr_conn s2)" "idin c' = pid x" "idout c' = reply_id (pid x)" using m1 c by (simp_all add: s2_def c'_def)
  have rec: "server_packet (io_nexthop io) hk receive m p g s2 =
      (case r of None \<Rightarrow> None | Some g' \<Rightarrow> Some (g', give_buffer p s2))"
    using assms(6) c'2 assms(4) accounts_free(1) [OF read(2)]
    by (auto simp: server_packet_def csp_conn_dport_def get_conn_eq receives_def split: option.splits)
  show ?thesis
  proof (cases r)
    case None
    then have "server_read_loop io hk receive m g s1 = None" using read(1) rec by (simp add: server_read_loop.simps [of io hk receive m g s1])
    then show ?thesis using None b(1) by (simp add: server_turn_def s1_def)
  next
    case (Some g')
    define s3 where "s3 = give_buffer p s2"
    have f3: "arr_conn s3 = (arr_conn s)[m := c']" "sockets s3 = sockets s1" "csp_promisc_enabled s3 = csp_promisc_enabled s" "qfifo_queue s3 = qfifo_queue s"
      using f1 by (simp_all add: s3_def s2_def give_buffer_def put_conn_def)
    have acc3: "accounts {#} s3" using accounts_free(2) [OF read(2)] by (simp add: s3_def)
    have free3: "free_list s3 = free_list s @ [p]"
      using give_buffer_inv(2) [of s2 p] accounts_held(1,4) [OF read(2)] f1(3) by (simp add: s3_def s2_def free_list_def put_conn_def)
    have wc: "queue_wf (rx_queue ?c)" using conn_queue_wf [OF acc1 m1] f1(1) by simp
    have e': "items (rx_queue c') = 0" "qsize (rx_queue c') = qsize (rx_queue ?c)" using sent_queue [OF wc c(4)] by (simp_all add: c'_def)
    have m3: "m < length (arr_conn s3)" "arr_conn s3 ! m = c'" using q(3) f3(1) by simp_all
    have "c_state c' = CONN_OPEN" using c by (simp add: c'_def)
    then have read3: "csp_read (probe_read io) (io_nexthop io) (others_read io) (Some m) 50 s3 = Some (None, s3)"
      using put_conn_same [of m s3] read_empty [of m s3 50 "\<lambda>b. b" "io_nexthop io"] m3 e' nf c'2(3) assms(2,3) by (simp add: CSP_MAX_TIMEOUT_def)
    have "server_read_loop io hk receive m g' s3 = Some (g', s3)"
      using read3 by (simp add: server_read_loop.simps [of io hk receive m g' s3])
    then have loop: "server_read_loop io hk receive m g s1 = Some (g', s3)"
      using read(1) rec Some by (simp add: server_read_loop.simps [of io hk receive m g s1] s3_def)
    define d where "d = c'\<lparr>c_state := CONN_CLOSED\<rparr>"
    define s4 where "s4 = put_conn m d s3"
    have close: "csp_close (io_nexthop io) (Some m) s3 = Some (CSP_ERR_NONE, s4)"
      using close_empty [of m s3 "io_nexthop io"] m3 e'(1) nf c'2(3,4) reply_id_def \<open>c_state c' = CONN_OPEN\<close> by (simp add: s4_def d_def)
    have turn: "server_turn io hk receive k g s = Some (g', s4)" using b(1) loop close by (simp add: server_turn_def s1_def)
    have arr4: "arr_conn s4 = (arr_conn s)[m := d]" using f3(1) by (simp add: s4_def put_conn_def)
    have env4: "env s4 = env s" using b(5) by (simp add: s4_def s3_def s2_def s1_def)
    have "conn_idle d" using e' c(5) by (simp add: conn_idle_def d_def)
    then have "\<forall>c \<in> set (arr_conn s4). conn_idle c" using idle q(3) by (auto simp: arr4 in_set_conv_nth nth_list_update)
    moreover have "route_inv s4" by (rule route_inv_upd [OF q(2,3) arr4 env4]) (simp_all add: d_def c'_def)
    moreover have "accounts {#} s4" using accounts_conn_same [OF acc3 m3(1), of d] m3(2) by (simp add: s4_def d_def)
    moreover have "static k s4" by (rule static_env [OF q(1) env4]) (use f3(3) in \<open>simp add: s4_def put_conn_def\<close>)
    moreover have "sock_queue k [] s4" using f3(2) f1(2) b(2,3) k by (simp add: sock_queue_def s4_def put_conn_def)
    moreover have "2 \<le> length (free_list s4)" using free3 q(6) by (simp add: s4_def free_list_def put_conn_def)
    moreover have "items (qfifo_queue s4) = 0" "0 < qsize (qfifo_queue s4)" using q(4,5) f3(4) by (simp_all add: s4_def put_conn_def)
    ultimately have "quiet_node k s4" by (simp add: quiet_node_def)
    then show ?thesis using turn Some by simp
  qed
qed

section \<open>A started node\<close>

text \<open>The node of the test programs, with its static memory.\<close>

definition test_node :: node where
  "test_node = boot_node\<lparr>ports := replicate (CSP_PORT_MAX_BIND + 2) \<lparr>p_state = PORT_CLOSED, p_ptr = 0\<rparr>\<rparr>"

lemma test_started:
  obtains s1 s2 where "csp_init test_node = Some ((), s1)" "server_socket backlog s1 = Some (0, s2)" "quiet_node 0 s2"
    "free_list s2 = [0..<CSP_BUFFER_COUNT]" "qfifo_queue s2 = empty_queue CSP_QFIFO_LEN"
    "\<forall>c \<in> set (arr_conn s2). rx_queue c = empty_queue CSP_CONN_RXQUEUE_LEN"
proof -
  have boot: "length (csp_buffer_pool test_node) = CSP_BUFFER_COUNT" "\<forall>b \<in> set (csp_buffer_pool test_node). length (bytes (skbf_data b)) = PACKET_BYTES"
    "length (arr_conn test_node) = CSP_CONN_MAX" "idle test_node" "interfaces test_node = None" "csp_if_lo < length (ifaces test_node)"
    by (simp_all add: test_node_def boot_node_def zero_node_def zero_packet_def idle_def)
  have t: "sockets test_node = []" "ports test_node = replicate 18 \<lparr>p_state = PORT_CLOSED, p_ptr = 0\<rparr>" "csp_conf test_node = csp_conf_init"
    "rtable test_node = replicate CSP_RTABLE_SIZE \<lparr>r_address = 0, r_netmask = 0, r_via = 0, r_iface = None\<rparr>" "rtable_inptr test_node = 0"
    "\<not> csp_promisc_enabled test_node" "ifaces test_node = [zero_iface\<lparr>if_name := ''LOOP''\<rparr>]" "csp_dedup_in test_node = 0"
    "csp_dedup_array test_node = replicate 16 0" "csp_hmac_key test_node = replicate 16 0" "arr_conn test_node = replicate CSP_CONN_MAX zero_conn"
    by (simp_all add: test_node_def boot_node_def zero_node_def)
  obtain b q cs where i: "csp_init test_node = Some ((), init_node b q cs test_node)" "accounts {#} (init_node b q cs test_node)"
    "conn_inv (init_node b q cs test_node)" "iflist (init_node b q cs test_node) [csp_if_lo]" "queue_list q = [0..<CSP_BUFFER_COUNT]"
    "map dest_socket cs = map dest_socket (arr_conn test_node)"
    "\<forall>c \<in> set cs. c_state c = CONN_CLOSED \<and> rx_queue c = empty_queue CSP_CONN_RXQUEUE_LEN"
    by (rule init_run [OF boot])
  define s1 where "s1 = init_node b q cs test_node"
  define s2 where "s2 = s1\<lparr>sockets := [\<lparr>s_rx_queue = Some (empty_queue CSP_CONN_RXQUEUE_LEN), s_opts = 0\<rparr>],
    ports := (ports s1)[CSP_PORT_MAX_BIND + 1 := \<lparr>p_state = PORT_OPEN, p_ptr = 0\<rparr>]\<rparr>"
  have len: "length cs = CSP_CONN_MAX" using i(3) by (simp add: conn_inv_def)
  have dest: "dest_socket c = None" if "c \<in> set cs" for c
  proof -
    have "dest_socket c \<in> set (map dest_socket cs)" using that by simp
    then show ?thesis unfolding i(6) t(11) by (simp add: zero_conn_def)
  qed
  have sock: "server_socket backlog s1 = Some (0, s2)"
    using t by (simp add: server_socket_def csp_bind_def port_at_def csp_listen_def get_socket_def put_socket_def s1_def s2_def csp_queue_create_static_eq)
  have acc: "accounts {#} s2"
  proof -
    have "accounts {#} s1" using i(2) by (simp add: s1_def)
    moreover have "sockets s1 = []" using t(1) by (simp add: s1_def)
    ultimately show ?thesis
      by (simp add: s2_def accounts_def pool_inv_def free_list_def queued_def queues_inv_def qfifo_packets_def promisc_packets_def rdp_packets_def sock_packets_def)
  qed
  have chain: "iface_chain s2 p xs = iface_chain s1 p xs" for p xs
    by (induction xs arbitrary: p) (simp_all add: s2_def)
  have ifl: "iflist s2 [0]" using i(4) chain by (simp add: iflist_def) (simp add: s1_def s2_def)
  have "replicate 18 x = replicate 17 x @ [x]" for x :: csp_port_t using replicate_add [of 17 1 x] by simp
  then have r: "(replicate 18 x)[17 := y] = replicate 17 x @ [y]" for x y :: csp_port_t by (simp add: list_update_append)
  have f2: "arr_conn s2 = cs" "ifaces s2 = [zero_iface\<lparr>if_name := ''LOOP'', if_netmask := 14, if_next := None\<rparr>]" "csp_conf s2 = csp_conf_init"
    "free_list s2 = [0..<CSP_BUFFER_COUNT]" "qfifo_queue s2 = empty_queue CSP_QFIFO_LEN" "sockets s2 = [\<lparr>s_rx_queue = Some (empty_queue CSP_CONN_RXQUEUE_LEN), s_opts = 0\<rparr>]"
    "ports s2 = replicate 17 \<lparr>p_state = PORT_CLOSED, p_ptr = 0\<rparr> @ [\<lparr>p_state = PORT_OPEN, p_ptr = 0\<rparr>]" "\<not> csp_promisc_enabled s2"
    "rtable s2 = rtable test_node" "rtable_inptr s2 = 0" "csp_dedup_array s2 = replicate 16 0" "csp_dedup_in s2 = 0" "csp_hmac_key s2 = replicate 16 0"
    using i(5) t r by (simp_all add: s1_def s2_def csp_id_get_host_bits_def csp_conf_init_def free_list_def del: upt_rec_numeral)
  have env: "env_inv s2" using ifl f2 t(4) len
    by (auto simp: env_inv_def masks_ok_def rtable_inv_def routes_def csp_id_get_host_bits_def csp_conf_init_def zero_iface_def)
  have "static 0 s2" using env ifl f2
    by (simp add: static_def quiet_router_def in_subnet_def same_net_def csp_conf_init_def zero_iface_def csp_port_get_callback_def
        csp_port_get_socket_def port_at_def MY_SERVER_PORT_def nth_append)
  moreover have "conn_inv s2" using i(3) conn_inv_cong [of s2 s1] by (simp add: s1_def s2_def)
  then have "route_inv s2" using i(7) dest f2(1) by (simp add: route_inv_def plain_conn_def sock_ok_def)
  ultimately have "quiet_node 0 s2" using acc f2(1,4-6) i(7)
    by (simp add: quiet_node_def conn_idle_def empty_queue_props sock_queue_def del: upt_rec_numeral)
  then show ?thesis using that [OF _ sock _ f2(4,5)] i(1,7) f2(1) by (simp add: s1_def)
qed

lemma test_start:
  obtains s1 s2 where "csp_init test_node = Some ((), s1)" "server_socket backlog s1 = Some (0, s2)" "quiet_node 0 s2"
  by (rule test_started [of backlog]) (rule that)

end
