(* ===== verification/Csp_Tests.thy ===== *)
theory Csp_Tests
  imports Csp_Hello
begin

text \<open>
  The test programs (\<^verbatim>\<open>src/test_suite/test_01\<close> to \<^verbatim>\<open>test_05\<close>) that decide whether a mutant is killed: each has a server and a client on one
  node, which write what they see of their connections into arrays, and a verdict, the exit code, which compares the arrays. The
  mutation is what the probe in \<^verbatim>\<open>csp_send\<close> makes of the identifier. The programs have three threads and pauses; the model
  runs them in rounds: the client sends a packet, the router delivers it, the server reads it.
\<close>

section \<open>Model\<close>

definition CSP_PRIO_CRITICAL :: u8 where [simp]: "CSP_PRIO_CRITICAL = 0"
definition CSP_PRIO_LOW :: u8 where [simp]: "CSP_PRIO_LOW = 3"
definition CSP_O_NONE :: u32 where [simp]: "CSP_O_NONE = 0"

text \<open>Without another interface, \<^verbatim>\<open>main\<close> sets the address of the server to its own.\<close>

definition server_address :: u16 where [simp]: "server_address = 0"

text \<open>Writing into an array; out of its bounds the program has no meaning.\<close>

definition archive_put :: "u32 \<Rightarrow> 'a \<Rightarrow> 'a list \<Rightarrow> 'a list option" where
  "archive_put i x xs = (if unat i < length xs then Some (xs[unat i := x]) else None)"

text \<open>The variables that all programs have: the number of packets received, and the client's counter.\<close>

record test_vars =
  server_received :: u32
  client_count :: u32

subsection \<open>Test 01: the packets arrive\<close>

definition test_01_receive :: "nat \<Rightarrow> nat \<Rightarrow> test_vars \<Rightarrow> node \<Rightarrow> (test_vars \<times> node) option" where
  "test_01_receive conn packet g s = do {
     (_, s) \<leftarrow> csp_buffer_free (Some packet) s;
     Some (g\<lparr>server_received := server_received g + 1\<rparr>, s)
   }"

definition test_01_server :: "io_env \<Rightarrow> hooks \<Rightarrow> nat \<Rightarrow> test_vars \<Rightarrow> node \<Rightarrow> (test_vars \<times> node) option" where
  "test_01_server io hk sock = server_turn io hk test_01_receive sock"

definition test_01_client :: "io_env \<Rightarrow> test_vars \<Rightarrow> node \<Rightarrow> (bool \<times> test_vars \<times> node) option" where
  "test_01_client io g s = do {
     (_, s) \<leftarrow> csp_ping io server_address 1000 100 0 s;
     (_, s) \<leftarrow> csp_reboot io server_address s;
     (conn, s) \<leftarrow> csp_connect (io_nexthop io) (others_connect io) CSP_PRIO_NORM server_address MY_SERVER_PORT 1000 CSP_O_NONE s;
     (case conn of
        None \<Rightarrow> Some (False, g, s)
      | Some n \<Rightarrow> do {
          (ok, s) \<leftarrow> client_hello io n (ucast (client_count g)) s;
          (if \<not> ok then Some (False, g, s)
           else do {
             (_, s) \<leftarrow> csp_close (io_nexthop io) (Some n) s;
             Some (True, g\<lparr>client_count := client_count g + 1\<rparr>, s)
           })
        })
   }"

definition test_01_exit :: "test_vars \<Rightarrow> int" where
  "test_01_exit g = (if server_received g < 5 then 1 else 0)"

subsection \<open>Test 02: the priority\<close>

record test_02 = test_vars +
  packet_sent :: u32
  sent_priorities :: "int list"
  read_priorities :: "int list"
  sent_priorities_idout :: "int list"
  read_priorities_idout :: "int list"

definition test_02_start :: test_02 where
  "test_02_start = \<lparr>server_received = 0, client_count = 65, packet_sent = 0, sent_priorities = replicate 5 0,
     read_priorities = replicate 5 0, sent_priorities_idout = replicate 5 0, read_priorities_idout = replicate 5 0\<rparr>"

definition test_02_receive :: "nat \<Rightarrow> nat \<Rightarrow> test_02 \<Rightarrow> node \<Rightarrow> (test_02 \<times> node) option" where
  "test_02_receive conn packet g s = do {
     prio \<leftarrow> csp_conn_pri_faqas conn s;
     a \<leftarrow> archive_put (server_received g) prio (read_priorities g);
     out \<leftarrow> csp_conn_pri_out_faqas conn s;
     b \<leftarrow> archive_put (server_received g) out (read_priorities_idout g);
     (_, s) \<leftarrow> csp_buffer_free (Some packet) s;
     Some (g\<lparr>server_received := server_received g + 1, read_priorities := a, read_priorities_idout := b\<rparr>, s)
   }"

definition test_02_server :: "io_env \<Rightarrow> hooks \<Rightarrow> nat \<Rightarrow> test_02 \<Rightarrow> node \<Rightarrow> (test_02 \<times> node) option" where
  "test_02_server io hk sock = server_turn io hk test_02_receive sock"

definition test_02_prio :: "u32 \<Rightarrow> u8" where
  "test_02_prio i = (if i = 0 then CSP_PRIO_CRITICAL else if i = 1 then CSP_PRIO_HIGH else if i = 2 then CSP_PRIO_NORM
     else if i = 3 then CSP_PRIO_LOW else 6)"

definition test_02_client :: "io_env \<Rightarrow> test_02 \<Rightarrow> node \<Rightarrow> (bool \<times> test_02 \<times> node) option" where
  "test_02_client io g s =
     (if \<not> packet_sent g < 5 then Some (False, g, s)
      else do {
        let prio = test_02_prio (packet_sent g);
        a \<leftarrow> archive_put (packet_sent g) (uint prio) (sent_priorities g);
        let g = g\<lparr>sent_priorities := a\<rparr>;
        (conn, s) \<leftarrow> csp_connect (io_nexthop io) (others_connect io) prio server_address MY_SERVER_PORT 1000 CSP_O_NONE s;
        (case conn of
           None \<Rightarrow> Some (False, g, s)
         | Some n \<Rightarrow> do {
             (ok, s) \<leftarrow> client_hello io n (ucast (client_count g)) s;
             (if \<not> ok then Some (False, g, s)
              else do {
                (_, s) \<leftarrow> csp_close (io_nexthop io) (Some n) s;
                Some (True, g\<lparr>client_count := client_count g + 1, packet_sent := packet_sent g + 1\<rparr>, s)
              })
           })
      })"

definition test_02_exit :: "test_02 \<Rightarrow> int" where
  "test_02_exit g = (if \<exists>i \<in> set [0..<5]. read_priorities g ! i \<noteq> sent_priorities g ! i then 1 else 0)"

subsection \<open>Test 03: the addresses\<close>

record test_03 = test_vars +
  client_sent_3 :: u32
  sent_idin_src :: "int list"
  read_idin_src :: "int list"
  sent_idin_dst :: "int list"
  read_idin_dst :: "int list"
  sent_idout_src :: "int list"
  read_idout_src :: "int list"
  sent_idout_dst :: "int list"
  read_idout_dst :: "int list"

definition test_03_start :: test_03 where
  "test_03_start = \<lparr>server_received = 0, client_count = 65, client_sent_3 = 0, sent_idin_src = replicate 5 0, read_idin_src = replicate 5 0,
     sent_idin_dst = replicate 5 0, read_idin_dst = replicate 5 0, sent_idout_src = replicate 5 0, read_idout_src = replicate 5 0,
     sent_idout_dst = replicate 5 0, read_idout_dst = replicate 5 0\<rparr>"

text \<open>The second assignment of each pair to \<open>idout_src\<close> replaces the first.\<close>

definition test_03_receive :: "nat \<Rightarrow> nat \<Rightarrow> test_03 \<Rightarrow> node \<Rightarrow> (test_03 \<times> node) option" where
  "test_03_receive conn packet g s = do {
     v \<leftarrow> csp_conn_src conn s;
     a \<leftarrow> archive_put (server_received g) v (read_idin_src g);
     v \<leftarrow> csp_conn_dst conn s;
     b \<leftarrow> archive_put (server_received g) v (read_idin_dst g);
     v \<leftarrow> csp_conn_dst_out conn s;
     c \<leftarrow> archive_put (server_received g) v (read_idout_src g);
     v \<leftarrow> csp_conn_src_out conn s;
     c \<leftarrow> archive_put (server_received g) v c;
     (_, s) \<leftarrow> csp_buffer_free (Some packet) s;
     Some (g\<lparr>server_received := server_received g + 1, read_idin_src := a, read_idin_dst := b, read_idout_src := c\<rparr>, s)
   }"

definition test_03_server :: "io_env \<Rightarrow> hooks \<Rightarrow> nat \<Rightarrow> test_03 \<Rightarrow> node \<Rightarrow> (test_03 \<times> node) option" where
  "test_03_server io hk sock g s = (if \<not> server_received g < 5 then Some (g, s) else server_turn io hk test_03_receive sock g s)"

definition test_03_client :: "io_env \<Rightarrow> test_03 \<Rightarrow> node \<Rightarrow> (bool \<times> test_03 \<times> node) option" where
  "test_03_client io g s =
     (if \<not> client_sent_3 g < 5 then Some (False, g, s)
      else do {
        (conn, s) \<leftarrow> csp_connect (io_nexthop io) (others_connect io) CSP_PRIO_NORM server_address MY_SERVER_PORT 1000 CSP_O_NONE s;
        (case conn of
           None \<Rightarrow> Some (False, g, s)
         | Some n \<Rightarrow> do {
             (p, s) \<leftarrow> csp_buffer_get 100 s;
             (case p of
                None \<Rightarrow> Some (False, g, s)
              | Some p \<Rightarrow> do {
                  x \<leftarrow> get_packet p s;
                  x \<leftarrow> hello_packet (ucast (client_count g)) x;
                  let s = put_packet p x s;
                  v \<leftarrow> csp_conn_src n s;
                  a \<leftarrow> archive_put (server_received g) v (sent_idin_src g);
                  v \<leftarrow> csp_conn_dst n s;
                  b \<leftarrow> archive_put (server_received g) v (sent_idin_dst g);
                  v \<leftarrow> csp_conn_dst_out n s;
                  c \<leftarrow> archive_put (server_received g) v (sent_idout_src g);
                  v \<leftarrow> csp_conn_src_out n s;
                  c \<leftarrow> archive_put (server_received g) v c;
                  (_, s) \<leftarrow> csp_send (probe_send io) (io_nexthop io) (others_send io) (Some n) (Some p) s;
                  (_, s) \<leftarrow> csp_close (io_nexthop io) (Some n) s;
                  Some (True, g\<lparr>client_count := client_count g + 1, client_sent_3 := client_sent_3 g + 1,
                    sent_idin_src := a, sent_idin_dst := b, sent_idout_src := c\<rparr>, s)
                })
           })
      })"

definition test_03_exit :: "test_03 \<Rightarrow> int" where
  "test_03_exit g =
     (if server_received g < 5 then 1
      else if \<exists>i \<in> set [0..<5]. sent_idin_src g ! i \<noteq> read_idin_src g ! i \<or> sent_idin_dst g ! i \<noteq> read_idin_dst g ! i \<or>
        sent_idout_src g ! i \<noteq> read_idout_src g ! i \<or> sent_idout_dst g ! i \<noteq> read_idout_dst g ! i then 1
      else 0)"

subsection \<open>Test 04: the ports\<close>

record test_04 = test_vars +
  client_sent_4 :: u32
  sport_server_archive :: "int list"
  dport_server_archive :: "int list"
  sport_client_archive :: "int list"
  dport_client_archive :: "int list"

definition test_04_start :: test_04 where
  "test_04_start = \<lparr>server_received = 0, client_count = 65, client_sent_4 = 0, sport_server_archive = replicate 10 0,
     dport_server_archive = replicate 10 0, sport_client_archive = replicate 10 0, dport_client_archive = replicate 10 0\<rparr>"

definition test_04_receive :: "nat \<Rightarrow> nat \<Rightarrow> test_04 \<Rightarrow> node \<Rightarrow> (test_04 \<times> node) option" where
  "test_04_receive conn packet g s = do {
     g \<leftarrow> (if server_received g \<le> 10 then do {
         v \<leftarrow> csp_conn_sport conn s;
         a \<leftarrow> archive_put (server_received g) v (sport_server_archive g);
         v \<leftarrow> csp_conn_dport conn s;
         b \<leftarrow> archive_put (server_received g) v (dport_server_archive g);
         Some (g\<lparr>sport_server_archive := a, dport_server_archive := b\<rparr>)
       } else Some g);
     (_, s) \<leftarrow> csp_buffer_free (Some packet) s;
     Some (g\<lparr>server_received := server_received g + 1\<rparr>, s)
   }"

definition test_04_server :: "io_env \<Rightarrow> hooks \<Rightarrow> nat \<Rightarrow> test_04 \<Rightarrow> node \<Rightarrow> (test_04 \<times> node) option" where
  "test_04_server io hk sock = server_turn io hk test_04_receive sock"

definition test_04_client :: "io_env \<Rightarrow> test_04 \<Rightarrow> node \<Rightarrow> (bool \<times> test_04 \<times> node) option" where
  "test_04_client io g s = do {
     (conn, s) \<leftarrow> csp_connect (io_nexthop io) (others_connect io) CSP_PRIO_NORM server_address MY_SERVER_PORT 1000 CSP_O_NONE s;
     (case conn of
        None \<Rightarrow> Some (False, g, s)
      | Some n \<Rightarrow> do {
          (ok, s) \<leftarrow> client_hello io n (ucast (client_count g)) s;
          (if \<not> ok then Some (False, g, s)
           else do {
             g \<leftarrow> (if client_sent_4 g \<le> 10 then do {
                 v \<leftarrow> csp_conn_sport n s;
                 a \<leftarrow> archive_put (client_sent_4 g) v (sport_client_archive g);
                 v \<leftarrow> csp_conn_dport n s;
                 b \<leftarrow> archive_put (client_sent_4 g) v (dport_client_archive g);
                 Some (g\<lparr>sport_client_archive := a, dport_client_archive := b\<rparr>)
               } else Some g);
             (_, s) \<leftarrow> csp_close (io_nexthop io) (Some n) s;
             Some (True, g\<lparr>client_count := client_count g + 1, client_sent_4 := client_sent_4 g + 1\<rparr>, s)
           })
        })
   }"

definition test_04_exit :: "test_04 \<Rightarrow> int" where
  "test_04_exit g =
     (if \<exists>i \<in> set [0..<10]. sport_server_archive g ! i \<noteq> dport_client_archive g ! i \<or>
        dport_server_archive g ! i \<noteq> sport_client_archive g ! i then 1
      else 0)"

subsection \<open>Test 05: the flags\<close>

record test_05 = test_vars +
  flags_server :: "u8 list"
  flags_client :: "u8 list"

definition test_05_start :: test_05 where
  "test_05_start = \<lparr>server_received = 0, client_count = 65, flags_server = replicate 10 0, flags_client = replicate 10 0\<rparr>"

definition test_05_receive :: "nat \<Rightarrow> nat \<Rightarrow> test_05 \<Rightarrow> node \<Rightarrow> (test_05 \<times> node) option" where
  "test_05_receive conn packet g s = do {
     g \<leftarrow> (if server_received g < 10 then do {
         v \<leftarrow> csp_conn_flags conn s;
         a \<leftarrow> archive_put (server_received g) (of_int v) (flags_server g);
         Some (g\<lparr>flags_server := a\<rparr>)
       } else Some g);
     (_, s) \<leftarrow> csp_buffer_free (Some packet) s;
     Some (g\<lparr>server_received := server_received g + 1\<rparr>, s)
   }"

definition test_05_server :: "io_env \<Rightarrow> hooks \<Rightarrow> nat \<Rightarrow> test_05 \<Rightarrow> node \<Rightarrow> (test_05 \<times> node) option" where
  "test_05_server io hk sock = server_turn io hk test_05_receive sock"

definition test_05_client :: "io_env \<Rightarrow> test_05 \<Rightarrow> node \<Rightarrow> (bool \<times> test_05 \<times> node) option" where
  "test_05_client io g s = do {
     (conn, s) \<leftarrow> csp_connect (io_nexthop io) (others_connect io) CSP_PRIO_NORM server_address MY_SERVER_PORT 1000 CSP_O_NONE s;
     (case conn of
        None \<Rightarrow> Some (False, g, s)
      | Some n \<Rightarrow> do {
          g \<leftarrow> (if server_received g < 10 then do {
              v \<leftarrow> csp_conn_flags n s;
              a \<leftarrow> archive_put (server_received g) (of_int v) (flags_client g);
              Some (g\<lparr>flags_client := a\<rparr>)
            } else Some g);
          (ok, s) \<leftarrow> client_hello io n (ucast (client_count g)) s;
          (if \<not> ok then Some (False, g, s)
           else do {
             (_, s) \<leftarrow> csp_close (io_nexthop io) (Some n) s;
             Some (True, g\<lparr>client_count := client_count g + 1\<rparr>, s)
           })
        })
   }"

definition test_05_exit :: "test_05 \<Rightarrow> int" where
  "test_05_exit g = (if \<exists>i \<in> set [0..<10]. flags_client g ! i \<noteq> flags_server g ! i then 1 else 0)"

subsection \<open>The programs\<close>

text \<open>
  A round, and the start of \<^verbatim>\<open>main\<close> and of the server. The result of a round says whether the client goes on.
\<close>

definition test_round ::
  "('g \<Rightarrow> node \<Rightarrow> (bool \<times> 'g \<times> node) option) \<Rightarrow> (node \<Rightarrow> int csp) \<Rightarrow> ('g \<Rightarrow> node \<Rightarrow> ('g \<times> node) option) \<Rightarrow> 'g \<Rightarrow> node \<Rightarrow>
   (bool \<times> 'g \<times> node) option" where
  "test_round client router server g s = do {
     (go, g, s) \<leftarrow> client g s;
     (if \<not> go then Some (False, g, s)
      else do {
        (_, s) \<leftarrow> router s;
        (g, s) \<leftarrow> server g s;
        Some (True, g, s)
      })
   }"

primrec test_rounds ::
  "('g \<Rightarrow> node \<Rightarrow> (bool \<times> 'g \<times> node) option) \<Rightarrow> (node \<Rightarrow> int csp) \<Rightarrow> ('g \<Rightarrow> node \<Rightarrow> ('g \<times> node) option) \<Rightarrow> nat \<Rightarrow> 'g \<Rightarrow> node \<Rightarrow>
   ('g \<times> node) option" where
  "test_rounds client router server 0 g s = Some (g, s)"
| "test_rounds client router server (Suc n) g s = do {
     (go, g, s) \<leftarrow> test_round client router server g s;
     (if \<not> go then Some (g, s) else test_rounds client router server n g s)
   }"

definition test_main ::
  "nat \<Rightarrow> ('g \<Rightarrow> node \<Rightarrow> (bool \<times> 'g \<times> node) option) \<Rightarrow> (node \<Rightarrow> int csp) \<Rightarrow> (nat \<Rightarrow> 'g \<Rightarrow> node \<Rightarrow> ('g \<times> node) option) \<Rightarrow> nat \<Rightarrow> 'g \<Rightarrow> node \<Rightarrow>
   ('g \<times> node) option" where
  "test_main backlog client router server n g s = do {
     (_, s) \<leftarrow> csp_init s;
     (sock, s) \<leftarrow> server_socket backlog s;
     test_rounds client router (server sock) n g s
   }"

section \<open>Rounds\<close>

text \<open>
  What a round does, for a client that connects, sends the text and closes: \<open>i\<close> is the identifier of the packet the server
  reads, and \<open>port\<close> the source port of the client's connection. The loopback interface replaces the source address.
\<close>

definition arrived :: "io_env \<Rightarrow> u8 \<Rightarrow> u8 \<Rightarrow> csp_id_t" where
  "arrived io prio port = (probe_out io prio port)\<lparr>src := 0\<rparr>"

definition all_arrive :: "io_env \<Rightarrow> u8 \<Rightarrow> bool" where
  "all_arrive io prio \<longleftrightarrow> (\<forall>port. arrives io prio port)"

definition test_io :: "io_env \<Rightarrow> (nat \<Rightarrow> nat \<Rightarrow> node \<Rightarrow> unit csp) \<Rightarrow> bool" where
  "test_io io cb \<longleftrightarrow> plain_io io \<and> io_nexthop io = csp_lo_tx \<and> route_client csp_lo_tx cb"

lemma hello_round:
  assumes "quiet_node k s" "test_io io cb" "all_arrive io prio"
  obtains n s1 s2 s3 s4 m p port where
    "csp_connect csp_lo_tx (others_connect io) prio 0 MY_SERVER_PORT 1000 0 s = Some (Some n, s1)" "n < length (arr_conn s1)"
    "idin (arr_conn s1 ! n) = client_in prio port" "idout (arr_conn s1 ! n) = client_out prio port"
    "client_hello io n ch s1 = Some (True, s2)" "n < length (arr_conn s2)" "idin (arr_conn s2 ! n) = client_in prio port"
    "csp_close csp_lo_tx (Some n) s2 = Some (CSP_ERR_NONE, s3)" "csp_route_work csp_lo_tx cb s3 = Some (CSP_ERR_NONE, s4)"
    "\<And>hk receive g r. receives receive m p (arrived io prio port) g r \<Longrightarrow>
       (case r of None \<Rightarrow> server_turn io hk receive k g s4 = None
        | Some g' \<Rightarrow> \<exists>s'. server_turn io hk receive k g s4 = Some (g', s') \<and> quiet_node k s')"
proof -
  have io: "probe_read io = (\<lambda>b. b)" "others_read io = (\<lambda>s. s)" "io_nexthop io = csp_lo_tx" "route_client csp_lo_tx cb"
    using assms(2) by (simp_all add: test_io_def plain_io_def)
  have ar: "arrives io prio port" for port using assms(3) by (simp add: all_arrive_def)
  obtain n s1 s2 s3 p x where c: "csp_connect csp_lo_tx (others_connect io) prio 0 MY_SERVER_PORT 1000 0 s = Some (Some n, s1)"
    "n < length (arr_conn s1)" "idin (arr_conn s1 ! n) = client_in prio (of_nat (CSP_PORT_MAX_BIND + 1 + n))"
    "idout (arr_conn s1 ! n) = client_out prio (of_nat (CSP_PORT_MAX_BIND + 1 + n))" "client_hello io n ch s1 = Some (True, s2)"
    "n < length (arr_conn s2)" "idin (arr_conn s2 ! n) = client_in prio (of_nat (CSP_PORT_MAX_BIND + 1 + n))"
    "csp_close csp_lo_tx (Some n) s2 = Some (CSP_ERR_NONE, s3)" "sent k p x s3"
    "pid x = arrived io prio (of_nat (CSP_PORT_MAX_BIND + 1 + n))"
    unfolding arrived_def by (rule hello_client [OF assms(1) io(3) ar])
  have i: "dst (pid x) = 0" "dport (pid x) = MY_SERVER_PORT" "plain_flags (flags (pid x))"
    using ar unfolding c(10) by (simp_all add: arrived_def arrives_def)
  obtain m s4 where r: "csp_route_work csp_lo_tx cb s3 = Some (CSP_ERR_NONE, s4)" "delivered k m p x s4"
    by (rule hello_router [OF c(9) io(4) i])
  show ?thesis
    by (rule that [OF c(1-8) r(1)]) (rule hello_server [OF r(2) io(1,2) i(2,3), unfolded c(10)])
qed

lemma round_step:
  assumes "quiet_node k s" "test_io io cb" "all_arrive io prio"
    "\<And>n s1 s2 s3 port. csp_connect csp_lo_tx (others_connect io) prio 0 MY_SERVER_PORT 1000 0 s = Some (Some n, s1) \<Longrightarrow>
       n < length (arr_conn s1) \<Longrightarrow> idin (arr_conn s1 ! n) = client_in prio port \<Longrightarrow> idout (arr_conn s1 ! n) = client_out prio port \<Longrightarrow>
       client_hello io n ch s1 = Some (True, s2) \<Longrightarrow> n < length (arr_conn s2) \<Longrightarrow> idin (arr_conn s2 ! n) = client_in prio port \<Longrightarrow>
       csp_close csp_lo_tx (Some n) s2 = Some (CSP_ERR_NONE, s3) \<Longrightarrow> client g s = Some (True, h port, s3)"
    "\<And>port t. server (h port) t = server_turn io hk receive k (h port) t"
    "\<And>m p port. receives receive m p (arrived io prio port) (h port) (Some (h' port))"
  shows "\<exists>port s'. test_round client (csp_route_work csp_lo_tx cb) server g s = Some (True, h' port, s') \<and> quiet_node k s'"
proof (rule hello_round [OF assms(1-3), where ch = ch])
  fix n s1 s2 s3 s4 m p port
  assume c: "csp_connect csp_lo_tx (others_connect io) prio 0 MY_SERVER_PORT 1000 0 s = Some (Some n, s1)" "n < length (arr_conn s1)"
    "idin (arr_conn s1 ! n) = client_in prio port" "idout (arr_conn s1 ! n) = client_out prio port"
    "client_hello io n ch s1 = Some (True, s2)" "n < length (arr_conn s2)" "idin (arr_conn s2 ! n) = client_in prio port"
    "csp_close csp_lo_tx (Some n) s2 = Some (CSP_ERR_NONE, s3)"
    and r: "csp_route_work csp_lo_tx cb s3 = Some (CSP_ERR_NONE, s4)"
    and v: "\<And>hk receive (g :: 'a) r. receives receive m p (arrived io prio port) g r \<Longrightarrow>
       (case r of None \<Rightarrow> server_turn io hk receive k g s4 = None
        | Some g' \<Rightarrow> \<exists>s'. server_turn io hk receive k g s4 = Some (g', s') \<and> quiet_node k s')"
  obtain s' where "server_turn io hk receive k (h port) s4 = Some (h' port, s')" "quiet_node k s'"
    using v [OF assms(6), where hk = hk] by auto
  then show ?thesis using assms(4) [OF c] r assms(5) [of port s4] by (auto simp: test_round_def)
qed

text \<open>An invariant of the rounds: it holds after \<open>n\<close> of them.\<close>

lemma test_rounds_inv:
  assumes "\<And>i g s. i < N \<Longrightarrow> I i g \<Longrightarrow> quiet_node k s \<Longrightarrow>
      \<exists>g' s'. test_round c r v g s = Some (True, g', s') \<and> I (Suc i) g' \<and> quiet_node k s'"
    "i + n \<le> N" "I i g" "quiet_node k s"
  shows "\<exists>g' s'. (\<forall>m. test_rounds c r v (n + m) g s = test_rounds c r v m g' s') \<and> I (i + n) g' \<and> quiet_node k s'"
  using assms(2-4)
proof (induction n arbitrary: i g s)
  case 0
  then show ?case by (intro exI [of _ g] exI [of _ s]) simp
next
  case (Suc n)
  obtain g' s' where "test_round c r v g s = Some (True, g', s')" "I (Suc i) g'" "quiet_node k s'"
    using assms(1) [OF _ Suc.prems(2,3)] Suc.prems(1) by auto
  with Suc.IH [of "Suc i" g' s'] Suc.prems(1) show ?case by simp
qed

text \<open>Arrays after \<open>i\<close> rounds, by their rows: what the rounds wrote, and the initial values after it.\<close>

definition rows :: "(nat \<Rightarrow> 'r \<Rightarrow> bool) \<Rightarrow> 'r \<Rightarrow> nat \<Rightarrow> nat \<Rightarrow> (nat \<Rightarrow> 'r) \<Rightarrow> bool" where
  "rows P z cap i f \<longleftrightarrow> (\<forall>j < cap. if j < i then P j (f j) else f j = z)"

lemma rows_start: "(\<And>j. j < cap \<Longrightarrow> f j = z) \<Longrightarrow> rows P z cap 0 f"
  by (simp add: rows_def)

lemma rows_step: "rows P z cap i f \<Longrightarrow> (i < cap \<Longrightarrow> P i (f' i)) \<Longrightarrow> (\<And>j. j \<noteq> i \<Longrightarrow> f' j = f j) \<Longrightarrow> rows P z cap (Suc i) f'"
  by (fastforce simp: rows_def less_Suc_eq)

lemma rows_at: "rows P z cap n f \<Longrightarrow> j < cap \<Longrightarrow> if j < n then P j (f j) else f j = z"
  by (simp add: rows_def)

lemma replicate_same: "(replicate n x)[i := x] = replicate n x"
  by (cases "i < n") (simp_all add: list_update_same_conv list_update_beyond)

lemma unat_round: "i < 2 ^ 32 \<Longrightarrow> unat (of_nat i :: u32) = i"
  by (simp add: unat_of_nat)

subsection \<open>Test 05\<close>

definition inv_05 :: "io_env \<Rightarrow> nat \<Rightarrow> test_05 \<Rightarrow> bool" where
  "inv_05 io n g \<longleftrightarrow> server_received g = of_nat n \<and> flags_client g = replicate 10 0 \<and> length (flags_server g) = 10 \<and>
     rows (\<lambda>_ v. \<exists>port. v = flags (probe_out io CSP_PRIO_NORM port)) 0 10 n ((!) (flags_server g))"

lemma same_05:
  "g\<lparr>flags_server := flags_server g, server_received := v\<rparr> = g\<lparr>server_received := v\<rparr>"
  "g\<lparr>flags_client := flags_client g, client_count := v\<rparr> = g\<lparr>client_count := v\<rparr>" for g :: test_05
  by (cases g; simp)+

lemma receive_05:
  assumes "length (flags_server g) = 10"
  shows "receives test_05_receive m p i g
    (Some (g\<lparr>flags_server := (flags_server g)[unat (server_received g) := flags i], server_received := server_received g + 1\<rparr>))"
  using assms by (auto simp: receives_def test_05_receive_def csp_conn_flags_def get_conn_eq archive_put_def word_less_nat_alt same_05 list_update_beyond)

lemma client_05:
  assumes "csp_connect csp_lo_tx (others_connect io) CSP_PRIO_NORM 0 MY_SERVER_PORT 1000 0 s = Some (Some n, s1)" "n < length (arr_conn s1)"
    "idin (arr_conn s1 ! n) = client_in CSP_PRIO_NORM port" "client_hello io n (ucast (client_count g)) s1 = Some (True, s2)"
    "csp_close csp_lo_tx (Some n) s2 = Some (r, s3)" "io_nexthop io = csp_lo_tx" "length (flags_client g) = 10"
  shows "test_05_client io g s = Some (True, g\<lparr>flags_client := (flags_client g)[unat (server_received g) := 0],
    client_count := client_count g + 1\<rparr>, s3)"
  using assms by (simp add: test_05_client_def csp_conn_flags_def get_conn_eq archive_put_def word_less_nat_alt client_in_def same_05 list_update_beyond)

lemma round_05:
  assumes "test_io io cb" "all_arrive io CSP_PRIO_NORM" "i < 2 ^ 32 - 1" "inv_05 io i g" "quiet_node k s"
  shows "\<exists>g' s'. test_round (test_05_client io) (csp_route_work csp_lo_tx cb) (test_05_server io hk k) g s = Some (True, g', s') \<and>
    inv_05 io (Suc i) g' \<and> quiet_node k s'"
proof -
  have io: "io_nexthop io = csp_lo_tx" using assms(1) by (simp add: test_io_def)
  have g: "server_received g = of_nat i" "flags_client g = replicate 10 0" "length (flags_server g) = 10"
    "rows (\<lambda>_ v. \<exists>port. v = flags (probe_out io CSP_PRIO_NORM port)) 0 10 i ((!) (flags_server g))"
    using assms(4) by (simp_all add: inv_05_def)
  have u: "unat (of_nat i :: u32) = i" using assms(3) by (simp add: unat_round)
  let ?g = "g\<lparr>flags_client := (flags_client g)[unat (server_received g) := 0], client_count := client_count g + 1\<rparr>"
  let ?h = "\<lambda>port. ?g\<lparr>flags_server := (flags_server ?g)[unat (server_received ?g) := flags (arrived io CSP_PRIO_NORM port)],
    server_received := server_received ?g + 1\<rparr>"
  have "\<exists>port s'. test_round (test_05_client io) (csp_route_work csp_lo_tx cb) (test_05_server io hk k) g s = Some (True, ?h port, s') \<and>
      quiet_node k s'"
  proof (rule round_step [OF assms(5,1,2), where ch = "ucast (client_count g)" and h = "\<lambda>_. ?g" and hk = hk and receive = test_05_receive])
    show "receives test_05_receive m p (arrived io CSP_PRIO_NORM port) ?g (Some (?h port))" for m p port by (rule receive_05) (simp add: g(3))
    show "test_05_server io hk k ?g t = server_turn io hk test_05_receive k ?g t" for t by (simp add: test_05_server_def)
  qed (rule client_05, (assumption | simp add: io g(2))+)
  then obtain port s' where run: "test_round (test_05_client io) (csp_route_work csp_lo_tx cb) (test_05_server io hk k) g s = Some (True, ?h port, s')"
    "quiet_node k s'" by blast
  have "rows (\<lambda>_ v. \<exists>port. v = flags (probe_out io CSP_PRIO_NORM port)) 0 10 (Suc i) ((!) (flags_server (?h port)))"
    by (rule rows_step [OF g(4)]) (use g(1,3) u in \<open>auto simp: arrived_def\<close>)
  then have "inv_05 io (Suc i) (?h port)" using g(1-3) replicate_same [of 10 "0 :: u8"] by (simp add: inv_05_def)
  then show ?thesis using run by blast
qed

text \<open>The runs of a program, from its invariant.\<close>

lemma test_main_run:
  assumes "\<And>i g s. i < N \<Longrightarrow> I i g \<Longrightarrow> quiet_node 0 s \<Longrightarrow>
      \<exists>g' s'. test_round c r (v 0) g s = Some (True, g', s') \<and> I (Suc i) g' \<and> quiet_node 0 s'" "I 0 g" "n \<le> N"
  obtains g' s' where "\<And>m. test_main backlog c r v (n + m) g test_node = test_rounds c r (v 0) m g' s'" "I n g'" "quiet_node 0 s'"
proof -
  obtain s1 s2 where s: "csp_init test_node = Some ((), s1)" "server_socket backlog s1 = Some (0, s2)" "quiet_node 0 s2" by (rule test_start)
  from test_rounds_inv [where N = N and I = I and i = 0 and n = n, OF assms(1) _ assms(2) s(3)] assms(3) obtain g' s' where
    "\<forall>m. test_rounds c r (v 0) (n + m) g s2 = test_rounds c r (v 0) m g' s'" "I n g'" "quiet_node 0 s'" by auto
  then show ?thesis using that s(1,2) by (simp add: test_main_def)
qed

subsection \<open>Test 04\<close>

definition cells_04 :: "test_04 \<Rightarrow> nat \<Rightarrow> int \<times> int \<times> int \<times> int" where
  "cells_04 g j = (sport_server_archive g ! j, dport_server_archive g ! j, sport_client_archive g ! j, dport_client_archive g ! j)"

definition row_04 :: "io_env \<Rightarrow> nat \<Rightarrow> int \<times> int \<times> int \<times> int \<Rightarrow> bool" where
  "row_04 io j r \<longleftrightarrow> (\<exists>port. r = (uint (sport (probe_out io CSP_PRIO_NORM port)), 10, 10, uint port))"

definition inv_04 :: "io_env \<Rightarrow> nat \<Rightarrow> test_04 \<Rightarrow> bool" where
  "inv_04 io n g \<longleftrightarrow> server_received g = of_nat n \<and> client_sent_4 g = of_nat n \<and>
     length (sport_server_archive g) = 10 \<and> length (dport_server_archive g) = 10 \<and>
     length (sport_client_archive g) = 10 \<and> length (dport_client_archive g) = 10 \<and>
     rows (row_04 io) (0, 0, 0, 0) 10 n (cells_04 g)"

lemma receive_04:
  assumes "length (sport_server_archive g) = 10" "length (dport_server_archive g) = 10" "unat (server_received g) < 10"
  shows "receives test_04_receive m p i g
    (Some (g\<lparr>sport_server_archive := (sport_server_archive g)[unat (server_received g) := uint (sport i)],
       dport_server_archive := (dport_server_archive g)[unat (server_received g) := uint (dport i)], server_received := server_received g + 1\<rparr>))"
  using assms by (auto simp: receives_def test_04_receive_def csp_conn_sport_def csp_conn_dport_def get_conn_eq archive_put_def word_le_nat_alt)

lemma client_04:
  assumes "csp_connect csp_lo_tx (others_connect io) CSP_PRIO_NORM 0 MY_SERVER_PORT 1000 0 s = Some (Some n, s1)"
    "client_hello io n (ucast (client_count g)) s1 = Some (True, s2)" "n < length (arr_conn s2)"
    "idin (arr_conn s2 ! n) = client_in CSP_PRIO_NORM port"
    "csp_close csp_lo_tx (Some n) s2 = Some (r, s3)" "io_nexthop io = csp_lo_tx"
    "length (sport_client_archive g) = 10" "length (dport_client_archive g) = 10"
  shows "unat (client_sent_4 g) < 10 \<Longrightarrow> test_04_client io g s = Some (True,
      g\<lparr>sport_client_archive := (sport_client_archive g)[unat (client_sent_4 g) := 10],
        dport_client_archive := (dport_client_archive g)[unat (client_sent_4 g) := uint port],
        client_count := client_count g + 1, client_sent_4 := client_sent_4 g + 1\<rparr>, s3)"
    "client_sent_4 g = 10 \<Longrightarrow> test_04_client io g s = None"
  using assms by (simp_all add: test_04_client_def csp_conn_sport_def csp_conn_dport_def get_conn_eq archive_put_def word_le_nat_alt
      client_in_def MY_SERVER_PORT_def)

lemma round_04:
  assumes "test_io io cb" "all_arrive io CSP_PRIO_NORM" "i < 10" "inv_04 io i g" "quiet_node k s"
  shows "\<exists>g' s'. test_round (test_04_client io) (csp_route_work csp_lo_tx cb) (test_04_server io hk k) g s = Some (True, g', s') \<and>
    inv_04 io (Suc i) g' \<and> quiet_node k s'"
proof -
  have io: "io_nexthop io = csp_lo_tx" using assms(1) by (simp add: test_io_def)
  have g: "server_received g = of_nat i" "client_sent_4 g = of_nat i"
    "length (sport_server_archive g) = 10" "length (dport_server_archive g) = 10"
    "length (sport_client_archive g) = 10" "length (dport_client_archive g) = 10" "rows (row_04 io) (0, 0, 0, 0) 10 i (cells_04 g)"
    using assms(4) unfolding inv_04_def by blast+
  have u: "unat (of_nat i :: u32) = i" using assms(3) by (simp add: unat_round)
  let ?g = "\<lambda>port. g\<lparr>sport_client_archive := (sport_client_archive g)[unat (client_sent_4 g) := 10],
    dport_client_archive := (dport_client_archive g)[unat (client_sent_4 g) := uint port],
    client_count := client_count g + 1, client_sent_4 := client_sent_4 g + 1\<rparr>"
  let ?h = "\<lambda>port. (?g port)\<lparr>sport_server_archive := (sport_server_archive (?g port))[unat (server_received (?g port)) := uint (sport (arrived io CSP_PRIO_NORM port))],
    dport_server_archive := (dport_server_archive (?g port))[unat (server_received (?g port)) := uint (dport (arrived io CSP_PRIO_NORM port))],
    server_received := server_received (?g port) + 1\<rparr>"
  have "\<exists>port s'. test_round (test_04_client io) (csp_route_work csp_lo_tx cb) (test_04_server io hk k) g s = Some (True, ?h port, s') \<and>
      quiet_node k s'"
  proof (rule round_step [OF assms(5,1,2), where ch = "ucast (client_count g)" and h = ?g and hk = hk and receive = test_04_receive])
    show "receives test_04_receive m p (arrived io CSP_PRIO_NORM port) (?g port) (Some (?h port))" for m p port
      by (rule receive_04) (use g u assms(3) in simp_all)
    show "test_04_server io hk k (?g port) t = server_turn io hk test_04_receive k (?g port) t" for port t by (simp add: test_04_server_def)
  qed (rule client_04(1), (assumption | simp add: io g u assms(3))+)
  then obtain port s' where run: "test_round (test_04_client io) (csp_route_work csp_lo_tx cb) (test_04_server io hk k) g s = Some (True, ?h port, s')"
    "quiet_node k s'" by blast
  have d: "dport (probe_out io CSP_PRIO_NORM port) = MY_SERVER_PORT" using assms(2) by (simp add: all_arrive_def arrives_def)
  have "cells_04 (?h port) i = (uint (sport (probe_out io CSP_PRIO_NORM port)), 10, 10, uint port)"
    using g(1-6) u d assms(3) by (simp add: cells_04_def arrived_def MY_SERVER_PORT_def)
  then have "row_04 io i (cells_04 (?h port) i)" unfolding row_04_def by blast
  moreover have "cells_04 (?h port) j = cells_04 g j" if "j \<noteq> i" for j using g(1,2) u that by (simp add: cells_04_def)
  ultimately have "rows (row_04 io) (0, 0, 0, 0) 10 (Suc i) (cells_04 (?h port))" using rows_step [OF g(7)] by blast
  moreover have "server_received (?h port) = of_nat (Suc i)" "client_sent_4 (?h port) = of_nat (Suc i)" using g(1,2) by simp_all
  moreover have "length (sport_server_archive (?h port)) = 10" "length (dport_server_archive (?h port)) = 10"
    "length (sport_client_archive (?h port)) = 10" "length (dport_client_archive (?h port)) = 10" using g(3-6) by simp_all
  ultimately have "inv_04 io (Suc i) (?h port)" by (simp only: inv_04_def)
  then show ?thesis using run by blast
qed

lemma round_04_overflow:
  assumes "test_io io cb" "all_arrive io CSP_PRIO_NORM" "inv_04 io 10 g" "quiet_node k s"
  shows "test_round (test_04_client io) r v g s = None"
proof (rule hello_round [OF assms(4,1,2), where ch = "ucast (client_count g)"])
  have io: "io_nexthop io = csp_lo_tx" using assms(1) by (simp add: test_io_def)
  have g: "client_sent_4 g = 10" "length (sport_client_archive g) = 10" "length (dport_client_archive g) = 10"
    using assms(3) by (simp_all add: inv_04_def)
  fix n s1 s2 s3 port
  assume "csp_connect csp_lo_tx (others_connect io) CSP_PRIO_NORM 0 MY_SERVER_PORT 1000 0 s = Some (Some n, s1)"
    "client_hello io n (ucast (client_count g)) s1 = Some (True, s2)" "n < length (arr_conn s2)"
    "idin (arr_conn s2 ! n) = client_in CSP_PRIO_NORM port" "csp_close csp_lo_tx (Some n) s2 = Some (CSP_ERR_NONE, s3)"
  from client_04(2) [OF this io g(2,3,1)] show ?thesis by (simp add: test_round_def)
qed

subsection \<open>Test 02\<close>

definition cells_02 :: "test_02 \<Rightarrow> nat \<Rightarrow> int \<times> int" where
  "cells_02 g j = (sent_priorities g ! j, read_priorities g ! j)"

definition row_02 :: "io_env \<Rightarrow> nat \<Rightarrow> int \<times> int \<Rightarrow> bool" where
  "row_02 io j r \<longleftrightarrow> (\<exists>port. r = (uint (test_02_prio (of_nat j)), uint (pri (probe_out io (test_02_prio (of_nat j)) port))))"

definition inv_02 :: "io_env \<Rightarrow> nat \<Rightarrow> test_02 \<Rightarrow> bool" where
  "inv_02 io n g \<longleftrightarrow> server_received g = of_nat n \<and> packet_sent g = of_nat n \<and>
     length (sent_priorities g) = 5 \<and> length (read_priorities g) = 5 \<and> length (read_priorities_idout g) = 5 \<and>
     rows (row_02 io) (0, 0) 5 n (cells_02 g)"

lemma receive_02:
  assumes "length (read_priorities g) = 5" "length (read_priorities_idout g) = 5" "unat (server_received g) < 5"
  shows "receives test_02_receive m p i g
    (Some (g\<lparr>server_received := server_received g + 1, read_priorities := (read_priorities g)[unat (server_received g) := uint (pri i)],
       read_priorities_idout := (read_priorities_idout g)[unat (server_received g) := uint (pri i)]\<rparr>))"
  using assms by (auto simp: receives_def test_02_receive_def csp_conn_pri_faqas_def csp_conn_pri_out_faqas_def get_conn_eq archive_put_def reply_id_def)

lemma client_02:
  assumes "csp_connect csp_lo_tx (others_connect io) (test_02_prio (packet_sent g)) 0 MY_SERVER_PORT 1000 0 s = Some (Some n, s1)"
    "client_hello io n (ucast (client_count g)) s1 = Some (True, s2)" "csp_close csp_lo_tx (Some n) s2 = Some (r, s3)"
    "io_nexthop io = csp_lo_tx" "length (sent_priorities g) = 5" "unat (packet_sent g) < 5"
  shows "test_02_client io g s = Some (True,
      g\<lparr>sent_priorities := (sent_priorities g)[unat (packet_sent g) := uint (test_02_prio (packet_sent g))],
        client_count := client_count g + 1, packet_sent := packet_sent g + 1\<rparr>, s3)"
  using assms by (simp add: test_02_client_def archive_put_def word_less_nat_alt)

lemma round_02:
  assumes "test_io io cb" "\<forall>j < 5. all_arrive io (test_02_prio (of_nat j))" "i < 5" "inv_02 io i g" "quiet_node k s"
  shows "\<exists>g' s'. test_round (test_02_client io) (csp_route_work csp_lo_tx cb) (test_02_server io hk k) g s = Some (True, g', s') \<and>
    inv_02 io (Suc i) g' \<and> quiet_node k s'"
proof -
  have io: "io_nexthop io = csp_lo_tx" using assms(1) by (simp add: test_io_def)
  have g: "server_received g = of_nat i" "packet_sent g = of_nat i" "length (sent_priorities g) = 5" "length (read_priorities g) = 5"
    "length (read_priorities_idout g) = 5" "rows (row_02 io) (0, 0) 5 i (cells_02 g)"
    using assms(4) unfolding inv_02_def by blast+
  have u: "unat (of_nat i :: u32) = i" using assms(3) by (simp add: unat_round)
  let ?q = "test_02_prio (packet_sent g)"
  have ar: "all_arrive io ?q" using assms(2,3) g(2) by simp
  let ?g = "g\<lparr>sent_priorities := (sent_priorities g)[unat (packet_sent g) := uint ?q],
    client_count := client_count g + 1, packet_sent := packet_sent g + 1\<rparr>"
  let ?h = "\<lambda>port. ?g\<lparr>server_received := server_received ?g + 1,
    read_priorities := (read_priorities ?g)[unat (server_received ?g) := uint (pri (arrived io ?q port))],
    read_priorities_idout := (read_priorities_idout ?g)[unat (server_received ?g) := uint (pri (arrived io ?q port))]\<rparr>"
  have "\<exists>port s'. test_round (test_02_client io) (csp_route_work csp_lo_tx cb) (test_02_server io hk k) g s = Some (True, ?h port, s') \<and>
      quiet_node k s'"
  proof (rule round_step [OF assms(5,1) ar, where ch = "ucast (client_count g)" and h = "\<lambda>_. ?g" and hk = hk and receive = test_02_receive])
    show "receives test_02_receive m p (arrived io ?q port) ?g (Some (?h port))" for m p port
      by (rule receive_02) (use g u assms(3) in simp_all)
    show "test_02_server io hk k ?g t = server_turn io hk test_02_receive k ?g t" for t by (simp add: test_02_server_def)
  qed (rule client_02, (assumption | simp add: io g u assms(3))+)
  then obtain port s' where run: "test_round (test_02_client io) (csp_route_work csp_lo_tx cb) (test_02_server io hk k) g s = Some (True, ?h port, s')"
    "quiet_node k s'" by blast
  have "cells_02 (?h port) i = (uint (test_02_prio (of_nat i)), uint (pri (probe_out io (test_02_prio (of_nat i)) port)))"
    using g(1-5) u assms(3) by (simp add: cells_02_def arrived_def)
  then have "row_02 io i (cells_02 (?h port) i)" unfolding row_02_def by blast
  moreover have "cells_02 (?h port) j = cells_02 g j" if "j \<noteq> i" for j using g(1,2) u that by (simp add: cells_02_def)
  ultimately have "rows (row_02 io) (0, 0) 5 (Suc i) (cells_02 (?h port))" using rows_step [OF g(6)] by blast
  moreover have "server_received (?h port) = of_nat (Suc i)" "packet_sent (?h port) = of_nat (Suc i)" using g(1,2) by simp_all
  moreover have "length (sent_priorities (?h port)) = 5" "length (read_priorities (?h port)) = 5"
    "length (read_priorities_idout (?h port)) = 5" using g(3-5) by simp_all
  ultimately have "inv_02 io (Suc i) (?h port)" by (simp only: inv_02_def)
  then show ?thesis using run by blast
qed

text \<open>A client that has sent its packets ends, and the rounds with it.\<close>

lemma rounds_ended: "c g s = Some (False, g, s) \<Longrightarrow> test_rounds c r v m g s = Some (g, s)"
  by (cases m) (simp_all add: test_round_def)

subsection \<open>Test 03\<close>

definition inv_03 :: "nat \<Rightarrow> test_03 \<Rightarrow> bool" where
  "inv_03 n g \<longleftrightarrow> server_received g = of_nat n \<and> client_sent_3 g = of_nat n \<and>
     (\<forall>xs \<in> {sent_idin_src g, read_idin_src g, sent_idin_dst g, read_idin_dst g, sent_idout_src g, read_idout_src g, sent_idout_dst g, read_idout_dst g}.
       xs = replicate 5 0)"

lemma client_hello_parts:
  assumes "client_hello io n ch s1 = Some (True, s2)"
  obtains p s' x y u where "csp_buffer_get 100 s1 = Some (Some p, s')" "get_packet p s' = Some x" "hello_packet ch x = Some y"
    "csp_send (probe_send io) (io_nexthop io) (others_send io) (Some n) (Some p) (put_packet p y s') = Some (u, s2)"
    "arr_conn (put_packet p y s') = arr_conn s1"
proof -
  obtain b s' where b: "csp_buffer_get 100 s1 = Some (b, s')" using assms by (auto simp: client_hello_def bind_Some_iff)
  then obtain p where p: "b = Some p" using assms by (cases b) (auto simp: client_hello_def)
  have "arr_conn s' = arr_conn s1" using send_frame_fields [OF buffer_get_frame [OF b]] by simp
  then show ?thesis using that b assms unfolding p by (auto simp: client_hello_def bind_Some_iff)
qed

lemma receive_03:
  assumes "read_idin_src g = replicate 5 0" "read_idin_dst g = replicate 5 0" "read_idout_src g = replicate 5 0" "unat (server_received g) < 5"
    "src i = 0" "dst i = 0"
  shows "receives test_03_receive m p i g (Some (g\<lparr>server_received := server_received g + 1,
    read_idin_src := replicate 5 0, read_idin_dst := replicate 5 0, read_idout_src := replicate 5 0\<rparr>))"
proof -
  have r: "(replicate 5 (0 :: int))[j := 0] = replicate 5 0" for j by (rule replicate_same)
  show ?thesis unfolding receives_def
  proof (intro allI impI)
    fix t :: node assume t: "m < length (arr_conn t) \<and> idin (arr_conn t ! m) = i \<and> idout (arr_conn t ! m) = reply_id i"
    show "test_03_receive m p g t = (case Some (g\<lparr>server_received := server_received g + 1, read_idin_src := replicate 5 0,
      read_idin_dst := replicate 5 0, read_idout_src := replicate 5 0\<rparr>) of None \<Rightarrow> None | Some g' \<Rightarrow> do { (_, t') \<leftarrow> csp_buffer_free (Some p) t; Some (g', t') })"
      using t assms r by (simp add: test_03_receive_def csp_conn_src_def csp_conn_dst_def csp_conn_dst_out_def csp_conn_src_out_def get_conn_eq
          archive_put_def reply_id_def)
  qed
qed

lemma client_03:
  assumes "csp_connect csp_lo_tx (others_connect io) CSP_PRIO_NORM 0 MY_SERVER_PORT 1000 0 s = Some (Some n, s1)" "n < length (arr_conn s1)"
    "idin (arr_conn s1 ! n) = client_in CSP_PRIO_NORM port" "idout (arr_conn s1 ! n) = client_out CSP_PRIO_NORM port"
    "client_hello io n (ucast (client_count g)) s1 = Some (True, s2)" "csp_close csp_lo_tx (Some n) s2 = Some (r, s3)"
    "io_nexthop io = csp_lo_tx" "sent_idin_src g = replicate 5 0" "sent_idin_dst g = replicate 5 0" "sent_idout_src g = replicate 5 0"
    "unat (server_received g) < 5" "client_sent_3 g < 5"
  shows "test_03_client io g s = Some (True, g\<lparr>client_count := client_count g + 1, client_sent_3 := client_sent_3 g + 1,
    sent_idin_src := replicate 5 0, sent_idin_dst := replicate 5 0, sent_idout_src := replicate 5 0\<rparr>, s3)"
proof -
  obtain p s' x y u where h: "csp_buffer_get 100 s1 = Some (Some p, s')" "get_packet p s' = Some x" "hello_packet (ucast (client_count g)) x = Some y"
    "csp_send (probe_send io) (io_nexthop io) (others_send io) (Some n) (Some p) (put_packet p y s') = Some (u, s2)"
    "arr_conn (put_packet p y s') = arr_conn s1" by (rule client_hello_parts [OF assms(5)])
  have r: "(replicate 5 (0 :: int))[j := 0] = replicate 5 0" for j by (rule replicate_same)
  have c: "get_conn n (put_packet p y s') = Some (arr_conn s1 ! n)" using assms(2) h(5) by (simp add: get_conn_eq)
  show ?thesis using assms(1,3,4,6-) h(1-4) c r
    by (simp add: test_03_client_def csp_conn_src_def csp_conn_dst_def csp_conn_dst_out_def csp_conn_src_out_def archive_put_def client_in_def client_out_def)
qed

lemma round_03:
  assumes "test_io io cb" "all_arrive io CSP_PRIO_NORM" "i < 5" "inv_03 i g" "quiet_node k s"
  shows "\<exists>g' s'. test_round (test_03_client io) (csp_route_work csp_lo_tx cb) (test_03_server io hk k) g s = Some (True, g', s') \<and>
    inv_03 (Suc i) g' \<and> quiet_node k s'"
proof -
  have io: "io_nexthop io = csp_lo_tx" using assms(1) by (simp add: test_io_def)
  have g: "server_received g = of_nat i" "client_sent_3 g = of_nat i" "sent_idin_src g = replicate 5 0" "read_idin_src g = replicate 5 0"
    "sent_idin_dst g = replicate 5 0" "read_idin_dst g = replicate 5 0" "sent_idout_src g = replicate 5 0" "read_idout_src g = replicate 5 0"
    "sent_idout_dst g = replicate 5 0" "read_idout_dst g = replicate 5 0"
    using assms(4) unfolding inv_03_def by blast+
  have u: "unat (of_nat i :: u32) = i" using assms(3) by (simp add: unat_round)
  have lt: "(of_nat i :: u32) < 5" using u assms(3) by (simp add: word_less_nat_alt)
  let ?g = "g\<lparr>client_count := client_count g + 1, client_sent_3 := client_sent_3 g + 1,
    sent_idin_src := replicate 5 0, sent_idin_dst := replicate 5 0, sent_idout_src := replicate 5 0\<rparr>"
  let ?h = "?g\<lparr>server_received := server_received ?g + 1, read_idin_src := replicate 5 0, read_idin_dst := replicate 5 0,
    read_idout_src := replicate 5 0\<rparr>"
  have d: "dst (arrived io CSP_PRIO_NORM port) = 0" "src (arrived io CSP_PRIO_NORM port) = 0" for port
    using assms(2) by (simp_all add: all_arrive_def arrives_def arrived_def)
  have "\<exists>(port :: u8) s'. test_round (test_03_client io) (csp_route_work csp_lo_tx cb) (test_03_server io hk k) g s = Some (True, ?h, s') \<and> quiet_node k s'"
  proof (rule round_step [OF assms(5,1,2), where ch = "ucast (client_count g)" and h = "\<lambda>_. ?g" and h' = "\<lambda>_. ?h" and hk = hk and receive = test_03_receive])
    show "receives test_03_receive m p (arrived io CSP_PRIO_NORM port) ?g (Some ?h)" for m p port
      by (rule receive_03) (use g u d assms(3) in simp_all)
    show "test_03_server io hk k ?g t = server_turn io hk test_03_receive k ?g t" for t using g(1) lt by (simp add: test_03_server_def)
  qed (rule client_03, (assumption | simp add: io g u lt assms(3))+)
  then obtain s' where run: "test_round (test_03_client io) (csp_route_work csp_lo_tx cb) (test_03_server io hk k) g s = Some (True, ?h, s')"
    "quiet_node k s'" by blast
  have "inv_03 (Suc i) ?h" using g by (simp add: inv_03_def)
  then show ?thesis using run by blast
qed

section \<open>Properties\<close>

text \<open>Test 05 checks the flags: with a mutation that lets the packets arrive as plain packets, every number of rounds runs and
  each delivers its packet; the verdict is 0 if the flags stay zero (or nothing was sent), and 1 if each packet's are changed.\<close>

theorem test_05_verdict:
  assumes "test_io io cb" "all_arrive io CSP_PRIO_NORM" "n < 2 ^ 32"
  shows "\<exists>g s. test_main 10 (test_05_client io) (csp_route_work csp_lo_tx cb) (test_05_server io hk) n test_05_start test_node = Some (g, s) \<and>
    server_received g = of_nat n \<and> ((\<forall>port. flags (probe_out io CSP_PRIO_NORM port) = 0) \<or> n = 0 \<longrightarrow> test_05_exit g = 0) \<and>
    ((\<forall>port. flags (probe_out io CSP_PRIO_NORM port) \<noteq> 0) \<and> 0 < n \<longrightarrow> test_05_exit g = 1)"
proof -
  have start: "inv_05 io 0 test_05_start" by (simp add: inv_05_def test_05_start_def rows_start)
  have n: "n \<le> 2 ^ 32 - 1" using assms(3) by simp
  obtain g s where r: "\<And>m. test_main 10 (test_05_client io) (csp_route_work csp_lo_tx cb) (test_05_server io hk) (n + m) test_05_start test_node =
      test_rounds (test_05_client io) (csp_route_work csp_lo_tx cb) (test_05_server io hk 0) m g s" and inv: "inv_05 io n g"
    by (rule test_main_run [where I = "inv_05 io" and N = "2 ^ 32 - 1" and v = "test_05_server io hk" and backlog = 10,
        OF round_05 [OF assms(1,2)] start n]) (assumption | rule that)+
  have run: "test_main 10 (test_05_client io) (csp_route_work csp_lo_tx cb) (test_05_server io hk) n test_05_start test_node = Some (g, s)"
    using r [of 0] by simp
  have c: "flags_client g ! i = 0" if "i < 10" for i using inv that by (simp add: inv_05_def)
  have v: "if i < n then \<exists>port. flags_server g ! i = flags (probe_out io CSP_PRIO_NORM port) else flags_server g ! i = 0" if "i < 10" for i
    using inv that rows_at unfolding inv_05_def by fast
  have "test_05_exit g = 0" if "(\<forall>port. flags (probe_out io CSP_PRIO_NORM port) = 0) \<or> n = 0"
    using c v that by (fastforce simp: test_05_exit_def split: if_splits simp del: upt_rec_numeral)
  moreover have "test_05_exit g = 1" if "\<forall>port. flags (probe_out io CSP_PRIO_NORM port) \<noteq> 0" "0 < n"
  proof -
    have "flags_client g ! 0 \<noteq> flags_server g ! 0" using c [of 0] v [of 0] that by fastforce
    then show ?thesis by (auto simp: test_05_exit_def simp del: upt_rec_numeral)
  qed
  moreover have "server_received g = of_nat n" using inv by (simp add: inv_05_def)
  ultimately show ?thesis using run by blast
qed

text \<open>C32: Test 04 checks the ports. If the mutated packets are still for the server, with its address and port and without a flag for RDP, checksum or
  authentication (\<open>all_arrive\<close>), then ten rounds at most run, each delivers its packet, and the verdict is 0 if the mutation keeps the
  source port (or nothing was sent) and 1 if it changes it in each packet. With more than ten rounds the client writes behind its
  arrays of ten, and the program has no meaning.\<close>

theorem test_04_verdict:
  assumes "test_io io cb" "all_arrive io CSP_PRIO_NORM"
  shows "(\<forall>n \<le> 10. \<exists>g s. test_main 10 (test_04_client io) (csp_route_work csp_lo_tx cb) (test_04_server io hk) n test_04_start test_node = Some (g, s) \<and>
      server_received g = of_nat n \<and> ((\<forall>port. sport (probe_out io CSP_PRIO_NORM port) = port) \<or> n = 0 \<longrightarrow> test_04_exit g = 0) \<and>
      ((\<forall>port. sport (probe_out io CSP_PRIO_NORM port) \<noteq> port) \<and> 0 < n \<longrightarrow> test_04_exit g = 1)) \<and>
    (\<forall>n > 10. test_main 10 (test_04_client io) (csp_route_work csp_lo_tx cb) (test_04_server io hk) n test_04_start test_node = None)"
proof -
  let ?main = "\<lambda>n. test_main 10 (test_04_client io) (csp_route_work csp_lo_tx cb) (test_04_server io hk) n test_04_start test_node"
  have start: "inv_04 io 0 test_04_start" by (simp add: inv_04_def test_04_start_def rows_start cells_04_def)
  have runs: "\<exists>g s. (\<forall>m. ?main (n + m) = test_rounds (test_04_client io) (csp_route_work csp_lo_tx cb) (test_04_server io hk 0) m g s) \<and>
      inv_04 io n g \<and> quiet_node 0 s" if n: "n \<le> 10" for n
  proof -
    obtain g s where "\<And>m. ?main (n + m) = test_rounds (test_04_client io) (csp_route_work csp_lo_tx cb) (test_04_server io hk 0) m g s"
      "inv_04 io n g" "quiet_node 0 s"
      by (rule test_main_run [where I = "inv_04 io" and N = 10 and v = "test_04_server io hk" and backlog = 10,
          OF round_04 [OF assms] start n]) (assumption | rule that)+
    then show ?thesis by blast
  qed
  have le: "\<exists>g s. ?main n = Some (g, s) \<and> server_received g = of_nat n \<and>
      ((\<forall>port. sport (probe_out io CSP_PRIO_NORM port) = port) \<or> n = 0 \<longrightarrow> test_04_exit g = 0) \<and>
      ((\<forall>port. sport (probe_out io CSP_PRIO_NORM port) \<noteq> port) \<and> 0 < n \<longrightarrow> test_04_exit g = 1)" if "n \<le> 10" for n
  proof -
    obtain g s where r: "\<And>m. ?main (n + m) = test_rounds (test_04_client io) (csp_route_work csp_lo_tx cb) (test_04_server io hk 0) m g s"
      and inv: "inv_04 io n g" using runs [OF \<open>n \<le> 10\<close>] by blast
    have rw: "rows (row_04 io) (0, 0, 0, 0) 10 n (cells_04 g)" using inv unfolding inv_04_def by blast
    have v: "if j < n then row_04 io j (cells_04 g j) else cells_04 g j = (0, 0, 0, 0)" if "j < 10" for j by (rule rows_at [OF rw that])
    have "test_04_exit g = 0" if keep: "(\<forall>port. sport (probe_out io CSP_PRIO_NORM port) = port) \<or> n = 0"
    proof -
      have "sport_server_archive g ! j = dport_client_archive g ! j \<and> dport_server_archive g ! j = sport_client_archive g ! j" if j: "j < 10" for j
      proof (cases "j < n")
        case True
        then have "row_04 io j (cells_04 g j)" using v [OF j] by (simp only: if_True)
        then obtain port where "cells_04 g j = (uint (sport (probe_out io CSP_PRIO_NORM port)), 10, 10, uint port)" unfolding row_04_def by blast
        then show ?thesis using keep True by (simp add: cells_04_def)
      next
        case False
        then show ?thesis using v [OF j] by (simp add: cells_04_def)
      qed
      then show ?thesis by (simp add: test_04_exit_def del: upt_rec_numeral)
    qed
    moreover have "test_04_exit g = 1" if other: "\<forall>port. sport (probe_out io CSP_PRIO_NORM port) \<noteq> port" "0 < n"
    proof -
      have "row_04 io 0 (cells_04 g 0)" using v [of 0] other(2) by (simp only: if_True)
      then obtain port where "cells_04 g 0 = (uint (sport (probe_out io CSP_PRIO_NORM port)), 10, 10, uint port)" unfolding row_04_def by blast
      then have "sport_server_archive g ! 0 \<noteq> dport_client_archive g ! 0" using other(1) by (simp add: cells_04_def word_uint_eq_iff [symmetric])
      then show ?thesis by (auto simp: test_04_exit_def simp del: upt_rec_numeral)
    qed
    moreover have "?main n = Some (g, s)" using r [of 0] by simp
    moreover have "server_received g = of_nat n" using inv by (simp add: inv_04_def)
    ultimately show ?thesis by blast
  qed
  have "?main n = None" if "10 < n" for n
  proof -
    have "n = 10 + Suc (n - 11)" using that by simp
    then obtain m where n: "n = 10 + Suc m" by blast
    obtain g s where "\<And>m. ?main (10 + m) = test_rounds (test_04_client io) (csp_route_work csp_lo_tx cb) (test_04_server io hk 0) m g s"
      "inv_04 io 10 g" "quiet_node 0 s" using runs [of 10] by blast
    moreover from this(2,3) have "test_round (test_04_client io) (csp_route_work csp_lo_tx cb) (test_04_server io hk 0) g s = None"
      by (rule round_04_overflow [OF assms])
    ultimately have "?main (10 + Suc m) = None" by (simp only: test_rounds.simps option.simps bind.bind_lzero)
    then show ?thesis by (simp only: n)
  qed
  then show ?thesis using le by blast
qed

text \<open>C33: Test 02 checks the priorities. If the mutated packets are still for the server, with its address and port and without a flag for RDP, checksum or
  authentication (\<open>all_arrive\<close>, for the five priorities), then the client ends after five packets, all of them are received, and the verdict is 0 if the
  mutation keeps the five priorities and 1 if it always changes one of them. Nothing is said here of mutations of the destination, the destination port or these flags.\<close>

theorem test_02_verdict:
  assumes "test_io io cb" "\<forall>j < 5. all_arrive io (test_02_prio (of_nat j))" "5 \<le> n"
  shows "\<exists>g s. test_main 10 (test_02_client io) (csp_route_work csp_lo_tx cb) (test_02_server io hk) n test_02_start test_node = Some (g, s) \<and>
    server_received g = 5 \<and>
    ((\<forall>j < 5. \<forall>port. pri (probe_out io (test_02_prio (of_nat j)) port) = test_02_prio (of_nat j)) \<longrightarrow> test_02_exit g = 0) \<and>
    ((\<exists>j < 5. \<forall>port. pri (probe_out io (test_02_prio (of_nat j)) port) \<noteq> test_02_prio (of_nat j)) \<longrightarrow> test_02_exit g = 1)"
proof -
  let ?main = "\<lambda>n. test_main 10 (test_02_client io) (csp_route_work csp_lo_tx cb) (test_02_server io hk) n test_02_start test_node"
  have start: "inv_02 io 0 test_02_start" by (simp add: inv_02_def test_02_start_def rows_start cells_02_def)
  obtain g s where r: "\<And>m. ?main (5 + m) = test_rounds (test_02_client io) (csp_route_work csp_lo_tx cb) (test_02_server io hk 0) m g s"
    and inv: "inv_02 io 5 g"
    by (rule test_main_run [where I = "inv_02 io" and N = 5 and n = 5 and v = "test_02_server io hk" and backlog = 10,
        OF round_02 [OF assms(1,2)] start order_refl]) (assumption | rule that)+
  have p: "packet_sent g = 5" "server_received g = 5" using inv by (simp_all add: inv_02_def)
  have "test_02_client io g s = Some (False, g, s)" by (simp add: test_02_client_def p)
  from rounds_ended [where c = "test_02_client io", OF this] r [of "n - 5"] assms(3) have run: "?main n = Some (g, s)" by simp
  have rw: "rows (row_02 io) (0, 0) 5 5 (cells_02 g)" using inv unfolding inv_02_def by blast
  have v: "\<exists>port. sent_priorities g ! j = uint (test_02_prio (of_nat j)) \<and> read_priorities g ! j = uint (pri (probe_out io (test_02_prio (of_nat j)) port))"
    if "j < 5" for j
    using rows_at [OF rw that] that unfolding row_02_def cells_02_def by (simp only: if_True prod.inject)
  have "test_02_exit g = 0" if keep: "\<forall>j < 5. \<forall>port. pri (probe_out io (test_02_prio (of_nat j)) port) = test_02_prio (of_nat j)"
  proof -
    have "read_priorities g ! j = sent_priorities g ! j" if "j < 5" for j using v [OF that] keep that by metis
    then show ?thesis by (simp add: test_02_exit_def del: upt_rec_numeral)
  qed
  moreover have "test_02_exit g = 1" if other: "\<exists>j < 5. \<forall>port. pri (probe_out io (test_02_prio (of_nat j)) port) \<noteq> test_02_prio (of_nat j)"
  proof -
    obtain j where j: "j < 5" "\<forall>port. pri (probe_out io (test_02_prio (of_nat j)) port) \<noteq> test_02_prio (of_nat j)" using other by blast
    then have "read_priorities g ! j \<noteq> sent_priorities g ! j" using v [OF j(1)] by (metis word_uint_eq_iff)
    then show ?thesis using j(1) by (auto simp: test_02_exit_def simp del: upt_rec_numeral)
  qed
  ultimately show ?thesis using run p(2) by blast
qed

text \<open>C34: Test 03 checks the addresses. If the mutated packets are still for the server, with its address and port and without a flag for RDP, checksum or
  authentication (\<open>all_arrive\<close>), then its five packets are received and its verdict is 0, whatever the mutation makes of
  the source address: the loopback interface sets it again.\<close>

theorem test_03_verdict:
  assumes "test_io io cb" "all_arrive io CSP_PRIO_NORM" "5 \<le> n"
  shows "\<exists>g s. test_main 5 (test_03_client io) (csp_route_work csp_lo_tx cb) (test_03_server io hk) n test_03_start test_node = Some (g, s) \<and>
    server_received g = 5 \<and> test_03_exit g = 0"
proof -
  let ?main = "\<lambda>n. test_main 5 (test_03_client io) (csp_route_work csp_lo_tx cb) (test_03_server io hk) n test_03_start test_node"
  have start: "inv_03 0 test_03_start" by (simp add: inv_03_def test_03_start_def)
  obtain g s where r: "\<And>m. ?main (5 + m) = test_rounds (test_03_client io) (csp_route_work csp_lo_tx cb) (test_03_server io hk 0) m g s"
    and inv: "inv_03 5 g"
    by (rule test_main_run [where I = inv_03 and N = 5 and n = 5 and v = "test_03_server io hk" and backlog = 5,
        OF round_03 [OF assms(1,2)] start order_refl]) (assumption | rule that)+
  have p: "client_sent_3 g = 5" "server_received g = 5" using inv by (simp_all add: inv_03_def)
  have "test_03_client io g s = Some (False, g, s)" by (simp add: test_03_client_def p)
  from rounds_ended [where c = "test_03_client io", OF this] r [of "n - 5"] assms(3) have run: "?main n = Some (g, s)" by simp
  have "test_03_exit g = 0" using inv by (simp add: test_03_exit_def inv_03_def del: upt_rec_numeral)
  then show ?thesis using run p(2) by blast
qed

text \<open>A program on the loopback interface, without a mutation and with one that adds one to an item of the buffer in \<^verbatim>\<open>csp_send\<close>.\<close>

definition increment_io :: "nat \<Rightarrow> io_env" where
  "increment_io j = lo_io\<lparr>probe_send := (\<lambda>b. b[j := b ! j + 1])\<rparr>"

lemma test_io_examples:
  "test_io lo_io (\<lambda>f p. csp_buffer_free (Some p))" "test_io (increment_io j) (\<lambda>f p. csp_buffer_free (Some p))"
  "probe_out lo_io prio port = client_out prio port" "all_arrive lo_io prio"
  using drop.route_client_axioms
  by (simp_all add: test_io_def plain_io_def lo_io_def increment_io_def probe_out_def all_arrive_def arrives_def client_out_def)

lemma ucast_increment: "(ucast (ucast v + 1 :: u32) :: u8) = v + 1" for v :: u8
proof -
  have "uint v < 256" using unsigned_less [of v, where 'a = int] by simp
  then have "uint v mod 4294967296 = uint v" by (intro mod_pos_pos_trivial) simp_all
  then have "uint (ucast (ucast v + 1 :: u32) :: u8) = (uint v + 1) mod 2 ^ 8"
    by (simp add: unsigned_ucast_eq uint_word_ariths take_bit_eq_mod mod_mod_cancel)
  also have "\<dots> = uint (v + 1)" by (simp add: uint_word_ariths)
  finally show ?thesis by (simp add: word_uint_eq_iff)
qed

lemma increment_examples:
  "all_arrive (increment_io 5) prio" "sport (probe_out (increment_io 5) prio port) = port + 1"
  "all_arrive (increment_io 1) prio" "pri (probe_out (increment_io 1) prio port) = prio + 1"
  "all_arrive (increment_io 2) prio" "src (probe_out (increment_io 2) prio port) = 1"
  by (simp_all add: increment_io_def probe_out_def all_arrive_def arrives_def client_out_def damat_buffer_def damat_id_def ucast_increment MY_SERVER_PORT_def)

theorem test_02_verdict_witness:
  "(\<exists>g s. test_main 10 (test_02_client lo_io) (csp_route_work csp_lo_tx (\<lambda>f p. csp_buffer_free (Some p))) (test_02_server lo_io test_hooks) 5
      test_02_start test_node = Some (g, s) \<and> test_02_exit g = 0) \<and>
   (\<exists>g s. test_main 10 (test_02_client (increment_io 1)) (csp_route_work csp_lo_tx (\<lambda>f p. csp_buffer_free (Some p)))
      (test_02_server (increment_io 1) test_hooks) 5 test_02_start test_node = Some (g, s) \<and> test_02_exit g = 1)"
proof -
  have k: "pri (probe_out lo_io prio port) = prio" for prio port by (simp add: test_io_examples client_out_def)
  have c: "pri (probe_out (increment_io 1) prio port) \<noteq> prio" for prio port using increment_examples(4) [of prio port] by simp
  have a: "\<forall>j < 5. all_arrive lo_io (test_02_prio (of_nat j))" "\<forall>j < 5. all_arrive (increment_io 1) (test_02_prio (of_nat j))"
    using test_io_examples(4) increment_examples(3) by blast+
  show ?thesis
    using test_02_verdict [OF test_io_examples(1) a(1) order_refl, of test_hooks] test_02_verdict [OF test_io_examples(2) a(2) order_refl, of test_hooks] k c
    by (metis zero_less_numeral)
qed

theorem test_03_verdict_witness:
  "\<exists>g s. test_main 5 (test_03_client (increment_io 2)) (csp_route_work csp_lo_tx (\<lambda>f p. csp_buffer_free (Some p)))
      (test_03_server (increment_io 2) test_hooks) 5 test_03_start test_node = Some (g, s) \<and> test_03_exit g = 0 \<and>
      src (probe_out (increment_io 2) CSP_PRIO_NORM 17) = 1"
  using test_03_verdict [OF test_io_examples(2) [of 2] increment_examples(5), of 5 test_hooks] increment_examples(6) by auto

theorem test_04_verdict_witness:
  "(\<exists>g s. test_main 10 (test_04_client lo_io) (csp_route_work csp_lo_tx (\<lambda>f p. csp_buffer_free (Some p))) (test_04_server lo_io test_hooks) 10
      test_04_start test_node = Some (g, s) \<and> test_04_exit g = 0) \<and>
   (\<exists>g s. test_main 10 (test_04_client (increment_io 5)) (csp_route_work csp_lo_tx (\<lambda>f p. csp_buffer_free (Some p)))
      (test_04_server (increment_io 5) test_hooks) 10 test_04_start test_node = Some (g, s) \<and> test_04_exit g = 1)"
proof -
  have k: "sport (probe_out lo_io CSP_PRIO_NORM port) = port" for port by (simp add: test_io_examples client_out_def)
  have c: "sport (probe_out (increment_io 5) CSP_PRIO_NORM port) \<noteq> port" for port using increment_examples(2) [of CSP_PRIO_NORM port] by simp
  show ?thesis
    using test_04_verdict [OF test_io_examples(1,4), of test_hooks] test_04_verdict [OF test_io_examples(2) increment_examples(1), of test_hooks] k c
    by (metis order_refl zero_less_numeral)
qed

theorem test_05_verdict_witness:
  "\<exists>g s. test_main 10 (test_05_client lo_io) (csp_route_work csp_lo_tx (\<lambda>f p. csp_buffer_free (Some p))) (test_05_server lo_io test_hooks) 15
      test_05_start test_node = Some (g, s) \<and> server_received g = 15 \<and> test_05_exit g = 0"
  using test_05_verdict [OF test_io_examples(1,4), of 15 test_hooks] by (auto simp: test_io_examples client_out_def)

end
