(* ===== verification/Csp_Rtable_Text.thy ===== *)
theory Csp_Rtable_Text
  imports Csp_Rtable
begin

text \<open>
  The routing table as text (\<^verbatim>\<open>src/csp_rtable_stdio.c\<close>): routes are printed with \<^verbatim>\<open>snprintf\<close> and parsed with \<^verbatim>\<open>strtok_r\<close> and
  \<^verbatim>\<open>sscanf\<close>. Of these functions of the C library, what the source uses is modelled first. A string of C is the list of
  its characters without the zero at its end.
\<close>

section \<open>Model\<close>

subsection \<open>The C library\<close>

definition digit_char :: "nat \<Rightarrow> char" where
  "digit_char d = char_of (48 + d)"

text \<open>The directive \<^verbatim>\<open>%u\<close> of \<^verbatim>\<open>snprintf\<close>.\<close>

fun decimal :: "nat \<Rightarrow> string" where
  "decimal n = (if n < 10 then [digit_char n] else decimal (n div 10) @ [digit_char (n mod 10)])"

declare decimal.simps [simp del]

definition is_digit :: "char \<Rightarrow> bool" where
  "is_digit c \<longleftrightarrow> 48 \<le> (of_char c :: nat) \<and> (of_char c :: nat) \<le> 57"

definition is_space :: "char \<Rightarrow> bool" where
  "is_space c \<longleftrightarrow> (of_char c :: nat) = 32 \<or> 9 \<le> (of_char c :: nat) \<and> (of_char c :: nat) \<le> 13"

definition digits_value :: "string \<Rightarrow> nat" where
  "digits_value ds = foldl (\<lambda>n c. 10 * n + (of_char c - 48)) 0 ds"

text \<open>A number: white space, a sign, digits. The result is the number and what follows it.\<close>

definition scan_number :: "string \<Rightarrow> (int \<times> string) option" where
  "scan_number str =
     (let str = dropWhile is_space str;
          negative = (str \<noteq> [] \<and> hd str = CHR ''-'');
          str = (if str \<noteq> [] \<and> hd str \<in> {CHR ''-'', CHR ''+''} then tl str else str);
          ds = takeWhile is_digit str;
          n = int (digits_value ds)
      in if ds = [] then None else Some (if negative then - n else n, dropWhile is_digit str))"

text \<open>The directives of the formats: white space, a character, \<^verbatim>\<open>%u\<close>, \<^verbatim>\<open>%d\<close>, \<^verbatim>\<open>%<n>s\<close>.\<close>

datatype scan_directive = Scan_Space | Scan_Char char | Scan_U | Scan_D | Scan_S nat

datatype scan_value = Unsigned u32 | Signed int | Text string

text \<open>
  The values that \<^verbatim>\<open>sscanf\<close> stores; their number is what it returns, except that it returns \<^verbatim>\<open>EOF\<close> for some of the empty lists. A number
  that the variable cannot hold is undefined.
\<close>

primrec sscanf :: "scan_directive list \<Rightarrow> string \<Rightarrow> scan_value list option" where
  "sscanf [] str = Some []"
| "sscanf (d # ds) str =
     (case d of
        Scan_Space \<Rightarrow> sscanf ds (dropWhile is_space str)
      | Scan_Char c \<Rightarrow> if str \<noteq> [] \<and> hd str = c then sscanf ds (tl str) else Some []
      | Scan_U \<Rightarrow>
          (case scan_number str of
             None \<Rightarrow> Some []
           | Some (n, rest) \<Rightarrow> if \<bar>n\<bar> < 2 ^ 32 then map_option ((#) (Unsigned (word_of_int n))) (sscanf ds rest) else None)
      | Scan_D \<Rightarrow>
          (case scan_number str of
             None \<Rightarrow> Some []
           | Some (n, rest) \<Rightarrow> if - (2 ^ 31) \<le> n \<and> n < 2 ^ 31 then map_option ((#) (Signed n)) (sscanf ds rest) else None)
      | Scan_S k \<Rightarrow>
          (let str = dropWhile is_space str;
               t = take k (takeWhile (\<lambda>c. \<not> is_space c) str)
           in if t = [] then Some [] else map_option ((#) (Text t)) (sscanf ds (List.drop (length t) str))))"

text \<open>The tokens that calls of \<^verbatim>\<open>strtok_r\<close> give one after the other.\<close>

primrec split_on :: "char \<Rightarrow> string \<Rightarrow> string list" where
  "split_on c [] = [[]]"
| "split_on c (x # xs) = (if x = c then [] # split_on c xs else (x # hd (split_on c xs)) # tl (split_on c xs))"

definition strtok :: "char \<Rightarrow> string \<Rightarrow> string list" where
  "strtok c str = filter (\<lambda>t. t \<noteq> []) (split_on c str)"

subsection \<open>Parsing\<close>

record rtable_entry =
  e_address :: u32
  e_netmask :: int
  e_name :: string
  e_via :: u32

fun entry_mask_via :: "scan_value list \<Rightarrow> rtable_entry option" where
  "entry_mask_via [Unsigned addr, Signed netmask, Text name, Unsigned via] =
     Some \<lparr>e_address = addr, e_netmask = netmask, e_name = name, e_via = via\<rparr>"
| "entry_mask_via _ = None"

fun entry_mask :: "scan_value list \<Rightarrow> rtable_entry option" where
  "entry_mask [Unsigned addr, Signed netmask, Text name] =
     Some \<lparr>e_address = addr, e_netmask = netmask, e_name = name, e_via = ucast CSP_NO_VIA_ADDRESS\<rparr>"
| "entry_mask _ = None"

fun entry_via :: "csp_conf_t \<Rightarrow> scan_value list \<Rightarrow> rtable_entry option" where
  "entry_via conf [Unsigned addr, Text name, Unsigned via] =
     Some \<lparr>e_address = addr, e_netmask = uint (csp_id_get_host_bits conf), e_name = name, e_via = via\<rparr>"
| "entry_via conf _ = None"

fun entry_plain :: "csp_conf_t \<Rightarrow> scan_value list \<Rightarrow> rtable_entry option" where
  "entry_plain conf [Unsigned addr, Text name] =
     Some \<lparr>e_address = addr, e_netmask = uint (csp_id_get_host_bits conf), e_name = name, e_via = ucast CSP_NO_VIA_ADDRESS\<rparr>"
| "entry_plain conf _ = None"

text \<open>The formats are tried in turn; \<open>None\<close> inside is an invalid entry.\<close>

definition parse_entry :: "csp_conf_t \<Rightarrow> string \<Rightarrow> rtable_entry option option" where
  "parse_entry conf str = do {
     r1 \<leftarrow> sscanf [Scan_U, Scan_Char CHR ''/'', Scan_D, Scan_Space, Scan_S 14, Scan_Space, Scan_U] str;
     (if entry_mask_via r1 \<noteq> None then Some (entry_mask_via r1)
      else do {
        r2 \<leftarrow> sscanf [Scan_U, Scan_Char CHR ''/'', Scan_D, Scan_Space, Scan_S 14] str;
        (if entry_mask r2 \<noteq> None then Some (entry_mask r2)
         else do {
           r3 \<leftarrow> sscanf [Scan_U, Scan_Space, Scan_S 14, Scan_Space, Scan_U] str;
           (if entry_via conf r3 \<noteq> None then Some (entry_via conf r3)
            else do {
              r4 \<leftarrow> sscanf [Scan_U, Scan_Space, Scan_S 14] str;
              Some (entry_plain conf r4)
            })
         })
      })
   }"

text \<open>For an invalid entry the name is empty and the other variables may be uninitialised.\<close>

primrec csp_rtable_parse_loop :: "bool \<Rightarrow> string list \<Rightarrow> int \<Rightarrow> node \<Rightarrow> int csp" where
  "csp_rtable_parse_loop dry_run [] valid_entries s = Some (valid_entries, s)"
| "csp_rtable_parse_loop dry_run (str # strs) valid_entries s =
     (if \<not> length str > 1 then Some (valid_entries, s)
      else do {
        entry \<leftarrow> parse_entry (csp_conf s) str;
        ifc \<leftarrow> csp_iflist_get_by_name (case entry of None \<Rightarrow> '''' | Some e \<Rightarrow> e_name e) s;
        (if ifc = None then Some (CSP_ERR_INVAL, s\<lparr>csp_dbg_errno := CSP_DBG_ERR_INVALID_RTABLE_ENTRY\<rparr>)
         else do {
           e \<leftarrow> entry;
           (if e_address e > csp_id_get_max_nodeid (csp_conf s) \<or> e_netmask e > uint (csp_id_get_host_bits (csp_conf s))
            then Some (CSP_ERR_INVAL, s\<lparr>csp_dbg_errno := CSP_DBG_ERR_INVALID_RTABLE_ENTRY\<rparr>)
            else do {
              (res, s) \<leftarrow>
                (if dry_run then Some (CSP_ERR_NONE, s) else csp_rtable_set (ucast (e_address e)) (e_netmask e) ifc (ucast (e_via e)) s);
              (if res \<noteq> CSP_ERR_NONE then Some (res, s\<lparr>csp_dbg_errno := CSP_DBG_ERR_INVALID_RTABLE_ENTRY\<rparr>)
               else csp_rtable_parse_loop dry_run strs (valid_entries + 1) s)
            })
         })
      })"

definition csp_rtable_parse :: "string \<Rightarrow> bool \<Rightarrow> node \<Rightarrow> int csp" where
  "csp_rtable_parse str dry_run s = csp_rtable_parse_loop dry_run (strtok CHR '','' (take 100 str)) 0 s"

definition csp_rtable_load :: "string \<Rightarrow> node \<Rightarrow> int csp" where
  "csp_rtable_load str = csp_rtable_parse str False"

definition csp_rtable_check :: "string \<Rightarrow> node \<Rightarrow> int csp" where
  "csp_rtable_check str = csp_rtable_parse str True"

subsection \<open>Printing\<close>

text \<open>\<open>ctx_buffer\<close> is the string that the buffer holds.\<close>

record csp_rtable_save_ctx_t =
  ctx_buffer :: string
  ctx_len :: nat
  ctx_maxlen :: nat
  ctx_error :: int

definition CSP_IF_LOOPBACK_NAME :: string where [simp, csp_defs]: "CSP_IF_LOOPBACK_NAME = ''LOOP''"

definition mask_str :: "csp_conf_t \<Rightarrow> u16 \<Rightarrow> string" where
  "mask_str conf netmask = (if ucast netmask \<noteq> csp_id_get_host_bits conf then ''/'' @ decimal (unat netmask) else '''')"

definition via_str :: "u16 \<Rightarrow> string" where
  "via_str via = (if via \<noteq> CSP_NO_VIA_ADDRESS then '' '' @ decimal (unat via) else '''')"

definition csp_rtable_save_route :: "node \<Rightarrow> csp_rtable_save_ctx_t \<Rightarrow> csp_route_t \<Rightarrow> (bool \<times> csp_rtable_save_ctx_t) option" where
  "csp_rtable_save_route s ctx route = do {
     i \<leftarrow> r_iface route;
     f \<leftarrow> get_iface i s;
     (if if_name f = CSP_IF_LOOPBACK_NAME then Some (True, ctx)
      else
        let sep = (if ctx_len ctx = 0 then '''' else '','');
            remain_buf_size = ctx_maxlen ctx - ctx_len ctx;
            txt = sep @ decimal (unat (r_address route)) @ mask_str (csp_conf s) (r_netmask route) @ '' '' @ if_name f @ via_str (r_via route);
            ctx = ctx\<lparr>ctx_buffer := take (ctx_len ctx) (ctx_buffer ctx) @ take (remain_buf_size - 1) txt\<rparr>
        in if int (length txt) \<ge> sint (of_nat remain_buf_size :: u32)
           then Some (False, ctx\<lparr>ctx_error := CSP_ERR_NOMEM\<rparr>)
           else Some (True, ctx\<lparr>ctx_len := ctx_len ctx + length txt\<rparr>))
   }"

text \<open>The result and the string in the caller's buffer.\<close>

definition csp_rtable_save :: "nat \<Rightarrow> node \<Rightarrow> (int \<times> string) option" where
  "csp_rtable_save maxlen s = do {
     ctx \<leftarrow> csp_rtable_iterate (csp_rtable_save_route s) s \<lparr>ctx_buffer = '''', ctx_len = 0, ctx_maxlen = maxlen, ctx_error = CSP_ERR_NONE\<rparr>;
     Some (ctx_error ctx, ctx_buffer ctx)
   }"

section \<open>Numbers\<close>

lemma of_char_digit [simp]: "d < 10 \<Longrightarrow> (of_char (digit_char d) :: nat) = 48 + d"
  by (simp add: digit_char_def)

lemma is_digit_char [simp]: "d < 10 \<Longrightarrow> is_digit (digit_char d)"
  by (simp add: is_digit_def)

lemma digit_space: "is_digit c \<Longrightarrow> \<not> is_space c"
  by (auto simp: is_digit_def is_space_def)

lemma digits_value_snoc: "digits_value (ds @ [c]) = 10 * digits_value ds + (of_char c - 48)"
  by (simp add: digits_value_def)

lemma decimal_facts: "decimal n \<noteq> [] \<and> (\<forall>c \<in> set (decimal n). is_digit c) \<and> digits_value (decimal n) = n"
proof (induction n rule: decimal.induct)
  case (1 n)
  show ?case
  proof (cases "n < 10")
    case True
    then show ?thesis by (subst (1 2 3) decimal.simps) (simp add: digits_value_def)
  next
    case False
    from 1 [OF False] False show ?thesis by (subst (1 2 3) decimal.simps) (auto simp: digits_value_snoc)
  qed
qed

lemma not_digit_start: "rest = [] \<or> \<not> is_digit (hd rest) \<Longrightarrow> takeWhile is_digit rest = [] \<and> dropWhile is_digit rest = rest"
  by (cases rest) auto

text \<open>A printed number is scanned back, up to the first character that is not a digit.\<close>

lemma scan_decimal:
  assumes "rest = [] \<or> \<not> is_digit (hd rest)"
  shows "scan_number (decimal n @ rest) = Some (int n, rest)"
proof -
  obtain c cs where c: "decimal n = c # cs" "is_digit c" using decimal_facts [of n] by (cases "decimal n") auto
  then have "c \<notin> {CHR ''-'', CHR ''+''}" "\<not> is_space c" by (auto simp: is_digit_def is_space_def)
  moreover have "takeWhile is_digit (decimal n @ rest) = decimal n" "dropWhile is_digit (decimal n @ rest) = rest"
    using decimal_facts [of n] not_digit_start [OF assms] by simp_all
  ultimately show ?thesis using c(1) decimal_facts [of n] by (simp add: scan_number_def Let_def)
qed

section \<open>Entries\<close>

text \<open>The names that can be read back: not empty, at most 14 characters, none of them white space or a comma.\<close>

definition name_ok :: "string \<Rightarrow> bool" where
  "name_ok name \<longleftrightarrow> name \<noteq> [] \<and> length name \<le> 14 \<and> (\<forall>c \<in> set name. \<not> is_space c \<and> c \<noteq> CHR '','')"

definition route_text :: "csp_conf_t \<Rightarrow> string \<Rightarrow> csp_route_t \<Rightarrow> string" where
  "route_text conf name r = decimal (unat (r_address r)) @ mask_str conf (r_netmask r) @ '' '' @ name @ via_str (r_via r)"

lemma is_space_blank [simp]: "is_space CHR '' ''" "\<not> is_digit CHR '' ''" "\<not> is_digit CHR ''/''"
  by (simp_all add: is_space_def is_digit_def)

lemma scan_u:
  assumes "rest = [] \<or> \<not> is_digit (hd rest)" "n < 2 ^ 32"
  shows "sscanf (Scan_U # ds) (decimal n @ rest) = map_option ((#) (Unsigned (of_nat n))) (sscanf ds rest)"
proof -
  have "int n < 2 ^ 32" using assms(2) by simp
  then show ?thesis using scan_decimal [OF assms(1)] by simp
qed

lemma scan_d:
  assumes "rest = [] \<or> \<not> is_digit (hd rest)" "n < 2 ^ 31"
  shows "sscanf (Scan_D # ds) (decimal n @ rest) = map_option ((#) (Signed (int n))) (sscanf ds rest)"
proof -
  have "int n < 2 ^ 31" using assms(2) by simp
  then show ?thesis using scan_decimal [OF assms(1)] by simp
qed

lemma scan_char: "sscanf (Scan_Char c # ds) (x # str) = (if x = c then sscanf ds str else Some [])"
  by simp

lemma scan_u_none: "sscanf [Scan_Space, Scan_U] [] = Some []"
  by (simp add: scan_number_def)

lemma scan_name:
  assumes "name_ok name" "rest = [] \<or> is_space (hd rest)"
  shows "sscanf (Scan_Space # Scan_S 14 # ds) (CHR '' '' # name @ rest) = map_option ((#) (Text name)) (sscanf ds rest)"
proof -
  obtain c cs where c: "name = c # cs" "\<not> is_space c" using assms(1) by (cases name) (auto simp: name_ok_def)
  then have "dropWhile is_space (CHR '' '' # name @ rest) = name @ rest" "dropWhile is_space (name @ rest) = name @ rest" by simp_all
  moreover have "takeWhile (\<lambda>c. \<not> is_space c) rest = []" using assms(2) by (cases rest) auto
  then have "takeWhile (\<lambda>c. \<not> is_space c) (name @ rest) = name" using assms(1) by (simp add: name_ok_def)
  ultimately show ?thesis using assms(1) c(1) by (simp add: name_ok_def Let_def)
qed

lemma scan_via:
  assumes "n < 2 ^ 32"
  shows "sscanf [Scan_Space, Scan_U] (CHR '' '' # decimal n) = Some [Unsigned (of_nat n)]"
proof -
  have "\<not> is_space (hd (decimal n))" using decimal_facts [of n] digit_space by (cases "decimal n") auto
  then have "dropWhile is_space (CHR '' '' # decimal n) = decimal n" using decimal_facts [of n] by (cases "decimal n") auto
  then show ?thesis using scan_u [of "[]" n "[]"] assms by simp
qed

lemma u16_number: "unat w < 2 ^ 32" "unat w < 2 ^ 31" "of_nat (unat w) = (ucast w :: u32)" "int (unat w) = uint w"
  for w :: u16
proof -
  have "unat w < 2 ^ 16" using unsigned_less [of w, where ?'a = nat] by simp
  then show "unat w < 2 ^ 32" "unat w < 2 ^ 31" by simp_all
  show "of_nat (unat w) = (ucast w :: u32)" by simp
  show "int (unat w) = uint w" by simp
qed

text \<open>The text of a route is parsed back into the route, whichever of its parts are left out.\<close>

lemma parse_route_text:
  assumes "name_ok name"
  shows "parse_entry conf (route_text conf name r) = Some (Some \<lparr>e_address = ucast (r_address r), e_netmask = uint (r_netmask r),
    e_name = name, e_via = ucast (r_via r)\<rparr>)"
proof -
  note a = u16_number
  have u: "sscanf (Scan_U # ds) (decimal (unat (r_address r)) @ rest) =
      map_option ((#) (Unsigned (ucast (r_address r)))) (sscanf ds rest)" if "\<not> is_digit (hd rest)" for ds rest
    using scan_u [of rest "unat (r_address r)" ds] that a by simp
  have d: "sscanf (Scan_D # ds) (decimal (unat (r_netmask r)) @ CHR '' '' # rest) =
      map_option ((#) (Signed (uint (r_netmask r)))) (sscanf ds (CHR '' '' # rest))" for ds rest
    using scan_d [of "CHR '' '' # rest" "unat (r_netmask r)" ds] a by simp
  have v: "sscanf [Scan_Space, Scan_U] (via_str (r_via r)) = Some (if r_via r \<noteq> CSP_NO_VIA_ADDRESS then [Unsigned (ucast (r_via r))] else [])"
    using scan_via [of "unat (r_via r)"] scan_u_none a by (simp add: via_str_def)
  have n: "sscanf (Scan_Space # Scan_S 14 # ds) (CHR '' '' # name @ via_str (r_via r)) = map_option ((#) (Text name)) (sscanf ds (via_str (r_via r)))"
    for ds using scan_name [OF assms, of "via_str (r_via r)" ds] by (simp add: via_str_def)
  show ?thesis
  proof (cases "ucast (r_netmask r) = csp_id_get_host_bits conf")
    case True
    then have t: "route_text conf name r = decimal (unat (r_address r)) @ CHR '' '' # name @ via_str (r_via r)"
      by (simp add: route_text_def mask_str_def)
    have "unat (csp_id_get_host_bits conf) = unat (r_netmask r)" unfolding True [symmetric] by simp
    then have h: "uint (csp_id_get_host_bits conf) = uint (r_netmask r)" by (simp only: uint_nat)
    show ?thesis using u d v n h by (simp add: parse_entry_def t scan_char del: sscanf.simps(2))
  next
    case False
    then have t: "route_text conf name r = decimal (unat (r_address r)) @ CHR ''/'' # decimal (unat (r_netmask r)) @ CHR '' '' # name @ via_str (r_via r)"
      by (simp add: route_text_def mask_str_def)
    show ?thesis using u d v n by (simp add: parse_entry_def t scan_char del: sscanf.simps(2))
  qed
qed

section \<open>Lines\<close>

fun join :: "string list \<Rightarrow> string" where
  "join [] = ''''"
| "join [t] = t"
| "join (t # u # us) = t @ '','' @ join (u # us)"

lemma join_snoc: "join (ts @ [t]) = (if ts = [] then t else join ts @ '','' @ t)"
  by (induction ts rule: join.induct) auto

lemma join_empty: "\<forall>t \<in> set ts. t \<noteq> [] \<Longrightarrow> join ts = [] \<longleftrightarrow> ts = []"
  by (induction ts rule: join.induct) auto

lemma split_on_token: "c \<notin> set t \<Longrightarrow> split_on c t = [t]" "c \<notin> set t \<Longrightarrow> split_on c (t @ c # rest) = t # split_on c rest"
  by (induction t) auto

lemma strtok_join:
  "\<forall>t \<in> set ts. t \<noteq> [] \<and> CHR '','' \<notin> set t \<Longrightarrow> strtok CHR '','' (join ts) = ts"
proof (induction ts rule: join.induct)
  case (3 t u us)
  then have "split_on CHR '','' (join (t # u # us)) = t # split_on CHR '','' (join (u # us))" by (simp add: split_on_token)
  then show ?case using 3 by (simp add: strtok_def)
qed (simp_all add: strtok_def split_on_token)

lemma decimal_no_comma: "CHR '','' \<notin> set (decimal n)"
  using decimal_facts [of n] by (auto simp: is_digit_def)

lemma route_text_token: "name_ok name \<Longrightarrow> CHR '','' \<notin> set (route_text conf name r)" "length (route_text conf name r) > 1"
  using decimal_facts [of "unat (r_address r)"] decimal_no_comma
  by (auto simp: route_text_def mask_str_def via_str_def name_ok_def Suc_lessI)

text \<open>The name of the interface of a route, its line, and the routes that are saved.\<close>

definition route_name :: "node \<Rightarrow> csp_route_t \<Rightarrow> string" where
  "route_name s r = if_name (ifaces s ! the (r_iface r))"

definition route_line :: "node \<Rightarrow> csp_route_t \<Rightarrow> string" where
  "route_line s r = route_text (csp_conf s) (route_name s r) r"

definition saved :: "node \<Rightarrow> csp_route_t list \<Rightarrow> csp_route_t list" where
  "saved s rs = filter (\<lambda>r. route_name s r \<noteq> CSP_IF_LOOPBACK_NAME) rs"

lemma sint_of_nat_u32: "n < 2 ^ 31 \<Longrightarrow> sint (of_nat n :: u32) = int n"
  by (simp add: signed_of_nat signed_take_bit_int_eq_self)

text \<open>An error stays until the end, and without one the buffer holds all the lines.\<close>

lemma save_route_step:
  assumes "csp_rtable_save_route s ctx r = Some (b, ctx')" "ctx_error ctx' = CSP_ERR_NONE"
    "ctx_buffer ctx = join ts" "ctx_len ctx = length (join ts)" "ctx_maxlen ctx < 2 ^ 31" "\<forall>t \<in> set ts. t \<noteq> []"
  defines "ts' \<equiv> ts @ map (route_line s) (saved s [r])"
  shows "ctx_error ctx = CSP_ERR_NONE \<and> ctx_buffer ctx' = join ts' \<and> ctx_len ctx' = length (join ts') \<and> ctx_maxlen ctx' = ctx_maxlen ctx \<and>
    (\<forall>t \<in> set ts'. t \<noteq> [])"
proof -
  obtain i f where i: "r_iface r = Some i" "get_iface i s = Some f" using assms(1) by (auto simp: csp_rtable_save_route_def bind_Some_iff)
  have name: "route_name s r = if_name f" using i by (auto simp: route_name_def get_iface_def split: if_splits)
  show ?thesis
  proof (cases "if_name f = CSP_IF_LOOPBACK_NAME")
    case True
    then show ?thesis using assms i name by (simp add: csp_rtable_save_route_def saved_def)
  next
    case False
    let ?line = "route_line s r" and ?n = "ctx_maxlen ctx - ctx_len ctx"
    let ?txt = "(if ctx_len ctx = 0 then '''' else '','') @ ?line"
    have n: "sint (of_nat ?n :: u32) = int ?n" using assms(5) by (simp add: sint_of_nat_u32)
    have e: "\<not> int (length ?txt) \<ge> int ?n" "ctx_error ctx = CSP_ERR_NONE" "ctx_maxlen ctx' = ctx_maxlen ctx"
      "ctx_buffer ctx' = take (ctx_len ctx) (ctx_buffer ctx) @ take (?n - 1) ?txt" "ctx_len ctx' = ctx_len ctx + length ?txt"
      using assms(1,2) i False n
      by (auto simp: csp_rtable_save_route_def Let_def route_line_def route_text_def name split: if_splits)
    have "take (?n - 1) ?txt = ?txt" using e(1) by (intro take_all) linarith
    then have "ctx_buffer ctx' = join ts @ ?txt" using e(4) assms(3,4) by simp
    moreover have "join (ts @ [?line]) = join ts @ ?txt" using assms(4,6) join_empty [of ts] by (auto simp: join_snoc)
    moreover have "?line \<noteq> []" using route_text_token(2) [of "csp_conf s" "route_name s r" r] by (auto simp: route_line_def)
    ultimately show ?thesis using e False name assms(4,6) by (simp add: ts'_def saved_def)
  qed
qed

lemma save_route_error:
  "csp_rtable_save_route s ctx r = Some (b, ctx') \<Longrightarrow> ctx_error ctx' = CSP_ERR_NONE \<Longrightarrow> ctx_error ctx = CSP_ERR_NONE"
  by (auto simp: bind_Some_iff csp_rtable_save_route_def Let_def split: if_splits)

lemma save_error:
  assumes "csp_rtable_iterate_loop (csp_rtable_save_route s) is s ctx = Some ctx'" "ctx_error ctx' = CSP_ERR_NONE"
  shows "ctx_error ctx = CSP_ERR_NONE"
  using assms
proof (induction "is" arbitrary: ctx)
  case (Cons i "is")
  then obtain r b ctx1 where "csp_rtable_save_route s ctx r = Some (b, ctx1)" "csp_rtable_iterate_loop (csp_rtable_save_route s) is s ctx1 = Some ctx'"
    by (auto simp: bind_Some_iff)
  then show ?case using Cons.IH Cons.prems(2) save_route_error by blast
qed simp

lemma save_loop:
  assumes "csp_rtable_iterate_loop (csp_rtable_save_route s) is s ctx = Some ctx'" "ctx_error ctx' = CSP_ERR_NONE"
    "ctx_buffer ctx = join ts" "ctx_len ctx = length (join ts)" "ctx_maxlen ctx < 2 ^ 31" "\<forall>t \<in> set ts. t \<noteq> []"
  shows "ctx_buffer ctx' = join (ts @ map (route_line s) (saved s (map (\<lambda>i. rtable s ! i) is)))"
  using assms
proof (induction "is" arbitrary: ctx ts)
  case Nil
  then show ?case by (simp add: saved_def)
next
  case (Cons i "is")
  from Cons.prems(1) obtain b ctx1 where s: "csp_rtable_save_route s ctx (rtable s ! i) = Some (b, ctx1)"
    "csp_rtable_iterate_loop (csp_rtable_save_route s) is s ctx1 = Some ctx'"
    by (auto simp: rtable_at_def bind_Some_iff split: if_splits)
  have "ctx_error ctx1 = CSP_ERR_NONE" using s(2) Cons.prems(2) by (rule save_error)
  note f = save_route_step [OF s(1) this Cons.prems(3-6)]
  have "ctx_buffer ctx' = join ((ts @ map (route_line s) (saved s [rtable s ! i])) @ map (route_line s) (saved s (map (\<lambda>i. rtable s ! i) is)))"
    by (rule Cons.IH [OF s(2) Cons.prems(2)]) (use f Cons.prems(5) in auto)
  then show ?case by (simp add: saved_def)
qed

lemma map_rtable_routes: "rtable_inv s \<Longrightarrow> map (\<lambda>i. rtable s ! i) [0..<rtable_inptr s] = routes s"
  by (rule nth_equalityI) (auto simp: rtable_inv_def routes_def)

lemma csp_rtable_save_text:
  assumes "csp_rtable_save maxlen s = Some (CSP_ERR_NONE, txt)" "rtable_inv s" "maxlen < 2 ^ 31"
  shows "txt = join (map (route_line s) (saved s (routes s)))"
proof -
  from assms(1) obtain ctx where c: "csp_rtable_iterate_loop (csp_rtable_save_route s) [0..<rtable_inptr s] s
      \<lparr>ctx_buffer = '''', ctx_len = 0, ctx_maxlen = maxlen, ctx_error = CSP_ERR_NONE\<rparr> = Some ctx" "ctx_error ctx = CSP_ERR_NONE" "txt = ctx_buffer ctx"
    by (auto simp: csp_rtable_save_def csp_rtable_iterate_def bind_Some_iff)
  from save_loop [OF c(1,2), of "[]"] assms(3) c(3) map_rtable_routes [OF assms(2)] show ?thesis by simp
qed

section \<open>Loading\<close>

lemma set_route_new:
  assumes "\<forall>q \<in> set rs. (r_address q, r_netmask q) \<noteq> (r_address r, r_netmask r)"
  shows "set_route r rs = rs @ [r]"
proof -
  have "find (\<lambda>i. r_address (rs ! i) = r_address r \<and> r_netmask (rs ! i) = r_netmask r) [0..<length rs] = None"
    using assms by (auto simp: find_None_iff)
  then show ?thesis by (simp add: set_route_def)
qed

text \<open>A route that can be read back on the node \<open>s0\<close>: its interface is found by its name, its address and its mask are valid.\<close>

definition readable :: "node \<Rightarrow> node \<Rightarrow> csp_route_t \<Rightarrow> bool" where
  "readable s0 s r \<longleftrightarrow> name_ok (route_name s r) \<and> r_iface r \<noteq> None \<and>
     csp_iflist_get_by_name (route_name s r) s0 = Some (r_iface r) \<and>
     (ucast (r_address r) :: u32) \<le> csp_id_get_max_nodeid (csp_conf s0) \<and>
     unat (r_netmask r) \<le> unat (csp_id_get_host_bits (csp_conf s0))"

lemma load_step:
  assumes "readable s0 s r" "csp_conf s = csp_conf s0" "iflist s0 xs" "t = s0\<lparr>rtable_inptr := n, rtable := tab\<rparr>" "rtable_inv t"
    "length (routes t) < CSP_RTABLE_SIZE" "\<forall>q \<in> set (routes t). (r_address q, r_netmask q) \<noteq> (r_address r, r_netmask r)"
  shows "\<exists>n' tab' t'. csp_rtable_parse_loop False (route_line s r # strs) k t = csp_rtable_parse_loop False strs (k + 1) t' \<and>
    t' = s0\<lparr>rtable_inptr := n', rtable := tab'\<rparr> \<and> rtable_inv t' \<and> routes t' = routes t @ [r]"
proof -
  have conf: "csp_conf t = csp_conf s0" using assms(4) by simp
  have "iflist t xs" using assms(3,4) by (simp add: iflist_def)
  then have name: "csp_iflist_get_by_name (route_name s r) t = Some (r_iface r)"
    using assms(1,4) csp_iflist_get_by_name_find [OF assms(3)] csp_iflist_get_by_name_find [of t xs] by (simp add: readable_def)
  have p: "parse_entry (csp_conf t) (route_line s r) = Some (Some \<lparr>e_address = ucast (r_address r), e_netmask = uint (r_netmask r),
      e_name = route_name s r, e_via = ucast (r_via r)\<rparr>)" "length (route_line s r) > 1"
    using parse_route_text [of "route_name s r" "csp_conf s" r] route_text_token(2) assms(1,2) conf by (simp_all add: route_line_def readable_def)
  have m: "unat (r_netmask r) \<le> unat (csp_id_get_host_bits (csp_conf t))" using assms(1) conf by (simp add: readable_def)
  then have m': "uint (r_netmask r) \<le> uint (csp_id_get_host_bits (csp_conf t))" by (simp only: uint_nat of_nat_le_iff)
  have e: "\<lparr>r_address = r_address r, r_netmask = r_netmask r, r_via = r_via r, r_iface = r_iface r\<rparr> = r" by (cases r) simp
  note sr = set_route_new [OF assms(7)]
  obtain t' where t': "csp_rtable_set_internal (r_address r) (r_netmask r) (r_iface r) (r_via r) t = Some (CSP_ERR_NONE, t')"
    "routes t' = routes t @ [r]" "rtable_inv t'"
    using csp_rtable_set_internal_eq [OF assms(5) m, of "r_address r" "r_via r" "r_iface r"] assms(6) unfolding e sr by auto
  then obtain n' tab' where f: "t' = s0\<lparr>rtable_inptr := n', rtable := tab'\<rparr>" using rtable_set_internal_frame [OF t'(1)] assms(4) by auto
  have "csp_rtable_set (r_address r) (uint (r_netmask r)) (r_iface r) (r_via r) t = Some (CSP_ERR_NONE, t')"
    using t'(1) m' assms(1) by (simp add: csp_rtable_set_def Let_def readable_def)
  then have "csp_rtable_parse_loop False (route_line s r # strs) k t = csp_rtable_parse_loop False strs (k + 1) t'"
    using p name m' assms(1) conf ucast_u16_u32 by (auto simp: readable_def not_less)
  then show ?thesis using f t'(2,3) by blast
qed

lemma load_loop:
  assumes "\<forall>r \<in> set rs. readable s0 s r" "csp_conf s = csp_conf s0" "iflist s0 xs" "t = s0\<lparr>rtable_inptr := n, rtable := tab\<rparr>" "rtable_inv t"
    "length (routes t @ rs) \<le> CSP_RTABLE_SIZE" "distinct (map (\<lambda>r. (r_address r, r_netmask r)) (routes t @ rs))"
  shows "\<exists>t'. csp_rtable_parse_loop False (map (route_line s) rs) k t = Some (k + int (length rs), t') \<and> routes t' = routes t @ rs \<and> rtable_inv t'"
  using assms
proof (induction rs arbitrary: t n tab k)
  case (Cons r rs)
  have "(r_address r, r_netmask r) \<notin> (\<lambda>r. (r_address r, r_netmask r)) ` set (routes t)" using Cons.prems(7) by simp
  then have "\<forall>q \<in> set (routes t). (r_address q, r_netmask q) \<noteq> (r_address r, r_netmask r)" by (metis (mono_tags, lifting) imageI)
  moreover have "readable s0 s r" "length (routes t) < CSP_RTABLE_SIZE" using Cons.prems(1,6) by simp_all
  ultimately obtain n' tab' t' where t': "csp_rtable_parse_loop False (route_line s r # map (route_line s) rs) k t =
      csp_rtable_parse_loop False (map (route_line s) rs) (k + 1) t'"
    "t' = s0\<lparr>rtable_inptr := n', rtable := tab'\<rparr>" "rtable_inv t'" "routes t' = routes t @ [r]"
    using load_step [OF _ Cons.prems(2-5), of r "map (route_line s) rs" k] by blast
  have "\<exists>t''. csp_rtable_parse_loop False (map (route_line s) rs) (k + 1) t' = Some (k + 1 + int (length rs), t'') \<and> routes t'' = routes t' @ rs \<and> rtable_inv t''"
    by (rule Cons.IH [OF _ Cons.prems(2,3) t'(2,3)]) (use Cons.prems t'(4) in simp_all)
  then show ?case using t'(1,4) by auto
qed simp

text \<open>A check sets no route.\<close>

lemma check_loop: "csp_rtable_parse_loop True strs k s = Some (r, s') \<Longrightarrow> s' = s \<or> (\<exists>e. s' = s\<lparr>csp_dbg_errno := e\<rparr>)"
  by (induction strs arbitrary: k) (auto simp: bind_Some_iff split: if_splits)

section \<open>Properties\<close>

text \<open>C27: A routing table that was saved is the table that loading its text gives: if the text fits the buffer of the caller and the 100
  characters that the parser reads, all routes but those of the loopback interface come back, in order, with their address,
  mask, interface and via address, on any node that has interfaces with the same names.\<close>

theorem csp_rtable_text_roundtrip:
  assumes "rtable_inv s" "csp_rtable_save maxlen s = Some (CSP_ERR_NONE, txt)" "maxlen < 2 ^ 31" "length txt \<le> 100"
    "\<forall>r \<in> set (saved s (routes s)). readable s0 s r" "csp_conf s = csp_conf s0" "iflist s0 xs" "rtable_inv s0" "routes s0 = []"
  shows "\<exists>s'. csp_rtable_load txt s0 = Some (int (length (saved s (routes s))), s') \<and> routes s' = saved s (routes s) \<and> rtable_inv s'"
proof -
  let ?rs = "saved s (routes s)"
  have lines: "txt = join (map (route_line s) ?rs)" by (rule csp_rtable_save_text [OF assms(2,1,3)])
  have "route_line s r \<noteq> [] \<and> CHR '','' \<notin> set (route_line s r)" if "r \<in> set ?rs" for r
    using assms(5) that route_text_token(1) [of "route_name s r" "csp_conf s" r] route_text_token(2) [of "csp_conf s" "route_name s r" r] by (auto simp: route_line_def readable_def)
  then have "\<forall>t \<in> set (map (route_line s) ?rs). t \<noteq> [] \<and> CHR '','' \<notin> set t" by auto
  then have tok: "strtok CHR '','' txt = map (route_line s) ?rs" unfolding lines by (rule strtok_join)
  have eq: "s0 = s0\<lparr>rtable_inptr := rtable_inptr s0, rtable := rtable s0\<rparr>" by (cases s0) simp
  have "length ?rs \<le> length (routes s)" by (simp add: saved_def)
  then have len: "length (routes s0 @ ?rs) \<le> CSP_RTABLE_SIZE" using assms(1,9) length_routes [OF assms(1)] by (simp add: rtable_inv_def)
  have dist: "distinct (map (\<lambda>r. (r_address r, r_netmask r)) (routes s0 @ ?rs))"
    using assms(1,9) by (simp add: rtable_inv_def saved_def distinct_map_filter)
  from load_loop [OF assms(5-7) eq assms(8) len dist, of 0] show ?thesis
    using tok assms(4,9) by (simp add: csp_rtable_load_def csp_rtable_parse_def)
qed

definition text_node :: node where
  "text_node = example_routes\<lparr>ifaces := [zero_iface\<lparr>if_name := ''LOOP'', if_next := Some 1\<rparr>,
     zero_iface\<lparr>if_name := ''KISS'', if_next := Some 2\<rparr>, zero_iface\<lparr>if_name := ''CAN''\<rparr>], interfaces := Some 0\<rparr>"

lemma text_node_facts:
  "rtable_inv text_node" "routes text_node = routes example_routes" "iflist text_node [0, 1, 2]"
  "csp_rtable_save 50 text_node = Some (CSP_ERR_NONE, ''8/11 KISS,0/0 CAN'')"
proof -
  show "rtable_inv text_node" "routes text_node = routes example_routes"
    using example_routes_inv(1) by (simp_all add: text_node_def rtable_inv_def routes_def)
  show "iflist text_node [0, 1, 2]" by (simp add: text_node_def iflist_def zero_iface_def)
  have n: "[0..<2] = [0, 1 :: nat]" by (simp add: upt_rec)
  have d: "decimal 8 = ''8''" "decimal 11 = ''11''" "decimal 0 = ''0''"
    by (simp_all add: decimal.simps [of 8] decimal.simps [of 11] decimal.simps [of "Suc 0"] decimal.simps [of 0] digit_char_def char_of_def bit_0)
  show "csp_rtable_save 50 text_node = Some (CSP_ERR_NONE, ''8/11 KISS,0/0 CAN'')"
    by (simp add: csp_rtable_save_def csp_rtable_iterate_def text_node_def example_routes_def n rtable_at_def csp_rtable_save_route_def get_iface_def
        zero_iface_def mask_str_def via_str_def csp_id_get_host_bits_def d)
qed

theorem csp_rtable_text_roundtrip_witness:
  "\<exists>s'. csp_rtable_load ''8/11 KISS,0/0 CAN'' (text_node\<lparr>rtable_inptr := 0\<rparr>) = Some (2, s') \<and> routes s' = routes example_routes"
proof -
  let ?s0 = "text_node\<lparr>rtable_inptr := 0\<rparr>"
  have s0: "csp_conf text_node = csp_conf ?s0" "iflist ?s0 [0, 1, 2]" "rtable_inv ?s0" "routes ?s0 = []"
    using text_node_facts(1) by (simp_all add: rtable_inv_def routes_def text_node_def iflist_def zero_iface_def)
  have sv: "saved text_node (routes text_node) = routes example_routes"
    by (simp add: text_node_facts(2) example_routes_inv(2) saved_def route_name_def) (simp add: text_node_def zero_iface_def)
  have "readable ?s0 text_node r" if "r \<in> set (saved text_node (routes text_node))" for r
    using that csp_iflist_get_by_name_find [OF s0(2)] unfolding sv example_routes_inv(2)
    by (auto simp: readable_def route_name_def text_node_def zero_iface_def name_ok_def is_space_def same_name_def example_routes_def
        csp_id_get_host_bits_def csp_id_get_max_nodeid_def)
  from csp_rtable_text_roundtrip [OF text_node_facts(1,4) _ _ _ s0] this show ?thesis by (auto simp: sv example_routes_inv(2))
qed

end
