(* ===== verification/Csp_Kiss.thy ===== *)
theory Csp_Kiss
  imports Csp_Route
begin

text \<open>
  The KISS interface for serial lines (\<^verbatim>\<open>src/interfaces/csp_if_kiss.c\<close>): frames are delimited by a byte that is
  escaped inside them, and carry a checksum. The bytes that are given to the driver are part of the result of the
  transmit function; the driver's own result is not used by the code.
\<close>

section \<open>Model\<close>

definition FEND :: u8 where [simp, csp_defs]: "FEND = 0xC0"
definition FESC :: u8 where [simp, csp_defs]: "FESC = 0xDB"
definition TFEND :: u8 where [simp, csp_defs]: "TFEND = 0xDC"
definition TFESC :: u8 where [simp, csp_defs]: "TFESC = 0xDD"
definition TNC_DATA :: u8 where [simp, csp_defs]: "TNC_DATA = 0x00"

text \<open>The body of the loop of \<^verbatim>\<open>csp_kiss_tx\<close>.\<close>

definition kiss_escape :: "u8 \<Rightarrow> u8 list" where
  "kiss_escape b = (if b = FEND then [FESC, TFEND] else if b = FESC then [FESC, TFESC] else [b])"

definition csp_kiss_tx :: "nat \<Rightarrow> u16 \<Rightarrow> nat \<Rightarrow> node \<Rightarrow> (int \<times> u8 list) csp" where
  "csp_kiss_tx iface via packet s = do {
     x \<leftarrow> get_packet packet s;
     (_, x) \<leftarrow> csp_crc32_append False (csp_conf s) x;
     let x = csp_id_prepend (csp_conf s) x;
     fr \<leftarrow> mem_read (frame_begin x) (unat (frame_length x)) (bytes x);
     let out = [FEND, TNC_DATA] @ concat (map kiss_escape fr) @ [FEND];
     (_, s) \<leftarrow> csp_buffer_free (Some packet) (put_packet packet x s);
     Some ((CSP_ERR_NONE, out), s)
   }"

text \<open>The state of the interface.\<close>

definition get_kiss :: "nat \<Rightarrow> node \<Rightarrow> csp_kiss_interface_data_t option" where
  "get_kiss i s = do { f \<leftarrow> get_iface i s; (case if_data f of Kiss_Data k \<Rightarrow> Some k | _ \<Rightarrow> None) }"

definition put_kiss :: "nat \<Rightarrow> csp_kiss_interface_data_t \<Rightarrow> node \<Rightarrow> node" where
  "put_kiss i k s = put_iface i ((ifaces s ! i)\<lparr>if_data := Kiss_Data k\<rparr>) s"

text \<open>\<^verbatim>\<open>frame_begin[rx_length++] = b\<close>\<close>

definition kiss_store :: "nat \<Rightarrow> csp_kiss_interface_data_t \<Rightarrow> u8 \<Rightarrow> node \<Rightarrow> (csp_kiss_interface_data_t \<times> node) option" where
  "kiss_store iface k b s = do {
     p \<leftarrow> rx_packet k;
     x \<leftarrow> get_packet p s;
     m \<leftarrow> mem_write (frame_begin x + rx_length k) [b] (bytes x);
     Some (k\<lparr>rx_length := rx_length k + 1\<rparr>, put_packet p (x\<lparr>bytes := m\<rparr>) s)
   }"

text \<open>The end of a frame that has data.\<close>

definition kiss_accept :: "nat \<Rightarrow> csp_kiss_interface_data_t \<Rightarrow> bool \<Rightarrow> node \<Rightarrow> unit csp" where
  "kiss_accept iface k isr s = do {
     p \<leftarrow> rx_packet k;
     x \<leftarrow> get_packet p s;
     (r, x) \<leftarrow> csp_id_strip (csp_conf s) (x\<lparr>frame_length := of_nat (rx_length k)\<rparr>);
     let s = put_packet p x s;
     (if r < 0 then do {
        s \<leftarrow> upd_iface iface (\<lambda>f. f\<lparr>if_rx_error := if_rx_error f + 1\<rparr>) s;
        Some ((), put_kiss iface (k\<lparr>rx_mode := KISS_MODE_NOT_STARTED\<rparr>) s)
      }
      else do {
        s \<leftarrow> upd_iface iface (\<lambda>f. f\<lparr>if_frame := if_frame f + 1\<rparr>) s;
        (r, x) \<leftarrow> csp_crc32_verify (csp_conf s) x;
        let s = put_packet p x s;
        (if r \<noteq> CSP_ERR_NONE then do {
           s \<leftarrow> upd_iface iface (\<lambda>f. f\<lparr>if_rx_error := if_rx_error f + 1\<rparr>) s;
           Some ((), put_kiss iface (k\<lparr>rx_mode := KISS_MODE_NOT_STARTED\<rparr>) s)
         }
         else do {
           (_, s) \<leftarrow> csp_qfifo_write (Some p) (Some iface) isr s;
           Some ((), put_kiss iface (k\<lparr>rx_packet := None, rx_mode := KISS_MODE_NOT_STARTED\<rparr>) s)
         })
      })
   }"

definition csp_kiss_rx_byte :: "nat \<Rightarrow> bool \<Rightarrow> u8 \<Rightarrow> node \<Rightarrow> unit csp" where
  "csp_kiss_rx_byte iface isr inputbyte s = do {
     k \<leftarrow> get_kiss iface s;
     (k, s) \<leftarrow> (if rx_length k \<ge> max_rx_length k then do {
                s \<leftarrow> upd_iface iface (\<lambda>f. f\<lparr>if_rx_error := if_rx_error f + 1\<rparr>) s;
                Some (k\<lparr>rx_mode := KISS_MODE_NOT_STARTED, rx_length := 0\<rparr>, s)
              }
              else Some (k, s));
     (case rx_mode k of
        KISS_MODE_NOT_STARTED \<Rightarrow>
          if inputbyte \<noteq> FEND then Some ((), put_kiss iface k s)
          else do {
            (p, s) \<leftarrow> (case rx_packet k of
                         Some p \<Rightarrow> Some (Some p, s)
                       | None \<Rightarrow> if isr then csp_buffer_get_isr 0 s else csp_buffer_get 0 s);
            (case p of
               None \<Rightarrow> Some ((), put_kiss iface (k\<lparr>rx_mode := KISS_MODE_SKIP_FRAME\<rparr>) s)
             | Some p \<Rightarrow> do {
                 x \<leftarrow> get_packet p s;
                 let s = put_packet p (snd (csp_id_setup_rx (csp_conf s) x)) s;
                 Some ((), put_kiss iface (k\<lparr>rx_packet := Some p, rx_length := 0, rx_mode := KISS_MODE_STARTED, rx_first := True\<rparr>) s)
               })
          }
      | KISS_MODE_STARTED \<Rightarrow>
          if inputbyte = FESC then Some ((), put_kiss iface (k\<lparr>rx_mode := KISS_MODE_ESCAPED\<rparr>) s)
          else if inputbyte = FEND then
            (if rx_length k > 0 then kiss_accept iface k isr s else Some ((), put_kiss iface k s))
          else if rx_first k then Some ((), put_kiss iface (k\<lparr>rx_first := False\<rparr>) s)
          else do {
            (k, s) \<leftarrow> kiss_store iface k inputbyte s;
            Some ((), put_kiss iface k s)
          }
      | KISS_MODE_ESCAPED \<Rightarrow> do {
          (k, s) \<leftarrow> (if inputbyte = TFESC then kiss_store iface k FESC s
                    else if inputbyte = TFEND then kiss_store iface k FEND s else Some (k, s));
          Some ((), put_kiss iface (k\<lparr>rx_mode := KISS_MODE_STARTED\<rparr>) s)
        }
      | KISS_MODE_SKIP_FRAME \<Rightarrow>
          Some ((), put_kiss iface (if inputbyte = FEND then k\<lparr>rx_mode := KISS_MODE_NOT_STARTED\<rparr> else k) s))
   }"

primrec csp_kiss_rx :: "nat \<Rightarrow> u8 list \<Rightarrow> bool \<Rightarrow> node \<Rightarrow> unit csp" where
  "csp_kiss_rx iface [] isr s = Some ((), s)"
| "csp_kiss_rx iface (b # buf) isr s = do {
     (_, s) \<leftarrow> csp_kiss_rx_byte iface isr b s;
     csp_kiss_rx iface buf isr s
   }"

text \<open>
  \<open>iface\<close> is null or an interface; a name, interface data and a transmit function are present when the flags say so.
\<close>

definition csp_kiss_add_interface :: "nat option \<Rightarrow> bool \<Rightarrow> bool \<Rightarrow> node \<Rightarrow> int csp" where
  "csp_kiss_add_interface iface has_name has_tx s =
     (case iface of
        None \<Rightarrow> Some (CSP_ERR_INVAL, s)
      | Some i \<Rightarrow> do {
          f \<leftarrow> get_iface i s;
          (case if_data f of
             Kiss_Data k \<Rightarrow>
               if \<not> has_name \<or> \<not> has_tx then Some (CSP_ERR_INVAL, s)
               else do {
                 let k = \<lparr>max_rx_length = csp_buffer_data_size, rx_mode = KISS_MODE_NOT_STARTED, rx_length = 0,
                   rx_first = False, rx_packet = None\<rparr>;
                 let max_data_size = csp_buffer_data_size - 4;
                 let mtu = (if if_mtu f = 0 \<or> unat (if_mtu f) > max_data_size then of_nat max_data_size else if_mtu f);
                 csp_iflist_add i (put_iface i (f\<lparr>if_data := Kiss_Data k, if_mtu := mtu\<rparr>) s)
               }
           | _ \<Rightarrow> Some (CSP_ERR_INVAL, s))
        })"

section \<open>Receiving a frame\<close>

lemma get_put_kiss [simp]: "i < length (ifaces s) \<Longrightarrow> get_kiss i (put_kiss i k s) = Some k"
  by (simp add: get_kiss_def put_kiss_def get_iface_def put_iface_def)

lemma put_kiss_fields [simp]:
  "csp_conf (put_kiss i k s) = csp_conf s" "qfifo_queue (put_kiss i k s) = qfifo_queue s" "length (ifaces (put_kiss i k s)) = length (ifaces s)"
  "csp_buffer_pool (put_kiss i k s) = csp_buffer_pool s" "get_packet p (put_kiss i k s) = get_packet p s" "accounts H (put_kiss i k s) = accounts H s"
  by (simp_all add: put_kiss_def) (simp_all add: put_iface_def)

lemma put_kiss_twice [simp]: "put_kiss i k (put_kiss i l s) = put_kiss i k s"
  by (cases "i < length (ifaces s)") (simp_all add: put_kiss_def put_iface_def list_update_beyond)

lemma put_kiss_packet: "put_packet p x (put_kiss i k s) = put_kiss i k (put_packet p x s)"
  by (simp add: put_kiss_def put_iface_def put_packet_def)

lemma put_packet_twice [simp]: "put_packet p x (put_packet p y s) = put_packet p x s"
  by (cases "p < length (csp_buffer_pool s)") (simp_all add: put_packet_def list_update_beyond)

text \<open>The interface is in the middle of a frame, and the bytes \<open>fr\<close> are stored.\<close>

definition receiving :: "nat \<Rightarrow> csp_kiss_interface_data_t \<Rightarrow> nat \<Rightarrow> csp_packet_t \<Rightarrow> u8 list \<Rightarrow> node \<Rightarrow> node" where
  "receiving i k q x fr s = put_kiss i (k\<lparr>rx_packet := Some q, rx_length := length fr, rx_mode := KISS_MODE_STARTED, rx_first := False\<rparr>)
     (put_packet q (x\<lparr>bytes := mem_put (frame_begin x) fr (bytes x)\<rparr>) s)"

lemma mem_write_snoc:
  assumes "off + length bs < length m"
  shows "mem_write (off + length bs) [b] (mem_put off bs m) = Some (mem_put off (bs @ [b]) m)"
proof -
  have "List.drop (off + length bs) m = m ! (off + length bs) # List.drop (Suc (off + length bs)) m" using assms by (rule Cons_nth_drop_Suc [symmetric])
  then show ?thesis using assms by (simp add: mem_write_def mem_put_def)
qed

lemma kiss_store_next:
  assumes "rx_packet k = Some q" "rx_length k = length fr" "q < length (csp_buffer_pool s)" "frame_begin x + length fr < length (bytes x)"
  shows "kiss_store i k b (put_kiss i l (put_packet q (x\<lparr>bytes := mem_put (frame_begin x) fr (bytes x)\<rparr>) s)) =
    Some (k\<lparr>rx_length := Suc (length fr)\<rparr>, put_kiss i l (put_packet q (x\<lparr>bytes := mem_put (frame_begin x) (fr @ [b]) (bytes x)\<rparr>) s))"
  using assms(1,2) mem_write_snoc [OF assms(4), of b] get_put_packet [OF assms(3)] by (simp add: kiss_store_def put_kiss_packet)

lemma kiss_byte:
  assumes "i < length (ifaces s)" "q < length (csp_buffer_pool s)" "length fr < max_rx_length k" "frame_begin x + length fr < length (bytes x)"
  shows "csp_kiss_rx i (kiss_escape b) isr (receiving i k q x fr s) = Some ((), receiving i k q x (fr @ [b]) s)"
  using assms(1-3) by (cases k) (simp add: kiss_escape_def receiving_def csp_kiss_rx_byte_def kiss_store_next [OF _ _ assms(2,4)])

lemma kiss_rx_append:
  "csp_kiss_rx i (xs @ ys) isr s = (do { (_, s) \<leftarrow> csp_kiss_rx i xs isr s; csp_kiss_rx i ys isr s })"
  by (induction xs arbitrary: s) (simp_all add: case_prod_unfold)

lemma kiss_bytes:
  assumes "i < length (ifaces s)" "q < length (csp_buffer_pool s)"
  shows "length fr + length bs \<le> max_rx_length k \<Longrightarrow> frame_begin x + length fr + length bs \<le> length (bytes x) \<Longrightarrow>
    csp_kiss_rx i (concat (map kiss_escape bs)) isr (receiving i k q x fr s) = Some ((), receiving i k q x (fr @ bs) s)"
proof (induction bs arbitrary: fr)
  case Nil
  then show ?case by simp
next
  case (Cons b bs)
  from Cons.prems have "csp_kiss_rx i (kiss_escape b) isr (receiving i k q x fr s) = Some ((), receiving i k q x (fr @ [b]) s)"
    by (intro kiss_byte [OF assms]) simp_all
  then show ?case using Cons.IH [of "fr @ [b]"] Cons.prems by (simp add: kiss_rx_append)
qed

text \<open>The first byte behind the delimiter is skipped.\<close>

lemma kiss_start:
  assumes "get_kiss i s = Some k" "i < length (ifaces s)" "rx_mode k = KISS_MODE_NOT_STARTED" "rx_packet k = None" "rx_length k < max_rx_length k"
    "accounts H s" "free_list s = q # fs" "get_packet q s = Some x"
  shows "csp_kiss_rx i [FEND, TNC_DATA] False s =
    Some ((), receiving i k q (snd (csp_id_setup_rx (csp_conf s) x)) [] (take_buffer q s))"
proof -
  have "pool_inv s" using assms(6) by (simp add: accounts_def)
  with assms(7) have get: "csp_buffer_get 0 s = Some (Some q, take_buffer q s)" "get_packet q (take_buffer q s) = Some x"
    using take_buffer_inv(4) [of s q fs q] assms(8) by (simp_all add: csp_buffer_get_eq)
  have t: "csp_conf (take_buffer q s) = csp_conf s" "ifaces (take_buffer q s) = ifaces s" by (simp_all add: take_buffer_def)
  have l: "length (ifaces (put_packet p y (take_buffer q s))) = length (ifaces s)" for p y by (simp add: t put_packet_def)
  show ?thesis using assms(1-5) get t
    by (cases k) (simp add: csp_kiss_rx_byte_def receiving_def mem_put_def l)
qed

text \<open>The delimiter behind a complete frame.\<close>

lemma kiss_end:
  fixes conf defines "n \<equiv> id_header_size conf"
  assumes s: "accounts (add_mset q H) s" "csp_conf s = conf" "i < length (ifaces s)" "items (qfifo_queue s) < qsize (qfifo_queue s)"
    and x: "length (bytes x) = PACKET_BYTES" "frame_begin x = DATA_OFFSET - n"
    and p: "packet_wf p" "id_fits conf (pid p)" "pdata p = d @ crc_tag d"
    and len: "length (pframe (csp_id_prepend conf p)) < max_rx_length k"
  shows "\<exists>y s'. csp_kiss_rx i [FEND] False (receiving i k q x (pframe (csp_id_prepend conf p)) s) = Some ((), s') \<and>
    get_packet q s' = Some y \<and> pid y = pid p \<and> pdata y = d \<and> packet_wf y \<and> accounts H s' \<and>
    queue_list (qfifo_queue s') = queue_list (qfifo_queue s) @ [\<lparr>q_iface = Some i, q_packet = Some q\<rparr>]"
proof -
  let ?fr = "pframe (csp_id_prepend conf p)"
  let ?x = "x\<lparr>bytes := mem_put (frame_begin x) ?fr (bytes x)\<rparr>"
  let ?r = "load_frame n ?fr x"
  have n: "0 < n" "n \<le> 6" by (simp_all add: n_def id_header_size_def)
  have q: "q < CSP_BUFFER_COUNT" "length (csp_buffer_pool s) = CSP_BUFFER_COUNT"
    using accounts_held [OF s(1)] by (simp_all add: pool_inv_def)
  have g: "get_packet q (put_packet q y t) = Some y" if "length (csp_buffer_pool t) = CSP_BUFFER_COUNT" for y t
    using get_put_packet [of q t q y] q that by simp
  obtain r where r: "csp_id_strip conf ?r = Some (0, r)" "pid r = pid p" "pdata r = pdata p" "packet_wf r"
    using id.receive_transmitted [OF p(1,2) x(1)] by (auto simp: n_def)
  from crc.ver_good [OF r(4), of d conf] r p(3) obtain y where
    y: "csp_crc32_verify conf r = Some (CSP_ERR_NONE, y)" "packet_wf y" "pid y = pid p" "pdata y = d" by auto
  have fr: "length ?fr = n + unat (plen p)"
    using id.pframe_prepend [OF p(1), of conf] id.prepend_fields(5) [OF p(1), of conf] length_pdata [OF p(1)] n
    by (simp add: n_def [symmetric])
  have fx: "?x\<lparr>frame_length := of_nat (length ?fr)\<rparr> = ?r" using x(2) by (cases x) (simp add: load_frame_def)
  have len': "length (bytes ?x) = PACKET_BYTES" using x p(1) fr n by (simp add: packet_wf_def)
  define s1 where "s1 = put_packet q ?x s"
  have s1: "csp_conf s1 = conf" "length (ifaces s1) = length (ifaces s)" "length (csp_buffer_pool s1) = CSP_BUFFER_COUNT"
    "qfifo_queue s1 = qfifo_queue s" "accounts (add_mset q H) s1" "get_packet q s1 = Some ?x"
    using accounts_put [OF s(1) len'] g [OF q(2)] s(2) q(2) by (simp_all add: s1_def put_packet_def)
  define k' where "k' = k\<lparr>rx_packet := Some q, rx_length := length ?fr, rx_mode := KISS_MODE_STARTED, rx_first := False\<rparr>"
  let ?e = "\<lparr>q_iface = Some i, q_packet = Some q\<rparr>"
  define s2 where "s2 = put_packet q y (put_iface i ((ifaces s1 ! i)\<lparr>if_data := Kiss_Data k', if_frame := if_frame (ifaces s1 ! i) + 1\<rparr>) s1)"
  have wf: "queue_wf (qfifo_queue s)" "items (qfifo_queue s) \<noteq> qsize (qfifo_queue s)"
    using s(1,4) by (simp_all add: accounts_def queues_inv_def)
  have "length (bytes y) = PACKET_BYTES" using y(2) by (simp add: packet_wf_def)
  then have s2: "accounts (add_mset q H) s2" unfolding s2_def using s1(5) by (intro accounts_put) simp_all
  have s2': "qfifo_queue s2 = qfifo_queue s" "get_packet q s2 = Some y"
    using s1(3,4) q by (simp_all add: s2_def access_defs)
  have pu: "csp_queue_enqueue (qfifo_queue s) ?e 1 = Some (CSP_QUEUE_OK, queue_push ?e (qfifo_queue s))"
    using wf(2) by (rule csp_queue_enqueue_room)
  have acc: "kiss_accept i k' False (put_kiss i k' s1) =
      Some ((), put_kiss i (k'\<lparr>rx_packet := None, rx_mode := KISS_MODE_NOT_STARTED\<rparr>) (s2\<lparr>qfifo_queue := queue_push ?e (qfifo_queue s)\<rparr>))"
    using s1(1-4,6) s(3) r(1) y(1) fx q pu
    by (simp add: kiss_accept_def k'_def s2_def put_kiss_def upd_iface_def access_defs csp_qfifo_write_def)
  have "csp_kiss_rx_byte i False FEND (put_kiss i k' s1) = kiss_accept i k' False (put_kiss i k' s1)"
    using s1(2) s(3) len fr n(1) by (simp add: csp_kiss_rx_byte_def k'_def)
  then have "csp_kiss_rx i [FEND] False (receiving i k q x ?fr s) =
      Some ((), put_kiss i (k'\<lparr>rx_packet := None, rx_mode := KISS_MODE_NOT_STARTED\<rparr>) (s2\<lparr>qfifo_queue := queue_push ?e (qfifo_queue s)\<rparr>))"
    by (simp only: csp_kiss_rx.simps receiving_def k'_def [symmetric] s1_def [symmetric] acc) simp
  moreover have "accounts H (s2\<lparr>qfifo_queue := queue_push ?e (qfifo_queue s)\<rparr>)"
    using accounts_qfifo_push [OF s2, of ?e] s(4) s2'(1) by simp
  ultimately show ?thesis using y s2'(2) queue_push_list [OF wf(1) s(4), of ?e] by simp
qed

text \<open>What the transmit function gives to the driver.\<close>

lemma kiss_tx_frame:
  assumes "accounts (add_mset p H) s" "get_packet p s = Some x" "packet_wf x" "unat (plen x) + 4 \<le> CSP_BUFFER_SIZE"
  shows "\<exists>x1 s'. csp_kiss_tx j via p s =
      Some ((CSP_ERR_NONE, [FEND, TNC_DATA] @ concat (map kiss_escape (pframe (csp_id_prepend (csp_conf s) x1))) @ [FEND]), s') \<and>
    accounts H s' \<and> packet_wf x1 \<and> pid x1 = pid x \<and> pdata x1 = pdata x @ crc_tag (pdata x)"
proof -
  from crc.app_room [OF assms(3,4), of "csp_conf s"] obtain x1 where
    x1: "csp_crc32_append False (csp_conf s) x = Some (CSP_ERR_NONE, x1)" "packet_wf x1" "pid x1 = pid x" "pdata x1 = pdata x @ crc_tag (pdata x)" by auto
  let ?y = "csp_id_prepend (csp_conf s) x1"
  note f = id.prepend_fields [OF x1(2), of "csp_conf s"] id.frame_length_nat [OF x1(2), of "csp_conf s"]
  have "id_header_size (csp_conf s) \<le> 6" by (simp add: id_header_size_def)
  then have "frame_begin ?y + unat (frame_length ?y) \<le> length (bytes ?y)"
    using f(3,5,7) x1(2) by (simp add: packet_wf_def)
  then have "mem_read (frame_begin ?y) (unat (frame_length ?y)) (bytes ?y) = Some (pframe ?y)" by (simp add: mem_read_def pframe_def)
  moreover have "accounts (add_mset p H) (put_packet p ?y s)" using accounts_put [OF assms(1) f(5)] .
  note fr = accounts_free [OF this]
  ultimately have "csp_kiss_tx j via p s =
      Some ((CSP_ERR_NONE, [FEND, TNC_DATA] @ concat (map kiss_escape (pframe ?y)) @ [FEND]), give_buffer p (put_packet p ?y s))"
    using x1(1) assms(2) by (simp add: csp_kiss_tx_def Let_def)
  then show ?thesis using fr(2) x1(2-4) by blast
qed

lemma kiss_rx_frame:
  assumes "get_kiss i s = Some k" "i < length (ifaces s)" "rx_mode k = KISS_MODE_NOT_STARTED" "rx_packet k = None" "rx_length k < max_rx_length k"
    "accounts H s" "free_list s = q # fs" "get_packet q s = Some x" "length bs \<le> max_rx_length k" "id_header_size (csp_conf s) + CSP_BUFFER_SIZE \<ge> length bs"
  shows "csp_kiss_rx i ([FEND, TNC_DATA] @ concat (map kiss_escape bs) @ out) False s =
    csp_kiss_rx i out False (receiving i k q (snd (csp_id_setup_rx (csp_conf s) x)) bs (take_buffer q s))"
proof -
  note a = accounts_take [OF assms(6,7)]
  from accounts_packet [OF a] take_buffer_inv(4) [of s q fs q] assms(6-8) have x: "length (bytes x) = PACKET_BYTES"
    by (auto simp: accounts_def)
  have l: "q < length (csp_buffer_pool (take_buffer q s))" "i < length (ifaces (take_buffer q s))"
    using accounts_held [OF a] assms(2) by (simp_all add: pool_inv_def) (simp_all add: take_buffer_def)
  have "id_header_size (csp_conf s) \<le> 6" by (simp add: id_header_size_def)
  then have "csp_kiss_rx i (concat (map kiss_escape bs)) False (receiving i k q (snd (csp_id_setup_rx (csp_conf s) x)) [] (take_buffer q s)) =
    Some ((), receiving i k q (snd (csp_id_setup_rx (csp_conf s) x)) ([] @ bs) (take_buffer q s))"
    using x assms(9,10) by (intro kiss_bytes l) (simp_all add: csp_id_setup_rx_eq)
  then show ?thesis unfolding kiss_rx_append using kiss_start [OF assms(1-8)] by simp
qed

text \<open>Between frames everything but the delimiter is skipped, and an overlong frame ends at the first byte that does not fit.\<close>

lemma kiss_escape_no_fend: "FEND \<notin> set (kiss_escape b)"
  by (simp add: kiss_escape_def)

lemma put_kiss_same:
  assumes "get_kiss i s = Some k"
  shows "put_kiss i k s = s"
proof -
  have "if_data (ifaces s ! i) = Kiss_Data k"
    using assms by (auto simp: get_kiss_def get_iface_def bind_Some_iff split: if_splits if_data_t.splits)
  then have "(ifaces s ! i)\<lparr>if_data := Kiss_Data k\<rparr> = ifaces s ! i" by simp
  then show ?thesis by (simp add: put_kiss_def put_iface_def)
qed

lemma kiss_skip:
  assumes "get_kiss i s = Some k" "rx_mode k = KISS_MODE_NOT_STARTED" "rx_length k < max_rx_length k"
  shows "FEND \<notin> set bs \<Longrightarrow> csp_kiss_rx i bs isr s = Some ((), s)"
proof (induction bs)
  case (Cons b bs)
  have "put_kiss i k s = s" using assms(1) by (rule put_kiss_same)
  then have "csp_kiss_rx_byte i isr b s = Some ((), s)" using Cons.prems assms by (simp add: csp_kiss_rx_byte_def)
  then show ?case using Cons by simp
qed simp

lemma kiss_restart:
  assumes "get_kiss i s = Some k" "rx_mode k = KISS_MODE_NOT_STARTED" "rx_length k < max_rx_length k" "rx_packet k = Some q" "q < length (csp_buffer_pool s)" "i < length (ifaces s)"
  shows "\<exists>s'. csp_kiss_rx_byte i isr FEND s = Some ((), s') \<and> qfifo_queue s' = qfifo_queue s \<and> if_rx_error (ifaces s' ! i) = if_rx_error (ifaces s ! i)"
  using assms by (simp add: csp_kiss_rx_byte_def get_packet_def put_kiss_def put_iface_def put_packet_def Let_def)

lemma kiss_overlong:
  assumes "i < length (ifaces s)" "q < length (csp_buffer_pool s)" "length bs = max_rx_length k" "0 < max_rx_length k" "FEND \<notin> set rest"
  shows "\<exists>s'. csp_kiss_rx i (rest @ [FEND]) isr (receiving i k q x bs s) = Some ((), s') \<and>
    qfifo_queue s' = qfifo_queue s \<and> if_rx_error (ifaces s' ! i) = if_rx_error (ifaces s ! i) + 1"
proof -
  let ?t = "receiving i k q x bs s"
  let ?k = "k\<lparr>rx_packet := Some q, rx_length := 0, rx_mode := KISS_MODE_NOT_STARTED, rx_first := False\<rparr>"
  define t where "t = put_iface i ((ifaces s ! i)\<lparr>if_data := Kiss_Data ?k, if_rx_error := if_rx_error (ifaces s ! i) + 1\<rparr>)
    (put_packet q (x\<lparr>bytes := mem_put (frame_begin x) bs (bytes x)\<rparr>) s)"
  have t: "get_kiss i t = Some ?k" "qfifo_queue t = qfifo_queue s" "if_rx_error (ifaces t ! i) = if_rx_error (ifaces s ! i) + 1"
    "i < length (ifaces t)" "q < length (csp_buffer_pool t)"
    using assms(1,2) by (simp_all add: t_def get_kiss_def put_kiss_def access_defs)
  note t6 = put_kiss_same [OF t(1)]
  have first: "csp_kiss_rx_byte i isr b ?t = csp_kiss_rx_byte i isr b t" for b
    using assms t(1) t6 by (cases k) (simp add: csp_kiss_rx_byte_def receiving_def upd_iface_def t_def put_kiss_def access_defs get_kiss_def)
  obtain b bs' where "rest @ [FEND] = b # bs'" by (cases rest) auto
  then have "csp_kiss_rx i (rest @ [FEND]) isr ?t = csp_kiss_rx i (rest @ [FEND]) isr t"
    by (simp only: csp_kiss_rx.simps first)
  also have "\<dots> = csp_kiss_rx i [FEND] isr t"
    unfolding kiss_rx_append using kiss_skip [OF t(1)] assms(4,5) by simp
  finally show ?thesis using kiss_restart [OF t(1), of q isr] t(2-5) assms(4) by auto
qed

text \<open>Only the version of the configuration matters for frames.\<close>

lemma id_version:
  assumes "version c = version d"
  shows "csp_id_prepend c = csp_id_prepend d" "id_fits c = id_fits d" "id_header_size c = id_header_size d"
  using assms by (auto simp: csp_id_prepend_def id_fits_def id_header_size_def fun_eq_iff)

lemma length_pframe_prepend: "packet_wf p \<Longrightarrow> length (pframe (csp_id_prepend conf p)) = id_header_size conf + unat (plen p)"
  using id.pframe_prepend [of p conf] id.prepend_fields(5) [of p conf] length_pdata [of p]
  by (simp add: id_header_size_def)

lemma plen_appended:
  assumes "packet_wf x" "packet_wf y" "pdata y = pdata x @ crc_tag (pdata x)"
  shows "unat (plen y) = unat (plen x) + 4"
  using assms length_pdata [of x] length_pdata [of y] by simp

section \<open>Properties\<close>

text \<open>C8: A packet that one node transmits over KISS, and whose frame is shorter than the limit of the receiver, reaches the input
  queue of the other node with its identifier and data: the bytes given to the driver are unescaped, the header and the
  checksum are checked and removed. The sender's buffer is freed, and the receiver's buffers stay accounted for.\<close>

theorem csp_kiss_roundtrip:
  assumes "accounts (add_mset p H0) s0" "get_packet p s0 = Some x" "packet_wf x" "id_fits (csp_conf s0) (pid x)"
    "version (csp_conf s) = version (csp_conf s0)" "get_kiss i s = Some k" "i < length (ifaces s)"
    "rx_mode k = KISS_MODE_NOT_STARTED" "rx_packet k = None" "rx_length k < max_rx_length k"
    "accounts H s" "free_list s = q # fs" "items (qfifo_queue s) < qsize (qfifo_queue s)"
    "id_header_size (csp_conf s0) + unat (plen x) + 4 < max_rx_length k" "max_rx_length k \<le> csp_buffer_data_size"
  shows "\<exists>out s0' s' y. csp_kiss_tx j via p s0 = Some ((CSP_ERR_NONE, out), s0') \<and> accounts H0 s0' \<and>
    csp_kiss_rx i out False s = Some ((), s') \<and> accounts H s' \<and>
    queue_list (qfifo_queue s') = queue_list (qfifo_queue s) @ [\<lparr>q_iface = Some i, q_packet = Some q\<rparr>] \<and>
    get_packet q s' = Some y \<and> pid y = pid x \<and> pdata y = pdata x"
proof -
  note v = id_version [OF assms(5)]
  from kiss_tx_frame [OF assms(1-3), of j via] assms(14,15) obtain x1 s0' where tx: "csp_kiss_tx j via p s0 =
      Some ((CSP_ERR_NONE, [FEND, TNC_DATA] @ concat (map kiss_escape (pframe (csp_id_prepend (csp_conf s) x1))) @ [FEND]), s0')"
    "accounts H0 s0'" "packet_wf x1" "pid x1 = pid x" "pdata x1 = pdata x @ crc_tag (pdata x)"
    by (auto simp: v csp_buffer_data_size_def)
  let ?fr = "pframe (csp_id_prepend (csp_conf s) x1)"
  have len: "length ?fr < max_rx_length k" "length ?fr \<le> id_header_size (csp_conf s) + CSP_BUFFER_SIZE"
    using assms(14,15) plen_appended [OF assms(3) tx(3,5)] length_pframe_prepend [OF tx(3)]
    by (simp_all add: v csp_buffer_data_size_def)
  note a = accounts_take [OF assms(11,12)]
  obtain z where z: "get_packet q (take_buffer q s) = Some z" "length (bytes z) = PACKET_BYTES" using accounts_packet [OF a] by auto
  then have z': "get_packet q s = Some z" using take_buffer_inv(4) [OF _ assms(12), of q] assms(11) by (simp add: accounts_def)
  have t: "csp_conf (take_buffer q s) = csp_conf s" "ifaces (take_buffer q s) = ifaces s" "qfifo_queue (take_buffer q s) = qfifo_queue s"
    by (simp_all add: take_buffer_def)
  have "\<exists>y s'. csp_kiss_rx i [FEND] False (receiving i k q (snd (csp_id_setup_rx (csp_conf s) z)) ?fr (take_buffer q s)) = Some ((), s') \<and>
    get_packet q s' = Some y \<and> pid y = pid x1 \<and> pdata y = pdata x \<and> packet_wf y \<and> accounts H s' \<and>
    queue_list (qfifo_queue s') = queue_list (qfifo_queue s) @ [\<lparr>q_iface = Some i, q_packet = Some q\<rparr>]"
    using kiss_end [OF a t(1), of i "snd (csp_id_setup_rx (csp_conf s) z)" x1 "pdata x" k] assms(4,7,13) len(1) z(2) tx(3-5) t(2,3)
    by (simp add: v csp_id_setup_rx_eq)
  moreover have "csp_kiss_rx i ([FEND, TNC_DATA] @ concat (map kiss_escape ?fr) @ [FEND]) False s =
      csp_kiss_rx i [FEND] False (receiving i k q (snd (csp_id_setup_rx (csp_conf s) z)) ?fr (take_buffer q s))"
    using len kiss_rx_frame [OF assms(6-12) z', of ?fr "[FEND]"] by simp
  ultimately show ?thesis using tx(1,2,4) by metis
qed

definition kiss_node :: node where
  "kiss_node = put_iface 1 (zero_iface\<lparr>if_name := ''KISS'', if_mtu := 252, if_data := Kiss_Data \<lparr>max_rx_length = 256, rx_mode = KISS_MODE_NOT_STARTED, rx_length = 0,
     rx_first = False, rx_packet = None\<rparr>\<rparr>) (give_buffer 3 busy_node)"

lemma kiss_node_facts:
  "accounts (mset_set ({..<15} - {3})) kiss_node" "free_list kiss_node = [3]" "version (csp_conf kiss_node) = 2" "1 < length (ifaces kiss_node)"
  "get_kiss 1 kiss_node = Some \<lparr>max_rx_length = 256, rx_mode = KISS_MODE_NOT_STARTED, rx_length = 0, rx_first = False, rx_packet = None\<rparr>"
  "items (qfifo_queue kiss_node) < qsize (qfifo_queue kiss_node)" "queue_list (qfifo_queue kiss_node) = []"
proof -
  note h = accounts_held [OF busy_node_held(1)]
  show "accounts (mset_set ({..<15} - {3})) kiss_node" using accounts_give [OF busy_node_held(1)] by (simp add: kiss_node_def)
  have "free_list busy_node = []" by (simp add: busy_node_def ready_node_def held_node_def zero_node_def free_list_def)
  with give_buffer_inv(2) [OF h(4,1)] show "free_list kiss_node = [3]" by (simp add: kiss_node_def)
  show "version (csp_conf kiss_node) = 2" "1 < length (ifaces kiss_node)" "items (qfifo_queue kiss_node) < qsize (qfifo_queue kiss_node)"
    "get_kiss 1 kiss_node = Some \<lparr>max_rx_length = 256, rx_mode = KISS_MODE_NOT_STARTED, rx_length = 0, rx_first = False, rx_packet = None\<rparr>"
    "queue_list (qfifo_queue kiss_node) = []"
    by (simp_all add: kiss_node_def give_buffer_def busy_node_def ready_node_def held_node_def zero_node_def put_iface_def get_kiss_def get_iface_def
        empty_queue_def zero_conf_def queue_list_def)
qed

lemma kiss_sender:
  assumes "n \<le> CSP_BUFFER_SIZE"
  defines "s0 \<equiv> put_packet 3 (zero_packet\<lparr>plen := of_nat n\<rparr>) busy_node"
  shows "accounts (add_mset 3 (mset_set ({..<15} - {3}))) s0" "get_packet 3 s0 = Some (zero_packet\<lparr>plen := of_nat n\<rparr>)"
    "packet_wf (zero_packet\<lparr>plen := of_nat n\<rparr>)" "id_fits (csp_conf s0) (pid (zero_packet\<lparr>plen := of_nat n\<rparr>))" "version (csp_conf s0) = 2"
proof -
  have w: "length (bytes (zero_packet\<lparr>plen := of_nat n\<rparr>)) = PACKET_BYTES" by (simp add: zero_packet_def)
  show "accounts (add_mset 3 (mset_set ({..<15} - {3}))) s0" unfolding s0_def using busy_node_held(1) w by (rule accounts_put)
  show "packet_wf (zero_packet\<lparr>plen := of_nat n\<rparr>)" using w assms(1) by (simp add: packet_wf_def)
  show "get_packet 3 s0 = Some (zero_packet\<lparr>plen := of_nat n\<rparr>)" "version (csp_conf s0) = 2"
    "id_fits (csp_conf s0) (pid (zero_packet\<lparr>plen := of_nat n\<rparr>))"
    by (simp_all add: s0_def put_packet_def get_packet_def busy_node_def ready_node_def held_node_def id_fits_def id2_fits_def zero_packet_def
        zero_conf_def zero_id_def)
qed

theorem csp_kiss_roundtrip_witness:
  "\<exists>out s0' s'. csp_kiss_tx 1 0 3 (put_packet 3 (zero_packet\<lparr>plen := 5\<rparr>) busy_node) = Some ((CSP_ERR_NONE, out), s0') \<and>
     csp_kiss_rx 1 out False kiss_node = Some ((), s') \<and> queue_list (qfifo_queue s') = [\<lparr>q_iface = Some 1, q_packet = Some 3\<rparr>]"
proof -
  note s = kiss_sender [of 5, simplified] and k = kiss_node_facts
  have "version (csp_conf kiss_node) = version (csp_conf (put_packet 3 (zero_packet\<lparr>plen := 5\<rparr>) busy_node))" using s(5) k(3) by simp
  from csp_kiss_roundtrip [OF s(1-3) _ this k(5,4) _ _ _ k(1,2,6), of 1 0] s(4,5) k(7) show ?thesis
    by (auto simp: csp_buffer_data_size_def id_header_size_def zero_packet_def)
qed

text \<open>C39: The MTU of a KISS interface leaves room for the checksum only, not for the header, and the receiver checks its limit before every byte. A packet
  that respects the MTU but whose frame is as long as the limit, or longer, is never received: the input queue of the
  other node stays as it is, and its error counter is incremented.\<close>

theorem csp_kiss_long_frame_lost:
  assumes "accounts (add_mset p H0) s0" "get_packet p s0 = Some x" "packet_wf x"
    "version (csp_conf s) = version (csp_conf s0)" "get_kiss i s = Some k" "i < length (ifaces s)"
    "rx_mode k = KISS_MODE_NOT_STARTED" "rx_packet k = None" "rx_length k < max_rx_length k"
    "accounts H s" "free_list s = q # fs" "unat (plen x) \<le> csp_buffer_data_size - 4"
    "id_header_size (csp_conf s0) + unat (plen x) + 4 \<ge> max_rx_length k" "max_rx_length k \<le> csp_buffer_data_size"
  shows "\<exists>out s0' s'. csp_kiss_tx j via p s0 = Some ((CSP_ERR_NONE, out), s0') \<and> csp_kiss_rx i out False s = Some ((), s') \<and>
    qfifo_queue s' = qfifo_queue s \<and> if_rx_error (ifaces s' ! i) = if_rx_error (ifaces s ! i) + 1"
proof -
  note v = id_version [OF assms(4)]
  from kiss_tx_frame [OF assms(1-3), of j via] assms(12) obtain x1 s0' where tx: "csp_kiss_tx j via p s0 =
      Some ((CSP_ERR_NONE, [FEND, TNC_DATA] @ concat (map kiss_escape (pframe (csp_id_prepend (csp_conf s) x1))) @ [FEND]), s0')"
    "packet_wf x1" "pdata x1 = pdata x @ crc_tag (pdata x)"
    by (auto simp: v csp_buffer_data_size_def)
  define fr where "fr = pframe (csp_id_prepend (csp_conf s) x1)"
  have "length fr = id_header_size (csp_conf s) + unat (plen x) + 4"
    using length_pframe_prepend [OF tx(2), of "csp_conf s"] plen_appended [OF assms(3) tx(2,3)] by (simp add: fr_def)
  then have m: "length (take (max_rx_length k) fr) = max_rx_length k" using assms(13) v by simp
  let ?rest = "concat (map kiss_escape (List.drop (max_rx_length k) fr))"
  have split: "concat (map kiss_escape fr) = concat (map kiss_escape (take (max_rx_length k) fr)) @ ?rest"
    by (metis append_take_drop_id concat_append map_append)
  note a = accounts_take [OF assms(10,11)]
  obtain z where z: "get_packet q (take_buffer q s) = Some z" using accounts_packet [OF a] by auto
  then have z': "get_packet q s = Some z" using take_buffer_inv(4) [OF _ assms(11), of q] assms(10) by (simp add: accounts_def)
  have t: "i < length (ifaces (take_buffer q s))" "q < length (csp_buffer_pool (take_buffer q s))"
    using assms(6) accounts_held [OF a] by (simp_all add: pool_inv_def) (simp_all add: take_buffer_def)
  have "csp_kiss_rx i ([FEND, TNC_DATA] @ concat (map kiss_escape (take (max_rx_length k) fr)) @ ?rest @ [FEND]) False s =
      csp_kiss_rx i (?rest @ [FEND]) False
        (receiving i k q (snd (csp_id_setup_rx (csp_conf s) z)) (take (max_rx_length k) fr) (take_buffer q s))"
    using m assms(14) by (intro kiss_rx_frame [OF assms(5-11) z']) (simp_all add: csp_buffer_data_size_def)
  moreover have "FEND \<notin> set ?rest" using kiss_escape_no_fend by auto
  note kiss_overlong [OF t m _ this, of False "snd (csp_id_setup_rx (csp_conf s) z)"]
  ultimately show ?thesis using assms(9) tx(1) unfolding fr_def [symmetric] split
    by (auto simp: take_buffer_def)
qed

theorem csp_kiss_long_frame_lost_witness:
  "\<exists>out s0' s'. csp_kiss_tx 1 0 3 (put_packet 3 (zero_packet\<lparr>plen := 252\<rparr>) busy_node) = Some ((CSP_ERR_NONE, out), s0') \<and>
     csp_kiss_rx 1 out False kiss_node = Some ((), s') \<and> qfifo_queue s' = qfifo_queue kiss_node"
proof -
  note s = kiss_sender [of 252, simplified] and k = kiss_node_facts
  have "version (csp_conf kiss_node) = version (csp_conf (put_packet 3 (zero_packet\<lparr>plen := 252\<rparr>) busy_node))" using s(5) k(3) by simp
  from csp_kiss_long_frame_lost [OF s(1-3) this k(5,4) _ _ _ k(1,2), of 1 0] s(5) show ?thesis
    by (auto simp: csp_buffer_data_size_def zero_packet_def)
qed

end
