(* ===== verification/Csp_Links.thy ===== *)
theory Csp_Links
  imports Csp_Kiss Csp_Rtable_Text
begin

text \<open>
  The interfaces that hand whole frames to a driver or to the system: I2C (\<^verbatim>\<open>src/interfaces/csp_if_i2c.c\<close>), UDP (\<^verbatim>\<open>csp_if_udp.c\<close>), ZMQ
  (\<^verbatim>\<open>csp_if_zmqhub.c\<close>), and the encrypted tunnel (\<^verbatim>\<open>csp_if_tun.c\<close>). What is sent is part of the result; what a driver, a
  socket or the cryptographic hooks give is a parameter. The bodies of the threads that receive are one round each;
  starting the threads and opening the sockets is not modelled.
\<close>

section \<open>Model\<close>

definition CSP_ERR_BUSY :: int where [simp, csp_defs]: "CSP_ERR_BUSY = -6"

subsection \<open>I2C\<close>

text \<open>\<open>tx_func\<close> is the function of the driver.\<close>

definition csp_i2c_tx :: "(nat \<Rightarrow> node \<Rightarrow> int csp) \<Rightarrow> nexthop_t" where
  "csp_i2c_tx tx_func iface via packet s = do {
     f \<leftarrow> get_iface iface s;
     x \<leftarrow> get_packet packet s;
     (if dst (pid x) = if_addr f then do {
        (_, s) \<leftarrow> csp_qfifo_write (Some packet) (Some iface) False s;
        Some (CSP_ERR_NONE, s)
      }
      else do {
        let x = csp_id_prepend (csp_conf s) x;
        let x = x\<lparr>cfpid := ucast (if via \<noteq> CSP_NO_VIA_ADDRESS then via else dst (pid x)) AND 0x7F\<rparr>;
        tx_func packet (put_packet packet x s)
      })
   }"

definition i2c_free :: "bool \<Rightarrow> nat \<Rightarrow> node \<Rightarrow> unit csp" where
  "i2c_free isr packet s = (if isr then csp_buffer_free_isr (Some packet) s else csp_buffer_free (Some packet) s)"

text \<open>The result of parsing the header is not looked at.\<close>

definition csp_i2c_rx :: "nat \<Rightarrow> nat option \<Rightarrow> bool \<Rightarrow> node \<Rightarrow> unit csp" where
  "csp_i2c_rx iface packet isr s =
     (case packet of
        None \<Rightarrow> Some ((), s)
      | Some p \<Rightarrow> do {
          x \<leftarrow> get_packet p s;
          (if unat (frame_length x) < 4 then do {
             s \<leftarrow> upd_iface iface (\<lambda>f. f\<lparr>if_frame := if_frame f + 1\<rparr>) s;
             i2c_free isr p s
           }
           else do {
             (_, x) \<leftarrow> csp_id_strip (csp_conf s) x;
             let s = put_packet p x s;
             (if unat (frame_length x) > csp_buffer_data_size then do {
                s \<leftarrow> upd_iface iface (\<lambda>f. f\<lparr>if_rx_error := if_rx_error f + 1\<rparr>) s;
                i2c_free isr p s
              }
              else csp_qfifo_write packet (Some iface) isr s)
           })
        })"

definition csp_i2c_add_interface :: "nat option \<Rightarrow> bool \<Rightarrow> bool \<Rightarrow> bool \<Rightarrow> node \<Rightarrow> int csp" where
  "csp_i2c_add_interface iface has_name has_data has_tx s =
     (case iface of
        None \<Rightarrow> Some (CSP_ERR_INVAL, s)
      | Some i \<Rightarrow>
          if \<not> has_name \<or> \<not> has_data \<or> \<not> has_tx then Some (CSP_ERR_INVAL, s)
          else do {
            f \<leftarrow> get_iface i s;
            let max_data_size = csp_buffer_data_size;
            let mtu = (if if_mtu f = 0 \<or> unat (if_mtu f) > max_data_size then of_nat max_data_size else if_mtu f);
            csp_iflist_add i (put_iface i (f\<lparr>if_mtu := mtu\<rparr>) s)
          })"

subsection \<open>UDP\<close>

text \<open>\<open>sock\<close> says whether the system gives a socket. The result contains the datagram, if one was sent.\<close>

definition csp_if_udp_tx :: "bool \<Rightarrow> nat \<Rightarrow> u16 \<Rightarrow> nat \<Rightarrow> node \<Rightarrow> (int \<times> u8 list option) csp" where
  "csp_if_udp_tx sock iface via packet s =
     (if \<not> sock then Some ((CSP_ERR_BUSY, None), s)
      else do {
        x \<leftarrow> get_packet packet s;
        let x = csp_id_prepend (csp_conf s) x;
        fr \<leftarrow> mem_read (frame_begin x) (unat (frame_length x)) (bytes x);
        (_, s) \<leftarrow> csp_buffer_free (Some packet) (put_packet packet x s);
        Some ((CSP_ERR_NONE, Some fr), s)
      })"

text \<open>\<open>recv n\<close> is the datagram that \<^verbatim>\<open>recvfrom\<close> gives, of which at most \<open>n\<close> bytes are stored, or an error.\<close>

definition csp_if_udp_rx_work :: "(nat \<Rightarrow> u8 list option) \<Rightarrow> nat \<Rightarrow> nat \<Rightarrow> node \<Rightarrow> int csp" where
  "csp_if_udp_rx_work recv mtu iface s = do {
     (b, s) \<leftarrow> csp_buffer_get mtu s;
     (case b of
        None \<Rightarrow> Some (CSP_ERR_NOMEM, s)
      | Some p \<Rightarrow> do {
          x \<leftarrow> get_packet p s;
          let (header_size, x) = csp_id_setup_rx (csp_conf s) x;
          let received = map_option (take (mtu + header_size)) (recv (mtu + header_size));
          let fr = (case received of None \<Rightarrow> [] | Some d \<Rightarrow> d);
          m \<leftarrow> mem_write (frame_begin x) fr (bytes x);
          let s = put_packet p (x\<lparr>bytes := m\<rparr>) s;
          (if received = None \<or> length fr \<le> 4 then do {
             (_, s) \<leftarrow> csp_buffer_free b s;
             Some (CSP_ERR_NOMEM, s)
           }
           else do {
             (r, x) \<leftarrow> csp_id_strip (csp_conf s) (x\<lparr>bytes := m, frame_length := of_nat (length fr)\<rparr>);
             let s = put_packet p x s;
             (if r \<noteq> 0 then do {
                (_, s) \<leftarrow> csp_buffer_free b s;
                Some (CSP_ERR_INVAL, s)
              }
              else do {
                (_, s) \<leftarrow> csp_qfifo_write b (Some iface) False s;
                Some (CSP_ERR_NONE, s)
              })
           })
        })
   }"

text \<open>The body of the loop of \<^verbatim>\<open>csp_if_udp_rx_loop\<close>.\<close>

definition csp_if_udp_rx_loop_body :: "(nat \<Rightarrow> u8 list option) \<Rightarrow> nat \<Rightarrow> node \<Rightarrow> unit csp" where
  "csp_if_udp_rx_loop_body recv iface s = do {
     f \<leftarrow> get_iface iface s;
     (ret, s) \<leftarrow> csp_if_udp_rx_work recv (unat (if_mtu f)) iface s;
     s \<leftarrow> (if ret = CSP_ERR_INVAL then upd_iface iface (\<lambda>f. f\<lparr>if_rx_error := if_rx_error f + 1\<rparr>) s else Some s);
     Some ((), s)
   }"

definition csp_if_udp_init :: "nat \<Rightarrow> node \<Rightarrow> unit csp" where
  "csp_if_udp_init iface s = do {
     s \<leftarrow> upd_iface iface (\<lambda>f. f\<lparr>if_mtu := of_nat csp_buffer_data_size, if_name := ''UDP''\<rparr>) s;
     (_, s) \<leftarrow> csp_iflist_add iface s;
     Some ((), s)
   }"

subsection \<open>ZMQ\<close>

text \<open>What \<^verbatim>\<open>zmq_send\<close> returns is only printed.\<close>

definition csp_zmqhub_tx :: "nat \<Rightarrow> u16 \<Rightarrow> nat \<Rightarrow> node \<Rightarrow> (int \<times> u8 list) csp" where
  "csp_zmqhub_tx iface via packet s = do {
     x \<leftarrow> get_packet packet s;
     let x = csp_id_prepend (csp_conf s) x;
     fr \<leftarrow> mem_read (frame_begin x) (unat (frame_length x)) (bytes x);
     (_, s) \<leftarrow> csp_buffer_free (Some packet) (put_packet packet x s);
     Some ((CSP_ERR_NONE, fr), s)
   }"

text \<open>One round of \<^verbatim>\<open>csp_zmqhub_task\<close> with the message \<open>msg\<close>, or a failure to receive.\<close>

definition csp_zmqhub_task_body :: "u8 list option \<Rightarrow> nat \<Rightarrow> node \<Rightarrow> unit csp" where
  "csp_zmqhub_task_body msg iface s =
     (case msg of
        None \<Rightarrow> Some ((), s)
      | Some rx_data \<Rightarrow>
          let HEADER_SIZE = (if version (csp_conf s) = 2 then 6 else 4);
              datalen = length rx_data
          in if datalen < HEADER_SIZE then Some ((), s)
             else do {
               (b, s) \<leftarrow> csp_buffer_get (datalen - HEADER_SIZE) s;
               (case b of
                  None \<Rightarrow> Some ((), s)
                | Some p \<Rightarrow> do {
                    x \<leftarrow> get_packet p s;
                    let (_, x) = csp_id_setup_rx (csp_conf s) x;
                    m \<leftarrow> mem_write (frame_begin x) rx_data (bytes x);
                    (r, x) \<leftarrow> csp_id_strip (csp_conf s) (x\<lparr>bytes := m, frame_length := of_nat datalen\<rparr>);
                    let s = put_packet p x s;
                    (if r \<noteq> 0 then do {
                       s \<leftarrow> upd_iface iface (\<lambda>f. f\<lparr>if_rx_error := if_rx_error f + 1\<rparr>) s;
                       csp_buffer_free b s
                     }
                     else csp_qfifo_write b (Some iface) False s)
                  })
             })"

text \<open>The subscriptions of \<^verbatim>\<open>csp_zmqhub_init_filter2\<close>: the bytes a message has to start with, three for each priority. An empty
  subscription lets everything through.\<close>

definition zmq_hostmask :: "csp_conf_t \<Rightarrow> u16 \<Rightarrow> u16 option" where
  "zmq_hostmask conf netmask = do {
     one \<leftarrow> shift_one (csp_id_get_host_bits conf - ucast netmask);
     Some (ucast (one - 1))
   }"

definition zmq_filter :: "nat \<Rightarrow> u16 \<Rightarrow> u8 list" where
  "zmq_filter i a = word_to_le 2 (bswap 2 (push_bit 14 (of_nat i) OR a))"

definition zmq_filters :: "csp_conf_t \<Rightarrow> bool \<Rightarrow> u16 \<Rightarrow> u16 \<Rightarrow> u8 list list option" where
  "zmq_filters conf promisc addr netmask = do {
     hostmask \<leftarrow> zmq_hostmask conf netmask;
     Some (if promisc then [[]]
       else concat (map (\<lambda>i. [zmq_filter i addr, zmq_filter i (addr OR hostmask), zmq_filter i 16383]) [0..<4]))
   }"

text \<open>The result and the string in the buffer.\<close>

definition csp_zmqhub_make_endpoint :: "string \<Rightarrow> u16 \<Rightarrow> nat \<Rightarrow> (int \<times> string) option" where
  "csp_zmqhub_make_endpoint host port buf_size =
     (let res = ''tcp://'' @ host @ '':'' @ decimal (unat port)
      in if buf_size = 0 then None
         else if length res \<ge> buf_size then Some (CSP_ERR_NOMEM, '''') else Some (CSP_ERR_NONE, res))"

definition CSP_ZMQ_MTU :: u16 where [simp, csp_defs]: "CSP_ZMQ_MTU = 2048"
definition CSP_ZMQHUB_IF_NAME :: string where [simp, csp_defs]: "CSP_ZMQHUB_IF_NAME = ''ZMQHUB''"

text \<open>The interface in the driver that the functions for the set-up allocate, and its registration.\<close>

definition csp_zmqhub_add_interface :: "string option \<Rightarrow> nat \<Rightarrow> node \<Rightarrow> int csp" where
  "csp_zmqhub_add_interface ifname iface s = do {
     let name = take CSP_IFLIST_NAME_MAX (case ifname of None \<Rightarrow> CSP_ZMQHUB_IF_NAME | Some n \<Rightarrow> n);
     s \<leftarrow> upd_iface iface (\<lambda>f. f\<lparr>if_name := name, if_mtu := CSP_ZMQ_MTU\<rparr>) s;
     (_, s) \<leftarrow> csp_iflist_add iface s;
     Some (CSP_ERR_NONE, s)
   }"

subsection \<open>Tunnel\<close>

record csp_if_tun_conf_t =
  tun_src :: int
  tun_dst :: int

text \<open>The hooks that the library provides when the application has none.\<close>

definition csp_crypto_decrypt :: "u8 list \<Rightarrow> u8 list option" where
  "csp_crypto_decrypt ciphertext = None"

definition csp_crypto_encrypt :: "u8 list \<Rightarrow> u8 list option" where
  "csp_crypto_encrypt msg = None"

text \<open>The hooks take the length as a byte, and give the bytes they write or a negative number.\<close>

definition csp_if_tun_tx :: "(u8 list \<Rightarrow> u8 list option) \<Rightarrow> (u8 list \<Rightarrow> u8 list option) \<Rightarrow> csp_if_tun_conf_t \<Rightarrow> nexthop_t" where
  "csp_if_tun_tx decrypt encrypt ifconf iface via packet s = do {
     x \<leftarrow> get_packet packet s;
     (b, s) \<leftarrow> csp_buffer_get (unat (frame_length x)) s;
     (case b of
        None \<Rightarrow> do {
          (_, s) \<leftarrow> csp_buffer_free (Some packet) s;
          Some (CSP_ERR_NONE, s)
        }
      | Some n \<Rightarrow> do {
          y \<leftarrow> get_packet n s;
          (if uint (dst (pid x)) = tun_src ifconf then do {
             let y = snd (csp_id_setup_rx (csp_conf s) y);
             c \<leftarrow> data_read 0 (unat (ucast (plen x) :: u8)) x;
             (case decrypt c of
                None \<Rightarrow> do {
                  (_, s) \<leftarrow> csp_buffer_free b (put_packet n y s);
                  (_, s) \<leftarrow> csp_buffer_free (Some packet) s;
                  s \<leftarrow> upd_iface iface (\<lambda>f. f\<lparr>if_rx_error := if_rx_error f + 1\<rparr>) s;
                  Some (CSP_ERR_NONE, s)
                }
              | Some d \<Rightarrow> do {
                  m \<leftarrow> mem_write (frame_begin y) d (bytes y);
                  (_, s) \<leftarrow> csp_buffer_free (Some packet) s;
                  (_, y) \<leftarrow> csp_id_strip (csp_conf s) (y\<lparr>bytes := m, frame_length := of_nat (length d)\<rparr>);
                  (_, s) \<leftarrow> csp_qfifo_write b (Some iface) False (put_packet n y s);
                  Some (CSP_ERR_NONE, s)
                })
           }
           else do {
             let x = csp_id_prepend (csp_conf s) x;
             let y = y\<lparr>pid := (pid y)\<lparr>dst := of_int (tun_dst ifconf), src := of_int (tun_src ifconf), sport := 0, dport := 0, pri := pri (pid x)\<rparr>\<rparr>;
             c \<leftarrow> mem_read (frame_begin x) (unat (ucast (frame_length x) :: u8)) (bytes x);
             y \<leftarrow> (case encrypt c of
                    None \<Rightarrow> Some (y\<lparr>plen := - 1\<rparr>)
                  | Some d \<Rightarrow> data_write 0 d (y\<lparr>plen := of_nat (length d)\<rparr>));
             (_, s) \<leftarrow> csp_buffer_free (Some packet) (put_packet packet x s);
             let y = csp_id_prepend (csp_conf s) y;
             (_, s) \<leftarrow> csp_qfifo_write b (Some iface) False (put_packet n y s);
             Some (CSP_ERR_NONE, s)
           })
        })
   }"

definition csp_if_tun_init :: "nat \<Rightarrow> node \<Rightarrow> unit csp" where
  "csp_if_tun_init iface s = do {
     s \<leftarrow> upd_iface iface (\<lambda>f. f\<lparr>if_mtu := of_nat csp_buffer_data_size, if_name := ''TUN''\<rparr>) s;
     (_, s) \<leftarrow> csp_iflist_add iface s;
     Some ((), s)
   }"

section \<open>Frames\<close>

lemma prepended_frame:
  fixes conf x defines "y \<equiv> csp_id_prepend conf x"
  assumes "packet_wf x"
  shows "mem_read (frame_begin y) (unat (frame_length y)) (bytes y) = Some (pframe y)"
proof -
  note f = id.prepend_fields [OF assms(2), of conf] id.frame_length_nat [OF assms(2), of conf]
  have "id_header_size conf \<le> 6" by (simp add: id_header_size_def)
  then have "frame_begin y + unat (frame_length y) \<le> length (bytes y)" using f(3,5,7) assms(2) by (simp add: packet_wf_def y_def)
  then show ?thesis by (simp add: mem_read_def pframe_def)
qed

lemma accounts_prepended:
  assumes "accounts (add_mset p H) s" "get_packet p s = Some x" "packet_wf x"
  shows "accounts (add_mset p H) (put_packet p (csp_id_prepend (csp_conf s) x) s)"
  using accounts_put [OF assms(1) id.prepend_fields(5) [OF assms(3)]] .

lemma udp_tx_eq:
  assumes "accounts (add_mset p H) s" "get_packet p s = Some x" "packet_wf x"
  shows "\<exists>s'. csp_if_udp_tx True j via p s = Some ((CSP_ERR_NONE, Some (pframe (csp_id_prepend (csp_conf s) x))), s') \<and>
      csp_zmqhub_tx j via p s = Some ((CSP_ERR_NONE, pframe (csp_id_prepend (csp_conf s) x)), s') \<and>
      accounts H s' \<and> env s' = env s \<and> keeps H s s'"
proof -
  let ?t = "put_packet p (csp_id_prepend (csp_conf s) x) s"
  note f = accounts_free [OF accounts_prepended [OF assms]]
  have "keeps H s ?t" by (rule keeps_put [OF assms(1)])
  then have "keeps H s (give_buffer p ?t)" by (simp add: keeps_def)
  then show ?thesis using f assms(2) prepended_frame [OF assms(3), of "csp_conf s"]
    by (simp add: csp_if_udp_tx_def csp_zmqhub_tx_def Let_def)
qed

text \<open>A packet that is accepted: it is the last of the input queue.\<close>

lemma link_accept:
  assumes "accounts (add_mset q H) s" "items (qfifo_queue s) < qsize (qfifo_queue s)"
  shows "\<exists>s'. csp_qfifo_write (Some q) (Some i) False s = Some ((), s') \<and> accounts H s' \<and>
    queue_list (qfifo_queue s') = queue_list (qfifo_queue s) @ [\<lparr>q_iface = Some i, q_packet = Some q\<rparr>] \<and>
    (\<forall>k. get_packet k s' = get_packet k s) \<and> env s' = env s"
proof -
  let ?e = "\<lparr>q_iface = Some i, q_packet = Some q\<rparr>"
  have wf: "queue_wf (qfifo_queue s)" using assms(1) by (simp add: accounts_def queues_inv_def)
  have "csp_queue_enqueue (qfifo_queue s) ?e 1 = Some (CSP_QUEUE_OK, queue_push ?e (qfifo_queue s))"
    using assms(2) by (simp add: csp_queue_enqueue_room)
  then show ?thesis using accounts_qfifo_push [OF assms(1,2), of ?e] queue_push_list [OF wf assms(2), of ?e]
    by (simp add: csp_qfifo_write_def)
qed

lemma load_frame_eq:
  "(snd (csp_id_setup_rx conf z))\<lparr>bytes := mem_put (frame_begin (snd (csp_id_setup_rx conf z))) fr (bytes z), frame_length := of_nat (length fr)\<rparr> =
    load_frame (id_header_size conf) fr z"
  by (cases z) (simp add: csp_id_setup_rx_eq load_frame_def)

lemma udp_rx_eq:
  assumes "accounts H s" "free_list s = q # fs" "items (qfifo_queue s) < qsize (qfifo_queue s)"
    "packet_wf x" "id_fits (csp_conf s) (pid x)" "unat (plen x) \<le> mtu" "mtu \<le> CSP_BUFFER_SIZE" "4 < id_header_size (csp_conf s) + unat (plen x)"
  defines "fr \<equiv> pframe (csp_id_prepend (csp_conf s) x)"
  shows "\<exists>s' y. csp_if_udp_rx_work (\<lambda>n. Some fr) mtu i s = Some (CSP_ERR_NONE, s') \<and> accounts H s' \<and>
    queue_list (qfifo_queue s') = queue_list (qfifo_queue s) @ [\<lparr>q_iface = Some i, q_packet = Some q\<rparr>] \<and>
    get_packet q s' = Some y \<and> pid y = pid x \<and> pdata y = pdata x"
proof -
  let ?conf = "csp_conf s" and ?t = "take_buffer q s"
  note a = accounts_take [OF assms(1,2)]
  have get: "csp_buffer_get mtu s = Some (Some q, ?t)" using csp_buffer_get_eq [of s mtu] assms(1,2,7) by (simp add: accounts_def)
  obtain z where z: "get_packet q ?t = Some z" "length (bytes z) = PACKET_BYTES" using accounts_packet [OF a] by auto
  have q: "q < length (csp_buffer_pool ?t)" using accounts_held(2,4) [OF a] by (simp add: pool_inv_def)
  have conf: "csp_conf ?t = ?conf" "qfifo_queue ?t = qfifo_queue s" by (simp_all add: take_buffer_def)
  have len: "length fr = id_header_size ?conf + unat (plen x)" unfolding fr_def by (rule length_pframe_prepend [OF assms(4)])
  have hs: "id_header_size ?conf \<le> 6" by (simp add: id_header_size_def)
  obtain y where y: "csp_id_strip ?conf (load_frame (id_header_size ?conf) fr z) = Some (0, y)" "pid y = pid x" "pdata y = pdata x" "packet_wf y"
    using id.receive_transmitted [OF assms(4,5) z(2)] unfolding fr_def by blast
  obtain X where x: "csp_id_setup_rx ?conf z = (id_header_size ?conf, X)" "bytes X = bytes z" "frame_begin X = DATA_OFFSET - id_header_size ?conf"
    and l: "X\<lparr>bytes := mem_put (frame_begin X) fr (bytes z), frame_length := of_nat (length fr)\<rparr> = load_frame (id_header_size ?conf) fr z"
    using load_frame_eq [where conf = ?conf and fr = fr and z = z] by (simp add: csp_id_setup_rx_eq)
  have room: "frame_begin X + length fr \<le> length (bytes X)" using hs len z(2) assms(6,7) by (simp add: x)
  have w: "mem_write (frame_begin X) fr (bytes X) = Some (mem_put (frame_begin X) fr (bytes z))" using mem_write_put [OF room] x(2) by simp
  have tk: "take (mtu + id_header_size ?conf) fr = fr" "\<not> length fr \<le> 4" "min (length fr) (mtu + id_header_size ?conf) = length fr"
    using len assms(6,8) by simp_all
  have b: "accounts (add_mset q H) (put_packet q y ?t)" using accounts_put [OF a] y(4) by (simp add: packet_wf_def)
  have room': "items (qfifo_queue (put_packet q y ?t)) < qsize (qfifo_queue (put_packet q y ?t))" using assms(3) conf(2) by simp
  obtain s' where s': "csp_qfifo_write (Some q) (Some i) False (put_packet q y ?t) = Some ((), s')" "accounts H s'"
    "queue_list (qfifo_queue s') = queue_list (qfifo_queue s) @ [\<lparr>q_iface = Some i, q_packet = Some q\<rparr>]"
    "get_packet q s' = get_packet q (put_packet q y ?t)"
    using link_accept [OF b room', of i] conf(2) by auto
  have "csp_if_udp_rx_work (\<lambda>n. Some fr) mtu i s = Some (CSP_ERR_NONE, s')"
    using tk(2) by (simp add: Let_def tk(3) csp_if_udp_rx_work_def conf get z(1) x(1) w tk(1) l y(1) s'(1))
  then show ?thesis using s' y get_put_packet [OF q] by simp
qed

section \<open>Filters\<close>

lemma zmq_filter_eq: "zmq_filter i a = rev (word_to_le 2 (push_bit 14 (of_nat i) OR a))"
  by (simp add: zmq_filter_def word_to_le_bswap)

lemma id2_frame_start:
  assumes "packet_wf x" "version conf = 2"
  shows "take 2 (pframe (csp_id_prepend conf x)) = rev (word_to_le 2 (ucast (drop_bit 32 (csp_id2_pack (pid x))) :: u16))"
proof -
  let ?P = "csp_id2_pack (pid x)"
  have d: "(8 + n) div 8 = 1" if "n < 8" for n :: nat using that by simp
  have "take 6 (List.drop 2 (bytes (csp_id2_prepend x))) = word_to_le 6 (htobe64 (push_bit 16 ?P))"
    using assms(1) by (simp add: csp_id2_prepend_def mem_put_def Let_def packet_wf_def)
  then have "take 2 (pframe (csp_id_prepend conf x)) = take 2 (word_to_le 6 (htobe64 (push_bit 16 ?P)))"
    using id.pframe_prepend [OF assms(1), of conf] assms(2) by (simp add: csp_id_prepend_def id_header_size_def)
  also have "\<dots> = [ucast (htobe64 (push_bit 16 ?P)), ucast (drop_bit 8 (htobe64 (push_bit 16 ?P)))]"
    by (simp add: word_to_le_def upt_rec)
  also have "\<dots> = rev (word_to_le 2 (ucast (drop_bit 32 ?P) :: u16))"
    using d by (simp add: word_to_le_def upt_rec htobe64_def) (auto intro!: bit_word_eqI simp: bit_bswap bit_simps)
  finally show ?thesis .
qed

lemma id2_pack_top:
  assumes "id2_fits i"
  shows "(ucast (drop_bit 32 (csp_id2_pack i)) :: u16) = push_bit 14 (ucast (pri i)) OR dst i"
proof -
  have b: "\<And>n. bit (pri i) n \<Longrightarrow> n < 2" "\<And>n. bit (src i) n \<Longrightarrow> n < 14" "\<And>n. bit (dport i) n \<Longrightarrow> n < 6"
    "\<And>n. bit (sport i) n \<Longrightarrow> n < 6" "\<And>n. bit (flags i) n \<Longrightarrow> n < 6"
    using assms by (auto simp: id2_fits_def intro: less_power_bits)
  show ?thesis by (rule bit_word_eqI) (auto simp: csp_id2_pack_def bit_simps dest: b)
qed

lemma bits_less_power:
  fixes w :: "'a::len word"
  assumes "\<And>n. bit w n \<Longrightarrow> n < k" "k < LENGTH('a)"
  shows "w < 2 ^ k"
proof -
  have "take_bit k w = w" using assms(1) by (intro bit_word_eqI) (auto simp: bit_simps)
  then have "unat w < 2 ^ k" by (metis take_bit_nat_less_exp unsigned_take_bit_eq)
  moreover have "unat (2 ^ k :: 'a word) = 2 ^ k" using unat_of_nat_less [of "2 ^ k", where 'a = 'a] assms(2) by simp
  ultimately show ?thesis by (simp add: word_less_nat_alt)
qed

lemma pri_dst_inj:
  fixes a b p q :: u16
  assumes "a < 2 ^ 14" "b < 2 ^ 14" "p < 2 ^ 2" "q < 2 ^ 2"
  shows "push_bit 14 p OR a = push_bit 14 q OR b \<longleftrightarrow> p = q \<and> a = b"
proof
  assume e: "push_bit 14 p OR a = push_bit 14 q OR b"
  have d: "drop_bit 14 (push_bit 14 r OR c) = r" "take_bit 14 (push_bit 14 r OR c) = c"
    if "\<And>n. bit r n \<Longrightarrow> n < 2" "\<And>n. bit c n \<Longrightarrow> n < 14" for r c :: u16
    using that by (auto intro!: bit_word_eqI simp: bit_simps) fastforce+
  note less_power_bits [OF assms(1)] less_power_bits [OF assms(2)] less_power_bits [OF assms(3)] less_power_bits [OF assms(4)]
  then show "p = q \<and> a = b" using d [of p a] d [of q b] e by simp
qed simp

lemma word_to_le_2_inj: "word_to_le 2 a = word_to_le 2 b \<longleftrightarrow> a = (b :: u16)"
proof -
  have "(le_to_word (word_to_le 2 c) :: u16) = c" for c :: u16 by simp
  then show ?thesis by metis
qed

section \<open>Properties\<close>

text \<open>C25: A packet that one node transmits over UDP, whose datagram the receiver gets with any MTU that admits its data, reaches the
  input queue of the other node with its identifier and data, if its frame is longer than four bytes. The sender's buffer is
  freed, and the receiver's buffers stay accounted for.\<close>

theorem csp_if_udp_roundtrip:
  assumes "accounts (add_mset p H0) s0" "get_packet p s0 = Some x" "packet_wf x" "id_fits (csp_conf s0) (pid x)"
    "version (csp_conf s) = version (csp_conf s0)" "accounts H s" "free_list s = q # fs"
    "items (qfifo_queue s) < qsize (qfifo_queue s)" "unat (plen x) \<le> mtu" "mtu \<le> CSP_BUFFER_SIZE"
    "4 < id_header_size (csp_conf s) + unat (plen x)"
  shows "\<exists>fr s0' s' y. csp_if_udp_tx True j via p s0 = Some ((CSP_ERR_NONE, Some fr), s0') \<and> accounts H0 s0' \<and>
    csp_if_udp_rx_work (\<lambda>n. Some fr) mtu i s = Some (CSP_ERR_NONE, s') \<and> accounts H s' \<and>
    queue_list (qfifo_queue s') = queue_list (qfifo_queue s) @ [\<lparr>q_iface = Some i, q_packet = Some q\<rparr>] \<and>
    get_packet q s' = Some y \<and> pid y = pid x \<and> pdata y = pdata x"
proof -
  note v = id_version [OF assms(5)]
  from udp_tx_eq [OF assms(1-3), of j via] udp_rx_eq [OF assms(6-8,3) _ assms(9-11), of i] assms(4) show ?thesis
    by (auto simp: v)
qed

theorem csp_if_udp_roundtrip_witness:
  "\<exists>fr s0' s'. csp_if_udp_tx True 1 0 3 (put_packet 3 (zero_packet\<lparr>plen := 5\<rparr>) busy_node) = Some ((CSP_ERR_NONE, Some fr), s0') \<and>
     csp_if_udp_rx_work (\<lambda>n. Some fr) 256 1 kiss_node = Some (CSP_ERR_NONE, s') \<and>
     queue_list (qfifo_queue s') = [\<lparr>q_iface = Some 1, q_packet = Some 3\<rparr>]"
proof -
  note s = kiss_sender [of 5, simplified] and k = kiss_node_facts
  have "version (csp_conf kiss_node) = version (csp_conf (put_packet 3 (zero_packet\<lparr>plen := 5\<rparr>) busy_node))" using s(5) k(3) by simp
  from csp_if_udp_roundtrip [OF s(1-3) _ this k(1,2,6), of 256 1 0 1] s(4) k(3,7) show ?thesis
    by (auto simp: id_header_size_def zero_packet_def)
qed

text \<open>With header version 2, a frame starts with one of the filters that a ZMQ interface subscribes to exactly when its destination is
  the address of the node, the broadcast address of its subnet or the global broadcast address, whatever its priority.\<close>

theorem zmq_filters_accept:
  assumes "packet_wf x" "version conf = 2" "id2_fits (pid x)" "addr < 2 ^ 14" "unat netmask \<le> 14"
  shows "\<exists>fs. zmq_filters conf False addr netmask = Some fs \<and>
    ((\<exists>f \<in> set fs. take (length f) (pframe (csp_id_prepend conf x)) = f) \<longleftrightarrow>
      dst (pid x) \<in> {addr, addr OR Bit_Operations.mask (14 - unat netmask), 16383})"
proof -
  let ?m = "addr OR Bit_Operations.mask (14 - unat netmask)" and ?p = "unat (pri (pid x))"
  have bits: "csp_id_get_host_bits conf = 14" using assms(2) by (simp add: csp_id_get_host_bits_def)
  have h: "zmq_hostmask conf netmask = Some (Bit_Operations.mask (14 - unat netmask))"
    using shift_one_hostmask [of netmask conf] assms(5) by (auto simp: zmq_hostmask_def bits)
  have m: "?m < 2 ^ 14" using less_power_bits [OF assms(4)] by (intro bits_less_power) (auto simp: bit_simps)
  have d: "dst (pid x) < 2 ^ 14" using assms(3) by (simp add: id2_fits_def)
  have p: "(ucast (pri (pid x)) :: u16) < 2 ^ 2" using less_power_bits [of "pri (pid x)" 2] assms(3)
    by (intro bits_less_power) (auto simp: bit_simps id2_fits_def)
  have eq: "take 2 (pframe (csp_id_prepend conf x)) = zmq_filter i a \<longleftrightarrow> i = ?p \<and> dst (pid x) = a" if "i < 4" "a < 2 ^ 14" for i a
  proof -
    have "(of_nat i :: u16) < 2 ^ 2" using that(1) by (simp add: word_less_nat_alt)
    moreover have "ucast (pri (pid x)) = (of_nat i :: u16) \<longleftrightarrow> i = ?p" using that(1) by (auto simp: word_unat_eq_iff)
    ultimately show ?thesis using pri_dst_inj [OF d that(2) p, of "of_nat i"]
      by (simp add: id2_frame_start [OF assms(1,2)] zmq_filter_eq id2_pack_top [OF assms(3)] word_to_le_2_inj)
  qed
  have "16383 < (2 ^ 14 :: u16)" by simp
  then have e: "a < 2 ^ 14" if "a \<in> {addr, ?m, 16383}" for a using that m assms(4) by blast
  have l: "length (zmq_filter i a) = 2" for i a by (simp add: zmq_filter_eq)
  let ?fs = "concat (map (\<lambda>i. [zmq_filter i addr, zmq_filter i ?m, zmq_filter i 16383]) [0..<4])"
  have "(\<exists>f \<in> set ?fs. take (length f) (pframe (csp_id_prepend conf x)) = f) \<longleftrightarrow>
      (\<exists>i \<in> {..<4}. \<exists>a \<in> {addr, ?m, 16383}. take 2 (pframe (csp_id_prepend conf x)) = zmq_filter i a)"
    by (simp only: set_concat set_map set_upt bex_simps list.set ball_simps atLeast0LessThan) (auto simp: l)
  also have "\<dots> \<longleftrightarrow> (\<exists>i \<in> {..<4}. \<exists>a \<in> {addr, ?m, 16383}. i = ?p \<and> dst (pid x) = a)"
    using eq e by (intro bex_cong refl) simp
  also have "\<dots> \<longleftrightarrow> dst (pid x) \<in> {addr, ?m, 16383}" using assms(3) by (auto simp: id2_fits_def word_less_nat_alt)
  finally show ?thesis by (simp add: zmq_filters_def h)
qed

theorem zmq_filters_accept_witness:
  "\<exists>fs. zmq_filters (zero_conf\<lparr>version := 2\<rparr>) False 8 13 = Some fs \<and>
     (\<exists>f \<in> set fs. take (length f) (pframe (csp_id_prepend (zero_conf\<lparr>version := 2\<rparr>) (zero_packet\<lparr>pid := zero_id\<lparr>pri := 2, dst := 9\<rparr>\<rparr>))) = f)"
proof -
  let ?x = "zero_packet\<lparr>pid := zero_id\<lparr>pri := 2, dst := 9\<rparr>\<rparr>" and ?c = "zero_conf\<lparr>version := 2\<rparr>"
  have x: "packet_wf ?x" "version ?c = 2" "id2_fits (pid ?x)" "8 < (2 ^ 14 :: u16)" "unat (13 :: u16) \<le> 14"
    by (simp_all add: packet_wf_def zero_packet_def id2_fits_def zero_id_def)
  from zmq_filters_accept [OF this] show ?thesis by (simp add: mask_numeral)
qed

end
