(* ===== verification/Csp_Can.thy ===== *)
theory Csp_Can
  imports Csp_Route
begin

text \<open>
  The CAN interface (\<^verbatim>\<open>src/interfaces/csp_if_can.c\<close>) and its list of packets under reception
  (\<^verbatim>\<open>src/interfaces/csp_if_can_pbuf.c\<close>): packets are cut into frames of at most eight bytes, whose 29-bit identifier says
  which packet they belong to. The driver is a parameter: its result for a frame, given the frames it
  was handed before by the same call. The frames that were handed to it are part of the result.
\<close>

section \<open>Fields of the identifier\<close>

definition CAN_FRAME_SIZE :: nat where [simp, csp_defs]: "CAN_FRAME_SIZE = 8"
definition CFP1_CSP_HEADER_SIZE :: nat where [simp, csp_defs]: "CFP1_CSP_HEADER_SIZE = 4"
definition CFP1_DATA_OFFSET :: nat where [simp, csp_defs]: "CFP1_DATA_OFFSET = 6"
definition CFP1_DATA_SIZE_BEGIN :: nat where [simp, csp_defs]: "CFP1_DATA_SIZE_BEGIN = 2"
definition CFP_BEGIN :: u32 where [simp, csp_defs]: "CFP_BEGIN = 0"
definition CFP_MORE :: u32 where [simp, csp_defs]: "CFP_MORE = 1"

definition CFP_HOST_SIZE :: nat where [simp, csp_defs]: "CFP_HOST_SIZE = 5"
definition CFP_TYPE_SIZE :: nat where [simp, csp_defs]: "CFP_TYPE_SIZE = 1"
definition CFP_REMAIN_SIZE :: nat where [simp, csp_defs]: "CFP_REMAIN_SIZE = 8"
definition CFP_ID_SIZE :: nat where [simp, csp_defs]: "CFP_ID_SIZE = 10"

definition CFP_FIELD :: "u32 \<Rightarrow> nat \<Rightarrow> nat \<Rightarrow> u32" where
  "CFP_FIELD i rsiz fsiz = drop_bit rsiz i AND (push_bit fsiz 1 - 1)"

definition CFP_TYPE :: "u32 \<Rightarrow> u32" where
  "CFP_TYPE i = CFP_FIELD i (CFP_REMAIN_SIZE + CFP_ID_SIZE) CFP_TYPE_SIZE"
definition CFP_REMAIN :: "u32 \<Rightarrow> u32" where
  "CFP_REMAIN i = CFP_FIELD i CFP_ID_SIZE CFP_REMAIN_SIZE"

definition CFP_MAKE_FIELD :: "u32 \<Rightarrow> nat \<Rightarrow> nat \<Rightarrow> u32" where
  "CFP_MAKE_FIELD i fsiz rsiz = push_bit rsiz (i AND (push_bit fsiz 1 - 1))"

definition CFP_MAKE_SRC :: "u32 \<Rightarrow> u32" where
  "CFP_MAKE_SRC i = CFP_MAKE_FIELD i CFP_HOST_SIZE (CFP_HOST_SIZE + CFP_TYPE_SIZE + CFP_REMAIN_SIZE + CFP_ID_SIZE)"
definition CFP_MAKE_DST :: "u32 \<Rightarrow> u32" where
  "CFP_MAKE_DST i = CFP_MAKE_FIELD i CFP_HOST_SIZE (CFP_TYPE_SIZE + CFP_REMAIN_SIZE + CFP_ID_SIZE)"
definition CFP_MAKE_TYPE :: "u32 \<Rightarrow> u32" where
  "CFP_MAKE_TYPE i = CFP_MAKE_FIELD i CFP_TYPE_SIZE (CFP_REMAIN_SIZE + CFP_ID_SIZE)"
definition CFP_MAKE_REMAIN :: "u32 \<Rightarrow> u32" where
  "CFP_MAKE_REMAIN i = CFP_MAKE_FIELD i CFP_REMAIN_SIZE CFP_ID_SIZE"
definition CFP_MAKE_ID :: "u32 \<Rightarrow> u32" where
  "CFP_MAKE_ID i = CFP_MAKE_FIELD i CFP_ID_SIZE 0"

definition CFP_ID_CONN_MASK :: u32 where
  "CFP_ID_CONN_MASK = CFP_MAKE_SRC (push_bit CFP_HOST_SIZE 1 - 1) OR CFP_MAKE_DST (push_bit CFP_HOST_SIZE 1 - 1) OR
     CFP_MAKE_ID (push_bit CFP_ID_SIZE 1 - 1)"

definition CFP2_PRIO_MASK :: u32 where [csp_defs]: "CFP2_PRIO_MASK = 0x3"
definition CFP2_PRIO_OFFSET :: nat where [simp, csp_defs]: "CFP2_PRIO_OFFSET = 27"
definition CFP2_DST_MASK :: u32 where [csp_defs]: "CFP2_DST_MASK = 0x3FFF"
definition CFP2_DST_OFFSET :: nat where [simp, csp_defs]: "CFP2_DST_OFFSET = 13"
definition CFP2_SENDER_MASK :: u32 where [csp_defs]: "CFP2_SENDER_MASK = 0x1F"
definition CFP2_SENDER_OFFSET :: nat where [simp, csp_defs]: "CFP2_SENDER_OFFSET = 7"
definition CFP2_SC_MASK :: u32 where [csp_defs]: "CFP2_SC_MASK = 0x3"
definition CFP2_SC_OFFSET :: nat where [simp, csp_defs]: "CFP2_SC_OFFSET = 5"
definition CFP2_FC_MASK :: u32 where [csp_defs]: "CFP2_FC_MASK = 0x7"
definition CFP2_FC_OFFSET :: nat where [simp, csp_defs]: "CFP2_FC_OFFSET = 2"
definition CFP2_BEGIN_MASK :: u32 where [csp_defs]: "CFP2_BEGIN_MASK = 0x1"
definition CFP2_BEGIN_OFFSET :: nat where [simp, csp_defs]: "CFP2_BEGIN_OFFSET = 1"
definition CFP2_END_MASK :: u32 where [csp_defs]: "CFP2_END_MASK = 0x1"
definition CFP2_END_OFFSET :: nat where [simp, csp_defs]: "CFP2_END_OFFSET = 0"
definition CFP2_SRC_MASK :: u32 where [csp_defs]: "CFP2_SRC_MASK = 0x3FFF"
definition CFP2_SRC_OFFSET :: u32 where [simp, csp_defs]: "CFP2_SRC_OFFSET = 18"
definition CFP2_DPORT_MASK :: u32 where [csp_defs]: "CFP2_DPORT_MASK = 0x3F"
definition CFP2_DPORT_OFFSET :: nat where [simp, csp_defs]: "CFP2_DPORT_OFFSET = 12"
definition CFP2_SPORT_MASK :: u32 where [csp_defs]: "CFP2_SPORT_MASK = 0x3F"
definition CFP2_SPORT_OFFSET :: nat where [simp, csp_defs]: "CFP2_SPORT_OFFSET = 6"
definition CFP2_FLAGS_MASK :: u32 where [csp_defs]: "CFP2_FLAGS_MASK = 0x3F"
definition CFP2_FLAGS_OFFSET :: nat where [simp, csp_defs]: "CFP2_FLAGS_OFFSET = 0"

definition CFP2_ID_CONN_MASK :: u32 where
  "CFP2_ID_CONN_MASK = push_bit CFP2_DST_OFFSET CFP2_DST_MASK OR push_bit CFP2_SENDER_OFFSET CFP2_SENDER_MASK OR
     push_bit CFP2_PRIO_OFFSET CFP2_PRIO_MASK OR push_bit CFP2_SC_OFFSET CFP2_SC_MASK"

section \<open>Packets under reception\<close>

definition PBUF_TIMEOUT_MS :: u32 where [simp, csp_defs]: "PBUF_TIMEOUT_MS = 1000"

definition get_can :: "nat \<Rightarrow> node \<Rightarrow> csp_can_interface_data_t option" where
  "get_can i s = do { f \<leftarrow> get_iface i s; (case if_data f of Can_Data d \<Rightarrow> Some d | _ \<Rightarrow> None) }"

definition upd_can :: "nat \<Rightarrow> (csp_can_interface_data_t \<Rightarrow> csp_can_interface_data_t) \<Rightarrow> node \<Rightarrow> node option" where
  "upd_can i g s = do { d \<leftarrow> get_can i s; upd_iface i (\<lambda>f. f\<lparr>if_data := Can_Data (g d)\<rparr>) s }"

definition upd_packet :: "nat \<Rightarrow> (csp_packet_t \<Rightarrow> csp_packet_t) \<Rightarrow> node \<Rightarrow> node option" where
  "upd_packet p g s = do { x \<leftarrow> get_packet p s; Some (put_packet p (g x) s) }"

definition buffer_free :: "bool \<Rightarrow> nat \<Rightarrow> node \<Rightarrow> node option" where
  "buffer_free isr p s = map_option snd (if isr then csp_buffer_free_isr (Some p) s else csp_buffer_free (Some p) s)"

text \<open>\<^verbatim>\<open>prev->next = packet->next\<close>, or the head of the list.\<close>

definition pbuf_unlink :: "nat \<Rightarrow> nat \<Rightarrow> nat option \<Rightarrow> node \<Rightarrow> node option" where
  "pbuf_unlink i p prev s = do {
     x \<leftarrow> get_packet p s;
     (case prev of
        Some q \<Rightarrow> upd_packet q (\<lambda>y. y\<lparr>pnext := pnext x\<rparr>) s
      | None \<Rightarrow> upd_can i (\<lambda>d. d\<lparr>pbufs := pnext x\<rparr>) s)
   }"

partial_function (option) csp_can_pbuf_free_loop :: "nat \<Rightarrow> nat \<Rightarrow> bool \<Rightarrow> bool \<Rightarrow> nat option \<Rightarrow> nat option \<Rightarrow> node \<Rightarrow> node option" where
  "csp_can_pbuf_free_loop i buf buf_free isr packet prev s =
     (if packet = None then Some s
      else do {
        s \<leftarrow> (if the packet = buf then do {
                s \<leftarrow> pbuf_unlink i (the packet) prev s;
                (if buf_free then buffer_free isr (the packet) s else Some s)
              }
              else Some s);
        x \<leftarrow> get_packet (the packet) s;
        csp_can_pbuf_free_loop i buf buf_free isr (pnext x) packet s
      })"

definition csp_can_pbuf_free :: "nat \<Rightarrow> nat \<Rightarrow> bool \<Rightarrow> bool \<Rightarrow> node \<Rightarrow> node option" where
  "csp_can_pbuf_free i buf buf_free isr s = do {
     d \<leftarrow> get_can i s;
     csp_can_pbuf_free_loop i buf buf_free isr (pbufs d) None s
   }"

partial_function (option) csp_can_pbuf_cleanup_loop :: "nat \<Rightarrow> nat option \<Rightarrow> nat option \<Rightarrow> node \<Rightarrow> node option" where
  "csp_can_pbuf_cleanup_loop i packet prev s =
     (if packet = None then Some s
      else do {
        x \<leftarrow> get_packet (the packet) s;
        s \<leftarrow> (if now s - last_used x > PBUF_TIMEOUT_MS then do {
                s \<leftarrow> pbuf_unlink i (the packet) prev s;
                buffer_free False (the packet) s
              }
              else Some s);
        x \<leftarrow> get_packet (the packet) s;
        csp_can_pbuf_cleanup_loop i (pnext x) packet s
      })"

definition csp_can_pbuf_cleanup :: "nat \<Rightarrow> node \<Rightarrow> node option" where
  "csp_can_pbuf_cleanup i s = do {
     d \<leftarrow> get_can i s;
     csp_can_pbuf_cleanup_loop i (pbufs d) None s
   }"

definition csp_can_pbuf_new :: "nat \<Rightarrow> u32 \<Rightarrow> bool \<Rightarrow> node \<Rightarrow> nat option csp" where
  "csp_can_pbuf_new i can_id isr s = do {
     s \<leftarrow> csp_can_pbuf_cleanup i s;
     (packet, s) \<leftarrow> (if isr then csp_buffer_get_isr 0 s else csp_buffer_get 0 s);
     (case packet of
        None \<Rightarrow> Some (None, s)
      | Some p \<Rightarrow> do {
          d \<leftarrow> get_can i s;
          s \<leftarrow> upd_packet p (\<lambda>x. x\<lparr>last_used := now s, cfpid := can_id, remain := 0, pnext := pbufs d\<rparr>) s;
          s \<leftarrow> upd_can i (\<lambda>d. d\<lparr>pbufs := Some p\<rparr>) s;
          Some (Some p, s)
        })
   }"

partial_function (option) csp_can_pbuf_find_loop :: "u32 \<Rightarrow> u32 \<Rightarrow> nat option \<Rightarrow> node \<Rightarrow> nat option option" where
  "csp_can_pbuf_find_loop can_id msk packet s =
     (if packet = None then Some None
      else do {
        x \<leftarrow> get_packet (the packet) s;
        (if cfpid x AND msk = can_id AND msk then Some packet
         else csp_can_pbuf_find_loop can_id msk (pnext x) s)
      })"

definition csp_can_pbuf_find :: "nat \<Rightarrow> u32 \<Rightarrow> u32 \<Rightarrow> node \<Rightarrow> nat option csp" where
  "csp_can_pbuf_find i can_id msk s = do {
     d \<leftarrow> get_can i s;
     packet \<leftarrow> csp_can_pbuf_find_loop can_id msk (pbufs d) s;
     (case packet of
        None \<Rightarrow> Some (None, s)
      | Some p \<Rightarrow> do {
          s \<leftarrow> upd_packet p (\<lambda>x. x\<lparr>last_used := now s\<rparr>) s;
          Some (Some p, s)
        })
   }"

section \<open>CFP 1: reception\<close>

text \<open>What the switch of \<^verbatim>\<open>csp_can1_rx\<close> does for the first frame; the result is the offset of the data, unless the packet was dropped.\<close>

definition csp_can1_begin :: "nat \<Rightarrow> u32 \<Rightarrow> u8 list \<Rightarrow> u8 \<Rightarrow> nat \<Rightarrow> bool \<Rightarrow> node \<Rightarrow> nat option csp" where
  "csp_can1_begin iface can_id data dlc p isr s =
     (if unat dlc < 6 then do {
        s \<leftarrow> upd_iface iface (\<lambda>f. f\<lparr>if_frame := if_frame f + 1\<rparr>) (s\<lparr>csp_dbg_can_errno := CSP_DBG_CAN_ERR_SHORT_BEGIN\<rparr>);
        s \<leftarrow> csp_can_pbuf_free iface p True isr s;
        Some (None, s)
      }
      else do {
        s \<leftarrow> upd_iface iface (\<lambda>f. f\<lparr>if_frame := if_frame f + 1\<rparr>) s;
        x \<leftarrow> get_packet p s;
        let x = csp_id1_setup_rx x;
        bs \<leftarrow> mem_read 0 4 data;
        m \<leftarrow> mem_write (frame_begin x) bs (bytes x);
        (_, x) \<leftarrow> csp_id1_strip (x\<lparr>bytes := m, frame_length := frame_length x + 4\<rparr>);
        bs \<leftarrow> mem_read 4 2 data;
        let x = x\<lparr>plen := be16toh (le_to_word bs)\<rparr>;
        let s = put_packet p x s;
        f \<leftarrow> get_iface iface s;
        (if plen x > if_mtu f then do {
           s \<leftarrow> upd_iface iface (\<lambda>f. f\<lparr>if_rx_error := if_rx_error f + 1\<rparr>) s;
           s \<leftarrow> csp_can_pbuf_free iface p True isr s;
           Some (None, s)
         }
         else Some (Some 6, put_packet p (x\<lparr>rx_count := 0, remain := ucast (CFP_REMAIN can_id + 1)\<rparr>) s))
      })"

text \<open>The case of a further frame, which the first frame falls into.\<close>

definition csp_can1_more :: "nat \<Rightarrow> u32 \<Rightarrow> u8 list \<Rightarrow> u8 \<Rightarrow> nat \<Rightarrow> nat \<Rightarrow> bool \<Rightarrow> node \<Rightarrow> node option" where
  "csp_can1_more iface can_id data dlc offset p isr s = do {
     x \<leftarrow> get_packet p s;
     (if uint (ucast (CFP_REMAIN can_id) :: u16) \<noteq> uint (remain x) - 1 then do {
        s \<leftarrow> csp_can_pbuf_free iface p True isr (s\<lparr>csp_dbg_can_errno := CSP_DBG_CAN_ERR_FRAME_LOST\<rparr>);
        upd_iface iface (\<lambda>f. f\<lparr>if_frame := if_frame f + 1\<rparr>) s
      }
      else do {
        let x = x\<lparr>remain := remain x - 1\<rparr>;
        let s = put_packet p x s;
        (if uint (rx_count x) + uint dlc - int offset > uint (plen x) then do {
           s \<leftarrow> upd_iface iface (\<lambda>f. f\<lparr>if_frame := if_frame f + 1\<rparr>) (s\<lparr>csp_dbg_can_errno := CSP_DBG_CAN_ERR_RX_OVF\<rparr>);
           csp_can_pbuf_free iface p True isr s
         }
         else do {
           bs \<leftarrow> mem_read offset (unat dlc - offset) data;
           x \<leftarrow> data_write (unat (rx_count x)) bs x;
           let x = x\<lparr>rx_count := rx_count x + of_nat (unat dlc - offset)\<rparr>;
           let s = put_packet p x s;
           (if rx_count x \<noteq> plen x then Some s
            else do {
              s \<leftarrow> csp_can_pbuf_free iface p False isr s;
              (_, s) \<leftarrow> csp_qfifo_write (Some p) (Some iface) isr s;
              Some s
            })
         })
      })
   }"

definition csp_can1_rx :: "nat \<Rightarrow> u32 \<Rightarrow> u8 list \<Rightarrow> u8 \<Rightarrow> bool \<Rightarrow> node \<Rightarrow> int csp" where
  "csp_can1_rx iface can_id data dlc isr s = do {
     (packet, s) \<leftarrow> csp_can_pbuf_find iface can_id CFP_ID_CONN_MASK s;
     (packet, s) \<leftarrow> (if packet = None \<and> CFP_TYPE can_id = CFP_BEGIN then csp_can_pbuf_new iface can_id isr s else Some (packet, s));
     (case packet of
        None \<Rightarrow>
          if CFP_TYPE can_id = CFP_BEGIN then do {
            s \<leftarrow> upd_iface iface (\<lambda>f. f\<lparr>if_rx_error := if_rx_error f + 1\<rparr>) s;
            Some (CSP_ERR_NOMEM, s)
          }
          else do {
            s \<leftarrow> upd_iface iface (\<lambda>f. f\<lparr>if_frame := if_frame f + 1\<rparr>) s;
            Some (CSP_ERR_INVAL, s)
          }
      | Some p \<Rightarrow>
          if CFP_TYPE can_id = CFP_BEGIN then do {
            (offset, s) \<leftarrow> csp_can1_begin iface can_id data dlc p isr s;
            s \<leftarrow> (case offset of None \<Rightarrow> Some s | Some off \<Rightarrow> csp_can1_more iface can_id data dlc off p isr s);
            Some (CSP_ERR_NONE, s)
          }
          else if CFP_TYPE can_id = CFP_MORE then do {
            s \<leftarrow> csp_can1_more iface can_id data dlc 0 p isr s;
            Some (CSP_ERR_NONE, s)
          }
          else do {
            s \<leftarrow> csp_can_pbuf_free iface p True isr (s\<lparr>csp_dbg_can_errno := CSP_DBG_CAN_ERR_UNKNOWN\<rparr>);
            Some (CSP_ERR_NONE, s)
          })
   }"

section \<open>CFP 1: transmission\<close>

type_synonym can_frame = "u32 \<times> u8 list"
type_synonym can_driver = "can_frame list \<Rightarrow> u32 \<Rightarrow> u8 list \<Rightarrow> int"

text \<open>The frames after the first; the result is true when the driver accepted all of them.\<close>

function csp_can1_tx_loop :: "can_driver \<Rightarrow> u8 \<Rightarrow> u32 \<Rightarrow> csp_packet_t \<Rightarrow> nat \<Rightarrow> can_frame list \<Rightarrow> (bool \<times> can_frame list) option" where
  "csp_can1_tx_loop driver dest ident x tx_count sent =
     (if tx_count < unat (plen x) then do {
        let data_bytes = (if unat (plen x) - tx_count \<ge> CAN_FRAME_SIZE then CAN_FRAME_SIZE else unat (plen x) - tx_count);
        let can_id = CFP_MAKE_SRC (ucast (src (pid x))) OR CFP_MAKE_DST (ucast dest) OR CFP_MAKE_ID ident OR CFP_MAKE_TYPE CFP_MORE OR
          CFP_MAKE_REMAIN (of_nat ((unat (plen x) - tx_count - data_bytes + CAN_FRAME_SIZE - 1) div CAN_FRAME_SIZE));
        bs \<leftarrow> data_read tx_count data_bytes x;
        (if driver sent can_id bs \<noteq> CSP_ERR_NONE then Some (False, sent @ [(can_id, bs)])
         else csp_can1_tx_loop driver dest ident x (tx_count + data_bytes) (sent @ [(can_id, bs)]))
      }
      else Some (True, sent))"
  by pat_completeness auto
termination csp_can1_tx_loop
  by (relation "measure (\<lambda>(driver, dest, ident, x, tx_count, sent). unat (plen x) - tx_count)") auto

declare csp_can1_tx_loop.simps [simp del]

text \<open>How both transmit functions end: with an error counted and the packet kept, or with the packet freed.\<close>

definition can_tx_end :: "nat \<Rightarrow> nat \<Rightarrow> bool \<times> can_frame list \<Rightarrow> node \<Rightarrow> (int \<times> can_frame list) csp" where
  "can_tx_end iface packet r s =
     (if fst r then do {
        (_, s) \<leftarrow> csp_buffer_free (Some packet) s;
        Some ((CSP_ERR_NONE, snd r), s)
      }
      else do {
        s \<leftarrow> upd_iface iface (\<lambda>f. f\<lparr>if_tx_error := if_tx_error f + 1\<rparr>) s;
        Some ((CSP_ERR_DRIVER, snd r), s)
      })"

definition csp_can1_tx :: "can_driver \<Rightarrow> nat \<Rightarrow> u16 \<Rightarrow> nat \<Rightarrow> node \<Rightarrow> (int \<times> can_frame list) csp" where
  "csp_can1_tx driver iface via packet s = do {
     x \<leftarrow> get_packet packet s;
     f \<leftarrow> get_iface iface s;
     (if dst (pid x) = if_addr f then do {
        (_, s) \<leftarrow> csp_qfifo_write (Some packet) (Some iface) False s;
        Some ((CSP_ERR_NONE, []), s)
      }
      else do {
        d \<leftarrow> get_can iface s;
        let ident = cfp_packet_counter d;
        s \<leftarrow> upd_can iface (\<lambda>d. d\<lparr>cfp_packet_counter := cfp_packet_counter d + 1\<rparr>) s;
        let dest = (if via \<noteq> CSP_NO_VIA_ADDRESS then ucast via else ucast (dst (pid x)) :: u8);
        let can_id = CFP_MAKE_SRC (ucast (src (pid x))) OR CFP_MAKE_DST (ucast dest) OR CFP_MAKE_ID ident OR CFP_MAKE_TYPE CFP_BEGIN OR
          CFP_MAKE_REMAIN (of_nat ((unat (plen x) + CFP1_DATA_OFFSET - 1) div CAN_FRAME_SIZE));
        let x = csp_id_prepend (csp_conf s) x;
        let s = put_packet packet x s;
        hd \<leftarrow> mem_read (frame_begin x) CFP1_CSP_HEADER_SIZE (bytes x);
        let data_bytes = (if unat (plen x) \<le> CFP1_DATA_SIZE_BEGIN then unat (plen x) else CFP1_DATA_SIZE_BEGIN);
        bs \<leftarrow> data_read 0 data_bytes x;
        let frame = hd @ word_to_le 2 (htobe16 (plen x)) @ bs;
        r \<leftarrow> (if driver [] can_id frame \<noteq> CSP_ERR_NONE then Some (False, [(can_id, frame)])
             else csp_can1_tx_loop driver dest ident x data_bytes [(can_id, frame)]);
        can_tx_end iface packet r s
      })
   }"

section \<open>CFP 2\<close>

definition CFP2_BEGIN :: u32 where "CFP2_BEGIN = push_bit CFP2_BEGIN_OFFSET CFP2_BEGIN_MASK"
definition CFP2_END :: u32 where "CFP2_END = push_bit CFP2_END_OFFSET CFP2_END_MASK"

text \<open>What is done to the packet before the data is stored: the header of the first frame, or the counter of a further one.
  The result is the rest of the data of the frame, or nothing when the packet was dropped.\<close>

definition csp_can2_begin :: "nat \<Rightarrow> u32 \<Rightarrow> u8 list \<Rightarrow> u8 \<Rightarrow> nat \<Rightarrow> bool \<Rightarrow> node \<Rightarrow> (u8 list \<times> u8) option csp" where
  "csp_can2_begin iface can_id data dlc p isr s =
     (if dlc < 4 then do {
        s \<leftarrow> upd_iface iface (\<lambda>f. f\<lparr>if_frame := if_frame f + 1\<rparr>) (s\<lparr>csp_dbg_can_errno := CSP_DBG_CAN_ERR_SHORT_BEGIN\<rparr>);
        s \<leftarrow> csp_can_pbuf_free iface p True isr s;
        Some (None, s)
      }
      else do {
        s \<leftarrow> upd_iface iface (\<lambda>f. f\<lparr>if_frame := if_frame f + 1\<rparr>) s;
        x \<leftarrow> get_packet p s;
        let x = csp_id2_setup_rx x;
        let first_two = htobe16 (ucast (drop_bit CFP2_DST_OFFSET can_id));
        m \<leftarrow> mem_write (frame_begin x) (word_to_le 2 first_two) (bytes x);
        bs \<leftarrow> mem_read 0 4 data;
        m \<leftarrow> mem_write (frame_begin x + 2) bs m;
        let x = x\<lparr>bytes := m, frame_length := 6, plen := 0, rx_count := 1\<rparr>;
        Some (Some (List.drop 4 data, dlc - 4), put_packet p x s)
      })"

definition csp_can2_fragment :: "nat \<Rightarrow> u32 \<Rightarrow> u8 list \<Rightarrow> u8 \<Rightarrow> nat \<Rightarrow> bool \<Rightarrow> node \<Rightarrow> (u8 list \<times> u8) option csp" where
  "csp_can2_fragment iface can_id data dlc p isr s = do {
     x \<leftarrow> get_packet p s;
     let fragment_counter = drop_bit CFP2_FC_OFFSET can_id AND CFP2_FC_MASK;
     (if ucast (rx_count x) \<noteq> fragment_counter then do {
        s \<leftarrow> csp_can_pbuf_free iface p True isr (s\<lparr>csp_dbg_can_errno := CSP_DBG_CAN_ERR_FRAME_LOST\<rparr>);
        s \<leftarrow> upd_iface iface (\<lambda>f. f\<lparr>if_frame := if_frame f + 1\<rparr>) s;
        Some (None, s)
      }
      else Some (Some (data, dlc), put_packet p (x\<lparr>rx_count := ucast (ucast (rx_count x + 1) AND CFP2_FC_MASK)\<rparr>) s))
   }"

text \<open>The data of the frame is stored, and after the last frame the packet is handed to the router.\<close>

definition csp_can2_store :: "nat \<Rightarrow> u32 \<Rightarrow> u8 list \<Rightarrow> u8 \<Rightarrow> nat \<Rightarrow> bool \<Rightarrow> node \<Rightarrow> int csp" where
  "csp_can2_store iface can_id data dlc p isr s = do {
     x \<leftarrow> get_packet p s;
     f \<leftarrow> get_iface iface s;
     (if unat (frame_length x) + unat dlc > unat (if_mtu f) then do {
        s \<leftarrow> upd_iface iface (\<lambda>f. f\<lparr>if_frame := if_frame f + 1\<rparr>) (s\<lparr>csp_dbg_can_errno := CSP_DBG_CAN_ERR_RX_OVF\<rparr>);
        s \<leftarrow> csp_can_pbuf_free iface p True isr s;
        Some (CSP_ERR_INVAL, s)
      }
      else do {
        bs \<leftarrow> mem_read 0 (unat dlc) data;
        m \<leftarrow> mem_write (frame_begin x + unat (frame_length x)) bs (bytes x);
        let x = x\<lparr>bytes := m, frame_length := frame_length x + ucast dlc\<rparr>;
        (if can_id AND CFP2_END \<noteq> 0 then do {
           (_, x) \<leftarrow> csp_id2_strip x;
           let x = (if dst (pid x) = 0x3FFF then x\<lparr>pid := (pid x)\<lparr>dst := if_addr f\<rparr>\<rparr> else x);
           s \<leftarrow> csp_can_pbuf_free iface p False isr (put_packet p x s);
           (_, s) \<leftarrow> csp_qfifo_write (Some p) (Some iface) isr s;
           Some (CSP_ERR_NONE, s)
         }
         else Some (CSP_ERR_NONE, put_packet p x s))
      })
   }"

definition csp_can2_rx :: "nat \<Rightarrow> u32 \<Rightarrow> u8 list \<Rightarrow> u8 \<Rightarrow> bool \<Rightarrow> node \<Rightarrow> int csp" where
  "csp_can2_rx iface can_id data dlc isr s = do {
     let begin_frame = (can_id AND CFP2_BEGIN \<noteq> 0);
     (packet, s) \<leftarrow> csp_can_pbuf_find iface can_id CFP2_ID_CONN_MASK s;
     (packet, s) \<leftarrow> (if packet = None \<and> begin_frame then csp_can_pbuf_new iface can_id isr s else Some (packet, s));
     (case packet of
        None \<Rightarrow>
          if begin_frame then do {
            s \<leftarrow> upd_iface iface (\<lambda>f. f\<lparr>if_rx_error := if_rx_error f + 1\<rparr>) s;
            Some (CSP_ERR_NOMEM, s)
          }
          else do {
            s \<leftarrow> upd_iface iface (\<lambda>f. f\<lparr>if_frame := if_frame f + 1\<rparr>) s;
            Some (CSP_ERR_INVAL, s)
          }
      | Some p \<Rightarrow> do {
          (rest, s) \<leftarrow> (if begin_frame then csp_can2_begin iface can_id data dlc p isr s
                        else csp_can2_fragment iface can_id data dlc p isr s);
          (case rest of
             None \<Rightarrow> Some (CSP_ERR_INVAL, s)
           | Some (data, dlc) \<Rightarrow> csp_can2_store iface can_id data dlc p isr s)
        })
   }"

text \<open>The fields that all frames of a packet carry. \<^verbatim>\<open>sender_count\<close> is only used modulo four.\<close>

definition can2_fields :: "csp_packet_t \<Rightarrow> csp_iface_t \<Rightarrow> u32 \<Rightarrow> u32" where
  "can2_fields x f sender_count =
     push_bit CFP2_PRIO_OFFSET (ucast (pri (pid x)) AND CFP2_PRIO_MASK) OR
     push_bit CFP2_DST_OFFSET (ucast (dst (pid x)) AND CFP2_DST_MASK) OR
     push_bit CFP2_SENDER_OFFSET (ucast (if_addr f) AND CFP2_SENDER_MASK) OR
     push_bit CFP2_SC_OFFSET (sender_count AND CFP2_SC_MASK)"

function csp_can2_tx_loop :: "can_driver \<Rightarrow> u32 \<Rightarrow> csp_packet_t \<Rightarrow> nat \<Rightarrow> nat \<Rightarrow> can_frame list \<Rightarrow> (bool \<times> can_frame list) option" where
  "csp_can2_tx_loop driver hdr x tx_count fragment_count sent =
     (if tx_count < unat (plen x) then do {
        let data_bytes = (if unat (plen x) - tx_count \<ge> CAN_FRAME_SIZE then CAN_FRAME_SIZE else unat (plen x) - tx_count);
        let can_id = hdr OR push_bit CFP2_FC_OFFSET (of_nat fragment_count AND CFP2_FC_MASK);
        let can_id = (if tx_count + data_bytes = unat (plen x) then can_id OR CFP2_END else can_id);
        bs \<leftarrow> data_read tx_count data_bytes x;
        (if driver sent can_id bs \<noteq> CSP_ERR_NONE then Some (False, sent @ [(can_id, bs)])
         else csp_can2_tx_loop driver hdr x (tx_count + data_bytes) (fragment_count + 1) (sent @ [(can_id, bs)]))
      }
      else Some (True, sent))"
  by pat_completeness auto
termination csp_can2_tx_loop
  by (relation "measure (\<lambda>(driver, hdr, x, tx_count, fragment_count, sent). unat (plen x) - tx_count)") auto

declare csp_can2_tx_loop.simps [simp del]

text \<open>The source address is shifted in the type \<^verbatim>\<open>int\<close>: a shift into the sign bit is undefined.\<close>

definition can2_header_extension :: "csp_id_t \<Rightarrow> u32 option" where
  "can2_header_extension i = do {
     a \<leftarrow> shift_int (ucast (src i) AND CFP2_SRC_MASK) CFP2_SRC_OFFSET;
     Some (a OR push_bit CFP2_DPORT_OFFSET (ucast (dport i) AND CFP2_DPORT_MASK) OR
       push_bit CFP2_SPORT_OFFSET (ucast (sport i) AND CFP2_SPORT_MASK) OR
       push_bit CFP2_FLAGS_OFFSET (ucast (flags i) AND CFP2_FLAGS_MASK))
   }"

definition csp_can2_tx :: "can_driver \<Rightarrow> nat \<Rightarrow> u16 \<Rightarrow> nat \<Rightarrow> node \<Rightarrow> (int \<times> can_frame list) csp" where
  "csp_can2_tx driver iface via packet s = do {
     x \<leftarrow> get_packet packet s;
     f \<leftarrow> get_iface iface s;
     (if dst (pid x) = if_addr f then do {
        (_, s) \<leftarrow> csp_qfifo_write (Some packet) (Some iface) False s;
        Some ((CSP_ERR_NONE, []), s)
      }
      else do {
        d \<leftarrow> get_can iface s;
        let hdr = can2_fields x f (cfp_packet_counter d);
        s \<leftarrow> upd_can iface (\<lambda>d. d\<lparr>cfp_packet_counter := cfp_packet_counter d + 1\<rparr>) s;
        ext \<leftarrow> can2_header_extension (pid x);
        let data_bytes = (if unat (plen x) \<ge> 4 then 4 else unat (plen x));
        bs \<leftarrow> data_read 0 data_bytes x;
        let frame = word_to_le 4 (htobe32 ext) @ bs;
        let can_id = hdr OR CFP2_BEGIN;
        let can_id = (if data_bytes = unat (plen x) then can_id OR CFP2_END else can_id);
        r \<leftarrow> (if driver [] can_id frame \<noteq> CSP_ERR_NONE then Some (False, [(can_id, frame)])
             else csp_can2_tx_loop driver hdr x data_bytes 1 [(can_id, frame)]);
        can_tx_end iface packet r s
      })
   }"

section \<open>Registration and dispatch\<close>

definition csp_can_add_interface :: "nat option \<Rightarrow> bool \<Rightarrow> bool \<Rightarrow> node \<Rightarrow> int csp" where
  "csp_can_add_interface iface has_name has_tx s =
     (case iface of
        None \<Rightarrow> Some (CSP_ERR_INVAL, s)
      | Some i \<Rightarrow> do {
          f \<leftarrow> get_iface i s;
          (case if_data f of
             Can_Data d \<Rightarrow>
               if \<not> has_name \<or> \<not> has_tx then Some (CSP_ERR_INVAL, s)
               else csp_iflist_add i (put_iface i (f\<lparr>if_mtu := of_nat (csp_buffer_data_size - 8),
                 if_data := Can_Data (d\<lparr>cfp_packet_counter := 0\<rparr>)\<rparr>) s)
           | _ \<Rightarrow> Some (CSP_ERR_INVAL, s))
        })"

text \<open>The transmit function that registration chooses.\<close>

definition csp_can_nexthop :: "can_driver \<Rightarrow> nat \<Rightarrow> u16 \<Rightarrow> nat \<Rightarrow> node \<Rightarrow> (int \<times> can_frame list) csp" where
  "csp_can_nexthop driver iface via packet s =
     (if version (csp_conf s) = 1 then csp_can1_tx driver iface via packet s else csp_can2_tx driver iface via packet s)"

definition csp_can_rx :: "nat \<Rightarrow> u32 \<Rightarrow> u8 list \<Rightarrow> u8 \<Rightarrow> bool \<Rightarrow> node \<Rightarrow> int csp" where
  "csp_can_rx iface can_id data dlc isr s =
     (if version (csp_conf s) = 1 then csp_can1_rx iface can_id data dlc isr s else csp_can2_rx iface can_id data dlc isr s)"

end
