(* ===== verification/Csp_Drivers.thy ===== *)
theory Csp_Drivers
  imports Csp_Can Csp_Kiss
begin

text \<open>
  The drivers between the interfaces and the operating system: SocketCAN (\<^verbatim>\<open>src/drivers/can/can_socketcan.c\<close>), KISS on a serial line
  (\<^verbatim>\<open>src/drivers/usart/usart_kiss.c\<close>), and the clocks of the POSIX port (\<^verbatim>\<open>src/arch/posix/csp_time.c\<close>, \<^verbatim>\<open>csp_clock.c\<close>). What the system
  calls give is a parameter. The threads that read are one round each.
\<close>

section \<open>Model\<close>

subsection \<open>Clocks\<close>

text \<open>\<open>ts\<close> is what \<^verbatim>\<open>clock_gettime\<close> gives, in seconds and nanoseconds, if it succeeds.\<close>

definition csp_get_ms :: "(int \<times> int) option \<Rightarrow> u32" where
  "csp_get_ms ts = (case ts of None \<Rightarrow> 0 | Some (sec, nsec) \<Rightarrow> word_of_int (sec * 1000 + nsec div 1000000))"

definition csp_get_s_posix :: "(int \<times> int) option \<Rightarrow> u32" where
  "csp_get_s_posix ts = (case ts of None \<Rightarrow> 0 | Some (sec, nsec) \<Rightarrow> word_of_int sec)"

definition csp_clock_get_time :: "(int \<times> int) option \<Rightarrow> u32 \<times> u32" where
  "csp_clock_get_time ts = (case ts of None \<Rightarrow> (0, 0) | Some (sec, nsec) \<Rightarrow> (word_of_int sec, word_of_int nsec))"

text \<open>\<open>settime\<close> says whether \<^verbatim>\<open>clock_settime\<close> takes the time.\<close>

definition csp_clock_set_time :: "(int \<times> int \<Rightarrow> bool) \<Rightarrow> u32 \<times> u32 \<Rightarrow> int" where
  "csp_clock_set_time settime t = (if settime (uint (fst t), uint (snd t)) then CSP_ERR_NONE else CSP_ERR_INVAL)"

subsection \<open>SocketCAN\<close>

definition CSP_ERR_TX :: int where [simp, csp_defs]: "CSP_ERR_TX = -10"

text \<open>The frame of the system (\<^verbatim>\<open>linux/can.h\<close>), with flags in the identifier.\<close>

definition CAN_EFF_FLAG :: u32 where [csp_defs]: "CAN_EFF_FLAG = 0x80000000"
definition CAN_RTR_FLAG :: u32 where [csp_defs]: "CAN_RTR_FLAG = 0x40000000"
definition CAN_ERR_FLAG :: u32 where [csp_defs]: "CAN_ERR_FLAG = 0x20000000"
definition CAN_EFF_MASK :: u32 where [csp_defs]: "CAN_EFF_MASK = 0x1FFFFFFF"
definition ENOBUFS :: int where [simp, csp_defs]: "ENOBUFS = 105"

record linux_can_frame =
  can_id :: u32
  can_dlc :: u8
  can_data :: "u8 list"

text \<open>One round of the thread that reads, with a complete frame or without.\<close>

definition socketcan_rx_round :: "linux_can_frame option \<Rightarrow> nat \<Rightarrow> node \<Rightarrow> unit csp" where
  "socketcan_rx_round frame iface s =
     (case frame of
        None \<Rightarrow> Some ((), s)
      | Some fr \<Rightarrow>
          if can_id fr AND CAN_EFF_FLAG = 0 then Some ((), s)
          else if can_id fr AND (CAN_ERR_FLAG OR CAN_RTR_FLAG) \<noteq> 0 then Some ((), s)
          else do {
            (_, s) \<leftarrow> csp_can_rx iface (can_id fr AND CAN_EFF_MASK) (can_data fr) (can_dlc fr) False s;
            Some ((), s)
          })"

text \<open>\<open>write n\<close> is the error of the \<open>n\<close>-th attempt, if it fails. \<^verbatim>\<open>ENOBUFS\<close> is tried again for a second.\<close>

function tx_frame_loop :: "(nat \<Rightarrow> int option) \<Rightarrow> nat \<Rightarrow> u32 \<Rightarrow> int" where
  "tx_frame_loop write n elapsed_ms =
     (case write n of
        None \<Rightarrow> CSP_ERR_NONE
      | Some errno \<Rightarrow>
          if errno \<noteq> ENOBUFS \<or> elapsed_ms \<ge> 1000 then CSP_ERR_TX else tx_frame_loop write (n + 1) (elapsed_ms + 5))"
  by pat_completeness auto
termination tx_frame_loop
  by (relation "measure (\<lambda>(write, n, e). 1000 - unat e)") (auto simp: word_le_nat_alt unat_word_ariths)

declare tx_frame_loop.simps [simp del]

definition csp_can_tx_frame :: "(nat \<Rightarrow> int option) \<Rightarrow> u32 \<Rightarrow> u8 list \<Rightarrow> u8 \<Rightarrow> (int \<times> linux_can_frame option) option" where
  "csp_can_tx_frame write ident data dlc =
     (if dlc > 8 then Some (CSP_ERR_INVAL, None)
      else do {
        bs \<leftarrow> mem_read 0 (unat dlc) data;
        let frame = \<lparr>can_id = ident OR CAN_EFF_FLAG, can_dlc = dlc, can_data = bs @ replicate (8 - unat dlc) 0\<rparr>;
        let r = tx_frame_loop write 0 0;
        Some (r, if r = CSP_ERR_NONE then Some frame else None)
      })"

text \<open>The filter, as identifier and mask, that is given to the system.\<close>

definition csp_can_socketcan_set_promisc :: "(u32 \<times> u32 \<Rightarrow> bool) \<Rightarrow> int \<Rightarrow> bool \<Rightarrow> nat \<Rightarrow> node \<Rightarrow> (int \<times> (u32 \<times> u32) option) option" where
  "csp_can_socketcan_set_promisc setsockopt socket promisc iface s = do {
     f \<leftarrow> get_iface iface s;
     (if socket = 0 then Some (CSP_ERR_INVAL, None)
      else do {
        let filt =
          (if promisc then (CFP_MAKE_DST (ucast (if_addr f)), 0)
           else if version (csp_conf s) = 1 then (CFP_MAKE_DST (ucast (if_addr f)), CFP_MAKE_DST (push_bit CFP_HOST_SIZE 1 - 1))
           else (push_bit CFP2_DST_OFFSET (ucast (if_addr f)), push_bit CFP2_DST_OFFSET CFP2_DST_MASK));
        Some (if setsockopt filt then CSP_ERR_NONE else CSP_ERR_INVAL, Some filt)
      })
   }"

text \<open>What the system does while an interface is opened.\<close>

record can_system =
  sys_calloc :: bool
  sys_socket :: int
  sys_ioctl :: bool
  sys_bind :: bool
  sys_setsockopt :: "u32 \<times> u32 \<Rightarrow> bool"
  sys_thread :: bool

text \<open>An allocated interface is a new element of \<open>ifaces\<close>; one that is freed again stays there, where nothing refers to it.\<close>

definition new_iface :: "csp_iface_t \<Rightarrow> node \<Rightarrow> nat \<times> node" where
  "new_iface f s = (length (ifaces s), s\<lparr>ifaces := ifaces s @ [f]\<rparr>)"

definition CSP_IF_CAN_DEFAULT_NAME :: string where [simp, csp_defs]: "CSP_IF_CAN_DEFAULT_NAME = ''CAN''"
definition CSP_IF_KISS_DEFAULT_NAME :: string where [simp, csp_defs]: "CSP_IF_KISS_DEFAULT_NAME = ''KISS''"

text \<open>The result and the interface that is returned, if one is.\<close>

definition csp_can_socketcan_open_and_add_interface :: "can_system \<Rightarrow> string option \<Rightarrow> bool \<Rightarrow> node \<Rightarrow> (int \<times> nat option) csp" where
  "csp_can_socketcan_open_and_add_interface sys ifname promisc s =
     (if \<not> sys_calloc sys then Some ((CSP_ERR_NOMEM, None), s)
      else do {
        let name = take CSP_IFLIST_NAME_MAX (case ifname of None \<Rightarrow> CSP_IF_CAN_DEFAULT_NAME | Some n \<Rightarrow> n);
        let (i, s) = new_iface (zero_iface\<lparr>if_name := name, if_data := Can_Data \<lparr>cfp_packet_counter = 0, pbufs = None\<rparr>\<rparr>) s;
        (if sys_socket sys < 0 \<or> \<not> sys_ioctl sys \<or> \<not> sys_bind sys then Some ((CSP_ERR_INVAL, None), s)
         else do {
           (r, _) \<leftarrow> csp_can_socketcan_set_promisc (sys_setsockopt sys) (sys_socket sys) promisc i s;
           (if r \<noteq> CSP_ERR_NONE then Some ((CSP_ERR_INVAL, None), s)
            else do {
              (res, s) \<leftarrow> csp_can_add_interface (Some i) True True s;
              Some (if res \<noteq> CSP_ERR_NONE then (res, None)
                    else if \<not> sys_thread sys then (CSP_ERR_NOMEM, None) else (CSP_ERR_NONE, Some i), s)
            })
         })
      })"

definition csp_can_socketcan_init :: "can_system \<Rightarrow> bool \<Rightarrow> node \<Rightarrow> nat option csp" where
  "csp_can_socketcan_init sys promisc s = do {
     ((res, i), s) \<leftarrow> csp_can_socketcan_open_and_add_interface sys (Some CSP_IF_CAN_DEFAULT_NAME) promisc s;
     Some (if res = CSP_ERR_NONE then i else None, s)
   }"

subsection \<open>KISS on a serial line\<close>

text \<open>\<open>written\<close> is what \<^verbatim>\<open>csp_usart_write\<close> returns.\<close>

definition kiss_driver_tx :: "int \<Rightarrow> u8 list \<Rightarrow> int" where
  "kiss_driver_tx written data = (if written = int (length data) then CSP_ERR_NONE else CSP_ERR_TX)"

definition kiss_driver_rx :: "nat \<Rightarrow> u8 list \<Rightarrow> node \<Rightarrow> unit csp" where
  "kiss_driver_rx iface data s = csp_kiss_rx iface data False s"

text \<open>\<open>calloc\<close> says whether memory is given, \<open>opened\<close> is what \<^verbatim>\<open>csp_usart_open\<close> returns.\<close>

definition csp_usart_open_and_add_kiss_interface :: "bool \<Rightarrow> int \<Rightarrow> string option \<Rightarrow> node \<Rightarrow> (int \<times> nat option) csp" where
  "csp_usart_open_and_add_kiss_interface calloc opened ifname s =
     (if \<not> calloc then Some ((CSP_ERR_NOMEM, None), s)
      else do {
        let name = take CSP_IFLIST_NAME_MAX (case ifname of None \<Rightarrow> CSP_IF_KISS_DEFAULT_NAME | Some n \<Rightarrow> n);
        let k = \<lparr>max_rx_length = 0, rx_mode = KISS_MODE_NOT_STARTED, rx_length = 0, rx_first = False, rx_packet = None\<rparr>;
        let (i, s) = new_iface (zero_iface\<lparr>if_name := name, if_data := Kiss_Data k\<rparr>) s;
        (res, s) \<leftarrow> csp_kiss_add_interface (Some i) True True s;
        Some ((if res = CSP_ERR_NONE then opened else res, Some i), s)
      })"

section \<open>Sending a frame\<close>

text \<open>The attempts that are made: at most 201, each but the last failing with \<^verbatim>\<open>ENOBUFS\<close>.\<close>

definition sent_at :: "(nat \<Rightarrow> int option) \<Rightarrow> nat \<Rightarrow> nat \<Rightarrow> bool" where
  "sent_at wr n k \<longleftrightarrow> n \<le> k \<and> k \<le> 200 \<and> wr k = None \<and> (\<forall>m. n \<le> m \<and> m < k \<longrightarrow> wr m = Some ENOBUFS)"

lemma sent_at_step: "wr n \<noteq> None \<Longrightarrow> sent_at wr n k \<longleftrightarrow> wr n = Some ENOBUFS \<and> sent_at wr (Suc n) k"
  unfolding sent_at_def by (metis Suc_leD Suc_leI le_antisym linorder_not_le nless_le option.distinct(1))

lemma tx_frame_loop_result:
  "unat e = 5 * n \<Longrightarrow> n \<le> 200 \<Longrightarrow> tx_frame_loop wr n e = (if \<exists>k. sent_at wr n k then CSP_ERR_NONE else CSP_ERR_TX)"
proof (induction wr n e rule: tx_frame_loop.induct)
  case (1 wr n e)
  show ?case
  proof (cases "wr n")
    case None
    then have "sent_at wr n n" using 1 by (auto simp: sent_at_def)
    then show ?thesis using None by (subst tx_frame_loop.simps) auto
  next
    case (Some err)
    show ?thesis
    proof (cases "err \<noteq> ENOBUFS \<or> e \<ge> 1000")
      case True
      have "\<not> sent_at wr n k" for k
      proof
        assume k: "sent_at wr n k"
        then have "Suc n \<le> k" "k \<le> 200" "err = ENOBUFS" using Some sent_at_step [of wr n k] by (simp_all add: sent_at_def)
        moreover have "unat e \<ge> 1000" if "err = ENOBUFS" using True that by (simp add: word_le_nat_alt)
        ultimately show False using 1(2) by simp
      qed
      then show ?thesis using True Some by (subst tx_frame_loop.simps) auto
    next
      case False
      then have e: "unat e < 1000" by (simp add: word_le_nat_alt)
      then have "unat (e + 5) = 5 * (n + 1)" "n + 1 \<le> 200" using 1(2) by (simp_all add: unat_word_ariths)
      then have "tx_frame_loop wr (n + 1) (e + 5) = (if \<exists>k. sent_at wr (Suc n) k then CSP_ERR_NONE else CSP_ERR_TX)"
        using 1(1) [OF Some] False by simp
      then show ?thesis using False Some sent_at_step [of wr n] by (subst tx_frame_loop.simps) simp
    qed
  qed
qed

text \<open>A frame that is sent is read on the other side as it was, with the identifier without its flag.\<close>

lemma socketcan_through:
  assumes "csp_can_tx_frame wr ident data dlc = Some (CSP_ERR_NONE, Some fr)" "ident < 2 ^ 29"
  shows "socketcan_rx_round (Some fr) i s =
    map_option (\<lambda>r. ((), snd r)) (csp_can_rx i ident (take (unat dlc) data @ replicate (8 - unat dlc) 0) dlc False s)"
proof -
  have b: "\<And>n. bit ident n \<Longrightarrow> n < 29" using less_power_bits [OF assms(2)] .
  have f: "fr = \<lparr>can_id = ident OR CAN_EFF_FLAG, can_dlc = dlc, can_data = take (unat dlc) data @ replicate (8 - unat dlc) 0\<rparr>"
    using assms(1) by (auto simp: csp_can_tx_frame_def Let_def mem_read_def bind_Some_iff split: if_splits)
  have n: "CAN_ERR_FLAG OR CAN_RTR_FLAG = push_bit 29 (Bit_Operations.mask 2)" "CAN_EFF_MASK = Bit_Operations.mask 29"
    by (simp_all add: CAN_ERR_FLAG_def CAN_RTR_FLAG_def CAN_EFF_MASK_def mask_numeral)
  have e: "CAN_EFF_FLAG = push_bit 31 1" by (simp add: CAN_EFF_FLAG_def)
  have eff: "bit CAN_EFF_FLAG k \<longleftrightarrow> k = 31" for k unfolding e bit_push_bit_iff by (auto simp: bit_1_iff)
  then have "bit ((ident OR CAN_EFF_FLAG) AND CAN_EFF_FLAG) 31" by (simp add: bit_simps)
  then have "(ident OR CAN_EFF_FLAG) AND CAN_EFF_FLAG \<noteq> 0" by auto
  moreover have "(ident OR CAN_EFF_FLAG) AND (CAN_ERR_FLAG OR CAN_RTR_FLAG) = 0"
    unfolding n by (rule bit_word_eqI) (auto simp: eff bit_simps dest: b)
  moreover have "(ident OR CAN_EFF_FLAG) AND CAN_EFF_MASK = ident"
    unfolding n by (rule bit_word_eqI) (auto simp: eff bit_simps dest: b)
  ultimately show ?thesis
    by (cases "csp_can_rx i ident (take (unat dlc) data @ replicate (8 - unat dlc) 0) dlc False s") (auto simp: f socketcan_rx_round_def)
qed

section \<open>Filtering\<close>

lemma and_field_eq:
  fixes a b :: u32
  assumes "r AND push_bit 13 CFP2_DST_MASK = 0" "a < 2 ^ 14" "b < 2 ^ 14"
  shows "(push_bit 13 a OR r) AND push_bit 13 CFP2_DST_MASK = push_bit 13 b AND push_bit 13 CFP2_DST_MASK \<longleftrightarrow> a = b"
proof
  assume e: "(push_bit 13 a OR r) AND push_bit 13 CFP2_DST_MASK = push_bit 13 b AND push_bit 13 CFP2_DST_MASK"
  have m: "CFP2_DST_MASK = Bit_Operations.mask 14" by (simp add: CFP2_DST_MASK_def mask_numeral)
  have f: "drop_bit 13 (push_bit 13 c AND push_bit 13 CFP2_DST_MASK) = c" if "c < 2 ^ 14" for c :: u32
    using less_power_bits [OF that] unfolding m by (intro bit_word_eqI) (force simp: bit_simps)
  have "(push_bit 13 a OR r) AND push_bit 13 CFP2_DST_MASK = push_bit 13 a AND push_bit 13 CFP2_DST_MASK"
    using assms(1) by (simp add: bit.conj_disj_distrib2)
  then show "a = b" using e f [OF assms(2)] f [OF assms(3)] by simp
qed (use assms(1) in \<open>simp add: bit.conj_disj_distrib2\<close>)

text \<open>A filter on the destination looks at the destination of a frame only.\<close>

lemma can2_dst_match:
  assumes "b < 2 ^ 14" "dst (pid x) < 2 ^ 14" "rest AND push_bit CFP2_DST_OFFSET CFP2_DST_MASK = 0"
  shows "(can2_fields x g n OR rest) AND push_bit 13 CFP2_DST_MASK = push_bit 13 b AND push_bit 13 CFP2_DST_MASK \<longleftrightarrow> ucast (dst (pid x)) = b"
proof -
  let ?m = "push_bit 13 CFP2_DST_MASK"
  define r where "r = push_bit CFP2_PRIO_OFFSET (ucast (pri (pid x)) AND CFP2_PRIO_MASK) OR
     push_bit CFP2_SENDER_OFFSET (ucast (if_addr g) AND CFP2_SENDER_MASK) OR push_bit CFP2_SC_OFFSET (n AND CFP2_SC_MASK) OR rest"
  have m: "CFP2_DST_MASK = Bit_Operations.mask 14" "CFP2_SENDER_MASK = Bit_Operations.mask 5" "CFP2_SC_MASK = Bit_Operations.mask 2"
    by (simp_all add: CFP2_DST_MASK_def CFP2_SENDER_MASK_def CFP2_SC_MASK_def mask_numeral)
  have d: "ucast (dst (pid x)) AND CFP2_DST_MASK = (ucast (dst (pid x)) :: u32)"
    using less_power_bits [OF assms(2)] unfolding m by (intro bit_word_eqI) (auto simp: bit_simps)
  have eq: "can2_fields x g n OR rest = push_bit 13 (ucast (dst (pid x))) OR r"
    unfolding can2_fields_def r_def d by (simp add: ac_simps)
  have "(push_bit 27 (ucast (pri (pid x)) AND CFP2_PRIO_MASK) OR push_bit 7 (ucast (if_addr g) AND CFP2_SENDER_MASK) OR push_bit 5 (n AND CFP2_SC_MASK))
      AND ?m = 0" unfolding m by (rule bit_word_eqI) (auto simp: bit_simps)
  then have "r AND ?m = 0" using assms(3) by (simp add: r_def bit.conj_disj_distrib2)
  moreover have "(ucast (dst (pid x)) :: u32) < 2 ^ 14" using assms(2) by (simp add: word_less_nat_alt)
  ultimately show ?thesis unfolding eq using and_field_eq assms(1) by blast
qed

section \<open>Properties\<close>

text \<open>C29: The driver always comes to an end: it reports success exactly when one of the first 201 attempts to write the frame succeeds and all
  before it failed for want of buffers; any other error, and a second without buffers, is reported as a failure.\<close>

theorem csp_can_tx_frame_ends:
  assumes "unat dlc \<le> 8" "unat dlc \<le> length data"
  shows "\<exists>r fr. csp_can_tx_frame wr ident data dlc = Some (r, fr) \<and> r \<in> {CSP_ERR_NONE, CSP_ERR_TX} \<and>
    (r = CSP_ERR_NONE \<longleftrightarrow> (\<exists>k. sent_at wr 0 k))"
proof -
  have "\<not> dlc > 8" using assms(1) by (simp add: word_less_nat_alt)
  moreover have "mem_read 0 (unat dlc) data = Some (take (unat dlc) data)" using assms(2) by (simp add: mem_read_def)
  moreover have "tx_frame_loop wr 0 0 = (if \<exists>k. sent_at wr 0 k then CSP_ERR_NONE else CSP_ERR_TX)" by (rule tx_frame_loop_result) simp_all
  ultimately show ?thesis by (simp add: csp_can_tx_frame_def)
qed

theorem csp_can_tx_frame_ends_witness:
  "\<exists>fr. csp_can_tx_frame (\<lambda>n. Some ENOBUFS) 5 [1, 2, 3] 3 = Some (CSP_ERR_TX, fr)"
proof -
  have "\<not> sent_at (\<lambda>n. Some ENOBUFS) 0 k" for k by (simp add: sent_at_def)
  then show ?thesis using csp_can_tx_frame_ends [of 3 "[1, 2, 3]" "\<lambda>n. Some ENOBUFS" 5] by auto
qed

text \<open>With header version 2 and without promiscuous mode, the filter that is given to the system lets a frame through exactly when its destination
  is the address of the interface.\<close>

theorem can_filter_accepts:
  assumes "get_iface i s = Some f" "version (csp_conf s) \<noteq> 1" "socket \<noteq> 0" "if_addr f < 2 ^ 14" "dst (pid x) < 2 ^ 14"
    "rest AND push_bit CFP2_DST_OFFSET CFP2_DST_MASK = 0"
  shows "\<exists>r ident msk. csp_can_socketcan_set_promisc opt socket False i s = Some (r, Some (ident, msk)) \<and>
    ((can2_fields x g n OR rest) AND msk = ident AND msk \<longleftrightarrow> dst (pid x) = if_addr f)"
proof -
  have "(ucast (if_addr f) :: u32) < 2 ^ 14" using assms(4) by (simp add: word_less_nat_alt)
  moreover have "(ucast (dst (pid x)) :: u32) = ucast (if_addr f) \<longleftrightarrow> dst (pid x) = if_addr f" by (metis ucast_u16_u32)
  ultimately show ?thesis using assms(1-3) can2_dst_match [OF _ assms(5,6), of "ucast (if_addr f)" g n]
    by (simp add: csp_can_socketcan_set_promisc_def Let_def)
qed

end
