(* ===== verification/Csp_Zmq.thy ===== *)
theory Csp_Zmq
  imports Csp_Links Csp_Drivers
begin

text \<open>
  The set-up of a ZMQ interface (\<^verbatim>\<open>src/interfaces/csp_if_zmqhub.c\<close>) and the way of a packet through the proxy, which hands a frame to the nodes
  that subscribed to the bytes it starts with. What libzmq and the system give is a parameter; a failed \<^verbatim>\<open>assert\<close> aborts the
  program, which is \<open>None\<close>.
\<close>

section \<open>Model\<close>

definition CSP_ZMQPROXY_SUBSCRIBE_PORT :: u16 where [simp, csp_defs]: "CSP_ZMQPROXY_SUBSCRIBE_PORT = 6000"
definition CSP_ZMQPROXY_PUBLISH_PORT :: u16 where [simp, csp_defs]: "CSP_ZMQPROXY_PUBLISH_PORT = 7000"

text \<open>\<open>z_sockets\<close>: the memory, the context and both sockets are given; \<open>z_connect\<close>: the publisher can be connected. The result of connecting the
  subscriber is not looked at.\<close>

record zmq_system =
  z_sockets :: bool
  z_connect :: "string \<Rightarrow> bool"
  z_subscribe_all :: bool
  z_thread :: bool

text \<open>What is handed to libzmq: the two endpoints and the subscriptions.\<close>

record zmq_link =
  z_publish :: string
  z_subscribe :: string
  z_filters :: "u8 list list"

definition assert_that :: "bool \<Rightarrow> unit option" where
  "assert_that b = (if b then Some () else None)"

definition csp_zmqhub_init_w_name_endpoints_rxfilter ::
  "zmq_system \<Rightarrow> string option \<Rightarrow> u16 list \<Rightarrow> string \<Rightarrow> string \<Rightarrow> node \<Rightarrow> (int \<times> nat \<times> zmq_link) csp" where
  "csp_zmqhub_init_w_name_endpoints_rxfilter sys ifname rxfilter publish_endpoint subscribe_endpoint s = do {
     _ \<leftarrow> assert_that (z_sockets sys);
     let (i, s) = new_iface zero_iface s;
     _ \<leftarrow> assert_that (z_subscribe_all sys);
     _ \<leftarrow> assert_that (z_connect sys publish_endpoint);
     _ \<leftarrow> assert_that (z_thread sys);
     (_, s) \<leftarrow> csp_zmqhub_add_interface ifname i s;
     Some ((CSP_ERR_NONE, i, \<lparr>z_publish = publish_endpoint, z_subscribe = subscribe_endpoint, z_filters = [[]]\<rparr>), s)
   }"

definition csp_zmqhub_init_w_endpoints :: "zmq_system \<Rightarrow> string \<Rightarrow> string \<Rightarrow> node \<Rightarrow> (int \<times> nat \<times> zmq_link) csp" where
  "csp_zmqhub_init_w_endpoints sys publisher_endpoint subscriber_endpoint s =
     csp_zmqhub_init_w_name_endpoints_rxfilter sys None [] publisher_endpoint subscriber_endpoint s"

text \<open>What \<^verbatim>\<open>csp_zmqhub_make_endpoint\<close> returns is not looked at.\<close>

definition csp_zmqhub_init :: "zmq_system \<Rightarrow> string \<Rightarrow> node \<Rightarrow> (int \<times> nat \<times> zmq_link) csp" where
  "csp_zmqhub_init sys host s = do {
     (_, pub) \<leftarrow> csp_zmqhub_make_endpoint host CSP_ZMQPROXY_SUBSCRIBE_PORT 100;
     (_, sub) \<leftarrow> csp_zmqhub_make_endpoint host CSP_ZMQPROXY_PUBLISH_PORT 100;
     csp_zmqhub_init_w_endpoints sys pub sub s
   }"

definition csp_zmqhub_init_filter2 :: "zmq_system \<Rightarrow> string option \<Rightarrow> string \<Rightarrow> u16 \<Rightarrow> u16 \<Rightarrow> bool \<Rightarrow> node \<Rightarrow> (int \<times> nat \<times> zmq_link) csp" where
  "csp_zmqhub_init_filter2 sys ifname host addr netmask promisc s = do {
     (_, pub) \<leftarrow> csp_zmqhub_make_endpoint host CSP_ZMQPROXY_SUBSCRIBE_PORT 100;
     (_, sub) \<leftarrow> csp_zmqhub_make_endpoint host CSP_ZMQPROXY_PUBLISH_PORT 100;
     _ \<leftarrow> assert_that (z_sockets sys);
     let (i, s) = new_iface zero_iface s;
     fs \<leftarrow> zmq_filters (csp_conf s) promisc addr netmask;
     _ \<leftarrow> assert_that (z_connect sys pub);
     _ \<leftarrow> assert_that (promisc \<longrightarrow> z_subscribe_all sys);
     _ \<leftarrow> assert_that (z_thread sys);
     (_, s) \<leftarrow> csp_zmqhub_add_interface ifname i s;
     Some ((CSP_ERR_NONE, i, \<lparr>z_publish = pub, z_subscribe = sub, z_filters = fs\<rparr>), s)
   }"

section \<open>Set-up\<close>

lemma assert_simps [simp]: "assert_that True = Some ()" "assert_that False = None" "assert_that b = Some u \<longleftrightarrow> b"
  by (simp_all add: assert_that_def)

lemma zmq_init_publish: "csp_zmqhub_init_w_endpoints sys pub sub s = Some ((r, i, l), s') \<Longrightarrow> z_publish l = pub"
  by (auto simp: csp_zmqhub_init_w_endpoints_def csp_zmqhub_init_w_name_endpoints_rxfilter_def bind_Some_iff split: prod.splits)

text \<open>The name of a host is too long when the endpoint does not fit in 100 bytes; then the program connects to the empty name.\<close>

lemma csp_zmqhub_init_long_host:
  assumes "csp_zmqhub_init sys host s = Some ((r, i, l), s')"
  shows "z_publish l = (if length host \<le> 88 then ''tcp://'' @ host @ '':6000'' else '''')"
proof -
  have "digit_char 6 = CHR ''6''" "digit_char 0 = CHR ''0''" by code_simp+
  then have d: "decimal 6000 = ''6000''" by (simp add: decimal.simps [of 6000] decimal.simps [of 600] decimal.simps [of 60] decimal.simps [of 6])
  have "csp_zmqhub_make_endpoint host 6000 100 = Some (if length host \<le> 88 then (CSP_ERR_NONE, ''tcp://'' @ host @ '':6000'') else (CSP_ERR_NOMEM, ''''))"
    by (simp add: csp_zmqhub_make_endpoint_def d del: CSP_ERR_NOMEM_def)
  moreover obtain e sub where "csp_zmqhub_make_endpoint host 7000 100 = Some (e, sub)"
    by (cases "csp_zmqhub_make_endpoint host 7000 100") (auto simp: csp_zmqhub_make_endpoint_def Let_def split: if_splits)
  ultimately have "csp_zmqhub_init_w_endpoints sys (if length host \<le> 88 then ''tcp://'' @ host @ '':6000'' else '''') sub s = Some ((r, i, l), s')"
    using assms by (simp add: csp_zmqhub_init_def split: if_splits)
  then show ?thesis by (rule zmq_init_publish)
qed

section \<open>Reception\<close>

text \<open>A frame that another node transmitted is the last of the input queue after one round of the task.\<close>

lemma zmq_rx_eq:
  assumes "accounts H s" "free_list s = q # fs" "items (qfifo_queue s) < qsize (qfifo_queue s)"
    "packet_wf x" "id_fits (csp_conf s) (pid x)" "unat (plen x) \<le> CSP_BUFFER_SIZE"
  defines "fr \<equiv> pframe (csp_id_prepend (csp_conf s) x)"
  shows "\<exists>s' y. csp_zmqhub_task_body (Some fr) i s = Some ((), s') \<and> accounts H s' \<and>
    queue_list (qfifo_queue s') = queue_list (qfifo_queue s) @ [\<lparr>q_iface = Some i, q_packet = Some q\<rparr>] \<and>
    get_packet q s' = Some y \<and> pid y = pid x \<and> pdata y = pdata x"
proof -
  let ?conf = "csp_conf s" and ?t = "take_buffer q s"
  note a = accounts_take [OF assms(1,2)]
  have get: "csp_buffer_get (unat (plen x)) s = Some (Some q, ?t)"
    using csp_buffer_get_eq [of s "unat (plen x)"] assms(1,2,6) by (simp add: accounts_def)
  obtain z where z: "get_packet q ?t = Some z" "length (bytes z) = PACKET_BYTES" using accounts_packet [OF a] by auto
  have q: "q < length (csp_buffer_pool ?t)" using accounts_held(2,4) [OF a] by (simp add: pool_inv_def)
  have conf: "csp_conf ?t = ?conf" "qfifo_queue ?t = qfifo_queue s" by (simp_all add: take_buffer_def)
  have len: "length fr = id_header_size ?conf + unat (plen x)" unfolding fr_def by (rule length_pframe_prepend [OF assms(4)])
  have hs: "id_header_size ?conf \<le> 6" "id_header_size ?conf = (if version ?conf = 2 then 6 else 4)" by (simp_all add: id_header_size_def)
  obtain y where y: "csp_id_strip ?conf (load_frame (id_header_size ?conf) fr z) = Some (0, y)" "pid y = pid x" "pdata y = pdata x" "packet_wf y"
    using id.receive_transmitted [OF assms(4,5) z(2)] unfolding fr_def by blast
  obtain X where x: "csp_id_setup_rx ?conf z = (id_header_size ?conf, X)" "bytes X = bytes z" "frame_begin X = DATA_OFFSET - id_header_size ?conf"
    and l: "X\<lparr>bytes := mem_put (frame_begin X) fr (bytes z), frame_length := of_nat (length fr)\<rparr> = load_frame (id_header_size ?conf) fr z"
    using load_frame_eq [where conf = ?conf and fr = fr and z = z] by (simp add: csp_id_setup_rx_eq)
  have room: "frame_begin X + length fr \<le> length (bytes X)" using hs(1) len z(2) assms(6) by (simp add: x)
  have w: "mem_write (frame_begin X) fr (bytes X) = Some (mem_put (frame_begin X) fr (bytes z))" using mem_write_put [OF room] x(2) by simp
  have b: "accounts (add_mset q H) (put_packet q y ?t)" using accounts_put [OF a] y(4) by (simp add: packet_wf_def)
  have room': "items (qfifo_queue (put_packet q y ?t)) < qsize (qfifo_queue (put_packet q y ?t))" using assms(3) conf(2) by simp
  obtain s' where s': "csp_qfifo_write (Some q) (Some i) False (put_packet q y ?t) = Some ((), s')" "accounts H s'"
    "queue_list (qfifo_queue s') = queue_list (qfifo_queue s) @ [\<lparr>q_iface = Some i, q_packet = Some q\<rparr>]"
    "get_packet q s' = get_packet q (put_packet q y ?t)"
    using link_accept [OF b room', of i] conf(2) by auto
  have "\<not> length fr < (if version ?conf = 2 then 6 else 4)" "length fr - (if version ?conf = 2 then 6 else 4) = unat (plen x)"
    using len hs(2) by simp_all
  then have "csp_zmqhub_task_body (Some fr) i s = Some ((), s')"
    by (simp only: csp_zmqhub_task_body_def option.case Let_def if_False) (simp add: conf get z(1) x(1) w l y(1) s'(1))
  then show ?thesis using s' y get_put_packet [OF q] by simp
qed

section \<open>Properties\<close>

text \<open>C26: Two nodes on a ZMQ proxy, with header version 2: what the one transmits matches a subscription of the other exactly when it is for the
  address of the other, for the broadcast address of its subnet or for all nodes; and one round of the receiving task puts the
  packet, with its identifier and data, into the input queue. The buffers of both nodes stay accounted for.\<close>

theorem csp_zmqhub_delivers:
  assumes "accounts (add_mset p H0) s0" "get_packet p s0 = Some x" "packet_wf x" "id2_fits (pid x)" "version (csp_conf s0) = 2"
    "version (csp_conf s) = 2" "accounts H s" "free_list s = q # fs" "items (qfifo_queue s) < qsize (qfifo_queue s)"
    "unat (plen x) \<le> CSP_BUFFER_SIZE" "addr < 2 ^ 14" "unat netmask \<le> 14"
    "zmq_filters (csp_conf s) False addr netmask = Some filters"
  shows "\<exists>fr s0' s' y. csp_zmqhub_tx j via p s0 = Some ((CSP_ERR_NONE, fr), s0') \<and> accounts H0 s0' \<and>
    ((\<exists>f \<in> set filters. take (length f) fr = f) \<longleftrightarrow> dst (pid x) \<in> {addr, addr OR Bit_Operations.mask (14 - unat netmask), 16383}) \<and>
    csp_zmqhub_task_body (Some fr) i s = Some ((), s') \<and> accounts H s' \<and>
    queue_list (qfifo_queue s') = queue_list (qfifo_queue s) @ [\<lparr>q_iface = Some i, q_packet = Some q\<rparr>] \<and>
    get_packet q s' = Some y \<and> pid y = pid x \<and> pdata y = pdata x"
proof -
  have v: "csp_id_prepend (csp_conf s0) x = csp_id_prepend (csp_conf s) x" "id_fits (csp_conf s) (pid x)"
    using assms(4-6) by (simp_all add: csp_id_prepend_def id_fits_def)
  from udp_tx_eq [OF assms(1-3), of j via] zmq_rx_eq [OF assms(7-9,3) v(2) assms(10), of i]
    zmq_filters_accept [OF assms(3,6,4,11,12)] assms(13) v(1) show ?thesis by auto
qed

theorem csp_zmqhub_delivers_witness:
  "\<exists>fr s0' s' fs. csp_zmqhub_tx 1 0 3 (put_packet 3 (zero_packet\<lparr>plen := 5\<rparr>) busy_node) = Some ((CSP_ERR_NONE, fr), s0') \<and>
     zmq_filters (csp_conf kiss_node) False 0 14 = Some fs \<and> (\<exists>f \<in> set fs. take (length f) fr = f) \<and>
     csp_zmqhub_task_body (Some fr) 1 kiss_node = Some ((), s') \<and> queue_list (qfifo_queue s') = [\<lparr>q_iface = Some 1, q_packet = Some 3\<rparr>]"
proof -
  note s = kiss_sender [of 5, simplified] and k = kiss_node_facts
  have f: "id2_fits (pid (zero_packet\<lparr>plen := 5\<rparr>))" "dst (pid (zero_packet\<lparr>plen := 5\<rparr>)) = 0"
    by (simp_all add: id2_fits_def zero_packet_def zero_id_def)
  have n: "unat (14 :: u16) \<le> 14" "0 < (2 ^ 14 :: u16)" "unat (plen (zero_packet\<lparr>plen := 5\<rparr>)) \<le> CSP_BUFFER_SIZE" by simp_all
  have v: "version (csp_conf (put_packet 3 (zero_packet\<lparr>plen := 5\<rparr>) busy_node)) = 2" using s(5) by simp
  obtain fs where fs: "zmq_filters (csp_conf kiss_node) False 0 14 = Some fs"
    using zmq_filters_accept [OF s(3) k(3) f(1) n(2,1)] by blast
  from csp_zmqhub_delivers [OF s(1-3) f(1) v k(3,1,2,6) n(3,2,1) fs, of 1 0 1] f(2) k(7) fs show ?thesis by auto
qed

end
