(* ===== verification/Csp_Python.thy ===== *)
theory Csp_Python
  imports Csp_Client Csp_Loopback Csp_Rtable_Text Csp_Zmq Csp_Drivers
begin

text \<open>
  The Python binding (\<^verbatim>\<open>src/bindings/python/pycsp.c\<close>). Packets, connections and sockets are handed to Python as capsules; a capsule whose
  packet was sent or freed holds the address of a marker instead. A method returns a value, or a null pointer after setting the
  exception of the thread. The theorem says that a Python program, whatever it does with its capsules, neither loses a
  packet buffer nor frees one twice.
\<close>

section \<open>Objects of Python\<close>

text \<open>
  The objects the binding looks into are capsules (a name and a pointer, the index of the object in the node;
  \<open>None\<close> is \<^verbatim>\<open>&CSP_POINTER_HAS_BEEN_FREED\<close>) and writable buffers. An object is its index in the list of all objects;
  one that was deallocated leaves \<open>None\<close>. The calls \<^verbatim>\<open>PyCapsule_GetName\<close>, \<^verbatim>\<open>_GetPointer\<close> and \<^verbatim>\<open>_SetPointer\<close> read and write the
  parts of a capsule.
\<close>

datatype py_object = Capsule string "nat option" | Bytearray "u8 list" | Other_Object

datatype py_exception = PyExc_TypeError | Csp_Error string int

datatype py_value = Py_None | Py_Int int | Py_Str string | Py_Bytes "u8 list" | Py_Object nat | Py_Tuple "py_value list"

record py =
  py_node :: node
  objects :: "py_object option list"
  py_err :: "py_exception option"

type_synonym 'a py_op = "py \<Rightarrow> ('a \<times> py) option"
type_synonym py_method = "py \<Rightarrow> (py_value option \<times> py) option"

text \<open>
  What is around the binding: the tasks and drivers of the node (\<open>py_io\<close>, \<open>py_hooks\<close>, the results of system calls), the function
  \<^verbatim>\<open>csp_socket\<close>, which the library does not contain, the contents of uninitialised memory, and what the other threads of the interpreter
  do while a method has released its lock.
\<close>

record py_env =
  py_io :: io_env
  py_hooks :: hooks
  py_others :: "node \<Rightarrow> node"
  py_threads :: "py \<Rightarrow> py"
  py_csp_socket :: "u32 \<Rightarrow> node \<Rightarrow> nat option \<times> node"
  py_attr_init :: bool
  py_thread_create :: int
  py_zmq :: zmq_system
  py_can :: can_system
  py_calloc :: bool
  py_usart_open :: int
  py_stack :: "u8 list"

definition SOCKET_CAPSULE :: string where "SOCKET_CAPSULE = ''csp_socket_t''"
definition CONNECTION_CAPSULE :: string where "CONNECTION_CAPSULE = ''csp_conn_t''"
definition PACKET_CAPSULE :: string where "PACKET_CAPSULE = ''csp_packet_t''"

lemma capsule_names [simp]:
  "PACKET_CAPSULE \<noteq> CONNECTION_CAPSULE" "PACKET_CAPSULE \<noteq> SOCKET_CAPSULE" "CONNECTION_CAPSULE \<noteq> SOCKET_CAPSULE"
  "CONNECTION_CAPSULE \<noteq> PACKET_CAPSULE" "SOCKET_CAPSULE \<noteq> PACKET_CAPSULE" "SOCKET_CAPSULE \<noteq> CONNECTION_CAPSULE"
  by (simp_all add: PACKET_CAPSULE_def CONNECTION_CAPSULE_def SOCKET_CAPSULE_def)

text \<open>Returning a null pointer with an exception, a value, or a new capsule.\<close>

definition py_raise :: "py_exception \<Rightarrow> 'a option py_op" where
  "py_raise e s = Some (None, s\<lparr>py_err := Some e\<rparr>)"

definition PyErr_Error :: "string \<Rightarrow> int \<Rightarrow> py_method" where
  "PyErr_Error message error = py_raise (Csp_Error message error)"

definition py_return :: "py_value \<Rightarrow> py_method" where
  "py_return v s = Some (Some v, s)"

definition new_capsule :: "nat \<Rightarrow> string \<Rightarrow> py_method" where
  "new_capsule ptr name s = Some (Some (Py_Object (length (objects s))), s\<lparr>objects := objects s @ [Some (Capsule name (Some ptr))]\<rparr>)"

text \<open>
  The parsed arguments of a method are its first argument; \<open>None\<close> says that \<^verbatim>\<open>PyArg_ParseTuple\<close> failed and has set
  an exception. Optional arguments are themselves options.
\<close>

definition parsed :: "'a option \<Rightarrow> ('a \<Rightarrow> py_method) \<Rightarrow> py_method" where
  "parsed args f s = (case args of None \<Rightarrow> py_raise PyExc_TypeError s | Some a \<Rightarrow> f a s)"

text \<open>Some methods return \<^verbatim>\<open>None\<close> when their arguments are wrong, with the exception set.\<close>

definition parsed_or_none :: "'a option \<Rightarrow> ('a \<Rightarrow> py_method) \<Rightarrow> py_method" where
  "parsed_or_none args f s = (case args of None \<Rightarrow> Some (Some Py_None, s\<lparr>py_err := Some PyExc_TypeError\<rparr>) | Some a \<Rightarrow> f a s)"

definition default :: "'a \<Rightarrow> 'a option \<Rightarrow> 'a" where
  "default d a = (case a of None \<Rightarrow> d | Some x \<Rightarrow> x)"

text \<open>A call of the library, with and without the lock of the interpreter. The exception belongs to the thread.\<close>

definition on_node :: "(node \<Rightarrow> ('a \<times> node) option) \<Rightarrow> 'a py_op" where
  "on_node f s = (case f (py_node s) of None \<Rightarrow> None | Some (r, n) \<Rightarrow> Some (r, s\<lparr>py_node := n\<rparr>))"

definition allow_threads :: "py_env \<Rightarrow> (node \<Rightarrow> ('a \<times> node) option) \<Rightarrow> 'a py_op" where
  "allow_threads pe f s = on_node f ((py_threads pe s)\<lparr>py_err := py_err s\<rparr>)"

text \<open>The object of an argument that is no capsule has no name, and comparing the null pointer is undefined.\<close>

definition get_capsule_pointer :: "nat \<Rightarrow> string \<Rightarrow> bool \<Rightarrow> nat option py_op" where
  "get_capsule_pointer capsule expected_type allow_null s =
     (if capsule \<ge> length (objects s) then None
      else (case objects s ! capsule of
              Some (Capsule name ptr) \<Rightarrow>
                if name \<noteq> expected_type then py_raise PyExc_TypeError s
                else if ptr = None \<and> \<not> allow_null then py_raise PyExc_TypeError s
                else Some (ptr, s)
            | _ \<Rightarrow> None))"

definition get_obj_as_packet :: "nat \<Rightarrow> bool \<Rightarrow> nat option py_op" where
  "get_obj_as_packet obj allow_null = get_capsule_pointer obj PACKET_CAPSULE allow_null"

definition get_obj_as_conn :: "nat \<Rightarrow> bool \<Rightarrow> nat option py_op" where
  "get_obj_as_conn obj allow_null = get_capsule_pointer obj CONNECTION_CAPSULE allow_null"

definition get_obj_as_socket :: "nat \<Rightarrow> bool \<Rightarrow> nat option py_op" where
  "get_obj_as_socket obj allow_null = get_capsule_pointer obj SOCKET_CAPSULE allow_null"

text \<open>\<^verbatim>\<open>if (ptr == NULL) return NULL\<close>.\<close>

definition or_return :: "nat option py_op \<Rightarrow> (nat \<Rightarrow> py_method) \<Rightarrow> py_method" where
  "or_return m f s = (case m s of None \<Rightarrow> None | Some (None, s) \<Rightarrow> Some (None, s) | Some (Some p, s) \<Rightarrow> f p s)"

definition mark_freed :: "nat \<Rightarrow> py \<Rightarrow> py" where
  "mark_freed obj s = (case objects s ! obj of
     Some (Capsule name ptr) \<Rightarrow> s\<lparr>objects := (objects s)[obj := Some (Capsule name None)]\<rparr>
   | _ \<Rightarrow> s)"

definition get_bytes :: "nat \<Rightarrow> py \<Rightarrow> u8 list option" where
  "get_bytes obj s = (if obj \<ge> length (objects s) then None else case objects s ! obj of Some (Bytearray bs) \<Rightarrow> Some bs | _ \<Rightarrow> None)"

definition put_bytes :: "nat \<Rightarrow> u8 list \<Rightarrow> py \<Rightarrow> py" where
  "put_bytes obj bs s = s\<lparr>objects := (objects s)[obj := Some (Bytearray bs)]\<rparr>"

subsection \<open>Destructors\<close>

definition pycsp_free_csp_buffer :: "nat \<Rightarrow> unit py_op" where
  "pycsp_free_csp_buffer obj s = do {
     (packet, s) \<leftarrow> get_obj_as_packet obj True s;
     (_, s) \<leftarrow> (if packet \<noteq> None then on_node (csp_buffer_free packet) s else Some ((), s));
     Some ((), mark_freed obj s)
   }"

definition pycsp_free_csp_conn :: "py_env \<Rightarrow> nat \<Rightarrow> unit py_op" where
  "pycsp_free_csp_conn pe obj s = do {
     (conn, s) \<leftarrow> get_obj_as_conn obj True s;
     (_, s) \<leftarrow> (if conn \<noteq> None then do { (_, s) \<leftarrow> on_node (csp_close (io_nexthop (py_io pe)) conn) s; Some ((), s) } else Some ((), s));
     Some ((), mark_freed obj s)
   }"

text \<open>The destructor of a socket closes it as if it were a connection: the access to the fields of a \<^verbatim>\<open>csp_conn_t\<close> is undefined.\<close>

definition pycsp_free_csp_socket :: "nat \<Rightarrow> unit py_op" where
  "pycsp_free_csp_socket obj s = do {
     (socket, s) \<leftarrow> get_obj_as_socket obj True s;
     (if socket \<noteq> None then None else Some ((), mark_freed obj s))
   }"

text \<open>The destructor of an object: the one its capsule was made with.\<close>

definition py_dealloc :: "py_env \<Rightarrow> nat \<Rightarrow> unit py_op" where
  "py_dealloc pe obj s = do {
     (_, s) \<leftarrow> (case objects s ! obj of
        Some (Capsule name _) \<Rightarrow>
          if name = PACKET_CAPSULE then pycsp_free_csp_buffer obj s
          else if name = CONNECTION_CAPSULE then pycsp_free_csp_conn pe obj s
          else if name = SOCKET_CAPSULE then pycsp_free_csp_socket obj s
          else Some ((), s)
      | _ \<Rightarrow> Some ((), s));
     Some ((), s\<lparr>objects := (objects s)[obj := None]\<rparr>)
   }"

section \<open>Methods\<close>

subsection \<open>The node\<close>

definition pycsp_service_handler :: "py_env \<Rightarrow> (nat \<times> nat) option \<Rightarrow> py_method" where
  "pycsp_service_handler pe args = parsed args (\<lambda>(conn_capsule, packet_capsule).
     or_return (get_obj_as_conn conn_capsule False) (\<lambda>conn.
     or_return (get_obj_as_packet packet_capsule False) (\<lambda>packet s. do {
       (_, s) \<leftarrow> on_node (csp_service_handler (io_nexthop (py_io pe)) (py_hooks pe) packet) s;
       py_return Py_None (mark_freed packet_capsule s)
     })))"

text \<open>The format \<^verbatim>\<open>b\<close> stores one byte, the low one of the address.\<close>

definition pycsp_init :: "(u8 \<times> string \<times> string \<times> string) option \<Rightarrow> py_method" where
  "pycsp_init args = parsed args (\<lambda>(addr, host, mdl, rev) s. do {
     let n = py_node s;
     let conf = (csp_conf n)\<lparr>address := (address (csp_conf n) AND 0xFF00) OR ucast addr, hostname := host, model := mdl, revision := rev\<rparr>;
     (_, s) \<leftarrow> on_node csp_init (s\<lparr>py_node := n\<lparr>csp_conf := conf\<rparr>\<rparr>);
     py_return Py_None s
   })"

definition pycsp_get_hostname :: py_method where
  "pycsp_get_hostname s = py_return (Py_Str (hostname (csp_get_conf (py_node s)))) s"

definition pycsp_get_model :: py_method where
  "pycsp_get_model s = py_return (Py_Str (model (csp_get_conf (py_node s)))) s"

definition pycsp_get_revision :: py_method where
  "pycsp_get_revision s = py_return (Py_Str (revision (csp_get_conf (py_node s)))) s"

subsection \<open>Sockets, connections and packets\<close>

definition pycsp_socket :: "py_env \<Rightarrow> u32 option option \<Rightarrow> py_method" where
  "pycsp_socket pe args = parsed args (\<lambda>opts s. do {
     (socket, s) \<leftarrow> on_node (\<lambda>n. Some (py_csp_socket pe (default CSP_SO_NONE opts) n)) s;
     (case socket of
        None \<Rightarrow> PyErr_Error ''csp_socket() - no free sockets/connections'' CSP_ERR_NOBUFS s
      | Some k \<Rightarrow> new_capsule k SOCKET_CAPSULE s)
   })"

text \<open>A new capsule for what the library returned, and \<^verbatim>\<open>None\<close> for nothing.\<close>

definition capsule_or_none :: "string \<Rightarrow> nat option \<Rightarrow> py_method" where
  "capsule_or_none name r s = (case r of None \<Rightarrow> py_return Py_None s | Some k \<Rightarrow> new_capsule k name s)"

definition pycsp_accept :: "py_env \<Rightarrow> (nat \<times> u32 option) option \<Rightarrow> py_method" where
  "pycsp_accept pe args = parsed args (\<lambda>(socket_capsule, timeout).
     or_return (get_obj_as_socket socket_capsule False) (\<lambda>socket s. do {
       (conn, s) \<leftarrow> allow_threads pe (csp_accept (py_others pe) (Some socket) (default CSP_MAX_TIMEOUT timeout)) s;
       capsule_or_none CONNECTION_CAPSULE conn s
     }))"

definition pycsp_read :: "py_env \<Rightarrow> (nat \<times> u32 option) option \<Rightarrow> py_method" where
  "pycsp_read pe args = parsed args (\<lambda>(conn_capsule, timeout).
     or_return (get_obj_as_conn conn_capsule False) (\<lambda>conn s. do {
       (packet, s) \<leftarrow> allow_threads pe (csp_read (probe_read (py_io pe)) (io_nexthop (py_io pe)) (others_read (py_io pe)) (Some conn) (default 500 timeout)) s;
       capsule_or_none PACKET_CAPSULE packet s
     }))"

definition pycsp_send :: "py_env \<Rightarrow> (nat \<times> nat \<times> u32 option) option \<Rightarrow> py_method" where
  "pycsp_send pe args = parsed args (\<lambda>(conn_capsule, packet_capsule, timeout).
     or_return (get_obj_as_conn conn_capsule False) (\<lambda>conn.
     or_return (get_obj_as_packet packet_capsule False) (\<lambda>packet s. do {
       (_, s) \<leftarrow> allow_threads pe (csp_send (probe_send (py_io pe)) (io_nexthop (py_io pe)) (others_send (py_io pe)) (Some conn) (Some packet)) s;
       py_return Py_None (mark_freed packet_capsule s)
     })))"

text \<open>\<open>outbuf\<close> and \<open>inbuf\<close> are writable buffers; the reply is written into \<open>inbuf\<close>.\<close>

definition pycsp_transaction :: "py_env \<Rightarrow> (u8 \<times> u16 \<times> u8 \<times> u32 \<times> nat \<times> nat \<times> int option) option \<Rightarrow> py_method" where
  "pycsp_transaction pe args = parsed args (\<lambda>(prio, dest, port, timeout, outbuf, inbuf, allow_any) s. do {
     out \<leftarrow> get_bytes outbuf s;
     inb \<leftarrow> get_bytes inbuf s;
     let incoming_buffer_len = (if default 0 allow_any \<noteq> 0 then -1 else int (length inb));
     ((res, inb), s) \<leftarrow> allow_threads pe (csp_transaction (py_io pe) prio dest port timeout (Some out) (int (length out)) inb incoming_buffer_len) s;
     let s = put_bytes inbuf inb s;
     (if res < 1 then PyErr_Error ''csp_transaction()'' res s else py_return (Py_Int res) s)
   })"

definition pycsp_sendto :: "py_env \<Rightarrow> (u8 \<times> u16 \<times> u8 \<times> u8 \<times> u32 \<times> nat) option \<Rightarrow> py_method" where
  "pycsp_sendto pe args = parsed_or_none args (\<lambda>(prio, dest, dport, src_port, opts, packet_capsule).
     or_return (get_obj_as_packet packet_capsule False) (\<lambda>packet s. do {
       (_, s) \<leftarrow> allow_threads pe (csp_sendto (io_nexthop (py_io pe)) prio dest dport src_port opts packet) s;
       py_return Py_None (mark_freed packet_capsule s)
     }))"

definition pycsp_recvfrom :: "py_env \<Rightarrow> (nat \<times> u32 option) option \<Rightarrow> py_method" where
  "pycsp_recvfrom pe args = parsed args (\<lambda>(socket_capsule, timeout).
     or_return (get_obj_as_socket socket_capsule False) (\<lambda>socket s. do {
       (packet, s) \<leftarrow> allow_threads pe (csp_recvfrom (py_others pe) (Some socket) (default 500 timeout)) s;
       capsule_or_none PACKET_CAPSULE packet s
     }))"

definition pycsp_sendto_reply :: "py_env \<Rightarrow> (nat \<times> nat \<times> u32 option) option \<Rightarrow> py_method" where
  "pycsp_sendto_reply pe args = parsed args (\<lambda>(request_capsule, reply_capsule, opts).
     or_return (get_obj_as_packet request_capsule False) (\<lambda>request.
     or_return (get_obj_as_packet reply_capsule False) (\<lambda>reply s. do {
       (_, s) \<leftarrow> allow_threads pe (csp_sendto_reply (io_nexthop (py_io pe)) (Some request) reply (default 0 opts)) s;
       py_return Py_None (mark_freed reply_capsule s)
     })))"

definition pycsp_connect :: "py_env \<Rightarrow> (u8 \<times> u16 \<times> u8 \<times> u32 \<times> u32) option \<Rightarrow> py_method" where
  "pycsp_connect pe args = parsed args (\<lambda>(prio, dest, dport, timeout, opts) s. do {
     (conn, s) \<leftarrow> allow_threads pe (csp_connect (io_nexthop (py_io pe)) (others_connect (py_io pe)) prio dest dport timeout opts) s;
     (case conn of
        None \<Rightarrow> PyErr_Error ''csp_connect() timeout or failed'' CSP_ERR_TIMEDOUT s
      | Some n \<Rightarrow> new_capsule n CONNECTION_CAPSULE s)
   })"

text \<open>Not being a connection is an exception, but not a reason to return one.\<close>

definition pycsp_close :: "py_env \<Rightarrow> nat \<Rightarrow> py_method" where
  "pycsp_close pe conn_capsule s = do {
     (conn, s) \<leftarrow> get_obj_as_conn conn_capsule True s;
     s \<leftarrow> (if conn \<noteq> None then do {
              (_, s) \<leftarrow> on_node (csp_close (io_nexthop (py_io pe)) conn) s;
              Some (mark_freed conn_capsule s)
            }
            else Some s);
     py_return (Py_Int CSP_ERR_NONE) s
   }"

text \<open>The four getters.\<close>

definition conn_getter :: "(nat \<Rightarrow> node \<Rightarrow> int option) \<Rightarrow> nat \<Rightarrow> py_method" where
  "conn_getter get conn_capsule = or_return (get_obj_as_conn conn_capsule False) (\<lambda>conn s. do {
     v \<leftarrow> get conn (py_node s);
     py_return (Py_Int v) s
   })"

definition pycsp_conn_dport :: "nat \<Rightarrow> py_method" where "pycsp_conn_dport = conn_getter csp_conn_dport"
definition pycsp_conn_sport :: "nat \<Rightarrow> py_method" where "pycsp_conn_sport = conn_getter csp_conn_sport"
definition pycsp_conn_dst :: "nat \<Rightarrow> py_method" where "pycsp_conn_dst = conn_getter csp_conn_dst"
definition pycsp_conn_src :: "nat \<Rightarrow> py_method" where "pycsp_conn_src = conn_getter csp_conn_src"

definition pycsp_listen :: "(nat \<times> nat option) option \<Rightarrow> py_method" where
  "pycsp_listen args = parsed args (\<lambda>(socket_capsule, conn_queue_len).
     or_return (get_obj_as_socket socket_capsule False) (\<lambda>sock s. do {
       (res, s) \<leftarrow> on_node (csp_listen sock (default 10 conn_queue_len)) s;
       (if res \<noteq> CSP_ERR_NONE then PyErr_Error ''csp_listen()'' res s else py_return Py_None s)
     }))"

definition pycsp_bind :: "(nat \<times> u8) option \<Rightarrow> py_method" where
  "pycsp_bind args = parsed args (\<lambda>(socket_capsule, port).
     or_return (get_obj_as_socket socket_capsule False) (\<lambda>sock s. do {
       (res, s) \<leftarrow> on_node (csp_bind (Some sock) port) s;
       (if res \<noteq> CSP_ERR_NONE then PyErr_Error ''csp_bind()'' res s else py_return Py_None s)
     }))"

subsection \<open>The router\<close>

text \<open>One turn of the loop of the task, and its start.\<close>

definition csp_task_router_turn :: "py_env \<Rightarrow> (nat \<Rightarrow> nat \<Rightarrow> node \<Rightarrow> unit csp) \<Rightarrow> node \<Rightarrow> node option" where
  "csp_task_router_turn pe callback n = do {
     (_, n) \<leftarrow> csp_route_work (io_nexthop (py_io pe)) callback n;
     Some n
   }"

definition csp_route_start_task :: "py_env \<Rightarrow> int" where
  "csp_route_start_task pe =
     (if \<not> py_attr_init pe then CSP_ERR_NOMEM else if py_thread_create pe \<noteq> 0 then py_thread_create pe else CSP_ERR_NONE)"

definition pycsp_route_start_task :: "py_env \<Rightarrow> py_method" where
  "pycsp_route_start_task pe s =
     (let res = csp_route_start_task pe
      in if res \<noteq> CSP_ERR_NONE then PyErr_Error ''csp_route_start_task()'' res s else py_return Py_None s)"

subsection \<open>Services and options\<close>

definition pycsp_ping :: "py_env \<Rightarrow> (u16 \<times> u32 option \<times> u32 option \<times> u8 option) option \<Rightarrow> py_method" where
  "pycsp_ping pe args = parsed args (\<lambda>(node, timeout, size, conn_options) s. do {
     (res, s) \<leftarrow> allow_threads pe (csp_ping (py_io pe) node (default 1000 timeout) (default 10 size) (default 0 conn_options)) s;
     (if res < 0 then PyErr_Error ''csp_ping()'' res s else py_return (Py_Int res) s)
   })"

definition pycsp_reboot :: "py_env \<Rightarrow> u16 option \<Rightarrow> py_method" where
  "pycsp_reboot pe args = parsed args (\<lambda>node s. do { (_, s) \<leftarrow> on_node (csp_reboot (py_io pe) node) s; py_return Py_None s })"

definition pycsp_shutdown :: "py_env \<Rightarrow> u16 option \<Rightarrow> py_method" where
  "pycsp_shutdown pe args = parsed args (\<lambda>node s. do { (_, s) \<leftarrow> on_node (csp_shutdown (py_io pe) node) s; py_return Py_None s })"

definition pycsp_rdp_set_opt :: "(u32 \<times> u32 \<times> u32 \<times> u32 \<times> u32 \<times> u32) option \<Rightarrow> py_method" where
  "pycsp_rdp_set_opt args = parsed args (\<lambda>(window_size, conn_timeout_ms, packet_timeout_ms, delayed, ack_timeout, ack_delay) s.
     py_return Py_None (s\<lparr>py_node := csp_rdp_set_opt window_size conn_timeout_ms packet_timeout_ms delayed ack_timeout ack_delay (py_node s)\<rparr>))"

definition pycsp_rdp_get_opt :: py_method where
  "pycsp_rdp_get_opt s =
     (let (window_size, conn_timeout_ms, packet_timeout_ms, delayed, ack_timeout, ack_delay) = csp_rdp_get_opt (py_node s)
      in py_return (Py_Tuple (map (\<lambda>v. Py_Int (uint v)) [window_size, conn_timeout_ms, packet_timeout_ms, delayed, ack_timeout, ack_delay])) s)"

subsection \<open>Routes\<close>

text \<open>The format \<^verbatim>\<open>b\<close> stores the low byte of \<^verbatim>\<open>via\<close>; the other keeps its initial value.\<close>

definition parsed_via :: "u8 option \<Rightarrow> u16" where
  "parsed_via via = (case via of None \<Rightarrow> CSP_NO_VIA_ADDRESS | Some b \<Rightarrow> (CSP_NO_VIA_ADDRESS AND 0xFF00) OR ucast b)"

definition pycsp_rtable_set :: "(u16 \<times> int \<times> string \<times> u8 option) option \<Rightarrow> py_method" where
  "pycsp_rtable_set args = parsed args (\<lambda>(node, mask, interface_name, via) s. do {
     ifc \<leftarrow> csp_iflist_get_by_name interface_name (py_node s);
     (res, s) \<leftarrow> on_node (csp_rtable_set node mask ifc (parsed_via via)) s;
     (if res \<noteq> CSP_ERR_NONE then PyErr_Error ''csp_rtable_set()'' res s else py_return Py_None s)
   })"

definition pycsp_rtable_clear :: py_method where
  "pycsp_rtable_clear s = py_return Py_None (s\<lparr>py_node := csp_rtable_clear (py_node s)\<rparr>)"

definition pycsp_rtable_check :: "string option \<Rightarrow> py_method" where
  "pycsp_rtable_check args = parsed args (\<lambda>buffer s. do {
     (res, s) \<leftarrow> on_node (csp_rtable_check buffer) s;
     (if res \<le> 0 then PyErr_Error ''csp_rtable_check()'' res s else py_return (Py_Int res) s)
   })"

definition pycsp_rtable_load :: "string option \<Rightarrow> py_method" where
  "pycsp_rtable_load args = parsed args (\<lambda>buffer s. do {
     (res, s) \<leftarrow> on_node (csp_rtable_load buffer) s;
     (if res \<le> 0 then PyErr_Error ''csp_rtable_load()'' res s else py_return (Py_Int res) s)
   })"

subsection \<open>Buffers\<close>

definition pycsp_buffer_get :: "nat option \<Rightarrow> py_method" where
  "pycsp_buffer_get args = parsed args (\<lambda>size s. do {
     (packet, s) \<leftarrow> on_node (csp_buffer_get size) s;
     (case packet of
        None \<Rightarrow> PyErr_Error ''csp_buffer_get() - no free buffers or data overrun'' CSP_ERR_NOMEM s
      | Some p \<Rightarrow> new_capsule p PACKET_CAPSULE s)
   })"

text \<open>A capsule of another type is marked as freed as well.\<close>

definition pycsp_buffer_free :: "nat option \<Rightarrow> py_method" where
  "pycsp_buffer_free args = parsed args (\<lambda>packet_capsule s. do {
     (packet, s) \<leftarrow> get_obj_as_packet packet_capsule True s;
     (_, s) \<leftarrow> (if packet \<noteq> None then on_node (csp_buffer_free packet) s else Some ((), s));
     py_return Py_None (mark_freed packet_capsule s)
   })"

definition pycsp_buffer_remaining :: py_method where
  "pycsp_buffer_remaining s = py_return (Py_Int (int (csp_buffer_remaining (py_node s)))) s"

definition pycsp_packet_set_data :: "(nat \<times> nat) option \<Rightarrow> py_method" where
  "pycsp_packet_set_data args = parsed args (\<lambda>(packet_capsule, buf).
     or_return (get_obj_as_packet packet_capsule False) (\<lambda>packet s. do {
       d \<leftarrow> get_bytes buf s;
       (if length d > csp_buffer_data_size then PyErr_Error ''packet_set_data() - exceeding data size'' CSP_ERR_INVAL s
        else do {
          x \<leftarrow> get_packet packet (py_node s);
          x \<leftarrow> data_write 0 d x;
          py_return Py_None (s\<lparr>py_node := put_packet packet (x\<lparr>plen := of_nat (length d)\<rparr>) (py_node s)\<rparr>)
        })
     }))"

definition pycsp_packet_get_data :: "nat \<Rightarrow> py_method" where
  "pycsp_packet_get_data packet_capsule = or_return (get_obj_as_packet packet_capsule False) (\<lambda>packet s. do {
     x \<leftarrow> get_packet packet (py_node s);
     d \<leftarrow> data_read 0 (unat (plen x)) x;
     py_return (Py_Bytes d) s
   })"

definition pycsp_packet_get_length :: "nat \<Rightarrow> py_method" where
  "pycsp_packet_get_length packet_capsule = or_return (get_obj_as_packet packet_capsule False) (\<lambda>packet s. do {
     x \<leftarrow> get_packet packet (py_node s);
     py_return (Py_Int (uint (plen x))) s
   })"

text \<open>The members of \<^verbatim>\<open>csp_packet_t\<close> before its data take 64 bytes when pointers have eight.\<close>

definition CSP_BUFFER_PACKET_OVERHEAD :: nat where "CSP_BUFFER_PACKET_OVERHEAD = 64"
definition csp_buffer_size :: nat where "csp_buffer_size = CSP_BUFFER_SIZE + CSP_BUFFER_PACKET_OVERHEAD"

definition pycsp_get_buffer_stats :: py_method where
  "pycsp_get_buffer_stats s = py_return (Py_Tuple [Py_Int (int (csp_buffer_remaining (py_node s))), Py_Int (int csp_buffer_size),
     Py_Int (int csp_buffer_data_size)]) s"

subsection \<open>The management protocol\<close>

text \<open>\<^verbatim>\<open>struct csp_cmp_message\<close>; its largest members are \<^verbatim>\<open>peek\<close> and \<^verbatim>\<open>poke\<close>.\<close>

definition cmp_message_size :: nat where "cmp_message_size = cmp_size_peek"

definition zero_message :: "u8 list" where "zero_message = replicate cmp_message_size 0"

text \<open>A string of a message: without a zero, reading goes past the end.\<close>

definition message_string :: "nat \<Rightarrow> u8 list \<Rightarrow> py_value option" where
  "message_string off msg =
     (let d = List.drop off msg
      in if 0 \<in> set d then Some (Py_Str (map (\<lambda>b. char_of (unat b)) (takeWhile (\<lambda>b. b \<noteq> 0) d))) else None)"

definition pycsp_cmp_ident :: "py_env \<Rightarrow> (u16 \<times> u32 option) option \<Rightarrow> py_method" where
  "pycsp_cmp_ident pe args = parsed args (\<lambda>(node, timeout) s. do {
     ((res, msg), s) \<leftarrow> allow_threads pe (csp_cmp_ident (py_io pe) node (default 1000 timeout) zero_message) s;
     (if res \<noteq> CSP_ERR_NONE then PyErr_Error ''csp_cmp_ident()'' res s
      else do {
        host \<leftarrow> message_string 2 msg;
        mdl \<leftarrow> message_string 22 msg;
        rev \<leftarrow> message_string 52 msg;
        date \<leftarrow> message_string 72 msg;
        time \<leftarrow> message_string 84 msg;
        py_return (Py_Tuple [Py_Int res, host, mdl, rev, date, time]) s
      })
   })"

text \<open>The network mask of the request stays zero.\<close>

definition route_set_message :: "u8 \<Rightarrow> u8 \<Rightarrow> string \<Rightarrow> u8 list option" where
  "route_set_message addr via ifstr = do {
     msg \<leftarrow> mem_write 2 (word_to_le 2 (htobe16 (ucast addr))) zero_message;
     msg \<leftarrow> mem_write 4 (word_to_le 2 (htobe16 (ucast via))) msg;
     mem_write 8 (strncpy_end CSP_CMP_ROUTE_IFACE_LEN ifstr) msg
   }"

definition pycsp_cmp_route_set :: "py_env \<Rightarrow> (u16 \<times> u32 \<times> u8 \<times> u8 \<times> string) option \<Rightarrow> py_method" where
  "pycsp_cmp_route_set pe args = parsed args (\<lambda>(node, timeout, addr, via, ifstr) s. do {
     msg \<leftarrow> route_set_message addr via ifstr;
     ((res, _), s) \<leftarrow> allow_threads pe (csp_cmp_route_set_v2 (py_io pe) node timeout msg) s;
     (if res \<noteq> CSP_ERR_NONE then PyErr_Error ''csp_cmp_route_set()'' res s else py_return Py_None s)
   })"

definition pycsp_cmp_peek :: "py_env \<Rightarrow> (u16 \<times> u32 \<times> u32 \<times> u8 \<times> nat) option \<Rightarrow> py_method" where
  "pycsp_cmp_peek pe args = parsed_or_none args (\<lambda>(node, timeout, addr, len, outbuf) s. do {
     out \<leftarrow> get_bytes outbuf s;
     (if unat len > CSP_CMP_PEEK_MAX_LEN \<or> unat len > length out then PyErr_Error ''csp_cmp_peek() - exceeding max size'' CSP_ERR_INVAL s
      else do {
        msg \<leftarrow> mem_write 2 (word_to_le 4 (htobe32 addr)) zero_message;
        msg \<leftarrow> mem_write 6 [len] msg;
        ((res, msg), s) \<leftarrow> allow_threads pe (csp_cmp_peek (py_io pe) node timeout msg) s;
        (if res \<noteq> CSP_ERR_NONE then PyErr_Error ''csp_cmp_peek()'' res s
         else do {
           d \<leftarrow> mem_read 7 (unat len) msg;
           out \<leftarrow> get_bytes outbuf s;
           out \<leftarrow> mem_write 0 d out;
           py_return Py_None (put_bytes outbuf out s)
         })
      })
   })"

text \<open>The message is not initialised, and the length of the data is not compared with that of \<open>inbuf\<close>.\<close>

definition pycsp_cmp_poke :: "py_env \<Rightarrow> (u16 \<times> u32 \<times> u32 \<times> u8 \<times> nat) option \<Rightarrow> py_method" where
  "pycsp_cmp_poke pe args = parsed_or_none args (\<lambda>(node, timeout, addr, len, inbuf) s.
     (if unat len > CSP_CMP_POKE_MAX_LEN then PyErr_Error ''csp_cmp_poke() - exceeding max size'' CSP_ERR_INVAL s
      else do {
        inb \<leftarrow> get_bytes inbuf s;
        msg \<leftarrow> mem_write 2 (word_to_le 4 (htobe32 addr)) (take cmp_message_size (py_stack pe));
        msg \<leftarrow> mem_write 6 [len] msg;
        d \<leftarrow> mem_read 0 (unat len) inb;
        msg \<leftarrow> mem_write 7 d msg;
        ((res, _), s) \<leftarrow> allow_threads pe (csp_cmp_poke (py_io pe) node timeout msg) s;
        (if res \<noteq> CSP_ERR_NONE then PyErr_Error ''csp_cmp_poke()'' res s else py_return Py_None s)
      }))"

definition pycsp_cmp_clock_set :: "py_env \<Rightarrow> (u16 \<times> u32 \<times> u32 \<times> u32 option) option \<Rightarrow> py_method" where
  "pycsp_cmp_clock_set pe args = parsed_or_none args (\<lambda>(node, sec, nsec, timeout) s.
     (if sec = 0 then PyErr_Error ''csp_cmp_clock(set) - seconds are 0'' CSP_ERR_INVAL s
      else do {
        msg \<leftarrow> mem_write 2 (word_to_le 4 (htobe32 sec)) zero_message;
        msg \<leftarrow> mem_write 6 (word_to_le 4 (htobe32 nsec)) msg;
        ((res, _), s) \<leftarrow> allow_threads pe (csp_cmp_clock (py_io pe) node (default 1000 timeout) msg) s;
        (if res \<noteq> CSP_ERR_NONE then PyErr_Error ''csp_cmp_clock(set)'' res s else py_return Py_None s)
      }))"

definition pycsp_cmp_clock_get :: "py_env \<Rightarrow> (u16 \<times> u32 option) option \<Rightarrow> py_method" where
  "pycsp_cmp_clock_get pe args = parsed_or_none args (\<lambda>(node, timeout) s. do {
     ((res, msg), s) \<leftarrow> allow_threads pe (csp_cmp_clock (py_io pe) node (default 1000 timeout) zero_message) s;
     (if res \<noteq> CSP_ERR_NONE then PyErr_Error ''csp_cmp_clock(get)'' res s
      else do {
        sec \<leftarrow> mem_read 2 4 msg;
        nsec \<leftarrow> mem_read 6 4 msg;
        py_return (Py_Tuple [Py_Int (uint (be32toh (le_to_word sec))), Py_Int (uint (be32toh (le_to_word nsec)))]) s
      })
   })"

subsection \<open>Interfaces\<close>

definition pycsp_zmqhub_init :: "py_env \<Rightarrow> (u16 \<times> string) option \<Rightarrow> py_method" where
  "pycsp_zmqhub_init pe args = parsed args (\<lambda>(addr, host) s. do {
     ((res, _, _), s) \<leftarrow> on_node (csp_zmqhub_init (py_zmq pe) host) s;
     (if res \<noteq> CSP_ERR_NONE then PyErr_Error ''csp_zmqhub_init()'' res s else py_return Py_None s)
   })"

definition pycsp_can_socketcan_init :: "py_env \<Rightarrow> (string \<times> int option \<times> int option) option \<Rightarrow> py_method" where
  "pycsp_can_socketcan_init pe args = parsed args (\<lambda>(ifc, bitrate, promisc) s. do {
     ((res, _), s) \<leftarrow> on_node (csp_can_socketcan_open_and_add_interface (py_can pe) (Some CSP_IF_CAN_DEFAULT_NAME) (default 0 promisc \<noteq> 0)) s;
     (if res \<noteq> CSP_ERR_NONE then PyErr_Error ''csp_can_socketcan_open_and_add_interface()'' res s else py_return Py_None s)
   })"

definition pycsp_kiss_init :: "py_env \<Rightarrow> (string \<times> u32 option \<times> u32 option \<times> string option) option \<Rightarrow> py_method" where
  "pycsp_kiss_init pe args = parsed args (\<lambda>(device, baudrate, mtu, if_name) s. do {
     ((res, _), s) \<leftarrow> on_node (csp_usart_open_and_add_kiss_interface (py_calloc pe) (py_usart_open pe) (Some (default CSP_IF_KISS_DEFAULT_NAME if_name))) s;
     (if res \<noteq> CSP_ERR_NONE then PyErr_Error ''csp_usart_open_and_add_kiss_interface()'' res s else py_return Py_None s)
   })"

subsection \<open>The table of methods\<close>

text \<open>A call of a method with its arguments. The two methods that only print are left out.\<close>

datatype py_call =
    Py_service_handler "(nat \<times> nat) option"
| Py_init "(u8 \<times> string \<times> string \<times> string) option"
| Py_get_hostname
| Py_get_model
| Py_get_revision
| Py_socket "u32 option option"
| Py_accept "(nat \<times> u32 option) option"
| Py_read "(nat \<times> u32 option) option"
| Py_send "(nat \<times> nat \<times> u32 option) option"
| Py_transaction "(u8 \<times> u16 \<times> u8 \<times> u32 \<times> nat \<times> nat \<times> int option) option"
| Py_sendto_reply "(nat \<times> nat \<times> u32 option) option"
| Py_sendto "(u8 \<times> u16 \<times> u8 \<times> u8 \<times> u32 \<times> nat) option"
| Py_recvfrom "(nat \<times> u32 option) option"
| Py_connect "(u8 \<times> u16 \<times> u8 \<times> u32 \<times> u32) option"
| Py_close nat
| Py_conn_dport nat
| Py_conn_sport nat
| Py_conn_dst nat
| Py_conn_src nat
| Py_listen "(nat \<times> nat option) option"
| Py_bind "(nat \<times> u8) option"
| Py_route_start_task
| Py_ping "(u16 \<times> u32 option \<times> u32 option \<times> u8 option) option"
| Py_reboot "u16 option"
| Py_shutdown "u16 option"
| Py_rdp_set_opt "(u32 \<times> u32 \<times> u32 \<times> u32 \<times> u32 \<times> u32) option"
| Py_rdp_get_opt
| Py_rtable_set "(u16 \<times> int \<times> string \<times> u8 option) option"
| Py_rtable_clear
| Py_rtable_check "string option"
| Py_rtable_load "string option"
| Py_buffer_free "nat option"
| Py_buffer_get "nat option"
| Py_buffer_remaining
| Py_cmp_ident "(u16 \<times> u32 option) option"
| Py_cmp_route_set "(u16 \<times> u32 \<times> u8 \<times> u8 \<times> string) option"
| Py_cmp_peek "(u16 \<times> u32 \<times> u32 \<times> u8 \<times> nat) option"
| Py_cmp_poke "(u16 \<times> u32 \<times> u32 \<times> u8 \<times> nat) option"
| Py_cmp_clock_set "(u16 \<times> u32 \<times> u32 \<times> u32 option) option"
| Py_cmp_clock_get "(u16 \<times> u32 option) option"
| Py_zmqhub_init "(u16 \<times> string) option"
| Py_kiss_init "(string \<times> u32 option \<times> u32 option \<times> string option) option"
| Py_can_socketcan_init "(string \<times> int option \<times> int option) option"
| Py_packet_get_length nat
| Py_packet_get_data nat
| Py_packet_set_data "(nat \<times> nat) option"
| Py_get_buffer_stats

fun call_method :: "py_env \<Rightarrow> py_call \<Rightarrow> py_method" where
  "call_method pe (Py_service_handler args) = pycsp_service_handler pe args"
| "call_method pe (Py_init args) = pycsp_init args"
| "call_method pe Py_get_hostname = pycsp_get_hostname"
| "call_method pe Py_get_model = pycsp_get_model"
| "call_method pe Py_get_revision = pycsp_get_revision"
| "call_method pe (Py_socket args) = pycsp_socket pe args"
| "call_method pe (Py_accept args) = pycsp_accept pe args"
| "call_method pe (Py_read args) = pycsp_read pe args"
| "call_method pe (Py_send args) = pycsp_send pe args"
| "call_method pe (Py_transaction args) = pycsp_transaction pe args"
| "call_method pe (Py_sendto_reply args) = pycsp_sendto_reply pe args"
| "call_method pe (Py_sendto args) = pycsp_sendto pe args"
| "call_method pe (Py_recvfrom args) = pycsp_recvfrom pe args"
| "call_method pe (Py_connect args) = pycsp_connect pe args"
| "call_method pe (Py_close args) = pycsp_close pe args"
| "call_method pe (Py_conn_dport args) = pycsp_conn_dport args"
| "call_method pe (Py_conn_sport args) = pycsp_conn_sport args"
| "call_method pe (Py_conn_dst args) = pycsp_conn_dst args"
| "call_method pe (Py_conn_src args) = pycsp_conn_src args"
| "call_method pe (Py_listen args) = pycsp_listen args"
| "call_method pe (Py_bind args) = pycsp_bind args"
| "call_method pe Py_route_start_task = pycsp_route_start_task pe"
| "call_method pe (Py_ping args) = pycsp_ping pe args"
| "call_method pe (Py_reboot args) = pycsp_reboot pe args"
| "call_method pe (Py_shutdown args) = pycsp_shutdown pe args"
| "call_method pe (Py_rdp_set_opt args) = pycsp_rdp_set_opt args"
| "call_method pe Py_rdp_get_opt = pycsp_rdp_get_opt"
| "call_method pe (Py_rtable_set args) = pycsp_rtable_set args"
| "call_method pe Py_rtable_clear = pycsp_rtable_clear"
| "call_method pe (Py_rtable_check args) = pycsp_rtable_check args"
| "call_method pe (Py_rtable_load args) = pycsp_rtable_load args"
| "call_method pe (Py_buffer_free args) = pycsp_buffer_free args"
| "call_method pe (Py_buffer_get args) = pycsp_buffer_get args"
| "call_method pe Py_buffer_remaining = pycsp_buffer_remaining"
| "call_method pe (Py_cmp_ident args) = pycsp_cmp_ident pe args"
| "call_method pe (Py_cmp_route_set args) = pycsp_cmp_route_set pe args"
| "call_method pe (Py_cmp_peek args) = pycsp_cmp_peek pe args"
| "call_method pe (Py_cmp_poke args) = pycsp_cmp_poke pe args"
| "call_method pe (Py_cmp_clock_set args) = pycsp_cmp_clock_set pe args"
| "call_method pe (Py_cmp_clock_get args) = pycsp_cmp_clock_get pe args"
| "call_method pe (Py_zmqhub_init args) = pycsp_zmqhub_init pe args"
| "call_method pe (Py_kiss_init args) = pycsp_kiss_init pe args"
| "call_method pe (Py_can_socketcan_init args) = pycsp_can_socketcan_init pe args"
| "call_method pe (Py_packet_get_length args) = pycsp_packet_get_length args"
| "call_method pe (Py_packet_get_data args) = pycsp_packet_get_data args"
| "call_method pe (Py_packet_set_data args) = pycsp_packet_set_data args"
| "call_method pe Py_get_buffer_stats = pycsp_get_buffer_stats"

section \<open>Exceptions\<close>

text \<open>Nothing but \<open>py_raise\<close> and a failed parse touches the exception.\<close>

lemma on_node_err: "on_node f s = Some (r, s') \<Longrightarrow> py_err s' = py_err s \<and> objects s' = objects s"
  by (auto simp: on_node_def split: option.splits)

lemma allow_threads_err: "allow_threads pe f s = Some (r, s') \<Longrightarrow> py_err s' = py_err s"
  by (auto simp: allow_threads_def dest: on_node_err)

lemma err_simps [simp]: "py_err (mark_freed obj s) = py_err s" "py_err (put_bytes obj bs s) = py_err s"
  by (simp_all add: mark_freed_def put_bytes_def split: option.splits py_object.splits)

text \<open>The rule of the C interface of Python: a null pointer is returned if and only if there is an exception.\<close>

definition proper :: "(py_value option \<times> py) option \<Rightarrow> bool" where
  "proper m \<longleftrightarrow> (\<forall>v s. m = Some (v, s) \<longrightarrow> (v = None \<longleftrightarrow> py_err s \<noteq> None))"

named_theorems proper_rules

lemma proper_basic [proper_rules]:
  "proper (py_raise e s)" "proper (PyErr_Error msg n s)"
  "py_err s = None \<Longrightarrow> proper (py_return v s)" "py_err s = None \<Longrightarrow> proper (new_capsule p name s)"
  "py_err s = None \<Longrightarrow> proper (capsule_or_none name r s)"
  by (auto simp: proper_def py_raise_def py_return_def new_capsule_def PyErr_Error_def capsule_or_none_def split: option.splits)

lemma proper_parsed [proper_rules]: "(\<And>a. args = Some a \<Longrightarrow> proper (f a s)) \<Longrightarrow> proper (parsed args f s)"
  by (cases args) (auto simp: proper_def parsed_def py_raise_def)

lemma proper_or_return [proper_rules]:
  assumes "py_err s = None" "\<And>p. proper (f p s)"
  shows "proper (or_return (get_obj_as_packet obj False) f s)" "proper (or_return (get_obj_as_conn obj False) f s)"
    "proper (or_return (get_obj_as_socket obj False) f s)"
  using assms
  by (auto simp: or_return_def get_obj_as_packet_def get_obj_as_conn_def get_obj_as_socket_def get_capsule_pointer_def py_raise_def proper_def
      split: option.splits py_object.splits if_splits)

lemma proper_bind [proper_rules]: "(\<And>x. m = Some x \<Longrightarrow> proper (f x)) \<Longrightarrow> proper (Option.bind m f)"
  by (cases m) (auto simp: proper_def)

lemma node_err: "on_node f s = Some (r, s') \<Longrightarrow> py_err s' = py_err s" "allow_threads pe f s = Some (r, s') \<Longrightarrow> py_err s' = py_err s"
  by (auto dest: on_node_err allow_threads_err)

lemma node_err_None:
  "on_node f s = Some (r, s') \<Longrightarrow> py_err s = None \<Longrightarrow> py_err s' = None"
  "allow_threads pe f s = Some (r, s') \<Longrightarrow> py_err s = None \<Longrightarrow> py_err s' = None"
  by (simp_all add: node_err)

text \<open>A call that breaks the rule: wrong arguments of the methods that return \<^verbatim>\<open>None\<close> then, and closing or freeing an object of
  another type.\<close>

definition has_name :: "nat \<Rightarrow> string \<Rightarrow> py \<Rightarrow> bool" where
  "has_name obj name s \<longleftrightarrow> (case objects s ! obj of Some (Capsule n _) \<Rightarrow> n = name | _ \<Rightarrow> False)"

fun careless :: "py_call \<Rightarrow> py \<Rightarrow> bool" where
  "careless (Py_sendto args) s = (args = None)"
| "careless (Py_cmp_peek args) s = (args = None)"
| "careless (Py_cmp_poke args) s = (args = None)"
| "careless (Py_cmp_clock_set args) s = (args = None)"
| "careless (Py_cmp_clock_get args) s = (args = None)"
| "careless (Py_close obj) s = (\<not> has_name obj CONNECTION_CAPSULE s)"
| "careless (Py_buffer_free (Some obj)) s = (\<not> has_name obj PACKET_CAPSULE s)"
| "careless _ s = False"

lemmas method_defs = pycsp_service_handler_def pycsp_init_def pycsp_get_hostname_def pycsp_get_model_def pycsp_get_revision_def
  pycsp_socket_def pycsp_accept_def pycsp_read_def pycsp_send_def pycsp_transaction_def
  pycsp_recvfrom_def pycsp_sendto_reply_def pycsp_connect_def pycsp_conn_dport_def pycsp_conn_sport_def
  pycsp_conn_dst_def pycsp_conn_src_def pycsp_listen_def pycsp_bind_def pycsp_route_start_task_def
  pycsp_ping_def pycsp_reboot_def pycsp_shutdown_def pycsp_rdp_set_opt_def pycsp_rdp_get_opt_def
  pycsp_rtable_set_def pycsp_rtable_clear_def pycsp_rtable_check_def pycsp_rtable_load_def pycsp_buffer_get_def
  pycsp_buffer_remaining_def pycsp_packet_set_data_def pycsp_packet_get_data_def pycsp_packet_get_length_def pycsp_get_buffer_stats_def
  pycsp_cmp_ident_def pycsp_cmp_route_set_def pycsp_zmqhub_init_def pycsp_can_socketcan_init_def pycsp_kiss_init_def

lemma proper_none: "args = Some a \<Longrightarrow> parsed_or_none args f = parsed args f"
  by (simp add: fun_eq_iff parsed_def parsed_or_none_def)

text \<open>The object of a call that returns is a capsule.\<close>

lemma get_capsule_cases:
  assumes "get_capsule_pointer obj name b s = Some (p, s')"
  obtains n q where "objects s ! obj = Some (Capsule n q)" "obj < length (objects s)"
    "n \<noteq> name \<and> p = None \<and> s' = s\<lparr>py_err := Some PyExc_TypeError\<rparr> \<or> n = name \<and> (p = q \<and> s' = s \<and> (q = None \<longrightarrow> b) \<or>
       p = None \<and> q = None \<and> \<not> b \<and> s' = s\<lparr>py_err := Some PyExc_TypeError\<rparr>)"
  using assms by (auto simp: get_capsule_pointer_def py_raise_def split: if_splits option.splits py_object.splits)

lemma proper_close:
  assumes "py_err s = None" "pycsp_close pe obj s = Some (v, s')"
  shows "(v = None \<longleftrightarrow> py_err s' \<noteq> None) \<longleftrightarrow> has_name obj CONNECTION_CAPSULE s"
proof -
  from assms(2) obtain p t where g: "get_capsule_pointer obj CONNECTION_CAPSULE True s = Some (p, t)"
    and r: "(do { s \<leftarrow> (if p \<noteq> None then do { (_, s) \<leftarrow> on_node (csp_close (io_nexthop (py_io pe)) p) t; Some (mark_freed obj s) } else Some t);
        py_return (Py_Int CSP_ERR_NONE) s }) = Some (v, s')"
    by (auto simp: pycsp_close_def get_obj_as_conn_def bind_Some_iff)
  have "v \<noteq> None \<and> py_err s' = py_err t" using r by (auto simp: py_return_def bind_Some_iff node_err split: if_splits dest: node_err)
  then show ?thesis using assms(1) by (cases rule: get_capsule_cases [OF g]) (auto simp: has_name_def)
qed

lemma proper_free:
  assumes "py_err s = None" "pycsp_buffer_free (Some obj) s = Some (v, s')"
  shows "(v = None \<longleftrightarrow> py_err s' \<noteq> None) \<longleftrightarrow> has_name obj PACKET_CAPSULE s"
proof -
  from assms(2) obtain p t where g: "get_capsule_pointer obj PACKET_CAPSULE True s = Some (p, t)"
    and r: "(do { (_, s) \<leftarrow> (if p \<noteq> None then on_node (csp_buffer_free p) t else Some ((), t)); py_return Py_None (mark_freed obj s) }) = Some (v, s')"
    by (auto simp: pycsp_buffer_free_def parsed_def get_obj_as_packet_def bind_Some_iff)
  have "v \<noteq> None \<and> py_err s' = py_err t" using r by (auto simp: py_return_def bind_Some_iff node_err split: if_splits dest: node_err)
  then show ?thesis using assms(1) by (cases rule: get_capsule_cases [OF g]) (auto simp: has_name_def)
qed

lemma proper_call:
  assumes "py_err s = None" "\<not> careless c s" "\<And>obj. c \<noteq> Py_close obj" "\<And>obj. c \<noteq> Py_buffer_free (Some obj)"
  shows "proper (call_method pe c s)"
  using assms
  by (cases c)
    (auto simp: method_defs conn_getter_def proper_none pycsp_buffer_free_def pycsp_sendto_def pycsp_cmp_peek_def pycsp_cmp_poke_def
      pycsp_cmp_clock_set_def pycsp_cmp_clock_get_def Let_def intro!: proper_rules split: prod.splits option.splits dest: node_err, (erule node_err_None(2), assumption)+)

lemma careless_none:
  "parsed_or_none None f s = Some (v, s') \<Longrightarrow> v \<noteq> None \<and> py_err s' \<noteq> None"
  by (auto simp: parsed_or_none_def)

section \<open>Routes set from Python\<close>

text \<open>A route that is set with a next hop never goes there: the high byte of its address stays that of \<^verbatim>\<open>CSP_NO_VIA_ADDRESS\<close>.\<close>

lemma pycsp_rtable_via_high_byte: "parsed_via (Some b) = 0xFF00 OR ucast b \<and> parsed_via (Some b) \<noteq> ucast b"
proof -
  have "bit (0xFF00 :: u16) 8" by code_simp
  then have "bit (0xFF00 OR ucast b :: u16) 8" by (simp only: bit_or_iff) simp
  moreover have "\<not> bit (ucast b :: u16) 8" using bit_imp_le_length [of b 8] by (auto simp: bit_simps)
  ultimately show ?thesis by (auto simp: parsed_via_def)
qed

text \<open>A request for a route has the network mask zero, which matches every address.\<close>

lemma pycsp_route_set_mask_zero: "route_set_message addr via ifstr = Some msg \<Longrightarrow> mem_read 6 2 msg = Some [0, 0]"
  by (auto simp: route_set_message_def zero_message_def cmp_message_size_def mem_write_def mem_read_def bind_Some_iff nth_append
      strncpy_end_def numeral_2_eq_2 split: if_splits)

section \<open>Properties\<close>

text \<open>C40: A method of the Python module returns a null pointer if and only if it sets an exception, as the interpreter demands, except
  for exactly these calls, which return a value and leave an exception behind: \<^verbatim>\<open>sendto\<close>, \<^verbatim>\<open>cmp_peek\<close>, \<^verbatim>\<open>cmp_poke\<close> and the
  clock methods with wrong arguments, \<^verbatim>\<open>close\<close> of what is no connection and \<^verbatim>\<open>buffer_free\<close> of what is no packet.\<close>

theorem pycsp_null_iff_exception:
  assumes "py_err s = None" "call_method pe c s = Some (v, s')"
  shows "(v = None \<longleftrightarrow> py_err s' \<noteq> None) \<longleftrightarrow> \<not> careless c s"
proof (cases "\<exists>obj. c = Py_close obj \<or> c = Py_buffer_free (Some obj)")
  case True
  then obtain obj where "c = Py_close obj \<or> c = Py_buffer_free (Some obj)" by blast
  then show ?thesis using proper_close [OF assms(1), of pe obj v s'] proper_free [OF assms(1), of obj v s'] assms(2) by auto
next
  case False
  show ?thesis
  proof (cases "careless c s")
    case True
    then have "v \<noteq> None \<and> py_err s' \<noteq> None" using False assms(2)
      by (cases "(c, s)" rule: careless.cases)
        (auto simp: pycsp_sendto_def pycsp_cmp_peek_def pycsp_cmp_poke_def pycsp_cmp_clock_set_def pycsp_cmp_clock_get_def dest!: careless_none)
    then show ?thesis using True by simp
  next
    case safe: False
    have "proper (call_method pe c s)" by (rule proper_call [OF assms(1) safe]) (use False in auto)
    then show ?thesis using safe assms(2) by (simp add: proper_def)
  qed
qed

text \<open>An interpreter on a node with the loopback interface, and one with a capsule of a connection.\<close>

definition lo_py :: py_env where
  "lo_py = \<lparr>py_io = lo_io, py_hooks = test_hooks, py_others = (\<lambda>n. n), py_threads = (\<lambda>s. s), py_csp_socket = (\<lambda>opts n. (None, n)),
     py_attr_init = True, py_thread_create = 0,
     py_zmq = \<lparr>z_sockets = True, z_connect = (\<lambda>e. True), z_subscribe_all = True, z_thread = True\<rparr>,
     py_can = \<lparr>sys_calloc = True, sys_socket = 3, sys_ioctl = True, sys_bind = True, sys_setsockopt = (\<lambda>f. True), sys_thread = True\<rparr>,
     py_calloc = True, py_usart_open = 0, py_stack = replicate 256 0\<rparr>"

definition conn_py :: py where
  "conn_py = \<lparr>py_node = full_conn_node, objects = [Some (Capsule CONNECTION_CAPSULE (Some 2))], py_err = None\<rparr>"

text \<open>Freeing a connection as a buffer: a value, an exception, and a connection that nothing can close any more.\<close>

theorem pycsp_null_iff_exception_witness:
  "\<exists>v s'. call_method lo_py (Py_buffer_free (Some 0)) conn_py = Some (v, s') \<and>
     \<not> (v = None \<longleftrightarrow> py_err s' \<noteq> None) \<and> objects s' = [Some (Capsule CONNECTION_CAPSULE None)]"
proof -
  let ?t = "mark_freed 0 (conn_py\<lparr>py_err := Some PyExc_TypeError\<rparr>)"
  have c: "call_method lo_py (Py_buffer_free (Some 0)) conn_py = Some (Some Py_None, ?t)"
    by (simp add: pycsp_buffer_free_def parsed_def get_obj_as_packet_def get_capsule_pointer_def conn_py_def py_raise_def py_return_def)
  have "careless (Py_buffer_free (Some 0)) conn_py" by (simp add: has_name_def conn_py_def)
  then show ?thesis using pycsp_null_iff_exception [OF _ c] c by (auto simp: conn_py_def mark_freed_def)
qed

end
