(* ===== verification/Csp_Python_Own.thy ===== *)
theory Csp_Python_Own
  imports Csp_Python
begin

text \<open>
  Who owns the packet buffers of a node that a Python program uses (\<^verbatim>\<open>src/bindings/python/pycsp.c\<close>): each capsule of a packet that is
  not marked as freed holds one. The steps of a run are calls of the methods that handle packets, with any objects as arguments, the
  destructors of objects, and turns of the task of the router.
\<close>

section \<open>The operations on a node\<close>

text \<open>The node with the buffers \<open>H\<close> in the hands of the program.\<close>

definition owned :: "nat multiset \<Rightarrow> node \<Rightarrow> bool" where
  "owned H n \<longleftrightarrow> accounts H n \<and> env_inv n \<and> route_inv n"

lemma owned_frame:
  assumes "owned H n" "accounts H' n'" "env n' = env n" "arr_conn n' = arr_conn n"
  shows "owned H' n'"
  using assms env_inv_env [OF assms(3)] route_inv_conns [OF _ assms(4,3)] by (simp add: owned_def)

lemma owned_free:
  assumes "owned (held_with p H) n" "csp_buffer_free p n = Some (u, n')"
  shows "owned H n'"
proof (cases p)
  case None
  then show ?thesis using assms by (simp add: csp_buffer_free_def)
next
  case (Some q)
  then have a: "accounts (add_mset q H) n" using assms(1) by (simp add: owned_def)
  have "n' = give_buffer q n" using accounts_free(1) [OF a] assms(2) Some by simp
  then show ?thesis using owned_frame [OF assms(1) accounts_free(2) [OF a]] by simp
qed

lemma owned_get:
  assumes "owned H n" "csp_buffer_get sz n = Some (p, n')"
  shows "owned (held_with p H) n'"
proof (cases "sz \<le> CSP_BUFFER_SIZE")
  case True
  have a: "accounts H n" using assms(1) by (simp add: owned_def)
  then have "pool_inv n" by (simp add: accounts_def)
  note g = csp_buffer_get_eq [OF this True]
  show ?thesis
  proof (cases "free_list n")
    case Nil
    then show ?thesis using assms(2) g owned_frame [OF assms(1), of H n'] a by auto
  next
    case (Cons i xs)
    then show ?thesis using assms(2) g owned_frame [OF assms(1) accounts_take [OF a Cons]] by auto
  qed
next
  case False
  then show ?thesis using assms csp_buffer_get_large [of sz n] owned_frame [OF assms(1), of H n'] by (auto simp: owned_def)
qed

lemma owned_put:
  assumes "owned H n" "length (bytes x) = PACKET_BYTES"
  shows "owned H (put_packet p x n)"
  using owned_frame [OF assms(1), of H "put_packet p x n"] accounts_put [OF _ assms(2), of H n p] assms(1) by (simp add: owned_def)

lemma owned_packet: "owned (add_mset p H) n \<Longrightarrow> get_packet p n = Some x \<Longrightarrow> length (bytes x) = PACKET_BYTES"
  using accounts_packet by (fastforce simp: owned_def)

text \<open>Reading without a probe from a connection without RDP.\<close>

lemma owned_read:
  assumes "owned H n" "csp_read (\<lambda>b. b) nh (\<lambda>n. n) (Some c) timeout n = Some (p, n')"
  shows "owned (held_with p H) n'"
proof -
  have inv: "accounts H n" "route_inv n" using assms(1) by (simp_all add: owned_def)
  have c: "c < length (arr_conn n)" using assms(2) by (auto simp: csp_read_def upd_conn_def get_conn_def bind_Some_iff split: if_splits)
  let ?c = "arr_conn n ! c" and ?q = "rx_queue (arr_conn n ! c)"
  show ?thesis
  proof (cases "c_state ?c = CONN_OPEN")
    case False
    then have "p = None \<and> n' = n" using assms(2) c by (simp add: csp_read_def upd_conn_eq get_conn_eq)
    then show ?thesis using assms(1) by simp
  next
    case True
    have plain: "\<not> has_flag (flags (idin ?c)) CSP_FRDP"
      using inv(2) nth_mem [OF c] True by (simp add: route_inv_def plain_conn_def)
    show ?thesis
    proof (cases "queue_list ?q")
      case Nil
      then have i: "items ?q = 0" by (simp add: queue_list_empty_iff)
      have "timeout \<noteq> CSP_MAX_TIMEOUT" using assms(2) c True plain i
        by (auto simp: csp_read_def upd_conn_eq get_conn_eq csp_queue_size_def pthread_queue_items_def csp_queue_dequeue_def
            pthread_queue_dequeue_def wait_item_available.simps Csp_Queue.quiet_def bind_Some_iff simp del: CSP_FRDP_def)
      then have "p = None \<and> n' = n" using read_empty [OF c True i, of timeout "\<lambda>b. b" nh] assms(2) plain by simp
      then show ?thesis using assms(1) by simp
    next
      case (Cons e es)
      have pl: "\<not> has_flag (flags (damat_id (damat_buffer (idin ?c)))) CSP_FRDP" using plain by simp
      note r = read_item_eq(1,2) [OF inv(1) c True Cons, of "\<lambda>b. b"]
      have e: "p = e" "n' = put_conn c (?c\<lparr>rx_queue := queue_pop ?q\<rparr>) n"
        using r(1) [OF pl, of nh "\<lambda>n. n" timeout] assms(2) by simp_all
      have "accounts (held_with p H) n'" using r(2) [OF pl] e by simp
      moreover have "env n' = env n" by (simp add: e(2))
      moreover have "route_inv n'"
        by (rule route_inv_upd [OF inv(2) c, of _ "?c\<lparr>rx_queue := queue_pop ?q\<rparr>"]) (simp_all add: e(2))
      ultimately show ?thesis using assms(1) env_inv_env by (auto simp: owned_def)
    qed
  qed
qed

text \<open>Taking from the queue of a socket a connection, which is no packet, or a packet that came without one.\<close>

lemma owned_dequeue:
  assumes "owned H n" "k < length (sockets n)" "s_rx_queue (sockets n ! k) = Some q" "csp_queue_dequeue q t = Some ((r, item), q')"
  shows "owned (held_with (Option.bind item item_packet) H) (put_socket k ((sockets n ! k)\<lparr>s_rx_queue := Some q'\<rparr>) n)"
    "r \<noteq> CSP_QUEUE_OK \<Longrightarrow> item = None"
proof -
  let ?sk = "(sockets n ! k)\<lparr>s_rx_queue := Some q'\<rparr>"
  have acc: "accounts H n" using assms(1) by (simp add: owned_def)
  have wf: "queue_wf q" by (rule socket_queue_wf [OF acc assms(2,3)])
  have step: "queue_wf q' \<and> mset (List.map_filter item_packet (queue_list q)) =
      held_with (Option.bind item item_packet) (mset (List.map_filter item_packet (queue_list q'))) \<and> (r \<noteq> CSP_QUEUE_OK \<longrightarrow> item = None)"
  proof (cases "items q = 0")
    case True
    have "t \<noteq> CSP_MAX_TIMEOUT" using assms(4) True
      by (auto simp: csp_queue_dequeue_def pthread_queue_dequeue_def wait_item_available.simps Csp_Queue.quiet_def)
    then have "item = None" "q' = q" using assms(4) csp_queue_dequeue_empty [OF True, of t] by auto
    then show ?thesis using wf by simp
  next
    case False
    then have i: "0 < items q" by simp
    obtain e es where l: "queue_list q = e # es" using False by (cases "queue_list q") (auto simp: queue_list_empty_iff)
    have "item = Some e" "q' = queue_pop q" "r = CSP_QUEUE_OK" using assms(4) csp_queue_dequeue_item [of q t] False queue_head_Some [OF wf i] l by auto
    then show ?thesis using queue_pop_wf [OF wf i] queue_pop_list [OF wf i] l queue_head_Some [OF wf i]
      by (cases "item_packet e") (simp_all add: List.map_filter_simps)
  qed
  let ?K = "held_with (Option.bind item item_packet) {#}"
  have "accounts (H + ?K) (put_socket k ?sk n)"
    by (rule accounts_put_socket [where K = "{#}", OF acc assms(2)])
      (use step assms(3) in \<open>cases "Option.bind item item_packet"; simp add: sock_packets_def\<close>)+
  moreover have "H + ?K = held_with (Option.bind item item_packet) H" by (cases "Option.bind item item_packet") simp_all
  moreover have "env (put_socket k ?sk n) = env n" by (rule env_put_socket [OF assms(2)]) (simp add: sock_key_def assms(3))
  ultimately show "owned (held_with (Option.bind item item_packet) H) (put_socket k ?sk n)" using owned_frame [OF assms(1)] by simp
  show "r \<noteq> CSP_QUEUE_OK \<Longrightarrow> item = None" using step by simp
qed

lemma owned_accept:
  assumes "owned H n" "csp_accept (\<lambda>n. n) (Some k) t n = Some (c, n')"
  shows "owned H n'"
proof -
  have k: "k < length (sockets n)" using assms(2) by (auto simp: csp_accept_def get_socket_def bind_Some_iff split: if_splits)
  show ?thesis
  proof (cases "s_rx_queue (sockets n ! k)")
    case None
    then have "n' = n\<lparr>csp_dbg_errno := CSP_DBG_ERR_INVALID_POINTER\<rparr>" using assms(2) k by (simp add: csp_accept_def get_socket_def)
    then show ?thesis using owned_frame [OF assms(1), of H n'] assms(1) by (simp add: owned_def)
  next
    case (Some q)
    with assms(2) k obtain r item q' where d: "csp_queue_dequeue q t = Some ((r, item), q')"
      by (auto simp: csp_accept_def get_socket_def bind_Some_iff Let_def)
    note o = owned_dequeue [OF assms(1) k Some d]
    have "n' = put_socket k ((sockets n ! k)\<lparr>s_rx_queue := Some q'\<rparr>) n \<and> Option.bind item item_packet = None"
      using assms(2) k Some d o(2)
      by (auto simp: csp_accept_def get_socket_def Let_def item_packet_def simp del: CSP_QUEUE_OK_def split: if_splits option.splits sock_item.splits)
    then show ?thesis using o(1) by simp
  qed
qed

lemma owned_recvfrom:
  assumes "owned H n" "csp_recvfrom (\<lambda>n. n) (Some k) t n = Some (p, n')"
  shows "owned (held_with p H) n'"
proof -
  have k: "k < length (sockets n)" using assms(2) by (auto simp: csp_recvfrom_def get_socket_def bind_Some_iff split: if_splits)
  show ?thesis
  proof (cases "has_flag (s_opts (sockets n ! k)) CSP_SO_CONN_LESS")
    case False
    then have "p = None" "n' = n" using assms(2) k by (simp_all add: csp_recvfrom_def get_socket_def del: CSP_SO_CONN_LESS_def)
    then show ?thesis using assms(1) by simp
  next
    case True
    with assms(2) k obtain q where q: "s_rx_queue (sockets n ! k) = Some q"
      by (auto simp: csp_recvfrom_def get_socket_def bind_Some_iff simp del: CSP_SO_CONN_LESS_def)
    with True assms(2) k obtain r item q' where d: "csp_queue_dequeue q t = Some ((r, item), q')"
      by (auto simp: csp_recvfrom_def get_socket_def bind_Some_iff Let_def simp del: CSP_SO_CONN_LESS_def)
    have "n' = put_socket k ((sockets n ! k)\<lparr>s_rx_queue := Some q'\<rparr>) n \<and> Option.bind item item_packet = p"
      using assms(2) k q d True
      by (auto simp: csp_recvfrom_def get_socket_def Let_def item_packet_def simp del: CSP_SO_CONN_LESS_def split: if_splits option.splits sock_item.splits)
    then show ?thesis using owned_dequeue(1) [OF assms(1) k q d] by simp
  qed
qed

text \<open>The flags of a connection without RDP.\<close>

lemma connect_flags:
  assumes "\<not> has_flag opts CSP_O_RDP"
  shows "\<not> has_flag ((if has_flag opts CSP_O_RDP then CSP_FRDP else 0) OR (if has_flag opts h then CSP_FHMAC else 0) OR
    (if has_flag opts c then CSP_FCRC32 else 0)) CSP_FRDP"
  using assms by (cases "has_flag opts h"; cases "has_flag opts c") (simp_all add: has_flag_def)

lemma owned_connect:
  assumes "owned H n" "\<not> has_flag (opts OR conn_dfl_so (csp_conf n)) CSP_O_RDP"
    "csp_connect nh oth prio dest port timeout opts n = Some (r, n')"
  shows "owned H n'"
proof -
  have inv: "accounts H n" "env_inv n" "route_inv n" using assms(1) by (simp_all add: owned_def)
  have len: "length (arr_conn n) = CSP_CONN_MAX" using inv(3) by (simp add: route_inv_def conn_inv_def)
  define op where "op = (let opts = opts OR conn_dfl_so (csp_conf n) in if has_flag opts CSP_O_NOCRC32 then opts AND NOT CSP_O_CRC32 else opts)"
  have rdp: "\<not> has_flag op CSP_O_RDP" using assms(2)
    by (auto simp: op_def Let_def has_flag_def) (metis (no_types, opaque_lifting) and.assoc and.commute and.left_commute and_zero_eq)
  define fl where "fl = (if has_flag op CSP_O_RDP then CSP_FRDP else 0) OR (if has_flag op CSP_O_HMAC then CSP_FHMAC else 0) OR
    (if has_flag op CSP_O_CRC32 then CSP_FCRC32 else 0)"
  have fl: "\<not> has_flag fl CSP_FRDP" unfolding fl_def by (rule connect_flags [OF rdp])
  define idi where "idi = \<lparr>pri = prio, flags = fl, src = dest, dst = 0, dport = 0, sport = port\<rparr>"
  define ido where "ido = \<lparr>pri = prio, flags = fl, src = 0, dst = dest, dport = port, sport = 0\<rparr>"
  have start: "csp_connect nh oth prio dest port timeout opts n = do {
     (conn, s) \<leftarrow> csp_conn_new idi ido CONN_CLIENT n;
     (case conn of
        None \<Rightarrow> Some (None, s)
      | Some n \<Rightarrow> do {
          s \<leftarrow> upd_conn n (\<lambda>c. c\<lparr>idout := (idout c)\<lparr>sport := sport_outgoing c\<rparr>,
                 idin := (idin c)\<lparr>dport := sport_outgoing c\<rparr>, dest_socket := None, c_opts := op\<rparr>) s;
          (if has_flag fl CSP_FRDP then do {
             (r, s) \<leftarrow> csp_rdp_connect nh oth n s;
             (if r \<noteq> CSP_ERR_NONE then do {
                (_, s) \<leftarrow> csp_close nh (Some n) s;
                Some (None, s)
              }
              else Some (Some n, s))
           }
           else Some (Some n, s))
        })
   }" by (simp only: csp_connect_def Let_def fl_def idi_def ido_def op_def)
  obtain s1 q where new: "csp_conn_new idi ido CONN_CLIENT n = Some (next_conn n, s1)" "accounts H s1" "env s1 = env n"
    "case next_conn n of None \<Rightarrow> arr_conn s1 = arr_conn n
     | Some k \<Rightarrow> arr_conn s1 = (arr_conn n)[k := (fresh_conn idi ido CONN_CLIENT (now n) (arr_conn n ! k))\<lparr>rx_queue := q\<rparr>]"
    using accounts_conn_new [OF inv(1) len, of idi ido CONN_CLIENT] by (cases "next_conn n") auto
  show ?thesis
  proof (cases "next_conn n")
    case None
    then have "n' = s1" using assms(3) new(1) by (simp add: start)
    then show ?thesis using owned_frame [OF assms(1) new(2,3)] new(4) None by simp
  next
    case (Some k)
    have k: "k < CSP_CONN_MAX" using next_conn_Some [OF Some] by simp
    have k1: "k < length (arr_conn s1)" using k new(4) len Some by simp
    let ?c = "arr_conn s1 ! k"
    define c where "c = ?c\<lparr>idout := (idout ?c)\<lparr>sport := sport_outgoing ?c\<rparr>, idin := (idin ?c)\<lparr>dport := sport_outgoing ?c\<rparr>,
      dest_socket := None, c_opts := op\<rparr>"
    have n': "n' = put_conn k c s1" using assms(3) new(1) fl Some k1
      by (simp add: start upd_conn_eq c_def del: CSP_FRDP_def)
    have a: "accounts H n'" unfolding n' by (rule accounts_conn_same [OF new(2) k1]) (simp add: c_def)
    have e: "env n' = env n" using new(3) by (simp add: n')
    have arr: "arr_conn n' = (arr_conn n)[k := c]" using new(4) Some by (simp add: n' put_conn_def)
    have at: "?c = (fresh_conn idi ido CONN_CLIENT (now n) (arr_conn n ! k))\<lparr>rx_queue := q\<rparr>" using new(4) Some k len by simp
    have "conn_inv n'" by (rule conn_inv_new_client [OF _ k arr]) (use inv(3) at in \<open>simp_all add: route_inv_def c_def\<close>)
    moreover have "plain_conn c \<and> sock_ok n (dest_socket c)"
      using fl at by (simp add: c_def plain_conn_def sock_ok_def idi_def ido_def)
    then have "\<forall>d \<in> set (arr_conn n'). plain_conn d \<and> sock_ok n' (dest_socket d)"
      using inv(3) set_update_subset_insert [of "arr_conn n" k c] by (auto simp: arr route_inv_def sock_ok_env [OF e])
    ultimately show ?thesis using a env_inv_env [OF e inv(2)] by (simp add: owned_def route_inv_def)
  qed
qed

context route_client
begin

lemma owned_direct:
  assumes "owned (add_mset p H) n" "get_packet p n = Some x" "packet_wf x" "csp_send_direct nexthop i p None n = Some (u, n')"
  shows "owned H n'"
proof -
  have "accounts H n' \<and> env n' = env n" using accounts_send_direct [OF assms(4), of H x] assms(1-3) by (simp add: owned_def)
  then show ?thesis using owned_frame [OF assms(1)] send_frame_fields(1) [OF send_direct_frame [OF assms(4)]] by simp
qed

lemma owned_send:
  assumes "owned (add_mset p H) n" "get_packet p n = Some x" "packet_wf x"
    "csp_send (\<lambda>b. b) nexthop oth (Some c) (Some p) n = Some (u, n')"
  shows "owned H n'"
proof -
  have c: "c < length (arr_conn n)" using assms(4) by (auto simp: csp_send_def upd_conn_def get_conn_def bind_Some_iff split: if_splits)
  let ?c = "arr_conn n ! c"
  show ?thesis
  proof (cases "c_state ?c = CONN_OPEN")
    case False
    then have "csp_buffer_free (Some p) n = Some (u, n')" using assms(4) c by (simp add: csp_send_def upd_conn_eq get_conn_eq)
    then show ?thesis using owned_free [of "Some p" H n u n'] assms(1) by simp
  next
    case True
    have "\<not> has_flag (flags (idout ?c)) CSP_FRDP"
      using assms(1) nth_mem [OF c] True by (simp add: owned_def route_inv_def plain_conn_def)
    then have "csp_send_direct nexthop (idout ?c) p None n = Some (u, n')"
      using assms(4) c True by (simp add: csp_send_def upd_conn_eq get_conn_eq)
    then show ?thesis by (rule owned_direct [OF assms(1-3)])
  qed
qed

lemma owned_sendto:
  assumes "owned (add_mset p H) n" "get_packet p n = Some x" "packet_wf x"
    "csp_sendto nexthop prio dest dp sp opts p n = Some (u, n')"
  shows "owned H n'"
proof -
  have a: "length (bytes x) = PACKET_BYTES" and p: "p < length (csp_buffer_pool n)"
    using assms(2,3) by (auto simp: packet_wf_def get_packet_def split: if_splits)
  have o: "owned (add_mset p H) (put_packet p (x\<lparr>pid := i\<rparr>) n)" for i using owned_put [OF assms(1), of "x\<lparr>pid := i\<rparr>"] a by simp
  show ?thesis
  proof (cases "has_flag opts CSP_O_RDP")
    case True
    then obtain i where i: "csp_buffer_free (Some p) ((put_packet p (x\<lparr>pid := i\<rparr>) n)\<lparr>csp_dbg_errno := CSP_DBG_ERR_UNSUPPORTED\<rparr>) = Some (u, n')"
      using assms(2,4) by (auto simp: csp_sendto_def Let_def simp del: CSP_O_RDP_def CSP_O_SAME_def)
    have "owned (add_mset p H) ((put_packet p (x\<lparr>pid := i\<rparr>) n)\<lparr>csp_dbg_errno := CSP_DBG_ERR_UNSUPPORTED\<rparr>)"
      by (rule owned_frame [OF o [of i]]) (use o [of i] in \<open>simp_all add: owned_def\<close>)
    then show ?thesis using owned_free [OF _ i] by simp
  next
    case False
    then obtain i where i: "csp_send_direct nexthop i p None (put_packet p (x\<lparr>pid := i\<rparr>) n) = Some (u, n')"
      using assms(2,4) by (auto simp: csp_sendto_def Let_def simp del: CSP_O_RDP_def CSP_O_SAME_def CSP_O_HMAC_def CSP_O_CRC32_def)
    have w: "packet_wf (x\<lparr>pid := i\<rparr>)" using assms(3) by (simp add: packet_wf_def)
    show ?thesis by (rule owned_direct [OF o [of i] _ w i]) (use get_put_packet [OF p] in simp)
  qed
qed

lemma owned_reply:
  assumes "owned (add_mset p H) n" "get_packet p n = Some x" "packet_wf x"
    "csp_sendto_reply nexthop (Some q) p opts n = Some (u, n')"
  shows "owned H n'"
proof -
  have a: "length (bytes x) = PACKET_BYTES" and p: "p < length (csp_buffer_pool n)"
    using assms(2,3) by (auto simp: packet_wf_def get_packet_def split: if_splits)
  show ?thesis
  proof (cases "has_flag opts CSP_O_SAME")
    case True
    then obtain i prio dest dp sp where i: "csp_sendto nexthop prio dest dp sp opts p (put_packet p (x\<lparr>pid := i\<rparr>) n) = Some (u, n')"
      using assms(2,4) by (auto simp: csp_sendto_reply_def bind_Some_iff simp del: CSP_O_SAME_def)
    have w: "packet_wf (x\<lparr>pid := i\<rparr>)" using assms(3) by (simp add: packet_wf_def)
    show ?thesis by (rule owned_sendto [OF owned_put [OF assms(1), of "x\<lparr>pid := i\<rparr>"] _ w i]) (use a get_put_packet [OF p] in simp_all)
  next
    case False
    then obtain prio dest dp sp where "csp_sendto nexthop prio dest dp sp opts p n = Some (u, n')"
      using assms(2,4) by (auto simp: csp_sendto_reply_def bind_Some_iff simp del: CSP_O_SAME_def)
    then show ?thesis by (rule owned_sendto [OF assms(1-3)])
  qed
qed

lemma owned_close:
  assumes "owned H n" "csp_close nexthop (Some c) n = Some (r, n')"
  shows "owned H n'"
proof -
  have c: "c < length (arr_conn n)" using assms(2) by (auto simp: csp_close_def csp_conn_close_def get_conn_def bind_Some_iff split: if_splits)
  show ?thesis
  proof (cases "c_state (arr_conn n ! c) = CONN_OPEN")
    case True
    from close_plain [OF _ _ c True, of H nexthop] assms have "accounts H n' \<and> env n' = env n \<and> route_inv n'" by (auto simp: owned_def)
    then show ?thesis using env_inv_env [of n' n] assms(1) by (simp add: owned_def)
  next
    case False
    then have "c_state (arr_conn n ! c) = CONN_CLOSED" by (cases "c_state (arr_conn n ! c)") simp_all
    then have "n' = n\<lparr>csp_dbg_errno := CSP_DBG_ERR_ALREADY_CLOSED\<rparr>"
      using assms(2) c by (simp add: csp_close_def csp_conn_close_def get_conn_eq)
    then show ?thesis using owned_frame [OF assms(1), of H n'] assms(1) by (simp add: owned_def)
  qed
qed

lemma owned_route:
  assumes "owned H n" "queue_list (qfifo_queue n) = \<lparr>q_iface = Some f, q_packet = Some p\<rparr> # es" "f < length (ifaces n)"
    "get_packet p n = Some x" "packet_wf x" "\<not> has_flag (flags (pid x)) CSP_FRDP" "csp_route_work nexthop callback n = Some (r, n')"
  shows "owned H n'"
proof -
  have n: "accounts H n" "env_inv n" "route_inv n" using assms(1) by (simp_all add: owned_def)
  from route_work_head [OF n(3,1) assms(2,4,5)] obtain t where t: "in_hand p H (pid x) t" "env t = env n" "route_inv t"
    "csp_route_work nexthop callback n = csp_route_packet nexthop callback f p t" by blast
  have "f < length (ifaces t)" using env_lengths(1) [OF t(2)] assms(3) by simp
  moreover have "csp_route_packet nexthop callback f p t = Some (r, n')" using t(4) assms(7) by simp
  ultimately have "routed H t (Some (r, n'))"
    using routed_packet [OF t(1) assms(6) env_inv_facts(1) [OF n(2) t(2)] t(3)] by blast
  then have "accounts H n'" "env n' = env t" "route_inv n'" by (auto simp: routed_def)
  then show ?thesis using env_inv_env [of n' n] n(2) t(2) by (simp add: owned_def)
qed

end

section \<open>The objects of a program\<close>

definition packet_of :: "py_object option \<Rightarrow> nat option" where
  "packet_of ob = (case ob of Some (Capsule name p) \<Rightarrow> if name = PACKET_CAPSULE then p else None | _ \<Rightarrow> None)"

definition held_packets :: "py \<Rightarrow> nat list" where
  "held_packets s = List.map_filter packet_of (objects s)"

definition py_inv :: "py \<Rightarrow> bool" where
  "py_inv s \<longleftrightarrow> owned (mset (held_packets s)) (py_node s)"

lemma held_with_add: "held_with e (add_mset a M) = add_mset a (held_with e M)"
  by (cases e) (simp_all add: add_mset_commute)

lemma map_filter_update:
  "i < length xs \<Longrightarrow> held_with (f (xs ! i)) (mset (List.map_filter f (xs[i := y]))) = held_with (f y) (mset (List.map_filter f xs))"
proof (induction xs arbitrary: i)
  case (Cons x xs)
  show ?case
  proof (cases i)
    case 0
    then show ?thesis by (cases "f x"; cases "f y") simp_all
  next
    case (Suc j)
    then have "held_with (f (xs ! j)) (mset (List.map_filter f (xs[j := y]))) = held_with (f y) (mset (List.map_filter f xs))"
      using Cons by simp
    then show ?thesis using Suc by (cases "f x") (simp_all add: held_with_add)
  qed
qed simp

lemma held_mark:
  assumes "i < length (objects s)" "objects s ! i = Some (Capsule name q)"
  shows "held_with (if name = PACKET_CAPSULE then q else None) (mset (held_packets (mark_freed i s))) = mset (held_packets s)"
  using map_filter_update [OF assms(1), of packet_of "Some (Capsule name None)"] assms(2)
  by (simp add: held_packets_def mark_freed_def packet_of_def)

lemma mark_freed_node [simp]: "py_node (mark_freed i s) = py_node s"
  by (simp add: mark_freed_def split: option.splits py_object.splits)

lemma held_new: "new_capsule p PACKET_CAPSULE s = Some (v, s') \<Longrightarrow> mset (held_packets s') = add_mset p (mset (held_packets s)) \<and> py_node s' = py_node s"
  by (auto simp: new_capsule_def held_packets_def packet_of_def List.map_filter_def)

lemma held_new_conn: "new_capsule p CONNECTION_CAPSULE s = Some (v, s') \<Longrightarrow> held_packets s' = held_packets s \<and> py_node s' = py_node s"
  by (auto simp: new_capsule_def held_packets_def packet_of_def List.map_filter_def)

lemma held_cong: "objects s' = objects s \<Longrightarrow> held_packets s' = held_packets s"
  by (simp add: held_packets_def)

text \<open>A packet capsule that is in use, and the end of its use.\<close>

lemma held_use:
  assumes "i < length (objects s)" "objects s ! i = Some (Capsule PACKET_CAPSULE (Some p))"
  shows "mset (held_packets s) = add_mset p (mset (held_packets (mark_freed i s)))"
  using held_mark [OF assms] by simp

lemma or_return_cases:
  assumes "or_return (get_capsule_pointer obj name False) f s = Some (v, s')"
  obtains (null) "objects s' = objects s" "py_node s' = py_node s"
    | (pointer) q where "obj < length (objects s)" "objects s ! obj = Some (Capsule name (Some q))" "f q s = Some (v, s')"
proof (cases "get_capsule_pointer obj name False s")
  case None
  then show ?thesis using assms by (simp add: or_return_def)
next
  case (Some r)
  obtain q t where r: "r = (q, t)" by (cases r)
  show ?thesis
  proof (cases rule: get_capsule_cases [OF Some [unfolded r]])
    case (1 n q')
    show ?thesis
    proof (cases q)
      case None
      then show ?thesis using assms Some r 1(3) null by (auto simp: or_return_def)
    next
      case q: (Some p)
      then show ?thesis using assms Some r 1 pointer [of p] by (auto simp: or_return_def)
    qed
  qed
qed

lemma inv_objects: "objects s' = objects s \<Longrightarrow> py_node s' = py_node s \<Longrightarrow> py_inv s \<Longrightarrow> py_inv s'"
  by (simp add: py_inv_def held_packets_def)

lemma inv_err [simp]: "py_inv (s\<lparr>py_err := e\<rparr>) = py_inv s"
  by (simp add: py_inv_def held_packets_def)

lemma inv_parsed: "parsed args f s = Some (v, s') \<Longrightarrow> py_inv s \<Longrightarrow> (\<And>a. args = Some a \<Longrightarrow> f a s = Some (v, s') \<Longrightarrow> py_inv s') \<Longrightarrow> py_inv s'"
  by (cases args) (auto simp: parsed_def py_raise_def)

lemma inv_parsed_or_none:
  "parsed_or_none args f s = Some (v, s') \<Longrightarrow> py_inv s \<Longrightarrow> (\<And>a. args = Some a \<Longrightarrow> f a s = Some (v, s') \<Longrightarrow> py_inv s') \<Longrightarrow> py_inv s'"
  by (cases args) (auto simp: parsed_or_none_def)

lemma on_node_cases:
  assumes "on_node f s = Some (r, s')"
  obtains n where "f (py_node s) = Some (r, n)" "s' = s\<lparr>py_node := n\<rparr>"
  using assms by (auto simp: on_node_def split: option.splits)

text \<open>The packets of the program fit their buffers.\<close>

definition lengths_ok :: "py \<Rightarrow> bool" where
  "lengths_ok s \<longleftrightarrow> (\<forall>p \<in> set (held_packets s). \<forall>x. get_packet p (py_node s) = Some x \<longrightarrow> unat (plen x) \<le> CSP_BUFFER_SIZE)"

lemma held_packet:
  assumes "py_inv s" "lengths_ok s" "i < length (objects s)" "objects s ! i = Some (Capsule PACKET_CAPSULE (Some p))"
  shows "owned (add_mset p (mset (held_packets (mark_freed i s)))) (py_node s)"
    "\<exists>x. get_packet p (py_node s) = Some x \<and> packet_wf x"
proof -
  note u = held_use [OF assms(3,4)]
  show o: "owned (add_mset p (mset (held_packets (mark_freed i s)))) (py_node s)" using assms(1) u by (simp add: py_inv_def)
  then obtain x where x: "get_packet p (py_node s) = Some x" "length (bytes x) = PACKET_BYTES"
    using accounts_packet by (fastforce simp: owned_def)
  have "p \<in> set (held_packets s)" using u by (metis set_mset_mset union_single_eq_member)
  then have "packet_wf x" using x assms(2) by (auto simp: lengths_ok_def packet_wf_def)
  then show "\<exists>x. get_packet p (py_node s) = Some x \<and> packet_wf x" using x by blast
qed

text \<open>An operation that takes the packet of a capsule over, after which the capsule is marked.\<close>

lemma taken_over:
  assumes "py_inv s" "i < length (objects s)" "objects s ! i = Some (Capsule PACKET_CAPSULE (Some p))"
    "owned (mset (held_packets (mark_freed i s))) n"
  shows "py_inv (mark_freed i (s\<lparr>py_node := n\<rparr>))"
proof -
  have "objects (mark_freed i (s\<lparr>py_node := n\<rparr>)) = objects (mark_freed i s)" using assms(3) by (simp add: mark_freed_def)
  from held_cong [OF this] show ?thesis using assms(4) by (simp add: py_inv_def)
qed

section \<open>The interpreter\<close>

text \<open>One thread of Python, a library without mutation probes, and other tasks that do not touch the node while a method waits.\<close>

definition plain_py :: "py_env \<Rightarrow> bool" where
  "plain_py pe \<longleftrightarrow> probe_send (py_io pe) = (\<lambda>b. b) \<and> probe_read (py_io pe) = (\<lambda>b. b) \<and> others_read (py_io pe) = (\<lambda>n. n) \<and>
     py_others pe = (\<lambda>n. n) \<and> py_threads pe = (\<lambda>s. s)"

lemma allow_threads_cases:
  assumes "allow_threads pe f s = Some (r, s')" "plain_py pe"
  obtains n where "f (py_node s) = Some (r, n)" "s' = s\<lparr>py_node := n\<rparr>"
proof -
  have "on_node f s = Some (r, s')" using assms by (simp add: allow_threads_def plain_py_def)
  then show ?thesis by (rule on_node_cases) (rule that)
qed

text \<open>Methods that take a packet over, methods that look at a connection, and methods that look at a packet.\<close>

lemma inv_take:
  assumes "py_inv s" "lengths_ok s" "plain_py pe"
    "or_return (get_obj_as_packet pc False) (\<lambda>p s. do { (_, s) \<leftarrow> allow_threads pe (act p) s; py_return Py_None (mark_freed pc s) }) s = Some (v, s')"
    "\<And>p H x u n. owned (add_mset p H) (py_node s) \<Longrightarrow> get_packet p (py_node s) = Some x \<Longrightarrow> packet_wf x \<Longrightarrow>
       act p (py_node s) = Some (u, n) \<Longrightarrow> owned H n"
  shows "py_inv s'"
  using assms(4) unfolding get_obj_as_packet_def
proof (cases rule: or_return_cases)
  case null
  then show ?thesis using inv_objects assms(1) by blast
next
  case (pointer p)
  note h = held_packet [OF assms(1,2) pointer(1,2)]
  from pointer(3) obtain u s1 where s1: "allow_threads pe (act p) s = Some (u, s1)" "s' = mark_freed pc s1"
    by (auto simp: py_return_def bind_Some_iff)
  obtain n where n: "act p (py_node s) = Some (u, n)" "s1 = s\<lparr>py_node := n\<rparr>" by (rule allow_threads_cases [OF s1(1) assms(3)])
  from h(2) obtain x where "get_packet p (py_node s) = Some x" "packet_wf x" by blast
  then have "owned (mset (held_packets (mark_freed pc s))) n" using assms(5) [OF h(1) _ _ n(1)] by blast
  then show ?thesis using taken_over [OF assms(1) pointer(1,2)] s1(2) n(2) by simp
qed

lemma inv_conn:
  assumes "py_inv s" "or_return (get_obj_as_conn cc False) f s = Some (v, s')" "\<And>c. f c s = Some (v, s') \<Longrightarrow> py_inv s'"
  shows "py_inv s'"
  using assms(2) unfolding get_obj_as_conn_def
proof (cases rule: or_return_cases)
  case null
  then show ?thesis using inv_objects assms(1) by blast
qed (rule assms(3))

lemma inv_socket:
  assumes "py_inv s" "or_return (get_obj_as_socket sc False) f s = Some (v, s')" "\<And>k. f k s = Some (v, s') \<Longrightarrow> py_inv s'"
  shows "py_inv s'"
  using assms(2) unfolding get_obj_as_socket_def
proof (cases rule: or_return_cases)
  case null
  then show ?thesis using inv_objects assms(1) by blast
qed (rule assms(3))

lemma inv_packet:
  assumes "py_inv s" "or_return (get_obj_as_packet pc False) f s = Some (v, s')"
    "\<And>p H. owned (add_mset p H) (py_node s) \<Longrightarrow> f p s = Some (v, s') \<Longrightarrow> py_inv s'"
  shows "py_inv s'"
  using assms(2) unfolding get_obj_as_packet_def
proof (cases rule: or_return_cases)
  case null
  then show ?thesis using inv_objects assms(1) by blast
next
  case (pointer p)
  have "owned (add_mset p (mset (held_packets (mark_freed pc s)))) (py_node s)" using assms(1) held_use [OF pointer(1,2)] by (simp add: py_inv_def)
  then show ?thesis by (rule assms(3)) (rule pointer(3))
qed

lemma inv_return [simp]: "py_return w s = Some (v, s') \<longleftrightarrow> v = Some w \<and> s' = s"
  by (auto simp: py_return_def)

lemma inv_raise: "PyErr_Error msg e s = Some (v, s') \<Longrightarrow> py_inv s \<Longrightarrow> py_inv s'"
  by (auto simp: PyErr_Error_def py_raise_def)

lemma inv_node: "owned (mset (held_packets s)) n \<Longrightarrow> py_inv (s\<lparr>py_node := n\<rparr>)"
  by (simp add: py_inv_def held_packets_def)

lemma inv_capsule:
  assumes "owned (held_with p (mset (held_packets s))) n" "capsule_or_none PACKET_CAPSULE p (s\<lparr>py_node := n\<rparr>) = Some (v, s')"
  shows "py_inv s'"
proof (cases p)
  case None
  then show ?thesis using assms inv_node by (auto simp: capsule_or_none_def)
next
  case (Some q)
  have "held_packets (s\<lparr>py_node := n\<rparr>) = held_packets s" by (simp add: held_packets_def)
  then show ?thesis using assms held_new [of q "s\<lparr>py_node := n\<rparr>" v s'] Some by (simp add: capsule_or_none_def py_inv_def)
qed

section \<open>Methods\<close>

context route_client
begin

lemma inv_send:
  assumes "py_inv s" "lengths_ok s" "plain_py pe" "io_nexthop (py_io pe) = nexthop" "pycsp_send pe args s = Some (v, s')"
  shows "py_inv s'"
proof (rule inv_parsed [OF assms(5) [unfolded pycsp_send_def] assms(1)], goal_cases)
  case (1 a)
  obtain cc pc t where a: "a = (cc, pc, t)" by (cases a)
  show ?case
  proof (rule inv_conn [OF assms(1) 1(2) [unfolded a case_prod_conv]], goal_cases)
    case (1 c)
    show ?case by (rule inv_take [OF assms(1-3) 1]) (use owned_send assms(3,4) in \<open>auto simp: plain_py_def\<close>)
  qed
qed

lemma inv_sendto:
  assumes "py_inv s" "lengths_ok s" "plain_py pe" "io_nexthop (py_io pe) = nexthop" "pycsp_sendto pe args s = Some (v, s')"
  shows "py_inv s'"
proof (rule inv_parsed_or_none [OF assms(5) [unfolded pycsp_sendto_def] assms(1)], goal_cases)
  case (1 a)
  obtain prio dest dp sp opts pc where a: "a = (prio, dest, dp, sp, opts, pc)" by (cases a)
  show ?case by (rule inv_take [OF assms(1-3) 1(2) [unfolded a case_prod_conv]]) (use owned_sendto assms(4) in auto)
qed

lemma inv_sendto_reply:
  assumes "py_inv s" "lengths_ok s" "plain_py pe" "io_nexthop (py_io pe) = nexthop" "pycsp_sendto_reply pe args s = Some (v, s')"
  shows "py_inv s'"
proof (rule inv_parsed [OF assms(5) [unfolded pycsp_sendto_reply_def] assms(1)], goal_cases)
  case (1 a)
  obtain rq pc opts where a: "a = (rq, pc, opts)" by (cases a)
  show ?case
  proof (rule inv_packet [OF assms(1) 1(2) [unfolded a case_prod_conv]], goal_cases)
    case (1 q H)
    show ?case by (rule inv_take [OF assms(1-3) 1(2)]) (use owned_reply assms(4) in auto)
  qed
qed

lemma inv_read:
  assumes "py_inv s" "plain_py pe" "pycsp_read pe args s = Some (v, s')"
  shows "py_inv s'"
proof (rule inv_parsed [OF assms(3) [unfolded pycsp_read_def] assms(1)], goal_cases)
  case (1 a)
  obtain cc t where a: "a = (cc, t)" by (cases a)
  show ?case
  proof (rule inv_conn [OF assms(1) 1(2) [unfolded a case_prod_conv]], goal_cases)
    case (1 c)
    then obtain p s1 where s1: "allow_threads pe (csp_read (\<lambda>b. b) (io_nexthop (py_io pe)) (\<lambda>n. n) (Some c) (default 500 t)) s = Some (p, s1)"
      "capsule_or_none PACKET_CAPSULE p s1 = Some (v, s')" using assms(2) by (auto simp: plain_py_def bind_Some_iff)
    obtain n where n: "csp_read (\<lambda>b. b) (io_nexthop (py_io pe)) (\<lambda>n. n) (Some c) (default 500 t) (py_node s) = Some (p, n)" "s1 = s\<lparr>py_node := n\<rparr>"
      by (rule allow_threads_cases [OF s1(1) assms(2)])
    show ?case by (rule inv_capsule [OF owned_read [OF _ n(1)]]) (use assms(1) s1(2) n(2) in \<open>simp_all add: py_inv_def\<close>)
  qed
qed

lemma inv_accept:
  assumes "py_inv s" "plain_py pe" "pycsp_accept pe args s = Some (v, s')"
  shows "py_inv s'"
proof (rule inv_parsed [OF assms(3) [unfolded pycsp_accept_def] assms(1)], goal_cases)
  case (1 a)
  obtain sc t where a: "a = (sc, t)" by (cases a)
  show ?case
  proof (rule inv_socket [OF assms(1) 1(2) [unfolded a case_prod_conv]], goal_cases)
    case (1 k)
    then obtain c s1 where s1: "allow_threads pe (csp_accept (\<lambda>n. n) (Some k) (default CSP_MAX_TIMEOUT t)) s = Some (c, s1)"
      "capsule_or_none CONNECTION_CAPSULE c s1 = Some (v, s')" using assms(2) by (auto simp: plain_py_def bind_Some_iff)
    obtain n where n: "csp_accept (\<lambda>n. n) (Some k) (default CSP_MAX_TIMEOUT t) (py_node s) = Some (c, n)" "s1 = s\<lparr>py_node := n\<rparr>"
      by (rule allow_threads_cases [OF s1(1) assms(2)])
    have "py_inv s1" unfolding n(2) by (rule inv_node, rule owned_accept [OF _ n(1)]) (use assms(1) in \<open>simp add: py_inv_def\<close>)
    then show ?case using s1(2) held_new_conn by (cases c) (auto simp: capsule_or_none_def py_inv_def)
  qed
qed

lemma inv_recvfrom:
  assumes "py_inv s" "plain_py pe" "pycsp_recvfrom pe args s = Some (v, s')"
  shows "py_inv s'"
proof (rule inv_parsed [OF assms(3) [unfolded pycsp_recvfrom_def] assms(1)], goal_cases)
  case (1 a)
  obtain sc t where a: "a = (sc, t)" by (cases a)
  show ?case
  proof (rule inv_socket [OF assms(1) 1(2) [unfolded a case_prod_conv]], goal_cases)
    case (1 k)
    then obtain p s1 where s1: "allow_threads pe (csp_recvfrom (\<lambda>n. n) (Some k) (default 500 t)) s = Some (p, s1)"
      "capsule_or_none PACKET_CAPSULE p s1 = Some (v, s')" using assms(2) by (auto simp: plain_py_def bind_Some_iff)
    obtain n where n: "csp_recvfrom (\<lambda>n. n) (Some k) (default 500 t) (py_node s) = Some (p, n)" "s1 = s\<lparr>py_node := n\<rparr>"
      by (rule allow_threads_cases [OF s1(1) assms(2)])
    show ?case by (rule inv_capsule [OF owned_recvfrom [OF _ n(1)]]) (use assms(1) s1(2) n(2) in \<open>simp_all add: py_inv_def\<close>)
  qed
qed

lemma inv_connect:
  assumes "py_inv s" "plain_py pe" "pycsp_connect pe args s = Some (v, s')"
    "\<And>prio dest dp t opts. args = Some (prio, dest, dp, t, opts) \<Longrightarrow> \<not> has_flag (opts OR conn_dfl_so (csp_conf (py_node s))) CSP_O_RDP"
  shows "py_inv s'"
proof (rule inv_parsed [OF assms(3) [unfolded pycsp_connect_def] assms(1)], goal_cases)
  case (1 a)
  obtain prio dest dp t opts where a: "a = (prio, dest, dp, t, opts)" by (cases a)
  from 1(2) obtain c s1 where s1: "allow_threads pe (csp_connect (io_nexthop (py_io pe)) (others_connect (py_io pe)) prio dest dp t opts) s = Some (c, s1)"
    "(case c of None \<Rightarrow> PyErr_Error ''csp_connect() timeout or failed'' CSP_ERR_TIMEDOUT s1 | Some n \<Rightarrow> new_capsule n CONNECTION_CAPSULE s1) = Some (v, s')"
    by (auto simp: a bind_Some_iff simp del: CSP_ERR_TIMEDOUT_def)
  obtain n where n: "csp_connect (io_nexthop (py_io pe)) (others_connect (py_io pe)) prio dest dp t opts (py_node s) = Some (c, n)" "s1 = s\<lparr>py_node := n\<rparr>"
    by (rule allow_threads_cases [OF s1(1) assms(2)])
  have "py_inv s1" unfolding n(2)
    by (rule inv_node, rule owned_connect [OF _ _ n(1)]) (use assms(1,4) 1(1) a in \<open>simp_all add: py_inv_def\<close>)
  then show ?case using s1(2) held_new_conn inv_raise by (cases c) (auto simp: py_inv_def simp del: CSP_ERR_TIMEDOUT_def)
qed

lemma inv_close_node:
  assumes "py_inv s" "on_node (csp_close nexthop (Some c)) s = Some (r, s')"
  shows "py_inv s' \<and> objects s' = objects s"
  using assms(2) by (rule on_node_cases) (use assms(1) owned_close inv_node in \<open>auto simp: py_inv_def\<close>)

end

text \<open>Marking a capsule that holds no packet changes nothing.\<close>

lemma inv_mark:
  assumes "py_inv s" "i < length (objects s)" "objects s ! i = Some (Capsule name q)" "name \<noteq> PACKET_CAPSULE \<or> q = None"
  shows "py_inv (mark_freed i s)"
  using held_mark [OF assms(2,3)] assms(1,4) by (auto simp: py_inv_def)

lemma inv_free_capsule:
  assumes "py_inv s" "get_obj_as_packet i True s = Some (p, t)"
    "(if p \<noteq> None then on_node (csp_buffer_free p) t else Some ((), t)) = Some (u, t')"
  shows "py_inv (mark_freed i t') \<and> objects t' = objects s"
proof (cases rule: get_capsule_cases [OF assms(2) [unfolded get_obj_as_packet_def]])
  case (1 name q)
  show ?thesis
  proof (cases p)
    case None
    then have "t' = t" "py_inv t" "objects t = objects s" using 1(3) assms(1,3) by auto
    then show ?thesis using inv_mark [of t i name q] 1 None by auto
  next
    case (Some b)
    then have n: "name = PACKET_CAPSULE" "q = Some b" "t = s" using 1(3) by auto
    have o: "owned (held_with p (mset (held_packets (mark_freed i s)))) (py_node s)"
      using held_mark [OF 1(2,1)] n assms(1) Some by (simp add: py_inv_def)
    from assms(3) Some have "on_node (csp_buffer_free p) t = Some (u, t')" by simp
    then obtain m where m: "csp_buffer_free p (py_node s) = Some (u, m)" "t' = s\<lparr>py_node := m\<rparr>" using n(3) by (elim on_node_cases) simp
    have "py_inv (mark_freed i (s\<lparr>py_node := m\<rparr>))" by (rule taken_over [OF assms(1) 1(2)]) (use 1(1) n owned_free [OF o m(1)] in simp_all)
    then show ?thesis by (simp add: m(2))
  qed
qed

lemma inv_buffer_free:
  assumes "py_inv s" "pycsp_buffer_free args s = Some (v, s')"
  shows "py_inv s'"
proof (rule inv_parsed [OF assms(2) [unfolded pycsp_buffer_free_def] assms(1)], goal_cases)
  case (1 i)
  from 1(2) obtain p t where t: "get_obj_as_packet i True s = Some (p, t)"
    "(do { (_, s) \<leftarrow> (if p \<noteq> None then on_node (csp_buffer_free p) t else Some ((), t)); py_return Py_None (mark_freed i s) }) = Some (v, s')"
    by (auto simp: bind_Some_iff)
  from t(2) obtain u t' where t': "(if p \<noteq> None then on_node (csp_buffer_free p) t else Some ((), t)) = Some (u, t')" "s' = mark_freed i t'"
    by (cases "if p \<noteq> None then on_node (csp_buffer_free p) t else Some ((), t)") auto
  show ?case unfolding t'(2) using inv_free_capsule [OF assms(1) t(1) t'(1)] by blast
qed

lemma inv_buffer_get:
  assumes "py_inv s" "pycsp_buffer_get args s = Some (v, s')"
  shows "py_inv s'"
proof (rule inv_parsed [OF assms(2) [unfolded pycsp_buffer_get_def] assms(1)], goal_cases)
  case (1 size)
  then obtain p t where t: "on_node (csp_buffer_get size) s = Some (p, t)"
    "(case p of None \<Rightarrow> PyErr_Error ''csp_buffer_get() - no free buffers or data overrun'' CSP_ERR_NOMEM t | Some p \<Rightarrow> new_capsule p PACKET_CAPSULE t) = Some (v, s')"
    by (auto simp: bind_Some_iff simp del: CSP_ERR_NOMEM_def)
  from t(1) obtain n where n: "csp_buffer_get size (py_node s) = Some (p, n)" "t = s\<lparr>py_node := n\<rparr>" by (rule on_node_cases)
  have o: "owned (held_with p (mset (held_packets s))) n" using owned_get [OF _ n(1)] assms(1) by (simp add: py_inv_def)
  show ?case
  proof (cases p)
    case None
    then show ?thesis using t(2) inv_raise inv_node o n(2) by (simp del: CSP_ERR_NOMEM_def)
  next
    case (Some b)
    then show ?thesis using inv_capsule [OF o] t(2) n(2) by (simp add: capsule_or_none_def)
  qed
qed

lemma inv_set_data:
  assumes "py_inv s" "pycsp_packet_set_data args s = Some (v, s')"
  shows "py_inv s'"
proof (rule inv_parsed [OF assms(2) [unfolded pycsp_packet_set_data_def] assms(1)], goal_cases)
  case (1 a)
  obtain pc buf where a: "a = (pc, buf)" by (cases a)
  show ?case
  proof (rule inv_packet [OF assms(1) 1(2) [unfolded a case_prod_conv]], goal_cases)
    case (1 p H)
    from 1(2) obtain d where d: "get_bytes buf s = Some d"
      "(if length d > csp_buffer_data_size then PyErr_Error ''packet_set_data() - exceeding data size'' CSP_ERR_INVAL s
        else do {
          x \<leftarrow> get_packet p (py_node s);
          x \<leftarrow> data_write 0 d x;
          py_return Py_None (s\<lparr>py_node := put_packet p (x\<lparr>plen := of_nat (length d)\<rparr>) (py_node s)\<rparr>)
        }) = Some (v, s')" by (auto simp only: bind_Some_iff)
    show ?case
    proof (cases "length d > csp_buffer_data_size")
      case True
      then have "PyErr_Error ''packet_set_data() - exceeding data size'' CSP_ERR_INVAL s = Some (v, s')" using d(2) by (simp only: if_True)
      then show ?thesis using inv_raise assms(1) by blast
    next
      case False
      with d(2) obtain x y where x: "get_packet p (py_node s) = Some x" "data_write 0 d x = Some y"
        "s' = s\<lparr>py_node := put_packet p (y\<lparr>plen := of_nat (length d)\<rparr>) (py_node s)\<rparr>" by (auto simp: bind_Some_iff)
      have "length (bytes y) = PACKET_BYTES" using owned_packet [OF 1(1) x(1)] same_frame_write [OF x(2)] by (simp add: same_frame_def)
      then show ?thesis unfolding x(3) using assms(1) by (intro inv_node owned_put) (simp_all add: py_inv_def)
    qed
  qed
qed

context route_client
begin

lemma inv_close:
  assumes "py_inv s" "io_nexthop (py_io pe) = nexthop" "pycsp_close pe obj s = Some (v, s')"
  shows "py_inv s'"
proof -
  from assms(2,3) obtain c t where g: "get_capsule_pointer obj CONNECTION_CAPSULE True s = Some (c, t)"
    and r: "(if c \<noteq> None then do { (_, s) \<leftarrow> on_node (csp_close nexthop c) t; Some (mark_freed obj s) } else Some t) = Some s'"
    by (auto simp: pycsp_close_def get_obj_as_conn_def bind_Some_iff)
  show ?thesis
  proof (cases rule: get_capsule_cases [OF g])
    case (1 name q)
    show ?thesis
    proof (cases c)
      case None
      then show ?thesis using r 1(3) assms(1) by auto
    next
      case (Some k)
      then have n: "name = CONNECTION_CAPSULE" "t = s" using 1(3) by auto
      from r Some n(2) obtain u s1 where s1: "on_node (csp_close nexthop (Some k)) s = Some (u, s1)" "s' = mark_freed obj s1"
        by (auto simp: bind_Some_iff)
      from inv_close_node [OF assms(1) s1(1)] show ?thesis using inv_mark [of s1 obj name q] s1(2) 1(1,2) n(1) by auto
    qed
  qed
qed

lemma inv_dealloc:
  assumes "py_inv s" "io_nexthop (py_io pe) = nexthop" "i < length (objects s)" "py_dealloc pe i s = Some (u, s')"
  shows "py_inv s'"
proof -
  have gone: "py_inv (t\<lparr>objects := (objects t)[i := None]\<rparr>)"
    if "py_inv t" "i < length (objects t)" "packet_of (objects t ! i) = None" for t
    using map_filter_update [OF that(2), of packet_of None] that by (simp add: py_inv_def held_packets_def packet_of_def)
  have marked: "objects (mark_freed i t) = (objects t)[i := Some (Capsule name None)]" if "objects t ! i = Some (Capsule name q)" for t name q
    using that by (simp add: mark_freed_def)
  from assms(4) obtain t where t: "(case objects s ! i of
        Some (Capsule name _) \<Rightarrow>
          if name = PACKET_CAPSULE then pycsp_free_csp_buffer i s
          else if name = CONNECTION_CAPSULE then pycsp_free_csp_conn pe i s
          else if name = SOCKET_CAPSULE then pycsp_free_csp_socket i s
          else Some ((), s)
      | _ \<Rightarrow> Some ((), s)) = Some ((), t)" "s' = t\<lparr>objects := (objects t)[i := None]\<rparr>"
    by (auto simp: py_dealloc_def bind_Some_iff)
  have "py_inv t \<and> i < length (objects t) \<and> packet_of (objects t ! i) = None"
  proof (cases "\<exists>name q. objects s ! i = Some (Capsule name q)")
    case False
    then show ?thesis using t(1) assms(1,3) by (auto simp: packet_of_def split: option.splits py_object.splits)
  next
    case True
    then obtain name q where o: "objects s ! i = Some (Capsule name q)" by blast
    consider "name = PACKET_CAPSULE" | "name = CONNECTION_CAPSULE" | "name = SOCKET_CAPSULE" |
      "name \<noteq> PACKET_CAPSULE" "name \<noteq> CONNECTION_CAPSULE" "name \<noteq> SOCKET_CAPSULE" by blast
    then show ?thesis
    proof cases
      case 1
      then have "pycsp_free_csp_buffer i s = Some ((), t)" using t(1) o by simp
      then obtain p s1 where s1: "get_obj_as_packet i True s = Some (p, s1)"
        "(do { (_, s) \<leftarrow> (if p \<noteq> None then on_node (csp_buffer_free p) s1 else Some ((), s1)); Some ((), mark_freed i s) }) = Some ((), t)"
        by (auto simp: pycsp_free_csp_buffer_def bind_Some_iff)
      from s1(2) obtain u s2 where s2: "(if p \<noteq> None then on_node (csp_buffer_free p) s1 else Some ((), s1)) = Some (u, s2)" "t = mark_freed i s2"
        by (cases "if p \<noteq> None then on_node (csp_buffer_free p) s1 else Some ((), s1)") auto
      from inv_free_capsule [OF assms(1) s1(1) s2(1)] show ?thesis using marked [of s2 name q] o assms(3) by (simp add: s2(2) packet_of_def)
    next
      case 2
      then have "pycsp_free_csp_conn pe i s = Some ((), t)" using t(1) o by simp
      then obtain s1 where s1: "t = mark_freed i s1"
        "if q = None then s1 = s else \<exists>r. on_node (csp_close nexthop q) s = Some (r, s1)"
        using o 2 assms(2,3) by (cases q) (auto simp: pycsp_free_csp_conn_def get_obj_as_conn_def get_capsule_pointer_def bind_Some_iff)
      have "py_inv s1 \<and> objects s1 = objects s"
      proof (cases q)
        case None
        then show ?thesis using s1(2) assms(1) by simp
      next
        case (Some k)
        then obtain r where "on_node (csp_close nexthop (Some k)) s = Some (r, s1)" using s1(2) by auto
        then show ?thesis by (rule inv_close_node [OF assms(1)])
      qed
      then show ?thesis using inv_mark [of s1 i name q] marked [of s1 name q] o assms(3) 2 by (simp add: s1(1) packet_of_def)
    next
      case 3
      then have "pycsp_free_csp_socket i s = Some ((), t)" using t(1) o by simp
      then have "t = mark_freed i s" using o 3 assms(3)
        by (auto simp: pycsp_free_csp_socket_def get_obj_as_socket_def get_capsule_pointer_def bind_Some_iff split: if_splits)
      then show ?thesis using inv_mark [OF assms(1,3) o] 3 marked [OF o] assms(3) by (simp add: packet_of_def)
    next
      case 4
      then show ?thesis using t(1) o assms(1,3) by (simp add: packet_of_def)
    qed
  qed
  then show ?thesis using gone t(2) by simp
qed

end

section \<open>Runs of a program\<close>

text \<open>The methods that handle packets; connections are opened without RDP.\<close>

fun packet_call :: "py_call \<Rightarrow> node \<Rightarrow> bool" where
  "packet_call (Py_read args) n = True"
| "packet_call (Py_send args) n = True"
| "packet_call (Py_accept args) n = True"
| "packet_call (Py_recvfrom args) n = True"
| "packet_call (Py_sendto args) n = True"
| "packet_call (Py_sendto_reply args) n = True"
| "packet_call (Py_connect args) n = (case args of None \<Rightarrow> True |
     Some (prio, dest, dp, timeout, opts) \<Rightarrow> \<not> has_flag (opts OR conn_dfl_so (csp_conf n)) CSP_O_RDP)"
| "packet_call (Py_close obj) n = True"
| "packet_call (Py_buffer_get args) n = True"
| "packet_call (Py_buffer_free args) n = True"
| "packet_call (Py_packet_set_data args) n = True"
| "packet_call (Py_packet_get_data obj) n = True"
| "packet_call (Py_packet_get_length obj) n = True"
| "packet_call Py_buffer_remaining n = True"
| "packet_call Py_get_buffer_stats n = True"
| "packet_call (Py_conn_dport obj) n = True"
| "packet_call (Py_conn_sport obj) n = True"
| "packet_call (Py_conn_dst obj) n = True"
| "packet_call (Py_conn_src obj) n = True"
| "packet_call _ n = False"

text \<open>
  A step: a call, after which the interpreter takes the exception; a new byte buffer; the end of an object; a turn of the
  router with a packet of ordinary length and without RDP.
\<close>

inductive py_step :: "py_env \<Rightarrow> callback_t \<Rightarrow> py \<Rightarrow> py \<Rightarrow> bool" for pe callback where
  call: "packet_call c (py_node s) \<Longrightarrow> lengths_ok s \<Longrightarrow> call_method pe c s = Some (v, s') \<Longrightarrow> py_step pe callback s (s'\<lparr>py_err := None\<rparr>)"
| bytearray: "py_step pe callback s (s\<lparr>objects := objects s @ [Some (Bytearray bs)]\<rparr>)"
| dealloc: "i < length (objects s) \<Longrightarrow> py_dealloc pe i s = Some (u, s') \<Longrightarrow> py_step pe callback s s'"
| router: "queue_list (qfifo_queue (py_node s)) = \<lparr>q_iface = Some f, q_packet = Some p\<rparr> # es \<Longrightarrow> f < length (ifaces (py_node s)) \<Longrightarrow>
    get_packet p (py_node s) = Some x \<Longrightarrow> packet_wf x \<Longrightarrow> \<not> has_flag (flags (pid x)) CSP_FRDP \<Longrightarrow>
    csp_task_router_turn pe callback (py_node s) = Some n \<Longrightarrow> py_step pe callback s (s\<lparr>py_node := n\<rparr>)"

context route_client
begin

lemma inv_call:
  assumes "py_inv s" "lengths_ok s" "plain_py pe" "io_nexthop (py_io pe) = nexthop" "packet_call c (py_node s)" "call_method pe c s = Some (v, s')"
  shows "py_inv s'"
proof -
  have get: "py_inv s'" if "conn_getter g obj s = Some (v, s')" for g obj
    using that unfolding conn_getter_def by (rule inv_conn [OF assms(1)]) (use assms(1) in \<open>auto simp: bind_Some_iff\<close>)
  have look: "py_inv s'" if "pycsp_packet_get_data obj s = Some (v, s') \<or> pycsp_packet_get_length obj s = Some (v, s')" for obj
    using that unfolding pycsp_packet_get_data_def pycsp_packet_get_length_def
    by (elim disjE; elim inv_packet [OF assms(1)]) (use assms(1) in \<open>auto simp: bind_Some_iff\<close>)
  show ?thesis using assms(5,6)
  proof (cases "(c, py_node s)" rule: packet_call.cases)
    case (7 args n)
    have "\<not> has_flag (opts OR conn_dfl_so (csp_conf (py_node s))) CSP_O_RDP" if "args = Some (prio, dest, dp, t, opts)" for prio dest dp t opts
      using 7 that assms(5) by (simp del: CSP_O_RDP_def)
    then show ?thesis using inv_connect [OF assms(1,3), of args v s'] 7 assms(6) by simp
  qed (use inv_read [OF assms(1,3)] inv_accept [OF assms(1,3)] inv_recvfrom [OF assms(1,3)] inv_send [OF assms(1-4)] inv_sendto [OF assms(1-4)] inv_sendto_reply [OF assms(1-4)]
      inv_close [OF assms(1,4)] inv_buffer_get [OF assms(1)] inv_buffer_free [OF assms(1)] inv_set_data [OF assms(1)] get look [OF disjI1] look [OF disjI2] assms(1)
      in \<open>auto simp: pycsp_conn_dport_def pycsp_conn_sport_def pycsp_conn_dst_def pycsp_conn_src_def pycsp_buffer_remaining_def
        pycsp_get_buffer_stats_def\<close>)
qed

lemma inv_step:
  assumes "py_step pe callback s s'" "py_inv s" "plain_py pe" "io_nexthop (py_io pe) = nexthop"
  shows "py_inv s'"
  using assms(1)
proof cases
  case (call c v t)
  then show ?thesis using inv_call [OF assms(2) _ assms(3,4), of c v t] by simp
next
  case (bytearray bs)
  then show ?thesis using assms(2) by (simp add: py_inv_def held_packets_def List.map_filter_def packet_of_def)
next
  case (dealloc i u)
  then show ?thesis using inv_dealloc [OF assms(2,4)] by blast
next
  case (router f p es x n)
  then obtain r where "csp_route_work nexthop callback (py_node s) = Some (r, n)"
    using assms(4) by (auto simp: csp_task_router_turn_def bind_Some_iff)
  then show ?thesis using owned_route [OF _ router(2-6)] assms(2) router(1) by (simp add: py_inv_def held_packets_def)
qed

lemma inv_run:
  assumes "(py_step pe callback)\<^sup>*\<^sup>* s s'" "py_inv s" "plain_py pe" "io_nexthop (py_io pe) = nexthop"
  shows "py_inv s'"
  using assms(1,2) by (induction rule: rtranclp_induct) (use inv_step assms(3,4) in auto)

end

text \<open>Buffers that are accounted for are in one place.\<close>

lemma accounts_distinct:
  assumes "accounts (mset ps) n"
  shows "distinct ps" "set ps \<inter> set (free_list n) = {}"
proof -
  have e: "mset (free_list n) + queued n + mset ps = mset_set {..<CSP_BUFFER_COUNT}" using assms by (simp add: accounts_def)
  have one: "count (mset (free_list n)) q + count (queued n) q + count (mset ps) q \<le> 1" for q
  proof -
    have "count (mset (free_list n) + queued n + mset ps) q \<le> 1" unfolding e by (simp add: count_mset_set')
    then show ?thesis by simp
  qed
  have "count (mset ps) q \<le> 1" for q using one [of q] by simp
  then show "distinct ps" by (metis count_greater_eq_one_iff distinct_count_atmost_1 le_antisym not_in_iff set_mset_mset)
  show "set ps \<inter> set (free_list n) = {}"
  proof (rule ccontr)
    assume "set ps \<inter> set (free_list n) \<noteq> {}"
    then obtain q where "q \<in> set ps" "q \<in> set (free_list n)" by blast
    then have "0 < count (mset ps) q" "0 < count (mset (free_list n)) q" by (simp_all add: count_greater_zero_iff)
    then show False using one [of q] by linarith
  qed
qed

section \<open>Properties\<close>

text \<open>C9: However a Python program of one thread uses its packets with the methods of \<open>packet_call\<close> (\<^verbatim>\<open>accept\<close>, \<^verbatim>\<open>connect\<close> without RDP, \<^verbatim>\<open>close\<close>, \<^verbatim>\<open>read\<close>, \<^verbatim>\<open>recvfrom\<close>, \<^verbatim>\<open>send\<close>,
  \<^verbatim>\<open>sendto\<close>, \<^verbatim>\<open>sendto_reply\<close>, \<^verbatim>\<open>buffer_get\<close>, \<^verbatim>\<open>buffer_free\<close> and the methods that look at packets, buffers and connections or write the data), sending
  and freeing packets, twice or with capsules of other types, dropping them without freeing them, replying with the request itself, in any order and with the router
  at work on packets without RDP between the calls, every buffer of the node is in exactly one place: free, queued in the stack, or held by exactly one capsule
  that is not marked as freed. Nothing is said of the methods that are not in \<open>packet_call\<close>, among them \<^verbatim>\<open>service_handler\<close>, \<^verbatim>\<open>transaction\<close>, \<^verbatim>\<open>ping\<close> and
  the \<^verbatim>\<open>cmp_*\<close> methods, of several threads, of RDP, and of packets whose length is larger than a buffer (\<open>lengths_ok\<close>).\<close>

theorem pycsp_run_owns_buffers:
  assumes "route_client nh cb" "plain_py pe" "io_nexthop (py_io pe) = nh" "py_inv s" "(py_step pe cb)\<^sup>*\<^sup>* s s'"
  shows "accounts (mset (held_packets s')) (py_node s') \<and> distinct (held_packets s') \<and>
    set (held_packets s') \<inter> set (free_list (py_node s')) = {}"
proof -
  have "accounts (mset (held_packets s')) (py_node s')"
    using route_client.inv_run [OF assms(1,5,4,2,3)] by (simp add: py_inv_def owned_def)
  then show ?thesis using accounts_distinct by blast
qed

text \<open>A program that holds all buffers but one, which waits for the router; it frees a packet twice.\<close>

definition own_py :: py where
  "own_py = \<lparr>py_node = listening_node, objects = map (\<lambda>p. Some (Capsule PACKET_CAPSULE (Some p))) [0, 1, 2, 4, 5, 6, 7, 8, 9, 10, 11, 12, 13, 14],
     py_err = None\<rparr>"

theorem pycsp_run_owns_buffers_witness:
  "\<exists>s'. (py_step lo_py (\<lambda>f p. csp_buffer_free (Some p)))\<^sup>*\<^sup>* own_py s' \<and> held_packets s' = [1, 2, 4, 5, 6, 7, 8, 9, 10, 11, 12, 13, 14] \<and>
     accounts (mset (held_packets s')) (py_node s') \<and> 0 \<notin> set (held_packets s')"
proof -
  let ?cb = "\<lambda>(f :: nat) p. csp_buffer_free (Some p)" and ?ps = "[1, 2, 4, 5, 6, 7, 8, 9, 10, 11, 12, 13, 14] :: nat list"
  have h: "held_packets own_py = 0 # ?ps" by (simp add: held_packets_def own_py_def packet_of_def)
  have "{..<15 :: nat} = set [0..<15]" by (simp only: set_upt atLeast0LessThan)
  also have "[0..<15 :: nat] = [0, 1, 2, 3, 4, 5, 6, 7, 8, 9, 10, 11, 12, 13, 14]" by code_simp
  finally have "{..<15 :: nat} - {3} = set (0 # ?ps)" by (simp add: insert_Diff_if)
  then have m: "mset (0 # ?ps) = mset_set ({..<15} - {3})" using mset_set_set [of "0 # ?ps"] by simp
  have inv: "py_inv own_py" unfolding py_inv_def h m using listening_node_facts(1-3) by (simp add: owned_def own_py_def)
  have a: "accounts (add_mset 0 (mset ?ps)) listening_node" using listening_node_facts(3) m by simp
  define s1 where "s1 = mark_freed 0 (own_py\<lparr>py_node := give_buffer 0 listening_node\<rparr>)"
  have o: "objects own_py ! 0 = Some (Capsule PACKET_CAPSULE (Some 0))" "0 < length (objects own_py)" "py_node own_py = listening_node" "py_err own_py = None"
    by (simp_all add: own_py_def)
  have o1: "objects s1 = (objects own_py)[0 := Some (Capsule PACKET_CAPSULE None)]" "py_err s1 = None" using o by (simp_all add: s1_def mark_freed_def)
  have h1: "held_packets s1 = ?ps" by (simp add: held_packets_def o1) (simp add: own_py_def packet_of_def)
  have c1: "call_method lo_py (Py_buffer_free (Some 0)) own_py = Some (Some Py_None, s1)"
    using o accounts_free(1) [OF a]
    by (simp add: pycsp_buffer_free_def parsed_def get_obj_as_packet_def get_capsule_pointer_def on_node_def s1_def)
  have c2: "call_method lo_py (Py_buffer_free (Some 0)) s1 = Some (Some Py_None, mark_freed 0 s1)"
    using o o1 by (simp add: pycsp_buffer_free_def parsed_def get_obj_as_packet_def get_capsule_pointer_def)
  have g: "get_packet q listening_node = Some zero_packet" if "q < 15" for q
    using that by (simp add: get_packet_def listening_node_def input_node_def busy_node_def ready_node_def held_node_def del: upt_rec_numeral)
  have l: "lengths_ok own_py" "lengths_ok s1"
    unfolding lengths_ok_def h h1 using g o by (auto simp: s1_def zero_packet_def)
  have e: "py_err (mark_freed 0 s1) = None" "held_packets (mark_freed 0 s1) = ?ps" using o1 h1 o
    by (simp_all add: held_packets_def mark_freed_def packet_of_def)
  let ?s = "(mark_freed 0 s1)\<lparr>py_err := None\<rparr>"
  have "py_step lo_py ?cb own_py (s1\<lparr>py_err := None\<rparr>)" "py_step lo_py ?cb s1 ?s"
    using py_step.call [OF _ l(1) c1, of ?cb] py_step.call [OF _ l(2) c2, of ?cb] by simp_all
  then have run: "(py_step lo_py ?cb)\<^sup>*\<^sup>* own_py ?s" using o1(2) by (metis (no_types, lifting) e(1) py.surjective py.update_convs(3) rtranclp.rtrancl_into_rtrancl rtranclp.rtrancl_refl)
  have "plain_py lo_py" "io_nexthop (py_io lo_py) = csp_lo_tx" by (simp_all add: plain_py_def lo_py_def lo_io_def)
  from pycsp_run_owns_buffers [OF drop.route_client_axioms this inv run] e(2) run show ?thesis by (auto simp: held_packets_def)
qed

end
