(* ===== verification/Csp_Rdp_Machine.thy ===== *)
theory Csp_Rdp_Machine
  imports Csp_Io
begin

text \<open>
  What the parts of RDP (\<^verbatim>\<open>src/csp_rdp.c\<close>) do together: reading from any connection, with or without RDP, is first in, first out
  and loses no buffer; a received packet drives the state machine through \<^verbatim>\<open>csp_rdp_new_packet\<close> up to its three labels, of which
  one closes the connection; and the options that \<^verbatim>\<open>csp_rdp_send_syn\<close> writes are those that the node at the other end stores.
\<close>

section \<open>Control messages take one buffer and give it away\<close>

lemma accounts_get:
  assumes "accounts H s" "csp_buffer_get n s = Some (b, s')"
  shows "accounts (held_with b H) s'" "env s' = env s" "keeps H s s'" "send_frame s' = send_frame s"
proof -
  have pool: "pool_inv s" using assms(1) by (simp add: accounts_def)
  show "send_frame s' = send_frame s" by (rule buffer_get_frame [OF assms(2)])
  have "accounts (held_with b H) s' \<and> env s' = env s \<and> keeps H s s'"
  proof (cases "n \<le> CSP_BUFFER_SIZE")
    case True
    note g = csp_buffer_get_eq [OF pool this]
    show ?thesis
    proof (cases "free_list s")
      case Nil
      then show ?thesis using assms g by (auto simp: keeps_def)
    next
      case (Cons i xs)
      have "get_packet k (take_buffer i s) = get_packet k s" for k
        using take_buffer_inv(4) [OF pool Cons] by blast
      then show ?thesis using assms g accounts_take [OF assms(1) Cons] Cons by (auto simp: keeps_def)
    qed
  next
    case False
    then show ?thesis using assms csp_buffer_get_large [of n s] by (auto simp: keeps_def)
  qed
  then show "accounts (held_with b H) s'" "env s' = env s" "keeps H s s'" by simp_all
qed

lemma accounts_incr [simp]: "accounts H (s\<lparr>csp_rdp_incr := i\<rparr>) = accounts H s" "env (s\<lparr>csp_rdp_incr := i\<rparr>) = env s"
  "get_packet k (s\<lparr>csp_rdp_incr := i\<rparr>) = get_packet k s"
  by (simp_all add: accounts_def pool_inv_def free_list_def queued_def queues_inv_def qfifo_packets_def promisc_packets_def rdp_packets_def
      env_def get_packet_def)

lemma accounts_upd_rdp:
  assumes "upd_rdp n f s = Some s'" "accounts H s"
  shows "accounts H s'" "env s' = env s" "get_packet k s' = get_packet k s" "length (arr_conn s') = length (arr_conn s)"
    "rx_queue (arr_conn s' ! m) = rx_queue (arr_conn s ! m)"
proof -
  from assms(1) have n: "n < length (arr_conn s)" "s' = put_conn n ((arr_conn s ! n)\<lparr>rdp := f (rdp (arr_conn s ! n))\<rparr>) s"
    by (auto simp: upd_rdp_def upd_conn_def get_conn_def split: if_splits)
  show "accounts H s'" unfolding n(2) by (rule accounts_conn_same [OF assms(2) n(1)]) simp
  show "env s' = env s" "get_packet k s' = get_packet k s" "length (arr_conn s') = length (arr_conn s)" by (simp_all add: n(2))
  show "rx_queue (arr_conn s' ! m) = rx_queue (arr_conn s ! m)" using n(1) by (cases "m = n") (simp_all add: n(2))
qed

context nexthop_contract
begin

lemma accounts_cmp_packet:
  assumes "csp_rdp_cmp_packet None s = Some (b, s')" "accounts H s"
  shows "accounts (held_with b H) s' \<and> env s' = env s \<and> keeps H s s' \<and> send_frame s' = send_frame s \<and>
    (\<forall>p. b = Some p \<longrightarrow> (\<exists>x. get_packet p s' = Some x \<and> packet_wf x \<and> plen x = 0))"
proof -
  from assms(1) obtain c t where t: "csp_buffer_get 20 s = Some (c, t)"
    "(case c of None \<Rightarrow> b = None \<and> s' = t | Some p \<Rightarrow> \<exists>x. b = Some p \<and> get_packet p t = Some x \<and> s' = put_packet p (x\<lparr>plen := 0\<rparr>) t)"
    by (auto simp: csp_rdp_cmp_packet_def bind_Some_iff split: option.splits)
  note g = accounts_get [OF assms(2) t(1)]
  show ?thesis
  proof (cases c)
    case None
    then show ?thesis using g t(2) by simp
  next
    case (Some p)
    then obtain x where x: "b = Some p" "get_packet p t = Some x" "s' = put_packet p (x\<lparr>plen := 0\<rparr>) t" using t(2) by auto
    have a: "accounts (add_mset p H) t" using g(1) Some by simp
    have l: "length (bytes x) = PACKET_BYTES" using accounts_packet [OF a] x(2) by auto
    have p: "p < length (csp_buffer_pool t)" using x(2) by (auto simp: get_packet_def split: if_splits)
    show ?thesis
      using g(2-4) accounts_put [OF a, of "x\<lparr>plen := 0\<rparr>" p] keeps_put [OF a, of "x\<lparr>plen := 0\<rparr>"] get_put_packet [OF p] x l
      by (auto simp: packet_wf_def intro: keeps_trans)
  qed
qed

lemma accounts_send_cmp:
  assumes "csp_rdp_send_cmp nexthop n None fl sq ak s = Some (r, s')" "accounts H s" "env_inv s" "\<not> has_flag fl RDP_SYN"
  shows "accounts H s' \<and> env s' = env s \<and> keeps H s s' \<and> (\<forall>m. rx_queue (arr_conn s' ! m) = rx_queue (arr_conn s ! m))"
proof -
  from assms(1) obtain b s1 where b: "csp_rdp_cmp_packet None s = Some (b, s1)" by (auto simp: csp_rdp_send_cmp_def bind_Some_iff)
  note c = accounts_cmp_packet [OF b assms(2)]
  have q: "arr_conn s1 = arr_conn s" using c by (simp add: send_frame_def)
  show ?thesis
  proof (cases b)
    case None
    then show ?thesis using assms(1) b c q by (simp add: csp_rdp_send_cmp_def)
  next
    case (Some p)
    obtain x where x: "get_packet p s1 = Some x" "packet_wf x" "plen x = 0" using c Some by blast
    have a1: "accounts (add_mset p H) s1" using c Some by simp
    obtain y where y: "csp_rdp_header_add x = Some (Some (DATA_OFFSET + unat (plen x)), y)" "packet_wf y"
      using header_add_room [OF x(2)] x(3) by auto
    have l: "DATA_OFFSET + unat (plen x) + RDP_HEADER_SIZE \<le> length (bytes y)" using y(2) x(3) by (simp add: packet_wf_def)
    let ?h = "\<lparr>h_flags = push_bit 4 (csp_rdp_incr s1) OR fl, h_seq_nr = htobe16 sq, h_ack_nr = htobe16 ak\<rparr>"
    define z where "z = y\<lparr>bytes := mem_put (DATA_OFFSET + unat (plen x)) (header_bytes ?h) (bytes y)\<rparr>"
    have z: "header_put (DATA_OFFSET + unat (plen x)) ?h y = Some z" using header_get_put(1) [OF l] by (simp add: z_def)
    have wz: "packet_wf z" using y(2) l by (simp add: z_def packet_wf_def)
    define s2 where "s2 = (put_packet p z s1)\<lparr>csp_rdp_incr := csp_rdp_incr s1 + 1\<rparr>"
    have p: "p < length (csp_buffer_pool s1)" using x(1) by (auto simp: get_packet_def split: if_splits)
    have a2: "accounts (add_mset p H) s2" "env s2 = env s" "get_packet p s2 = Some z" "keeps H s s2" "arr_conn s2 = arr_conn s"
      using accounts_put [OF a1, of z p] keeps_put [OF a1, of z] get_put_packet [OF p] c wz q
      by (auto simp: s2_def packet_wf_def keeps_def)
    from assms(1) b Some x(1) y(1) z obtain ido s3 where s3: "csp_send_direct nexthop ido p None s2 = Some ((), s3)"
      "(if has_flag fl RDP_ACK then upd_rdp n (\<lambda>r. r\<lparr>rcv_lsa := ak, ack_timestamp := now s3\<rparr>) s3 else Some s3) = Some s'"
      using assms(4)
      by (auto simp: csp_rdp_send_cmp_def bind_Some_iff Let_def s2_def simp del: RDP_SYN_def RDP_ACK_def)
    have "env_inv s2" using env_inv_env [OF a2(2) assms(3)] .
    note d = accounts_send_direct [OF s3(1) a2(1,3) wz this]
    have q3: "arr_conn s3 = arr_conn s2" using send_direct_conns [OF s3(1)] by (simp add: conn_frame_def)
    have "accounts H s' \<and> env s' = env s3 \<and> (\<forall>k. get_packet k s' = get_packet k s3) \<and> (\<forall>m. rx_queue (arr_conn s' ! m) = rx_queue (arr_conn s3 ! m))"
      using s3(2) d accounts_upd_rdp [of n _ s3 s' H] by (auto split: if_splits)
    then show ?thesis using d a2 q3 by (auto simp: keeps_def)
  qed
qed

lemma accounts_check_ack:
  assumes "csp_rdp_check_ack nexthop n s = Some (r, s')" "accounts H s" "env_inv s"
  shows "accounts H s' \<and> env s' = env s \<and> keeps H s s' \<and> (\<forall>m. rx_queue (arr_conn s' ! m) = rx_queue (arr_conn s ! m))"
proof -
  have "\<not> has_flag RDP_ACK RDP_SYN" by (simp add: has_flag_def)
  then show ?thesis using assms accounts_send_cmp [of n RDP_ACK _ _ s _ s' H]
    by (auto simp: csp_rdp_check_ack_def bind_Some_iff Let_def simp del: RDP_ACK_def RDP_SYN_def split: if_splits)
qed

text \<open>Reading, whatever the options of the connection and whatever time-out.\<close>

lemma read_oldest:
  assumes "accounts H s" "env_inv s" "n < length (arr_conn s)" "c_state (arr_conn s ! n) = CONN_OPEN"
    "queue_list (rx_queue (arr_conn s ! n)) = e # es" "csp_read probe nexthop others (Some n) timeout s = Some (r, s')"
  shows "r = e \<and> accounts (held_with e H) s' \<and> env s' = env s \<and> queue_list (rx_queue (arr_conn s' ! n)) = es \<and>
    keeps (held_with e H) s s' \<and> (\<forall>m. m \<noteq> n \<longrightarrow> rx_queue (arr_conn s' ! m) = rx_queue (arr_conn s ! m))"
proof -
  let ?q = "rx_queue (arr_conn s ! n)" and ?c = "probed probe (arr_conn s ! n)"
  let ?s = "put_conn n (?c\<lparr>rx_queue := queue_pop ?q\<rparr>) s"
  note wf = conn_queue_wf [OF assms(1,3)]
  have i: "0 < items ?q" using assms(5) by (metis length_queue_list length_greater_0_conv list.distinct(1))
  have b: "buffer ?q ! q_out ?q = Some e" using queue_head_Some [OF wf i] assms(5) by simp
  have a: "accounts H (put_conn n ?c s)" by (rule accounts_conn_same [OF assms(1,3)]) simp
  have l: "queue_list (queue_pop ?q) = es" using queue_pop_list [OF wf i] assms(5) by simp
  have as: "accounts (held_with e H) ?s" using accounts_conn_pop [OF a, of n e es] assms(3,5) by simp
  have e: "env ?s = env s" by simp
  obtain v where v: "r = e" "(if has_flag (flags (idin ?c)) CSP_FRDP \<and> delayed_acks (rdp ?c) \<noteq> 0 then csp_rdp_check_ack nexthop n ?s
      else Some (CSP_ERR_NONE, ?s)) = Some (v, s')"
    using assms(3,4,6) i b
    by (auto simp: csp_read_def upd_conn_eq get_conn_eq probed_def [symmetric] csp_queue_dequeue_item csp_queue_size_def
        pthread_queue_items_def Let_def bind_Some_iff simp del: CSP_FRDP_def cong: if_cong)
  have "accounts (held_with e H) s' \<and> env s' = env ?s \<and> keeps (held_with e H) ?s s' \<and> (\<forall>m. rx_queue (arr_conn s' ! m) = rx_queue (arr_conn ?s ! m))"
    using v(2) as accounts_check_ack [OF _ as env_inv_env [OF e assms(2)], of n v s'] by (auto split: if_splits)
  then show ?thesis using v(1) l assms(3) by (auto simp: keeps_def)
qed

end

section \<open>Reading\<close>

lemma read_returns:
  assumes "n < length (arr_conn s)" "c_state (arr_conn s ! n) = CONN_OPEN" "accounts H s" "queue_list (rx_queue (arr_conn s ! n)) = e # es"
    "\<not> has_flag (flags (damat_id (probe (damat_buffer (idin (arr_conn s ! n)))))) CSP_FRDP \<or> delayed_acks (rdp (arr_conn s ! n)) = 0"
  shows "csp_read probe nh others (Some n) timeout s \<noteq> None"
proof -
  let ?q = "rx_queue (arr_conn s ! n)"
  have i: "0 < items ?q" using assms(4) by (metis length_queue_list length_greater_0_conv list.distinct(1))
  have b: "buffer ?q ! q_out ?q = Some e" using queue_head_Some [OF conn_queue_wf [OF assms(3,1)] i] assms(4) by simp
  show ?thesis using assms(1,2,5) i b
    by (auto simp: csp_read_def upd_conn_eq get_conn_eq probed_def [symmetric] csp_queue_dequeue_item csp_queue_size_def
        pthread_queue_items_def Let_def simp del: CSP_FRDP_def)
qed

text \<open>C19: Reading from a connection is first in, first out, with RDP and without, whatever the time-out: a call that returns on an open
  connection whose queue is not empty gives the oldest entry of the queue (a packet, or the null packet that reports the end of the
  connection), the others stay in their order, the queues of the other connections stay as they are, and every buffer is
  accounted for, the packet that was read being the reader's and unchanged. The acknowledgement that reading from an RDP
  connection may send is included. On a connection whose probed identifier is without RDP, or that does not delay acknowledgements, the call always returns.\<close>

theorem csp_read_oldest:
  assumes "nexthop_contract nh" "accounts H s" "env_inv s" "n < length (arr_conn s)" "c_state (arr_conn s ! n) = CONN_OPEN"
    "queue_list (rx_queue (arr_conn s ! n)) = e # es"
  shows "(\<forall>r s'. csp_read probe nh others (Some n) timeout s = Some (r, s') \<longrightarrow>
      r = e \<and> accounts (case e of None \<Rightarrow> H | Some p \<Rightarrow> add_mset p H) s' \<and> env s' = env s \<and>
      queue_list (rx_queue (arr_conn s' ! n)) = es \<and> (\<forall>p. e = Some p \<longrightarrow> get_packet p s' = get_packet p s) \<and> keeps H s s' \<and>
      (\<forall>m. m \<noteq> n \<longrightarrow> rx_queue (arr_conn s' ! m) = rx_queue (arr_conn s ! m))) \<and>
    (\<not> has_flag (flags (damat_id (probe (damat_buffer (idin (arr_conn s ! n)))))) CSP_FRDP \<or> delayed_acks (rdp (arr_conn s ! n)) = 0 \<longrightarrow>
      csp_read probe nh others (Some n) timeout s \<noteq> None)"
  using nexthop_contract.read_oldest [OF assms] read_returns [OF assms(4,5,2,6), of probe nh others timeout]
  by (fastforce simp: held_with_def keeps_def split: option.splits)

text \<open>A connection with RDP that delays acknowledgements; one packet waits.\<close>

definition rdp_reader_conn :: csp_conn_t where
  "rdp_reader_conn = zero_conn\<lparr>c_state := CONN_OPEN, idin := zero_id\<lparr>flags := CSP_FRDP\<rparr>,
     rdp := zero_rdp\<lparr>rdp_state := RDP_OPEN, window_size := 1, delayed_acks := 1\<rparr>\<rparr>"

definition rdp_read_node :: node where
  "rdp_read_node = put_conn 2 (rdp_reader_conn\<lparr>rx_queue := queue_push (Some 3) (rx_queue rdp_reader_conn)\<rparr>) busy_node"

lemma rdp_read_node_facts:
  "accounts (mset_set ({..<15} - {3})) rdp_read_node" "env_inv rdp_read_node" "2 < length (arr_conn rdp_read_node)"
  "c_state (arr_conn rdp_read_node ! 2) = CONN_OPEN" "queue_list (rx_queue (arr_conn rdp_read_node ! 2)) = [Some 3]"
  "csp_read (\<lambda>b. b) csp_lo_tx (\<lambda>s. s) (Some 2) 100 rdp_read_node \<noteq> None"
proof -
  have n: "2 < length (arr_conn busy_node)" using busy_node_env by (simp add: env_inv_def)
  have q: "rx_queue rdp_reader_conn = empty_queue CSP_CONN_RXQUEUE_LEN" by (simp add: rdp_reader_conn_def zero_conn_def)
  have "rx_queue (arr_conn busy_node ! 2) = empty_queue CSP_CONN_RXQUEUE_LEN"
    by (simp add: busy_node_def ready_node_def zero_conn_def del: upt_rec_numeral)
  then have "accounts (add_mset 3 (mset_set ({..<15} - {3}))) (put_conn 2 rdp_reader_conn busy_node)"
    using accounts_conn_same [OF busy_node_held(1) n] q by simp
  then show "accounts (mset_set ({..<15} - {3})) rdp_read_node"
    using accounts_conn_push [of "Some 3" _ "put_conn 2 rdp_reader_conn busy_node" 2] n q by (simp add: rdp_read_node_def empty_queue_def)
  show "env_inv rdp_read_node" using env_inv_env [OF _ busy_node_env] by (simp add: rdp_read_node_def)
  show "2 < length (arr_conn rdp_read_node)" "c_state (arr_conn rdp_read_node ! 2) = CONN_OPEN" using n by (simp_all add: rdp_read_node_def rdp_reader_conn_def)
  show "queue_list (rx_queue (arr_conn rdp_read_node ! 2)) = [Some 3]"
    using n queue_push_list [of "empty_queue CSP_CONN_RXQUEUE_LEN" "Some 3"] by (simp add: rdp_read_node_def q empty_queue_def queue_wf_def queue_list_def)
  show "csp_read (\<lambda>b. b) csp_lo_tx (\<lambda>s. s) (Some 2) 100 rdp_read_node \<noteq> None"
  proof -
    let ?q = "queue_push (Some 3 :: nat option) (empty_queue CSP_CONN_RXQUEUE_LEN)"
    have h: "items ?q = 1" "buffer ?q ! q_out ?q = Some (Some 3)" "items (queue_pop ?q) = 0"
      by (simp_all add: queue_push_def queue_pop_def empty_queue_def)
    have c: "arr_conn rdp_read_node ! 2 = rdp_reader_conn\<lparr>rx_queue := ?q\<rparr>" "2 < length (arr_conn rdp_read_node)" using n q by (simp_all add: rdp_read_node_def)
    have r: "idin rdp_reader_conn = zero_id\<lparr>flags := CSP_FRDP\<rparr>" "c_state rdp_reader_conn = CONN_OPEN"
      "rdp rdp_reader_conn = zero_rdp\<lparr>rdp_state := RDP_OPEN, window_size := 1, delayed_acks := 1\<rparr>" by (simp_all add: rdp_reader_conn_def)
    have z: "now rdp_read_node = 0" by (simp add: rdp_read_node_def busy_node_def ready_node_def held_node_def zero_node_def)
    show ?thesis using c h(1) by (simp add: csp_read_def upd_conn_eq get_conn_eq r csp_queue_dequeue_item csp_queue_size_def pthread_queue_items_def Let_def
        csp_rdp_check_ack_def csp_rdp_should_ack_def h h(2) [simplified] z has_flag_def zero_rdp_def csp_rdp_time_after_def csp_rdp_time_before_def csp_rdp_seq_after_def csp_rdp_seq_before_def)
  qed
qed

theorem csp_read_oldest_witness:
  "\<exists>s'. csp_read (\<lambda>b. b) csp_lo_tx (\<lambda>s. s) (Some 2) 100 rdp_read_node = Some (Some 3, s') \<and>
     accounts (add_mset 3 (mset_set ({..<15} - {3}))) s' \<and> queue_list (rx_queue (arr_conn s' ! 2)) = []"
proof -
  obtain r s' where r: "csp_read (\<lambda>b. b) csp_lo_tx (\<lambda>s. s) (Some 2) 100 rdp_read_node = Some (r, s')" using rdp_read_node_facts(6) by auto
  then show ?thesis
    using csp_read_oldest [OF lo.nexthop_contract_axioms rdp_read_node_facts(1-5), of "\<lambda>b. b" "\<lambda>s. s" 100] by auto
qed

section \<open>The end of a connection\<close>

lemma flush_loop_quiet: "csp_conn_flush_loop n s = Some y \<Longrightarrow> quiet s (snd y)"
proof (erule csp_conn_flush_loop.raw_induct [rotated], goal_cases)
  case (1 flush n s y)
  then obtain c r where c: "get_conn n s = Some c" "csp_queue_dequeue (rx_queue c) 0 = Some r" by (auto simp: bind_Some_iff)
  let ?s = "put_conn n (c\<lparr>rx_queue := snd r\<rparr>) s"
  have n: "n < length (arr_conn s)" "c = arr_conn s ! n" using c(1) by (auto simp: get_conn_def split: if_splits)
  have q: "quiet s ?s" by (rule quiet_put [OF _ n(1)]) (simp add: n(2) conn_core_def)
  show ?case
  proof (cases "fst (fst r) = CSP_QUEUE_OK")
    case True
    with 1(2) c obtain e t where e: "(if e \<noteq> None then csp_buffer_free e ?s else Some ((), ?s)) = Some ((), t)" "flush n t = Some y"
      by (auto simp: bind_Some_iff Let_def)
    have "quiet ?s t" using e(1) by (auto split: if_splits dest: buffer_conn_frame intro: quiet_conn_frame)
    then show ?thesis using q 1(1) [OF e(2)] by (blast intro: quiet_trans)
  next
    case False
    then show ?thesis using 1(2) c q by (auto simp: Let_def)
  qed
qed

lemma flush_rx_quiet: "csp_conn_flush_rx_queue n s = Some (r, s') \<Longrightarrow> quiet s s'"
  by (auto simp: csp_conn_flush_rx_queue_def bind_Some_iff dest: flush_loop_quiet)

text \<open>The state that closing leaves. A connection that is closed already, or has no RDP, keeps it.\<close>

definition closed_state :: "csp_conn_t \<Rightarrow> u8 \<Rightarrow> csp_rdp_state_t" where
  "closed_state c cb = (if c_state c = CONN_CLOSED \<or> \<not> (has_flag (flags (idin c)) CSP_FRDP \<or> has_flag (flags (idout c)) CSP_FRDP)
     then rdp_state (rdp c)
     else if rdp_state (rdp c) = RDP_CLOSED \<or> closed_by (rdp c) OR cb = CSP_RDP_CLOSED_BY_ALL then RDP_CLOSED else RDP_CLOSE_WAIT)"

context nexthop_frame
begin

lemma conn_close_state:
  assumes "csp_conn_close nexthop (Some n) cb s = Some (r, s')" "n < length (arr_conn s)"
  shows "state_at n s' = closed_state (arr_conn s ! n) cb \<and> n < length (arr_conn s')"
proof -
  let ?c = "arr_conn s ! n"
  let ?rdp = "has_flag (flags (idin ?c)) CSP_FRDP \<or> has_flag (flags (idout ?c)) CSP_FRDP"
  show ?thesis
  proof (cases "c_state ?c = CONN_CLOSED")
    case True
    then show ?thesis using assms by (auto simp: csp_conn_close_def get_conn_eq closed_state_def state_at_def)
  next
    case False
    with assms obtain e s1 where e: "(if ?rdp then csp_rdp_close nexthop n cb s else Some (CSP_ERR_NONE, s)) = Some (e, s1)"
      by (auto simp: csp_conn_close_def get_conn_eq bind_Some_iff simp del: CSP_FRDP_def)
    have s1: "n < length (arr_conn s1)" "state_at n s1 = closed_state ?c cb" "e = CSP_ERR_AGAIN \<longleftrightarrow> ?rdp \<and> closed_state ?c cb = RDP_CLOSE_WAIT"
      using e close_internal_spec [OF assms(2), of cb True e s1] assms(2) False
      by (auto simp: csp_rdp_close_def closed_state_def state_at_def others_kept_def simp del: CSP_FRDP_def CSP_RDP_CLOSED_BY_ALL_def split: if_splits)
    show ?thesis
    proof (cases "e = CSP_ERR_AGAIN")
      case True
      then show ?thesis using assms False e s1 by (simp add: csp_conn_close_def get_conn_eq del: CSP_FRDP_def)
    next
      case go: False
      then obtain f s2 s3 g where f: "csp_conn_flush_rx_queue n s1 = Some (f, s2)"
        "(if g then csp_rdp_queue_flush (Some n) s2 else Some ((), s2)) = Some ((), s3)" "upd_conn n (\<lambda>c. c\<lparr>c_state := CONN_CLOSED\<rparr>) s3 = Some s'"
        using assms False e by (auto simp: csp_conn_close_def get_conn_eq bind_Some_iff simp del: CSP_FRDP_def CSP_ERR_AGAIN_def)
      have "quiet s2 s3" using f(2) by (auto split: if_splits dest: flush_conns intro: quiet_conn_frame)
      then have "quiet s1 s3" using flush_rx_quiet [OF f(1)] quiet_trans by blast
      from quiet_state [OF this s1(1)] show ?thesis using f(3) s1(2) by (auto simp: upd_conn_eq state_at_def)
    qed
  qed
qed

end

section \<open>Received packets that end a connection\<close>

text \<open>
  The headers on which \<^verbatim>\<open>csp_rdp_new_packet\<close> goes to \<^verbatim>\<open>discard_close\<close>, by the state of the connection, with the parties
  that close it: a reset, a packet without SYN for a closed connection, an answer to an own SYN that acknowledges nothing, and a packet
  that does not fit an open connection.
\<close>

inductive rdp_refused :: "rdp_header_t \<Rightarrow> csp_rdp_t \<Rightarrow> u8 \<Rightarrow> bool" for h r where
  reset: "has_flag (h_flags h) RDP_RST \<Longrightarrow> rdp_state r \<in> {RDP_SYN_SENT, RDP_SYN_RCVD, RDP_OPEN} \<Longrightarrow>
    unat (h_seq_nr h) = unat (rcv_cur r) + 1 \<Longrightarrow> rdp_refused h r (CSP_RDP_CLOSED_BY_PROTOCOL OR CSP_RDP_CLOSED_BY_TIMEOUT)"
| reset_again: "has_flag (h_flags h) RDP_RST \<Longrightarrow> rdp_state r = RDP_CLOSE_WAIT \<Longrightarrow>
    rdp_refused h r (if has_flag (h_flags h) RDP_ACK then CSP_RDP_CLOSED_BY_PROTOCOL OR CSP_RDP_CLOSED_BY_TIMEOUT else CSP_RDP_CLOSED_BY_PROTOCOL)"
| no_syn: "\<not> has_flag (h_flags h) RDP_RST \<Longrightarrow> \<not> has_flag (h_flags h) RDP_SYN \<Longrightarrow> rdp_state r = RDP_CLOSED \<Longrightarrow>
    rdp_refused h r CSP_RDP_CLOSED_BY_PROTOCOL"
| no_answer: "\<not> has_flag (h_flags h) RDP_RST \<Longrightarrow> \<not> has_flag (h_flags h) RDP_ACK \<Longrightarrow> rdp_state r = RDP_SYN_SENT \<Longrightarrow>
    rdp_refused h r CSP_RDP_CLOSED_BY_PROTOCOL"
| misplaced: "\<not> has_flag (h_flags h) RDP_RST \<Longrightarrow> has_flag (h_flags h) RDP_SYN \<or> \<not> has_flag (h_flags h) RDP_ACK \<Longrightarrow>
    rdp_state r \<in> {RDP_SYN_RCVD, RDP_OPEN} \<Longrightarrow> h_seq_nr h \<noteq> rcv_irs r \<Longrightarrow> rdp_refused h r CSP_RDP_CLOSED_BY_PROTOCOL"

text \<open>The same, and the two other cases: a wrong acknowledgement of the own initial number, and a new connection that its socket has no room for.\<close>

inductive rdp_closes :: "rdp_header_t \<Rightarrow> csp_rdp_t \<Rightarrow> u8 \<Rightarrow> bool" for h r where
  refused: "rdp_refused h r cb \<Longrightarrow> rdp_closes h r cb"
| half_open: "\<not> has_flag (h_flags h) RDP_RST \<Longrightarrow> \<not> has_flag (h_flags h) RDP_SYN \<Longrightarrow> has_flag (h_flags h) RDP_ACK \<Longrightarrow>
    rdp_state r = RDP_SYN_RCVD \<Longrightarrow> rdp_closes h r CSP_RDP_CLOSED_BY_PROTOCOL"

text \<open>What of a connection the state machine leaves alone on its way to \<^verbatim>\<open>discard_close\<close>.\<close>

definition same_end :: "csp_conn_t \<Rightarrow> csp_conn_t \<Rightarrow> bool" where
  "same_end c d \<longleftrightarrow> closed_by (rdp d) = closed_by (rdp c) \<and> dest_socket d = dest_socket c \<and> c_state d = c_state c \<and> idin d = idin c \<and> idout d = idout c"

lemma same_end_refl [simp]: "same_end c c"
  by (simp add: same_end_def)

lemma quiet_same_end: "quiet s s' \<Longrightarrow> n < length (arr_conn s) \<Longrightarrow> same_end (arr_conn s ! n) (arr_conn s' ! n)"
  using conn_core_fields(2-4,6,7) [OF quiet_core] by (simp add: same_end_def)

context nexthop_frame
begin

lemma recv_rst_close:
  assumes "csp_rdp_recv_rst nexthop n h s = Some (Discard_Close cb, s')" "n < length (arr_conn s)" "has_flag (h_flags h) RDP_RST"
  shows "rdp_refused h (rdp (arr_conn s ! n)) cb \<and> same_end (arr_conn s ! n) (arr_conn s' ! n)"
proof -
  let ?r = "rdp (arr_conn s ! n)"
  from assms(1) obtain s1 where s1: "(if has_flag (h_flags h) RDP_ACK then upd_rdp n (\<lambda>r. r\<lparr>snd_una := h_ack_nr h + 1\<rparr>) s
      else Some s) = Some s1" by (auto simp: csp_rdp_recv_rst_def bind_Some_iff)
  have st1: "n < length (arr_conn s1)" "rcv_cur (rdp (arr_conn s1 ! n)) = rcv_cur ?r" "rdp_state (rdp (arr_conn s1 ! n)) = rdp_state ?r"
    "same_end (arr_conn s ! n) (arr_conn s1 ! n)"
    using s1 assms(2) by (auto simp: upd_rdp_eq same_end_def split: if_splits)
  show ?thesis
  proof (cases "rdp_state ?r = RDP_CLOSE_WAIT")
    case True
    then have "s' = s1" "cb = (if has_flag (h_flags h) RDP_ACK then CSP_RDP_CLOSED_BY_PROTOCOL OR CSP_RDP_CLOSED_BY_TIMEOUT else CSP_RDP_CLOSED_BY_PROTOCOL)"
      using assms(1) s1 st1 by (auto simp: csp_rdp_recv_rst_def get_conn_eq)
    then show ?thesis using rdp_refused.reset_again [OF assms(3) True] st1(4) by simp
  next
    case False
    have cl: "rdp_state ?r \<noteq> RDP_CLOSED" "unat (h_seq_nr h) = unat (rcv_cur ?r) + 1"
      using assms(1) s1 st1 False by (auto simp: csp_rdp_recv_rst_def get_conn_eq split: if_splits)
    let ?c = "(arr_conn s1 ! n)\<lparr>rdp := (rdp (arr_conn s1 ! n))\<lparr>rdp_state := RDP_CLOSE_WAIT\<rparr>, timestamp := now s1\<rparr>"
    obtain r fl sq ak where c: "csp_rdp_send_cmp nexthop n None fl sq ak (put_conn n ?c s1) = Some (r, s')"
      "cb = CSP_RDP_CLOSED_BY_PROTOCOL OR CSP_RDP_CLOSED_BY_TIMEOUT"
      using assms(1) s1 st1 False cl by (auto simp: csp_rdp_recv_rst_def get_conn_eq upd_conn_eq bind_Some_iff)
    have "same_end ?c (arr_conn s' ! n)" using quiet_same_end [OF send_cmp_quiet [OF c(1)], of n] st1(1) by simp
    then have "same_end (arr_conn s ! n) (arr_conn s' ! n)" using st1(4) by (simp add: same_end_def)
    moreover have "rdp_state ?r \<in> {RDP_SYN_SENT, RDP_SYN_RCVD, RDP_OPEN}" using False cl(1) by (cases "rdp_state ?r") auto
    ultimately show ?thesis using rdp_refused.reset [OF assms(3) _ cl(2)] c(2) by simp
  qed
qed

lemma recv_closed_close:
  assumes "csp_rdp_recv_closed nexthop n p h s = Some (Discard_Close cb, s')" "n < length (arr_conn s)"
    "\<not> has_flag (h_flags h) RDP_RST" "rdp_state (rdp (arr_conn s ! n)) = RDP_CLOSED"
  shows "rdp_refused h (rdp (arr_conn s ! n)) cb \<and> same_end (arr_conn s ! n) (arr_conn s' ! n)"
proof (cases "has_flag (h_flags h) RDP_SYN")
  case True
  then show ?thesis using assms(1,2) by (auto simp: csp_rdp_recv_closed_def get_conn_eq bind_Some_iff Let_def simp del: RDP_ACK_def RDP_SYN_def)
next
  case False
  then obtain r where "csp_rdp_send_cmp nexthop n None RDP_RST (snd_nxt (rdp (arr_conn s ! n))) (rcv_cur (rdp (arr_conn s ! n))) s = Some (r, s')"
    "cb = CSP_RDP_CLOSED_BY_PROTOCOL"
    using assms(1,2) by (auto simp: csp_rdp_recv_closed_def get_conn_eq bind_Some_iff)
  then show ?thesis using quiet_same_end [OF send_cmp_quiet assms(2)] rdp_refused.no_syn [OF assms(3) False assms(4)] by blast
qed

lemma recv_syn_sent_close:
  assumes "csp_rdp_recv_syn_sent nexthop n h s = Some (Discard_Close cb, s')" "n < length (arr_conn s)"
    "\<not> has_flag (h_flags h) RDP_RST" "rdp_state (rdp (arr_conn s ! n)) = RDP_SYN_SENT"
  shows "rdp_refused h (rdp (arr_conn s ! n)) cb \<and> s' = s"
proof -
  have "\<not> has_flag (h_flags h) RDP_ACK \<and> cb = CSP_RDP_CLOSED_BY_PROTOCOL \<and> s' = s"
    using assms(1,2) by (auto simp: csp_rdp_recv_syn_sent_def get_conn_eq bind_Some_iff simp del: RDP_ACK_def RDP_SYN_def split: if_splits)
  then show ?thesis using rdp_refused.no_answer [OF assms(3) _ assms(4)] by simp
qed

lemma recv_data_open: "csp_rdp_recv_data nexthop n p h s = Some (e, s') \<Longrightarrow> e \<noteq> Discard_Close cb"
  by (auto simp: csp_rdp_recv_data_def bind_Some_iff split: if_splits)

lemma recv_open_close:
  assumes "csp_rdp_recv_open nexthop n p h s = Some (Discard_Close cb, s')" "n < length (arr_conn s)"
    "\<not> has_flag (h_flags h) RDP_RST" "rdp_state (rdp (arr_conn s ! n)) \<in> {RDP_SYN_RCVD, RDP_OPEN}"
  shows "rdp_closes h (rdp (arr_conn s ! n)) cb \<and> same_end (arr_conn s ! n) (arr_conn s' ! n)"
proof (cases "has_flag (h_flags h) RDP_SYN \<or> \<not> has_flag (h_flags h) RDP_ACK")
  case True
  then have "h_seq_nr h \<noteq> rcv_irs (rdp (arr_conn s ! n)) \<and> cb = CSP_RDP_CLOSED_BY_PROTOCOL \<and> s' = s"
    using assms(1,2) by (auto simp: csp_rdp_recv_open_def get_conn_eq split: if_splits)
  then show ?thesis using rdp_refused.misplaced [OF assms(3) True assms(4)] rdp_closes.refused by simp
next
  case False
  then have e: "csp_rdp_recv_established n h s = Some (Some (Discard_Close cb), s')"
    using assms(1,2) by (auto simp: csp_rdp_recv_open_def get_conn_eq bind_Some_iff dest: recv_data_open split: if_splits option.splits)
  have "rdp_state (rdp (arr_conn s ! n)) = RDP_SYN_RCVD \<and> cb = CSP_RDP_CLOSED_BY_PROTOCOL \<and> same_end (arr_conn s ! n) (arr_conn s' ! n)"
    using e assms(2)
    by (auto simp: csp_rdp_recv_established_def get_conn_eq upd_rdp_eq bind_Some_iff put_socket_def Let_def same_end_def
        split: if_splits option.splits)
  then show ?thesis using rdp_closes.half_open [OF assms(3)] False by simp
qed

lemma switch_close:
  assumes "csp_rdp_switch nexthop n p h s = Some (Discard_Close cb, s')" "n < length (arr_conn s)"
  shows "rdp_closes h (rdp (arr_conn s ! n)) cb \<and> same_end (arr_conn s ! n) (arr_conn s' ! n)"
proof (cases "has_flag (h_flags h) RDP_RST")
  case True
  then show ?thesis using recv_rst_close [of n h s cb s'] assms rdp_closes.refused by (simp add: csp_rdp_switch_def)
next
  case False
  show ?thesis
  proof (cases "rdp_state (rdp (arr_conn s ! n))")
    case RDP_CLOSED
    then show ?thesis using recv_closed_close [of n p h s cb s'] assms False rdp_closes.refused by (simp add: csp_rdp_switch_def get_conn_eq)
  next
    case RDP_SYN_SENT
    then show ?thesis using recv_syn_sent_close [of n h s cb s'] assms False rdp_closes.refused by (simp add: csp_rdp_switch_def get_conn_eq)
  next
    case RDP_CLOSE_WAIT
    then show ?thesis using assms False
      by (auto simp: csp_rdp_switch_def csp_rdp_recv_close_wait_def get_conn_eq bind_Some_iff split: if_splits)
  next
    case RDP_SYN_RCVD
    then show ?thesis using recv_open_close [of n p h s cb s'] assms False by (simp add: csp_rdp_switch_def get_conn_eq)
  next
    case RDP_OPEN
    then show ?thesis using recv_open_close [of n p h s cb s'] assms False by (simp add: csp_rdp_switch_def get_conn_eq)
  qed
qed

end

text \<open>The parties in whose name the connection is closed: also the application's, while no socket has handed it out.\<close>

definition closers :: "csp_conn_t \<Rightarrow> u8 \<Rightarrow> u8" where
  "closers c cb = (if dest_socket c = None then cb else cb OR CSP_RDP_CLOSED_BY_USERSPACE)"

lemma enqueue_quiet:
  assumes "csp_conn_enqueue_packet (Some n) e s = Some (r, s')"
  shows "quiet s s'"
proof -
  from assms obtain q where q: "n < length (arr_conn s)" "conn_frame s' = conn_frame (put_conn n ((arr_conn s ! n)\<lparr>rx_queue := q\<rparr>) s)"
    by (auto simp: csp_conn_enqueue_packet_def bind_Some_iff Let_def get_conn_def split: if_splits)
  have "quiet s (put_conn n ((arr_conn s ! n)\<lparr>rx_queue := q\<rparr>) s)" by (rule quiet_put [OF _ q(1)]) (simp add: conn_core_def)
  then show ?thesis using q(2) by (auto intro: quiet_trans quiet_conn_frame)
qed

context nexthop_frame
begin

lemma switch_refused:
  assumes "csp_rdp_switch nexthop n p h s = Some (e, s')" "n < length (arr_conn s)" "rdp_refused h (rdp (arr_conn s ! n)) cb"
  shows "e = Discard_Close cb"
  using assms(3)
proof cases
  case reset
  then show ?thesis using assms(1,2)
    by (auto simp: csp_rdp_switch_def csp_rdp_recv_rst_def get_conn_eq upd_rdp_eq upd_conn_eq bind_Some_iff split: if_splits)
next
  case reset_again
  then show ?thesis using assms(1,2)
    by (auto simp: csp_rdp_switch_def csp_rdp_recv_rst_def get_conn_eq upd_rdp_eq bind_Some_iff split: if_splits)
next
  case no_syn
  then show ?thesis using assms(1,2) by (auto simp: csp_rdp_switch_def csp_rdp_recv_closed_def get_conn_eq bind_Some_iff)
next
  case no_answer
  then show ?thesis using assms(1,2) by (auto simp: csp_rdp_switch_def csp_rdp_recv_syn_sent_def get_conn_eq)
next
  case misplaced
  then show ?thesis using assms(1,2) by (auto simp: csp_rdp_switch_def csp_rdp_recv_open_def get_conn_eq)
qed

lemma leave_state:
  assumes "csp_rdp_leave nexthop n p e s = Some (b, s')"
  shows "state_at n s' = (case e of Discard_Close cb \<Rightarrow> closed_state (arr_conn s ! n) (closers (arr_conn s ! n) cb) | _ \<Rightarrow> state_at n s)"
proof (cases e)
  case (Discard_Close cb)
  let ?cb = "closers (arr_conn s ! n) cb"
  have n: "n < length (arr_conn s)" using assms Discard_Close by (auto simp: csp_rdp_leave_def bind_Some_iff get_conn_def split: if_splits)
  obtain r s1 s2 s3 where s1: "csp_conn_close nexthop (Some n) ?cb s = Some (r, s1)"
    "(if dest_socket (arr_conn s ! n) = None then \<exists>r. csp_conn_enqueue_packet (Some n) None s1 = Some (r, s2) else s2 = s1)"
    "csp_buffer_free (Some p) s2 = Some (s3, s')"
    using assms n Discard_Close by (fastforce simp: csp_rdp_leave_def get_conn_eq bind_Some_iff closers_def split: if_splits)
  have "quiet s1 s2" using s1(2) enqueue_quiet by (auto split: if_splits)
  moreover have "quiet s2 s'" using s1(3) by (auto dest: buffer_conn_frame intro: quiet_conn_frame)
  ultimately have "quiet s1 s'" by (rule quiet_trans)
  then show ?thesis using conn_close_state [OF s1(1) n] quiet_state [of s1 s' n] Discard_Close by simp
next
  case (Discard_Open c)
  then show ?thesis using assms by (auto simp: csp_rdp_leave_def bind_Some_iff state_at_def conn_frame_def dest!: buffer_conn_frame)
qed (use assms in \<open>simp add: csp_rdp_leave_def\<close>)

end

section \<open>The state machine\<close>

text \<open>The numbers of a header in the order of bytes of the machine.\<close>

definition rdp_host_header :: "rdp_header_t \<Rightarrow> rdp_header_t" where
  "rdp_host_header h = h\<lparr>h_ack_nr := be16toh (h_ack_nr h), h_seq_nr := be16toh (h_seq_nr h)\<rparr>"

text \<open>What a received packet may do to the state of a connection: a step of \<open>rdp_step\<close>, or the end of the connection.\<close>

inductive rdp_receive :: "rdp_header_t \<Rightarrow> csp_conn_t \<Rightarrow> csp_rdp_state_t \<Rightarrow> bool" for h c where
  moved: "rdp_step h (rdp c) st \<Longrightarrow> rdp_receive h c st"
| closing: "rdp_closes h (rdp c) cb \<Longrightarrow> rdp_state (rdp c) \<noteq> RDP_CLOSED \<Longrightarrow> closed_by (rdp c) OR closers c cb \<noteq> CSP_RDP_CLOSED_BY_ALL \<Longrightarrow>
    rdp_receive h c RDP_CLOSE_WAIT"
| closed: "rdp_closes h (rdp c) cb \<Longrightarrow> closed_by (rdp c) OR closers c cb = CSP_RDP_CLOSED_BY_ALL \<Longrightarrow> rdp_receive h c RDP_CLOSED"

inductive_simps rdp_receive_open: "rdp_receive h c RDP_OPEN"

context nexthop_frame
begin

lemma new_packet_parts:
  assumes "csp_rdp_new_packet nexthop n p s = Some (b, s')" "n < length (arr_conn s)" "get_packet p s = Some x"
    "header_get (csp_rdp_header_ref x) x = Some h"
  obtains y e s1 where "header_put (csp_rdp_header_ref x) (rdp_host_header h) x = Some y"
    "csp_rdp_switch nexthop n p (rdp_host_header h) (put_packet p y s) = Some (e, s1)" "csp_rdp_leave nexthop n p e s1 = Some (b, s')"
  using assms that by (auto simp: csp_rdp_new_packet_def bind_Some_iff Let_def rdp_host_header_def)

lemma new_packet_receive:
  fixes h defines "g \<equiv> rdp_host_header h"
  assumes "csp_rdp_new_packet nexthop n p s = Some (b, s')" "n < length (arr_conn s)" "get_packet p s = Some x"
    "header_get (csp_rdp_header_ref x) x = Some h" "c = arr_conn s ! n"
  shows "rdp_receive g c (state_at n s')"
    "rdp_refused g (rdp c) cb \<Longrightarrow> rdp_state (rdp c) \<noteq> RDP_CLOSED \<Longrightarrow> c_state c = CONN_OPEN \<Longrightarrow> has_flag (flags (idin c)) CSP_FRDP \<Longrightarrow>
      state_at n s' = (if closed_by (rdp c) OR closers c cb = CSP_RDP_CLOSED_BY_ALL then RDP_CLOSED else RDP_CLOSE_WAIT)"
proof -
  from new_packet_parts [OF assms(2-5)] obtain y e s1 where sw: "csp_rdp_switch nexthop n p g (put_packet p y s) = Some (e, s1)"
    and l: "csp_rdp_leave nexthop n p e s1 = Some (b, s')" unfolding g_def .
  have n: "n < length (arr_conn (put_packet p y s))" "arr_conn (put_packet p y s) ! n = c" using assms(3,6) by simp_all
  have step: "rdp_step g (rdp c) (state_at n s1)" using switch_step [OF sw n(1)] n(2) by simp
  note lv = leave_state [OF l]
  have cl: "rdp_closes g (rdp c) k \<and> same_end c (arr_conn s1 ! n) \<and>
      state_at n s' = (if c_state c = CONN_CLOSED \<or> \<not> (has_flag (flags (idin c)) CSP_FRDP \<or> has_flag (flags (idout c)) CSP_FRDP) then state_at n s1
        else if state_at n s1 = RDP_CLOSED \<or> closed_by (rdp c) OR closers c k = CSP_RDP_CLOSED_BY_ALL then RDP_CLOSED else RDP_CLOSE_WAIT)"
    if "e = Discard_Close k" for k
    using switch_close [OF sw [unfolded that] n(1)] lv that n(2)
    by (simp add: closed_state_def same_end_def closers_def state_at_def del: CSP_FRDP_def CSP_RDP_CLOSED_BY_ALL_def CSP_RDP_CLOSED_BY_USERSPACE_def)
  have ended: "rdp_state (rdp c) = RDP_CLOSED" if "state_at n s1 = RDP_CLOSED"
    using step unfolding that by (auto elim: rdp_step.cases)
  have live: "state_at n s1 = RDP_CLOSED" if "rdp_state (rdp c) = RDP_CLOSED" "e = Discard_Close k" for k
    using step that(1) cl [OF that(2)] by (auto elim!: rdp_step.cases rdp_closes.cases rdp_refused.cases)
  show "rdp_receive g c (state_at n s')"
  proof (cases e)
    case (Discard_Close k)
    note r = cl [OF this]
    show ?thesis
    proof (cases "c_state c = CONN_CLOSED \<or> \<not> (has_flag (flags (idin c)) CSP_FRDP \<or> has_flag (flags (idout c)) CSP_FRDP) \<or> state_at n s1 = RDP_CLOSED")
      case True
      then have "state_at n s' = state_at n s1" using r by (auto split: if_splits)
      then show ?thesis using rdp_receive.moved [OF step] by simp
    next
      case False
      then show ?thesis
        using r rdp_receive.closing [of g c k] rdp_receive.closed [of g c k] live [OF _ Discard_Close] by (auto split: if_splits)
    qed
  qed (use lv rdp_receive.moved [OF step] in simp_all)
  show "state_at n s' = (if closed_by (rdp c) OR closers c cb = CSP_RDP_CLOSED_BY_ALL then RDP_CLOSED else RDP_CLOSE_WAIT)"
    if "rdp_refused g (rdp c) cb" "rdp_state (rdp c) \<noteq> RDP_CLOSED" "c_state c = CONN_OPEN" "has_flag (flags (idin c)) CSP_FRDP"
  proof -
    have "e = Discard_Close cb" using switch_refused [OF sw n(1)] that(1) n(2) by simp
    then show ?thesis using cl [of cb] ended that(2-4) by (auto split: if_splits)
  qed
qed

end

text \<open>C4: The state machine of RDP: whatever packet is received on a connection in whatever state, after \<^verbatim>\<open>csp_rdp_new_packet\<close> the state of the
  connection is the one before, or it has changed by a reset in sequence, by a SYN to a closed connection, by the answer to an own
  SYN, by the acknowledgement of the own initial number, or because the packet ended the connection (\<open>rdp_closes\<close>), which is closed when all three parties have closed
  it and waits otherwise. So a connection becomes open only by a completed handshake; and on an open RDP connection that is not closed, a packet that is refused
  (\<open>rdp_refused\<close>: a reset in sequence, an answer without acknowledgement, flags or numbers out of place) always ends it.\<close>

theorem csp_rdp_new_packet_receive:
  fixes h defines "g \<equiv> rdp_host_header h"
  assumes "nexthop_frame nh" "csp_rdp_new_packet nh n p s = Some (b, s')" "n < length (arr_conn s)" "get_packet p s = Some x"
    "header_get (csp_rdp_header_ref x) x = Some h" "c = arr_conn s ! n"
  shows "rdp_receive g c (state_at n s') \<and>
    (rdp_state (rdp c) \<noteq> RDP_OPEN \<and> state_at n s' = RDP_OPEN \<longrightarrow> has_flag (h_flags g) RDP_ACK \<and>
       (rdp_state (rdp c) = RDP_SYN_SENT \<and> has_flag (h_flags g) RDP_SYN \<or> rdp_state (rdp c) = RDP_SYN_RCVD \<and> h_ack_nr g = snd_iss (rdp c))) \<and>
    (\<forall>cb. rdp_refused g (rdp c) cb \<and> rdp_state (rdp c) \<noteq> RDP_CLOSED \<and> c_state c = CONN_OPEN \<and> has_flag (flags (idin c)) CSP_FRDP \<longrightarrow>
       state_at n s' = (if closed_by (rdp c) OR closers c cb = CSP_RDP_CLOSED_BY_ALL then RDP_CLOSED else RDP_CLOSE_WAIT))"
proof -
  note r = nexthop_frame.new_packet_receive [OF assms(2-7)]
  have "rdp_receive g c RDP_OPEN \<Longrightarrow> rdp_state (rdp c) \<noteq> RDP_OPEN \<Longrightarrow> has_flag (h_flags g) RDP_ACK \<and>
       (rdp_state (rdp c) = RDP_SYN_SENT \<and> has_flag (h_flags g) RDP_SYN \<or> rdp_state (rdp c) = RDP_SYN_RCVD \<and> h_ack_nr g = snd_iss (rdp c))"
    using rdp_step_open [of g "rdp c"] by (auto simp: rdp_receive_open)
  then show ?thesis using r unfolding g_def by metis
qed

text \<open>The acknowledgement of the initial number 7 of a half-open connection.\<close>

definition ack_packet :: csp_packet_t where
  "ack_packet = zero_packet\<lparr>plen := 5, bytes := replicate 8 0 @ [4, 0, 1, 0, 7] @ replicate 251 0\<rparr>"

definition ack_node :: node where
  "ack_node = put_packet 0 ack_packet half_open_node"

lemma ack_node_facts:
  "2 < length (arr_conn ack_node)" "arr_conn ack_node ! 2 = arr_conn half_open_node ! 2" "get_packet 0 ack_node = Some ack_packet"
  "header_get (csp_rdp_header_ref ack_packet) ack_packet = Some \<lparr>h_flags = 4, h_seq_nr = 0x100, h_ack_nr = 0x700\<rparr>"
  "rdp_host_header \<lparr>h_flags = 4, h_seq_nr = 0x100, h_ack_nr = 0x700\<rparr> = \<lparr>h_flags = 4, h_seq_nr = 1, h_ack_nr = 7\<rparr>"
  "\<exists>b s'. csp_rdp_new_packet csp_lo_tx 2 0 ack_node = Some (b, s') \<and> state_at 2 s' = RDP_OPEN"
proof -
  note f = half_open_rdp
  let ?g = "\<lparr>h_flags = 4, h_seq_nr = 1, h_ack_nr = 7\<rparr> :: rdp_header_t" and ?r = "zero_rdp\<lparr>rdp_state := RDP_SYN_RCVD, snd_iss := 7, snd_nxt := 8, snd_una := 7, window_size := 4\<rparr>"
  show n: "2 < length (arr_conn ack_node)" "arr_conn ack_node ! 2 = arr_conn half_open_node ! 2" using f(1) by (simp_all add: ack_node_def)
  have pool: "0 < length (csp_buffer_pool half_open_node)" using f(4) by (auto simp: get_packet_def split: if_splits)
  show x: "get_packet 0 ack_node = Some ack_packet" using get_put_packet [OF pool] by (simp add: ack_node_def)
  have b: "length (bytes ack_packet) = PACKET_BYTES" "csp_rdp_header_ref ack_packet = 8" by (simp_all add: ack_packet_def csp_rdp_header_ref_def)
  show h: "header_get (csp_rdp_header_ref ack_packet) ack_packet = Some \<lparr>h_flags = 4, h_seq_nr = 0x100, h_ack_nr = 0x700\<rparr>"
  proof -
    have "mem_read 8 5 (bytes ack_packet) = Some [4, 0, 1, 0, 7]" by (simp add: mem_read_def ack_packet_def)
    then show ?thesis by (simp add: b header_get_def)
  qed
  show g: "rdp_host_header \<lparr>h_flags = 4, h_seq_nr = 0x100, h_ack_nr = 0x700\<rparr> = ?g"
    by (simp add: rdp_host_header_def be16toh_def bswap_def word_to_le_def upt_rec)
  let ?y = "ack_packet\<lparr>bytes := mem_put 8 (header_bytes ?g) (bytes ack_packet)\<rparr>"
  let ?s = "put_packet 0 ?y ack_node"
  have y: "header_put (csp_rdp_header_ref ack_packet) ?g ack_packet = Some ?y"
    using header_get_put(1) [of 8 ack_packet ?g] b by simp
  have c: "accounts (mset_set {..<CSP_BUFFER_COUNT}) half_open_node"
    unfolding half_open_node_def by (rule accounts_conn_same [OF ready_node_accounts]) (simp_all add: ready_node_def)
  have l: "length (bytes ?y) = PACKET_BYTES" using b(1) by simp
  have a: "accounts (add_mset 0 (mset_set ({..<15} - {0}))) ?s"
    using accounts_put [OF accounts_put [OF c b(1), of 0] l, of 0] mset_set.remove [of "{..<15 :: nat}" 0] by (simp add: ack_node_def)
  have p: "get_packet 0 ?s = Some ?y" using x get_put_packet [of 0 ack_node 0 ?y] pool by (simp add: ack_node_def)
  let ?c = "(arr_conn half_open_node ! 2)\<lparr>rdp := ?r\<lparr>rdp_state := RDP_OPEN, snd_una := 8\<rparr>\<rparr>"
  have sw: "csp_rdp_switch csp_lo_tx 2 0 ?g ?s = Some (Discard_Open False, put_conn 2 ?c ?s)"
    using n f(2,3) p
    by (simp add: csp_rdp_switch_def csp_rdp_recv_open_def csp_rdp_recv_established_def csp_rdp_recv_data_def get_conn_eq upd_rdp_eq
        csp_rdp_seq_between_def ack_valid_def has_flag_def zero_rdp_def) (simp add: ack_packet_def)
  have "accounts (add_mset 0 (mset_set ({..<15} - {0}))) (put_conn 2 ?c ?s)" by (rule accounts_conn_same [OF a]) (use n in simp_all)
  from accounts_free(1) [OF this] obtain s' where "csp_rdp_leave csp_lo_tx 2 0 (Discard_Open False) (put_conn 2 ?c ?s) = Some (False, s')"
    by (simp add: csp_rdp_leave_def)
  moreover from lo.leave_state [OF this] have "state_at 2 s' = RDP_OPEN" using n by (simp add: state_at_def)
  moreover have "csp_rdp_new_packet csp_lo_tx 2 0 ack_node = csp_rdp_leave csp_lo_tx 2 0 (Discard_Open False) (put_conn 2 ?c ?s)"
    using x h y sw g by (simp add: csp_rdp_new_packet_def rdp_host_header_def)
  ultimately show "\<exists>b s'. csp_rdp_new_packet csp_lo_tx 2 0 ack_node = Some (b, s') \<and> state_at 2 s' = RDP_OPEN" by auto
qed

theorem csp_rdp_new_packet_receive_witness:
  "\<exists>b s'. csp_rdp_new_packet csp_lo_tx 2 0 ack_node = Some (b, s') \<and> state_at 2 s' = RDP_OPEN \<and>
     rdp_receive \<lparr>h_flags = 4, h_seq_nr = 1, h_ack_nr = 7\<rparr> (arr_conn half_open_node ! 2) RDP_OPEN \<and>
     snd_iss (rdp (arr_conn half_open_node ! 2)) = 7"
proof -
  note f = ack_node_facts
  obtain b s' where s': "csp_rdp_new_packet csp_lo_tx 2 0 ack_node = Some (b, s')" "state_at 2 s' = RDP_OPEN" using f(6) by blast
  have "rdp_state (rdp (arr_conn half_open_node ! 2)) = RDP_SYN_RCVD" by (simp add: half_open_rdp(2))
  with csp_rdp_new_packet_receive [OF lo.nexthop_frame_axioms s'(1) f(1,3,4) f(2) [symmetric]] show ?thesis
    using s' by (auto simp: f(5))
qed

section \<open>The options of a SYN\<close>

lemma header_get_bytes:
  assumes "mem_read off RDP_HEADER_SIZE (bytes p) = Some (header_bytes h)"
  shows "header_get off p = Some h"
proof -
  have "[header_bytes h ! 1, header_bytes h ! 2] = word_to_le 2 (h_seq_nr h)"
    "[header_bytes h ! 3, header_bytes h ! 4] = word_to_le 2 (h_ack_nr h)" "header_bytes h ! 0 = h_flags h"
    by (simp_all add: header_bytes_def word_to_le_def upt_rec eval_nat_numeral)
  then show ?thesis using assms by (simp del: le_to_word.simps add: header_get_def)
qed

text \<open>What the packet of a SYN holds: the options of the node and the initial number of the connection.\<close>

definition syn_header :: "u8 \<Rightarrow> u16 \<Rightarrow> rdp_header_t" where
  "syn_header k iss = \<lparr>h_flags = push_bit 4 k OR RDP_SYN, h_seq_nr = htobe16 iss, h_ack_nr = htobe16 0\<rparr>"

lemma syn_header_flags: "has_flag (push_bit 4 k OR RDP_SYN) RDP_SYN" "\<not> has_flag (push_bit 4 k OR RDP_SYN) RDP_RST"
proof -
  have "bit ((push_bit 4 k OR RDP_SYN) AND RDP_SYN) 3" by (simp add: bit_simps)
  then show "has_flag (push_bit 4 k OR RDP_SYN) RDP_SYN" unfolding has_flag_def by (metis bit_0_eq bot_apply bot_bool_def)
  have "(push_bit 4 k OR RDP_SYN) AND RDP_RST = 0" by (rule bit_word_eqI) (auto simp: bit_simps)
  then show "\<not> has_flag (push_bit 4 k OR RDP_SYN) RDP_RST" by (simp add: has_flag_def)
qed

text \<open>With two free buffers, one for the packet and one for the copy that is kept, sending a SYN is sending this packet.\<close>

lemma send_syn_eq:
  assumes "accounts H a" "n < length (arr_conn a)" "free_list a = p # r # fs"
  shows "\<exists>a1 x k. csp_rdp_send_syn nh n a = do {
      (_, s) \<leftarrow> csp_send_direct nh ((idout (arr_conn a ! n))\<lparr>pri := (if pri (idout (arr_conn a ! n)) < CSP_PRIO_HIGH then pri (idout (arr_conn a ! n)) else CSP_PRIO_HIGH)\<rparr>) p None a1;
      Some (CSP_ERR_NONE, s) } \<and>
    accounts (add_mset p H) a1 \<and> env a1 = env a \<and> get_packet p a1 = Some x \<and> packet_wf x \<and>
    pdata x = syn_options a @ header_bytes (syn_header k (snd_iss (rdp (arr_conn a ! n))))"
proof -
  let ?c = "arr_conn a ! n"
  have pool: "pool_inv a" using assms(1) by (simp add: accounts_def)
  define s1 where "s1 = take_buffer p a"
  have get: "csp_buffer_get 100 a = Some (Some p, s1)" using csp_buffer_get_eq [OF pool, of 100] assms(3) by (simp add: s1_def)
  have a1: "accounts (add_mset p H) s1" using accounts_take [OF assms(1,3)] by (simp add: s1_def)
  have f1: "free_list s1 = r # fs" using take_buffer_inv(2) [OF pool assms(3)] by (simp add: s1_def)
  have sf1: "send_frame s1 = send_frame a" by (simp add: s1_def)
  then have c1: "arr_conn s1 = arr_conn a" "syn_options s1 = syn_options a" by (simp_all add: send_frame_def syn_options_def)
  have e1: "env s1 = env a" by (simp add: s1_def)
  obtain x0 where x0: "get_packet p s1 = Some x0" "length (bytes x0) = PACKET_BYTES" using accounts_packet [OF a1] by blast
  let ?x1 = "x0\<lparr>bytes := mem_put DATA_OFFSET (syn_options a) (bytes x0)\<rparr>" and ?x2 = "x0\<lparr>bytes := mem_put DATA_OFFSET (syn_options a) (bytes x0), plen := 24\<rparr>"
  have l: "DATA_OFFSET + length (syn_options a) \<le> length (bytes x0)" using x0(2) by simp
  have w: "data_write 0 (syn_options s1) x0 = Some ?x1" using mem_write_put [OF l] c1(2) by (simp add: data_write_def)
  have wf2: "packet_wf ?x2" using x0(2) l by (simp add: packet_wf_def)
  have d2: "pdata ?x2 = syn_options a" using take_drop_put_same [OF l] by (simp add: pdata_def)
  define s2 where "s2 = put_packet p ?x2 s1"
  have p1: "p < length (csp_buffer_pool s1)" using x0(1) by (auto simp: get_packet_def split: if_splits)
  have f2: "free_list s2 = r # fs" "arr_conn s2 = arr_conn a" "env s2 = env a"
    using f1 c1 e1 by (simp_all add: s2_def free_list_def) (simp_all add: put_packet_def)
  have a2: "accounts (add_mset p H) s2" "get_packet p s2 = Some ?x2"
    using accounts_put [OF a1, of ?x2 p] wf2 get_put_packet [OF p1] by (simp_all add: s2_def packet_wf_def)
  have u: "unat (plen ?x2) = 24" by simp
  obtain y where y: "csp_rdp_header_add ?x2 = Some (Some (DATA_OFFSET + 24), y)" "packet_wf y" "unat (plen y) = 29"
    "\<And>h. take 24 (List.drop DATA_OFFSET (mem_put (DATA_OFFSET + 24) (header_bytes h) (bytes y))) = pdata ?x2"
    using header_add_room [OF wf2] unfolding u by auto
  define h where "h = syn_header (csp_rdp_incr s2) (snd_iss (rdp ?c))"
  define z where "z = y\<lparr>bytes := mem_put (DATA_OFFSET + 24) (header_bytes h) (bytes y)\<rparr>"
  have lz: "DATA_OFFSET + 24 + RDP_HEADER_SIZE \<le> length (bytes y)" using y(2) by (simp add: packet_wf_def)
  have z: "header_put (DATA_OFFSET + 24) h y = Some z" using header_get_put(1) [OF lz] by (simp add: z_def)
  have wz: "packet_wf z" using y(2) lz by (simp add: z_def packet_wf_def)
  have "take 5 (List.drop (DATA_OFFSET + 24) (bytes z)) = header_bytes h"
    using take_drop_put_same [of "DATA_OFFSET + 24" "header_bytes h" "bytes y"] lz by (simp add: z_def)
  then have dz: "pdata z = syn_options a @ header_bytes h"
    using y(3) y(4) [of h] d2 take_add [of 24 5 "List.drop DATA_OFFSET (bytes z)"] by (simp add: pdata_def z_def ac_simps)
  define s3 where "s3 = (put_packet p z s2)\<lparr>csp_rdp_incr := csp_rdp_incr s2 + 1\<rparr>"
  have p2: "p < length (csp_buffer_pool s2)" using a2(2) by (auto simp: get_packet_def split: if_splits)
  have f3: "free_list s3 = r # fs" "arr_conn s3 = arr_conn a" "env s3 = env a"
    using f2 by (simp_all add: s3_def free_list_def) (simp_all add: put_packet_def)
  have a3: "accounts (add_mset p H) s3" "get_packet p s3 = Some z"
    using accounts_put [OF a2(1), of z p] wz get_put_packet [OF p2] by (simp_all add: s3_def packet_wf_def)
  have pl: "pool_inv s3" "unat (plen z) \<le> CSP_BUFFER_SIZE" "p \<noteq> r" using accounts_held [OF a3(1)] f3(1) wz by (auto simp: allocated_def packet_wf_def)
  define s4 where "s4 = put_packet r z (take_buffer r s3)"
  have cl: "csp_buffer_clone (Some p) s3 = Some (Some r, s4)" "get_packet r s4 = Some z" "get_packet p s4 = Some z"
    using csp_buffer_clone_eq [OF pl(1) a3(2) pl(2) f3(1)] pl(3) a3(2) by (auto simp: s4_def)
  have a4: "accounts (add_mset r (add_mset p H)) s4" "arr_conn s4 = arr_conn a" "env s4 = env a"
    using accounts_put [OF accounts_take [OF a3(1) f3(1)], of z r] wz f3(2,3) by (simp_all add: s4_def packet_wf_def take_buffer_def)
  define s5 where "s5 = put_packet r (z\<lparr>timestamp_tx := now s4\<rparr>) s4"
  have r4: "r < length (csp_buffer_pool s4)" using cl(2) by (auto simp: get_packet_def split: if_splits)
  have a5: "accounts (add_mset r (add_mset p H)) s5" "get_packet r s5 = Some (z\<lparr>timestamp_tx := now s4\<rparr>)" "get_packet p s5 = Some z"
    using accounts_put [OF a4(1), of "z\<lparr>timestamp_tx := now s4\<rparr>" r] wz get_put_packet [OF r4] cl(3) pl(3) by (simp_all add: s5_def packet_wf_def)
  obtain s6 where s6: "csp_rdp_queue_tx_add n r s5 = Some ((), s6)" "accounts (add_mset p H) s6" "rdp_frame s6 = rdp_frame s5" "keeps (add_mset p H) s5 s6"
    using tx.accounts_add [OF a5(1,2), of n] by blast
  have a6: "arr_conn s6 = arr_conn a" "env s6 = env a" "get_packet p s6 = Some z"
    using s6(3,4) a4(2,3) a5(3) by (simp_all add: rdp_frame_def s5_def keeps_def)
  have f: "\<not> has_flag RDP_SYN RDP_ACK" "has_flag RDP_SYN RDP_SYN" by (simp_all add: has_flag_def)
  have "csp_rdp_send_syn nh n a = csp_rdp_send_cmp nh n (Some p) RDP_SYN (snd_iss (rdp ?c)) 0 s2"
    using get x0(1) w assms(2) f2(2) by (simp add: csp_rdp_send_syn_def Let_def s2_def [symmetric] get_conn_eq del: RDP_SYN_def DATA_OFFSET_def)
  also have "\<dots> = do {
      (_, s) \<leftarrow> csp_send_direct nh ((idout ?c)\<lparr>pri := (if pri (idout ?c) < CSP_PRIO_HIGH then pri (idout ?c) else CSP_PRIO_HIGH)\<rparr>) p None s6;
      Some (CSP_ERR_NONE, s) }"
    using a2(2) y(1) z cl(1,2) s6(1) a6(1) assms(2) f
    by (simp add: csp_rdp_send_cmp_def csp_rdp_cmp_packet_def h_def syn_header_def s3_def [symmetric] s5_def [symmetric] get_conn_eq Let_def
        del: RDP_SYN_def RDP_ACK_def CSP_PRIO_HIGH_def)
  finally show ?thesis using s6(2) a6(2,3) wz dz unfolding h_def by blast
qed

text \<open>What the state machine stores of a SYN to a closed connection whose first bytes are the options of a node.\<close>

context nexthop_frame
begin

lemma syn_stored:
  assumes "n < length (arr_conn s)" "state_at n s = RDP_CLOSED" "has_flag (h_flags h) RDP_SYN" "\<not> has_flag (h_flags h) RDP_RST"
    "get_packet p s = Some x" "data_read 0 24 x = Some (syn_options a)" "csp_rdp_switch nexthop n p h s = Some (e, s')"
  shows "e = Discard_Open False \<and> state_at n s' = RDP_SYN_RCVD \<and> rdp_opts (rdp (arr_conn s' ! n)) = csp_rdp_get_opt a \<and>
    rcv_irs (rdp (arr_conn s' ! n)) = h_seq_nr h \<and> snd_nxt (rdp (arr_conn s' ! n)) = snd_iss (rdp (arr_conn s' ! n)) + 1"
proof -
  define iss :: u16 where "iss = ucast (rand_r s (now s))"
  let ?f = "\<lambda>r. r\<lparr>snd_iss := iss, snd_nxt := iss + 1, snd_una := iss,
               rcv_cur := h_seq_nr h, rcv_irs := h_seq_nr h, rcv_lsa := h_seq_nr h,
               window_size := csp_rdp_window_size a, conn_timeout := csp_rdp_conn_timeout a,
               packet_timeout := csp_rdp_packet_timeout a, delayed_acks := csp_rdp_delayed_acks a,
               ack_timeout := csp_rdp_ack_timeout a, ack_delay_count := csp_rdp_ack_delay_count a, rdp_state := RDP_SYN_RCVD\<rparr>"
  let ?s1 = "put_conn n ((arr_conn s ! n)\<lparr>rdp := ?f (rdp (arr_conn s ! n))\<rparr>) s"
  from assms obtain r fl sq ak where r: "csp_rdp_send_cmp nexthop n None fl sq ak ?s1 = Some (r, s')" "e = Discard_Open False"
    by (auto simp: csp_rdp_switch_def csp_rdp_recv_closed_def get_conn_eq state_at_def syn_option_read [OF assms(6)]
        syn_option_read(2) [OF assms(6), unfolded One_nat_def] upd_rdp_eq
        bind_Some_iff Let_def iss_def simp del: RDP_ACK_def RDP_SYN_def RDP_RST_def)
  have n: "n < length (arr_conn ?s1)" using assms(1) by simp
  note q = quiet_core [OF send_cmp_quiet [OF r(1)] n]
  show ?thesis using conn_core_fields(1,9,11,12) [OF q] conn_core_opts [OF q] assms(1) r(2)
    by (simp add: state_at_def rdp_opts_def csp_rdp_get_opt_def)
qed

end

lemma syn_received_bytes:
  assumes "packet_wf y" "pdata y = syn_options a @ header_bytes h"
  shows "header_get (csp_rdp_header_ref y) y = Some h"
    "header_put (csp_rdp_header_ref y) g y = Some z \<Longrightarrow> packet_wf z \<and> data_read 0 24 z = Some (syn_options a)"
proof -
  have l: "unat (plen y) = 29"
    using assms(1) arg_cong [OF assms(2), of length] by (simp add: pdata_def packet_wf_def)
  have o: "csp_rdp_header_ref y = DATA_OFFSET + 24" by (simp add: csp_rdp_header_ref_def l)
  have d: "take 24 (List.drop DATA_OFFSET (bytes y)) @ take 5 (List.drop (DATA_OFFSET + 24) (bytes y)) = syn_options a @ header_bytes h"
    using assms(2) l take_add [of 24 5 "List.drop DATA_OFFSET (bytes y)"] by (simp add: pdata_def)
  then have d1: "take 24 (List.drop DATA_OFFSET (bytes y)) = syn_options a" "take 5 (List.drop (DATA_OFFSET + 24) (bytes y)) = header_bytes h"
    using assms(1) by (auto simp: append_eq_append_conv packet_wf_def)
  have room: "DATA_OFFSET + 24 + 5 \<le> length (bytes y)" using assms(1) by (simp add: packet_wf_def)
  show "header_get (csp_rdp_header_ref y) y = Some h"
    unfolding o by (rule header_get_bytes) (use d1(2) room in \<open>simp add: mem_read_def\<close>)
  assume "header_put (csp_rdp_header_ref y) g y = Some z"
  then have z: "z = y\<lparr>bytes := mem_put (DATA_OFFSET + 24) (header_bytes g) (bytes y)\<rparr>"
    using header_get_put(1) [of "DATA_OFFSET + 24" y g] room unfolding o by simp
  have "take 24 (List.drop DATA_OFFSET (mem_put (DATA_OFFSET + 24) (header_bytes g) (bytes y))) = syn_options a"
    using d1(1) room by (simp add: mem_put_def drop_take)
  then show "packet_wf z \<and> data_read 0 24 z = Some (syn_options a)"
    using assms(1) room by (simp add: z packet_wf_def data_read_def mem_read_def)
qed

context nexthop_frame
begin

lemma syn_received:
  assumes "packet_wf y" "pdata y = syn_options a @ header_bytes (syn_header k iss)" "get_packet q s = Some y"
    "m < length (arr_conn s)" "state_at m s = RDP_CLOSED" "csp_rdp_new_packet nexthop m q s = Some (b, s')"
  shows "\<not> b \<and> state_at m s' = RDP_SYN_RCVD \<and> rdp_opts (rdp (arr_conn s' ! m)) = csp_rdp_get_opt a \<and>
    rcv_irs (rdp (arr_conn s' ! m)) = iss \<and> snd_nxt (rdp (arr_conn s' ! m)) = snd_iss (rdp (arr_conn s' ! m)) + 1"
proof -
  note r = syn_received_bytes [OF assms(1,2)]
  let ?g = "rdp_host_header (syn_header k iss)"
  from new_packet_parts [OF assms(6,4,3) r(1)] obtain z e s1 where z: "header_put (csp_rdp_header_ref y) ?g y = Some z"
    and sw: "csp_rdp_switch nexthop m q ?g (put_packet q z s) = Some (e, s1)" and l: "csp_rdp_leave nexthop m q e s1 = Some (b, s')" .
  have q: "q < length (csp_buffer_pool s)" using assms(3) by (auto simp: get_packet_def split: if_splits)
  have g: "has_flag (h_flags ?g) RDP_SYN" "\<not> has_flag (h_flags ?g) RDP_RST" "h_seq_nr ?g = iss"
    using syn_header_flags [of k] by (simp_all add: rdp_host_header_def syn_header_def del: RDP_SYN_def RDP_RST_def)
  have st: "m < length (arr_conn (put_packet q z s))" "state_at m (put_packet q z s) = RDP_CLOSED" "get_packet q (put_packet q z s) = Some z"
    using assms(4,5) get_put_packet [OF q] by (simp_all add: state_at_def)
  from syn_stored [OF st(1,2) g(1,2) st(3) conjunct2 [OF r(2) [OF z]] sw] g(3)
  have e: "e = Discard_Open False" "state_at m s1 = RDP_SYN_RCVD" "rdp_opts (rdp (arr_conn s1 ! m)) = csp_rdp_get_opt a"
    "rcv_irs (rdp (arr_conn s1 ! m)) = iss" "snd_nxt (rdp (arr_conn s1 ! m)) = snd_iss (rdp (arr_conn s1 ! m)) + 1" by auto
  from l e(1) obtain u where f: "csp_buffer_free (Some q) s1 = Some (u, s')" "\<not> b" by (auto simp: csp_rdp_leave_def bind_Some_iff)
  have "arr_conn s' = arr_conn s1" using buffer_free_frame [OF f(1)] by (simp add: send_frame_def)
  with e f(2) show ?thesis by (simp add: state_at_def)
qed

end

text \<open>C20: What both ends of an RDP connection use: if two buffers are free, \<^verbatim>\<open>csp_rdp_send_syn\<close> is the sending, with the priority that RDP uses, of one packet, and
  every node that receives the bytes of this packet on a closed connection (and whose handling of it returns) stores exactly the window, time-outs and
  acknowledgement settings of the sender, keeps the initial number of the sender as the last one received, and waits for the acknowledgement of its own.\<close>

theorem csp_rdp_syn_agreed:
  assumes "accounts H a" "n < length (arr_conn a)" "2 \<le> length (free_list a)"
  shows "\<exists>p x a1. csp_rdp_send_syn nh n a = do {
      (_, s) \<leftarrow> csp_send_direct nh ((idout (arr_conn a ! n))\<lparr>pri := min (pri (idout (arr_conn a ! n))) CSP_PRIO_HIGH\<rparr>) p None a1;
      Some (CSP_ERR_NONE, s) } \<and>
    accounts (add_mset p H) a1 \<and> get_packet p a1 = Some x \<and> packet_wf x \<and>
    (\<exists>k. pdata x = syn_options a @ header_bytes (syn_header k (snd_iss (rdp (arr_conn a ! n))))) \<and>
    (\<forall>nh' m q s y b s'. nexthop_frame nh' \<and> m < length (arr_conn s) \<and> state_at m s = RDP_CLOSED \<and>
       get_packet q s = Some y \<and> packet_wf y \<and> pdata y = pdata x \<and> csp_rdp_new_packet nh' m q s = Some (b, s') \<longrightarrow>
       \<not> b \<and> state_at m s' = RDP_SYN_RCVD \<and> rdp_opts (rdp (arr_conn s' ! m)) = csp_rdp_get_opt a \<and>
       rcv_irs (rdp (arr_conn s' ! m)) = snd_iss (rdp (arr_conn a ! n)) \<and>
       snd_nxt (rdp (arr_conn s' ! m)) = snd_iss (rdp (arr_conn s' ! m)) + 1)"
proof -
  obtain p r fs where f: "free_list a = p # r # fs" using assms(3) by (cases "free_list a" rule: remdups_adj.cases) auto
  have m: "(if v < CSP_PRIO_HIGH then v else CSP_PRIO_HIGH) = min v CSP_PRIO_HIGH" for v :: u8 by (auto simp: min_def not_less simp del: CSP_PRIO_HIGH_def)
  from send_syn_eq [OF assms(1,2) f, of nh, unfolded m] obtain a1 x k where a1: "csp_rdp_send_syn nh n a = do {
      (_, s) \<leftarrow> csp_send_direct nh ((idout (arr_conn a ! n))\<lparr>pri := min (pri (idout (arr_conn a ! n))) CSP_PRIO_HIGH\<rparr>) p None a1;
      Some (CSP_ERR_NONE, s) }" "accounts (add_mset p H) a1" "get_packet p a1 = Some x" "packet_wf x"
    "pdata x = syn_options a @ header_bytes (syn_header k (snd_iss (rdp (arr_conn a ! n))))" by blast
  show ?thesis
    by (intro exI [of _ p] exI [of _ x] exI [of _ a1] conjI allI impI exI [of _ k] a1)
      (use nexthop_frame.syn_received a1(5) in \<open>metis (no_types, lifting)\<close>)+
qed

text \<open>A node with two free buffers sends the SYN; a node without a free buffer receives it, and stores the settings although it cannot answer.\<close>

definition calling_node :: node where
  "calling_node = give_buffer 4 (give_buffer 3 busy_node)"

lemma calling_node_facts:
  "accounts (mset_set ({..<15} - {3, 4})) calling_node" "free_list calling_node = [3, 4]" "2 < length (arr_conn calling_node)"
  "csp_rdp_get_opt calling_node = (4, 10000, 1000, 1, 250, 2)"
proof -
  have e: "mset_set ({..<15} - {3 :: nat}) = add_mset 4 (mset_set ({..<15} - {3, 4}))"
    using mset_set.remove [of "{..<15} - {3 :: nat}" 4] by (simp add: Diff_insert2 [symmetric] insert_commute)
  note a = busy_node_held(1) [unfolded e]
  have p: "pool_inv busy_node" "allocated 3 busy_node" using accounts_held [OF a] by simp_all
  have p2: "pool_inv (give_buffer 3 busy_node)" "allocated 4 (give_buffer 3 busy_node)" using accounts_held [OF accounts_free(2) [OF a]] by simp_all
  show "accounts (mset_set ({..<15} - {3, 4})) calling_node"
    unfolding calling_node_def by (rule accounts_free(2) [OF accounts_free(2) [OF a]])
  have "free_list busy_node = []"
    by (simp add: busy_node_def free_list_def ready_node_def held_node_def zero_node_def empty_queue_def queue_list_def)
  then show "free_list calling_node = [3, 4]"
    using give_buffer_inv(2) [OF p] give_buffer_inv(2) [OF p2] by (simp add: calling_node_def)
  show "2 < length (arr_conn calling_node)" "csp_rdp_get_opt calling_node = (4, 10000, 1000, 1, 250, 2)"
    by (simp_all add: calling_node_def give_buffer_def busy_node_def ready_node_def held_node_def zero_node_def csp_rdp_get_opt_def)
qed

lemma ready_node_no_buffer:
  "0 < length (csp_buffer_pool ready_node)" "2 < length (arr_conn ready_node)" "rdp (arr_conn ready_node ! 2) = zero_rdp"
  "items (csp_buffers ready_node) = 0"
  by (simp_all add: ready_node_def zero_conn_def held_node_def zero_node_def empty_queue_def)

lemma ready_node_syn:
  assumes "packet_wf x" "pdata x = syn_options a @ header_bytes (syn_header k iss)"
  shows "\<exists>b s'. csp_rdp_new_packet csp_lo_tx 2 0 (put_packet 0 x ready_node) = Some (b, s')"
proof -
  let ?t = "put_packet 0 x ready_node" and ?g = "rdp_host_header (syn_header k iss)"
  note n = ready_node_no_buffer and r = syn_received_bytes [OF assms]
  have x: "get_packet 0 ?t = Some x" using get_put_packet [OF n(1)] by simp
  have "header_put (csp_rdp_header_ref x) ?g x \<noteq> None"
    using assms(1) by (simp add: header_put_def mem_write_def csp_rdp_header_ref_def packet_wf_def)
  then obtain z where z: "header_put (csp_rdp_header_ref x) ?g x = Some z" by blast
  note wz = r(2) [OF z]
  let ?s = "put_packet 0 z ?t"
  have gz: "get_packet 0 ?s = Some z" using get_put_packet [of 0 ?t] n(1) by simp
  have e: "mset_set {..<CSP_BUFFER_COUNT} = add_mset 0 (mset_set ({..<15} - {0}))" using mset_set.remove [of "{..<15 :: nat}" 0] by simp
  have a: "accounts (add_mset 0 (mset_set ({..<15} - {0}))) ?s"
    using accounts_put [OF accounts_put [OF ready_node_accounts, of x 0], of z 0] assms(1) wz unfolding e by (simp add: packet_wf_def)
  have empty: "items (csp_buffers (put_conn 2 c ?s)) = 0" for c using n(4) by (simp add: put_packet_def put_conn_def)
  have g: "has_flag (h_flags ?g) RDP_SYN" "\<not> has_flag (h_flags ?g) RDP_RST"
    using syn_header_flags [of k] by (simp_all add: rdp_host_header_def syn_header_def del: RDP_SYN_def RDP_RST_def)
  note o = syn_option_read [OF conjunct2 [OF wz]]
  obtain c where sw: "csp_rdp_switch csp_lo_tx 2 0 ?g ?s = Some (Discard_Open False,
      (put_conn 2 c ?s)\<lparr>csp_dbg_buffer_out := csp_dbg_buffer_out (put_conn 2 c ?s) + 1\<rparr>)" "rx_queue c = rx_queue (arr_conn ready_node ! 2)"
    using n(2,3) gz g
    by (simp add: csp_rdp_switch_def csp_rdp_recv_closed_def get_conn_eq o o(2) [unfolded One_nat_def] zero_rdp_def
        upd_rdp_eq Let_def send_cmp_no_buffer empty del: RDP_SYN_def RDP_RST_def)
  have "accounts (add_mset 0 (mset_set ({..<15} - {0}))) ((put_conn 2 c ?s)\<lparr>csp_dbg_buffer_out := csp_dbg_buffer_out (put_conn 2 c ?s) + 1\<rparr>)"
    using accounts_conn_same [OF a, of 2 c] n(2) sw(2) by simp
  from accounts_free(1) [OF this] show ?thesis
    using x r(1) z sw by (auto simp: csp_rdp_new_packet_def rdp_host_header_def csp_rdp_leave_def)
qed

theorem csp_rdp_syn_agreed_witness:
  "\<exists>p x a1 b s'. csp_rdp_send_syn csp_lo_tx 2 calling_node = do {
      (_, s) \<leftarrow> csp_send_direct csp_lo_tx ((idout (arr_conn calling_node ! 2))\<lparr>pri := min (pri (idout (arr_conn calling_node ! 2))) CSP_PRIO_HIGH\<rparr>) p None a1;
      Some (CSP_ERR_NONE, s) } \<and> get_packet p a1 = Some x \<and>
    csp_rdp_new_packet csp_lo_tx 2 0 (put_packet 0 x ready_node) = Some (b, s') \<and>
    state_at 2 s' = RDP_SYN_RCVD \<and> rdp_opts (rdp (arr_conn s' ! 2)) = (4, 10000, 1000, 1, 250, 2)"
proof -
  note f = calling_node_facts and n = ready_node_no_buffer
  from csp_rdp_syn_agreed [OF f(1,3), of csp_lo_tx] obtain p x a1 k where a1: "csp_rdp_send_syn csp_lo_tx 2 calling_node = do {
      (_, s) \<leftarrow> csp_send_direct csp_lo_tx ((idout (arr_conn calling_node ! 2))\<lparr>pri := min (pri (idout (arr_conn calling_node ! 2))) CSP_PRIO_HIGH\<rparr>) p None a1;
      Some (CSP_ERR_NONE, s) }" "get_packet p a1 = Some x" "packet_wf x"
      "pdata x = syn_options calling_node @ header_bytes (syn_header k (snd_iss (rdp (arr_conn calling_node ! 2))))"
    and r: "\<And>nh' m q s y b s'. nexthop_frame nh' \<and> m < length (arr_conn s) \<and> state_at m s = RDP_CLOSED \<and>
       get_packet q s = Some y \<and> packet_wf y \<and> pdata y = pdata x \<and> csp_rdp_new_packet nh' m q s = Some (b, s') \<Longrightarrow>
       state_at m s' = RDP_SYN_RCVD \<and> rdp_opts (rdp (arr_conn s' ! m)) = csp_rdp_get_opt calling_node"
    unfolding f(2) by auto
  from ready_node_syn [OF a1(3,4)] obtain b s' where s': "csp_rdp_new_packet csp_lo_tx 2 0 (put_packet 0 x ready_node) = Some (b, s')" by blast
  have "nexthop_frame csp_lo_tx \<and> 2 < length (arr_conn (put_packet 0 x ready_node)) \<and> state_at 2 (put_packet 0 x ready_node) = RDP_CLOSED \<and>
       get_packet 0 (put_packet 0 x ready_node) = Some x \<and> packet_wf x \<and> pdata x = pdata x \<and>
       csp_rdp_new_packet csp_lo_tx 2 0 (put_packet 0 x ready_node) = Some (b, s')"
    using lo.nexthop_frame_axioms n(2,3) get_put_packet [OF n(1)] a1(3) s' by (simp add: state_at_def zero_rdp_def)
  from r [OF this] show ?thesis using a1(1,2) s' unfolding f(4) by blast
qed

end
