(* ===== verification/Csp_Faqas.thy ===== *)
theory Csp_Faqas
  imports Csp_Prelude
begin

text \<open>
  The data-driven mutator (\<^verbatim>\<open>src/FAQAS_dataDrivenMutator.h\<close>) that the probes of \<^verbatim>\<open>csp_read\<close> and \<^verbatim>\<open>csp_send\<close> call: the two fault models, the
  tables that select item, operator and operation of a mutant, and the operators on items of the types \<open>INT\<close>, \<open>LONG\<close> and \<open>BIN\<close>.
  Items of the types \<open>FLOAT\<close> and \<open>DOUBLE\<close>, which the fault models of the file do not have, are not modelled. The parameters of an
  operator are doubles in C; the fault models give them small integers, on which the arithmetic of doubles is exact, and here they are
  integers; the comparison of a \<open>LONG\<close> with a parameter is exact for values below \<open>2 ^ 53\<close>. A conversion or sum that does not fit its type is undefined. \<open>rnd\<close> is the sequence that \<^verbatim>\<open>rand\<close> returns after
  the mutator has seeded it; the lines written to the coverage files are lists of the state.
\<close>

section \<open>Model\<close>

datatype DataType = T_INT | T_FLOAT | T_DOUBLE | T_BIN | T_LONG

datatype MutationType = BF | IV | VOR | FVOR | VAT | FVAT | VBT | FVBT | INV | SS | ASA | HV

record MutationOperator =
  op_type :: MutationType
  op_min :: int
  op_max :: int
  op_threshold :: int
  op_delta :: int
  op_state :: int
  op_value :: int

text \<open>Memory that is not initialised is \<open>None\<close>.\<close>

record DataItem =
  item_type :: DataType
  item_span :: nat
  operatorsN :: nat
  item_operators :: "MutationOperator option list"

record FaultModel =
  fm_ID :: int
  minOperation :: int
  maxOperation :: int
  fm_items :: "DataItem option list"

record faqas =
  MUTATION :: int
  faqas_mutated :: int
  global_mutation_counter :: int
  storedValueInt :: int
  storedValueBin :: u64
  storedValueLong :: int
  repeatCounter :: int
  sample :: int
  fmCov :: int
  cov_operators :: "(int \<times> int \<times> int) list"
  cov_models :: "int list"

definition fits :: "nat \<Rightarrow> int \<Rightarrow> bool" where
  "fits w v \<longleftrightarrow> - (2 ^ (w - 1)) \<le> v \<and> v < 2 ^ (w - 1)"

definition conv :: "nat \<Rightarrow> int \<Rightarrow> int option" where
  "conv w v = (if fits w v then Some v else None)"

primrec pow_loop :: "nat \<Rightarrow> int \<Rightarrow> u64 \<Rightarrow> u64" where
  "pow_loop 0 base result = result"
| "pow_loop (Suc n) base result = pow_loop n base (result * of_int base)"

definition FAQAS_pow_substitute :: "int \<Rightarrow> int \<Rightarrow> u64" where
  "FAQAS_pow_substitute base pw = (if pw < 0 then 0 else pow_loop (nat pw) base 1)"

primrec slice_loop :: "nat \<Rightarrow> u64 \<Rightarrow> int \<Rightarrow> int \<Rightarrow> u64 \<Rightarrow> u64" where
  "slice_loop 0 number start i acc = acc"
| "slice_loop (Suc n) number start i acc =
     (let msk = FAQAS_pow_substitute 2 i;
          relevant = number AND msk;
          acc = (if relevant = msk then acc OR FAQAS_pow_substitute 2 (i - start) else acc)
      in slice_loop n number start (i + 1) acc)"

definition FAQAS_slice_it_up :: "u64 \<Rightarrow> int \<Rightarrow> int \<Rightarrow> u64" where
  "FAQAS_slice_it_up number start fin = slice_loop (nat (fin - start + 1)) number start start 0"

definition FAQAS_operator_coverage :: "int \<Rightarrow> faqas \<Rightarrow> faqas" where
  "FAQAS_operator_coverage status st = st\<lparr>cov_operators := cov_operators st @ [(MUTATION st, global_mutation_counter st, status)]\<rparr>"

definition FAQAS_fmCoverage :: "int \<Rightarrow> faqas \<Rightarrow> faqas option" where
  "FAQAS_fmCoverage fm st =
     (if fm = 0 \<or> fm = 1 then do { n \<leftarrow> conv 32 (fmCov st + 1); Some (st\<lparr>fmCov := n\<rparr>) } else Some st)"

subsection \<open>Fault models\<close>

text \<open>Operators with the members that the fault models set; the others are not read by these operators.\<close>

definition zero_op :: MutationOperator where
  "zero_op = \<lparr>op_type = BF, op_min = 0, op_max = 0, op_threshold = 0, op_delta = 0, op_state = 0, op_value = 0\<rparr>"

definition mk_INV :: "int \<Rightarrow> int \<Rightarrow> MutationOperator option" where
  "mk_INV a b = Some (zero_op\<lparr>op_type := INV, op_min := a, op_max := b\<rparr>)"
definition mk_VAT :: "int \<Rightarrow> int \<Rightarrow> MutationOperator option" where
  "mk_VAT t d = Some (zero_op\<lparr>op_type := VAT, op_threshold := t, op_delta := d\<rparr>)"
definition mk_FVAT :: "int \<Rightarrow> int \<Rightarrow> MutationOperator option" where
  "mk_FVAT t d = Some (zero_op\<lparr>op_type := FVAT, op_threshold := t, op_delta := d\<rparr>)"
definition mk_VOR :: "int \<Rightarrow> int \<Rightarrow> int \<Rightarrow> MutationOperator option" where
  "mk_VOR a b d = Some (zero_op\<lparr>op_type := VOR, op_min := a, op_max := b, op_delta := d\<rparr>)"
definition mk_FVOR :: "int \<Rightarrow> int \<Rightarrow> MutationOperator option" where
  "mk_FVOR a b = Some (zero_op\<lparr>op_type := FVOR, op_min := a, op_max := b\<rparr>)"
definition mk_SS :: "int \<Rightarrow> MutationOperator option" where
  "mk_SS d = Some (zero_op\<lparr>op_type := SS, op_delta := d\<rparr>)"
definition mk_BF :: "int \<Rightarrow> MutationOperator option" where
  "mk_BF b = Some (zero_op\<lparr>op_type := BF, op_min := b, op_max := b, op_state := 0, op_value := 1\<rparr>)"

text \<open>The addresses, the ports and the flags are described alike in both models.\<close>

definition item_address :: DataItem where
  "item_address = \<lparr>item_type = T_INT, item_span = 1, operatorsN = 2, item_operators = [mk_INV 0 31, mk_VAT 31 1]\<rparr>"
definition item_port :: DataItem where
  "item_port = \<lparr>item_type = T_INT, item_span = 1, operatorsN = 5, item_operators = [mk_INV 8 30, mk_VOR 8 30 1, mk_FVOR 8 30, mk_SS 1, mk_SS (-1)]\<rparr>"
definition item_flags :: DataItem where
  "item_flags = \<lparr>item_type = T_BIN, item_span = 1, operatorsN = 4, item_operators = [mk_BF 0, mk_BF 1, mk_BF 2, mk_BF 3]\<rparr>"
definition item_priority :: DataItem where
  "item_priority = \<lparr>item_type = T_INT, item_span = 1, operatorsN = 6,
     item_operators = [None, None, None, mk_INV 0 3, mk_VAT 3 1, mk_FVAT 3 1]\<rparr>"

definition FAQAS_Read_FM :: FaultModel where
  "FAQAS_Read_FM = \<lparr>fm_ID = 0, minOperation = 0, maxOperation = 20,
     fm_items = [None, None, Some item_address, Some item_address, Some item_port, Some item_port, Some item_flags]\<rparr>"

definition FAQAS_Send_FM :: FaultModel where
  "FAQAS_Send_FM = \<lparr>fm_ID = 1, minOperation = 20, maxOperation = 43,
     fm_items = [None, Some item_priority, Some item_address, Some item_address, Some item_port, Some item_port, Some item_flags]\<rparr>"

subsection \<open>Selection\<close>

definition select :: "int list \<Rightarrow> int \<Rightarrow> int" where
  "select tab m = (if 0 \<le> m \<and> m < int (length tab) then tab ! nat m else -999)"

definition FAQAS_selectItem :: "int \<Rightarrow> int" where
  "FAQAS_selectItem = select [2, 2, 3, 3, 4, 4, 4, 4, 4, 4, 5, 5, 5, 5, 5, 5, 6, 6, 6, 6,
     1, 1, 1, 2, 2, 3, 3, 4, 4, 4, 4, 4, 4, 5, 5, 5, 5, 5, 5, 6, 6, 6, 6]"

definition FAQAS_selectOperator :: "int \<Rightarrow> int" where
  "FAQAS_selectOperator = select [0, 1, 0, 1, 0, 1, 1, 2, 3, 4, 0, 1, 1, 2, 3, 4, 0, 1, 2, 3,
     3, 4, 5, 0, 1, 0, 1, 0, 1, 1, 2, 3, 4, 0, 1, 1, 2, 3, 4, 0, 1, 2, 3]"

definition FAQAS_selectOperation :: "int \<Rightarrow> int" where
  "FAQAS_selectOperation = select [0, 0, 0, 0, 0, 0, 1, 0, 0, 0, 0, 0, 1, 0, 0, 0, 0, 0, 0, 0,
     0, 0, 0, 0, 0, 0, 0, 0, 0, 1, 0, 0, 0, 0, 0, 1, 0, 0, 0, 0, 0, 0, 0]"

subsection \<open>Operators\<close>

record vals =
  valueInt :: int
  valueBin :: u64
  valueLong :: int

text \<open>\<^verbatim>\<open>(rand() % (upper - lower + 1)) + lower\<close>, and the loops that draw until the value is another one, at most \<open>n\<close> times. The last draw counts
  as a failure whatever it gives.\<close>

definition draw :: "(nat \<Rightarrow> nat) \<Rightarrow> nat \<Rightarrow> int \<Rightarrow> int \<Rightarrow> int" where
  "draw rnd k lower upper = int (rnd k) mod \<bar>upper - lower + 1\<bar> + lower"

primrec draw_loop :: "nat \<Rightarrow> (nat \<Rightarrow> nat) \<Rightarrow> nat \<Rightarrow> int \<Rightarrow> int \<Rightarrow> int \<Rightarrow> int \<times> int" where
  "draw_loop 0 rnd k lower upper v = (v, 0)"
| "draw_loop (Suc n) rnd k lower upper v =
     (let r = draw rnd k lower upper
      in if n = 0 then (r, 0) else if r = v then draw_loop n rnd (k + 1) lower upper v else (r, 1))"

text \<open>The new value of an item, and the status that is recorded, if one is.\<close>

definition range_value :: "(nat \<Rightarrow> nat) \<Rightarrow> MutationOperator \<Rightarrow> nat \<Rightarrow> int \<Rightarrow> (int \<times> int) option" where
  "range_value rnd OP w v = do {
     upper \<leftarrow> conv w (op_max OP);
     lower \<leftarrow> conv w (op_min OP);
     (if upper = lower then Some (upper, 1)
      else if upper < lower then Some (v, 0)
      else do {
        _ \<leftarrow> conv w (upper - lower + 1);
        Some (draw_loop 1000 rnd 0 lower upper v)
      })
   }"

text \<open>\<open>INV\<close> has the same code as \<open>FVOR\<close>.\<close>

definition INV_value :: "(nat \<Rightarrow> nat) \<Rightarrow> MutationOperator \<Rightarrow> nat \<Rightarrow> int \<Rightarrow> (int \<times> int) option" where
  "INV_value rnd OP w v = range_value rnd OP w v"

definition VOR_value :: "int \<Rightarrow> MutationOperator \<Rightarrow> nat \<Rightarrow> int \<Rightarrow> (int \<times> int option) option" where
  "VOR_value opt OP w v =
     (if op_min OP \<le> v \<and> v \<le> op_max OP then
        if opt = 0 then do { v \<leftarrow> conv w (op_min OP - op_delta OP); Some (v, Some 1) }
        else if opt = 1 then do { v \<leftarrow> conv w (op_max OP + op_delta OP); Some (v, Some 1) }
        else Some (v, None)
      else Some (v, Some 0))"

definition VAT_value :: "MutationOperator \<Rightarrow> nat \<Rightarrow> int \<Rightarrow> (int \<times> int option) option" where
  "VAT_value OP w v =
     (if v \<le> op_threshold OP then do { v \<leftarrow> conv w (op_threshold OP + op_delta OP); Some (v, Some 1) } else Some (v, Some 0))"

definition FVAT_value :: "MutationOperator \<Rightarrow> nat \<Rightarrow> int \<Rightarrow> (int \<times> int option) option" where
  "FVAT_value OP w v =
     (if v > op_threshold OP then do { v \<leftarrow> conv w (op_threshold OP - op_delta OP); Some (v, Some 1) } else Some (v, Some 0))"

definition VBT_value :: "MutationOperator \<Rightarrow> nat \<Rightarrow> int \<Rightarrow> (int \<times> int option) option" where
  "VBT_value OP w v =
     (if v \<ge> op_threshold OP then do { v \<leftarrow> conv w (op_threshold OP - op_delta OP); Some (v, Some 1) } else Some (v, Some 0))"

definition FVBT_value :: "MutationOperator \<Rightarrow> nat \<Rightarrow> int \<Rightarrow> (int \<times> int option) option" where
  "FVBT_value OP w v =
     (if v < op_threshold OP then do { v \<leftarrow> conv w (op_threshold OP + op_delta OP); Some (v, Some 1) } else Some (v, Some 0))"

definition IV_value :: "MutationOperator \<Rightarrow> nat \<Rightarrow> int \<Rightarrow> (int \<times> int) option" where
  "IV_value OP w v = (if v \<noteq> op_value OP then do { v \<leftarrow> conv w (op_value OP); Some (v, 1) } else Some (v, 0))"

definition SS_value :: "MutationOperator \<Rightarrow> nat \<Rightarrow> int \<Rightarrow> (int \<times> int) option" where
  "SS_value OP w v = do { shift \<leftarrow> conv w (op_delta OP); v \<leftarrow> conv w (v + shift); Some (v, 1) }"

text \<open>The second condition sees the value that the first assignment gave.\<close>

definition ASA_value :: "MutationOperator \<Rightarrow> int \<Rightarrow> int option" where
  "ASA_value OP v = do {
     Tr \<leftarrow> conv 32 (op_threshold OP);
     De \<leftarrow> conv 32 (op_delta OP);
     Va \<leftarrow> conv 32 (op_value OP);
     v \<leftarrow> (if v \<ge> Tr then do { a \<leftarrow> conv 32 (v - Tr); a \<leftarrow> conv 32 (a * Va); a \<leftarrow> conv 32 (Tr + a); conv 32 (a + De) } else Some v);
     (if v < Tr then do { a \<leftarrow> conv 32 (v - Tr); a \<leftarrow> conv 32 (a * Va); a \<leftarrow> conv 32 (Tr - a); conv 32 (a + De) } else Some v)
   }"

text \<open>How an operator is applied to the value of the type of the item, in the cases that record the status inside the type
  (\<open>by_type\<close>) and after it (\<open>by_op\<close>, with the status for the other types).\<close>

definition by_type :: "(nat \<Rightarrow> int \<Rightarrow> (int \<times> int option) option) \<Rightarrow> DataType \<Rightarrow> vals \<Rightarrow> faqas \<Rightarrow> (vals \<times> faqas) option" where
  "by_type g t vs st =
     (let done = (\<lambda>r st. (case snd r of None \<Rightarrow> st | Some b \<Rightarrow> FAQAS_operator_coverage b st)\<lparr>faqas_mutated := 1\<rparr>)
      in case t of
        T_INT \<Rightarrow> do { r \<leftarrow> g 32 (valueInt vs); Some (vs\<lparr>valueInt := fst r\<rparr>, done r st) }
      | T_LONG \<Rightarrow> do { r \<leftarrow> g 64 (valueLong vs); Some (vs\<lparr>valueLong := fst r\<rparr>, done r st) }
      | _ \<Rightarrow> Some (vs, st))"

definition by_op :: "int \<Rightarrow> (nat \<Rightarrow> int \<Rightarrow> (int \<times> int) option) \<Rightarrow> DataType \<Rightarrow> vals \<Rightarrow> faqas \<Rightarrow> (vals \<times> faqas) option" where
  "by_op other g t vs st = do {
     r \<leftarrow> (case t of
            T_INT \<Rightarrow> do { r \<leftarrow> g 32 (valueInt vs); Some (vs\<lparr>valueInt := fst r\<rparr>, snd r) }
          | T_LONG \<Rightarrow> do { r \<leftarrow> g 64 (valueLong vs); Some (vs\<lparr>valueLong := fst r\<rparr>, snd r) }
          | _ \<Rightarrow> Some (vs, other));
     Some (fst r, (FAQAS_operator_coverage (snd r) st)\<lparr>faqas_mutated := 1\<rparr>)
   }"

definition op_HV :: "MutationOperator \<Rightarrow> DataType \<Rightarrow> vals \<Rightarrow> faqas \<Rightarrow> (vals \<times> faqas) option" where
  "op_HV OP t vs st = do {
     st \<leftarrow> (if sample st = 1 then do {
             n \<leftarrow> conv 32 (op_value OP);
             let st = (case t of T_INT \<Rightarrow> st\<lparr>storedValueInt := valueInt vs\<rparr> | T_BIN \<Rightarrow> st\<lparr>storedValueBin := valueBin vs\<rparr>
               | T_LONG \<Rightarrow> st\<lparr>storedValueBin := valueBin vs\<rparr> | _ \<Rightarrow> st);
             Some (st\<lparr>sample := 0, repeatCounter := n\<rparr>)
           }
           else Some st);
     let (vs, st) = (if repeatCounter st > 0 then
         (case t of T_INT \<Rightarrow> vs\<lparr>valueInt := storedValueInt st\<rparr> | T_BIN \<Rightarrow> vs\<lparr>valueBin := storedValueBin st\<rparr>
          | T_LONG \<Rightarrow> vs\<lparr>valueLong := storedValueLong st\<rparr> | _ \<Rightarrow> vs, st\<lparr>repeatCounter := repeatCounter st - 1\<rparr>)
       else (vs, st));
     let st = (if repeatCounter st = 0 then st\<lparr>sample := 1\<rparr> else st);
     Some (vs, FAQAS_operator_coverage 1 (st\<lparr>faqas_mutated := 1\<rparr>))
   }"

text \<open>Bit flips: state 0 sets a bit, state 1 clears one, any other state inverts one.\<close>

definition flip :: "int \<Rightarrow> u64 \<Rightarrow> u64 \<Rightarrow> u64" where
  "flip state v msk =
     (if state = 0 then v OR msk else if state = 1 then v AND NOT msk
      else let f = v AND NOT msk in if f = v then v OR msk else f)"

text \<open>One bit: at most \<open>n\<close> draws. The result is the value, whether the loop ended before its limit, and the number of draws so far.\<close>

primrec flip_loop :: "nat \<Rightarrow> int \<Rightarrow> (nat \<Rightarrow> nat) \<Rightarrow> nat \<Rightarrow> int \<Rightarrow> int \<Rightarrow> u64 \<Rightarrow> u64 \<times> bool \<times> nat" where
  "flip_loop 0 state rnd k lower upper v = (v, False, k)"
| "flip_loop (Suc n) state rnd k lower upper v =
     (let f = flip state v (FAQAS_pow_substitute 2 (draw rnd k lower upper))
      in if n = 0 then (f, False, k + 1) else if f = v then flip_loop n state rnd (k + 1) lower upper v else (f, True, k + 1))"

primrec flip_bits :: "nat \<Rightarrow> nat \<Rightarrow> int \<Rightarrow> (nat \<Rightarrow> nat) \<Rightarrow> nat \<Rightarrow> int \<Rightarrow> int \<Rightarrow> u64 \<times> bool \<Rightarrow> u64 \<times> bool" where
  "flip_bits 0 limit state rnd k lower upper r = r"
| "flip_bits (Suc n) limit state rnd k lower upper r =
     (let q = flip_loop limit state rnd k lower upper (fst r)
      in flip_bits n limit state rnd (snd (snd q)) lower upper (fst q, snd r \<and> fst (snd q)))"

definition op_BF :: "(nat \<Rightarrow> nat) \<Rightarrow> MutationOperator \<Rightarrow> vals \<Rightarrow> faqas \<Rightarrow> (vals \<times> faqas) option" where
  "op_BF rnd OP vs st = do {
     lower \<leftarrow> conv 32 (op_min OP);
     upper \<leftarrow> conv 32 (op_max OP);
     numberOfBits \<leftarrow> conv 32 (op_value OP);
     (if numberOfBits > 0 \<and>
         \<not> (fits 32 (upper - lower) \<and> fits 32 (upper - lower + 1) \<and> upper - lower + 1 \<noteq> 0 \<and> fits 32 (numberOfBits * 10)) then None
      else do {
        let r = flip_bits (nat numberOfBits) (nat (numberOfBits * 10)) (op_state OP) rnd 0 lower upper (valueBin vs, True);
        Some (vs\<lparr>valueBin := fst r\<rparr>, (FAQAS_operator_coverage (if snd r then 1 else 0) st)\<lparr>faqas_mutated := 1\<rparr>)
      })
   }"

definition op_ASA :: "MutationOperator \<Rightarrow> DataType \<Rightarrow> vals \<Rightarrow> faqas \<Rightarrow> (vals \<times> faqas) option" where
  "op_ASA OP t vs st =
     (if t = T_INT then do {
        v \<leftarrow> ASA_value OP (valueInt vs);
        Some (vs\<lparr>valueInt := v\<rparr>, FAQAS_operator_coverage 1 (st\<lparr>faqas_mutated := 1\<rparr>))
      }
      else Some (vs, FAQAS_operator_coverage 1 st))"

definition apply_operator :: "(nat \<Rightarrow> nat) \<Rightarrow> int \<Rightarrow> MutationOperator \<Rightarrow> DataType \<Rightarrow> vals \<Rightarrow> faqas \<Rightarrow> (vals \<times> faqas) option" where
  "apply_operator rnd opt OP t vs st =
     (case op_type OP of
        HV \<Rightarrow> op_HV OP t vs st
      | BF \<Rightarrow> op_BF rnd OP vs st
      | VOR \<Rightarrow> by_type (VOR_value opt OP) t vs st
      | FVOR \<Rightarrow> by_op 1 (range_value rnd OP) t vs st
      | VAT \<Rightarrow> by_type (VAT_value OP) t vs st
      | FVAT \<Rightarrow> by_type (FVAT_value OP) t vs st
      | VBT \<Rightarrow> by_type (VBT_value OP) t vs st
      | FVBT \<Rightarrow> by_type (FVBT_value OP) t vs st
      | IV \<Rightarrow> by_op 0 (IV_value OP) t vs st
      | SS \<Rightarrow> by_op 1 (SS_value OP) t vs st
      | INV \<Rightarrow> by_op 1 (INV_value rnd OP) t vs st
      | ASA \<Rightarrow> op_ASA OP t vs st)"

subsection \<open>The mutator\<close>

primrec load_loop :: "nat \<Rightarrow> nat \<Rightarrow> u32 list \<Rightarrow> u64 \<Rightarrow> u64 option" where
  "load_loop 0 at data intermediate = Some intermediate"
| "load_loop (Suc n) at data intermediate =
     (if at < length data then load_loop n (at + 1) data (push_bit 32 intermediate OR ucast (data ! at)) else None)"

definition load_value :: "DataType \<Rightarrow> u64 \<Rightarrow> vals option" where
  "load_value t intermediate =
     (case t of
        T_BIN \<Rightarrow> Some \<lparr>valueInt = 0, valueBin = intermediate, valueLong = 0\<rparr>
      | T_INT \<Rightarrow> Some \<lparr>valueInt = sint (ucast intermediate :: u32), valueBin = 0, valueLong = 0\<rparr>
      | T_LONG \<Rightarrow> Some \<lparr>valueInt = 0, valueBin = 0, valueLong = sint intermediate\<rparr>
      | _ \<Rightarrow> None)"

definition full_number :: "DataType \<Rightarrow> vals \<Rightarrow> u64" where
  "full_number t vs =
     (case t of T_BIN \<Rightarrow> valueBin vs | T_INT \<Rightarrow> ucast (word_of_int (valueInt vs) :: u32) | _ \<Rightarrow> word_of_int (valueLong vs))"

text \<open>\<open>n\<close> words of \<open>span\<close> are left to store.\<close>

primrec store_loop :: "nat \<Rightarrow> nat \<Rightarrow> nat \<Rightarrow> u64 \<Rightarrow> u32 list \<Rightarrow> u32 list" where
  "store_loop 0 span at number data = data"
| "store_loop (Suc n) span at number data =
     (let acc = FAQAS_slice_it_up number (int n * 32) (int (Suc n) * 32 - 1)
      in store_loop n span at number (data[at + (span - Suc n) := ucast acc]))"

definition APPLY_ONE_MUTATION :: int where [simp, csp_defs]: "APPLY_ONE_MUTATION = 0"

definition FAQAS_mutate :: "(nat \<Rightarrow> nat) \<Rightarrow> u32 list \<Rightarrow> FaultModel \<Rightarrow> faqas \<Rightarrow> (int \<times> u32 list \<times> faqas) option" where
  "FAQAS_mutate rnd data fm st =
     (if APPLY_ONE_MUTATION \<noteq> 0 \<and> faqas_mutated st = 1 then Some (0, data, st)
      else if MUTATION st = -1 then Some (0, data, st)
      else if MUTATION st = -2 then
        do { st \<leftarrow> FAQAS_fmCoverage (fm_ID fm) st; Some (0, data, st\<lparr>cov_models := cov_models st @ [fm_ID fm]\<rparr>) }
      else if MUTATION st = -3 then do { st \<leftarrow> FAQAS_fmCoverage (fm_ID fm) st; Some (0, data, st) }
      else if MUTATION st < minOperation fm \<or> MUTATION st \<ge> maxOperation fm then Some (0, data, FAQAS_operator_coverage 0 st)
      else do {
        let pos = FAQAS_selectItem (MUTATION st);
        let opn = FAQAS_selectOperator (MUTATION st);
        let opt = FAQAS_selectOperation (MUTATION st);
        item \<leftarrow> (if 0 \<le> pos \<and> nat pos < length (fm_items fm) then fm_items fm ! nat pos else None);
        intermediate \<leftarrow> load_loop (item_span item) (nat pos) data 0;
        vs \<leftarrow> load_value (item_type item) intermediate;
        OP \<leftarrow> (if 0 \<le> opn \<and> nat opn < length (item_operators item) then item_operators item ! nat opn else None);
        (vs, st) \<leftarrow> apply_operator rnd opt OP (item_type item) vs st;
        (if faqas_mutated st \<noteq> 1 then Some (0, data, st)
         else do {
           n \<leftarrow> conv 32 (global_mutation_counter st + 1);
           Some (faqas_mutated st, store_loop (item_span item) (item_span item) (nat pos) (full_number (item_type item) vs) data,
             st\<lparr>global_mutation_counter := n\<rparr>)
         })
      })"

definition mutate_FM_Read :: "(nat \<Rightarrow> nat) \<Rightarrow> u32 list \<Rightarrow> faqas \<Rightarrow> (u32 list \<times> faqas) option" where
  "mutate_FM_Read rnd v st = map_option snd (FAQAS_mutate rnd v FAQAS_Read_FM st)"

definition mutate_FM_Send :: "(nat \<Rightarrow> nat) \<Rightarrow> u32 list \<Rightarrow> faqas \<Rightarrow> (u32 list \<times> faqas) option" where
  "mutate_FM_Send rnd v st = map_option snd (FAQAS_mutate rnd v FAQAS_Send_FM st)"

section \<open>Slices\<close>

lemma pow_loop_2: "pow_loop n 2 r = push_bit n r"
  by (induction n arbitrary: r) (simp_all add: push_bit_double mult.commute)

lemma pow_substitute_2: "0 \<le> i \<Longrightarrow> FAQAS_pow_substitute 2 i = 2 ^ nat i"
  by (simp add: FAQAS_pow_substitute_def pow_loop_2)

lemma bit_power64: "bit (2 ^ m :: u64) n \<longleftrightarrow> m = n \<and> n < 64"
  by (auto simp: bit_exp_iff)

lemma and_power_bit:
  assumes "n < 64"
  shows "(w :: u64) AND 2 ^ n = 2 ^ n \<longleftrightarrow> bit w n"
proof
  assume "w AND 2 ^ n = 2 ^ n"
  then have "bit (w AND 2 ^ n) n" using assms by (simp add: bit_power64)
  then show "bit w n" by (simp add: bit_and_iff)
next
  assume "bit w n"
  then show "w AND 2 ^ n = 2 ^ n" by (intro bit_word_eqI) (auto simp: bit_and_iff bit_power64)
qed

lemma take_bit_Suc_set: "k < 64 \<Longrightarrow> take_bit (Suc k) (w :: u64) = (if bit w k then take_bit k w OR 2 ^ k else take_bit k w)"
  by (rule bit_word_eqI) (auto simp: bit_or_iff bit_take_bit_iff bit_power64 less_Suc_eq)

lemma slice_loop_eq:
  "a + k + n \<le> 64 \<Longrightarrow> slice_loop n w (int a) (int (a + k)) (take_bit k (drop_bit a w)) = take_bit (k + n) (drop_bit a w)"
proof (induction n arbitrary: k)
  case 0
  then show ?case by simp
next
  case (Suc n)
  have b: "w AND 2 ^ (a + k) = 2 ^ (a + k) \<longleftrightarrow> bit (drop_bit a w) k"
    using Suc.prems and_power_bit [of "a + k" w] by (simp add: bit_drop_bit_eq)
  have p: "FAQAS_pow_substitute 2 (int (a + k)) = 2 ^ (a + k)" "FAQAS_pow_substitute 2 (int (a + k) - int a) = 2 ^ k"
    using pow_substitute_2 [of "int (a + k)"] pow_substitute_2 [of "int k"] by (simp_all add: nat_add_distrib)
  have t: "take_bit (Suc k) (drop_bit a w) = (if bit (drop_bit a w) k then take_bit k (drop_bit a w) OR 2 ^ k else take_bit k (drop_bit a w))"
    using Suc.prems by (intro take_bit_Suc_set) simp
  have "slice_loop (Suc n) w (int a) (int (a + k)) (take_bit k (drop_bit a w)) =
      slice_loop n w (int a) (int (a + k) + 1) (take_bit (Suc k) (drop_bit a w))"
    unfolding slice_loop.simps(2) Let_def p b t ..
  moreover have "int (a + k) + 1 = int (a + Suc k)" by simp
  moreover have "slice_loop n w (int a) (int (a + Suc k)) (take_bit (Suc k) (drop_bit a w)) = take_bit (k + Suc n) (drop_bit a w)"
    using Suc.IH [of "Suc k"] Suc.prems by (simp del: of_nat_add of_nat_Suc)
  ultimately show ?case by (simp only:)
qed

lemma slice_it_up_eq:
  assumes "a \<le> b" "b < 64"
  shows "FAQAS_slice_it_up w (int a) (int b) = take_bit (b - a + 1) (drop_bit a w)"
proof -
  have "nat (int b - int a + 1) = b - a + 1" using assms by simp
  then show ?thesis using slice_loop_eq [of a 0 "b - a + 1" w] assms by (simp add: FAQAS_slice_it_up_def del: slice_loop.simps)
qed

section \<open>Operators\<close>

lemma draw_range: "lo \<le> hi \<Longrightarrow> lo \<le> draw rnd k lo hi \<and> draw rnd k lo hi \<le> hi"
  using pos_mod_bound [of "hi - lo + 1" "int (rnd k)"] pos_mod_sign [of "hi - lo + 1" "int (rnd k)"] by (auto simp: draw_def)

lemma draw_loop_result:
  assumes "lo \<le> hi" "draw_loop (Suc n) rnd k lo hi v = (r, b)"
  shows "lo \<le> r \<and> r \<le> hi" "b = 0 \<or> b = 1" "b = 1 \<Longrightarrow> r \<noteq> v" "b = 0 \<Longrightarrow> \<forall>j < n. draw rnd (k + j) lo hi = v"
proof -
  have "lo \<le> r \<and> r \<le> hi \<and> (b = 0 \<or> b = 1) \<and> (b = 1 \<longrightarrow> r \<noteq> v) \<and> (b = 0 \<longrightarrow> (\<forall>j < n. draw rnd (k + j) lo hi = v))" using assms(2)
  proof (induction n arbitrary: k)
    case 0
    then show ?case using draw_range [OF assms(1)] by (auto simp: Let_def)
  next
    case (Suc n)
    show ?case
    proof (cases "draw rnd k lo hi = v")
      case True
      then have "draw_loop (Suc n) rnd (k + 1) lo hi v = (r, b)" using Suc.prems by (subst (asm) draw_loop.simps(2)) (simp add: Let_def del: draw_loop.simps)
      from Suc.IH [OF this] True show ?thesis by (auto simp: less_Suc_eq_0_disj)
    next
      case False
      then show ?thesis using Suc.prems draw_range [OF assms(1), of rnd k] by (auto simp: Let_def)
    qed
  qed
  then show "lo \<le> r \<and> r \<le> hi" "b = 0 \<or> b = 1" "b = 1 \<Longrightarrow> r \<noteq> v" "b = 0 \<Longrightarrow> \<forall>j < n. draw rnd (k + j) lo hi = v" by auto
qed

text \<open>
  What the operators of the fault models do to an item that holds a value of a CSP identifier: they are defined, they record one status, and a
  recorded success means another value. A recorded failure means the same value, but for one case: \<open>INV\<close> and \<open>FVOR\<close> draw at
  most 1000 times, and the last draw counts as a failure whatever it gives (\<open>drew_same\<close>: the 999 draws before it gave the old value).
\<close>

definition drew_same :: "(nat \<Rightarrow> nat) \<Rightarrow> MutationOperator \<Rightarrow> int \<Rightarrow> bool" where
  "drew_same rnd OP v \<longleftrightarrow> (op_type OP = INV \<or> op_type OP = FVOR) \<and> (\<forall>j < 999. draw rnd j (op_min OP) (op_max OP) = v)"

definition recorded :: "faqas \<Rightarrow> int \<Rightarrow> faqas" where
  "recorded st b = st\<lparr>cov_operators := cov_operators st @ [(MUTATION st, global_mutation_counter st, b)], faqas_mutated := 1\<rparr>"

definition int_effect :: "bool \<Rightarrow> vals \<Rightarrow> faqas \<Rightarrow> (vals \<times> faqas) option \<Rightarrow> bool" where
  "int_effect unlucky vs st r \<longleftrightarrow> (\<exists>v b. r = Some (vs\<lparr>valueInt := v\<rparr>, recorded st b) \<and> (b = 0 \<or> b = 1) \<and> (b = 1 \<longrightarrow> v \<noteq> valueInt vs) \<and>
     (b = 0 \<and> v \<noteq> valueInt vs \<longrightarrow> unlucky) \<and> fits 32 v)"

definition small :: "int \<Rightarrow> bool" where
  "small v \<longleftrightarrow> - 0x10000 < v \<and> v < 0x10000"

lemma conv_small: "- 0x40000 < v \<Longrightarrow> v < 0x40000 \<Longrightarrow> conv 32 v = Some v" "- 0x40000 < v \<Longrightarrow> v < 0x40000 \<Longrightarrow> fits 32 v"
  by (simp_all add: conv_def fits_def)

lemma by_type_effect:
  "g 32 (valueInt vs) = Some (v, Some b) \<Longrightarrow> b = 0 \<or> b = 1 \<Longrightarrow> b = 1 \<longrightarrow> v \<noteq> valueInt vs \<Longrightarrow> b = 0 \<and> v \<noteq> valueInt vs \<longrightarrow> u \<Longrightarrow> fits 32 v \<Longrightarrow>
    int_effect u vs st (by_type g T_INT vs st)"
  by (auto simp: by_type_def int_effect_def recorded_def FAQAS_operator_coverage_def)

lemma by_op_effect:
  "g 32 (valueInt vs) = Some (v, b) \<Longrightarrow> b = 0 \<or> b = 1 \<Longrightarrow> b = 1 \<longrightarrow> v \<noteq> valueInt vs \<Longrightarrow> b = 0 \<and> v \<noteq> valueInt vs \<longrightarrow> u \<Longrightarrow> fits 32 v \<Longrightarrow>
    int_effect u vs st (by_op c g T_INT vs st)"
  by (auto simp: by_op_def int_effect_def recorded_def FAQAS_operator_coverage_def)

lemma range_effect:
  assumes "small (op_min OP)" "small (op_max OP)" "op_min OP < op_max OP" "op_type OP = INV \<or> op_type OP = FVOR"
  shows "int_effect (drew_same rnd OP (valueInt vs)) vs st (by_op c (range_value rnd OP) T_INT vs st)"
proof -
  obtain r b where d: "draw_loop (Suc 999) rnd 0 (op_min OP) (op_max OP) (valueInt vs) = (r, b)" by (metis surj_pair)
  have "op_min OP \<le> op_max OP" using assms(3) by simp
  note dr = draw_loop_result [OF this d]
  have "conv 32 (op_min OP) = Some (op_min OP)" "conv 32 (op_max OP) = Some (op_max OP)" "conv 32 (op_max OP - op_min OP + 1) = Some (op_max OP - op_min OP + 1)"
    using assms by (auto simp: small_def intro!: conv_small)
  then have "range_value rnd OP 32 (valueInt vs) = Some (r, b)" using assms(3) d by (simp add: range_value_def del: draw_loop.simps)
  moreover have "fits 32 r" using dr(1) assms(1,2) by (intro conv_small) (auto simp: small_def)
  ultimately show ?thesis using dr(2,3,4) assms(4) by (intro by_op_effect) (auto simp: drew_same_def)
qed

text \<open>The operators on integers that the fault models use.\<close>

definition int_op_ok :: "MutationOperator \<Rightarrow> bool" where
  "int_op_ok OP \<longleftrightarrow> small (op_min OP) \<and> small (op_max OP) \<and> small (op_threshold OP) \<and> small (op_delta OP) \<and>
     (case op_type OP of INV \<Rightarrow> op_min OP < op_max OP | FVOR \<Rightarrow> op_min OP < op_max OP | VAT \<Rightarrow> op_delta OP > 0 | FVAT \<Rightarrow> op_delta OP > 0
      | VOR \<Rightarrow> op_delta OP > 0 | SS \<Rightarrow> op_delta OP \<noteq> 0 | _ \<Rightarrow> False)"

lemma threshold_effects:
  assumes "small (op_threshold OP)" "small (op_delta OP)" "op_delta OP > 0" "small (valueInt vs)"
  shows "int_effect u vs st (by_type (VAT_value OP) T_INT vs st)" "int_effect u vs st (by_type (FVAT_value OP) T_INT vs st)"
proof -
  have c: "conv 32 (op_threshold OP + op_delta OP) = Some (op_threshold OP + op_delta OP)" "fits 32 (op_threshold OP + op_delta OP)"
    "conv 32 (op_threshold OP - op_delta OP) = Some (op_threshold OP - op_delta OP)" "fits 32 (op_threshold OP - op_delta OP)" "fits 32 (valueInt vs)"
    using assms by (auto simp: small_def intro!: conv_small)
  show "int_effect u vs st (by_type (VAT_value OP) T_INT vs st)"
  proof (cases "valueInt vs \<le> op_threshold OP")
    case True
    then show ?thesis using c assms(3) by (intro by_type_effect [of _ _ "op_threshold OP + op_delta OP" 1]) (auto simp: VAT_value_def)
  next
    case False
    then show ?thesis using c by (intro by_type_effect [of _ _ "valueInt vs" 0]) (auto simp: VAT_value_def)
  qed
  show "int_effect u vs st (by_type (FVAT_value OP) T_INT vs st)"
  proof (cases "valueInt vs > op_threshold OP")
    case True
    then show ?thesis using c assms(3) by (intro by_type_effect [of _ _ "op_threshold OP - op_delta OP" 1]) (auto simp: FVAT_value_def)
  next
    case False
    then show ?thesis using c by (intro by_type_effect [of _ _ "valueInt vs" 0]) (auto simp: FVAT_value_def)
  qed
qed

lemma VOR_effect:
  assumes "small (op_min OP)" "small (op_max OP)" "small (op_delta OP)" "op_delta OP > 0" "small (valueInt vs)" "opt = 0 \<or> opt = 1"
  shows "int_effect u vs st (by_type (VOR_value opt OP) T_INT vs st)"
proof -
  have c: "conv 32 (op_min OP - op_delta OP) = Some (op_min OP - op_delta OP)" "fits 32 (op_min OP - op_delta OP)"
    "conv 32 (op_max OP + op_delta OP) = Some (op_max OP + op_delta OP)" "fits 32 (op_max OP + op_delta OP)" "fits 32 (valueInt vs)"
    using assms by (auto simp: small_def intro!: conv_small)
  let ?r = "if opt = 0 then op_min OP - op_delta OP else op_max OP + op_delta OP"
  show ?thesis
  proof (cases "op_min OP \<le> valueInt vs \<and> valueInt vs \<le> op_max OP")
    case True
    then show ?thesis using c assms(4,6) by (intro by_type_effect [of _ _ ?r 1]) (auto simp: VOR_value_def)
  next
    case False
    then show ?thesis using c by (intro by_type_effect [of _ _ "valueInt vs" 0]) (auto simp: VOR_value_def)
  qed
qed

lemma int_op_effect:
  assumes "int_op_ok OP" "small (valueInt vs)" "opt = 0 \<or> opt = 1"
  shows "int_effect (drew_same rnd OP (valueInt vs)) vs st (apply_operator rnd opt OP T_INT vs st)"
proof -
  have "int_effect (drew_same rnd OP (valueInt vs)) vs st (by_op 1 (SS_value OP) T_INT vs st)" if "op_delta OP \<noteq> 0"
  proof -
    have "conv 32 (op_delta OP) = Some (op_delta OP)" "conv 32 (valueInt vs + op_delta OP) = Some (valueInt vs + op_delta OP)" "fits 32 (valueInt vs + op_delta OP)"
      using assms(1,2) by (auto simp: int_op_ok_def small_def intro!: conv_small)
    then show ?thesis using that by (intro by_op_effect [of _ _ "valueInt vs + op_delta OP" 1]) (auto simp: SS_value_def)
  qed
  then show ?thesis using assms range_effect [of OP] threshold_effects [of OP vs] VOR_effect [of OP vs opt]
    by (cases "op_type OP") (simp_all add: apply_operator_def int_op_ok_def INV_value_def [abs_def])
qed

text \<open>Setting one bit of the lower half.\<close>

definition bin_op_ok :: "MutationOperator \<Rightarrow> bool" where
  "bin_op_ok OP \<longleftrightarrow> op_type OP = BF \<and> 0 \<le> op_min OP \<and> op_min OP = op_max OP \<and> op_max OP < 32 \<and> op_state OP = 0 \<and> op_value OP = 1"

definition low32 :: "u64 \<Rightarrow> bool" where
  "low32 v \<longleftrightarrow> take_bit 32 v = v"

lemma low32_set: "low32 v \<Longrightarrow> n < 32 \<Longrightarrow> low32 (v OR 2 ^ n)"
proof -
  assume "low32 v" "n < 32"
  moreover have "take_bit 32 (2 ^ n :: u64) = 2 ^ n" using \<open>n < 32\<close> by (intro bit_word_eqI) (auto simp: bit_take_bit_iff bit_power64)
  ultimately show ?thesis by (simp add: low32_def take_bit_or)
qed

lemma flip_loop_result:
  assumes "0 \<le> lo" "lo \<le> hi" "hi < 32" "low32 v" "flip_loop (Suc n) 0 rnd k lo hi v = (f, ok, k')"
  shows "low32 f" "ok \<Longrightarrow> f \<noteq> v"
proof -
  have f: "low32 (flip 0 v (FAQAS_pow_substitute 2 (draw rnd k lo hi)))" for k
    using draw_range [OF assms(2), of rnd k] assms(1,3,4) by (simp add: flip_def pow_substitute_2 low32_set nat_less_iff)
  have "low32 f \<and> (ok \<longrightarrow> f \<noteq> v)" using assms(5)
  proof (induction n arbitrary: k)
    case 0
    then show ?case using f [of k] by (auto simp: Let_def)
  next
    case (Suc n)
    let ?f = "flip 0 v (FAQAS_pow_substitute 2 (draw rnd k lo hi))"
    show ?case
    proof (cases "?f = v")
      case True
      then have "flip_loop (Suc n) 0 rnd (k + 1) lo hi v = (f, ok, k')" using Suc.prems by (subst (asm) flip_loop.simps(2)) (simp add: Let_def del: flip_loop.simps)
      then show ?thesis by (rule Suc.IH)
    next
      case False
      then show ?thesis using Suc.prems f [of k] by (auto simp: Let_def)
    qed
  qed
  then show "low32 f" "ok \<Longrightarrow> f \<noteq> v" by auto
qed

text \<open>One bit that is drawn from one: the value is left alone only if the bit was set.\<close>

lemma flip_loop_same: "(\<And>k. flip 0 v (FAQAS_pow_substitute 2 (draw rnd k lo hi)) = v) \<Longrightarrow> flip_loop n 0 rnd k lo hi v = (f, ok, k') \<Longrightarrow> f = v"
  by (induction n arbitrary: k) (auto simp: Let_def split: if_splits)

lemma flip_loop_failed:
  assumes "flip_loop (Suc (Suc n)) 0 rnd k lo lo v = (f, ok, k')" "\<not> ok"
  shows "f = v"
proof -
  have d: "draw rnd j lo lo = lo" for j by (simp add: draw_def)
  have "flip 0 v (FAQAS_pow_substitute 2 lo) = v" using assms by (auto simp: Let_def d split: if_splits)
  then show ?thesis using flip_loop_same [OF _ assms(1)] by (simp add: d)
qed

lemma bin_op_effect:
  assumes "bin_op_ok OP" "low32 (valueBin vs)"
  shows "\<exists>v b. apply_operator rnd opt OP T_BIN vs st = Some (vs\<lparr>valueBin := v\<rparr>, recorded st b) \<and> (b = 0 \<or> b = 1) \<and> (b = 1 \<longrightarrow> v \<noteq> valueBin vs) \<and>
    (b = 0 \<longrightarrow> v = valueBin vs) \<and> low32 v"
proof -
  have o: "op_type OP = BF" "op_state OP = 0" "op_value OP = 1" "0 \<le> op_min OP" "op_min OP \<le> op_max OP" "op_max OP < 32" and same: "op_max OP = op_min OP"
    using assms(1) by (auto simp: bin_op_ok_def)
  obtain f ok k' where l: "flip_loop (Suc 9) 0 rnd 0 (op_min OP) (op_max OP) (valueBin vs) = (f, ok, k')" by (metis surj_pair)
  note r = flip_loop_result [OF o(4-6) assms(2) l]
  have "f = valueBin vs" if "\<not> ok"
    using flip_loop_failed [of 8 rnd 0 "op_min OP" "valueBin vs" f ok k'] l that unfolding same by (simp add: eval_nat_numeral del: flip_loop.simps)
  moreover
  have "conv 32 (op_min OP) = Some (op_min OP)" "conv 32 (op_max OP) = Some (op_max OP)" "conv 32 1 = Some 1" "fits 32 10"
    "fits 32 (op_max OP - op_min OP)" "fits 32 (op_max OP - op_min OP + 1)" using o by (auto intro!: conv_small)
  then have "apply_operator rnd opt OP T_BIN vs st = Some (vs\<lparr>valueBin := f\<rparr>, recorded st (if ok then 1 else 0))"
    using o l by (simp add: apply_operator_def op_BF_def recorded_def FAQAS_operator_coverage_def Let_def numeral_eq_Suc del: flip_loop.simps)
  ultimately show ?thesis using r by (intro exI [of _ f] exI [of _ "if ok then 1 else 0"]) auto
qed

section \<open>The selected item\<close>

text \<open>A mutant is well described when the tables select an operator that the fault model initialises.\<close>

definition mutant_ok :: "FaultModel \<Rightarrow> int \<Rightarrow> bool" where
  "mutant_ok fm m \<longleftrightarrow> 0 \<le> FAQAS_selectItem m \<and> nat (FAQAS_selectItem m) < length (fm_items fm) \<and> nat (FAQAS_selectItem m) < 7 \<and>
     0 \<le> FAQAS_selectOperator m \<and> (FAQAS_selectOperation m = 0 \<or> FAQAS_selectOperation m = 1) \<and>
     (case fm_items fm ! nat (FAQAS_selectItem m) of
        None \<Rightarrow> False
      | Some item \<Rightarrow> item_span item = 1 \<and> nat (FAQAS_selectOperator m) < length (item_operators item) \<and>
          (case item_operators item ! nat (FAQAS_selectOperator m) of
             None \<Rightarrow> False
           | Some OP \<Rightarrow> item_type item = T_INT \<and> int_op_ok OP \<or> item_type item = T_BIN \<and> bin_op_ok OP))"

lemma store_one: "store_loop 1 1 at number data = data[at := ucast number]"
proof -
  have "FAQAS_slice_it_up number 0 31 = take_bit 32 number" using slice_it_up_eq [of 0 31 number] by simp
  moreover have "(ucast (take_bit 32 number) :: u32) = ucast number" by (rule bit_word_eqI) (auto simp: bit_simps)
  ultimately show ?thesis by (simp add: Let_def)
qed

lemma load_one: "at < length data \<Longrightarrow> load_loop 1 at data 0 = Some (ucast (data ! at))"
  by simp

lemma ucast_back: "(ucast (ucast (d :: u32) :: u64) :: u32) = d"
  by (rule bit_word_eqI) (auto simp: bit_simps)

lemma small_word:
  assumes "d < (0x10000 :: u32)"
  shows "sint d = uint d" "small (sint d)" "low32 (ucast d)"
proof -
  have u: "uint d < 0x10000" using assms by (simp add: word_less_def)
  have z: "0 \<le> uint d" by simp
  have "signed_take_bit 31 (uint d) = uint d" using u order_trans [OF _ z, of "- 2147483648"] by (intro signed_take_bit_int_eq_self) simp_all
  then show s: "sint d = uint d" by (simp add: sint_uint)
  show "small (sint d)" using u less_le_trans [OF _ z, of "- 0x10000"] by (simp add: small_def s)
  show "low32 (ucast d)" unfolding low32_def by (rule bit_word_eqI) (auto simp: bit_simps dest: bit_imp_le_length)
qed

lemma store_int:
  assumes "fits 32 v" "v \<noteq> sint (d :: u32)"
  shows "(ucast (ucast (word_of_int v :: u32) :: u64) :: u32) \<noteq> d"
proof
  assume "(ucast (ucast (word_of_int v :: u32) :: u64) :: u32) = d"
  then have "word_of_int v = d" by (simp add: ucast_back)
  moreover have "signed_take_bit 31 v = v" using assms(1) by (intro signed_take_bit_int_eq_self) (simp_all add: fits_def)
  then have "sint (word_of_int v :: u32) = v" by (simp add: sint_sbintrunc' )
  ultimately show False using assms(2) by simp
qed

lemma store_bin:
  assumes "low32 v" "v \<noteq> ucast (d :: u32)"
  shows "(ucast v :: u32) \<noteq> d"
proof
  assume "ucast v = d"
  then have "(ucast d :: u64) = take_bit 32 v" by (intro bit_word_eqI) (auto simp: bit_simps)
  then show False using assms by (simp add: low32_def)
qed

definition selected_op :: "FaultModel \<Rightarrow> int \<Rightarrow> MutationOperator option" where
  "selected_op fm m =
     (case fm_items fm ! nat (FAQAS_selectItem m) of None \<Rightarrow> None | Some item \<Rightarrow> item_operators item ! nat (FAQAS_selectOperator m))"

lemma mutate_item:
  fixes st data defines "m \<equiv> MUTATION st" and "pos \<equiv> nat (FAQAS_selectItem (MUTATION st))"
  assumes ok: "mutant_ok fm m" and m: "0 \<le> m" "minOperation fm \<le> m" "m < maxOperation fm"
    and data: "length data = 7" "data ! pos < 0x10000" and counter: "0 \<le> global_mutation_counter st" "global_mutation_counter st < 2 ^ 31 - 1"
  shows "\<exists>v b. FAQAS_mutate rnd data fm st = Some (1, data[pos := v], (recorded st b)\<lparr>global_mutation_counter := global_mutation_counter st + 1\<rparr>) \<and>
    (b = 0 \<or> b = 1) \<and> (b = 1 \<longrightarrow> v \<noteq> data ! pos) \<and>
    (b = 0 \<and> v \<noteq> data ! pos \<longrightarrow> (\<exists>OP. selected_op fm m = Some OP \<and> drew_same rnd OP (sint (data ! pos))))"
proof -
  let ?opn = "nat (FAQAS_selectOperator m)" and ?opt = "FAQAS_selectOperation m"
  obtain item OP where sel: "fm_items fm ! pos = Some item" "item_span item = 1" "item_operators item ! ?opn = Some OP" "pos < length (fm_items fm)" "pos < 7"
      "?opn < length (item_operators item)" "0 \<le> FAQAS_selectItem m" "0 \<le> FAQAS_selectOperator m" "?opt = 0 \<or> ?opt = 1"
      "item_type item = T_INT \<and> int_op_ok OP \<or> item_type item = T_BIN \<and> bin_op_ok OP"
    using ok by (auto simp: mutant_ok_def pos_def m_def split: option.splits)
  have c: "conv 32 (global_mutation_counter st + 1) = Some (global_mutation_counter st + 1)" using counter by (simp add: conv_def fits_def)
  have run: "FAQAS_mutate rnd data fm st = Some (1, data[pos := ucast (full_number (item_type item) vs')],
      (recorded st b)\<lparr>global_mutation_counter := global_mutation_counter st + 1\<rparr>)"
    if "load_value (item_type item) (ucast (data ! pos)) = Some vs" "apply_operator rnd ?opt OP (item_type item) vs st = Some (vs', recorded st b)" for vs vs' b
  proof -
    have "load_loop (item_span item) pos data 0 = Some (ucast (data ! pos))" "store_loop (item_span item) (item_span item) pos x data = data[pos := ucast x]" for x
      using load_one [of pos data] store_one [of pos x data] sel(2,5) data(1) by simp_all
    then show ?thesis using that sel m c
      by (simp add: FAQAS_mutate_def m_def pos_def recorded_def Let_def del: load_loop.simps store_loop.simps)
  qed
  note d = small_word [OF data(2)]
  show ?thesis
  proof (cases "item_type item = T_INT")
    case True
    define vs where "vs = \<lparr>valueInt = sint (data ! pos), valueBin = 0, valueLong = 0\<rparr>"
    have "int_effect (drew_same rnd OP (valueInt vs)) vs st (apply_operator rnd ?opt OP T_INT vs st)" using sel(9,10) True d(2) by (intro int_op_effect) (auto simp: vs_def)
    then obtain v b where v: "apply_operator rnd ?opt OP T_INT vs st = Some (vs\<lparr>valueInt := v\<rparr>, recorded st b)" "b = 0 \<or> b = 1"
      "b = 1 \<longrightarrow> v \<noteq> sint (data ! pos)" "fits 32 v" "b = 0 \<and> v \<noteq> sint (data ! pos) \<longrightarrow> drew_same rnd OP (sint (data ! pos))"
      by (auto simp: int_effect_def vs_def)
    have so: "selected_op fm m = Some OP" using sel by (simp add: selected_op_def pos_def m_def)
    have "(ucast (ucast (word_of_int (sint (data ! pos)) :: u32) :: u64) :: u32) = data ! pos" by (simp add: ucast_back)
    then have st: "(ucast (ucast (word_of_int v :: u32) :: u64) :: u32) \<noteq> data ! pos \<Longrightarrow> v \<noteq> sint (data ! pos)" by auto
    have "load_value (item_type item) (ucast (data ! pos)) = Some vs" using True by (simp add: load_value_def vs_def ucast_back)
    from run [OF this, of "vs\<lparr>valueInt := v\<rparr>" b] v store_int [OF v(4), of "data ! pos"] True so st show ?thesis
      by (auto simp: full_number_def)
  next
    case False
    define vs where "vs = \<lparr>valueInt = 0, valueBin = ucast (data ! pos), valueLong = 0\<rparr>"
    have b: "item_type item = T_BIN" "bin_op_ok OP" using False sel(10) by auto
    obtain v b where v: "apply_operator rnd ?opt OP T_BIN vs st = Some (vs\<lparr>valueBin := v\<rparr>, recorded st b)" "b = 0 \<or> b = 1"
      "b = 1 \<longrightarrow> v \<noteq> ucast (data ! pos)" "low32 v" "b = 0 \<longrightarrow> v = ucast (data ! pos)" using bin_op_effect [OF b(2), of vs rnd ?opt st] d(3) by (auto simp: vs_def)
    have "load_value (item_type item) (ucast (data ! pos)) = Some vs" using b(1) by (simp add: load_value_def vs_def)
    then have "FAQAS_mutate rnd data fm st = Some (1, data[pos := ucast v], (recorded st b)\<lparr>global_mutation_counter := global_mutation_counter st + 1\<rparr>)"
      using run [of vs "vs\<lparr>valueBin := v\<rparr>" b] v(1) b(1) by (simp add: full_number_def)
    moreover have "b = 0 \<longrightarrow> (ucast v :: u32) = data ! pos" using v(5) by (simp add: ucast_back)
    ultimately show ?thesis using v(2,3) store_bin [OF v(4), of "data ! pos"] by blast
  qed
qed

lemma read_mutants_ok: "\<forall>m \<in> set [0..<20]. mutant_ok FAQAS_Read_FM (int m)"
  by code_simp

lemma send_mutants_ok: "\<forall>m \<in> set [20..<43]. mutant_ok FAQAS_Send_FM (int m)"
  by code_simp

text \<open>A slice of a number is the bits from the first position to the last one, moved down.\<close>

theorem FAQAS_slice_it_up_is_slice:
  assumes "a \<le> b" "b < 64"
  shows "FAQAS_slice_it_up w (int a) (int b) = take_bit (b - a + 1) (drop_bit a w)"
  using assms by (rule slice_it_up_eq)

theorem FAQAS_slice_it_up_is_slice_witness: "FAQAS_slice_it_up 0xABCD 4 11 = 0xBC"
  using FAQAS_slice_it_up_is_slice [of 4 11 "0xABCD"] by simp

end
