(* ===== verification/Csp_Probe.thy ===== *)
theory Csp_Probe
  imports Csp_Io Csp_Faqas
begin

text \<open>
  The mutation probes of \<^verbatim>\<open>csp_read\<close> and \<^verbatim>\<open>csp_send\<close> (\<^verbatim>\<open>csp_io_mutated.c\<close>, of which \<^verbatim>\<open>src/csp_io.c\<close> is a copy) with the mutator of
  \<^verbatim>\<open>src/FAQAS_dataDrivenMutator.h\<close>: what a mutant does to the identifier of a connection, and so what it does to the program.
\<close>

section \<open>Model\<close>

text \<open>The instrumented functions, with the mutator in its state \<open>st\<close> instead of an arbitrary probe.\<close>

definition csp_read_damat ::
  "(nat \<Rightarrow> nat) \<Rightarrow> nexthop_t \<Rightarrow> (node \<Rightarrow> node) \<Rightarrow> nat option \<Rightarrow> u32 \<Rightarrow> faqas \<Rightarrow> node \<Rightarrow> (nat option \<times> faqas) csp" where
  "csp_read_damat rnd nexthop others conn timeout st s = do {
     n \<leftarrow> conn;
     c \<leftarrow> get_conn n s;
     (damat_buffer_read, st) \<leftarrow> mutate_FM_Read rnd (damat_buffer (idin c)) st;
     (packet, s) \<leftarrow> csp_read (\<lambda>_. damat_buffer_read) nexthop others conn timeout s;
     Some ((packet, st), s)
   }"

definition csp_send_damat ::
  "(nat \<Rightarrow> nat) \<Rightarrow> nexthop_t \<Rightarrow> (nat \<Rightarrow> node \<Rightarrow> node) \<Rightarrow> nat option \<Rightarrow> nat option \<Rightarrow> faqas \<Rightarrow> node \<Rightarrow> faqas csp" where
  "csp_send_damat rnd nexthop others conn packet st s = do {
     n \<leftarrow> conn;
     c \<leftarrow> get_conn n s;
     (damat_buffer_send, st) \<leftarrow> mutate_FM_Send rnd (damat_buffer (idout c)) st;
     (_, s) \<leftarrow> csp_send (\<lambda>_. damat_buffer_send) nexthop others conn packet s;
     Some (st, s)
   }"

section \<open>Mutants\<close>

lemma read_mutant_ok: "0 \<le> m \<Longrightarrow> m < 20 \<Longrightarrow> mutant_ok FAQAS_Read_FM m"
  using bspec [OF read_mutants_ok, of "nat m"] by (simp del: upt_conv_Cons upt_rec_numeral set_upt add: atLeastLessThan_upt [symmetric])

lemma send_mutant_ok:
  assumes "20 \<le> m" "m < 43"
  shows "mutant_ok FAQAS_Send_FM m"
proof -
  have "nat m \<in> set [20..<43]" using assms by (simp only: set_upt atLeastLessThan_iff) linarith
  from bspec [OF send_mutants_ok this] show ?thesis using assms by simp
qed

lemma fault_model_mutants:
  assumes "fm = FAQAS_Read_FM \<or> fm = FAQAS_Send_FM" "minOperation fm \<le> m" "m < maxOperation fm"
  shows "mutant_ok fm m" "0 \<le> m"
  using assms by (auto simp: FAQAS_Read_FM_def FAQAS_Send_FM_def intro: read_mutant_ok [unfolded FAQAS_Read_FM_def] send_mutant_ok [unfolded FAQAS_Send_FM_def])

lemma small_fields:
  "(ucast (a :: u8) :: u32) < 0x10000" "(ucast (b :: u16) :: u32) < 0x10000"
proof -
  have "uint a < 2 ^ 8" "uint b < 2 ^ 16" using uint_lt2p [of a] uint_lt2p [of b] by simp_all
  then show "(ucast a :: u32) < 0x10000" "(ucast b :: u32) < 0x10000" by (simp_all add: word_less_def uint_up_ucast is_up)
qed

lemma damat_buffer_small:
  assumes "k < 7"
  shows "damat_buffer i ! k < 0x10000"
proof -
  have "\<forall>d \<in> set (damat_buffer i). d < 0x10000" by (simp add: damat_buffer_def small_fields)
  moreover have "damat_buffer i ! k \<in> set (damat_buffer i)" using assms by (intro nth_mem) (simp add: damat_buffer_def)
  ultimately show ?thesis by blast
qed

text \<open>What the mutator does to the identifier of a connection, for every mutant of both models.\<close>

lemma mutate_damat_buffer:
  fixes i st defines "pos \<equiv> nat (FAQAS_selectItem (MUTATION st))"
  assumes "fm = FAQAS_Read_FM \<or> fm = FAQAS_Send_FM" "minOperation fm \<le> MUTATION st" "MUTATION st < maxOperation fm"
    "0 \<le> global_mutation_counter st" "global_mutation_counter st < 2 ^ 31 - 1"
  shows "\<exists>v b. FAQAS_mutate rnd (damat_buffer i) fm st = Some (1, (damat_buffer i)[pos := v],
      (recorded st b)\<lparr>global_mutation_counter := global_mutation_counter st + 1\<rparr>) \<and>
    (b = 0 \<or> b = 1) \<and> (b = 1 \<longrightarrow> v \<noteq> damat_buffer i ! pos) \<and>
    (b = 0 \<and> v \<noteq> damat_buffer i ! pos \<longrightarrow>
       (\<exists>OP. selected_op fm (MUTATION st) = Some OP \<and> drew_same rnd OP (sint (damat_buffer i ! pos))))"
proof -
  note ok = fault_model_mutants [OF assms(2-4)]
  then have "pos < 7" by (simp add: mutant_ok_def pos_def)
  from mutate_item [OF ok(1,2) assms(3,4) _ damat_buffer_small [OF this, unfolded pos_def] assms(5,6), of i rnd]
  show ?thesis by (auto simp: damat_buffer_def pos_def)
qed

lemma mutate_other:
  assumes "MUTATION st = -1 \<or> 0 \<le> MUTATION st \<and> (MUTATION st < minOperation fm \<or> MUTATION st \<ge> maxOperation fm)"
  shows "FAQAS_mutate rnd data fm st = Some (0, data, if MUTATION st = -1 then st else FAQAS_operator_coverage 0 st)"
  using assms by (auto simp: FAQAS_mutate_def)

section \<open>The instrumented functions\<close>

lemma csp_send_probe_cong:
  assumes "n < length (arr_conn s)" "p (damat_buffer (idout (arr_conn s ! n))) = p' (damat_buffer (idout (arr_conn s ! n)))"
  shows "csp_send p nh others (Some n) packet s = csp_send p' nh others (Some n) packet s"
  using assms by (simp add: csp_send_def upd_conn_eq)

lemma csp_read_probe_cong:
  assumes "n < length (arr_conn s)" "p (damat_buffer (idin (arr_conn s ! n))) = p' (damat_buffer (idin (arr_conn s ! n)))"
  shows "csp_read p nh others (Some n) timeout s = csp_read p' nh others (Some n) timeout s"
  using assms by (simp add: csp_read_def upd_conn_eq)

lemma csp_send_damat_eq:
  assumes "n < length (arr_conn s)" "FAQAS_mutate rnd (damat_buffer (idout (arr_conn s ! n))) FAQAS_Send_FM st = Some (r, b, st')"
    "p (damat_buffer (idout (arr_conn s ! n))) = b"
  shows "csp_send_damat rnd nh others (Some n) packet st s = map_option (\<lambda>r. (st', snd r)) (csp_send p nh others (Some n) packet s)"
  using assms(1,2) csp_send_probe_cong [OF assms(1), of "\<lambda>_. b" p nh others packet] assms(3)
  by (cases "csp_send p nh others (Some n) packet s") (auto simp: csp_send_damat_def mutate_FM_Send_def get_conn_eq)

lemma csp_read_damat_eq:
  assumes "n < length (arr_conn s)" "FAQAS_mutate rnd (damat_buffer (idin (arr_conn s ! n))) FAQAS_Read_FM st = Some (r, b, st')"
    "p (damat_buffer (idin (arr_conn s ! n))) = b"
  shows "csp_read_damat rnd nh others (Some n) timeout st s =
    map_option (\<lambda>r. ((fst r, st'), snd r)) (csp_read p nh others (Some n) timeout s)"
  using assms(1,2) csp_read_probe_cong [OF assms(1), of "\<lambda>_. b" p nh others timeout] assms(3)
  by (cases "csp_read p nh others (Some n) timeout s") (auto simp: csp_read_damat_def mutate_FM_Read_def get_conn_eq)

text \<open>The change of one field that a mutant makes.\<close>

definition field_probe :: "int \<Rightarrow> u32 \<Rightarrow> u32 list \<Rightarrow> u32 list" where
  "field_probe m v b = b[nat (FAQAS_selectItem m) := v]"

text \<open>A mutant of the other model changes nothing in this function.\<close>

lemma csp_send_damat_selected:
  assumes "n < length (arr_conn s)" "20 \<le> MUTATION st" "MUTATION st < 43" "0 \<le> global_mutation_counter st" "global_mutation_counter st < 2 ^ 31 - 1"
  shows "\<exists>v b. csp_send_damat rnd nh others (Some n) packet st s =
      map_option (\<lambda>r. ((recorded st b)\<lparr>global_mutation_counter := global_mutation_counter st + 1\<rparr>, snd r))
        (csp_send (field_probe (MUTATION st) v) nh others (Some n) packet s) \<and>
    (b = 1 \<longrightarrow> field_probe (MUTATION st) v (damat_buffer (idout (arr_conn s ! n))) \<noteq> damat_buffer (idout (arr_conn s ! n)))"
proof -
  let ?i = "idout (arr_conn s ! n)" and ?pos = "nat (FAQAS_selectItem (MUTATION st))"
  have m: "minOperation FAQAS_Send_FM \<le> MUTATION st" "MUTATION st < maxOperation FAQAS_Send_FM" using assms(2,3) by (simp_all add: FAQAS_Send_FM_def)
  have "mutant_ok FAQAS_Send_FM (MUTATION st)" by (rule send_mutant_ok [OF assms(2,3)])
  then have pos: "?pos < length (damat_buffer ?i)" by (simp add: mutant_ok_def damat_buffer_def)
  from mutate_damat_buffer [OF _ m assms(4,5), of rnd ?i] obtain v b where
    v: "FAQAS_mutate rnd (damat_buffer ?i) FAQAS_Send_FM st = Some (1, (damat_buffer ?i)[?pos := v],
      (recorded st b)\<lparr>global_mutation_counter := global_mutation_counter st + 1\<rparr>)" "b = 1 \<longrightarrow> v \<noteq> damat_buffer ?i ! ?pos" by auto
  have "(damat_buffer ?i)[?pos := v] = damat_buffer ?i \<Longrightarrow> v = damat_buffer ?i ! ?pos" using pos by (metis nth_list_update_eq)
  then show ?thesis using csp_send_damat_eq [OF assms(1) v(1), of "field_probe (MUTATION st) v"] v(2)
    by (intro exI [of _ v] exI [of _ b]) (auto simp: field_probe_def)
qed

lemma csp_read_damat_selected:
  assumes "n < length (arr_conn s)" "0 \<le> MUTATION st" "MUTATION st < 20" "0 \<le> global_mutation_counter st" "global_mutation_counter st < 2 ^ 31 - 1"
  shows "\<exists>v b. csp_read_damat rnd nh others (Some n) timeout st s =
      map_option (\<lambda>r. ((fst r, (recorded st b)\<lparr>global_mutation_counter := global_mutation_counter st + 1\<rparr>), snd r))
        (csp_read (field_probe (MUTATION st) v) nh others (Some n) timeout s)"
proof -
  let ?i = "idin (arr_conn s ! n)"
  have m: "minOperation FAQAS_Read_FM \<le> MUTATION st" "MUTATION st < maxOperation FAQAS_Read_FM" using assms(2,3) by (simp_all add: FAQAS_Read_FM_def)
  from mutate_damat_buffer [OF _ m assms(4,5), of rnd ?i] obtain v b where
    "FAQAS_mutate rnd (damat_buffer ?i) FAQAS_Read_FM st = Some (1, field_probe (MUTATION st) v (damat_buffer ?i),
      (recorded st b)\<lparr>global_mutation_counter := global_mutation_counter st + 1\<rparr>)" by (auto simp: field_probe_def)
  from csp_read_damat_eq [OF assms(1) this, of "field_probe (MUTATION st) v"] show ?thesis by blast
qed

section \<open>Properties\<close>

text \<open>C23: A mutant of the fault model of a probe always runs to its end on the identifier of a connection, whatever random numbers it draws:
  it changes at most the field that the table selects, records one status for the mutant and counts the mutation. The status 1 is
  recorded only if the value was changed. The status 0 is recorded only if it was not, with one exception: an operator that draws
  from a range (\<open>INV\<close>, \<open>FVOR\<close>) and has drawn the old value 999 times records 0 whatever the last draw gives (\<open>drew_same\<close>).\<close>

theorem FAQAS_mutate_selected_field:
  fixes i st defines "pos \<equiv> nat (FAQAS_selectItem (MUTATION st))"
  assumes "fm = FAQAS_Read_FM \<or> fm = FAQAS_Send_FM" "minOperation fm \<le> MUTATION st" "MUTATION st < maxOperation fm"
    "0 \<le> global_mutation_counter st" "global_mutation_counter st < 2 ^ 31 - 1"
  shows "\<exists>v b st'. FAQAS_mutate rnd (damat_buffer i) fm st = Some (1, (damat_buffer i)[pos := v], st') \<and>
    cov_operators st' = cov_operators st @ [(MUTATION st, global_mutation_counter st, b)] \<and>
    global_mutation_counter st' = global_mutation_counter st + 1 \<and> (b = 0 \<or> b = 1) \<and> (b = 1 \<longrightarrow> v \<noteq> damat_buffer i ! pos) \<and>
    (b = 0 \<and> v \<noteq> damat_buffer i ! pos \<longrightarrow>
       (\<exists>OP. selected_op fm (MUTATION st) = Some OP \<and> drew_same rnd OP (sint (damat_buffer i ! pos))))"
proof -
  from mutate_damat_buffer [OF assms(2-6), of rnd i] obtain v b where
    m: "FAQAS_mutate rnd (damat_buffer i) fm st = Some (1, (damat_buffer i)[pos := v], (recorded st b)\<lparr>global_mutation_counter := global_mutation_counter st + 1\<rparr>)"
    and r: "b = 0 \<or> b = 1" "b = 1 \<longrightarrow> v \<noteq> damat_buffer i ! pos" "(b = 0 \<and> v \<noteq> damat_buffer i ! pos \<longrightarrow>
       (\<exists>OP. selected_op fm (MUTATION st) = Some OP \<and> drew_same rnd OP (sint (damat_buffer i ! pos))))"
    unfolding pos_def by blast
  let ?st = "(recorded st b)\<lparr>global_mutation_counter := global_mutation_counter st + 1\<rparr>"
  have "cov_operators ?st = cov_operators st @ [(MUTATION st, global_mutation_counter st, b)]" "global_mutation_counter ?st = global_mutation_counter st + 1"
    by (simp_all add: recorded_def)
  with m r show ?thesis by blast
qed

theorem FAQAS_mutate_selected_field_witness:
  defines "st \<equiv> \<lparr>MUTATION = 9, faqas_mutated = 0, global_mutation_counter = 0, storedValueInt = 0, storedValueBin = 0, storedValueLong = 0,
      repeatCounter = 0, sample = 1, fmCov = 0, cov_operators = [], cov_models = []\<rparr>"
    and "i \<equiv> \<lparr>pri = 2, flags = 0, src = 1, dst = 2, dport = 10, sport = 30\<rparr>"
  shows "\<exists>v b st'. FAQAS_mutate (\<lambda>n. n) (damat_buffer i) FAQAS_Read_FM st = Some (1, [0, 2, 1, 2, v, 30, 0], st') \<and>
    cov_operators st' = [(9, 0, b)] \<and> (b = 1 \<longrightarrow> v \<noteq> 10)"
proof -
  have "nat (FAQAS_selectItem 9) = 4" by code_simp
  then show ?thesis using FAQAS_mutate_selected_field [of FAQAS_Read_FM st "\<lambda>n. n" i]
    by (auto simp: st_def i_def FAQAS_Read_FM_def damat_buffer_def)
qed

end
