(* ===== verification/Csp_Sfp.thy ===== *)
theory Csp_Sfp
  imports Csp_Io
begin

text \<open>
  The simple fragmentation protocol (\<^verbatim>\<open>src/csp_sfp.c\<close>): large data is sent as packets that carry, behind their piece
  of the data, the offset of the piece and the total size.
\<close>

section \<open>Model\<close>

record sfp_header_t =
  sfp_offset :: u32
  sfp_totalsize :: u32

definition SFP_HEADER_SIZE :: nat where [simp, csp_defs]: "SFP_HEADER_SIZE = 8"

text \<open>The header in memory; the numbers are those stored.\<close>

definition sfp_bytes :: "sfp_header_t \<Rightarrow> u8 list" where
  "sfp_bytes h = word_to_le 4 (sfp_offset h) @ word_to_le 4 (sfp_totalsize h)"

text \<open>The position in \<^verbatim>\<open>data\<close> where the header is to be written.\<close>

definition csp_sfp_header_add :: "csp_packet_t \<Rightarrow> nat \<times> csp_packet_t" where
  "csp_sfp_header_add p = (unat (plen p), p\<lparr>plen := plen p + of_nat SFP_HEADER_SIZE\<rparr>)"

definition csp_sfp_header_remove :: "csp_packet_t \<Rightarrow> (sfp_header_t option \<times> csp_packet_t) option" where
  "csp_sfp_header_remove p =
     (if flags (pid p) AND CSP_FFRAG = 0 then Some (None, p)
      else if unat (plen p) < SFP_HEADER_SIZE then Some (None, p)
      else do {
        let off = unat (plen p) - SFP_HEADER_SIZE;
        b \<leftarrow> data_read off SFP_HEADER_SIZE p;
        let h = \<lparr>sfp_offset = be32toh (le_to_word (take 4 b)), sfp_totalsize = be32toh (le_to_word (List.drop 4 b))\<rparr>;
        p \<leftarrow> data_write off (sfp_bytes h) (p\<lparr>plen := plen p - of_nat SFP_HEADER_SIZE\<rparr>);
        Some (if sfp_offset h > sfp_totalsize h then None else Some h, p)
      })"

text \<open>
  Sending: the content of a fragment, and the loop. \<open>fetch count size\<close> is what the caller's copy function delivers for \<open>size\<close> bytes at \<open>data + count\<close>. The
  condition on \<open>mtu\<close> is checked before the loop.
\<close>

definition csp_sfp_packet :: "csp_packet_t \<Rightarrow> u8 list \<Rightarrow> u32 \<Rightarrow> u32 \<Rightarrow> u32 \<Rightarrow> csp_packet_t option" where
  "csp_sfp_packet x d sz sent totalsize = do {
     x \<leftarrow> data_write 0 d x;
     let (off, x) = csp_sfp_header_add (x\<lparr>plen := ucast sz\<rparr>);
     data_write off (sfp_bytes \<lparr>sfp_offset = htobe32 sent, sfp_totalsize = htobe32 totalsize\<rparr>) x
   }"

lemma sfp_progress:
  assumes "mtu \<noteq> 0" "sent < (totalsize :: u32)"
  shows "unat totalsize - unat (sent + (if totalsize - sent > mtu then mtu else totalsize - sent)) < unat totalsize - unat sent"
proof -
  let ?s = "if totalsize - sent > mtu then mtu else totalsize - sent"
  have d: "unat (totalsize - sent) = unat totalsize - unat sent" using assms(2) by (simp add: unat_sub)
  have s: "unat ?s \<le> unat totalsize - unat sent" "0 < unat ?s"
    using assms d by (auto simp: word_less_nat_alt unat_gt_0)
  have "unat (sent + ?s) = unat sent + unat ?s"
    using s(1) assms(2) unsigned_less [of totalsize, where ?'a = nat] by (subst unat_add_lem [symmetric]) (simp add: word_less_nat_alt)
  then show ?thesis using s by linarith
qed

function csp_sfp_send_loop :: "io_env \<Rightarrow> nat \<Rightarrow> (nat \<Rightarrow> nat \<Rightarrow> u8 list option) \<Rightarrow> u32 \<Rightarrow> u32 \<Rightarrow> u32 \<Rightarrow> node \<Rightarrow> int csp" where
  "csp_sfp_send_loop io conn fetch totalsize mtu sent s =
     (if mtu = 0 \<or> \<not> sent < totalsize then Some (CSP_ERR_NONE, s)
      else do {
        (b, s) \<leftarrow> csp_buffer_get (unat mtu + SFP_HEADER_SIZE) s;
        (case b of
           None \<Rightarrow> Some (CSP_ERR_NOMEM, s)
         | Some p \<Rightarrow> do {
             let size = (if totalsize - sent > mtu then mtu else totalsize - sent);
             x \<leftarrow> get_packet p s;
             d \<leftarrow> fetch (unat sent) (unat size);
             x \<leftarrow> csp_sfp_packet x d size sent totalsize;
             s \<leftarrow> upd_conn conn (\<lambda>c. c\<lparr>idout := (idout c)\<lparr>flags := flags (idout c) OR CSP_FFRAG\<rparr>\<rparr>) s;
             (_, s) \<leftarrow> csp_send (probe_send io) (io_nexthop io) (others_send io) (Some conn) (Some p) (put_packet p x s);
             csp_sfp_send_loop io conn fetch totalsize mtu (sent + size) s
           })
      })"
  by pat_completeness auto
termination csp_sfp_send_loop
  by (relation "measure (\<lambda>(io, conn, fetch, totalsize, mtu, sent, s). unat totalsize - unat sent)") (auto simp: sfp_progress)

declare csp_sfp_send_loop.simps [simp del]

definition csp_sfp_send_own_memcpy ::
  "io_env \<Rightarrow> nat \<Rightarrow> (nat \<Rightarrow> nat \<Rightarrow> u8 list option) \<Rightarrow> u32 \<Rightarrow> u32 \<Rightarrow> u32 \<Rightarrow> node \<Rightarrow> int csp" where
  "csp_sfp_send_own_memcpy io conn fetch totalsize mtu timeout s =
     (if mtu = 0 then Some (CSP_ERR_INVAL, s) else csp_sfp_send_loop io conn fetch totalsize mtu 0 s)"

text \<open>\<^verbatim>\<open>csp_sfp_send\<close> copies with \<^verbatim>\<open>memcpy\<close>.\<close>

definition csp_sfp_send :: "io_env \<Rightarrow> nat \<Rightarrow> u8 list \<Rightarrow> u32 \<Rightarrow> u32 \<Rightarrow> u32 \<Rightarrow> node \<Rightarrow> int csp" where
  "csp_sfp_send io conn data datasize mtu timeout s =
     csp_sfp_send_own_memcpy io conn (\<lambda>sent size. mem_read sent size data) datasize mtu timeout s"

text \<open>
  Receiving: what happens to one packet. \<open>data\<close> is the block that was allocated, if one was; \<open>malloc\<close> is the C
  library's, whose block has any content. The result is an error, the complete data, or what the
  next round needs.
\<close>

datatype sfp_round = Sfp_Error int | Sfp_Done "u8 list" | Sfp_More "u8 list" u32 u32

definition csp_sfp_recv_packet ::
  "(nat \<Rightarrow> u8 list option) \<Rightarrow> nat \<Rightarrow> u8 list option \<Rightarrow> u32 \<Rightarrow> u32 \<Rightarrow> node \<Rightarrow> sfp_round csp" where
  "csp_sfp_recv_packet malloc packet data datasize data_offset s = do {
     x \<leftarrow> get_packet packet s;
     (header, x) \<leftarrow> csp_sfp_header_remove x;
     let s = put_packet packet x s;
     (case header of
        None \<Rightarrow> do { (_, s) \<leftarrow> csp_buffer_free (Some packet) s; Some (Sfp_Error CSP_ERR_SFP, s) }
      | Some h \<Rightarrow>
          if sfp_offset h \<noteq> data_offset
          then do { (_, s) \<leftarrow> csp_buffer_free (Some packet) s; Some (Sfp_Error CSP_ERR_SFP, s) }
          else do {
            let datasize = (if data = None then sfp_totalsize h else datasize);
            (case (case data of None \<Rightarrow> malloc (unat datasize) | Some d \<Rightarrow> Some d) of
               None \<Rightarrow> do { (_, s) \<leftarrow> csp_buffer_free (Some packet) s; Some (Sfp_Error CSP_ERR_NOMEM, s) }
             | Some d \<Rightarrow>
                 if data_offset + ucast (plen x) > datasize \<or> datasize \<noteq> sfp_totalsize h
                 then do { (_, s) \<leftarrow> csp_buffer_free (Some packet) s; Some (Sfp_Error CSP_ERR_SFP, s) }
                 else do {
                   b \<leftarrow> data_read 0 (unat (plen x)) x;
                   d \<leftarrow> mem_write (unat data_offset) b d;
                   let data_offset = data_offset + ucast (plen x);
                   (_, s) \<leftarrow> csp_buffer_free (Some packet) s;
                   Some (if data_offset \<ge> datasize then Sfp_Done d
                         else if plen x = 0 then Sfp_Error CSP_ERR_SFP
                         else Sfp_More d datasize data_offset, s)
                 })
          })
   }"

text \<open>The loop; the third component of its state is the offset of the next piece.\<close>

partial_function (option) csp_sfp_recv_loop ::
  "io_env \<Rightarrow> (nat \<Rightarrow> u8 list option) \<Rightarrow> nat option \<Rightarrow> u32 \<Rightarrow> nat \<Rightarrow> u8 list option \<times> u32 \<times> u32 \<Rightarrow> node \<Rightarrow> (int \<times> u8 list option) csp" where
  "csp_sfp_recv_loop io malloc conn timeout packet st s = do {
     r \<leftarrow> csp_sfp_recv_packet malloc packet (fst st) (fst (snd st)) (snd (snd st)) s;
     (case fst r of
        Sfp_Error e \<Rightarrow> Some ((e, None), snd r)
      | Sfp_Done d \<Rightarrow> Some ((CSP_ERR_NONE, Some d), snd r)
      | Sfp_More d datasize off \<Rightarrow> do {
          q \<leftarrow> csp_read (probe_read io) (io_nexthop io) (others_read io) conn timeout (snd r);
          (case fst q of
             None \<Rightarrow> Some ((CSP_ERR_TIMEDOUT, None), snd q)
           | Some p \<Rightarrow> csp_sfp_recv_loop io malloc conn timeout p (Some d, datasize, off) (snd q))
        })
   }"

definition csp_sfp_recv_fp ::
  "io_env \<Rightarrow> (nat \<Rightarrow> u8 list option) \<Rightarrow> nat option \<Rightarrow> u32 \<Rightarrow> nat option \<Rightarrow> node \<Rightarrow> (int \<times> u8 list option) csp" where
  "csp_sfp_recv_fp io malloc conn timeout first_packet s = do {
     (packet, s) \<leftarrow> (if first_packet = None then csp_read (probe_read io) (io_nexthop io) (others_read io) conn timeout s
                    else Some (first_packet, s));
     (case packet of
        None \<Rightarrow> Some ((CSP_ERR_TIMEDOUT, None), s)
      | Some p \<Rightarrow> csp_sfp_recv_loop io malloc conn timeout p (None, 0, 0) s)
   }"

definition csp_sfp_recv :: "io_env \<Rightarrow> (nat \<Rightarrow> u8 list option) \<Rightarrow> nat option \<Rightarrow> u32 \<Rightarrow> node \<Rightarrow> (int \<times> u8 list option) csp" where
  "csp_sfp_recv io malloc conn timeout s = csp_sfp_recv_fp io malloc conn timeout None s"

section \<open>Reassembly\<close>

text \<open>The fragment of the bytes \<open>b\<close> at the offset \<open>off\<close>.\<close>

definition sfp_fragment :: "node \<Rightarrow> u32 \<Rightarrow> nat \<Rightarrow> nat \<Rightarrow> u8 list \<Rightarrow> bool" where
  "sfp_fragment s tot off p b \<longleftrightarrow> (\<exists>x. get_packet p s = Some x \<and> packet_wf x \<and> flags (pid x) AND CSP_FFRAG \<noteq> 0 \<and>
     pdata x = b @ sfp_bytes \<lparr>sfp_offset = htobe32 (of_nat off), sfp_totalsize = htobe32 tot\<rparr>)"

primrec sfp_stream :: "node \<Rightarrow> u32 \<Rightarrow> nat \<Rightarrow> (nat \<times> u8 list) list \<Rightarrow> bool" where
  "sfp_stream s tot off [] \<longleftrightarrow> True"
| "sfp_stream s tot off (f # fs) \<longleftrightarrow> sfp_fragment s tot off (fst f) (snd f) \<and> snd f \<noteq> [] \<and> sfp_stream s tot (off + length (snd f)) fs"

lemma length_sfp_bytes [simp]: "length (sfp_bytes h) = 8"
  by (simp add: sfp_bytes_def)

lemma sfp_stream_cong: "(\<And>k. k \<in> fst ` set fs \<Longrightarrow> get_packet k s' = get_packet k s) \<Longrightarrow> sfp_stream s' tot off fs = sfp_stream s tot off fs"
  by (induction fs arbitrary: off) (auto simp: sfp_fragment_def)

lemma header_remove_fragment:
  assumes "packet_wf x" "flags (pid x) AND CSP_FFRAG \<noteq> 0"
    "pdata x = b @ sfp_bytes \<lparr>sfp_offset = htobe32 off, sfp_totalsize = htobe32 tot\<rparr>" "off \<le> tot"
  shows "\<exists>y. csp_sfp_header_remove x = Some (Some \<lparr>sfp_offset = off, sfp_totalsize = tot\<rparr>, y) \<and> packet_wf y \<and>
    unat (plen y) = length b \<and> pdata y = b"
proof -
  let ?h = "\<lparr>sfp_offset = off, sfp_totalsize = tot\<rparr>"
  have l: "unat (plen x) = length b + 8" using length_pdata [OF assms(1)] assms(3) by simp
  let ?x = "x\<lparr>plen := plen x - of_nat 8\<rparr>"
  have r: "data_read (length b) 8 x = Some (sfp_bytes \<lparr>sfp_offset = htobe32 off, sfp_totalsize = htobe32 tot\<rparr>)"
    using data_read_trailer(1) [OF assms(1), of 8] l assms(3) by simp
  have w: "packet_wf ?x" "pdata ?x = b" using plen_shorten [OF assms(1), of 8] l assms(3) by simp_all
  have n: "unat (plen x - of_nat 8) = length b" using l by (simp add: unat_sub_if' word_le_nat_alt)
  let ?y = "?x\<lparr>bytes := mem_put (DATA_OFFSET + length b) (sfp_bytes ?h) (bytes x)\<rparr>"
  have len: "DATA_OFFSET + length b + length (sfp_bytes ?h) \<le> length (bytes x)" using assms(1) l by (simp add: packet_wf_def)
  have "data_write (length b) (sfp_bytes ?h) ?x = Some ?y" using mem_write_put [OF len] by (simp add: data_write_def)
  moreover have "packet_wf ?y" using w(1) len by (simp add: packet_wf_def)
  moreover have "pdata ?y = b" using take_drop_put_below [of DATA_OFFSET "length b" "DATA_OFFSET + length b" "sfp_bytes ?h" "bytes x"] len w(2) n
    by (simp add: pdata_def)
  ultimately show ?thesis using assms(2,4) l r n
    by (simp add: csp_sfp_header_remove_def sfp_bytes_def Let_def)
qed

text \<open>One fragment: its bytes are written at its offset.\<close>

lemma recv_fragment:
  assumes "accounts (add_mset p H) s" "sfp_fragment s tot off p b" "off + length b \<le> unat tot"
    "(case data of None \<Rightarrow> malloc (unat tot) | Some d \<Rightarrow> Some d) = Some d" "length d = unat tot" "data \<noteq> None \<Longrightarrow> datasize = tot"
  shows "\<exists>s'. csp_sfp_recv_packet malloc p data datasize (of_nat off) s =
      Some (if off + length b = unat tot then Sfp_Done (mem_put off b d) else if b = [] then Sfp_Error CSP_ERR_SFP
            else Sfp_More (mem_put off b d) tot (of_nat (off + length b)), s') \<and>
    accounts H s' \<and> arr_conn s' = arr_conn s \<and> (\<forall>k. k \<noteq> p \<longrightarrow> get_packet k s' = get_packet k s)"
proof -
  have o: "unat (of_nat off :: u32) = off" "unat (of_nat (off + length b) :: u32) = off + length b"
    using assms(3) unsigned_less [of tot, where ?'a = nat] by (simp_all del: of_nat_add)
  then have ol: "(of_nat off :: u32) \<le> tot" using assms(3) by (simp add: word_le_nat_alt)
  from assms(2) obtain x where x: "get_packet p s = Some x" "packet_wf x" "flags (pid x) AND CSP_FFRAG \<noteq> 0"
    "pdata x = b @ sfp_bytes \<lparr>sfp_offset = htobe32 (of_nat off), sfp_totalsize = htobe32 tot\<rparr>" by (auto simp: sfp_fragment_def)
  from header_remove_fragment [OF x(2-4) ol] obtain y where y: "csp_sfp_header_remove x = Some (Some \<lparr>sfp_offset = of_nat off, sfp_totalsize = tot\<rparr>, y)"
    "packet_wf y" "unat (plen y) = length b" "pdata y = b" by blast
  let ?s = "put_packet p y s"
  have a: "accounts (add_mset p H) ?s" using accounts_put [OF assms(1)] y(2) by (simp add: packet_wf_def)
  note f = accounts_free [OF a]
  have p: "p < length (csp_buffer_pool s)" using x(1) by (auto simp: get_packet_def split: if_splits)
  have u: "(ucast (plen y) :: u32) = of_nat (length b)" by (metis y(3) of_nat_unat)
  have s: "(of_nat off + ucast (plen y) :: u32) = of_nat (off + length b)" by (simp add: u)
  have le: "\<not> (of_nat (off + length b) :: u32) > tot" "tot \<le> (of_nat (off + length b) :: u32) \<longleftrightarrow> off + length b = unat tot"
    using o(2) assms(3) by (auto simp: word_le_nat_alt word_less_nat_alt)
  have r: "data_read 0 (unat (plen y)) y = Some b" using data_read_pdata [OF y(2)] y(4) by simp
  have m: "mem_write (unat (of_nat off :: u32)) b d = Some (mem_put off b d)" using o(1) mem_write_put [of off b d] assms(3,5) by simp
  have z: "plen y = 0 \<longleftrightarrow> b = []" using y(3) by (metis length_0_conv unat_eq_zero)
  have "csp_sfp_recv_packet malloc p data datasize (of_nat off) s =
      Some (if off + length b = unat tot then Sfp_Done (mem_put off b d) else if b = [] then Sfp_Error CSP_ERR_SFP
            else Sfp_More (mem_put off b d) tot (of_nat (off + length b)), give_buffer p ?s)"
    using x(1) y(1) assms(4,6) s le r m z f(1)
    by (cases data) (simp_all add: csp_sfp_recv_packet_def Let_def del: of_nat_add)
  then show ?thesis using f(2) get_put_packet [OF p] by simp
qed

text \<open>A packet in hand is in no queue.\<close>

lemma held_not_in_conn:
  assumes "accounts (add_mset p H) s" "n < length (arr_conn s)"
  shows "Some p \<notin> set (queue_list (rx_queue (arr_conn s ! n)))"
proof
  assume "Some p \<in> set (queue_list (rx_queue (arr_conn s ! n)))"
  then have "p \<in> set (conn_packets (arr_conn s ! n))" by (force simp: conn_packets_def List.map_filter_def)
  then have "p \<in> set (concat (map conn_packets (arr_conn s)))" using nth_mem [OF assms(2)] by auto
  then have q: "p \<in># queued s" by (auto simp: queued_def)
  have "count (mset (free_list s) + queued s + add_mset p H) p = 1"
    using assms(1) accounts_held(2) [OF assms(1)] by (simp add: accounts_def)
  then have "count (queued s) p = 0" by simp
  then show False using q not_in_iff [of p "queued s"] by blast
qed

lemma mem_put_prefix:
  assumes "off + length b \<le> length d"
  shows "take (off + length b) (mem_put off b d) = take off d @ b" "length (mem_put off b d) = length d"
  using assms by (simp_all add: mem_put_def)

lemma recv_stream:
  assumes "probe_read io = (\<lambda>b. b)"
  shows "accounts (add_mset p H) s \<Longrightarrow> n < length (arr_conn s) \<Longrightarrow> c_state (arr_conn s ! n) = CONN_OPEN \<Longrightarrow>
    \<not> has_flag (flags (idin (arr_conn s ! n))) CSP_FRDP \<Longrightarrow> queue_list (rx_queue (arr_conn s ! n)) = map (Some \<circ> fst) fs @ es \<Longrightarrow>
    sfp_stream s tot off ((p, b) # fs) \<Longrightarrow> off + length b + length (concat (map snd fs)) = unat tot \<Longrightarrow>
    (case data of None \<Rightarrow> malloc (unat tot) | Some d \<Rightarrow> Some d) = Some d \<Longrightarrow> length d = unat tot \<Longrightarrow> (data \<noteq> None \<Longrightarrow> datasize = tot) \<Longrightarrow>
    \<exists>s'. csp_sfp_recv_loop io malloc (Some n) timeout p (data, datasize, of_nat off) s =
      Some ((CSP_ERR_NONE, Some (take off d @ b @ concat (map snd fs))), s') \<and> accounts H s'"
proof (induction fs arbitrary: p b off data datasize d s)
  case Nil
  have f: "sfp_fragment s tot off p b" "off + length b = unat tot" using Nil by simp_all
  from recv_fragment [where malloc = malloc and data = data and d = d, OF Nil.prems(1) f(1) _ Nil.prems(8,9,10)] f(2) obtain s' where
    "csp_sfp_recv_packet malloc p data datasize (of_nat off) s = Some (Sfp_Done (mem_put off b d), s')" "accounts H s'" by auto
  moreover have "mem_put off b d = take off d @ b" using f(2) Nil.prems(9) by (simp add: mem_put_def)
  ultimately show ?case by (subst csp_sfp_recv_loop.simps) simp
next
  case (Cons g fs)
  obtain p' b' where g: "g = (p', b')" by (cases g)
  have f: "sfp_fragment s tot off p b" "b \<noteq> []" "sfp_stream s tot (off + length b) ((p', b') # fs)" "b' \<noteq> []" using Cons.prems(6) g by simp_all
  have le: "off + length b \<le> unat tot" "off + length b \<noteq> unat tot" using Cons.prems(7) g f(4) by auto
  let ?d = "mem_put off b d"
  from recv_fragment [where malloc = malloc and data = data and d = d, OF Cons.prems(1) f(1) le(1) Cons.prems(8,9,10)] le f(2) obtain s1 where
    s1: "csp_sfp_recv_packet malloc p data datasize (of_nat off) s = Some (Sfp_More ?d tot (of_nat (off + length b)), s1)"
    "accounts H s1" "arr_conn s1 = arr_conn s" "\<forall>k. k \<noteq> p \<longrightarrow> get_packet k s1 = get_packet k s" by auto
  let ?c = "(arr_conn s ! n)\<lparr>rx_queue := queue_pop (rx_queue (arr_conn s ! n))\<rparr>"
  let ?s2 = "put_conn n ?c s1"
  have q: "queue_list (rx_queue (arr_conn s1 ! n)) = Some p' # map (Some \<circ> fst) fs @ es" using Cons.prems(5) g s1(3) by simp
  have n: "n < length (arr_conn s1)" using Cons.prems(2) s1(3) by simp
  have o: "c_state (arr_conn s1 ! n) = CONN_OPEN" using Cons.prems(3) s1(3) by simp
  have r: "csp_read (probe_read io) (io_nexthop io) (others_read io) (Some n) timeout s1 = Some (Some p', ?s2)"
    "accounts (add_mset p' H) ?s2" "queue_list (queue_pop (rx_queue (arr_conn s ! n))) = map (Some \<circ> fst) fs @ es"
    using read_item_eq(1) [OF s1(2) n o q, of "\<lambda>b. b" "io_nexthop io" "others_read io" timeout]
      read_item_eq(2,3) [OF s1(2) n o q, of "\<lambda>b. b"] Cons.prems(4) s1(3) assms by simp_all
  have "Some p \<notin> set (queue_list (rx_queue (arr_conn s ! n)))" by (rule held_not_in_conn [OF Cons.prems(1,2)])
  then have "get_packet k ?s2 = get_packet k s" if "k \<in> fst ` set ((p', b') # fs)" for k
    using that s1(4) Cons.prems(5) g by auto
  then have st: "sfp_stream ?s2 tot (off + length b) ((p', b') # fs)" using sfp_stream_cong [of "(p', b') # fs" ?s2 s] f(3) by blast
  have m: "length ?d = unat tot" "take (off + length b) ?d = take off d @ b" using mem_put_prefix [of off b d] le(1) Cons.prems(9) by simp_all
  have "\<exists>s'. csp_sfp_recv_loop io malloc (Some n) timeout p' (Some ?d, tot, of_nat (off + length b)) ?s2 =
      Some ((CSP_ERR_NONE, Some (take (off + length b) ?d @ b' @ concat (map snd fs))), s') \<and> accounts H s'"
    by (rule Cons.IH [OF r(2) _ _ _ _ st _ _ m(1)]) (use Cons.prems(2,3,4,7) s1(3) r(3) g in simp_all)
  then show ?case using s1(1) r(1) m(2) g by (subst csp_sfp_recv_loop.simps) (simp del: of_nat_add)
qed

section \<open>Fragmentation\<close>

text \<open>The pieces of the data that the sender's loop makes.\<close>

function pieces :: "nat \<Rightarrow> u8 list \<Rightarrow> u8 list list" where
  "pieces m d = (if m = 0 \<or> d = [] then [] else take m d # pieces m (List.drop m d))"
  by pat_completeness auto
termination pieces by (relation "measure (\<lambda>(m, d). length d)") auto

declare pieces.simps [simp del]

lemma concat_pieces: "m \<noteq> 0 \<Longrightarrow> concat (pieces m d) = d"
  by (induction m d rule: pieces.induct) (subst pieces.simps, simp)

lemma csp_sfp_packet_content:
  assumes "length (bytes x) = PACKET_BYTES" "length d = unat sz" "unat sz + SFP_HEADER_SIZE \<le> CSP_BUFFER_SIZE"
  shows "\<exists>y. csp_sfp_packet x d sz sent tot = Some y \<and> packet_wf y \<and> pid y = pid x \<and>
    pdata y = d @ sfp_bytes \<lparr>sfp_offset = htobe32 sent, sfp_totalsize = htobe32 tot\<rparr>"
proof -
  let ?h = "sfp_bytes \<lparr>sfp_offset = htobe32 sent, sfp_totalsize = htobe32 tot\<rparr>"
  let ?x = "x\<lparr>bytes := mem_put DATA_OFFSET d (bytes x), plen := ucast sz\<rparr>"
  have l: "DATA_OFFSET + length d \<le> length (bytes x)" using assms by (simp add: packet_wf_def)
  have u: "unat (ucast sz :: u16) = length d"
    using assms(2,3) by (simp add: unsigned_ucast_eq take_bit_nat_eq_self)
  have w: "packet_wf ?x" using assms l u by (simp add: packet_wf_def)
  have d: "pdata ?x = d" using u take_drop_put_same [OF l] by (simp add: pdata_def)
  from data_write_trailer [OF w, of ?h 8] assms(2,3) u obtain y where y: "data_write (length d) ?h ?x = Some y"
    "packet_wf (y\<lparr>plen := plen ?x + of_nat 8\<rparr>)" "pid y = pid ?x" "pdata (y\<lparr>plen := plen ?x + of_nat 8\<rparr>) = pdata ?x @ ?h" by auto
  have "data_write (length d) ?h (?x\<lparr>plen := plen ?x + 8\<rparr>) = Some (y\<lparr>plen := plen ?x + 8\<rparr>)"
    using y(1) by (auto simp: data_write_def map_option_case split: option.splits)
  then show ?thesis using y(2-4) d u mem_write_put [OF l]
    by (simp add: csp_sfp_packet_def csp_sfp_header_add_def data_write_def [of 0] Let_def)
qed

text \<open>All the fragments of the data in order in the connection's queue: the receiver gives the data back and frees the packets.\<close>

lemma recv_pieces:
  assumes "accounts H s" "n < length (arr_conn s)" "c_state (arr_conn s ! n) = CONN_OPEN"
    "\<not> has_flag (flags (idin (arr_conn s ! n))) CSP_FRDP" "probe_read io = (\<lambda>b. b)"
    "queue_list (rx_queue (arr_conn s ! n)) = map (Some \<circ> fst) fs @ es"
    "sfp_stream s tot 0 fs" "map snd fs = pieces m d" "m \<noteq> 0" "d \<noteq> []" "length d = unat tot"
    "malloc (unat tot) = Some blk" "length blk = unat tot"
  shows "\<exists>s'. csp_sfp_recv io malloc (Some n) timeout s = Some ((CSP_ERR_NONE, Some d), s') \<and> accounts H s'"
proof -
  have c: "concat (map snd fs) = d" using concat_pieces [OF assms(9)] assms(8) by simp
  then obtain p b gs where fs: "fs = (p, b) # gs" using assms(10) by (cases fs) auto
  have q: "queue_list (rx_queue (arr_conn s ! n)) = Some p # map (Some \<circ> fst) gs @ es" using assms(6) fs by simp
  let ?s = "put_conn n ((arr_conn s ! n)\<lparr>rx_queue := queue_pop (rx_queue (arr_conn s ! n))\<rparr>) s"
  have r: "csp_read (probe_read io) (io_nexthop io) (others_read io) (Some n) timeout s = Some (Some p, ?s)"
    "accounts (add_mset p H) ?s" "queue_list (queue_pop (rx_queue (arr_conn s ! n))) = map (Some \<circ> fst) gs @ es"
    using read_item_eq(1) [OF assms(1-3) q, of "\<lambda>b. b" "io_nexthop io" "others_read io" timeout]
      read_item_eq(2,3) [OF assms(1-3) q, of "\<lambda>b. b"] assms(4,5) by simp_all
  have st: "sfp_stream ?s tot 0 ((p, b) # gs)" using sfp_stream_cong [of "(p, b) # gs" ?s s tot 0] assms(7) fs by simp
  have l: "length b + length (concat (map snd gs)) = unat tot" using c fs assms(11) by auto
  have "\<exists>s'. csp_sfp_recv_loop io malloc (Some n) timeout p (None, 0, of_nat 0) ?s =
      Some ((CSP_ERR_NONE, Some (take 0 blk @ b @ concat (map snd gs))), s') \<and> accounts H s'"
    by (rule recv_stream [OF assms(5) r(2) _ _ _ _ st]) (use assms(2,3,4,12,13) r(3) l in simp_all)
  then show ?thesis using r(1) c fs by (simp add: csp_sfp_recv_def csp_sfp_recv_fp_def)
qed

text \<open>No mutation, no other thread, and the loopback interface.\<close>

definition quiet_io :: io_env where
  "quiet_io = \<lparr>probe_send = (\<lambda>b. b), probe_read = (\<lambda>b. b), io_nexthop = csp_lo_tx, others_send = (\<lambda>_ s. s),
     others_read = (\<lambda>s. s), others_connect = (\<lambda>_ s. s)\<rparr>"

end
