(* ===== verification/Csp_Sfp_Link.thy ===== *)
theory Csp_Sfp_Link
  imports Csp_Sfp Csp_Hello
begin

text \<open>
  The fragmentation protocol from end to end, on a node that sends to itself: \<^verbatim>\<open>csp_sfp_send\<close> (\<^verbatim>\<open>src/csp_sfp.c\<close>) puts its fragments through
  \<^verbatim>\<open>csp_send\<close> and the loopback interface into the input queue, the router (\<^verbatim>\<open>src/csp_route.c\<close>) moves them to the
  connection of the receiver, and \<^verbatim>\<open>csp_sfp_recv\<close> puts them together.
\<close>

section \<open>The link\<close>

text \<open>
  What a packet carries that is sent as a fragment on the connection \<open>n\<close>, and two open connections of a node without RDP: packets with the
  identifier \<open>i\<close> that are sent on \<open>n\<close> come by the loopback interface, which is the only one, to \<open>m\<close>.
\<close>

definition sfp_id :: "nat \<Rightarrow> node \<Rightarrow> csp_id_t" where
  "sfp_id n s = (idout (arr_conn s ! n))\<lparr>flags := flags (idout (arr_conn s ! n)) OR CSP_FFRAG, src := if_addr (ifaces s ! 0)\<rparr>"

definition sfp_link :: "nat \<Rightarrow> nat \<Rightarrow> csp_id_t \<Rightarrow> node \<Rightarrow> bool" where
  "sfp_link n m i s \<longleftrightarrow> env_inv s \<and> route_inv s \<and> quiet_router s \<and> iflist s [0] \<and> if_mtu (ifaces s ! 0) = 0 \<and>
     in_subnet s (dst i) 0 \<and> for_me s 0 i \<and> plain_flags (flags i) \<and> (\<exists>k b. listening s (dport i) k b) \<and>
     n < length (arr_conn s) \<and> n \<noteq> m \<and> c_state (arr_conn s ! n) = CONN_OPEN \<and> sfp_id n s = i \<and>
     csp_conn_find_existing i s = Some m \<and> plain_opts (c_opts (arr_conn s ! m)) \<and> dest_socket (arr_conn s ! m) = None"

text \<open>The parts of a connection that the link depends on, and the transitions that keep it.\<close>

definition conn_key where
  "conn_key c = (c_state c, c_type c, idin c, c_opts c, dest_socket c, (idout c)\<lparr>flags := flags (idout c) OR CSP_FFRAG\<rparr>)"

lemma map_update_same: "f c = f (xs ! n) \<Longrightarrow> map f (xs[n := c]) = map f xs"
  by (metis list_update_id map_update)

lemma conn_key_fields:
  assumes "conn_key c = conn_key d"
  shows "c_state c = c_state d" "c_opts c = c_opts d" "dest_socket c = dest_socket d" "existing_match i c = existing_match i d"
    "(idout c)\<lparr>flags := flags (idout c) OR CSP_FFRAG, src := a\<rparr> = (idout d)\<lparr>flags := flags (idout d) OR CSP_FFRAG, src := a\<rparr>"
  using assms by (auto simp: conn_key_def existing_match_def)

lemma sfp_link_frame:
  assumes "sfp_link n m i s" "env s' = env s" "csp_promisc_enabled s' = csp_promisc_enabled s" "sockets s' = sockets s" "route_inv s'"
    "map conn_key (arr_conn s') = map conn_key (arr_conn s)"
  shows "sfp_link n m i s'"
proof -
  have i: "iflist s [0]" "0 < length (ifaces s)" using assms(1) iflist_first by (simp_all add: sfp_link_def)
  have key: "if_addr (ifaces s' ! 0) = if_addr (ifaces s ! 0)" "if_netmask (ifaces s' ! 0) = if_netmask (ifaces s ! 0)"
    "if_mtu (ifaces s' ! 0) = if_mtu (ifaces s ! 0)"
    using env_iface [OF assms(2) i(2)] by (simp_all add: iface_key_def)
  note l = env_lengths [OF assms(2)]
  have c: "conn_key (arr_conn s' ! j) = conn_key (arr_conn s ! j)" if "j < length (arr_conn s)" for j
    using assms(6) that l(3) by (metis nth_map)
  have len: "length (arr_conn s) = CSP_CONN_MAX" using assms(1) by (simp add: sfp_link_def env_inv_def)
  have "csp_conn_find_existing i s' = csp_conn_find_existing i s"
    unfolding csp_conn_find_existing_def by (rule find_cong) (use conn_key_fields(4) [OF c] len in simp_all)
  moreover have "listening s' (dport i) k b = listening s (dport i) k b" for k b
    using l(5) assms(4) by (simp add: listening_def csp_port_get_callback_def csp_port_get_socket_def port_at_def)
  moreover have "in_subnet s' (dst i) 0 = in_subnet s (dst i) 0" using key l(4) by (simp add: in_subnet_def)
  moreover have "m < length (arr_conn s)" "n < length (arr_conn s)"
    using assms(1) find_existing_Some(1) len by (auto simp: sfp_link_def)
  moreover have "sfp_id n s' = sfp_id n s" using conn_key_fields(5) [OF c] assms(1) key(1) by (simp add: sfp_id_def sfp_link_def)
  ultimately show ?thesis
    using assms(1,3,5) env_inv_env [OF assms(2)] iflist_env [OF assms(2), of "[0]"] key l(3,4) for_me_env [OF assms(2) i(2)]
      conn_key_fields(1-3) [OF c]
    by (simp add: sfp_link_def quiet_router_def)
qed

lemma sfp_link_facts:
  assumes "sfp_link n m i s"
  shows "m < length (arr_conn s)" "0 < length (ifaces s)" "flags i AND CSP_FFRAG \<noteq> 0"
    "c_state (arr_conn s ! m) = CONN_OPEN" "\<not> has_flag (flags (idin (arr_conn s ! m))) CSP_FRDP"
proof -
  have m: "csp_conn_find_existing i s = Some m" using assms by (simp add: sfp_link_def)
  show l: "m < length (arr_conn s)" using find_existing_Some(1) [OF m] assms by (simp add: sfp_link_def env_inv_def)
  show "0 < length (ifaces s)" using assms by (simp add: sfp_link_def env_inv_def)
  show o: "c_state (arr_conn s ! m) = CONN_OPEN" using find_existing_Some(2) [OF m] by (simp add: existing_match_def)
  have "plain_conn (arr_conn s ! m)" using assms nth_mem [OF l] by (simp add: sfp_link_def route_inv_def)
  then show "\<not> has_flag (flags (idin (arr_conn s ! m))) CSP_FRDP" using o by (simp add: plain_conn_def)
  have "(f OR CSP_FFRAG) AND CSP_FFRAG = CSP_FFRAG" for f :: u8 by (rule bit_word_eqI) (auto simp: bit_simps)
  moreover have "flags i = flags (idout (arr_conn s ! n)) OR CSP_FFRAG" using assms by (auto simp: sfp_link_def sfp_id_def)
  ultimately show "flags i AND CSP_FFRAG \<noteq> 0" by simp
qed

section \<open>The sender\<close>

definition lo_item :: "nat \<Rightarrow> csp_qfifo_t" where
  "lo_item q = \<lparr>q_iface = Some 0, q_packet = Some q\<rparr>"

lemma queued_not_free:
  assumes "accounts H s" "queue_list (qfifo_queue s) = map lo_item qs" "r \<in> set qs"
  shows "r \<notin> set (free_list s)"
proof
  assume f: "r \<in> set (free_list s)"
  have "qfifo_packets s = qs" using assms(2) by (simp add: qfifo_packets_def lo_item_def List.map_filter_def comp_def)
  then have "r \<in># queued s" using assms(3) by (simp add: queued_def)
  then have q: "0 < count (queued s) r" "0 < count (mset (free_list s)) r" using f by simp_all
  moreover have "count (mset (free_list s) + queued s + H) r \<le> 1"
    using assms(1) by (cases "r < CSP_BUFFER_COUNT") (simp_all add: accounts_def count_mset_set)
  ultimately show False using q by simp
qed

text \<open>One fragment: it is the last packet of the input queue.\<close>

lemma sfp_send_step:
  fixes mtu sent tot :: u32
  defines "sz \<equiv> if tot - sent > mtu then mtu else tot - sent"
  assumes "accounts H s" "sfp_link n m i s" "free_list s = p # q # fs" "items (qfifo_queue s) < qsize (qfifo_queue s)"
    "probe_send io = (\<lambda>b. b)" "io_nexthop io = csp_lo_tx" "unat mtu + SFP_HEADER_SIZE \<le> CSP_BUFFER_SIZE" "mtu \<noteq> 0" "sent < tot"
    "fetch (unat sent) (unat sz) = Some b" "length b = unat sz"
  shows "\<exists>s' x. csp_sfp_send_loop io n fetch tot mtu sent s = csp_sfp_send_loop io n fetch tot mtu (sent + sz) s' \<and>
    accounts H s' \<and> sfp_link n m i s' \<and> get_packet q s' = Some x \<and> packet_wf x \<and> pid x = i \<and>
    pdata x = b @ sfp_bytes \<lparr>sfp_offset = htobe32 sent, sfp_totalsize = htobe32 tot\<rparr> \<and>
    qfifo_queue s' = queue_push (lo_item q) (qfifo_queue s) \<and> free_list s' = fs @ [p] \<and>
    map rx_queue (arr_conn s') = map rx_queue (arr_conn s) \<and> (\<forall>r. r \<noteq> p \<and> r \<noteq> q \<longrightarrow> get_packet r s' = get_packet r s)"
proof -
  let ?c = "arr_conn s ! n"
  let ?ido = "(idout ?c)\<lparr>flags := flags (idout ?c) OR CSP_FFRAG\<rparr>"
  have l: "n < length (arr_conn s)" "c_state ?c = CONN_OPEN" "iflist s [0]" "if_mtu (ifaces s ! 0) = 0" "in_subnet s (dst i) 0"
    "plain_flags (flags i)" "route_inv s" "env_inv s" and i: "i = ?ido\<lparr>src := if_addr (ifaces s ! 0)\<rparr>"
    using assms(3) by (auto simp: sfp_link_def sfp_id_def)
  have pool: "pool_inv s" using assms(2) by (simp add: accounts_def)
  define s1 where "s1 = take_buffer p s"
  have get: "csp_buffer_get (unat mtu + SFP_HEADER_SIZE) s = Some (Some p, s1)"
    using csp_buffer_get_eq [OF pool assms(8)] assms(4) by (simp add: s1_def)
  have a1: "accounts (add_mset p H) s1" using accounts_take [OF assms(2,4)] by (simp add: s1_def)
  obtain x0 where x0: "get_packet p s1 = Some x0" "length (bytes x0) = PACKET_BYTES" using accounts_packet [OF a1] by blast
  have sz: "unat sz + SFP_HEADER_SIZE \<le> CSP_BUFFER_SIZE" using assms(8) by (auto simp: sz_def not_less word_le_nat_alt)
  from csp_sfp_packet_content [OF x0(2) assms(12) sz, of sent tot] obtain y where y: "csp_sfp_packet x0 b sz sent tot = Some y" "packet_wf y"
    "pdata y = b @ sfp_bytes \<lparr>sfp_offset = htobe32 sent, sfp_totalsize = htobe32 tot\<rparr>" by blast
  have n1: "n < length (arr_conn s1)" "arr_conn s1 = arr_conn s" using l(1) by (simp_all add: s1_def)
  define t where "t = put_packet p y (put_conn n (?c\<lparr>idout := ?ido\<rparr>) s1)"
  have acct: "accounts (add_mset p H) t"
    using accounts_put [OF accounts_conn_same [OF a1 n1(1), of "?c\<lparr>idout := ?ido\<rparr>"]] y(2) n1(2) by (simp add: t_def packet_wf_def)
  have p: "p < length (csp_buffer_pool s1)" using x0(1) by (auto simp: get_packet_def split: if_splits)
  have "p < length (csp_buffer_pool (put_conn n (?c\<lparr>idout := ?ido\<rparr>) s1))" using p by (simp add: put_conn_def)
  then have "get_packet r t = (if r = p then Some y else get_packet r (put_conn n (?c\<lparr>idout := ?ido\<rparr>) s1))" for r
    unfolding t_def by (rule get_put_packet)
  then have gt: "get_packet p t = Some y" "\<And>r. r \<noteq> p \<Longrightarrow> get_packet r t = get_packet r s"
    using take_buffer_inv(4) [OF pool assms(4)] by (simp_all add: s1_def)
  have arr: "arr_conn t = (arr_conn s)[n := ?c\<lparr>idout := ?ido\<rparr>]" using n1(2) by (simp add: t_def put_conn_def)
  have envt: "env t = env s" by (simp add: t_def s1_def)
  have ft: "free_list t = q # fs" "qfifo_queue t = qfifo_queue s" "csp_promisc_enabled t = csp_promisc_enabled s" "sockets t = sockets s"
    "ifaces t = ifaces s"
    using take_buffer_inv(2) [OF pool assms(4)] by (simp_all add: t_def s1_def take_buffer_def put_packet_def put_conn_def free_list_def)
  have fl: "flags i = flags (idout ?c) OR CSP_FFRAG" by (simp add: i)
  have key: "map conn_key (arr_conn t) = map conn_key (arr_conn s)"
    unfolding arr by (rule map_update_same) (simp add: conn_key_def or.assoc)
  have rt: "route_inv t"
  proof (rule route_inv_set [OF l(7) _ envt arr])
    show "conn_inv t" by (rule conn_inv_upd [OF _ l(1) arr]) (use l(7) in \<open>simp_all add: route_inv_def\<close>)
    have "plain_conn ?c" "sock_ok s (dest_socket ?c)" using l(1,7) nth_mem [OF l(1)] by (simp_all add: route_inv_def)
    then show "plain_conn (?c\<lparr>idout := ?ido\<rparr>)" "sock_ok s (dest_socket (?c\<lparr>idout := ?ido\<rparr>))"
      using l(6) fl by (simp_all add: plain_conn_def plain_flags_def)
  qed
  have lt: "sfp_link n m i t" by (rule sfp_link_frame [OF assms(3) envt ft(3,4) rt key])
  have st: "masks_ok t" "iflist t [0]" "in_subnet t (dst ?ido) 0" "if_mtu (ifaces t ! 0) = 0" "plain_flags (flags ?ido)"
    using lt l(6) by (simp_all add: sfp_link_def env_inv_def i)
  from send_direct_lo [OF acct gt(1) y(2) st(5,1-4) ft(1)] assms(5) ft(2) obtain s' where
    s': "csp_send_direct csp_lo_tx ?ido p None t = Some ((), s')" "accounts H s'" "env s' = env t"
      "qfifo_queue s' = queue_push (lo_item q) (qfifo_queue s)" "get_packet q s' = Some (y\<lparr>pid := i\<rparr>)" "send_frame s' = send_frame t"
      "csp_promisc_enabled s' = csp_promisc_enabled t" "free_list s' = fs @ [p]" "\<forall>r. r \<noteq> q \<longrightarrow> get_packet r s' = get_packet r t"
    using ft(5) by (auto simp: i lo_item_def)
  have f': "arr_conn s' = arr_conn t" "sockets s' = sockets t" using send_frame_fields [OF s'(6)] by simp_all
  have link: "sfp_link n m i s'"
    by (rule sfp_link_frame [OF lt s'(3,7) f'(2) route_inv_conns [OF rt f'(1) s'(3)]]) (simp add: f'(1))
  have nt: "n < length (arr_conn t)" "arr_conn t ! n = ?c\<lparr>idout := ?ido\<rparr>" using l(1) by (simp_all add: arr)
  have nf: "\<not> has_flag (flags ?ido) CSP_FRDP" using st(5) by (simp add: plain_flags_def)
  have "csp_send (probe_send io) csp_lo_tx (others_send io) (Some n) (Some p) t = Some ((), s')"
    using send_open_plain [OF nt(1), of ?ido "probe_send io" csp_lo_tx "others_send io" p] nt l(2) nf s'(1) assms(6)
      put_conn_same [of n t] by simp
  then have "csp_sfp_send_loop io n fetch tot mtu sent s = csp_sfp_send_loop io n fetch tot mtu (sent + sz) s'"
    using get x0(1) y(1) assms(7,9-11) n1 upd_conn_eq [OF n1(1)]
    by (subst csp_sfp_send_loop.simps) (simp add: sz_def t_def)
  moreover have "map rx_queue (arr_conn s') = map rx_queue (arr_conn s)"
    unfolding f' arr by (rule map_update_same) simp
  moreover have "packet_wf (y\<lparr>pid := i\<rparr>)" "pdata (y\<lparr>pid := i\<rparr>) = pdata y" using y(2) by (simp_all add: packet_wf_def pdata_def)
  ultimately show ?thesis using s'(2,4,5,8,9) link y(3) gt(2) by (intro exI [of _ s'] exI [of _ "y\<lparr>pid := i\<rparr>"]) simp
qed

text \<open>The fragment is the one that the receiver expects.\<close>

lemma sent_fragment:
  assumes "sfp_link n m i s" "get_packet q s = Some x" "packet_wf x" "pid x = i"
    "pdata x = b @ sfp_bytes \<lparr>sfp_offset = htobe32 (of_nat off), sfp_totalsize = htobe32 tot\<rparr>"
  shows "sfp_fragment s tot off q b"
  using assms sfp_link_facts(3) [OF assms(1)] by (simp add: sfp_fragment_def)

definition in_fifo :: "csp_id_t \<Rightarrow> nat \<Rightarrow> node \<Rightarrow> bool" where
  "in_fifo i q s \<longleftrightarrow> (\<exists>x. get_packet q s = Some x \<and> packet_wf x \<and> pid x = i)"

lemma in_fifo_cong: "get_packet q s' = get_packet q s \<Longrightarrow> in_fifo i q s' = in_fifo i q s"
  by (simp add: in_fifo_def)

lemma fragment_cong: "get_packet q s' = get_packet q s \<Longrightarrow> sfp_fragment s' tot off q b = sfp_fragment s tot off q b"
  by (simp add: sfp_fragment_def)

text \<open>The loop: all pieces of what is left of the data are in the input queue, one packet each, in their order.\<close>

lemma sfp_send_run:
  assumes "probe_send io = (\<lambda>b. b)" "io_nexthop io = csp_lo_tx" "unat mtu + SFP_HEADER_SIZE \<le> CSP_BUFFER_SIZE" "mtu \<noteq> 0" "length d = unat tot"
  shows "bs = pieces (unat mtu) (List.drop off d) \<Longrightarrow> off \<le> length d \<Longrightarrow> accounts H s \<Longrightarrow> sfp_link n m i s \<Longrightarrow>
    queue_list (qfifo_queue s) = map lo_item qs \<Longrightarrow> length qs + length bs \<le> qsize (qfifo_queue s) \<Longrightarrow> length bs < length (free_list s) \<Longrightarrow>
    \<exists>s' ps. csp_sfp_send_loop io n (\<lambda>sent size. mem_read sent size d) tot mtu (of_nat off) s = Some (CSP_ERR_NONE, s') \<and>
      accounts H s' \<and> sfp_link n m i s' \<and> queue_list (qfifo_queue s') = map lo_item (qs @ ps) \<and> length ps = length bs \<and>
      sfp_stream s' tot off (zip ps bs) \<and> (\<forall>q \<in> set ps. in_fifo i q s') \<and>
      map rx_queue (arr_conn s') = map rx_queue (arr_conn s) \<and> (\<forall>r \<in> set qs. get_packet r s' = get_packet r s)"
proof (induction bs arbitrary: off s qs)
  case Nil
  have "List.drop off d = []" using Nil.prems(1) assms(4) by (subst (asm) pieces.simps) (simp add: unat_eq_0 split: if_splits)
  then have "off = unat tot" using Nil.prems(2) assms(5) by simp
  then have "\<not> (of_nat off :: u32) < tot" by simp
  then show ?case using Nil by (subst csp_sfp_send_loop.simps) simp
next
  case (Cons b bs)
  let ?m = "unat mtu"
  have o: "unat (of_nat off :: u32) = off" using Cons.prems(2) assms(5) unsigned_less [of tot, where ?'a = nat] by simp
  have ne: "List.drop off d \<noteq> []" "?m \<noteq> 0" using Cons.prems(1) by (subst (asm) pieces.simps; simp split: if_splits)+
  have b: "b = take ?m (List.drop off d)" "bs = pieces ?m (List.drop ?m (List.drop off d))"
    using Cons.prems(1) ne by (subst (asm) pieces.simps; simp)+
  let ?sz = "if tot - of_nat off > mtu then mtu else tot - of_nat off"
  have lt: "(of_nat off :: u32) < tot" using ne(1) o assms(5) by (simp add: word_less_nat_alt)
  have dif: "unat (tot - of_nat off) = length d - off" using lt o assms(5) by (simp add: unat_sub)
  have "unat ?sz = min ?m (length d - off)" using dif by (auto simp: min_def word_less_nat_alt)
  then have lb: "length b = unat ?sz" using b(1) by simp
  have fetch: "mem_read (unat (of_nat off :: u32)) (unat ?sz) d = Some b"
  proof -
    have "off + length b \<le> length d" using b(1) Cons.prems(2) by simp
    moreover have "take (length b) (List.drop off d) = b" by (metis b(1) append_eq_conv_conj append_take_drop_id)
    ultimately show ?thesis unfolding lb [symmetric] o by (simp only: mem_read_def if_True)
  qed
  obtain p q fs where free: "free_list s = p # q # fs" using Cons.prems(7) by (cases "free_list s"; cases "tl (free_list s)") auto
  have wq: "queue_wf (qfifo_queue s)" using Cons.prems(3) by (simp add: accounts_def queues_inv_def)
  have items: "items (qfifo_queue s) = length qs" using Cons.prems(5) length_queue_list [of "qfifo_queue s"] by simp
  then have room: "items (qfifo_queue s) < qsize (qfifo_queue s)" using Cons.prems(6) by simp
  from sfp_send_step [where fetch = "\<lambda>sent size. mem_read sent size d", OF Cons.prems(3,4) free room assms(1-4) lt fetch lb] obtain s1 x where
    s1: "csp_sfp_send_loop io n (\<lambda>sent size. mem_read sent size d) tot mtu (of_nat off) s =
        csp_sfp_send_loop io n (\<lambda>sent size. mem_read sent size d) tot mtu (of_nat off + ?sz) s1"
      "accounts H s1" "sfp_link n m i s1" "get_packet q s1 = Some x" "packet_wf x" "pid x = i"
      "pdata x = b @ sfp_bytes \<lparr>sfp_offset = htobe32 (of_nat off), sfp_totalsize = htobe32 tot\<rparr>"
      "qfifo_queue s1 = queue_push (lo_item q) (qfifo_queue s)" "free_list s1 = fs @ [p]"
      "map rx_queue (arr_conn s1) = map rx_queue (arr_conn s)" "\<forall>r. r \<noteq> p \<and> r \<noteq> q \<longrightarrow> get_packet r s1 = get_packet r s" by blast
  have old: "get_packet r s1 = get_packet r s" if "r \<in> set qs" for r
    using queued_not_free [OF Cons.prems(3,5) that] free s1(11) by auto
  have ql: "queue_list (qfifo_queue s1) = map lo_item (qs @ [q])" "qsize (qfifo_queue s1) = qsize (qfifo_queue s)"
    using queue_push_list [OF wq room, of "lo_item q"] Cons.prems(5) s1(8) by (simp_all add: queue_push_def)
  have sum: "(of_nat off + ?sz :: u32) = of_nat (off + length b)" using lb by simp
  have off: "off + length b \<le> length d" "List.drop ?m (List.drop off d) = List.drop (off + length b) d"
    using b(1) ne by (auto simp: min_def ac_simps)
  have fl: "length bs < length (free_list s1)" "length (qs @ [q]) + length bs \<le> qsize (qfifo_queue s1)"
    using Cons.prems(6,7) free s1(9) ql(2) by simp_all
  from Cons.IH [OF _ off(1) s1(2,3) ql(1) fl(2,1)] b(2) off(2) obtain s' ps where
    s': "csp_sfp_send_loop io n (\<lambda>sent size. mem_read sent size d) tot mtu (of_nat (off + length b)) s1 = Some (CSP_ERR_NONE, s')"
      "accounts H s'" "sfp_link n m i s'" "queue_list (qfifo_queue s') = map lo_item ((qs @ [q]) @ ps)" "length ps = length bs"
      "sfp_stream s' tot (off + length b) (zip ps bs)" "\<forall>q \<in> set ps. in_fifo i q s'"
      "map rx_queue (arr_conn s') = map rx_queue (arr_conn s1)" "\<forall>r \<in> set (qs @ [q]). get_packet r s' = get_packet r s1" by auto
  have gq: "get_packet q s' = Some x" using s'(9) s1(4) by simp
  have "sfp_stream s' tot off (zip (q # ps) (b # bs))"
    using sent_fragment [OF s'(3) gq s1(5,6,7)] s'(6) b(1) ne by simp
  moreover have "\<forall>r \<in> set (q # ps). in_fifo i r s'" using s'(7) gq s1(5,6) by (simp add: in_fifo_def)
  moreover have "\<forall>r \<in> set qs. get_packet r s' = get_packet r s" using s'(9) old by simp
  ultimately show ?case using s1(1,10) s'(1-5,8) unfolding sum
    by (intro exI [of _ s'] exI [of _ "q # ps"]) simp
qed

section \<open>The router\<close>

text \<open>\<open>k\<close> rounds of the router.\<close>

primrec route_rounds :: "callback_t \<Rightarrow> nat \<Rightarrow> node \<Rightarrow> node option" where
  "route_rounds cb 0 s = Some s"
| "route_rounds cb (Suc k) s = do { (_, s) \<leftarrow> csp_route_work csp_lo_tx cb s; route_rounds cb k s }"

lemma sfp_route_step:
  assumes "route_client csp_lo_tx cb" "accounts H s" "sfp_link n m i s" "queue_list (qfifo_queue s) = map lo_item (q # ps)" "in_fifo i q s"
    "length (queue_list (rx_queue (arr_conn s ! m))) < qsize (rx_queue (arr_conn s ! m))"
  shows "\<exists>s'. csp_route_work csp_lo_tx cb s = Some (CSP_ERR_NONE, s') \<and> accounts H s' \<and> sfp_link n m i s' \<and>
    queue_list (qfifo_queue s') = map lo_item ps \<and> qsize (rx_queue (arr_conn s' ! m)) = qsize (rx_queue (arr_conn s ! m)) \<and>
    queue_list (rx_queue (arr_conn s' ! m)) = queue_list (rx_queue (arr_conn s ! m)) @ [Some q] \<and> (\<forall>k. get_packet k s' = get_packet k s)"
proof -
  note f = sfp_link_facts [OF assms(3)]
  have l: "route_inv s" "env_inv s" "for_me s 0 i" "quiet_router s" "plain_flags (flags i)" "csp_conn_find_existing i s = Some m"
    "plain_opts (c_opts (arr_conn s ! m))" "dest_socket (arr_conn s ! m) = None"
    using assms(3) by (simp_all add: sfp_link_def)
  obtain k b where b: "listening s (dport i) k b" using assms(3) by (auto simp: sfp_link_def)
  obtain x where x: "get_packet q s = Some x" "packet_wf x" "pid x = i" using assms(5) by (auto simp: in_fifo_def)
  have ql: "queue_list (qfifo_queue s) = \<lparr>q_iface = Some 0, q_packet = Some q\<rparr> # map lo_item ps" using assms(4) by (simp add: lo_item_def)
  have wm: "queue_wf (rx_queue (arr_conn s ! m))" by (rule conn_queue_wf [OF assms(2) f(1)])
  have room: "items (rx_queue (arr_conn s ! m)) < qsize (rx_queue (arr_conn s ! m))" using assms(6) by simp
  let ?c = "(arr_conn s ! m)\<lparr>rx_queue := queue_push (Some q) (rx_queue (arr_conn s ! m))\<rparr>"
  let ?s = "put_conn m ?c (taken 0 x s)"
  have work: "csp_route_work csp_lo_tx cb s = Some (CSP_ERR_NONE, ?s)"
    using route_work_existing [OF l(1,2) assms(2) ql f(2) x(1) _ l(4), of k b m csp_lo_tx cb] x(3) l b room by simp
  have "\<not> has_flag (flags (pid x)) CSP_FRDP" using l(5) x(3) by (simp add: plain_flags_def)
  from route_work_local [OF assms(1) l(2,1) assms(2) ql f(2) x(1,2) this] l(3) x(3) work
  have inv: "accounts H ?s" "env ?s = env s" "route_inv ?s" by auto
  have ar: "arr_conn ?s = (arr_conn s)[m := ?c]" by (simp add: put_conn_def)
  have "sfp_link n m i ?s"
    by (rule sfp_link_frame [OF assms(3) inv(2) _ _ inv(3)], simp_all only: ar)
      (simp_all add: map_update_same conn_key_def put_conn_def)
  moreover have "queue_list (qfifo_queue ?s) = map lo_item ps"
  proof -
    have w: "queue_wf (qfifo_queue s)" using assms(2) by (simp add: accounts_def queues_inv_def)
    have "0 < items (qfifo_queue s)" using ql by (metis length_queue_list length_greater_0_conv list.distinct(1))
    from queue_pop_list [OF w this] ql show ?thesis by (simp add: put_conn_def)
  qed
  ultimately show ?thesis using work inv(1) f(1) queue_push_list [OF wm room, of "Some q"] by (simp add: queue_push_def)
qed

lemma sfp_route_run:
  assumes "route_client csp_lo_tx cb"
  shows "accounts H s \<Longrightarrow> sfp_link n m i s \<Longrightarrow> queue_list (qfifo_queue s) = map lo_item ps \<Longrightarrow> \<forall>q \<in> set ps. in_fifo i q s \<Longrightarrow>
    length (queue_list (rx_queue (arr_conn s ! m))) + length ps \<le> qsize (rx_queue (arr_conn s ! m)) \<Longrightarrow>
    \<exists>s'. route_rounds cb (length ps) s = Some s' \<and> accounts H s' \<and> sfp_link n m i s' \<and>
      queue_list (rx_queue (arr_conn s' ! m)) = queue_list (rx_queue (arr_conn s ! m)) @ map Some ps \<and> (\<forall>k. get_packet k s' = get_packet k s)"
proof (induction ps arbitrary: s)
  case (Cons q ps)
  have q: "in_fifo i q s" using Cons.prems(4) by simp
  have room: "length (queue_list (rx_queue (arr_conn s ! m))) < qsize (rx_queue (arr_conn s ! m))"
    using Cons.prems(5) unfolding list.size by linarith
  from sfp_route_step [OF assms Cons.prems(1-3) q room] obtain s1 where
    s1: "csp_route_work csp_lo_tx cb s = Some (CSP_ERR_NONE, s1)" "accounts H s1" "sfp_link n m i s1" "queue_list (qfifo_queue s1) = map lo_item ps"
      "qsize (rx_queue (arr_conn s1 ! m)) = qsize (rx_queue (arr_conn s ! m))"
      "queue_list (rx_queue (arr_conn s1 ! m)) = queue_list (rx_queue (arr_conn s ! m)) @ [Some q]" "\<forall>k. get_packet k s1 = get_packet k s"
    by blast
  have "in_fifo i r s1 = in_fifo i r s" for r by (rule in_fifo_cong) (use s1(7) in blast)
  then have "\<forall>q \<in> set ps. in_fifo i q s1" using Cons.prems(4) by simp
  moreover have "length (queue_list (rx_queue (arr_conn s1 ! m))) + length ps \<le> qsize (rx_queue (arr_conn s1 ! m))"
    using Cons.prems(5) s1(5,6) by simp
  ultimately obtain s' where "route_rounds cb (length ps) s1 = Some s'" "accounts H s'" "sfp_link n m i s'"
    "queue_list (rx_queue (arr_conn s' ! m)) = queue_list (rx_queue (arr_conn s1 ! m)) @ map Some ps" "\<forall>k. get_packet k s' = get_packet k s1"
    using Cons.IH [OF s1(2-4)] by blast
  then show ?case using s1(1,6,7) by simp
qed simp

section \<open>Properties\<close>

lemma length_pieces: "m \<noteq> 0 \<Longrightarrow> length d \<le> N * m \<Longrightarrow> length (pieces m d) \<le> N"
proof (induction N arbitrary: d)
  case (Suc N)
  have "length (pieces m (List.drop m d)) \<le> N" by (rule Suc.IH) (use Suc.prems in auto)
  then show ?case by (subst pieces.simps) simp
qed (simp add: pieces.simps)

text \<open>C6: Fragmentation from end to end on one node: data that \<^verbatim>\<open>csp_sfp_send\<close> sends on an open connection without RDP, over the loopback interface,
  is the data that \<^verbatim>\<open>csp_sfp_recv\<close> on the connection of the other end gives back, byte by byte, after the router has
  worked as often as there are fragments; and all packets are free again. A fragment holds \<^verbatim>\<open>mtu\<close> bytes, which with the header fit in a buffer; the fragments (at most \<open>N\<close>) wait
  for the router and for the reader, so there must be room for them in the input queue and in the queue of the connection and one
  buffer more than that must be free. The links have no mutation, and \<^verbatim>\<open>malloc\<close> succeeds.\<close>

theorem csp_sfp_roundtrip:
  assumes "route_client csp_lo_tx cb" "accounts H s" "sfp_link n m i s"
    "probe_send io = (\<lambda>b. b)" "probe_read io = (\<lambda>b. b)" "io_nexthop io = csp_lo_tx"
    "mtu \<noteq> 0" "unat mtu + SFP_HEADER_SIZE \<le> CSP_BUFFER_SIZE" "length d = unat tot" "d \<noteq> []" "length d \<le> N * unat mtu"
    "items (qfifo_queue s) = 0" "N \<le> qsize (qfifo_queue s)" "N < length (free_list s)"
    "items (rx_queue (arr_conn s ! m)) = 0" "N \<le> qsize (rx_queue (arr_conn s ! m))"
    "malloc (unat tot) = Some blk" "length blk = unat tot"
  shows "\<exists>k s1 s2 s3. csp_sfp_send io n d tot mtu timeout s = Some (CSP_ERR_NONE, s1) \<and> k \<le> N \<and> route_rounds cb k s1 = Some s2 \<and>
    csp_sfp_recv io malloc (Some m) timeout' s2 = Some ((CSP_ERR_NONE, Some d), s3) \<and> accounts H s3"
proof -
  let ?bs = "pieces (unat mtu) d"
  have mm: "unat mtu \<noteq> 0" using assms(7) by (simp add: unat_eq_0)
  have N: "length ?bs \<le> N" by (rule length_pieces [OF mm assms(11)])
  have "queue_list (qfifo_queue s) = map lo_item []" using assms(12) by (simp add: queue_list_empty_iff)
  from sfp_send_run [OF assms(4,6,8,7,9) _ _ assms(2,3) this, of ?bs 0] N assms(13,14) obtain s1 ps where
    s1: "csp_sfp_send_loop io n (\<lambda>sent size. mem_read sent size d) tot mtu 0 s = Some (CSP_ERR_NONE, s1)"
      "accounts H s1" "sfp_link n m i s1" "queue_list (qfifo_queue s1) = map lo_item ps" "length ps = length ?bs"
      "sfp_stream s1 tot 0 (zip ps ?bs)" "\<forall>q \<in> set ps. in_fifo i q s1" "map rx_queue (arr_conn s1) = map rx_queue (arr_conn s)" by auto
  have m: "m < length (arr_conn s)" "m < length (arr_conn s1)" using sfp_link_facts(1) assms(3) s1(3) by simp_all
  have "rx_queue (arr_conn s1 ! m) = rx_queue (arr_conn s ! m)" using s1(8) m by (metis nth_map)
  then have rx: "queue_list (rx_queue (arr_conn s1 ! m)) = []" "length ps \<le> qsize (rx_queue (arr_conn s1 ! m))"
    using assms(15,16) N s1(5) by (simp_all add: queue_list_empty_iff)
  from sfp_route_run [OF assms(1) s1(2-4,7)] rx obtain s2 where s2: "route_rounds cb (length ps) s1 = Some s2" "accounts H s2" "sfp_link n m i s2"
    "queue_list (rx_queue (arr_conn s2 ! m)) = map Some ps" "\<forall>k. get_packet k s2 = get_packet k s1" by auto
  note f = sfp_link_facts [OF s2(3)]
  have q: "queue_list (rx_queue (arr_conn s2 ! m)) = map (Some \<circ> fst) (zip ps ?bs) @ []"
    using s2(4) s1(5) by (simp add: map_zip_map [symmetric] flip: map_map)
  have st: "sfp_stream s2 tot 0 (zip ps ?bs)" using sfp_stream_cong [of "zip ps ?bs" s2 s1] s2(5) s1(6) by blast
  from recv_pieces [where malloc = malloc, OF s2(2) f(1,4,5) assms(5) q st _ mm assms(10,9,17,18), of timeout'] s1(5) obtain s3 where
    "csp_sfp_recv io malloc (Some m) timeout' s2 = Some ((CSP_ERR_NONE, Some d), s3)" "accounts H s3" by auto
  moreover have "csp_sfp_send io n d tot mtu timeout s = Some (CSP_ERR_NONE, s1)"
    using s1(1) assms(7) by (simp add: csp_sfp_send_def csp_sfp_send_own_memcpy_def)
  ultimately show ?thesis using s2(1) s1(5) N by metis
qed

text \<open>The started node of the test programs with a connection to itself.\<close>

definition own_in :: csp_id_t where
  "own_in = \<lparr>pri = 2, flags = 0, src = 0, dst = 0, dport = 10, sport = 18\<rparr>"

definition own_link :: "node \<Rightarrow> node" where
  "own_link s = put_conn 1 ((arr_conn s ! 1)\<lparr>c_state := CONN_OPEN, c_type := CONN_CLIENT, idin := reply_id own_in, idout := own_in, dest_socket := None\<rparr>)
     (put_conn 0 ((arr_conn s ! 0)\<lparr>c_state := CONN_OPEN, c_type := CONN_SERVER, idin := own_in, idout := reply_id own_in, dest_socket := None, c_opts := 0\<rparr>) s)"

lemma own_link_facts:
  assumes "quiet_node 0 s"
  shows "accounts {#} (own_link s)" "sfp_link 1 0 (own_in\<lparr>flags := CSP_FFRAG\<rparr>) (own_link s)"
    "rx_queue (arr_conn (own_link s) ! 0) = rx_queue (arr_conn s ! 0)" "qfifo_queue (own_link s) = qfifo_queue s"
    "free_list (own_link s) = free_list s"
proof -
  have q: "static 0 s" "route_inv s" "accounts {#} s" "\<forall>c \<in> set (arr_conn s). conn_idle c" "sock_queue 0 [] s"
    using assms by (simp_all add: quiet_node_def)
  have len: "length (arr_conn s) = CSP_CONN_MAX" using q(1) by (simp add: static_def env_inv_def)
  have l: "0 < length (arr_conn s)" "1 < length (arr_conn s)" using len by simp_all
  let ?c = "(arr_conn s ! 0)\<lparr>c_state := CONN_OPEN, c_type := CONN_SERVER, idin := own_in, idout := reply_id own_in, dest_socket := None, c_opts := 0\<rparr>"
  let ?d = "(arr_conn s ! 1)\<lparr>c_state := CONN_OPEN, c_type := CONN_CLIENT, idin := reply_id own_in, idout := own_in, dest_socket := None\<rparr>"
  define s1 where "s1 = put_conn 0 ?c s"
  have a1: "arr_conn s1 = (arr_conn s)[0 := ?c]" by (simp add: s1_def put_conn_def)
  have o: "own_link s = put_conn 1 ?d s1" by (simp add: own_link_def s1_def)
  have a2: "arr_conn (own_link s) = (arr_conn s1)[1 := ?d]" unfolding o by (simp add: put_conn_def)
  have "accounts {#} s1" unfolding s1_def by (rule accounts_conn_same [OF q(3) l(1)]) simp
  then show acc: "accounts {#} (own_link s)" unfolding o by (rule accounts_conn_same) (use l a1 in simp_all)
  show "rx_queue (arr_conn (own_link s) ! 0) = rx_queue (arr_conn s ! 0)" "qfifo_queue (own_link s) = qfifo_queue s"
    "free_list (own_link s) = free_list s"
    using l by (simp_all add: own_link_def put_conn_def free_list_def)
  have e: "env (own_link s) = env s" by (simp add: own_link_def)
  have st: "static 0 (own_link s)" by (rule static_env [OF q(1) e]) (simp add: own_link_def put_conn_def)
  have inv: "conn_inv s" using q(2) by (simp add: route_inv_def)
  have port: "sport_outgoing (arr_conn s ! 1) = 18" using inv by (simp add: conn_inv_def)
  have idle: "c_state (arr_conn s ! j) = CONN_CLOSED" if "j < CSP_CONN_MAX" for j
    using q(4) nth_mem [of j "arr_conn s"] that len by (auto simp: conn_idle_def)
  have none: "csp_conn_find_existing own_in s = None" using idle by (simp add: find_existing_None existing_match_def)
  have i1: "conn_inv s1" using conn_inv_new_server [OF inv none _ _ a1] by (simp add: own_in_def)
  have i2: "conn_inv (own_link s)"
    by (rule conn_inv_new_client [OF i1 _ a2]) (use port a1 l in \<open>simp_all add: reply_id_def own_in_def\<close>)
  have "plain_conn c \<and> sock_ok s (dest_socket c)" if "c \<in> set (arr_conn (own_link s))" for c
  proof -
    have "c \<in> {?c, ?d} \<union> set (arr_conn s)"
      using that set_update_subset_insert [of "arr_conn s1" 1 ?d] set_update_subset_insert [of "arr_conn s" 0 ?c] unfolding a2 a1 by blast
    then consider "c = ?c" | "c = ?d" | "c \<in> set (arr_conn s)" by blast
    then show ?thesis
    proof cases
      case 3
      then show ?thesis using q(2) by (simp add: route_inv_def)
    qed (simp_all add: plain_conn_def sock_ok_def own_in_def reply_id_def has_flag_def)
  qed
  then have ri: "route_inv (own_link s)" using i2 sock_ok_env [OF e] by (simp add: route_inv_def)
  have ar: "arr_conn (own_link s) ! 0 = ?c" "arr_conn (own_link s) ! 1 = ?d" "length (arr_conn (own_link s)) = CSP_CONN_MAX"
    using l len by (simp_all add: a2 a1)
  have "csp_conn_find_existing (own_in\<lparr>flags := CSP_FFRAG\<rparr>) (own_link s) = Some 0"
    using find_existing_iff [OF i2, of 0] ar(1) by (simp add: existing_match_def)
  moreover have "\<exists>b. listening (own_link s) 10 0 b"
    using st q(5) by (auto simp: listening_def static_def sock_queue_def MY_SERVER_PORT_def own_link_def put_conn_def has_flag_def)
  ultimately show "sfp_link 1 0 (own_in\<lparr>flags := CSP_FFRAG\<rparr>) (own_link s)"
    using st ri ar by (auto simp: sfp_link_def static_def sfp_id_def own_in_def plain_flags_def has_flag_def for_me_def)
qed

theorem csp_sfp_roundtrip_witness:
  "\<exists>s k s1 s2 s3. csp_sfp_send quiet_io 1 (replicate 300 7) 300 100 1000 s = Some (CSP_ERR_NONE, s1) \<and>
     route_rounds (\<lambda>f p. csp_buffer_free (Some p)) k s1 = Some s2 \<and>
     csp_sfp_recv quiet_io (\<lambda>n. Some (replicate n 0)) (Some 0) 1000 s2 = Some ((CSP_ERR_NONE, Some (replicate 300 7)), s3) \<and> accounts {#} s3"
proof -
  obtain s where s: "quiet_node 0 s" "free_list s = [0..<CSP_BUFFER_COUNT]" "qfifo_queue s = empty_queue CSP_QFIFO_LEN"
    "\<forall>c \<in> set (arr_conn s). rx_queue c = empty_queue CSP_CONN_RXQUEUE_LEN" by (rule test_started)
  have l: "0 < length (arr_conn s)" using s(1) by (simp add: quiet_node_def static_def env_inv_def)
  then have rx: "rx_queue (arr_conn s ! 0) = empty_queue CSP_CONN_RXQUEUE_LEN" using s(4) by simp
  note f = own_link_facts [OF s(1)]
  have d: "length (replicate 300 (7 :: u8)) = unat (300 :: u32)" "replicate 300 (7 :: u8) \<noteq> []" by simp_all
  from csp_sfp_roundtrip [where malloc = "\<lambda>n. Some (replicate n 0)" and blk = "replicate 300 0" and N = 3 and mtu = 100 and io = quiet_io,
      OF drop.route_client_axioms f(1,2) _ _ _ _ _ d, of 1000 1000]
  show ?thesis using f(3-5) rx s(2,3) by (fastforce simp: quiet_io_def empty_queue_props)
qed

end
