(* ===== verification/Csp_Probe_Link.thy ===== *)
theory Csp_Probe_Link
  imports Csp_Probe Csp_Sfp_Link
begin

text \<open>
  What a mutant of the probe of \<^verbatim>\<open>csp_send\<close> does to the packets on their way: the identifier with which \<^verbatim>\<open>csp_send\<close> hands the packet to
  \<^verbatim>\<open>csp_send_direct\<close>, and the one with which it is in the input queue when it was sent over the loopback interface
  (\<^verbatim>\<open>csp_io_mutated.c\<close>, \<^verbatim>\<open>src/csp_io.c\<close>, \<^verbatim>\<open>src/FAQAS_dataDrivenMutator.h\<close>).
\<close>

section \<open>The selected field\<close>

text \<open>The identifier in which the field that the mutant \<open>m\<close> is for has the new value.\<close>

definition mutated_id :: "int \<Rightarrow> u32 \<Rightarrow> csp_id_t \<Rightarrow> csp_id_t" where
  "mutated_id m v i =
     (if m < 23 then i\<lparr>pri := ucast v\<rparr>
      else if m < 25 then i\<lparr>src := ucast v\<rparr>
      else if m < 27 then i\<lparr>dst := ucast v\<rparr>
      else if m < 33 then i\<lparr>dport := ucast v\<rparr>
      else if m < 39 then i\<lparr>sport := ucast v\<rparr>
      else i\<lparr>flags := ucast v\<rparr>)"

lemma send_items:
  "\<forall>m \<in> set [20..42]. nat (FAQAS_selectItem m) = (if m < 23 then 1 else if m < 25 then 2 else if m < 27 then 3 else if m < 33 then 4 else if m < 39 then 5 else 6)"
  by code_simp

lemma damat_id_field_probe:
  assumes "20 \<le> m" "m < 43"
  shows "damat_id (field_probe m v (damat_buffer i)) = mutated_id m v i"
proof -
  have "m \<in> set [20..42]" unfolding set_upto using assms by simp
  note s = bspec [OF send_items this]
  have same: "damat_id [0, ucast (pri i), ucast (src i), ucast (dst i), ucast (dport i), ucast (sport i), ucast (flags i)] = i"
    using damat_id_buffer [of i] by (simp add: damat_buffer_def)
  show ?thesis using same unfolding field_probe_def s mutated_id_def damat_buffer_def
    by (cases i) (simp add: damat_id_def eval_nat_numeral)
qed

text \<open>The state of the mutator afterwards; \<open>b\<close> is the status that was recorded.\<close>

definition probed_state :: "faqas \<Rightarrow> int \<Rightarrow> faqas" where
  "probed_state st b =
     (if 20 \<le> MUTATION st then (recorded st b)\<lparr>global_mutation_counter := global_mutation_counter st + 1\<rparr>
      else if MUTATION st = -1 then st
      else FAQAS_operator_coverage 0 st)"

definition probed_id :: "faqas \<Rightarrow> u32 \<Rightarrow> csp_id_t \<Rightarrow> csp_id_t" where
  "probed_id st v i = (if 20 \<le> MUTATION st then mutated_id (MUTATION st) v i else i)"

lemma csp_send_damat_id:
  assumes "n < length (arr_conn s)" "-1 \<le> MUTATION st" "MUTATION st < 43" "0 \<le> global_mutation_counter st" "global_mutation_counter st < 2 ^ 31 - 1"
  shows "\<exists>v b f. csp_send_damat rnd nh others (Some n) packet st s =
      map_option (\<lambda>r. (probed_state st b, snd r)) (csp_send f nh others (Some n) packet s) \<and>
    damat_id (f (damat_buffer (idout (arr_conn s ! n)))) = probed_id st v (idout (arr_conn s ! n)) \<and>
    (20 \<le> MUTATION st \<and> b = 1 \<longrightarrow> v \<noteq> damat_buffer (idout (arr_conn s ! n)) ! nat (FAQAS_selectItem (MUTATION st)))"
proof (cases "20 \<le> MUTATION st")
  case True
  from csp_send_damat_selected [OF assms(1) True assms(3-5), of rnd nh others packet] obtain v b where
    "csp_send_damat rnd nh others (Some n) packet st s =
      map_option (\<lambda>r. ((recorded st b)\<lparr>global_mutation_counter := global_mutation_counter st + 1\<rparr>, snd r))
        (csp_send (field_probe (MUTATION st) v) nh others (Some n) packet s)"
    "b = 1 \<longrightarrow> field_probe (MUTATION st) v (damat_buffer (idout (arr_conn s ! n))) \<noteq> damat_buffer (idout (arr_conn s ! n))" by blast
  then show ?thesis using True damat_id_field_probe [OF True assms(3), of v]
    by (intro exI [of _ v] exI [of _ b] exI [of _ "field_probe (MUTATION st) v"])
      (auto simp: probed_state_def probed_id_def field_probe_def)
next
  case False
  then have "MUTATION st = -1 \<or> 0 \<le> MUTATION st \<and> (MUTATION st < minOperation FAQAS_Send_FM \<or> MUTATION st \<ge> maxOperation FAQAS_Send_FM)"
    using assms(2) by (auto simp: FAQAS_Send_FM_def)
  from csp_send_damat_eq [OF assms(1) mutate_other [OF this], of "\<lambda>b. b" rnd nh others packet] False show ?thesis
    by (intro exI [of _ 0] exI [of _ 0] exI [of _ "\<lambda>b. b"]) (auto simp: probed_state_def probed_id_def)
qed

section \<open>Properties\<close>

text \<open>C22: What the instrumented \<^verbatim>\<open>csp_send\<close> sends on an open connection. Without a mutant, and for the mutants of the other fault model, the packet is handed to
  \<^verbatim>\<open>csp_send_direct\<close> with the outgoing identifier of the connection; for the mutants 20 to 42 with that identifier in which exactly one
  field has another value \<open>v\<close>: the priority for 20 to 22, the source for 23 and 24, the destination for 25 and 26, the destination port for 27 to 32,
  the source port for 33 to 38 and the flags from 39 on; this is also what the connection keeps. (If the flags now say RDP, the packet takes the way of
  RDP, of which nothing is said here.) One status is recorded, and the status 1 means that \<open>v\<close> is not the value that was there. A
  packet that goes over the loopback interface, without checksum and authentication, arrives in the input queue as a copy of the packet with this identifier,
  but with the address of the interface as its source: \<^verbatim>\<open>csp_send_direct\<close> replaces the source, so the mutants 23 and 24 are not seen by the receiver.\<close>

theorem csp_send_damat_mutant:
  fixes s n defines "c \<equiv> arr_conn s ! n"
  assumes "n < length (arr_conn s)" "c_state c = CONN_OPEN" "-1 \<le> MUTATION st" "MUTATION st < 43"
    "0 \<le> global_mutation_counter st" "global_mutation_counter st < 2 ^ 31 - 1"
  shows "\<exists>v b i. i = probed_id st v (idout c) \<and>
    (\<not> has_flag (flags i) CSP_FRDP \<longrightarrow> csp_send_damat rnd nh others (Some n) (Some p) st s = do {
       (_, s') \<leftarrow> csp_send_direct nh i p None (put_conn n (c\<lparr>idout := i\<rparr>) s);
       Some (probed_state st b, s') }) \<and>
    (20 \<le> MUTATION st \<and> b = 1 \<longrightarrow> v \<noteq> damat_buffer (idout c) ! nat (FAQAS_selectItem (MUTATION st))) \<and>
    (\<forall>H x q fs. nh = csp_lo_tx \<and> accounts (add_mset p H) s \<and> get_packet p s = Some x \<and> packet_wf x \<and> plain_flags (flags i) \<and>
       masks_ok s \<and> iflist s [0] \<and> in_subnet s (dst i) 0 \<and> if_mtu (ifaces s ! 0) = 0 \<and> free_list s = q # fs \<and>
       items (qfifo_queue s) < qsize (qfifo_queue s) \<longrightarrow>
       (\<exists>s'. csp_send_damat rnd nh others (Some n) (Some p) st s = Some (probed_state st b, s') \<and> accounts H s' \<and>
          queue_list (qfifo_queue s') = queue_list (qfifo_queue s) @ [\<lparr>q_iface = Some 0, q_packet = Some q\<rparr>] \<and>
          get_packet q s' = Some (x\<lparr>pid := i\<lparr>src := if_addr (ifaces s ! 0)\<rparr>\<rparr>) \<and> idout (arr_conn s' ! n) = i))"
proof -
  from csp_send_damat_id [OF assms(2,4-7), of rnd nh others "Some p", folded c_def] obtain v b f where
    r: "csp_send_damat rnd nh others (Some n) (Some p) st s = map_option (\<lambda>r. (probed_state st b, snd r)) (csp_send f nh others (Some n) (Some p) s)"
    and i: "damat_id (f (damat_buffer (idout c))) = probed_id st v (idout c)"
    and v: "20 \<le> MUTATION st \<and> b = 1 \<longrightarrow> v \<noteq> damat_buffer (idout c) ! nat (FAQAS_selectItem (MUTATION st))" by blast
  define i where "i = probed_id st v (idout c)"
  let ?s = "put_conn n (c\<lparr>idout := i\<rparr>) s"
  have direct: "csp_send_damat rnd nh others (Some n) (Some p) st s =
      map_option (\<lambda>r. (probed_state st b, snd r)) (csp_send_direct nh i p None ?s)" if "\<not> has_flag (flags i) CSP_FRDP"
    using r send_open_plain [of n s i f nh others p] assms(2,3) i that by (simp add: c_def i_def)
  have lo: "\<exists>s'. csp_send_damat rnd nh others (Some n) (Some p) st s = Some (probed_state st b, s') \<and> accounts H s' \<and>
          queue_list (qfifo_queue s') = queue_list (qfifo_queue s) @ [\<lparr>q_iface = Some 0, q_packet = Some q\<rparr>] \<and>
          get_packet q s' = Some (x\<lparr>pid := i\<lparr>src := if_addr (ifaces s ! 0)\<rparr>\<rparr>) \<and> idout (arr_conn s' ! n) = i"
    if a: "nh = csp_lo_tx" "accounts (add_mset p H) s" "get_packet p s = Some x" "packet_wf x" "plain_flags (flags i)"
      "masks_ok s" "iflist s [0]" "in_subnet s (dst i) 0" "if_mtu (ifaces s ! 0) = 0" "free_list s = q # fs"
      "items (qfifo_queue s) < qsize (qfifo_queue s)" for H x q fs
  proof -
    have acc: "accounts (add_mset p H) ?s" by (rule accounts_conn_same [OF a(2) assms(2)]) (simp add: c_def)
    have e: "env ?s = env s" by simp
    have st: "masks_ok ?s" "iflist ?s [0]" using masks_ok_env [OF e] iflist_env [OF e] a(6,7) by simp_all
    have g: "in_subnet ?s (dst i) 0" "if_mtu (ifaces ?s ! 0) = 0" "free_list ?s = q # fs" "items (qfifo_queue ?s) < qsize (qfifo_queue ?s)"
      "get_packet p ?s = Some x" "qfifo_queue ?s = qfifo_queue s" "ifaces ?s = ifaces s"
      using a(3,8-11) by (simp_all add: in_subnet_def free_list_def) (simp_all add: put_conn_def)
    from send_direct_lo [OF acc g(5) a(4,5) st g(1-4)] obtain s' where
      s': "csp_send_direct csp_lo_tx i p None ?s = Some ((), s')" "accounts H s'"
        "qfifo_queue s' = queue_push \<lparr>q_iface = Some 0, q_packet = Some q\<rparr> (qfifo_queue s)"
        "get_packet q s' = Some (x\<lparr>pid := i\<lparr>src := if_addr (ifaces s ! 0)\<rparr>\<rparr>)" "send_frame s' = send_frame ?s" unfolding g(6,7) by blast
    have "arr_conn s' = arr_conn ?s" using send_frame_fields [OF s'(5)] by simp
    moreover have "queue_wf (qfifo_queue s)" using a(2) by (simp add: accounts_def queues_inv_def)
    moreover have "\<not> has_flag (flags i) CSP_FRDP" using a(5) by (simp add: plain_flags_def)
    ultimately show ?thesis
      using direct s'(1-4) a(1,11) assms(2) queue_push_list [of "qfifo_queue s" "\<lparr>q_iface = Some 0, q_packet = Some q\<rparr>"] by simp
  qed
  have m: "map_option (\<lambda>r. (probed_state st b, snd r)) m = do { (_, s') \<leftarrow> m; Some (probed_state st b, s') }" for m :: "(unit \<times> node) option"
    by (cases m) auto
  have direct': "\<not> has_flag (flags i) CSP_FRDP \<longrightarrow> csp_send_damat rnd nh others (Some n) (Some p) st s = do {
       (_, s') \<leftarrow> csp_send_direct nh i p None ?s; Some (probed_state st b, s') }"
    using direct unfolding m by (rule impI)
  show ?thesis
    by (rule exI [of _ v], rule exI [of _ b], rule exI [of _ i], intro conjI i_def direct' v allI impI, elim conjE) (rule lo)
qed

text \<open>The mutant 27, for the destination port, on a connection of a node to itself; the packet is an empty one.\<close>

theorem csp_send_damat_mutant_witness:
  defines "st \<equiv> \<lparr>MUTATION = 27, faqas_mutated = 0, global_mutation_counter = 0, storedValueInt = 0, storedValueBin = 0, storedValueLong = 0,
      repeatCounter = 0, sample = 1, fmCov = 0, cov_operators = [], cov_models = []\<rparr>"
  shows "\<exists>s v b s'. csp_send_damat (\<lambda>n. n) csp_lo_tx (\<lambda>n s. s) (Some 1) (Some 0) st s = Some (probed_state st b, s') \<and>
     idout (arr_conn s ! 1) = own_in \<and> queue_list (qfifo_queue s') = [\<lparr>q_iface = Some 0, q_packet = Some 1\<rparr>] \<and>
     get_packet 1 s' = Some (zero_packet\<lparr>pid := own_in\<lparr>dport := v\<rparr>\<rparr>)"
proof -
  obtain s where s: "quiet_node 0 s" "free_list s = [0..<CSP_BUFFER_COUNT]" "qfifo_queue s = empty_queue CSP_QFIFO_LEN"
    "\<forall>c \<in> set (arr_conn s). rx_queue c = empty_queue CSP_CONN_RXQUEUE_LEN" by (rule test_started)
  note f = own_link_facts [OF s(1)]
  have fl: "free_list (own_link s) = 0 # 1 # [2..<CSP_BUFFER_COUNT]" unfolding f(5) s(2) by (simp add: upt_conv_Cons)
  define t where "t = put_packet 0 zero_packet (take_buffer 0 (own_link s))"
  have pool: "pool_inv (own_link s)" using f(1) by (simp add: accounts_def)
  have z: "length (bytes zero_packet) = PACKET_BYTES" "packet_wf zero_packet" by (simp_all add: zero_packet_def packet_wf_def)
  have acc: "accounts (add_mset 0 {#}) t" unfolding t_def by (rule accounts_put [OF accounts_take [OF f(1) fl] z(1)])
  have ar: "arr_conn t = arr_conn (own_link s)" "env t = env (own_link s)" "ifaces t = ifaces (own_link s)" "csp_conf t = csp_conf (own_link s)"
    "qfifo_queue t = empty_queue CSP_QFIFO_LEN" "free_list t = 1 # [2..<CSP_BUFFER_COUNT]"
    using f(4) s(3) take_buffer_inv(2) [OF pool fl] by (simp_all add: t_def free_list_def) (simp_all add: take_buffer_def put_packet_def)
  have l: "1 < length (arr_conn t)" "c_state (arr_conn t ! 1) = CONN_OPEN" "iflist t [0]" "masks_ok t" "if_mtu (ifaces t ! 0) = 0" "in_subnet t 0 0"
    using f(2) iflist_env [OF ar(2)] masks_ok_env [OF ar(2)] ar(1,3,4)
    by (simp_all add: sfp_link_def env_inv_def in_subnet_def own_in_def)
  have len: "length (arr_conn s) = CSP_CONN_MAX" using s(1) by (simp add: quiet_node_def static_def env_inv_def)
  have o: "idout (arr_conn t ! 1) = own_in" using len unfolding ar(1) by (simp add: own_link_def)
  have "sfp_id 1 (own_link s) = own_in\<lparr>flags := CSP_FFRAG\<rparr>" using f(2) by (simp only: sfp_link_def)
  from arg_cong [OF this, of src] have addr: "if_addr (ifaces t ! 0) = 0" unfolding ar(3) by (simp add: sfp_id_def own_in_def)
  have g: "get_packet 0 t = Some zero_packet"
    unfolding t_def by (subst get_put_packet) (use pool in \<open>simp_all add: pool_inv_def take_buffer_def\<close>)
  have m: "MUTATION st = 27" "global_mutation_counter st = 0" by (simp_all add: st_def)
  have k: "-1 \<le> MUTATION st" "MUTATION st < 43" "0 \<le> global_mutation_counter st" "global_mutation_counter st < 2 ^ 31 - 1" by (simp_all add: m)
  from csp_send_damat_mutant [OF l(1,2) k, of "\<lambda>n. n" csp_lo_tx "\<lambda>n s. s" 0, unfolded o m] obtain v b i where
    i0: "i = probed_id st v own_in" and
    r: "\<forall>H x q fs. csp_lo_tx = csp_lo_tx \<and> accounts (add_mset 0 H) t \<and> get_packet 0 t = Some x \<and> packet_wf x \<and> plain_flags (flags i) \<and>
       masks_ok t \<and> iflist t [0] \<and> in_subnet t (dst i) 0 \<and> if_mtu (ifaces t ! 0) = 0 \<and> free_list t = q # fs \<and>
       items (qfifo_queue t) < qsize (qfifo_queue t) \<longrightarrow>
       (\<exists>s'. csp_send_damat (\<lambda>n. n) csp_lo_tx (\<lambda>n s. s) (Some 1) (Some 0) st t = Some (probed_state st b, s') \<and> accounts H s' \<and>
          queue_list (qfifo_queue s') = queue_list (qfifo_queue t) @ [\<lparr>q_iface = Some 0, q_packet = Some q\<rparr>] \<and>
          get_packet q s' = Some (x\<lparr>pid := i\<lparr>src := if_addr (ifaces t ! 0)\<rparr>\<rparr>) \<and> idout (arr_conn s' ! 1) = i)"
    by (elim exE conjE) (rule that)
  have i: "i = own_in\<lparr>dport := ucast v\<rparr>" unfolding i0 by (simp add: probed_id_def mutated_id_def m)
  have p: "plain_flags (flags i)" "dst i = 0" "i\<lparr>src := 0\<rparr> = own_in\<lparr>dport := ucast v\<rparr>" by (simp_all add: i own_in_def)
  have room: "items (qfifo_queue t) < qsize (qfifo_queue t)" "queue_list (qfifo_queue t) = []" unfolding ar(5) by (simp_all add: empty_queue_props)
  have "csp_lo_tx = csp_lo_tx \<and> accounts (add_mset 0 {#}) t \<and> get_packet 0 t = Some zero_packet \<and> packet_wf zero_packet \<and> plain_flags (flags i) \<and>
       masks_ok t \<and> iflist t [0] \<and> in_subnet t (dst i) 0 \<and> if_mtu (ifaces t ! 0) = 0 \<and> free_list t = 1 # [2..<CSP_BUFFER_COUNT] \<and>
       items (qfifo_queue t) < qsize (qfifo_queue t)"
    using acc g z(2) p(1) l(3-6) ar(6) room(1) unfolding p(2) by blast
  from r [rule_format, OF this] obtain s' where
    "csp_send_damat (\<lambda>n. n) csp_lo_tx (\<lambda>n s. s) (Some 1) (Some 0) st t = Some (probed_state st b, s')"
    "queue_list (qfifo_queue s') = [\<lparr>q_iface = Some 0, q_packet = Some 1\<rparr>]"
    "get_packet 1 s' = Some (zero_packet\<lparr>pid := own_in\<lparr>dport := ucast v\<rparr>\<rparr>)"
    unfolding addr p(3) room(2) append_Nil by blast
  then show ?thesis using o by blast
qed

end
