(* ===== verification/Csp_Cfp.thy ===== *)
theory Csp_Cfp
  imports Csp_Can
begin

text \<open>
  Properties of the CAN interface: the frames that \<^verbatim>\<open>csp_can2_tx\<close> makes of a packet are put together again by
  \<^verbatim>\<open>csp_can2_rx\<close>, packets near the MTU are sent but not received, and the cleanup of old packets leaves freed buffers in its list.
\<close>

section \<open>Headers\<close>

lemma csp_id2_bytes:
  "word_to_le 2 (htobe16 (ucast (drop_bit 32 w))) @ word_to_le 4 (htobe32 (ucast w)) = word_to_le 6 (htobe64 (push_bit 16 (w :: u64)))"
proof -
  have "word_to_le 6 v = take 6 (word_to_le 8 v)" for v :: u64 by (simp add: word_to_le_def take_map)
  then have "word_to_le 6 (htobe64 (push_bit 16 w)) = take 6 (rev (word_to_le 8 (push_bit 16 w)))"
    using word_to_le_bswap [of 8 "push_bit 16 w"] by (simp add: htobe64_def)
  moreover have "word_to_le 2 (htobe16 a) = rev (word_to_le 2 a)" "word_to_le 4 (htobe32 b) = rev (word_to_le 4 b)" for a b
    using word_to_le_bswap [of 2 a] word_to_le_bswap [of 4 b] by (simp_all add: htobe16_def htobe32_def)
  moreover have "[0..<8] = [0, 1, 2, 3, 4, 5, 6, 7 :: nat]" "[0..<4] = [0, 1, 2, 3 :: nat]" "[0..<2] = [0, 1 :: nat]" by (simp_all add: upt_rec)
  then have "rev (word_to_le 2 (ucast (drop_bit 32 w) :: u16)) @ rev (word_to_le 4 (ucast w :: u32)) = take 6 (rev (word_to_le 8 (push_bit 16 w)))"
    by (simp add: word_to_le_def) (auto intro!: bit_word_eqI simp: bit_simps)
  ultimately show ?thesis by simp
qed

lemma mask_values:
  "CFP2_PRIO_MASK = Bit_Operations.mask 2" "CFP2_DST_MASK = Bit_Operations.mask 14" "CFP2_SENDER_MASK = Bit_Operations.mask 5" "CFP2_SC_MASK = Bit_Operations.mask 2"
  "CFP2_FC_MASK = Bit_Operations.mask 3" "CFP2_SRC_MASK = Bit_Operations.mask 14" "CFP2_DPORT_MASK = Bit_Operations.mask 6" "CFP2_SPORT_MASK = Bit_Operations.mask 6"
  "CFP2_FLAGS_MASK = Bit_Operations.mask 6" "CFP2_BEGIN = push_bit 1 1" "CFP2_END = 1"
  by (simp_all add: CFP2_PRIO_MASK_def CFP2_DST_MASK_def CFP2_SENDER_MASK_def CFP2_SC_MASK_def CFP2_FC_MASK_def CFP2_SRC_MASK_def
      CFP2_DPORT_MASK_def CFP2_SPORT_MASK_def CFP2_FLAGS_MASK_def mask_numeral CFP2_BEGIN_def CFP2_END_def CFP2_BEGIN_MASK_def CFP2_END_MASK_def)

lemma id2_bits:
  assumes "id2_fits i"
  shows "bit (pri i) n \<Longrightarrow> n < 2" "bit (src i) n \<Longrightarrow> n < 14" "bit (dst i) n \<Longrightarrow> n < 14" "bit (dport i) n \<Longrightarrow> n < 6"
    "bit (sport i) n \<Longrightarrow> n < 6" "bit (flags i) n \<Longrightarrow> n < 6"
  using assms by (auto simp: id2_fits_def intro: less_power_bits)

lemma header_extension_pack:
  assumes "id2_fits i" "src i < 0x2000"
  shows "can2_header_extension i = Some (ucast (csp_id2_pack i))"
proof -
  have m: "(ucast (src i) :: u32) AND CFP2_SRC_MASK = ucast (src i)"
    by (rule bit_word_eqI) (auto simp: mask_values bit_simps dest: id2_bits(2) [OF assms(1)])
  have "unat (src i) < 0x2000" using assms(2) by (simp add: word_less_nat_alt)
  then have sh: "shift_int (ucast (src i)) 18 = Some (push_bit 18 (ucast (src i)))" by (simp add: shift_int_def)
  have "push_bit 18 (ucast (src i)) OR push_bit CFP2_DPORT_OFFSET (ucast (dport i) AND CFP2_DPORT_MASK) OR
      push_bit CFP2_SPORT_OFFSET (ucast (sport i) AND CFP2_SPORT_MASK) OR push_bit CFP2_FLAGS_OFFSET (ucast (flags i) AND CFP2_FLAGS_MASK) =
      (ucast (csp_id2_pack i) :: u32)"
    unfolding csp_id2_pack_def mask_values by (rule bit_word_eqI) (auto simp: bit_simps dest: id2_bits [OF assms(1)])
  then show ?thesis unfolding can2_header_extension_def m CFP2_SRC_OFFSET_def sh by simp
qed

lemma bit_field: "bit (push_bit k ((ucast w :: u32) AND Bit_Operations.mask m)) n \<longleftrightarrow> k \<le> n \<and> n - k < m \<and> n < 32 \<and> bit w (n - k)"
  by (auto simp: bit_simps)

lemma fields_bits:
  "bit (can2_fields x f c) n \<longleftrightarrow> 27 \<le> n \<and> n - 27 < 2 \<and> n < 32 \<and> bit (pri (pid x)) (n - 27) \<or> 13 \<le> n \<and> n - 13 < 14 \<and> n < 32 \<and> bit (dst (pid x)) (n - 13) \<or>
     7 \<le> n \<and> n - 7 < 5 \<and> n < 32 \<and> bit (if_addr f) (n - 7) \<or> 5 \<le> n \<and> n - 5 < 2 \<and> n < 32 \<and> bit c (n - 5)"
  unfolding can2_fields_def mask_values bit_or_iff using bit_field [of 5 c 2 n] by (simp only: bit_field ucast_id CFP2_PRIO_OFFSET_def CFP2_DST_OFFSET_def
      CFP2_SENDER_OFFSET_def CFP2_SC_OFFSET_def disj_assoc)

lemma fields_first_two:
  assumes "id2_fits (pid x)" "\<And>n. bit low n \<Longrightarrow> n < 13"
  shows "(ucast (drop_bit 13 (can2_fields x f c OR low)) :: u16) = ucast (drop_bit 32 (csp_id2_pack (pid x)))"
proof (rule bit_word_eqI)
  fix n assume "n < LENGTH(16)"
  then have n: "n < 16" by simp
  have l: "\<not> bit low (13 + n)" using assms(2) [of "13 + n"] by auto
  note b = id2_bits [OF assms(1)]
  have p: "bit (pri (pid x)) (13 + n - 27) \<and> 27 \<le> 13 + n \<longleftrightarrow> 14 \<le> n \<and> bit (pri (pid x)) (n - 14)"
    by (cases "14 \<le> n") (auto simp: algebra_simps)
  show "bit (ucast (drop_bit 13 (can2_fields x f c OR low)) :: u16) n = bit (ucast (drop_bit 32 (csp_id2_pack (pid x))) :: u16) n"
    using n l p b(1) [of "n - 14"] b(2) [of "14 + n"] b(3) [of n] b(4) [of "20 + n"] b(5) [of "26 + n"] b(6) [of "32 + n"]
    by (auto simp: bit_simps fields_bits csp_id2_pack_def)
qed

section \<open>A packet under reception\<close>

text \<open>The packet \<open>q\<close> is the only one in the list of interface \<open>i\<close>.\<close>

definition gathering :: "nat \<Rightarrow> csp_iface_t \<Rightarrow> csp_can_interface_data_t \<Rightarrow> nat \<Rightarrow> csp_packet_t \<Rightarrow> node \<Rightarrow> node" where
  "gathering i f d q y s = put_iface i (f\<lparr>if_data := Can_Data (d\<lparr>pbufs := Some q\<rparr>)\<rparr>) (put_packet q y s)"

lemma gathering_get:
  assumes "i < length (ifaces s)" "q < length (csp_buffer_pool s)"
  shows "get_packet q (gathering i f d q y s) = Some y" "get_iface i (gathering i f d q y s) = Some (f\<lparr>if_data := Can_Data (d\<lparr>pbufs := Some q\<rparr>)\<rparr>)"
    "get_can i (gathering i f d q y s) = Some (d\<lparr>pbufs := Some q\<rparr>)" "put_packet q z (gathering i f d q y s) = gathering i f d q z s"
    "csp_conf (gathering i f d q y s) = csp_conf s" "now (gathering i f d q y s) = now s"
  using assms by (simp_all add: gathering_def get_can_def access_defs)

text \<open>A further frame of the packet.\<close>

lemma can2_rx_further:
  assumes "i < length (ifaces s)" "q < length (csp_buffer_pool s)" "can_id AND CFP2_BEGIN = 0"
    "cfpid y AND CFP2_ID_CONN_MASK = can_id AND CFP2_ID_CONN_MASK" "ucast (rx_count y) = drop_bit CFP2_FC_OFFSET can_id AND CFP2_FC_MASK"
  shows "csp_can2_rx i can_id data dlc False (gathering i f d q y s) =
    csp_can2_store i can_id data dlc q False
      (gathering i f d q (y\<lparr>last_used := now s, rx_count := ucast (ucast (rx_count y + 1) AND CFP2_FC_MASK)\<rparr>) s)"
proof -
  note g = gathering_get [OF assms(1,2)]
  have "csp_can_pbuf_find i can_id CFP2_ID_CONN_MASK (gathering i f d q y s) = Some (Some q, gathering i f d q (y\<lparr>last_used := now s\<rparr>) s)"
    using assms(4) by (simp add: csp_can_pbuf_find_def g csp_can_pbuf_find_loop.simps upd_packet_def)
  then show ?thesis using assms(3,5) by (simp add: csp_can2_rx_def csp_can2_fragment_def g)
qed

lemma mem_write_append:
  assumes "off + length as + length bs \<le> length m"
  shows "mem_write (off + length as) bs (mem_put off as m) = Some (mem_put off (as @ bs) m)"
  using assms by (simp add: mem_write_def mem_put_def ac_simps)

lemma can2_begin_eq:
  assumes "i < length (ifaces s)" "q < length (csp_buffer_pool s)" "\<not> dlc < 4" "length hb = 4" "length (bytes y) = PACKET_BYTES"
  shows "csp_can2_begin i can_id (hb @ bs) dlc q False (gathering i f d q y s) =
    Some (Some (bs, dlc - 4), gathering i (f\<lparr>if_frame := if_frame f + 1\<rparr>) d q (y\<lparr>frame_begin := 2,
      bytes := mem_put 2 (word_to_le 2 (htobe16 (ucast (drop_bit 13 can_id))) @ hb) (bytes y), frame_length := 6, plen := 0, rx_count := 1\<rparr>) s)"
proof -
  note g = gathering_get [OF assms(1,2)]
  let ?w = "word_to_le 2 (htobe16 (ucast (drop_bit 13 can_id)))"
  have u: "upd_iface i (\<lambda>f. f\<lparr>if_frame := if_frame f + 1\<rparr>) (gathering i f d q y s) = Some (gathering i (f\<lparr>if_frame := if_frame f + 1\<rparr>) d q y s)"
    using assms(1,2) by (cases f) (simp add: upd_iface_def gathering_def access_defs)
  have w: "mem_write 2 ?w (bytes y) = Some (mem_put 2 ?w (bytes y))" "mem_write 4 hb (mem_put 2 ?w (bytes y)) = Some (mem_put 2 (?w @ hb) (bytes y))"
    using assms(4,5) mem_write_append [of 2 ?w hb "bytes y"] by (simp_all add: mem_write_put)
  show ?thesis using assms(3,4) w by (simp add: csp_can2_begin_def u g csp_id2_setup_rx_def mem_read_def Let_def)
qed

text \<open>The first frame of a packet, when no other packet is under reception.\<close>

lemma can2_rx_first:
  assumes "accounts H s" "free_list s = q # fs" "get_iface i s = Some f" "if_data f = Can_Data d" "pbufs d = None" "get_packet q s = Some z"
    "can_id AND CFP2_BEGIN \<noteq> 0" "length hb = 4" "length bs \<le> 4"
  shows "csp_can2_rx i can_id (hb @ bs) (of_nat (4 + length bs)) False s =
    csp_can2_store i can_id bs (of_nat (length bs)) q False (gathering i (f\<lparr>if_frame := if_frame f + 1\<rparr>) d q
      (z\<lparr>last_used := now s, cfpid := can_id, remain := 0, pnext := None, frame_begin := 2,
        bytes := mem_put 2 (word_to_le 2 (htobe16 (ucast (drop_bit 13 can_id))) @ hb) (bytes z), frame_length := 6, plen := 0, rx_count := 1\<rparr>) (take_buffer q s))"
proof -
  note a = accounts_take [OF assms(1,2)]
  have pool: "pool_inv s" using assms(1) by (simp add: accounts_def)
  have z: "get_packet q (take_buffer q s) = Some z" using take_buffer_inv(4) [OF pool assms(2)] assms(6) by simp
  with accounts_packet [OF a] have len: "length (bytes z) = PACKET_BYTES" by simp
  have i: "i < length (ifaces s)" "ifaces s ! i = f" using assms(3) by (auto simp: get_iface_def split: if_splits)
  have t: "ifaces (take_buffer q s) = ifaces s" "now (take_buffer q s) = now s" by (simp_all add: take_buffer_def)
  have q: "q < length (csp_buffer_pool (take_buffer q s))" using accounts_held [OF a] by (simp add: pool_inv_def)
  have c: "get_can i s = Some d" using assms(3,4) by (simp add: get_can_def)
  have "csp_can_pbuf_find i can_id CFP2_ID_CONN_MASK s = Some (None, s)"
    using assms(5) by (simp add: csp_can_pbuf_find_def c csp_can_pbuf_find_loop.simps)
  moreover have "csp_can_pbuf_cleanup i s = Some s" using assms(5) by (simp add: csp_can_pbuf_cleanup_def c csp_can_pbuf_cleanup_loop.simps)
  then have "csp_can_pbuf_new i can_id False s =
      Some (Some q, gathering i f d q (z\<lparr>last_used := now s, cfpid := can_id, remain := 0, pnext := None\<rparr>) (take_buffer q s))"
    using assms(2,4,5) pool z i q t
    by (simp add: csp_can_pbuf_new_def csp_buffer_get_eq upd_packet_def upd_can_def upd_iface_def gathering_def get_can_def access_defs)
  moreover have "unat (of_nat (4 + length bs) :: u8) = 4 + length bs" using assms(9) by (intro unat_of_nat_less) simp
  then have "of_nat (4 + length bs) - 4 = (of_nat (length bs) :: u8)" "\<not> (of_nat (4 + length bs) :: u8) < 4"
    by (simp_all add: word_less_nat_alt)
  moreover have "i < length (ifaces (take_buffer q s))" using i(1) t(1) by simp
  ultimately show ?thesis
    using can2_begin_eq [OF _ q, of i _ hb _ can_id bs f d] assms(7,8) len by (simp add: csp_can2_rx_def)
qed

text \<open>The bytes \<open>fr\<close> of the frame are stored in a packet that held \<open>z\<close>, and fragment \<open>k\<close> is next.\<close>

definition gathered :: "csp_packet_t \<Rightarrow> u8 list \<Rightarrow> nat \<Rightarrow> u32 \<Rightarrow> csp_packet_t \<Rightarrow> bool" where
  "gathered z fr k c y \<longleftrightarrow> frame_begin y = 2 \<and> frame_length y = of_nat (length fr) \<and> bytes y = mem_put 2 fr (bytes z) \<and>
     rx_count y = of_nat (k mod 8) \<and> cfpid y AND CFP2_ID_CONN_MASK = c \<and> pnext y = None"

lemma can2_store_bytes:
  assumes "gathered z fr k c y" "length fr + length bs \<le> CSP_BUFFER_SIZE" "length bs \<le> 8" "length (bytes z) = PACKET_BYTES"
  shows "mem_read 0 (unat (of_nat (length bs) :: u8)) bs = Some bs"
    "mem_write (frame_begin y + unat (frame_length y)) bs (bytes y) = Some (mem_put 2 (fr @ bs) (bytes z))"
    "unat (frame_length y) + unat (of_nat (length bs) :: u8) = length (fr @ bs)"
    "gathered z (fr @ bs) k c (y\<lparr>bytes := mem_put 2 (fr @ bs) (bytes z), frame_length := frame_length y + ucast (of_nat (length bs) :: u8)\<rparr>)"
proof -
  have l: "unat (of_nat (length fr) :: u16) = length fr" using assms(2) by (intro unat_of_nat_less) simp
  have b: "unat (of_nat (length bs) :: u8) = length bs" using assms(3) by (intro unat_of_nat_less) simp
  have "(ucast (of_nat (length bs) :: u8) :: u16) = of_nat (length bs)"
    using b unat_of_nat_less [of "length bs", where 'a = 16] assms(3) by (intro word_unat_eq_iff [THEN iffD2]) simp
  then show "gathered z (fr @ bs) k c (y\<lparr>bytes := mem_put 2 (fr @ bs) (bytes z), frame_length := frame_length y + ucast (of_nat (length bs) :: u8)\<rparr>)"
    using assms(1) by (simp add: gathered_def)
  show "mem_read 0 (unat (of_nat (length bs) :: u8)) bs = Some bs" by (simp add: b mem_read_def)
  show "mem_write (frame_begin y + unat (frame_length y)) bs (bytes y) = Some (mem_put 2 (fr @ bs) (bytes z))"
    using assms mem_write_append [of 2 fr bs "bytes z"] l by (simp add: gathered_def)
  show "unat (frame_length y) + unat (of_nat (length bs) :: u8) = length (fr @ bs)" using assms(1) l b by (simp add: gathered_def)
qed

lemma can2_store_more:
  assumes "i < length (ifaces s)" "q < length (csp_buffer_pool s)" "gathered z fr k c y" "length (bytes z) = PACKET_BYTES" "length bs \<le> 8"
    "length fr + length bs \<le> unat (if_mtu f)" "unat (if_mtu f) \<le> CSP_BUFFER_SIZE" "can_id AND CFP2_END = 0"
  shows "\<exists>y'. csp_can2_store i can_id bs (of_nat (length bs)) q False (gathering i f d q y s) = Some (CSP_ERR_NONE, gathering i f d q y' s) \<and>
    gathered z (fr @ bs) k c y'"
proof -
  have "length fr + length bs \<le> CSP_BUFFER_SIZE" using assms(6,7) by simp
  note b = can2_store_bytes [OF assms(3) this assms(5,4)]
  let ?y = "y\<lparr>bytes := mem_put 2 (fr @ bs) (bytes z), frame_length := frame_length y + ucast (of_nat (length bs) :: u8)\<rparr>"
  have "csp_can2_store i can_id bs (of_nat (length bs)) q False (gathering i f d q y s) = Some (CSP_ERR_NONE, gathering i f d q ?y s)"
    using b(1-3) assms(6,8) by (simp add: csp_can2_store_def gathering_get [OF assms(1,2)])
  with b(4) show ?thesis by blast
qed

lemma pbuf_free_only:
  assumes "i < length (ifaces s)" "q < length (csp_buffer_pool s)" "pnext y = None"
  shows "csp_can_pbuf_free i q False False (gathering i f d q y s) = Some (put_iface i (f\<lparr>if_data := Can_Data (d\<lparr>pbufs := None\<rparr>)\<rparr>) (put_packet q y s))"
proof -
  note g = gathering_get [OF assms(1,2)]
  let ?s = "put_iface i (f\<lparr>if_data := Can_Data (d\<lparr>pbufs := None\<rparr>)\<rparr>) (put_packet q y s)"
  have "pbuf_unlink i q None (gathering i f d q y s) = Some ?s" 
    using assms(3) by (simp add: pbuf_unlink_def g upd_can_def upd_iface_def) (simp add: gathering_def put_iface_def)
  moreover have "get_packet q ?s = Some y" using assms(2) by (simp add: access_defs)
  ultimately show ?thesis using assms(3) by (simp add: csp_can_pbuf_free_def g csp_can_pbuf_free_loop.simps)
qed

text \<open>The packet \<open>x\<close> was received into buffer \<open>q\<close>, and the router has it.\<close>

definition received :: "nat \<Rightarrow> nat \<Rightarrow> csp_packet_t \<Rightarrow> nat multiset \<Rightarrow> node \<Rightarrow> node \<Rightarrow> bool" where
  "received i q x H s s' \<longleftrightarrow> (\<exists>y. get_packet q s' = Some y \<and> pid y = pid x \<and> pdata y = pdata x) \<and> accounts H s' \<and>
     queue_list (qfifo_queue s') = queue_list (qfifo_queue s) @ [\<lparr>q_iface = Some i, q_packet = Some q\<rparr>]"

lemma can2_store_end:
  assumes s: "accounts (add_mset q H) s" "i < length (ifaces s)" "items (qfifo_queue s) < qsize (qfifo_queue s)"
    and y: "gathered z fr k c y" "length (bytes z) = PACKET_BYTES"
    and b: "length bs \<le> 8" "length fr + length bs \<le> unat (if_mtu f)" "unat (if_mtu f) \<le> CSP_BUFFER_SIZE" "can_id AND CFP2_END \<noteq> 0"
    and x: "packet_wf x" "id2_fits (pid x)" "dst (pid x) \<noteq> 0x3FFF" "fr @ bs = pframe (csp_id2_prepend x)"
  shows "\<exists>s'. csp_can2_store i can_id bs (of_nat (length bs)) q False (gathering i f d q y s) = Some (CSP_ERR_NONE, s') \<and> received i q x H s s'"
proof -
  have q: "q < length (csp_buffer_pool s)" using accounts_held [OF s(1)] by (simp add: pool_inv_def)
  have "length fr + length bs \<le> CSP_BUFFER_SIZE" using b(2,3) by simp
  note st = can2_store_bytes [OF y(1) this b(1) y(2)]
  define w where "w = y\<lparr>bytes := mem_put 2 (fr @ bs) (bytes z), frame_length := frame_length y + ucast (of_nat (length bs) :: u8)\<rparr>"
  have "w = load_frame CSP_ID2_HEADER_SIZE (pframe (csp_id2_prepend x)) (w\<lparr>bytes := bytes z\<rparr>)"
    using st(4) x(4) unfolding w_def [symmetric] by (cases w) (simp add: load_frame_def gathered_def)
  then obtain r where r: "csp_id2_strip w = Some (0, r)" "pid r = pid x" "pdata r = pdata x" "packet_wf r"
    using id2.receive_transmitted [OF x(1,2), of "w\<lparr>bytes := bytes z\<rparr>"] y(2) by auto
  have pn: "pnext r = None" using r(1) st(4) unfolding w_def [symmetric]
    by (auto simp: csp_id2_strip_def gathered_def bind_Some_iff split: if_splits)
  define t where "t = put_iface i (f\<lparr>if_data := Can_Data (d\<lparr>pbufs := None\<rparr>)\<rparr>) (put_packet q r s)"
  have t: "accounts (add_mset q H) t" "get_packet q t = Some r" "qfifo_queue t = qfifo_queue s"
    using accounts_put [OF s(1), of r q] r(4) get_put_packet [OF q] by (simp_all add: t_def packet_wf_def) (simp add: put_iface_def put_packet_def)
  let ?e = "\<lparr>q_iface = Some i, q_packet = Some q\<rparr>"
  have wf: "queue_wf (qfifo_queue s)" "items (qfifo_queue s) \<noteq> qsize (qfifo_queue s)" using s(1,3) by (simp_all add: accounts_def queues_inv_def)
  have "csp_qfifo_write (Some q) (Some i) False t = Some ((), t\<lparr>qfifo_queue := queue_push ?e (qfifo_queue s)\<rparr>)"
    using wf(2) t(3) by (simp add: csp_qfifo_write_def csp_queue_enqueue_room)
  then have "csp_can2_store i can_id bs (of_nat (length bs)) q False (gathering i f d q y s) =
      Some (CSP_ERR_NONE, t\<lparr>qfifo_queue := queue_push ?e (qfifo_queue s)\<rparr>)"
    using st(1-3) b(2,4) r(1,2) x(3) pbuf_free_only [OF s(2) q pn]
    by (simp add: csp_can2_store_def gathering_get [OF s(2) q] w_def [symmetric] t_def)
  moreover have "accounts H (t\<lparr>qfifo_queue := queue_push ?e (qfifo_queue s)\<rparr>)"
    using accounts_qfifo_push [OF t(1), of ?e] s(3) t(3) by simp
  ultimately show ?thesis using t(2) r(2,3) queue_push_list [OF wf(1) s(3), of ?e] by (simp add: received_def)
qed

section \<open>All frames of a packet\<close>

lemma fields_low:
  assumes "\<And>n. bit low n \<Longrightarrow> n < 5"
  shows "(can2_fields x f c OR low) AND CFP2_ID_CONN_MASK = can2_fields x f c"
    "(can2_fields x f c OR low) AND CFP2_BEGIN = low AND CFP2_BEGIN" "(can2_fields x f c OR low) AND CFP2_END = low AND CFP2_END"
    "drop_bit CFP2_FC_OFFSET (can2_fields x f c OR low) AND CFP2_FC_MASK = drop_bit CFP2_FC_OFFSET low AND CFP2_FC_MASK"
proof -
  have m: "bit CFP2_ID_CONN_MASK n \<longleftrightarrow> n < 32 \<and> (13 \<le> n \<and> n - 13 < 14 \<or> 7 \<le> n \<and> n - 7 < 5 \<or> 27 \<le> n \<and> n - 27 < 2 \<or> 5 \<le> n \<and> n - 5 < 2)" for n
    unfolding CFP2_ID_CONN_MASK_def mask_values by (auto simp: bit_simps)
  show "(can2_fields x f c OR low) AND CFP2_ID_CONN_MASK = can2_fields x f c"
  proof (rule bit_word_eqI)
    fix n assume "n < LENGTH(32)"
    then have "n < 32" by simp
    then show "bit ((can2_fields x f c OR low) AND CFP2_ID_CONN_MASK) n = bit (can2_fields x f c) n"
      using assms [of n] by (auto simp: bit_and_iff bit_or_iff m fields_bits)
  qed
  have z: "\<not> bit (can2_fields x f c) n" if "n < 5" for n using that by (auto simp: fields_bits)
  show "(can2_fields x f c OR low) AND CFP2_BEGIN = low AND CFP2_BEGIN" "(can2_fields x f c OR low) AND CFP2_END = low AND CFP2_END"
    "drop_bit CFP2_FC_OFFSET (can2_fields x f c OR low) AND CFP2_FC_MASK = drop_bit CFP2_FC_OFFSET low AND CFP2_FC_MASK"
    unfolding mask_values by (auto intro!: bit_word_eqI simp: bit_simps z)
qed

text \<open>The fragment counter is the number of the fragment modulo eight.\<close>

lemma fragment_counter: "(of_nat k :: 'a::len word) AND 7 = of_nat (k mod 8)"
proof -
  have "(7 :: 'a word) = Bit_Operations.mask 3" by (simp add: mask_numeral)
  then have "(of_nat k :: 'a word) AND 7 = take_bit 3 (of_nat k)" by (simp add: take_bit_eq_mask)
  also have "\<dots> = of_nat (take_bit 3 k)" by (simp only: take_bit_of_nat)
  finally show ?thesis by (simp add: take_bit_eq_mod)
qed

lemma fragment_next: "(ucast (ucast (of_nat (k mod 8) + 1 :: u16) AND CFP2_FC_MASK) :: u16) = of_nat (Suc k mod 8)"
proof -
  have "k mod 8 < 8" by simp
  then have "(ucast (of_nat (k mod 8) + 1 :: u16) :: u32) = of_nat (Suc (k mod 8))"
    by (intro word_unat_eq_iff [THEN iffD2]) (simp add: unat_word_ariths)
  then have "ucast (of_nat (k mod 8) + 1 :: u16) AND CFP2_FC_MASK = (of_nat (Suc (k mod 8) mod 8) :: u32)"
    using fragment_counter [of "Suc (k mod 8)", where 'a = 32] by (simp add: CFP2_FC_MASK_def)
  moreover have "(ucast (of_nat n :: u32) :: u16) = of_nat n" if "n < 8" for n using that by (simp add: unsigned_of_nat take_bit_nat_eq_self)
  ultimately show ?thesis by (simp add: mod_Suc_eq)
qed

primrec can_rx_frames :: "nat \<Rightarrow> can_frame list \<Rightarrow> node \<Rightarrow> node option" where
  "can_rx_frames i [] s = Some s"
| "can_rx_frames i (fr # frs) s = do {
     (_, s) \<leftarrow> csp_can_rx i (fst fr) (snd fr) (of_nat (length (snd fr))) False s;
     can_rx_frames i frs s
   }"

text \<open>One fragment: its identifier passes the checks of the receiver.\<close>

lemma fragment_id:
  fixes k fin x f c
  defines "can_id \<equiv> (if fin then (can2_fields x f c OR push_bit CFP2_FC_OFFSET (of_nat k AND CFP2_FC_MASK)) OR CFP2_END
    else can2_fields x f c OR push_bit CFP2_FC_OFFSET (of_nat k AND CFP2_FC_MASK))"
  shows "can_id AND CFP2_BEGIN = 0" "can_id AND CFP2_ID_CONN_MASK = can2_fields x f c" "can_id AND CFP2_END \<noteq> 0 \<longleftrightarrow> fin"
    "drop_bit CFP2_FC_OFFSET can_id AND CFP2_FC_MASK = ucast (of_nat (k mod 8) :: u16)"
proof -
  let ?v = "of_nat k AND CFP2_FC_MASK :: u32"
  let ?low = "push_bit CFP2_FC_OFFSET ?v OR (if fin then CFP2_END else 0)"
  have id: "can_id = can2_fields x f c OR ?low" by (simp add: can_id_def or.assoc)
  have v: "?v = ?v AND CFP2_FC_MASK" by (simp add: and.assoc)
  then have low: "bit ?low n \<Longrightarrow> n < 5" for n unfolding mask_values by (auto simp: bit_simps split: if_splits)
  note l = fields_low [of ?low x f c, OF low, folded id]
  show "can_id AND CFP2_ID_CONN_MASK = can2_fields x f c" by (rule l(1))
  have "?low AND CFP2_BEGIN = 0" unfolding mask_values by (rule bit_word_eqI) (auto simp: bit_simps)
  then show "can_id AND CFP2_BEGIN = 0" by (simp only: l(2))
  have "w AND CFP2_END \<noteq> 0 \<longleftrightarrow> bit w 0" for w :: u32 by (simp add: mask_values(11) and_one_eq bit_0 odd_iff_mod_2_eq_one)
  then have "?low AND CFP2_END \<noteq> 0 \<longleftrightarrow> bit ?low 0" .
  also have "\<dots> \<longleftrightarrow> fin" by (simp add: mask_values bit_or_iff bit_and_iff bit_push_bit_iff)
  finally have "?low AND CFP2_END \<noteq> 0 \<longleftrightarrow> fin" .
  then show "can_id AND CFP2_END \<noteq> 0 \<longleftrightarrow> fin" by (simp only: l(3))
  have "drop_bit CFP2_FC_OFFSET ?low AND CFP2_FC_MASK = ?v" unfolding mask_values by (rule bit_word_eqI) (auto simp: bit_simps)
  also have "?v = of_nat (k mod 8)" using fragment_counter [of k, where 'a = 32] by (simp add: CFP2_FC_MASK_def)
  also have "\<dots> = ucast (of_nat (k mod 8) :: u16)"
    by (intro word_unat_eq_iff [THEN iffD2]) (simp add: less_trans [OF mod_less_divisor])
  finally show "drop_bit CFP2_FC_OFFSET can_id AND CFP2_FC_MASK = ucast (of_nat (k mod 8) :: u16)" by (simp only: l(4))
qed

lemma can2_rx_fragment:
  assumes "i < length (ifaces s)" "q < length (csp_buffer_pool s)" "version (csp_conf s) \<noteq> 1" "gathered z fr k (can2_fields x g c) y"
    "can_id AND CFP2_BEGIN = 0" "can_id AND CFP2_ID_CONN_MASK = can2_fields x g c" 
    "drop_bit CFP2_FC_OFFSET can_id AND CFP2_FC_MASK = ucast (of_nat (k mod 8) :: u16)"
  shows "\<exists>y'. csp_can_rx i can_id data dlc False (gathering i f d q y s) = csp_can2_store i can_id data dlc q False (gathering i f d q y' s) \<and>
    gathered z fr (Suc k) (can2_fields x g c) y'"
proof -
  let ?y = "y\<lparr>last_used := now s, rx_count := ucast (ucast (rx_count y + 1) AND CFP2_FC_MASK)\<rparr>"
  have "gathered z fr (Suc k) (can2_fields x g c) ?y" using assms(4) fragment_next [of k] by (simp add: gathered_def)
  moreover have "csp_can_rx i can_id data dlc False (gathering i f d q y s) = csp_can2_rx i can_id data dlc False (gathering i f d q y s)"
    using assms(3) by (simp add: csp_can_rx_def gathering_get [OF assms(1,2)])
  moreover have "\<dots> = csp_can2_store i can_id data dlc q False (gathering i f d q ?y s)"
    using assms(4-7) by (intro can2_rx_further assms(1,2)) (simp_all add: gathered_def)
  ultimately show ?thesis by metis
qed

lemma can2_frames_received:
  fixes x :: csp_packet_t
  defines "hb \<equiv> take 6 (List.drop 2 (bytes (csp_id2_prepend x)))"
  assumes s: "accounts (add_mset q H) s" "i < length (ifaces s)" "items (qfifo_queue s) < qsize (qfifo_queue s)" "version (csp_conf s) \<noteq> 1"
    and z: "length (bytes z) = PACKET_BYTES" and driver: "\<And>sent can_id bs. driver sent can_id bs = CSP_ERR_NONE"
    and m: "6 + unat (plen x) \<le> unat (if_mtu f)" "unat (if_mtu f) \<le> CSP_BUFFER_SIZE"
    and x: "packet_wf x" "id2_fits (pid x)" "dst (pid x) \<noteq> 0x3FFF"
  shows "n < unat (plen x) \<Longrightarrow> gathered z (hb @ take n (pdata x)) k (can2_fields x g c) y \<Longrightarrow>
    \<exists>fs s'. csp_can2_tx_loop driver (can2_fields x g c) x n k sent = Some (True, sent @ fs) \<and>
      can_rx_frames i fs (gathering i f d q y s) = Some s' \<and> received i q x H s s'"
proof (induction "unat (plen x) - n" arbitrary: n k y sent rule: less_induct)
  case less
  let ?h = "can2_fields x g c"
  let ?m = "if unat (plen x) - n \<ge> CAN_FRAME_SIZE then CAN_FRAME_SIZE else unat (plen x) - n"
  let ?bs = "take ?m (List.drop n (pdata x))"
  define fin where "fin \<longleftrightarrow> n + ?m = unat (plen x)"
  define can_id where "can_id = (if fin then (?h OR push_bit CFP2_FC_OFFSET (of_nat k AND CFP2_FC_MASK)) OR CFP2_END
    else ?h OR push_bit CFP2_FC_OFFSET (of_nat k AND CFP2_FC_MASK))"
  note ids = fragment_id [of fin x g c k, folded can_id_def]
  have q: "q < length (csp_buffer_pool s)" using accounts_held [OF s(1)] by (simp add: pool_inv_def)
  have lp: "length (pdata x) = unat (plen x)" by (rule length_pdata [OF x(1)])
  have hb: "length hb = 6" "pframe (csp_id2_prepend x) = hb @ pdata x"
    using id2.prepend_fields(5) [OF x(1)] id2.pframe_prepend [OF x(1)] by (simp_all add: hb_def)
  have len: "length ?bs = ?m" "?m \<le> 8" "length (hb @ take n (pdata x)) + length ?bs \<le> unat (if_mtu f)" "0 < ?m"
    using less.prems(1) lp hb(1) m(1) by auto
  have rd: "data_read n ?m x = Some ?bs" 
    using less.prems(1) x(1) by (auto simp: data_read_def mem_read_def packet_wf_def pdata_def drop_take min_def ac_simps)
  have ap: "hb @ take n (pdata x) @ ?bs = hb @ take (n + ?m) (pdata x)" by (simp only: take_add)
  have loop: "csp_can2_tx_loop driver ?h x n k sent = csp_can2_tx_loop driver ?h x (n + ?m) (Suc k) (sent @ [(can_id, ?bs)])"
    using less.prems(1) rd driver by (subst csp_can2_tx_loop.simps) (simp add: Let_def can_id_def fin_def)
  obtain y1 where y1: "csp_can_rx i can_id ?bs (of_nat (length ?bs)) False (gathering i f d q y s) =
      csp_can2_store i can_id ?bs (of_nat (length ?bs)) q False (gathering i f d q y1 s)" "gathered z (hb @ take n (pdata x)) (Suc k) ?h y1"
    using can2_rx_fragment [OF s(2) q s(4) less.prems(2) ids(1,2,4)] by blast
  show ?case
  proof (cases fin)
    case True
    then have fl: "(hb @ take n (pdata x)) @ ?bs = pframe (csp_id2_prepend x)" using ap lp hb(2) by (simp add: fin_def)
    obtain s' where "csp_can2_store i can_id ?bs (of_nat (length ?bs)) q False (gathering i f d q y1 s) = Some (CSP_ERR_NONE, s')" "received i q x H s s'"
      using can2_store_end [OF s(1-3) y1(2) z _ len(3) m(2) _ x fl] ids(3) True len(1,2) by auto
    moreover have "csp_can2_tx_loop driver ?h x n k sent = Some (True, sent @ [(can_id, ?bs)])"
      unfolding loop using True by (subst csp_can2_tx_loop.simps) (simp add: fin_def)
    ultimately show ?thesis using y1(1) by (intro exI [of _ "[(can_id, ?bs)]"] exI [of _ s']) simp
  next
    case False
    obtain y2 where y2: "csp_can2_store i can_id ?bs (of_nat (length ?bs)) q False (gathering i f d q y1 s) = Some (CSP_ERR_NONE, gathering i f d q y2 s)"
        "gathered z (hb @ take (n + ?m) (pdata x)) (Suc k) ?h y2"
      using can2_store_more [OF s(2) q y1(2) z _ len(3) m(2)] ids(3) False len(1,2) ap by auto
    have "n + ?m < unat (plen x)" "unat (plen x) - (n + ?m) < unat (plen x) - n" using False less.prems(1) by (auto simp: fin_def split: if_splits)
    from less.hyps [OF this(2,1) y2(2), of "sent @ [(can_id, ?bs)]"] obtain fs s' where
      "csp_can2_tx_loop driver ?h x (n + ?m) (Suc k) (sent @ [(can_id, ?bs)]) = Some (True, (sent @ [(can_id, ?bs)]) @ fs)"
      "can_rx_frames i fs (gathering i f d q y2 s) = Some s'" "received i q x H s s'" by blast
    then show ?thesis unfolding loop using y1(1) y2(1) by (intro exI [of _ "(can_id, ?bs) # fs"] exI [of _ s']) simp
  qed
qed

lemma frames_first_received:
  assumes s: "accounts H s" "free_list s = q # fs" "items (qfifo_queue s) < qsize (qfifo_queue s)" "version (csp_conf s) \<noteq> 1"
    and f: "get_iface i s = Some f" "if_data f = Can_Data d" "pbufs d = None"
    and driver: "\<And>sent can_id bs. driver sent can_id bs = CSP_ERR_NONE"
    and m: "6 + unat (plen x) \<le> unat (if_mtu f)" "unat (if_mtu f) \<le> CSP_BUFFER_SIZE"
    and x: "packet_wf x" "id2_fits (pid x)" "dst (pid x) \<noteq> 0x3FFF"
    and first: "n = (if unat (plen x) \<ge> 4 then 4 else unat (plen x))" "fin \<longleftrightarrow> n = unat (plen x)"
      "can_id = (if fin then (can2_fields x g c OR CFP2_BEGIN) OR CFP2_END else can2_fields x g c OR CFP2_BEGIN)"
      "frame = word_to_le 4 (htobe32 (ucast (csp_id2_pack (pid x)))) @ take n (pdata x)"
  shows "\<exists>fr s'. (if fin then Some (True, [(can_id, frame)]) else csp_can2_tx_loop driver (can2_fields x g c) x n 1 [(can_id, frame)]) = Some (True, fr) \<and>
    can_rx_frames i fr s = Some s' \<and> received i q x H s s'"
proof -
  let ?h = "can2_fields x g c"
  let ?low = "CFP2_BEGIN OR (if fin then CFP2_END else 0)"
  have low: "bit ?low n \<Longrightarrow> n < 5" for n unfolding mask_values by (auto simp: bit_simps split: if_splits)
  have id: "can_id = ?h OR ?low" by (simp add: first(3) or.assoc)
  note l = fields_low [of ?low x g c, OF low, folded id]
  have "?low AND CFP2_BEGIN \<noteq> 0" "?low AND CFP2_END \<noteq> 0 \<longleftrightarrow> fin" by (simp_all add: mask_values)
  then have bg: "can_id AND CFP2_BEGIN \<noteq> 0" "can_id AND CFP2_END \<noteq> 0 \<longleftrightarrow> fin" by (simp_all only: l(2,3) not_False_eq_True)
  have "bit ?low n \<Longrightarrow> n < 13" for n using low by fastforce
  from fields_first_two [OF x(2) this, where f = g and c = c] have ft: "(ucast (drop_bit 13 can_id) :: u16) = ucast (drop_bit 32 (csp_id2_pack (pid x)))" by (simp only: id)
  note a = accounts_take [OF s(1,2)]
  obtain z where z: "get_packet q (take_buffer q s) = Some z" "length (bytes z) = PACKET_BYTES" using accounts_packet [OF a] by auto
  then have z': "get_packet q s = Some z" using take_buffer_inv(4) [OF _ s(2), of q] s(1) by (simp add: accounts_def)
  have i: "i < length (ifaces s)" using f(1) by (simp add: get_iface_def split: if_splits)
  have t: "i < length (ifaces (take_buffer q s))" "qfifo_queue (take_buffer q s) = qfifo_queue s" "csp_conf (take_buffer q s) = csp_conf s"
    using i by (simp_all add: take_buffer_def)
  have q: "q < length (csp_buffer_pool (take_buffer q s))" using accounts_held [OF a] by (simp add: pool_inv_def)
  let ?hb = "word_to_le 6 (htobe64 (push_bit 16 (csp_id2_pack (pid x))))"
  have hb: "?hb = take 6 (List.drop 2 (bytes (csp_id2_prepend x)))"
    using x(1) by (simp add: csp_id2_prepend_def Let_def mem_put_def packet_wf_def)
  have lp: "length (take n (pdata x)) = n" "n \<le> 4" using length_pdata [OF x(1)] first(1) by auto
  let ?f = "f\<lparr>if_frame := if_frame f + 1\<rparr>"
  define y where "y = z\<lparr>last_used := now s, cfpid := can_id, remain := 0, pnext := None, frame_begin := 2,
        bytes := mem_put 2 ?hb (bytes z), frame_length := 6, plen := 0, rx_count := 1\<rparr>"
  have y: "gathered z ?hb 1 ?h y" using l(1) by (simp add: gathered_def y_def)
  have bytes: "word_to_le 2 (htobe16 (ucast (drop_bit 13 can_id))) @ word_to_le 4 (htobe32 (ucast (csp_id2_pack (pid x)))) = ?hb"
    unfolding ft by (rule csp_id2_bytes)
  have "csp_can_rx i can_id frame (of_nat (4 + length (take n (pdata x)))) False s =
      csp_can2_store i can_id (take n (pdata x)) (of_nat (length (take n (pdata x)))) q False (gathering i ?f d q y (take_buffer q s))"
    using can2_rx_first [OF s(1,2) f z' bg(1), of "word_to_le 4 (htobe32 (ucast (csp_id2_pack (pid x))))" "take n (pdata x)"] lp s(4)
    unfolding bytes y_def [symmetric] by (simp add: csp_can_rx_def first(4))
  then have rx: "csp_can_rx i can_id frame (of_nat (length frame)) False s =
      csp_can2_store i can_id (take n (pdata x)) (of_nat (length (take n (pdata x)))) q False (gathering i ?f d q y (take_buffer q s))"
    by (simp add: first(4))
  have b: "length (take n (pdata x)) \<le> 8" "length ?hb + length (take n (pdata x)) \<le> unat (if_mtu ?f)" "unat (if_mtu ?f) \<le> CSP_BUFFER_SIZE"
    "6 + unat (plen x) \<le> unat (if_mtu ?f)"
    using lp m length_pdata [OF x(1)] by auto
  have qf: "items (qfifo_queue (take_buffer q s)) < qsize (qfifo_queue (take_buffer q s))" "version (csp_conf (take_buffer q s)) \<noteq> 1"
    using s(3,4) t by simp_all
  have rec: "received i q x H (take_buffer q s) s' = received i q x H s s'" for s' by (simp add: received_def t(2))
  show ?thesis
  proof (cases fin)
    case True
    then have fl: "?hb @ take n (pdata x) = pframe (csp_id2_prepend x)"
      using first(2) length_pdata [OF x(1)] id2.pframe_prepend [OF x(1)] hb by simp
    obtain s' where "csp_can2_store i can_id (take n (pdata x)) (of_nat (length (take n (pdata x)))) q False (gathering i ?f d q y (take_buffer q s)) =
        Some (CSP_ERR_NONE, s')" "received i q x H s s'"
      using can2_store_end [OF a t(1) qf(1) y z(2) b(1-3) _ x fl, of can_id d] bg(2) True rec by auto
    then show ?thesis using rx True by (intro exI [of _ "[(can_id, frame)]"] exI [of _ s']) simp
  next
    case False
    then have n: "n < unat (plen x)" using first(1,2) by (auto split: if_splits)
    obtain y1 where y1: "csp_can2_store i can_id (take n (pdata x)) (of_nat (length (take n (pdata x)))) q False (gathering i ?f d q y (take_buffer q s)) =
        Some (CSP_ERR_NONE, gathering i ?f d q y1 (take_buffer q s))" "gathered z (?hb @ take n (pdata x)) 1 ?h y1"
      using can2_store_more [OF t(1) q y z(2) b(1-3)] bg(2) False by auto
    from can2_frames_received [where driver = driver and sent = "[(can_id, frame)]" and d = d, OF a t(1) qf z(2) driver b(4,3) x n y1(2) [unfolded hb]] obtain fr s' where
      "csp_can2_tx_loop driver ?h x n 1 [(can_id, frame)] = Some (True, [(can_id, frame)] @ fr)"
      "can_rx_frames i fr (gathering i ?f d q y1 (take_buffer q s)) = Some s'" "received i q x H s s'" unfolding rec by blast
    then show ?thesis using rx y1(1) False by (intro exI [of _ "(can_id, frame) # fr"] exI [of _ s']) simp
  qed
qed

lemma upd_can_eq:
  assumes "get_iface i s = Some f" "if_data f = Can_Data d"
  shows "upd_can i h s = Some (put_iface i (f\<lparr>if_data := Can_Data (h d)\<rparr>) s)"
  using assms by (simp add: upd_can_def upd_iface_def get_can_def)

section \<open>Properties\<close>

text \<open>C7: A packet that one node transmits over CAN, with a driver that accepts all frames, reaches the input queue of the other node with
  its identifier and data, when the other node has no packet under reception, a free buffer and room in the queue: the
  header split between identifier and data of the first frame is put together, and the fragments, counted modulo eight, are
  joined. The sender's buffer is freed, and the receiver's buffers stay accounted for.\<close>

theorem csp_can_roundtrip:
  assumes "accounts (add_mset p H0) s0" "get_packet p s0 = Some x" "packet_wf x" "id2_fits (pid x)" "src (pid x) < 0x2000" "dst (pid x) \<noteq> 0x3FFF"
    "version (csp_conf s0) = 2" "get_iface j s0 = Some g" "if_data g = Can_Data e" "dst (pid x) \<noteq> if_addr g"
    "\<And>sent can_id bs. driver sent can_id bs = CSP_ERR_NONE"
    "accounts H s" "free_list s = q # fs" "items (qfifo_queue s) < qsize (qfifo_queue s)" "version (csp_conf s) = 2"
    "get_iface i s = Some f" "if_data f = Can_Data d" "pbufs d = None"
    "6 + unat (plen x) \<le> unat (if_mtu f)" "unat (if_mtu f) \<le> csp_buffer_data_size"
  shows "\<exists>frames s0' s'. csp_can_nexthop driver j via p s0 = Some ((CSP_ERR_NONE, frames), s0') \<and> accounts H0 s0' \<and>
    can_rx_frames i frames s = Some s' \<and> received i q x H s s'"
proof -
  let ?n = "if unat (plen x) \<ge> 4 then 4 else unat (plen x)"
  let ?h = "can2_fields x g (cfp_packet_counter e)"
  define can_id where "can_id = (if ?n = unat (plen x) then (?h OR CFP2_BEGIN) OR CFP2_END else ?h OR CFP2_BEGIN)"
  define frame where "frame = word_to_le 4 (htobe32 (ucast (csp_id2_pack (pid x)))) @ take ?n (pdata x)"
  have v: "version (csp_conf s) \<noteq> 1" "unat (if_mtu f) \<le> CSP_BUFFER_SIZE" using assms(15,20) by (simp_all add: csp_buffer_data_size_def)
  have "\<exists>fr s'. (if ?n = unat (plen x) then Some (True, [(can_id, frame)]) else csp_can2_tx_loop driver ?h x ?n 1 [(can_id, frame)]) = Some (True, fr) \<and>
      can_rx_frames i fr s = Some s' \<and> received i q x H s s'"
    by (rule frames_first_received [where driver = driver, OF assms(12,13,14) v(1) assms(16,17,18,11,19) v(2) assms(3,4,6) refl refl can_id_def frame_def])
  then obtain fr s' where fr: "(if ?n = unat (plen x) then Some (True, [(can_id, frame)]) else csp_can2_tx_loop driver ?h x ?n 1 [(can_id, frame)]) = Some (True, fr)"
    "can_rx_frames i fr s = Some s'" "received i q x H s s'" by blast
  moreover have "csp_can2_tx_loop driver ?h x ?n 1 [(can_id, frame)] = Some (True, [(can_id, frame)])" if "?n = unat (plen x)"
    using that by (subst csp_can2_tx_loop.simps) simp
  ultimately have loop: "csp_can2_tx_loop driver ?h x ?n 1 [(can_id, frame)] = Some (True, fr)" by (simp split: if_splits)
  have "?n \<le> CSP_BUFFER_SIZE" by simp
  then have rd: "data_read 0 ?n x = Some (take ?n (pdata x))"
    using assms(3) by (simp add: data_read_def mem_read_def packet_wf_def pdata_def min_def)
  let ?s = "put_iface j (g\<lparr>if_data := Can_Data (e\<lparr>cfp_packet_counter := cfp_packet_counter e + 1\<rparr>)\<rparr>) s0"
  have "accounts (add_mset p H0) ?s" using assms(1) by simp
  note fre = accounts_free [OF this]
  have gc: "get_can j s0 = Some e" using assms(8,9) by (simp add: get_can_def)
  have "csp_can2_tx driver j via p s0 = Some ((CSP_ERR_NONE, fr), give_buffer p ?s)"
    using assms(2,8,10,11) rd loop fre(1) gc header_extension_pack [OF assms(4,5)] upd_can_eq [OF assms(8,9)]
    by (simp add: csp_can2_tx_def can_tx_end_def Let_def can_id_def [symmetric] frame_def [symmetric] del: One_nat_def)
  then show ?thesis using assms(7) fr(2,3) fre(2) by (auto simp: csp_can_nexthop_def)
qed

definition can_iface :: csp_iface_t where
  "can_iface = zero_iface\<lparr>if_name := ''CAN'', if_addr := 4, if_mtu := 248, if_data := Can_Data \<lparr>cfp_packet_counter = 0, pbufs = None\<rparr>\<rparr>"

definition can_packet :: csp_packet_t where
  "can_packet = zero_packet\<lparr>plen := 20, pid := zero_id\<lparr>src := 4, dst := 9\<rparr>\<rparr>"

definition can_sender :: node where
  "can_sender = put_iface 1 can_iface (put_packet 3 can_packet busy_node)"

definition can_receiver :: node where
  "can_receiver = put_iface 1 can_iface (give_buffer 3 busy_node)"

lemma can_iface_fields:
  "if_data can_iface = Can_Data \<lparr>cfp_packet_counter = 0, pbufs = None\<rparr>" "if_addr can_iface = 4" "if_mtu can_iface = 248"
  by (simp_all add: can_iface_def)

lemma can_packet_fields:
  "packet_wf can_packet" "id2_fits (pid can_packet)" "src (pid can_packet) = 4" "dst (pid can_packet) = 9" "plen can_packet = 20"
  by (simp_all add: can_packet_def packet_wf_def zero_packet_def id2_fits_def zero_id_def)

lemma can_nodes:
  "accounts (add_mset 3 (mset_set ({..<15} - {3}))) can_sender" "get_packet 3 can_sender = Some can_packet" "version (csp_conf can_sender) = 2"
  "get_iface 1 can_sender = Some can_iface"
  "accounts (mset_set ({..<15} - {3})) can_receiver" "free_list can_receiver = [3]" "version (csp_conf can_receiver) = 2"
  "get_iface 1 can_receiver = Some can_iface" "items (qfifo_queue can_receiver) < qsize (qfifo_queue can_receiver)"
proof -
  note h = accounts_held [OF busy_node_held(1)]
  have "length (bytes can_packet) = PACKET_BYTES" using can_packet_fields(1) by (simp add: packet_wf_def)
  then show "accounts (add_mset 3 (mset_set ({..<15} - {3}))) can_sender" unfolding can_sender_def
    using accounts_put [OF busy_node_held(1)] by simp
  show "accounts (mset_set ({..<15} - {3})) can_receiver" using accounts_give [OF busy_node_held(1)] by (simp add: can_receiver_def)
  have "free_list busy_node = []" by (simp add: busy_node_def ready_node_def held_node_def zero_node_def free_list_def)
  with give_buffer_inv(2) [OF h(4,1)] show "free_list can_receiver = [3]" by (simp add: can_receiver_def)
  show "get_packet 3 can_sender = Some can_packet" "version (csp_conf can_sender) = 2" "get_iface 1 can_sender = Some can_iface"
    "version (csp_conf can_receiver) = 2" "get_iface 1 can_receiver = Some can_iface" "items (qfifo_queue can_receiver) < qsize (qfifo_queue can_receiver)"
    by (simp_all add: can_sender_def can_receiver_def access_defs give_buffer_def busy_node_def ready_node_def held_node_def zero_node_def
        empty_queue_def zero_conf_def)
qed

theorem csp_can_roundtrip_witness:
  "\<exists>frames s0' s'. csp_can_nexthop (\<lambda>sent can_id bs. CSP_ERR_NONE) 1 0 3 can_sender = Some ((CSP_ERR_NONE, frames), s0') \<and>
     can_rx_frames 1 frames can_receiver = Some s' \<and> received 1 3 can_packet (mset_set ({..<15} - {3})) can_receiver s'"
  using csp_can_roundtrip [OF can_nodes(1,2) can_packet_fields(1,2) _ _ can_nodes(3,4) can_iface_fields(1) _ _ can_nodes(5,6,9,7,8) can_iface_fields(1),
      of "\<lambda>sent can_id bs. CSP_ERR_NONE" 0] can_packet_fields can_iface_fields
  by (auto simp: csp_buffer_data_size_def)

text \<open>The cleanup of packets under reception keeps the predecessor of a packet it frees as the predecessor of the next one. When two
  packets in a row have expired the second is freed but stays in the list: the next frame may be stored in a buffer that belongs to someone
  else, or the buffer is freed twice.\<close>

theorem csp_can_pbuf_cleanup_keeps_freed:
  assumes "accounts (add_mset a (add_mset b H)) s" "get_iface i s = Some f" "if_data f = Can_Data d" "pbufs d = Some a"
    "get_packet a s = Some x" "pnext x = Some b" "get_packet b s = Some y" "pnext y = None"
    "now s - last_used x > PBUF_TIMEOUT_MS" "now s - last_used y > PBUF_TIMEOUT_MS"
  shows "\<exists>s' d'. csp_can_pbuf_cleanup i s = Some s' \<and> accounts H s' \<and> get_can i s' = Some d' \<and> pbufs d' = Some b \<and> b \<in> set (free_list s')"
proof -
  note h = accounts_held [OF assms(1)]
  have ab: "a \<noteq> b" using h(3) by auto
  have p: "a < length (csp_buffer_pool s)" using h(2,4) by (simp add: pool_inv_def)
  let ?f = "f\<lparr>if_data := Can_Data (d\<lparr>pbufs := Some b\<rparr>)\<rparr>"
  have i: "i < length (ifaces s)" using assms(2) by (simp add: get_iface_def split: if_splits)
  define s1 where "s1 = give_buffer a (put_iface i ?f s)"
  have "accounts (add_mset a (add_mset b H)) (put_iface i ?f s)" using assms(1) by simp
  note f1 = accounts_free [OF this, folded s1_def]
  have g1: "get_packet a s1 = Some x" "get_packet b s1 = Some y" using assms(5,7) by (simp_all add: s1_def get_packet_give)
  have p1: "a < length (csp_buffer_pool s1)" using p by (simp add: s1_def give_buffer_def put_iface_def)
  let ?x = "x\<lparr>pnext := None\<rparr>"
  have "length (bytes x) = PACKET_BYTES" using accounts_packet [OF assms(1)] assms(5) by auto
  then have a2: "accounts (add_mset b H) (put_packet a ?x s1)" using accounts_put [OF f1(2)] by simp
  note f2 = accounts_free [OF a2]
  let ?s2 = "give_buffer b (put_packet a ?x s1)"
  have c2: "get_can i ?s2 = Some (d\<lparr>pbufs := Some b\<rparr>)" using i
    by (simp add: get_can_def get_iface_def give_buffer_def put_packet_def s1_def put_iface_def)
  have g2: "get_packet b ?s2 = Some y" using g1(2) ab get_put_packet [OF p1, of b] by (simp add: get_packet_give)
  have n: "now s1 = now s" by (simp add: s1_def give_buffer_def put_iface_def)
  have u1: "pbuf_unlink i a None s = Some (put_iface i ?f s)"
    using assms(5,6) upd_can_eq [OF assms(2,3)] by (simp add: pbuf_unlink_def)
  have u2: "pbuf_unlink i b (Some a) s1 = Some (put_packet a ?x s1)"
    using g1 assms(8) by (simp add: pbuf_unlink_def upd_packet_def)
  have gc: "get_can i s = Some d" using assms(2,3) by (simp add: get_can_def)
  have "csp_can_pbuf_cleanup_loop i (Some b) (Some a) s1 = Some ?s2"
    using g1 g2 assms(8,10) u2 f2(1) n by (simp add: csp_can_pbuf_cleanup_loop.simps buffer_free_def)
  then have "csp_can_pbuf_cleanup i s = Some ?s2"
    using assms(4-6,9) u1 f1(1) g1(1) gc unfolding csp_can_pbuf_cleanup_def
    by (simp add: csp_can_pbuf_cleanup_loop.simps [of i "Some a"] buffer_free_def)
  moreover have "b \<in> set (free_list ?s2)"
    using give_buffer_inv(2) accounts_held(4,1) [OF a2] by simp
  ultimately show ?thesis using f2(2) c2 by simp
qed

definition stale_node :: node where
  "stale_node = put_iface 1 (can_iface\<lparr>if_data := Can_Data \<lparr>cfp_packet_counter = 0, pbufs = Some 3\<rparr>\<rparr>)
     (put_packet 3 (zero_packet\<lparr>pnext := Some 4, last_used := 0 - 2000\<rparr>) (put_packet 4 (zero_packet\<lparr>last_used := 0 - 2000\<rparr>) busy_node))"

lemma stale_node_facts:
  "accounts (add_mset 3 (add_mset 4 (mset_set ({..<15} - {3} - {4})))) stale_node"
  "get_iface 1 stale_node = Some (can_iface\<lparr>if_data := Can_Data \<lparr>cfp_packet_counter = 0, pbufs = Some 3\<rparr>\<rparr>)"
  "get_packet 3 stale_node = Some (zero_packet\<lparr>pnext := Some 4, last_used := 0 - 2000\<rparr>)"
  "get_packet 4 stale_node = Some (zero_packet\<lparr>last_used := 0 - 2000\<rparr>)" "now stale_node = 0"
proof -
  have "mset_set ({..<15} - {3}) = add_mset 4 (mset_set ({..<15} - {3} - {4 :: nat}))" using mset_set.remove [of "{..<15} - {3 :: nat}" 4] by simp
  then have "accounts (add_mset 3 (add_mset 4 (mset_set ({..<15} - {3} - {4})))) busy_node" using busy_node_held(1) by simp
  then show "accounts (add_mset 3 (add_mset 4 (mset_set ({..<15} - {3} - {4})))) stale_node" unfolding stale_node_def
    by (simp only: accounts_frame) (intro accounts_put; simp add: zero_packet_def)
  show "get_iface 1 stale_node = Some (can_iface\<lparr>if_data := Can_Data \<lparr>cfp_packet_counter = 0, pbufs = Some 3\<rparr>\<rparr>)"
    "get_packet 3 stale_node = Some (zero_packet\<lparr>pnext := Some 4, last_used := 0 - 2000\<rparr>)"
    "get_packet 4 stale_node = Some (zero_packet\<lparr>last_used := 0 - 2000\<rparr>)" "now stale_node = 0"
    by (simp_all add: stale_node_def access_defs busy_node_def ready_node_def held_node_def zero_node_def)
qed

theorem csp_can_pbuf_cleanup_keeps_freed_witness:
  "\<exists>s' d'. csp_can_pbuf_cleanup 1 stale_node = Some s' \<and> get_can 1 s' = Some d' \<and> pbufs d' = Some 4 \<and> 4 \<in> set (free_list s')"
  using csp_can_pbuf_cleanup_keeps_freed [OF stale_node_facts(1,2) _ _ stale_node_facts(3) _ stale_node_facts(4)] stale_node_facts(5)
  by (auto simp: can_iface_def zero_packet_def)

end
