(* ===== verification/Csp_Yaml.thy ===== *)
theory Csp_Yaml
  imports Csp_Zmq
begin

text \<open>
  The configuration of interfaces (\<^verbatim>\<open>src/csp_yaml.c\<close>). The events of the library libyaml are a parameter, as is what the system
  gives while interfaces are opened; libzmq and SocketCAN are configured. What is only printed is left out.
\<close>

section \<open>Model\<close>

text \<open>\<^verbatim>\<open>atoi\<close>; a number that an \<^verbatim>\<open>int\<close> cannot hold is undefined.\<close>

definition atoi :: "string \<Rightarrow> int option" where
  "atoi str =
     (case scan_number str of
        None \<Rightarrow> Some 0
      | Some (n, _) \<Rightarrow> if - (2 ^ 31) \<le> n \<and> n < 2 ^ 31 then Some n else None)"

record data_s =
  y_name :: "string option"
  y_driver :: "string option"
  y_device :: "string option"
  y_addr :: "string option"
  y_netmask :: "string option"
  y_server :: "string option"
  y_is_dfl :: "string option"
  y_baudrate :: "string option"
  y_source :: "string option"
  y_destination :: "string option"
  y_listen_port :: "string option"
  y_remote_port :: "string option"
  y_promisc :: "string option"

definition csp_yaml_start_if :: data_s where
  "csp_yaml_start_if = \<lparr>y_name = None, y_driver = None, y_device = None, y_addr = None, y_netmask = None, y_server = None, y_is_dfl = None,
     y_baudrate = None, y_source = None, y_destination = None, y_listen_port = None, y_remote_port = None, y_promisc = None\<rparr>"

text \<open>
  The system: \<open>y_malloc\<close> is what allocated memory holds, if there is memory; \<open>y_usart\<close> is the result of opening a
  device with a baud rate.
\<close>

record yaml_env =
  y_calloc :: bool
  y_malloc :: "csp_iface_t option"
  y_usart :: "string option \<Rightarrow> int \<Rightarrow> int"
  y_can :: "string \<Rightarrow> can_system"
  y_zmq :: zmq_system

text \<open>The branches for the drivers: the interface, or \<open>None\<close> when the function returns. The result of \<^verbatim>\<open>malloc\<close> is not checked.\<close>

definition yaml_kiss :: "yaml_env \<Rightarrow> data_s \<Rightarrow> string \<Rightarrow> node \<Rightarrow> nat option csp" where
  "yaml_kiss cfg data name s =
     (case y_baudrate data of
        None \<Rightarrow> Some (None, s)
      | Some b \<Rightarrow> do {
          baudrate \<leftarrow> atoi b;
          ((error, i), s) \<leftarrow> csp_usart_open_and_add_kiss_interface (y_calloc cfg) (y_usart cfg (y_device data) baudrate) (Some name) s;
          Some (if error \<noteq> CSP_ERR_NONE then None else i, s)
        })"

definition yaml_tun :: "yaml_env \<Rightarrow> data_s \<Rightarrow> node \<Rightarrow> nat option csp" where
  "yaml_tun cfg data s =
     (if y_source data = None \<or> y_destination data = None then Some (None, s)
      else do {
        f \<leftarrow> y_malloc cfg;
        let (i, s) = new_iface f s;
        _ \<leftarrow> atoi (the (y_destination data));
        _ \<leftarrow> atoi (the (y_source data));
        (_, s) \<leftarrow> csp_if_tun_init i s;
        Some (Some i, s)
      })"

definition yaml_udp :: "yaml_env \<Rightarrow> data_s \<Rightarrow> node \<Rightarrow> nat option csp" where
  "yaml_udp cfg data s =
     (if y_server data = None \<or> y_listen_port data = None \<or> y_remote_port data = None then Some (None, s)
      else do {
        f \<leftarrow> y_malloc cfg;
        let (i, s) = new_iface f s;
        _ \<leftarrow> atoi (the (y_listen_port data));
        _ \<leftarrow> atoi (the (y_remote_port data));
        (_, s) \<leftarrow> csp_if_udp_init i s;
        Some (Some i, s)
      })"

definition yaml_zmq :: "yaml_env \<Rightarrow> data_s \<Rightarrow> string \<Rightarrow> int \<Rightarrow> string \<Rightarrow> node \<Rightarrow> nat option csp" where
  "yaml_zmq cfg data name addr netmask s =
     (case y_server data of
        None \<Rightarrow> Some (None, s)
      | Some server \<Rightarrow> do {
          let promisc = (y_promisc data = Some ''true'');
          n \<leftarrow> atoi netmask;
          ((_, i, _), s) \<leftarrow> csp_zmqhub_init_filter2 (y_zmq cfg) (Some name) server (word_of_int addr) (word_of_int n) promisc s;
          Some (Some i, s)
        })"

definition yaml_can :: "yaml_env \<Rightarrow> data_s \<Rightarrow> string \<Rightarrow> node \<Rightarrow> nat option csp" where
  "yaml_can cfg data name s =
     (case y_device data of
        None \<Rightarrow> Some (None, s)
      | Some d \<Rightarrow> do {
          ((error, i), s) \<leftarrow> csp_can_socketcan_open_and_add_interface (y_can cfg d) (Some name) True s;
          Some (if error \<noteq> CSP_ERR_NONE then None else i, s)
        })"

text \<open>The default address: it is read from the first default interface, or it replaces the address of the file.\<close>

definition yaml_address :: "data_s \<Rightarrow> u32 option \<Rightarrow> int \<Rightarrow> int \<times> u32 option" where
  "yaml_address data dfl_addr addr =
     (case dfl_addr of
        None \<Rightarrow> (addr, None)
      | Some d \<Rightarrow>
          if y_is_dfl data = None then (addr, dfl_addr)
          else if d = 0 then (addr, Some (word_of_int addr)) else (sint d, dfl_addr))"

text \<open>The result is what \<^verbatim>\<open>*dfl_addr\<close> holds afterwards.\<close>

definition csp_yaml_end_if :: "yaml_env \<Rightarrow> data_s \<Rightarrow> u32 option \<Rightarrow> node \<Rightarrow> u32 option csp" where
  "csp_yaml_end_if cfg data dfl_addr s =
     (if y_name data = None \<or> y_driver data = None \<or> y_addr data = None \<or> y_netmask data = None then Some (dfl_addr, s)
      else do {
        name \<leftarrow> y_name data;
        driver \<leftarrow> y_driver data;
        netmask \<leftarrow> y_netmask data;
        a \<leftarrow> atoi (the (y_addr data));
        let (addr, dfl_addr) = yaml_address data dfl_addr a;
        (iface, s) \<leftarrow>
          (if driver = ''kiss'' then yaml_kiss cfg data name s
           else if driver = ''tun'' then yaml_tun cfg data s
           else if driver = ''udp'' then yaml_udp cfg data s
           else if driver = ''zmq'' then yaml_zmq cfg data name addr netmask s
           else if driver = ''can'' then yaml_can cfg data name s
           else Some (None, s));
        (case iface of
           None \<Rightarrow> Some (dfl_addr, s)
         | Some i \<Rightarrow> do {
             n \<leftarrow> atoi netmask;
             s \<leftarrow> upd_iface i (\<lambda>f. f\<lparr>if_addr := word_of_int addr, if_netmask := word_of_int n, if_name := name\<rparr>) s;
             Some (dfl_addr, s)
           })
      })"

definition csp_yaml_key_value :: "data_s \<Rightarrow> string \<Rightarrow> string \<Rightarrow> data_s" where
  "csp_yaml_key_value data key v =
     (if key = ''name'' then data\<lparr>y_name := Some v\<rparr>
      else if key = ''driver'' then data\<lparr>y_driver := Some v\<rparr>
      else if key = ''device'' then data\<lparr>y_device := Some v\<rparr>
      else if key = ''addr'' then data\<lparr>y_addr := Some v\<rparr>
      else if key = ''netmask'' then data\<lparr>y_netmask := Some v\<rparr>
      else if key = ''server'' then data\<lparr>y_server := Some v\<rparr>
      else if key = ''default'' then data\<lparr>y_is_dfl := Some v\<rparr>
      else if key = ''baudrate'' then data\<lparr>y_baudrate := Some v\<rparr>
      else if key = ''source'' then data\<lparr>y_source := Some v\<rparr>
      else if key = ''destination'' then data\<lparr>y_destination := Some v\<rparr>
      else if key = ''listen_port'' then data\<lparr>y_listen_port := Some v\<rparr>
      else if key = ''remote_port'' then data\<lparr>y_remote_port := Some v\<rparr>
      else if key = ''promisc'' then data\<lparr>y_promisc := Some v\<rparr>
      else data)"

text \<open>
  The events; \<open>Other_Event\<close> are those that the loop does not look for, and no event at all after an error of the
  parser. \<open>events n\<close> is what the \<open>n\<close>-th call of \<^verbatim>\<open>yaml_parser_parse\<close> gives.
\<close>

datatype yaml_event = Stream_Start | Document_Start | Sequence_Start | Sequence_End | Mapping_Start | Mapping_End | Scalar string | Other_Event

primrec scalar_value :: "yaml_event \<Rightarrow> string option" where
  "scalar_value (Scalar v) = Some v"
| "scalar_value Stream_Start = None"
| "scalar_value Document_Start = None"
| "scalar_value Sequence_Start = None"
| "scalar_value Sequence_End = None"
| "scalar_value Mapping_Start = None"
| "scalar_value Mapping_End = None"
| "scalar_value Other_Event = None"

text \<open>
  The loop. \<open>data\<close> is \<open>None\<close> until the variable is initialised; reading it before, and reading the value of an event that is
  not a scalar, is undefined.
\<close>

partial_function (option) csp_yaml_loop ::
  "yaml_env \<Rightarrow> (nat \<Rightarrow> yaml_event) \<Rightarrow> nat \<Rightarrow> data_s option \<Rightarrow> u32 option \<Rightarrow> node \<Rightarrow> ((data_s option \<times> u32 option) \<times> node) option" where
  "csp_yaml_loop cfg events n data dfl_addr s =
     (if events n = Sequence_End then Some ((data, dfl_addr), s)
      else if events n = Mapping_Start then csp_yaml_loop cfg events (n + 1) (Some csp_yaml_start_if) dfl_addr s
      else if events n = Mapping_End then do {
        d \<leftarrow> data;
        r \<leftarrow> csp_yaml_end_if cfg d dfl_addr s;
        csp_yaml_loop cfg events (n + 1) data (fst r) (snd r)
      }
      else if scalar_value (events n) \<noteq> None then do {
        key \<leftarrow> scalar_value (events n);
        v \<leftarrow> scalar_value (events (n + 1));
        csp_yaml_loop cfg events (n + 2) (map_option (\<lambda>d. csp_yaml_key_value d key v) data) dfl_addr s
      }
      else csp_yaml_loop cfg events (n + 1) data dfl_addr s)"

text \<open>At the end the strings in \<open>data\<close> are freed.\<close>

definition csp_yaml_init :: "yaml_env \<Rightarrow> bool \<Rightarrow> (nat \<Rightarrow> yaml_event) \<Rightarrow> u32 option \<Rightarrow> node \<Rightarrow> u32 option csp" where
  "csp_yaml_init cfg file events dfl_addr s =
     (if \<not> file \<or> events 0 \<noteq> Stream_Start \<or> events 1 \<noteq> Document_Start \<or> events 2 \<noteq> Sequence_Start then Some (dfl_addr, s)
      else do {
        ((data, dfl_addr), s) \<leftarrow> csp_yaml_loop cfg events 3 None dfl_addr s;
        _ \<leftarrow> data;
        Some (dfl_addr, s)
      })"

section \<open>Documents\<close>

text \<open>A document: a sequence of mappings from keys to scalar values.\<close>

definition mapping_events :: "(string \<times> string) list \<Rightarrow> yaml_event list" where
  "mapping_events m = Mapping_Start # concat (map (\<lambda>(k, v). [Scalar k, Scalar v]) m) @ [Mapping_End]"

definition document_events :: "(string \<times> string) list list \<Rightarrow> nat \<Rightarrow> yaml_event" where
  "document_events ms n =
     (let es = [Stream_Start, Document_Start, Sequence_Start] @ concat (map mapping_events ms) @ [Sequence_End]
      in if n < length es then es ! n else Other_Event)"

definition mapping_data :: "(string \<times> string) list \<Rightarrow> data_s" where
  "mapping_data m = foldl (\<lambda>d (k, v). csp_yaml_key_value d k v) csp_yaml_start_if m"

text \<open>What a document means: its interfaces are set up one after the other.\<close>

primrec yaml_interfaces :: "yaml_env \<Rightarrow> data_s list \<Rightarrow> u32 option \<Rightarrow> node \<Rightarrow> u32 option csp" where
  "yaml_interfaces cfg [] dfl_addr s = Some (dfl_addr, s)"
| "yaml_interfaces cfg (d # ds) dfl_addr s = do {
     (dfl_addr, s) \<leftarrow> csp_yaml_end_if cfg d dfl_addr s;
     yaml_interfaces cfg ds dfl_addr s
   }"

text \<open>The events from a position on.\<close>

definition events_at :: "(nat \<Rightarrow> yaml_event) \<Rightarrow> nat \<Rightarrow> yaml_event list \<Rightarrow> bool" where
  "events_at events n es \<longleftrightarrow> (\<forall>i < length es. events (n + i) = es ! i)"

lemma events_at_Cons [simp]: "events_at events n (e # es) \<longleftrightarrow> events n = e \<and> events_at events (n + 1) es"
  by (auto simp: events_at_def nth_Cons less_Suc_eq_0_disj split: nat.splits)

lemma events_at_Nil [simp]: "events_at events n []"
  by (simp add: events_at_def)

lemma events_at_append [simp]: "events_at events n (es @ fs) \<longleftrightarrow> events_at events n es \<and> events_at events (n + length es) fs"
  by (induction es arbitrary: n) simp_all

lemma loop_pairs:
  "events_at events n (concat (map (\<lambda>(k, v). [Scalar k, Scalar v]) m)) \<Longrightarrow>
   csp_yaml_loop cfg events n (Some d) dfl s =
     csp_yaml_loop cfg events (n + 2 * length m) (Some (foldl (\<lambda>d (k, v). csp_yaml_key_value d k v) d m)) dfl s"
proof (induction m arbitrary: n d)
  case (Cons p m)
  obtain k v where p: "p = (k, v)" by (cases p)
  have "csp_yaml_loop cfg events n (Some d) dfl s = csp_yaml_loop cfg events (n + 2) (Some (csp_yaml_key_value d k v)) dfl s"
    using Cons.prems by (subst csp_yaml_loop.simps) (simp add: p)
  then show ?case using Cons.IH [of "n + 2"] Cons.prems by (simp add: p)
qed simp

lemma length_pairs: "length (concat (map (\<lambda>(k, v). [Scalar k, Scalar v]) m)) = 2 * length m"
  by (induction m) auto

lemma loop_mapping:
  assumes "events_at events n (mapping_events m)"
  shows "csp_yaml_loop cfg events n data dfl s = do {
    r \<leftarrow> csp_yaml_end_if cfg (mapping_data m) dfl s;
    csp_yaml_loop cfg events (n + length (mapping_events m)) (Some (mapping_data m)) (fst r) (snd r)
  }"
proof -
  have "csp_yaml_loop cfg events n data dfl s = csp_yaml_loop cfg events (n + 1) (Some csp_yaml_start_if) dfl s"
    using assms by (subst csp_yaml_loop.simps) (simp add: mapping_events_def)
  also have "\<dots> = csp_yaml_loop cfg events (n + 1 + 2 * length m) (Some (mapping_data m)) dfl s"
    unfolding mapping_data_def by (rule loop_pairs) (use assms in \<open>simp add: mapping_events_def\<close>)
  also have "\<dots> = do {
      r \<leftarrow> csp_yaml_end_if cfg (mapping_data m) dfl s;
      csp_yaml_loop cfg events (n + 1 + 2 * length m + 1) (Some (mapping_data m)) (fst r) (snd r)
    }" using assms by (subst csp_yaml_loop.simps) (simp add: mapping_events_def length_pairs)
  finally show ?thesis by (simp add: mapping_events_def length_pairs)
qed

lemma loop_document:
  "events_at events n (concat (map mapping_events ms) @ [Sequence_End]) \<Longrightarrow>
   csp_yaml_loop cfg events n data dfl s = do {
     r \<leftarrow> yaml_interfaces cfg (map mapping_data ms) dfl s;
     Some ((if ms = [] then data else Some (mapping_data (last ms)), fst r), snd r)
   }"
proof (induction ms arbitrary: n data dfl s)
  case Nil
  then show ?case by (subst csp_yaml_loop.simps) (simp add: events_at_def)
next
  case (Cons m ms)
  have "events_at events n (mapping_events m)" "events_at events (n + length (mapping_events m)) (concat (map mapping_events ms) @ [Sequence_End])"
    using Cons.prems by (simp_all add: add.assoc)
  note l = loop_mapping [OF this(1), of cfg data dfl s] and ih = Cons.IH [OF this(2)]
  show ?case
    unfolding l by (cases "csp_yaml_end_if cfg (mapping_data m) dfl s") (auto simp: ih)
qed

text \<open>A loop that ends has seen an event it looks for.\<close>

lemma yaml_loop_stops: "csp_yaml_loop cfg events n data dfl_addr s = Some r \<Longrightarrow> \<exists>m \<ge> n. events m \<noteq> Other_Event"
proof (erule csp_yaml_loop.raw_induct [rotated], goal_cases)
  case (1 loop cfg events n data dfl_addr s r)
  show ?case
  proof (cases "events n = Other_Event")
    case True
    then have "loop cfg events (n + 1) data dfl_addr s = Some r" using 1(2) by simp
    from 1(1) [OF this] obtain m where "n + 1 \<le> m" "events m \<noteq> Other_Event" by blast
    then show ?thesis by (intro exI [of _ m]) simp
  qed auto
qed

section \<open>Properties\<close>

text \<open>C28: Reading a configuration sets up its interfaces one after the other, in the order of the file, whatever its mappings contain, and ends; it does
  what the configuration means even when some interfaces are invalid or their drivers fail.\<close>

theorem csp_yaml_init_document:
  assumes "ms \<noteq> []"
  shows "csp_yaml_init cfg True (document_events ms) dfl_addr s = yaml_interfaces cfg (map mapping_data ms) dfl_addr s"
proof -
  let ?es = "concat (map mapping_events ms) @ [Sequence_End]"
  have "events_at (document_events ms) 0 ([Stream_Start, Document_Start, Sequence_Start] @ ?es)"
    unfolding events_at_def by (auto simp: document_events_def Let_def simp del: append.simps)
  then have e: "document_events ms 0 = Stream_Start" "document_events ms 1 = Document_Start" "document_events ms 2 = Sequence_Start"
    "events_at (document_events ms) 3 ?es" by (simp_all add: numeral_3_eq_3 numeral_2_eq_2)
  show ?thesis using e(1-3) loop_document [OF e(4), of cfg None dfl_addr s] assms
    by (cases "yaml_interfaces cfg (map mapping_data ms) dfl_addr s") (auto simp: csp_yaml_init_def)
qed

definition yaml_test_env :: yaml_env where
  "yaml_test_env = \<lparr>y_calloc = True, y_malloc = Some zero_iface, y_usart = (\<lambda>d b. 0),
     y_can = (\<lambda>d. \<lparr>sys_calloc = True, sys_socket = 3, sys_ioctl = True, sys_bind = True, sys_setsockopt = (\<lambda>f. True), sys_thread = True\<rparr>),
     y_zmq = \<lparr>z_sockets = True, z_connect = (\<lambda>e. True), z_subscribe_all = True, z_thread = True\<rparr>\<rparr>"

theorem csp_yaml_init_document_witness:
  "\<exists>s'. csp_yaml_init yaml_test_env True (document_events [[(''name'', ''T''), (''driver'', ''tun''), (''addr'', ''7''), (''netmask'', ''8''),
      (''source'', ''1''), (''destination'', ''2''), (''default'', ''yes'')]]) (Some 0) zero_node = Some (Some 7, s') \<and>
    interfaces s' = Some 0 \<and> if_name (ifaces s' ! 0) = ''T'' \<and> if_addr (ifaces s' ! 0) = 7"
proof -
  have a: "atoi ''7'' = Some 7" "atoi ''8'' = Some 8" "atoi ''1'' = Some 1" "atoi ''2'' = Some 2"
    by (simp_all add: atoi_def scan_number_def is_space_def is_digit_def digits_value_def)
  have "\<exists>s'. yaml_interfaces yaml_test_env (map mapping_data [[(''name'', ''T''), (''driver'', ''tun''), (''addr'', ''7''), (''netmask'', ''8''),
      (''source'', ''1''), (''destination'', ''2''), (''default'', ''yes'')]]) (Some 0) zero_node = Some (Some 7, s') \<and>
    interfaces s' = Some 0 \<and> if_name (ifaces s' ! 0) = ''T'' \<and> if_addr (ifaces s' ! 0) = 7"
    by (simp add: mapping_data_def csp_yaml_key_value_def csp_yaml_start_if_def csp_yaml_end_if_def yaml_address_def a yaml_tun_def yaml_test_env_def
        new_iface_def csp_if_tun_init_def upd_iface_def get_iface_def put_iface_def csp_iflist_add_def zero_node_def Let_def)
  then show ?thesis by (subst csp_yaml_init_document) simp_all
qed

text \<open>A configuration without interfaces is undefined: the strings of a variable that was never initialised are freed.\<close>

theorem csp_yaml_init_empty: "csp_yaml_init cfg True (document_events []) dfl_addr s = None"
proof -
  have "csp_yaml_loop cfg (document_events []) 3 None dfl_addr s = Some ((None, dfl_addr), s)"
    by (subst csp_yaml_loop.simps) (simp add: document_events_def)
  then show ?thesis by (simp add: csp_yaml_init_def document_events_def)
qed

text \<open>After an error of the parser the loop never returns: no event ends it.\<close>

theorem csp_yaml_loop_stuck:
  assumes "\<forall>m \<ge> n. events m = Other_Event"
  shows "csp_yaml_loop cfg events n data dfl_addr s = None"
  using yaml_loop_stops [of cfg events n data dfl_addr s] assms
  by (cases "csp_yaml_loop cfg events n data dfl_addr s") auto

theorem csp_yaml_loop_stuck_witness: "csp_yaml_loop yaml_test_env (\<lambda>n. Other_Event) 3 None (Some 0) zero_node = None"
  by (rule csp_yaml_loop_stuck) simp

end
