(* ===== verification/Csp_Serial.thy ===== *)
theory Csp_Serial
  imports Csp_Drivers
begin

text \<open>
  Serial lines on Linux and Windows (\<^verbatim>\<open>src/drivers/usart/usart_linux.c\<close>, \<^verbatim>\<open>usart_windows.c\<close>): opening a device with all its error
  paths, writing, and the thread that reads and hands the bytes over. The results of the system calls are a parameter, and so are
  the constants of \<^verbatim>\<open>termios.h\<close>, by their names.
\<close>

section \<open>Model\<close>

text \<open>A context of the driver, and what of the system a driver changes: open descriptors, the contexts that are allocated, the
  argument of each thread that was started, and the settings that were made.\<close>

record usart_context_t =
  rx_callback :: bool
  user_data :: nat
  u_fd :: int

record termios =
  c_cflag :: u32
  c_lflag :: u32
  c_iflag :: u32
  c_oflag :: u32
  c_vtime :: u8
  c_vmin :: u8
  c_ispeed :: u32
  c_ospeed :: u32

record serial_sys =
  open_fds :: "int list"
  contexts :: "(nat \<times> usart_context_t) list"
  next_context :: nat
  threads :: "nat option list"
  settings :: "(int \<times> termios) list"

text \<open>Configuration: the device is in the results of the system.\<close>

record csp_usart_conf_t =
  baudrate :: u32
  databits :: u8
  stopbits :: u8
  paritysetting :: u8
  checkparity :: u8

definition sys_close :: "int \<Rightarrow> serial_sys \<Rightarrow> serial_sys" where
  "sys_close fd s = s\<lparr>open_fds := remove1 fd (open_fds s)\<rparr>"

definition sys_calloc :: "usart_context_t \<Rightarrow> serial_sys \<Rightarrow> nat \<times> serial_sys" where
  "sys_calloc c s = (next_context s, s\<lparr>contexts := (next_context s, c) # contexts s, next_context := next_context s + 1\<rparr>)"

definition sys_free :: "nat \<Rightarrow> serial_sys \<Rightarrow> serial_sys" where
  "sys_free n s = s\<lparr>contexts := filter (\<lambda>e. fst e \<noteq> n) (contexts s)\<rparr>"

subsection \<open>Linux\<close>

record linux_calls =
  l_open :: int
  l_tcgetattr :: termios
  l_tcsetattr :: int
  l_tcflush :: int
  l_calloc :: bool
  l_attr_init :: int
  l_create :: int

definition usart_rates :: "(u32 \<times> string) list" where
  "usart_rates = [(4800, ''B4800''), (9600, ''B9600''), (19200, ''B19200''), (38400, ''B38400''), (57600, ''B57600''),
     (115200, ''B115200''), (230400, ''B230400''), (460800, ''B460800''), (500000, ''B500000''), (576000, ''B576000''),
     (921600, ''B921600''), (1000000, ''B1000000''), (1152000, ''B1152000''), (1500000, ''B1500000''), (2000000, ''B2000000''),
     (2500000, ''B2500000''), (3000000, ''B3000000''), (3500000, ''B3500000''), (4000000, ''B4000000'')]"

definition usart_raw :: "(string \<Rightarrow> u32) \<Rightarrow> u32 \<Rightarrow> termios \<Rightarrow> termios" where
  "usart_raw h brate t = t\<lparr>
     c_cflag := (((c_cflag t OR (h ''CLOCAL'' OR h ''CREAD'')) AND NOT (h ''PARENB'')) AND NOT (h ''CSTOPB'') AND NOT (h ''CSIZE''))
       OR h ''CS8'',
     c_lflag := c_lflag t AND NOT (h ''ECHO'' OR h ''ECHONL'' OR h ''ICANON'' OR h ''IEXTEN'' OR h ''ISIG''),
     c_iflag := c_iflag t AND NOT (h ''IGNBRK'' OR h ''BRKINT'' OR h ''ICRNL'' OR h ''INLCR'' OR h ''PARMRK'' OR h ''INPCK'' OR
       h ''ISTRIP'' OR h ''IXON''),
     c_oflag := c_oflag t AND NOT (h ''OCRNL'' OR h ''ONLCR'' OR h ''ONLRET'' OR h ''ONOCR'' OR h ''OFILL'' OR h ''OPOST''),
     c_vtime := 0, c_vmin := 1, c_ispeed := brate, c_ospeed := brate\<rparr>"

text \<open>The result, and the descriptor that is stored behind the last argument.\<close>

definition linux_usart_open ::
  "(string \<Rightarrow> u32) \<Rightarrow> linux_calls \<Rightarrow> csp_usart_conf_t \<Rightarrow> bool \<Rightarrow> nat \<Rightarrow> serial_sys \<Rightarrow> (int \<times> int option) \<times> serial_sys" where
  "linux_usart_open h calls conf callback data s =
     (case map_of usart_rates (baudrate conf) of
        None \<Rightarrow> ((CSP_ERR_INVAL, None), s)
      | Some name \<Rightarrow>
          let brate = h name; fd = l_open calls in
          if fd < 0 then ((CSP_ERR_INVAL, None), s)
          else
            let s = s\<lparr>open_fds := fd # open_fds s\<rparr>;
                options = usart_raw h brate (l_tcgetattr calls) in
            if l_tcsetattr calls \<noteq> 0 then ((CSP_ERR_DRIVER, None), sys_close fd s)
            else
              let s = s\<lparr>settings := (fd, options) # settings s\<rparr> in
              if l_tcflush calls \<noteq> 0 then ((CSP_ERR_DRIVER, None), sys_close fd s)
              else if \<not> l_calloc calls then ((CSP_ERR_NOMEM, None), sys_close fd s)
              else
                let (ctx, s) = sys_calloc \<lparr>rx_callback = callback, user_data = data, u_fd = fd\<rparr> s in
                if callback then
                  if l_attr_init calls \<noteq> 0 then ((CSP_ERR_NOMEM, None), sys_close fd (sys_free ctx s))
                  else if l_create calls \<noteq> 0 then ((CSP_ERR_NOMEM, None), sys_close fd (sys_free ctx s))
                  else ((CSP_ERR_NONE, Some fd), s\<lparr>threads := Some ctx # threads s\<rparr>)
                else ((CSP_ERR_NONE, Some fd), s))"

text \<open>\<open>res\<close> is what \<^verbatim>\<open>write\<close> returns.\<close>

definition linux_usart_write :: "int \<Rightarrow> int \<Rightarrow> int" where
  "linux_usart_write fd res = (if fd \<ge> 0 then if res \<ge> 0 then res else CSP_ERR_TX else CSP_ERR_TX)"

text \<open>
  The thread that reads: its argument points to a context, \<open>reads\<close> is what the reads give (\<open>None\<close>: an error), one after
  the other. The result says whether the process has ended; otherwise the thread is in the next read.
\<close>

definition usart_ctx :: "nat option \<Rightarrow> serial_sys \<Rightarrow> usart_context_t option" where
  "usart_ctx arg s = (case arg of None \<Rightarrow> None | Some n \<Rightarrow> map_of (contexts s) n)"

primrec linux_rx_thread ::
  "(nat \<Rightarrow> u8 list \<Rightarrow> node \<Rightarrow> unit csp) \<Rightarrow> serial_sys \<Rightarrow> nat option \<Rightarrow> u8 list option list \<Rightarrow> node \<Rightarrow> bool csp" where
  "linux_rx_thread callback sys arg [] s = Some (False, s)"
| "linux_rx_thread callback sys arg (r # reads) s = do {
     ctx \<leftarrow> usart_ctx arg sys;
     (case r of
        None \<Rightarrow> Some (True, s)
      | Some cbuf \<Rightarrow>
          if cbuf = [] then Some (True, s)
          else do {
            (_, s) \<leftarrow> callback (user_data ctx) cbuf s;
            linux_rx_thread callback sys arg reads s
          })
   }"

subsection \<open>Windows\<close>

record windows_calls =
  w_create_file :: "int option"
  w_get_state :: bool
  w_set_state :: bool
  w_get_timeouts :: bool
  w_set_timeouts :: bool
  w_calloc :: bool
  w_thread :: int

definition openPort :: "windows_calls \<Rightarrow> serial_sys \<Rightarrow> (int \<times> int option) \<times> serial_sys" where
  "openPort calls s =
     (case w_create_file calls of
        None \<Rightarrow> ((CSP_ERR_INVAL, None), s)
      | Some fd \<Rightarrow> ((CSP_ERR_NONE, Some fd), s\<lparr>open_fds := fd # open_fds s\<rparr>))"

text \<open>The settings are those of the configuration; what is kept is whether the system takes them.\<close>

definition configurePort :: "windows_calls \<Rightarrow> int" where
  "configurePort calls = (if \<not> w_get_state calls then CSP_ERR_INVAL else if \<not> w_set_state calls then CSP_ERR_INVAL else CSP_ERR_NONE)"

definition setPortTimeouts :: "windows_calls \<Rightarrow> int" where
  "setPortTimeouts calls =
     (if \<not> w_get_timeouts calls then CSP_ERR_INVAL else if \<not> w_set_timeouts calls then CSP_ERR_INVAL else CSP_ERR_NONE)"

definition windows_usart_open ::
  "windows_calls \<Rightarrow> nat \<Rightarrow> serial_sys \<Rightarrow> (int \<times> int option) \<times> serial_sys" where
  "windows_usart_open calls data s =
     (case openPort calls s of
        ((res, None), s) \<Rightarrow> ((res, None), s)
      | ((res, Some fd), s) \<Rightarrow>
          let res = configurePort calls in
          if res \<noteq> CSP_ERR_NONE then ((res, None), sys_close fd s)
          else let res = setPortTimeouts calls in
          if res \<noteq> 0 then ((res, None), sys_close fd s)
          else if \<not> w_calloc calls then ((CSP_ERR_NOMEM, None), sys_close fd s)
          else
            let (ctx, s) = sys_calloc \<lparr>rx_callback = True, user_data = data, u_fd = fd\<rparr> s in
            if w_thread calls = 0 then ((res, None), sys_free ctx (sys_close fd s))
            else ((CSP_ERR_NONE, Some fd), s\<lparr>threads := None # threads s\<rparr>))"

definition windows_usart_write :: "bool \<Rightarrow> int \<Rightarrow> int" where
  "windows_usart_write written bytesActual = (if \<not> written then CSP_ERR_TX else bytesActual)"

text \<open>The thread: the mask of events is set first, through the context. Each wait ends with an event, and a read if it is one of the line; a read that
  fails is reported only.\<close>

primrec windows_rx_events ::
  "(nat \<Rightarrow> u8 list \<Rightarrow> node \<Rightarrow> unit csp) \<Rightarrow> usart_context_t \<Rightarrow> (bool \<times> u8 list option) list \<Rightarrow> node \<Rightarrow> unit csp" where
  "windows_rx_events callback ctx [] s = Some ((), s)"
| "windows_rx_events callback ctx (e # es) s = do {
     (_, s) \<leftarrow> (case e of
         (True, Some cbuf) \<Rightarrow> callback (user_data ctx) cbuf s
       | _ \<Rightarrow> Some ((), s));
     windows_rx_events callback ctx es s
   }"

definition windows_rx_thread ::
  "(nat \<Rightarrow> u8 list \<Rightarrow> node \<Rightarrow> unit csp) \<Rightarrow> serial_sys \<Rightarrow> nat option \<Rightarrow> (bool \<times> u8 list option) list \<Rightarrow> node \<Rightarrow> unit csp" where
  "windows_rx_thread callback sys arg es s = do {
     ctx \<leftarrow> usart_ctx arg sys;
     windows_rx_events callback ctx es s
   }"

section \<open>Opening\<close>

lemma close_opened [simp]: "sys_close fd (s\<lparr>open_fds := fd # fds\<rparr>) = s\<lparr>open_fds := fds\<rparr>"
  by (simp add: sys_close_def)

text \<open>A context is not in use before it is allocated.\<close>

definition serial_inv :: "serial_sys \<Rightarrow> bool" where
  "serial_inv s \<longleftrightarrow> (\<forall>e \<in> set (contexts s). fst e < next_context s)"

lemma free_allocated: "serial_inv s \<Longrightarrow> filter (\<lambda>e. fst e \<noteq> next_context s) (contexts s) = contexts s"
  by (force simp: serial_inv_def filter_id_conv)

text \<open>C35: Opening a device on Linux leaves nothing behind when it fails; when it succeeds, the descriptor is open and raw at the
  speed that was asked for, and the thread has the context of the device.\<close>

theorem linux_usart_open_owns:
  assumes "serial_inv s" "linux_usart_open h calls conf callback data s = ((r, out), s')"
  shows "serial_inv s' \<and>
    (if r = CSP_ERR_NONE
     then \<exists>name ctx. map_of usart_rates (baudrate conf) = Some name \<and> out = Some (l_open calls) \<and> open_fds s' = l_open calls # open_fds s \<and>
       contexts s' = (ctx, \<lparr>rx_callback = callback, user_data = data, u_fd = l_open calls\<rparr>) # contexts s \<and>
       settings s' = (l_open calls, usart_raw h (h name) (l_tcgetattr calls)) # settings s \<and>
       threads s' = (if callback then [Some ctx] else []) @ threads s
     else r \<in> {CSP_ERR_INVAL, CSP_ERR_DRIVER, CSP_ERR_NOMEM} \<and> out = None \<and> open_fds s' = open_fds s \<and> contexts s' = contexts s \<and>
       threads s' = threads s)"
proof -
  have f: "filter (\<lambda>e. fst e \<noteq> next_context s) (contexts s) = contexts s" using assms(1) by (rule free_allocated)
  have i: "\<forall>e \<in> set (contexts s). fst e < next_context s" using assms(1) by (simp add: serial_inv_def)
  then have j: "\<forall>e \<in> set (contexts s). fst e < Suc (next_context s)" by (simp add: less_Suc_eq)
  show ?thesis using assms(2) f i j
    by (cases "map_of usart_rates (baudrate conf)")
      (simp_all add: linux_usart_open_def Let_def sys_calloc_def sys_free_def sys_close_def serial_inv_def split: if_splits, force+)
qed

definition serial_calls :: linux_calls where
  "serial_calls = \<lparr>l_open = 3, l_tcgetattr = \<lparr>c_cflag = 0, c_lflag = 0, c_iflag = 0, c_oflag = 0, c_vtime = 0, c_vmin = 0, c_ispeed = 0, c_ospeed = 0\<rparr>,
     l_tcsetattr = 0, l_tcflush = 0, l_calloc = True, l_attr_init = 0, l_create = 0\<rparr>"

definition serial_conf :: csp_usart_conf_t where
  "serial_conf = \<lparr>baudrate = 115200, databits = 8, stopbits = 1, paritysetting = 0, checkparity = 0\<rparr>"

definition serial_start :: serial_sys where
  "serial_start = \<lparr>open_fds = [0], contexts = [], next_context = 0, threads = [], settings = []\<rparr>"

theorem linux_usart_open_owns_witness:
  "(\<exists>s'. linux_usart_open (\<lambda>_. 1) serial_calls serial_conf True 7 serial_start = ((CSP_ERR_NONE, Some 3), s') \<and> open_fds s' = [3, 0]) \<and>
   (\<exists>s'. linux_usart_open (\<lambda>_. 1) (serial_calls\<lparr>l_create := 11\<rparr>) serial_conf True 7 serial_start = ((CSP_ERR_NOMEM, None), s') \<and> open_fds s' = [0])"
proof -
  have i: "serial_inv serial_start" by (simp add: serial_inv_def serial_start_def)
  note d = linux_usart_open_def serial_calls_def serial_conf_def serial_start_def usart_rates_def sys_calloc_def sys_free_def sys_close_def
  obtain s1 where s1: "linux_usart_open (\<lambda>_. 1) serial_calls serial_conf True 7 serial_start = ((CSP_ERR_NONE, Some 3), s1)" by (simp add: d)
  obtain s2 where s2: "linux_usart_open (\<lambda>_. 1) (serial_calls\<lparr>l_create := 11\<rparr>) serial_conf True 7 serial_start = ((CSP_ERR_NOMEM, None), s2)" by (simp add: d)
  from linux_usart_open_owns [OF i s1] linux_usart_open_owns [OF i s2] s1 s2 show ?thesis by (simp add: serial_calls_def serial_start_def)
qed

text \<open>The line has eight data bits, one stop bit and no parity, whatever the configuration says, if the constants of the system are disjoint.\<close>

lemma usart_raw_line:
  assumes "h ''CS8'' AND h ''CSIZE'' = h ''CS8''" "h ''CSIZE'' AND h ''PARENB'' = 0" "h ''CSIZE'' AND h ''CSTOPB'' = 0"
  shows "c_cflag (usart_raw h b t) AND h ''CSIZE'' = h ''CS8''" "c_cflag (usart_raw h b t) AND h ''PARENB'' = 0"
    "c_cflag (usart_raw h b t) AND h ''CSTOPB'' = 0"
proof -
  have b: "bit (h ''CS8'') n \<Longrightarrow> bit (h ''CSIZE'') n" "\<not> (bit (h ''CSIZE'') n \<and> bit (h ''PARENB'') n)"
    "\<not> (bit (h ''CSIZE'') n \<and> bit (h ''CSTOPB'') n)" for n
    using assms by (metis bit_and_iff, metis bit_and_iff bit_0_eq bot_apply bot_bool_def, metis bit_and_iff bit_0_eq bot_apply bot_bool_def)
  show "c_cflag (usart_raw h b t) AND h ''CSIZE'' = h ''CS8''" "c_cflag (usart_raw h b t) AND h ''PARENB'' = 0"
    "c_cflag (usart_raw h b t) AND h ''CSTOPB'' = 0"
    by (rule bit_word_eqI; use b in \<open>auto simp: usart_raw_def bit_simps\<close>)+
qed

section \<open>Reading\<close>

text \<open>However the reads cut the stream of bytes, KISS gets the same stream; the thread ends with the first read that fails.\<close>

theorem linux_kiss_stream:
  assumes "map_of (contexts sys) n = Some ctx" "\<forall>c \<in> set chunks. c \<noteq> []"
  shows "linux_rx_thread kiss_driver_rx sys (Some n) (map Some chunks @ None # rest) s =
    (case csp_kiss_rx (user_data ctx) (concat chunks) False s of None \<Rightarrow> None | Some (_, s') \<Rightarrow> Some (True, s'))"
  using assms(2)
proof (induction chunks arbitrary: s)
  case Nil
  then show ?case using assms(1) by (simp add: usart_ctx_def)
next
  case (Cons c cs)
  then have c: "c \<noteq> []" by simp
  have IH: "linux_rx_thread kiss_driver_rx sys (Some n) (map Some cs @ None # rest) t =
    (case csp_kiss_rx (user_data ctx) (concat cs) False t of None \<Rightarrow> None | Some (_, s') \<Rightarrow> Some (True, s'))" for t
    using Cons by simp
  show ?case using assms(1) c
    by (cases "csp_kiss_rx (user_data ctx) c False s") (auto simp: usart_ctx_def kiss_driver_rx_def [of "user_data ctx" c s] kiss_rx_append IH)
qed

theorem linux_kiss_stream_witness:
  "linux_rx_thread kiss_driver_rx \<lparr>open_fds = [3], contexts = [(0, \<lparr>rx_callback = True, user_data = 0, u_fd = 3\<rparr>)], next_context = 1,
     threads = [Some 0], settings = []\<rparr> (Some 0) [Some [1], Some [2, 3], None] kiss_node =
   (case csp_kiss_rx 0 [1, 2, 3] False kiss_node of None \<Rightarrow> None | Some (_, s') \<Rightarrow> Some (True, s'))"
  using linux_kiss_stream [of "\<lparr>open_fds = [3], contexts = [(0, \<lparr>rx_callback = True, user_data = 0, u_fd = 3\<rparr>)], next_context = 1,
     threads = [Some 0], settings = []\<rparr>" 0 "\<lparr>rx_callback = True, user_data = 0, u_fd = 3\<rparr>" "[[1], [2, 3]]" "[]" kiss_node] by simp

text \<open>On Windows the thread is started without its context: a successful open starts a thread that follows a null pointer. When the thread cannot be
  started, the device is closed and the result is success.\<close>

theorem windows_usart_open_thread:
  assumes "w_create_file calls = Some fd" "w_get_state calls" "w_set_state calls" "w_get_timeouts calls" "w_set_timeouts calls" "w_calloc calls"
  shows "w_thread calls \<noteq> 0 \<Longrightarrow> \<exists>s'. windows_usart_open calls data s = ((CSP_ERR_NONE, Some fd), s') \<and> threads s' = None # threads s \<and>
      windows_rx_thread callback s' None es t = None"
    "w_thread calls = 0 \<Longrightarrow> \<exists>s'. windows_usart_open calls data s = ((CSP_ERR_NONE, None), s') \<and> open_fds s' = open_fds s \<and> threads s' = threads s"
  using assms by (simp_all add: windows_usart_open_def openPort_def configurePort_def setPortTimeouts_def sys_calloc_def sys_free_def sys_close_def
      windows_rx_thread_def usart_ctx_def)

text \<open>Every other failure leaves the device closed and returns an error.\<close>

lemma windows_usart_open_fails:
  assumes "windows_usart_open calls data s = ((r, out), s')" "r \<noteq> CSP_ERR_NONE"
  shows "r \<in> {CSP_ERR_INVAL, CSP_ERR_NOMEM}" "out = None" "open_fds s' = open_fds s" "contexts s' = contexts s" "threads s' = threads s"
  using assms by (auto simp: windows_usart_open_def openPort_def configurePort_def setPortTimeouts_def sys_calloc_def sys_close_def Let_def
      split: option.splits if_splits)

end
