(* ===== verification/Csp_Queue_Ports.thy ===== *)
theory Csp_Queue_Ports
  imports Csp_Queue
begin

text \<open>
  The queues of the other ports: macOS (\<^verbatim>\<open>contrib/macosx/pthread_queue.c\<close>, below the wrappers of \<^verbatim>\<open>src/arch/posix/csp_queue.c\<close>) and Windows
  (\<^verbatim>\<open>contrib/windows/windows_queue.c\<close> with \<^verbatim>\<open>contrib/windows/csp_queue.c\<close>). Wake-ups are a list, as in \<open>Csp_Queue\<close>. The queue of macOS waits in another
  way; the one of Windows also has another representation, which \<open>ring_of\<close> maps to the ring of the POSIX port.
  Both satisfy the contract \<open>bounded_fifo\<close>, so that a program sees the same results on all ports.
\<close>

section \<open>Model\<close>

subsection \<open>macOS\<close>

text \<open>The time comes from the clock service of the system; the limit of the nanoseconds is compared with another relation than in the POSIX port.\<close>

definition macosx_deadline :: "timespec \<Rightarrow> u32 \<Rightarrow> timespec" where
  "macosx_deadline ts timeout =
     (let sec = timeout div 1000;
          nsec = (timeout - 1000 * sec) * 1000000;
          ts = ts\<lparr>tv_sec := tv_sec ts + uint sec\<rparr>;
          ts = (if tv_nsec ts + uint nsec > 1000000000 then ts\<lparr>tv_sec := tv_sec ts + 1\<rparr> else ts)
      in ts\<lparr>tv_nsec := (tv_nsec ts + uint nsec) mod 1000000000\<rparr>)"

fun macosx_wait_slot :: "(int \<times> 'a pthread_queue_t) list \<Rightarrow> 'a pthread_queue_t \<Rightarrow> (int, 'a pthread_queue_t) outcome" where
  "macosx_wait_slot wakes queue =
     (if items queue = qsize queue then
        (case wakes of
           [] \<Rightarrow> None
         | (ret, queue') # wakes' \<Rightarrow> if ret \<noteq> 0 then Some (PTHREAD_QUEUE_FULL, queue') else macosx_wait_slot wakes' queue')
      else Some (PTHREAD_QUEUE_OK, queue))"

definition macosx_queue_enqueue :: "(int \<times> 'a pthread_queue_t) list \<Rightarrow> 'a pthread_queue_t \<Rightarrow> 'a \<Rightarrow> (int, 'a pthread_queue_t) outcome" where
  "macosx_queue_enqueue wakes queue value = do {
     (ret, queue) \<leftarrow> macosx_wait_slot wakes queue;
     Some (if ret \<noteq> PTHREAD_QUEUE_OK then (ret, queue)
       else (PTHREAD_QUEUE_OK, queue\<lparr>buffer := (buffer queue)[q_in queue := Some value], items := items queue + 1,
               q_in := (q_in queue + 1) mod qsize queue\<rparr>))
   }"

fun macosx_wait_item :: "(int \<times> 'a pthread_queue_t) list \<Rightarrow> 'a pthread_queue_t \<Rightarrow> (int, 'a pthread_queue_t) outcome" where
  "macosx_wait_item wakes queue =
     (if items queue = 0 then
        (case wakes of
           [] \<Rightarrow> None
         | (ret, queue') # wakes' \<Rightarrow> if ret \<noteq> 0 then Some (PTHREAD_QUEUE_EMPTY, queue') else macosx_wait_item wakes' queue')
      else Some (PTHREAD_QUEUE_OK, queue))"

definition macosx_queue_dequeue :: "(int \<times> 'a pthread_queue_t) list \<Rightarrow> 'a pthread_queue_t \<Rightarrow> (int \<times> 'a option, 'a pthread_queue_t) outcome" where
  "macosx_queue_dequeue wakes queue = do {
     (ret, queue) \<leftarrow> macosx_wait_item wakes queue;
     Some (if ret \<noteq> PTHREAD_QUEUE_OK then ((ret, None), queue)
       else ((PTHREAD_QUEUE_OK, buffer queue ! q_out queue), queue\<lparr>items := items queue - 1, q_out := (q_out queue + 1) mod qsize queue\<rparr>))
   }"

definition macosx_queue_create :: "bool \<Rightarrow> bool \<Rightarrow> bool \<Rightarrow> nat \<Rightarrow> 'a pthread_queue_t option" where
  "macosx_queue_create q_ok buffer_ok init_ok len =
     (if q_ok then
        if buffer_ok then
          (let q = \<lparr>buffer = replicate len None, qsize = len, items = 0, q_in = 0, q_out = 0\<rparr>
           in if \<not> init_ok then None else Some q)
        else None
      else None)"

text \<open>A caller that no other thread disturbs. Every time-out ends the wait, \<open>CSP_MAX_TIMEOUT\<close> too.\<close>

definition macosx_enqueue :: "'a pthread_queue_t \<Rightarrow> 'a \<Rightarrow> u32 \<Rightarrow> (int, 'a pthread_queue_t) outcome" where
  "macosx_enqueue q v timeout = macosx_queue_enqueue [(ETIMEDOUT, q)] q v"

definition macosx_dequeue :: "'a pthread_queue_t \<Rightarrow> u32 \<Rightarrow> (int \<times> 'a option, 'a pthread_queue_t) outcome" where
  "macosx_dequeue q timeout = macosx_queue_dequeue [(ETIMEDOUT, q)] q"

subsection \<open>Windows\<close>

definition WINDOWS_QUEUE_ERROR :: int where [simp, csp_defs]: "WINDOWS_QUEUE_ERROR = CSP_QUEUE_ERROR"
definition WINDOWS_QUEUE_EMPTY :: int where [simp, csp_defs]: "WINDOWS_QUEUE_EMPTY = CSP_QUEUE_ERROR"
definition WINDOWS_QUEUE_FULL :: int where [simp, csp_defs]: "WINDOWS_QUEUE_FULL = CSP_QUEUE_ERROR"
definition WINDOWS_QUEUE_OK :: int where [simp, csp_defs]: "WINDOWS_QUEUE_OK = CSP_QUEUE_OK"

text \<open>The code of a wait that timed out, in the interface of the system.\<close>

definition WAIT_TIMEOUT :: int where [simp, csp_defs]: "WAIT_TIMEOUT = 258"

record 'a windows_queue_t =
  w_buffer :: "'a option list"
  w_size :: nat
  w_items :: nat
  head_idx :: nat

definition queueFull :: "'a windows_queue_t \<Rightarrow> bool" where
  "queueFull queue \<longleftrightarrow> w_items queue = w_size queue"

definition queueEmpty :: "'a windows_queue_t \<Rightarrow> bool" where
  "queueEmpty queue \<longleftrightarrow> w_items queue = 0"

definition windows_queue_create :: "bool \<Rightarrow> bool \<Rightarrow> nat \<Rightarrow> 'a windows_queue_t option" where
  "windows_queue_create queue_ok buffer_ok len =
     (if \<not> queue_ok then None
      else if \<not> buffer_ok then None
      else Some \<lparr>w_buffer = replicate len None, w_size = len, w_items = 0, head_idx = 0\<rparr>)"

text \<open>\<^verbatim>\<open>SleepConditionVariableCS\<close> returns 0 when it fails; that is not \<open>WAIT_TIMEOUT\<close>.\<close>

fun windows_wait_slot :: "(int \<times> 'a windows_queue_t) list \<Rightarrow> 'a windows_queue_t \<Rightarrow> (int, 'a windows_queue_t) outcome" where
  "windows_wait_slot wakes queue =
     (if queueFull queue then
        (case wakes of
           [] \<Rightarrow> None
         | (ret, queue') # wakes' \<Rightarrow>
             if ret = 0 then Some (if ret = WAIT_TIMEOUT then WINDOWS_QUEUE_FULL else WINDOWS_QUEUE_ERROR, queue')
             else windows_wait_slot wakes' queue')
      else Some (WINDOWS_QUEUE_OK, queue))"

definition windows_queue_enqueue :: "(int \<times> 'a windows_queue_t) list \<Rightarrow> 'a windows_queue_t \<Rightarrow> 'a \<Rightarrow> (int, 'a windows_queue_t) outcome" where
  "windows_queue_enqueue wakes queue value = do {
     (ret, queue) \<leftarrow> windows_wait_slot wakes queue;
     Some (if ret \<noteq> WINDOWS_QUEUE_OK then (ret, queue)
       else (WINDOWS_QUEUE_OK, queue\<lparr>w_buffer := (w_buffer queue)[(head_idx queue + w_items queue) mod w_size queue := Some value],
               w_items := w_items queue + 1\<rparr>))
   }"

fun windows_wait_item :: "(int \<times> 'a windows_queue_t) list \<Rightarrow> 'a windows_queue_t \<Rightarrow> (int, 'a windows_queue_t) outcome" where
  "windows_wait_item wakes queue =
     (if queueEmpty queue then
        (case wakes of
           [] \<Rightarrow> None
         | (ret, queue') # wakes' \<Rightarrow>
             if ret = 0 then Some (if ret = WAIT_TIMEOUT then WINDOWS_QUEUE_EMPTY else WINDOWS_QUEUE_ERROR, queue')
             else windows_wait_item wakes' queue')
      else Some (WINDOWS_QUEUE_OK, queue))"

definition windows_queue_dequeue :: "(int \<times> 'a windows_queue_t) list \<Rightarrow> 'a windows_queue_t \<Rightarrow> (int \<times> 'a option, 'a windows_queue_t) outcome" where
  "windows_queue_dequeue wakes queue = do {
     (ret, queue) \<leftarrow> windows_wait_item wakes queue;
     Some (if ret \<noteq> WINDOWS_QUEUE_OK then ((ret, None), queue)
       else ((WINDOWS_QUEUE_OK, w_buffer queue ! (head_idx queue mod w_size queue)),
         queue\<lparr>w_items := w_items queue - 1, head_idx := (head_idx queue + 1) mod w_size queue\<rparr>))
   }"

definition windows_queue_items :: "'a windows_queue_t \<Rightarrow> nat" where
  "windows_queue_items queue = w_items queue"

text \<open>The wrappers of \<^verbatim>\<open>csp_queue.c\<close>, again for a caller that is alone. A time-out of \<open>CSP_MAX_TIMEOUT\<close> is \<^verbatim>\<open>INFINITE\<close>.\<close>

definition windows_quiet :: "u32 \<Rightarrow> 'a windows_queue_t \<Rightarrow> (int \<times> 'a windows_queue_t) list" where
  "windows_quiet timeout q = (if timeout = CSP_MAX_TIMEOUT then [] else [(0, q)])"

definition windows_enqueue :: "'a windows_queue_t \<Rightarrow> 'a \<Rightarrow> u32 \<Rightarrow> (int, 'a windows_queue_t) outcome" where
  "windows_enqueue handle value timeout = windows_queue_enqueue (windows_quiet timeout handle) handle value"

definition windows_enqueue_isr :: "'a windows_queue_t \<Rightarrow> 'a \<Rightarrow> (int, 'a windows_queue_t) outcome" where
  "windows_enqueue_isr handle value = windows_queue_enqueue (windows_quiet 0 handle) handle value"

definition windows_dequeue :: "'a windows_queue_t \<Rightarrow> u32 \<Rightarrow> (int \<times> 'a option, 'a windows_queue_t) outcome" where
  "windows_dequeue handle timeout = windows_queue_dequeue (windows_quiet timeout handle) handle"

definition windows_dequeue_isr :: "'a windows_queue_t \<Rightarrow> (int \<times> 'a option, 'a windows_queue_t) outcome" where
  "windows_dequeue_isr handle = windows_queue_dequeue (windows_quiet 0 handle) handle"

declare macosx_wait_slot.simps [simp del] macosx_wait_item.simps [simp del]
declare windows_wait_slot.simps [simp del] windows_wait_item.simps [simp del]

section \<open>Refinement of the ring of the POSIX port\<close>

text \<open>The ring that a queue of Windows stands for: its insertion index is computed when it is needed.\<close>

definition ring_of :: "'a windows_queue_t \<Rightarrow> 'a pthread_queue_t" where
  "ring_of q = \<lparr>buffer = w_buffer q, qsize = w_size q, items = w_items q, q_in = (head_idx q + w_items q) mod w_size q,
     q_out = head_idx q\<rparr>"

definition windows_wf :: "'a windows_queue_t \<Rightarrow> bool" where
  "windows_wf q \<longleftrightarrow> queue_wf (ring_of q)"

lemma ring_of_fields [simp]:
  "qsize (ring_of q) = w_size q" "items (ring_of q) = w_items q" "buffer (ring_of q) = w_buffer q" "q_out (ring_of q) = head_idx q"
  by (simp_all add: ring_of_def)

lemma windows_enqueue_refines:
  assumes "t \<noteq> CSP_MAX_TIMEOUT"
  shows "map_option (map_prod id ring_of) (windows_enqueue q v t) = csp_queue_enqueue (ring_of q) v t"
proof (cases "w_items q = w_size q")
  case True
  then show ?thesis using assms csp_queue_enqueue_full [of "ring_of q" t v]
    by (simp add: windows_enqueue_def windows_queue_enqueue_def windows_wait_slot.simps windows_quiet_def queueFull_def)
next
  case False
  have "(head_idx q + (w_items q + 1)) mod w_size q = ((head_idx q + w_items q) mod w_size q + 1) mod w_size q"
    by (simp add: mod_simps)
  then show ?thesis using False csp_queue_enqueue_room [of "ring_of q" v t]
    by (simp add: windows_enqueue_def windows_queue_enqueue_def windows_wait_slot.simps queueFull_def queue_push_def ring_of_def)
qed

lemma windows_dequeue_refines:
  assumes "t \<noteq> CSP_MAX_TIMEOUT" "windows_wf q"
  shows "map_option (map_prod id ring_of) (windows_dequeue q t) = csp_queue_dequeue (ring_of q) t"
proof (cases "w_items q = 0")
  case True
  then show ?thesis using assms csp_queue_dequeue_empty [of "ring_of q" t]
    by (simp add: windows_dequeue_def windows_queue_dequeue_def windows_wait_item.simps windows_quiet_def queueEmpty_def)
next
  case False
  then obtain n where n: "w_items q = Suc n" by (cases "w_items q") auto
  have h: "head_idx q mod w_size q = head_idx q" using assms(2) by (simp add: windows_wf_def queue_wf_def)
  show ?thesis using n h csp_queue_dequeue_item [of "ring_of q" t]
    by (simp add: windows_dequeue_def windows_queue_dequeue_def windows_wait_item.simps queueEmpty_def queue_pop_def ring_of_def mod_simps)
qed

lemma macosx_enqueue_eq: "t \<noteq> CSP_MAX_TIMEOUT \<Longrightarrow> macosx_enqueue q v t' = csp_queue_enqueue q v t"
  by (simp add: macosx_enqueue_def macosx_queue_enqueue_def macosx_wait_slot.simps csp_queue_enqueue_def
      pthread_queue_enqueue_def wait_slot_available.simps quiet_def)

lemma macosx_dequeue_eq: "t \<noteq> CSP_MAX_TIMEOUT \<Longrightarrow> macosx_dequeue q t' = csp_queue_dequeue q t"
  by (simp add: macosx_dequeue_def macosx_queue_dequeue_def macosx_wait_item.simps csp_queue_dequeue_def
      pthread_queue_dequeue_def wait_item_available.simps quiet_def)

section \<open>The contract on the other ports\<close>

lemma macosx_dequeue_item:
  "items q \<noteq> 0 \<Longrightarrow> macosx_dequeue q t = Some ((CSP_QUEUE_OK, buffer q ! q_out q), queue_pop q)"
  using macosx_dequeue_eq [of 0 q t] csp_queue_dequeue_item [of q 0] by simp

interpretation mq: bounded_fifo macosx_enqueue macosx_dequeue queue_list qsize queue_wf
proof (unfold_locales, goal_cases)
  case (1 q t v)
  then show ?case using pq.enq_room [of q t v] by (simp add: macosx_enqueue_eq [of t])
next
  case (2 q t v)
  then show ?case using pq.enq_full [of q t v] by (simp add: macosx_enqueue_eq [of t])
next
  case (3 q x xs t)
  then show ?case using pq.deq_item [of q x xs 0] by (simp add: macosx_dequeue_eq [of 0])
next
  case (4 q t)
  then show ?case using pq.deq_empty [of q t] by (simp add: macosx_dequeue_eq [of t])
next
  case (5 q)
  then show ?case by (rule pq.elems_cap)
qed

lemma windows_dequeue_item:
  assumes "windows_wf q" "w_items q \<noteq> 0"
  shows "windows_dequeue q t = windows_dequeue q 0"
  using assms by (simp add: windows_dequeue_def windows_queue_dequeue_def windows_wait_item.simps queueEmpty_def)

interpretation wq: bounded_fifo windows_enqueue windows_dequeue "\<lambda>q. queue_list (ring_of q)" w_size windows_wf
proof (unfold_locales, goal_cases)
  case (1 q t v)
  from 1 pq.enq_room [of "ring_of q" t v] windows_enqueue_refines [OF 1(3), of q v] show ?case
    by (auto simp: windows_wf_def)
next
  case (2 q t v)
  have f: "queueFull q" using 2 by (simp add: queueFull_def windows_wf_def)
  then show ?case using 2(3)
    by (simp add: windows_enqueue_def windows_queue_enqueue_def windows_wait_slot.simps windows_quiet_def)
next
  case (3 q x xs t)
  have n: "w_items q \<noteq> 0" using 3(2) length_queue_list [of "ring_of q"] by auto
  from 3 pq.deq_item [of "ring_of q" x xs 0] windows_dequeue_refines [of 0 q] show ?case
    by (auto simp: windows_wf_def windows_dequeue_item [OF 3(1) n, of t])
next
  case (4 q t)
  then have "queueEmpty q" by (simp add: queueEmpty_def queue_list_empty_iff)
  then show ?case using 4(3)
    by (simp add: windows_dequeue_def windows_queue_dequeue_def windows_wait_item.simps windows_quiet_def)
next
  case (5 q)
  then show ?case using pq.elems_cap [of "ring_of q"] by (simp add: windows_wf_def)
qed

section \<open>Programs\<close>

text \<open>A program that uses a queue: insertions and extractions with their time-outs. Its results are the values the calls return, with
  the element that an extraction gives.\<close>

datatype 'a queue_call = Enq 'a u32 | Deq u32

primrec call_timeout :: "'a queue_call \<Rightarrow> u32" where
  "call_timeout (Enq v t) = t"
| "call_timeout (Deq t) = t"

fun queue_run :: "('q \<Rightarrow> 'a \<Rightarrow> u32 \<Rightarrow> (int, 'q) outcome) \<Rightarrow> ('q \<Rightarrow> u32 \<Rightarrow> (int \<times> 'a option, 'q) outcome) \<Rightarrow>
    'a queue_call list \<Rightarrow> 'q \<Rightarrow> (int \<times> 'a option) list option" where
  "queue_run enq deq [] q = Some []"
| "queue_run enq deq (Enq v t # cs) q = do {
     (r, q) \<leftarrow> enq q v t;
     rs \<leftarrow> queue_run enq deq cs q;
     Some ((r, None) # rs)
   }"
| "queue_run enq deq (Deq t # cs) q = do {
     (r, q) \<leftarrow> deq q t;
     rs \<leftarrow> queue_run enq deq cs q;
     Some (r # rs)
   }"

text \<open>What the calls give on a list that holds at most \<open>n\<close> elements.\<close>

fun fifo_run :: "nat \<Rightarrow> 'a queue_call list \<Rightarrow> 'a list \<Rightarrow> (int \<times> 'a option) list" where
  "fifo_run n [] xs = []"
| "fifo_run n (Enq v t # cs) xs =
     (if length xs < n then (CSP_QUEUE_OK, None) # fifo_run n cs (xs @ [v]) else (CSP_QUEUE_ERROR, None) # fifo_run n cs xs)"
| "fifo_run n (Deq t # cs) [] = (CSP_QUEUE_ERROR, None) # fifo_run n cs []"
| "fifo_run n (Deq t # cs) (x # xs) = (CSP_QUEUE_OK, Some x) # fifo_run n cs xs"

context bounded_fifo
begin

lemma run_fifo:
  "inv q \<Longrightarrow> \<forall>c \<in> set cs. call_timeout c \<noteq> CSP_MAX_TIMEOUT \<Longrightarrow> queue_run enq deq cs q = Some (fifo_run (cap q) cs (elems q))"
proof (induction cs arbitrary: q)
  case Nil
  then show ?case by simp
next
  case (Cons c cs)
  show ?case
  proof (cases c)
    case (Enq v t)
    then have t: "t \<noteq> CSP_MAX_TIMEOUT" using Cons.prems by simp
    show ?thesis
    proof (cases "length (elems q) < cap q")
      case True
      from enq_room [OF Cons.prems(1) True t, of v] obtain q' where q': "enq q v t = Some (CSP_QUEUE_OK, q')" "inv q'"
        "cap q' = cap q" "elems q' = elems q @ [v]" by blast
      then show ?thesis using Cons.IH [OF q'(2)] Cons.prems(2) True by (simp add: Enq)
    next
      case False
      then have "length (elems q) = cap q" using elems_cap [OF Cons.prems(1)] by simp
      then show ?thesis using enq_full [OF Cons.prems(1) _ t, of v] Cons.IH [OF Cons.prems(1)] Cons.prems(2) by (simp add: Enq)
    qed
  next
    case (Deq t)
    show ?thesis
    proof (cases "elems q")
      case Nil
      then show ?thesis using deq_empty [OF Cons.prems(1)] Cons.IH [OF Cons.prems(1)] Cons.prems(2) by (simp add: Deq)
    next
      case (Cons x xs)
      from deq_item [OF Cons.prems(1) this, of t] obtain q' where q': "deq q t = Some ((CSP_QUEUE_OK, Some x), q')" "inv q'"
        "cap q' = cap q" "elems q' = xs" by blast
      then show ?thesis using Cons.IH [OF q'(2)] Cons.prems(2) Cons by (simp add: Deq)
    qed
  qed
qed

end

lemma windows_queue_create_wf:
  "0 < n \<Longrightarrow> windows_queue_create True True n = Some q \<Longrightarrow> windows_wf q \<and> w_size q = n \<and> queue_list (ring_of q) = []"
  by (auto simp: windows_queue_create_def windows_wf_def ring_of_def queue_wf_def queue_list_def)

lemma macosx_queue_create_eq: "macosx_queue_create True True True n = Some (empty_queue n)"
  by (simp add: macosx_queue_create_def empty_queue_def)

section \<open>Properties\<close>

text \<open>C24: The ports agree: whatever calls with bounded time-outs a program makes on a newly created queue, the POSIX port, macOS and
  Windows give it the same results, which are those of a list that holds as many elements as the queue was created
  for.\<close>

theorem queue_ports_agree:
  fixes cs :: "'a queue_call list"
  assumes "0 < n" "\<forall>c \<in> set cs. call_timeout c \<noteq> CSP_MAX_TIMEOUT"
  shows "Option.bind (csp_queue_create_static n) (queue_run csp_queue_enqueue csp_queue_dequeue cs) = Some (fifo_run n cs []) \<and>
    Option.bind (macosx_queue_create True True True n) (queue_run macosx_enqueue macosx_dequeue cs) = Some (fifo_run n cs []) \<and>
    Option.bind (windows_queue_create True True n) (queue_run windows_enqueue windows_dequeue cs) = Some (fifo_run n cs [])"
proof -
  note e = empty_queue_props(4) [OF assms(1)]
  obtain q :: "'a windows_queue_t" where q: "windows_queue_create True True n = Some q" by (simp add: windows_queue_create_def)
  show ?thesis using pq.run_fifo [OF e assms(2)] mq.run_fifo [OF e assms(2)] wq.run_fifo [OF _ assms(2), of q]
      windows_queue_create_wf [OF assms(1) q] by (simp add: csp_queue_create_static_eq macosx_queue_create_eq q)
qed

theorem queue_ports_agree_witness:
  "Option.bind (windows_queue_create True True 1) (queue_run windows_enqueue windows_dequeue [Enq (7::nat) 5, Enq 8 5, Deq 5, Deq 5])
     = Some [(0, None), (-1, None), (0, Some 7), (-1, None)]"
  using queue_ports_agree [of 1 "[Enq (7::nat) 5, Enq 8 5, Deq 5, Deq 5]"] by simp

text \<open>The deadline of macOS is the one of the POSIX port, except that it is a second early when the nanoseconds sum to exactly one
  second.\<close>

theorem macosx_deadline_early:
  "macosx_deadline ts timeout =
     (let d = snd (get_deadline (0, ts) timeout)
      in if tv_nsec ts + uint ((timeout - 1000 * (timeout div 1000)) * 1000000) = 1000000000 then d\<lparr>tv_sec := tv_sec d - 1\<rparr> else d)"
  by (simp add: macosx_deadline_def get_deadline_def Let_def)

end
