(* ===== verification/Csp_Kernel_Ports.thy ===== *)
theory Csp_Kernel_Ports
  imports Csp_Queue_Ports Csp_Conn_Table
begin

text \<open>
  The ports to FreeRTOS and Zephyr (\<^verbatim>\<open>src/arch/freertos/\<close>, \<^verbatim>\<open>src/arch/zephyr/\<close>): wrappers of the queues, semaphores, clocks and notifications of a
  kernel, whose functions are parameters. \<open>kernel_fifo\<close> is what their documentation says of a queue that no other task disturbs; with it the
  wrappers satisfy the contract \<open>bounded_fifo\<close> of the other ports.
\<close>

section \<open>Model\<close>

subsection \<open>FreeRTOS\<close>

text \<open>A kernel call on a queue gives whether it passed (or the item); \<open>None\<close> is a wait that never ends. The time-out is
  given in ticks of \<open>period\<close> (\<^verbatim>\<open>portTICK_PERIOD_MS\<close>) milliseconds; the longest one stays as it is.\<close>

definition freertos_ticks :: "u32 \<Rightarrow> u32 \<Rightarrow> u32" where
  "freertos_ticks period timeout = (if timeout \<noteq> CSP_MAX_TIMEOUT then timeout div period else timeout)"

definition freertos_enqueue :: "u32 \<Rightarrow> ('q \<Rightarrow> 'a \<Rightarrow> u32 \<Rightarrow> (bool, 'q) outcome) \<Rightarrow> 'q \<Rightarrow> 'a \<Rightarrow> u32 \<Rightarrow> (int, 'q) outcome" where
  "freertos_enqueue period xQueueSendToBack handle value timeout = do {
     (passed, handle) \<leftarrow> xQueueSendToBack handle value (freertos_ticks period timeout);
     Some (if passed then CSP_QUEUE_OK else CSP_QUEUE_ERROR, handle)
   }"

definition freertos_enqueue_isr :: "('q \<Rightarrow> 'a \<Rightarrow> (bool, 'q) outcome) \<Rightarrow> 'q \<Rightarrow> 'a \<Rightarrow> (int, 'q) outcome" where
  "freertos_enqueue_isr xQueueSendToBackFromISR handle value = do {
     (passed, handle) \<leftarrow> xQueueSendToBackFromISR handle value;
     Some (if passed then CSP_QUEUE_OK else CSP_QUEUE_ERROR, handle)
   }"

definition freertos_dequeue :: "u32 \<Rightarrow> ('q \<Rightarrow> u32 \<Rightarrow> ('a option, 'q) outcome) \<Rightarrow> 'q \<Rightarrow> u32 \<Rightarrow> (int \<times> 'a option, 'q) outcome" where
  "freertos_dequeue period xQueueReceive handle timeout = do {
     (buf, handle) \<leftarrow> xQueueReceive handle (freertos_ticks period timeout);
     Some (if buf \<noteq> None then (CSP_QUEUE_OK, buf) else (CSP_QUEUE_ERROR, None), handle)
   }"

definition freertos_dequeue_isr :: "('q \<Rightarrow> ('a option, 'q) outcome) \<Rightarrow> 'q \<Rightarrow> (int \<times> 'a option, 'q) outcome" where
  "freertos_dequeue_isr xQueueReceiveFromISR handle = do {
     (buf, handle) \<leftarrow> xQueueReceiveFromISR handle;
     Some (if buf \<noteq> None then (CSP_QUEUE_OK, buf) else (CSP_QUEUE_ERROR, None), handle)
   }"

text \<open>A semaphore is the handle of the task that waits last; waiting is taking the notifications of that task, posting is
  giving one. \<open>me\<close> is the task that runs.\<close>

definition freertos_sem_init :: "nat option" where
  "freertos_sem_init = None"

definition freertos_sem_wait ::
  "u32 \<Rightarrow> (nat \<Rightarrow> u32 \<Rightarrow> 'k \<Rightarrow> (u32, 'k) outcome) \<Rightarrow> nat \<Rightarrow> u32 \<Rightarrow> nat option \<Rightarrow> 'k \<Rightarrow> (int, nat option \<times> 'k) outcome" where
  "freertos_sem_wait period ulTaskNotifyTake me timeout sem k = do {
     let sem = Some me;
     (n, k) \<leftarrow> ulTaskNotifyTake me (freertos_ticks period timeout) k;
     Some (if n \<ge> 1 then CSP_SEMAPHORE_OK else CSP_SEMAPHORE_ERROR, sem, k)
   }"

definition freertos_sem_post :: "(nat \<Rightarrow> 'k \<Rightarrow> 'k) \<Rightarrow> nat option \<Rightarrow> 'k \<Rightarrow> int \<times> nat option \<times> 'k" where
  "freertos_sem_post xTaskNotifyGive sem k =
     (CSP_SEMAPHORE_OK, sem, case sem of None \<Rightarrow> k | Some task \<Rightarrow> xTaskNotifyGive task k)"

text \<open>Times, from the count of ticks and their rate \<open>hz\<close>.\<close>

definition freertos_get_ms :: "u32 \<Rightarrow> u32 \<Rightarrow> u32" where
  "freertos_get_ms hz ticks = ticks * (1000 div hz)"

definition freertos_get_s :: "u32 \<Rightarrow> u32 \<Rightarrow> u32" where
  "freertos_get_s hz ticks = ticks div hz"

definition freertos_clock_get_time :: "u32 \<times> u32" where
  "freertos_clock_get_time = (0, 0)"

definition freertos_clock_set_time :: "u32 \<times> u32 \<Rightarrow> int" where
  "freertos_clock_set_time t = CSP_ERR_NOTSUP"

subsection \<open>Zephyr\<close>

text \<open>The calls of the kernel return zero or an error; \<open>K_MSEC\<close> makes a time-out of the kernel from milliseconds.\<close>

definition csp_errno_zephyr_to_csp :: "int \<Rightarrow> int" where
  "csp_errno_zephyr_to_csp err = (if err = 0 then CSP_QUEUE_OK else CSP_QUEUE_ERROR)"

definition zephyr_enqueue :: "(u32 \<Rightarrow> 't) \<Rightarrow> ('q \<Rightarrow> 'a \<Rightarrow> 't \<Rightarrow> (int, 'q) outcome) \<Rightarrow> 'q \<Rightarrow> 'a \<Rightarrow> u32 \<Rightarrow> (int, 'q) outcome" where
  "zephyr_enqueue K_MSEC k_msgq_put queue value timeout = do {
     (ret, queue) \<leftarrow> k_msgq_put queue value (K_MSEC timeout);
     Some (csp_errno_zephyr_to_csp ret, queue)
   }"

definition zephyr_enqueue_isr :: "'t \<Rightarrow> ('q \<Rightarrow> 'a \<Rightarrow> 't \<Rightarrow> (int, 'q) outcome) \<Rightarrow> 'q \<Rightarrow> 'a \<Rightarrow> (int, 'q) outcome" where
  "zephyr_enqueue_isr K_NO_WAIT k_msgq_put queue value = do {
     (ret, queue) \<leftarrow> k_msgq_put queue value K_NO_WAIT;
     Some (csp_errno_zephyr_to_csp ret, queue)
   }"

definition zephyr_dequeue ::
  "(u32 \<Rightarrow> 't) \<Rightarrow> ('q \<Rightarrow> 't \<Rightarrow> (int \<times> 'a option, 'q) outcome) \<Rightarrow> 'q \<Rightarrow> u32 \<Rightarrow> (int \<times> 'a option, 'q) outcome" where
  "zephyr_dequeue K_MSEC k_msgq_get queue timeout = do {
     ((ret, buf), queue) \<leftarrow> k_msgq_get queue (K_MSEC timeout);
     Some ((csp_errno_zephyr_to_csp ret, buf), queue)
   }"

definition zephyr_dequeue_isr :: "'t \<Rightarrow> ('q \<Rightarrow> 't \<Rightarrow> (int \<times> 'a option, 'q) outcome) \<Rightarrow> 'q \<Rightarrow> (int \<times> 'a option, 'q) outcome" where
  "zephyr_dequeue_isr K_NO_WAIT k_msgq_get queue = do {
     ((ret, buf), queue) \<leftarrow> k_msgq_get queue K_NO_WAIT;
     Some ((csp_errno_zephyr_to_csp ret, buf), queue)
   }"

definition csp_bin_sem_errno_to_csp :: "int \<Rightarrow> int" where
  "csp_bin_sem_errno_to_csp v = (if v = 0 then CSP_SEMAPHORE_OK else CSP_SEMAPHORE_ERROR)"

text \<open>The kernel has the semaphore, with its initial count and limit.\<close>

definition zephyr_sem_init :: "(nat \<Rightarrow> nat \<Rightarrow> 's) \<Rightarrow> 's" where
  "zephyr_sem_init k_sem_init = k_sem_init 1 1"

definition zephyr_sem_wait :: "(u32 \<Rightarrow> 't) \<Rightarrow> ('s \<Rightarrow> 't \<Rightarrow> (int, 's) outcome) \<Rightarrow> u32 \<Rightarrow> 's \<Rightarrow> (int, 's) outcome" where
  "zephyr_sem_wait K_MSEC k_sem_take timeout sem = do {
     (ret, sem) \<leftarrow> k_sem_take sem (K_MSEC timeout);
     Some (csp_bin_sem_errno_to_csp ret, sem)
   }"

definition zephyr_sem_post :: "('s \<Rightarrow> 's) \<Rightarrow> 's \<Rightarrow> int \<times> 's" where
  "zephyr_sem_post k_sem_give sem = (CSP_SEMAPHORE_OK, k_sem_give sem)"

definition zephyr_get_s :: "u32 \<Rightarrow> u32" where
  "zephyr_get_s uptime = uptime div 1000"

section \<open>Queues\<close>

text \<open>What the documentation says of a queue of the kernel, for a call that no other task disturbs, with finite time-outs \<open>fin\<close>.\<close>

definition kernel_fifo ::
  "('q \<Rightarrow> 'a \<Rightarrow> 't \<Rightarrow> (bool, 'q) outcome) \<Rightarrow> ('q \<Rightarrow> 't \<Rightarrow> ('a option, 'q) outcome) \<Rightarrow> ('t \<Rightarrow> bool) \<Rightarrow> ('q \<Rightarrow> 'a list) \<Rightarrow> ('q \<Rightarrow> nat) \<Rightarrow> ('q \<Rightarrow> bool) \<Rightarrow> bool" where
  "kernel_fifo put get fin elems cap good \<longleftrightarrow>
     (\<forall>q v t. good q \<and> length (elems q) < cap q \<longrightarrow>
        (\<exists>q'. put q v t = Some (True, q') \<and> good q' \<and> cap q' = cap q \<and> elems q' = elems q @ [v])) \<and>
     (\<forall>q v t. good q \<and> length (elems q) = cap q \<and> fin t \<longrightarrow> put q v t = Some (False, q)) \<and>
     (\<forall>q x xs t. good q \<and> elems q = x # xs \<longrightarrow> (\<exists>q'. get q t = Some (Some x, q') \<and> good q' \<and> cap q' = cap q \<and> elems q' = xs)) \<and>
     (\<forall>q t. good q \<and> elems q = [] \<and> fin t \<longrightarrow> get q t = Some (None, q)) \<and>
     (\<forall>q. good q \<longrightarrow> length (elems q) \<le> cap q)"

lemma kernel_fifo_laws:
  assumes "kernel_fifo put get fin elems cap good"
  shows "good q \<Longrightarrow> length (elems q) < cap q \<Longrightarrow> \<exists>q'. put q v t = Some (True, q') \<and> good q' \<and> cap q' = cap q \<and> elems q' = elems q @ [v]"
    "good q \<Longrightarrow> length (elems q) = cap q \<Longrightarrow> fin t \<Longrightarrow> put q v t = Some (False, q)"
    "good q \<Longrightarrow> elems q = x # xs \<Longrightarrow> \<exists>q'. get q t = Some (Some x, q') \<and> good q' \<and> cap q' = cap q \<and> elems q' = xs"
    "good q \<Longrightarrow> elems q = [] \<Longrightarrow> fin t \<Longrightarrow> get q t = Some (None, q)"
    "good q \<Longrightarrow> length (elems q) \<le> cap q"
  using assms unfolding kernel_fifo_def by blast+

text \<open>A finite time-out stays finite in ticks: it is never longer than what was asked for, and shorter by less than a tick.\<close>

lemma freertos_ticks_bounds:
  assumes "timeout \<noteq> CSP_MAX_TIMEOUT" "0 < period"
  shows "freertos_ticks period timeout \<noteq> CSP_MAX_TIMEOUT" "unat (freertos_ticks period timeout) * unat period \<le> unat timeout"
    "unat timeout < (unat (freertos_ticks period timeout) + 1) * unat period"
proof -
  have p: "0 < unat period" using assms(2) by (simp add: unat_gt_0 word_neq_0_conv [symmetric])
  have u: "unat (freertos_ticks period timeout) = unat timeout div unat period" using assms(1) by (simp add: freertos_ticks_def unat_div)
  have "unat timeout < unat (CSP_MAX_TIMEOUT :: u32)"
    using assms(1) unsigned_less [of timeout, where 'a = nat] by (simp add: CSP_MAX_TIMEOUT_def word_unat_eq_iff)
  then have "unat (freertos_ticks period timeout) < unat (CSP_MAX_TIMEOUT :: u32)" unfolding u by (meson div_le_dividend le_less_trans)
  then show "freertos_ticks period timeout \<noteq> CSP_MAX_TIMEOUT" by auto
  show "unat (freertos_ticks period timeout) * unat period \<le> unat timeout" unfolding u by simp
  show "unat timeout < (unat (freertos_ticks period timeout) + 1) * unat period" unfolding u using dividend_less_div_times [OF p, of "unat timeout"] by simp
qed

lemma freertos_fifo:
  assumes "kernel_fifo put get (\<lambda>t. t \<noteq> CSP_MAX_TIMEOUT) elems cap good" "0 < period"
  shows "bounded_fifo (freertos_enqueue period put) (freertos_dequeue period get) elems cap good"
proof (unfold_locales, goal_cases)
  case (1 q t v)
  from kernel_fifo_laws(1) [OF assms(1) 1(1,2), of v "freertos_ticks period t"] show ?case by (auto simp: freertos_enqueue_def)
next
  case (2 q t v)
  from kernel_fifo_laws(2) [OF assms(1) 2(1,2) freertos_ticks_bounds(1) [OF 2(3) assms(2)], of v] show ?case by (simp add: freertos_enqueue_def)
next
  case (3 q x xs t)
  from kernel_fifo_laws(3) [OF assms(1) 3, of "freertos_ticks period t"] show ?case by (auto simp: freertos_dequeue_def)
next
  case (4 q t)
  from kernel_fifo_laws(4) [OF assms(1) 4(1,2) freertos_ticks_bounds(1) [OF 4(3) assms(2)]] show ?case by (simp add: freertos_dequeue_def)
next
  case (5 q)
  then show ?case by (rule kernel_fifo_laws(5) [OF assms(1)])
qed

text \<open>On Zephyr the calls give numbers; those of milliseconds are finite, also of the longest one.\<close>

definition put_code :: "('q \<Rightarrow> 'a \<Rightarrow> 't \<Rightarrow> (bool, 'q) outcome) \<Rightarrow> int \<Rightarrow> 'q \<Rightarrow> 'a \<Rightarrow> 't \<Rightarrow> (int, 'q) outcome" where
  "put_code put e q v t = map_option (\<lambda>(b, q). (if b then 0 else e, q)) (put q v t)"

definition get_code :: "('q \<Rightarrow> 't \<Rightarrow> ('a option, 'q) outcome) \<Rightarrow> int \<Rightarrow> 'q \<Rightarrow> 't \<Rightarrow> (int \<times> 'a option, 'q) outcome" where
  "get_code get e q t = map_option (\<lambda>(b, q). ((if b \<noteq> None then 0 else e, b), q)) (get q t)"

lemma zephyr_fifo:
  assumes "kernel_fifo put get fin elems cap good" "\<And>t. t \<noteq> CSP_MAX_TIMEOUT \<Longrightarrow> fin (K_MSEC t)" "e \<noteq> 0"
  shows "bounded_fifo (zephyr_enqueue K_MSEC (put_code put e)) (zephyr_dequeue K_MSEC (get_code get e)) elems cap good"
proof (unfold_locales, goal_cases)
  case (1 q t v)
  from kernel_fifo_laws(1) [OF assms(1) 1(1,2), of v "K_MSEC t"] show ?case
    by (auto simp: zephyr_enqueue_def put_code_def csp_errno_zephyr_to_csp_def)
next
  case (2 q t v)
  from kernel_fifo_laws(2) [OF assms(1) 2(1,2) assms(2) [OF 2(3)], of v] assms(3) show ?case
    by (simp add: zephyr_enqueue_def put_code_def csp_errno_zephyr_to_csp_def)
next
  case (3 q x xs t)
  from kernel_fifo_laws(3) [OF assms(1) 3, of "K_MSEC t"] show ?case
    by (auto simp: zephyr_dequeue_def get_code_def csp_errno_zephyr_to_csp_def)
next
  case (4 q t)
  from kernel_fifo_laws(4) [OF assms(1) 4(1,2) assms(2) [OF 4(3)]] assms(3) show ?case
    by (simp add: zephyr_dequeue_def get_code_def csp_errno_zephyr_to_csp_def)
next
  case (5 q)
  then show ?case by (rule kernel_fifo_laws(5) [OF assms(1)])
qed

text \<open>The ring of the POSIX port is such a queue, so that both wrappers, put above it, satisfy the contract.\<close>

definition ring_put :: "'a pthread_queue_t \<Rightarrow> 'a \<Rightarrow> u32 \<Rightarrow> (bool, 'a pthread_queue_t) outcome" where
  "ring_put q v t = map_option (\<lambda>(r, q). (r = CSP_QUEUE_OK, q)) (macosx_enqueue q v t)"

definition ring_get :: "'a pthread_queue_t \<Rightarrow> u32 \<Rightarrow> ('a option, 'a pthread_queue_t) outcome" where
  "ring_get q t = map_option (\<lambda>((r, x), q). (x, q)) (macosx_dequeue q t)"

lemma macosx_enq_any: "macosx_enqueue q v t = macosx_enqueue q v 0"
  by (simp add: macosx_enqueue_def)

lemma macosx_deq_any: "macosx_dequeue q t = macosx_dequeue q 0"
  by (simp add: macosx_dequeue_def)

lemma ring_kernel_fifo: "kernel_fifo ring_put ring_get (\<lambda>t. t \<noteq> CSP_MAX_TIMEOUT) queue_list qsize queue_wf"
proof -
  have z: "(0 :: u32) \<noteq> CSP_MAX_TIMEOUT" by (simp add: CSP_MAX_TIMEOUT_def)
  have "\<exists>q'. ring_put q v t = Some (True, q') \<and> queue_wf q' \<and> qsize q' = qsize q \<and> queue_list q' = queue_list q @ [v]"
    if "queue_wf q" "length (queue_list q) < qsize q" for q :: "'a pthread_queue_t" and v t
    using mq.enq_room [OF that z, of v] by (auto simp: ring_put_def macosx_enq_any [of q v t])
  moreover have "ring_put q v t = Some (False, q)" if "queue_wf q" "length (queue_list q) = qsize q" for q :: "'a pthread_queue_t" and v t
    using mq.enq_full [OF that z, of v] by (simp add: ring_put_def macosx_enq_any [of q v t])
  moreover have "\<exists>q'. ring_get q t = Some (Some x, q') \<and> queue_wf q' \<and> qsize q' = qsize q \<and> queue_list q' = xs"
    if "queue_wf q" "queue_list q = x # xs" for q :: "'a pthread_queue_t" and x xs t
    using mq.deq_item [OF that, of t] by (auto simp: ring_get_def)
  moreover have "ring_get q t = Some (None, q)" if "queue_wf q" "queue_list q = []" for q :: "'a pthread_queue_t" and t
    using mq.deq_empty [OF that z] by (simp add: ring_get_def macosx_deq_any [of q t])
  moreover have "length (queue_list q) \<le> qsize q" if "queue_wf q" for q :: "'a pthread_queue_t" using that by (rule mq.elems_cap)
  ultimately show ?thesis unfolding kernel_fifo_def by blast
qed

interpretation fq: bounded_fifo "freertos_enqueue 10 ring_put" "freertos_dequeue 10 ring_get" queue_list qsize queue_wf
  by (rule freertos_fifo [OF ring_kernel_fifo]) simp

interpretation zq: bounded_fifo "zephyr_enqueue (\<lambda>t. t) (put_code ring_put (-11))" "zephyr_dequeue (\<lambda>t. t) (get_code ring_get (-11))"
    queue_list qsize queue_wf
  by (rule zephyr_fifo [OF ring_kernel_fifo]) simp_all

section \<open>Semaphores and times\<close>

text \<open>On FreeRTOS a post before the first wait is lost: the semaphore knows no task to notify. After it, the wait still waits.\<close>

lemma freertos_post_lost: "freertos_sem_post give freertos_sem_init k = (CSP_SEMAPHORE_OK, freertos_sem_init, k)"
  by (simp add: freertos_sem_post_def freertos_sem_init_def)

text \<open>After a wait, a post reaches the task that waited.\<close>

lemma freertos_post_after_wait:
  assumes "freertos_sem_wait period take_notes me timeout sem k = Some (r, sem', k')"
  shows "freertos_sem_post give sem' k'' = (CSP_SEMAPHORE_OK, Some me, give me k'')"
  using assms by (auto simp: freertos_sem_wait_def freertos_sem_post_def bind_Some_iff)

text \<open>The milliseconds of FreeRTOS agree with its seconds when the rate divides 1000, before they wrap around; with more than 1000 ticks a second they
  stand still.\<close>

theorem freertos_times_agree:
  assumes "unat hz * c = 1000" "unat ticks * c < 2 ^ 32"
  shows "freertos_get_ms hz ticks div 1000 = freertos_get_s hz ticks"
proof -
  have h: "0 < unat hz" "0 < c" using assms(1) by (auto intro: Nat.gr0I)
  then have "1000 div unat hz = c" using assms(1) by (metis nonzero_mult_div_cancel_left less_not_refl)
  then have c: "unat ((1000 :: u32) div hz) = c" by (simp add: unat_div)
  have "unat (freertos_get_ms hz ticks) = unat ticks * c" 
    unfolding freertos_get_ms_def unat_word_ariths(2) c using assms(2) by simp
  then have "unat (freertos_get_ms hz ticks div 1000) = (unat ticks * c) div (unat hz * c)" using assms(1) by (simp add: unat_div)
  also have "\<dots> = unat (freertos_get_s hz ticks)" using h by (simp add: freertos_get_s_def unat_div)
  finally show ?thesis by (simp add: word_unat_eq_iff)
qed

theorem freertos_times_agree_witness: "freertos_get_ms 100 12345 div 1000 = freertos_get_s 100 (12345 :: u32)"
  by (rule freertos_times_agree [of _ 10]) simp_all

lemma freertos_fast_ticks: "1000 < hz \<Longrightarrow> freertos_get_ms hz ticks = 0"
  by (simp add: freertos_get_ms_def word_unat_eq_iff unat_word_ariths unat_div word_less_nat_alt)

end
