(* ===== verification/Csp_Drivers_Contrib.thy ===== *)
theory Csp_Drivers_Contrib
  imports Csp_Links Csp_Drivers
begin

text \<open>
  The CAN driver for the controller of the ATSAMC21 (\<^verbatim>\<open>contrib/drivers/can/csp_driver_can.c\<close>): filters, transmission with its retries, the
  interrupt handlers and the initialisation of the one static interface. What the hardware abstraction layer gives is a parameter, the lock has
  no effect on one task.
\<close>

section \<open>Model\<close>

datatype can_mode_e = CSP_CAN_MASKED | CSP_CAN_PROMISC | CSP_CAN_OTHER

definition CSP_DBG_ERR_INVALID_CAN_CONFIG :: u8 where [simp, csp_defs]: "CSP_DBG_ERR_INVALID_CAN_CONFIG = 5"

record mcan_s =
  mcan_id :: u32
  id_l3bc :: u32
  id_l2bc :: u32
  mcan_mask :: u32

text \<open>A shift of a signed integer that does not fit is undefined.\<close>

definition shl_int :: "int \<Rightarrow> nat \<Rightarrow> u32 option" where
  "shl_int v n = (if 0 \<le> v \<and> v * 2 ^ n < 2 ^ 31 then Some (word_of_int (v * 2 ^ n)) else None)"

text \<open>The identifiers and the mask; the second result is whether the mode is valid.\<close>

definition can_filters :: "csp_conf_t \<Rightarrow> int \<Rightarrow> int \<Rightarrow> can_mode_e \<Rightarrow> mcan_s \<Rightarrow> (mcan_s \<times> bool) option" where
  "can_filters conf addr netmask mode m = do {
     (can_mask, m) \<leftarrow>
       (if version conf = 2 then do {
          a \<leftarrow> shl_int addr CFP2_DST_OFFSET;
          one \<leftarrow> shift_one (csp_id_get_host_bits conf - word_of_int netmask);
          l3 \<leftarrow> shl_int (uint one - 1) CFP2_DST_OFFSET;
          l2 \<leftarrow> shl_int 0x3FFF CFP2_DST_OFFSET;
          Some (push_bit CFP2_DST_OFFSET CFP2_DST_MASK, m\<lparr>mcan_id := a, id_l3bc := l3, id_l2bc := l2\<rparr>)
        }
        else Some (CFP_MAKE_DST (push_bit CFP_HOST_SIZE 1 - 1), m\<lparr>mcan_id := CFP_MAKE_DST (word_of_int addr), id_l2bc := 0, id_l3bc := 0\<rparr>));
     Some (case mode of
             CSP_CAN_MASKED \<Rightarrow> (m\<lparr>mcan_mask := can_mask\<rparr>, True)
           | CSP_CAN_PROMISC \<Rightarrow> (m\<lparr>mcan_mask := 0\<rparr>, True)
           | CSP_CAN_OTHER \<Rightarrow> (m, False))
   }"

text \<open>The three filters of the controller, as pairs of identifier and mask.\<close>

definition can_filter_list :: "mcan_s \<Rightarrow> (u32 \<times> u32) list" where
  "can_filter_list m = [(mcan_id m, mcan_mask m), (id_l3bc m, mcan_mask m), (id_l2bc m, mcan_mask m)]"

text \<open>The result is whether an interface is returned and the filters that are set. \<open>iface\<close> is the static interface.\<close>

definition csp_driver_can_init :: "nat \<Rightarrow> int \<Rightarrow> int \<Rightarrow> can_mode_e \<Rightarrow> node \<Rightarrow> (nat option \<times> (u32 \<times> u32) list) csp" where
  "csp_driver_can_init iface addr netmask mode s = do {
     (m, valid) \<leftarrow> can_filters (csp_conf s) addr netmask mode \<lparr>mcan_id = 0, id_l3bc = 0, id_l2bc = 0, mcan_mask = 0\<rparr>;
     (if \<not> valid then Some ((None, []), s\<lparr>csp_dbg_errno := CSP_DBG_ERR_INVALID_CAN_CONFIG\<rparr>)
      else do {
        s \<leftarrow> upd_iface iface (\<lambda>f. f\<lparr>if_mtu := of_nat (if CSP_BUFFER_SIZE > 2042 then 2042 else CSP_BUFFER_SIZE),
               if_data := Can_Data \<lparr>cfp_packet_counter = 0, pbufs = None\<rparr>, if_addr := word_of_int addr, if_netmask := word_of_int netmask\<rparr>) s;
        (_, s) \<leftarrow> csp_can_add_interface (Some iface) True True s;
        Some ((Some iface, can_filter_list m), s)
      })
   }"

text \<open>The frames that \<^verbatim>\<open>can_async_read\<close> gives until it has none: identifier, the eight bytes of the buffer, length.\<close>

primrec CAN_0_rx_callback :: "nat \<Rightarrow> (u32 \<times> u8 list \<times> u8) list \<Rightarrow> node \<Rightarrow> unit csp" where
  "CAN_0_rx_callback iface [] s = Some ((), s)"
| "CAN_0_rx_callback iface (msg # msgs) s = do {
     (_, s) \<leftarrow> csp_can_rx iface (fst msg) (fst (snd msg)) (snd (snd msg)) True s;
     CAN_0_rx_callback iface msgs s
   }"

definition CAN_0_irq_callback :: "nat \<Rightarrow> node \<Rightarrow> unit csp" where
  "CAN_0_irq_callback iface s = do {
     s \<leftarrow> upd_iface iface (\<lambda>f. f\<lparr>if_tx_error := if_tx_error f + 1\<rparr>) s;
     Some ((), s)
   }"

text \<open>\<open>can_write n\<close> says whether the controller takes the frame at the \<open>n\<close>-th attempt; the result is the number of attempts that are left.\<close>

primrec tx_attempts :: "nat \<Rightarrow> nat \<Rightarrow> (nat \<Rightarrow> bool) \<Rightarrow> nat" where
  "tx_attempts 0 n can_write = 0"
| "tx_attempts (Suc attempts) n can_write = (if can_write n then Suc attempts else tx_attempts attempts (n + 1) can_write)"

definition driver_can_tx_frame :: "bool \<Rightarrow> bool \<Rightarrow> (nat \<Rightarrow> bool) \<Rightarrow> int" where
  "driver_can_tx_frame has_driver has_lock can_write =
     (if \<not> has_driver \<or> \<not> has_lock then 0
      else if tx_attempts 3 0 can_write > 0 then CSP_ERR_NONE else CSP_ERR_BUSY)"

section \<open>Transmission and reception\<close>

lemma tx_attempts_pos: "tx_attempts k n w > 0 \<longleftrightarrow> (\<exists>j < k. w (n + j))"
proof (induction k arbitrary: n)
  case 0
  then show ?case by simp
next
  case (Suc k)
  then show ?case using Suc.IH [of "n + 1"] by (auto simp: less_Suc_eq_0_disj)
qed

lemma driver_can_tx_frame_result:
  "driver_can_tx_frame True True w = (if w 0 \<or> w 1 \<or> w 2 then CSP_ERR_NONE else CSP_ERR_BUSY)"
  using tx_attempts_pos [of 3 0 w] by (auto simp: driver_can_tx_frame_def numeral_eq_Suc less_Suc_eq)

text \<open>Without a driver or its lock, nothing is sent and success is reported.\<close>

lemma driver_can_tx_frame_none: "\<not> (d \<and> l) \<Longrightarrow> driver_can_tx_frame d l w = CSP_ERR_NONE"
  by (auto simp: driver_can_tx_frame_def)

lemma rx_callback_append:
  "CAN_0_rx_callback i (ms @ ns) s = do { (_, s) \<leftarrow> CAN_0_rx_callback i ms s; CAN_0_rx_callback i ns s }"
  by (induction ms arbitrary: s) (auto split: option.splits bind_split)

section \<open>Filters\<close>

lemma shl_int_eq:
  assumes "v < 2 ^ 14"
  shows "shl_int (int v) CFP2_DST_OFFSET = Some (push_bit 13 (of_nat v))"
proof -
  have "int v < 2 ^ 14" using assms by (metis of_nat_less_numeral_power_cancel_iff)
  moreover have "(word_of_int (int v * 2 ^ 13) :: u32) = push_bit 13 (of_nat v)" by (simp add: push_bit_eq_mult)
  ultimately show ?thesis by (simp add: shl_int_def)
qed

lemma can_filters_v2:
  assumes "version conf = 2" "a < 2 ^ 14" "k \<le> 14"
  shows "can_filters conf (int a) (int k) CSP_CAN_MASKED m = Some (m\<lparr>mcan_id := push_bit 13 (of_nat a), id_l3bc := push_bit 13 (of_nat (2 ^ (14 - k) - 1)),
    id_l2bc := push_bit 13 16383, mcan_mask := push_bit 13 CFP2_DST_MASK\<rparr>, True)"
proof -
  have k: "unat (word_of_int (int k) :: u32) = k" using assms(3) by simp
  have h: "csp_id_get_host_bits conf = 14" using assms(1) by (simp add: csp_id_get_host_bits_def)
  have u: "unat (14 - of_nat k :: u32) = 14 - k" using assms(3) k by (subst unat_sub) (simp_all add: word_le_nat_alt)
  have "(2 :: nat) ^ (14 - k) \<le> 2 ^ 14" by (rule power_increasing) simp_all
  then have p: "(2 :: nat) ^ (14 - k) - 1 < 2 ^ 14" by simp
  have s: "shift_one (csp_id_get_host_bits conf - word_of_int (int k)) = Some (push_bit (14 - k) 1)"
    unfolding shift_one_def h by (simp add: u word_less_nat_alt)
  have "unat (push_bit (14 - k) 1 :: u32) = 2 ^ (14 - k)" using p by (simp add: push_bit_eq_mult unat_of_nat_less [of "2 ^ (14 - k)", simplified])
  then have "uint (push_bit (14 - k) 1 :: u32) - 1 = int (2 ^ (14 - k) - 1)" by (simp add: of_nat_diff uint_nat)
  then show ?thesis unfolding can_filters_def using assms(1) s shl_int_eq [OF assms(2)] shl_int_eq [OF p] shl_int_eq [of 16383]
    by simp
qed

section \<open>Properties\<close>

text \<open>With header version 2 and without promiscuous mode, the controller accepts a frame exactly when its destination is the
  address of the node, the host part of the netmask alone, or the global broadcast address. The broadcast address of the subnet of the node, which
  the second filter is meant for, has the network part too: it is not accepted.\<close>

theorem csp_driver_can_filters_accept:
  assumes "version (csp_conf s) = 2" "a < 2 ^ 14" "k \<le> 14" "dst (pid x) < 2 ^ 14"
    "rest AND push_bit CFP2_DST_OFFSET CFP2_DST_MASK = 0" "csp_driver_can_init i (int a) (int k) CSP_CAN_MASKED s = Some ((r, fs), s')"
  shows "(\<exists>(ident, msk) \<in> set fs. (can2_fields x g n OR rest) AND msk = ident AND msk) \<longleftrightarrow>
    unat (dst (pid x)) \<in> {a, 2 ^ (14 - k) - 1, 16383}"
proof -
  let ?m = "push_bit 13 CFP2_DST_MASK"
  have fs: "fs = [(push_bit 13 (of_nat a), ?m), (push_bit 13 (of_nat (2 ^ (14 - k) - 1)), ?m), (push_bit 13 (of_nat 16383), ?m)]"
    using assms(6) by (auto simp: csp_driver_can_init_def can_filters_v2 [OF assms(1-3)] can_filter_list_def bind_Some_iff)
  have "(2 :: nat) ^ (14 - k) \<le> 2 ^ 14" by (rule power_increasing) simp_all
  then have p: "(2 :: nat) ^ (14 - k) - 1 < 2 ^ 14" by simp
  have match: "(can2_fields x g n OR rest) AND ?m = push_bit 13 (of_nat b) AND ?m \<longleftrightarrow> unat (dst (pid x)) = b" if "b < 2 ^ 14" for b
  proof -
    have u: "unat (of_nat b :: u32) = b" using that by simp
    then have "(of_nat b :: u32) < 2 ^ 14" using that by (simp add: word_less_nat_alt)
    from can2_dst_match [OF this assms(4,5), of g n] u show ?thesis by (auto simp: word_unat_eq_iff)
  qed
  show ?thesis unfolding fs using match [OF assms(2)] match [OF p] match [of 16383] by auto
qed

theorem csp_driver_can_filters_accept_witness:
  defines "s \<equiv> zero_node\<lparr>csp_conf := zero_conf\<lparr>version := 2\<rparr>, ifaces := [zero_iface]\<rparr>"
  shows "\<exists>fs s'. csp_driver_can_init 0 32 9 CSP_CAN_MASKED s = Some ((Some 0, fs), s') \<and>
    (\<exists>(ident, msk) \<in> set fs. can2_fields (zero_packet\<lparr>pid := zero_id\<lparr>dst := 32\<rparr>\<rparr>) zero_iface 0 AND msk = ident AND msk) \<and>
    \<not> (\<exists>(ident, msk) \<in> set fs. can2_fields (zero_packet\<lparr>pid := zero_id\<lparr>dst := 63\<rparr>\<rparr>) zero_iface 0 AND msk = ident AND msk)"
proof -
  have v: "version (csp_conf s) = 2" by (simp add: s_def)
  obtain fs s' where i: "csp_driver_can_init 0 32 9 CSP_CAN_MASKED s = Some ((Some 0, fs), s')"
    using can_filters_v2 [OF v, of 32 9]
    by (auto simp: csp_driver_can_init_def upd_iface_def get_iface_def put_iface_def csp_can_add_interface_def csp_iflist_add_def s_def zero_node_def Let_def)
  from csp_driver_can_filters_accept [OF v, of 32 9 "zero_packet\<lparr>pid := zero_id\<lparr>dst := d\<rparr>\<rparr>" 0 0 "Some 0" fs s' zero_iface 0 for d] i
  have "d < 2 ^ 14 \<Longrightarrow> (\<exists>(ident, msk) \<in> set fs. can2_fields (zero_packet\<lparr>pid := zero_id\<lparr>dst := d\<rparr>\<rparr>) zero_iface 0 AND msk = ident AND msk) \<longleftrightarrow>
      unat d \<in> {32, 31, 16383}" for d by simp
  from this [of 32] this [of 63] i show ?thesis by simp
qed

end
