(* ===== verification/Spec2Isabelle.thy ===== *)
theory Spec2Isabelle
  imports Csp_Tests Csp_Python_Own Csp_Rdp_Machine Csp_Probe_Link Csp_Cfp Csp_Client Csp_Yaml Csp_Serial Csp_Kernel_Ports Csp_Drivers_Contrib
begin

text \<open>
  A verification of the Cubesat Space Protocol library \<^verbatim>\<open>libcsp\<close> of this repository (\<^verbatim>\<open>src/libcsp\<close>), the program
  that the repository instruments for data-driven mutation testing. Paths below are relative to \<^verbatim>\<open>src/libcsp\<close>.

  \<^bold>\<open>The program.\<close> A node of a CSP network has a fixed pool of packet buffers. Interfaces (loopback, KISS, ...) put received packets
  into an input queue; the router takes them out, recognises duplicates, forwards packets for other nodes by subnet
  or routing table, and delivers packets for this node to callbacks, to connectionless sockets or to connections, after
  checking their checksum and authentication code. Applications read from connections and send on them; RDP makes a
  connection reliable, SFP cuts large data into packets.

  \<^bold>\<open>The model.\<close> All static variables of the library are the fields of one record \<open>node\<close> (theory \<open>Csp_Types\<close>), and an operation of C is a
  function from its arguments and a node to its result and the node afterwards, in the option type: \<open>None\<close> is undefined
  behaviour (a null pointer followed, an access outside an object) or a wait that never ends. A pointer is the index
  of the object in the array that holds it. Integers have the width they have in C. The configuration is the one the
  repository builds: RDP, HMAC, promiscuous mode and deduplication enabled, buffers of 256 bytes.

  \<^item> \<open>Csp_Prelude\<close>: words, byte order, checked access to byte arrays, judgements on operations that thread a state.
  \<^item> \<open>Csp_Queue\<close>: \<^verbatim>\<open>src/arch/posix/pthread_queue.c\<close>, \<^verbatim>\<open>csp_queue.c\<close>. The ring buffer refines a bounded list.
  \<^item> \<open>Csp_Queue_Ports\<close>: the queues of macOS and Windows (\<^verbatim>\<open>contrib/macosx/\<close>, \<^verbatim>\<open>contrib/windows/\<close>): instances of the same locale \<open>bounded_fifo\<close>, so that
    programs get the same answers on all three systems. \<open>Csp_Kernel_Ports\<close>: the wrappers of FreeRTOS and Zephyr (\<^verbatim>\<open>src/arch/\<close>), which satisfy the locale when
    the queue of the kernel does what it is documented to do.
  \<^item> \<open>Csp_Types\<close>: the structures and constants of \<^verbatim>\<open>include/csp/\<close> and \<^verbatim>\<open>src/csp_conn.h\<close>.
  \<^item> \<open>Csp_Id\<close>, \<open>Csp_Crc32\<close>, \<open>Csp_Sha1\<close>, \<open>Csp_Hmac\<close>: headers (\<^verbatim>\<open>src/csp_id.c\<close>), checksum (\<^verbatim>\<open>src/csp_crc32.c\<close>), hash and authentication code
    (\<^verbatim>\<open>src/crypto/\<close>): round trips, and equality with bitwise CRC-32C, SHA-1 and HMAC-SHA1.
  \<^item> \<open>Csp_Buffer\<close>: the pool (\<^verbatim>\<open>src/csp_buffer.c\<close>) and its invariant.
  \<^item> \<open>Csp_Iflist\<close>, \<open>Csp_Rtable\<close>, \<open>Csp_Port\<close>: interfaces (\<^verbatim>\<open>src/csp_iflist.c\<close>), routes (\<^verbatim>\<open>src/csp_rtable_cidr.c\<close>), ports (\<^verbatim>\<open>src/csp_port.c\<close>). The route that is found has
    the longest matching prefix.
  \<^item> \<open>Csp_Own\<close>: the judgement \<open>accounts H s\<close>: each buffer is in exactly one place, in the free queue, in a queue of the stack, or in the
    multiset \<open>H\<close> of those in the hands of the caller. It is the invariant that the operations on packets are proved to keep.
  \<^item> \<open>Csp_Input\<close>: input queue, promiscuous queue, duplicates, loopback (\<^verbatim>\<open>src/csp_qfifo.c\<close>, \<^verbatim>\<open>csp_promisc.c\<close>, \<^verbatim>\<open>csp_dedup.c\<close>, \<^verbatim>\<open>interfaces/csp_if_lo.c\<close>).
    The locale \<open>nexthop_contract\<close> is the contract of a transmit function.
  \<^item> \<open>Csp_Conn_Table\<close>: connections and semaphores (\<^verbatim>\<open>src/csp_conn.c\<close>, \<^verbatim>\<open>src/arch/posix/csp_semaphore.c\<close>): identifiers stay distinct, so that a packet finds one
    connection.
  \<^item> \<open>Csp_Send\<close>, \<open>Csp_Io\<close>: \<^verbatim>\<open>src/csp_io.c\<close>. Sending takes a packet over on all paths. The mutation
    probes of \<^verbatim>\<open>csp_read\<close> and \<^verbatim>\<open>csp_send\<close> are the parameter \<open>probe\<close> there.
  \<^item> \<open>Csp_Faqas\<close>, \<open>Csp_Probe\<close>, \<open>Csp_Probe_Link\<close>: the data-driven mutator (\<^verbatim>\<open>src/FAQAS_dataDrivenMutator.h\<close>) and the probes themselves: the fault models,
    the selection of a mutant, its operators. A mutant changes the field it was made for and no other, and with this
    identifier the packet leaves the instrumented \<^verbatim>\<open>csp_send\<close> (\<^verbatim>\<open>csp_io_mutated.c\<close>); over the loopback interface it arrives with the address of the
    interface as its source.
  \<^item> \<open>Csp_Rdp_Queue\<close>, \<open>Csp_Rdp_Base\<close>, \<open>Csp_Rdp\<close>, \<open>Csp_Rdp_Machine\<close>: \<^verbatim>\<open>src/csp_rdp_queue.c\<close> and \<^verbatim>\<open>src/csp_rdp.c\<close>: wrap-around of sequence numbers, the state machine as an
    inductive step relation, which the handling of a received packet refines up to and including the labels that close the connection, agreement on the options that
    \<^verbatim>\<open>csp_rdp_send_syn\<close> writes, closing. Reading from a connection, with RDP or without, is first in, first out and loses no buffer.
  \<^item> \<open>Csp_Route\<close>, \<open>Csp_Delivery\<close>, \<open>Csp_Start\<close>, \<open>Csp_Loopback\<close>: router, bridge and initialisation (\<^verbatim>\<open>src/csp_route.c\<close>, \<^verbatim>\<open>csp_bridge.c\<close>, \<^verbatim>\<open>csp_init.c\<close>). One step of
    the router keeps all buffers accounted for as long as no open connection uses RDP, which does lose buffers; initialisation establishes the invariants; a packet for a listening port ends up in its
    connection, and a new connection is announced to the socket.
  \<^item> \<open>Csp_Sfp\<close>, \<open>Csp_Sfp_Link\<close>: fragmentation (\<^verbatim>\<open>src/csp_sfp.c\<close>): the contents of each fragment and how the receiver puts fragments together; then the whole way, from
    \<^verbatim>\<open>csp_sfp_send\<close> over the loopback interface and the router to \<^verbatim>\<open>csp_sfp_recv\<close>: the receiver gets the data that was sent.
  \<^item> \<open>Csp_Kiss\<close>, \<open>Csp_Can\<close>, \<open>Csp_Cfp\<close>, \<open>Csp_Links\<close>: the interfaces (\<^verbatim>\<open>src/interfaces/\<close>): serial lines, both versions of the CAN fragmentation,
    and I2C, UDP, ZMQ and the tunnel. A packet that one end transmits arrives unchanged in the input queue of the other. \<open>Csp_Zmq\<close> has the set-up of ZMQ and the way through
    the proxy with its subscriptions.
  \<^item> \<open>Csp_Service\<close>, \<open>Csp_Client\<close>: the services on the reserved ports (\<^verbatim>\<open>src/csp_service_handler.c\<close>) and their clients (\<^verbatim>\<open>src/csp_services.c\<close>). The
    handler keeps all buffers accounted for and its management protocol accesses nothing outside the packet; the locale \<open>service_client\<close> is the contract of the transaction that the clients call.
  \<^item> \<open>Csp_Rtable_Text\<close>: the routing table as text (\<^verbatim>\<open>src/csp_rtable_stdio.c\<close>): a table that is printed can be read back.
  \<^item> \<open>Csp_Python\<close>, \<open>Csp_Python_Own\<close>: the Python binding (\<^verbatim>\<open>src/bindings/python/pycsp.c\<close>): capsules, exceptions and methods. However a Python
    program of one thread connects, accepts, reads, sends and frees packets, without RDP, each buffer is in one place.
  \<^item> \<open>Csp_Drivers\<close>: SocketCAN and KISS on a serial line (\<^verbatim>\<open>src/drivers/\<close>), the clock and times of POSIX (\<^verbatim>\<open>src/arch/posix/\<close>).
    \<open>Csp_Serial\<close>: serial lines on Linux and Windows (\<^verbatim>\<open>src/drivers/usart/\<close>): a device that cannot be opened leaves nothing behind, and the
    way the reads cut the bytes does not matter. \<open>Csp_Drivers_Contrib\<close>: the driver of a CAN controller (\<^verbatim>\<open>contrib/drivers/can/\<close>).
  \<^item> \<open>Csp_Hello\<close>, \<open>Csp_Tests\<close>: the test programs (\<^verbatim>\<open>../test_suite/\<close>) that decide whether a mutant is killed. A round of them, from the client
    over the loopback interface and the router to the server, ends in a node in which another one can begin; what the exit code of a program
    is depends only on what the mutation makes of the field that the program looks at.
  \<^item> \<open>Csp_Yaml\<close>: the configuration file (\<^verbatim>\<open>src/csp_yaml.c\<close>): the events of a document set up its interfaces one after the other.

  \<^bold>\<open>Loops.\<close> Loops over arrays and queues are recursion on lists or on a count fixed when the loop starts, as in the code. Loops that
  follow pointers, wait for other threads, or read until a connection is empty, an answer is complete (\<open>csp_ps_loop\<close>) or a document
  ends (\<open>csp_yaml_loop\<close>) are partial functions whose value \<open>None\<close> is not returning; that they return is part of the theorems about
  them. No operation has a fuel parameter; the number of rounds of a test program, which the programs
  end after a pause, is an argument.

  \<^bold>\<open>Concurrency.\<close> An operation runs alone except while it waits. What the other threads do during a wait is an argument: the list of
  wake-ups of a queue, or a function on the node for the waits on semaphores and empty queues. The test programs run in rounds: client, router, server.

  \<^bold>\<open>The environment.\<close> What is outside the repository is an argument of the definitions: the driver of an interface, the results of the
  system calls, the random numbers and environment variables of the mutator, the hooks of the services, the cryptographic hooks of the
  tunnel, the events of the YAML parser, the parsed arguments of a Python method and the other threads of the interpreter.

  \<^bold>\<open>Findings.\<close> Several theorems state what the code does where it does not do what it means to: a queue wait that a stale \<^verbatim>\<open>errno\<close> keeps
  from timing out, an interface list that is cut by adding an interface twice, a routing table written past its end and
  searched after being cleared, RDP queues that lose and relabel packets of other connections, a null clone that is sent, a
  reset missed at the wrap-around, frames within the MTU that KISS can send but not receive, a packet that the clean-up of
  the CAN interface frees and keeps in its list, a freed packet that is sent when there is no process list, a configuration that
  is read for ever after an error of the parser, one without interfaces that frees uninitialised data, and Python methods that
  return a value with an exception, lose the next hop of a route or its network mask. Of the test programs, one writes behind its
  arrays in the eleventh round, and one cannot see a mutation of the source address. On Windows the thread of a serial line follows a
  null pointer.

  \<^bold>\<open>Not modelled.\<close> The calls that open the sockets of UDP, stopping a SocketCAN interface, the locks of serial lines, printing
  (\<^verbatim>\<open>csp_hex_dump.c\<close>, the debug output), the hooks and the start-up of FreeRTOS and Zephyr, the examples: they are input and output or wrap libraries outside the
  repository. Of the mutator, the items of the types FLOAT and DOUBLE are left out: no fault model of the repository has one.
\<close>

end
